(* ===== verification/Prelude.thy ===== *)
theory Prelude
  imports Main "HOL-Library.Word" "HOL-Library.Code_Target_Numeral"
begin

text \<open>
  The vocabulary shared by every component of the brake health service model: exceptions as
  values of a sum type, machine-integer casts with the wrap-around written out, the character
  classes and the decimal printing of the C++ standard library that the sources use, and the
  generic lemmas on them that carry the component proofs.
\<close>

named_theorems brake_defs \<open>definitions that concrete evaluations unfold\<close>
named_theorems exn_simps \<open>rewriting of exception-passing code\<close>

section \<open>Exceptions\<close>

text \<open>
  The standard exception classes the sources throw. Callers only ever distinguish
  \<open>std::invalid_argument\<close> from the rest, but the class is kept at every throw.
\<close>

datatype exn =
    Invalid_argument string
  | Runtime_error string
  | Logic_error string
  | Length_error string
  | Overflow_error string
  | Out_of_range string

type_synonym 'a result = "exn + 'a"

definition bindE :: "'a result \<Rightarrow> ('a \<Rightarrow> 'b result) \<Rightarrow> 'b result" where
  "bindE m f = (case m of Inl e \<Rightarrow> Inl e | Inr x \<Rightarrow> f x)"

definition throwIf :: "bool \<Rightarrow> exn \<Rightarrow> unit result" where
  "throwIf c e = (if c then Inl e else Inr ())"

definition okE :: "'a result \<Rightarrow> bool" where
  "okE m = (case m of Inl _ \<Rightarrow> False | Inr _ \<Rightarrow> True)"

fun mapE :: "('a \<Rightarrow> 'b result) \<Rightarrow> 'a list \<Rightarrow> 'b list result" where
  "mapE f [] = Inr []"
| "mapE f (x # xs) = bindE (f x) (\<lambda>y. bindE (mapE f xs) (\<lambda>ys. Inr (y # ys)))"

lemma bindE_simps [simp, exn_simps]:
  "bindE (Inl e) f = Inl e" "bindE (Inr x) f = f x"
  by (simp_all add: bindE_def)

lemma bindE_eq_Inr [exn_simps]: "bindE m f = Inr y \<longleftrightarrow> (\<exists>x. m = Inr x \<and> f x = Inr y)"
  by (cases m) auto

lemma bindE_eq_Inl [exn_simps]:
  "bindE m f = Inl e \<longleftrightarrow> m = Inl e \<or> (\<exists>x. m = Inr x \<and> f x = Inl e)"
  by (cases m) auto

lemma bindE_assoc: "bindE (bindE m f) g = bindE m (\<lambda>x. bindE (f x) g)"
  by (cases m) auto

lemma bindE_Inr_right [simp]: "bindE m Inr = m"
  by (cases m) auto

lemma throwIf_simps [simp, exn_simps]:
  "throwIf True e = Inl e" "throwIf False e = Inr ()"
  by (simp_all add: throwIf_def)

lemma throwIf_eq_Inr [simp, exn_simps]: "throwIf c e = Inr u \<longleftrightarrow> \<not> c"
  by (simp add: throwIf_def)

lemma okE_simps [simp]: "okE (Inl e) = False" "okE (Inr x) = True"
  by (simp_all add: okE_def)

lemma okE_iff: "okE m \<longleftrightarrow> (\<exists>x. m = Inr x)"
  by (cases m) auto

lemma mapE_length: "mapE f xs = Inr ys \<Longrightarrow> length ys = length xs"
  by (induction xs arbitrary: ys) (auto simp: bindE_eq_Inr)

lemma mapE_nth: "mapE f xs = Inr ys \<Longrightarrow> i < length xs \<Longrightarrow> f (xs ! i) = Inr (ys ! i)"
  by (induction xs arbitrary: ys i) (auto simp: bindE_eq_Inr nth_Cons split: nat.splits)

section \<open>Machine integers\<close>

text \<open>
  Unsigned values are natural numbers and signed ones integers; the conversions below write
  out the wrap-around of the C++ casts and of unsigned arithmetic.
\<close>

definition u64_of_int :: "int \<Rightarrow> nat" where
  "u64_of_int x = nat (x mod 2 ^ 64)"

definition u64 :: "nat \<Rightarrow> nat" where
  "u64 n = n mod 2 ^ 64"

definition u32 :: "nat \<Rightarrow> nat" where
  "u32 n = n mod 2 ^ 32"

definition u64_max :: nat where
  "u64_max = 2 ^ 64 - 1"

definition i64_min :: int where "i64_min = - (2 ^ 63)"
definition i64_max :: int where "i64_max = 2 ^ 63 - 1"

lemma u64_of_int_id [simp]: "0 \<le> x \<Longrightarrow> x < 2 ^ 64 \<Longrightarrow> u64_of_int x = nat x"
  by (simp add: u64_of_int_def)

lemma u64_id [simp]: "n < 2 ^ 64 \<Longrightarrow> u64 n = n"
  by (simp add: u64_def)

lemma u32_id [simp]: "n < 2 ^ 32 \<Longrightarrow> u32 n = n"
  by (simp add: u32_def)

text \<open>Signed division and remainder of C++: they truncate towards zero.\<close>

definition cdiv :: "int \<Rightarrow> int \<Rightarrow> int" where
  "cdiv a b = sgn a * sgn b * (\<bar>a\<bar> div \<bar>b\<bar>)"

definition crem :: "int \<Rightarrow> int \<Rightarrow> int" where
  "crem a b = a - cdiv a b * b"

lemma cdiv_nonneg [simp]: "0 \<le> a \<Longrightarrow> 0 < b \<Longrightarrow> cdiv a b = a div b"
  by (cases "a = 0") (auto simp: cdiv_def)

lemma crem_nonneg [simp]: "0 \<le> a \<Longrightarrow> 0 < b \<Longrightarrow> crem a b = a mod b"
  by (simp add: crem_def minus_div_mult_eq_mod)

lemma cdiv_neg: "a \<le> 0 \<Longrightarrow> 0 < b \<Longrightarrow> cdiv a b = - ((- a) div b)"
  by (cases "a = 0") (auto simp: cdiv_def)

section \<open>Characters\<close>

definition code :: "char \<Rightarrow> nat" where
  "code c = of_char c"

definition is_dec :: "char \<Rightarrow> bool" where
  "is_dec c \<longleftrightarrow> 48 \<le> code c \<and> code c \<le> 57"

definition is_lower_hex :: "char \<Rightarrow> bool" where
  "is_lower_hex c \<longleftrightarrow> is_dec c \<or> (97 \<le> code c \<and> code c \<le> 102)"

definition is_upper :: "char \<Rightarrow> bool" where
  "is_upper c \<longleftrightarrow> 65 \<le> code c \<and> code c \<le> 90"

definition is_lower :: "char \<Rightarrow> bool" where
  "is_lower c \<longleftrightarrow> 97 \<le> code c \<and> code c \<le> 122"

definition is_alnum :: "char \<Rightarrow> bool" where
  "is_alnum c \<longleftrightarrow> is_upper c \<or> is_lower c \<or> is_dec c"

definition dec_val :: "char \<Rightarrow> nat" where
  "dec_val c = code c - 48"

definition dec_char :: "nat \<Rightarrow> char" where
  "dec_char d = char_of (48 + d)"

lemmas char_class_defs = code_def is_dec_def is_lower_hex_def is_upper_def is_lower_def is_alnum_def

lemma code_less_256: "code c < 256"
  by (cases c) (simp add: code_def of_char_def horner_sum_simps split: if_splits)

lemma code_char_of [simp]: "n < 256 \<Longrightarrow> code (char_of n) = n"
  by (simp add: code_def of_char_of take_bit_eq_mod)

lemma code_inject: "code a = code b \<longleftrightarrow> a = b"
  by (simp add: code_def)

lemma is_dec_dec_char [simp]: "d < 10 \<Longrightarrow> is_dec (dec_char d)"
  by (simp add: is_dec_def dec_char_def)

lemma dec_val_dec_char [simp]: "d < 10 \<Longrightarrow> dec_val (dec_char d) = d"
  by (simp add: dec_val_def dec_char_def)

lemma dec_char_dec_val [simp]: "is_dec c \<Longrightarrow> dec_char (dec_val c) = c"
  by (simp add: is_dec_def dec_char_def dec_val_def code_def)

lemma dec_val_less [simp]: "is_dec c \<Longrightarrow> dec_val c < 10"
  by (auto simp: is_dec_def dec_val_def)

section \<open>Decimal text\<close>

text \<open>\<open>dec_value\<close> is the accumulator loop \<open>result * 10 + (c - '0')\<close> of the sources.\<close>

definition dec_value :: "string \<Rightarrow> nat" where
  "dec_value s = foldl (\<lambda>acc c. acc * 10 + dec_val c) 0 s"

text \<open>\<open>std::to_string\<close> of an unsigned value.\<close>

fun to_string :: "nat \<Rightarrow> string" where
  "to_string n = (if n < 10 then [dec_char n] else to_string (n div 10) @ [dec_char (n mod 10)])"

declare to_string.simps [simp del]

definition int_to_string :: "int \<Rightarrow> string" where
  "int_to_string x = (if x < 0 then CHR ''-'' # to_string (nat (- x)) else to_string (nat x))"

text \<open>Zero padding on the left to a width: \<open>std::setw\<close>/\<open>setfill('0')\<close> and \<open>%0*d\<close>.\<close>

definition zero_pad :: "nat \<Rightarrow> string \<Rightarrow> string" where
  "zero_pad w s = replicate (w - length s) (CHR ''0'') @ s"

lemma dec_value_Nil [simp]: "dec_value [] = 0"
  by (simp add: dec_value_def)

lemma dec_value_append1 [simp]: "dec_value (s @ [c]) = dec_value s * 10 + dec_val c"
  by (simp add: dec_value_def)

lemma dec_value_append: "dec_value (s @ t) = dec_value s * 10 ^ length t + dec_value t"
  by (induction t rule: rev_induct) (simp_all flip: append_assoc)

lemma dec_value_Cons: "dec_value (c # s) = dec_val c * 10 ^ length s + dec_value s"
  using dec_value_append [of "[c]" s] by (simp add: dec_value_def)

lemma dec_value_bound: "list_all is_dec s \<Longrightarrow> dec_value s < 10 ^ length s"
proof (induction s)
  case Nil
  then show ?case by simp
next
  case (Cons c s)
  then have "dec_value s < 10 ^ length s" and "dec_val c < 10" by auto
  then have "dec_val c * 10 ^ length s + dec_value s < (dec_val c + 1) * 10 ^ length s"
    by simp
  also have "\<dots> \<le> 10 * 10 ^ length s"
    using \<open>dec_val c < 10\<close> by (intro mult_right_mono) simp_all
  finally show ?case by (simp add: dec_value_Cons)
qed

lemma to_string_not_Nil [simp]: "to_string n \<noteq> []"
  by (subst to_string.simps) simp

lemma to_string_digits: "list_all is_dec (to_string n)"
proof (induction n rule: to_string.induct)
  case (1 n)
  then show ?case by (subst to_string.simps) simp
qed

lemma dec_value_to_string [simp]: "dec_value (to_string n) = n"
proof (induction n rule: to_string.induct)
  case (1 n)
  then show ?case
    by (cases "n < 10") (simp_all add: to_string.simps [of n] dec_value_Cons)
qed

lemma to_string_inject [simp]: "to_string m = to_string n \<longleftrightarrow> m = n"
  by (metis dec_value_to_string)

lemma to_string_length_le: "n < 10 ^ k \<Longrightarrow> 0 < k \<Longrightarrow> length (to_string n) \<le> k"
proof (induction n arbitrary: k rule: to_string.induct)
  case (1 n)
  show ?case
  proof (cases "n < 10")
    case True
    with "1.prems" show ?thesis by (subst to_string.simps) simp
  next
    case False
    with "1.prems" have "1 < k" by (cases "k = 1") auto
    then obtain j where k: "k = Suc j" "0 < j" by (cases k) auto
    with "1.prems" have "n div 10 < 10 ^ j" by (simp add: less_mult_imp_div_less mult.commute)
    with "1.IH" False k have "length (to_string (n div 10)) \<le> j" by blast
    with False k show ?thesis by (subst to_string.simps) simp
  qed
qed

lemma length_zero_pad: "length s \<le> w \<Longrightarrow> length (zero_pad w s) = w"
  by (simp add: zero_pad_def)

lemma dec_value_replicate_zero [simp]: "dec_value (replicate k (CHR ''0'')) = 0"
  by (induction k) (simp_all add: dec_value_Cons dec_val_def code_def)

lemma dec_value_zero_pad [simp]: "dec_value (zero_pad w s) = dec_value s"
  by (simp add: zero_pad_def dec_value_append)

lemma zero_pad_digits: "list_all is_dec s \<Longrightarrow> list_all is_dec (zero_pad w s)"
  by (auto simp: zero_pad_def list_all_iff is_dec_def code_def)

lemma dec_value_inj:
  "length s = length t \<Longrightarrow> list_all is_dec s \<Longrightarrow> list_all is_dec t \<Longrightarrow>
    dec_value s = dec_value t \<Longrightarrow> s = t"
proof (induction s t rule: list_induct2)
  case Nil
  then show ?case by simp
next
  case (Cons a s b t)
  let ?p = "10 ^ length s :: nat"
  from Cons have bs: "dec_value s < ?p" and bt: "dec_value t < ?p"
    by (auto dest!: dec_value_bound)
  from Cons have eq: "dec_val a * ?p + dec_value s = dec_val b * ?p + dec_value t"
    by (simp add: dec_value_Cons)
  from arg_cong [OF eq, of "\<lambda>x. x div ?p"] bs bt have "dec_val a = dec_val b" by simp
  moreover from this eq have "dec_value s = dec_value t" by simp
  ultimately have "dec_char (dec_val a) = dec_char (dec_val b)" and "s = t"
    using Cons by auto
  with Cons.prems show ?case by simp
qed

lemma zero_pad_dec_value:
  assumes "list_all is_dec s" and "s \<noteq> []"
  shows "zero_pad (length s) (to_string (dec_value s)) = s"
proof (rule dec_value_inj)
  have "length (to_string (dec_value s)) \<le> length s"
    using assms by (intro to_string_length_le dec_value_bound) auto
  then show "length (zero_pad (length s) (to_string (dec_value s))) = length s"
    by (rule length_zero_pad)
  show "list_all is_dec (zero_pad (length s) (to_string (dec_value s)))"
    by (rule zero_pad_digits [OF to_string_digits])
qed (use assms in simp_all)

section \<open>Lists\<close>

lemma foldl_max_le:
  assumes "(m :: 'a :: linorder) \<le> b" and "\<And>x. x \<in> set xs \<Longrightarrow> f x \<le> b"
  shows "foldl (\<lambda>acc x. max acc (f x)) m xs \<le> b"
  using assms by (induction xs arbitrary: m) auto

lemma foldl_max_ge: "(m :: 'a :: linorder) \<le> foldl (\<lambda>acc x. max acc (f x)) m xs"
proof (induction xs arbitrary: m)
  case Nil
  then show ?case by simp
next
  case (Cons x xs)
  have "m \<le> max m (f x)" by simp
  also have "\<dots> \<le> foldl (\<lambda>acc x. max acc (f x)) (max m (f x)) xs" by (rule Cons.IH)
  finally show ?case by simp
qed

lemma length_filter_dropWhile_le: "length (filter P (dropWhile Q xs)) \<le> length (filter P xs)"
  by (induction xs) auto

end
