(* ===== verification/Identifiers.thy ===== *)
theory Identifiers
  imports Prelude
begin

text \<open>
  The identity of a service instance (\<^verbatim>\<open>include/brake_health/service_identity.hpp\<close>) and the
  text grammars that the v1, v2, v3 and runtime layers each implement for themselves:
  identifiers, versions, lowercase SHA-256 text and UUIDs. The lemmas relate the several
  implementations of one grammar to each other.
\<close>

section \<open>Service identity\<close>

record ServiceInstance =
  service_id :: string
  subject_id :: string
  instance_index :: nat
  instance_id :: string

definition native_identifier :: "string \<Rightarrow> bool" where
  "native_identifier value \<longleftrightarrow>
     value \<noteq> [] \<and> length value \<le> 128 \<and> is_alnum (hd value) \<and>
     list_all (\<lambda>c. is_alnum c \<or> c = CHR ''_'' \<or> c = CHR ''.'' \<or> c = CHR '':'' \<or> c = CHR ''-'') value"

text \<open>The regular expression \<^verbatim>\<open>(0|[1-9][0-9]*)\.(0|[1-9][0-9]*)\.(0|[1-9][0-9]*)\<close>.\<close>

fun split_on :: "char \<Rightarrow> string \<Rightarrow> string list" where
  "split_on d [] = [[]]"
| "split_on d (c # cs) =
     (if c = d then [] # split_on d cs
      else (c # hd (split_on d cs)) # tl (split_on d cs))"

definition version_number :: "string \<Rightarrow> bool" where
  "version_number s \<longleftrightarrow> s = ''0'' \<or> (s \<noteq> [] \<and> hd s \<noteq> CHR ''0'' \<and> list_all is_dec s)"

definition package_version :: "string \<Rightarrow> bool" where
  "package_version value \<longleftrightarrow>
     length value \<le> 32 \<and> length (split_on (CHR ''.'') value) = 3 \<and>
     list_all version_number (split_on (CHR ''.'') value)"

definition native_instance_valid :: "ServiceInstance \<Rightarrow> bool" where
  "native_instance_valid v \<longleftrightarrow>
     native_identifier (service_id v) \<and> native_identifier (subject_id v) \<and>
     native_identifier (instance_id v) \<and> instance_index v \<le> 9007199254740991"

definition service_instance_json :: "ServiceInstance \<Rightarrow> string result" where
  "service_instance_json v =
     (if \<not> native_instance_valid v then Inl (Invalid_argument ''NATIVE_IDENTITY_INVALID'')
      else Inr (''{\"instanceId\":\"'' @ instance_id v @ ''\",\"instanceIndex\":'' @
                to_string (instance_index v) @ '',\"serviceId\":\"'' @ service_id v @
                ''\",\"subjectId\":\"'' @ subject_id v @ ''\"}''))"

definition native_provenance_valid :: "ServiceInstance option \<Rightarrow> string \<Rightarrow> string \<Rightarrow> bool" where
  "native_provenance_valid inst version legacy_digest \<longleftrightarrow>
     (case inst of None \<Rightarrow> False | Some i \<Rightarrow> native_instance_valid i) \<and>
     package_version version \<and> legacy_digest = []"

section \<open>Identifiers, versions and digests of the message layers\<close>

definition bounded_identifier :: "string \<Rightarrow> bool" where
  "bounded_identifier value \<longleftrightarrow>
     value \<noteq> [] \<and> length value \<le> 128 \<and>
     list_all (\<lambda>c. is_upper c \<or> is_lower c \<or> is_dec c \<or> c = CHR ''.'' \<or> c = CHR ''_'' \<or>
                    c = CHR '':'' \<or> c = CHR ''-'') value"

text \<open>The v1 version loop: components may have leading zeros and the length is not bounded.\<close>

fun semantic_version_v1_loop :: "string \<Rightarrow> nat \<Rightarrow> bool \<Rightarrow> bool" where
  "semantic_version_v1_loop [] components digit \<longleftrightarrow> components = 2 \<and> digit"
| "semantic_version_v1_loop (c # cs) components digit \<longleftrightarrow>
     (if is_dec c then semantic_version_v1_loop cs components True
      else if c = CHR ''.'' \<and> digit \<and> components < 2
      then semantic_version_v1_loop cs (components + 1) False
      else False)"

definition semantic_version_v1 :: "string \<Rightarrow> bool" where
  "semantic_version_v1 value = semantic_version_v1_loop value 0 False"

text \<open>The v2 and v3 version loop.\<close>

fun semantic_version_loop :: "string \<Rightarrow> nat \<Rightarrow> bool \<Rightarrow> bool \<Rightarrow> bool" where
  "semantic_version_loop [] dots digit leading_zero \<longleftrightarrow> dots = 2 \<and> digit"
| "semantic_version_loop (c # cs) dots digit leading_zero \<longleftrightarrow>
     (if is_dec c then
        (if digit \<and> leading_zero then False
         else semantic_version_loop cs dots True (if \<not> digit then c = CHR ''0'' else leading_zero))
      else if c = CHR ''.'' \<and> digit \<and> dots < 2
      then semantic_version_loop cs (dots + 1) False leading_zero
      else False)"

definition semantic_version :: "string \<Rightarrow> bool" where
  "semantic_version value \<longleftrightarrow>
     \<not> (value = [] \<or> length value > 32) \<and> semantic_version_loop value 0 False False"

definition lowercase_sha256 :: "string \<Rightarrow> bool" where
  "lowercase_sha256 value \<longleftrightarrow> length value = 64 \<and> list_all is_lower_hex value"

section \<open>UUID text\<close>

definition uuid_dash :: "nat \<Rightarrow> bool" where
  "uuid_dash i \<longleftrightarrow> i = 8 \<or> i = 13 \<or> i = 18 \<or> i = 23"

text \<open>
  \<open>version = None\<close> is the default argument \<open>'\0'\<close> of \<open>canonical_uuid\<close>, which skips the
  version test.
\<close>

definition canonical_uuid :: "string \<Rightarrow> char option \<Rightarrow> bool" where
  "canonical_uuid value version \<longleftrightarrow>
     length value = 36 \<and> value ! 8 = CHR ''-'' \<and> value ! 13 = CHR ''-'' \<and>
     value ! 18 = CHR ''-'' \<and> value ! 23 = CHR ''-'' \<and>
     (case version of None \<Rightarrow> True | Some v \<Rightarrow> value ! 14 = v) \<and>
     value ! 19 \<in> set ''89ab'' \<and>
     (\<forall>i \<in> set [0..<length value]. uuid_dash i \<or> is_lower_hex (value ! i))"

definition valid_uuid4 :: "string \<Rightarrow> bool" where
  "valid_uuid4 value \<longleftrightarrow>
     length value = 36 \<and> value ! 8 = CHR ''-'' \<and> value ! 13 = CHR ''-'' \<and>
     value ! 18 = CHR ''-'' \<and> value ! 23 = CHR ''-'' \<and> value ! 14 = CHR ''4'' \<and>
     value ! 19 \<in> set ''89ab'' \<and>
     (\<forall>i \<in> set [0..<length value]. uuid_dash i \<or> is_lower_hex (value ! i))"

definition hex_value :: "char \<Rightarrow> int" where
  "hex_value c =
     (if 48 \<le> code c \<and> code c \<le> 57 then int (code c) - 48
      else if 97 \<le> code c \<and> code c \<le> 102 then int (code c) - 97 + 10
      else - 1)"

text \<open>
  The loop of \<open>decode_uuid\<close>: every dash is skipped, nibbles are paired, and a seventeenth
  byte would be out of the range of the array. The state is the pending high nibble
  (\<open>-1\<close> for none) and the bytes written so far.
\<close>

fun decode_uuid_loop :: "string \<Rightarrow> int \<Rightarrow> nat list \<Rightarrow> nat list result" where
  "decode_uuid_loop [] high bytes =
     (if length bytes \<noteq> 16 \<or> high \<ge> 0
      then Inl (Invalid_argument ''invalid UUID byte count'') else Inr bytes)"
| "decode_uuid_loop (c # cs) high bytes =
     (if c = CHR ''-'' then decode_uuid_loop cs high bytes
      else if hex_value c < 0
      then Inl (Invalid_argument ''UUID must use lowercase hexadecimal digits'')
      else if high < 0 then decode_uuid_loop cs (hex_value c) bytes
      else if length bytes \<ge> 16 then Inl (Out_of_range ''array::at'')
      else decode_uuid_loop cs (- 1) (bytes @ [nat (high * 16 + hex_value c)]))"

definition decode_uuid :: "string \<Rightarrow> nat list result" where
  "decode_uuid value =
     (if length value \<noteq> 36 \<or> value ! 8 \<noteq> CHR ''-'' \<or> value ! 13 \<noteq> CHR ''-'' \<or>
         value ! 18 \<noteq> CHR ''-'' \<or> value ! 23 \<noteq> CHR ''-''
      then Inl (Invalid_argument ''UUID must use lowercase RFC 4122 text form'')
      else decode_uuid_loop value (- 1) [])"

text \<open>
  \<open>uuid_with_version\<close> catches \<open>std::invalid_argument\<close> only; the other outcome of
  \<open>decode_uuid\<close> is propagated.
\<close>

definition uuid_with_version :: "string \<Rightarrow> char \<Rightarrow> bool result" where
  "uuid_with_version value version =
     (case decode_uuid value of
        Inl (Invalid_argument _) \<Rightarrow> Inr False
      | Inl e \<Rightarrow> Inl e
      | Inr _ \<Rightarrow> Inr (value ! 14 = version \<and> value ! 19 \<in> set ''89ab''))"

definition encode_hex_digit :: "nat \<Rightarrow> char" where
  "encode_hex_digit d = ''0123456789abcdef'' ! d"

definition encode_byte :: "nat \<Rightarrow> string" where
  "encode_byte b = [encode_hex_digit (b div 16), encode_hex_digit (b mod 16)]"

fun encode_uuid_loop :: "nat \<Rightarrow> nat list \<Rightarrow> string" where
  "encode_uuid_loop i [] = []"
| "encode_uuid_loop i (b # bs) =
     (if i = 4 \<or> i = 6 \<or> i = 8 \<or> i = 10 then ''-'' else []) @ encode_byte b @
     encode_uuid_loop (i + 1) bs"

definition encode_uuid :: "nat list \<Rightarrow> string" where
  "encode_uuid bytes = encode_uuid_loop 0 bytes"

section \<open>The version grammars agree\<close>

lemma split_on_not_Nil [simp]: "split_on d s \<noteq> []"
  by (induction s) auto

lemma split_on_Cons_length: "length (split_on d s) = Suc (length (tl (split_on d s)))"
  by (cases "split_on d s") auto

lemma split_on_no_sep: "d \<notin> set s \<Longrightarrow> split_on d s = [s]"
  by (induction s) auto

lemma split_on_append:
  "d \<notin> set s \<Longrightarrow> split_on d (s @ d # t) = s # split_on d t"
  by (induction s) auto

lemma split_on_decomp:
  "split_on d s = x # y # ys \<Longrightarrow> \<exists>t. s = x @ d # t \<and> d \<notin> set x \<and> split_on d t = y # ys"
proof (induction s arbitrary: x)
  case Nil
  then show ?case by simp
next
  case (Cons c cs)
  show ?case
  proof (cases "c = d")
    case True
    with Cons.prems show ?thesis by force
  next
    case False
    with Cons.prems obtain x' where x: "x = c # x'" "split_on d cs = x' # y # ys"
      by (cases "split_on d cs") auto
    with Cons.IH obtain t where "cs = x' @ d # t" "d \<notin> set x'" "split_on d t = y # ys"
      by blast
    with x False show ?thesis by force
  qed
qed

lemma split_on_single: "split_on d s = [x] \<Longrightarrow> s = x \<and> d \<notin> set x"
proof (induction s arbitrary: x)
  case Nil
  then show ?case by simp
next
  case (Cons c cs)
  then show ?case by (cases "split_on d cs") (auto split: if_splits)
qed

lemma not_dec_dot [simp]: "\<not> is_dec (CHR ''.'')"
  by (simp add: is_dec_def code_def)

lemma version_number_no_dot: "version_number s \<Longrightarrow> CHR ''.'' \<notin> set s"
  by (auto simp: version_number_def list_all_iff)

text \<open>The reading of \<open>package_version\<close> as the regular expression of the source.\<close>

lemma package_version_iff:
  "package_version v \<longleftrightarrow> length v \<le> 32 \<and>
     (\<exists>a b c. v = a @ ''.'' @ b @ ''.'' @ c \<and>
              version_number a \<and> version_number b \<and> version_number c)"
proof
  assume "package_version v"
  then obtain a b c where len: "length v \<le> 32"
    and s: "split_on (CHR ''.'') v = [a, b, c]" and ok: "list_all version_number [a, b, c]"
    by (auto simp: package_version_def length_Suc_conv numeral_3_eq_3)
  from split_on_decomp [OF s] obtain t where t: "v = a @ CHR ''.'' # t" "split_on (CHR ''.'') t = [b, c]"
    by blast
  from split_on_decomp [OF t(2)] obtain u where u: "t = b @ CHR ''.'' # u" "split_on (CHR ''.'') u = [c]"
    by blast
  from split_on_single [OF u(2)] t(1) u(1) ok len
  show "length v \<le> 32 \<and> (\<exists>a b c. v = a @ ''.'' @ b @ ''.'' @ c \<and>
              version_number a \<and> version_number b \<and> version_number c)" by auto
next
  assume "length v \<le> 32 \<and> (\<exists>a b c. v = a @ ''.'' @ b @ ''.'' @ c \<and>
              version_number a \<and> version_number b \<and> version_number c)"
  then show "package_version v"
    by (auto simp: package_version_def split_on_append split_on_no_sep version_number_no_dot)
qed

text \<open>
  What the loop still accepts from a state in the middle of a component: the rest of that
  component, then whole components.
\<close>

definition version_rest :: "bool \<Rightarrow> bool \<Rightarrow> string \<Rightarrow> bool" where
  "version_rest digit leading_zero x \<longleftrightarrow>
     (if \<not> digit then version_number x else if leading_zero then x = [] else list_all is_dec x)"

lemma version_rest_Cons_dec:
  "is_dec c \<Longrightarrow> version_rest digit lz (c # x) \<longleftrightarrow>
     \<not> (digit \<and> lz) \<and> version_rest True (if \<not> digit then c = CHR ''0'' else lz) x"
  by (auto simp: version_rest_def version_number_def)

lemma version_rest_Cons_other: "\<not> is_dec c \<Longrightarrow> \<not> version_rest digit lz (c # x)"
  by (auto simp: version_rest_def version_number_def is_dec_def code_def)

lemma version_rest_Nil: "version_rest digit lz [] \<longleftrightarrow> digit"
  by (auto simp: version_rest_def version_number_def)

lemma semantic_version_loop_iff:
  "dots \<le> 2 \<Longrightarrow> semantic_version_loop s dots digit lz \<longleftrightarrow>
     length (split_on (CHR ''.'') s) = 3 - dots \<and>
     version_rest digit lz (hd (split_on (CHR ''.'') s)) \<and>
     list_all version_number (tl (split_on (CHR ''.'') s))"
proof (induction s arbitrary: dots digit lz)
  case Nil
  then show ?case by (auto simp: version_rest_Nil)
next
  case (Cons c cs)
  obtain x xs where sp: "split_on (CHR ''.'') cs = x # xs"
    by (cases "split_on (CHR ''.'') cs") auto
  consider (dec) "is_dec c" | (dot) "c = CHR ''.''" | (other) "\<not> is_dec c" "c \<noteq> CHR ''.''"
    by blast
  then show ?case
  proof cases
    case dec
    moreover from dec have "c \<noteq> CHR ''.''" by auto
    ultimately show ?thesis
      using Cons sp by (auto simp: version_rest_Cons_dec)
  next
    case dot
    then show ?thesis
      using Cons.IH [of "dots + 1" False lz] Cons.prems sp
      by (auto simp: version_rest_Nil version_rest_def version_number_def)
  next
    case other
    then show ?thesis using sp by (simp add: version_rest_Cons_other)
  qed
qed

lemma semantic_version_eq_package_version: "semantic_version v = package_version v"
proof -
  have "semantic_version_loop v 0 False False \<longleftrightarrow>
      length (split_on (CHR ''.'') v) = 3 \<and> list_all version_number (split_on (CHR ''.'') v)"
    by (cases "split_on (CHR ''.'') v") (auto simp: semantic_version_loop_iff version_rest_def)
  then show ?thesis
    by (auto simp: semantic_version_def package_version_def)
qed

lemma semantic_version_loop_imp_v1:
  "semantic_version_loop s dots digit lz \<Longrightarrow> semantic_version_v1_loop s dots digit"
  by (induction s dots digit lz rule: semantic_version_loop.induct) (auto split: if_splits)

lemma package_version_imp_v1: "package_version v \<Longrightarrow> semantic_version_v1 v"
  using semantic_version_loop_imp_v1
  by (auto simp: semantic_version_eq_package_version [symmetric] semantic_version_def
      semantic_version_v1_def)

lemma native_identifier_bounded: "native_identifier v \<Longrightarrow> bounded_identifier v"
  by (auto simp: native_identifier_def bounded_identifier_def is_alnum_def list_all_iff)

section \<open>The UUID grammars agree\<close>

lemma valid_uuid4_canonical: "valid_uuid4 v \<longleftrightarrow> canonical_uuid v (Some (CHR ''4''))"
  by (auto simp: valid_uuid4_def canonical_uuid_def)

lemma hex_value_bounds: "hex_value c < 16"
  by (auto simp: hex_value_def)

lemma hex_value_nonneg: "0 \<le> hex_value c \<longleftrightarrow> is_lower_hex c"
  by (auto simp: hex_value_def is_lower_hex_def is_dec_def)

lemma hex_value_dash [simp]: "hex_value (CHR ''-'') = - 1"
  by (simp add: hex_value_def code_def)

abbreviation nibbles :: "string \<Rightarrow> nat" where
  "nibbles s \<equiv> length (filter (\<lambda>c. c \<noteq> CHR ''-'') s)"

lemma decode_uuid_loop_cases:
  "2 * length bytes + (if high \<ge> 0 then 1 else 0) + nibbles s \<le> 32 \<Longrightarrow>
   (case decode_uuid_loop s high bytes of
      Inr _ \<Rightarrow> list_all (\<lambda>c. c = CHR ''-'' \<or> is_lower_hex c) s \<and>
               2 * length bytes + (if high \<ge> 0 then 1 else 0) + nibbles s = 32
    | Inl e \<Rightarrow> (\<exists>m. e = Invalid_argument m) \<and>
               \<not> (list_all (\<lambda>c. c = CHR ''-'' \<or> is_lower_hex c) s \<and>
                  2 * length bytes + (if high \<ge> 0 then 1 else 0) + nibbles s = 32))"
proof (induction s high bytes rule: decode_uuid_loop.induct)
  case (1 high bytes)
  then show ?case by (auto split: if_splits) presburger+
next
  case (2 c cs high bytes)
  consider (dash) "c = CHR ''-''" | (bad) "c \<noteq> CHR ''-''" "hex_value c < 0"
    | (lo) "c \<noteq> CHR ''-''" "0 \<le> hex_value c" "high < 0"
    | (hi) "c \<noteq> CHR ''-''" "0 \<le> hex_value c" "0 \<le> high" by linarith
  then show ?case
  proof cases
    case dash
    with 2 show ?thesis by (auto split: sum.splits if_splits)
  next
    case bad
    then show ?thesis by (simp add: hex_value_nonneg [symmetric])
  next
    case lo
    with 2 show ?thesis
      by (auto simp: hex_value_nonneg [symmetric] split: sum.splits)
  next
    case hi
    with "2.prems" have "\<not> 16 \<le> length bytes" by simp
    with hi 2 show ?thesis
      by (auto simp: hex_value_nonneg [symmetric] split: sum.splits)
  qed
qed

lemma uuid_dash_card: "card {i. i < 36 \<and> \<not> uuid_dash i} = 32"
proof -
  have "{i. i < 36 \<and> \<not> uuid_dash i} = set (filter (\<lambda>i. \<not> uuid_dash i) [0..<36])" by auto
  also have "card \<dots> = length (filter (\<lambda>i. \<not> uuid_dash i) [0..<36])"
    by (rule distinct_card) simp
  also have "\<dots> = 32" by (simp add: uuid_dash_def upt_rec)
  finally show ?thesis .
qed

lemma nibbles_uuid:
  assumes len: "length v = 36" and dash: "\<And>i. uuid_dash i \<Longrightarrow> v ! i = CHR ''-''"
  shows "nibbles v \<le> 32" and "nibbles v = 32 \<longleftrightarrow> (\<forall>i < 36. uuid_dash i \<or> v ! i \<noteq> CHR ''-'')"
proof -
  let ?A = "{i. i < 36 \<and> v ! i \<noteq> CHR ''-''}" and ?B = "{i. i < 36 \<and> \<not> uuid_dash i}"
  have n: "nibbles v = card ?A" by (simp add: length_filter_conv_card len)
  have sub: "?A \<subseteq> ?B" using dash by auto
  then show "nibbles v \<le> 32" unfolding n uuid_dash_card [symmetric] by (intro card_mono) auto
  have "card ?A = card ?B \<longleftrightarrow> ?A = ?B" using sub card_subset_eq [of ?B ?A] by auto
  also have "\<dots> \<longleftrightarrow> (\<forall>i < 36. uuid_dash i \<or> v ! i \<noteq> CHR ''-'')" using sub by blast
  finally show "nibbles v = 32 \<longleftrightarrow> (\<forall>i < 36. uuid_dash i \<or> v ! i \<noteq> CHR ''-'')"
    by (simp add: n uuid_dash_card)
qed

lemma not_lower_hex_dash [simp]: "\<not> is_lower_hex (CHR ''-'')"
  by (simp add: is_lower_hex_def is_dec_def code_def)

lemma uuid_with_version_canonical:
  "uuid_with_version v ver = Inr (canonical_uuid v (Some ver))"
proof (cases "length v = 36 \<and> v ! 8 = CHR ''-'' \<and> v ! 13 = CHR ''-'' \<and> v ! 18 = CHR ''-'' \<and> v ! 23 = CHR ''-''")
  case False
  then show ?thesis
    by (auto simp: uuid_with_version_def decode_uuid_def canonical_uuid_def)
next
  case True
  then have len: "length v = 36" and dash: "\<And>i. uuid_dash i \<Longrightarrow> v ! i = CHR ''-''"
    by (auto simp: uuid_dash_def)
  note nib = nibbles_uuid [OF len dash]
  have dec: "decode_uuid v = decode_uuid_loop v (- 1) []"
    using True by (simp add: decode_uuid_def)
  have hex: "list_all (\<lambda>c. c = CHR ''-'' \<or> is_lower_hex c) v \<and> nibbles v = 32 \<longleftrightarrow>
      (\<forall>i < 36. uuid_dash i \<or> is_lower_hex (v ! i))"
    using nib(2) dash by (auto simp: list_all_length len)
  have "case decode_uuid_loop v (- 1) [] of
      Inr _ \<Rightarrow> (\<forall>i < 36. uuid_dash i \<or> is_lower_hex (v ! i))
    | Inl e \<Rightarrow> (\<exists>m. e = Invalid_argument m) \<and> \<not> (\<forall>i < 36. uuid_dash i \<or> is_lower_hex (v ! i))"
    using decode_uuid_loop_cases [of "[]" "- 1" v] nib(1) by (simp add: hex split: sum.splits)
  then show ?thesis
    using True by (auto simp: uuid_with_version_def dec canonical_uuid_def len Ball_def split: sum.splits)
qed

section \<open>UUID encoding\<close>

lemma encode_hex_digit_props:
  "d < 16 \<Longrightarrow> is_lower_hex (encode_hex_digit d) \<and> hex_value (encode_hex_digit d) = int d \<and>
    encode_hex_digit d \<noteq> CHR ''-''"
proof -
  assume "d < 16"
  moreover have "\<forall>d \<in> set [0..<16]. is_lower_hex (encode_hex_digit d) \<and>
      hex_value (encode_hex_digit d) = int d \<and> encode_hex_digit d \<noteq> CHR ''-''"
    by code_simp
  ultimately show ?thesis by simp
qed

lemmas encode_hex_digit_simps [simp] =
  encode_hex_digit_props [THEN conjunct1]
  encode_hex_digit_props [THEN conjunct2, THEN conjunct1]
  encode_hex_digit_props [THEN conjunct2, THEN conjunct2]

lemma list_of_16: "length bs = 16 \<Longrightarrow>
  \<exists>a b c d e f g h i j k l m n p q. bs = [a, b, c, d, e, f, g, h, i, j, k, l, m, n, p, q]"
  by (simp only: numeral_eq_Suc pred_numeral_simps BitM.simps length_Suc_conv) force

lemma encode_uuid_decode:
  assumes "length bs = 16" and "list_all (\<lambda>b. b < 256) bs"
  shows "decode_uuid (encode_uuid bs) = Inr bs"
proof -
  from list_of_16 [OF assms(1)] obtain a b c d e f g h i j k l m n p q
    where bs: "bs = [a, b, c, d, e, f, g, h, i, j, k, l, m, n, p, q]" by blast
  have lt: "x div 16 < 16" if "x < 256" for x :: nat using that by simp
  have joined: "nat (int (x div 16) * 16 + int (x mod 16)) = x" for x :: nat
    using div_mult_mod_eq [of x 16] by linarith
  from assms(2) show ?thesis
    by (simp add: bs encode_uuid_def encode_byte_def decode_uuid_def lt joined del: of_nat_add)
qed

lemma encode_uuid_canonical:
  assumes "length bs = 16" and "list_all (\<lambda>b. b < 256) bs"
    and "bs ! 6 div 16 = ver" and "bs ! 8 div 16 \<in> {8, 9, 10, 11}"
  shows "canonical_uuid (encode_uuid bs) (Some (encode_hex_digit ver))"
proof -
  from list_of_16 [OF assms(1)] obtain a b c d e f g h i j k l m n p q
    where bs: "bs = [a, b, c, d, e, f, g, h, i, j, k, l, m, n, p, q]" by blast
  have lt: "x div 16 < 16" if "x < 256" for x :: nat using that by simp
  have hx: "is_lower_hex (encode_hex_digit (x mod 16))" for x :: nat by simp
  have idx: "set [0..<36] = {0, 1, 2, 3, 4, 5, 6, 7, 8, 9, 10, 11, 12, 13, 14, 15, 16, 17, 18, 19,
      20, 21, 22, 23, 24, 25, 26, 27, 28, 29, 30, 31, 32, 33, 34, 35}"
    by code_simp
  have var: "encode_hex_digit (i div 16) \<in> set ''89ab''"
    using assms(4) by (auto simp: bs encode_hex_digit_def)
  from assms(2,3) var show ?thesis
    by (auto simp: bs encode_uuid_def encode_byte_def canonical_uuid_def lt hx idx uuid_dash_def
        simp del: set_upt)
qed


section \<open>Agreement of the layers\<close>

text \<open>The hand-written version loops of the v2 and v3 layers accept exactly the language of the
  regular expression in the service identity header: three dotted numbers without leading zeros,
  32 characters at most.
\<close>

theorem version_grammars_agree: "semantic_version v = package_version v"
  by (rule semantic_version_eq_package_version)

text \<open>The UUID recogniser of the v2 message layer, which decodes sixteen bytes and catches the
  error, never raises and accepts exactly what the v3 character scan accepts; the v2 model's
  recogniser is the instance for version 4.
\<close>

theorem uuid_grammars_agree:
  "uuid_with_version v ver = Inr (canonical_uuid v (Some ver)) \<and>
   valid_uuid4 v = canonical_uuid v (Some (CHR ''4''))"
  by (simp add: uuid_with_version_canonical valid_uuid4_canonical)

text \<open>Encoding sixteen bytes as UUID text and decoding them again gives back the bytes.
\<close>

theorem uuid_bytes_roundtrip:
  assumes "length bs = 16" and "list_all (\<lambda>b. b < 256) bs"
  shows "decode_uuid (encode_uuid bs) = Inr bs"
  by (rule encode_uuid_decode [OF assms])

theorem uuid_bytes_roundtrip_witness:
  "decode_uuid (encode_uuid [0, 17, 34, 51, 68, 85, 70, 119, 136, 153, 170, 187, 204, 221, 238, 255]) =
   Inr [0, 17, 34, 51, 68, 85, 70, 119, 136, 153, 170, 187, 204, 221, 238, 255]"
  by (rule uuid_bytes_roundtrip) simp_all

end
