(* ===== verification/Timestamp.thy ===== *)
theory Timestamp
  imports Prelude "HOL-Library.Char_ord" "HOL-Library.List_Lexorder"
begin

text \<open>
  RFC 3339 millisecond UTC timestamps: the v1 recogniser (\<^verbatim>\<open>src/v1/model.cpp\<close>) and the v3
  conversions to and from milliseconds since 1970 (\<^verbatim>\<open>src/v3/advisory.cpp\<close>), which go through
  the proleptic Gregorian calendar with unsigned 32-bit arithmetic. The lemmas show that the
  two conversions are inverse to each other and that the order of the strings, which the v2
  model and the message layer compare, is the order of the instants.
\<close>

section \<open>The recogniser\<close>

definition digits :: "string \<Rightarrow> nat \<Rightarrow> nat \<Rightarrow> bool" where
  "digits value offset count \<longleftrightarrow>
     \<not> (offset + count > length value) \<and> list_all is_dec (take count (drop offset value))"

definition decimal :: "string \<Rightarrow> nat \<Rightarrow> nat \<Rightarrow> nat" where
  "decimal value offset count = dec_value (take count (drop offset value))"

definition leap_year :: "nat \<Rightarrow> bool" where
  "leap_year year \<longleftrightarrow> year mod 400 = 0 \<or> (year mod 4 = 0 \<and> year mod 100 \<noteq> 0)"

definition days_per_month :: "nat list" where
  "days_per_month = [31, 28, 31, 30, 31, 30, 31, 31, 30, 31, 30, 31]"

definition maximum_day :: "nat \<Rightarrow> nat \<Rightarrow> nat" where
  "maximum_day year month =
     (if month = 2 \<and> leap_year year then 29 else days_per_month ! (month - 1))"

definition is_rfc3339_millisecond_utc :: "string \<Rightarrow> bool" where
  "is_rfc3339_millisecond_utc value =
     (if length value \<noteq> 24 \<or> value ! 4 \<noteq> CHR ''-'' \<or> value ! 7 \<noteq> CHR ''-'' \<or>
         value ! 10 \<noteq> CHR ''T'' \<or> value ! 13 \<noteq> CHR '':'' \<or> value ! 16 \<noteq> CHR '':'' \<or>
         value ! 19 \<noteq> CHR ''.'' \<or> value ! 23 \<noteq> CHR ''Z''
      then False
      else if \<not> digits value 0 4 \<or> \<not> digits value 5 2 \<or> \<not> digits value 8 2 \<or>
         \<not> digits value 11 2 \<or> \<not> digits value 14 2 \<or> \<not> digits value 17 2 \<or>
         \<not> digits value 20 3
      then False
      else
        (let year = decimal value 0 4; month = decimal value 5 2; day = decimal value 8 2;
             hour = decimal value 11 2; minute = decimal value 14 2; second = decimal value 17 2
         in if year = 0 \<or> month < 1 \<or> month > 12 \<or> hour > 23 \<or> minute > 59 \<or> second > 59
            then False
            else day \<ge> 1 \<and> day \<le> maximum_day year month))"

section \<open>The calendar\<close>

text \<open>
  \<open>month\<close> and \<open>day\<close> are \<open>unsigned\<close>: the additions of \<open>static_cast<unsigned>(-3)\<close> and of
  \<open>day - 1U\<close> wrap modulo \<open>2 ^ 32\<close>.
\<close>

definition days_from_civil :: "int \<Rightarrow> nat \<Rightarrow> nat \<Rightarrow> int" where
  "days_from_civil year0 month day =
     (let year = year0 - (if month \<le> 2 then 1 else 0);
          era = cdiv (if year \<ge> 0 then year else year - 399) 400;
          year_of_era = nat ((year - era * 400) mod 2 ^ 32);
          day_of_year = u32 (u32 (153 * u32 (month + (if month > 2 then 2 ^ 32 - 3 else 9)) + 2) div 5
                             + day + (2 ^ 32 - 1));
          day_of_era = u32 (u32 (year_of_era * 365) + year_of_era div 4 + (2 ^ 32 - year_of_era div 100)
                            + day_of_year)
      in era * 146097 + int day_of_era - 719468)"

definition civil_from_days :: "int \<Rightarrow> int \<times> nat \<times> nat" where
  "civil_from_days days0 =
     (let days = days0 + 719468;
          era = cdiv (if days \<ge> 0 then days else days - 146096) 146097;
          day_of_era = nat ((days - era * 146097) mod 2 ^ 32);
          year_of_era = u32 (day_of_era + (2 ^ 32 - day_of_era div 1460) + day_of_era div 36524
                             + (2 ^ 32 - day_of_era div 146096)) div 365;
          year = int year_of_era + era * 400;
          day_of_year = u32 (day_of_era + (2 ^ 32 -
             u32 (365 * year_of_era + year_of_era div 4 + (2 ^ 32 - year_of_era div 100))));
          month_prime = u32 (5 * day_of_year + 2) div 153;
          day = u32 (day_of_year + (2 ^ 32 - u32 (153 * month_prime + 2) div 5) + 1);
          month = u32 (month_prime + (if month_prime < 10 then 3 else 2 ^ 32 - 9))
      in (year + (if month \<le> 2 then 1 else 0), month, day))"

definition timestamp_milliseconds :: "string \<Rightarrow> int result" where
  "timestamp_milliseconds value =
     (if \<not> is_rfc3339_millisecond_utc value
      then Inl (Invalid_argument ''timestamp must be canonical RFC3339 UTC milliseconds'')
      else
        (let year = decimal value 0 4; month = decimal value 5 2; day = decimal value 8 2;
             hour = decimal value 11 2; minute = decimal value 14 2; second = decimal value 17 2;
             milliseconds = decimal value 20 3;
             days = days_from_civil (int year) month day
         in Inr ((((days * 24 + int hour) * 60 + int minute) * 60 + int second) * 1000
                 + int milliseconds)))"

definition timestamp_text :: "nat \<Rightarrow> nat \<Rightarrow> nat \<Rightarrow> nat \<Rightarrow> nat \<Rightarrow> nat \<Rightarrow> nat \<Rightarrow> string" where
  "timestamp_text year month day hour minute second millisecond =
     zero_pad 4 (to_string year) @ ''-'' @ zero_pad 2 (to_string month) @ ''-'' @
     zero_pad 2 (to_string day) @ ''T'' @ zero_pad 2 (to_string hour) @ '':'' @
     zero_pad 2 (to_string minute) @ '':'' @ zero_pad 2 (to_string second) @ ''.'' @
     zero_pad 3 (to_string millisecond) @ ''Z''"

definition timestamp_from_milliseconds :: "int \<Rightarrow> string result" where
  "timestamp_from_milliseconds value =
     (let days0 = cdiv value 86400000; remainder0 = crem value 86400000;
          remainder = (if remainder0 < 0 then remainder0 + 86400000 else remainder0);
          days = (if remainder0 < 0 then days0 - 1 else days0);
          (year, month, day) = civil_from_days days;
          hour = cdiv remainder 3600000;
          remainder1 = crem remainder 3600000;
          minute = cdiv remainder1 60000;
          remainder2 = crem remainder1 60000;
          second = cdiv remainder2 1000;
          millisecond = crem remainder2 1000
      in if year < 0 \<or> year > 9999
         then Inl (Out_of_range ''timestamp is outside the supported year range'')
         else Inr (timestamp_text (nat year) month day (nat hour) (nat minute) (nat second)
                     (nat millisecond)))"

section \<open>Calendar arithmetic\<close>

lemma cdiv_floor:
  assumes "0 < b"
  shows "cdiv (if x \<ge> 0 then x else x - (b - 1)) b = x div b"
proof (cases "x \<ge> 0")
  case True
  with assms show ?thesis by simp
next
  case False
  have split: "b - 1 - x = - (x div b) * b + (b - 1 - x mod b)"
    using div_mult_mod_eq [of x b] by (simp add: algebra_simps)
  have "(b - 1 - x mod b) div b = 0"
    using pos_mod_sign [OF assms, of x] pos_mod_bound [OF assms, of x]
    by (intro div_pos_pos_trivial) linarith+
  then have "(b - 1 - x) div b = - (x div b)"
    unfolding split using assms by (subst div_mult_self3) auto
  with False assms show ?thesis by (simp add: cdiv_neg)
qed

text \<open>
  The calendar in a year that starts in March: \<open>year_start k\<close> is the first day of year \<open>k\<close> of
  a 400-year era, \<open>year_days k\<close> its length, \<open>month_start m\<close> the first day of its month \<open>m\<close>.
\<close>

definition year_start :: "nat \<Rightarrow> nat" where
  "year_start k = 365 * k + k div 4 - k div 100"

definition year_days :: "nat \<Rightarrow> nat" where
  "year_days k = (if leap_year (k + 1) then 366 else 365)"

definition month_start :: "nat \<Rightarrow> nat" where
  "month_start m = (153 * m + 2) div 5"

definition month_days :: "nat \<Rightarrow> nat" where
  "month_days m = [31, 30, 31, 30, 31, 31, 30, 31, 30, 31, 31, 29] ! m"

definition year_guess :: "nat \<Rightarrow> nat" where
  "year_guess n = n - n div 1460 + n div 36524 - n div 146096"

lemma month_cases:
  "m < (12 :: nat) \<Longrightarrow> m = 0 \<or> m = 1 \<or> m = 2 \<or> m = 3 \<or> m = 4 \<or> m = 5 \<or> m = 6 \<or> m = 7 \<or>
    m = 8 \<or> m = 9 \<or> m = 10 \<or> m = 11"
  by arith

lemma month_start_Suc: "m < 11 \<Longrightarrow> month_start (Suc m) = month_start m + month_days m"
  using month_cases [of m] by (auto simp: month_start_def month_days_def)

lemma month_of_day:
  assumes "d < 366"
  shows "(5 * d + 2) div 153 < 12" and "month_start ((5 * d + 2) div 153) \<le> d"
    and "d < month_start ((5 * d + 2) div 153) + month_days ((5 * d + 2) div 153)"
proof -
  let ?m = "(5 * d + 2) div 153"
  show m: "?m < 12" using assms by (simp add: less_mult_imp_div_less)
  have b: "153 * ?m \<le> 5 * d + 2" "5 * d + 2 < 153 * ?m + 153"
    using div_mult_mod_eq [of "5 * d + 2" 153] mod_less_divisor [of 153 "5 * d + 2"] by linarith+
  show "month_start ?m \<le> d"
    unfolding month_start_def using b(1) less_Suc_eq_le div_less_iff_less_mult [of 5 "153 * ?m + 2" "Suc d"]
    by simp
  have next_month: "d < month_start (Suc ?m)"
    unfolding month_start_def Suc_le_eq [symmetric] using b(2)
    by (subst less_eq_div_iff_mult_less_eq) simp_all
  show "d < month_start ?m + month_days ?m"
  proof (cases "?m = 11")
    case True
    with assms show ?thesis by (simp add: month_start_def month_days_def)
  next
    case False
    with m have "?m < 11" by simp
    with next_month show ?thesis by (simp add: month_start_Suc)
  qed
qed

lemma day_of_month:
  assumes "m < 12" and "d < month_days m"
  shows "(5 * (month_start m + d) + 2) div 153 = m"
  using month_cases [OF assms(1)] assms(2)
  by (intro div_nat_eqI) (elim disjE; simp add: month_start_def month_days_def)+

text \<open>A year of an era as century, four-year cycle and year of the cycle.\<close>

lemma year_start_split:
  "c < 4 \<Longrightarrow> a < 25 \<Longrightarrow> r < 4 \<Longrightarrow> year_start (100 * c + 4 * a + r) = 36524 * c + 1461 * a + 365 * r"
proof -
  assume "c < 4" "a < 25" "r < 4"
  then have "(100 * c + 4 * a + r) div 4 = 25 * c + a" and "(100 * c + 4 * a + r) div 100 = c"
    by (intro div_nat_eqI; simp)+
  then show ?thesis by (simp add: year_start_def)
qed

lemma year_days_split:
  "c < 4 \<Longrightarrow> a < 25 \<Longrightarrow> r < 4 \<Longrightarrow>
    year_days (100 * c + 4 * a + r) = (if r = 3 \<and> (a < 24 \<or> c = 3) then 366 else 365)"
proof -
  assume "c < 4" "a < 25" "r < 4"
  have four: "(100 * c + 4 * a + r + 1) mod 4 = 0 \<longleftrightarrow> r = 3"
    using \<open>r < 4\<close> by presburger
  have hundred: "(100 * c + 4 * a + 4) mod 100 = 0 \<longleftrightarrow> a = 24"
  proof -
    have "(100 * c + 4 * a + 4) mod 100 = (4 * a + 4) mod 100" by (simp add: add.assoc)
    then show ?thesis using \<open>a < 25\<close> by (cases "a = 24") auto
  qed
  have four_hundred: "(100 * c + 100) mod 400 = 0 \<longleftrightarrow> c = 3"
    using \<open>c < 4\<close> by (cases "c = 3") auto
  have "leap_year (100 * c + 4 * a + r + 1) \<longleftrightarrow> r = 3 \<and> (a < 24 \<or> c = 3)"
  proof (cases "r = 3")
    case False
    have "(100 * c + 4 * a + r + 1) mod 400 mod 4 = (100 * c + 4 * a + r + 1) mod 4"
      by (rule mod_mod_cancel) simp
    with four False have "(100 * c + 4 * a + r + 1) mod 400 \<noteq> 0" by (metis mod_0)
    with four False show ?thesis unfolding leap_year_def by auto
  next
    case True
    then have eq: "100 * c + 4 * a + r + 1 = 100 * c + 4 * a + 4" by simp
    show ?thesis
    proof (cases "a = 24")
      case True
      then have eq': "100 * c + 4 * a + 4 = 100 * c + 100" by simp
      show ?thesis using four hundred four_hundred True \<open>r = 3\<close>
        unfolding leap_year_def eq eq' by auto
    next
      case False
      with hundred \<open>a < 25\<close> four \<open>r = 3\<close> show ?thesis unfolding leap_year_def eq by auto
    qed
  qed
  then show ?thesis by (simp add: year_days_def)
qed

lemma year_split:
  assumes "k < 400"
  obtains c a r where "c < 4" "a < 25" "r < 4" "k = 100 * c + 4 * a + (r :: nat)"
proof
  show "k div 100 < 4" "k mod 100 div 4 < 25" "k mod 4 < 4" using assms by auto
  have "k mod 100 mod 4 = k mod 4" by (rule mod_mod_cancel) simp
  then show "k = 100 * (k div 100) + 4 * (k mod 100 div 4) + k mod 4"
    using mult_div_mod_eq [of 100 k] mult_div_mod_eq [of 4 "k mod 100"] by linarith
qed

lemma year_guess_hits:
  assumes k: "k < 400" and d: "d < year_days k"
  shows "year_guess (year_start k + d) div 365 = k"
proof -
  from k obtain c a r where car: "c < 4" "a < 25" "r < 4" and k_eq: "k = 100 * c + 4 * a + r"
    by (rule year_split)
  let ?n = "36524 * c + 1461 * a + 365 * r + d"
  let ?x = "24 * c + a + 365 * r + d"
  have d': "d \<le> 364 \<or> (d = 365 \<and> r = 3 \<and> (a < 24 \<or> c = 3))"
    using d car by (auto simp: k_eq year_days_split split: if_splits)
  have "?n = ?x + (25 * c + a) * 1460" by simp
  then have cyc: "?n div 1460 = 25 * c + a + ?x div 1460" by (simp only: div_mult_self1)
  define e where "e = ?x div 1460"
  have e: "(e = 0 \<and> ?x < 1460) \<or> (e = 1 \<and> r = 3 \<and> 1460 \<le> ?x)"
  proof (cases "?x < 1460")
    case False
    with car d' have "r = 3" "?x < 2 * 1460" by auto
    moreover from this have "e = 1" unfolding e_def using False by (intro div_nat_eqI) auto
    ultimately show ?thesis using False by simp
  qed (simp add: e_def)
  have cent: "?n div 36524 = c + ?n div 146096 \<and> ?n div 146096 \<le> 1"
  proof (cases "?n = 146096")
    case True
    with car d' have "c = 3" by linarith
    with True show ?thesis by (simp only: True) simp
  next
    case False
    with car d' have "?n < 146096" by auto
    moreover have "?n div 36524 = c" using car d' False by (intro div_nat_eqI) auto
    ultimately show ?thesis by simp
  qed
  have "year_guess ?n = 36500 * c + 1460 * a + 365 * r + d - e"
    unfolding year_guess_def cyc e_def [symmetric] using cent e by auto
  moreover have "(36500 * c + 1460 * a + 365 * r + d - e) div 365 = 100 * c + 4 * a + r"
    using car d' e by (intro div_nat_eqI) auto
  ultimately show ?thesis
    using car by (simp only: k_eq year_start_split)
qed

lemma year_exists:
  assumes "n < 146097"
  obtains k d where "k < 400" "d < year_days k" "n = year_start k + d"
proof -
  define c where "c = min (n div 36524) 3"
  define x where "x = n - 36524 * c"
  define a where "a = min (x div 1461) 24"
  define y where "y = x - 1461 * a"
  define r where "r = min (y div 365) 3"
  define d where "d = y - 365 * r"
  have c: "c < 4" "36524 * c \<le> n" "x < 36524 \<or> (c = 3 \<and> x < 36525)"
    using assms by (auto simp: c_def x_def min_def)
  have a: "a < 25" "1461 * a \<le> x" "y < 1461" "a = 24 \<longrightarrow> c \<noteq> 3 \<longrightarrow> y < 1460"
    using c by (auto simp: a_def y_def min_def)
  have r: "r < 4" "365 * r \<le> y" "d < 365 \<or> (r = 3 \<and> d = 365)" "d = 365 \<longrightarrow> y = 1460"
    using a by (auto simp: r_def d_def min_def)
  show thesis
  proof
    show "100 * c + 4 * a + r < 400" using c a r by simp
    show "d < year_days (100 * c + 4 * a + r)"
      using c a r by (auto simp: year_days_split)
    show "n = year_start (100 * c + 4 * a + r) + d"
      using c a r by (simp add: year_start_split d_def y_def x_def)
  qed
qed

lemma year_start_bound: "k < 400 \<Longrightarrow> d < year_days k \<Longrightarrow> year_start k + d < 146097"
  by (erule year_split) (auto simp: year_start_split year_days_split split: if_splits)

text \<open>Removing the wrap-around: all the unsigned intermediate values are small.\<close>

lemma u32_sub: "b \<le> a \<Longrightarrow> a < 2 ^ 32 \<Longrightarrow> u32 (a + (2 ^ 32 - b)) = a - b"
proof -
  assume "b \<le> a" and "a < 2 ^ 32"
  then have "a + (2 ^ 32 - b) = (a - b) + 2 ^ 32" by simp
  then show ?thesis using \<open>a < 2 ^ 32\<close> unfolding u32_def by (simp only: mod_add_self2) simp
qed

lemma u32_sub2:
  assumes "b \<le> a" and "d \<le> a - b + c" and "a < 2 ^ 31" and "c < 2 ^ 31" and "b \<le> 2 ^ 32" and "d \<le> 2 ^ 32"
  shows "u32 (a + (2 ^ 32 - b) + c + (2 ^ 32 - d)) = a - b + c - d"
proof -
  have "a + (2 ^ 32 - b) + c + (2 ^ 32 - d) = (a - b + c - d) + 2 * 2 ^ 32" using assms by simp
  moreover have "a - b + c - d < 2 ^ 32" using assms by simp
  ultimately show ?thesis unfolding u32_def by (simp only: mod_mult_self1) simp
qed

lemma days_from_civil_eq:
  assumes y: "0 \<le> year - (if month \<le> 2 then 1 else 0)" and m: "1 \<le> month" "month \<le> 12"
    and d: "1 \<le> day" "day \<le> 31"
  shows "days_from_civil year month day =
    (let y = nat (year - (if month \<le> 2 then 1 else 0))
     in int (y div 400) * 146097 + int (year_start (y mod 400) + month_start ((month + 9) mod 12) + (day - 1))
        - 719468)"
proof -
  define y' where "y' = nat (year - (if month \<le> 2 then 1 else 0))"
  define k where "k = y' mod 400"
  define mp where "mp = (month + 9) mod 12"
  have y'_eq: "year - (if month \<le> 2 then 1 else 0) = int y'" using y by (simp add: y'_def)
  have k: "k < 400" by (simp add: k_def)
  have era: "cdiv (int y') 400 = int (y' div 400)"
    by (simp add: zdiv_int)
  have yoe: "nat ((int y' - int (y' div 400) * 400) mod 2 ^ 32) = k"
  proof -
    have "int y' - int (y' div 400) * 400 = int k"
      unfolding k_def by (simp add: zmod_int zdiv_int minus_div_mult_eq_mod)
    with k show ?thesis by simp
  qed
  have mp: "mp < 12" "u32 (month + (if month > 2 then 2 ^ 32 - 3 else 9)) = mp"
  proof -
    show "mp < 12" by (simp add: mp_def)
    show "u32 (month + (if month > 2 then 2 ^ 32 - 3 else 9)) = mp"
    proof (cases "month > 2")
      case True
      then have "(month + 9) mod 12 = month - 3"
        using m by (intro mod_nat_eqI) auto
      with True m show ?thesis using u32_sub [of 3 month] by (simp add: mp_def)
    qed (use m in \<open>simp add: mp_def\<close>)
  qed
  have ms: "u32 (153 * mp + 2) div 5 = month_start mp"
    using mp by (simp add: month_start_def)
  have doy: "u32 (month_start mp + day + (2 ^ 32 - 1)) = month_start mp + (day - 1)"
    using u32_sub [of 1 "month_start mp + day"] d mp by (simp add: month_start_def)
  have ys: "k div 100 \<le> 365 * k + k div 4" using div_le_dividend [of k 100] by linarith
  have "u32 (u32 (k * 365) + k div 4 + (2 ^ 32 - k div 100) + (month_start mp + (day - 1)))
      = u32 ((365 * k + k div 4 + (month_start mp + (day - 1))) + (2 ^ 32 - k div 100))"
    using k by (simp add: algebra_simps)
  also have "\<dots> = 365 * k + k div 4 + (month_start mp + (day - 1)) - k div 100"
    using ys k d mp by (intro u32_sub) (simp_all add: month_start_def)
  finally have doe: "u32 (u32 (k * 365) + k div 4 + (2 ^ 32 - k div 100) + (month_start mp + (day - 1)))
      = year_start k + month_start mp + (day - 1)"
    unfolding year_start_def using ys by linarith
  show ?thesis
    unfolding days_from_civil_def Let_def y'_eq
    using mp by (simp only: era yoe mp(2) ms doy doe k_def [symmetric] mp_def [symmetric] if_True
        of_nat_0_le_iff nat_int)
qed

lemma civil_from_days_eq:
  fixes era :: int
  assumes k: "k < 400" and dy: "dy < year_days k"
  shows "civil_from_days (era * 146097 + int (year_start k + dy) - 719468) =
    (let mp = (5 * dy + 2) div 153; month = (if mp < 10 then mp + 3 else mp - 9)
     in (int k + era * 400 + (if month \<le> 2 then 1 else 0), month, dy - month_start mp + 1))"
proof -
  define doe where "doe = year_start k + dy"
  define mp where "mp = (5 * dy + 2) div 153"
  have dy366: "dy < 366" using dy by (simp add: year_days_def split: if_splits)
  have doe: "doe < 146097" using k dy by (simp add: doe_def year_start_bound)
  have era: "cdiv (if era * 146097 + int doe \<ge> 0 then era * 146097 + int doe
      else era * 146097 + int doe - 146096) 146097 = era"
    using cdiv_floor [of 146097 "era * 146097 + int doe"] doe by (simp split: if_split_asm)
  have "doe div 1460 \<le> doe" by (rule div_le_dividend)
  moreover have "doe div 146096 \<le> doe - doe div 1460 + doe div 36524"
  proof -
    have "doe div 146096 \<le> doe div 36524" by (rule div_le_mono2) simp_all
    then show ?thesis by simp
  qed
  moreover have "doe div 36524 \<le> doe" by (rule div_le_dividend)
  ultimately have g: "u32 (doe + (2 ^ 32 - doe div 1460) + doe div 36524 + (2 ^ 32 - doe div 146096))
      = year_guess doe"
    unfolding year_guess_def using doe by (intro u32_sub2) simp_all
  have yoe: "year_guess doe div 365 = k"
    using k dy by (simp add: doe_def year_guess_hits)
  have "k div 100 \<le> 365 * k + k div 4" using div_le_dividend [of k 100] by linarith
  then have ys: "u32 (365 * k + k div 4 + (2 ^ 32 - k div 100)) = year_start k"
    using k by (subst u32_sub) (simp_all add: year_start_def)
  have doy: "u32 (doe + (2 ^ 32 - year_start k)) = dy"
    using doe by (subst u32_sub) (simp_all add: doe_def)
  have mp: "u32 (5 * dy + 2) div 153 = mp" "mp < 12" "month_start mp \<le> dy" "dy < month_start mp + month_days mp"
    using month_of_day [OF dy366] dy366 by (simp_all add: mp_def)
  have ms: "u32 (153 * mp + 2) div 5 = month_start mp" using mp by (simp add: month_start_def)
  have day: "u32 (dy + (2 ^ 32 - month_start mp) + 1) = dy - month_start mp + 1"
    using u32_sub [of "month_start mp" "dy + 1"] mp dy366 by (simp add: algebra_simps)
  have mon: "u32 (mp + (if mp < 10 then 3 else 2 ^ 32 - 9)) = (if mp < 10 then mp + 3 else mp - 9)"
    using mp u32_sub [of 9 mp] by simp
  have nn: "nat (int doe mod 2 ^ 32) = doe" using doe by simp
  show ?thesis
    unfolding civil_from_days_def Let_def
    by (simp only: doe_def [symmetric] diff_add_cancel era add_diff_cancel_left' nn g yoe ys doy
        mp(1) ms day mon mp_def [symmetric])
qed

text \<open>Civil dates and their day numbers.\<close>

definition valid_date :: "nat \<Rightarrow> nat \<Rightarrow> nat \<Rightarrow> bool" where
  "valid_date y m d \<longleftrightarrow> 0 < y \<and> 1 \<le> m \<and> m \<le> 12 \<and> 1 \<le> d \<and> d \<le> maximum_day y m"

definition march_year :: "nat \<Rightarrow> nat \<Rightarrow> nat" where
  "march_year y m = y - (if m \<le> 2 then 1 else 0)"

definition march_month :: "nat \<Rightarrow> nat" where
  "march_month m = (m + 9) mod 12"

definition day_number :: "nat \<Rightarrow> nat \<Rightarrow> nat \<Rightarrow> nat" where
  "day_number y mp d = y div 400 * 146097 + year_start (y mod 400) + month_start mp + (d - 1)"

lemma civil_month_cases:
  "1 \<le> m \<Longrightarrow> m \<le> (12 :: nat) \<Longrightarrow> m = 1 \<or> m = 2 \<or> m = 3 \<or> m = 4 \<or> m = 5 \<or> m = 6 \<or> m = 7 \<or>
    m = 8 \<or> m = 9 \<or> m = 10 \<or> m = 11 \<or> m = 12"
  by arith

lemma march_month_eq: "1 \<le> m \<Longrightarrow> m \<le> 12 \<Longrightarrow> march_month m = (if m \<le> 2 then m + 9 else m - 3)"
  using civil_month_cases [of m] by (auto simp: march_month_def)

lemma leap_year_era: "leap_year (y mod 400 + 1) \<longleftrightarrow> leap_year (y + 1)"
proof -
  have "(y mod 400 + 1) mod c = (y + 1) mod c" if "c dvd 400" for c
    using that by (metis mod_add_left_eq mod_mod_cancel)
  from this [of 400] this [of 4] this [of 100] show ?thesis unfolding leap_year_def by simp
qed

lemma valid_date_march:
  assumes "valid_date y m d"
  shows "march_month m < 12" and "d - 1 < month_days (march_month m)"
    and "month_start (march_month m) + (d - 1) < year_days (march_year y m mod 400)"
proof -
  from assms have m: "1 \<le> m" "m \<le> 12" and d: "1 \<le> d" "d \<le> maximum_day y m" and y: "0 < y"
    by (auto simp: valid_date_def)
  show "march_month m < 12" by (simp add: march_month_def)
  show "d - 1 < month_days (march_month m)"
    using civil_month_cases [OF m] d
    by (elim disjE) (auto simp: maximum_day_def days_per_month_def march_month_def month_days_def split: if_splits)
  show "month_start (march_month m) + (d - 1) < year_days (march_year y m mod 400)"
  proof (cases "m = 2")
    case True
    then have "leap_year (march_year y m mod 400 + 1) = leap_year y"
      using y leap_year_era [of "y - 1"] by (simp add: march_year_def)
    with True d show ?thesis
      by (auto simp: year_days_def maximum_day_def days_per_month_def march_month_def month_start_def)
  next
    case False
    have "month_start (march_month m) + (d - 1) < 365"
      using civil_month_cases [OF m] False d
      by (elim disjE) (auto simp: maximum_day_def days_per_month_def march_month_def month_start_def split: if_splits)
    then show ?thesis by (simp add: year_days_def)
  qed
qed

lemma maximum_day_le: "1 \<le> m \<Longrightarrow> m \<le> 12 \<Longrightarrow> maximum_day y m \<le> 31"
  using civil_month_cases [of m] by (auto simp: maximum_day_def days_per_month_def)

lemma days_from_civil_number:
  assumes "valid_date y m d"
  shows "days_from_civil (int y) m d = int (day_number (march_year y m) (march_month m) d) - 719468"
proof -
  from assms maximum_day_le [of m y] have "1 \<le> m" "m \<le> 12" "1 \<le> d" "d \<le> 31" "0 < y"
    by (auto simp: valid_date_def)
  moreover from this have "nat (int y - (if m \<le> 2 then 1 else 0)) = march_year y m"
    by (simp add: march_year_def nat_diff_distrib)
  ultimately show ?thesis
    by (subst days_from_civil_eq) (simp_all add: day_number_def march_month_def Let_def)
qed

lemma civil_from_days_from_civil:
  assumes "valid_date y m d"
  shows "civil_from_days (days_from_civil (int y) m d) = (int y, m, d)"
proof -
  note v = valid_date_march [OF assms]
  from assms have m: "1 \<le> m" "m \<le> 12" "1 \<le> d" "0 < y" by (auto simp: valid_date_def)
  define dy where "dy = month_start (march_month m) + (d - 1)"
  define yy where "yy = march_year y m"
  have "days_from_civil (int y) m d = int (yy div 400) * 146097 + int (year_start (yy mod 400) + dy) - 719468"
    by (simp add: days_from_civil_number [OF assms] day_number_def dy_def yy_def)
  moreover have "(5 * dy + 2) div 153 = march_month m"
    unfolding dy_def by (rule day_of_month) (use v in auto)
  moreover have "dy < year_days (yy mod 400)" using v by (simp add: dy_def yy_def)
  moreover have "int (yy mod 400) + int (yy div 400) * 400 = int yy"
    by (metis add.commute div_mult_mod_eq of_nat_add of_nat_mult of_nat_numeral)
  moreover have "int yy + (if m \<le> 2 then 1 else 0) = int y"
    using m by (simp add: yy_def march_year_def of_nat_diff)
  moreover have "(if march_month m < 10 then march_month m + 3 else march_month m - 9) = m"
    using m by (auto simp: march_month_eq)
  moreover have "dy - month_start (march_month m) + 1 = d" using m by (simp add: dy_def)
  ultimately show ?thesis
    by (simp only: civil_from_days_eq [OF mod_less_divisor] Let_def)
qed

text \<open>The day number orders dates: by year, by month, by day.\<close>

lemma year_start_Suc:
  assumes "k < 399"
  shows "year_start (Suc k) = year_start k + year_days k"
proof -
  from assms have "k < 400" by simp
  then obtain c a r where car: "c < 4" "a < 25" "r < 4" and k: "k = 100 * c + 4 * a + r"
    by (rule year_split)
  consider "r < 3" | "r = 3" "a < 24" | "r = 3" "a = 24" "c < 3"
    using car assms k by linarith
  then show ?thesis
  proof cases
    case 1
    then have "year_start (100 * c + 4 * a + (r + 1)) = 36524 * c + 1461 * a + 365 * (r + 1)"
      using car by (intro year_start_split) auto
    then have "year_start (Suc k) = 36524 * c + 1461 * a + 365 * (r + 1)" by (simp add: k)
    with 1 car show ?thesis by (simp add: k year_start_split year_days_split)
  next
    case 2
    then have "year_start (100 * c + 4 * (a + 1) + 0) = 36524 * c + 1461 * (a + 1) + 365 * 0"
      using car by (intro year_start_split) auto
    moreover from 2 have "Suc k = 100 * c + 4 * (a + 1) + 0" by (simp add: k)
    ultimately have "year_start (Suc k) = 36524 * c + 1461 * (a + 1)"
      by (simp only: mult_0_right add_0_right)
    with 2 car show ?thesis by (simp add: k year_start_split year_days_split)
  next
    case 3
    then have "year_start (100 * (c + 1) + 4 * 0 + 0) = 36524 * (c + 1) + 1461 * 0 + 365 * 0"
      using car by (intro year_start_split) auto
    moreover from 3 have "Suc k = 100 * (c + 1) + 4 * 0 + 0" by (simp add: k)
    ultimately have "year_start (Suc k) = 36524 * (c + 1)"
      by (simp only: mult_0_right add_0_right)
    moreover have "year_start k = 36524 * c + 1461 * 24 + 365 * 3" "year_days k = 365"
      using 3 car unfolding k by (simp_all only: year_start_split year_days_split) simp
    ultimately show ?thesis by simp
  qed
qed

definition abs_year_start :: "nat \<Rightarrow> nat" where
  "abs_year_start y = y div 400 * 146097 + year_start (y mod 400)"

lemma abs_year_start_Suc: "abs_year_start (Suc y) = abs_year_start y + year_days (y mod 400)"
proof (cases "y mod 400 = 399")
  case True
  then have "Suc y mod 400 = 0" "Suc y div 400 = Suc (y div 400)"
    by (simp_all add: mod_Suc div_Suc)
  moreover have "year_days 399 = 366" "year_start 399 = 145731" "year_start 0 = 0"
    by (simp_all add: year_days_def leap_year_def year_start_def)
  ultimately show ?thesis using True by (simp add: abs_year_start_def)
next
  case False
  then have "Suc y mod 400 = Suc (y mod 400)" "Suc y div 400 = y div 400"
    by (simp_all add: mod_Suc div_Suc)
  moreover have "y mod 400 < 399" using False mod_less_divisor [of 400 y] by linarith
  ultimately show ?thesis by (simp add: abs_year_start_def year_start_Suc)
qed

lemma abs_year_start_mono:
  assumes "x < y"
  shows "abs_year_start x + year_days (x mod 400) \<le> abs_year_start y"
  using assms
proof (induction y)
  case (Suc y)
  then show ?case by (cases "x = y") (auto simp: abs_year_start_Suc)
qed simp

lemma month_start_mono:
  assumes "i < j" and "j < 12"
  shows "month_start i + month_days i \<le> month_start j"
  using assms
proof (induction j)
  case (Suc j)
  then show ?case by (cases "i = j") (auto simp: month_start_Suc)
qed simp

lemma day_number_less:
  assumes a: "valid_date y m d" and b: "valid_date y' m' d'"
  and less: "y < y' \<or> (y = y' \<and> (m < m' \<or> (m = m' \<and> d < d')))"
  shows "day_number (march_year y m) (march_month m) d < day_number (march_year y' m') (march_month m') d'"
proof -
  note va = valid_date_march [OF a] and vb = valid_date_march [OF b]
  from a b have m: "1 \<le> m" "m \<le> 12" "1 \<le> d" "1 \<le> m'" "m' \<le> 12" "1 \<le> d'" "0 < y" "0 < y'"
    by (auto simp: valid_date_def)
  have "march_year y m < march_year y' m' \<or> (march_year y m = march_year y' m' \<and>
      (march_month m < march_month m' \<or> (march_month m = march_month m' \<and> d < d')))"
    using less m by (auto simp: march_month_eq march_year_def)
  then consider "march_year y m < march_year y' m'"
    | "march_year y m = march_year y' m'" "march_month m < march_month m'"
    | "march_year y m = march_year y' m'" "march_month m = march_month m'" "d < d'" by blast
  then show ?thesis
  proof cases
    case 1
    from abs_year_start_mono [OF this] va show ?thesis
      by (simp add: day_number_def abs_year_start_def [symmetric])
  next
    case 2
    from month_start_mono [OF this(2)] va vb 2 show ?thesis
      by (simp add: day_number_def)
  next
    case 3
    with m show ?thesis by (simp add: day_number_def)
  qed
qed


section \<open>Timestamps as text\<close>

lemma zero_pad_inverse:
  "n < 10 ^ w \<Longrightarrow> 0 < w \<Longrightarrow>
    length (zero_pad w (to_string n)) = w \<and> list_all is_dec (zero_pad w (to_string n)) \<and>
    dec_value (zero_pad w (to_string n)) = n"
  by (simp add: length_zero_pad to_string_length_le zero_pad_digits to_string_digits)

lemma list24_cases:
  assumes "length s = 24"
  obtains a b c d e f g h i j k l m n p q r t u v w x y z
  where "s = [a, b, c, d, e, f, g, h, i, j, k, l, m, n, p, q, r, t, u, v, w, x, y, z]"
proof -
  have "s = map (\<lambda>i. s ! i) [0..<24]" using assms by (metis map_nth)
  then show thesis using that by (simp add: upt_rec [of _ 24])
qed

definition timestamp_fields :: "string \<Rightarrow> nat \<times> nat \<times> nat \<times> nat \<times> nat \<times> nat \<times> nat" where
  "timestamp_fields s = (decimal s 0 4, decimal s 5 2, decimal s 8 2, decimal s 11 2, decimal s 14 2,
     decimal s 17 2, decimal s 20 3)"

definition valid_fields :: "nat \<times> nat \<times> nat \<times> nat \<times> nat \<times> nat \<times> nat \<Rightarrow> bool" where
  "valid_fields = (\<lambda>(y, m, d, h, mi, se, ms).
     y \<le> 9999 \<and> valid_date y m d \<and> h \<le> 23 \<and> mi \<le> 59 \<and> se \<le> 59 \<and> ms \<le> 999)"

lemma zero_pad_dec2: "is_dec a \<Longrightarrow> is_dec b \<Longrightarrow> zero_pad 2 (to_string (dec_value [a, b])) = [a, b]"
  using zero_pad_dec_value [of "[a, b]"] by (simp add: numeral_2_eq_2)

lemma zero_pad_dec3:
  "is_dec a \<Longrightarrow> is_dec b \<Longrightarrow> is_dec c \<Longrightarrow> zero_pad 3 (to_string (dec_value [a, b, c])) = [a, b, c]"
  using zero_pad_dec_value [of "[a, b, c]"] by (simp add: numeral_3_eq_3)

lemma zero_pad_dec4:
  "is_dec a \<Longrightarrow> is_dec b \<Longrightarrow> is_dec c \<Longrightarrow> is_dec d \<Longrightarrow>
    zero_pad 4 (to_string (dec_value [a, b, c, d])) = [a, b, c, d]"
  using zero_pad_dec_value [of "[a, b, c, d]"] by (simp add: numeral_eq_Suc)

lemma rfc3339_fields:
  assumes "is_rfc3339_millisecond_utc s"
  shows "valid_fields (timestamp_fields s)"
    and "s = (case timestamp_fields s of (y, m, d, h, mi, se, ms) \<Rightarrow> timestamp_text y m d h mi se ms)"
proof -
  from assms have "length s = 24" by (simp add: is_rfc3339_millisecond_utc_def split: if_splits)
  then obtain a b c d e f g h i j k l m n p q r t u v w x y z
    where s: "s = [a, b, c, d, e, f, g, h, i, j, k, l, m, n, p, q, r, t, u, v, w, x, y, z]"
    by (rule list24_cases)
  note fs = assms [unfolded is_rfc3339_millisecond_utc_def s digits_def decimal_def, simplified]
  have "dec_value [a, b, c, d] < 10000" "dec_value [w, x, y] < 1000"
    using fs dec_value_bound [of "[a, b, c, d]"] dec_value_bound [of "[w, x, y]"]
    by (simp_all split: if_splits)
  then show "valid_fields (timestamp_fields s)"
    using fs by (auto simp: s timestamp_fields_def decimal_def valid_fields_def valid_date_def Let_def
        split: if_splits)
  show "s = (case timestamp_fields s of (y, m, d, h, mi, se, ms) \<Rightarrow> timestamp_text y m d h mi se ms)"
    using fs by (simp add: s timestamp_fields_def decimal_def timestamp_text_def zero_pad_dec2 zero_pad_dec3 zero_pad_dec4 split: if_splits)
qed


lemma text_fields:
  assumes "y \<le> 9999" "m \<le> 99" "d \<le> 99" "h \<le> 99" "mi \<le> 99" "se \<le> 99" "ms \<le> 999"
  shows "timestamp_fields (timestamp_text y m d h mi se ms) = (y, m, d, h, mi, se, ms)"
    and "length (timestamp_text y m d h mi se ms) = 24"
  using assms zero_pad_inverse [of y 4] zero_pad_inverse [of m 2] zero_pad_inverse [of d 2]
    zero_pad_inverse [of h 2] zero_pad_inverse [of mi 2] zero_pad_inverse [of se 2] zero_pad_inverse [of ms 3]
  by (simp_all add: timestamp_fields_def timestamp_text_def decimal_def)

lemma rfc3339_text:
  assumes "valid_fields (y, m, d, h, mi, se, ms)"
  shows "is_rfc3339_millisecond_utc (timestamp_text y m d h mi se ms)"
proof -
  let ?s = "timestamp_text y m d h mi se ms"
  from assms have v: "valid_date y m d" and b: "y \<le> 9999" "h \<le> 23" "mi \<le> 59" "se \<le> 59" "ms \<le> 999"
    by (auto simp: valid_fields_def)
  from v maximum_day_le [of m y] have md: "1 \<le> m" "m \<le> 12" "1 \<le> d" "d \<le> 31"
    by (auto simp: valid_date_def)
  have f: "timestamp_fields ?s = (y, m, d, h, mi, se, ms)" and l: "length ?s = 24"
    using b md by (auto simp: text_fields)
  have z: "length (zero_pad 4 (to_string y)) = 4" "length (zero_pad 2 (to_string m)) = 2"
      "length (zero_pad 2 (to_string d)) = 2" "length (zero_pad 2 (to_string h)) = 2"
      "length (zero_pad 2 (to_string mi)) = 2" "length (zero_pad 2 (to_string se)) = 2"
      "length (zero_pad 3 (to_string ms)) = 3"
    using b md by (simp_all add: zero_pad_inverse)
  have "?s ! 4 = CHR ''-''" "?s ! 7 = CHR ''-''" "?s ! 10 = CHR ''T''" "?s ! 13 = CHR '':''"
    "?s ! 16 = CHR '':''" "?s ! 19 = CHR ''.''" "?s ! 23 = CHR ''Z''"
    by (simp_all add: timestamp_text_def nth_append z)
  moreover have "digits ?s 0 4" "digits ?s 5 2" "digits ?s 8 2" "digits ?s 11 2" "digits ?s 14 2"
    "digits ?s 17 2" "digits ?s 20 3"
    by (simp_all add: digits_def l) (simp_all add: timestamp_text_def z zero_pad_digits to_string_digits)
  ultimately show ?thesis
    using v b md f l by (simp add: is_rfc3339_millisecond_utc_def timestamp_fields_def valid_date_def)
qed

definition instant :: "nat \<times> nat \<times> nat \<times> nat \<times> nat \<times> nat \<times> nat \<Rightarrow> int" where
  "instant = (\<lambda>(y, m, d, h, mi, se, ms).
     days_from_civil (int y) m d * 86400000 + int (h * 3600000 + mi * 60000 + se * 1000 + ms))"

lemma timestamp_milliseconds_eq:
  "is_rfc3339_millisecond_utc s \<Longrightarrow> timestamp_milliseconds s = Inr (instant (timestamp_fields s))"
  by (simp add: timestamp_milliseconds_def timestamp_fields_def instant_def Let_def algebra_simps)

lemma floor_split:
  fixes v :: int
  assumes "v = q * 86400000 + r" "0 \<le> r" "r < 86400000"
  shows "(if crem v 86400000 < 0 then crem v 86400000 + 86400000 else crem v 86400000) = r"
    and "(if crem v 86400000 < 0 then cdiv v 86400000 - 1 else cdiv v 86400000) = q"
proof -
  have q: "v div 86400000 = q" and r: "v mod 86400000 = r" using assms by auto
  have "(if crem v 86400000 < 0 then crem v 86400000 + 86400000 else crem v 86400000) = r
    \<and> (if crem v 86400000 < 0 then cdiv v 86400000 - 1 else cdiv v 86400000) = q"
  proof (cases "0 \<le> v")
    case True
    with q r assms show ?thesis by simp
  next
    case False
    then have c: "cdiv v 86400000 = - ((- v) div 86400000)" by (simp add: cdiv_neg)
    show ?thesis
    proof (cases "r = 0")
      case True
      with assms have "(- v) div 86400000 = - q" by simp
      with c assms True show ?thesis by (simp add: crem_def)
    next
      case False
      with assms have "(- v) div 86400000 = - q - 1"
        by (intro int_div_pos_eq [where r = "86400000 - r"]) auto
      with c assms False show ?thesis by (simp add: crem_def)
    qed
  qed
  then show "(if crem v 86400000 < 0 then crem v 86400000 + 86400000 else crem v 86400000) = r"
    and "(if crem v 86400000 < 0 then cdiv v 86400000 - 1 else cdiv v 86400000) = q"
    by blast+
qed

lemma timestamp_from_milliseconds_instant:
  assumes "valid_fields (y, m, d, h, mi, se, ms)"
  shows "timestamp_from_milliseconds (instant (y, m, d, h, mi, se, ms)) = Inr (timestamp_text y m d h mi se ms)"
proof -
  from assms have v: "valid_date y m d" and b: "y \<le> 9999" "h \<le> 23" "mi \<le> 59" "se \<le> 59" "ms \<le> 999"
    by (auto simp: valid_fields_def)
  let ?v = "instant (y, m, d, h, mi, se, ms)"
  define r where "r = int (h * 3600000 + mi * 60000 + se * 1000 + ms)"
  have r: "0 \<le> r" "r < 86400000" using b by (auto simp: r_def)
  have eq: "?v = days_from_civil (int y) m d * 86400000 + r" by (simp add: instant_def r_def)
  note fl = floor_split [OF eq r]
  have "r div 3600000 = int h" "r mod 3600000 = int (mi * 60000 + se * 1000 + ms)"
    using b by (auto simp: r_def intro!: int_div_pos_eq int_mod_pos_eq)
  moreover have "int (mi * 60000 + se * 1000 + ms) div 60000 = int mi"
    "int (mi * 60000 + se * 1000 + ms) mod 60000 = int (se * 1000 + ms)"
    using b by (auto intro!: int_div_pos_eq int_mod_pos_eq)
  moreover have "int (se * 1000 + ms) div 1000 = int se" "int (se * 1000 + ms) mod 1000 = int ms"
    using b by (auto intro!: int_div_pos_eq int_mod_pos_eq)
  ultimately show ?thesis
    unfolding timestamp_from_milliseconds_def Let_def fl civil_from_days_from_civil [OF v]
    using b r by simp
qed

lemma timestamp_reprinted:
  assumes "is_rfc3339_millisecond_utc s"
  shows "\<exists>v. timestamp_milliseconds s = Inr v \<and> timestamp_from_milliseconds v = Inr s"
proof -
  obtain y m d h mi se ms where f: "timestamp_fields s = (y, m, d, h, mi, se, ms)"
    by (cases "timestamp_fields s") auto
  from rfc3339_fields [OF assms] f have "valid_fields (y, m, d, h, mi, se, ms)"
    and "s = timestamp_text y m d h mi se ms" by auto
  with f assms show ?thesis
    by (simp add: timestamp_milliseconds_eq timestamp_from_milliseconds_instant)
qed

text \<open>
  C6. Every string the recogniser accepts is converted to milliseconds without an error, and
  converting these back prints exactly the same string.
\<close>

theorem timestamp_roundtrip:
  assumes "is_rfc3339_millisecond_utc s"
  shows "\<exists>v. timestamp_milliseconds s = Inr v \<and> timestamp_from_milliseconds v = Inr s"
  using assms by (rule timestamp_reprinted)


text \<open>The inverse direction: every instant of the years 1 to 9999 has a timestamp.\<close>

lemma civil_from_days_valid:
  assumes "civil_from_days days = (yi, m, d)" and "0 < yi"
  shows "valid_date (nat yi) m d \<and> days_from_civil yi m d = days"
proof -
  define era where "era = (days + 719468) div 146097"
  define n where "n = nat ((days + 719468) mod 146097)"
  have n: "n < 146097" and days: "days = era * 146097 + int n - 719468"
    by (auto simp: n_def era_def nat_less_iff)
  from n obtain k dy where kd: "k < 400" "dy < year_days k" "n = year_start k + dy"
    by (rule year_exists)
  define mp where "mp = (5 * dy + 2) div 153"
  have dy366: "dy < 366" using kd by (simp add: year_days_def split: if_splits)
  note md = month_of_day [OF dy366, folded mp_def]
  have res: "yi = int k + era * 400 + (if m \<le> 2 then 1 else 0)"
    "m = (if mp < 10 then mp + 3 else mp - 9)" "d = dy - month_start mp + 1"
    using assms(1) civil_from_days_eq [OF kd(1,2), of era]
    by (auto simp: days kd(3) mp_def Let_def)
  have m: "1 \<le> m" "m \<le> 12" "march_month m = mp"
    using res md by (auto simp: march_month_def)
  have era0: "0 \<le> era" using assms(2) res kd(1) by (auto split: if_splits)
  have my: "march_year (nat yi) m = k + nat era * 400"
    using res era0 assms(2) by (auto simp: march_year_def nat_add_distrib nat_mult_distrib split: if_splits)
  have k: "(k + nat era * 400) mod 400 = k" "(k + nat era * 400) div 400 = nat era"
    using kd(1) by simp_all
  have "d \<le> maximum_day (nat yi) m"
  proof (cases "m = 2")
    case True
    then have "mp = 11" using res md by (auto split: if_splits)
    have "nat yi = march_year (nat yi) m + 1" using True assms(2) by (simp add: march_year_def)
    then have "leap_year (nat yi) = leap_year (k + 1)"
      using leap_year_era [of "march_year (nat yi) m"] my k(1) by simp
    then show ?thesis using True kd(2) res \<open>mp = 11\<close>
      by (auto simp: maximum_day_def year_days_def days_per_month_def month_start_def split: if_splits)
  next
    case False
    then have "d \<le> month_days mp" and "mp \<noteq> 11" using md res by auto
    then show ?thesis using False m(1) month_cases [OF md(1)] res
      by (elim disjE) (simp_all add: maximum_day_def days_per_month_def month_days_def)
  qed
  then have v: "valid_date (nat yi) m d" using m res assms(2) by (simp add: valid_date_def)
  moreover have "days_from_civil (int (nat yi)) m d = days"
    unfolding days_from_civil_number [OF v] my m(3) day_number_def k days kd(3)
    using era0 md res by simp
  ultimately show ?thesis using assms(2) by simp
qed

text \<open>Whatever \<open>timestamp_from_milliseconds\<close> prints for an instant, unless it lies in the
  year 0, is accepted by the recogniser and denotes the instant it was printed from.
\<close>

theorem timestamp_from_milliseconds_valid:
  assumes "timestamp_from_milliseconds v = Inr s" and "take 4 s \<noteq> ''0000''"
  shows "is_rfc3339_millisecond_utc s \<and> timestamp_milliseconds s = Inr v"
proof -
  define q where "q = v div 86400000"
  define r where "r = v mod 86400000"
  have eq: "v = q * 86400000 + r" and r: "0 \<le> r" "r < 86400000" by (simp_all add: q_def r_def)
  note fl = floor_split [OF eq r]
  obtain yi m d where c: "civil_from_days q = (yi, m, d)" by (cases "civil_from_days q") auto
  define h where "h = nat (r div 3600000)"
  define mi where "mi = nat (r mod 3600000 div 60000)"
  define se where "se = nat (r mod 3600000 mod 60000 div 1000)"
  define ms where "ms = nat (r mod 3600000 mod 60000 mod 1000)"
  have b: "h \<le> 23" "mi \<le> 59" "se \<le> 59" "ms \<le> 999"
    using r by (auto simp: h_def mi_def se_def ms_def)
  have split: "r = int (h * 3600000 + mi * 60000 + se * 1000 + ms)"
    using r by (simp add: h_def mi_def se_def ms_def pos_imp_zdiv_nonneg_iff)
  have y: "0 \<le> yi" "yi \<le> 9999" and s: "s = timestamp_text (nat yi) m d h mi se ms"
    using assms(1) r unfolding timestamp_from_milliseconds_def Let_def fl c
    by (auto simp: h_def mi_def se_def ms_def split: if_splits)
  have "yi \<noteq> 0"
  proof
    assume "yi = 0"
    then have "take 4 s = ''0000''"
      using zero_pad_dec4 [of "CHR ''0''" "CHR ''0''" "CHR ''0''" "CHR ''0''"]
      by (simp add: s timestamp_text_def is_dec_def code_def dec_value_def dec_val_def)
    with assms(2) show False by simp
  qed
  with y have "0 < yi" by simp
  from civil_from_days_valid [OF c this] have vd: "valid_date (nat yi) m d" "days_from_civil yi m d = q"
    by auto
  with b y have vf: "valid_fields (nat yi, m, d, h, mi, se, ms)" by (simp add: valid_fields_def)
  have "m \<le> 99" "d \<le> 99" using vd(1) maximum_day_le [of m "nat yi"] by (auto simp: valid_date_def)
  then have "timestamp_fields s = (nat yi, m, d, h, mi, se, ms)"
    using b y by (simp add: s text_fields)
  moreover have "is_rfc3339_millisecond_utc s" unfolding s by (rule rfc3339_text [OF vf])
  moreover have "instant (nat yi, m, d, h, mi, se, ms) = v"
    using y vd(2) by (simp add: instant_def eq split)
  ultimately show ?thesis by (simp add: timestamp_milliseconds_eq)
qed


section \<open>The order of timestamps\<close>

lemma append_less_append:
  fixes u u' :: "'a :: linorder list"
  shows "length u = length u' \<Longrightarrow> u @ v < u' @ v' \<longleftrightarrow> u < u' \<or> (u = u' \<and> v < v')"
  by (induction u u' rule: list_induct2) auto

lemma char_less_iff: "c < d \<longleftrightarrow> code c < code d"
  by (simp add: less_char_def code_def)

lemma digits_less_iff:
  "length s = length t \<Longrightarrow> list_all is_dec s \<Longrightarrow> list_all is_dec t \<Longrightarrow>
    s < t \<longleftrightarrow> dec_value s < dec_value t"
proof (induction s t rule: list_induct2)
  case Nil
  then show ?case by simp
next
  case (Cons a s b t)
  let ?p = "10 ^ length s :: nat"
  from Cons have bound: "dec_value s < ?p" "dec_value t < ?p" by (auto dest!: dec_value_bound)
  have v: "dec_value (a # s) = dec_val a * ?p + dec_value s" "dec_value (b # t) = dec_val b * ?p + dec_value t"
    using Cons.hyps by (simp_all add: dec_value_Cons)
  have ab: "a < b \<longleftrightarrow> dec_val a < dec_val b" "a = b \<longleftrightarrow> dec_val a = dec_val b"
    using Cons.prems by (auto simp: char_less_iff is_dec_def dec_val_def code_inject [symmetric])
  have step: "x * ?p + u < y * ?p + w" if "x < y" "u < ?p" for x y u w :: nat
  proof -
    have "x * ?p + u < (x + 1) * ?p" using that(2) by simp
    also have "\<dots> \<le> y * ?p" using that(1) by (intro mult_right_mono) auto
    finally show ?thesis by simp
  qed
  have "a # s < b # t \<longleftrightarrow> a < b \<or> a = b \<and> s < t" by auto
  also have "\<dots> \<longleftrightarrow> dec_value (a # s) < dec_value (b # t)"
    using Cons step [of "dec_val a" "dec_val b", OF _ bound(1)] step [of "dec_val b" "dec_val a", OF _ bound(2)]
    unfolding v ab by (cases "dec_val a" "dec_val b" rule: linorder_cases) (auto simp: not_less_iff_gr_or_eq)
  finally show ?case .
qed

lemma zero_pad_less_iff:
  "m < 10 ^ w \<Longrightarrow> n < 10 ^ w \<Longrightarrow> 0 < w \<Longrightarrow>
    zero_pad w (to_string m) < zero_pad w (to_string n) \<longleftrightarrow> m < n"
  using zero_pad_inverse [of m w] zero_pad_inverse [of n w] by (simp add: digits_less_iff)

lemma zero_pad_eq_iff: "zero_pad w (to_string m) = zero_pad w (to_string n) \<longleftrightarrow> m = n"
  by (metis dec_value_to_string dec_value_zero_pad)

lemma padded_append_less:
  assumes "m < 10 ^ w" "n < 10 ^ w" "0 < w"
  shows "zero_pad w (to_string m) @ c # s < zero_pad w (to_string n) @ c # t \<longleftrightarrow> m < n \<or> (m = n \<and> s < t)"
  using assms zero_pad_inverse [of m w] zero_pad_inverse [of n w]
  by (subst append_less_append) (auto simp: zero_pad_less_iff zero_pad_eq_iff)

lemma text_less_imp_instant_less:
  assumes a: "valid_fields (y, m, d, h, mi, se, ms)" and b: "valid_fields (y', m', d', h', mi', se', ms')"
    and less: "timestamp_text y m d h mi se ms < timestamp_text y' m' d' h' mi' se' ms'"
  shows "instant (y, m, d, h, mi, se, ms) < instant (y', m', d', h', mi', se', ms')"
proof -
  from a b have va: "valid_date y m d" and vb: "valid_date y' m' d'"
    and t: "h \<le> 23" "mi \<le> 59" "se \<le> 59" "ms \<le> 999" "h' \<le> 23" "mi' \<le> 59" "se' \<le> 59" "ms' \<le> 999"
    "y \<le> 9999" "y' \<le> 9999"
    by (auto simp: valid_fields_def)
  from va vb maximum_day_le [of m y] maximum_day_le [of m' y']
  have md: "m \<le> 12" "d \<le> 31" "m' \<le> 12" "d' \<le> 31" by (auto simp: valid_date_def)
  define r where "r = h * 3600000 + mi * 60000 + se * 1000 + ms"
  define r' where "r' = h' * 3600000 + mi' * 60000 + se' * 1000 + ms'"
  have r: "r < 86400000" "r' < 86400000" using t by (simp_all add: r_def r'_def)
  have lex: "y < y' \<or> y = y' \<and> (m < m' \<or> m = m' \<and> (d < d' \<or> d = d' \<and> r < r'))"
  proof -
    have "y < y' \<or> y = y' \<and> (m < m' \<or> m = m' \<and> (d < d' \<or> d = d' \<and> (h < h' \<or> h = h' \<and>
        (mi < mi' \<or> mi = mi' \<and> (se < se' \<or> se = se' \<and> ms < ms')))))"
      using less t md by (simp add: timestamp_text_def padded_append_less)
    moreover have "h < h' \<or> h = h' \<and> (mi < mi' \<or> mi = mi' \<and> (se < se' \<or> se = se' \<and> ms < ms')) \<Longrightarrow> r < r'"
      using t unfolding r_def r'_def by linarith
    ultimately show ?thesis by blast
  qed
  have i: "instant (y, m, d, h, mi, se, ms) =
      (int (day_number (march_year y m) (march_month m) d) - 719468) * 86400000 + int r"
    "instant (y', m', d', h', mi', se', ms') =
      (int (day_number (march_year y' m') (march_month m') d') - 719468) * 86400000 + int r'"
    by (simp_all add: instant_def days_from_civil_number va vb r_def r'_def)
  show ?thesis
  proof (cases "y = y' \<and> m = m' \<and> d = d'")
    case True
    with lex show ?thesis unfolding i by simp
  next
    case False
    with lex have "day_number (march_year y m) (march_month m) d < day_number (march_year y' m') (march_month m') d'"
      by (intro day_number_less va vb) auto
    then have "int (day_number (march_year y m) (march_month m) d) + 1
        \<le> int (day_number (march_year y' m') (march_month m') d')" by linarith
    with r show ?thesis unfolding i by (simp add: algebra_simps)
  qed
qed

lemma timestamp_less_iff:
  assumes s: "is_rfc3339_millisecond_utc s" and t: "is_rfc3339_millisecond_utc t"
    and a: "timestamp_milliseconds s = Inr a" and b: "timestamp_milliseconds t = Inr b"
  shows "s < t \<longleftrightarrow> a < b"
proof -
  have mono: "instant (timestamp_fields u) < instant (timestamp_fields v)"
    if "is_rfc3339_millisecond_utc u" "is_rfc3339_millisecond_utc v" "u < v" for u v
    using rfc3339_fields [OF that(1)] rfc3339_fields [OF that(2)] that(3)
      text_less_imp_instant_less
    by (cases "timestamp_fields u"; cases "timestamp_fields v") force
  from a b s t have "a = instant (timestamp_fields s)" "b = instant (timestamp_fields t)"
    by (auto simp: timestamp_milliseconds_eq)
  then show ?thesis using mono [OF s t] mono [OF t s] by (cases s t rule: linorder_cases) auto
qed

text \<open>On accepted timestamps the lexicographic order of the strings, which the sources compare
  with \<open><\<close> on \<open>std::string\<close>, is the order of the instants.
\<close>

theorem timestamp_order:
  assumes "is_rfc3339_millisecond_utc s" and "is_rfc3339_millisecond_utc t"
    and "timestamp_milliseconds s = Inr a" and "timestamp_milliseconds t = Inr b"
  shows "s < t \<longleftrightarrow> a < b"
  by (rule timestamp_less_iff [OF assms])


theorem timestamp_roundtrip_witness:
  "is_rfc3339_millisecond_utc ''2024-02-29T23:59:59.999Z'' \<and>
   (\<exists>v. timestamp_milliseconds ''2024-02-29T23:59:59.999Z'' = Inr v \<and>
        timestamp_from_milliseconds v = Inr ''2024-02-29T23:59:59.999Z'')"
proof
  show "is_rfc3339_millisecond_utc ''2024-02-29T23:59:59.999Z''" by code_simp
  then show "\<exists>v. timestamp_milliseconds ''2024-02-29T23:59:59.999Z'' = Inr v \<and>
      timestamp_from_milliseconds v = Inr ''2024-02-29T23:59:59.999Z''"
    by (rule timestamp_roundtrip)
qed

theorem timestamp_from_milliseconds_valid_witness:
  "timestamp_from_milliseconds (- 1) = Inr ''1969-12-31T23:59:59.999Z'' \<and>
   is_rfc3339_millisecond_utc ''1969-12-31T23:59:59.999Z'' \<and>
   timestamp_milliseconds ''1969-12-31T23:59:59.999Z'' = Inr (- 1)"
proof
  show eq: "timestamp_from_milliseconds (- 1) = Inr ''1969-12-31T23:59:59.999Z''" by code_simp
  show "is_rfc3339_millisecond_utc ''1969-12-31T23:59:59.999Z'' \<and>
      timestamp_milliseconds ''1969-12-31T23:59:59.999Z'' = Inr (- 1)"
    by (rule timestamp_from_milliseconds_valid [OF eq]) simp
qed

theorem timestamp_order_witness:
  "''2023-12-31T23:59:59.999Z'' < ''2024-01-01T00:00:00.000Z'' \<longleftrightarrow> (1704067199999 :: int) < 1704067200000"
proof (rule timestamp_order)
  show "is_rfc3339_millisecond_utc ''2023-12-31T23:59:59.999Z''" by code_simp
  show "is_rfc3339_millisecond_utc ''2024-01-01T00:00:00.000Z''" by code_simp
  show "timestamp_milliseconds ''2023-12-31T23:59:59.999Z'' = Inr 1704067199999" by code_simp
  show "timestamp_milliseconds ''2024-01-01T00:00:00.000Z'' = Inr 1704067200000" by code_simp
qed

text \<open>
  The bound \<open>0 \<le> year\<close> of \<open>timestamp_from_milliseconds\<close> is not the recogniser's \<open>year \<noteq> 0\<close>: an
  instant of the year 0 is printed, and the printed text is not a timestamp.
\<close>

lemma timestamp_year_zero_printed:
  "timestamp_from_milliseconds (- 62167219200000) = Inr ''0000-01-01T00:00:00.000Z''"
  by code_simp

lemma timestamp_year_zero_not_accepted:
  "\<not> is_rfc3339_millisecond_utc ''0000-01-01T00:00:00.000Z''"
  by code_simp

end
