(* ===== verification/Frame.thy ===== *)
theory Frame
  imports Timestamp Complex_Main
begin

text \<open>
  The v1 source frame and its validator (\<^verbatim>\<open>src/v1/model.cpp\<close>, \<^verbatim>\<open>v1/model.hpp\<close>). A C++ \<open>double\<close>
  is a finite rational, an infinity or a NaN; comparisons with NaN are false.
\<close>

section \<open>Doubles\<close>

datatype dbl = Fin rat | Inf bool | NaN

definition isfinite :: "dbl \<Rightarrow> bool" where
  "isfinite x = (case x of Fin _ \<Rightarrow> True | _ \<Rightarrow> False)"

fun dbl_less :: "dbl \<Rightarrow> dbl \<Rightarrow> bool" where
  "dbl_less (Fin a) (Fin b) = (a < b)"
| "dbl_less (Fin a) (Inf pos) = pos"
| "dbl_less (Inf pos) (Fin b) = (\<not> pos)"
| "dbl_less (Inf p) (Inf q) = (\<not> p \<and> q)"
| "dbl_less NaN y = False"
| "dbl_less x NaN = False"

definition dbl_ge :: "dbl \<Rightarrow> dbl \<Rightarrow> bool" where
  "dbl_ge x y \<longleftrightarrow> x \<noteq> NaN \<and> y \<noteq> NaN \<and> \<not> dbl_less x y"

lemma isfinite_iff: "isfinite x \<longleftrightarrow> (\<exists>q. x = Fin q)"
  by (cases x) (auto simp: isfinite_def)

section \<open>Source frames\<close>

definition kMaximumSourceAgeMs :: int where
  "kMaximumSourceAgeMs = 5000"

datatype FrameQuality = QualityValidCompleteFrame | QualityIncomplete | QualityMalformed

datatype FrameError =
    ErrorNone | ErrorIncomplete | ErrorMalformed | ErrorNonFinite | ErrorOutOfRange
  | ErrorFuture | ErrorStale | ErrorReordered

record SourceFrame =
  speed_kph :: dbl
  longitudinal_acceleration_mps2 :: dbl
  lateral_acceleration_mps2 :: dbl
  vertical_acceleration_mps2 :: dbl
  accelerator_pedal_percent :: int
  brake_pedal_percent :: int
  source_timestamp :: string
  source_epoch_ms :: int
  monotonic_ms :: int
  max_source_age_ms :: int
  quality :: FrameQuality

record FrameValidation =
  valid :: bool
  error :: FrameError

definition outside :: "dbl \<Rightarrow> rat \<Rightarrow> rat \<Rightarrow> bool" where
  "outside x lo hi \<longleftrightarrow> dbl_less x (Fin lo) \<or> dbl_less (Fin hi) x"

definition before_previous :: "int \<Rightarrow> int option \<Rightarrow> bool" where
  "before_previous t previous = (case previous of None \<Rightarrow> False | Some p \<Rightarrow> t < p)"

definition validate :: "SourceFrame \<Rightarrow> int option \<Rightarrow> int option \<Rightarrow> FrameValidation" where
  "validate f previous_source_epoch previous_monotonic =
     (if quality f = QualityIncomplete then \<lparr>valid = False, error = ErrorIncomplete\<rparr>
      else if quality f = QualityMalformed \<or> \<not> is_rfc3339_millisecond_utc (source_timestamp f)
      then \<lparr>valid = False, error = ErrorMalformed\<rparr>
      else if \<not> isfinite (speed_kph f) \<or> \<not> isfinite (longitudinal_acceleration_mps2 f) \<or>
         \<not> isfinite (lateral_acceleration_mps2 f) \<or> \<not> isfinite (vertical_acceleration_mps2 f)
      then \<lparr>valid = False, error = ErrorNonFinite\<rparr>
      else if outside (speed_kph f) 0 1000 \<or>
         outside (longitudinal_acceleration_mps2 f) (- 100) 100 \<or>
         outside (lateral_acceleration_mps2 f) (- 100) 100 \<or>
         outside (vertical_acceleration_mps2 f) (- 100) 100 \<or>
         accelerator_pedal_percent f < 0 \<or> accelerator_pedal_percent f > 100 \<or>
         brake_pedal_percent f < 0 \<or> brake_pedal_percent f > 100
      then \<lparr>valid = False, error = ErrorOutOfRange\<rparr>
      else if max_source_age_ms f < 0 then \<lparr>valid = False, error = ErrorFuture\<rparr>
      else if max_source_age_ms f > kMaximumSourceAgeMs then \<lparr>valid = False, error = ErrorStale\<rparr>
      else if before_previous (source_epoch_ms f) previous_source_epoch \<or>
         before_previous (monotonic_ms f) previous_monotonic
      then \<lparr>valid = False, error = ErrorReordered\<rparr>
      else \<lparr>valid = True, error = ErrorNone\<rparr>)"

section \<open>What a valid frame is\<close>

definition inside :: "dbl \<Rightarrow> rat \<Rightarrow> rat \<Rightarrow> bool" where
  "inside x lo hi = (case x of Fin q \<Rightarrow> lo \<le> q \<and> q \<le> hi | _ \<Rightarrow> False)"

definition sound_frame :: "SourceFrame \<Rightarrow> bool" where
  "sound_frame f \<longleftrightarrow> quality f = QualityValidCompleteFrame \<and>
     is_rfc3339_millisecond_utc (source_timestamp f) \<and>
     inside (speed_kph f) 0 1000 \<and> inside (longitudinal_acceleration_mps2 f) (- 100) 100 \<and>
     inside (lateral_acceleration_mps2 f) (- 100) 100 \<and>
     inside (vertical_acceleration_mps2 f) (- 100) 100 \<and>
     0 \<le> accelerator_pedal_percent f \<and> accelerator_pedal_percent f \<le> 100 \<and>
     0 \<le> brake_pedal_percent f \<and> brake_pedal_percent f \<le> 100 \<and>
     0 \<le> max_source_age_ms f \<and> max_source_age_ms f \<le> 5000"

definition not_before :: "int option \<Rightarrow> int \<Rightarrow> bool" where
  "not_before previous t = (case previous of None \<Rightarrow> True | Some p \<Rightarrow> p \<le> t)"

lemma before_previous_not_before: "before_previous t p \<longleftrightarrow> \<not> not_before p t"
  by (auto simp: before_previous_def not_before_def split: option.splits)

lemma finite_inside: "isfinite x \<and> \<not> outside x lo hi \<longleftrightarrow> inside x lo hi"
  by (cases x) (auto simp: isfinite_def outside_def inside_def)

lemma quality_valid_iff:
  "q \<noteq> QualityIncomplete \<and> q \<noteq> QualityMalformed \<longleftrightarrow> q = QualityValidCompleteFrame"
  by (cases q) auto

lemma validate_valid_iff:
  "valid (validate f pe pm) \<longleftrightarrow>
     sound_frame f \<and> not_before pe (source_epoch_ms f) \<and> not_before pm (monotonic_ms f)"
  by (auto simp: validate_def sound_frame_def finite_inside [symmetric] before_previous_not_before
      quality_valid_iff [symmetric] kMaximumSourceAgeMs_def)

text \<open>The validator accepts a frame exactly when it is complete, its timestamp and its signals are
  in their documented ranges, its age is between 0 and 5000 ms and neither clock runs backwards;
  and it reports the error \<open>None\<close> exactly then.
\<close>

theorem validate_iff:
  "(valid (validate f pe pm) \<longleftrightarrow>
      sound_frame f \<and> not_before pe (source_epoch_ms f) \<and> not_before pm (monotonic_ms f)) \<and>
   (error (validate f pe pm) = ErrorNone \<longleftrightarrow> valid (validate f pe pm))"
  by (rule conjI [OF validate_valid_iff]) (simp add: validate_def)

lemma validate_validD:
  assumes "valid (validate f pe pm)"
  shows "sound_frame f" and "not_before pe (source_epoch_ms f)" and "not_before pm (monotonic_ms f)"
  using assms by (simp_all add: validate_valid_iff)

end
