(* ===== verification/Engine_Contract.thy ===== *)
theory Engine_Contract
  imports Prelude
begin

text \<open>
  The interfaces that the two episode engines share. The v1 \<open>WindowEngine\<close> and the v2
  \<open>ModelCapture\<close> promise the same boundary behaviour and use the same debounce timer; each
  contract is a locale, its consequences are proved once here and both engines interpret it.
\<close>

section \<open>The debounce timer\<close>

text \<open>
  \<open>hold condition now duration start\<close> returns whether the condition has held long enough and
  the new start of the hold. \<open>held ds\<close> replays it on observations \<open>(condition, now)\<close>.
\<close>

type_synonym timer = "bool \<Rightarrow> int \<Rightarrow> int \<Rightarrow> int option \<Rightarrow> bool \<times> int option"

definition start_after :: "timer \<Rightarrow> int \<Rightarrow> (bool \<times> int) list \<Rightarrow> int option" where
  "start_after hold d obs = foldl (\<lambda>start (c, now). snd (hold c now d start)) None obs"

definition fires :: "timer \<Rightarrow> int \<Rightarrow> (bool \<times> int) list \<Rightarrow> bool \<times> int \<Rightarrow> bool" where
  "fires hold d obs = (\<lambda>(c, now). fst (hold c now d (start_after hold d obs)))"

text \<open>The longest suffix of observations on which the condition held.\<close>

definition current_run :: "(bool \<times> int) list \<Rightarrow> (bool \<times> int) list" where
  "current_run obs = rev (takeWhile fst (rev obs))"

lemma start_after_snoc:
  "start_after hold d (obs @ [(c, now)]) = snd (hold c now d (start_after hold d obs))"
  by (simp add: start_after_def)

lemma current_run_snoc: "current_run (obs @ [p]) = (if fst p then current_run obs @ [p] else [])"
  by (simp add: current_run_def)

locale hold_timer =
  fixes hold :: timer
  assumes hold_false: "hold False now d start = (False, None)"
    and hold_first: "hold True now d None = (now - now \<ge> d, Some now)"
    and hold_again: "hold True now d (Some t) = (now - t \<ge> d, Some t)"
begin

lemma start_after_run:
  "start_after hold d obs = (case current_run obs of [] \<Rightarrow> None | p # _ \<Rightarrow> Some (snd p))"
proof (induction obs rule: rev_induct)
  case Nil
  then show ?case by (simp add: start_after_def current_run_def)
next
  case (snoc p obs)
  obtain c now where p: "p = (c, now)" by (cases p)
  with snoc show ?case
    by (cases c; cases "current_run obs")
       (auto simp: start_after_snoc current_run_snoc hold_false hold_first hold_again)
qed

lemma fires_iff:
  "fires hold d obs (c, now) \<longleftrightarrow> c \<and> now - snd (hd (current_run (obs @ [(c, now)]))) \<ge> d"
  by (cases c; cases "current_run obs")
     (auto simp: fires_def start_after_run current_run_snoc hold_false hold_first hold_again)

end

section \<open>The episode engine\<close>

text \<open>
  An engine consumes inputs (frames, or requests to stop) and now and then emits a completed
  episode. Its contract: an invariant that every admissible input keeps, and that what is emitted
  is well formed. \<open>run\<close> collects the episodes of a whole sequence of inputs.
\<close>

fun run :: "('s \<Rightarrow> 'i \<Rightarrow> 's \<times> 'w option) \<Rightarrow> 's \<Rightarrow> 'i list \<Rightarrow> 's \<times> 'w list" where
  "run step s [] = (s, [])"
| "run step s (i # is) =
     (case step s i of (s', out) \<Rightarrow>
        (case run step s' is of (s'', ws) \<Rightarrow> (s'', (case out of None \<Rightarrow> ws | Some w \<Rightarrow> w # ws))))"

locale episode_engine =
  fixes step :: "'s \<Rightarrow> 'i \<Rightarrow> 's \<times> 'w option"
    and ok_input :: "'i \<Rightarrow> bool"
    and inv :: "'s \<Rightarrow> bool"
    and good :: "'w \<Rightarrow> bool"
  assumes inv_step: "inv s \<Longrightarrow> ok_input i \<Longrightarrow> inv (fst (step s i))"
    and good_step: "inv s \<Longrightarrow> ok_input i \<Longrightarrow> snd (step s i) = Some w \<Longrightarrow> good w"
begin

lemma run_inv: "inv s \<Longrightarrow> list_all ok_input is \<Longrightarrow> inv (fst (run step s is))"
proof (induction "is" arbitrary: s)
  case (Cons i "is")
  then have "inv (fst (step s i))" by (simp add: inv_step)
  with Cons.IH [of "fst (step s i)"] Cons.prems show ?case by (auto split: prod.splits)
qed simp

lemma run_good: "inv s \<Longrightarrow> list_all ok_input is \<Longrightarrow> list_all good (snd (run step s is))"
proof (induction "is" arbitrary: s)
  case (Cons i "is")
  then have "inv (fst (step s i))" by (simp add: inv_step)
  with Cons.IH [of "fst (step s i)"] good_step [OF Cons.prems(1), of i] Cons.prems(2)
  show ?case by (auto split: prod.splits option.splits)
qed simp

end

end
