(* ===== verification/Window.thy ===== *)
theory Window
  imports Frame Engine_Contract
begin

text \<open>
  The v1 window engine (\<^verbatim>\<open>src/v1/window.cpp\<close>): it keeps a short ring of frames before a braking
  event, captures the event, closes it and suppresses a retrigger after a truncation. The clocks
  are \<open>int\<close>: the 64-bit differences of the source are taken without wrap-around.
\<close>

section \<open>Data\<close>

datatype Phase = PhasePre | PhaseActive | PhasePost

datatype TerminalState =
    Complete | TruncatedMaxDuration | IncompleteSourceGap | AbortedServiceStop | AbortedRestart

datatype ReasonCode = NormalClear | MaxActiveDuration | SourceGap | ServiceStop | ServiceRestart

record RetainedSample =
  frame :: SourceFrame
  phase :: Phase

record EventWindow =
  event_id :: string
  trigger_timestamp :: string
  terminal_state :: TerminalState
  reason_code :: ReasonCode
  samples :: "RetainedSample list"

record IngestResult =
  validation :: FrameValidation
  retained :: bool
  event_started :: bool
  event_active :: bool
  completed :: "EventWindow option"

datatype State = StateIdle | StateActive | StatePost

text \<open>The members of the class, without the trailing underscore of the source.\<close>

record WindowEngine =
  eng_state :: State
  pre_ring :: "RetainedSample list"
  eng_samples :: "RetainedSample list"
  eng_event_id :: string
  eng_trigger_timestamp :: string
  previous_source_epoch_ms :: "int option"
  previous_monotonic_ms :: "int option"
  trigger_hold_start :: "int option"
  clear_hold_start :: "int option"
  suppression_clear_hold_start :: "int option"
  event_start_ms :: int
  active_segment_start_ms :: int
  accumulated_active_ms :: int
  post_start_ms :: int
  retained_source_bucket :: "int option"
  retrigger_suppressed :: bool

definition WindowEngine_new :: WindowEngine where
  "WindowEngine_new =
     \<lparr>eng_state = StateIdle, pre_ring = [], eng_samples = [], eng_event_id = [],
      eng_trigger_timestamp = [], previous_source_epoch_ms = None, previous_monotonic_ms = None,
      trigger_hold_start = None, clear_hold_start = None, suppression_clear_hold_start = None,
      event_start_ms = 0, active_segment_start_ms = 0, accumulated_active_ms = 0,
      post_start_ms = 0, retained_source_bucket = None, retrigger_suppressed = False\<rparr>"

definition maximum_pre_samples :: nat where "maximum_pre_samples = 30"
definition maximum_active_samples :: nat where "maximum_active_samples = 100"
definition maximum_post_samples :: nat where "maximum_post_samples = 20"
definition maximum_total_samples :: nat where "maximum_total_samples = 150"
definition maximum_pre_duration_ms :: int where "maximum_pre_duration_ms = 3000"

section \<open>Helpers of the engine\<close>

definition qualifying_trigger :: "SourceFrame \<Rightarrow> bool" where
  "qualifying_trigger f \<longleftrightarrow> dbl_ge (speed_kph f) (Fin 10) \<and> brake_pedal_percent f \<ge> 50"

definition qualifying_clear :: "SourceFrame \<Rightarrow> bool" where
  "qualifying_clear f \<longleftrightarrow> brake_pedal_percent f < 10 \<or> dbl_less (speed_kph f) (Fin (1 / 2))"

definition update_hold :: "bool \<Rightarrow> int \<Rightarrow> int \<Rightarrow> int option \<Rightarrow> bool \<times> int option" where
  "update_hold condition now_ms duration_ms hold_start =
     (if \<not> condition then (False, None)
      else (let start = (case hold_start of None \<Rightarrow> now_ms | Some t \<Rightarrow> t)
            in (now_ms - start \<ge> duration_ms, Some start)))"

definition prune_pre_samples :: "int \<Rightarrow> WindowEngine \<Rightarrow> WindowEngine" where
  "prune_pre_samples now_ms e =
     e\<lparr>pre_ring := dropWhile (\<lambda>s. now_ms - monotonic_ms (frame s) > maximum_pre_duration_ms) (pre_ring e)\<rparr>"

text \<open>\<open>while (size > maximum) pop_front\<close>.\<close>

definition pop_to :: "nat \<Rightarrow> 'a list \<Rightarrow> 'a list" where
  "pop_to maximum xs = drop (length xs - maximum) xs"

definition add_pre_sample :: "SourceFrame \<Rightarrow> WindowEngine \<Rightarrow> WindowEngine" where
  "add_pre_sample f e =
     (let e1 = prune_pre_samples (monotonic_ms f) e
      in e1\<lparr>pre_ring := pop_to maximum_pre_samples (pre_ring e1 @ [\<lparr>frame = f, phase = PhasePre\<rparr>])\<rparr>)"

definition add_capture_sample :: "SourceFrame \<Rightarrow> Phase \<Rightarrow> WindowEngine \<Rightarrow> WindowEngine" where
  "add_capture_sample f p e =
     (if length (eng_samples e) \<ge> maximum_total_samples then e
      else e\<lparr>eng_samples := eng_samples e @ [\<lparr>frame = f, phase = p\<rparr>]\<rparr>)"

text \<open>
  \<open>uuid\<close> is what the UUID source answers when it is called. An error leaves the engine as it
  was at the throw: the (empty) identifier is already stored.
\<close>

definition begin_event :: "string result \<Rightarrow> SourceFrame \<Rightarrow> WindowEngine \<Rightarrow> WindowEngine \<times> unit result" where
  "begin_event uuid f e =
     (case uuid of Inl x \<Rightarrow> (e, Inl x)
      | Inr uid \<Rightarrow>
         (let e1 = e\<lparr>eng_event_id := uid\<rparr>
          in if uid = [] then (e1, Inl (Runtime_error ''UUID source returned an empty identifier''))
             else
               (let e2 = prune_pre_samples (monotonic_ms f) e1;
                    e3 = e2\<lparr>eng_trigger_timestamp := source_timestamp f,
                            eng_samples := pre_ring e2,
                            pre_ring := [],
                            eng_state := StateActive\<rparr>
                in (e3\<lparr>event_start_ms := (if eng_samples e3 = [] then monotonic_ms f
                                          else monotonic_ms (frame (hd (eng_samples e3)))),
                       active_segment_start_ms := monotonic_ms f,
                       accumulated_active_ms := 0,
                       clear_hold_start := None,
                       trigger_hold_start := None\<rparr>, Inr ()))))"

definition active_elapsed_ms :: "int \<Rightarrow> WindowEngine \<Rightarrow> int" where
  "active_elapsed_ms now_ms e =
     (if eng_state e = StateActive
      then accumulated_active_ms e + (now_ms - active_segment_start_ms e)
      else accumulated_active_ms e)"

definition phase_count :: "Phase \<Rightarrow> RetainedSample list \<Rightarrow> nat" where
  "phase_count p ss = length (filter (\<lambda>s. phase s = p) ss)"

definition finish :: "TerminalState \<Rightarrow> ReasonCode \<Rightarrow> WindowEngine \<Rightarrow> WindowEngine \<times> EventWindow option" where
  "finish ts reason e =
     (if eng_state e = StateIdle then (e, None)
      else
        (let window = \<lparr>event_id = eng_event_id e, trigger_timestamp = eng_trigger_timestamp e,
                       terminal_state = ts, reason_code = reason, samples = eng_samples e\<rparr>;
             e1 = e\<lparr>eng_state := StateIdle, eng_event_id := [], eng_trigger_timestamp := [],
                    eng_samples := [], trigger_hold_start := None, clear_hold_start := None,
                    accumulated_active_ms := 0\<rparr>;
             e2 = (if ts = TruncatedMaxDuration
                   then e1\<lparr>retrigger_suppressed := True, suppression_clear_hold_start := None\<rparr>
                   else e1)
         in (e2, Some window)))"

section \<open>Ingestion\<close>

definition IngestResult_new :: "FrameValidation \<Rightarrow> IngestResult" where
  "IngestResult_new v =
     \<lparr>validation = v, retained = False, event_started = False, event_active = False, completed = None\<rparr>"

definition ingest_invalid :: "IngestResult \<Rightarrow> WindowEngine \<Rightarrow> WindowEngine \<times> IngestResult" where
  "ingest_invalid r e =
     (let e1 = e\<lparr>trigger_hold_start := None, clear_hold_start := None,
                 suppression_clear_hold_start := None\<rparr>;
          (e2, w) = (if eng_state e1 \<noteq> StateIdle then finish IncompleteSourceGap SourceGap e1
                     else (e1, None))
      in (e2, r\<lparr>completed := w, event_active := (eng_state e2 \<noteq> StateIdle)\<rparr>))"

definition ingest_suppressed :: "SourceFrame \<Rightarrow> IngestResult \<Rightarrow> WindowEngine \<Rightarrow> WindowEngine \<times> IngestResult" where
  "ingest_suppressed f r e =
     (let (held, start) = update_hold (qualifying_clear f) (monotonic_ms f) 500
                            (suppression_clear_hold_start e);
          e1 = e\<lparr>suppression_clear_hold_start := start\<rparr>;
          e2 = (if held then e1\<lparr>retrigger_suppressed := False, suppression_clear_hold_start := None\<rparr>
                else e1);
          e3 = (if retained r then add_pre_sample f e2 else e2)
      in (e3, r))"

definition ingest_idle :: "string result \<Rightarrow> SourceFrame \<Rightarrow> IngestResult \<Rightarrow> WindowEngine \<Rightarrow> WindowEngine \<times> IngestResult result" where
  "ingest_idle uuid f r e =
     (let (trigger, start) = update_hold (qualifying_trigger f) (monotonic_ms f) 200
                               (trigger_hold_start e);
          e1 = e\<lparr>trigger_hold_start := start\<rparr>
      in if trigger then
           (case begin_event uuid f e1 of
              (e2, Inl x) \<Rightarrow> (e2, Inl x)
            | (e2, Inr _) \<Rightarrow>
                (let e3 = (if retained r then add_capture_sample f PhaseActive e2 else e2)
                 in (e3, Inr (r\<lparr>event_started := True, event_active := (eng_state e3 \<noteq> StateIdle)\<rparr>))))
         else
           (let e2 = (if retained r then add_pre_sample f e1 else e1)
            in (e2, Inr (r\<lparr>event_active := (eng_state e2 \<noteq> StateIdle)\<rparr>))))"

definition over_limit :: "SourceFrame \<Rightarrow> WindowEngine \<Rightarrow> bool" where
  "over_limit f e \<longleftrightarrow>
     monotonic_ms f - event_start_ms e \<ge> 15000 \<or> active_elapsed_ms (monotonic_ms f) e \<ge> 10000 \<or>
     length (eng_samples e) \<ge> maximum_total_samples \<or>
     phase_count PhaseActive (eng_samples e) \<ge> maximum_active_samples"

text \<open>The tail of \<open>ingest\<close> after the two capturing branches.\<close>

definition ingest_tail :: "IngestResult \<Rightarrow> WindowEngine \<Rightarrow> WindowEngine \<times> IngestResult" where
  "ingest_tail r e =
     (let (e1, w) = (if length (eng_samples e) \<ge> maximum_total_samples
                     then finish TruncatedMaxDuration MaxActiveDuration e else (e, completed r))
      in (e1, r\<lparr>completed := w, event_active := (eng_state e1 \<noteq> StateIdle)\<rparr>))"

definition ingest_active :: "SourceFrame \<Rightarrow> IngestResult \<Rightarrow> WindowEngine \<Rightarrow> WindowEngine \<times> IngestResult" where
  "ingest_active f r e =
     (let (clear, start) = update_hold (qualifying_clear f) (monotonic_ms f) 500 (clear_hold_start e);
          e1 = e\<lparr>clear_hold_start := start\<rparr>;
          e2 = (if clear
                then e1\<lparr>accumulated_active_ms := accumulated_active_ms e1 +
                           (monotonic_ms f - active_segment_start_ms e1),
                        post_start_ms := monotonic_ms f, eng_state := StatePost,
                        clear_hold_start := None, trigger_hold_start := None\<rparr>
                else e1);
          e3 = (if retained r
                then add_capture_sample f (if eng_state e2 = StatePost then PhasePost else PhaseActive) e2
                else e2)
      in ingest_tail r e3)"

definition ingest_post :: "SourceFrame \<Rightarrow> IngestResult \<Rightarrow> WindowEngine \<Rightarrow> WindowEngine \<times> IngestResult" where
  "ingest_post f r e =
     (let (retrigger, start) = update_hold (qualifying_trigger f) (monotonic_ms f) 200
                                 (trigger_hold_start e);
          e1 = e\<lparr>trigger_hold_start := start\<rparr>
      in if \<not> retrigger \<and> (monotonic_ms f - post_start_ms e1 \<ge> 2000 \<or>
                           phase_count PhasePost (eng_samples e1) \<ge> maximum_post_samples)
         then (let (e2, w) = finish Complete NormalClear e1 in (e2, r\<lparr>completed := w\<rparr>))
         else
           (let e2 = (if retrigger
                      then e1\<lparr>eng_state := StateActive, active_segment_start_ms := monotonic_ms f,
                              trigger_hold_start := None, clear_hold_start := None\<rparr>
                      else e1);
                r2 = (if retrigger then r\<lparr>event_started := True\<rparr> else r);
                e3 = (if retained r2
                      then add_capture_sample f (if eng_state e2 = StateActive then PhaseActive else PhasePost) e2
                      else e2)
            in ingest_tail r2 e3))"

definition bucket :: "SourceFrame \<Rightarrow> int" where
  "bucket f = cdiv (source_epoch_ms f) 100"

definition ingest :: "string result \<Rightarrow> SourceFrame \<Rightarrow> WindowEngine \<Rightarrow> WindowEngine \<times> IngestResult result" where
  "ingest uuid f e =
     (let v = validate f (previous_source_epoch_ms e) (previous_monotonic_ms e);
          r0 = IngestResult_new v
      in if \<not> valid v then (let (e1, r1) = ingest_invalid r0 e in (e1, Inr r1))
         else
           (let e1 = e\<lparr>previous_source_epoch_ms := Some (source_epoch_ms f),
                       previous_monotonic_ms := Some (monotonic_ms f)\<rparr>;
                r1 = r0\<lparr>retained := (retained_source_bucket e1 = None \<or>
                                      retained_source_bucket e1 \<noteq> Some (bucket f))\<rparr>;
                e2 = (if retained r1 then e1\<lparr>retained_source_bucket := Some (bucket f)\<rparr> else e1)
            in if retrigger_suppressed e2
               then (let (e3, r3) = ingest_suppressed f r1 e2 in (e3, Inr r3))
               else if eng_state e2 = StateIdle then ingest_idle uuid f r1 e2
               else if over_limit f e2
               then (let (e3, w) = finish TruncatedMaxDuration MaxActiveDuration e2
                     in (e3, Inr (r1\<lparr>completed := w\<rparr>)))
               else if eng_state e2 = StateActive
               then (let (e3, r3) = ingest_active f r1 e2 in (e3, Inr r3))
               else (let (e3, r3) = ingest_post f r1 e2 in (e3, Inr r3))))"

definition abort_service_stop :: "WindowEngine \<Rightarrow> WindowEngine \<times> EventWindow option" where
  "abort_service_stop e = finish AbortedServiceStop ServiceStop e"

definition abort_restart :: "WindowEngine \<Rightarrow> WindowEngine \<times> EventWindow option" where
  "abort_restart e = finish AbortedRestart ServiceRestart e"

definition capturing :: "WindowEngine \<Rightarrow> bool" where
  "capturing e \<longleftrightarrow> eng_state e \<noteq> StateIdle"

definition activity_id :: "WindowEngine \<Rightarrow> string option" where
  "activity_id e = (if capturing e then Some (eng_event_id e) else None)"

definition activity_state :: "WindowEngine \<Rightarrow> string" where
  "activity_state e = (case eng_state e of StateActive \<Rightarrow> ''ACTIVE'' | StatePost \<Rightarrow> ''POST'' | StateIdle \<Rightarrow> ''WAITING'')"

definition phase_name :: "Phase \<Rightarrow> string" where
  "phase_name p = (case p of PhasePre \<Rightarrow> ''PRE'' | PhaseActive \<Rightarrow> ''ACTIVE'' | PhasePost \<Rightarrow> ''POST'')"

definition terminal_state_name :: "TerminalState \<Rightarrow> string" where
  "terminal_state_name s =
     (case s of Complete \<Rightarrow> ''COMPLETE'' | TruncatedMaxDuration \<Rightarrow> ''TRUNCATED_MAX_DURATION''
      | IncompleteSourceGap \<Rightarrow> ''INCOMPLETE_SOURCE_GAP''
      | AbortedServiceStop \<Rightarrow> ''ABORTED_SERVICE_STOP'' | AbortedRestart \<Rightarrow> ''ABORTED_RESTART'')"

definition reason_code_name :: "ReasonCode \<Rightarrow> string" where
  "reason_code_name r =
     (case r of NormalClear \<Rightarrow> ''NORMAL_CLEAR'' | MaxActiveDuration \<Rightarrow> ''MAX_ACTIVE_DURATION''
      | SourceGap \<Rightarrow> ''SOURCE_GAP'' | ServiceStop \<Rightarrow> ''SERVICE_STOP''
      | ServiceRestart \<Rightarrow> ''SERVICE_RESTART'')"

section \<open>The invariant\<close>

text \<open>
  What is retained, oldest first: the ring while idle, the captured samples otherwise. A
  chronicle has one frame per 100 ms bucket of source time, in the order of both clocks.
\<close>

definition chronicle :: "RetainedSample list \<Rightarrow> bool" where
  "chronicle ss \<longleftrightarrow>
     sorted_wrt (\<lambda>a b. bucket (frame a) < bucket (frame b) \<and>
                       monotonic_ms (frame a) \<le> monotonic_ms (frame b)) ss \<and>
     (\<forall>s \<in> set ss. sound_frame (frame s))"

definition pre_prefix :: "RetainedSample list \<Rightarrow> bool" where
  "pre_prefix ss \<longleftrightarrow> list_all (\<lambda>s. phase s \<noteq> PhasePre) (dropWhile (\<lambda>s. phase s = PhasePre) ss)"

definition seen :: "WindowEngine \<Rightarrow> RetainedSample \<Rightarrow> bool" where
  "seen e s \<longleftrightarrow> (\<exists>m b. previous_monotonic_ms e = Some m \<and> retained_source_bucket e = Some b \<and>
     monotonic_ms (frame s) \<le> m \<and> bucket (frame s) \<le> b)"

definition bucket_ok :: "WindowEngine \<Rightarrow> bool" where
  "bucket_ok e \<longleftrightarrow> (\<forall>b. retained_source_bucket e = Some b \<longrightarrow>
     (\<exists>p. previous_source_epoch_ms e = Some p \<and> b \<le> cdiv p 100))"

definition log_ok :: "WindowEngine \<Rightarrow> bool" where
  "log_ok e \<longleftrightarrow> bucket_ok e \<and> chronicle (pre_ring e) \<and> chronicle (eng_samples e) \<and>
     (\<forall>s \<in> set (pre_ring e) \<union> set (eng_samples e). seen e s)"

definition captured_ok :: "RetainedSample list \<Rightarrow> bool" where
  "captured_ok ss \<longleftrightarrow> phase_count PhasePre ss \<le> 30 \<and> phase_count PhaseActive ss \<le> 100 \<and> pre_prefix ss"

definition in_span :: "int \<Rightarrow> RetainedSample list \<Rightarrow> bool" where
  "in_span start ss \<longleftrightarrow>
     (\<forall>s \<in> set ss. start \<le> monotonic_ms (frame s) \<and> monotonic_ms (frame s) < start + 15000)"

definition idle_ok :: "WindowEngine \<Rightarrow> bool" where
  "idle_ok e \<longleftrightarrow> eng_samples e = [] \<and> length (pre_ring e) \<le> 30 \<and>
     list_all (\<lambda>s. phase s = PhasePre) (pre_ring e)"

definition capture_ok :: "WindowEngine \<Rightarrow> bool" where
  "capture_ok e \<longleftrightarrow> pre_ring e = [] \<and> \<not> retrigger_suppressed e \<and> eng_event_id e \<noteq> [] \<and>
     is_rfc3339_millisecond_utc (eng_trigger_timestamp e) \<and> length (eng_samples e) \<le> 150 \<and>
     captured_ok (eng_samples e) \<and> in_span (event_start_ms e) (eng_samples e) \<and>
     (\<exists>m. previous_monotonic_ms e = Some m \<and> event_start_ms e \<le> m)"

definition engine_ok :: "WindowEngine \<Rightarrow> bool" where
  "engine_ok e \<longleftrightarrow> log_ok e \<and>
     (if eng_state e = StateIdle then idle_ok e
      else capture_ok e \<and> length (eng_samples e) < 150)"

definition window_ok :: "EventWindow \<Rightarrow> bool" where
  "window_ok w \<longleftrightarrow> event_id w \<noteq> [] \<and> is_rfc3339_millisecond_utc (trigger_timestamp w) \<and>
     length (samples w) \<le> 150 \<and> captured_ok (samples w) \<and> chronicle (samples w) \<and>
     (\<forall>a \<in> set (samples w). \<forall>b \<in> set (samples w).
        monotonic_ms (frame a) - monotonic_ms (frame b) < 15000) \<and>
     (terminal_state w, reason_code w) \<in> set [(Complete, NormalClear),
        (TruncatedMaxDuration, MaxActiveDuration), (IncompleteSourceGap, SourceGap),
        (AbortedServiceStop, ServiceStop), (AbortedRestart, ServiceRestart)]"

lemmas window_limits = maximum_pre_samples_def maximum_active_samples_def maximum_post_samples_def
  maximum_total_samples_def maximum_pre_duration_ms_def

subsection \<open>Lists of samples\<close>

lemma cdiv_mono: "a \<le> b \<Longrightarrow> 0 < c \<Longrightarrow> cdiv a c \<le> cdiv b c"
proof (cases "0 \<le> a")
  case True
  then show "a \<le> b \<Longrightarrow> 0 < c \<Longrightarrow> ?thesis" by (simp add: zdiv_mono1)
next
  case False
  assume ab: "a \<le> b" "0 < c"
  then have a: "cdiv a c = - ((- a) div c)" using False by (simp add: cdiv_neg)
  show ?thesis
  proof (cases "0 \<le> b")
    case True
    moreover have "0 \<le> (- a) div c" "0 \<le> b div c"
      using False True ab by (simp_all add: pos_imp_zdiv_nonneg_iff)
    ultimately show ?thesis using ab a by simp
  next
    case False
    then have "cdiv b c = - ((- b) div c)" using ab by (simp add: cdiv_neg)
    moreover have "(- b) div c \<le> (- a) div c" using ab by (intro zdiv_mono1) auto
    ultimately show ?thesis using a by simp
  qed
qed

lemma chronicle_Nil [simp]: "chronicle []"
  by (simp add: chronicle_def)

lemma chronicle_drop: "chronicle ss \<Longrightarrow> chronicle (drop n ss)"
  by (auto simp: chronicle_def sorted_wrt_drop dest: in_set_dropD)

lemma chronicle_dropWhile: "chronicle ss \<Longrightarrow> chronicle (dropWhile P ss)"
  by (simp add: chronicle_drop dropWhile_eq_drop)

lemma chronicle_snoc:
  "chronicle (ss @ [s]) \<longleftrightarrow> chronicle ss \<and> sound_frame (frame s) \<and>
     (\<forall>a \<in> set ss. bucket (frame a) < bucket (frame s) \<and> monotonic_ms (frame a) \<le> monotonic_ms (frame s))"
  by (auto simp: chronicle_def sorted_wrt_append)

lemma phase_count_append [simp]: "phase_count p (xs @ ys) = phase_count p xs + phase_count p ys"
  by (simp add: phase_count_def)

lemma phase_count_single [simp]: "phase_count p [s] = (if phase s = p then 1 else 0)"
  by (simp add: phase_count_def)

lemma phase_count_le: "phase_count p ss \<le> length ss"
  by (simp add: phase_count_def)

lemma pre_prefix_snoc: "pre_prefix ss \<Longrightarrow> phase s \<noteq> PhasePre \<Longrightarrow> pre_prefix (ss @ [s])"
  by (simp add: pre_prefix_def dropWhile_append)

lemma pre_prefix_all: "list_all (\<lambda>s. phase s = PhasePre) ss \<Longrightarrow> pre_prefix ss"
  by (induction ss) (auto simp: pre_prefix_def)

lemma all_pre_counts:
  "list_all (\<lambda>s. phase s = PhasePre) ss \<Longrightarrow>
     phase_count PhasePre ss = length ss \<and> phase_count PhaseActive ss = 0"
  by (induction ss) (auto simp: phase_count_def)

lemma length_pop_to: "length (pop_to n xs) \<le> n"
  by (simp add: pop_to_def)

lemma set_pop_to: "x \<in> set (pop_to n xs) \<Longrightarrow> x \<in> set xs"
  by (auto simp: pop_to_def dest: in_set_dropD)

lemma chronicle_pop_to: "chronicle xs \<Longrightarrow> chronicle (pop_to n xs)"
  by (simp add: pop_to_def chronicle_drop)

lemma list_all_pop_to: "list_all P xs \<Longrightarrow> list_all P (pop_to n xs)"
  by (auto simp: list_all_iff dest: set_pop_to)

subsection \<open>The operations keep it\<close>

text \<open>\<open>admissible f r e\<close>: the frame \<open>f\<close> was accepted, and if it is retained its bucket is new.\<close>

definition admissible :: "SourceFrame \<Rightarrow> bool \<Rightarrow> WindowEngine \<Rightarrow> bool" where
  "admissible f r e \<longleftrightarrow> sound_frame f \<and> previous_monotonic_ms e = Some (monotonic_ms f) \<and>
     (r \<longrightarrow> retained_source_bucket e = Some (bucket f) \<and>
       (\<forall>s \<in> set (pre_ring e) \<union> set (eng_samples e). bucket (frame s) < bucket f))"

lemma admissible_seen:
  "admissible f r e \<Longrightarrow> log_ok e \<Longrightarrow> s \<in> set (pre_ring e) \<union> set (eng_samples e) \<Longrightarrow>
     monotonic_ms (frame s) \<le> monotonic_ms f"
  by (fastforce simp: admissible_def log_ok_def seen_def)

lemma add_pre_sample_ok:
  assumes "admissible f True e" and "log_ok e" and "idle_ok e"
  shows "log_ok (add_pre_sample f e)" and "idle_ok (add_pre_sample f e)"
proof -
  let ?old = "dropWhile (\<lambda>s. monotonic_ms f - monotonic_ms (frame s) > 3000) (pre_ring e)"
  let ?new = "\<lparr>frame = f, phase = PhasePre\<rparr>"
  have ring: "pre_ring (add_pre_sample f e) = pop_to 30 (?old @ [?new])"
    by (simp add: add_pre_sample_def prune_pre_samples_def window_limits Let_def)
  have same: "eng_samples (add_pre_sample f e) = eng_samples e"
    "bucket_ok (add_pre_sample f e) = bucket_ok e" "seen (add_pre_sample f e) = seen e"
    by (simp_all add: add_pre_sample_def prune_pre_samples_def Let_def bucket_ok_def seen_def fun_eq_iff)
  have old: "s \<in> set ?old \<Longrightarrow> s \<in> set (pre_ring e)" for s by (rule set_dropWhileD)
  have "chronicle (?old @ [?new])"
    using assms old admissible_seen [OF assms(1,2)]
    by (auto simp: chronicle_snoc chronicle_dropWhile admissible_def log_ok_def)
  moreover have "seen e ?new" using assms(1) by (simp add: admissible_def seen_def)
  ultimately show "log_ok (add_pre_sample f e)"
    using assms(2) old by (auto simp: log_ok_def same ring chronicle_pop_to dest!: set_pop_to)
  have "list_all (\<lambda>s. phase s = PhasePre) (?old @ [?new])"
    using assms(3) old by (auto simp: idle_ok_def list_all_iff)
  then show "idle_ok (add_pre_sample f e)"
    using assms(3) unfolding idle_ok_def ring same by (simp add: length_pop_to list_all_pop_to)
qed

lemma add_capture_sample_ok:
  assumes "admissible f True e" and "log_ok e" and "capture_ok e" and "length (eng_samples e) < 150"
    and "p \<noteq> PhasePre" and "p = PhaseActive \<Longrightarrow> phase_count PhaseActive (eng_samples e) < 100"
    and "event_start_ms e \<le> monotonic_ms f" and "monotonic_ms f < event_start_ms e + 15000"
  shows "log_ok (add_capture_sample f p e)" and "capture_ok (add_capture_sample f p e)"
proof -
  let ?new = "\<lparr>frame = f, phase = p\<rparr>"
  have eq: "add_capture_sample f p e = e\<lparr>eng_samples := eng_samples e @ [?new]\<rparr>"
    using assms(4) by (simp add: add_capture_sample_def window_limits)
  have same: "bucket_ok (add_capture_sample f p e) = bucket_ok e" "seen (add_capture_sample f p e) = seen e"
    by (simp_all add: eq bucket_ok_def seen_def fun_eq_iff)
  have "chronicle (eng_samples e @ [?new])" "seen e ?new"
    using assms(1,2) admissible_seen [OF assms(1,2)]
    by (auto simp: chronicle_snoc admissible_def log_ok_def seen_def)
  then show "log_ok (add_capture_sample f p e)"
    using assms(2) by (auto simp: log_ok_def same) (auto simp: eq)
  show "capture_ok (add_capture_sample f p e)"
    using assms(3-8) by (auto simp: eq capture_ok_def captured_ok_def in_span_def pre_prefix_snoc)
qed


lemma finish_ok:
  assumes "log_ok e" and "eng_state e \<noteq> StateIdle" and "capture_ok e"
    and "(ts, reason) \<in> set [(Complete, NormalClear),
        (TruncatedMaxDuration, MaxActiveDuration), (IncompleteSourceGap, SourceGap),
        (AbortedServiceStop, ServiceStop), (AbortedRestart, ServiceRestart)]"
  obtains e' w where "finish ts reason e = (e', Some w)" and "window_ok w" and "engine_ok e'"
    and "eng_state e' = StateIdle" and "samples w = eng_samples e" and "event_id w = eng_event_id e"
    and "terminal_state w = ts" and "retrigger_suppressed e' = (ts = TruncatedMaxDuration)"
proof
  let ?w = "\<lparr>event_id = eng_event_id e, trigger_timestamp = eng_trigger_timestamp e,
    terminal_state = ts, reason_code = reason, samples = eng_samples e\<rparr>"
  let ?e = "fst (finish ts reason e)"
  show "finish ts reason e = (?e, Some ?w)" using assms(2) by (simp add: finish_def Let_def)
  have span: "monotonic_ms (frame a) - monotonic_ms (frame b) < 15000"
    if "a \<in> set (eng_samples e)" "b \<in> set (eng_samples e)" for a b
  proof -
    from assms(3) have "in_span (event_start_ms e) (eng_samples e)" by (simp add: capture_ok_def)
    with that have "monotonic_ms (frame a) < event_start_ms e + 15000" "event_start_ms e \<le> monotonic_ms (frame b)"
      by (simp_all add: in_span_def)
    then show ?thesis by linarith
  qed
  show "window_ok ?w"
    using assms(1,3,4) span by (simp add: window_ok_def capture_ok_def log_ok_def)
  have f: "eng_state ?e = StateIdle" "eng_samples ?e = []" "pre_ring ?e = []"
      "bucket_ok ?e = bucket_ok e" "retrigger_suppressed ?e = (ts = TruncatedMaxDuration)"
    using assms(2,3) by (simp_all add: finish_def Let_def bucket_ok_def capture_ok_def)
  then show "engine_ok ?e" "eng_state ?e = StateIdle"
      "retrigger_suppressed ?e = (ts = TruncatedMaxDuration)"
    using assms(1) by (simp_all add: engine_ok_def log_ok_def idle_ok_def)
qed simp_all

lemma begin_event_ok:
  assumes a: "admissible f r e" and l: "log_ok e" and i: "idle_ok e" and s: "\<not> retrigger_suppressed e"
    and ok: "begin_event uuid f e = (e', Inr u)"
  shows "log_ok e'" and "capture_ok e'" and "admissible f r e'" and "eng_state e' = StateActive"
    and "length (eng_samples e') \<le> 30" and "phase_count PhaseActive (eng_samples e') = 0"
    and "event_start_ms e' \<le> monotonic_ms f" and "monotonic_ms f \<le> event_start_ms e' + 3000"
proof -
  let ?old = "dropWhile (\<lambda>s. monotonic_ms f - monotonic_ms (frame s) > 3000) (pre_ring e)"
  obtain uid where uid: "uuid = Inr uid" "uid \<noteq> []"
    using ok by (auto simp: begin_event_def Let_def split: sum.splits if_splits)
  have e': "eng_samples e' = ?old" "pre_ring e' = []" "eng_state e' = StateActive" "eng_event_id e' = uid"
    "eng_trigger_timestamp e' = source_timestamp f" "retrigger_suppressed e' = retrigger_suppressed e"
    "event_start_ms e' = (if ?old = [] then monotonic_ms f else monotonic_ms (frame (hd ?old)))"
    "bucket_ok e' = bucket_ok e" "seen e' = seen e" "previous_monotonic_ms e' = previous_monotonic_ms e"
    "retained_source_bucket e' = retained_source_bucket e"
    using ok uid by (auto simp: begin_event_def prune_pre_samples_def Let_def window_limits bucket_ok_def
        seen_def fun_eq_iff)
  have old: "x \<in> set (pre_ring e)" if "x \<in> set ?old" for x
    using that by (rule set_dropWhileD)
  have ch: "chronicle ?old" using l by (simp add: log_ok_def chronicle_dropWhile)
  then show "log_ok e'" using l old by (auto simp: log_ok_def e')
  show "admissible f r e'" using a i old by (auto simp: admissible_def e' idle_ok_def)
  show "eng_state e' = StateActive" by (rule e')
  have pre: "list_all (\<lambda>s. phase s = PhasePre) ?old"
    using i old by (auto simp: idle_ok_def list_all_iff)
  have "length ?old \<le> length (pre_ring e)" by (rule length_dropWhile_le)
  then show len: "length (eng_samples e') \<le> 30" using i by (simp add: e' idle_ok_def)
  show "phase_count PhaseActive (eng_samples e') = 0" using all_pre_counts [OF pre] by (simp add: e')
  have mono: "monotonic_ms (frame x) \<le> monotonic_ms f" if "x \<in> set ?old" for x
    using admissible_seen [OF a l] old [OF that] by blast
  have hd: "monotonic_ms (frame (hd ?old)) \<le> monotonic_ms (frame x)" if "x \<in> set ?old" for x
    using ch that by (cases ?old) (auto simp: chronicle_def)
  have near: "monotonic_ms f \<le> monotonic_ms (frame (hd ?old)) + 3000" if "?old \<noteq> []"
    using hd_dropWhile [OF that] by simp
  show "event_start_ms e' \<le> monotonic_ms f" "monotonic_ms f \<le> event_start_ms e' + 3000"
    using mono [of "hd ?old"] near by (auto simp: e')
  have "in_span (event_start_ms e') ?old"
    unfolding in_span_def
  proof
    fix x assume x: "x \<in> set ?old"
    then have "?old \<noteq> []" by (cases ?old) simp_all
    then have "event_start_ms e' = monotonic_ms (frame (hd ?old))" using e'(7) by (simp only: if_False)
    with near [OF \<open>?old \<noteq> []\<close>] hd [OF x] mono [OF x]
    show "event_start_ms e' \<le> monotonic_ms (frame x) \<and>
        monotonic_ms (frame x) < event_start_ms e' + 15000" by linarith
  qed
  then show "capture_ok e'"
    using a s uid len pre all_pre_counts [OF pre] \<open>event_start_ms e' \<le> monotonic_ms f\<close>
    by (simp add: capture_ok_def e' captured_ok_def pre_prefix_all admissible_def sound_frame_def)
qed

lemma begin_event_error_ok:
  assumes "log_ok e" and "idle_ok e" and "begin_event uuid f e = (e', Inl x)"
  shows "log_ok e'" and "idle_ok e'" and "eng_state e' = eng_state e"
  using assms
  by (auto simp: begin_event_def log_ok_def idle_ok_def bucket_ok_def seen_def Let_def
      split: sum.splits if_splits)

text \<open>Only the fields that the invariant reads matter.\<close>

definition core :: "WindowEngine \<Rightarrow> _" where
  "core e = ((pre_ring e, eng_samples e, eng_event_id e, eng_trigger_timestamp e),
     (previous_source_epoch_ms e, previous_monotonic_ms e, retained_source_bucket e),
     (event_start_ms e, retrigger_suppressed e))"

lemma core_cong:
  assumes "core e = core e'"
  shows "log_ok e = log_ok e'" and "idle_ok e = idle_ok e'" and "capture_ok e = capture_ok e'"
    and "admissible f r e = admissible f r e'"
  using assms
  by (simp_all add: core_def log_ok_def idle_ok_def capture_ok_def admissible_def bucket_ok_def seen_def)


definition outcome_ok :: "WindowEngine \<times> IngestResult \<Rightarrow> bool" where
  "outcome_ok = (\<lambda>(e, r). engine_ok e \<and> (\<forall>w. completed r = Some w \<longrightarrow> window_ok w))"

lemma engine_ok_idle: "eng_state e = StateIdle \<Longrightarrow> engine_ok e \<longleftrightarrow> log_ok e \<and> idle_ok e"
  by (simp add: engine_ok_def)

lemma engine_ok_capturing:
  "eng_state e \<noteq> StateIdle \<Longrightarrow> engine_ok e \<longleftrightarrow> log_ok e \<and> capture_ok e \<and> length (eng_samples e) < 150"
  by (auto simp: engine_ok_def)

lemma ingest_tail_ok:
  assumes "log_ok e" and "eng_state e \<noteq> StateIdle" and "capture_ok e" and "completed r = None"
  shows "outcome_ok (ingest_tail r e)"
proof (cases "length (eng_samples e) \<ge> 150")
  case True
  from assms obtain e' w where "finish TruncatedMaxDuration MaxActiveDuration e = (e', Some w)"
    "window_ok w" "engine_ok e'" by (auto elim!: finish_ok [of e TruncatedMaxDuration MaxActiveDuration])
  with True show ?thesis by (simp add: ingest_tail_def outcome_ok_def window_limits)
next
  case False
  with assms show ?thesis
    by (simp add: ingest_tail_def outcome_ok_def window_limits engine_ok_capturing)
qed

lemma ingest_invalid_ok:
  assumes "engine_ok e" and "completed r = None"
  shows "outcome_ok (ingest_invalid r e)"
proof -
  define e1 where "e1 = e\<lparr>trigger_hold_start := None, clear_hold_start := None,
    suppression_clear_hold_start := None\<rparr>"
  have core: "core e1 = core e" and st: "eng_state e1 = eng_state e"
    by (simp_all add: e1_def core_def)
  have ok: "engine_ok e1"
    using assms(1) core_cong [OF core] core by (simp add: engine_ok_def st core_def)
  show ?thesis
  proof (cases "eng_state e = StateIdle")
    case True
    with ok assms(2) show ?thesis
      by (simp add: ingest_invalid_def outcome_ok_def e1_def [symmetric] st)
  next
    case False
    with ok st obtain e' w where "finish IncompleteSourceGap SourceGap e1 = (e', Some w)"
      "window_ok w" "engine_ok e'"
      by (auto simp: engine_ok_capturing elim!: finish_ok [of e1 IncompleteSourceGap SourceGap])
    with False st show ?thesis
      by (simp add: ingest_invalid_def outcome_ok_def e1_def [symmetric])
  qed
qed

lemma ingest_suppressed_ok:
  assumes "admissible f (retained r) e" and "log_ok e" and "idle_ok e" and "eng_state e = StateIdle"
    and "completed r = None"
  shows "outcome_ok (ingest_suppressed f r e)"
proof -
  obtain h start where u: "update_hold (qualifying_clear f) (monotonic_ms f) 500
      (suppression_clear_hold_start e) = (h, start)" by fastforce
  define e2 where "e2 = (if h then e\<lparr>retrigger_suppressed := False, suppression_clear_hold_start := None\<rparr>
    else e\<lparr>suppression_clear_hold_start := start\<rparr>)"
  have eq: "ingest_suppressed f r e = ((if retained r then add_pre_sample f e2 else e2), r)"
    by (simp add: ingest_suppressed_def u e2_def)
  have e2: "log_ok e2" "idle_ok e2" "admissible f (retained r) e2" "eng_state e2 = StateIdle"
    using assms by (auto simp: e2_def log_ok_def idle_ok_def admissible_def bucket_ok_def seen_def)
  have st: "eng_state (add_pre_sample f e2) = StateIdle"
    using e2(4) by (simp add: add_pre_sample_def prune_pre_samples_def Let_def)
  show ?thesis
    using e2 st assms(5) add_pre_sample_ok [of f e2]
    by (auto simp: eq outcome_ok_def engine_ok_idle)
qed

lemma add_capture_sample_state [simp]:
  "eng_state (add_capture_sample f p e) = eng_state e"
  by (simp add: add_capture_sample_def)

lemma ingest_idle_ok:
  assumes a: "admissible f (retained r) e" and l: "log_ok e" and i: "idle_ok e"
    and st: "eng_state e = StateIdle" and s: "\<not> retrigger_suppressed e" and c: "completed r = None"
    and res: "ingest_idle uuid f r e = (e', out)"
  shows "engine_ok e'" and "\<And>r'. out = Inr r' \<Longrightarrow> completed r' = None"
proof -
  obtain h start where u: "update_hold (qualifying_trigger f) (monotonic_ms f) 200
      (trigger_hold_start e) = (h, start)" by fastforce
  define e1 where "e1 = e\<lparr>trigger_hold_start := start\<rparr>"
  have core: "core e1 = core e" by (simp add: e1_def core_def)
  have e1: "log_ok e1" "idle_ok e1" "admissible f (retained r) e1" "eng_state e1 = StateIdle"
      "\<not> retrigger_suppressed e1"
    using core_cong [OF core] a l i st s by (simp_all add: e1_def)
  obtain e2 b where be: "begin_event uuid f e1 = (e2, b)" by fastforce
  show "\<And>r'. out = Inr r' \<Longrightarrow> completed r' = None"
    using res c be by (auto simp: ingest_idle_def u e1_def [symmetric] Let_def split: if_splits sum.splits)
  show "engine_ok e'"
  proof (cases h)
    case False
    then have e': "e' = (if retained r then add_pre_sample f e1 else e1)"
      using res by (auto simp: ingest_idle_def u e1_def [symmetric] Let_def)
    moreover have "eng_state (add_pre_sample f e1) = StateIdle"
      using e1(4) by (simp add: add_pre_sample_def prune_pre_samples_def Let_def)
    ultimately show ?thesis using e1 add_pre_sample_ok [of f e1] by (auto simp: engine_ok_idle)
  next
    case True
    show ?thesis
    proof (cases b)
      case (Inl x)
      with True be res have "e' = e2" by (simp add: ingest_idle_def u e1_def [symmetric])
      with begin_event_error_ok [OF e1(1,2)] be Inl e1(4) show ?thesis
        by (simp add: engine_ok_idle)
    next
      case (Inr x)
      note b = begin_event_ok [OF e1(3,1,2,5) be [unfolded Inr]]
      from True be res Inr have "e' = (if retained r then add_capture_sample f PhaseActive e2 else e2)"
        by (auto simp: ingest_idle_def u e1_def [symmetric] Let_def)
      moreover have "length (eng_samples (add_capture_sample f PhaseActive e2)) \<le> 31"
        using b(5) by (simp add: add_capture_sample_def)
      moreover have "retained r \<Longrightarrow> log_ok (add_capture_sample f PhaseActive e2) \<and>
          capture_ok (add_capture_sample f PhaseActive e2)"
        using b by (intro conjI add_capture_sample_ok) auto
      ultimately show ?thesis using b by (auto simp: engine_ok_capturing)
    qed
  qed
qed


lemma not_over_limit:
  assumes "\<not> over_limit f e"
  shows "monotonic_ms f < event_start_ms e + 15000" and "length (eng_samples e) < 150"
    and "phase_count PhaseActive (eng_samples e) < 100"
  using assms by (auto simp: over_limit_def window_limits)

text \<open>A capturing step: the state may move between active and post, then the frame is added.\<close>

lemma capture_step_ok:
  assumes a: "admissible f (retained r) e" and l: "log_ok e" and c: "capture_ok e"
    and lim: "\<not> over_limit f e"
    and core: "core e1 = core e" and st: "eng_state e1 \<noteq> StateIdle" and p: "p \<noteq> PhasePre"
    and r: "completed r' = None"
  shows "outcome_ok (ingest_tail r' (if retained r then add_capture_sample f p e1 else e1))"
proof (rule ingest_tail_ok)
  have same: "eng_samples e1 = eng_samples e" "event_start_ms e1 = event_start_ms e"
    using core by (simp_all add: core_def)
  note cc = core_cong [OF core] and nl = not_over_limit [OF lim]
  have start: "event_start_ms e \<le> monotonic_ms f" using a c by (simp add: admissible_def capture_ok_def)
  have "retained r \<Longrightarrow> log_ok (add_capture_sample f p e1) \<and> capture_ok (add_capture_sample f p e1)"
    using a l c nl p start by (intro conjI add_capture_sample_ok) (auto simp: cc same)
  then show "log_ok (if retained r then add_capture_sample f p e1 else e1)"
    "capture_ok (if retained r then add_capture_sample f p e1 else e1)"
    using l c by (auto simp: cc)
  show "eng_state (if retained r then add_capture_sample f p e1 else e1) \<noteq> StateIdle"
    using st by simp
qed (rule r)

lemma ingest_active_ok:
  assumes "admissible f (retained r) e" and "log_ok e" and "capture_ok e"
    and "\<not> over_limit f e" and "eng_state e = StateActive"
    and "completed r = None"
  shows "outcome_ok (ingest_active f r e)"
proof -
  obtain h start where u: "update_hold (qualifying_clear f) (monotonic_ms f) 500 (clear_hold_start e) = (h, start)"
    by fastforce
  show ?thesis
    unfolding ingest_active_def Let_def u prod.case
    by (rule capture_step_ok [OF assms(1-4)]) (use assms in \<open>auto simp: core_def\<close>)
qed

lemma ingest_post_ok:
  assumes "admissible f (retained r) e" and "log_ok e" and "capture_ok e"
    and "\<not> over_limit f e" and "eng_state e = StatePost"
    and "completed r = None"
  shows "outcome_ok (ingest_post f r e)"
proof -
  obtain h start where u: "update_hold (qualifying_trigger f) (monotonic_ms f) 200 (trigger_hold_start e) = (h, start)"
    by fastforce
  define e1 where "e1 = e\<lparr>trigger_hold_start := start\<rparr>"
  have core: "core e1 = core e" and st: "eng_state e1 = StatePost"
    using assms(5) by (simp_all add: e1_def core_def)
  show ?thesis
  proof (cases "\<not> h \<and> (monotonic_ms f - post_start_ms e1 \<ge> 2000 \<or>
      phase_count PhasePost (eng_samples e1) \<ge> maximum_post_samples)")
    case True
    obtain e' w where "finish Complete NormalClear e1 = (e', Some w)" "window_ok w" "engine_ok e'"
      using assms core_cong [OF core] st by (auto elim!: finish_ok [of e1 Complete NormalClear])
    then show ?thesis
      unfolding ingest_post_def Let_def u prod.case e1_def [symmetric] if_P [OF True]
      by (simp add: outcome_ok_def)
  next
    case False
    have "outcome_ok (ingest_tail (if h then r\<lparr>event_started := True\<rparr> else r)
      (let e2 = (if h then e1\<lparr>eng_state := StateActive, active_segment_start_ms := monotonic_ms f,
                              trigger_hold_start := None, clear_hold_start := None\<rparr> else e1)
       in if retained r then add_capture_sample f (if eng_state e2 = StateActive then PhaseActive else PhasePost) e2
          else e2))"
      unfolding Let_def
      by (rule capture_step_ok [OF assms(1-4)]) (use assms core st in \<open>auto simp: core_def\<close>)
    then show ?thesis
      unfolding ingest_post_def Let_def u prod.case e1_def [symmetric] if_not_P [OF False]
      by (cases h) simp_all
  qed
qed


subsection \<open>Every input keeps it\<close>

lemma accept_admissible:
  assumes ok: "engine_ok e" and v: "valid (validate f (previous_source_epoch_ms e) (previous_monotonic_ms e))"
    and r: "r \<longleftrightarrow> retained_source_bucket e \<noteq> Some (bucket f)"
    and e1: "e1 = e\<lparr>previous_source_epoch_ms := Some (source_epoch_ms f),
                    previous_monotonic_ms := Some (monotonic_ms f)\<rparr>"
    and e2: "e2 = (if r then e1\<lparr>retained_source_bucket := Some (bucket f)\<rparr> else e1)"
  shows "admissible f r e2" and "log_ok e2"
proof -
  note v = validate_validD [OF v]
  have bo: "bucket_ok e" and sn: "\<forall>s \<in> set (pre_ring e) \<union> set (eng_samples e). seen e s"
    and ch: "chronicle (pre_ring e)" "chronicle (eng_samples e)"
    using ok by (auto simp: engine_ok_def log_ok_def)
  have le: "b \<le> bucket f" if b: "retained_source_bucket e = Some b" for b
  proof -
    from bo b obtain p where p: "previous_source_epoch_ms e = Some p" "b \<le> cdiv p 100"
      by (auto simp: bucket_ok_def)
    with v(2) have "p \<le> source_epoch_ms f" by (simp add: not_before_def)
    then have "cdiv p 100 \<le> bucket f" unfolding bucket_def by (rule cdiv_mono) simp
    with p(2) show ?thesis by simp
  qed
  have seen2: "seen e2 s" if s: "seen e s" for s
  proof -
    from s obtain m b where mb: "previous_monotonic_ms e = Some m" "retained_source_bucket e = Some b"
      "monotonic_ms (frame s) \<le> m" "bucket (frame s) \<le> b" by (auto simp: seen_def)
    with v(3) le [OF mb(2)] show ?thesis by (auto simp: seen_def e2 e1 not_before_def)
  qed
  have f: "pre_ring e2 = pre_ring e" "eng_samples e2 = eng_samples e" by (simp_all add: e2 e1)
  have "bucket_ok e2" using bo le by (auto simp: bucket_ok_def e2 e1 bucket_def)
  then show "log_ok e2" using ch sn seen2 by (auto simp: log_ok_def f)
  have new: "bucket (frame s) < bucket f" if "seen e s" r for s
  proof -
    from that(1) obtain b where b: "retained_source_bucket e = Some b" "bucket (frame s) \<le> b"
      by (auto simp: seen_def)
    moreover from b that(2) r have "b \<noteq> bucket f" by auto
    ultimately show ?thesis using le [OF b(1)] by simp
  qed
  have "retained_source_bucket e2 = Some (bucket f)" if r using that by (simp add: e2)
  moreover have "previous_monotonic_ms e2 = Some (monotonic_ms f)" by (simp add: e2 e1)
  moreover have "\<forall>s \<in> set (pre_ring e) \<union> set (eng_samples e). bucket (frame s) < bucket f" if r
    using sn new that by blast
  ultimately show "admissible f r e2" using v(1) by (simp add: admissible_def f)
qed


datatype EngineInput = Feed "string result" SourceFrame | Stop | Restart

definition engine_step :: "WindowEngine \<Rightarrow> EngineInput \<Rightarrow> WindowEngine \<times> EventWindow option" where
  "engine_step e i =
     (case i of
        Feed uuid f \<Rightarrow> (case ingest uuid f e of (e', out) \<Rightarrow>
           (e', (case out of Inl _ \<Rightarrow> None | Inr r \<Rightarrow> completed r)))
      | Stop \<Rightarrow> abort_service_stop e
      | Restart \<Rightarrow> abort_restart e)"

lemma ingest_ok:
  assumes ok: "engine_ok e" and res: "ingest uuid f e = (e', out)"
  shows "engine_ok e'" and "\<And>r w. out = Inr r \<Longrightarrow> completed r = Some w \<Longrightarrow> window_ok w"
proof -
  define v where "v = validate f (previous_source_epoch_ms e) (previous_monotonic_ms e)"
  define r where "r \<longleftrightarrow> retained_source_bucket e \<noteq> Some (bucket f)"
  define e1 where "e1 = e\<lparr>previous_source_epoch_ms := Some (source_epoch_ms f),
    previous_monotonic_ms := Some (monotonic_ms f)\<rparr>"
  define e2 where "e2 = (if r then e1\<lparr>retained_source_bucket := Some (bucket f)\<rparr> else e1)"
  define r1 where "r1 = (IngestResult_new v)\<lparr>retained := r\<rparr>"
  have r1: "completed r1 = None" "retained r1 = r" by (simp_all add: r1_def IngestResult_new_def)
  have r_eq: "(retained_source_bucket e1 = None \<or> retained_source_bucket e1 \<noteq> Some (bucket f)) = r"
    by (auto simp: r_def e1_def)
  have goal: "engine_ok e' \<and> (\<forall>r w. out = Inr r \<longrightarrow> completed r = Some w \<longrightarrow> window_ok w)"
  proof (cases "valid v")
    case False
    with ok ingest_invalid_ok [OF ok, of "IngestResult_new v"] res show ?thesis
      by (auto simp: ingest_def v_def [symmetric] Let_def outcome_ok_def IngestResult_new_def split: prod.splits)
  next
    case True
    note acc = accept_admissible [OF ok True [unfolded v_def] r_def e1_def e2_def]
    have f: "eng_state e2 = eng_state e" "retrigger_suppressed e2 = retrigger_suppressed e"
      by (simp_all add: e2_def e1_def)
    have idle: "idle_ok e2" if "eng_state e = StateIdle"
      using ok that by (simp add: engine_ok_idle idle_ok_def e2_def e1_def)
    have supp: "eng_state e = StateIdle" if "retrigger_suppressed e"
      using ok that by (auto simp: engine_ok_def capture_ok_def split: if_splits)
    have cap: "capture_ok e2" if "eng_state e \<noteq> StateIdle"
      using ok that validate_validD(3) [OF True [unfolded v_def]]
      by (auto simp: engine_ok_capturing capture_ok_def e2_def e1_def not_before_def)
    have eq: "ingest uuid f e =
      (if retrigger_suppressed e2 then (let (e3, r3) = ingest_suppressed f r1 e2 in (e3, Inr r3))
       else if eng_state e2 = StateIdle then ingest_idle uuid f r1 e2
       else if over_limit f e2
       then (let (e3, w) = finish TruncatedMaxDuration MaxActiveDuration e2 in (e3, Inr (r1\<lparr>completed := w\<rparr>)))
       else if eng_state e2 = StateActive then (let (e3, r3) = ingest_active f r1 e2 in (e3, Inr r3))
       else (let (e3, r3) = ingest_post f r1 e2 in (e3, Inr r3)))"
      using True r_eq unfolding ingest_def Let_def v_def [symmetric] e1_def [symmetric]
      by (simp add: r1_def e2_def)
    consider (supp) "retrigger_suppressed e2" | (idle) "\<not> retrigger_suppressed e2" "eng_state e2 = StateIdle"
      | (limit) "\<not> retrigger_suppressed e2" "eng_state e2 \<noteq> StateIdle" "over_limit f e2"
      | (active) "\<not> retrigger_suppressed e2" "eng_state e2 = StateActive" "\<not> over_limit f e2"
      | (post) "\<not> retrigger_suppressed e2" "eng_state e2 = StatePost" "\<not> over_limit f e2"
      by (cases "eng_state e2") auto
    then show ?thesis
    proof cases
      case supp
      with acc idle supp f r1 ingest_suppressed_ok [of f r1 e2] res show ?thesis
        using \<open>retrigger_suppressed e \<Longrightarrow> eng_state e = StateIdle\<close>
        by (auto simp: eq outcome_ok_def split: prod.splits)
    next
      case idle
      with res have "ingest_idle uuid f r1 e2 = (e', out)" by (simp add: eq)
      with ingest_idle_ok [of f r1 e2 uuid e' out] acc idle f r1 \<open>eng_state e = StateIdle \<Longrightarrow> idle_ok e2\<close>
      show ?thesis by (cases out) auto
    next
      case limit
      then obtain e3 w where "finish TruncatedMaxDuration MaxActiveDuration e2 = (e3, Some w)"
        "window_ok w" "engine_ok e3"
        using acc cap f by (auto elim!: finish_ok [of e2 TruncatedMaxDuration MaxActiveDuration])
      with limit res show ?thesis by (auto simp: eq)
    next
      case active
      with acc cap f r1 ingest_active_ok [of f r1 e2] res show ?thesis
        by (auto simp: eq outcome_ok_def split: prod.splits)
    next
      case post
      with acc cap f r1 ingest_post_ok [of f r1 e2] res show ?thesis
        by (auto simp: eq outcome_ok_def split: prod.splits)
    qed
  qed
  then show "engine_ok e'" and "\<And>r w. out = Inr r \<Longrightarrow> completed r = Some w \<Longrightarrow> window_ok w" by auto
qed


lemma abort_ok:
  assumes "engine_ok e" and "(ts, reason) \<in> set [(AbortedServiceStop, ServiceStop), (AbortedRestart, ServiceRestart)]"
  shows "engine_ok (fst (finish ts reason e))" and "snd (finish ts reason e) = Some w \<Longrightarrow> window_ok w"
proof -
  have "engine_ok (fst (finish ts reason e)) \<and> (snd (finish ts reason e) = Some w \<longrightarrow> window_ok w)"
  proof (cases "eng_state e = StateIdle")
    case True
    with assms show ?thesis by (simp add: finish_def)
  next
    case False
    with assms obtain e' w' where "finish ts reason e = (e', Some w')" "window_ok w'" "engine_ok e'"
      by (auto simp: engine_ok_capturing elim!: finish_ok [of e ts reason])
    then show ?thesis by auto
  qed
  then show "engine_ok (fst (finish ts reason e))" and "snd (finish ts reason e) = Some w \<Longrightarrow> window_ok w"
    by auto
qed

interpretation window_hold: hold_timer update_hold
  by unfold_locales (simp_all add: update_hold_def)

interpretation window_engine: episode_engine engine_step "\<lambda>_. True" engine_ok window_ok
proof
  fix e i
  assume ok: "engine_ok e"
  show "engine_ok (fst (engine_step e i))"
    using ok abort_ok(1) [OF ok] ingest_ok(1) [OF ok]
    by (cases i) (auto simp: engine_step_def abort_service_stop_def abort_restart_def split: prod.splits)
  show "snd (engine_step e i) = Some w \<Longrightarrow> window_ok w" for w
    using ok abort_ok(2) [OF ok] ingest_ok(2) [OF ok]
    by (cases i) (auto simp: engine_step_def abort_service_stop_def abort_restart_def split: prod.splits sum.splits)
qed

lemma engine_ok_new: "engine_ok WindowEngine_new"
  by (simp add: engine_ok_def WindowEngine_new_def log_ok_def idle_ok_def bucket_ok_def)

text \<open>
  C2. Whatever sequence of frames and stop requests a new engine receives, and whatever the UUID
  source answers, every window it emits has an identifier, a timestamp the recogniser accepts, at
  most 150 samples with at most 30 before and 100 during the event, the PRE samples first, only
  valid frames, at most one per 100 ms bucket of source time and in the order of both clocks, a
  span below 15 s, and the reason code that belongs to its terminal state.
\<close>

theorem every_window_ok:
  "list_all window_ok (snd (run engine_step WindowEngine_new inputs))"
  by (rule window_engine.run_good [OF engine_ok_new]) (simp add: list_all_iff)

text \<open>
  C7. In every reachable state of the engine the invariant holds: the ring never has more than 30
  frames, an open capture has fewer than 150 samples and an empty ring, and an idle engine has no
  samples.
\<close>

theorem reachable_engine_ok:
  "engine_ok (fst (run engine_step WindowEngine_new inputs))"
  by (rule window_engine.run_inv [OF engine_ok_new]) (simp add: list_all_iff)

text \<open>
  While a retrigger is suppressed, a frame neither starts nor ends an event: ingestion
  succeeds, reports nothing started and nothing completed, and the engine stays idle.
\<close>

theorem suppressed_never_starts:
  assumes "engine_ok e" and "retrigger_suppressed e"
  shows "\<exists>e' r. ingest uuid f e = (e', Inr r) \<and> \<not> event_started r \<and> completed r = None \<and>
    \<not> capturing e'"
proof -
  from assms have "eng_state e = StateIdle"
    by (auto simp: engine_ok_def capture_ok_def split: if_splits)
  with assms(2) show ?thesis
    by (auto simp: ingest_def Let_def ingest_invalid_def ingest_suppressed_def IngestResult_new_def
        capturing_def add_pre_sample_def prune_pre_samples_def split: prod.splits)
qed

text \<open>The observations that the suppression timer sees.\<close>

definition clear_obs :: "WindowEngine \<Rightarrow> SourceFrame \<Rightarrow> bool \<times> int" where
  "clear_obs e f = (valid (validate f (previous_source_epoch_ms e) (previous_monotonic_ms e)) \<and>
     qualifying_clear f, monotonic_ms f)"

lemma suppressed_step:
  assumes "engine_ok e" and "retrigger_suppressed e" and "ingest uuid f e = (e', out)"
    and "suppression_clear_hold_start e = start_after update_hold 500 obs"
  shows "retrigger_suppressed e' \<longleftrightarrow> \<not> fires update_hold 500 obs (clear_obs e f)"
    and "retrigger_suppressed e' \<Longrightarrow>
      suppression_clear_hold_start e' = start_after update_hold 500 (obs @ [clear_obs e f])"
proof -
  from assms(1,2) have "eng_state e = StateIdle"
    by (auto simp: engine_ok_def capture_ok_def split: if_splits)
  with assms(2-) show "retrigger_suppressed e' \<longleftrightarrow> \<not> fires update_hold 500 obs (clear_obs e f)"
    and "retrigger_suppressed e' \<Longrightarrow>
      suppression_clear_hold_start e' = start_after update_hold 500 (obs @ [clear_obs e f])"
    by (auto simp: ingest_def Let_def ingest_invalid_def ingest_suppressed_def clear_obs_def fires_def
        start_after_snoc window_hold.hold_false add_pre_sample_def prune_pre_samples_def
        split: prod.splits if_splits)
qed


fun feed :: "(string result \<times> SourceFrame) list \<Rightarrow> WindowEngine \<Rightarrow> WindowEngine" where
  "feed [] e = e"
| "feed ((uuid, f) # fs) e = feed fs (fst (ingest uuid f e))"

lemma suppressed_run:
  assumes "engine_ok e" and "retrigger_suppressed e"
    and "suppression_clear_hold_start e = start_after update_hold 500 obs"
    and "\<not> retrigger_suppressed (feed fs e)"
  shows "\<exists>xs u f ys ob. fs = xs @ (u, f) # ys \<and> length ob = length obs + length xs \<and>
    take (length obs) ob = obs \<and>
    list_all2 (\<lambda>p o'. snd o' = monotonic_ms (snd p) \<and> (fst o' \<longrightarrow> qualifying_clear (snd p))) xs (drop (length obs) ob) \<and>
    fires update_hold 500 ob (qualifying_clear f, monotonic_ms f)"
  using assms
proof (induction fs arbitrary: e obs)
  case Nil
  then show ?case by simp
next
  case (Cons p fs)
  obtain u f where p: "p = (u, f)" by (cases p)
  obtain e' out where res: "ingest u f e = (e', out)" by fastforce
  note step = suppressed_step [OF Cons.prems(1,2) res Cons.prems(3)]
  show ?case
  proof (cases "retrigger_suppressed e'")
    case False
    with step(1) have "fires update_hold 500 obs (clear_obs e f)" by simp
    then have "fires update_hold 500 obs (qualifying_clear f, monotonic_ms f)"
      by (auto simp: window_hold.fires_iff clear_obs_def)
    then show ?thesis
      by (intro exI [of _ "[]"] exI [of _ u] exI [of _ f] exI [of _ fs] exI [of _ obs]) (simp add: p)
  next
    case True
    from Cons.IH [OF ingest_ok(1) [OF Cons.prems(1) res] True step(2) [OF True]] Cons.prems(4) res p
    obtain xs u' f' ys ob where ih: "fs = xs @ (u', f') # ys" "length ob = length obs + 1 + length xs"
      "take (length obs + 1) ob = obs @ [clear_obs e f]"
      "list_all2 (\<lambda>p o'. snd o' = monotonic_ms (snd p) \<and> (fst o' \<longrightarrow> qualifying_clear (snd p))) xs (drop (length obs + 1) ob)"
      "fires update_hold 500 ob (qualifying_clear f', monotonic_ms f')" by auto
    have ob: "ob = obs @ clear_obs e f # drop (length obs + 1) ob"
      using ih(3) append_take_drop_id [of "length obs + 1" ob] by (metis append.assoc append_Cons append_Nil)
    have "take (length obs) ob = obs" "drop (length obs) ob = clear_obs e f # drop (length obs + 1) ob"
      by (subst ob, simp)+
    then show ?thesis using ih
      by (intro exI [of _ "p # xs"] exI [of _ u'] exI [of _ f'] exI [of _ ys] exI [of _ ob])
         (auto simp: p clear_obs_def)
  qed
qed

lemma list_all2_drop: "list_all2 P xs ys \<Longrightarrow> list_all2 P (drop n xs) (drop n ys)"
  by (simp add: list_all2_conv_all_nth)

text \<open>
  C5. After a truncation the suppression ends only by a clear: if the engine is not suppressed any
  more after some frames, then among them there is a stretch of consecutive frames that all meet
  the clear condition and that spans at least 500 ms.
\<close>

theorem suppression_ends_by_clear:
  assumes "engine_ok e" and "retrigger_suppressed e" and "suppression_clear_hold_start e = None"
    and "\<not> retrigger_suppressed (feed fs e)"
  shows "\<exists>xs ys zs. fs = xs @ ys @ zs \<and> ys \<noteq> [] \<and> (\<forall>(u, f) \<in> set ys. qualifying_clear f) \<and>
    monotonic_ms (snd (last ys)) - monotonic_ms (snd (hd ys)) \<ge> 500"
proof -
  let ?P = "\<lambda>p o'. snd o' = monotonic_ms (snd p) \<and> (fst o' \<longrightarrow> qualifying_clear (snd p))"
  from suppressed_run [OF assms(1,2) _ assms(4), of "[]"] assms(3)
  obtain xs u f ys ob where fs: "fs = xs @ (u, f) # ys" and l2: "list_all2 ?P xs ob"
    and fire: "fires update_hold 500 ob (qualifying_clear f, monotonic_ms f)"
    by (auto simp: start_after_def)
  define k where "k = length ob - length (current_run ob)"
  have run: "current_run ob = drop k ob"
    unfolding k_def current_run_def
    by (metis length_rev rev_rev_ident takeWhile_eq_take rev_take length_takeWhile_le)
  have all: "\<forall>o' \<in> set (current_run ob). fst o'"
    by (auto simp: current_run_def dest: set_takeWhileD)
  have l2': "list_all2 ?P (drop k xs) (drop k ob)" by (rule list_all2_drop [OF l2])
  have clear: "\<forall>p \<in> set (drop k xs). qualifying_clear (snd p)"
    using l2' all unfolding run by (fastforce simp: list_all2_conv_all_nth in_set_conv_nth all_set_conv_all_nth)
  from fire have f: "qualifying_clear f"
    and ge: "monotonic_ms f - snd (hd (current_run (ob @ [(True, monotonic_ms f)]))) \<ge> 500"
    by (auto simp: window_hold.fires_iff)
  have "snd (hd (drop k ob @ [(True, monotonic_ms f)])) = monotonic_ms (snd (hd (drop k xs @ [(u, f)])))"
    using l2' by (cases "drop k xs"; cases "drop k ob") auto
  with ge have "monotonic_ms f - monotonic_ms (snd (hd (drop k xs @ [(u, f)]))) \<ge> 500"
    by (simp add: current_run_snoc run)
  then show ?thesis
    using clear f by (intro exI [of _ "take k xs"] exI [of _ "drop k xs @ [(u, f)]"] exI [of _ ys])
      (auto simp: fs simp flip: append_assoc)
qed


text \<open>An event starts, or restarts after its POST phase began, only on a valid frame that meets the
  trigger condition (10 km/h and 50 percent brake) when the condition has been held since a frame
  at least 200 ms earlier; the engine is then active.
\<close>

theorem event_starts_by_trigger:
  assumes "ingest uuid f e = (e', Inr r)" and "event_started r"
  shows "qualifying_trigger f \<and> sound_frame f \<and>
    (\<exists>t. trigger_hold_start e = Some t \<and> monotonic_ms f - t \<ge> 200)"
proof -
  have v: "valid (validate f (previous_source_epoch_ms e) (previous_monotonic_ms e))"
    using assms by (auto simp: ingest_def Let_def ingest_invalid_def IngestResult_new_def
        split: prod.splits if_splits)
  have "fst (update_hold (qualifying_trigger f) (monotonic_ms f) 200 (trigger_hold_start e))"
    using assms v by (auto simp: ingest_def Let_def ingest_suppressed_def ingest_idle_def ingest_active_def
        ingest_post_def ingest_tail_def IngestResult_new_def split: prod.splits if_splits sum.splits)
  with validate_validD(1) [OF v] show ?thesis
    by (cases "trigger_hold_start e"; cases "qualifying_trigger f") (auto simp: update_hold_def)
qed

text \<open>
  C8. A capture cannot stay open: a valid frame 15 s or more after the first retained frame of the
  event, or one that makes the active time 10 s, closes it as truncated, hands over everything
  captured under the event's identifier and suppresses a retrigger.
\<close>

theorem capture_is_bounded:
  assumes "engine_ok e" and "capturing e"
    and "valid (validate f (previous_source_epoch_ms e) (previous_monotonic_ms e))"
    and "monotonic_ms f - event_start_ms e \<ge> 15000 \<or> active_elapsed_ms (monotonic_ms f) e \<ge> 10000"
  shows "\<exists>e' r w. ingest uuid f e = (e', Inr r) \<and> completed r = Some w \<and>
    terminal_state w = TruncatedMaxDuration \<and> samples w = eng_samples e \<and>
    event_id w = eng_event_id e \<and> \<not> capturing e' \<and> retrigger_suppressed e'"
proof -
  from assms(1,2) have "eng_state e \<noteq> StateIdle" "\<not> retrigger_suppressed e"
    by (auto simp: capturing_def engine_ok_def capture_ok_def)
  with assms(3,4) show ?thesis
    by (auto simp: ingest_def Let_def over_limit_def active_elapsed_ms_def finish_def capturing_def)
qed

section \<open>What an open capture holds, it hands over\<close>

definition hands_over :: "Phase \<Rightarrow> nat \<Rightarrow> WindowEngine \<times> EventWindow option \<Rightarrow> bool" where
  "hands_over p k res \<longleftrightarrow> (case snd res of
      None \<Rightarrow> capturing (fst res) \<and> k \<le> phase_count p (eng_samples (fst res))
    | Some w \<Rightarrow> k \<le> phase_count p (samples w))"

lemma hands_over_add [simp]:
  "capturing (add_capture_sample f q e) = capturing e"
  "k \<le> phase_count p (eng_samples e) \<Longrightarrow> k \<le> phase_count p (eng_samples (add_capture_sample f q e))"
  by (auto simp: add_capture_sample_def capturing_def)

lemma hands_over_finish: "capturing e \<Longrightarrow> k \<le> phase_count p (eng_samples e) \<Longrightarrow> hands_over p k (finish ts reason e)"
  by (simp add: finish_def hands_over_def capturing_def Let_def)

lemma hands_over_tail:
  assumes "capturing e" and "k \<le> phase_count p (eng_samples e)" and "completed r = None"
  shows "hands_over p k (apsnd completed (ingest_tail r e))"
  using assms by (auto simp: ingest_tail_def hands_over_def finish_def capturing_def Let_def)

lemma hands_over_active:
  assumes "capturing e" and "k \<le> phase_count p (eng_samples e)" and "completed r = None"
  shows "hands_over p k (apsnd completed (ingest_active f r e))"
proof -
  obtain h start where u: "update_hold (qualifying_clear f) (monotonic_ms f) 500 (clear_hold_start e) = (h, start)" by fastforce
  show ?thesis unfolding ingest_active_def Let_def u prod.case
    by (rule hands_over_tail) (use assms in \<open>auto simp: capturing_def\<close>)
qed

lemma hands_over_post:
  assumes "capturing e" and "k \<le> phase_count p (eng_samples e)" and "completed r = None"
  shows "hands_over p k (apsnd completed (ingest_post f r e))"
proof -
  obtain h start where u: "update_hold (qualifying_trigger f) (monotonic_ms f) 200 (trigger_hold_start e) = (h, start)" by fastforce
  have c: "capturing (e\<lparr>trigger_hold_start := start\<rparr>)" "k \<le> phase_count p (eng_samples (e\<lparr>trigger_hold_start := start\<rparr>))"
    using assms by (simp_all add: capturing_def)
  show ?thesis
  proof (cases "\<not> h \<and> (monotonic_ms f - post_start_ms e \<ge> 2000 \<or> phase_count PhasePost (eng_samples e) \<ge> maximum_post_samples)")
    case True
    with hands_over_finish [OF c, of Complete NormalClear] show ?thesis
      by (auto simp: ingest_post_def u Let_def split: prod.splits)
  next
    case False
    show ?thesis
      using assms False unfolding ingest_post_def Let_def u prod.case
      by (auto simp: capturing_def intro!: hands_over_tail)
  qed
qed

lemma hands_over_ingest:
  assumes "capturing e" and "k \<le> phase_count p (eng_samples e)" and "ingest uuid f e = (e', Inr r)"
  shows "hands_over p k (e', completed r)"
proof -
  define v where "v = validate f (previous_source_epoch_ms e) (previous_monotonic_ms e)"
  define e1 where "e1 = e\<lparr>previous_source_epoch_ms := Some (source_epoch_ms f), previous_monotonic_ms := Some (monotonic_ms f)\<rparr>"
  define r1 where "r1 = (IngestResult_new v)\<lparr>retained := (retained_source_bucket e1 = None \<or> retained_source_bucket e1 \<noteq> Some (bucket f))\<rparr>"
  define e2 where "e2 = (if retained r1 then e1\<lparr>retained_source_bucket := Some (bucket f)\<rparr> else e1)"
  have c: "capturing e2" "k \<le> phase_count p (eng_samples e2)" "completed r1 = None"
    using assms(1,2) by (auto simp: e2_def e1_def r1_def capturing_def IngestResult_new_def)
  have i: "hands_over p k (apsnd completed (ingest_invalid (IngestResult_new v) e))"
    using assms(1,2) hands_over_finish [of "e\<lparr>trigger_hold_start := None, clear_hold_start := None, suppression_clear_hold_start := None\<rparr>" k p
      IncompleteSourceGap SourceGap]
    by (auto simp: ingest_invalid_def capturing_def Let_def split: prod.splits)
  have s: "hands_over p k (apsnd completed (ingest_suppressed f r1 e2))"
    using c by (auto simp: ingest_suppressed_def hands_over_def capturing_def add_pre_sample_def prune_pre_samples_def Let_def split: prod.splits)
  have "ingest uuid f e =
      (if \<not> valid v then (let (e1, r1) = ingest_invalid (IngestResult_new v) e in (e1, Inr r1))
       else if retrigger_suppressed e2 then (let (e3, r3) = ingest_suppressed f r1 e2 in (e3, Inr r3))
       else if over_limit f e2
       then (let (e3, w) = finish TruncatedMaxDuration MaxActiveDuration e2 in (e3, Inr (r1\<lparr>completed := w\<rparr>)))
       else if eng_state e2 = StateActive then (let (e3, r3) = ingest_active f r1 e2 in (e3, Inr r3))
       else (let (e3, r3) = ingest_post f r1 e2 in (e3, Inr r3)))"
    using c(1) unfolding ingest_def Let_def v_def [symmetric] e1_def [symmetric] r1_def [symmetric] e2_def [symmetric]
    by (simp add: capturing_def)
  with assms(3) i s hands_over_finish [OF c(1,2), of TruncatedMaxDuration MaxActiveDuration] hands_over_active [OF c, of f] hands_over_post [OF c, of f]
  show ?thesis by (auto split: if_splits prod.splits)
qed

lemma hands_over_step:
  assumes "capturing e" and "k \<le> phase_count p (eng_samples e)"
  shows "hands_over p k (engine_step e i)"
proof (cases i)
  case (Feed uuid f)
  obtain e' out where o: "ingest uuid f e = (e', out)" by fastforce
  show ?thesis
  proof (cases out)
    case (Inr r)
    with hands_over_ingest [OF assms] o Feed show ?thesis by (simp add: engine_step_def)
  next
    case (Inl x)
    with o assms(1) show ?thesis
      by (auto simp: ingest_def ingest_idle_def Let_def capturing_def split: if_splits prod.splits sum.splits)
  qed
qed (use hands_over_finish [OF assms] in \<open>simp_all add: engine_step_def abort_service_stop_def abort_restart_def\<close>)

lemma hands_over_run:
  assumes "capturing e" and "k \<le> phase_count p (eng_samples e)" and "snd (run engine_step e inputs) = w # ws"
  shows "k \<le> phase_count p (samples w)"
  using assms
proof (induction inputs arbitrary: e)
  case (Cons i inputs)
  have g: "hands_over p k (engine_step e i)" by (rule hands_over_step [OF Cons.prems(1,2)])
  obtain e' out where o: "engine_step e i = (e', out)" by fastforce
  with g Cons show ?case by (cases out) (auto simp: hands_over_def split: prod.splits)
qed simp

text \<open>The frame that ends the ACTIVE phase is a POST sample, however many there are.\<close>

lemma clear_adds_post:
  assumes "eng_state e = StateActive" and "\<not> retrigger_suppressed e"
    and "valid (validate f (previous_source_epoch_ms e) (previous_monotonic_ms e))" and "retained_source_bucket e \<noteq> Some (bucket f)"
    and "\<not> over_limit f e" and "qualifying_clear f" and "clear_hold_start e = Some t" and "500 \<le> monotonic_ms f - t"
  shows "hands_over PhasePost (Suc (phase_count PhasePost (eng_samples e))) (engine_step e (Feed uuid f))"
proof -
  define e2 where "e2 = e\<lparr>previous_source_epoch_ms := Some (source_epoch_ms f), previous_monotonic_ms := Some (monotonic_ms f),
    retained_source_bucket := Some (bucket f)\<rparr>"
  define r1 where "r1 = (IngestResult_new (validate f (previous_source_epoch_ms e) (previous_monotonic_ms e)))\<lparr>retained := True\<rparr>"
  have "\<not> over_limit f e2" using assms(1,5) by (simp add: over_limit_def e2_def active_elapsed_ms_def)
  then have step: "ingest uuid f e = (let (e3, r3) = ingest_active f r1 e2 in (e3, Inr r3))"
    using assms(1-4) by (auto simp: ingest_def Let_def e2_def r1_def)
  define e4 where "e4 = e2\<lparr>accumulated_active_ms := accumulated_active_ms e2 + (monotonic_ms f - active_segment_start_ms e2),
    post_start_ms := monotonic_ms f, eng_state := StatePost, clear_hold_start := None, trigger_hold_start := None\<rparr>"
  have "ingest_active f r1 e2 = ingest_tail r1 (add_capture_sample f PhasePost e4)"
    using assms(6-8) by (simp add: ingest_active_def update_hold_def e2_def e4_def r1_def)
  moreover have "hands_over PhasePost (Suc (phase_count PhasePost (eng_samples e))) (apsnd completed (ingest_tail r1 (add_capture_sample f PhasePost e4)))"
    using assms(5)
    by (intro hands_over_tail) (auto simp: e4_def e2_def r1_def capturing_def IngestResult_new_def add_capture_sample_def over_limit_def)
  ultimately show ?thesis by (auto simp: engine_step_def step split: prod.splits)
qed

section \<open>Concrete runs\<close>

definition demo_frame :: "int \<Rightarrow> int \<Rightarrow> SourceFrame" where
  "demo_frame t brake =
     \<lparr>speed_kph = Fin 50, longitudinal_acceleration_mps2 = Fin (- 3), lateral_acceleration_mps2 = Fin 0,
      vertical_acceleration_mps2 = Fin 0, accelerator_pedal_percent = 0, brake_pedal_percent = brake,
      source_timestamp = ''2026-01-01T00:00:00.000Z'', source_epoch_ms = t, monotonic_ms = t,
      max_source_age_ms = 0, quality = QualityValidCompleteFrame\<rparr>"

definition demo_feed :: "nat \<Rightarrow> (nat \<Rightarrow> bool) \<Rightarrow> EngineInput list" where
  "demo_feed n brakes =
     map (\<lambda>i. Feed (Inr ''id'') (demo_frame (int i * 100) (if brakes i then 60 else 0))) [0..<n]"

definition suppressed_engine :: WindowEngine where
  "suppressed_engine = WindowEngine_new\<lparr>retrigger_suppressed := True\<rparr>"

lemma suppressed_engine_ok: "engine_ok suppressed_engine"
  by (simp add: suppressed_engine_def engine_ok_def WindowEngine_new_def log_ok_def idle_ok_def bucket_ok_def)

theorem suppressed_never_starts_witness:
  "\<exists>e' r. ingest (Inr ''id'') (demo_frame 0 60) suppressed_engine = (e', Inr r) \<and>
     \<not> event_started r \<and> completed r = None \<and> \<not> capturing e'"
  by (rule suppressed_never_starts [OF suppressed_engine_ok]) (simp add: suppressed_engine_def)

theorem suppression_ends_by_clear_witness:
  "\<exists>xs ys zs. [(Inr ''id'' :: string result, demo_frame 0 0), (Inr ''id'', demo_frame 500 0)] = xs @ ys @ zs \<and> ys \<noteq> [] \<and>
     (\<forall>(u, f) \<in> set ys. qualifying_clear f) \<and>
     monotonic_ms (snd (last ys)) - monotonic_ms (snd (hd ys)) \<ge> 500"
proof (rule suppression_ends_by_clear [OF suppressed_engine_ok])
  show "retrigger_suppressed suppressed_engine" "suppression_clear_hold_start suppressed_engine = None"
    by (simp_all add: suppressed_engine_def WindowEngine_new_def)
  show "\<not> retrigger_suppressed (feed [(Inr ''id'' :: string result, demo_frame 0 0), (Inr ''id'', demo_frame 500 0)] suppressed_engine)"
    by code_simp
qed

definition held_engine :: WindowEngine where
  "held_engine = fst (run engine_step WindowEngine_new (demo_feed 2 (\<lambda>i. True)))"

theorem event_starts_by_trigger_witness:
  "\<exists>e' r. ingest (Inr ''id'') (demo_frame 200 60) held_engine = (e', Inr r) \<and> event_started r \<and>
     qualifying_trigger (demo_frame 200 60) \<and> sound_frame (demo_frame 200 60) \<and>
     (\<exists>t. trigger_hold_start held_engine = Some t \<and> monotonic_ms (demo_frame 200 60) - t \<ge> 200)"
proof -
  have started: "(case snd (ingest (Inr ''id'') (demo_frame 200 60) held_engine) of
      Inl _ \<Rightarrow> False | Inr r \<Rightarrow> event_started r)" by code_simp
  then obtain e' r where res: "ingest (Inr ''id'') (demo_frame 200 60) held_engine = (e', Inr r)" "event_started r"
    by (cases "ingest (Inr ''id'') (demo_frame 200 60) held_engine") (auto split: sum.splits)
  with event_starts_by_trigger [OF res] show ?thesis by blast
qed

definition open_engine :: WindowEngine where
  "open_engine = fst (run engine_step WindowEngine_new (demo_feed 3 (\<lambda>i. True)))"

theorem capture_is_bounded_witness:
  "\<exists>e' r w. ingest (Inr ''id'') (demo_frame 15200 60) open_engine = (e', Inr r) \<and> completed r = Some w \<and>
    terminal_state w = TruncatedMaxDuration \<and> samples w = eng_samples open_engine \<and>
    event_id w = eng_event_id open_engine \<and> \<not> capturing e' \<and> retrigger_suppressed e'"
proof (rule capture_is_bounded)
  show "engine_ok open_engine"
    unfolding open_engine_def by (rule window_engine.run_inv [OF engine_ok_new]) (simp add: list_all_iff)
  show "capturing open_engine" by code_simp
  show "valid (validate (demo_frame 15200 60) (previous_source_epoch_ms open_engine) (previous_monotonic_ms open_engine))"
    by code_simp
  show "monotonic_ms (demo_frame 15200 60) - event_start_ms open_engine \<ge> 15000 \<or>
    active_elapsed_ms (monotonic_ms (demo_frame 15200 60)) open_engine \<ge> 10000" by code_simp
qed

end
