(* ===== verification/Condition.thy ===== *)
theory Condition
  imports Window Identifiers
begin

text \<open>
  The v2 brake condition model (\<^verbatim>\<open>src/v2/model.cpp\<close>, \<^verbatim>\<open>v2/episode.hpp\<close>, \<^verbatim>\<open>v2/model.hpp\<close>): a
  completed episode is either skipped with a reason or assessed, and an assessment moves the wear
  index of the persistent model state. Phases and terminal states are the enumerations of the
  window theory, which v2 repeats. Unsigned results carry the wrap-around of their width; the
  lemmas show that it never happens.
\<close>

section \<open>Episodes\<close>

text \<open>\<open>std::array<std::int64_t, 4>\<close>: one value per wheel.\<close>

datatype wheels = Wheels int int int int

primrec wheel_list :: "wheels \<Rightarrow> int list" where
  "wheel_list (Wheels a b c d) = [a, b, c, d]"

record FixedSignals =
  speed_milli_kph :: int
  longitudinal_acceleration_milli_mps2 :: int
  brake_effort_milli_percent :: int
  steering_milli_degree :: int
  wheel_angular_milli_degree_per_second :: wheels
  wheel_linear_milli_kph :: wheels

record Sample =
  sample_index :: nat
  sample_timestamp :: string
  sample_phase :: Phase
  is_complete :: bool
  is_finite :: bool
  sample_age_ms :: int
  signals :: FixedSignals

record CompletedEpisode =
  source_event_id :: string
  episode_terminal_state :: TerminalState
  retained_cadence_hz :: nat
  episode_samples :: "Sample list"

datatype SkipReason =
    EpisodeNotComplete | MissingRequiredSignal | StaleSample | NonFiniteValue | OutOfRangeValue
  | NonMonotonicSourceTime | InsufficientActiveSamples | InsufficientQualifiedWheelSamples

section \<open>Model state\<close>

datatype ConditionBand = Good | Monitor | InspectionRecommended

record ModelState =
  generation :: nat
  wear_index :: nat
  condition_score :: nat
  condition_band :: ConditionBand
  last_applied_source_event_id :: "string option"
  last_assessment_id :: "string option"
  recent_source_event_ids :: "string list"
  producer_epoch :: string
  next_advisory_sequence :: nat
  model_config_sha256 :: string

record FeatureVector =
  peak_deceleration_milli_mps2 :: int
  peak_deceleration_bps :: nat
  active_duration_milliseconds :: nat
  active_duration_bps :: nat
  speed_reduction_milli_kph :: int
  speed_reduction_bps :: nat
  mean_brake_milli_percent :: int
  mean_brake_bps :: nat
  wheel_dispersion_raw_bps :: nat
  wheel_dispersion_bps :: nat
  episode_load_bps :: nat
  active_sample_count :: nat
  straight_active_sample_count :: nat

record Assessment =
  features :: FeatureVector
  wear_index_before :: nat
  wear_increment :: nat
  wear_index_after :: nat
  assessed_score :: nat
  previous_band :: ConditionBand
  current_band :: ConditionBand
  source_window_start_timestamp :: string
  source_window_end_timestamp :: string

record Evaluation =
  skip_reason :: "SkipReason option"
  assessment :: "Assessment option"
  next_state :: ModelState

definition kModelConfigSha256 :: string where
  "kModelConfigSha256 = ''ea74cda63116d1f9fc969ec292aedb7cd0935ae899775bd8bcd73c230190e028''"

definition kLegacyModelConfigSha256 :: string where
  "kLegacyModelConfigSha256 = ''7749dff2dd340f05ae5f3c90912d65007ad48c52a5136ab0e165a83109d55f53''"

definition supported_model_config :: "string \<Rightarrow> bool" where
  "supported_model_config digest \<longleftrightarrow> digest = kModelConfigSha256 \<or> digest = kLegacyModelConfigSha256"

section \<open>Arithmetic\<close>

definition clamp_bps :: "nat \<Rightarrow> nat" where
  "clamp_bps v = u32 (if v > 10000 then 10000 else v)"

definition round_half_up :: "nat \<Rightarrow> nat \<Rightarrow> nat result" where
  "round_half_up numerator denominator =
     (if denominator = 0 \<or> numerator > u64_max - denominator div 2
      then Inl (Overflow_error ''invalid round-half-up operands'')
      else Inr ((numerator + denominator div 2) div denominator))"

definition band_for_score :: "nat \<Rightarrow> ConditionBand" where
  "band_for_score score =
     (if score \<ge> 70 then Good else if score \<ge> 40 then Monitor else InspectionRecommended)"

definition condition_band_name :: "ConditionBand \<Rightarrow> string" where
  "condition_band_name b =
     (case b of Good \<Rightarrow> ''GOOD'' | Monitor \<Rightarrow> ''MONITOR''
      | InspectionRecommended \<Rightarrow> ''INSPECTION_RECOMMENDED'')"

definition skip_reason_name :: "SkipReason \<Rightarrow> string" where
  "skip_reason_name r =
     (case r of EpisodeNotComplete \<Rightarrow> ''EPISODE_NOT_COMPLETE''
      | MissingRequiredSignal \<Rightarrow> ''MISSING_REQUIRED_SIGNAL'' | StaleSample \<Rightarrow> ''STALE_SAMPLE''
      | NonFiniteValue \<Rightarrow> ''NON_FINITE_VALUE'' | OutOfRangeValue \<Rightarrow> ''OUT_OF_RANGE_VALUE''
      | NonMonotonicSourceTime \<Rightarrow> ''NON_MONOTONIC_SOURCE_TIME''
      | InsufficientActiveSamples \<Rightarrow> ''INSUFFICIENT_ACTIVE_SAMPLES''
      | InsufficientQualifiedWheelSamples \<Rightarrow> ''INSUFFICIENT_QUALIFIED_WHEEL_SAMPLES'')"

definition initial_state :: "string \<Rightarrow> ModelState result" where
  "initial_state epoch =
     (if \<not> valid_uuid4 epoch
      then Inl (Invalid_argument ''producer epoch must be a lowercase UUIDv4'')
      else Inr \<lparr>generation = 0, wear_index = 54, condition_score = 46, condition_band = Monitor,
                last_applied_source_event_id = None, last_assessment_id = None,
                recent_source_event_ids = [], producer_epoch = epoch, next_advisory_sequence = 1,
                model_config_sha256 = kModelConfigSha256\<rparr>)"

section \<open>Acceptance of an episode\<close>

definition in_range :: "int \<Rightarrow> int \<Rightarrow> int \<Rightarrow> bool" where
  "in_range v low high \<longleftrightarrow> v \<ge> low \<and> v \<le> high"

definition signal_range_valid :: "FixedSignals \<Rightarrow> bool" where
  "signal_range_valid s \<longleftrightarrow>
     in_range (speed_milli_kph s) 0 1000000 \<and>
     in_range (longitudinal_acceleration_milli_mps2 s) (- 100000) 100000 \<and>
     in_range (brake_effort_milli_percent s) 0 100000 \<and>
     in_range (steering_milli_degree s) (- 360000) 360000 \<and>
     list_all (\<lambda>v. in_range v 0 1000000) (wheel_list (wheel_linear_milli_kph s)) \<and>
     list_all (\<lambda>v. in_range v (- 10000000) 10000000)
       (wheel_list (wheel_angular_milli_degree_per_second s))"

definition state_eligible :: "ModelState \<Rightarrow> bool" where
  "state_eligible c \<longleftrightarrow>
     \<not> (generation c = u64_max \<or> wear_index c > 100 \<or> condition_score c \<noteq> 100 - wear_index c \<or>
        condition_band c \<noteq> band_for_score (condition_score c) \<or> \<not> valid_uuid4 (producer_epoch c) \<or>
        next_advisory_sequence c = 0 \<or> length (recent_source_event_ids c) > 64 \<or>
        length (remdups (recent_source_event_ids c)) \<noteq> length (recent_source_event_ids c) \<or>
        (last_applied_source_event_id c \<noteq> None) \<noteq> (last_assessment_id c \<noteq> None))"

text \<open>
  The phase loop. Its variables are \<open>has_pre\<close>, \<open>has_active\<close>, \<open>has_post\<close>, \<open>left_pre\<close> and the
  number of active samples; \<open>None\<close> is the early return.
\<close>

fun phase_scan :: "Sample list \<Rightarrow> bool \<times> bool \<times> bool \<times> bool \<times> nat \<Rightarrow> (bool \<times> bool \<times> bool \<times> bool \<times> nat) option" where
  "phase_scan [] acc = Some acc"
| "phase_scan (s # ss) (has_pre, has_active, has_post, left_pre, n) =
     (if (sample_phase s = PhasePre \<and> left_pre) \<or> (sample_phase s = PhasePost \<and> \<not> has_active) then None
      else phase_scan ss
        (has_pre \<or> sample_phase s = PhasePre, has_active \<or> sample_phase s = PhaseActive,
         has_post \<or> sample_phase s = PhasePost, left_pre \<or> sample_phase s \<noteq> PhasePre,
         n + (if sample_phase s = PhaseActive then 1 else 0)))"

definition phases_acceptable :: "Sample list \<Rightarrow> bool" where
  "phases_acceptable ss =
     (case phase_scan ss (False, False, False, False, 0) of
        None \<Rightarrow> False
      | Some (has_pre, has_active, has_post, _, n) \<Rightarrow> has_pre \<and> has_active \<and> has_post \<and> n \<le> 100)"

text \<open>The time loop: timestamps are accepted and strictly increasing, indices are positions.\<close>

fun times_acceptable :: "nat \<Rightarrow> string option \<Rightarrow> Sample list \<Rightarrow> bool" where
  "times_acceptable index previous [] = True"
| "times_acceptable index previous (s # ss) =
     (if \<not> is_rfc3339_millisecond_utc (sample_timestamp s) \<or> sample_index s \<noteq> index \<or>
         (case previous of None \<Rightarrow> False | Some p \<Rightarrow> sample_timestamp s \<le> p)
      then False
      else times_acceptable (index + 1) (Some (sample_timestamp s)) ss)"

definition is_active :: "Sample \<Rightarrow> bool" where
  "is_active s \<longleftrightarrow> sample_phase s = PhaseActive"

definition is_straight :: "Sample \<Rightarrow> bool" where
  "is_straight s \<longleftrightarrow> speed_milli_kph (signals s) \<ge> 10000 \<and>
     \<bar>steering_milli_degree (signals s)\<bar> \<le> 5000 \<and> sample_age_ms s \<le> 5000"

text \<open>The checks of \<open>evaluate\<close>, in their order.\<close>

definition skip_of :: "CompletedEpisode \<Rightarrow> SkipReason option" where
  "skip_of ep =
     (let ss = episode_samples ep; active = filter is_active ss; straight = filter is_straight active
      in if episode_terminal_state ep \<noteq> Complete then Some EpisodeNotComplete
         else if \<not> valid_uuid4 (source_event_id ep) \<or> retained_cadence_hz ep \<noteq> 10 \<or> ss = [] \<or>
            length ss > 150 then Some MissingRequiredSignal
         else if \<not> list_all is_complete ss then Some MissingRequiredSignal
         else if \<not> phases_acceptable ss then Some MissingRequiredSignal
         else if \<not> list_all (\<lambda>s. \<not> (sample_age_ms s < 0 \<or> sample_age_ms s > 5000)) ss
         then Some StaleSample
         else if \<not> list_all is_finite ss then Some NonFiniteValue
         else if \<not> list_all (\<lambda>s. signal_range_valid (signals s)) ss then Some OutOfRangeValue
         else if \<not> times_acceptable 0 None ss then Some NonMonotonicSourceTime
         else if length active < 5 then Some InsufficientActiveSamples
         else if length straight < 5 then Some InsufficientQualifiedWheelSamples
         else None)"

section \<open>Features\<close>

definition max_of :: "int list \<Rightarrow> int" where
  "max_of xs = foldl (\<lambda>m x. max m x) (hd xs) (tl xs)"

definition min_of :: "int list \<Rightarrow> int" where
  "min_of xs = foldl (\<lambda>m x. min m x) (hd xs) (tl xs)"

definition dispersion :: "int list \<Rightarrow> int \<Rightarrow> nat result" where
  "dispersion vs floor_value =
     (let range = u64_of_int (max_of vs - min_of vs);
          denominator = u64_of_int (max (max_of vs) floor_value)
      in bindE (round_half_up (u64 (range * 10000)) denominator) (\<lambda>r. Inr (clamp_bps r)))"

fun dispersion_loop :: "Sample list \<Rightarrow> nat \<Rightarrow> nat result" where
  "dispersion_loop [] raw = Inr raw"
| "dispersion_loop (s # ss) raw =
     bindE (dispersion (wheel_list (wheel_linear_milli_kph (signals s))) 5000) (\<lambda>linear.
     bindE (dispersion (map abs (wheel_list (wheel_angular_milli_degree_per_second (signals s)))) 30000)
       (\<lambda>angular. dispersion_loop ss (max raw (max linear angular))))"

definition peak_deceleration :: "Sample list \<Rightarrow> int" where
  "peak_deceleration active =
     foldl (\<lambda>m s. max m (max 0 (- longitudinal_acceleration_milli_mps2 (signals s)))) 0 active"

definition brake_sum :: "Sample list \<Rightarrow> nat" where
  "brake_sum active = foldl (\<lambda>a s. u64 (a + u64_of_int (brake_effort_milli_percent (signals s)))) 0 active"

definition scaled_bps :: "nat \<Rightarrow> nat \<Rightarrow> nat result" where
  "scaled_bps v denominator = bindE (round_half_up (u64 (v * 10000)) denominator) (\<lambda>r. Inr (clamp_bps r))"

definition extract_features :: "Sample list \<Rightarrow> Sample list \<Rightarrow> FeatureVector result" where
  "extract_features active straight =
     (let peak = peak_deceleration active;
          duration = u32 (length active * 100);
          reduction = max 0 (speed_milli_kph (signals (hd active)) - speed_milli_kph (signals (last active)))
      in bindE (scaled_bps (u64_of_int peak) 8000) (\<lambda>peak_bps.
         bindE (scaled_bps duration 5000) (\<lambda>duration_bps.
         bindE (scaled_bps (u64_of_int reduction) 40000) (\<lambda>reduction_bps.
         bindE (round_half_up (brake_sum active) (length active)) (\<lambda>mean.
         bindE (scaled_bps (u64_of_int (max 0 (int mean - 50000))) 50000) (\<lambda>brake_bps.
         bindE (dispersion_loop straight 0) (\<lambda>raw.
         bindE (scaled_bps raw 1500) (\<lambda>wheel_bps.
         bindE (round_half_up (u32 (30 * peak_bps + 20 * duration_bps + 15 * reduction_bps +
                                    15 * brake_bps + 20 * wheel_bps)) 100) (\<lambda>load.
         Inr \<lparr>peak_deceleration_milli_mps2 = peak, peak_deceleration_bps = peak_bps,
              active_duration_milliseconds = duration, active_duration_bps = duration_bps,
              speed_reduction_milli_kph = reduction, speed_reduction_bps = reduction_bps,
              mean_brake_milli_percent = int mean, mean_brake_bps = brake_bps,
              wheel_dispersion_raw_bps = raw, wheel_dispersion_bps = wheel_bps,
              episode_load_bps = clamp_bps load, active_sample_count = u32 (length active),
              straight_active_sample_count = u32 (length straight)\<rparr>)))))))))"

section \<open>Evaluation\<close>

definition skipped :: "ModelState \<Rightarrow> SkipReason \<Rightarrow> Evaluation" where
  "skipped st reason = \<lparr>skip_reason = Some reason, assessment = None, next_state = st\<rparr>"

definition evaluate :: "CompletedEpisode \<Rightarrow> ModelState \<Rightarrow> Evaluation result" where
  "evaluate ep current =
     (if \<not> state_eligible current
      then Inl (Invalid_argument ''current model state is not eligible for evaluation'')
      else (case skip_of ep of
        Some reason \<Rightarrow> Inr (skipped current reason)
      | None \<Rightarrow>
         (let active = filter is_active (episode_samples ep); straight = filter is_straight active
          in bindE (extract_features active straight) (\<lambda>fv.
             bindE (round_half_up (u32 (6 * episode_load_bps fv)) 10000) (\<lambda>extra.
               (let increment = u32 (4 + extra);
                    after = min 100 (u32 (wear_index current + increment));
                    score = 100 - after;
                    a = \<lparr>features = fv, wear_index_before = wear_index current,
                         wear_increment = increment, wear_index_after = after,
                         assessed_score = score, previous_band = condition_band current,
                         current_band = band_for_score score,
                         source_window_start_timestamp = sample_timestamp (hd (episode_samples ep)),
                         source_window_end_timestamp = sample_timestamp (last (episode_samples ep))\<rparr>
                in Inr \<lparr>skip_reason = None, assessment = Some a,
                        next_state = current\<lparr>generation := u64 (generation current + 1),
                          wear_index := after, condition_score := score,
                          condition_band := band_for_score score\<rparr>\<rparr>))))))"

section \<open>The specification over the rationals\<close>

text \<open>
  The model as it is meant: rounding half up of exact quotients, maxima and sums over the samples,
  basis points capped at 10000. No width and no error appears in it.
\<close>

definition round_rat :: "rat \<Rightarrow> nat" where
  "round_rat q = nat \<lfloor>q + 1 / 2\<rfloor>"

definition spec_bps :: "int \<Rightarrow> int \<Rightarrow> nat" where
  "spec_bps v full = min 10000 (round_rat (of_int (v * 10000) / of_int full))"

definition spec_dispersion :: "int set \<Rightarrow> int \<Rightarrow> nat" where
  "spec_dispersion vs floor_value = spec_bps (Max vs - Min vs) (max (Max vs) floor_value)"

definition spec_sample_dispersion :: "Sample \<Rightarrow> nat" where
  "spec_sample_dispersion s =
     max (spec_dispersion (set (wheel_list (wheel_linear_milli_kph (signals s)))) 5000)
         (spec_dispersion (abs ` set (wheel_list (wheel_angular_milli_degree_per_second (signals s)))) 30000)"

definition spec_peak :: "Sample list \<Rightarrow> int" where
  "spec_peak active = Max (insert 0 ((\<lambda>s. - longitudinal_acceleration_milli_mps2 (signals s)) ` set active))"

definition spec_mean_brake :: "Sample list \<Rightarrow> nat" where
  "spec_mean_brake active =
     round_rat (of_int (sum_list (map (\<lambda>s. brake_effort_milli_percent (signals s)) active)) /
                of_nat (length active))"

definition spec_load :: "Sample list \<Rightarrow> Sample list \<Rightarrow> nat" where
  "spec_load active straight =
     (let reduction = max 0 (speed_milli_kph (signals (hd active)) - speed_milli_kph (signals (last active)));
          raw = Max (insert 0 (spec_sample_dispersion ` set straight))
      in round_rat (of_nat (30 * spec_bps (spec_peak active) 8000 +
                            20 * spec_bps (int (length active) * 100) 5000 +
                            15 * spec_bps reduction 40000 +
                            15 * spec_bps (max 0 (int (spec_mean_brake active) - 50000)) 50000 +
                            20 * spec_bps (int raw) 1500) / 100))"

definition spec_increment :: "CompletedEpisode \<Rightarrow> nat" where
  "spec_increment ep =
     (let active = filter is_active (episode_samples ep); straight = filter is_straight active
      in 4 + round_rat (of_nat (6 * spec_load active straight) / 10000))"

section \<open>The reasons to skip, declaratively\<close>

text \<open>
  What each reason means, over the positions of the samples and apart from the loops that look for
  it. The reasons have the precedence of their declaration in the header.
\<close>

definition phases_in_order :: "Phase list \<Rightarrow> bool" where
  "phases_in_order ps \<longleftrightarrow> (\<forall>k < length ps. ps ! k = PhasePre \<longrightarrow> (\<forall>j < k. ps ! j = PhasePre)) \<and>
     (\<forall>k < length ps. ps ! k = PhasePost \<longrightarrow> (\<exists>j < k. ps ! j = PhaseActive))"

definition phases_ordered :: "Phase list \<Rightarrow> bool" where
  "phases_ordered ps \<longleftrightarrow> phases_in_order ps \<and> {PhasePre, PhaseActive, PhasePost} \<subseteq> set ps \<and> count_list ps PhaseActive \<le> 100"

fun defect :: "SkipReason \<Rightarrow> CompletedEpisode \<Rightarrow> bool" where
  "defect EpisodeNotComplete ep \<longleftrightarrow> episode_terminal_state ep \<noteq> Complete"
| "defect MissingRequiredSignal ep \<longleftrightarrow>
     \<not> valid_uuid4 (source_event_id ep) \<or> retained_cadence_hz ep \<noteq> 10 \<or> length (episode_samples ep) \<notin> {1..150} \<or>
     (\<exists>s \<in> set (episode_samples ep). \<not> is_complete s) \<or> \<not> phases_ordered (map sample_phase (episode_samples ep))"
| "defect StaleSample ep \<longleftrightarrow> (\<exists>s \<in> set (episode_samples ep). sample_age_ms s \<notin> {0..5000})"
| "defect NonFiniteValue ep \<longleftrightarrow> (\<exists>s \<in> set (episode_samples ep). \<not> is_finite s)"
| "defect OutOfRangeValue ep \<longleftrightarrow> (\<exists>s \<in> set (episode_samples ep). \<not> signal_range_valid (signals s))"
| "defect NonMonotonicSourceTime ep \<longleftrightarrow>
     (let ss = episode_samples ep
      in (\<exists>k < length ss. \<not> is_rfc3339_millisecond_utc (sample_timestamp (ss ! k)) \<or> sample_index (ss ! k) \<noteq> k) \<or>
         (\<exists>k < length ss. \<exists>j < k. sample_timestamp (ss ! k) \<le> sample_timestamp (ss ! j)))"
| "defect InsufficientActiveSamples ep \<longleftrightarrow> count_list (map sample_phase (episode_samples ep)) PhaseActive < 5"
| "defect InsufficientQualifiedWheelSamples ep \<longleftrightarrow>
     length (filter (\<lambda>s. sample_phase s = PhaseActive \<and> speed_milli_kph (signals s) \<ge> 10000 \<and>
       steering_milli_degree (signals s) \<in> {- 5000..5000} \<and> sample_age_ms s \<le> 5000) (episode_samples ep)) < 5"

definition precedence :: "SkipReason list" where
  "precedence = [EpisodeNotComplete, MissingRequiredSignal, StaleSample, NonFiniteValue, OutOfRangeValue, NonMonotonicSourceTime,
     InsufficientActiveSamples, InsufficientQualifiedWheelSamples]"

text \<open>The reason an episode is skipped for, if any: the defect no other defect precedes.\<close>

definition due_reason :: "CompletedEpisode \<Rightarrow> SkipReason \<Rightarrow> bool" where
  "due_reason ep r \<longleftrightarrow> (\<exists>k < length precedence. precedence ! k = r \<and> defect r ep \<and> (\<forall>j < k. \<not> defect (precedence ! j) ep))"

section \<open>Arithmetic is exact\<close>

lemma round_rat_div: "0 < d \<Longrightarrow> round_rat (of_nat n / of_nat d) = (n + d div 2) div d"
proof -
  assume d: "0 < d"
  have "(of_nat n / of_nat d + 1 / 2 :: rat) = of_nat (2 * n + d) / of_nat (2 * d)"
    using d by (simp add: field_simps)
  then have "\<lfloor>of_nat n / of_nat d + 1 / 2 :: rat\<rfloor> = int ((2 * n + d) div (2 * d))"
    by (simp only: floor_divide_of_nat_eq)
  moreover have "(2 * n + d) div (2 * d) = (n + d div 2) div d"
    by (simp add: div_mult2_eq)
  ultimately show ?thesis by (simp add: round_rat_def)
qed

lemma round_half_up_rat:
  assumes "0 < d" and "n + d div 2 \<le> u64_max"
  shows "round_half_up n d = Inr (round_rat (of_nat n / of_nat d))"
proof -
  from assms(2) have "\<not> n > u64_max - d div 2" by (simp add: le_diff_conv2 not_less)
  with assms(1) show ?thesis by (simp add: round_half_up_def round_rat_div)
qed

lemma round_rat_mono: "p \<le> q \<Longrightarrow> round_rat p \<le> round_rat q"
  unfolding round_rat_def by (intro nat_mono floor_mono) simp

lemma round_rat_of_nat [simp]: "round_rat (of_nat n) = n"
  using round_rat_div [of 1 n] by simp

lemma clamp_bps_eq: "clamp_bps v = min 10000 v"
  by (simp add: clamp_bps_def)

lemma scaled_bps_spec:
  assumes "0 \<le> v" and "v \<le> 10 ^ 12" and "0 < d" and "d \<le> 10 ^ 12"
  shows "scaled_bps (u64_of_int v) (nat d) = Inr (spec_bps v d)"
proof -
  have v: "u64_of_int v = nat v" "u64 (nat v * 10000) = nat v * 10000"
    using assms(1,2) by simp_all
  have "round_half_up (nat v * 10000) (nat d) = Inr (round_rat (of_nat (nat v * 10000) / of_nat (nat d)))"
    using assms by (intro round_half_up_rat) (auto simp: u64_max_def)
  then show ?thesis
    using assms unfolding scaled_bps_def v by (simp add: clamp_bps_eq spec_bps_def)
qed

lemma spec_bps_le [simp]: "spec_bps v d \<le> 10000"
  by (simp add: spec_bps_def)


lemma Max_insert_max: "finite S \<Longrightarrow> Max (insert (max a b) S) = max a (Max (insert (b :: 'a :: linorder) S))"
  by (cases "S = {}") (simp_all add: max.assoc)

lemma Min_insert_min: "finite S \<Longrightarrow> Min (insert (min a b) S) = min a (Min (insert (b :: 'a :: linorder) S))"
  by (cases "S = {}") (simp_all add: min.assoc)

lemma max_of_set: "xs \<noteq> [] \<Longrightarrow> max_of xs = Max (set xs)"
proof -
  have "foldl max m ys = Max (insert m (set ys))" for m :: int and ys
    by (induction ys arbitrary: m) (simp_all add: Max_insert_max)
  then show "xs \<noteq> [] \<Longrightarrow> ?thesis" by (cases xs) (simp_all add: max_of_def)
qed

lemma min_of_set: "xs \<noteq> [] \<Longrightarrow> min_of xs = Min (set xs)"
proof -
  have "foldl min m ys = Min (insert m (set ys))" for m :: int and ys
    by (induction ys arbitrary: m) (simp_all add: Min_insert_min)
  then show "xs \<noteq> [] \<Longrightarrow> ?thesis" by (cases xs) (simp_all add: min_of_def)
qed

lemma dispersion_spec:
  assumes "xs \<noteq> []" and "list_all (\<lambda>v. in_range v 0 10000000) xs" and "0 < fl" and "fl \<le> 10000000"
  shows "dispersion xs fl = Inr (spec_dispersion (set xs) fl)"
proof -
  have "Max (set xs) \<in> set xs" "Min (set xs) \<in> set xs" "Min (set xs) \<le> Max (set xs)"
    using assms(1) by auto
  with assms(2) have b: "0 \<le> Max (set xs)" "Max (set xs) \<le> 10000000" "0 \<le> Min (set xs)"
    "Min (set xs) \<le> Max (set xs)"
    by (auto simp: list_all_iff in_range_def)
  have "u64_of_int (max (Max (set xs)) fl) = nat (max (Max (set xs)) fl)"
    using b assms(3,4) by (intro u64_of_int_id) auto
  moreover have "scaled_bps (u64_of_int (Max (set xs) - Min (set xs))) (nat (max (Max (set xs)) fl)) =
      Inr (spec_dispersion (set xs) fl)"
    unfolding spec_dispersion_def using b assms(3,4) by (intro scaled_bps_spec) auto
  ultimately show ?thesis
    by (simp add: dispersion_def scaled_bps_def max_of_set min_of_set assms(1) Let_def)
qed

lemma wheel_list_not_Nil [simp]: "wheel_list w \<noteq> []"
  by (cases w) simp

lemma dispersion_loop_spec:
  assumes "list_all (\<lambda>s. signal_range_valid (signals s)) ss"
  shows "dispersion_loop ss raw = Inr (Max (insert raw (spec_sample_dispersion ` set ss)))"
  using assms
proof (induction ss arbitrary: raw)
  case Nil
  then show ?case by simp
next
  case (Cons s ss)
  let ?l = "wheel_list (wheel_linear_milli_kph (signals s))"
  let ?a = "map abs (wheel_list (wheel_angular_milli_degree_per_second (signals s)))"
  have "dispersion ?l 5000 = Inr (spec_dispersion (set ?l) 5000)"
    using Cons.prems by (intro dispersion_spec) (auto simp: signal_range_valid_def in_range_def list_all_iff)
  moreover have "dispersion ?a 30000 = Inr (spec_dispersion (set ?a) 30000)"
    using Cons.prems
    by (intro dispersion_spec) (auto simp: signal_range_valid_def in_range_def list_all_iff abs_le_iff)
  ultimately show ?case
    using Cons by (simp add: spec_sample_dispersion_def Max_insert_max)
qed

lemma peak_deceleration_spec: "peak_deceleration active = spec_peak active"
proof -
  have "0 \<le> m \<Longrightarrow> foldl (\<lambda>m s. max m (max 0 (- longitudinal_acceleration_milli_mps2 (signals s)))) m ss =
      Max (insert m ((\<lambda>s. - longitudinal_acceleration_milli_mps2 (signals s)) ` set ss))" for m ss
  proof (induction ss arbitrary: m)
    case (Cons s ss)
    have "max m (max 0 (- longitudinal_acceleration_milli_mps2 (signals s))) =
        max m (- longitudinal_acceleration_milli_mps2 (signals s))" using Cons.prems by simp
    with Cons show ?case by (simp add: Max_insert_max)
  qed simp
  from this [of 0 active] show ?thesis by (simp add: peak_deceleration_def spec_peak_def)
qed

lemma brake_sum_spec:
  assumes "list_all (\<lambda>s. signal_range_valid (signals s)) ss" and "length ss \<le> 1000"
  shows "int (brake_sum ss) = sum_list (map (\<lambda>s. brake_effort_milli_percent (signals s)) ss) \<and>
    brake_sum ss \<le> length ss * 100000"
  using assms
proof (induction ss rule: rev_induct)
  case Nil
  then show ?case by (simp add: brake_sum_def)
next
  case (snoc s ss)
  have b: "0 \<le> brake_effort_milli_percent (signals s)" "brake_effort_milli_percent (signals s) \<le> 100000"
    using snoc.prems by (auto simp: signal_range_valid_def in_range_def)
  have ih: "int (brake_sum ss) = sum_list (map (\<lambda>s. brake_effort_milli_percent (signals s)) ss)"
    "brake_sum ss \<le> length ss * 100000" using snoc by auto
  have "brake_sum (ss @ [s]) = u64 (brake_sum ss + u64_of_int (brake_effort_milli_percent (signals s)))"
    by (simp add: brake_sum_def)
  also have "\<dots> = brake_sum ss + nat (brake_effort_milli_percent (signals s))"
    using b ih(2) snoc.prems(2) by simp
  finally show ?case using b ih by (auto simp: nat_le_iff)
qed


lemma skip_of_NoneD:
  assumes "skip_of ep = None"
  defines "ss \<equiv> episode_samples ep"
  defines "active \<equiv> filter is_active ss"
  shows "list_all (\<lambda>s. signal_range_valid (signals s)) ss" and "length ss \<le> 150" and "ss \<noteq> []"
    and "5 \<le> length active" and "5 \<le> length (filter is_straight active)"
    and "episode_terminal_state ep = Complete" and "phases_acceptable ss"
    and "times_acceptable 0 None ss"
  using assms(1) by (auto simp: skip_of_def Let_def ss_def active_def split: if_splits)

lemma spec_peak_bounds:
  assumes "list_all (\<lambda>s. signal_range_valid (signals s)) ss"
  shows "0 \<le> spec_peak ss" and "spec_peak ss \<le> 100000"
  using assms by (auto simp: spec_peak_def list_all_iff signal_range_valid_def in_range_def)

lemma spec_sample_dispersion_le [simp]: "spec_sample_dispersion s \<le> 10000"
  by (simp add: spec_sample_dispersion_def spec_dispersion_def)

lemma spec_load_le: "spec_load active straight \<le> 10000"
proof -
  let ?w = "\<lambda>a b c d e. 30 * spec_bps a 8000 + 20 * spec_bps b 5000 + 15 * spec_bps c 40000 +
    15 * spec_bps d 50000 + 20 * spec_bps e 1500"
  have "round_rat (of_nat (?w a b c d e) / 100) \<le> round_rat (of_nat 10000)" for a b c d e
  proof (rule round_rat_mono)
    have "?w a b c d e \<le> 10000 * 100"
      using spec_bps_le [of a 8000] spec_bps_le [of b 5000] spec_bps_le [of c 40000]
        spec_bps_le [of d 50000] spec_bps_le [of e 1500] by linarith
    then have "(of_nat (?w a b c d e) :: rat) \<le> of_nat (10000 * 100)" by (simp only: of_nat_le_iff)
    then show "(of_nat (?w a b c d e) / 100 :: rat) \<le> of_nat 10000" by simp
  qed
  then show ?thesis unfolding spec_load_def Let_def by (simp only: round_rat_of_nat)
qed

lemma mean_brake_spec:
  assumes ok: "list_all (\<lambda>s. signal_range_valid (signals s)) active" and "active \<noteq> []" and "length active \<le> 150"
  shows "round_half_up (brake_sum active) (length active) = Inr (spec_mean_brake active)"
    and "spec_mean_brake active \<le> 100000"
proof -
  have bs: "int (brake_sum active) = sum_list (map (\<lambda>s. brake_effort_milli_percent (signals s)) active)"
    "brake_sum active \<le> length active * 100000"
    using brake_sum_spec [OF ok] assms(3) by auto
  have sum: "of_nat (brake_sum active) =
      (of_int (sum_list (map (\<lambda>s. brake_effort_milli_percent (signals s)) active)) :: rat)"
    using arg_cong [OF bs(1), of rat_of_int] by simp
  show "round_half_up (brake_sum active) (length active) = Inr (spec_mean_brake active)"
    unfolding spec_mean_brake_def sum [symmetric]
    using assms(2,3) bs(2) by (intro round_half_up_rat) (auto simp: u64_max_def)
  have "(of_nat (brake_sum active) :: rat) \<le> of_nat (100000 * length active)"
    using bs(2) by (simp only: of_nat_le_iff mult.commute)
  then have "(of_nat (brake_sum active) / of_nat (length active) :: rat) \<le> of_nat 100000"
    using assms(2) by (simp add: divide_le_eq)
  from round_rat_mono [OF this] show "spec_mean_brake active \<le> 100000"
    unfolding spec_mean_brake_def sum [symmetric] by (simp only: round_rat_of_nat)
qed

lemma extract_features_spec:
  assumes ok: "list_all (\<lambda>s. signal_range_valid (signals s)) active" and "active \<noteq> []" and "length active \<le> 150"
    and st: "list_all (\<lambda>s. signal_range_valid (signals s)) straight"
  shows "\<exists>fv. extract_features active straight = Inr fv \<and> episode_load_bps fv = spec_load active straight"
proof -
  let ?red = "max 0 (speed_milli_kph (signals (hd active)) - speed_milli_kph (signals (last active)))"
  let ?raw = "Max (insert 0 (spec_sample_dispersion ` set straight))"
  have hl: "signal_range_valid (signals (hd active))" "signal_range_valid (signals (last active))"
    using ok assms(2) by (auto simp: list_all_iff)
  have red: "0 \<le> ?red" "?red \<le> 1000000"
    using hl by (auto simp: signal_range_valid_def in_range_def)
  have f1: "scaled_bps (u64_of_int (spec_peak active)) 8000 = Inr (spec_bps (spec_peak active) 8000)"
    using scaled_bps_spec [of "spec_peak active" 8000] spec_peak_bounds [OF ok] by simp
  have f2: "scaled_bps (u32 (length active * 100)) 5000 = Inr (spec_bps (int (length active) * 100) 5000)"
    using scaled_bps_spec [of "int (length active) * 100" 5000] assms(3)
    by (simp add: nat_mult_distrib)
  have f3: "scaled_bps (u64_of_int ?red) 40000 = Inr (spec_bps ?red 40000)"
    using scaled_bps_spec [of ?red 40000] red by simp
  note f4 = mean_brake_spec [OF ok assms(2,3)]
  have f5: "scaled_bps (u64_of_int (max 0 (int (spec_mean_brake active) - 50000))) 50000 =
      Inr (spec_bps (max 0 (int (spec_mean_brake active) - 50000)) 50000)"
    using scaled_bps_spec [of "max 0 (int (spec_mean_brake active) - 50000)" 50000] f4(2) by simp
  have raw: "?raw \<le> 10000" by simp
  have f7: "scaled_bps ?raw 1500 = Inr (spec_bps (int ?raw) 1500)"
  proof -
    have small: "u64_of_int (int n) = n" if "n \<le> 10000" for n using that by simp
    show ?thesis using scaled_bps_spec [of "int ?raw" 1500] raw small [OF raw]
      by (simp del: Max_insert Max.bounded_iff)
  qed
  define w where "w = 30 * spec_bps (spec_peak active) 8000 + 20 * spec_bps (int (length active) * 100) 5000 +
      15 * spec_bps ?red 40000 + 15 * spec_bps (max 0 (int (spec_mean_brake active) - 50000)) 50000 +
      20 * spec_bps (int ?raw) 1500"
  have w: "w \<le> 1000000"
    using spec_bps_le [of "spec_peak active" 8000] spec_bps_le [of "int (length active) * 100" 5000]
      spec_bps_le [of ?red 40000] spec_bps_le [of "max 0 (int (spec_mean_brake active) - 50000)" 50000]
      spec_bps_le [of "int ?raw" 1500] unfolding w_def by linarith
  have f8: "round_half_up (u32 w) 100 = Inr (spec_load active straight)"
  proof -
    have "round_half_up w 100 = Inr (round_rat (of_nat w / of_nat 100))"
      using w by (intro round_half_up_rat) (auto simp: u64_max_def)
    moreover have "u32 w = w" using w by simp
    ultimately show ?thesis by (simp add: spec_load_def Let_def w_def)
  qed
  have "clamp_bps (spec_load active straight) = spec_load active straight"
    using spec_load_le by (simp add: clamp_bps_eq)
  then show ?thesis
    unfolding extract_features_def Let_def
    by (simp del: Max_insert add: peak_deceleration_spec dispersion_loop_spec [OF st] f1 f2 f3 f4 f5 f7
        f8 [unfolded w_def])
qed


section \<open>What an evaluation does\<close>

lemma assessed_increment:
  assumes "skip_of ep = None"
  defines "active \<equiv> filter is_active (episode_samples ep)"
  obtains fv extra where "extract_features active (filter is_straight active) = Inr fv"
    and "round_half_up (u32 (6 * episode_load_bps fv)) 10000 = Inr extra"
    and "4 + extra = spec_increment ep" and "extra \<le> 6"
proof -
  note sk = skip_of_NoneD [OF assms(1)]
  have a: "list_all (\<lambda>s. signal_range_valid (signals s)) active" "active \<noteq> []" "length active \<le> 150"
    "list_all (\<lambda>s. signal_range_valid (signals s)) (filter is_straight active)"
    using sk le_trans [OF length_filter_le sk(2)] by (auto simp: active_def list_all_iff)
  from extract_features_spec [OF a] obtain fv where fv: "extract_features active (filter is_straight active) = Inr fv"
    and load: "episode_load_bps fv = spec_load active (filter is_straight active)" by blast
  have le: "6 * episode_load_bps fv \<le> 60000" using spec_load_le by (simp add: load)
  then have u: "u32 (6 * episode_load_bps fv) = 6 * episode_load_bps fv" by (intro u32_id) simp
  have "round_half_up (u32 (6 * episode_load_bps fv)) 10000 =
      Inr (round_rat (of_nat (6 * episode_load_bps fv) / of_nat 10000))"
    unfolding u using le by (intro round_half_up_rat) (auto simp: u64_max_def)
  moreover have "4 + round_rat (of_nat (6 * episode_load_bps fv) / of_nat 10000) = spec_increment ep"
    by (simp add: spec_increment_def Let_def load active_def)
  moreover have "round_rat (of_nat (6 * episode_load_bps fv) / of_nat 10000) \<le> 6"
    using le by (subst round_rat_div) simp_all
  ultimately show thesis using fv that by blast
qed

lemma evaluate_assessed:
  assumes "state_eligible c" and "skip_of ep = None"
  obtains a where "evaluate ep c = Inr \<lparr>skip_reason = None, assessment = Some a,
      next_state = c\<lparr>generation := u64 (generation c + 1), wear_index := wear_index_after a,
        condition_score := assessed_score a, condition_band := current_band a\<rparr>\<rparr>"
    and "wear_increment a = spec_increment ep" and "4 \<le> wear_increment a" and "wear_increment a \<le> 10"
    and "wear_index_before a = wear_index c"
    and "wear_index_after a = min 100 (wear_index c + wear_increment a)"
    and "assessed_score a = 100 - wear_index_after a"
    and "previous_band a = condition_band c" and "current_band a = band_for_score (assessed_score a)"
proof -
  from assessed_increment [OF assms(2)] obtain fv extra where
    f: "extract_features (filter is_active (episode_samples ep))
         (filter is_straight (filter is_active (episode_samples ep))) = Inr fv"
      "round_half_up (u32 (6 * episode_load_bps fv)) 10000 = Inr extra"
      "4 + extra = spec_increment ep" "extra \<le> 6" by blast
  from assms(1) have c: "wear_index c \<le> 100" by (auto simp: state_eligible_def)
  let ?after = "min 100 (wear_index c + (4 + extra))"
  let ?a = "\<lparr>features = fv, wear_index_before = wear_index c, wear_increment = 4 + extra,
    wear_index_after = ?after, assessed_score = 100 - ?after, previous_band = condition_band c,
    current_band = band_for_score (100 - ?after),
    source_window_start_timestamp = sample_timestamp (hd (episode_samples ep)),
    source_window_end_timestamp = sample_timestamp (last (episode_samples ep))\<rparr>"
  have "u32 (4 + extra) = 4 + extra" "u32 (wear_index c + (4 + extra)) = wear_index c + (4 + extra)"
    using c f(4) by (intro u32_id; simp)+
  then have "evaluate ep c = Inr \<lparr>skip_reason = None, assessment = Some ?a,
      next_state = c\<lparr>generation := u64 (generation c + 1), wear_index := wear_index_after ?a,
        condition_score := assessed_score ?a, condition_band := current_band ?a\<rparr>\<rparr>"
    unfolding evaluate_def using assms f by (simp only: Let_def option.case f bindE_simps if_True if_False not_True_eq_False) simp
  from that [OF this] f(3,4) show thesis by simp
qed

text \<open>Widths of the state's unsigned members.\<close>

definition state_typed :: "ModelState \<Rightarrow> bool" where
  "state_typed c \<longleftrightarrow> generation c \<le> u64_max \<and> next_advisory_sequence c \<le> u64_max"

subsection \<open>The checks find the defects\<close>

lemma phase_scan_append:
  "phase_scan (xs @ ys) acc = (case phase_scan xs acc of None \<Rightarrow> None | Some acc' \<Rightarrow> phase_scan ys acc')"
  by (induction xs acc rule: phase_scan.induct) simp_all

lemma phases_in_order_snoc:
  "phases_in_order (ps @ [p]) \<longleftrightarrow> phases_in_order ps \<and> (p = PhasePre \<longrightarrow> set ps \<subseteq> {PhasePre}) \<and> (p = PhasePost \<longrightarrow> PhaseActive \<in> set ps)"
proof -
  have s: "set ps \<subseteq> {PhasePre} \<longleftrightarrow> (\<forall>j < length ps. ps ! j = PhasePre)" "PhaseActive \<in> set ps \<longleftrightarrow> (\<exists>j < length ps. ps ! j = PhaseActive)"
    by (auto simp: in_set_conv_nth subset_iff)
  show ?thesis
    unfolding phases_in_order_def s by (simp add: All_less_Suc nth_append cong: conj_cong imp_cong) blast
qed

lemma count_active: "count_list (map sample_phase ss) PhaseActive = length (filter is_active ss)"
  by (induction ss) (auto simp: is_active_def)

lemma phase_scan_spec:
  "phase_scan ss (False, False, False, False, 0) =
     (let ps = map sample_phase ss
      in if phases_in_order ps
         then Some (PhasePre \<in> set ps, PhaseActive \<in> set ps, PhasePost \<in> set ps, \<not> set ps \<subseteq> {PhasePre}, length (filter is_active ss))
         else None)"
proof (induction ss rule: rev_induct)
  case Nil
  then show ?case by (simp add: phases_in_order_def)
next
  case (snoc s ss)
  then show ?case
    by (cases "sample_phase s") (auto simp: phase_scan_append phases_in_order_snoc Let_def is_active_def)
qed

lemma phases_acceptable_spec: "phases_acceptable ss \<longleftrightarrow> phases_ordered (map sample_phase ss)"
  by (simp add: phases_acceptable_def phases_ordered_def phase_scan_spec count_active Let_def del: set_map)

lemma times_acceptable_spec:
  "times_acceptable i previous ss \<longleftrightarrow>
     (\<forall>k < length ss. is_rfc3339_millisecond_utc (sample_timestamp (ss ! k)) \<and> sample_index (ss ! k) = i + k) \<and>
     sorted_wrt (<) (map sample_timestamp ss) \<and> (case previous of None \<Rightarrow> True | Some p \<Rightarrow> \<forall>s \<in> set ss. p < sample_timestamp s)"
proof (induction ss arbitrary: i previous)
  case (Cons s ss)
  then show ?case
    by (auto simp: All_less_Suc2 not_le split: option.splits intro: order.strict_trans)
qed (simp split: option.splits)

lemma times_defect: "times_acceptable 0 None (episode_samples ep) \<longleftrightarrow> \<not> defect NonMonotonicSourceTime ep"
  by (auto simp: times_acceptable_spec sorted_wrt_iff_nth_less not_le Let_def)

lemma sample_count_defects:
  fixes ep
  defines "active \<equiv> filter is_active (episode_samples ep)"
  shows "length active < 5 \<longleftrightarrow> defect InsufficientActiveSamples ep"
    and "length (filter is_straight active) < 5 \<longleftrightarrow> defect InsufficientQualifiedWheelSamples ep"
proof -
  show "length active < 5 \<longleftrightarrow> defect InsufficientActiveSamples ep" by (simp add: active_def count_active)
  have "filter is_straight active = filter (\<lambda>s. sample_phase s = PhaseActive \<and> speed_milli_kph (signals s) \<ge> 10000 \<and>
       steering_milli_degree (signals s) \<in> {- 5000..5000} \<and> sample_age_ms s \<le> 5000) (episode_samples ep)"
    by (auto simp: active_def is_straight_def is_active_def abs_le_iff intro!: filter_cong)
  then show "length (filter is_straight active) < 5 \<longleftrightarrow> defect InsufficientQualifiedWheelSamples ep" by simp
qed

lemma due_reason_find: "due_reason ep r \<longleftrightarrow> find (\<lambda>r. defect r ep) precedence = Some r"
  by (auto simp: due_reason_def find_Some_iff)

lemma skip_of_find: "skip_of ep = find (\<lambda>r. defect r ep) precedence"
proof -
  let ?ss = "episode_samples ep"
  have merge: "(if a then x else if b then x else if c then x else y) = (if a \<or> b \<or> c then x else y)" for a b c and x y :: "SkipReason option"
    by simp
  have m: "(\<not> valid_uuid4 (source_event_id ep) \<or> retained_cadence_hz ep \<noteq> 10 \<or> ?ss = [] \<or> length ?ss > 150) \<or>
      \<not> list_all is_complete ?ss \<or> \<not> phases_acceptable ?ss \<longleftrightarrow> defect MissingRequiredSignal ep"
    by (cases ?ss) (auto simp: phases_acceptable_spec list_all_iff)
  have s: "\<not> list_all (\<lambda>s. \<not> (sample_age_ms s < 0 \<or> sample_age_ms s > 5000)) ?ss \<longleftrightarrow> defect StaleSample ep"
    by (simp add: list_all_iff not_less not_le)
  have f: "\<not> list_all is_finite ?ss \<longleftrightarrow> defect NonFiniteValue ep" "\<not> list_all (\<lambda>s. signal_range_valid (signals s)) ?ss \<longleftrightarrow> defect OutOfRangeValue ep"
    by (auto simp: list_all_iff)
  show ?thesis
    unfolding skip_of_def precedence_def Let_def sample_count_defects times_defect find.simps not_not defect.simps(1) merge m s f ..
qed

text \<open>The evaluation returns, and it skips exactly what the checks find.\<close>

lemma evaluate_skip:
  assumes "state_eligible c"
  shows "\<exists>ev. evaluate ep c = Inr ev \<and> skip_reason ev = skip_of ep \<and>
    (if skip_of ep = None then assessment ev \<noteq> None else assessment ev = None \<and> next_state ev = c)"
proof (cases "skip_of ep")
  case None
  from evaluate_assessed [OF assms None] obtain a where
    "evaluate ep c = Inr \<lparr>skip_reason = None, assessment = Some a,
      next_state = c\<lparr>generation := u64 (generation c + 1), wear_index := wear_index_after a,
        condition_score := assessed_score a, condition_band := current_band a\<rparr>\<rparr>" by blast
  with None show ?thesis by simp
qed (use assms in \<open>simp add: evaluate_def skipped_def\<close>)

text \<open>
  C13. On an eligible state the model always returns an evaluation, never an error, and it skips an episode
  exactly for the defects of the specification: the skip reason is the first reason in the order of
  precedence whose defect the episode has, a skipped episode leaves no assessment and the state
  unchanged, and an episode without a defect is assessed.
\<close>

theorem evaluate_skips_first_defect:
  assumes "state_eligible c"
  shows "\<exists>ev. evaluate ep c = Inr ev \<and> (\<forall>r. skip_reason ev = Some r \<longleftrightarrow> due_reason ep r) \<and>
    (if \<exists>r. defect r ep then assessment ev = None \<and> next_state ev = c else skip_reason ev = None \<and> assessment ev \<noteq> None)"
proof -
  have "r \<in> set precedence" for r by (cases r) (simp_all add: precedence_def)
  then have "(\<exists>r. defect r ep) \<longleftrightarrow> skip_of ep \<noteq> None" by (auto simp: skip_of_find find_None_iff)
  with evaluate_skip [OF assms, of ep] show ?thesis by (auto simp: due_reason_find skip_of_find split: if_splits)
qed

text \<open>
  C10. An assessment refines the specification over the rationals: the wear increment computed with
  64-bit integer arithmetic is exactly four plus the rounded load of the specification, the wear
  index is the old one plus the increment capped at 100, and score and band follow from it.
\<close>

theorem evaluate_refines_spec:
  assumes "state_eligible c" and "skip_of ep = None"
  shows "\<exists>ev a. evaluate ep c = Inr ev \<and> assessment ev = Some a \<and>
    wear_increment a = spec_increment ep \<and>
    wear_index_after a = min 100 (wear_index c + spec_increment ep) \<and>
    next_state ev = c\<lparr>generation := u64 (generation c + 1), wear_index := wear_index_after a,
      condition_score := 100 - wear_index_after a,
      condition_band := band_for_score (100 - wear_index_after a)\<rparr>"
proof -
  from evaluate_assessed [OF assms] obtain a where
    "evaluate ep c = Inr \<lparr>skip_reason = None, assessment = Some a,
      next_state = c\<lparr>generation := u64 (generation c + 1), wear_index := wear_index_after a,
        condition_score := assessed_score a, condition_band := current_band a\<rparr>\<rparr>"
    "wear_increment a = spec_increment ep"
    "wear_index_after a = min 100 (wear_index c + wear_increment a)"
    "assessed_score a = 100 - wear_index_after a" "current_band a = band_for_score (assessed_score a)"
    by blast
  then show ?thesis by simp
qed

text \<open>Wear never decreases: an assessment adds between 4 and 10 to it, stays at most 100, and the
  next state is again eligible until the generation counter reaches its last value.
\<close>

theorem evaluate_wear_monotone:
  assumes "state_eligible c" and "state_typed c" and "evaluate ep c = Inr ev" and "assessment ev = Some a"
  shows "4 \<le> wear_increment a \<and> wear_increment a \<le> 10 \<and>
    wear_index c \<le> wear_index (next_state ev) \<and> wear_index (next_state ev) \<le> 100 \<and>
    generation (next_state ev) = generation c + 1 \<and>
    (state_eligible (next_state ev) \<longleftrightarrow> generation c + 1 \<noteq> u64_max)"
proof -
  have "skip_of ep = None" using assms by (auto simp: evaluate_def skipped_def split: option.splits)
  from evaluate_assessed [OF assms(1) this] obtain b where
    ev: "evaluate ep c = Inr \<lparr>skip_reason = None, assessment = Some b,
      next_state = c\<lparr>generation := u64 (generation c + 1), wear_index := wear_index_after b,
        condition_score := assessed_score b, condition_band := current_band b\<rparr>\<rparr>"
    and b: "4 \<le> wear_increment b" "wear_increment b \<le> 10"
      "wear_index_after b = min 100 (wear_index c + wear_increment b)"
      "assessed_score b = 100 - wear_index_after b" "current_band b = band_for_score (assessed_score b)"
    by blast
  from ev assms(3,4) have "b = a" and
    n: "next_state ev = c\<lparr>generation := u64 (generation c + 1), wear_index := wear_index_after a,
        condition_score := assessed_score a, condition_band := current_band a\<rparr>" by auto
  note a = b [unfolded \<open>b = a\<close>]
  have g: "u64 (generation c + 1) = generation c + 1"
    using assms(1,2) by (intro u64_id) (auto simp: state_eligible_def state_typed_def u64_max_def)
  show ?thesis using n a assms(1) unfolding g by (auto simp: state_eligible_def)
qed


text \<open>The states of successive evaluations.\<close>

fun evaluate_all :: "CompletedEpisode list \<Rightarrow> ModelState \<Rightarrow> ModelState result" where
  "evaluate_all [] c = Inr c"
| "evaluate_all (ep # eps) c = bindE (evaluate ep c) (\<lambda>ev. evaluate_all eps (next_state ev))"

lemma evaluate_assessed_state:
  assumes "state_eligible c" and "state_typed c" and "skip_of ep = None" and "generation c + 1 < u64_max"
  obtains ev where "evaluate ep c = Inr ev" and "state_eligible (next_state ev)"
    and "state_typed (next_state ev)" and "generation (next_state ev) = generation c + 1"
    and "min 100 (wear_index c + 4) \<le> wear_index (next_state ev)"
    and "wear_index (next_state ev) \<le> min 100 (wear_index c + 10)"
proof -
  from evaluate_assessed [OF assms(1,3)] obtain a where
    ev: "evaluate ep c = Inr \<lparr>skip_reason = None, assessment = Some a,
      next_state = c\<lparr>generation := u64 (generation c + 1), wear_index := wear_index_after a,
        condition_score := assessed_score a, condition_band := current_band a\<rparr>\<rparr>"
    and a: "4 \<le> wear_increment a" "wear_increment a \<le> 10"
      "wear_index_after a = min 100 (wear_index c + wear_increment a)"
      "assessed_score a = 100 - wear_index_after a" "current_band a = band_for_score (assessed_score a)"
    by blast
  have g: "u64 (generation c + 1) = generation c + 1"
    using assms(4) by (intro u64_id) (auto simp: u64_max_def)
  show thesis
    by (rule that [OF ev [unfolded g]]) (use a assms in \<open>auto simp: state_eligible_def state_typed_def\<close>)
qed

text \<open>C14. Wear accumulates over any sequence of accepted episodes: every evaluation succeeds and after
  \<open>n\<close> of them the wear index lies between \<open>min 100 (w + 4 n)\<close> and \<open>min 100 (w + 10 n)\<close>, so a
  bounded number of accepted episodes always leads to the band that recommends an inspection.
\<close>

theorem evaluate_all_progress:
  assumes "state_eligible c" and "state_typed c" and "list_all (\<lambda>ep. skip_of ep = None) eps"
    and "generation c + length eps < u64_max"
  shows "\<exists>c'. evaluate_all eps c = Inr c' \<and> state_eligible c' \<and>
    min 100 (wear_index c + 4 * length eps) \<le> wear_index c' \<and>
    wear_index c' \<le> min 100 (wear_index c + 10 * length eps) \<and>
    (wear_index c + 4 * length eps > 60 \<longrightarrow> condition_band c' = InspectionRecommended)"
proof -
  have "\<exists>c'. evaluate_all eps c = Inr c' \<and> state_eligible c' \<and>
    min 100 (wear_index c + 4 * length eps) \<le> wear_index c' \<and>
    wear_index c' \<le> min 100 (wear_index c + 10 * length eps)"
    using assms
  proof (induction eps arbitrary: c)
    case Nil
    then show ?case by (auto simp: state_eligible_def)
  next
    case (Cons ep eps)
    from Cons.prems obtain ev where ev: "evaluate ep c = Inr ev" "state_eligible (next_state ev)"
      "state_typed (next_state ev)" "generation (next_state ev) = generation c + 1"
      "min 100 (wear_index c + 4) \<le> wear_index (next_state ev)"
      "wear_index (next_state ev) \<le> min 100 (wear_index c + 10)"
      by (auto elim!: evaluate_assessed_state [of c ep])
    with Cons.IH [OF ev(2,3)] Cons.prems obtain c' where
      c': "evaluate_all eps (next_state ev) = Inr c'" "state_eligible c'"
      "min 100 (wear_index (next_state ev) + 4 * length eps) \<le> wear_index c'"
      "wear_index c' \<le> min 100 (wear_index (next_state ev) + 10 * length eps)" by auto
    with ev show ?case by (intro exI [of _ c']) auto
  qed
  then obtain c' where c': "evaluate_all eps c = Inr c'" "state_eligible c'"
    "min 100 (wear_index c + 4 * length eps) \<le> wear_index c'"
    "wear_index c' \<le> min 100 (wear_index c + 10 * length eps)" by blast
  moreover have "wear_index c + 4 * length eps > 60 \<longrightarrow> condition_band c' = InspectionRecommended"
    using c'(2,3) by (auto simp: state_eligible_def band_for_score_def)
  ultimately show ?thesis by blast
qed

section \<open>A concrete episode\<close>

definition demo_signals :: "int \<Rightarrow> FixedSignals" where
  "demo_signals speed = \<lparr>speed_milli_kph = speed, longitudinal_acceleration_milli_mps2 = - 4000,
     brake_effort_milli_percent = 75000, steering_milli_degree = 100,
     wheel_angular_milli_degree_per_second = Wheels (- 900000) 905000 900000 901000,
     wheel_linear_milli_kph = Wheels speed speed (speed + 200) speed\<rparr>"

definition demo_sample :: "nat \<Rightarrow> string \<Rightarrow> Phase \<Rightarrow> Sample" where
  "demo_sample i ts p = \<lparr>sample_index = i, sample_timestamp = ts, sample_phase = p, is_complete = True,
     is_finite = True, sample_age_ms = 20, signals = demo_signals (60000 - int i * 4000)\<rparr>"

definition demo_id :: string where
  "demo_id = ''11111111-2222-4333-8444-555555555555''"

definition demo_episode :: CompletedEpisode where
  "demo_episode = \<lparr>source_event_id = demo_id, episode_terminal_state = Complete,
     retained_cadence_hz = 10, episode_samples =
       [demo_sample 0 ''2026-01-01T00:00:00.000Z'' PhasePre,
        demo_sample 1 ''2026-01-01T00:00:00.100Z'' PhaseActive,
        demo_sample 2 ''2026-01-01T00:00:00.200Z'' PhaseActive,
        demo_sample 3 ''2026-01-01T00:00:00.300Z'' PhaseActive,
        demo_sample 4 ''2026-01-01T00:00:00.400Z'' PhaseActive,
        demo_sample 5 ''2026-01-01T00:00:00.500Z'' PhaseActive,
        demo_sample 6 ''2026-01-01T00:00:00.600Z'' PhasePost]\<rparr>"

definition demo_state :: ModelState where
  "demo_state = \<lparr>generation = 0, wear_index = 54, condition_score = 46, condition_band = Monitor,
     last_applied_source_event_id = None, last_assessment_id = None, recent_source_event_ids = [],
     producer_epoch = demo_id, next_advisory_sequence = 1, model_config_sha256 = kModelConfigSha256\<rparr>"

lemma demo_state_eligible: "state_eligible demo_state"
  by code_simp

lemma demo_state_typed: "state_typed demo_state"
  by code_simp

lemma demo_episode_accepted: "skip_of demo_episode = None"
  by code_simp

definition late_episode :: CompletedEpisode where
  "late_episode = demo_episode\<lparr>episode_samples := (episode_samples demo_episode)
     [2 := (demo_sample 2 ''2026-01-01T00:00:00.050Z'' PhaseActive)\<lparr>sample_age_ms := 6000\<rparr>]\<rparr>"

theorem evaluate_skips_first_defect_witness:
  "\<exists>ev. evaluate late_episode demo_state = Inr ev \<and> skip_reason ev = Some StaleSample \<and> next_state ev = demo_state \<and>
     defect NonMonotonicSourceTime late_episode"
proof -
  have "\<not> times_acceptable 0 None (episode_samples late_episode)" by code_simp
  then have d: "defect NonMonotonicSourceTime late_episode" by (simp only: times_defect not_not)
  have "skip_of late_episode = Some StaleSample" by code_simp
  then have "due_reason late_episode StaleSample" by (simp only: due_reason_find skip_of_find)
  moreover have "\<exists>r. defect r late_episode" using d by blast
  ultimately show ?thesis using d evaluate_skips_first_defect [OF demo_state_eligible, of late_episode] by auto
qed
theorem evaluate_refines_spec_witness:
  "\<exists>ev a. evaluate demo_episode demo_state = Inr ev \<and> assessment ev = Some a \<and>
    wear_increment a = spec_increment demo_episode \<and>
    wear_index_after a = min 100 (wear_index demo_state + spec_increment demo_episode) \<and>
    next_state ev = demo_state\<lparr>generation := u64 (generation demo_state + 1),
      wear_index := wear_index_after a, condition_score := 100 - wear_index_after a,
      condition_band := band_for_score (100 - wear_index_after a)\<rparr>"
  by (rule evaluate_refines_spec [OF demo_state_eligible demo_episode_accepted])

theorem evaluate_wear_monotone_witness:
  "\<exists>ev a. evaluate demo_episode demo_state = Inr ev \<and> assessment ev = Some a \<and>
    4 \<le> wear_increment a \<and> wear_increment a \<le> 10 \<and>
    wear_index demo_state \<le> wear_index (next_state ev) \<and> wear_index (next_state ev) \<le> 100 \<and>
    generation (next_state ev) = generation demo_state + 1 \<and>
    (state_eligible (next_state ev) \<longleftrightarrow> generation demo_state + 1 \<noteq> u64_max)"
proof -
  have "case evaluate demo_episode demo_state of Inl _ \<Rightarrow> False | Inr ev \<Rightarrow> assessment ev \<noteq> None"
    by code_simp
  then obtain ev a where "evaluate demo_episode demo_state = Inr ev" "assessment ev = Some a"
    by (auto split: sum.splits)
  with evaluate_wear_monotone [OF demo_state_eligible demo_state_typed] show ?thesis by blast
qed

theorem evaluate_all_progress_witness:
  "\<exists>c'. evaluate_all [demo_episode, demo_episode] demo_state = Inr c' \<and> state_eligible c' \<and>
    min 100 (wear_index demo_state + 4 * length [demo_episode, demo_episode]) \<le> wear_index c' \<and>
    wear_index c' \<le> min 100 (wear_index demo_state + 10 * length [demo_episode, demo_episode]) \<and>
    (wear_index demo_state + 4 * length [demo_episode, demo_episode] > 60 \<longrightarrow>
      condition_band c' = InspectionRecommended)"
  by (rule evaluate_all_progress [OF demo_state_eligible demo_state_typed])
     (simp_all add: demo_episode_accepted demo_state_def u64_max_def)

text \<open>
  Rounding: whenever it does not raise, \<open>round_half_up\<close> returns the quotient rounded half up,
  that is the unique \<open>r\<close> with \<open>(2 r - 1) d \<le> 2 n < (2 r + 1) d\<close>.
\<close>

theorem round_half_up_exact:
  assumes "round_half_up n d = Inr r"
  shows "2 * r * d \<le> 2 * n + d \<and> 2 * n + d < 2 * (r + 1) * d"
proof -
  from assms have d: "0 < d" and r: "r = (n + d div 2) div d"
    by (auto simp: round_half_up_def split: if_splits)
  have "r = (2 * n + d) div (2 * d)" unfolding r by (simp add: div_mult2_eq)
  with d obtain m where m: "2 * n + d = r * (2 * d) + m" "m < 2 * d"
    by (metis div_mult_mod_eq mod_less_divisor nat_0_less_mult_iff zero_less_numeral)
  show ?thesis unfolding m(1) using m(2) by (simp add: algebra_simps)
qed

theorem round_half_up_exact_witness:
  "2 * 3 * 4 \<le> 2 * 10 + (4 :: nat) \<and> 2 * 10 + 4 < 2 * (3 + 1) * (4 :: nat)"
proof -
  have "round_half_up 10 4 = Inr 3" by code_simp
  from round_half_up_exact [OF this] show ?thesis by simp
qed


end
