(* ===== verification/Capture.thy ===== *)
theory Capture
  imports Condition
begin

text \<open>
  Acquisition for the condition model (\<^verbatim>\<open>src/runtime/model_capture.cpp\<close>) and the frame assembly of
  \<^verbatim>\<open>src/runtime/runtime.cpp\<close>: quantisation of the twelve signals, the completeness rule, and the
  \<open>ModelCapture\<close> engine, which has the episode boundary of the v1 engine. A signal value is an
  exact rational, as the sources rely on for values promoted from \<open>float\<close>.
\<close>

section \<open>Wall-clock text\<close>

text \<open>
  \<open>gmtime_r\<close> and \<open>strftime\<close> with \<open>%Y-%m-%dT%H:%M:%S\<close>: the Gregorian date of a day count, the year
  printed without padding. The year of a 64-bit millisecond count fits an \<open>int\<close>, so
  \<open>gmtime_r\<close> does not fail.
\<close>

definition utc_timestamp :: "int \<Rightarrow> string result" where
  "utc_timestamp epoch_ms =
     (if epoch_ms < 0 then Inl (Invalid_argument ''TIME_INVALID'')
      else (let epoch = cdiv epoch_ms 1000; (year, month, day) = civil_from_days (epoch div 86400);
                seconds = epoch mod 86400
            in Inr (int_to_string year @ ''-'' @ zero_pad 2 (to_string month) @ ''-'' @
                    zero_pad 2 (to_string day) @ ''T'' @ zero_pad 2 (to_string (nat (seconds div 3600))) @
                    '':'' @ zero_pad 2 (to_string (nat (seconds div 60 mod 60))) @ '':'' @
                    zero_pad 2 (to_string (nat (seconds mod 60))) @ ''.'' @
                    zero_pad 3 (int_to_string (crem epoch_ms 1000)) @ ''Z'')))"

section \<open>Frames from signals\<close>

record Signal =
  sig_value :: dbl
  sig_epoch_ms :: int
  sig_valid :: bool

text \<open>\<open>std::round\<close>: half away from zero.\<close>

definition std_round :: "rat \<Rightarrow> int" where
  "std_round q = (if q < 0 then - \<lfloor>- q + 1 / 2\<rfloor> else \<lfloor>q + 1 / 2\<rfloor>)"

text \<open>
  The product by 1000 is exact in the source too: every value is a promoted \<open>float\<close> or an unsigned
  integer, so its 24-bit significand times 1000 fits the significand of a \<open>double\<close>.
\<close>

definition quantize_milli :: "dbl \<Rightarrow> rat \<Rightarrow> rat \<Rightarrow> int result" where
  "quantize_milli v minimum maximum =
     (case v of
        Fin q \<Rightarrow>
          if q < minimum \<or> q > maximum then Inl (Invalid_argument ''MODEL_INPUT_INVALID'')
          else (let rounded = std_round (q * 1000)
                in if rounded < i64_min \<or> rounded > i64_max
                   then Inl (Out_of_range ''MODEL_INPUT_OVERFLOW'') else Inr rounded)
      | _ \<Rightarrow> Inl (Invalid_argument ''MODEL_INPUT_INVALID''))"

record ModelFrame =
  mf_signals :: FixedSignals
  mf_source_epoch_ms :: int
  mf_monotonic_ms :: int
  mf_source_age_ms :: int

definition kMaximumSignalSkewMs :: int where "kMaximumSignalSkewMs = 100"
definition kMaximumInputGapMs :: int where "kMaximumInputGapMs = 5000"

text \<open>The twelve signals come as a list of that length.\<close>

definition quantize_all :: "Signal list \<Rightarrow> FixedSignals result" where
  "quantize_all vs =
     (let q = (\<lambda>i. quantize_milli (sig_value (vs ! i)))
      in bindE (q 0 0 1000) (\<lambda>speed. bindE (q 1 (- 100) 100) (\<lambda>acceleration.
         bindE (q 2 0 100) (\<lambda>brake. bindE (q 3 (- 360) 360) (\<lambda>steering.
         bindE (q 4 (- 10000) 10000) (\<lambda>a0. bindE (q 8 0 1000) (\<lambda>l0.
         bindE (q 5 (- 10000) 10000) (\<lambda>a1. bindE (q 9 0 1000) (\<lambda>l1.
         bindE (q 6 (- 10000) 10000) (\<lambda>a2. bindE (q 10 0 1000) (\<lambda>l2.
         bindE (q 7 (- 10000) 10000) (\<lambda>a3. bindE (q 11 0 1000) (\<lambda>l3.
         Inr \<lparr>speed_milli_kph = speed, longitudinal_acceleration_milli_mps2 = acceleration,
              brake_effort_milli_percent = brake, steering_milli_degree = steering,
              wheel_angular_milli_degree_per_second = Wheels a0 a1 a2 a3,
              wheel_linear_milli_kph = Wheels l0 l1 l2 l3\<rparr>)))))))))))))"

definition complete_model_frame :: "Signal list \<Rightarrow> int \<Rightarrow> int \<Rightarrow> int \<Rightarrow> ModelFrame option result" where
  "complete_model_frame vs wall mono_ms previous =
     (let oldest = min_of (map sig_epoch_ms vs); epoch = max_of (map sig_epoch_ms vs)
      in if epoch \<le> previous \<or> oldest < 0 \<or> epoch > wall \<or> wall - oldest > 5000 \<or>
            epoch - oldest > kMaximumSignalSkewMs \<or> mono_ms < 0 then Inr None
         else if \<not> list_all sig_valid vs then Inr None
         else (case quantize_all vs of
            Inr s \<Rightarrow> Inr (Some \<lparr>mf_signals = s, mf_source_epoch_ms = epoch,
                                mf_monotonic_ms = mono_ms, mf_source_age_ms = wall - oldest\<rparr>)
          | Inl (Invalid_argument _) \<Rightarrow> Inr None
          | Inl e \<Rightarrow> Inl e))"

text \<open>The six-signal frame of the v1 path.\<close>

definition is_integral :: "rat \<Rightarrow> bool" where
  "is_integral q \<longleftrightarrow> of_int \<lfloor>q\<rfloor> = q"

fun fin_value :: "dbl \<Rightarrow> rat" where
  "fin_value (Fin q) = q"
| "fin_value _ = 0"

definition complete_frame :: "Signal list \<Rightarrow> int \<Rightarrow> int \<Rightarrow> int \<Rightarrow> SourceFrame option result" where
  "complete_frame vs wall mono_ms previous =
     (let epoch = sig_epoch_ms (vs ! 0); pedal = (\<lambda>i. fin_value (sig_value (vs ! i)))
      in if epoch \<le> previous then Inr None
         else if list_ex (\<lambda>v. \<not> sig_valid v \<or> \<not> isfinite (sig_value v) \<or> sig_epoch_ms v \<noteq> epoch \<or>
                              wall < epoch \<or> wall - epoch > kMaximumSourceAgeMs) vs then Inr None
         else if \<not> is_integral (pedal 4) \<or> pedal 4 < 0 \<or> pedal 4 > 100 \<or>
                 \<not> is_integral (pedal 5) \<or> pedal 5 < 0 \<or> pedal 5 > 100 then Inr None
         else bindE (utc_timestamp epoch) (\<lambda>ts.
           Inr (Some \<lparr>speed_kph = sig_value (vs ! 0), longitudinal_acceleration_mps2 = sig_value (vs ! 1),
                lateral_acceleration_mps2 = sig_value (vs ! 2), vertical_acceleration_mps2 = sig_value (vs ! 3),
                accelerator_pedal_percent = \<lfloor>pedal 4\<rfloor>, brake_pedal_percent = \<lfloor>pedal 5\<rfloor>,
                source_timestamp = ts, source_epoch_ms = epoch, monotonic_ms = mono_ms,
                max_source_age_ms = wall - epoch, quality = QualityValidCompleteFrame\<rparr>)))"

section \<open>The capture engine\<close>

record ModelCapture =
  mc_state :: State
  pre :: "(Sample \<times> int) list"
  episode :: CompletedEpisode
  previous_source :: "int option"
  previous_mono :: "int option"
  trigger_hold :: "int option"
  clear_hold :: "int option"
  suppression_hold :: "int option"
  event_start :: int
  active_start :: int
  active_elapsed :: int
  post_start :: int
  retained_bucket :: "int option"
  suppressed :: bool

definition empty_episode :: CompletedEpisode where
  "empty_episode = \<lparr>source_event_id = [], episode_terminal_state = Complete,
     retained_cadence_hz = 10, episode_samples = []\<rparr>"

definition ModelCapture_new :: ModelCapture where
  "ModelCapture_new =
     \<lparr>mc_state = StateIdle, pre = [], episode = empty_episode, previous_source = None,
      previous_mono = None, trigger_hold = None, clear_hold = None, suppression_hold = None,
      event_start = 0, active_start = 0, active_elapsed = 0, post_start = 0,
      retained_bucket = None, suppressed = False\<rparr>"

definition reset_demo :: "ModelCapture \<Rightarrow> ModelCapture" where
  "reset_demo c = ModelCapture_new"

definition hold :: "bool \<Rightarrow> int \<Rightarrow> int \<Rightarrow> int option \<Rightarrow> bool \<times> int option" where
  "hold condition now duration start =
     (if \<not> condition then (False, None)
      else (let s = (case start of None \<Rightarrow> now | Some t \<Rightarrow> t) in (now - s \<ge> duration, Some s)))"

fun prune_pre :: "int \<Rightarrow> (Sample \<times> int) list \<Rightarrow> (Sample \<times> int) list" where
  "prune_pre now [] = []"
| "prune_pre now (p # ps) =
     (if now - snd p > 3000 \<or> length (p # ps) > 30 then prune_pre now ps else p # ps)"

definition prune :: "int \<Rightarrow> ModelCapture \<Rightarrow> ModelCapture" where
  "prune now c = c\<lparr>pre := prune_pre now (pre c)\<rparr>"

definition sample_of :: "ModelFrame \<Rightarrow> string \<Rightarrow> Phase \<Rightarrow> nat \<Rightarrow> Sample" where
  "sample_of f ts p i = \<lparr>sample_index = i, sample_timestamp = ts, sample_phase = p,
     is_complete = True, is_finite = True, sample_age_ms = mf_source_age_ms f, signals = mf_signals f\<rparr>"

text \<open>\<open>utc_timestamp\<close> comes first: when it raises, nothing has changed.\<close>

definition retain :: "ModelFrame \<Rightarrow> Phase \<Rightarrow> ModelCapture \<Rightarrow> ModelCapture \<times> unit result" where
  "retain f p c =
     (case utc_timestamp (mf_source_epoch_ms f) of Inl e \<Rightarrow> (c, Inl e)
      | Inr ts \<Rightarrow>
         (if p = PhasePre
          then (prune (mf_monotonic_ms f) (c\<lparr>pre := pre c @ [(sample_of f ts p 0, mf_monotonic_ms f)]\<rparr>), Inr ())
          else
            (let ss = episode_samples (episode c)
             in if length ss < 150
                then (c\<lparr>episode := (episode c)\<lparr>episode_samples := ss @ [sample_of f ts p (length ss)]\<rparr>\<rparr>, Inr ())
                else (c, Inr ()))))"

definition count_phase :: "Phase \<Rightarrow> Sample list \<Rightarrow> nat" where
  "count_phase p ss = length (filter (\<lambda>s. sample_phase s = p) ss)"

definition abort :: "TerminalState \<Rightarrow> ModelCapture \<Rightarrow> ModelCapture \<times> CompletedEpisode option" where
  "abort terminal c =
     (let c1 = c\<lparr>trigger_hold := None, clear_hold := None, suppression_hold := None\<rparr>
      in if mc_state c1 = StateIdle then (c1\<lparr>pre := []\<rparr>, None)
         else
           (let result = (episode c1)\<lparr>episode_terminal_state := terminal\<rparr>;
                c2 = c1\<lparr>episode := empty_episode, mc_state := StateIdle, pre := []\<rparr>
            in (if terminal = TruncatedMaxDuration then c2\<lparr>suppressed := True\<rparr> else c2, Some result)))"

text \<open>The samples of the ring, numbered in order, when an event begins.\<close>

definition numbered :: "(Sample \<times> int) list \<Rightarrow> Sample list" where
  "numbered ps = map2 (\<lambda>i (s, _). s\<lparr>sample_index := i\<rparr>) [0..<length ps] ps"

definition ingest_gap :: "ModelFrame \<Rightarrow> ModelCapture \<Rightarrow> bool" where
  "ingest_gap f c \<longleftrightarrow>
     (case previous_source c of None \<Rightarrow> False
      | Some p \<Rightarrow> mf_source_epoch_ms f \<le> p \<or> mf_source_epoch_ms f - p > kMaximumInputGapMs) \<or>
     (case previous_mono c of None \<Rightarrow> False
      | Some p \<Rightarrow> mf_monotonic_ms f < p \<or> mf_monotonic_ms f - p > kMaximumInputGapMs) \<or>
     mf_source_age_ms f < 0 \<or> mf_source_age_ms f > 5000"

definition mf_trigger :: "ModelFrame \<Rightarrow> bool" where
  "mf_trigger f \<longleftrightarrow> speed_milli_kph (mf_signals f) \<ge> 10000 \<and>
     brake_effort_milli_percent (mf_signals f) \<ge> 50000"

definition mf_clear :: "ModelFrame \<Rightarrow> bool" where
  "mf_clear f \<longleftrightarrow> brake_effort_milli_percent (mf_signals f) < 10000 \<or>
     speed_milli_kph (mf_signals f) < 500"

definition retain_if :: "bool \<Rightarrow> ModelFrame \<Rightarrow> Phase \<Rightarrow> ModelCapture \<Rightarrow> ModelCapture \<times> unit result" where
  "retain_if r f p c = (if r then retain f p c else (c, Inr ()))"

type_synonym capture_outcome = "ModelCapture \<times> CompletedEpisode option result"

definition no_episode :: "ModelCapture \<times> unit result \<Rightarrow> capture_outcome" where
  "no_episode = (\<lambda>(c, out). (c, (case out of Inl e \<Rightarrow> Inl e | Inr _ \<Rightarrow> Inr None)))"

definition capture_suppressed :: "bool \<Rightarrow> ModelFrame \<Rightarrow> ModelCapture \<Rightarrow> capture_outcome" where
  "capture_suppressed keep f c =
     (let (held, start) = hold (mf_clear f) (mf_monotonic_ms f) 500 (suppression_hold c);
          c1 = c\<lparr>suppression_hold := start\<rparr>;
          c2 = (if held then c1\<lparr>suppressed := False, suppression_hold := None\<rparr> else c1)
      in no_episode (retain_if keep f PhasePre c2))"

definition capture_begin :: "string result \<Rightarrow> ModelFrame \<Rightarrow> ModelCapture \<Rightarrow> ModelCapture \<times> unit result" where
  "capture_begin uuid f c =
     (let c1 = (prune (mf_monotonic_ms f) c)\<lparr>episode := empty_episode\<rparr>
      in case uuid of Inl e \<Rightarrow> (c1, Inl e)
         | Inr uid \<Rightarrow>
             (c1\<lparr>episode := empty_episode\<lparr>source_event_id := uid, episode_samples := numbered (pre c1)\<rparr>,
                 event_start := (case pre c1 of [] \<Rightarrow> mf_monotonic_ms f | p # _ \<Rightarrow> snd p),
                 pre := [], mc_state := StateActive, active_start := mf_monotonic_ms f,
                 active_elapsed := 0, trigger_hold := None, clear_hold := None\<rparr>, Inr ()))"

definition capture_idle :: "string result \<Rightarrow> bool \<Rightarrow> ModelFrame \<Rightarrow> ModelCapture \<Rightarrow> capture_outcome" where
  "capture_idle uuid keep f c =
     (let (triggered, start) = hold (mf_trigger f) (mf_monotonic_ms f) 200 (trigger_hold c);
          c1 = c\<lparr>trigger_hold := start\<rparr>
      in if triggered
         then (case capture_begin uuid f c1 of
                 (c2, Inl e) \<Rightarrow> (c2, Inl e)
               | (c2, Inr _) \<Rightarrow> no_episode (retain_if keep f PhaseActive c2))
         else no_episode (retain_if keep f PhasePre c1))"

definition capture_over_limit :: "ModelFrame \<Rightarrow> ModelCapture \<Rightarrow> bool" where
  "capture_over_limit f c \<longleftrightarrow>
     mf_monotonic_ms f - event_start c \<ge> 15000 \<or>
     active_elapsed c + (if mc_state c = StateActive then mf_monotonic_ms f - active_start c else 0) \<ge> 10000 \<or>
     length (episode_samples (episode c)) \<ge> 150 \<or>
     count_phase PhaseActive (episode_samples (episode c)) \<ge> 100"

definition capture_move :: "ModelFrame \<Rightarrow> ModelCapture \<Rightarrow> ModelCapture + ModelCapture" where
  "capture_move f c =
     (if mc_state c = StateActive then
        (let (clear, start) = hold (mf_clear f) (mf_monotonic_ms f) 500 (clear_hold c);
             c1 = c\<lparr>clear_hold := start\<rparr>
         in Inr (if clear
                 then c1\<lparr>active_elapsed := active_elapsed c1 + (mf_monotonic_ms f - active_start c1),
                         post_start := mf_monotonic_ms f, mc_state := StatePost,
                         clear_hold := None, trigger_hold := None\<rparr>
                 else c1))
      else
        (let (triggered, start) = hold (mf_trigger f) (mf_monotonic_ms f) 200 (trigger_hold c);
             c1 = c\<lparr>trigger_hold := start\<rparr>
         in if triggered
            then Inr (c1\<lparr>mc_state := StateActive, active_start := mf_monotonic_ms f,
                         trigger_hold := None, clear_hold := None\<rparr>)
            else if mf_monotonic_ms f - post_start c1 \<ge> 2000 \<or>
                    count_phase PhasePost (episode_samples (episode c1)) \<ge> 20
            then Inl c1 else Inr c1))"

definition ok_outcome :: "ModelCapture \<times> CompletedEpisode option \<Rightarrow> capture_outcome" where
  "ok_outcome = (\<lambda>(c, w). (c, Inr w))"

definition capture_capturing :: "bool \<Rightarrow> ModelFrame \<Rightarrow> ModelCapture \<Rightarrow> capture_outcome" where
  "capture_capturing keep f c =
     (if capture_over_limit f c then ok_outcome (abort TruncatedMaxDuration c)
      else (case capture_move f c of
        Inl c1 \<Rightarrow> ok_outcome (abort Complete c1)
      | Inr c1 \<Rightarrow>
         (case retain_if keep f (if mc_state c1 = StateActive then PhaseActive else PhasePost) c1 of
            (c2, Inl e) \<Rightarrow> (c2, Inl e)
          | (c2, Inr _) \<Rightarrow>
              (if length (episode_samples (episode c2)) \<ge> 150
               then ok_outcome (abort TruncatedMaxDuration c2) else (c2, Inr None)))))"

definition capture_ingest :: "string result \<Rightarrow> ModelFrame \<Rightarrow> ModelCapture \<Rightarrow> capture_outcome" where
  "capture_ingest uuid f c =
     (let c1 = c\<lparr>previous_source := Some (mf_source_epoch_ms f), previous_mono := Some (mf_monotonic_ms f)\<rparr>
      in if ingest_gap f c then ok_outcome (abort IncompleteSourceGap c1)
         else
           (let bucket_value = cdiv (mf_source_epoch_ms f) 100;
                keep = (retained_bucket c1 = None \<or> retained_bucket c1 \<noteq> Some bucket_value);
                c2 = (if keep then c1\<lparr>retained_bucket := Some bucket_value\<rparr> else c1)
            in if suppressed c2 then capture_suppressed keep f c2
               else if mc_state c2 = StateIdle then capture_idle uuid keep f c2
               else capture_capturing keep f c2))"

section \<open>Wall-clock text is a timestamp\<close>

text \<open>The first instant of the year 10000.\<close>

definition year_10000_ms :: int where
  "year_10000_ms = 253402300800000"

lemma civil_year_positive:
  assumes "0 \<le> days" and "civil_from_days days = (yi, m, d)"
  shows "0 < yi"
proof -
  define era where "era = (days + 719468) div 146097"
  define n where "n = nat ((days + 719468) mod 146097)"
  have n: "n < 146097" and days: "days = era * 146097 + int n - 719468"
    by (auto simp: n_def era_def nat_less_iff)
  have era: "4 \<le> era" using assms(1) unfolding era_def by linarith
  from n obtain k dy where kd: "k < 400" "dy < year_days k" "n = year_start k + dy"
    by (rule year_exists)
  with assms(2) civil_from_days_eq [OF kd(1,2), of era] have "int k + era * 400 \<le> yi"
    by (auto simp: days kd(3) Let_def split: if_splits)
  with era show ?thesis by linarith
qed

lemma civil_year_range:
  assumes "0 \<le> days" and "days < 2932897" and c: "civil_from_days days = (yi, m, d)"
  shows "1970 \<le> yi" and "yi \<le> 9999" and "valid_date (nat yi) m d" and "days_from_civil yi m d = days"
proof -
  have pos: "0 < yi" by (rule civil_year_positive [OF assms(1) c])
  from civil_from_days_valid [OF c pos]
  show v: "valid_date (nat yi) m d" and dc: "days_from_civil yi m d = days" by auto
  have dn: "int (day_number (march_year (nat yi) m) (march_month m) d) = days + 719468"
    using days_from_civil_number [OF v] dc pos by simp
  show "1970 \<le> yi"
  proof (rule ccontr)
    assume "\<not> 1970 \<le> yi"
    then have "nat yi < 1970" using pos by simp
    moreover have "valid_date 1970 1 1" by code_simp
    ultimately have "day_number (march_year (nat yi) m) (march_month m) d < day_number (march_year 1970 1) (march_month 1) 1"
      by (intro day_number_less v) auto
    moreover have "day_number (march_year 1970 1) (march_month 1) 1 = 719468" by code_simp
    ultimately show False using dn assms(1) by linarith
  qed
  show "yi \<le> 9999"
  proof (rule ccontr)
    assume "\<not> yi \<le> 9999"
    then have "9999 < nat yi" using pos by simp
    moreover have "valid_date 9999 12 31" by code_simp
    ultimately have "day_number (march_year 9999 12) (march_month 12) 31 < day_number (march_year (nat yi) m) (march_month m) d"
      by (intro day_number_less v) auto
    moreover have "day_number (march_year 9999 12) (march_month 12) 31 = 3652364" by code_simp
    ultimately show False using dn assms(2) by linarith
  qed
qed

lemma int_to_string_nat [simp]: "int_to_string (int n) = to_string n"
  by (simp add: int_to_string_def)

lemma zero_pad_four: "1000 \<le> n \<Longrightarrow> zero_pad 4 (to_string n) = to_string n"
proof -
  assume "1000 \<le> n"
  have "4 \<le> length (to_string n)"
  proof (rule ccontr)
    assume "\<not> 4 \<le> length (to_string n)"
    then have "length (to_string n) \<le> 3" by simp
    then have "(10 :: nat) ^ length (to_string n) \<le> 10 ^ 3" by (intro power_increasing) simp_all
    with dec_value_bound [OF to_string_digits [of n]] \<open>1000 \<le> n\<close> show False by simp
  qed
  then show ?thesis by (simp add: zero_pad_def)
qed

lemma utc_timestamp_text:
  assumes "0 \<le> e" and "e < year_10000_ms"
  obtains y m d h mi se ms where "valid_fields (y, m, d, h, mi, se, ms)"
    and "instant (y, m, d, h, mi, se, ms) = e"
    and "utc_timestamp e = Inr (timestamp_text y m d h mi se ms)"
proof -
  obtain yi m d where c: "civil_from_days (e div 86400000) = (yi, m, d)"
    by (cases "civil_from_days (e div 86400000)") auto
  have days: "0 \<le> e div 86400000" "e div 86400000 < 2932897"
    using assms by (auto simp: year_10000_ms_def pos_imp_zdiv_nonneg_iff)
  note y = civil_year_range [OF days c]
  define sec where "sec = e div 1000 mod 86400"
  define h where "h = nat (sec div 3600)"
  define mi where "mi = nat (sec div 60 mod 60)"
  define se where "se = nat (sec mod 60)"
  define ms where "ms = nat (e mod 1000)"
  have sec: "0 \<le> sec" "sec < 86400" by (simp_all add: sec_def)
  have b: "h \<le> 23" "mi \<le> 59" "se \<le> 59" "ms \<le> 999" "int h = sec div 3600" "int mi = sec div 60 mod 60"
    "int se = sec mod 60" "int ms = e mod 1000"
    using sec by (auto simp: h_def mi_def se_def ms_def pos_imp_zdiv_nonneg_iff)
  have s1: "sec div 3600 * 3600 + sec div 60 mod 60 * 60 + sec mod 60 = sec"
  proof -
    have "(sec div 60 div 60 * 60 + sec div 60 mod 60) * 60 + sec mod 60 = sec"
      by (simp only: div_mult_mod_eq)
    then show ?thesis by (simp add: distrib_right zdiv_zmult2_eq [symmetric])
  qed
  have e1: "(e div 86400000 * 86400 + sec) * 1000 + e mod 1000 = e"
    using div_mult_mod_eq [of e 1000] div_mult_mod_eq [of "e div 1000" 86400]
    by (simp add: sec_def zdiv_zmult2_eq [symmetric])
  have "instant (nat yi, m, d, h, mi, se, ms) = (e div 86400000 * 86400 +
      (sec div 3600 * 3600 + sec div 60 mod 60 * 60 + sec mod 60)) * 1000 + e mod 1000"
    using y(1,4) by (simp add: instant_def b(5-8) distrib_right)
  then have "instant (nat yi, m, d, h, mi, se, ms) = e" by (simp only: s1 e1)
  moreover have "valid_fields (nat yi, m, d, h, mi, se, ms)"
    using y b by (simp add: valid_fields_def)
  moreover have "utc_timestamp e = Inr (timestamp_text (nat yi) m d h mi se ms)"
  proof -
    have "e div 1000 div 86400 = e div 86400000" by (simp add: zdiv_zmult2_eq [symmetric])
    moreover have "int_to_string yi = zero_pad 4 (to_string (nat yi))"
      using y(1) zero_pad_four [of "nat yi"] by (simp add: int_to_string_def)
    moreover have "int_to_string (e mod 1000) = to_string ms" by (simp add: int_to_string_def ms_def)
    ultimately show ?thesis
      using assms(1) c by (simp add: utc_timestamp_def timestamp_text_def sec_def [symmetric]
          h_def mi_def se_def)
  qed
  ultimately show thesis using that by blast
qed

lemma utc_timestamp_ok:
  assumes "0 \<le> e" and "e < year_10000_ms"
  obtains s where "utc_timestamp e = Inr s" and "is_rfc3339_millisecond_utc s"
    and "timestamp_milliseconds s = Inr e"
proof -
  from utc_timestamp_text [OF assms] obtain y m d h mi se ms where
    f: "valid_fields (y, m, d, h, mi, se, ms)" "instant (y, m, d, h, mi, se, ms) = e"
    "utc_timestamp e = Inr (timestamp_text y m d h mi se ms)" by blast
  have "y \<le> 9999" "m \<le> 99" "d \<le> 99" "h \<le> 99" "mi \<le> 99" "se \<le> 99" "ms \<le> 999"
    using f(1) maximum_day_le [of m y] by (auto simp: valid_fields_def valid_date_def)
  then have "timestamp_fields (timestamp_text y m d h mi se ms) = (y, m, d, h, mi, se, ms)"
    by (rule text_fields)
  with f that [of "timestamp_text y m d h mi se ms"] rfc3339_text [OF f(1)] show thesis
    by (simp add: timestamp_milliseconds_eq)
qed


section \<open>The invariant of the capture\<close>

definition sample_epoch :: "Sample \<Rightarrow> int" where
  "sample_epoch s = (case timestamp_milliseconds (sample_timestamp s) of Inr e \<Rightarrow> e | Inl _ \<Rightarrow> 0)"

definition sample_ok :: "Sample \<Rightarrow> bool" where
  "sample_ok s \<longleftrightarrow> is_complete s \<and> is_finite s \<and> 0 \<le> sample_age_ms s \<and> sample_age_ms s \<le> 5000 \<and>
     signal_range_valid (signals s) \<and> is_rfc3339_millisecond_utc (sample_timestamp s)"

text \<open>Samples in acquisition order, at most one per 100 ms bucket.\<close>

definition series :: "Sample list \<Rightarrow> bool" where
  "series ss \<longleftrightarrow> list_all sample_ok ss \<and>
     sorted_wrt (\<lambda>a b. cdiv (sample_epoch a) 100 < cdiv (sample_epoch b) 100) ss"

definition sample_pre_prefix :: "Sample list \<Rightarrow> bool" where
  "sample_pre_prefix ss \<longleftrightarrow>
     list_all (\<lambda>s. sample_phase s \<noteq> PhasePre) (dropWhile (\<lambda>s. sample_phase s = PhasePre) ss)"

definition episode_shape :: "Sample list \<Rightarrow> bool" where
  "episode_shape ss \<longleftrightarrow> series ss \<and> map sample_index ss = [0..<length ss] \<and>
     count_phase PhasePre ss \<le> 30 \<and> count_phase PhaseActive ss \<le> 100 \<and> sample_pre_prefix ss"

definition episode_ok :: "CompletedEpisode \<Rightarrow> bool" where
  "episode_ok ep \<longleftrightarrow> retained_cadence_hz ep = 10 \<and> length (episode_samples ep) \<le> 150 \<and>
     episode_shape (episode_samples ep)"

definition cap_log :: "ModelCapture \<Rightarrow> Sample list" where
  "cap_log c = map fst (pre c) @ episode_samples (episode c)"

definition log_seen :: "ModelCapture \<Rightarrow> bool" where
  "log_seen c \<longleftrightarrow> cap_log c = [] \<or>
     (\<exists>b p. retained_bucket c = Some b \<and> previous_source c = Some p \<and> b \<le> cdiv p 100 \<and>
        (\<forall>s \<in> set (cap_log c). cdiv (sample_epoch s) 100 \<le> b))"

definition cap_idle :: "ModelCapture \<Rightarrow> bool" where
  "cap_idle c \<longleftrightarrow> episode_samples (episode c) = [] \<and> length (pre c) \<le> 30 \<and> series (map fst (pre c)) \<and>
     list_all (\<lambda>s. sample_phase s = PhasePre) (map fst (pre c))"

definition cap_open :: "ModelCapture \<Rightarrow> bool" where
  "cap_open c \<longleftrightarrow> pre c = [] \<and> \<not> suppressed c \<and> episode_ok (episode c)"

definition capture_ok_inv :: "ModelCapture \<Rightarrow> bool" where
  "capture_ok_inv c \<longleftrightarrow> log_seen c \<and>
     (if mc_state c = StateIdle then cap_idle c
      else cap_open c \<and> length (episode_samples (episode c)) < 150)"

text \<open>The frames the assembly produces, before the year 10000.\<close>

definition model_frame_ok :: "ModelFrame \<Rightarrow> bool" where
  "model_frame_ok f \<longleftrightarrow> 0 \<le> mf_source_epoch_ms f \<and> mf_source_epoch_ms f < year_10000_ms \<and>
     signal_range_valid (mf_signals f)"

definition cap_fresh :: "ModelFrame \<Rightarrow> bool \<Rightarrow> ModelCapture \<Rightarrow> bool" where
  "cap_fresh f r c \<longleftrightarrow> model_frame_ok f \<and> 0 \<le> mf_source_age_ms f \<and> mf_source_age_ms f \<le> 5000 \<and>
     previous_source c = Some (mf_source_epoch_ms f) \<and>
     (r \<longrightarrow> retained_bucket c = Some (cdiv (mf_source_epoch_ms f) 100) \<and>
        (\<forall>s \<in> set (cap_log c). cdiv (sample_epoch s) 100 < cdiv (mf_source_epoch_ms f) 100))"

subsection \<open>Lists of samples\<close>

lemma series_Nil [simp]: "series []"
  by (simp add: series_def)

lemma series_snoc:
  "series (ss @ [s]) \<longleftrightarrow> series ss \<and> sample_ok s \<and>
     (\<forall>a \<in> set ss. cdiv (sample_epoch a) 100 < cdiv (sample_epoch s) 100)"
  by (auto simp: series_def sorted_wrt_append)

lemma series_drop: "series ss \<Longrightarrow> series (drop n ss)"
  by (auto simp: series_def sorted_wrt_drop list_all_iff dest: in_set_dropD)

lemma count_phase_append [simp]: "count_phase p (xs @ ys) = count_phase p xs + count_phase p ys"
  by (simp add: count_phase_def)

lemma count_phase_single [simp]: "count_phase p [s] = (if sample_phase s = p then 1 else 0)"
  by (simp add: count_phase_def)

lemma prune_pre_drop: "\<exists>n. prune_pre now ps = drop n ps"
proof (induction ps)
  case (Cons p ps)
  then obtain n where "prune_pre now ps = drop n ps" by blast
  then have "prune_pre now (p # ps) = drop (Suc n) (p # ps) \<or> prune_pre now (p # ps) = drop 0 (p # ps)"
    by simp
  then show ?case by blast
qed simp

lemma prune_pre_length: "length (prune_pre now ps) \<le> 30"
  by (induction ps) auto

lemma numbered_simps:
  "length (numbered ps) = length ps" "map sample_index (numbered ps) = [0..<length ps]"
  "map sample_timestamp (numbered ps) = map sample_timestamp (map fst ps)"
  "map sample_phase (numbered ps) = map sample_phase (map fst ps)"
  by (auto simp: numbered_def intro!: nth_equalityI split: prod.splits)

lemma numbered_nth:
  "i < length ps \<Longrightarrow> numbered ps ! i = (fst (ps ! i))\<lparr>sample_index := i\<rparr>"
  by (simp add: numbered_def split: prod.splits)

lemma numbered_series: "series (map fst ps) \<Longrightarrow> series (numbered ps)"
  by (auto simp: series_def list_all_length sorted_wrt_iff_nth_less numbered_simps numbered_nth
      sample_ok_def sample_epoch_def)

lemma numbered_epochs: "s \<in> set (numbered ps) \<Longrightarrow> \<exists>s' \<in> set (map fst ps). sample_epoch s = sample_epoch s'"
proof -
  assume "s \<in> set (numbered ps)"
  then obtain i where i: "i < length ps" "s = numbered ps ! i" by (metis in_set_conv_nth numbered_simps(1))
  then have "sample_epoch s = sample_epoch (fst (ps ! i))" by (simp add: numbered_nth sample_epoch_def)
  with i(1) show ?thesis by (metis length_map nth_map nth_mem)
qed

lemma numbered_pre:
  assumes "list_all (\<lambda>s. sample_phase s = PhasePre) (map fst ps)"
  shows "list_all (\<lambda>s. sample_phase s = PhasePre) (numbered ps)"
  using assms by (auto simp: list_all_length numbered_simps numbered_nth)

lemma all_pre_shape:
  assumes "list_all (\<lambda>s. sample_phase s = PhasePre) ss"
  shows "count_phase PhasePre ss = length ss" and "count_phase PhaseActive ss = 0" and "sample_pre_prefix ss"
proof -
  show "count_phase PhasePre ss = length ss" "count_phase PhaseActive ss = 0"
    using assms by (induction ss) (auto simp: count_phase_def)
  show "sample_pre_prefix ss"
    using assms by (induction ss) (auto simp: sample_pre_prefix_def)
qed

lemma episode_shape_snoc:
  assumes "episode_shape ss" and "sample_ok s" and "sample_phase s \<noteq> PhasePre"
    and "sample_index s = length ss" and "sample_phase s = PhaseActive \<Longrightarrow> count_phase PhaseActive ss < 100"
    and "\<forall>a \<in> set ss. cdiv (sample_epoch a) 100 < cdiv (sample_epoch s) 100"
  shows "episode_shape (ss @ [s])"
  using assms by (auto simp: episode_shape_def series_snoc sample_pre_prefix_def dropWhile_append)


subsection \<open>The operations keep it\<close>

definition cap_core :: "ModelCapture \<Rightarrow> _" where
  "cap_core c = (pre c, episode c, previous_source c, retained_bucket c, suppressed c)"

lemma cap_core_cong:
  assumes "cap_core c = cap_core c'"
  shows "log_seen c = log_seen c'" and "cap_idle c = cap_idle c'" and "cap_open c = cap_open c'"
    and "cap_fresh f r c = cap_fresh f r c'"
  using assms
  by (simp_all add: cap_core_def cap_log_def log_seen_def cap_idle_def cap_open_def cap_fresh_def)

lemma fresh_sample:
  assumes "cap_fresh f True c"
  obtains ts where "utc_timestamp (mf_source_epoch_ms f) = Inr ts"
    and "\<And>p i. sample_ok (sample_of f ts p i)"
    and "\<And>p i. sample_epoch (sample_of f ts p i) = mf_source_epoch_ms f"
proof -
  from assms have "0 \<le> mf_source_epoch_ms f" "mf_source_epoch_ms f < year_10000_ms"
    by (auto simp: cap_fresh_def model_frame_ok_def)
  then obtain ts where ts: "utc_timestamp (mf_source_epoch_ms f) = Inr ts"
    "is_rfc3339_millisecond_utc ts" "timestamp_milliseconds ts = Inr (mf_source_epoch_ms f)"
    by (rule utc_timestamp_ok)
  show thesis
    by (rule that [OF ts(1)])
       (use assms ts in \<open>auto simp: cap_fresh_def model_frame_ok_def sample_ok_def sample_of_def sample_epoch_def\<close>)
qed

lemma retain_pre_ok:
  assumes "cap_fresh f True c" and "cap_idle c"
  obtains c' where "retain f PhasePre c = (c', Inr ())" and "cap_idle c'" and "log_seen c'"
    and "mc_state c' = mc_state c"
proof -
  from fresh_sample [OF assms(1)] obtain ts where ts: "utc_timestamp (mf_source_epoch_ms f) = Inr ts"
    "\<And>p i. sample_ok (sample_of f ts p i)"
    "\<And>p i. sample_epoch (sample_of f ts p i) = mf_source_epoch_ms f" by blast
  let ?new = "(sample_of f ts PhasePre 0, mf_monotonic_ms f)"
  let ?ps = "pre c @ [?new]"
  define c' where "c' = prune (mf_monotonic_ms f) (c\<lparr>pre := ?ps\<rparr>)"
  obtain n where n: "prune_pre (mf_monotonic_ms f) ?ps = drop n ?ps" using prune_pre_drop by blast
  have ring: "pre c' = drop n ?ps" "length (pre c') \<le> 30"
    using prune_pre_length [of "mf_monotonic_ms f" ?ps] by (simp_all add: c'_def prune_def n)
  have same: "episode c' = episode c" "previous_source c' = previous_source c"
    "retained_bucket c' = retained_bucket c" "mc_state c' = mc_state c"
    by (simp_all add: c'_def prune_def)
  have lt: "\<forall>s \<in> set (map fst (pre c)). cdiv (sample_epoch s) 100 < cdiv (mf_source_epoch_ms f) 100"
    using assms(1) by (auto simp: cap_fresh_def cap_log_def)
  have "series (map fst ?ps)" using assms(2) ts lt by (simp add: cap_idle_def series_snoc)
  then have ser: "series (map fst (pre c'))" unfolding ring(1) drop_map [symmetric] by (rule series_drop)
  have "list_all (\<lambda>s. sample_phase s = PhasePre) (map fst ?ps)"
    using assms(2) by (simp add: cap_idle_def sample_of_def)
  then have phases: "list_all (\<lambda>s. sample_phase s = PhasePre) (map fst (pre c'))"
    unfolding ring(1) drop_map [symmetric] list_all_iff by (blast dest: in_set_dropD)
  have idle: "cap_idle c'"
    using assms(2) ring(2) ser phases by (simp add: cap_idle_def same)
  have "\<forall>s \<in> set (map fst ?ps). cdiv (sample_epoch s) 100 \<le> cdiv (mf_source_epoch_ms f) 100"
    using lt ts(3) by (auto intro: less_imp_le)
  moreover have "cap_log c' = drop n (map fst ?ps)"
    using assms(2) by (simp add: cap_log_def ring(1) drop_map same cap_idle_def del: drop_append map_append)
  ultimately have "log_seen c'"
    using assms(1) by (auto simp: log_seen_def same cap_fresh_def simp del: map_append dest!: in_set_dropD)
  moreover have "retain f PhasePre c = (c', Inr ())" by (simp add: retain_def ts(1) c'_def)
  ultimately show thesis using that idle same by blast
qed

lemma retain_capture_ok:
  assumes "cap_fresh f True c" and "cap_open c" and "length (episode_samples (episode c)) < 150"
    and "p \<noteq> PhasePre" and "p = PhaseActive \<Longrightarrow> count_phase PhaseActive (episode_samples (episode c)) < 100"
  obtains c' where "retain f p c = (c', Inr ())" and "cap_open c'" and "log_seen c'"
    and "mc_state c' = mc_state c"
    and "length (episode_samples (episode c')) = Suc (length (episode_samples (episode c)))"
proof -
  from fresh_sample [OF assms(1)] obtain ts where ts: "utc_timestamp (mf_source_epoch_ms f) = Inr ts"
    "\<And>p i. sample_ok (sample_of f ts p i)"
    "\<And>p i. sample_epoch (sample_of f ts p i) = mf_source_epoch_ms f" by blast
  let ?ss = "episode_samples (episode c)"
  let ?new = "sample_of f ts p (length ?ss)"
  define c' where "c' = c\<lparr>episode := (episode c)\<lparr>episode_samples := ?ss @ [?new]\<rparr>\<rparr>"
  have lt: "\<forall>s \<in> set ?ss. cdiv (sample_epoch s) 100 < cdiv (mf_source_epoch_ms f) 100"
    using assms(1) by (auto simp: cap_fresh_def cap_log_def)
  have "episode_shape (?ss @ [?new])"
    by (rule episode_shape_snoc)
       (use assms ts lt in \<open>auto simp: cap_open_def episode_ok_def\<close>, simp_all add: sample_of_def)
  then have "cap_open c'" using assms(2,3) by (simp add: cap_open_def episode_ok_def c'_def)
  moreover have "log_seen c'"
    using assms(1,2) lt ts(3) by (auto simp: log_seen_def cap_log_def c'_def cap_fresh_def cap_open_def)
  moreover have "retain f p c = (c', Inr ())" using assms(3,4) by (simp add: retain_def ts(1) c'_def Let_def)
  ultimately show thesis using that by (simp add: c'_def)
qed

lemma abort_capture_ok:
  assumes "mc_state c \<noteq> StateIdle" and "cap_open c"
  obtains c' where "abort t c = (c', Some ((episode c)\<lparr>episode_terminal_state := t\<rparr>))"
    and "episode_ok ((episode c)\<lparr>episode_terminal_state := t\<rparr>)" and "capture_ok_inv c'"
    and "mc_state c' = StateIdle" and "suppressed c' = (t = TruncatedMaxDuration)"
proof -
  define c' where "c' = fst (abort t c)"
  have "abort t c = (c', Some ((episode c)\<lparr>episode_terminal_state := t\<rparr>))"
    using assms(1) by (simp add: c'_def abort_def Let_def)
  moreover have "episode_ok ((episode c)\<lparr>episode_terminal_state := t\<rparr>)"
    using assms(2) by (simp add: cap_open_def episode_ok_def)
  moreover have "mc_state c' = StateIdle" "pre c' = []" "episode c' = empty_episode"
    "suppressed c' = (t = TruncatedMaxDuration)"
    using assms by (simp_all add: c'_def abort_def Let_def cap_open_def)
  moreover from this have "capture_ok_inv c'"
    by (simp add: capture_ok_inv_def cap_idle_def log_seen_def cap_log_def empty_episode_def)
  ultimately show thesis using that by blast
qed


definition outcome_good :: "capture_outcome \<Rightarrow> bool" where
  "outcome_good = (\<lambda>(c, out). capture_ok_inv c \<and> (\<forall>ep. out = Inr (Some ep) \<longrightarrow> episode_ok ep))"

lemma inv_idle: "mc_state c = StateIdle \<Longrightarrow> capture_ok_inv c \<longleftrightarrow> log_seen c \<and> cap_idle c"
  by (simp add: capture_ok_inv_def)

lemma inv_open:
  "mc_state c \<noteq> StateIdle \<Longrightarrow>
     capture_ok_inv c \<longleftrightarrow> log_seen c \<and> cap_open c \<and> length (episode_samples (episode c)) < 150"
  by (auto simp: capture_ok_inv_def)

lemma no_episode_good: "capture_ok_inv c \<Longrightarrow> outcome_good (no_episode (c, out))"
  by (auto simp: outcome_good_def no_episode_def split: sum.splits)

lemma abort_open_good: "mc_state c \<noteq> StateIdle \<Longrightarrow> cap_open c \<Longrightarrow> outcome_good (ok_outcome (abort t c))"
  by (auto simp: outcome_good_def ok_outcome_def elim!: abort_capture_ok [of c t])

lemma retain_pre_good:
  assumes "cap_fresh f r c" and "log_seen c" and "cap_idle c" and "mc_state c = StateIdle"
  shows "outcome_good (no_episode (retain_if r f PhasePre c))"
proof (cases r)
  case True
  with assms obtain c' where "retain f PhasePre c = (c', Inr ())" "cap_idle c'" "log_seen c'"
    "mc_state c' = StateIdle" by (auto elim!: retain_pre_ok [of f c])
  with True show ?thesis by (simp add: retain_if_def no_episode_good inv_idle)
next
  case False
  with assms show ?thesis by (simp add: retain_if_def no_episode_good inv_idle)
qed

lemma capture_suppressed_good:
  assumes "cap_fresh f r c" and "log_seen c" and "cap_idle c" and "mc_state c = StateIdle"
  shows "outcome_good (capture_suppressed r f c)"
proof -
  obtain h start where u: "hold (mf_clear f) (mf_monotonic_ms f) 500 (suppression_hold c) = (h, start)"
    by fastforce
  have "outcome_good (no_episode (retain_if r f PhasePre
    (if h then c\<lparr>suppression_hold := start, suppressed := False, suppression_hold := None\<rparr>
     else c\<lparr>suppression_hold := start\<rparr>)))"
    by (rule retain_pre_good)
       (use assms in \<open>auto simp: cap_fresh_def log_seen_def cap_idle_def cap_log_def\<close>)
  then show ?thesis by (cases h) (simp_all add: capture_suppressed_def u)
qed

lemma capture_begin_ok:
  assumes "cap_fresh f r c" and "log_seen c" and "cap_idle c" and "\<not> suppressed c"
    and "capture_begin uuid f c = (c', Inr u)"
  shows "cap_fresh f r c'" and "log_seen c'" and "cap_open c'" and "mc_state c' = StateActive"
    and "length (episode_samples (episode c')) \<le> 30"
    and "count_phase PhaseActive (episode_samples (episode c')) = 0"
proof -
  let ?ps = "prune_pre (mf_monotonic_ms f) (pre c)"
  obtain uid where uid: "uuid = Inr uid" using assms(5) by (auto simp: capture_begin_def Let_def split: sum.splits)
  obtain n where n: "?ps = drop n (pre c)" using prune_pre_drop by blast
  have c': "episode_samples (episode c') = numbered ?ps" "pre c' = []" "mc_state c' = StateActive"
    "retained_cadence_hz (episode c') = 10" "previous_source c' = previous_source c"
    "retained_bucket c' = retained_bucket c" "suppressed c' = suppressed c"
    using assms(5) uid by (auto simp: capture_begin_def prune_def Let_def empty_episode_def)
  have ser: "series (map fst ?ps)" unfolding n drop_map [symmetric]
    using assms(3) by (simp add: cap_idle_def series_drop)
  have phases: "list_all (\<lambda>s. sample_phase s = PhasePre) (numbered ?ps)"
    using assms(3) by (intro numbered_pre) (auto simp: n cap_idle_def list_all_iff dest: in_set_dropD)
  note shape = all_pre_shape [OF phases] numbered_series [OF ser]
  have len: "length ?ps \<le> 30" by (rule prune_pre_length)
  have "episode_shape (numbered ?ps)"
    using shape len by (simp add: episode_shape_def numbered_simps)
  then show "cap_open c'"
    using len assms(4) by (simp add: cap_open_def episode_ok_def c' numbered_simps)
  show "mc_state c' = StateActive" by (rule c')
  show "length (episode_samples (episode c')) \<le> 30" using len by (simp add: c' numbered_simps)
  show "count_phase PhaseActive (episode_samples (episode c')) = 0" by (simp add: c' shape)
  have sub: "\<exists>s' \<in> set (cap_log c). sample_epoch s = sample_epoch s'" if "s \<in> set (cap_log c')" for s
    using numbered_epochs [of s ?ps] that by (fastforce simp: cap_log_def c' n dest: in_set_dropD)
  then show "cap_fresh f r c'"
    using assms(1) by (fastforce simp: cap_fresh_def c')
  have "cap_log c' \<noteq> [] \<Longrightarrow> cap_log c \<noteq> []"
    using sub [of "hd (cap_log c')"] by auto
  with sub show "log_seen c'"
    using assms(2) by (fastforce simp: log_seen_def c')
qed

lemma capture_begin_error:
  assumes "log_seen c" and "cap_idle c" and "capture_begin uuid f c = (c', Inl e)"
  shows "log_seen c'" and "cap_idle c'" and "mc_state c' = mc_state c"
proof -
  let ?ps = "prune_pre (mf_monotonic_ms f) (pre c)"
  obtain n where n: "?ps = drop n (pre c)" using prune_pre_drop by blast
  have c': "pre c' = ?ps" "episode c' = empty_episode" "mc_state c' = mc_state c"
    "previous_source c' = previous_source c" "retained_bucket c' = retained_bucket c"
    using assms(3) by (auto simp: capture_begin_def prune_def Let_def split: sum.splits)
  have "series (map fst ?ps)" unfolding n drop_map [symmetric]
    using assms(2) by (simp add: cap_idle_def series_drop)
  then show "cap_idle c'"
    using assms(2) prune_pre_length [of "mf_monotonic_ms f" "pre c"]
    by (auto simp: cap_idle_def c' empty_episode_def n list_all_iff dest: in_set_dropD)
  show "mc_state c' = mc_state c" by (rule c')
  have "set (cap_log c') \<subseteq> set (cap_log c)"
    using assms(2) by (auto simp: cap_log_def c' n empty_episode_def dest: in_set_dropD)
  moreover from this have "cap_log c' \<noteq> [] \<Longrightarrow> cap_log c \<noteq> []" by auto
  ultimately show "log_seen c'" using assms(1) by (fastforce simp: log_seen_def c')
qed

lemma capture_idle_good:
  assumes "cap_fresh f r c" and "log_seen c" and "cap_idle c" and "mc_state c = StateIdle" and "\<not> suppressed c"
  shows "outcome_good (capture_idle uuid r f c)"
proof -
  obtain h start where u: "hold (mf_trigger f) (mf_monotonic_ms f) 200 (trigger_hold c) = (h, start)"
    by fastforce
  define c1 where "c1 = c\<lparr>trigger_hold := start\<rparr>"
  have core: "cap_core c1 = cap_core c" by (simp add: c1_def cap_core_def)
  have c1: "cap_fresh f r c1" "log_seen c1" "cap_idle c1" "mc_state c1 = StateIdle" "\<not> suppressed c1"
    using assms cap_core_cong [OF core] by (simp_all add: c1_def)
  show ?thesis
  proof (cases h)
    case False
    with retain_pre_good [OF c1(1-4)] show ?thesis by (simp add: capture_idle_def u c1_def [symmetric])
  next
    case True
    obtain c2 out where b: "capture_begin uuid f c1 = (c2, out)" by fastforce
    show ?thesis
    proof (cases out)
      case (Inl e)
      from capture_begin_error [OF c1(2,3) b [unfolded Inl]] c1(4) have "capture_ok_inv c2"
        by (simp add: inv_idle)
      with True b Inl show ?thesis by (simp add: capture_idle_def u c1_def [symmetric] outcome_good_def)
    next
      case (Inr x)
      note bo = capture_begin_ok [OF c1(1,2,3,5) b [unfolded Inr]]
      have "outcome_good (no_episode (retain_if r f PhaseActive c2))"
      proof (cases r)
        case True
        with bo obtain c3 where "retain f PhaseActive c2 = (c3, Inr ())" "cap_open c3" "log_seen c3"
          "mc_state c3 = StateActive" "length (episode_samples (episode c3)) < 150"
          by (auto elim!: retain_capture_ok [of f c2 PhaseActive])
        with True show ?thesis by (simp add: retain_if_def no_episode_good inv_open)
      next
        case False
        with bo show ?thesis by (simp add: retain_if_def no_episode_good inv_open)
      qed
      with True b Inr show ?thesis by (simp add: capture_idle_def u c1_def [symmetric])
    qed
  qed
qed


lemma capture_move_core:
  assumes "mc_state c \<noteq> StateIdle"
  shows "case capture_move f c of Inl c1 \<Rightarrow> cap_core c1 = cap_core c \<and> mc_state c1 \<noteq> StateIdle
    | Inr c1 \<Rightarrow> cap_core c1 = cap_core c \<and> mc_state c1 \<noteq> StateIdle"
  using assms by (auto simp: capture_move_def cap_core_def Let_def split: prod.splits if_splits)

lemma retain_if_open_ok:
  assumes "cap_fresh f r c" and "log_seen c" and "cap_open c" and "length (episode_samples (episode c)) < 150"
    and "p \<noteq> PhasePre" and "count_phase PhaseActive (episode_samples (episode c)) < 100"
  obtains c' where "retain_if r f p c = (c', Inr ())" and "cap_open c'" and "log_seen c'"
    and "mc_state c' = mc_state c"
proof (cases r)
  case True
  with assms that show thesis by (auto simp: retain_if_def elim!: retain_capture_ok [of f c p])
next
  case False
  with assms that show thesis by (simp add: retain_if_def)
qed

lemma capture_capturing_good:
  assumes a: "cap_fresh f r c" "log_seen c" "cap_open c" and st: "mc_state c \<noteq> StateIdle"
  shows "outcome_good (capture_capturing r f c)"
proof (cases "capture_over_limit f c")
  case True
  with a st show ?thesis by (simp add: capture_capturing_def abort_open_good)
next
  case False
  then have lim: "length (episode_samples (episode c)) < 150"
    "count_phase PhaseActive (episode_samples (episode c)) < 100"
    by (auto simp: capture_over_limit_def)
  note core = capture_move_core [OF st, of f]
  show ?thesis
  proof (cases "capture_move f c")
    case (Inl c1)
    with core a cap_core_cong [of c1 c] have "cap_open c1" "mc_state c1 \<noteq> StateIdle" by auto
    with False Inl show ?thesis by (simp add: capture_capturing_def abort_open_good)
  next
    case (Inr c1)
    with core have cc: "cap_core c1 = cap_core c" and st1: "mc_state c1 \<noteq> StateIdle" by auto
    from cc lim have lim1: "length (episode_samples (episode c1)) < 150"
      "count_phase PhaseActive (episode_samples (episode c1)) < 100" by (simp_all add: cap_core_def)
    from a cap_core_cong [OF cc] have a1: "cap_fresh f r c1" "log_seen c1" "cap_open c1" by simp_all
    let ?p = "if mc_state c1 = StateActive then PhaseActive else PhasePost"
    have "?p \<noteq> PhasePre" by simp
    from retain_if_open_ok [OF a1 lim1(1) this lim1(2)] obtain c2 where
      c2: "retain_if r f ?p c1 = (c2, Inr ())" "cap_open c2" "log_seen c2" "mc_state c2 = mc_state c1" .
    show ?thesis
    proof (cases "length (episode_samples (episode c2)) \<ge> 150")
      case True
      with False Inr c2 st1 show ?thesis by (simp add: capture_capturing_def abort_open_good)
    next
      case len: False
      with c2 st1 have "capture_ok_inv c2" by (simp add: inv_open)
      with False Inr c2 len show ?thesis by (simp add: capture_capturing_def outcome_good_def)
    qed
  qed
qed

lemma capture_accept:
  assumes ok: "capture_ok_inv c" and f: "model_frame_ok f" and g: "\<not> ingest_gap f c"
    and c1: "c1 = c\<lparr>previous_source := Some (mf_source_epoch_ms f), previous_mono := Some (mf_monotonic_ms f)\<rparr>"
    and r: "r \<longleftrightarrow> retained_bucket c \<noteq> Some (cdiv (mf_source_epoch_ms f) 100)"
    and c2: "c2 = (if r then c1\<lparr>retained_bucket := Some (cdiv (mf_source_epoch_ms f) 100)\<rparr> else c1)"
  shows "cap_fresh f r c2" and "log_seen c2"
proof -
  let ?b = "cdiv (mf_source_epoch_ms f) 100"
  have log: "cap_log c2 = cap_log c" by (simp add: c2 c1 cap_log_def)
  have age: "0 \<le> mf_source_age_ms f" "mf_source_age_ms f \<le> 5000" using g by (auto simp: ingest_gap_def)
  have seen: "cap_log c = [] \<or> (\<exists>b. retained_bucket c = Some b \<and> b \<le> ?b \<and>
      (\<forall>s \<in> set (cap_log c). cdiv (sample_epoch s) 100 \<le> b))"
  proof -
    have "log_seen c" using ok by (simp add: capture_ok_inv_def)
    then consider "cap_log c = []" | b p where "retained_bucket c = Some b" "previous_source c = Some p"
      "b \<le> cdiv p 100" "\<forall>s \<in> set (cap_log c). cdiv (sample_epoch s) 100 \<le> b"
      by (auto simp: log_seen_def)
    then show ?thesis
    proof cases
      case 2
      with g have "p \<le> mf_source_epoch_ms f" by (auto simp: ingest_gap_def)
      then have "cdiv p 100 \<le> ?b" by (rule cdiv_mono) simp
      with 2 show ?thesis by auto
    qed simp
  qed
  have "\<forall>s \<in> set (cap_log c). cdiv (sample_epoch s) 100 < ?b" if r
    using seen that r by fastforce
  then show "cap_fresh f r c2"
    using f age by (auto simp: cap_fresh_def log) (auto simp: c2 c1)
  show "log_seen c2"
  proof -
    have "previous_source c2 = Some (mf_source_epoch_ms f)"
      "retained_bucket c2 = (if r then Some ?b else retained_bucket c)" by (simp_all add: c2 c1)
    with seen show ?thesis unfolding log_seen_def log by (cases r) fastforce+
  qed
qed

lemma capture_ingest_good:
  assumes ok: "capture_ok_inv c" and f: "model_frame_ok f"
  shows "outcome_good (capture_ingest uuid f c)"
proof -
  define c1 where "c1 = c\<lparr>previous_source := Some (mf_source_epoch_ms f), previous_mono := Some (mf_monotonic_ms f)\<rparr>"
  define r where "r \<longleftrightarrow> retained_bucket c \<noteq> Some (cdiv (mf_source_epoch_ms f) 100)"
  define c2 where "c2 = (if r then c1\<lparr>retained_bucket := Some (cdiv (mf_source_epoch_ms f) 100)\<rparr> else c1)"
  show ?thesis
  proof (cases "ingest_gap f c")
    case True
    have "outcome_good (ok_outcome (abort IncompleteSourceGap c1))"
    proof (cases "mc_state c = StateIdle")
      case True
      with ok show ?thesis
        by (simp add: outcome_good_def ok_outcome_def abort_def c1_def inv_idle cap_idle_def log_seen_def cap_log_def)
    next
      case False
      with ok show ?thesis by (intro abort_open_good) (auto simp: c1_def inv_open cap_open_def)
    qed
    with True show ?thesis by (simp add: capture_ingest_def c1_def)
  next
    case False
    note acc = capture_accept [OF ok f False c1_def r_def c2_def]
    have st: "mc_state c2 = mc_state c" "suppressed c2 = suppressed c" by (simp_all add: c2_def c1_def)
    have idle: "mc_state c = StateIdle \<Longrightarrow> cap_idle c2"
      using ok by (simp add: inv_idle cap_idle_def c2_def c1_def)
    have opn: "mc_state c \<noteq> StateIdle \<Longrightarrow> cap_open c2"
      using ok by (simp add: inv_open cap_open_def c2_def c1_def)
    have sup: "suppressed c \<Longrightarrow> mc_state c = StateIdle"
      using ok by (auto simp: capture_ok_inv_def cap_open_def split: if_splits)
    have r_eq: "(retained_bucket c1 = None \<or> retained_bucket c1 \<noteq> Some (cdiv (mf_source_epoch_ms f) 100)) = r"
      by (auto simp: r_def c1_def)
    have "capture_ingest uuid f c =
      (if suppressed c2 then capture_suppressed r f c2
       else if mc_state c2 = StateIdle then capture_idle uuid r f c2 else capture_capturing r f c2)"
      using False unfolding capture_ingest_def Let_def c1_def [symmetric] r_eq by (simp add: c2_def)
    then show ?thesis
      using acc idle opn sup st capture_suppressed_good [OF acc] capture_idle_good [OF acc]
        capture_capturing_good [OF acc] by simp
  qed
qed

datatype CaptureInput = CaptureFrame "string result" ModelFrame | CaptureAbort TerminalState | CaptureReset

definition capture_step :: "ModelCapture \<Rightarrow> CaptureInput \<Rightarrow> ModelCapture \<times> CompletedEpisode option" where
  "capture_step c i =
     (case i of
        CaptureFrame uuid f \<Rightarrow> (case capture_ingest uuid f c of (c', out) \<Rightarrow>
           (c', (case out of Inl _ \<Rightarrow> None | Inr w \<Rightarrow> w)))
      | CaptureAbort t \<Rightarrow> abort t c
      | CaptureReset \<Rightarrow> (reset_demo c, None))"

definition capture_input_ok :: "CaptureInput \<Rightarrow> bool" where
  "capture_input_ok i = (case i of CaptureFrame _ f \<Rightarrow> model_frame_ok f | _ \<Rightarrow> True)"

lemma capture_ok_new: "capture_ok_inv ModelCapture_new"
  by (simp add: ModelCapture_new_def capture_ok_inv_def log_seen_def cap_log_def cap_idle_def empty_episode_def)

lemma abort_good: "capture_ok_inv c \<Longrightarrow> outcome_good (ok_outcome (abort t c))"
  by (cases "mc_state c = StateIdle")
     (auto simp: abort_open_good inv_open, simp add: outcome_good_def ok_outcome_def abort_def inv_idle
        cap_idle_def log_seen_def cap_log_def)

interpretation capture_hold: hold_timer hold
  by unfold_locales (simp_all add: hold_def)

interpretation model_capture: episode_engine capture_step capture_input_ok capture_ok_inv episode_ok
proof
  fix c i
  assume ok: "capture_ok_inv c" and i: "capture_input_ok i"
  have good: "outcome_good (case capture_step c i of (c', w) \<Rightarrow> (c', Inr w))"
  proof (cases i)
    case (CaptureFrame uuid f)
    with capture_ingest_good [OF ok, of f uuid] i show ?thesis
      by (auto simp: capture_step_def capture_input_ok_def outcome_good_def split: prod.splits sum.splits)
  next
    case (CaptureAbort t)
    with abort_good [OF ok, of t] show ?thesis by (simp add: capture_step_def ok_outcome_def)
  next
    case CaptureReset
    then show ?thesis by (simp add: capture_step_def reset_demo_def outcome_good_def capture_ok_new)
  qed
  then show "capture_ok_inv (fst (capture_step c i))" by (simp add: outcome_good_def split: prod.splits)
  show "snd (capture_step c i) = Some w \<Longrightarrow> episode_ok w" for w
    using good by (auto simp: outcome_good_def split: prod.splits)
qed


section \<open>Properties\<close>

text \<open>
  C12. Whatever frames (assembled before the year 10000), aborts and demo resets a new capture
  receives, every episode it hands over has at most 150 samples numbered from 0, in the 10 Hz
  cadence with at most one per 100 ms bucket, each complete, fresh, in range and with an accepted
  timestamp, the PRE samples first, at most 30 of them and at most 100 ACTIVE ones.
\<close>

theorem every_episode_ok:
  assumes "list_all capture_input_ok inputs"
  shows "list_all episode_ok (snd (run capture_step ModelCapture_new inputs))"
  by (rule model_capture.run_good [OF capture_ok_new assms])

lemma bucket_less_epoch: "cdiv a 100 < cdiv b 100 \<Longrightarrow> a < b"
  using cdiv_mono [of b a 100] by (cases "a < b") auto

lemma sample_order:
  assumes "sample_ok a" and "sample_ok b" and "cdiv (sample_epoch a) 100 < cdiv (sample_epoch b) 100"
  shows "sample_timestamp a < sample_timestamp b"
proof -
  have rfc: "is_rfc3339_millisecond_utc (sample_timestamp a)" "is_rfc3339_millisecond_utc (sample_timestamp b)"
    using assms by (auto simp: sample_ok_def)
  then have "timestamp_milliseconds (sample_timestamp a) = Inr (sample_epoch a)"
    "timestamp_milliseconds (sample_timestamp b) = Inr (sample_epoch b)"
    by (simp_all add: timestamp_milliseconds_eq sample_epoch_def)
  from timestamp_less_iff [OF rfc this] bucket_less_epoch [OF assms(3)] show ?thesis by simp
qed

lemma series_times:
  assumes "series ss" and "map sample_index ss = [i..<i + length ss]"
    and "case prev of None \<Rightarrow> True | Some p \<Rightarrow> \<forall>s \<in> set ss. p < sample_timestamp s"
  shows "times_acceptable i prev ss"
  using assms
proof (induction ss arbitrary: i prev)
  case Nil
  then show ?case by simp
next
  case (Cons s ss)
  have s: "sample_ok s" "series ss" "sample_index s = i" "map sample_index ss = [Suc i..<Suc i + length ss]"
    using Cons.prems(1,2) upt_conv_Cons [of i "i + length (s # ss)"]
    by (auto simp: series_def simp del: upt_Suc)
  have "sample_timestamp s < sample_timestamp a" if a: "a \<in> set ss" for a
  proof -
    have "sample_ok a" "cdiv (sample_epoch s) 100 < cdiv (sample_epoch a) 100"
      using Cons.prems(1) a by (auto simp: series_def list_all_iff)
    with s(1) show ?thesis by (blast intro: sample_order)
  qed
  then have "times_acceptable (Suc i) (Some (sample_timestamp s)) ss"
    using s by (intro Cons.IH) auto
  with s Cons.prems(3) show ?case
    by (auto simp: sample_ok_def not_le split: option.splits)
qed

text \<open>
  C11. The model never rejects what the capture produced for a reason the capture rules out: on every
  eligible state the evaluation of an episode of a run returns, and it is never skipped as stale,
  non-finite, out of range or non-monotonic.
\<close>

theorem captured_episode_skips:
  assumes "list_all capture_input_ok inputs"
    and "ep \<in> set (snd (run capture_step ModelCapture_new inputs))" and "state_eligible c"
  shows "\<exists>ev. evaluate ep c = Inr ev \<and>
    skip_reason ev \<notin> {Some StaleSample, Some NonFiniteValue, Some OutOfRangeValue, Some NonMonotonicSourceTime}"
proof -
  from model_capture.run_good [OF capture_ok_new assms(1)] assms(2) have "episode_ok ep"
    by (simp add: list_all_iff)
  then have sh: "episode_shape (episode_samples ep)" by (simp add: episode_ok_def)
  have "times_acceptable 0 None (episode_samples ep)"
    using sh by (intro series_times) (auto simp: episode_shape_def)
  moreover have "list_all sample_ok (episode_samples ep)" using sh by (simp add: episode_shape_def series_def)
  ultimately have "skip_of ep \<notin> {Some StaleSample, Some NonFiniteValue, Some OutOfRangeValue, Some NonMonotonicSourceTime}"
    by (auto simp: skip_of_def Let_def sample_ok_def list_all_iff split: if_splits)
  with evaluate_skip [OF assms(3), of ep] show ?thesis by metis
qed

lemma std_round_of_int [simp]: "std_round (of_int k) = k"
proof -
  have "\<lfloor>of_int j + 1 / 2 :: rat\<rfloor> = j" for j by linarith
  from this [of k] this [of "- k"] show ?thesis by (simp add: std_round_def)
qed

lemma std_round_mono: "p \<le> q \<Longrightarrow> std_round p \<le> std_round q"
  unfolding std_round_def by (auto; linarith)

lemma quantize_range:
  assumes "- 1000000 \<le> a" and "b \<le> 1000000"
  shows "case quantize_milli v (of_int a) (of_int b) of Inr r \<Rightarrow> in_range r (a * 1000) (b * 1000)
    | Inl e \<Rightarrow> \<exists>m. e = Invalid_argument m"
proof (cases v)
  case (Fin q)
  show ?thesis
  proof (cases "of_int a \<le> q \<and> q \<le> of_int b")
    case True
    then have "of_int (a * 1000) \<le> q * 1000" "q * 1000 \<le> of_int (b * 1000)" by simp_all
    from std_round_mono [OF this(1)] std_round_mono [OF this(2)]
    have "a * 1000 \<le> std_round (q * 1000)" "std_round (q * 1000) \<le> b * 1000"
      by (simp_all only: std_round_of_int)
    with True assms Fin show ?thesis
      by (simp add: quantize_milli_def in_range_def i64_min_def i64_max_def Let_def)
  qed (auto simp: Fin quantize_milli_def)
qed (simp_all add: quantize_milli_def)

lemma quantize_Inr:
  "quantize_milli v (of_int a) (of_int b) = Inr r \<Longrightarrow> - 1000000 \<le> a \<Longrightarrow> b \<le> 1000000 \<Longrightarrow>
     in_range r (a * 1000) (b * 1000)"
  using quantize_range [of a b v] by simp

lemma quantize_Inl:
  "quantize_milli v (of_int a) (of_int b) = Inl e \<Longrightarrow> - 1000000 \<le> a \<Longrightarrow> b \<le> 1000000 \<Longrightarrow>
     \<exists>m. e = Invalid_argument m"
  using quantize_range [of a b v] by simp

lemma quantize_all_valid: "quantize_all vs = Inr s \<Longrightarrow> signal_range_valid s"
  using quantize_Inr [of _ 0 1000] quantize_Inr [of _ "- 100" 100] quantize_Inr [of _ 0 100]
    quantize_Inr [of _ "- 360" 360] quantize_Inr [of _ "- 10000" 10000]
  by (auto simp: quantize_all_def Let_def bindE_eq_Inr signal_range_valid_def)

lemma quantize_all_error: "quantize_all vs = Inl e \<Longrightarrow> \<exists>m. e = Invalid_argument m"
  using quantize_Inl [of _ 0 1000 e] quantize_Inl [of _ "- 100" 100 e] quantize_Inl [of _ 0 100 e]
    quantize_Inl [of _ "- 360" 360 e] quantize_Inl [of _ "- 10000" 10000 e]
  by (auto simp: quantize_all_def Let_def bindE_eq_Inl)

text \<open>A frame that the completeness rule accepts is in range: its twelve signals are quantised into
  the ranges the model accepts, its source time is non-negative, newer than the previous one and
  at most 5000 ms before the wall clock, and quantisation never raises out of it.
\<close>

theorem complete_model_frame_sound:
  assumes "length vs = 12"
  shows "\<exists>r. complete_model_frame vs wall mono_ms previous = Inr r \<and>
    (case r of None \<Rightarrow> True
     | Some f \<Rightarrow> signal_range_valid (mf_signals f) \<and> 0 \<le> mf_source_epoch_ms f \<and>
         previous < mf_source_epoch_ms f \<and> mf_source_epoch_ms f \<le> wall \<and>
         wall - mf_source_epoch_ms f \<le> mf_source_age_ms f \<and>
         0 \<le> mf_source_age_ms f \<and> mf_source_age_ms f \<le> 5000 \<and> mf_monotonic_ms f = mono_ms)"
proof -
  let ?es = "map sig_epoch_ms vs"
  have ne: "?es \<noteq> []" using assms by auto
  have mm: "min_of ?es \<le> max_of ?es"
    unfolding max_of_set [OF ne] min_of_set [OF ne] using ne by (intro Min_le Max_in) auto
  show ?thesis
  proof (cases "quantize_all vs")
    case (Inl e)
    with quantize_all_error [OF Inl] show ?thesis by (auto simp: complete_model_frame_def Let_def)
  next
    case (Inr s)
    with quantize_all_valid [OF Inr] mm show ?thesis
      by (auto simp: complete_model_frame_def Let_def)
  qed
qed


text \<open>A v1 frame assembled from six signals before the year 10000 is accepted by the validator
  except for a signal out of its range or a clock that runs backwards: it is never incomplete,
  malformed, non-finite, in the future or stale.
\<close>

theorem complete_frame_validation:
  assumes "complete_frame vs wall mono_ms previous = Inr (Some f)" and "length vs = 6" and "wall < year_10000_ms"
  shows "error (validate f pe pm) \<in> {ErrorNone, ErrorOutOfRange, ErrorReordered}"
proof -
  obtain a b c d g h where vs: "vs = [a, b, c, d, g, h]"
    using assms(2) by (auto simp: numeral_eq_Suc length_Suc_conv)
  obtain ts where ts: "utc_timestamp (sig_epoch_ms a) = Inr ts" and f: "source_timestamp f = ts"
    and age: "0 \<le> max_source_age_ms f" "max_source_age_ms f \<le> 5000" and q: "quality f = QualityValidCompleteFrame"
    and fin: "isfinite (speed_kph f)" "isfinite (longitudinal_acceleration_mps2 f)"
      "isfinite (lateral_acceleration_mps2 f)" "isfinite (vertical_acceleration_mps2 f)"
    and e: "sig_epoch_ms a \<le> wall"
    using assms(1) by (auto simp: complete_frame_def vs Let_def bindE_eq_Inr kMaximumSourceAgeMs_def split: if_splits)
  have "0 \<le> sig_epoch_ms a" using ts by (auto simp: utc_timestamp_def split: if_splits)
  with e assms(3) ts have "is_rfc3339_millisecond_utc ts"
    by (auto elim!: utc_timestamp_ok [of "sig_epoch_ms a"])
  with f age q fin show ?thesis by (simp add: validate_def kMaximumSourceAgeMs_def)
qed

section \<open>Concrete runs\<close>

definition demo_model_frame :: "int \<Rightarrow> int \<Rightarrow> ModelFrame" where
  "demo_model_frame t brake = \<lparr>mf_signals = (demo_signals 60000)\<lparr>brake_effort_milli_percent := brake\<rparr>,
     mf_source_epoch_ms = t, mf_monotonic_ms = t, mf_source_age_ms = 10\<rparr>"

definition demo_capture_inputs :: "CaptureInput list" where
  "demo_capture_inputs =
     [CaptureFrame (Inr demo_id) (demo_model_frame 0 60000), CaptureFrame (Inr demo_id) (demo_model_frame 100 60000),
      CaptureFrame (Inr demo_id) (demo_model_frame 200 60000), CaptureAbort AbortedServiceStop]"

definition demo_captured :: "CompletedEpisode list" where
  "demo_captured = snd (run capture_step ModelCapture_new demo_capture_inputs)"

lemma demo_capture_inputs_ok: "list_all capture_input_ok demo_capture_inputs"
  by code_simp

theorem every_episode_ok_witness:
  "length demo_captured = 1 \<and> list_all episode_ok demo_captured"
proof
  show "length demo_captured = 1" by code_simp
  show "list_all episode_ok demo_captured"
    unfolding demo_captured_def by (rule every_episode_ok [OF demo_capture_inputs_ok])
qed

text \<open>
  A short braking seen at a low frame rate: the capture hands over a complete episode that passes
  the checks up to the number of its ACTIVE samples.
\<close>

definition short_inputs :: "CaptureInput list" where
  "short_inputs = map (\<lambda>t. CaptureFrame (Inr demo_id) (demo_model_frame t (if t \<le> 200 then 60000 else 0))) [0, 200, 300, 800, 2800]"

definition short_captured :: "CompletedEpisode list" where
  "short_captured = snd (run capture_step ModelCapture_new short_inputs)"

theorem captured_episode_skips_witness:
  "\<exists>ep ev. short_captured = [ep] \<and> episode_terminal_state ep = Complete \<and> length (episode_samples ep) = 4 \<and>
     evaluate ep demo_state = Inr ev \<and> skip_reason ev = Some InsufficientActiveSamples \<and>
     skip_reason ev \<notin> {Some StaleSample, Some NonFiniteValue, Some OutOfRangeValue, Some NonMonotonicSourceTime}"
proof -
  have inputs: "list_all capture_input_ok short_inputs" by code_simp
  have "(case short_captured of [ep] \<Rightarrow> episode_terminal_state ep = Complete \<and> length (episode_samples ep) = 4 \<and>
      (case evaluate ep demo_state of Inr ev \<Rightarrow> skip_reason ev = Some InsufficientActiveSamples | Inl _ \<Rightarrow> False)
    | _ \<Rightarrow> False)" by code_simp
  then obtain ep ev where ep: "short_captured = [ep]" "episode_terminal_state ep = Complete" "length (episode_samples ep) = 4"
      "evaluate ep demo_state = Inr ev" "skip_reason ev = Some InsufficientActiveSamples"
    by (auto split: list.splits sum.splits)
  with captured_episode_skips [OF inputs, folded short_captured_def, of ep, OF _ demo_state_eligible] show ?thesis by auto
qed

definition demo_twelve :: "Signal list" where
  "demo_twelve = map (\<lambda>q. \<lparr>sig_value = Fin q, sig_epoch_ms = 1000, sig_valid = True\<rparr>)
     [50, - 3, 60, 1 / 2, 900, 900, 900, 900, 50, 50, 50, 50]"

theorem complete_model_frame_sound_witness:
  "\<exists>f. complete_model_frame demo_twelve 1010 5 0 = Inr (Some f) \<and> signal_range_valid (mf_signals f) \<and>
     mf_source_age_ms f \<le> 5000"
proof -
  have "length demo_twelve = 12" by code_simp
  moreover have "case complete_model_frame demo_twelve 1010 5 0 of Inl _ \<Rightarrow> False | Inr r \<Rightarrow> r \<noteq> None" by code_simp
  ultimately show ?thesis using complete_model_frame_sound [of demo_twelve 1010 5 0] by auto
qed

definition demo_six :: "Signal list" where
  "demo_six = map (\<lambda>q. \<lparr>sig_value = Fin q, sig_epoch_ms = 1000, sig_valid = True\<rparr>) [50, - 3, 0, 0, 0, 60]"

theorem complete_frame_validation_witness:
  "\<exists>f. complete_frame demo_six 1010 5 0 = Inr (Some f) \<and>
     error (validate f None None) \<in> {ErrorNone, ErrorOutOfRange, ErrorReordered}"
proof -
  have "case complete_frame demo_six 1010 5 0 of Inl _ \<Rightarrow> False | Inr r \<Rightarrow> r \<noteq> None" by code_simp
  then obtain f where f: "complete_frame demo_six 1010 5 0 = Inr (Some f)" by (auto split: sum.splits)
  moreover have "length demo_six = 6" by code_simp
  ultimately show ?thesis using complete_frame_validation [OF f] by (simp add: year_10000_ms_def)
qed

end
