(* ===== verification/Sha.thy ===== *)
theory Sha
  imports Identifiers
begin

text \<open>
  The two hash functions the service implements itself: SHA-256 (\<^verbatim>\<open>src/v1/sha256.cpp\<close>) and the
  SHA-1 of the v2 message layer (\<^verbatim>\<open>src/v2/messages.cpp\<close>), on 32-bit words with the wrapping
  addition of the source, and the hexadecimal text of a digest.
\<close>

unbundle bit_operations_syntax

section \<open>Words and blocks\<close>

type_synonym u32 = "32 word"

definition rotate_right :: "u32 \<Rightarrow> nat \<Rightarrow> u32" where
  "rotate_right v n = (drop_bit n v OR push_bit (32 - n) v)"

definition rotate_left :: "u32 \<Rightarrow> nat \<Rightarrow> u32" where
  "rotate_left v n = (push_bit n v OR drop_bit (32 - n) v)"

text \<open>The bytes of a \<open>std::string_view\<close>.\<close>

definition bytes_of :: "string \<Rightarrow> nat list" where
  "bytes_of s = map code s"

text \<open>\<open>while (message.size() % 64U != 56U) message.push_back(0U)\<close>\<close>

function pad_zeros :: "nat list \<Rightarrow> nat list" where
  "pad_zeros message =
     (if length message mod 64 \<noteq> 56 then pad_zeros (message @ [0]) else message)"
  by auto

definition zeros_left :: "nat \<Rightarrow> nat" where
  "zeros_left n = (if n mod 64 \<le> 56 then 56 - n mod 64 else 120 - n mod 64)"

termination pad_zeros
proof (relation "measure (\<lambda>message. zeros_left (length message))")
  fix message :: "nat list"
  assume "length message mod 64 \<noteq> 56"
  then show "(message @ [0], message) \<in> measure (\<lambda>message. zeros_left (length message))"
    using mod_less_divisor [of 64 "length message"] by (auto simp: zeros_left_def mod_Suc)
qed simp

declare pad_zeros.simps [simp del]

definition length_bytes :: "nat \<Rightarrow> nat list" where
  "length_bytes bit_length = map (\<lambda>shift. bit_length div 2 ^ shift mod 256) [56, 48, 40, 32, 24, 16, 8, 0]"

definition padded :: "nat list \<Rightarrow> nat list" where
  "padded message = pad_zeros (message @ [128]) @ length_bytes (u64 (length message * 8))"

definition word_at :: "nat list \<Rightarrow> nat \<Rightarrow> u32" where
  "word_at message at =
     (push_bit 24 (of_nat (message ! at)) OR push_bit 16 (of_nat (message ! (at + 1))) OR
      push_bit 8 (of_nat (message ! (at + 2))) OR of_nat (message ! (at + 3)))"

definition block_words :: "nat list \<Rightarrow> nat \<Rightarrow> u32 list" where
  "block_words message offset = map (\<lambda>index. word_at message (offset + index * 4)) [0..<16]"

text \<open>A schedule loop appends words computed from the ones before.\<close>

primrec extend_words :: "nat \<Rightarrow> (u32 list \<Rightarrow> u32) \<Rightarrow> u32 list \<Rightarrow> u32 list" where
  "extend_words 0 next_word ws = ws"
| "extend_words (Suc n) next_word ws = extend_words n next_word (ws @ [next_word ws])"

definition word_bytes :: "u32 \<Rightarrow> nat list" where
  "word_bytes w = [unat (drop_bit 24 w AND 255), unat (drop_bit 16 w AND 255),
                   unat (drop_bit 8 w AND 255), unat (w AND 255)]"

text \<open>\<open>for (offset = 0; offset < message.size(); offset += 64U)\<close>\<close>

definition fold_blocks :: "(u32 list \<Rightarrow> u32 list \<Rightarrow> u32 list) \<Rightarrow> nat list \<Rightarrow> u32 list \<Rightarrow> u32 list" where
  "fold_blocks compress message state =
     foldl (\<lambda>st k. compress st (block_words message (k * 64))) state [0..<(length message + 63) div 64]"

section \<open>SHA-256\<close>

text \<open>The table, by the lines of the source.\<close>

definition round_constants :: "u32 list" where
  "round_constants = concat
    [[0x428a2f98, 0x71374491, 0xb5c0fbcf, 0xe9b5dba5, 0x3956c25b, 0x59f111f1],
     [0x923f82a4, 0xab1c5ed5, 0xd807aa98, 0x12835b01, 0x243185be, 0x550c7dc3],
     [0x72be5d74, 0x80deb1fe, 0x9bdc06a7, 0xc19bf174, 0xe49b69c1, 0xefbe4786],
     [0x0fc19dc6, 0x240ca1cc, 0x2de92c6f, 0x4a7484aa, 0x5cb0a9dc, 0x76f988da],
     [0x983e5152, 0xa831c66d, 0xb00327c8, 0xbf597fc7, 0xc6e00bf3, 0xd5a79147],
     [0x06ca6351, 0x14292967, 0x27b70a85, 0x2e1b2138, 0x4d2c6dfc, 0x53380d13],
     [0x650a7354, 0x766a0abb, 0x81c2c92e, 0x92722c85, 0xa2bfe8a1, 0xa81a664b],
     [0xc24b8b70, 0xc76c51a3, 0xd192e819, 0xd6990624, 0xf40e3585, 0x106aa070],
     [0x19a4c116, 0x1e376c08, 0x2748774c, 0x34b0bcb5, 0x391c0cb3, 0x4ed8aa4a],
     [0x5b9cca4f, 0x682e6ff3, 0x748f82ee, 0x78a5636f, 0x84c87814, 0x8cc70208],
     [0x90befffa, 0xa4506ceb, 0xbef9a3f7, 0xc67178f2]]"

definition sha256_next :: "u32 list \<Rightarrow> u32" where
  "sha256_next ws =
     (let index = length ws;
          w15 = ws ! (index - 15); w2 = ws ! (index - 2);
          s0 = (rotate_right w15 7 XOR rotate_right w15 18 XOR drop_bit 3 w15);
          s1 = (rotate_right w2 17 XOR rotate_right w2 19 XOR drop_bit 10 w2)
      in ws ! (index - 16) + s0 + ws ! (index - 7) + s1)"

type_synonym sha256_vars = "u32 \<times> u32 \<times> u32 \<times> u32 \<times> u32 \<times> u32 \<times> u32 \<times> u32"

definition sha256_round :: "sha256_vars \<Rightarrow> u32 \<times> u32 \<Rightarrow> sha256_vars" where
  "sha256_round = (\<lambda>(a, b, c, d, e, f, g, h) (constant, word).
     let s1 = (rotate_right e 6 XOR rotate_right e 11 XOR rotate_right e 25);
         choice = ((e AND f) XOR (NOT e AND g));
         temporary1 = h + s1 + choice + constant + word;
         s0 = (rotate_right a 2 XOR rotate_right a 13 XOR rotate_right a 22);
         majority = ((a AND b) XOR (a AND c) XOR (b AND c));
         temporary2 = s0 + majority
     in (temporary1 + temporary2, a, b, c, d + temporary1, e, f, g))"

definition sha256_compress :: "u32 list \<Rightarrow> u32 list \<Rightarrow> u32 list" where
  "sha256_compress state block =
     (let words = extend_words 48 sha256_next block;
          (a, b, c, d, e, f, g, h) =
            foldl sha256_round (state ! 0, state ! 1, state ! 2, state ! 3, state ! 4, state ! 5, state ! 6, state ! 7)
              (zip round_constants words)
      in [state ! 0 + a, state ! 1 + b, state ! 2 + c, state ! 3 + d,
          state ! 4 + e, state ! 5 + f, state ! 6 + g, state ! 7 + h])"

definition sha256_initial :: "u32 list" where
  "sha256_initial = [0x6a09e667, 0xbb67ae85, 0x3c6ef372, 0xa54ff53a,
                     0x510e527f, 0x9b05688c, 0x1f83d9ab, 0x5be0cd19]"

definition sha256 :: "string \<Rightarrow> nat list" where
  "sha256 input =
     concat (map word_bytes (fold_blocks sha256_compress (padded (bytes_of input)) sha256_initial))"

definition hex_encode :: "nat list \<Rightarrow> string" where
  "hex_encode digest = concat (map encode_byte digest)"

definition sha256_hex :: "string \<Rightarrow> string" where
  "sha256_hex input = hex_encode (sha256 input)"

fun hex_decode_loop :: "string \<Rightarrow> nat list result" where
  "hex_decode_loop (h # l # rest) =
     (if hex_value h < 0 \<or> hex_value l < 0
      then Inl (Invalid_argument ''SHA-256 hex value must be lowercase hexadecimal'')
      else bindE (hex_decode_loop rest) (\<lambda>bs. Inr (nat (hex_value h * 16 + hex_value l) # bs)))"
| "hex_decode_loop _ = Inr []"

definition hex_decode_sha256 :: "string \<Rightarrow> nat list result" where
  "hex_decode_sha256 v =
     (if length v \<noteq> 64 then Inl (Invalid_argument ''SHA-256 hex value must contain 64 characters'')
      else hex_decode_loop v)"

section \<open>SHA-1\<close>

definition sha1_next :: "u32 list \<Rightarrow> u32" where
  "sha1_next ws =
     (let index = length ws
      in rotate_left (ws ! (index - 3) XOR ws ! (index - 8) XOR ws ! (index - 14) XOR ws ! (index - 16)) 1)"

type_synonym sha1_vars = "u32 \<times> u32 \<times> u32 \<times> u32 \<times> u32"

definition sha1_round :: "sha1_vars \<Rightarrow> nat \<times> u32 \<Rightarrow> sha1_vars" where
  "sha1_round = (\<lambda>(a, b, c, d, e) (index, word).
     let (fun_value, constant) =
           (if index < 20 then ((b AND c) OR (NOT b AND d), 0x5a827999)
            else if index < 40 then (b XOR c XOR d, 0x6ed9eba1)
            else if index < 60 then ((b AND c) OR (b AND d) OR (c AND d), 0x8f1bbcdc)
            else (b XOR c XOR d, 0xca62c1d6));
         temporary = rotate_left a 5 + fun_value + e + constant + word
     in (temporary, a, rotate_left b 30, c, d))"

definition sha1_compress :: "u32 list \<Rightarrow> u32 list \<Rightarrow> u32 list" where
  "sha1_compress state block =
     (let words = extend_words 64 sha1_next block;
          (a, b, c, d, e) =
            foldl sha1_round (state ! 0, state ! 1, state ! 2, state ! 3, state ! 4)
              (zip [0..<length words] words)
      in [state ! 0 + a, state ! 1 + b, state ! 2 + c, state ! 3 + d, state ! 4 + e])"

definition sha1_initial :: "u32 list" where
  "sha1_initial = [0x67452301, 0xefcdab89, 0x98badcfe, 0x10325476, 0xc3d2e1f0]"

definition sha1 :: "string \<Rightarrow> nat list" where
  "sha1 input =
     concat (map word_bytes (fold_blocks sha1_compress (padded (bytes_of input)) sha1_initial))"

section \<open>Padding\<close>

lemma pad_zeros_eq: "pad_zeros m = m @ replicate (zeros_left (length m)) 0"
proof (induction m rule: pad_zeros.induct)
  case (1 m)
  show ?case
  proof (cases "length m mod 64 = 56")
    case True
    then show ?thesis by (subst pad_zeros.simps) (simp add: zeros_left_def)
  next
    case False
    have "zeros_left (length m) = Suc (zeros_left (length (m @ [0])))"
      using False mod_less_divisor [of 64 "length m"] by (auto simp: zeros_left_def mod_Suc)
    then show ?thesis using False 1 by (subst pad_zeros.simps) (simp add: replicate_append_same)
  qed
qed

lemma zeros_left_mod: "(n + zeros_left n) mod 64 = 56"
proof -
  have "(n + zeros_left n) mod 64 = (n mod 64 + zeros_left n) mod 64" by (simp add: mod_add_left_eq)
  also have "\<dots> = 56" using mod_less_divisor [of 64 n] by (auto simp: zeros_left_def)
  finally show ?thesis .
qed

lemma length_length_bytes [simp]: "length (length_bytes n) = 8"
  by (simp add: length_bytes_def)

lemma padded_eq:
  "padded m = m @ 128 # replicate (zeros_left (length m + 1)) 0 @ length_bytes (u64 (length m * 8))"
  by (simp add: padded_def pad_zeros_eq)

lemma length_padded: "length (padded m) = length m + 1 + zeros_left (length m + 1) + 8"
  by (simp add: padded_eq)

lemma length_padded_mod: "length (padded m) mod 64 = 0"
proof -
  have "length (padded m) mod 64 = ((length m + 1 + zeros_left (length m + 1)) mod 64 + 8) mod 64"
    unfolding length_padded by (simp add: mod_add_left_eq)
  then show ?thesis by (simp only: zeros_left_mod) simp
qed

lemma length_bytes_inj:
  assumes "m < 2 ^ 64" and "n < 2 ^ 64" and "length_bytes m = length_bytes n"
  shows "m = n"
proof -
  have split: "(\<Sum>i < 8. (k div 2 ^ (8 * i) mod 256) * 2 ^ (8 * i)) = k" if "k < 2 ^ 64" for k :: nat
  proof -
    have "(\<Sum>i < j. (k div 2 ^ (8 * i) mod 256) * 2 ^ (8 * i)) = k mod 2 ^ (8 * j)" for j
    proof (induction j)
      case (Suc j)
      have "k mod 2 ^ (8 * Suc j) = 2 ^ (8 * j) * (k div 2 ^ (8 * j) mod 256) + k mod 2 ^ (8 * j)"
      proof -
        have "(2 :: nat) ^ (8 * Suc j) = 2 ^ (8 * j) * 256" by (simp add: power_add)
        then show ?thesis by (simp only: mod_mult2_eq)
      qed
      with Suc show ?case by (simp add: mult.commute)
    qed simp
    from this [of 8] that show ?thesis by simp
  qed
  have "(\<Sum>i < 8. (m div 2 ^ (8 * i) mod 256) * 2 ^ (8 * i)) = (\<Sum>i < 8. (n div 2 ^ (8 * i) mod 256) * 2 ^ (8 * i))"
  proof (rule sum.cong [OF refl])
    fix i :: nat
    assume "i \<in> {..<8}"
    then have "i = 0 \<or> i = 1 \<or> i = 2 \<or> i = 3 \<or> i = 4 \<or> i = 5 \<or> i = 6 \<or> i = 7" by auto
    then have "8 * i \<in> set [56, 48, 40, 32, 24, 16, 8, 0]" by auto
    with assms(3) have "m div 2 ^ (8 * i) mod 256 = n div 2 ^ (8 * i) mod 256"
      unfolding length_bytes_def map_eq_conv by blast
    then show "(m div 2 ^ (8 * i) mod 256) * 2 ^ (8 * i) = (n div 2 ^ (8 * i) mod 256) * 2 ^ (8 * i)" by simp
  qed
  then show ?thesis
    by (rule trans [OF split [OF assms(1), symmetric] trans [OF _ split [OF assms(2)]]])
qed

text \<open>The padding of both hash functions ends on a block boundary, so that every word the block loop
  reads lies inside the message, and it is injective on messages shorter than \<open>2 ^ 61\<close> bytes: two
  different inputs never hash the same padded blocks.
\<close>

theorem padded_injective:
  assumes "length a < 2 ^ 61" and "length b < 2 ^ 61"
  shows "length (padded a) mod 64 = 0 \<and> (padded a = padded b \<longrightarrow> a = b)"
proof (intro conjI impI)
  assume eq: "padded a = padded b"
  let ?pre = "\<lambda>m. m @ 128 # replicate (zeros_left (length m + 1)) 0"
  have form: "padded m = ?pre m @ length_bytes (u64 (length m * 8))" for m
    by (simp add: padded_eq)
  from eq have "length_bytes (u64 (length a * 8)) = length_bytes (u64 (length b * 8))"
    unfolding form by (rule append_eq_append_conv [THEN iffD1, THEN conjunct2, rotated]) simp
  then have "u64 (length a * 8) = u64 (length b * 8)"
    by (rule length_bytes_inj [rotated 2]) (simp_all add: u64_def)
  with assms have "length a = length b" by simp
  with eq show "a = b" by (simp add: padded_eq)
qed (rule length_padded_mod)

theorem padded_injective_witness:
  "length (padded [97, 98, 99]) mod 64 = 0 \<and> padded [97, 98, 99] \<noteq> padded [97, 98]"
  using padded_injective [of "[97, 98, 99]" "[97, 98]"] by simp

section \<open>Digests as text\<close>

lemma word_bytes_range: "length (word_bytes w) = 4 \<and> list_all (\<lambda>b. b < 256) (word_bytes w)"
proof -
  have "unat (x AND 255 :: u32) < 256" for x
  proof -
    have "x AND 255 \<le> (255 :: u32)" by (rule word_and_le1)
    then have "unat (x AND 255) \<le> unat (255 :: u32)" by (simp only: word_le_nat_alt)
    then show ?thesis by simp
  qed
  then show ?thesis by (simp add: word_bytes_def)
qed

lemma compress_lengths:
  "length (sha256_compress st bl) = 8" "length (sha1_compress st bl) = 5"
  by (simp_all add: sha256_compress_def sha1_compress_def Let_def split: prod.splits)

lemma fold_blocks_length:
  assumes "\<And>st bl. length (compress st bl) = n" and "length st = n"
  shows "length (fold_blocks compress m st) = n"
proof -
  have "length (foldl (\<lambda>st k. compress st (block_words m (k * 64))) st ks) = n" if "length st = n" for ks st
    using that by (induction ks arbitrary: st) (simp_all add: assms(1))
  with assms(2) show ?thesis by (simp add: fold_blocks_def)
qed

lemma concat_word_bytes:
  "length (concat (map word_bytes ws)) = 4 * length ws \<and> list_all (\<lambda>b. b < 256) (concat (map word_bytes ws))"
  by (induction ws) (simp_all add: word_bytes_range)

lemma sha256_digest: "length (sha256 s) = 32 \<and> list_all (\<lambda>b. b < 256) (sha256 s)"
  using concat_word_bytes [of "fold_blocks sha256_compress (padded (bytes_of s)) sha256_initial"]
    fold_blocks_length [of sha256_compress 8 sha256_initial] compress_lengths(1)
  by (simp add: sha256_def sha256_initial_def)

lemma sha1_digest: "length (sha1 s) = 20 \<and> list_all (\<lambda>b. b < 256) (sha1 s)"
  using concat_word_bytes [of "fold_blocks sha1_compress (padded (bytes_of s)) sha1_initial"]
    fold_blocks_length [of sha1_compress 5 sha1_initial] compress_lengths(2)
  by (simp add: sha1_def sha1_initial_def)

lemma hex_encode_Cons [simp]: "hex_encode (b # bs) = encode_byte b @ hex_encode bs"
  by (simp add: hex_encode_def)

lemma hex_encode_Nil [simp]: "hex_encode [] = []"
  by (simp add: hex_encode_def)

lemma hex_encode_text:
  "list_all (\<lambda>b. b < 256) bs \<Longrightarrow> length (hex_encode bs) = 2 * length bs \<and> list_all is_lower_hex (hex_encode bs)"
  by (induction bs) (auto simp: encode_byte_def)

lemma sha256_hex_lowercase: "lowercase_sha256 (sha256_hex s)"
  using sha256_digest [of s] hex_encode_text [of "sha256 s"]
  by (simp add: lowercase_sha256_def sha256_hex_def)

lemma hex_decode_loop_encode:
  "list_all (\<lambda>b. b < 256) bs \<Longrightarrow> hex_decode_loop (hex_encode bs) = Inr bs"
proof (induction bs)
  case (Cons b bs)
  have "nat (int (b div 16) * 16 + int (b mod 16)) = b" using div_mult_mod_eq [of b 16] by linarith
  moreover from Cons.prems have "b div 16 < 16" by (auto simp: less_mult_imp_div_less)
  ultimately show ?case using Cons by (simp add: encode_byte_def del: of_nat_add)
qed simp

lemma encode_hex_digit_value: "is_lower_hex c \<Longrightarrow> encode_hex_digit (nat (hex_value c)) = c"
proof -
  assume "is_lower_hex c"
  then have "code c \<in> set [48..<58] \<union> set [97..<103]" by (simp only: set_upt) (auto simp: is_lower_hex_def is_dec_def)
  moreover have "\<forall>n \<in> set [48..<58] \<union> set [97..<103]. encode_hex_digit (nat (hex_value (char_of n))) = char_of (n :: nat)"
    by code_simp
  ultimately show ?thesis by (metis char_of_char code_def)
qed

lemma hex_value_lower_hex: "is_lower_hex c \<longleftrightarrow> 0 \<le> hex_value c"
  by (auto simp: is_lower_hex_def is_dec_def hex_value_def)

lemma hex_decode_loop_text:
  "even (length s) \<Longrightarrow> list_all is_lower_hex s \<Longrightarrow>
     \<exists>bs. hex_decode_loop s = Inr bs \<and> length s = 2 * length bs \<and> hex_encode bs = s"
proof (induction s rule: hex_decode_loop.induct)
  case (1 h l rest)
  then obtain bs where bs: "hex_decode_loop rest = Inr bs" "length rest = 2 * length bs" "hex_encode bs = rest"
    by (auto simp: hex_value_lower_hex)
  let ?b = "nat (hex_value h * 16 + hex_value l)"
  have hl: "0 \<le> hex_value h" "0 \<le> hex_value l" "hex_value l < 16" "is_lower_hex h" "is_lower_hex l"
    using 1 hex_value_bounds [of l] by (auto simp: hex_value_lower_hex)
  then have "?b = nat (hex_value h) * 16 + nat (hex_value l)" "nat (hex_value l) < 16"
    by (simp_all add: nat_add_distrib nat_mult_distrib)
  then have "?b div 16 = nat (hex_value h)" "?b mod 16 = nat (hex_value l)" by simp_all
  with bs hl show ?case by (simp add: encode_byte_def encode_hex_digit_value)
qed auto

text \<open>
  A SHA-256 in text form is always 64 lowercase hexadecimal characters; decoding it gives the
  32 bytes of the digest back; and the decoder accepts exactly such texts, decoding each to bytes
  that print as the same text.
\<close>

theorem sha256_text_roundtrip:
  "lowercase_sha256 (sha256_hex s) \<and> hex_decode_sha256 (sha256_hex s) = Inr (sha256 s) \<and>
   (lowercase_sha256 t \<longleftrightarrow> (\<exists>bs. hex_decode_sha256 t = Inr bs \<and> hex_encode bs = t \<and> length bs = 32))"
proof (intro conjI)
  show "lowercase_sha256 (sha256_hex s)" by (rule sha256_hex_lowercase)
  show "hex_decode_sha256 (sha256_hex s) = Inr (sha256 s)"
    using sha256_hex_lowercase [of s] hex_decode_loop_encode [of "sha256 s"] sha256_digest [of s]
    by (simp add: hex_decode_sha256_def lowercase_sha256_def sha256_hex_def)
  show "lowercase_sha256 t \<longleftrightarrow> (\<exists>bs. hex_decode_sha256 t = Inr bs \<and> hex_encode bs = t \<and> length bs = 32)"
  proof
    assume "lowercase_sha256 t"
    then show "\<exists>bs. hex_decode_sha256 t = Inr bs \<and> hex_encode bs = t \<and> length bs = 32"
      using hex_decode_loop_text [of t] by (auto simp: lowercase_sha256_def hex_decode_sha256_def)
  next
    assume "\<exists>bs. hex_decode_sha256 t = Inr bs \<and> hex_encode bs = t \<and> length bs = 32"
    then obtain bs where "hex_decode_loop t = Inr bs" "length t = 64" "hex_encode bs = t" "length bs = 32"
      by (auto simp: hex_decode_sha256_def split: if_splits)
    moreover have "hex_decode_loop u = Inr cs \<Longrightarrow> list_all (\<lambda>b. b < 256) cs" for u cs
    proof (induction u arbitrary: cs rule: hex_decode_loop.induct)
      case (1 h l rest)
      then show ?case using hex_value_bounds [of h] hex_value_bounds [of l]
        by (auto simp: bindE_eq_Inr nat_less_iff split: if_splits)
    qed auto
    ultimately show "lowercase_sha256 t"
      using hex_encode_text [of bs] by (auto simp: lowercase_sha256_def)
  qed
qed

end
