(* ===== verification/Json.thy ===== *)
theory Json
  imports Identifiers Frame
begin

text \<open>
  The bounded strict JSON reader and the canonical writer of the runtime
  (\<^verbatim>\<open>src/runtime/json.cpp\<close>), and the \<open>json_string\<close> of the message layers. The reader works on the
  text that is still to be read; a \<open>std::map\<close> object is an association list in the order of its
  keys. \<open>std::from_chars\<close> for a \<open>double\<close> is the parameter \<open>fc\<close>: the writer refuses doubles, so no
  property depends on it.
\<close>

section \<open>Values\<close>

datatype Json =
    JNull | JBool bool | JInt int | JDouble dbl | JString string
  | JObject "(string \<times> Json) list" | JArray "Json list"

definition invalid_json :: exn where
  "invalid_json = Invalid_argument ''INVALID_JSON''"

text \<open>\<open>std::map::emplace\<close>: \<open>None\<close> when the key is already there.\<close>

fun emplace :: "string \<Rightarrow> 'a \<Rightarrow> (string \<times> 'a) list \<Rightarrow> (string \<times> 'a) list option" where
  "emplace k v [] = Some [(k, v)]"
| "emplace k v ((k', v') # kvs) =
     (if k = k' then None
      else if k < k' then Some ((k, v) # (k', v') # kvs)
      else map_option (\<lambda>r. (k', v') # r) (emplace k v kvs))"

text \<open>The accessors; \<open>std::get\<close> and \<open>at\<close> raise on the wrong alternative or key.\<close>

definition json_object :: "Json \<Rightarrow> (string \<times> Json) list result" where
  "json_object j = (case j of JObject kvs \<Rightarrow> Inr kvs | _ \<Rightarrow> Inl (Logic_error ''bad_variant_access''))"

definition json_at :: "string \<Rightarrow> Json \<Rightarrow> Json result" where
  "json_at key j = bindE (json_object j) (\<lambda>kvs.
     case map_of kvs key of None \<Rightarrow> Inl (Out_of_range ''map::at'') | Some v \<Rightarrow> Inr v)"

definition json_str :: "Json \<Rightarrow> string result" where
  "json_str j = (case j of JString s \<Rightarrow> Inr s | _ \<Rightarrow> Inl (Logic_error ''bad_variant_access''))"

definition json_integer :: "Json \<Rightarrow> int result" where
  "json_integer j = (case j of JInt i \<Rightarrow> Inr i | _ \<Rightarrow> Inl (Logic_error ''bad_variant_access''))"

definition json_boolean :: "Json \<Rightarrow> bool result" where
  "json_boolean j = (case j of JBool b \<Rightarrow> Inr b | _ \<Rightarrow> Inl (Logic_error ''bad_variant_access''))"

section \<open>UTF-8\<close>

definition byte :: "nat \<Rightarrow> char" where
  "byte n = char_of n"

definition utf8 :: "nat \<Rightarrow> string" where
  "utf8 cp =
     (if cp < 128 then [byte cp]
      else if cp < 2048 then [byte (192 + cp div 64), byte (128 + cp mod 64)]
      else if cp < 65536
      then [byte (224 + cp div 4096), byte (128 + cp div 64 mod 64), byte (128 + cp mod 64)]
      else [byte (240 + cp div 262144), byte (128 + cp div 4096 mod 64), byte (128 + cp div 64 mod 64),
            byte (128 + cp mod 64)])"

text \<open>The number of continuation bytes after a lead byte; 9 marks an invalid lead.\<close>

definition utf8_extra :: "nat \<Rightarrow> nat" where
  "utf8_extra c =
     (if c \<ge> 194 \<and> c \<le> 223 then 1 else if c \<ge> 224 \<and> c \<le> 239 then 2
      else if c \<ge> 240 \<and> c \<le> 244 then 3 else 9)"

definition utf8_code_point :: "nat \<Rightarrow> nat \<Rightarrow> string \<Rightarrow> nat" where
  "utf8_code_point c n parts = foldl (\<lambda>cp p. cp * 64 + code p mod 64) (c mod 2 ^ (6 - n)) parts"

function valid_utf8 :: "string \<Rightarrow> bool" where
  "valid_utf8 [] = True"
| "valid_utf8 (b # bs) =
     (let c = code b
      in if c < 128 then valid_utf8 bs
         else
           (let n = utf8_extra c; parts = take n bs; cp = utf8_code_point c n parts
            in if n = 9 \<or> n > length bs then False
               else if \<not> list_all (\<lambda>p. code p div 64 = 2) parts then False
               else if cp < (if n = 1 then 128 else if n = 2 then 2048 else 65536) \<or> cp > 1114111 \<or>
                       (cp \<ge> 55296 \<and> cp \<le> 57343) then False
               else valid_utf8 (drop n bs)))"
  by pat_completeness auto
termination by (relation "measure length") auto

definition validate_utf8 :: "string \<Rightarrow> unit result" where
  "validate_utf8 s = (if valid_utf8 s then Inr () else Inl invalid_json)"

section \<open>Writing\<close>

definition escape_char :: "char \<Rightarrow> string" where
  "escape_char c =
     (if c = CHR 0x22 then [CHR 0x5C, CHR 0x22]
      else if c = CHR 0x5C then [CHR 0x5C, CHR 0x5C]
      else if code c = 8 then [CHR 0x5C, CHR ''b'']
      else if code c = 9 then [CHR 0x5C, CHR ''t'']
      else if code c = 10 then [CHR 0x5C, CHR ''n'']
      else if code c = 12 then [CHR 0x5C, CHR ''f'']
      else if code c = 13 then [CHR 0x5C, CHR ''r'']
      else if code c < 32
      then [CHR 0x5C, CHR ''u'', CHR ''0'', CHR ''0'', encode_hex_digit (code c div 16), encode_hex_digit (code c mod 16)]
      else [c])"

definition json_string :: "string \<Rightarrow> string" where
  "json_string s = CHR 0x22 # concat (map escape_char s) @ [CHR 0x22]"

definition quote_json :: "string \<Rightarrow> string result" where
  "quote_json s = bindE (validate_utf8 s) (\<lambda>_. Inr (json_string s))"

text \<open>A comma goes before every item but the first: \<open>if (result.size() > 1) result += ','\<close>.\<close>

definition join_json :: "char \<Rightarrow> string list \<Rightarrow> string" where
  "join_json opening ts =
     foldl (\<lambda>result t. (if length result > 1 then result @ '','' else result) @ t) [opening] ts"

fun encode_json :: "Json \<Rightarrow> string result"
  and encode_items :: "Json list \<Rightarrow> string list result"
  and encode_fields :: "(string \<times> Json) list \<Rightarrow> string list result" where
  "encode_json JNull = Inr ''null''"
| "encode_json (JBool b) = Inr (if b then ''true'' else ''false'')"
| "encode_json (JInt i) = Inr (int_to_string i)"
| "encode_json (JString s) = quote_json s"
| "encode_json (JArray vs) = bindE (encode_items vs) (\<lambda>ts. Inr (join_json (CHR ''['') ts @ '']''))"
| "encode_json (JObject kvs) = bindE (encode_fields kvs) (\<lambda>ts. Inr (join_json (CHR ''{'') ts @ ''}''))"
| "encode_json (JDouble d) = Inl (Invalid_argument ''LEDGER_FLOAT_NOT_ALLOWED'')"
| "encode_items [] = Inr []"
| "encode_items (v # vs) = bindE (encode_json v) (\<lambda>t. bindE (encode_items vs) (\<lambda>ts. Inr (t # ts)))"
| "encode_fields [] = Inr []"
| "encode_fields ((k, v) # kvs) =
     bindE (quote_json k) (\<lambda>q. bindE (encode_json v) (\<lambda>t.
       bindE (encode_fields kvs) (\<lambda>ts. Inr ((q @ '':'' @ t) # ts))))"


section \<open>Reading\<close>

definition is_space :: "char \<Rightarrow> bool" where
  "is_space c \<longleftrightarrow> code c = 32 \<or> code c = 10 \<or> code c = 9 \<or> code c = 13"

definition space :: "string \<Rightarrow> string" where
  "space s = dropWhile is_space s"

definition take_char :: "char \<Rightarrow> string \<Rightarrow> bool \<times> string" where
  "take_char c s =
     (case space s of [] \<Rightarrow> (False, []) | d # ds \<Rightarrow> if d = c then (True, ds) else (False, d # ds))"

definition require :: "char \<Rightarrow> string \<Rightarrow> string result" where
  "require c s = (case take_char c s of (True, r) \<Rightarrow> Inr r | (False, _) \<Rightarrow> Inl invalid_json)"

definition hex_digit_any :: "char \<Rightarrow> nat" where
  "hex_digit_any c =
     (if 48 \<le> code c \<and> code c \<le> 57 then code c - 48
      else if 97 \<le> code c \<and> code c \<le> 102 then code c - 97 + 10
      else if 65 \<le> code c \<and> code c \<le> 70 then code c - 65 + 10 else 16)"

definition hex4 :: "string \<Rightarrow> (nat \<times> string) result" where
  "hex4 s =
     (if length s < 4 \<or> \<not> list_all (\<lambda>c. hex_digit_any c \<noteq> 16) (take 4 s) then Inl invalid_json
      else Inr (foldl (\<lambda>n c. n * 16 + hex_digit_any c) 0 (take 4 s), drop 4 s))"

text \<open>What follows a backslash: the text it stands for and the rest.\<close>

definition unescape :: "char \<Rightarrow> string \<Rightarrow> (string \<times> string) result" where
  "unescape e rest =
     (if e = CHR 0x22 then Inr ([CHR 0x22], rest)
      else if e = CHR 0x5C then Inr ([CHR 0x5C], rest)
      else if e = CHR ''/'' then Inr (''/'', rest)
      else if e = CHR ''b'' then Inr ([byte 8], rest)
      else if e = CHR ''f'' then Inr ([byte 12], rest)
      else if e = CHR ''n'' then Inr ([byte 10], rest)
      else if e = CHR ''r'' then Inr ([byte 13], rest)
      else if e = CHR ''t'' then Inr ([byte 9], rest)
      else if e = CHR ''u'' then
        bindE (hex4 rest) (\<lambda>(high, r1).
          if high \<ge> 55296 \<and> high \<le> 56319 then
            (if length r1 < 2 \<or> take 2 r1 \<noteq> [CHR 0x5C, CHR ''u''] then Inl invalid_json
             else bindE (hex4 (drop 2 r1)) (\<lambda>(low, r2).
               if low < 56320 \<or> low > 57343 then Inl invalid_json
               else Inr (utf8 (65536 + (high - 55296) * 1024 + (low - 56320)), r2)))
          else if high \<ge> 56320 \<and> high \<le> 57343 then Inl invalid_json
          else Inr (utf8 high, r1))
      else Inl invalid_json)"

lemma hex4_length: "hex4 s = Inr (n, r) \<Longrightarrow> length r < length s"
  by (auto simp: hex4_def split: if_splits)

lemma unescape_length: "unescape e rest = Inr (t, r) \<Longrightarrow> length r \<le> length rest"
  by (fastforce simp: unescape_def bindE_eq_Inr split: if_splits dest!: hex4_length)

function string_loop :: "string \<Rightarrow> string \<Rightarrow> (string \<times> string) result" where
  "string_loop [] out = Inl invalid_json"
| "string_loop (c # cs) out =
     (if c = CHR 0x22 then bindE (validate_utf8 out) (\<lambda>_. Inr (out, cs))
      else if code c < 32 then Inl invalid_json
      else if c \<noteq> CHR 0x5C then string_loop cs (out @ [c])
      else (case cs of [] \<Rightarrow> Inl invalid_json
        | e # es \<Rightarrow> (case unescape e es of Inl x \<Rightarrow> Inl x | Inr (t, r) \<Rightarrow> string_loop r (out @ t))))"
  by pat_completeness auto
termination
  by (relation "measure (\<lambda>(s, out). length s)") (auto dest!: unescape_length)

definition parse_string :: "string \<Rightarrow> (string \<times> string) result" where
  "parse_string s = bindE (require (CHR 0x22) s) (\<lambda>r. string_loop r [])"

definition digits_span :: "string \<Rightarrow> string \<times> string" where
  "digits_span s = (takeWhile is_dec s, dropWhile is_dec s)"

text \<open>The fraction and the exponent: whether there was one, its text, and the rest.\<close>

definition parse_fraction :: "string \<Rightarrow> (string \<times> string) result" where
  "parse_fraction s =
     (case s of d # ds \<Rightarrow>
        if d = CHR ''.'' then
          (case digits_span ds of (ns, r) \<Rightarrow> if ns = [] then Inl invalid_json else Inr (''.'' @ ns, r))
        else Inr ([], s)
      | [] \<Rightarrow> Inr ([], s))"

definition parse_exponent :: "string \<Rightarrow> (string \<times> string) result" where
  "parse_exponent s =
     (case s of d # ds \<Rightarrow>
        if d = CHR ''e'' \<or> d = CHR ''E'' then
          (let (sign, r1) = (case ds of x # xs \<Rightarrow> if x = CHR ''+'' \<or> x = CHR ''-'' then ([x], xs) else ([], ds)
                             | [] \<Rightarrow> ([], ds))
           in (case digits_span r1 of (ns, r) \<Rightarrow>
                 if ns = [] then Inl invalid_json else Inr (d # sign @ ns, r)))
        else Inr ([], s)
      | [] \<Rightarrow> Inr ([], s))"

text \<open>The value of a number once its sign and its integer digits are read.\<close>

definition number_tail :: "(string \<Rightarrow> dbl option) \<Rightarrow> bool \<Rightarrow> string \<Rightarrow> string \<Rightarrow> (Json \<times> string) result" where
  "number_tail fc negative whole r =
     bindE (parse_fraction r) (\<lambda>(frac, r1). bindE (parse_exponent r1) (\<lambda>(ex, r2).
       if frac = [] \<and> ex = [] then
         (let v = (if negative then - int (dec_value whole) else int (dec_value whole))
          in if v < i64_min \<or> v > i64_max then Inl invalid_json else Inr (JInt v, r2))
       else
         (case fc ((if negative then ''-'' else []) @ whole @ frac @ ex) of
            Some x \<Rightarrow> if isfinite x then Inr (JDouble x, r2) else Inl invalid_json
          | None \<Rightarrow> Inl invalid_json)))"

definition number_digits :: "(string \<Rightarrow> dbl option) \<Rightarrow> bool \<Rightarrow> string \<Rightarrow> (Json \<times> string) result" where
  "number_digits fc negative s =
     (case s of [] \<Rightarrow> Inl invalid_json
      | d # ds \<Rightarrow>
          if d = CHR ''0'' then number_tail fc negative ''0'' ds
          else if \<not> (49 \<le> code d \<and> code d \<le> 57) then Inl invalid_json
          else (case digits_span s of (whole, r) \<Rightarrow> number_tail fc negative whole r))"

definition parse_number :: "(string \<Rightarrow> dbl option) \<Rightarrow> string \<Rightarrow> (Json \<times> string) result" where
  "parse_number fc s =
     (case s of d # ds \<Rightarrow> if d = CHR ''-'' then number_digits fc True ds else number_digits fc False s
      | [] \<Rightarrow> number_digits fc False s)"

text \<open>
  The loops \<open>do ... while (take(','))\<close>, with the reader of the next depth as a parameter. Each
  turn reads at least the comma, so the length of the text is enough fuel.
\<close>

type_synonym reader = "string \<Rightarrow> (Json \<times> string) result"

definition out_of_fuel :: exn where
  "out_of_fuel = Logic_error ''fuel''"

primrec array_loop :: "nat \<Rightarrow> reader \<Rightarrow> string \<Rightarrow> Json list \<Rightarrow> (Json list \<times> string) result" where
  "array_loop 0 p s acc = Inl out_of_fuel"
| "array_loop (Suc n) p s acc =
     bindE (p s) (\<lambda>(v, r).
       (case take_char (CHR '','') r of
          (True, r1) \<Rightarrow> array_loop n p r1 (acc @ [v])
        | (False, r1) \<Rightarrow> Inr (acc @ [v], r1)))"

primrec object_loop :: "nat \<Rightarrow> reader \<Rightarrow> string \<Rightarrow> (string \<times> Json) list \<Rightarrow> ((string \<times> Json) list \<times> string) result" where
  "object_loop 0 p s acc = Inl out_of_fuel"
| "object_loop (Suc n) p s acc =
     bindE (parse_string s) (\<lambda>(k, r0). bindE (require (CHR '':'') r0) (\<lambda>r1. bindE (p r1) (\<lambda>(v, r2).
       (case emplace k v acc of None \<Rightarrow> Inl invalid_json
        | Some acc' \<Rightarrow>
            (case take_char (CHR '','') r2 of
               (True, r3) \<Rightarrow> object_loop n p r3 acc'
             | (False, r3) \<Rightarrow> Inr (acc', r3))))))"

definition item_body :: "(string \<Rightarrow> dbl option) \<Rightarrow> reader \<Rightarrow> reader" where
  "item_body fc p s0 =
     (let s = space s0
      in case s of [] \<Rightarrow> Inl invalid_json
         | c # cs \<Rightarrow>
           if c = CHR 0x22 then bindE (parse_string s) (\<lambda>(t, r). Inr (JString t, r))
           else if c = CHR ''{'' then
             (case take_char (CHR ''}'') cs of
                (True, r) \<Rightarrow> Inr (JObject [], r)
              | (False, r) \<Rightarrow> bindE (object_loop (Suc (length r)) p r []) (\<lambda>(kvs, r1).
                    bindE (require (CHR ''}'') r1) (\<lambda>r2. Inr (JObject kvs, r2))))
           else if c = CHR ''['' then
             (case take_char (CHR '']'') cs of
                (True, r) \<Rightarrow> Inr (JArray [], r)
              | (False, r) \<Rightarrow> bindE (array_loop (Suc (length r)) p r []) (\<lambda>(vs, r1).
                    bindE (require (CHR '']'') r1) (\<lambda>r2. Inr (JArray vs, r2))))
           else if take 4 s = ''true'' then Inr (JBool True, drop 4 s)
           else if take 5 s = ''false'' then Inr (JBool False, drop 5 s)
           else if take 4 s = ''null'' then Inr (JNull, drop 4 s)
           else parse_number fc s)"

text \<open>\<open>levels\<close> is 25 minus the depth: \<open>if (depth > 24) invalid()\<close>.\<close>

primrec item :: "(string \<Rightarrow> dbl option) \<Rightarrow> nat \<Rightarrow> reader" where
  "item fc 0 s = Inl invalid_json"
| "item fc (Suc levels) s = item_body fc (item fc levels) s"

definition parse_json :: "(string \<Rightarrow> dbl option) \<Rightarrow> string \<Rightarrow> nat \<Rightarrow> Json result" where
  "parse_json fc text_value limit =
     (if length text_value > limit then Inl invalid_json
      else bindE (item fc 25 text_value) (\<lambda>(v, r). if space r \<noteq> [] then Inl invalid_json else Inr v))"

definition is_sha256 :: "string \<Rightarrow> bool" where
  "is_sha256 s \<longleftrightarrow> length s = 64 \<and> list_all is_lower_hex s"

definition is_uuid :: "string \<Rightarrow> bool" where
  "is_uuid s \<longleftrightarrow> length s = 36 \<and>
     (\<forall>i \<in> set [0..<length s].
        if uuid_dash i then s ! i = CHR ''-''
        else is_lower_hex (s ! i) \<or> (65 \<le> code (s ! i) \<and> code (s ! i) \<le> 70))"

section \<open>The reader returns\<close>

text \<open>
  Every successful read consumes text, so the loops never exhaust the fuel they start with and the
  only exception of the reader is \<open>INVALID_JSON\<close>.
\<close>

definition consumes :: "string \<Rightarrow> ('a \<times> string) result \<Rightarrow> bool" where
  "consumes s m \<longleftrightarrow> (case m of Inl e \<Rightarrow> e = invalid_json | Inr (v, r) \<Rightarrow> length r < length s)"

lemma consumes_simps [simp]:
  "consumes s (Inl e) \<longleftrightarrow> e = invalid_json"
  "consumes s (Inr (v, r)) \<longleftrightarrow> length r < length s"
  by (simp_all add: consumes_def)

lemma consumes_mono: "consumes t m \<Longrightarrow> length t \<le> length s \<Longrightarrow> consumes s m"
  by (auto simp: consumes_def split: sum.splits)

lemma consumes_bindE:
  assumes "consumes s m" and "\<And>v r. m = Inr (v, r) \<Longrightarrow> length r < length s \<Longrightarrow> consumes s (f (v, r))"
  shows "consumes s (bindE m f)"
  using assms by (cases m) auto

lemma space_length: "length (space s) \<le> length s"
  by (simp add: space_def length_dropWhile_le)

lemma take_char_length:
  "take_char c s = (True, r) \<Longrightarrow> length r < length s"
  "take_char c s = (b, r) \<Longrightarrow> length r \<le> length s"
  using space_length [of s] by (auto simp: take_char_def split: list.splits if_splits intro: space_length)

lemma require_result:
  "require c s = Inr r \<Longrightarrow> length r < length s"
  "require c s = Inl e \<Longrightarrow> e = invalid_json"
  by (auto simp: require_def split: prod.splits bool.splits dest: take_char_length)

lemma unescape_error: "unescape e rest = Inl x \<Longrightarrow> x = invalid_json"
  by (auto simp: unescape_def hex4_def bindE_eq_Inl split: if_splits)

lemma string_loop_result:
  "string_loop s out = Inr (t, r) \<Longrightarrow> length r < length s"
  "string_loop s out = Inl e \<Longrightarrow> e = invalid_json"
proof (induction s out rule: string_loop.induct)
  case (2 c cs out)
  {
    case 1
    with 2 show ?case
      by (fastforce simp: bindE_eq_Inr split: if_splits list.splits sum.splits prod.splits dest!: unescape_length)
  next
    case 2
    with "2.IH" show ?case
      by (fastforce simp: bindE_eq_Inl validate_utf8_def split: if_splits list.splits sum.splits prod.splits
        dest!: unescape_error)
  }
qed simp_all

lemma parse_string_result:
  "parse_string s = Inr (t, r) \<Longrightarrow> length r < length s"
  "parse_string s = Inl e \<Longrightarrow> e = invalid_json"
  by (auto simp: parse_string_def bindE_eq_Inr bindE_eq_Inl dest!: require_result string_loop_result)

lemma digits_span_length: "digits_span s = (d, r) \<Longrightarrow> length r \<le> length s"
  by (auto simp: digits_span_def length_dropWhile_le)

lemma parse_fraction_result:
  "parse_fraction s = Inr (t, r) \<Longrightarrow> length r \<le> length s"
  "parse_fraction s = Inl e \<Longrightarrow> e = invalid_json"
  by (auto simp: parse_fraction_def split: list.splits if_splits prod.splits dest!: digits_span_length)

lemma parse_exponent_result:
  "parse_exponent s = Inr (t, r) \<Longrightarrow> length r \<le> length s"
  "parse_exponent s = Inl e \<Longrightarrow> e = invalid_json"
  by (auto simp: parse_exponent_def Let_def split: list.splits if_splits prod.splits dest!: digits_span_length)

lemma number_tail_result:
  "number_tail fc g w s = Inr (v, r) \<Longrightarrow> length r \<le> length s"
  "number_tail fc g w s = Inl e \<Longrightarrow> e = invalid_json"
  by (auto simp: number_tail_def Let_def bindE_eq_Inr bindE_eq_Inl split: if_splits option.splits
    dest!: parse_fraction_result parse_exponent_result)

lemma number_digits_consumes: "consumes s (number_digits fc g s)"
proof (cases s)
  case (Cons d ds)
  have tail: "consumes s (number_tail fc g w r)" if "length r \<le> length ds" for w r
    using that Cons by (cases "number_tail fc g w r") (auto dest!: number_tail_result)
  have "length (dropWhile is_dec s) \<le> length ds" if "49 \<le> code d" "code d \<le> 57"
    using that Cons length_dropWhile_le [of is_dec ds] by (simp add: is_dec_def)
  with tail Cons show ?thesis
    unfolding number_digits_def digits_span_def by (auto simp del: dropWhile.simps)
qed (simp add: number_digits_def)

lemma parse_number_consumes: "consumes s (parse_number fc s)"
  using consumes_mono [OF number_digits_consumes]
  by (auto simp: parse_number_def number_digits_consumes split: list.splits)

lemma parse_string_consumes: "consumes s (parse_string s)"
  by (cases "parse_string s") (auto dest: parse_string_result)

lemma array_loop_consumes:
  assumes p: "\<And>s. consumes s (p s)"
  shows "length s < n \<Longrightarrow> consumes s (array_loop n p s acc)"
proof (induction n arbitrary: s acc)
  case (Suc n)
  show ?case unfolding array_loop.simps
  proof (rule consumes_bindE [OF p])
    fix v and r :: string
    assume r: "length r < length s"
    obtain b r1 where t: "take_char (CHR '','') r = (b, r1)" by force
    with r have "length r1 < length s" by (auto dest: take_char_length(2))
    moreover have "consumes s (array_loop n p r1 (acc @ [v]))" if b
      using that t r Suc.prems by (auto dest!: take_char_length(1) intro: consumes_mono [OF Suc.IH])
    ultimately show "consumes s (case (v, r) of (v, r) \<Rightarrow> case take_char (CHR '','') r of
        (True, r1) \<Rightarrow> array_loop n p r1 (acc @ [v]) | (False, r1) \<Rightarrow> Inr (acc @ [v], r1))"
      using t by (cases b) simp_all
  qed
qed simp

lemma object_loop_consumes:
  assumes p: "\<And>s. consumes s (p s)"
  shows "length s < n \<Longrightarrow> consumes s (object_loop n p s acc)"
proof (induction n arbitrary: s acc)
  case (Suc n)
  have step: "consumes s (bindE (p r1) (\<lambda>(v, r2). case emplace k v acc of None \<Rightarrow> Inl invalid_json
      | Some acc' \<Rightarrow> (case take_char (CHR '','') r2 of (True, r3) \<Rightarrow> object_loop n p r3 acc' | (False, r3) \<Rightarrow> Inr (acc', r3))))"
    if r1: "length r1 < length s" for k r1
  proof (rule consumes_bindE)
    show "consumes s (p r1)" using r1 by (intro consumes_mono [OF p]) simp
  next
    fix v and r2 :: string
    assume r2: "length r2 < length s"
    obtain b r3 where t: "take_char (CHR '','') r2 = (b, r3)" by force
    with r2 have "length r3 < length s" by (auto dest: take_char_length(2))
    moreover have "consumes s (object_loop n p r3 a)" if b for a
      using that t r2 Suc.prems by (auto dest!: take_char_length(1) intro: consumes_mono [OF Suc.IH])
    ultimately show "consumes s (case (v, r2) of (v, r2) \<Rightarrow> case emplace k v acc of None \<Rightarrow> Inl invalid_json
      | Some acc' \<Rightarrow> (case take_char (CHR '','') r2 of (True, r3) \<Rightarrow> object_loop n p r3 acc' | (False, r3) \<Rightarrow> Inr (acc', r3)))"
      using t by (cases b) (simp_all split: option.split)
  qed
  show ?case unfolding object_loop.simps
  proof (rule consumes_bindE [OF parse_string_consumes])
    fix k and r0 :: string
    assume r0: "length r0 < length s"
    show "consumes s (case (k, r0) of (k, r0) \<Rightarrow> bindE (require (CHR '':'') r0) (\<lambda>r1. bindE (p r1) (\<lambda>(v, r2).
       case emplace k v acc of None \<Rightarrow> Inl invalid_json
      | Some acc' \<Rightarrow> (case take_char (CHR '','') r2 of (True, r3) \<Rightarrow> object_loop n p r3 acc' | (False, r3) \<Rightarrow> Inr (acc', r3)))))"
      using step r0 by (cases "require (CHR '':'') r0") (auto dest!: require_result)
  qed
qed simp

lemma require_consumes: "consumes s (bindE (require c s) (\<lambda>r. Inr (v, r)))"
  by (cases "require c s") (auto dest: require_result)

lemma enclosed_consumes:
  assumes "\<And>r. consumes r (m r)" and "length cs < length s"
  shows "consumes s (case take_char d cs of (True, r) \<Rightarrow> Inr (e, r)
    | (False, r) \<Rightarrow> bindE (m r) (\<lambda>(v, r). bindE (require d r) (\<lambda>r2. Inr (f v, r2))))"
proof -
  have "consumes s (bindE (m r0) (\<lambda>(v, r). bindE (require d r) (\<lambda>r2. Inr (f v, r2))))"
    if "length r0 < length s" for r0
    using that by (intro consumes_bindE) (auto intro: consumes_mono [OF assms(1)] consumes_mono [OF require_consumes])
  with assms(2) show ?thesis
    by (cases "take_char d cs") (auto dest!: take_char_length(2) split: bool.split)
qed

lemma item_body_consumes:
  assumes p: "\<And>s. consumes s (p s)"
  shows "consumes s (item_body fc p s)"
proof (cases "space s")
  case (Cons c cs)
  with space_length [of s] have len: "length (space s) \<le> length s" "length cs < length s" by simp_all
  have "consumes s (bindE (parse_string (space s)) (\<lambda>(t, r). Inr (JString t, r)))"
    using len by (intro consumes_bindE consumes_mono [OF parse_string_consumes]) auto
  moreover have "consumes s (parse_number fc (space s))"
    by (rule consumes_mono [OF parse_number_consumes len(1)])
  ultimately show ?thesis
    using Cons len
      enclosed_consumes [OF array_loop_consumes [OF p lessI] len(2), where d = "CHR '']''" and e = "JArray []" and f = JArray and acc1 = "\<lambda>_. []"]
      enclosed_consumes [OF object_loop_consumes [OF p lessI] len(2), where d = "CHR ''}''" and e = "JObject []" and f = JObject and acc1 = "\<lambda>_. []"]
    unfolding item_body_def Let_def by auto
qed (simp add: item_body_def)

lemma item_consumes: "consumes s (item fc levels s)"
  by (induction levels arbitrary: s) (simp_all add: item_body_consumes)

text \<open>C16. Reading a text always returns: the result is a value or the one exception \<open>INVALID_JSON\<close>. The
  loops over items and fields never use up the fuel they start with, because every turn consumes
  text, and the nesting is bounded by 25 levels.
\<close>

theorem parse_json_total:
  "(\<exists>j. parse_json fc t limit = Inr j) \<or> parse_json fc t limit = Inl (Invalid_argument ''INVALID_JSON'')"
  using item_consumes [of t fc 25]
  by (cases "item fc 25 t") (auto simp: parse_json_def invalid_json_def split: if_splits)

section \<open>Reading what was written\<close>

definition follows :: "string \<Rightarrow> bool" where
  "follows rest \<longleftrightarrow> rest = [] \<or> hd rest \<in> {CHR '','', CHR '']'', CHR ''}''}"

fun json_depth :: "Json \<Rightarrow> nat" where
  "json_depth (JObject kvs) = (if kvs = [] then 0 else Suc (foldr max (map (\<lambda>(k, v). json_depth v) kvs) 0))"
| "json_depth (JArray vs) = (if vs = [] then 0 else Suc (foldr max (map json_depth vs) 0))"
| "json_depth j = 0"

text \<open>The values the ledgers hold: no doubles, 64-bit integers, UTF-8 text, keys in map order.\<close>

fun json_ok :: "Json \<Rightarrow> bool" where
  "json_ok (JInt i) \<longleftrightarrow> i64_min \<le> i \<and> i \<le> i64_max"
| "json_ok (JDouble d) \<longleftrightarrow> False"
| "json_ok (JString s) \<longleftrightarrow> valid_utf8 s"
| "json_ok (JObject kvs) \<longleftrightarrow>
     sorted_wrt (<) (map fst kvs) \<and> list_all (\<lambda>(k, v). valid_utf8 k \<and> json_ok v) kvs"
| "json_ok (JArray vs) \<longleftrightarrow> list_all json_ok vs"
| "json_ok _ \<longleftrightarrow> True"

lemma string_loop_plain:
  "code c \<ge> 32 \<Longrightarrow> c \<noteq> CHR 0x22 \<Longrightarrow> c \<noteq> CHR 0x5C \<Longrightarrow> string_loop (c # t) out = string_loop t (out @ [c])"
  by simp

lemma hex4_control:
  assumes "code c < 32"
  shows "hex4 ([CHR ''0'', CHR ''0'', encode_hex_digit (code c div 16), encode_hex_digit (code c mod 16)] @ t)
    = Inr (code c, t)"
proof -
  have "\<forall>n \<in> set [0..<32]. hex_digit_any (encode_hex_digit (n div 16)) = n div 16 \<and>
      hex_digit_any (encode_hex_digit (n mod 16)) = n mod 16 \<and> hex_digit_any (CHR ''0'') = 0"
    by code_simp
  with assms have "hex_digit_any (encode_hex_digit (code c div 16)) = code c div 16"
    "hex_digit_any (encode_hex_digit (code c mod 16)) = code c mod 16" "hex_digit_any (CHR ''0'') = 0"
    by auto
  moreover from assms have "code c div 16 < 16" "code c mod 16 < 16" by simp_all
  ultimately show ?thesis by (simp add: hex4_def)
qed

lemma string_loop_escape: "string_loop (escape_char c @ t) out = string_loop t (out @ [c])"
proof -
  have b: "byte (code c) = c" by (simp add: byte_def code_def)
  have u: "unescape (CHR ''u'') ([CHR ''0'', CHR ''0'', encode_hex_digit (code c div 16),
      encode_hex_digit (code c mod 16)] @ t) = Inr ([c], t)" if "code c < 32"
    using hex4_control [OF that] that b by (simp add: unescape_def utf8_def)
  show ?thesis
  proof (cases "code c < 32 \<or> c = CHR 0x22 \<or> c = CHR 0x5C")
    case False
    then show ?thesis by (simp add: escape_char_def)
  next
    case True
    then show ?thesis using u b
      by (auto simp: escape_char_def unescape_def code_def)
  qed
qed

lemma string_loop_escaped:
  "string_loop (concat (map escape_char s) @ t) out = string_loop t (out @ s)"
  by (induction s arbitrary: out) (simp_all add: string_loop_escape)

lemma parse_json_string: "valid_utf8 s \<Longrightarrow> parse_string (json_string s @ rest) = Inr (s, rest)"
  by (simp add: parse_string_def json_string_def require_def take_char_def space_def is_space_def code_def
    string_loop_escaped validate_utf8_def)

lemma to_string_leading: "0 < n \<Longrightarrow> hd (to_string n) \<noteq> CHR ''0''"
proof (induction n rule: to_string.induct)
  case (1 n)
  have "dec_char n \<noteq> CHR ''0''" if "n < 10"
    using that 1(2) dec_val_dec_char [OF that] by (auto simp: dec_val_def code_def)
  with 1 show ?case by (simp add: to_string.simps [of n] hd_append)
qed

lemma follows_number:
  assumes "follows rest"
  shows "takeWhile is_dec rest = []" "dropWhile is_dec rest = rest" "number_tail fc g w rest =
    (let v = (if g then - int (dec_value w) else int (dec_value w))
     in if v < i64_min \<or> v > i64_max then Inl invalid_json else Inr (JInt v, rest))"
  using assms
  by (cases rest; auto simp: follows_def is_dec_def code_def number_tail_def parse_fraction_def parse_exponent_def)+

lemma takeWhile_digits:
  "list_all is_dec s \<Longrightarrow> follows rest \<Longrightarrow> takeWhile is_dec (s @ rest) = s \<and> dropWhile is_dec (s @ rest) = rest"
  by (induction s) (simp_all add: follows_number)

lemma number_digits_to_string:
  assumes "follows rest"
  shows "number_digits fc g (to_string n @ rest) = number_tail fc g (to_string n) rest"
proof (cases "n = 0")
  case True
  moreover have "dec_char 0 = CHR ''0''" by code_simp
  ultimately show ?thesis by (simp add: to_string.simps [of 0] number_digits_def)
next
  case False
  obtain d ds where d: "to_string n = d # ds" by (cases "to_string n") auto
  with False to_string_leading [of n] to_string_digits [of n] have "d \<noteq> CHR ''0''" "is_dec d" by auto
  moreover from this have "code d \<noteq> code (CHR ''0'')" by (simp add: code_inject)
  moreover have "code (CHR ''0'') = 48" by (simp add: code_def)
  ultimately have "49 \<le> code d \<and> code d \<le> 57" by (simp add: is_dec_def)
  with \<open>d \<noteq> CHR ''0''\<close> show ?thesis
    using takeWhile_digits [OF to_string_digits [of n] assms] d
    unfolding number_digits_def digits_span_def by simp
qed

lemma parse_number_int:
  assumes "i64_min \<le> i" and "i \<le> i64_max" and "follows rest"
  shows "parse_number fc (int_to_string i @ rest) = Inr (JInt i, rest)"
proof -
  obtain d ds where d: "to_string (nat i) = d # ds" by (cases "to_string (nat i)") auto
  with to_string_digits [of "nat i"] have "d \<noteq> CHR ''-''" by (auto simp: is_dec_def code_def)
  then have "parse_number fc (to_string (nat i) @ rest) = number_digits fc False (to_string (nat i) @ rest)"
    by (simp add: parse_number_def d)
  moreover have "parse_number fc (CHR ''-'' # t) = number_digits fc True t" for t
    by (simp add: parse_number_def)
  ultimately show ?thesis using assms
    by (auto simp: number_digits_to_string int_to_string_def follows_number(3))
qed

definition starts_value :: "string \<Rightarrow> bool" where
  "starts_value t \<longleftrightarrow> t \<noteq> [] \<and> \<not> is_space (hd t) \<and> hd t \<notin> {CHR '','', CHR '']'', CHR ''}''}"

text \<open>\<open>t\<close> is the text of \<open>j\<close>, and reading it gives \<open>j\<close> back whatever may follow a value.\<close>

definition written :: "(string \<Rightarrow> dbl option) \<Rightarrow> Json \<Rightarrow> string \<Rightarrow> bool" where
  "written fc j t \<longleftrightarrow> encode_json j = Inr t \<and> starts_value t \<and>
     (\<forall>lv rest. json_depth j < lv \<longrightarrow> follows rest \<longrightarrow> item fc lv (t @ rest) = Inr (j, rest))"

fun commas :: "string list \<Rightarrow> string" where
  "commas [] = []"
| "commas [t] = t"
| "commas (t # ts) = t @ CHR '','' # commas ts"

lemma commas_Cons: "commas (t # ts) = t @ (if ts = [] then [] else CHR '','' # commas ts)"
  by (cases ts) simp_all

lemma join_json_commas:
  assumes "list_all (\<lambda>t. t \<noteq> []) ts"
  shows "join_json c ts = c # commas ts"
proof -
  have "foldl (\<lambda>r t. (if length r > 1 then r @ '','' else r) @ t) r ts =
      r @ (if ts = [] then [] else CHR '','' # commas ts)" if "length r > 1" for r ts
    using that
  proof (induction ts arbitrary: r)
    case (Cons t ts)
    have "length (r @ CHR '','' # t) > 1" using Cons.prems by (cases r) auto
    from Cons.IH [OF this] Cons.prems show ?case by (simp add: commas_Cons)
  qed simp
  from this [of "[c] @ hd ts" "tl ts"] assms show ?thesis
    by (cases ts) (auto simp: join_json_def commas_Cons)
qed

lemma space_starts [simp]: "starts_value t \<Longrightarrow> space (t @ rest) = t @ rest"
  by (cases t) (auto simp: starts_value_def space_def)

lemma take_char_starts:
  "starts_value t \<Longrightarrow> hd t \<noteq> c \<Longrightarrow> take_char c (t @ rest) = (False, t @ rest)"
  by (cases t) (auto simp: take_char_def starts_value_def space_def)

lemma take_char_here: "\<not> is_space c \<Longrightarrow> take_char d (c # r) = (if c = d then (True, r) else (False, c # r))"
  by (simp add: take_char_def space_def)

lemma array_loop_commas:
  assumes "list_all2 (written fc) vs ts" and "ts \<noteq> []" and "length ts \<le> n"
    and "list_all (\<lambda>v. json_depth v < lv) vs"
  shows "array_loop n (item fc lv) (commas ts @ CHR '']'' # rest) acc = Inr (acc @ vs, CHR '']'' # rest)"
  using assms
proof (induction ts arbitrary: vs n acc rule: commas.induct)
  case (2 t)
  then obtain v m where "vs = [v]" "n = Suc m" "written fc v t" by (cases n) (auto simp: list_all2_Cons2)
  with 2 show ?case by (simp add: written_def follows_def take_char_here is_space_def code_def)
next
  case (3 t t' ts)
  then obtain v ws m where v: "vs = v # ws" "n = Suc m" "written fc v t" "list_all2 (written fc) ws (t' # ts)"
    by (cases n) (auto simp: list_all2_Cons2)
  with 3 have "array_loop m (item fc lv) (commas (t' # ts) @ CHR '']'' # rest) (acc @ [v]) =
      Inr ((acc @ [v]) @ ws, CHR '']'' # rest)"
    by (intro "3.IH") auto
  with v 3 show ?case by (simp add: written_def follows_def take_char_here is_space_def code_def)
qed simp

lemma emplace_last: "list_all (\<lambda>(k', v'). k' < k) acc \<Longrightarrow> emplace k v acc = Some (acc @ [(k, v)])"
  by (induction acc) auto

definition field_text :: "string \<Rightarrow> string \<Rightarrow> string" where
  "field_text k t = json_string k @ CHR '':'' # t"

definition written_field :: "(string \<Rightarrow> dbl option) \<Rightarrow> string \<times> Json \<Rightarrow> string \<Rightarrow> bool" where
  "written_field fc kv u \<longleftrightarrow> (case kv of (k, v) \<Rightarrow> valid_utf8 k \<and> (\<exists>t. u = field_text k t \<and> written fc v t))"

lemma object_loop_commas:
  assumes "list_all2 (written_field fc) kvs us" and "us \<noteq> []" and "length us \<le> n"
    and "list_all (\<lambda>(k, v). json_depth v < lv) kvs" and "sorted_wrt (<) (map fst (acc @ kvs))"
  shows "object_loop n (item fc lv) (commas us @ CHR ''}'' # rest) acc = Inr (acc @ kvs, CHR ''}'' # rest)"
  using assms
proof (induction us arbitrary: kvs n acc rule: list.induct)
  case (Cons u us)
  then obtain k v ws m where f: "kvs = (k, v) # ws" "n = Suc m" "list_all2 (written_field fc) ws us"
      "written_field fc (k, v) u"
    by (cases n) (auto simp: list_all2_Cons2)
  then obtain t where v: "kvs = (k, v) # ws" "n = Suc m" "u = field_text k t" "valid_utf8 k" "written fc v t"
      "list_all2 (written_field fc) ws us"
    by (auto simp: written_field_def)
  let ?more = "(if us = [] then [] else CHR '','' # commas us) @ CHR ''}'' # rest"
  have "follows ?more" by (simp add: follows_def)
  with v Cons.prems have r: "item fc lv (t @ ?more) = Inr (v, ?more)" by (simp add: written_def)
  have colon: "require (CHR '':'') (CHR '':'' # r) = Inr r" for r
    by (simp add: require_def take_char_here is_space_def code_def)
  have emp: "emplace k v acc = Some (acc @ [(k, v)])"
    using v Cons.prems by (intro emplace_last) (auto simp: sorted_wrt_append list_all_iff)
  have "object_loop n (item fc lv) (commas (u # us) @ CHR ''}'' # rest) acc =
      (case take_char (CHR '','') ?more of
         (True, r3) \<Rightarrow> object_loop m (item fc lv) r3 (acc @ [(k, v)]) | (False, r3) \<Rightarrow> Inr (acc @ [(k, v)], r3))"
    using v r emp colon parse_json_string [OF v(4), of "CHR '':'' # t @ ?more"]
    by (simp add: commas_Cons field_text_def)
  also have "\<dots> = Inr (acc @ kvs, CHR ''}'' # rest)"
  proof (cases "us = []")
    case True
    with v show ?thesis by (simp add: take_char_here is_space_def code_def)
  next
    case False
    with Cons.prems v show ?thesis
      using Cons.IH [of ws m "acc @ [(k, v)]"] by (simp add: take_char_here is_space_def code_def)
  qed
  finally show ?case .
qed simp

lemma foldr_max_less: "foldr max (map f xs) (0 :: nat) < n \<longleftrightarrow> 0 < n \<and> list_all (\<lambda>x. f x < n) xs"
  by (induction xs) auto

lemma commas_length: "list_all (\<lambda>t. t \<noteq> []) ts \<Longrightarrow> length ts \<le> length (commas ts)"
proof (induction ts)
  case (Cons t ts)
  then have "0 < length t" by simp
  with Cons show ?case by (auto simp: commas_Cons Suc_le_eq)
qed simp

lemma starts_commas: "starts_value t \<Longrightarrow> starts_value (commas (t # ts))"
  by (auto simp: starts_value_def commas_Cons)

lemma written_array:
  assumes "list_all2 (written fc) vs ts" and "encode_items vs = Inr ts"
  shows "written fc (JArray vs) (CHR ''['' # commas ts @ '']'')"
proof -
  from assms(1) have ne: "list_all (\<lambda>t. t \<noteq> []) ts"
    by (induction) (auto simp: written_def starts_value_def)
  have "item fc lv ((CHR ''['' # commas ts @ '']'') @ rest) = Inr (JArray vs, rest)"
    if "json_depth (JArray vs) < lv" "follows rest" for lv rest
  proof -
    from that obtain l where l: "lv = Suc l" "list_all (\<lambda>v. json_depth v < l) vs"
      by (cases lv) (auto simp: foldr_max_less split: if_splits)
    let ?r = "commas ts @ CHR '']'' # rest"
    have close: "require (CHR '']'') (CHR '']'' # rest) = Inr rest"
      by (simp add: require_def take_char_here is_space_def code_def)
    show ?thesis
    proof (cases ts)
      case Nil
      with assms(1) l show ?thesis
        by (simp add: item_body_def space_def take_char_here is_space_def code_def)
    next
      case (Cons t us)
      with assms(1) have "starts_value (commas ts)"
        by (auto simp: list_all2_Cons2 written_def intro: starts_commas)
      moreover from this have "hd (commas ts) \<noteq> CHR '']''" by (simp add: starts_value_def)
      ultimately have "take_char (CHR '']'') ?r = (False, ?r)" by (rule take_char_starts)
      moreover have "array_loop (Suc (length ?r)) (item fc l) ?r [] = Inr ([] @ vs, CHR '']'' # rest)"
        using assms(1) Cons l(2) commas_length [OF ne] by (intro array_loop_commas) auto
      ultimately show ?thesis using l(1) close
        by (simp add: item_body_def space_def is_space_def code_def del: array_loop.simps)
    qed
  qed
  with assms ne show ?thesis
    by (auto simp: written_def join_json_commas starts_value_def is_space_def code_def)
qed

lemma starts_field: "starts_value (field_text k t)"
  by (simp add: starts_value_def field_text_def json_string_def is_space_def code_def)

lemma written_object:
  assumes "list_all2 (written_field fc) kvs us" and "encode_fields kvs = Inr us"
    and "sorted_wrt (<) (map fst kvs)"
  shows "written fc (JObject kvs) (CHR ''{'' # commas us @ ''}'')"
proof -
  from assms(1) have ne: "list_all (\<lambda>t. t \<noteq> []) us"
    by (induction) (auto simp: written_field_def field_text_def)
  have "item fc lv ((CHR ''{'' # commas us @ ''}'') @ rest) = Inr (JObject kvs, rest)"
    if "json_depth (JObject kvs) < lv" "follows rest" for lv rest
  proof -
    from that obtain l where l: "lv = Suc l" "list_all (\<lambda>(k, v). json_depth v < l) kvs"
      by (cases lv) (auto simp: foldr_max_less case_prod_unfold split: if_splits)
    let ?r = "commas us @ CHR ''}'' # rest"
    have close: "require (CHR ''}'') (CHR ''}'' # rest) = Inr rest"
      by (simp add: require_def take_char_here is_space_def code_def)
    show ?thesis
    proof (cases us)
      case Nil
      with assms(1) l show ?thesis
        by (simp add: item_body_def space_def take_char_here is_space_def code_def)
    next
      case (Cons u vs)
      with assms(1) have "starts_value (commas us)"
        by (auto simp: list_all2_Cons2 written_field_def intro: starts_commas starts_field)
      moreover from this have "hd (commas us) \<noteq> CHR ''}''" by (simp add: starts_value_def)
      ultimately have "take_char (CHR ''}'') ?r = (False, ?r)" by (rule take_char_starts)
      moreover have "object_loop (Suc (length ?r)) (item fc l) ?r [] = Inr ([] @ kvs, CHR ''}'' # rest)"
        using assms Cons l(2) commas_length [OF ne] by (intro object_loop_commas) auto
      ultimately show ?thesis using l(1) close
        by (simp add: item_body_def space_def is_space_def code_def del: object_loop.simps)
    qed
  qed
  with assms ne show ?thesis
    by (auto simp: written_def join_json_commas starts_value_def is_space_def code_def)
qed

lemma starts_int: "starts_value (int_to_string i) \<and> hd (int_to_string i) \<notin> {CHR 0x22, CHR ''{'', CHR ''['', CHR ''t'', CHR ''f'', CHR ''n''}"
proof -
  have "is_dec (hd (to_string n))" for n
    using to_string_digits [of n] by (cases "to_string n") auto
  from this [of "nat i"] show ?thesis
    by (auto simp: starts_value_def int_to_string_def is_space_def is_dec_def code_def)
qed

lemma written_scalar:
  "written fc JNull ''null''" "written fc (JBool b) (if b then ''true'' else ''false'')"
  "json_ok (JInt i) \<Longrightarrow> written fc (JInt i) (int_to_string i)"
  "json_ok (JString s) \<Longrightarrow> written fc (JString s) (json_string s)"
proof -
  have ex: "0 < lv \<Longrightarrow> \<exists>l. lv = Suc l" for lv :: nat by (cases lv) auto
  show "written fc JNull ''null''" "written fc (JBool b) (if b then ''true'' else ''false'')"
    by (auto simp: written_def starts_value_def is_space_def code_def item_body_def space_def dest!: ex)
  show "written fc (JString s) (json_string s)" if "json_ok (JString s)"
    using that parse_json_string [of s]
    by (auto simp: written_def starts_value_def is_space_def code_def item_body_def space_def json_string_def
      quote_json_def validate_utf8_def dest!: ex)
  show "written fc (JInt i) (int_to_string i)" if "json_ok (JInt i)"
  proof -
    obtain d ds where d: "int_to_string i = d # ds" using starts_int [of i] by (cases "int_to_string i") (auto simp: starts_value_def)
    have "item fc lv (int_to_string i @ rest) = Inr (JInt i, rest)" if "0 < lv" "follows rest" for lv rest
      using parse_number_int [of i rest fc] starts_int [of i] that \<open>json_ok (JInt i)\<close> d
      by (auto simp: item_body_def starts_value_def space_def dest!: ex)
    with starts_int [of i] show ?thesis by (simp add: written_def)
  qed
qed

lemma written_encode: "written fc v t \<Longrightarrow> encode_json v = Inr t"
  by (simp add: written_def)

lemma written_items:
  "list_all (\<lambda>v. \<exists>t. written fc v t) vs \<Longrightarrow> \<exists>ts. list_all2 (written fc) vs ts \<and> encode_items vs = Inr ts"
proof (induction vs)
  case (Cons v vs)
  then obtain t ts where "written fc v t" "list_all2 (written fc) vs ts" "encode_items vs = Inr ts" by auto
  then show ?case by (intro exI [of _ "t # ts"]) (simp add: written_encode)
qed simp

lemma written_fields:
  "list_all (\<lambda>(k, v). valid_utf8 k \<and> (\<exists>t. written fc v t)) kvs \<Longrightarrow>
    \<exists>us. list_all2 (written_field fc) kvs us \<and> encode_fields kvs = Inr us"
proof (induction kvs)
  case (Cons kv kvs)
  obtain k v where kv: "kv = (k, v)" by force
  with Cons obtain t us where
    "valid_utf8 k" "written fc v t" "list_all2 (written_field fc) kvs us" "encode_fields kvs = Inr us" by auto
  with kv show ?case
    by (intro exI [of _ "field_text k t # us"])
      (auto simp: written_encode quote_json_def validate_utf8_def field_text_def
        intro!: written_field_def [THEN iffD2])
qed simp

lemma json_written: "json_ok j \<Longrightarrow> \<exists>t. written fc j t"
proof (induction j)
  case (JObject kvs)
  then have "list_all (\<lambda>(k, v). valid_utf8 k \<and> (\<exists>t. written fc v t)) kvs"
    by (fastforce simp: list_all_iff)
  from written_fields [OF this] JObject.prems show ?case by (auto intro: written_object)
next
  case (JArray vs)
  then have "list_all (\<lambda>v. \<exists>t. written fc v t) vs" by (simp add: list_all_iff)
  from written_items [OF this] show ?case by (auto intro: written_array)
qed (blast intro: written_scalar | simp)+

lemma json_read_back:
  assumes "json_ok j" and "json_depth j \<le> 24"
  shows "\<exists>t. encode_json j = Inr t \<and> (\<forall>limit. parse_json fc t limit =
    (if length t \<le> limit then Inr j else Inl (Invalid_argument ''INVALID_JSON'')))"
proof -
  from json_written [OF assms(1)] obtain t where t: "written fc j t" by blast
  moreover have "follows []" and "json_depth j < 25" using assms(2) by (simp_all add: follows_def)
  ultimately have "item fc 25 (t @ []) = Inr (j, [])" unfolding written_def by blast
  with t show ?thesis by (auto simp: written_def parse_json_def invalid_json_def space_def)
qed

text \<open>
  C15. Whatever the ledgers may hold (no double, 64-bit integers, UTF-8 strings, keys in the order of
  the map, at most 24 nested levels) is written without an exception, and reading the text back
  gives exactly that value, for every limit that admits the text.
\<close>

theorem json_roundtrip:
  assumes "json_ok j" and "json_depth j \<le> 24"
  shows "\<exists>t. encode_json j = Inr t \<and> (\<forall>limit. parse_json fc t limit =
    (if length t \<le> limit then Inr j else Inl (Invalid_argument ''INVALID_JSON'')))"
  using assms by (rule json_read_back)

theorem json_roundtrip_witness:
  "\<exists>t. encode_json (JObject [(''a'', JArray [JInt (- 3), JNull]), (''b'', JString [CHR 0x22])]) = Inr t \<and>
     (\<forall>limit. parse_json (\<lambda>_. None) t limit =
       (if length t \<le> limit then Inr (JObject [(''a'', JArray [JInt (- 3), JNull]), (''b'', JString [CHR 0x22])])
        else Inl (Invalid_argument ''INVALID_JSON'')))"
  by (rule json_roundtrip) (simp_all add: i64_min_def i64_max_def code_def)

end
