(* ===== verification/Messages1.thy ===== *)
theory Messages1
  imports Window Sha Json
begin

text \<open>
  The v1 messages (\<^verbatim>\<open>src/v1/messages.cpp\<close>): a window is cut into chunks of at most ten samples, every
  chunk and the completion record become one canonical JSON text with the digest of its content.
  \<open>std::to_chars\<close> for a \<open>double\<close> is the parameter \<open>tc\<close> (\<open>None\<close> when it reports an error); everything
  the source does with the text it returns is modelled.
\<close>

section \<open>Data\<close>

datatype UnitRole = Validation | Production

record MessageMetadata =
  unit_system_uid :: string
  unit_role :: UnitRole
  service_version :: string
  service_artifact_sha256 :: string
  vdp_contract_version :: string
  vdp_contract_sha256 :: string
  service_instance :: "ServiceInstance option"

record CanonicalMessage =
  filename :: string
  canonical_json :: string
  content_sha256 :: string

record MessageSet =
  chunks :: "CanonicalMessage list"
  completion :: CanonicalMessage

definition encoded_bytes :: "MessageSet \<Rightarrow> nat" where
  "encoded_bytes ms =
     foldl (\<lambda>n c. n + length (canonical_json c)) (length (canonical_json (completion ms))) (chunks ms)"

definition unit_role_name :: "UnitRole \<Rightarrow> string" where
  "unit_role_name r = (case r of Validation \<Rightarrow> ''VALIDATION'' | Production \<Rightarrow> ''PRODUCTION'')"

definition uuid4 :: "string \<Rightarrow> bool" where
  "uuid4 v \<longleftrightarrow>
     length v = 36 \<and> v ! 8 = CHR ''-'' \<and> v ! 13 = CHR ''-'' \<and> v ! 18 = CHR ''-'' \<and> v ! 23 = CHR ''-'' \<and>
     v ! 14 = CHR ''4'' \<and> v ! 19 \<in> set ''89ab'' \<and>
     list_all (\<lambda>i. uuid_dash i \<or> is_lower_hex (v ! i)) [0..<length v]"

section \<open>Numbers\<close>

text \<open>The text to the left and to the right of the first occurrence of a character.\<close>

definition left_of :: "char \<Rightarrow> string \<Rightarrow> string" where
  "left_of c s = takeWhile (\<lambda>d. d \<noteq> c) s"

definition right_of :: "char \<Rightarrow> string \<Rightarrow> string" where
  "right_of c s = tl (dropWhile (\<lambda>d. d \<noteq> c) s)"

text \<open>\<open>std::stoi\<close>: an optional sign, then at least one digit; text after the digits is ignored.\<close>

definition stoi :: "string \<Rightarrow> int result" where
  "stoi s =
     (let negative = (s \<noteq> [] \<and> hd s = CHR ''-'');
          body = (if s \<noteq> [] \<and> (hd s = CHR ''-'' \<or> hd s = CHR ''+'') then tl s else s);
          ds = takeWhile is_dec body;
          v = (if negative then - int (dec_value ds) else int (dec_value ds))
      in if ds = [] then Inl (Invalid_argument ''stoi'')
         else if v < - (2 ^ 31) \<or> v > 2 ^ 31 - 1 then Inl (Out_of_range ''stoi'') else Inr v)"

text \<open>The literal \<open>1e-6\<close> is the double nearest to a millionth; \<open>1e21\<close> is exact.\<close>

definition fixed_notation :: "dbl \<Rightarrow> bool" where
  "fixed_notation x =
     (case x of Fin q \<Rightarrow> \<bar>q\<bar> \<ge> 4722366482869645 / 4722366482869645213696 \<and> \<bar>q\<bar> < 10 ^ 21 | _ \<Rightarrow> False)"

text \<open>Rewriting the shortest form with an exponent.\<close>

definition spread_digits :: "string \<Rightarrow> int \<Rightarrow> string" where
  "spread_digits ds pos =
     (if pos \<le> 0 then ''0.'' @ replicate (nat (- pos)) (CHR ''0'') @ ds
      else if pos \<ge> int (length ds) then ds @ replicate (nat (pos - int (length ds))) (CHR ''0'')
      else take (nat pos) ds @ ''.'' @ drop (nat pos) ds)"

definition scientific_digits :: "string \<Rightarrow> int \<Rightarrow> string" where
  "scientific_digits ds pos =
     take 1 ds @ (if length ds > 1 then ''.'' @ drop 1 ds else []) @ ''e'' @
     (if pos - 1 \<ge> 0 then ''+'' else []) @ int_to_string (pos - 1)"

definition canonical_number :: "(dbl \<Rightarrow> string option) \<Rightarrow> dbl \<Rightarrow> string result" where
  "canonical_number tc x =
     (if \<not> isfinite x then Inl (Invalid_argument ''canonical JSON does not permit non-finite numbers'')
      else if x = Fin 0 then Inr ''0''
      else (case tc x of None \<Rightarrow> Inl (Runtime_error ''failed to serialize canonical number'')
        | Some shortest \<Rightarrow>
            if CHR ''e'' \<notin> set shortest then Inr shortest
            else
              (let negative = (hd shortest = CHR ''-'');
                   mantissa = drop (if negative then 1 else 0) (left_of (CHR ''e'') shortest);
                   ds = left_of (CHR ''.'') mantissa @ right_of (CHR ''.'') mantissa;
                   before_dot = int (length (left_of (CHR ''.'') mantissa))
               in bindE (stoi (right_of (CHR ''e'') shortest)) (\<lambda>exponent.
                    Inr ((if negative then ''-'' else []) @
                         (if fixed_notation x then spread_digits ds (before_dot + exponent)
                          else scientific_digits ds (before_dot + exponent)))))))"

section \<open>Texts\<close>

definition sample_json :: "(dbl \<Rightarrow> string option) \<Rightarrow> RetainedSample \<Rightarrow> nat \<Rightarrow> string result" where
  "sample_json tc s sample_index =
     (let f = frame s
      in if sample_index > 149 \<or> \<not> valid (validate f None None)
         then Inl (Invalid_argument ''sample does not satisfy the v1 schema'')
         else
           bindE (canonical_number tc (lateral_acceleration_mps2 f)) (\<lambda>lateral.
           bindE (canonical_number tc (longitudinal_acceleration_mps2 f)) (\<lambda>longitudinal.
           bindE (canonical_number tc (speed_kph f)) (\<lambda>speed.
           bindE (canonical_number tc (vertical_acceleration_mps2 f)) (\<lambda>vertical.
             Inr (''{'' @ ''\"acceleratorPedalPercent\":'' @ int_to_string (accelerator_pedal_percent f) @
                  '',\"brakePedalPercent\":'' @ int_to_string (brake_pedal_percent f) @
                  '',\"lateralAccelerationMps2\":'' @ lateral @
                  '',\"longitudinalAccelerationMps2\":'' @ longitudinal @
                  '',\"maxSourceAgeMs\":'' @ int_to_string (max_source_age_ms f) @
                  '',\"phase\":'' @ json_string (phase_name (phase s)) @
                  '',\"quality\":\"VALID_COMPLETE_FRAME\"'' @
                  '',\"sampleIndex\":'' @ to_string sample_index @
                  '',\"sourceTimestamp\":'' @ json_string (source_timestamp f) @
                  '',\"speedKph\":'' @ speed @
                  '',\"verticalAccelerationMps2\":'' @ vertical @ ''}''))))))"

definition top_level_message :: "MessageMetadata \<Rightarrow> EventWindow \<Rightarrow> string \<Rightarrow> string \<Rightarrow> string \<Rightarrow> string result" where
  "top_level_message md w message_type content sha =
     bindE (case service_instance md of Some i \<Rightarrow> bindE (service_instance_json i) (\<lambda>t. Inr ('',\"serviceInstance\":'' @ t))
            | None \<Rightarrow> Inr ('',\"serviceArtifactSha256\":'' @ json_string (service_artifact_sha256 md))) (\<lambda>provenance.
       Inr (''{'' @ ''\"content\":'' @ content @
            '',\"contentSha256\":'' @ json_string sha @
            (if service_instance md \<noteq> None then '',\"contractVersion\":\"2.0.0\"'' else '',\"contractVersion\":\"1.0.0\"'') @
            '',\"eventId\":'' @ json_string (event_id w) @
            '',\"eventType\":\"HARD_BRAKING_EPISODE_V1\"'' @
            '',\"messageType\":'' @ json_string message_type @
            (if service_instance md \<noteq> None then '',\"schemaVersion\":2'' else '',\"schemaVersion\":1'') @
            provenance @
            '',\"serviceVersion\":'' @ json_string (service_version md) @
            '',\"unitRole\":'' @ json_string (unit_role_name (unit_role md)) @
            '',\"unitSystemUid\":'' @ json_string (unit_system_uid md) @
            '',\"vdpContractSha256\":'' @ json_string (vdp_contract_sha256 md) @
            '',\"vdpContractVersion\":'' @ json_string (vdp_contract_version md) @ ''}''))"

definition metadata_invalid :: "MessageMetadata \<Rightarrow> EventWindow \<Rightarrow> bool" where
  "metadata_invalid md w \<longleftrightarrow>
     (service_instance md \<noteq> None \<and>
       (\<not> native_identifier (unit_system_uid md) \<or> \<not> package_version (vdp_contract_version md))) \<or>
     \<not> bounded_identifier (unit_system_uid md) \<or>
     \<not> semantic_version_v1 (service_version md) \<or>
     \<not> semantic_version_v1 (vdp_contract_version md) \<or>
     (if service_instance md \<noteq> None
      then \<not> native_provenance_valid (service_instance md) (service_version md) (service_artifact_sha256 md)
      else \<not> lowercase_sha256 (service_artifact_sha256 md)) \<or>
     \<not> lowercase_sha256 (vdp_contract_sha256 md) \<or> \<not> uuid4 (event_id w) \<or>
     \<not> is_rfc3339_millisecond_utc (trigger_timestamp w)"

definition terminal_pair_valid :: "EventWindow \<Rightarrow> bool" where
  "terminal_pair_valid w \<longleftrightarrow>
     (terminal_state w = Complete \<and> reason_code w = NormalClear) \<or>
     (terminal_state w = TruncatedMaxDuration \<and> reason_code w = MaxActiveDuration) \<or>
     (terminal_state w = IncompleteSourceGap \<and> reason_code w = SourceGap) \<or>
     (terminal_state w = AbortedServiceStop \<and> reason_code w = ServiceStop) \<or>
     (terminal_state w = AbortedRestart \<and> reason_code w = ServiceRestart)"

definition validate_metadata :: "MessageMetadata \<Rightarrow> EventWindow \<Rightarrow> unit result" where
  "validate_metadata md w =
     (if metadata_invalid md w then Inl (Invalid_argument ''message metadata does not satisfy the v1 schema'')
      else if samples w = [] \<or> length (samples w) > 150
      then Inl (Invalid_argument ''window sample count does not satisfy the v1 schema'')
      else if \<not> terminal_pair_valid w
      then Inl (Invalid_argument ''terminal state and reason code do not satisfy the v1 schema'')
      else Inr ())"

text \<open>The texts of a chunk's samples, numbered from \<open>n\<close>, and the loop that joins them with commas.\<close>

fun sample_texts :: "(dbl \<Rightarrow> string option) \<Rightarrow> RetainedSample list \<Rightarrow> nat \<Rightarrow> string list result" where
  "sample_texts tc [] n = Inr []"
| "sample_texts tc (s # ss) n =
     bindE (sample_json tc s n) (\<lambda>t. bindE (sample_texts tc ss (n + 1)) (\<lambda>ts. Inr (t # ts)))"

definition canonicalize_chunk_content ::
    "(dbl \<Rightarrow> string option) \<Rightarrow> nat \<Rightarrow> nat \<Rightarrow> RetainedSample list \<Rightarrow> string result" where
  "canonicalize_chunk_content tc chunk_index first_sample_index ss =
     (if chunk_index > 14 \<or> first_sample_index > 149 \<or> ss = [] \<or> length ss > 10 \<or>
         first_sample_index + length ss > 150
      then Inl (Invalid_argument ''chunk bounds do not satisfy the v1 schema'')
      else bindE (sample_texts tc ss first_sample_index) (\<lambda>ts.
        Inr (''{\"chunkIndex\":'' @ to_string chunk_index @
             '',\"firstSampleIndex\":'' @ to_string first_sample_index @
             '',\"sampleCount\":'' @ to_string (length ss) @
             '',\"samples\":['' @ commas ts @ '']}'')))"

definition window_sha256 :: "string list \<Rightarrow> string result" where
  "window_sha256 hashes =
     (if hashes = [] \<or> length hashes > 15
      then Inl (Invalid_argument ''window must contain one to fifteen chunk digests'')
      else bindE (mapE hex_decode_sha256 hashes) (\<lambda>ds. Inr (sha256_hex (map byte (concat ds)))))"

definition canonicalize_completion_content :: "EventWindow \<Rightarrow> string list \<Rightarrow> string result" where
  "canonicalize_completion_content w hashes =
     (if samples w = [] \<or> length (samples w) > 150 \<or> \<not> is_rfc3339_millisecond_utc (trigger_timestamp w)
      then Inl (Invalid_argument ''completion window is invalid'')
      else
        (let pre = phase_count PhasePre (samples w);
             active = phase_count PhaseActive (samples w);
             post = phase_count PhasePost (samples w)
         in if pre > 30 \<or> active > 100 \<or> post > 20 \<or>
               length hashes < (length (samples w) + 9) div 10 \<or>
               length hashes > min 15 (length (samples w))
            then Inl (Invalid_argument ''completion counts do not satisfy the v1 schema'')
            else if \<not> distinct hashes then Inl (Invalid_argument ''chunk content digests must be unique'')
            else if \<not> list_all lowercase_sha256 hashes then Inl (Invalid_argument ''invalid chunk content digest'')
            else bindE (window_sha256 hashes) (\<lambda>window_hash.
              Inr (''{'' @ ''\"chunkContentSha256\":['' @ commas (map json_string hashes) @ '']'' @
                   '',\"phaseSampleCounts\":{\"ACTIVE\":'' @ to_string active @
                   '',\"POST\":'' @ to_string post @
                   '',\"PRE\":'' @ to_string pre @ ''}'' @
                   '',\"reasonCode\":'' @ json_string (reason_code_name (reason_code w)) @
                   '',\"terminalState\":'' @ json_string (terminal_state_name (terminal_state w)) @
                   '',\"totalChunks\":'' @ to_string (length hashes) @
                   '',\"totalSamples\":'' @ to_string (length (samples w)) @
                   '',\"triggerTimestamp\":'' @ json_string (trigger_timestamp w) @
                   '',\"windowEndTimestamp\":'' @ json_string (source_timestamp (frame (last (samples w)))) @
                   '',\"windowSha256\":'' @ json_string window_hash @
                   '',\"windowStartTimestamp\":'' @ json_string (source_timestamp (frame (hd (samples w)))) @
                   ''}''))))"

definition maximum_message_bytes :: nat where
  "maximum_message_bytes = 65536"

definition enforce_message_size :: "string \<Rightarrow> unit result" where
  "enforce_message_size message =
     throwIf (length message > maximum_message_bytes) (Length_error ''canonical message exceeds 64 KiB'')"

section \<open>Message sets\<close>

definition chunk_filename :: "nat \<Rightarrow> string" where
  "chunk_filename i = ''chunk-'' @ zero_pad 3 (to_string i) @ ''.json''"

text \<open>One turn of the loop: the message of the samples \<open>ss\<close> that start at index \<open>first\<close>.\<close>

definition build_chunk ::
    "(dbl \<Rightarrow> string option) \<Rightarrow> MessageMetadata \<Rightarrow> EventWindow \<Rightarrow> nat \<Rightarrow> nat \<Rightarrow> RetainedSample list \<Rightarrow> CanonicalMessage result" where
  "build_chunk tc md w chunk_index first ss =
     bindE (canonicalize_chunk_content tc chunk_index first ss) (\<lambda>content.
     bindE (top_level_message md w ''WINDOW_CHUNK'' content (sha256_hex content)) (\<lambda>message.
     bindE (enforce_message_size message) (\<lambda>_.
       Inr \<lparr>filename = chunk_filename chunk_index, canonical_json = message, content_sha256 = sha256_hex content\<rparr>)))"

function chunk_loop ::
    "(dbl \<Rightarrow> string option) \<Rightarrow> MessageMetadata \<Rightarrow> EventWindow \<Rightarrow> bool \<Rightarrow> nat \<Rightarrow> nat \<Rightarrow> CanonicalMessage list \<Rightarrow>
      CanonicalMessage list result" where
  "chunk_loop tc md w seal_pre pre_count first acc =
     (if first < length (samples w) then
        (let end_index = (if seal_pre \<and> first < pre_count then pre_count else length (samples w));
             count = min 10 (end_index - first)
         in bindE (build_chunk tc md w (length acc) first (take count (drop first (samples w)))) (\<lambda>m.
              chunk_loop tc md w seal_pre pre_count (first + count) (acc @ [m])))
      else Inr acc)"
  by pat_completeness auto
termination
  by (relation "measure (\<lambda>(tc, md, w, seal_pre, pre_count, first, acc). length (samples w) - first)") auto

declare chunk_loop.simps [simp del]

definition build_partitioned_messages ::
    "(dbl \<Rightarrow> string option) \<Rightarrow> MessageMetadata \<Rightarrow> EventWindow \<Rightarrow> bool \<Rightarrow> MessageSet result" where
  "build_partitioned_messages tc md w seal_pre =
     bindE (validate_metadata md w) (\<lambda>_.
       (let is_pre = (\<lambda>s. phase s = PhasePre);
            pre_count = length (takeWhile is_pre (samples w))
        in if seal_pre \<and> list_ex is_pre (dropWhile is_pre (samples w))
           then Inl (Invalid_argument ''PRE samples must precede ACTIVE/POST'')
           else bindE (chunk_loop tc md w seal_pre pre_count 0 []) (\<lambda>cs.
             bindE (canonicalize_completion_content w (map content_sha256 cs)) (\<lambda>content.
             bindE (top_level_message md w ''WINDOW_COMPLETION'' content (sha256_hex content)) (\<lambda>message.
             bindE (enforce_message_size message) (\<lambda>_.
               Inr \<lparr>chunks = cs, completion = \<lparr>filename = ''completion.json'', canonical_json = message,
                 content_sha256 = sha256_hex content\<rparr>\<rparr>))))))"

definition build_messages where
  "build_messages tc md w = build_partitioned_messages tc md w False"

definition build_growing_messages where
  "build_growing_messages tc md w = build_partitioned_messages tc md w True"

section \<open>The partition\<close>

text \<open>
  The specification of the loop: the samples in groups of ten, the PRE samples apart from the rest
  in the growing form, one message per group.
\<close>

fun tens :: "'a list \<Rightarrow> 'a list list" where
  "tens [] = []"
| "tens (x # xs) = (x # take 9 xs) # tens (drop 9 xs)"

definition is_pre :: "RetainedSample \<Rightarrow> bool" where
  "is_pre s \<longleftrightarrow> phase s = PhasePre"

definition groups :: "bool \<Rightarrow> RetainedSample list \<Rightarrow> RetainedSample list list" where
  "groups seal_pre ss = (if seal_pre then tens (takeWhile is_pre ss) @ tens (dropWhile is_pre ss) else tens ss)"

fun build_chunks ::
    "(dbl \<Rightarrow> string option) \<Rightarrow> MessageMetadata \<Rightarrow> EventWindow \<Rightarrow> nat \<Rightarrow> nat \<Rightarrow> RetainedSample list list \<Rightarrow>
      CanonicalMessage list result" where
  "build_chunks tc md w i first [] = Inr []"
| "build_chunks tc md w i first (g # gs) =
     bindE (build_chunk tc md w i first g) (\<lambda>m.
       bindE (build_chunks tc md w (i + 1) (first + length g) gs) (\<lambda>ms. Inr (m # ms)))"

lemma tens_unfold: "xs \<noteq> [] \<Longrightarrow> tens xs = take 10 xs # tens (drop 10 xs)"
  by (cases xs) (simp_all add: numeral_eq_Suc)

lemma length_tens: "length (tens xs) = (length xs + 9) div 10"
proof (induction xs rule: tens.induct)
  case (2 x xs)
  show ?case
  proof (cases "length xs \<le> 9")
    case True
    with 2 show ?thesis by simp
  next
    case False
    then have "length xs + 10 = (length xs - 9 + 9) + 10" by simp
    then have "(length xs + 10) div 10 = Suc ((length xs - 9 + 9) div 10)" by (simp only: div_add_self2)
    with 2 show ?thesis by simp
  qed
qed simp

lemma concat_tens [simp]: "concat (tens xs) = xs"
  by (induction xs rule: tens.induct) simp_all

lemma tens_sizes: "list_all (\<lambda>g. g \<noteq> [] \<and> length g \<le> 10) (tens xs)"
  by (induction xs rule: tens.induct) simp_all

lemma tens_all: "list_all P xs \<Longrightarrow> list_all (list_all P) (tens xs)"
  by (induction xs rule: tens.induct) (auto simp: list_all_iff dest: in_set_takeD in_set_dropD)

lemma groups_append_pre: "concat (groups seal_pre ss) = ss"
  by (simp add: groups_def)

lemma groups_sizes: "list_all (\<lambda>g. g \<noteq> [] \<and> length g \<le> 10) (groups seal_pre ss)"
  using tens_sizes by (auto simp: groups_def)

definition rest_groups :: "bool \<Rightarrow> nat \<Rightarrow> nat \<Rightarrow> RetainedSample list \<Rightarrow> RetainedSample list list" where
  "rest_groups seal_pre pre_count first ss =
     (if seal_pre \<and> first < pre_count then tens (drop first (take pre_count ss)) @ tens (drop pre_count ss)
      else tens (drop first ss))"

lemma rest_groups_step:
  fixes ss :: "RetainedSample list" and seal_pre :: bool
  assumes "pre_count \<le> length ss" and "first < length ss"
  defines "count \<equiv> min 10 ((if seal_pre \<and> first < pre_count then pre_count else length ss) - first)"
  shows "rest_groups seal_pre pre_count first ss = take count (drop first ss) # rest_groups seal_pre pre_count (first + count) ss"
proof (cases "seal_pre \<and> first < pre_count")
  case True
  let ?xs = "drop first (take pre_count ss)"
  from True assms have len: "length ?xs = pre_count - first" and "?xs \<noteq> []" by auto
  then have "tens ?xs = take 10 ?xs # tens (drop 10 ?xs)" by (intro tens_unfold)
  moreover have "take 10 ?xs = take count (drop first ss)"
    using True by (simp add: count_def take_drop min_def add.commute)
  moreover have "drop 10 ?xs = drop (first + count) (take pre_count ss)"
    using True by (cases "10 \<le> pre_count - first") (auto simp: count_def min_def add.commute)
  moreover have "first + count < pre_count \<or> first + count = pre_count" using True by (auto simp: count_def)
  ultimately show ?thesis using True by (auto simp: rest_groups_def)
next
  case False
  with assms have "tens (drop first ss) = take 10 (drop first ss) # tens (drop 10 (drop first ss))"
    by (intro tens_unfold) simp
  moreover have "take count (drop first ss) = take 10 (drop first ss)"
    and "drop count (drop first ss) = drop 10 (drop first ss)"
    using False by (auto simp: count_def min_def)
  ultimately show ?thesis using False
    by (auto simp: rest_groups_def add.commute)
qed

lemma chunk_loop_groups:
  assumes "pre_count \<le> length (samples w)"
  shows "chunk_loop tc md w seal_pre pre_count first acc =
    bindE (build_chunks tc md w (length acc) first (rest_groups seal_pre pre_count first (samples w)))
      (\<lambda>ms. Inr (acc @ ms))"
  using assms
proof (induction tc md w seal_pre pre_count first acc rule: chunk_loop.induct)
  case (1 tc md w seal_pre pre_count first acc)
  show ?case
  proof (cases "first < length (samples w)")
    case True
    define count where "count = min 10 ((if seal_pre \<and> first < pre_count then pre_count else length (samples w)) - first)"
    let ?g = "take count (drop first (samples w))"
    have step: "rest_groups seal_pre pre_count first (samples w) = ?g # rest_groups seal_pre pre_count (first + count) (samples w)"
      using rest_groups_step [OF "1.prems" True] by (simp add: count_def)
    have glen: "length ?g = count" using "1.prems" True by (auto simp: count_def)
    have "chunk_loop tc md w seal_pre pre_count first acc =
        bindE (build_chunk tc md w (length acc) first ?g) (\<lambda>m. chunk_loop tc md w seal_pre pre_count (first + count) (acc @ [m]))"
      using True by (simp add: chunk_loop.simps [of _ _ _ _ _ first] count_def Let_def)
    also have "\<dots> = bindE (build_chunk tc md w (length acc) first ?g) (\<lambda>m.
        bindE (build_chunks tc md w (Suc (length acc)) (first + count) (rest_groups seal_pre pre_count (first + count) (samples w)))
          (\<lambda>ms. Inr ((acc @ [m]) @ ms)))"
    proof -
      have "chunk_loop tc md w seal_pre pre_count (first + count) (acc @ [m]) =
          bindE (build_chunks tc md w (length (acc @ [m])) (first + count) (rest_groups seal_pre pre_count (first + count) (samples w)))
            (\<lambda>ms. Inr ((acc @ [m]) @ ms))" for m
        using "1.IH" [OF True refl refl "1.prems"] by (simp add: count_def)
      then show ?thesis by simp
    qed
    finally show ?thesis using glen by (simp add: step bindE_assoc)
  next
    case False
    with "1.prems" show ?thesis by (auto simp: chunk_loop.simps [of _ _ _ _ _ first] rest_groups_def)
  qed
qed

lemma rest_groups_all: "rest_groups seal_pre (length (takeWhile is_pre ss)) 0 ss = groups seal_pre ss"
proof -
  have "take (length (takeWhile is_pre ss)) ss = takeWhile is_pre ss"
    and "drop (length (takeWhile is_pre ss)) ss = dropWhile is_pre ss"
    by (metis takeWhile_eq_take) (metis dropWhile_eq_drop)
  moreover have "dropWhile is_pre ss = ss" if "takeWhile is_pre ss = []"
    using takeWhile_dropWhile_id [of is_pre ss] that by simp
  ultimately show ?thesis by (auto simp: rest_groups_def groups_def)
qed

lemma build_partitioned_eq:
  "build_partitioned_messages tc md w seal_pre =
     bindE (validate_metadata md w) (\<lambda>_.
       if seal_pre \<and> list_ex is_pre (dropWhile is_pre (samples w))
       then Inl (Invalid_argument ''PRE samples must precede ACTIVE/POST'')
       else bindE (build_chunks tc md w 0 0 (groups seal_pre (samples w))) (\<lambda>cs.
         bindE (canonicalize_completion_content w (map content_sha256 cs)) (\<lambda>content.
         bindE (top_level_message md w ''WINDOW_COMPLETION'' content (sha256_hex content)) (\<lambda>message.
         bindE (enforce_message_size message) (\<lambda>_.
           Inr \<lparr>chunks = cs, completion = \<lparr>filename = ''completion.json'', canonical_json = message,
             content_sha256 = sha256_hex content\<rparr>\<rparr>)))))"
proof -
  have "(\<lambda>s. phase s = PhasePre) = is_pre" by (simp add: is_pre_def fun_eq_iff)
  then show ?thesis
    using chunk_loop_groups [OF length_takeWhile_le, of tc md w seal_pre is_pre 0 "[]"]
    by (simp add: build_partitioned_messages_def rest_groups_all)
qed

text \<open>
  C22. Building the messages of a window is the specification: exactly one message per group, with
  the group's position and the index of its first sample, and a completion over the digests in
  order. The groups are the samples of the window in order, none empty or above ten.
\<close>

theorem build_refines_groups:
  "build_partitioned_messages tc md w seal_pre =
     bindE (validate_metadata md w) (\<lambda>_.
       if seal_pre \<and> list_ex is_pre (dropWhile is_pre (samples w))
       then Inl (Invalid_argument ''PRE samples must precede ACTIVE/POST'')
       else bindE (build_chunks tc md w 0 0 (groups seal_pre (samples w))) (\<lambda>cs.
         bindE (canonicalize_completion_content w (map content_sha256 cs)) (\<lambda>content.
         bindE (top_level_message md w ''WINDOW_COMPLETION'' content (sha256_hex content)) (\<lambda>message.
         bindE (enforce_message_size message) (\<lambda>_.
           Inr \<lparr>chunks = cs, completion = \<lparr>filename = ''completion.json'', canonical_json = message,
             content_sha256 = sha256_hex content\<rparr>\<rparr>))))) \<and>
   concat (groups seal_pre (samples w)) = samples w \<and>
   list_all (\<lambda>g. g \<noteq> [] \<and> length g \<le> 10) (groups seal_pre (samples w))"
  by (intro conjI build_partitioned_eq groups_append_pre groups_sizes)

subsection \<open>Sealed chunks\<close>

text \<open>What \<open>sealed_capture_chunk\<close> of the runtime recognises: a full chunk or one of PRE samples only.\<close>

definition sealed_group :: "RetainedSample list \<Rightarrow> bool" where
  "sealed_group g \<longleftrightarrow> length g = 10 \<or> list_all is_pre g"

lemma tens_append_full:
  assumes "i < length (tens xs)" and "length (tens xs ! i) = 10"
  shows "take (Suc i) (tens (xs @ ys)) = take (Suc i) (tens xs)"
  using assms
proof (induction xs arbitrary: i rule: tens.induct)
  case (2 x xs)
  have full: "length xs \<ge> 9"
  proof (rule ccontr)
    assume "\<not> length xs \<ge> 9"
    with 2 show False by (cases i) auto
  qed
  then have "tens ((x # xs) @ ys) = (x # take 9 xs) # tens (drop 9 xs @ ys)" by simp
  with full 2 show ?case by (cases i) auto
qed simp

lemma groups_append:
  assumes "list_all (\<lambda>s. \<not> is_pre s) grown" and "\<not> list_ex is_pre (dropWhile is_pre ss)"
    and i: "i < length (groups True ss)" and sealed: "sealed_group (groups True ss ! i)"
  shows "take (Suc i) (groups True (ss @ grown)) = take (Suc i) (groups True ss)"
proof -
  let ?pre = "takeWhile is_pre ss" and ?rest = "dropWhile is_pre ss"
  have split: "takeWhile is_pre (ss @ grown) = ?pre \<and> dropWhile is_pre (ss @ grown) = ?rest @ grown"
  proof (cases "list_all is_pre ss")
    case True
    then have "ss = ?pre" "?rest = []" by (simp_all add: list_all_iff takeWhile_eq_all_conv [THEN iffD2] dropWhile_eq_Nil_conv)
    moreover have "takeWhile is_pre grown = []" "dropWhile is_pre grown = grown"
      using assms(1) by (cases grown; simp)+
    ultimately show ?thesis using True by (simp add: list_all_iff takeWhile_append2 dropWhile_append2)
  next
    case False
    then obtain s where "s \<in> set ss" "\<not> is_pre s" by (auto simp: list_all_iff)
    then show ?thesis by (simp add: takeWhile_append1 dropWhile_append1)
  qed
  show ?thesis
  proof (cases "i < length (tens ?pre)")
    case True
    with split show ?thesis by (simp add: groups_def)
  next
    case False
    let ?j = "i - length (tens ?pre)"
    from False i have j: "?j < length (tens ?rest)" "groups True ss ! i = tens ?rest ! ?j"
      by (auto simp: groups_def nth_append)
    have "list_all (list_all (\<lambda>s. \<not> is_pre s)) (tens ?rest)"
      using assms(2) by (intro tens_all) (auto simp: list_all_iff list_ex_iff)
    with j have "list_all (\<lambda>s. \<not> is_pre s) (tens ?rest ! ?j)" by (simp add: list_all_length)
    moreover from j tens_sizes [of ?rest] have "tens ?rest ! ?j \<noteq> []" by (simp add: list_all_length)
    ultimately have "length (tens ?rest ! ?j) = 10"
      using sealed j by (cases "tens ?rest ! ?j") (auto simp: sealed_group_def)
    from tens_append_full [OF j(1) this, of grown] False split show ?thesis
      by (simp add: groups_def Suc_diff_le)
  qed
qed

lemma build_chunks_nth:
  "build_chunks tc md w n first gs = Inr ms \<Longrightarrow> length ms = length gs \<and> (\<forall>i < length gs.
    build_chunk tc md w (n + i) (first + length (concat (take i gs))) (gs ! i) = Inr (ms ! i))"
proof (induction gs arbitrary: n first ms)
  case (Cons g gs)
  from Cons.prems obtain m ms' where m: "build_chunk tc md w n first g = Inr m" "ms = m # ms'"
    "build_chunks tc md w (n + 1) (first + length g) gs = Inr ms'" by (auto simp: bindE_eq_Inr)
  have "build_chunk tc md w (n + i) (first + length (concat (take i (g # gs)))) ((g # gs) ! i) = Inr (ms ! i)"
    if "i < length (g # gs)" for i
    using that Cons.IH [OF m(3)] m by (cases i) (simp_all add: add.assoc)
  with Cons.IH [OF m(3)] m show ?case by auto
qed simp

lemma build_chunk_event_only:
  "event_id w = event_id w' \<Longrightarrow> build_chunk tc md w = build_chunk tc md w'"
  by (simp add: build_chunk_def top_level_message_def fun_eq_iff)

lemma build_growing_chunks:
  assumes "build_growing_messages tc md w = Inr ms"
  shows "build_chunks tc md w 0 0 (groups True (samples w)) = Inr (chunks ms)"
    and "\<not> list_ex is_pre (dropWhile is_pre (samples w))"
  using assms
  by (auto simp: build_growing_messages_def build_partitioned_eq bindE_eq_Inr split: if_splits)

lemma sealed_chunks_agree:
  assumes "build_growing_messages tc md w = Inr ms" and "build_growing_messages tc md w' = Inr ms'"
    and "event_id w' = event_id w" and "samples w' = samples w @ grown" and "list_all (\<lambda>s. \<not> is_pre s) grown"
    and "i < length (chunks ms)" and "sealed_group (groups True (samples w) ! i)"
  shows "i < length (chunks ms') \<and> chunks ms' ! i = chunks ms ! i"
proof -
  note w = build_growing_chunks [OF assms(1)] and w' = build_growing_chunks [OF assms(2)]
  let ?g = "groups True (samples w)" and ?g' = "groups True (samples w')"
  have i: "i < length ?g" using build_chunks_nth [OF w(1)] assms(6) by simp
  have pre: "take (Suc i) ?g' = take (Suc i) ?g"
    using groups_append [OF assms(5) w(2) i assms(7)] assms(4) by simp
  with i have i': "i < length ?g'" by (metis length_take min_less_iff_conj lessI Suc_leI min.absorb2)
  from pre i i' have "?g' ! i = ?g ! i" by (metis lessI nth_take)
  moreover from pre have "take i ?g' = take i ?g" by (metis take_take min.absorb2 le_SucI le_refl min.commute)
  ultimately have "Inr (chunks ms' ! i) = (Inr (chunks ms ! i) :: CanonicalMessage result)"
    using build_chunks_nth [OF w(1)] build_chunks_nth [OF w'(1)] i i' build_chunk_event_only [OF assms(3)]
    by metis
  with i' build_chunks_nth [OF w'(1)] show ?thesis by simp
qed

text \<open>
  C21. A sealed chunk never changes: when a window of the same event grows by samples that are not
  PRE, every full chunk and every chunk of PRE samples is the same message, byte for byte and at
  the same position, in the longer window. This is what the runtime relies on when it sends chunks
  of an event that is still being captured.
\<close>

theorem sealed_chunks_stable:
  assumes "event_id w' = event_id w" and "samples w' = samples w @ grown" and "list_all (\<lambda>s. \<not> is_pre s) grown"
  shows "case (build_growing_messages tc md w, build_growing_messages tc md w') of
      (Inr ms, Inr ms') \<Rightarrow>
        list_all (\<lambda>i. i < length (chunks ms') \<and> chunks ms' ! i = chunks ms ! i)
          (filter (\<lambda>i. sealed_group (groups True (samples w) ! i)) [0..<length (chunks ms)])
    | _ \<Rightarrow> True"
  using sealed_chunks_agree [OF _ _ assms] by (auto simp: list_all_iff split: sum.splits)

section \<open>Every window of the engine can be written\<close>

lemma length_json_string: "length (json_string s) \<le> 6 * length s + 2"
proof -
  have "length (escape_char c) \<le> 6" for c by (simp add: escape_char_def)
  then have "length (concat (map escape_char s)) \<le> 6 * length s"
    by (induction s) (simp_all add: add_mono)
  then show ?thesis by (simp add: json_string_def)
qed

lemma rfc3339_length: "is_rfc3339_millisecond_utc t \<Longrightarrow> length t = 24"
  by (simp add: is_rfc3339_millisecond_utc_def split: if_splits)

lemma length_int_to_string: "0 \<le> i \<Longrightarrow> i < 10 ^ k \<Longrightarrow> 0 < k \<Longrightarrow> length (int_to_string i) \<le> k"
  by (auto simp: int_to_string_def nat_less_iff intro!: to_string_length_le)

text \<open>What is assumed of \<open>std::to_chars\<close>: it succeeds and its texts are short numbers.\<close>

definition number_texts :: "(dbl \<Rightarrow> string option) \<Rightarrow> bool" where
  "number_texts tc \<longleftrightarrow> (\<forall>q. \<exists>t. canonical_number tc (Fin q) = Inr t \<and> length t \<le> 64)"

lemma number_textsD:
  assumes "number_texts tc" and "inside x lo hi"
  obtains t where "canonical_number tc x = Inr t" and "length t \<le> 64"
  using assms by (cases x) (auto simp: number_texts_def inside_def)

lemma sample_json_total:
  assumes "number_texts tc" and "sound_frame (frame s)" and "n \<le> 149"
  shows "\<exists>t. sample_json tc s n = Inr t \<and> length t \<le> 1000"
proof -
  let ?f = "frame s"
  have sound: "valid (validate ?f None None)"
    using assms(2) by (simp add: validate_valid_iff not_before_def)
  obtain a b c d where num: "canonical_number tc (lateral_acceleration_mps2 ?f) = Inr a" "length a \<le> 64"
    "canonical_number tc (longitudinal_acceleration_mps2 ?f) = Inr b" "length b \<le> 64"
    "canonical_number tc (speed_kph ?f) = Inr c" "length c \<le> 64"
    "canonical_number tc (vertical_acceleration_mps2 ?f) = Inr d" "length d \<le> 64"
    using assms(2) unfolding sound_frame_def by (metis number_textsD [OF assms(1)])
  have ints: "length (int_to_string (accelerator_pedal_percent ?f)) \<le> 3"
    "length (int_to_string (brake_pedal_percent ?f)) \<le> 3" "length (int_to_string (max_source_age_ms ?f)) \<le> 4"
    "length (to_string n) \<le> 3"
    using assms(2,3) by (auto simp: sound_frame_def intro!: length_int_to_string to_string_length_le)
  have "length (source_timestamp ?f) = 24" using assms(2) by (simp add: sound_frame_def rfc3339_length)
  then have strs: "length (json_string (source_timestamp ?f)) \<le> 146" "length (json_string (phase_name (phase s))) \<le> 38"
    using length_json_string [of "source_timestamp ?f"] length_json_string [of "phase_name (phase s)"]
    by (simp_all add: phase_name_def split: Phase.splits)
  show ?thesis using sound assms(3) num ints strs by (simp add: sample_json_def Let_def)
qed

lemma sample_texts_total:
  assumes "number_texts tc" and "list_all (\<lambda>s. sound_frame (frame s)) ss" and "n + length ss \<le> 150"
  shows "\<exists>ts. sample_texts tc ss n = Inr ts \<and> length (commas ts) \<le> 1001 * length ss"
  using assms(2,3)
proof (induction ss arbitrary: n)
  case (Cons s ss)
  obtain ts where ts: "sample_texts tc ss (n + 1) = Inr ts" "length (commas ts) \<le> 1001 * length ss"
    using Cons.IH [of "n + 1"] Cons.prems by auto
  from Cons.prems sample_json_total [OF assms(1), of s n] obtain t where
    "sample_json tc s n = Inr t" "length t \<le> 1000" by auto
  with ts show ?case by (simp add: commas_Cons)
qed simp

lemma chunk_content_total:
  assumes "number_texts tc" and "list_all (\<lambda>s. sound_frame (frame s)) g" and "g \<noteq> []" and "length g \<le> 10"
    and "first + length g \<le> 150" and "i \<le> 14"
  shows "\<exists>c. canonicalize_chunk_content tc i first g = Inr c \<and> length c \<le> 11000"
proof -
  from sample_texts_total [OF assms(1,2,5)] obtain ts where
    ts: "sample_texts tc g first = Inr ts" "length (commas ts) \<le> 1001 * length g" by blast
  have "length g > 0" using assms(3) by simp
  then have "first \<le> 149" using assms(5) by linarith
  moreover from this have "length (to_string i) \<le> 3" "length (to_string first) \<le> 3" "length (to_string (length g)) \<le> 3"
    using assms by (auto intro!: to_string_length_le)
  ultimately show ?thesis using ts assms by (simp add: canonicalize_chunk_content_def)
qed

definition short_versions :: "MessageMetadata \<Rightarrow> bool" where
  "short_versions md \<longleftrightarrow> length (service_version md) \<le> 32 \<and> length (vdp_contract_version md) \<le> 32"

lemma service_instance_json_total:
  assumes "native_instance_valid i"
  shows "\<exists>t. service_instance_json i = Inr t \<and> length t \<le> 500"
proof -
  have "length (to_string (instance_index i)) \<le> 16"
    using assms by (intro to_string_length_le) (auto simp: native_instance_valid_def)
  then show ?thesis using assms
    by (auto simp: service_instance_json_def native_instance_valid_def native_identifier_def)
qed

lemma top_level_message_total:
  assumes md: "\<not> metadata_invalid md w" and "short_versions md" and "length content \<le> 50000"
    and "lowercase_sha256 sha" and "length kind \<le> 20"
  shows "\<exists>t. top_level_message md w kind content sha = Inr t \<and> length t \<le> 65536"
proof -
  have bounds: "length (event_id w) = 36" "length (unit_system_uid md) \<le> 128" "length sha = 64"
    "length (vdp_contract_sha256 md) = 64" "length (service_version md) \<le> 32" "length (vdp_contract_version md) \<le> 32"
    using md assms(2,4)
    by (auto simp: metadata_invalid_def uuid4_def bounded_identifier_def lowercase_sha256_def short_versions_def)
  note js = length_json_string [of sha] length_json_string [of "event_id w"] length_json_string [of kind]
    length_json_string [of "service_version md"] length_json_string [of "unit_role_name (unit_role md)"]
    length_json_string [of "unit_system_uid md"] length_json_string [of "vdp_contract_sha256 md"]
    length_json_string [of "vdp_contract_version md"] length_json_string [of "service_artifact_sha256 md"]
  have role: "length (unit_role_name (unit_role md)) \<le> 10"
    by (simp add: unit_role_name_def split: UnitRole.splits)
  show ?thesis
  proof (cases "service_instance md")
    case None
    with md have "length (service_artifact_sha256 md) = 64"
      by (auto simp: metadata_invalid_def lowercase_sha256_def)
    with None bounds js role assms(3,5) show ?thesis by (simp add: top_level_message_def)
  next
    case (Some i)
    with md have "native_instance_valid i" by (auto simp: metadata_invalid_def native_provenance_valid_def)
    then obtain t where "service_instance_json i = Inr t" "length t \<le> 500"
      using service_instance_json_total by blast
    with Some bounds js role assms(3,5) show ?thesis by (simp add: top_level_message_def)
  qed
qed

lemma build_chunk_total:
  assumes "number_texts tc" and "\<not> metadata_invalid md w" and "short_versions md"
    and "list_all (\<lambda>s. sound_frame (frame s)) g" and "g \<noteq> []" and "length g \<le> 10"
    and "first + length g \<le> 150" and "i \<le> 14"
  shows "\<exists>m. build_chunk tc md w i first g = Inr m \<and> lowercase_sha256 (content_sha256 m)"
proof -
  from chunk_content_total [OF assms(1,4-8)] obtain c where
    c: "canonicalize_chunk_content tc i first g = Inr c" "length c \<le> 11000" by blast
  then obtain t where "top_level_message md w ''WINDOW_CHUNK'' c (sha256_hex c) = Inr t" "length t \<le> 65536"
    using top_level_message_total [OF assms(2,3) _ sha256_hex_lowercase, of c "''WINDOW_CHUNK''"] by auto
  with c show ?thesis
    by (simp add: build_chunk_def enforce_message_size_def maximum_message_bytes_def throwIf_def sha256_hex_lowercase)
qed

lemma build_chunks_total:
  assumes "number_texts tc" and "\<not> metadata_invalid md w" and "short_versions md"
  shows "list_all (\<lambda>g. g \<noteq> [] \<and> length g \<le> 10) gs \<Longrightarrow> list_all (\<lambda>s. sound_frame (frame s)) (concat gs) \<Longrightarrow>
    first + length (concat gs) \<le> 150 \<Longrightarrow> i + length gs \<le> 15 \<Longrightarrow>
    \<exists>ms. build_chunks tc md w i first gs = Inr ms \<and> list_all (\<lambda>m. lowercase_sha256 (content_sha256 m)) ms"
proof (induction gs arbitrary: i first)
  case (Cons g gs)
  from Cons.prems build_chunk_total [OF assms, of g first i] obtain m where
    m: "build_chunk tc md w i first g = Inr m" "lowercase_sha256 (content_sha256 m)" by auto
  from Cons.prems Cons.IH [of "first + length g" "i + 1"] obtain ms where
    "build_chunks tc md w (i + 1) (first + length g) gs = Inr ms" "list_all (\<lambda>m. lowercase_sha256 (content_sha256 m)) ms"
    by auto
  with m show ?case by simp
qed simp

lemma mapE_total: "list_all (\<lambda>x. okE (f x)) xs \<Longrightarrow> \<exists>ys. mapE f xs = Inr ys"
  by (induction xs) (auto simp: okE_iff)

lemma hex_decode_lowercase: "lowercase_sha256 t \<Longrightarrow> \<exists>bs. hex_decode_sha256 t = Inr bs"
  using hex_decode_loop_text [of t] by (auto simp: lowercase_sha256_def hex_decode_sha256_def)

lemma window_sha256_total:
  assumes "hs \<noteq> []" and "length hs \<le> 15" and "list_all lowercase_sha256 hs"
  shows "\<exists>t. window_sha256 hs = Inr t \<and> length t = 64"
proof -
  have "list_all (\<lambda>h. okE (hex_decode_sha256 h)) hs"
    using assms(3) by (auto simp: list_all_iff okE_iff dest!: hex_decode_lowercase)
  then obtain ds where "mapE hex_decode_sha256 hs = Inr ds" using mapE_total by blast
  with assms show ?thesis
    using sha256_hex_lowercase by (simp add: window_sha256_def lowercase_sha256_def)
qed

lemma length_commas: "list_all (\<lambda>t. length t \<le> n) ts \<Longrightarrow> length (commas ts) \<le> (n + 1) * length ts"
  by (induction ts) (auto simp: commas_Cons)

lemma names_length:
  "length (reason_code_name r) \<le> 19" "length (terminal_state_name t) \<le> 22"
  by (simp_all add: reason_code_name_def terminal_state_name_def split: ReasonCode.splits TerminalState.splits)

lemma completion_content_total:
  assumes w: "window_ok w" "samples w \<noteq> []" "phase_count PhasePost (samples w) \<le> 20"
    and hs: "distinct hs" "list_all lowercase_sha256 hs" "(length (samples w) + 9) div 10 \<le> length hs"
      "length hs \<le> min 15 (length (samples w))"
  shows "\<exists>t. canonicalize_completion_content w hs = Inr t \<and> length t \<le> 50000"
proof -
  have ts: "is_rfc3339_millisecond_utc (trigger_timestamp w)" "length (samples w) \<le> 150"
    "phase_count PhasePre (samples w) \<le> 30" "phase_count PhaseActive (samples w) \<le> 100"
    and fr: "\<forall>s \<in> set (samples w). sound_frame (frame s)"
    using w(1) by (auto simp: window_ok_def captured_ok_def chronicle_def)
  from hs(3) w(2) have "hs \<noteq> []" by (cases "samples w") auto
  with hs obtain wh where wh: "window_sha256 hs = Inr wh" "length wh = 64"
    using window_sha256_total [of hs] by auto
  have "length (json_string h) \<le> 386" if "h \<in> set hs" for h
    using that hs(2) length_json_string [of h] by (auto simp: list_all_iff lowercase_sha256_def)
  then have "length (commas (map json_string hs)) \<le> 387 * length (map json_string hs)"
    using length_commas [of 386 "map json_string hs"] by (auto simp: list_all_iff)
  then have ch: "length (commas (map json_string hs)) \<le> 5805" using hs(4) by simp
  have "length (source_timestamp (frame (last (samples w)))) = 24" "length (source_timestamp (frame (hd (samples w)))) = 24"
    using fr w(2) by (simp_all add: sound_frame_def rfc3339_length)
  note lens = this rfc3339_length [OF ts(1)] names_length(1) [of "reason_code w"] names_length(2) [of "terminal_state w"]
    length_json_string [of "reason_code_name (reason_code w)"] length_json_string [of "terminal_state_name (terminal_state w)"]
    length_json_string [of "trigger_timestamp w"] length_json_string [of wh]
    length_json_string [of "source_timestamp (frame (last (samples w)))"]
    length_json_string [of "source_timestamp (frame (hd (samples w)))"]
  have nums: "length (to_string (phase_count PhasePre (samples w))) \<le> 3" "length (to_string (phase_count PhaseActive (samples w))) \<le> 3"
    "length (to_string (phase_count PhasePost (samples w))) \<le> 3" "length (to_string (length hs)) \<le> 3"
    "length (to_string (length (samples w))) \<le> 3"
    using ts w(3) hs(4) by (auto intro!: to_string_length_le)
  show ?thesis using ts w hs wh ch lens nums
    by (simp add: canonicalize_completion_content_def Let_def not_less)
qed

lemma phase_count_total: "length xs = phase_count PhasePre xs + phase_count PhaseActive xs + phase_count PhasePost xs"
proof (induction xs)
  case (Cons s xs)
  then show ?case by (cases "phase s") (simp_all add: phase_count_def)
qed (simp add: phase_count_def)

lemma groups_count:
  assumes "captured_ok ss" and "phase_count PhasePost ss \<le> 20" and "length ss \<le> 150"
  shows "length (groups True ss) \<le> min 15 (length ss)" and "(length ss + 9) div 10 \<le> length (groups True ss)"
proof -
  let ?p = "takeWhile is_pre ss" and ?r = "dropWhile is_pre ss"
  have len: "length ss = length ?p + length ?r" by (metis length_append takeWhile_dropWhile_id)
  have pre: "(\<lambda>s. phase s = PhasePre) = is_pre" by (simp add: is_pre_def fun_eq_iff)
  have split: "phase_count k ss = phase_count k ?p + phase_count k ?r" for k
    by (metis phase_count_append takeWhile_dropWhile_id)
  moreover have "phase_count PhasePre ?p = length ?p"
    by (simp add: phase_count_def pre) (metis filter_True set_takeWhileD)
  ultimately have p: "length ?p \<le> 30" using assms(1) by (simp add: captured_ok_def)
  have "phase_count PhasePre ?r = 0"
    using assms(1) by (simp add: captured_ok_def pre_prefix_def pre phase_count_def list_all_iff)
      (auto simp: filter_empty_conv is_pre_def)
  then have r: "length ?r \<le> 120"
    using split [of PhaseActive] split [of PhasePost] assms phase_count_total [of ?r] by (simp add: captured_ok_def)
  have "(length ?p + 9) div 10 \<le> 3" "(length ?r + 9) div 10 \<le> 12" using p r by presburger+
  moreover have "(n + 9) div 10 \<le> n" for n :: nat by presburger
  ultimately show "length (groups True ss) \<le> min 15 (length ss)"
    unfolding len by (simp add: groups_def length_tens add_mono)
  show "(length ss + 9) div 10 \<le> length (groups True ss)"
    using len by (simp add: groups_def length_tens)
qed

text \<open>C23. Composition with the window engine: every non-empty window the engine hands over with at most
  20 POST samples is written by the growing form, as at most 15 chunks and one completion, for
  valid metadata and a \<open>std::to_chars\<close> that prints short numbers, unless two chunks have the same digest.
\<close>

theorem growing_messages_total:
  assumes w: "window_ok w" "samples w \<noteq> []" "phase_count PhasePost (samples w) \<le> 20"
    and md: "\<not> metadata_invalid md w" "short_versions md" and tc: "number_texts tc"
    and distinct_digests: "\<And>cs. build_chunks tc md w 0 0 (groups True (samples w)) = Inr cs \<Longrightarrow> distinct (map content_sha256 cs)"
  shows "\<exists>ms. build_growing_messages tc md w = Inr ms \<and> length (chunks ms) \<le> 15"
proof -
  have cap: "captured_ok (samples w)" "length (samples w) \<le> 150" "list_all (\<lambda>s. sound_frame (frame s)) (samples w)"
    using w(1) by (auto simp: window_ok_def chronicle_def list_all_iff)
  note count = groups_count [OF cap(1) w(3) cap(2)]
  obtain cs where cs: "build_chunks tc md w 0 0 (groups True (samples w)) = Inr cs"
      "list_all (\<lambda>m. lowercase_sha256 (content_sha256 m)) cs"
    using build_chunks_total [OF tc md, of "groups True (samples w)" 0 0] count cap groups_sizes [of True "samples w"]
    by (auto simp: groups_append_pre)
  have len: "length cs = length (groups True (samples w))" using build_chunks_nth [OF cs(1)] by simp
  obtain c where c: "canonicalize_completion_content w (map content_sha256 cs) = Inr c" "length c \<le> 50000"
    using completion_content_total [OF w, of "map content_sha256 cs"] distinct_digests [OF cs(1)] cs(2) count len
    by (auto simp: list_all_iff)
  obtain t where t: "top_level_message md w ''WINDOW_COMPLETION'' c (sha256_hex c) = Inr t" "length t \<le> 65536"
    using top_level_message_total [OF md c(2) sha256_hex_lowercase, of "''WINDOW_COMPLETION''"] by auto
  have pre: "(\<lambda>s. phase s = PhasePre) = is_pre" by (simp add: is_pre_def fun_eq_iff)
  have "validate_metadata md w = Inr ()"
    using md(1) w cap(2) by (auto simp: validate_metadata_def terminal_pair_valid_def window_ok_def)
  moreover have "\<not> list_ex is_pre (dropWhile is_pre (samples w))"
    using cap(1) pre by (simp add: captured_ok_def pre_prefix_def list_all_iff list_ex_iff)
      (auto simp: is_pre_def)
  ultimately show ?thesis using cs(1) c t count len
    by (auto simp: build_growing_messages_def build_partitioned_eq enforce_message_size_def maximum_message_bytes_def)
qed

text \<open>A concrete window of one sample, and metadata for it.\<close>

definition sample_at :: "nat \<Rightarrow> Phase \<Rightarrow> RetainedSample" where
  "sample_at n p =
     \<lparr>frame = \<lparr>speed_kph = Fin 80, longitudinal_acceleration_mps2 = Fin (- 4), lateral_acceleration_mps2 = Fin 0,
        vertical_acceleration_mps2 = Fin 0, accelerator_pedal_percent = 0, brake_pedal_percent = 60,
        source_timestamp = ''2026-01-01T00:00:00.000Z'', source_epoch_ms = 1767225600000 + 100 * int n,
        monotonic_ms = 100 * int n, max_source_age_ms = 0, quality = QualityValidCompleteFrame\<rparr>, phase = p\<rparr>"

definition window_of :: "RetainedSample list \<Rightarrow> EventWindow" where
  "window_of ss = \<lparr>event_id = ''00000000-0000-4000-8000-000000000000'', trigger_timestamp = ''2026-01-01T00:00:00.000Z'',
     terminal_state = AbortedRestart, reason_code = ServiceRestart, samples = ss\<rparr>"

definition legacy_metadata :: MessageMetadata where
  "legacy_metadata = \<lparr>unit_system_uid = ''unit-1'', unit_role = Validation, service_version = ''1.2.3'',
     service_artifact_sha256 = replicate 64 (CHR ''0''), vdp_contract_version = ''1.0.0'',
     vdp_contract_sha256 = replicate 64 (CHR ''0''), service_instance = None\<rparr>"

lemma window_of_one_ok: "window_ok (window_of [sample_at 0 PhaseActive])"
proof -
  have "is_rfc3339_millisecond_utc ''2026-01-01T00:00:00.000Z''" by code_simp
  then show ?thesis
    by (simp add: window_ok_def window_of_def sample_at_def captured_ok_def pre_prefix_def phase_count_def
      chronicle_def sound_frame_def inside_def)
qed

lemma legacy_metadata_valid: "\<not> metadata_invalid legacy_metadata (window_of ss)"
proof -
  have "is_rfc3339_millisecond_utc ''2026-01-01T00:00:00.000Z''" "uuid4 ''00000000-0000-4000-8000-000000000000''"
    "bounded_identifier ''unit-1''" "semantic_version_v1 ''1.2.3''" "semantic_version_v1 ''1.0.0''"
    "lowercase_sha256 (replicate 64 (CHR ''0''))"
    by code_simp+
  then show ?thesis by (simp add: metadata_invalid_def legacy_metadata_def window_of_def)
qed

lemma number_texts_constant: "number_texts (\<lambda>_. Some ''1'')"
  by (auto simp: number_texts_def canonical_number_def isfinite_def)

theorem growing_messages_total_witness:
  "\<exists>ms. build_growing_messages (\<lambda>_. Some ''1'') legacy_metadata (window_of [sample_at 0 PhaseActive]) = Inr ms \<and>
     length (chunks ms) \<le> 15"
proof (rule growing_messages_total [OF window_of_one_ok _ _ legacy_metadata_valid _ number_texts_constant])
  show "distinct (map content_sha256 cs)"
    if "build_chunks (\<lambda>_. Some ''1'') legacy_metadata (window_of [sample_at 0 PhaseActive]) 0 0
      (groups True (samples (window_of [sample_at 0 PhaseActive]))) = Inr cs" for cs
    using build_chunks_nth [OF that]
    by (cases cs) (auto simp: groups_def window_of_def is_pre_def sample_at_def)
qed (simp_all add: window_of_def sample_at_def phase_count_def short_versions_def legacy_metadata_def)

theorem sealed_chunks_stable_witness:
  "case (build_growing_messages (\<lambda>_. Some ''1'') legacy_metadata (window_of [sample_at 0 PhasePre, sample_at 1 PhaseActive]),
         build_growing_messages (\<lambda>_. Some ''1'') legacy_metadata
           (window_of ([sample_at 0 PhasePre, sample_at 1 PhaseActive] @ [sample_at 2 PhasePost]))) of
      (Inr ms, Inr ms') \<Rightarrow>
        list_all (\<lambda>i. i < length (chunks ms') \<and> chunks ms' ! i = chunks ms ! i)
          (filter (\<lambda>i. sealed_group (groups True
             (samples (window_of [sample_at 0 PhasePre, sample_at 1 PhaseActive])) ! i)) [0..<length (chunks ms)])
    | _ \<Rightarrow> True"
  by (rule sealed_chunks_stable [where grown = "[sample_at 2 PhasePost]"])
    (simp_all add: window_of_def is_pre_def sample_at_def)

text \<open>A window with more than 20 POST samples is never written: whatever the metadata, building its
  messages raises. The window engine can produce such a window.
\<close>

theorem excess_post_refused:
  assumes "phase_count PhasePost (samples w) > 20"
  shows "\<not> okE (build_partitioned_messages tc md w seal_pre)"
  using assms
  by (auto simp: okE_iff build_partitioned_messages_def canonicalize_completion_content_def bindE_eq_Inr Let_def
    split: if_splits)

theorem excess_post_refused_witness:
  "\<not> okE (build_partitioned_messages (\<lambda>_. Some ''1'') legacy_metadata (window_of (replicate 21 (sample_at 0 PhasePost))) True)"
  by (rule excess_post_refused) (simp add: window_of_def sample_at_def phase_count_def)





end
