(* ===== verification/Messages2.thy ===== *)
theory Messages2
  imports Condition Messages1
begin

text \<open>
  The v2 messages (\<^verbatim>\<open>src/v2/messages.cpp\<close>): assessment and band-change messages with name-based UUIDs, and
  the persistent text of the model state with its reader. The reader searches the text for each
  field; where the source keeps an index into the text, the model keeps the text from there on.
\<close>

section \<open>Data\<close>

record DeploymentMetadata =
  dm_unit_system_uid :: string
  dm_unit_role :: UnitRole
  dm_service_version :: string
  dm_service_artifact_sha256 :: string
  dm_vdp_contract_version :: string
  dm_vdp_contract_sha256 :: string
  dm_model_artifact_sha256 :: string
  dm_model_config_sha256 :: string
  dm_assessed_at :: string
  dm_service_instance :: "ServiceInstance option"

record DerivedMessage =
  derived_id :: string
  derived_type :: string
  derived_json :: string
  derived_content_sha256 :: string
  derived_idempotency_key_sha256 :: string

record DerivedMessages =
  derived_assessment :: DerivedMessage
  derived_event :: "DerivedMessage option"

definition derived_count :: "DerivedMessages \<Rightarrow> nat" where
  "derived_count m = (if derived_event m \<noteq> None then 2 else 1)"

definition derived_bytes :: "DerivedMessages \<Rightarrow> nat" where
  "derived_bytes m = length (derived_json (derived_assessment m)) +
     (case derived_event m of None \<Rightarrow> 0 | Some e \<Rightarrow> length (derived_json e))"

definition kMaximumMessageBytes :: nat where "kMaximumMessageBytes = 16384"
definition kAssessmentNamespace :: string where "kAssessmentNamespace = ''7a879c3c-0f87-5b08-9d41-f49ab9d4e052''"
definition kEventNamespace :: string where "kEventNamespace = ''b5942c7e-8767-5e34-a432-c5fc7b606a49''"
definition kModelId :: string where "kModelId = ''brake-condition-demo-v1''"
definition kModelVersion :: string where "kModelVersion = ''1.0.0''"
definition kModelProfile :: string where "kModelProfile = ''DEMO_PRECONDITIONED''"

section \<open>Decimals\<close>

text \<open>The number of divisions of the scale by ten until it is at most one.\<close>

fun scale_digits :: "nat \<Rightarrow> nat" where
  "scale_digits n = (if n > 1 then Suc (scale_digits (n div 10)) else 0)"

declare scale_digits.simps [simp del]

definition strip_zeros :: "string \<Rightarrow> string" where
  "strip_zeros s = rev (dropWhile (\<lambda>c. c = CHR ''0'') (rev s))"

definition scaled_decimal :: "int \<Rightarrow> nat \<Rightarrow> string result" where
  "scaled_decimal v scale =
     (if scale = 0 then Inl (Invalid_argument ''decimal scale must be positive'')
      else
        (let magnitude = nat \<bar>v\<bar>; whole = magnitude div scale; fraction = magnitude mod scale;
             output = (if v < 0 then ''-'' else []) @ to_string whole
         in if fraction = 0 then Inr output
            else Inr (output @ ''.'' @ strip_zeros (zero_pad (scale_digits scale) (to_string fraction)))))"

section \<open>Identity\<close>

text \<open>\<open>uuid_with_version\<close> as a condition; it never raises (\<open>uuid_with_version_canonical\<close>).\<close>

definition has_version :: "string \<Rightarrow> char \<Rightarrow> bool" where
  "has_version v version \<longleftrightarrow> uuid_with_version v version = Inr True"

definition forbidden_byte :: "char \<Rightarrow> bool" where
  "forbidden_byte c \<longleftrightarrow> code c = 0 \<or> code c = 10 \<or> code c = 13"

fun join_fields :: "string list \<Rightarrow> string" where
  "join_fields [] = []"
| "join_fields [f] = f"
| "join_fields (f # fs) = f @ byte 10 # join_fields fs"

definition uuid_v5 :: "string \<Rightarrow> string list \<Rightarrow> string result" where
  "uuid_v5 ns parts =
     bindE (decode_uuid ns) (\<lambda>ns_bytes.
       if list_ex (list_ex forbidden_byte) parts
       then Inl (Invalid_argument ''UUIDv5 field contains a forbidden delimiter byte'')
       else
         (let d = take 16 (sha1 (map byte ns_bytes @ join_fields parts));
              uuid = d[6 := d ! 6 mod 16 + 80, 8 := d ! 8 mod 64 + 128]
          in Inr (encode_uuid uuid)))"

definition assessment_id :: "DeploymentMetadata \<Rightarrow> string \<Rightarrow> string result" where
  "assessment_id md source_event =
     uuid_v5 kAssessmentNamespace [dm_unit_system_uid md, source_event, dm_model_config_sha256 md]"

definition make_idempotency_digest :: "string \<Rightarrow> string \<Rightarrow> string \<Rightarrow> string" where
  "make_idempotency_digest uid kind ident =
     sha256_hex (''['' @ json_string uid @ '','' @ json_string kind @ '','' @ json_string ident @ '']'')"

definition message_idempotency_key_sha256 :: "string \<Rightarrow> string \<Rightarrow> string \<Rightarrow> string result" where
  "message_idempotency_key_sha256 uid kind ident =
     (if \<not> bounded_identifier uid \<or> (kind \<noteq> ''BRAKE_HEALTH_ASSESSMENT'' \<and> kind \<noteq> ''BRAKE_HEALTH_EVENT'') \<or>
         \<not> has_version ident (CHR ''5'')
      then Inl (Invalid_argument ''idempotency identity does not satisfy the contract'')
      else Inr (make_idempotency_digest uid kind ident))"

section \<open>Messages\<close>

definition v2_metadata_invalid :: "DeploymentMetadata \<Rightarrow> CompletedEpisode \<Rightarrow> Assessment \<Rightarrow> bool" where
  "v2_metadata_invalid md ep a \<longleftrightarrow>
     (dm_service_instance md \<noteq> None \<and>
       (\<not> native_identifier (dm_unit_system_uid md) \<or> \<not> package_version (dm_vdp_contract_version md))) \<or>
     \<not> bounded_identifier (dm_unit_system_uid md) \<or>
     \<not> semantic_version (dm_service_version md) \<or>
     \<not> semantic_version (dm_vdp_contract_version md) \<or>
     (if dm_service_instance md \<noteq> None
      then \<not> native_provenance_valid (dm_service_instance md) (dm_service_version md) (dm_service_artifact_sha256 md)
      else \<not> lowercase_sha256 (dm_service_artifact_sha256 md)) \<or>
     \<not> lowercase_sha256 (dm_vdp_contract_sha256 md) \<or>
     (if dm_service_instance md \<noteq> None then dm_model_artifact_sha256 md \<noteq> []
      else \<not> lowercase_sha256 (dm_model_artifact_sha256 md)) \<or>
     dm_model_config_sha256 md \<noteq> kModelConfigSha256 \<or> \<not> has_version (source_event_id ep) (CHR ''4'') \<or>
     \<not> is_rfc3339_millisecond_utc (dm_assessed_at md) \<or>
     \<not> is_rfc3339_millisecond_utc (source_window_start_timestamp a) \<or>
     \<not> is_rfc3339_millisecond_utc (source_window_end_timestamp a) \<or>
     dm_assessed_at md < source_window_end_timestamp a"

definition v2_validate_metadata :: "DeploymentMetadata \<Rightarrow> CompletedEpisode \<Rightarrow> Assessment \<Rightarrow> unit result" where
  "v2_validate_metadata md ep a =
     throwIf (v2_metadata_invalid md ep a) (Invalid_argument ''v2 message metadata does not satisfy the contract'')"

definition assessment_content :: "Assessment \<Rightarrow> string result" where
  "assessment_content v =
     (let f = features v
      in bindE (scaled_decimal (int (active_duration_milliseconds f)) 1000) (\<lambda>duration.
         bindE (scaled_decimal (mean_brake_milli_percent f) 1000) (\<lambda>brake.
         bindE (scaled_decimal (peak_deceleration_milli_mps2 f) 1000) (\<lambda>peak.
         bindE (scaled_decimal (speed_reduction_milli_kph f) 1000) (\<lambda>reduction.
         bindE (scaled_decimal (int (wheel_dispersion_raw_bps f)) 10000) (\<lambda>ratio.
           Inr (''{'' @ ''\"activeSampleCount\":'' @ to_string (active_sample_count f) @
                '',\"conditionScore\":'' @ to_string (assessed_score v) @
                '',\"currentBand\":'' @ json_string (condition_band_name (current_band v)) @
                '',\"episodeLoadBps\":'' @ to_string (episode_load_bps f) @
                '',\"features\":{'' @ ''\"activeDurationBps\":'' @ to_string (active_duration_bps f) @
                '',\"activeDurationSeconds\":'' @ duration @
                '',\"meanBrakeEffortBps\":'' @ to_string (mean_brake_bps f) @
                '',\"meanBrakeEffortPercent\":'' @ brake @
                '',\"peakDecelerationBps\":'' @ to_string (peak_deceleration_bps f) @
                '',\"peakDecelerationMps2\":'' @ peak @
                '',\"speedReductionBps\":'' @ to_string (speed_reduction_bps f) @
                '',\"speedReductionKph\":'' @ reduction @
                '',\"wheelDispersionBps\":'' @ to_string (wheel_dispersion_bps f) @
                '',\"wheelDispersionRatio\":'' @ ratio @ ''}'' @
                '',\"previousBand\":'' @ json_string (condition_band_name (previous_band v)) @
                '',\"quality\":\"VALID_DEMO_SYNTHETIC\"'' @
                '',\"sourceWindowEndTimestamp\":'' @ json_string (source_window_end_timestamp v) @
                '',\"sourceWindowStartTimestamp\":'' @ json_string (source_window_start_timestamp v) @
                '',\"straightActiveSampleCount\":'' @ to_string (straight_active_sample_count f) @
                '',\"wearIncrement\":'' @ to_string (wear_increment v) @
                '',\"wearIndexAfter\":'' @ to_string (wear_index_after v) @
                '',\"wearIndexBefore\":'' @ to_string (wear_index_before v) @ ''}'')))))))"

definition event_content :: "Assessment \<Rightarrow> string" where
  "event_content v =
     ''{'' @ ''\"conditionScore\":'' @ to_string (assessed_score v) @
     '',\"currentBand\":'' @ json_string (condition_band_name (current_band v)) @
     '',\"effectiveAt\":'' @ json_string (source_window_end_timestamp v) @
     '',\"eventType\":\"BRAKE_CONDITION_BAND_CHANGED\"'' @
     '',\"previousBand\":'' @ json_string (condition_band_name (previous_band v)) @
     '',\"quality\":\"VALID_DEMO_SYNTHETIC\"'' @
     '',\"reasonCode\":\"SYNTHETIC_ACCUMULATED_STRESS_THRESHOLD\"}''"

definition v2_enforce_message_size :: "string \<Rightarrow> unit result" where
  "v2_enforce_message_size v =
     throwIf (length v > kMaximumMessageBytes) (Length_error ''canonical v2 message exceeds 16 KiB'')"

definition provenance_text :: "DeploymentMetadata \<Rightarrow> string result" where
  "provenance_text md =
     (case dm_service_instance md of
        Some i \<Rightarrow> bindE (service_instance_json i) (\<lambda>t. Inr ('',\"serviceInstance\":'' @ t))
      | None \<Rightarrow> Inr ('',\"serviceArtifactSha256\":'' @ json_string (dm_service_artifact_sha256 md)))"

definition assessment_json :: "DeploymentMetadata \<Rightarrow> CompletedEpisode \<Rightarrow> string \<Rightarrow> string \<Rightarrow> string result" where
  "assessment_json md ep ident content =
     bindE (provenance_text md) (\<lambda>provenance.
       (let native = (dm_service_instance md \<noteq> None)
        in Inr (''{'' @ ''\"assessedAt\":'' @ json_string (dm_assessed_at md) @
                '',\"assessmentId\":'' @ json_string ident @
                '',\"content\":'' @ content @
                '',\"contentSha256\":'' @ json_string (sha256_hex content) @
                (if native then '',\"contractVersion\":\"2.0.0\"'' else '',\"contractVersion\":\"1.0.0\"'') @
                '',\"messageType\":\"BRAKE_HEALTH_ASSESSMENT\"'' @
                (if native then [] else '',\"modelArtifactSha256\":'' @ json_string (dm_model_artifact_sha256 md)) @
                '',\"modelConfigSha256\":'' @ json_string (dm_model_config_sha256 md) @
                '',\"modelId\":\"brake-condition-demo-v1\"'' @
                '',\"modelVersion\":\"1.0.0\"'' @
                '',\"provenance\":\"DEMO_SYNTHETIC\"'' @
                (if native then '',\"schemaVersion\":2'' else '',\"schemaVersion\":1'') @
                provenance @
                '',\"serviceVersion\":'' @ json_string (dm_service_version md) @
                '',\"sourceEventId\":'' @ json_string (source_event_id ep) @
                '',\"unitRole\":'' @ json_string (unit_role_name (dm_unit_role md)) @
                '',\"unitSystemUid\":'' @ json_string (dm_unit_system_uid md) @
                '',\"vdpContractSha256\":'' @ json_string (dm_vdp_contract_sha256 md) @
                '',\"vdpContractVersion\":'' @ json_string (dm_vdp_contract_version md) @ ''}'')))"

definition event_json :: "DeploymentMetadata \<Rightarrow> CompletedEpisode \<Rightarrow> string \<Rightarrow> string \<Rightarrow> string \<Rightarrow> string result" where
  "event_json md ep ident event_ident content =
     bindE (provenance_text md) (\<lambda>provenance.
       (let native = (dm_service_instance md \<noteq> None)
        in Inr (''{'' @ ''\"assessmentId\":'' @ json_string ident @
                '',\"content\":'' @ content @
                '',\"contentSha256\":'' @ json_string (sha256_hex content) @
                (if native then '',\"contractVersion\":\"2.0.0\"'' else '',\"contractVersion\":\"1.0.0\"'') @
                '',\"eventId\":'' @ json_string event_ident @
                '',\"messageType\":\"BRAKE_HEALTH_EVENT\"'' @
                '',\"modelConfigSha256\":'' @ json_string (dm_model_config_sha256 md) @
                '',\"modelId\":\"brake-condition-demo-v1\"'' @
                '',\"modelVersion\":\"1.0.0\"'' @
                '',\"provenance\":\"DEMO_SYNTHETIC\"'' @
                (if native then '',\"schemaVersion\":2'' else '',\"schemaVersion\":1'') @
                provenance @
                '',\"serviceVersion\":'' @ json_string (dm_service_version md) @
                '',\"sourceEventId\":'' @ json_string (source_event_id ep) @
                '',\"unitRole\":'' @ json_string (unit_role_name (dm_unit_role md)) @
                '',\"unitSystemUid\":'' @ json_string (dm_unit_system_uid md) @ ''}'')))"

definition build_event :: "DeploymentMetadata \<Rightarrow> CompletedEpisode \<Rightarrow> Assessment \<Rightarrow> string \<Rightarrow> DerivedMessage result" where
  "build_event md ep a ident =
     bindE (uuid_v5 kEventNamespace [ident, ''BRAKE_CONDITION_BAND_CHANGED'', condition_band_name (current_band a)]) (\<lambda>event_ident.
     bindE (event_json md ep ident event_ident (event_content a)) (\<lambda>encoded.
     bindE (v2_enforce_message_size encoded) (\<lambda>_.
     bindE (message_idempotency_key_sha256 (dm_unit_system_uid md) ''BRAKE_HEALTH_EVENT'' event_ident) (\<lambda>key.
       Inr \<lparr>derived_id = event_ident, derived_type = ''BRAKE_HEALTH_EVENT'', derived_json = encoded,
            derived_content_sha256 = sha256_hex (event_content a), derived_idempotency_key_sha256 = key\<rparr>))))"

definition v2_build_messages :: "DeploymentMetadata \<Rightarrow> CompletedEpisode \<Rightarrow> Assessment \<Rightarrow> DerivedMessages result" where
  "v2_build_messages md ep a =
     bindE (v2_validate_metadata md ep a) (\<lambda>_.
     bindE (assessment_id md (source_event_id ep)) (\<lambda>ident.
     bindE (assessment_content a) (\<lambda>content.
     bindE (assessment_json md ep ident content) (\<lambda>encoded.
     bindE (v2_enforce_message_size encoded) (\<lambda>_.
     bindE (message_idempotency_key_sha256 (dm_unit_system_uid md) ''BRAKE_HEALTH_ASSESSMENT'' ident) (\<lambda>key.
       (let msg = \<lparr>derived_id = ident, derived_type = ''BRAKE_HEALTH_ASSESSMENT'', derived_json = encoded,
            derived_content_sha256 = sha256_hex content, derived_idempotency_key_sha256 = key\<rparr>
        in if previous_band a \<noteq> current_band a then
             bindE (build_event md ep a ident) (\<lambda>ev. Inr \<lparr>derived_assessment = msg, derived_event = Some ev\<rparr>)
           else Inr \<lparr>derived_assessment = msg, derived_event = None\<rparr>)))))))"

section \<open>The text of the model state\<close>

text \<open>\<open>std::string_view::find\<close>: the text from the first occurrence on.\<close>

fun find_sub :: "string \<Rightarrow> string \<Rightarrow> string option" where
  "find_sub n [] = (if n = [] then Some [] else None)"
| "find_sub n (c # cs) = (if take (length n) (c # cs) = n then Some (c # cs) else find_sub n cs)"

definition needle :: "string \<Rightarrow> string" where
  "needle key = CHR 0x22 # key @ [CHR 0x22, CHR '':'']"

definition field_value_at :: "string \<Rightarrow> string \<Rightarrow> string result" where
  "field_value_at json key =
     (case find_sub (needle key) json of
        None \<Rightarrow> Inl (Invalid_argument ''state field is missing or duplicated'')
      | Some here \<Rightarrow>
          if find_sub (needle key) (tl here) \<noteq> None then Inl (Invalid_argument ''state field is missing or duplicated'')
          else Inr (drop (length (needle key)) here))"

definition parse_simple_string :: "string \<Rightarrow> string \<Rightarrow> string result" where
  "parse_simple_string json key =
     bindE (field_value_at json key) (\<lambda>here.
       if here = [] \<or> hd here \<noteq> CHR 0x22 then Inl (Invalid_argument ''state string field is malformed'')
       else if CHR 0x22 \<notin> set (tl here) then Inl (Invalid_argument ''unterminated state string'')
       else
         (let v = left_of (CHR 0x22) (tl here)
          in if CHR 0x5C \<in> set v then Inl (Invalid_argument ''escaped state identifiers are forbidden'') else Inr v))"

definition parse_optional_string :: "string \<Rightarrow> string \<Rightarrow> string option result" where
  "parse_optional_string json key =
     bindE (field_value_at json key) (\<lambda>here.
       if take 4 here = ''null'' then Inr None else bindE (parse_simple_string json key) (\<lambda>s. Inr (Some s)))"

definition parse_unsigned :: "string \<Rightarrow> string \<Rightarrow> nat result" where
  "parse_unsigned json key =
     bindE (field_value_at json key) (\<lambda>here.
       (let ds = takeWhile is_dec here
        in if ds = [] \<or> (length ds > 1 \<and> hd ds = CHR ''0'')
           then Inl (Invalid_argument ''state integer field is malformed'')
           else if dec_value ds > u64_max then Inl (Invalid_argument ''state integer is out of range'')
           else Inr (dec_value ds)))"

lemma length_right_of: "length (right_of c s) \<le> length s"
  using length_dropWhile_le [of "\<lambda>d. d \<noteq> c" s] by (simp add: right_of_def)

function string_items :: "string \<Rightarrow> string list \<Rightarrow> string list result" where
  "string_items [] acc = Inl (Invalid_argument ''state array is unterminated'')"
| "string_items (c # here) acc =
     (if c \<noteq> CHR 0x22 then Inl (Invalid_argument ''state array item is malformed'')
      else if CHR 0x22 \<notin> set here then Inl (Invalid_argument ''state array item is unterminated'')
      else
        (let v = left_of (CHR 0x22) here; rest = right_of (CHR 0x22) here
         in case rest of [] \<Rightarrow> Inl (Invalid_argument ''state array delimiter is malformed'')
            | d # ds \<Rightarrow>
                if d = CHR '']'' then Inr (acc @ [v])
                else if d \<noteq> CHR '','' then Inl (Invalid_argument ''state array delimiter is malformed'')
                else string_items ds (acc @ [v])))"
  by pat_completeness auto

termination
proof (relation "measure (\<lambda>(s, acc). length s)", goal_cases)
  case (2 c here acc x xa x21 x22)
  from 2(5) have "length x22 < length (right_of (CHR 0x22) here)" using 2(4) by (metis length_Cons lessI)
  then show ?case using length_right_of [of "CHR 0x22" here] by simp
qed simp

definition parse_string_array :: "string \<Rightarrow> string \<Rightarrow> string list result" where
  "parse_string_array json key =
     bindE (field_value_at json key) (\<lambda>here.
       if here = [] \<or> hd here \<noteq> CHR ''['' then Inl (Invalid_argument ''state array is malformed'')
       else if tl here \<noteq> [] \<and> hd (tl here) = CHR '']'' then Inr []
       else string_items (tl here) [])"

definition parse_band :: "string \<Rightarrow> ConditionBand result" where
  "parse_band v =
     (if v = ''GOOD'' then Inr Good else if v = ''MONITOR'' then Inr Monitor
      else if v = ''INSPECTION_RECOMMENDED'' then Inr InspectionRecommended
      else Inl (Invalid_argument ''unknown condition band''))"

fun check_ledger :: "string list \<Rightarrow> string set \<Rightarrow> string set result" where
  "check_ledger [] known = Inr known"
| "check_ledger (i # ids) known =
     (if \<not> has_version i (CHR ''4'') \<or> i \<in> known
      then Inl (Invalid_argument ''recent source-event ledger is invalid'')
      else check_ledger ids (insert i known))"

definition state_invalid :: "ModelState \<Rightarrow> bool" where
  "state_invalid st \<longleftrightarrow>
     \<not> supported_model_config (model_config_sha256 st) \<or>
     wear_index st > 100 \<or> condition_score st \<noteq> 100 - wear_index st \<or>
     condition_band st \<noteq> band_for_score (condition_score st) \<or>
     \<not> has_version (producer_epoch st) (CHR ''4'') \<or>
     next_advisory_sequence st = 0 \<or> length (recent_source_event_ids st) > 64 \<or>
     (case last_applied_source_event_id st of None \<Rightarrow> False | Some i \<Rightarrow> \<not> has_version i (CHR ''4'')) \<or>
     (case last_assessment_id st of None \<Rightarrow> False | Some i \<Rightarrow> \<not> has_version i (CHR ''5''))"

definition validate_state :: "ModelState \<Rightarrow> unit result" where
  "validate_state st =
     bindE (throwIf (state_invalid st) (Invalid_argument ''v2 model state violates the closed schema'')) (\<lambda>_.
     bindE (check_ledger (recent_source_event_ids st) {}) (\<lambda>unique.
     bindE (throwIf (case last_applied_source_event_id st of None \<Rightarrow> False | Some i \<Rightarrow> i \<notin> unique)
              (Invalid_argument ''last source event is absent from recent ledger'')) (\<lambda>_.
       throwIf ((last_applied_source_event_id st \<noteq> None) \<noteq> (last_assessment_id st \<noteq> None))
         (Invalid_argument ''last source-event and assessment identities must pair''))))"

definition optional_text :: "string option \<Rightarrow> string" where
  "optional_text v = (case v of Some s \<Rightarrow> json_string s | None \<Rightarrow> ''null'')"

definition recent_text :: "string list \<Rightarrow> string" where
  "recent_text ids = ''['' @ commas (map json_string ids) @ '']''"

definition state_json :: "ModelState \<Rightarrow> string result" where
  "state_json st =
     bindE (validate_state st) (\<lambda>_.
       Inr (''{'' @ ''\"conditionBand\":'' @ json_string (condition_band_name (condition_band st)) @
            '',\"conditionScore\":'' @ to_string (condition_score st) @
            '',\"generation\":'' @ to_string (generation st) @
            '',\"lastAppliedSourceEventId\":'' @ optional_text (last_applied_source_event_id st) @
            '',\"lastAssessmentId\":'' @ optional_text (last_assessment_id st) @
            '',\"modelConfigSha256\":\"'' @ model_config_sha256 st @ ''\"'' @
            '',\"modelId\":\"brake-condition-demo-v1\"'' @
            '',\"modelVersion\":\"1.0.0\"'' @
            '',\"nextAdvisorySequence\":'' @ to_string (next_advisory_sequence st) @
            '',\"producerEpoch\":'' @ json_string (producer_epoch st) @
            '',\"profile\":\"DEMO_PRECONDITIONED\"'' @
            '',\"recentSourceEventIds\":'' @ recent_text (recent_source_event_ids st) @
            '',\"schemaVersion\":1'' @
            '',\"wearIndex\":'' @ to_string (wear_index st) @ ''}''))"

text \<open>The conjuncts of the first test, in their order; a reader may raise before a later one.\<close>

definition state_schema_unknown :: "string \<Rightarrow> bool result" where
  "state_schema_unknown json =
     (if length json > 65536 then Inr True
      else bindE (parse_unsigned json ''schemaVersion'') (\<lambda>v. if v \<noteq> 1 then Inr True
      else bindE (parse_simple_string json ''modelId'') (\<lambda>i. if i \<noteq> kModelId then Inr True
      else bindE (parse_simple_string json ''modelVersion'') (\<lambda>w. if w \<noteq> kModelVersion then Inr True
      else bindE (parse_simple_string json ''modelConfigSha256'') (\<lambda>c. if \<not> supported_model_config c then Inr True
      else bindE (parse_simple_string json ''profile'') (\<lambda>p. Inr (p \<noteq> kModelProfile)))))))"

definition read_state :: "string \<Rightarrow> ModelState result" where
  "read_state json =
     bindE (parse_simple_string json ''modelConfigSha256'') (\<lambda>config.
     bindE (parse_unsigned json ''generation'') (\<lambda>gen.
     bindE (parse_unsigned json ''wearIndex'') (\<lambda>wear.
     bindE (parse_unsigned json ''conditionScore'') (\<lambda>score.
     bindE (throwIf (wear > 4294967295 \<or> score > 4294967295) (Invalid_argument ''state score exceeds integer range'')) (\<lambda>_.
     bindE (parse_simple_string json ''conditionBand'') (\<lambda>name.
     bindE (parse_band name) (\<lambda>band.
     bindE (parse_optional_string json ''lastAppliedSourceEventId'') (\<lambda>last_event.
     bindE (parse_optional_string json ''lastAssessmentId'') (\<lambda>last_assessed.
     bindE (parse_string_array json ''recentSourceEventIds'') (\<lambda>recent.
     bindE (parse_simple_string json ''producerEpoch'') (\<lambda>epoch.
     bindE (parse_unsigned json ''nextAdvisorySequence'') (\<lambda>next_seq.
       Inr \<lparr>generation = gen, wear_index = wear, condition_score = score, condition_band = band,
            last_applied_source_event_id = last_event, last_assessment_id = last_assessed,
            recent_source_event_ids = recent, producer_epoch = epoch,
            next_advisory_sequence = next_seq, model_config_sha256 = config\<rparr>))))))))))))"

definition parse_state_json :: "string \<Rightarrow> ModelState result" where
  "parse_state_json json =
     bindE (state_schema_unknown json) (\<lambda>unknown.
     bindE (throwIf unknown (Invalid_argument ''unknown v2 state schema or model identity'')) (\<lambda>_.
     bindE (read_state json) (\<lambda>st.
     bindE (validate_state st) (\<lambda>_.
     bindE (state_json st) (\<lambda>again.
       if again \<noteq> json then Inl (Invalid_argument ''state is not the exact canonical closed-schema encoding'')
       else Inr st)))))"

section \<open>Searching a text for its fields\<close>

definition is_key :: "string \<Rightarrow> bool" where
  "is_key k \<longleftrightarrow> k \<noteq> [] \<and> list_all is_alnum k"

lemma is_key_chars: "is_key k \<Longrightarrow> CHR 0x22 \<notin> set k \<and> CHR '':'' \<notin> set k \<and> CHR '','' \<notin> set k \<and> CHR ''}'' \<notin> set k \<and> CHR '']'' \<notin> set k"
  by (auto simp: is_key_def list_all_iff char_class_defs)

text \<open>What follows a value: a comma, the end of the array or the end of the object.\<close>

definition after_value :: "string \<Rightarrow> bool" where
  "after_value r \<longleftrightarrow> r \<noteq> [] \<and> hd r \<in> set '',]}''"

declare find_sub.simps(2) [simp del]

lemma find_skip: "CHR 0x22 \<notin> set p \<Longrightarrow> find_sub (needle k) (p @ r) = find_sub (needle k) r"
  by (induction p) (auto simp: needle_def find_sub.simps(2))

lemma split_at_first:
  "c \<notin> set s \<Longrightarrow> c \<notin> set k \<Longrightarrow> s @ c # r = k @ c # t \<Longrightarrow> s = k \<and> r = t"
proof (induction s arbitrary: k)
  case Nil
  then show ?case by (cases k) auto
next
  case (Cons a s)
  then show ?case by (cases k) auto
qed

lemma prefix_no_quote:
  assumes "CHR 0x22 \<notin> set s" and "CHR 0x22 \<notin> set k" and "take (Suc (Suc (length k))) (s @ CHR 0x22 # r) = k @ [CHR 0x22, CHR '':'']"
  shows "s = k \<and> r \<noteq> [] \<and> hd r = CHR '':''"
proof -
  from assms(3) obtain t where "s @ CHR 0x22 # r = k @ CHR 0x22 # CHR '':'' # t"
    by (metis append.assoc append_Cons append_Nil append_take_drop_id)
  with assms(1,2) have "s = k \<and> r = CHR '':'' # t"
    by (rule split_at_first)
  then show ?thesis by simp
qed

lemma find_quoted:
  assumes "CHR 0x22 \<notin> set s" and "is_key k" and "\<not> (s = k \<and> r \<noteq> [] \<and> hd r = CHR '':'')"
  shows "find_sub (needle k) (CHR 0x22 # s @ CHR 0x22 # r) = find_sub (needle k) (CHR 0x22 # r)"
proof -
  have "find_sub (needle k) (CHR 0x22 # s @ CHR 0x22 # r) = find_sub (needle k) (s @ CHR 0x22 # r)"
    using prefix_no_quote [OF assms(1) _ , of k r] is_key_chars [OF assms(2)] assms(3) by (auto simp: needle_def find_sub.simps(2))
  then show ?thesis using find_skip [OF assms(1)] by simp
qed

lemma find_quote_alone:
  assumes "is_key k" and "r = [] \<or> hd r \<in> set '':,]}''"
  shows "find_sub (needle k) (CHR 0x22 # r) = find_sub (needle k) r"
proof (cases k)
  case (Cons c k')
  with is_key_chars [OF assms(1)] assms(2) show ?thesis by (cases r) (auto simp: needle_def find_sub.simps(2))
qed (use assms in \<open>simp add: is_key_def\<close>)

text \<open>A value no key is found in, whatever follows.\<close>

definition quiet :: "string \<Rightarrow> bool" where
  "quiet v \<longleftrightarrow> (\<forall>k r. is_key k \<longrightarrow> after_value r \<longrightarrow> find_sub (needle k) (v @ r) = find_sub (needle k) r)"

lemma quiet_plain: "CHR 0x22 \<notin> set v \<Longrightarrow> quiet v"
  by (simp add: quiet_def find_skip)

lemma find_string_value:
  assumes "CHR 0x22 \<notin> set s" and "is_key k" and "after_value r"
  shows "find_sub (needle k) (CHR 0x22 # s @ CHR 0x22 # r) = find_sub (needle k) r"
proof -
  have "find_sub (needle k) (CHR 0x22 # s @ CHR 0x22 # r) = find_sub (needle k) (CHR 0x22 # r)"
    using assms by (intro find_quoted) (auto simp: after_value_def)
  also have "\<dots> = find_sub (needle k) r"
    using assms by (intro find_quote_alone) (auto simp: after_value_def)
  finally show ?thesis .
qed

lemma quiet_string: "CHR 0x22 \<notin> set s \<Longrightarrow> quiet (CHR 0x22 # s @ [CHR 0x22])"
  by (simp add: quiet_def find_string_value)

definition quoted :: "string \<Rightarrow> string" where
  "quoted s = CHR 0x22 # s @ [CHR 0x22]"

lemma quiet_items:
  assumes "list_all (\<lambda>s. CHR 0x22 \<notin> set s) ss" and "is_key k" and "after_value r"
  shows "find_sub (needle k) (commas (map quoted ss) @ CHR '']'' # r) = find_sub (needle k) r"
  using assms(1)
proof (induction ss)
  case Nil
  then show ?case using find_skip [of "'']''" k r] by simp
next
  case (Cons s ss)
  have "find_sub (needle k) (CHR 0x22 # s @ CHR 0x22 # t) = find_sub (needle k) t" if "after_value t" for t
    using that Cons.prems assms(2) by (simp add: find_string_value)
  moreover have "find_sub (needle k) (CHR '','' # t) = find_sub (needle k) t" for t
    using find_skip [of "'',''" k t] by simp
  ultimately show ?case
    using Cons find_skip [of "'']''" k r]
    by (cases ss) (simp_all add: quoted_def after_value_def)
qed

lemma quiet_array:
  assumes "list_all (\<lambda>s. CHR 0x22 \<notin> set s) ss"
  shows "quiet (''['' @ commas (map quoted ss) @ '']'')"
  using quiet_items [OF assms] find_skip [of "''[''"] by (simp add: quiet_def)

lemma find_field:
  assumes "is_key k" and "is_key k'" and "k \<noteq> k'"
  shows "find_sub (needle k) (needle k' @ r) = find_sub (needle k) r"
proof -
  have "find_sub (needle k) (CHR 0x22 # k' @ CHR 0x22 # CHR '':'' # r) = find_sub (needle k) (CHR 0x22 # CHR '':'' # r)"
    using assms is_key_chars [OF assms(2)] by (intro find_quoted) auto
  also have "\<dots> = find_sub (needle k) ('':'' @ r)"
    using find_quote_alone [OF assms(1), of "CHR '':'' # r"] by simp
  finally show ?thesis using find_skip [of "'':''" k r] by (simp add: needle_def)
qed

lemma find_here: "find_sub (needle k) (needle k @ r) = Some (needle k @ r)"
  by (simp add: needle_def find_sub.simps(2))

lemma find_after_here:
  assumes "is_key k"
  shows "find_sub (needle k) (tl (needle k @ r)) = find_sub (needle k) r"
proof -
  have "find_sub (needle k) (k @ CHR 0x22 # CHR '':'' # r) = find_sub (needle k) (CHR 0x22 # CHR '':'' # r)"
    using is_key_chars [OF assms] by (intro find_skip) auto
  also have "\<dots> = find_sub (needle k) ('':'' @ r)"
    using find_quote_alone [OF assms, of "CHR '':'' # r"] by simp
  finally show ?thesis using find_skip [of "'':''" k r] by (simp add: needle_def)
qed

text \<open>The text of an object from a list of keys and value texts.\<close>

fun object_rest :: "(string \<times> string) list \<Rightarrow> string" where
  "object_rest [] = ''}''"
| "object_rest ((k, v) # fs) = CHR '','' # needle k @ v @ object_rest fs"

fun object_text :: "(string \<times> string) list \<Rightarrow> string" where
  "object_text [] = ''{}''"
| "object_text ((k, v) # fs) = CHR ''{'' # needle k @ v @ object_rest fs"

definition field_list :: "(string \<times> string) list \<Rightarrow> bool" where
  "field_list fs \<longleftrightarrow> distinct (map fst fs) \<and> list_all (\<lambda>(k, v). is_key k \<and> quiet v) fs"

lemma after_object_rest [simp]: "after_value (object_rest fs)"
  by (cases fs rule: object_rest.cases) (auto simp: after_value_def)

lemma find_rest_none:
  "is_key k \<Longrightarrow> list_all (\<lambda>(k, v). is_key k \<and> quiet v) fs \<Longrightarrow> k \<notin> fst ` set fs \<Longrightarrow> find_sub (needle k) (object_rest fs) = None"
proof (induction fs rule: object_rest.induct)
  case 1
  then show ?case by (simp add: needle_def find_sub.simps)
next
  case (2 k' v fs)
  then have "find_sub (needle k) (v @ object_rest fs) = None" by (simp add: quiet_def)
  with 2 show ?case using find_skip [of "'',''" k] by (simp add: find_field)
qed

lemma find_rest:
  assumes "field_list fs" and "(k, v) \<in> set fs"
  shows "\<exists>r. after_value r \<and> find_sub (needle k) (object_rest fs) = Some (needle k @ v @ r) \<and> find_sub (needle k) r = None"
  using assms
proof (induction fs rule: object_rest.induct)
  case (2 k' v' fs)
  show ?case
  proof (cases "k = k'")
    case True
    with 2 have "v' = v" "k \<notin> fst ` set fs" "is_key k" "list_all (\<lambda>(k, v). is_key k \<and> quiet v) fs"
      by (force simp: field_list_def)+
    with True 2 show ?thesis using find_skip [of "'',''" k]
      by (intro exI [of _ "object_rest fs"]) (simp add: find_here find_rest_none field_list_def)
  next
    case False
    with 2 have "is_key k" "is_key k'" "quiet v'" "field_list fs" "(k, v) \<in> set fs"
      by (auto simp: field_list_def list_all_iff)
    with 2 False show ?thesis using find_skip [of "'',''" k] by (simp add: find_field quiet_def)
  qed
qed simp

lemma object_text_field:
  assumes "field_list fs" and "(k, v) \<in> set fs"
  shows "\<exists>r. after_value r \<and> field_value_at (object_text fs) k = Inr (v @ r)"
proof -
  from find_rest [OF assms] obtain r where r: "after_value r"
    "find_sub (needle k) (object_rest fs) = Some (needle k @ v @ r)" "find_sub (needle k) r = None" by blast
  have "find_sub (needle k) (object_text fs) = find_sub (needle k) (object_rest fs)"
    using find_skip [of "'',''" k] find_skip [of "''{''" k] assms(2) by (cases fs rule: object_text.cases) auto
  moreover have "is_key k" "quiet v" using assms by (auto simp: field_list_def list_all_iff)
  ultimately show ?thesis using r
    by (auto simp: field_value_at_def find_after_here quiet_def)
qed

section \<open>The readers on such a text\<close>

definition plain_char :: "char \<Rightarrow> bool" where
  "plain_char c \<longleftrightarrow> 32 \<le> code c \<and> c \<noteq> CHR 0x22 \<and> c \<noteq> CHR 0x5C"

lemma plain_chars: "list_all plain_char s \<Longrightarrow> CHR 0x22 \<notin> set s \<and> CHR 0x5C \<notin> set s"
  by (auto simp: plain_char_def list_all_iff)

lemma json_string_plain: "list_all plain_char s \<Longrightarrow> json_string s = quoted s"
proof -
  assume "list_all plain_char s"
  then have "concat (map escape_char s) = s"
    by (induction s) (auto simp: escape_char_def plain_char_def)
  then show ?thesis by (simp add: json_string_def quoted_def)
qed

lemma quiet_quoted: "list_all plain_char s \<Longrightarrow> quiet (quoted s)"
  using quiet_string plain_chars by (simp add: quoted_def)

lemma dec_plain: "list_all is_dec s \<Longrightarrow> CHR 0x22 \<notin> set s"
  by (auto simp: list_all_iff is_dec_def code_def)

lemma quiet_number: "quiet (to_string n)"
  by (rule quiet_plain) (rule dec_plain [OF to_string_digits])

lemma left_right_of:
  "c \<notin> set s \<Longrightarrow> left_of c (s @ c # r) = s"
  "c \<notin> set s \<Longrightarrow> right_of c (s @ c # r) = r"
  by (induction s) (auto simp: left_of_def right_of_def)

lemma parse_simple_field:
  assumes "field_list fs" and "(k, quoted s) \<in> set fs" and "list_all plain_char s"
  shows "parse_simple_string (object_text fs) k = Inr s"
proof -
  obtain r where r: "field_value_at (object_text fs) k = Inr (quoted s @ r)"
    using object_text_field [OF assms(1,2)] by blast
  then show ?thesis using plain_chars [OF assms(3)]
    by (simp add: parse_simple_string_def quoted_def left_right_of)
qed

lemma parse_optional_field:
  assumes "field_list fs" and "(k, optional_text v) \<in> set fs" and "case v of None \<Rightarrow> True | Some s \<Rightarrow> list_all plain_char s"
  shows "parse_optional_string (object_text fs) k = Inr v"
proof (cases v)
  case None
  with assms(2) have "(k, ''null'') \<in> set fs" by (simp add: optional_text_def)
  from object_text_field [OF assms(1) this] None show ?thesis by (auto simp: parse_optional_string_def)
next
  case (Some s)
  with assms(2,3) have "(k, quoted s) \<in> set fs" "list_all plain_char s"
    by (auto simp: optional_text_def json_string_plain)
  from parse_simple_field [OF assms(1) this] object_text_field [OF assms(1) this(1)] Some show ?thesis
    by (auto simp: parse_optional_string_def quoted_def)
qed

lemma parse_unsigned_field:
  assumes "field_list fs" and "(k, to_string n) \<in> set fs" and "n \<le> u64_max"
  shows "parse_unsigned (object_text fs) k = Inr n"
proof -
  obtain r where r: "after_value r" "field_value_at (object_text fs) k = Inr (to_string n @ r)"
    using object_text_field [OF assms(1,2)] by blast
  have "takeWhile is_dec (to_string n @ r) = to_string n"
  proof -
    have "takeWhile is_dec r = []"
      using r(1) by (cases r) (auto simp: after_value_def is_dec_def code_def)
    then show ?thesis using to_string_digits [of n] by (simp add: takeWhile_append list_all_iff)
  qed
  moreover have "\<not> (length (to_string n) > 1 \<and> hd (to_string n) = CHR ''0'')"
    using to_string_leading [of n] by (cases "n = 0") (simp_all add: to_string.simps)
  ultimately show ?thesis using r assms(3) by (auto simp: parse_unsigned_def)
qed

lemma string_items_commas:
  assumes "list_all plain_char s"
  shows "list_all (list_all plain_char) ss \<Longrightarrow>
    string_items (commas (map quoted (s # ss)) @ CHR '']'' # r) acc = Inr (acc @ s # ss)"
  using assms
proof (induction ss arbitrary: s acc)
  case Nil
  then show ?case using plain_chars [of s] by (simp add: quoted_def left_right_of)
next
  case (Cons t ss)
  have "string_items (commas (map quoted (s # t # ss)) @ CHR '']'' # r) acc =
      string_items (commas (map quoted (t # ss)) @ CHR '']'' # r) (acc @ [s])"
    using plain_chars [OF Cons.prems(2)] by (simp add: quoted_def left_right_of)
  also have "\<dots> = Inr (acc @ s # t # ss)" using Cons.IH [of t "acc @ [s]"] Cons.prems by simp
  finally show ?case .
qed

lemma recent_text_plain: "list_all (list_all plain_char) ss \<Longrightarrow> recent_text ss = ''['' @ commas (map quoted ss) @ '']''"
  by (auto simp: recent_text_def json_string_plain list_all_iff intro!: arg_cong [of _ _ commas])

lemma parse_array_field:
  assumes "field_list fs" and "(k, recent_text ss) \<in> set fs" and "list_all (list_all plain_char) ss"
  shows "parse_string_array (object_text fs) k = Inr ss"
proof -
  obtain r where r: "field_value_at (object_text fs) k = Inr (recent_text ss @ r)"
    using object_text_field [OF assms(1,2)] by blast
  show ?thesis
  proof (cases ss)
    case Nil
    with r assms(3) show ?thesis by (simp add: parse_string_array_def recent_text_def)
  next
    case (Cons s ss')
    have "commas (map quoted ss) \<noteq> []" "hd (commas (map quoted ss) @ u) \<noteq> CHR '']''" for u
      by (simp_all add: Cons commas_Cons quoted_def)
    moreover have "string_items (commas (map quoted ss) @ CHR '']'' # r) [] = Inr ss"
      using string_items_commas [of s ss' r "[]"] assms(3) Cons by simp
    ultimately show ?thesis using r by (simp add: parse_string_array_def recent_text_plain [OF assms(3)])
  qed
qed

section \<open>The text of a valid state\<close>

definition state_fields :: "ModelState \<Rightarrow> (string \<times> string) list" where
  "state_fields st =
     [(''conditionBand'', quoted (condition_band_name (condition_band st))),
      (''conditionScore'', to_string (condition_score st)),
      (''generation'', to_string (generation st)),
      (''lastAppliedSourceEventId'', optional_text (last_applied_source_event_id st)),
      (''lastAssessmentId'', optional_text (last_assessment_id st)),
      (''modelConfigSha256'', quoted (model_config_sha256 st)),
      (''modelId'', quoted ''brake-condition-demo-v1''),
      (''modelVersion'', quoted ''1.0.0''),
      (''nextAdvisorySequence'', to_string (next_advisory_sequence st)),
      (''producerEpoch'', quoted (producer_epoch st)),
      (''profile'', quoted ''DEMO_PRECONDITIONED''),
      (''recentSourceEventIds'', recent_text (recent_source_event_ids st)),
      (''schemaVersion'', to_string 1),
      (''wearIndex'', to_string (wear_index st))]"

lemma has_version_plain: "has_version v c \<Longrightarrow> list_all plain_char v \<and> length v = 36"
proof -
  assume "has_version v c"
  then have c: "canonical_uuid v (Some c)" by (simp add: has_version_def uuid_with_version_canonical)
  then have dash: "uuid_dash i \<Longrightarrow> v ! i = CHR ''-''" and hex: "i < length v \<Longrightarrow> uuid_dash i \<or> is_lower_hex (v ! i)" for i
    unfolding canonical_uuid_def by (auto simp only: uuid_dash_def set_upt atLeastLessThan_iff)
  have plain: "plain_char (CHR ''-'')" "is_lower_hex x \<Longrightarrow> plain_char x" for x
    by (auto simp: plain_char_def char_class_defs)
  have "list_all plain_char v" unfolding list_all_length using dash hex plain by metis
  then show ?thesis using c by (simp add: canonical_uuid_def)
qed

lemma config_plain: "supported_model_config d \<Longrightarrow> list_all plain_char d \<and> length d = 64"
  by (auto simp: supported_model_config_def kModelConfigSha256_def kLegacyModelConfigSha256_def plain_char_def code_def)

lemma band_plain: "list_all plain_char (condition_band_name b)"
  by (cases b) (simp_all add: condition_band_name_def plain_char_def code_def)

lemma check_ledger_versions: "check_ledger ids known = Inr u \<Longrightarrow> list_all (\<lambda>i. has_version i (CHR ''4'')) ids"
  by (induction ids known rule: check_ledger.induct) (auto split: if_splits)

lemma validate_state_valid:
  assumes "validate_state st = Inr ()"
  shows "\<not> state_invalid st" and "list_all (\<lambda>i. has_version i (CHR ''4'')) (recent_source_event_ids st)"
  using assms check_ledger_versions by (auto simp: validate_state_def bindE_eq_Inr)

lemma validate_state_plain:
  assumes "validate_state st = Inr ()"
  shows "list_all plain_char (model_config_sha256 st)" and "list_all plain_char (producer_epoch st)"
    and "list_all (list_all plain_char) (recent_source_event_ids st)"
    and "case last_applied_source_event_id st of None \<Rightarrow> True | Some s \<Rightarrow> list_all plain_char s"
    and "case last_assessment_id st of None \<Rightarrow> True | Some s \<Rightarrow> list_all plain_char s"
  using validate_state_valid(1) [OF assms] config_plain has_version_plain
    list.pred_mono_strong [OF validate_state_valid(2) [OF assms]]
  by (auto simp: state_invalid_def split: option.splits)

lemma quiet_optional: "case v of None \<Rightarrow> True | Some s \<Rightarrow> list_all plain_char s \<Longrightarrow> quiet (optional_text v)"
  by (auto simp: optional_text_def json_string_plain quiet_quoted quiet_plain split: option.splits)

lemma quiet_recent: "list_all (list_all plain_char) ss \<Longrightarrow> quiet (recent_text ss)"
  using quiet_array [of ss] plain_chars by (auto simp: recent_text_plain list_all_iff)

lemma state_field_list:
  assumes "validate_state st = Inr ()"
  shows "field_list (state_fields st)"
proof -
  note plain = validate_state_plain [OF assms] band_plain
  have keys: "distinct (map fst (state_fields st))" "list_all (\<lambda>(k, v). is_key k) (state_fields st)"
    by (simp_all add: state_fields_def is_key_def char_class_defs)
  have lits: "list_all plain_char ''brake-condition-demo-v1''" "list_all plain_char ''1.0.0''"
    "list_all plain_char ''DEMO_PRECONDITIONED''"
    by (simp_all add: plain_char_def code_def)
  have "list_all (\<lambda>(k, v). quiet v) (state_fields st)"
    unfolding state_fields_def list.pred_inject prod.case
    by (intro conjI quiet_quoted quiet_number quiet_optional quiet_recent plain lits list.pred_inject(1))
  with keys show ?thesis by (auto simp: field_list_def list_all_iff)
qed

lemma to_string_one: "to_string (Suc 0) = ''1''"
  by code_simp

lemma state_json_fields:
  assumes "validate_state st = Inr ()"
  shows "state_json st = Inr (object_text (state_fields st))"
  using validate_state_plain [OF assms] band_plain [of "condition_band st"] assms
  by (simp add: state_json_def state_fields_def json_string_plain needle_def quoted_def to_string_one)

lemma length_u64: "n \<le> u64_max \<Longrightarrow> length (to_string n) \<le> 20"
  by (rule to_string_length_le) (simp_all add: u64_max_def)

lemma length_optional: "case v of None \<Rightarrow> True | Some s \<Rightarrow> has_version s c \<Longrightarrow> length (optional_text v) \<le> 38"
  using has_version_plain by (fastforce simp: optional_text_def json_string_plain quoted_def split: option.splits)

lemma length_recent:
  assumes "list_all (\<lambda>i. has_version i c) ids"
  shows "length (recent_text ids) \<le> 39 * length ids + 2"
proof -
  have "list_all (\<lambda>t. length t \<le> 38) (map json_string ids)"
    using assms has_version_plain by (fastforce simp: list_all_iff json_string_plain quoted_def)
  from length_commas [OF this] show ?thesis by (simp add: recent_text_def)
qed

lemma state_text_short:
  assumes "validate_state st = Inr ()" and "state_typed st"
  shows "length (object_text (state_fields st)) \<le> 65536"
proof -
  note v = validate_state_valid(1) [OF assms(1), unfolded state_invalid_def]
  have "length (to_string (wear_index st)) \<le> 20" "length (to_string (condition_score st)) \<le> 20"
    "length (to_string (generation st)) \<le> 20" "length (to_string (next_advisory_sequence st)) \<le> 20"
    using v assms(2) by (auto intro!: length_u64 simp: u64_max_def state_typed_def)
  moreover have "length (optional_text (last_applied_source_event_id st)) \<le> 38" "length (optional_text (last_assessment_id st)) \<le> 38"
    using v length_optional [where v = "last_applied_source_event_id st" and c = "CHR ''4''"]
      length_optional [where v = "last_assessment_id st" and c = "CHR ''5''"]
    by (simp_all split: option.splits)
  moreover have "length (recent_text (recent_source_event_ids st)) \<le> 39 * 64 + 2"
    using v length_recent [OF validate_state_valid(2) [OF assms(1)]] by linarith
  moreover have "length (producer_epoch st) = 36" "length (model_config_sha256 st) = 64"
    using v has_version_plain config_plain by blast+
  moreover have "length (condition_band_name (condition_band st)) \<le> 22"
    by (simp add: condition_band_name_def split: ConditionBand.splits)
  ultimately show ?thesis
    by (simp add: state_fields_def needle_def quoted_def to_string_one)
qed

lemma parse_band_name [simp]: "parse_band (condition_band_name b) = Inr b"
  by (cases b) (simp_all add: condition_band_name_def parse_band_def)

lemma read_state_fields:
  assumes "validate_state st = Inr ()" and "state_typed st"
  shows "read_state (object_text (state_fields st)) = Inr st"
    and "state_schema_unknown (object_text (state_fields st)) = Inr False"
proof -
  note v = validate_state_valid(1) [OF assms(1), unfolded state_invalid_def]
  note fs = state_field_list [OF assms(1)]
  note plain = validate_state_plain [OF assms(1)]
  note simple = parse_simple_field [OF fs] and unsigned = parse_unsigned_field [OF fs]
  have strings: "parse_simple_string (object_text (state_fields st)) ''conditionBand'' = Inr (condition_band_name (condition_band st))"
    "parse_simple_string (object_text (state_fields st)) ''modelConfigSha256'' = Inr (model_config_sha256 st)"
    "parse_simple_string (object_text (state_fields st)) ''producerEpoch'' = Inr (producer_epoch st)"
    "parse_simple_string (object_text (state_fields st)) ''modelId'' = Inr kModelId"
    "parse_simple_string (object_text (state_fields st)) ''modelVersion'' = Inr kModelVersion"
    "parse_simple_string (object_text (state_fields st)) ''profile'' = Inr kModelProfile"
    by (rule simple; simp add: state_fields_def plain band_plain kModelId_def kModelVersion_def kModelProfile_def
        plain_char_def code_def)+
  have numbers: "parse_unsigned (object_text (state_fields st)) ''generation'' = Inr (generation st)"
    "parse_unsigned (object_text (state_fields st)) ''wearIndex'' = Inr (wear_index st)"
    "parse_unsigned (object_text (state_fields st)) ''conditionScore'' = Inr (condition_score st)"
    "parse_unsigned (object_text (state_fields st)) ''nextAdvisorySequence'' = Inr (next_advisory_sequence st)"
    "parse_unsigned (object_text (state_fields st)) ''schemaVersion'' = Inr 1"
    by (rule unsigned; use v assms(2) in \<open>auto simp: state_fields_def state_typed_def u64_max_def\<close>)+
  have options: "parse_optional_string (object_text (state_fields st)) ''lastAppliedSourceEventId'' = Inr (last_applied_source_event_id st)"
    "parse_optional_string (object_text (state_fields st)) ''lastAssessmentId'' = Inr (last_assessment_id st)"
    "parse_string_array (object_text (state_fields st)) ''recentSourceEventIds'' = Inr (recent_source_event_ids st)"
    by (rule parse_optional_field [OF fs] parse_array_field [OF fs]; simp add: state_fields_def plain)+
  have "\<not> 4294967295 < wear_index st" "\<not> 4294967295 < condition_score st" using v by auto
  with strings numbers options show "read_state (object_text (state_fields st)) = Inr st"
    by (simp add: read_state_def del: object_text.simps)
  from strings numbers show "state_schema_unknown (object_text (state_fields st)) = Inr False"
    using v state_text_short [OF assms] by (simp add: state_schema_unknown_def)
qed

lemma parse_unsigned_bound: "parse_unsigned json k = Inr n \<Longrightarrow> n \<le> u64_max"
  by (auto simp: parse_unsigned_def bindE_eq_Inr Let_def split: if_splits)

lemma parse_state_iff:
  "parse_state_json t = Inr st \<longleftrightarrow> state_json st = Inr t \<and> state_typed st"
proof
  assume "state_json st = Inr t \<and> state_typed st"
  then have valid: "validate_state st = Inr ()" and typed: "state_typed st" and t: "t = object_text (state_fields st)"
    using state_json_fields by (auto simp: state_json_def bindE_eq_Inr)
  then show "parse_state_json t = Inr st"
    using read_state_fields [OF valid typed] state_json_fields [OF valid] by (simp add: parse_state_json_def)
next
  assume "parse_state_json t = Inr st"
  then have "state_json st = Inr t" "read_state t = Inr st"
    by (auto simp: parse_state_json_def bindE_eq_Inr split: if_splits)
  moreover from this(2) have "state_typed st"
    by (auto simp: read_state_def bindE_eq_Inr state_typed_def dest: parse_unsigned_bound)
  ultimately show "state_json st = Inr t \<and> state_typed st" by simp
qed

text \<open>
  C17. The stored text and the model state determine each other: the reader accepts exactly the texts
  that the writer produces from states within the width of their members, and returns the state
  the text was written from. So every valid state survives a restart, and any other text,
  with a field missing, duplicated, reordered or out of range, is refused.
\<close>

theorem state_text_roundtrip:
  "parse_state_json t = Inr st \<longleftrightarrow> state_json st = Inr t \<and> state_typed st"
  by (rule parse_state_iff)

section \<open>Name-based identities\<close>

lemma uuid_v5_version:
  assumes "uuid_v5 ns parts = Inr i"
  shows "has_version i (CHR ''5'')"
proof -
  from assms obtain m where "i = encode_uuid (let d = take 16 (sha1 m) in d[6 := d ! 6 mod 16 + 80, 8 := d ! 8 mod 64 + 128])"
    by (auto simp: uuid_v5_def bindE_eq_Inr Let_def split: if_splits)
  moreover define d where "d = take 16 (sha1 m)"
  ultimately have i: "i = encode_uuid (d[6 := d ! 6 mod 16 + 80, 8 := d ! 8 mod 64 + 128])" by simp
  have d: "length d = 16" "list_all (\<lambda>b. b < 256) d"
    using sha1_digest [of m] by (auto simp: d_def list_all_iff dest: in_set_takeD)
  let ?u = "d[6 := d ! 6 mod 16 + 80, 8 := d ! 8 mod 64 + 128]"
  have "(d ! 8 mod 64 + 128) div 16 \<in> {8, 9, 10, 11}"
  proof -
    have "d ! 8 mod 64 div 16 < 4" by (simp add: less_mult_imp_div_less)
    moreover have "(d ! 8 mod 64 + 128) div 16 = d ! 8 mod 64 div 16 + 8" by simp
    ultimately show ?thesis by auto
  qed
  moreover have "(d ! 6 mod 16 + 80) div 16 = 5" by simp
  moreover have "list_all (\<lambda>b. b < 256) ?u"
  proof -
    have "d ! 6 mod 16 + 80 < 256" "d ! 8 mod 64 + 128 < 256" by simp_all
    then show ?thesis using d(2) by (auto simp: list_all_iff dest!: set_update_subset_insert [THEN subsetD])
  qed
  ultimately have "canonical_uuid (encode_uuid ?u) (Some (encode_hex_digit 5))"
    using d(1) by (intro encode_uuid_canonical) auto
  then show ?thesis by (simp add: i has_version_def uuid_with_version_canonical encode_hex_digit_def)
qed

lemma plain_not_forbidden: "plain_char c \<Longrightarrow> \<not> forbidden_byte c"
  unfolding plain_char_def forbidden_byte_def by linarith

lemma namespaces_decode: "okE (decode_uuid kAssessmentNamespace)" "okE (decode_uuid kEventNamespace)"
  by code_simp+

lemma uuid_v5_total:
  assumes "okE (decode_uuid ns)" and "list_all (list_all plain_char) parts"
  shows "\<exists>i. uuid_v5 ns parts = Inr i"
  using assms plain_not_forbidden by (auto simp: uuid_v5_def okE_iff list_all_iff list_ex_iff)

section \<open>Exact decimals\<close>

lemma scale_digits_power: "scale_digits (10 ^ k) = k"
proof (induction k)
  case (Suc k)
  have "(1 :: nat) < 10 ^ Suc k" by (rule one_less_power) simp_all
  with Suc show ?case by (simp add: scale_digits.simps [of "10 * 10 ^ k"])
qed (simp add: scale_digits.simps)

lemma strip_zeros_decomp: "\<exists>n. s = strip_zeros s @ replicate n (CHR ''0'')"
proof -
  have "\<exists>n. t = replicate n (CHR ''0'') @ dropWhile (\<lambda>c. c = CHR ''0'') t" for t
  proof (induction t)
    case (Cons c t)
    then obtain n where n: "t = replicate n (CHR ''0'') @ dropWhile (\<lambda>c. c = CHR ''0'') t" by blast
    show ?case
    proof (cases "c = CHR ''0''")
      case True
      with n show ?thesis by (intro exI [of _ "Suc n"]) simp
    qed (intro exI [of _ 0], simp)
  qed simp
  from this [of "rev s"] obtain n where "rev s = replicate n (CHR ''0'') @ dropWhile (\<lambda>c. c = CHR ''0'') (rev s)" by blast
  then have "s = rev (dropWhile (\<lambda>c. c = CHR ''0'') (rev s)) @ replicate n (CHR ''0'')"
    by (metis rev_append rev_replicate rev_rev_ident)
  then show ?thesis by (auto simp: strip_zeros_def)
qed

lemma strip_zeros_value:
  "dec_value (strip_zeros s) * 10 ^ (length s - length (strip_zeros s)) = dec_value s"
  "length (strip_zeros s) \<le> length s"
proof -
  obtain n where n: "s = strip_zeros s @ replicate n (CHR ''0'')" using strip_zeros_decomp by blast
  then have "length s = length (strip_zeros s) + n" by (metis length_append length_replicate)
  moreover have "dec_value s = dec_value (strip_zeros s) * 10 ^ n"
    by (subst n) (simp add: dec_value_append)
  ultimately show "dec_value (strip_zeros s) * 10 ^ (length s - length (strip_zeros s)) = dec_value s"
    "length (strip_zeros s) \<le> length s" by simp_all
qed

lemma strip_zeros_last: "strip_zeros s \<noteq> [] \<Longrightarrow> last (strip_zeros s) \<noteq> CHR ''0''"
  using hd_dropWhile [of "\<lambda>c. c = CHR ''0''" "rev s"] by (simp add: strip_zeros_def last_rev)

text \<open>The decimals of a message are exact: for a scale that is a power of ten the writer never
  fails, and its text is the sign, the digits of the whole part and, unless the value is whole, a
  point and at most as many digits as the scale has zeros, without trailing zeros; read back at the
  scale, those digits are the magnitude that was written.
\<close>

theorem scaled_decimal_exact:
  "\<exists>w f. scaled_decimal v (10 ^ k) =
       Inr ((if v < 0 then ''-'' else []) @ w @ (if f = [] then [] else CHR ''.'' # f)) \<and>
     length f \<le> k \<and> (if f = [] then True else last f \<noteq> CHR ''0'') \<and>
     dec_value w * 10 ^ k + dec_value f * 10 ^ (k - length f) = nat \<bar>v\<bar>"
proof (cases "nat \<bar>v\<bar> mod 10 ^ k = 0")
  case True
  then have "nat \<bar>v\<bar> div 10 ^ k * 10 ^ k = nat \<bar>v\<bar>" using div_mult_mod_eq [of "nat \<bar>v\<bar>" "10 ^ k"] by simp
  with True show ?thesis
    by (intro exI [of _ "to_string (nat \<bar>v\<bar> div 10 ^ k)"] exI [of _ "[]"]) (simp add: scaled_decimal_def Let_def)
next
  case False
  let ?fr = "nat \<bar>v\<bar> mod 10 ^ k" and ?w = "to_string (nat \<bar>v\<bar> div 10 ^ k)"
  define p where "p = zero_pad k (to_string ?fr)"
  have "0 < k" using False by (cases k) simp_all
  then have "length p = k" unfolding p_def by (intro length_zero_pad to_string_length_le) simp_all
  moreover have pv: "dec_value p = ?fr" by (simp add: p_def)
  ultimately have "dec_value (strip_zeros p) * 10 ^ (k - length (strip_zeros p)) = ?fr" "length (strip_zeros p) \<le> k"
    using strip_zeros_value [of p] by simp_all
  moreover from this(1) False have ne: "strip_zeros p \<noteq> []" by auto
  moreover have "scaled_decimal v (10 ^ k) = Inr ((if v < 0 then ''-'' else []) @ ?w @ CHR ''.'' # strip_zeros p)"
    using False by (simp add: scaled_decimal_def Let_def scale_digits_power p_def)
  ultimately show ?thesis
    using strip_zeros_last [OF ne] div_mult_mod_eq [of "nat \<bar>v\<bar>" "10 ^ k"]
    by (intro exI [of _ ?w] exI [of _ "strip_zeros p"]) simp
qed

section \<open>Every assessment can be written\<close>

lemma scaled_decimal_short:
  assumes "nat \<bar>v\<bar> \<le> u64_max" and "n \<le> 4"
  shows "\<exists>t. scaled_decimal v (10 ^ n) = Inr t \<and> length t \<le> 30"
proof -
  have "length (to_string (nat \<bar>v\<bar> div 10 ^ n)) \<le> 20"
    using assms(1) div_le_dividend [of "nat \<bar>v\<bar>" "10 ^ n"] by (intro length_u64) linarith
  moreover have "length (strip_zeros (zero_pad n (to_string (nat \<bar>v\<bar> mod 10 ^ n)))) \<le> 4" if "nat \<bar>v\<bar> mod 10 ^ n \<noteq> 0"
  proof -
    have "0 < n" using that by (cases n) simp_all
    then have "length (zero_pad n (to_string (nat \<bar>v\<bar> mod 10 ^ n))) = n"
      by (intro length_zero_pad to_string_length_le) simp_all
    then show ?thesis using strip_zeros_value(2) [of "zero_pad n (to_string (nat \<bar>v\<bar> mod 10 ^ n))"] assms(2) by linarith
  qed
  ultimately show ?thesis by (auto simp: scaled_decimal_def Let_def scale_digits_power)
qed

text \<open>The widths of an assessment's members.\<close>

definition assessment_typed :: "Assessment \<Rightarrow> bool" where
  "assessment_typed a \<longleftrightarrow>
     (let f = features a
      in list_all (\<lambda>n. n \<le> u64_max)
           [active_sample_count f, assessed_score a, episode_load_bps f, active_duration_bps f,
            active_duration_milliseconds f, mean_brake_bps f, peak_deceleration_bps f, speed_reduction_bps f,
            wheel_dispersion_bps f, wheel_dispersion_raw_bps f, straight_active_sample_count f,
            wear_increment a, wear_index_after a, wear_index_before a] \<and>
         list_all (\<lambda>i. nat \<bar>i\<bar> \<le> u64_max)
           [mean_brake_milli_percent f, peak_deceleration_milli_mps2 f, speed_reduction_milli_kph f])"

lemma length_band: "length (json_string (condition_band_name b)) \<le> 24"
  by (simp add: json_string_plain band_plain quoted_def) (cases b; simp add: condition_band_name_def)

lemma assessment_content_total:
  assumes "assessment_typed a" and "length (source_window_start_timestamp a) = 24" and "length (source_window_end_timestamp a) = 24"
  shows "\<exists>c. assessment_content a = Inr c \<and> length c \<le> 2000"
proof -
  let ?f = "features a"
  note typed = assms(1) [unfolded assessment_typed_def Let_def list.pred_inject(2) conj_assoc]
  have three: "(1000 :: nat) = 10 ^ 3" "(10000 :: nat) = 10 ^ 4" by simp_all
  obtain t1 t2 t3 t4 t5 where ts: "scaled_decimal (int (active_duration_milliseconds ?f)) 1000 = Inr t1" "length t1 \<le> 30"
    "scaled_decimal (mean_brake_milli_percent ?f) 1000 = Inr t2" "length t2 \<le> 30"
    "scaled_decimal (peak_deceleration_milli_mps2 ?f) 1000 = Inr t3" "length t3 \<le> 30"
    "scaled_decimal (speed_reduction_milli_kph ?f) 1000 = Inr t4" "length t4 \<le> 30"
    "scaled_decimal (int (wheel_dispersion_raw_bps ?f)) 10000 = Inr t5" "length t5 \<le> 30"
    unfolding three using typed
      scaled_decimal_short [of "int (active_duration_milliseconds ?f)" 3] scaled_decimal_short [of "mean_brake_milli_percent ?f" 3]
      scaled_decimal_short [of "peak_deceleration_milli_mps2 ?f" 3] scaled_decimal_short [of "speed_reduction_milli_kph ?f" 3]
      scaled_decimal_short [of "int (wheel_dispersion_raw_bps ?f)" 4] by auto
  have n: "length (to_string x) \<le> 20" if "x \<le> u64_max" for x using length_u64 [OF that] .
  have "length (to_string (active_sample_count ?f)) \<le> 20" "length (to_string (assessed_score a)) \<le> 20"
    "length (to_string (episode_load_bps ?f)) \<le> 20" "length (to_string (active_duration_bps ?f)) \<le> 20"
    "length (to_string (mean_brake_bps ?f)) \<le> 20" "length (to_string (peak_deceleration_bps ?f)) \<le> 20"
    "length (to_string (speed_reduction_bps ?f)) \<le> 20" "length (to_string (wheel_dispersion_bps ?f)) \<le> 20"
    "length (to_string (straight_active_sample_count ?f)) \<le> 20" "length (to_string (wear_increment a)) \<le> 20"
    "length (to_string (wear_index_after a)) \<le> 20" "length (to_string (wear_index_before a)) \<le> 20"
    using typed n by blast+
  with ts length_band [of "current_band a"] length_band [of "previous_band a"] assms(2,3)
    length_json_string [of "source_window_start_timestamp a"] length_json_string [of "source_window_end_timestamp a"]
  show ?thesis by (simp add: assessment_content_def Let_def)
qed

lemma provenance_text_total:
  assumes "\<not> v2_metadata_invalid md ep a"
  shows "\<exists>t. provenance_text md = Inr t \<and> length t \<le> 520"
proof (cases "dm_service_instance md")
  case None
  with assms have "length (dm_service_artifact_sha256 md) = 64"
    by (auto simp: v2_metadata_invalid_def lowercase_sha256_def)
  with None length_json_string [of "dm_service_artifact_sha256 md"] show ?thesis by (simp add: provenance_text_def)
next
  case (Some i)
  with assms have "native_instance_valid i" by (auto simp: v2_metadata_invalid_def native_provenance_valid_def)
  then obtain t where "service_instance_json i = Inr t" "length t \<le> 500" using service_instance_json_total by blast
  with Some show ?thesis by (simp add: provenance_text_def)
qed

lemma v2_metadata_lengths:
  assumes "\<not> v2_metadata_invalid md ep a"
  shows "length (dm_assessed_at md) = 24" "length (source_window_start_timestamp a) = 24"
    "length (source_window_end_timestamp a) = 24" "length (dm_unit_system_uid md) \<le> 128"
    "length (dm_service_version md) \<le> 32" "length (dm_vdp_contract_version md) \<le> 32"
    "length (dm_vdp_contract_sha256 md) = 64" "length (dm_model_artifact_sha256 md) \<le> 64"
    "length (dm_model_config_sha256 md) = 64" "length (source_event_id ep) = 36"
  using assms has_version_plain [of "source_event_id ep" "CHR ''4''"]
  by (auto simp: v2_metadata_invalid_def rfc3339_length bounded_identifier_def semantic_version_def lowercase_sha256_def
      kModelConfigSha256_def split: if_splits)

lemma role_length: "length (unit_role_name r) \<le> 10"
  by (simp add: unit_role_name_def split: UnitRole.splits)

lemma assessment_json_total:
  assumes "\<not> v2_metadata_invalid md ep a" and "length ident = 36" and "length content \<le> 2000"
  shows "\<exists>t. assessment_json md ep ident content = Inr t \<and> length t \<le> 16384"
proof -
  obtain p where "provenance_text md = Inr p" "length p \<le> 520" using provenance_text_total [OF assms(1)] by blast
  moreover have "length (sha256_hex content) = 64" using sha256_hex_lowercase by (simp add: lowercase_sha256_def)
  ultimately show ?thesis
    using v2_metadata_lengths [OF assms(1)] assms(2,3) role_length [of "dm_unit_role md"]
      length_json_string [of "dm_assessed_at md"] length_json_string [of ident] length_json_string [of "sha256_hex content"]
      length_json_string [of "dm_model_artifact_sha256 md"] length_json_string [of "dm_model_config_sha256 md"]
      length_json_string [of "dm_service_version md"] length_json_string [of "source_event_id ep"]
      length_json_string [of "unit_role_name (dm_unit_role md)"] length_json_string [of "dm_unit_system_uid md"]
      length_json_string [of "dm_vdp_contract_sha256 md"] length_json_string [of "dm_vdp_contract_version md"]
    by (simp add: assessment_json_def Let_def)
qed

lemma event_json_total:
  assumes "\<not> v2_metadata_invalid md ep a" and "length ident = 36" and "length event_ident = 36" and "length content \<le> 2000"
  shows "\<exists>t. event_json md ep ident event_ident content = Inr t \<and> length t \<le> 16384"
proof -
  obtain p where "provenance_text md = Inr p" "length p \<le> 520" using provenance_text_total [OF assms(1)] by blast
  moreover have "length (sha256_hex content) = 64" using sha256_hex_lowercase by (simp add: lowercase_sha256_def)
  ultimately show ?thesis
    using v2_metadata_lengths [OF assms(1)] assms(2-4) role_length [of "dm_unit_role md"]
      length_json_string [of event_ident] length_json_string [of ident] length_json_string [of "sha256_hex content"]
      length_json_string [of "dm_model_config_sha256 md"] length_json_string [of "dm_service_version md"]
      length_json_string [of "source_event_id ep"] length_json_string [of "unit_role_name (dm_unit_role md)"]
      length_json_string [of "dm_unit_system_uid md"]
    by (simp add: event_json_def Let_def)
qed

lemma bounded_identifier_plain: "bounded_identifier u \<Longrightarrow> list_all plain_char u"
  by (auto simp: bounded_identifier_def list_all_iff plain_char_def char_class_defs)

lemma build_event_total:
  assumes "\<not> v2_metadata_invalid md ep a" and "has_version ident (CHR ''5'')" and "assessed_score a \<le> u64_max"
  shows "\<exists>e. build_event md ep a ident = Inr e \<and> has_version (derived_id e) (CHR ''5'') \<and>
    derived_type e = ''BRAKE_HEALTH_EVENT'' \<and> length (derived_json e) \<le> kMaximumMessageBytes"
proof -
  have lit: "list_all plain_char ''BRAKE_CONDITION_BAND_CHANGED''" by (simp add: plain_char_def code_def)
  obtain i where i: "uuid_v5 kEventNamespace [ident, ''BRAKE_CONDITION_BAND_CHANGED'', condition_band_name (current_band a)] = Inr i"
    using uuid_v5_total [OF namespaces_decode(2), of "[ident, ''BRAKE_CONDITION_BAND_CHANGED'', condition_band_name (current_band a)]"]
      has_version_plain [OF assms(2)] band_plain lit by auto
  note v5 = uuid_v5_version [OF i]
  have "length (event_content a) \<le> 2000"
    using length_band [of "current_band a"] length_band [of "previous_band a"] length_json_string [of "source_window_end_timestamp a"]
      v2_metadata_lengths(3) [OF assms(1)] length_u64 [OF assms(3)]
    by (simp add: event_content_def)
  then obtain t where "event_json md ep ident i (event_content a) = Inr t" "length t \<le> 16384"
    using event_json_total [OF assms(1)] has_version_plain v5 assms(2) by blast
  with i v5 assms(1) show ?thesis
    by (simp add: build_event_def v2_enforce_message_size_def kMaximumMessageBytes_def message_idempotency_key_sha256_def
        throwIf_def v2_metadata_invalid_def)
qed

definition message_ok :: "string \<Rightarrow> DerivedMessage \<Rightarrow> bool" where
  "message_ok kind m \<longleftrightarrow> has_version (derived_id m) (CHR ''5'') \<and> derived_type m = kind \<and>
     length (derived_json m) \<le> kMaximumMessageBytes"

lemma assessment_id_total:
  assumes "\<not> v2_metadata_invalid md ep a"
  shows "\<exists>i. assessment_id md (source_event_id ep) = Inr i"
proof -
  have "list_all (list_all plain_char) [dm_unit_system_uid md, source_event_id ep, dm_model_config_sha256 md]"
    using assms bounded_identifier_plain has_version_plain config_plain [of kModelConfigSha256]
    by (auto simp: v2_metadata_invalid_def supported_model_config_def)
  from uuid_v5_total [OF namespaces_decode(1) this] show ?thesis by (simp add: assessment_id_def)
qed

lemma build_messages_produced:
  assumes "assessment_typed a" and valid: "\<not> v2_metadata_invalid md ep a"
  shows "\<exists>m. v2_build_messages md ep a = Inr m \<and> message_ok ''BRAKE_HEALTH_ASSESSMENT'' (derived_assessment m) \<and>
      (derived_event m \<noteq> None \<longleftrightarrow> previous_band a \<noteq> current_band a) \<and>
      pred_option (message_ok ''BRAKE_HEALTH_EVENT'') (derived_event m)"
proof -
  note len = v2_metadata_lengths [OF valid]
  obtain i where i: "assessment_id md (source_event_id ep) = Inr i" using assessment_id_total [OF valid] by blast
  then have v5: "has_version i (CHR ''5'')" using uuid_v5_version by (simp add: assessment_id_def)
  obtain c where c: "assessment_content a = Inr c" "length c \<le> 2000"
    using assessment_content_total [OF assms(1) len(2,3)] by blast
  obtain t where t: "assessment_json md ep i c = Inr t" "length t \<le> 16384"
    using assessment_json_total [OF valid] has_version_plain [OF v5] c(2) by blast
  have "assessed_score a \<le> u64_max" using assms(1) by (simp add: assessment_typed_def Let_def)
  then obtain e where "build_event md ep a i = Inr e" "message_ok ''BRAKE_HEALTH_EVENT'' e"
    using build_event_total [OF valid v5] by (auto simp: message_ok_def)
  with valid i v5 c t show ?thesis
    by (simp add: v2_build_messages_def v2_validate_metadata_def v2_enforce_message_size_def kMaximumMessageBytes_def
        message_idempotency_key_sha256_def throwIf_def v2_metadata_invalid_def [of md ep a] message_ok_def Let_def)
qed

text \<open>
  C18. Building the messages of an assessment fails only on metadata that breaks the contract, and
  then with the contract's error: in every other case both the assessment message and, exactly when
  the band changed, the band-change message are produced, each with a version-5 UUID as its
  identity and within 16 KiB. The numbers are taken within the width of their members.
\<close>

theorem v2_messages_total:
  assumes "assessment_typed a"
  shows "if v2_metadata_invalid md ep a
    then v2_build_messages md ep a = Inl (Invalid_argument ''v2 message metadata does not satisfy the contract'')
    else \<exists>m. v2_build_messages md ep a = Inr m \<and> message_ok ''BRAKE_HEALTH_ASSESSMENT'' (derived_assessment m) \<and>
      (derived_event m \<noteq> None \<longleftrightarrow> previous_band a \<noteq> current_band a) \<and>
      pred_option (message_ok ''BRAKE_HEALTH_EVENT'') (derived_event m)"
  using build_messages_produced [OF assms] by (simp add: v2_build_messages_def v2_validate_metadata_def)

definition demo_metadata :: DeploymentMetadata where
  "demo_metadata = \<lparr>dm_unit_system_uid = ''unit-1'', dm_unit_role = Validation, dm_service_version = ''1.0.0'',
     dm_service_artifact_sha256 = replicate 64 (CHR ''a''), dm_vdp_contract_version = ''1.0.0'',
     dm_vdp_contract_sha256 = replicate 64 (CHR ''b''), dm_model_artifact_sha256 = replicate 64 (CHR ''c''),
     dm_model_config_sha256 = kModelConfigSha256, dm_assessed_at = ''2026-01-01T00:00:10.000Z'', dm_service_instance = None\<rparr>"

definition demo_assessment :: "ConditionBand \<Rightarrow> Assessment" where
  "demo_assessment b = \<lparr>features = \<lparr>peak_deceleration_milli_mps2 = 3000, peak_deceleration_bps = 5000,
       active_duration_milliseconds = 1500, active_duration_bps = 3000, speed_reduction_milli_kph = 20000,
       speed_reduction_bps = 4000, mean_brake_milli_percent = 40000, mean_brake_bps = 4000,
       wheel_dispersion_raw_bps = 100, wheel_dispersion_bps = 100, episode_load_bps = 3000,
       active_sample_count = 16, straight_active_sample_count = 16\<rparr>,
     wear_index_before = 20, wear_increment = 5, wear_index_after = 25, assessed_score = 75, previous_band = Good,
     current_band = b, source_window_start_timestamp = ''2026-01-01T00:00:00.000Z'',
     source_window_end_timestamp = ''2026-01-01T00:00:05.000Z''\<rparr>"

lemma demo_assessment_typed: "assessment_typed (demo_assessment b)"
  by (simp add: assessment_typed_def demo_assessment_def u64_max_def)

lemma demo_metadata_valid:
  "\<not> v2_metadata_invalid demo_metadata demo_episode (demo_assessment Monitor)"
  "\<not> v2_metadata_invalid (demo_metadata\<lparr>dm_assessed_at := ''2026-01-02T00:00:10.000Z''\<rparr>) demo_episode (demo_assessment Monitor)"
  by code_simp+

theorem v2_messages_total_witness:
  "\<exists>m e. v2_build_messages demo_metadata demo_episode (demo_assessment Monitor) = Inr m \<and> derived_event m = Some e \<and>
      message_ok ''BRAKE_HEALTH_EVENT'' e"
  using v2_messages_total [OF demo_assessment_typed, of demo_metadata demo_episode Monitor] demo_metadata_valid(1)
  by (auto simp: demo_assessment_def)

text \<open>The identity of a message does not depend on when or by which release it was built: two
  successful builds for the same unit and source event give the assessment the same identity and
  the same idempotency key, and two band-change messages for the same new band as well, so a
  rebuilt message is recognised as the one already sent.
\<close>

theorem v2_identity_stable:
  assumes "v2_build_messages md ep a = Inr m" and "v2_build_messages md' ep' a' = Inr m'"
    and "dm_unit_system_uid md = dm_unit_system_uid md'" and "source_event_id ep = source_event_id ep'"
  shows "derived_id (derived_assessment m) = derived_id (derived_assessment m') \<and>
    derived_idempotency_key_sha256 (derived_assessment m) = derived_idempotency_key_sha256 (derived_assessment m') \<and>
    (case (derived_event m, derived_event m') of
       (Some e, Some e') \<Rightarrow> current_band a = current_band a' \<longrightarrow>
          derived_id e = derived_id e' \<and> derived_idempotency_key_sha256 e = derived_idempotency_key_sha256 e'
     | _ \<Rightarrow> True)"
proof -
  have cfg: "dm_model_config_sha256 md = dm_model_config_sha256 md'"
    using assms(1,2) by (auto simp: v2_build_messages_def v2_validate_metadata_def bindE_eq_Inr v2_metadata_invalid_def)
  have ids: "assessment_id md (source_event_id ep) = assessment_id md' (source_event_id ep')"
    by (simp add: assessment_id_def cfg assms(3,4))
  show ?thesis
    using assms(1,2) ids assms(3)
    by (auto simp: v2_build_messages_def build_event_def bindE_eq_Inr message_idempotency_key_sha256_def Let_def
        split: if_splits)
qed

theorem v2_identity_stable_witness:
  "\<exists>m m'. v2_build_messages demo_metadata demo_episode (demo_assessment Monitor) = Inr m \<and>
     v2_build_messages (demo_metadata\<lparr>dm_assessed_at := ''2026-01-02T00:00:10.000Z''\<rparr>) demo_episode (demo_assessment Monitor) = Inr m' \<and>
     derived_id (derived_assessment m) = derived_id (derived_assessment m')"
proof -
  obtain m m' where m: "v2_build_messages demo_metadata demo_episode (demo_assessment Monitor) = Inr m"
    "v2_build_messages (demo_metadata\<lparr>dm_assessed_at := ''2026-01-02T00:00:10.000Z''\<rparr>) demo_episode (demo_assessment Monitor) = Inr m'"
    using build_messages_produced [OF demo_assessment_typed demo_metadata_valid(1)]
      build_messages_produced [OF demo_assessment_typed demo_metadata_valid(2)] by blast
  with v2_identity_stable [OF m] show ?thesis by auto
qed

end
