(* ===== verification/Messages3.thy ===== *)
theory Messages3
  imports Messages2
begin

text \<open>
  The v3 advisory (\<^verbatim>\<open>src/v3/advisory.cpp\<close> and \<^verbatim>\<open>src/v3/messages.cpp\<close>): requests to the gateway, its status
  reports, and the facts that the service records about them.
\<close>

section \<open>Data\<close>

datatype GatewayState = Received | Applied | Cleared | Rejected | Expired | Failed

datatype GatewayReason =
    NoReason | UnauthorizedSource | UnauthorizedPath | InvalidSchema | InvalidValue | StaleRequest
  | ReplayDetected | SequenceRollback | RateLimited | QmPolicyDenied | InternalError

datatype ActiveRecommendation = NoRecommendation | InspectionAdvised

datatype ActiveReason = NoActiveReason | PredictedBrakeDegradation

record AdvisoryMetadata =
  am_unit_system_uid :: string
  am_unit_role :: UnitRole
  am_service_version :: string
  am_service_artifact_sha256 :: string
  am_vdp_contract_version :: string
  am_vdp_contract_sha256 :: string
  am_service_instance :: "ServiceInstance option"

record AdvisoryRequest =
  request_id :: string
  request_epoch :: string
  request_sequence :: nat
  decision_id :: string
  issued_at :: string
  expires_at :: string
  request_json :: string
  request_service_version :: string
  is_clear :: bool

record GatewayStatus =
  status_request_id :: string
  status_epoch :: string
  status_sequence :: nat
  status_state :: GatewayState
  status_reason :: GatewayReason
  gateway_observed_at :: string
  active_recommendation :: ActiveRecommendation
  active_reason :: ActiveReason
  active_until :: "string option"

record AdvisoryFact =
  fact_request_id :: string
  fact_state :: GatewayState
  fact_json :: string
  fact_content_sha256 :: string
  fact_key_sha256 :: string
  fact_message_sha256 :: string

definition kRequestNamespace :: string where "kRequestNamespace = ''894e102e-5380-5c9d-a6f7-46f00b234725''"
definition kLeaseMilliseconds :: int where "kLeaseMilliseconds = 30000"
definition kRefreshMilliseconds :: int where "kRefreshMilliseconds = 20000"
definition kMaximumRequestBytes :: nat where "kMaximumRequestBytes = 2048"
definition kMaximumStatusBytes :: nat where "kMaximumStatusBytes = 1024"
definition kMaximumFactBytes :: nat where "kMaximumFactBytes = 16384"

section \<open>Names\<close>

definition gateway_state_name :: "GatewayState \<Rightarrow> string" where
  "gateway_state_name s =
     (case s of Received \<Rightarrow> ''RECEIVED'' | Applied \<Rightarrow> ''APPLIED'' | Cleared \<Rightarrow> ''CLEARED''
      | Rejected \<Rightarrow> ''REJECTED'' | Expired \<Rightarrow> ''EXPIRED'' | Failed \<Rightarrow> ''FAILED'')"

definition gateway_reason_name :: "GatewayReason \<Rightarrow> string" where
  "gateway_reason_name r =
     (case r of NoReason \<Rightarrow> ''NONE'' | UnauthorizedSource \<Rightarrow> ''UNAUTHORIZED_SOURCE''
      | UnauthorizedPath \<Rightarrow> ''UNAUTHORIZED_PATH'' | InvalidSchema \<Rightarrow> ''INVALID_SCHEMA''
      | InvalidValue \<Rightarrow> ''INVALID_VALUE'' | StaleRequest \<Rightarrow> ''STALE_REQUEST''
      | ReplayDetected \<Rightarrow> ''REPLAY_DETECTED'' | SequenceRollback \<Rightarrow> ''SEQUENCE_ROLLBACK''
      | RateLimited \<Rightarrow> ''RATE_LIMITED'' | QmPolicyDenied \<Rightarrow> ''QM_POLICY_DENIED''
      | InternalError \<Rightarrow> ''INTERNAL_ERROR'')"

definition active_recommendation_name :: "ActiveRecommendation \<Rightarrow> string" where
  "active_recommendation_name v = (case v of NoRecommendation \<Rightarrow> ''NONE'' | InspectionAdvised \<Rightarrow> ''INSPECTION_RECOMMENDED'')"

definition active_reason_name :: "ActiveReason \<Rightarrow> string" where
  "active_reason_name v = (case v of NoActiveReason \<Rightarrow> ''NONE'' | PredictedBrakeDegradation \<Rightarrow> ''PREDICTED_BRAKE_DEGRADATION'')"

definition application_evidence :: "GatewayState \<Rightarrow> bool" where
  "application_evidence s \<longleftrightarrow> s = Applied \<or> s = Cleared"

section \<open>Requests\<close>

definition v3_metadata_invalid :: "AdvisoryMetadata \<Rightarrow> bool" where
  "v3_metadata_invalid md \<longleftrightarrow>
     (am_service_instance md \<noteq> None \<and>
       (\<not> native_identifier (am_unit_system_uid md) \<or> \<not> package_version (am_vdp_contract_version md))) \<or>
     \<not> bounded_identifier (am_unit_system_uid md) \<or>
     \<not> semantic_version (am_service_version md) \<or>
     (if am_service_instance md \<noteq> None
      then \<not> native_provenance_valid (am_service_instance md) (am_service_version md) (am_service_artifact_sha256 md)
      else \<not> lowercase_sha256 (am_service_artifact_sha256 md)) \<or>
     \<not> semantic_version (am_vdp_contract_version md) \<or>
     \<not> lowercase_sha256 (am_vdp_contract_sha256 md)"

definition v3_validate_metadata :: "AdvisoryMetadata \<Rightarrow> unit result" where
  "v3_validate_metadata md =
     throwIf (v3_metadata_invalid md) (Invalid_argument ''v3 deployment metadata violates the contract'')"

definition request_bytes :: "string \<Rightarrow> string \<Rightarrow> nat \<Rightarrow> string \<Rightarrow> string \<Rightarrow> string \<Rightarrow> string \<Rightarrow> bool \<Rightarrow> string" where
  "request_bytes rid epoch sequence decision issued expires version clear =
     ''{'' @ ''\"decisionId\":'' @ json_string decision @
     '',\"expiresAt\":'' @ json_string expires @
     '',\"issuedAt\":'' @ json_string issued @
     '',\"modelVersion\":\"brake-condition-demo-v1\"'' @
     (if clear then '',\"operation\":\"CLEAR\"'' else '',\"operation\":\"SET\"'') @
     '',\"producerEpoch\":'' @ json_string epoch @
     (if clear then '',\"reasonCode\":\"CONDITION_CLEARED\"''
      else '',\"reasonCode\":\"PREDICTED_BRAKE_DEGRADATION\",\"recommendation\":\"INSPECTION_RECOMMENDED\"'') @
     '',\"requestId\":'' @ json_string rid @
     '',\"schemaVersion\":1'' @
     '',\"sequence\":'' @ to_string sequence @
     '',\"serviceVersion\":'' @ json_string version @ ''}''"

definition request_name :: "string \<Rightarrow> nat \<Rightarrow> bool \<Rightarrow> string \<Rightarrow> string list" where
  "request_name epoch sequence clear decision =
     [epoch, to_string sequence, if clear then ''CLEAR'' else ''SET'', decision]"

definition validate_request :: "AdvisoryRequest \<Rightarrow> unit result" where
  "validate_request r =
     (let bad = Invalid_argument ''advisory request is not canonical''
      in if \<not> canonical_uuid (request_id r) (Some (CHR ''5'')) \<or> \<not> canonical_uuid (request_epoch r) (Some (CHR ''4'')) \<or>
            request_sequence r = 0 \<or> \<not> canonical_uuid (decision_id r) (if is_clear r then None else Some (CHR ''5'')) \<or>
            \<not> semantic_version (request_service_version r)
         then Inl bad
         else bindE (timestamp_milliseconds (expires_at r)) (\<lambda>e.
              bindE (timestamp_milliseconds (issued_at r)) (\<lambda>i.
                if e - i \<noteq> kLeaseMilliseconds then Inl bad
                else bindE (uuid_v5 kRequestNamespace (request_name (request_epoch r) (request_sequence r) (is_clear r) (decision_id r))) (\<lambda>u.
                  throwIf (u \<noteq> request_id r \<or>
                      request_bytes (request_id r) (request_epoch r) (request_sequence r) (decision_id r) (issued_at r) (expires_at r)
                        (request_service_version r) (is_clear r) \<noteq> request_json r \<or>
                      length (request_json r) > kMaximumRequestBytes) bad))))"

text \<open>What the two builders share once the identity is checked.\<close>

definition issue_request :: "exn \<Rightarrow> bool \<Rightarrow> string \<Rightarrow> nat \<Rightarrow> string \<Rightarrow> string \<Rightarrow> string \<Rightarrow> AdvisoryRequest result" where
  "issue_request overflow clear epoch sequence decision issued version =
     bindE (timestamp_milliseconds issued) (\<lambda>now.
       if now > i64_max - kLeaseMilliseconds then Inl overflow
       else bindE (timestamp_from_milliseconds (now + kLeaseMilliseconds)) (\<lambda>expires.
            bindE (uuid_v5 kRequestNamespace (request_name epoch sequence clear decision)) (\<lambda>rid.
              (let r = \<lparr>request_id = rid, request_epoch = epoch, request_sequence = sequence, decision_id = decision,
                     issued_at = issued, expires_at = expires,
                     request_json = request_bytes rid epoch sequence decision issued expires version clear,
                     request_service_version = version, is_clear = clear\<rparr>
               in bindE (validate_request r) (\<lambda>_. Inr r)))))"

definition build_set_request :: "string \<Rightarrow> nat \<Rightarrow> string \<Rightarrow> string \<Rightarrow> string \<Rightarrow> AdvisoryRequest result" where
  "build_set_request epoch sequence decision issued version =
     (if \<not> canonical_uuid epoch (Some (CHR ''4'')) \<or> sequence = 0 \<or> \<not> bounded_identifier decision \<or>
         \<not> canonical_uuid decision (Some (CHR ''5'')) \<or> \<not> semantic_version version
      then Inl (Invalid_argument ''advisory request identity violates the contract'')
      else issue_request (Out_of_range ''advisory lease timestamp overflows'') False epoch sequence decision issued version)"

definition build_clear_request :: "string \<Rightarrow> nat \<Rightarrow> string \<Rightarrow> string \<Rightarrow> string \<Rightarrow> AdvisoryRequest result" where
  "build_clear_request epoch sequence command issued version =
     (if \<not> canonical_uuid epoch (Some (CHR ''4'')) \<or> sequence = 0 \<or> \<not> canonical_uuid command None \<or> \<not> semantic_version version
      then Inl (Invalid_argument ''reset request identity violates the contract'')
      else issue_request (Out_of_range ''reset lease overflows'') True epoch sequence command issued version)"

definition build_request :: "bool \<Rightarrow> string \<Rightarrow> nat \<Rightarrow> string \<Rightarrow> string \<Rightarrow> string \<Rightarrow> AdvisoryRequest result" where
  "build_request clear = (if clear then build_clear_request else build_set_request)"

section \<open>Gateway status\<close>

definition status_active :: "GatewayStatus \<Rightarrow> bool" where
  "status_active s \<longleftrightarrow> active_recommendation s = InspectionAdvised \<and> active_reason s = PredictedBrakeDegradation \<and> active_until s \<noteq> None"

definition status_inactive :: "GatewayStatus \<Rightarrow> bool" where
  "status_inactive s \<longleftrightarrow> active_recommendation s = NoRecommendation \<and> active_reason s = NoActiveReason \<and> active_until s = None"

definition validate_gateway_status :: "GatewayStatus \<Rightarrow> unit result" where
  "validate_gateway_status s =
     bindE (throwIf (\<not> canonical_uuid (status_request_id s) (Some (CHR ''5'')) \<or> \<not> canonical_uuid (status_epoch s) (Some (CHR ''4'')) \<or>
                     status_sequence s = 0) (Invalid_argument ''Gateway Status identity violates the contract'')) (\<lambda>_.
     bindE (timestamp_milliseconds (gateway_observed_at s)) (\<lambda>_.
     bindE (throwIf (\<not> status_active s \<and> \<not> status_inactive s) (Invalid_argument ''Gateway Status active fields are inconsistent'')) (\<lambda>_.
     bindE (case active_until s of None \<Rightarrow> Inr () | Some t \<Rightarrow> bindE (timestamp_milliseconds t) (\<lambda>_. Inr ())) (\<lambda>_.
     bindE (throwIf (status_state s = Applied \<and> \<not> status_active s) (Invalid_argument ''APPLIED Gateway Status lacks the active advisory'')) (\<lambda>_.
       throwIf (status_state s = Cleared \<and> \<not> status_inactive s) (Invalid_argument ''CLEARED Gateway Status retains an active advisory''))))))"

definition until_text :: "string option \<Rightarrow> string" where
  "until_text u = (case u of None \<Rightarrow> ''null'' | Some t \<Rightarrow> json_string t)"

definition gateway_status_json :: "GatewayStatus \<Rightarrow> string result" where
  "gateway_status_json s =
     bindE (validate_gateway_status s) (\<lambda>_.
       (let t = ''{'' @ ''\"activeReasonCode\":'' @ json_string (active_reason_name (active_reason s)) @
            '',\"activeRecommendation\":'' @ json_string (active_recommendation_name (active_recommendation s)) @
            '',\"activeUntil\":'' @ until_text (active_until s) @
            '',\"gatewayObservedAt\":'' @ json_string (gateway_observed_at s) @
            '',\"producerEpoch\":'' @ json_string (status_epoch s) @
            '',\"reason\":'' @ json_string (gateway_reason_name (status_reason s)) @
            '',\"requestId\":'' @ json_string (status_request_id s) @
            '',\"schemaVersion\":1'' @
            '',\"sequence\":'' @ to_string (status_sequence s) @
            '',\"state\":'' @ json_string (gateway_state_name (status_state s)) @ ''}''
        in if length t > kMaximumStatusBytes then Inl (Length_error ''Gateway Status exceeds 1 KiB'') else Inr t))"

section \<open>Facts\<close>

definition advisory_fact_message_key_sha256 :: "string \<Rightarrow> string \<Rightarrow> GatewayState \<Rightarrow> string result" where
  "advisory_fact_message_key_sha256 uid rid state =
     (if \<not> bounded_identifier uid \<or> \<not> canonical_uuid rid (Some (CHR ''5''))
      then Inl (Invalid_argument ''advisory fact identity violates the contract'')
      else Inr (sha256_hex (''['' @ json_string uid @ '',\"BRAKE_ADVISORY_FACT\",'' @ json_string rid @ '','' @
             json_string (gateway_state_name state) @ '']'')))"

definition fact_content :: "AdvisoryRequest \<Rightarrow> GatewayStatus \<Rightarrow> string" where
  "fact_content r s =
     ''{'' @ ''\"activeReasonCode\":'' @ json_string (active_reason_name (active_reason s)) @
     '',\"activeRecommendation\":'' @ json_string (active_recommendation_name (active_recommendation s)) @
     '',\"activeUntil\":'' @ until_text (active_until s) @
     '',\"decisionId\":'' @ json_string (decision_id r) @
     '',\"expiresAt\":'' @ json_string (expires_at r) @
     '',\"gatewayObservedAt\":'' @ json_string (gateway_observed_at s) @
     '',\"gatewayReason\":'' @ json_string (gateway_reason_name (status_reason s)) @
     '',\"issuedAt\":'' @ json_string (issued_at r) @
     '',\"operation\":\"SET\"'' @
     '',\"reasonCode\":\"PREDICTED_BRAKE_DEGRADATION\"'' @
     '',\"recommendation\":\"INSPECTION_RECOMMENDED\"}''"

definition am_provenance_text :: "AdvisoryMetadata \<Rightarrow> string result" where
  "am_provenance_text md =
     (case am_service_instance md of
        Some i \<Rightarrow> bindE (service_instance_json i) (\<lambda>t. Inr ('',\"serviceInstance\":'' @ t))
      | None \<Rightarrow> Inr ('',\"serviceArtifactSha256\":'' @ json_string (am_service_artifact_sha256 md)))"

definition fact_text :: "AdvisoryMetadata \<Rightarrow> AdvisoryRequest \<Rightarrow> GatewayStatus \<Rightarrow> string \<Rightarrow> string result" where
  "fact_text md r s recorded =
     bindE (am_provenance_text md) (\<lambda>provenance.
       (let native = (am_service_instance md \<noteq> None)
        in Inr (''{'' @ ''\"content\":'' @ fact_content r s @
             '',\"contentSha256\":'' @ json_string (sha256_hex (fact_content r s)) @
             (if native then '',\"contractVersion\":\"2.0.0\"'' else '',\"contractVersion\":\"1.0.0\"'') @
             '',\"gatewayState\":'' @ json_string (gateway_state_name (status_state s)) @
             '',\"messageType\":\"BRAKE_ADVISORY_FACT\"'' @
             '',\"producerEpoch\":'' @ json_string (request_epoch r) @
             '',\"recordedAt\":'' @ json_string recorded @
             '',\"requestId\":'' @ json_string (request_id r) @
             (if native then '',\"schemaVersion\":2'' else '',\"schemaVersion\":1'') @
             '',\"sequence\":'' @ to_string (request_sequence r) @
             provenance @
             '',\"serviceVersion\":'' @ json_string (am_service_version md) @
             '',\"unitRole\":'' @ json_string (unit_role_name (am_unit_role md)) @
             '',\"unitSystemUid\":'' @ json_string (am_unit_system_uid md) @
             '',\"vdpContractSha256\":'' @ json_string (am_vdp_contract_sha256 md) @
             '',\"vdpContractVersion\":'' @ json_string (am_vdp_contract_version md) @ ''}'')))"

definition build_advisory_fact :: "AdvisoryMetadata \<Rightarrow> AdvisoryRequest \<Rightarrow> GatewayStatus \<Rightarrow> string \<Rightarrow> AdvisoryFact result" where
  "build_advisory_fact md r s recorded =
     bindE (throwIf (is_clear r) (Invalid_argument ''Demo reset CLEAR is not an assessment fact'')) (\<lambda>_.
     bindE (v3_validate_metadata md) (\<lambda>_.
     bindE (validate_request r) (\<lambda>_.
     bindE (validate_gateway_status s) (\<lambda>_.
     bindE (timestamp_milliseconds recorded) (\<lambda>_.
     bindE (throwIf (request_id r \<noteq> status_request_id s \<or> request_epoch r \<noteq> status_epoch s \<or> request_sequence r \<noteq> status_sequence s)
              (Invalid_argument ''Gateway Status does not match the committed Request'')) (\<lambda>_.
     bindE (fact_text md r s recorded) (\<lambda>encoded.
     bindE (throwIf (length encoded > kMaximumFactBytes) (Length_error ''canonical advisory fact exceeds 16 KiB'')) (\<lambda>_.
     bindE (advisory_fact_message_key_sha256 (am_unit_system_uid md) (request_id r) (status_state s)) (\<lambda>key.
       Inr \<lparr>fact_request_id = request_id r, fact_state = status_state s, fact_json = encoded,
            fact_content_sha256 = sha256_hex (fact_content r s), fact_key_sha256 = key,
            fact_message_sha256 = sha256_hex encoded\<rparr>)))))))))"


section \<open>Requests determine themselves\<close>

lemma timestamp_back: "timestamp_milliseconds s = Inr v \<Longrightarrow> timestamp_from_milliseconds v = Inr s"
  using timestamp_reprinted [of s] by (cases "is_rfc3339_millisecond_utc s") (auto simp: timestamp_milliseconds_def)

lemma timestamp_bound:
  assumes "timestamp_milliseconds s = Inr v"
  shows "v < i64_max - kLeaseMilliseconds"
proof -
  have ok: "is_rfc3339_millisecond_utc s" using assms by (auto simp: timestamp_milliseconds_def split: if_splits)
  obtain y m d h mi se ms where f: "timestamp_fields s = (y, m, d, h, mi, se, ms)" by (cases "timestamp_fields s")
  from rfc3339_fields(1) [OF ok] f have v: "valid_date y m d" "y \<le> 9999" "h \<le> 23" "mi \<le> 59" "se \<le> 59" "ms \<le> 999"
    by (auto simp: valid_fields_def)
  have "march_year y m \<le> 9999" "march_month m < 12" "d \<le> 31"
    using v valid_date_march(1) [OF v(1)] maximum_day_le [of m y] by (auto simp: march_year_def valid_date_def)
  moreover have "year_start (march_year y m mod 400) \<le> 366 * 400" "month_start (march_month m) \<le> 400"
    using calculation(2) by (auto simp: year_start_def month_start_def)
  ultimately have "day_number (march_year y m) (march_month m) d \<le> 25 * 146097 + 146400 + 400 + 31"
    by (auto simp: day_number_def intro!: add_mono mult_mono)
  then have "days_from_civil (int y) m d \<le> 4000000" by (simp add: days_from_civil_number [OF v(1)])
  moreover have "int (h * 3600000 + mi * 60000 + se * 1000 + ms) \<le> 86400000" using v by simp
  moreover have "v = days_from_civil (int y) m d * 86400000 + int (h * 3600000 + mi * 60000 + se * 1000 + ms)"
    using assms timestamp_milliseconds_eq [OF ok] f by (simp add: instant_def)
  ultimately show ?thesis by (simp add: i64_max_def kLeaseMilliseconds_def)
qed

lemma canonical_uuid_bounded: "canonical_uuid v k \<Longrightarrow> bounded_identifier v"
proof -
  assume u: "canonical_uuid v k"
  have "is_dec (v ! i) \<or> is_lower (v ! i) \<or> v ! i = CHR ''-''" if "i < length v" for i
  proof -
    have "i \<in> set [0..<length v]" using that by simp
    then have "uuid_dash i \<or> is_lower_hex (v ! i)" using u unfolding canonical_uuid_def by blast
    then show ?thesis using u by (auto simp: canonical_uuid_def uuid_dash_def char_class_defs)
  qed
  moreover have "length v = 36" using u by (simp add: canonical_uuid_def)
  ultimately show ?thesis by (auto simp: bounded_identifier_def list_all_length)
qed

text \<open>
  C29. A request is accepted exactly when rebuilding it from its own identity gives it back: the
  epoch, the sequence number, the decision, the instant of issue and the version determine the
  identity, the end of the lease thirty seconds later and every byte of the text, for the
  requests that set an advisory and for those that clear it. In particular whatever a builder
  returns is accepted.
\<close>

theorem request_canonical:
  "validate_request r = Inr () \<longleftrightarrow>
     build_request (is_clear r) (request_epoch r) (request_sequence r) (decision_id r) (issued_at r) (request_service_version r) = Inr r"
proof
  assume v: "validate_request r = Inr ()"
  then obtain e i where e: "timestamp_milliseconds (expires_at r) = Inr e" and i: "timestamp_milliseconds (issued_at r) = Inr i"
    and l: "e = i + kLeaseMilliseconds"
    by (auto simp: validate_request_def bindE_eq_Inr Let_def split: if_splits)
  have "timestamp_from_milliseconds (i + kLeaseMilliseconds) = Inr (expires_at r)" using timestamp_back [OF e] l by simp
  moreover have "bounded_identifier (decision_id r)"
    using v canonical_uuid_bounded by (auto simp: validate_request_def Let_def split: if_splits)
  ultimately show "build_request (is_clear r) (request_epoch r) (request_sequence r) (decision_id r) (issued_at r) (request_service_version r) = Inr r"
    using v i timestamp_bound [OF i]
    by (cases r) (auto simp: build_request_def build_set_request_def build_clear_request_def issue_request_def validate_request_def
        bindE_eq_Inr Let_def throwIf_def split: if_splits)
next
  assume "build_request (is_clear r) (request_epoch r) (request_sequence r) (decision_id r) (issued_at r) (request_service_version r) = Inr r"
  then show "validate_request r = Inr ()"
    by (auto simp: build_request_def build_set_request_def build_clear_request_def issue_request_def bindE_eq_Inr Let_def split: if_splits)
qed

end
