(* ===== verification/Ledger2.thy ===== *)
theory Ledger2
  imports Messages2
begin

text \<open>
  The records of the v2 state store (\<^verbatim>\<open>src/v2/state_store.cpp\<close>) as texts: the readers of its manifests, the
  identity ledger that binds every processed source event to its assessment, the transaction
  manifest, and the check of a stored message against its manifest.
\<close>

section \<open>Reading manifests\<close>

definition value_at :: "string \<Rightarrow> string \<Rightarrow> string result" where
  "value_at json key =
     (case find_sub (needle key) json of
        None \<Rightarrow> Inl (Runtime_error ''persistent manifest field missing or duplicated'')
      | Some here \<Rightarrow>
          if find_sub (needle key) (tl here) \<noteq> None
          then Inl (Runtime_error ''persistent manifest field missing or duplicated'')
          else Inr (drop (length (needle key)) here))"

definition string_value :: "string \<Rightarrow> string \<Rightarrow> string result" where
  "string_value json key =
     bindE (value_at json key) (\<lambda>here.
       if here = [] \<or> hd here \<noteq> CHR 0x22 then Inl (Runtime_error ''persistent manifest string is malformed'')
       else if CHR 0x22 \<notin> set (tl here) then Inl (Runtime_error ''persistent manifest string is unterminated'')
       else
         (let v = left_of (CHR 0x22) (tl here)
          in if CHR 0x5C \<in> set v then Inl (Runtime_error ''persistent manifest escape is forbidden'') else Inr v))"

definition optional_string_value :: "string \<Rightarrow> string \<Rightarrow> string option result" where
  "optional_string_value json key =
     bindE (value_at json key) (\<lambda>here.
       if take 4 here = ''null'' then Inr None else bindE (string_value json key) (\<lambda>s. Inr (Some s)))"

definition unsigned_value :: "string \<Rightarrow> string \<Rightarrow> nat result" where
  "unsigned_value json key =
     bindE (value_at json key) (\<lambda>here.
       (let ds = takeWhile is_dec here
        in if ds = [] \<or> (length ds > 1 \<and> hd ds = CHR ''0'')
           then Inl (Runtime_error ''persistent manifest integer is malformed'')
           else if dec_value ds > u64_max then Inl (Runtime_error ''persistent manifest integer is out of range'')
           else Inr (dec_value ds)))"

function manifest_items :: "string \<Rightarrow> string list \<Rightarrow> string list result" where
  "manifest_items [] acc = Inl (Runtime_error ''persistent manifest array unterminated'')"
| "manifest_items (c # here) acc =
     (if c \<noteq> CHR 0x22 then Inl (Runtime_error ''persistent manifest item malformed'')
      else if CHR 0x22 \<notin> set here then Inl (Runtime_error ''persistent manifest item unterminated'')
      else
        (let v = left_of (CHR 0x22) here; rest = right_of (CHR 0x22) here
         in if byte 10 \<in> set v \<or> CHR 0x5C \<in> set v
            then Inl (Runtime_error ''persistent manifest item escape forbidden'')
            else (case rest of [] \<Rightarrow> Inl (Runtime_error ''persistent manifest array delimiter malformed'')
              | d # ds \<Rightarrow>
                  if d = CHR '']'' then Inr (acc @ [v])
                  else if d \<noteq> CHR '','' then Inl (Runtime_error ''persistent manifest array delimiter malformed'')
                  else manifest_items ds (acc @ [v]))))"
  by pat_completeness auto
termination
proof (relation "measure (\<lambda>(s, acc). length s)", goal_cases)
  case (2 c here acc x xa x21 x22)
  then have "length x22 < length (right_of (CHR 0x22) here)" by (metis length_Cons lessI)
  then show ?case using length_right_of [of "CHR 0x22" here] by simp
qed simp

definition string_array :: "string \<Rightarrow> string \<Rightarrow> string list result" where
  "string_array json key =
     bindE (value_at json key) (\<lambda>here.
       if here = [] \<or> hd here \<noteq> CHR ''['' then Inl (Runtime_error ''persistent manifest array is malformed'')
       else if tl here \<noteq> [] \<and> hd (tl here) = CHR '']'' then Inr []
       else manifest_items (tl here) [])"

section \<open>The manifest of a transaction\<close>

record OptionalEventFields =
  field_id :: "string option"
  field_content_sha256 :: "string option"
  field_idempotency_key_sha256 :: "string option"
  field_message_sha256 :: "string option"

definition event_fields :: "string \<Rightarrow> OptionalEventFields result" where
  "event_fields manifest =
     bindE (optional_string_value manifest ''eventId'') (\<lambda>i.
     bindE (optional_string_value manifest ''eventContentSha256'') (\<lambda>c.
     bindE (optional_string_value manifest ''eventIdempotencyKeySha256'') (\<lambda>k.
     bindE (optional_string_value manifest ''eventMessageSha256'') (\<lambda>m.
       (let present = length (filter (\<lambda>v. v \<noteq> None) [i, c, k, m])
        in if present \<noteq> 0 \<and> present \<noteq> 4
           then Inl (Runtime_error ''event manifest identity must be all present or all null'')
           else Inr \<lparr>field_id = i, field_content_sha256 = c, field_idempotency_key_sha256 = k,
                     field_message_sha256 = m\<rparr>)))))"

definition message_sha :: "DerivedMessage \<Rightarrow> string" where
  "message_sha m = sha256_hex (derived_json m)"

definition event_part :: "(DerivedMessage \<Rightarrow> string) \<Rightarrow> DerivedMessages \<Rightarrow> string" where
  "event_part f ms = (case derived_event ms of Some e \<Rightarrow> ''\"'' @ f e @ ''\"'' | None \<Rightarrow> ''null'')"

definition manifest_json :: "ModelState \<Rightarrow> ModelState \<Rightarrow> string \<Rightarrow> string \<Rightarrow> DerivedMessages \<Rightarrow> bool \<Rightarrow> string result" where
  "manifest_json before after before_identities after_identities ms admit =
     bindE (state_json before) (\<lambda>before_bytes.
     bindE (state_json after) (\<lambda>after_bytes.
       (let a = derived_assessment ms
        in Inr (''{'' @ ''\"afterSha256\":\"'' @ sha256_hex after_bytes @ ''\"'' @
                '',\"afterIdentityLedgerSha256\":\"'' @ sha256_hex after_identities @ ''\"'' @
                '',\"assessmentContentSha256\":\"'' @ derived_content_sha256 a @ ''\"'' @
                '',\"assessmentId\":\"'' @ derived_id a @ ''\"'' @
                '',\"assessmentIdempotencyKeySha256\":\"'' @ derived_idempotency_key_sha256 a @ ''\"'' @
                '',\"assessmentMessageSha256\":\"'' @ message_sha a @ ''\"'' @
                '',\"beforeSha256\":\"'' @ sha256_hex before_bytes @ ''\"'' @
                '',\"beforeIdentityLedgerSha256\":\"'' @ sha256_hex before_identities @ ''\"'' @
                '',\"disposition\":\"'' @ (if admit then ''ADMIT'' else ''OVERFLOW_NOT_ENQUEUED'') @ ''\"'' @
                '',\"eventContentSha256\":'' @ event_part derived_content_sha256 ms @
                '',\"eventId\":'' @ event_part derived_id ms @
                '',\"eventIdempotencyKeySha256\":'' @ event_part derived_idempotency_key_sha256 ms @
                '',\"eventMessageSha256\":'' @ event_part message_sha ms @ ''}''))))"

section \<open>Outbox entries\<close>

record OutboxEntry =
  out_id :: string
  out_type :: string
  out_json :: string
  out_content_sha256 :: string
  out_idempotency_key_sha256 :: string
  out_message_sha256 :: string
  out_source_event_id :: string
  out_assessment_id :: string
  out_quarantined :: bool

text \<open>The two kinds of message; \<open>prefix == "assessment"\<close> in the source.\<close>

datatype message_kind = AssessmentKind | EventKind

definition kind_prefix :: "message_kind \<Rightarrow> string" where
  "kind_prefix k = (case k of AssessmentKind \<Rightarrow> ''assessment'' | EventKind \<Rightarrow> ''event'')"

definition kind_type :: "message_kind \<Rightarrow> string" where
  "kind_type k = (case k of AssessmentKind \<Rightarrow> ''BRAKE_HEALTH_ASSESSMENT'' | EventKind \<Rightarrow> ''BRAKE_HEALTH_EVENT'')"

definition kind_id_key :: "message_kind \<Rightarrow> string" where
  "kind_id_key k = (case k of AssessmentKind \<Rightarrow> ''assessmentId'' | EventKind \<Rightarrow> ''eventId'')"

text \<open>The identity in the manifest; \<open>*event_fields(manifest).id\<close> is only reached with an identity present.\<close>

definition manifest_id_of :: "message_kind \<Rightarrow> string \<Rightarrow> string result" where
  "manifest_id_of k manifest =
     (case k of AssessmentKind \<Rightarrow> string_value manifest ''assessmentId''
      | EventKind \<Rightarrow> bindE (event_fields manifest) (\<lambda>f. case field_id f of
          Some i \<Rightarrow> Inr i | None \<Rightarrow> Inl (Logic_error ''bad optional access'')))"

text \<open>The disjuncts of the identity test in their order; each is evaluated only if those before it hold.\<close>

definition message_conflicts :: "message_kind \<Rightarrow> string \<Rightarrow> string \<Rightarrow> string \<Rightarrow> string \<Rightarrow> string \<Rightarrow> string \<Rightarrow> bool result" where
  "message_conflicts k manifest_id content_sha idempotency_sha encoded_sha unit_uid encoded =
     (if sha256_hex encoded \<noteq> encoded_sha then Inr True
      else bindE (string_value encoded (kind_id_key k)) (\<lambda>i. if i \<noteq> manifest_id then Inr True
      else bindE (string_value encoded ''messageType'') (\<lambda>t. if t \<noteq> kind_type k then Inr True
      else bindE (string_value encoded ''contentSha256'') (\<lambda>c. if c \<noteq> content_sha then Inr True
      else bindE (string_value encoded ''modelConfigSha256'') (\<lambda>d. if \<not> supported_model_config d then Inr True
      else bindE (message_idempotency_key_sha256 unit_uid (kind_type k) manifest_id) (\<lambda>key.
        Inr (key \<noteq> idempotency_sha)))))))"

definition verified_outbox_message :: "message_kind \<Rightarrow> string \<Rightarrow> string \<Rightarrow> bool \<Rightarrow> OutboxEntry result" where
  "verified_outbox_message k manifest encoded quarantined =
     bindE (manifest_id_of k manifest) (\<lambda>manifest_id.
     bindE (string_value manifest (kind_prefix k @ ''ContentSha256'')) (\<lambda>content_sha.
     bindE (string_value manifest (kind_prefix k @ ''IdempotencyKeySha256'')) (\<lambda>idempotency_sha.
     bindE (string_value manifest (kind_prefix k @ ''MessageSha256'')) (\<lambda>encoded_sha.
     bindE (string_value encoded ''unitSystemUid'') (\<lambda>unit_uid.
     bindE (string_value encoded ''sourceEventId'') (\<lambda>source_event.
     bindE (message_conflicts k manifest_id content_sha idempotency_sha encoded_sha unit_uid encoded) (\<lambda>conflict.
     bindE (throwIf conflict (Runtime_error ''outbox message identity conflicts with bundle manifest'')) (\<lambda>_.
     bindE (case k of AssessmentKind \<Rightarrow> Inr manifest_id | EventKind \<Rightarrow> string_value encoded ''assessmentId'') (\<lambda>assessment.
     bindE (string_value manifest ''assessmentId'') (\<lambda>bundle_id.
     bindE (throwIf (assessment \<noteq> bundle_id) (Runtime_error ''event assessment identity conflicts with its bundle'')) (\<lambda>_.
       Inr \<lparr>out_id = manifest_id, out_type = kind_type k, out_json = encoded, out_content_sha256 = content_sha,
            out_idempotency_key_sha256 = idempotency_sha, out_message_sha256 = encoded_sha,
            out_source_event_id = source_event, out_assessment_id = assessment,
            out_quarantined = quarantined\<rparr>)))))))))))"

definition kMaximumStateBytes :: nat where "kMaximumStateBytes = 65536"
definition kMaximumMessages :: nat where "kMaximumMessages = 64"
definition kMaximumOutboxBytes :: nat where "kMaximumOutboxBytes = 1048576"

definition derived_outbox_admissible :: "nat \<Rightarrow> nat \<Rightarrow> nat \<Rightarrow> nat \<Rightarrow> bool" where
  "derived_outbox_admissible current_count current_bytes incoming_count incoming_bytes \<longleftrightarrow>
     current_count \<le> kMaximumMessages \<and> incoming_count \<le> kMaximumMessages - current_count \<and>
     current_bytes \<le> kMaximumOutboxBytes \<and> incoming_bytes \<le> kMaximumOutboxBytes - current_bytes"

section \<open>The identity ledger\<close>

record IdentityBinding =
  bound_source_event_id :: string
  bound_assessment_id :: string

record IdentityLedger =
  ledger_generation :: nat
  ledger_state_sha256 :: string
  ledger_entries :: "IdentityBinding list"

definition uuid_version :: "string \<Rightarrow> char \<Rightarrow> bool" where
  "uuid_version v version \<longleftrightarrow>
     length v = 36 \<and> v ! 8 = CHR ''-'' \<and> v ! 13 = CHR ''-'' \<and> v ! 18 = CHR ''-'' \<and> v ! 23 = CHR ''-'' \<and>
     v ! 14 = version \<and> v ! 19 \<in> set ''89ab'' \<and>
     (\<forall>i \<in> set [0..<length v]. uuid_dash i \<or> is_lower_hex (v ! i))"

definition binding_text :: "IdentityBinding \<Rightarrow> string" where
  "binding_text b = bound_source_event_id b @ ''='' @ bound_assessment_id b"

definition identity_bindings_json :: "IdentityBinding list \<Rightarrow> string" where
  "identity_bindings_json bs = ''['' @ commas (map (\<lambda>b. ''\"'' @ binding_text b @ ''\"'') bs) @ '']''"

definition identity_ledger_json :: "IdentityLedger \<Rightarrow> string" where
  "identity_ledger_json l =
     (let entries = identity_bindings_json (ledger_entries l)
      in ''{'' @ ''\"bindingsSha256\":\"'' @ sha256_hex entries @ ''\"'' @
         '',\"entries\":'' @ entries @
         '',\"generation\":'' @ to_string (ledger_generation l) @
         '',\"schemaVersion\":1'' @
         '',\"stateSha256\":\"'' @ ledger_state_sha256 l @ ''\"}'')"

definition parse_binding :: "string \<Rightarrow> IdentityBinding result" where
  "parse_binding v =
     (if CHR ''='' \<notin> set v \<or> CHR ''='' \<in> set (right_of (CHR ''='') v)
      then Inl (Runtime_error ''identity ledger binding is malformed'')
      else
        (let b = \<lparr>bound_source_event_id = left_of (CHR ''='') v, bound_assessment_id = right_of (CHR ''='') v\<rparr>
         in if \<not> uuid_version (bound_source_event_id b) (CHR ''4'') \<or> \<not> uuid_version (bound_assessment_id b) (CHR ''5'')
            then Inl (Runtime_error ''identity ledger UUID is malformed'')
            else Inr b))"

definition parse_identity_ledger :: "string \<Rightarrow> IdentityLedger result" where
  "parse_identity_ledger bytes =
     bindE (if length bytes > kMaximumStateBytes then Inr True
            else bindE (unsigned_value bytes ''schemaVersion'') (\<lambda>v. Inr (v \<noteq> 1))) (\<lambda>bad.
     bindE (throwIf bad (Runtime_error ''identity ledger schema is invalid'')) (\<lambda>_.
     bindE (unsigned_value bytes ''generation'') (\<lambda>gen.
     bindE (string_value bytes ''stateSha256'') (\<lambda>state_sha.
     bindE (string_value bytes ''bindingsSha256'') (\<lambda>bindings_sha.
     bindE (throwIf (\<not> lowercase_sha256 state_sha \<or> \<not> lowercase_sha256 bindings_sha)
              (Runtime_error ''identity ledger state digest is malformed'')) (\<lambda>_.
     bindE (string_array bytes ''entries'') (\<lambda>items.
     bindE (mapE parse_binding items) (\<lambda>bs.
       (let l = \<lparr>ledger_generation = gen, ledger_state_sha256 = state_sha, ledger_entries = bs\<rparr>
        in if length bs > 64 \<or> sha256_hex (identity_bindings_json bs) \<noteq> bindings_sha \<or> identity_ledger_json l \<noteq> bytes
           then Inl (Runtime_error ''identity ledger is not canonical or exceeds its bound'')
           else Inr l)))))))))"

definition validate_identity_ledger :: "IdentityLedger \<Rightarrow> ModelState \<Rightarrow> string \<Rightarrow> unit result" where
  "validate_identity_ledger l st state_bytes =
     bindE (throwIf (ledger_generation l \<noteq> generation st \<or> ledger_state_sha256 l \<noteq> sha256_hex state_bytes \<or>
                     length (ledger_entries l) \<noteq> length (recent_source_event_ids st))
              (Runtime_error ''identity ledger does not bind the current state'')) (\<lambda>_.
     bindE (throwIf (map bound_source_event_id (ledger_entries l) \<noteq> recent_source_event_ids st)
              (Runtime_error ''identity ledger source order conflicts with state'')) (\<lambda>_.
     bindE (throwIf (\<not> distinct (map bound_assessment_id (ledger_entries l)))
              (Runtime_error ''identity ledger assessment identity is duplicated'')) (\<lambda>_.
       throwIf (ledger_entries l \<noteq> [] \<and>
                (last_assessment_id st = None \<or>
                 Some (bound_assessment_id (last (ledger_entries l))) \<noteq> last_assessment_id st))
         (Runtime_error ''identity ledger last assessment conflicts with state''))))"

section \<open>The readers agree with those of the model state\<close>

lemma value_at_iff: "value_at j k = Inr v \<longleftrightarrow> field_value_at j k = Inr v"
  by (auto simp: value_at_def field_value_at_def split: option.splits)

lemma value_at_eq: "field_value_at j k = Inr v \<Longrightarrow> value_at j k = Inr v"
  by (simp add: value_at_iff)

lemma string_value_iff: "string_value j k = Inr v \<longleftrightarrow> parse_simple_string j k = Inr v"
  by (auto simp: string_value_def parse_simple_string_def bindE_eq_Inr value_at_iff Let_def split: if_splits)

lemma optional_string_value_iff: "optional_string_value j k = Inr v \<longleftrightarrow> parse_optional_string j k = Inr v"
  by (auto simp: optional_string_value_def parse_optional_string_def bindE_eq_Inr value_at_iff string_value_iff
      split: if_splits)

lemma unsigned_value_iff: "unsigned_value j k = Inr n \<longleftrightarrow> parse_unsigned j k = Inr n"
  by (auto simp: unsigned_value_def parse_unsigned_def bindE_eq_Inr value_at_iff Let_def split: if_splits)

lemmas string_value_field = parse_simple_field [folded string_value_iff]
lemmas optional_string_value_field = parse_optional_field [folded optional_string_value_iff]
lemmas unsigned_value_field = parse_unsigned_field [folded unsigned_value_iff]

lemma plain_no_newline: "list_all plain_char s \<Longrightarrow> byte 10 \<notin> set s"
proof -
  have "\<not> plain_char (byte 10)" by (simp add: plain_char_def byte_def)
  then show "list_all plain_char s \<Longrightarrow> byte 10 \<notin> set s" by (auto simp: list_all_iff)
qed

lemma manifest_items_commas:
  assumes "list_all plain_char s"
  shows "list_all (list_all plain_char) ss \<Longrightarrow>
    manifest_items (commas (map quoted (s # ss)) @ CHR '']'' # r) acc = Inr (acc @ s # ss)"
  using assms
proof (induction ss arbitrary: s acc)
  case Nil
  then show ?case using plain_chars [of s] plain_no_newline [of s] by (simp add: quoted_def left_right_of)
next
  case (Cons t ss)
  have "manifest_items (commas (map quoted (s # t # ss)) @ CHR '']'' # r) acc =
      manifest_items (commas (map quoted (t # ss)) @ CHR '']'' # r) (acc @ [s])"
    using plain_chars [OF Cons.prems(2)] plain_no_newline [OF Cons.prems(2)] by (simp add: quoted_def left_right_of)
  also have "\<dots> = Inr (acc @ s # t # ss)" using Cons.IH [of t "acc @ [s]"] Cons.prems by simp
  finally show ?case .
qed

definition array_text :: "string list \<Rightarrow> string" where
  "array_text ss = ''['' @ commas (map quoted ss) @ '']''"

lemma quiet_array_text: "list_all (list_all plain_char) ss \<Longrightarrow> quiet (array_text ss)"
  using quiet_array [of ss] plain_chars by (auto simp: array_text_def list_all_iff)

lemma string_array_field:
  assumes "field_list fs" and "(k, array_text ss) \<in> set fs" and "list_all (list_all plain_char) ss"
  shows "string_array (object_text fs) k = Inr ss"
proof -
  obtain r where "field_value_at (object_text fs) k = Inr (array_text ss @ r)"
    using object_text_field [OF assms(1,2)] by blast
  then have r: "value_at (object_text fs) k = Inr (array_text ss @ r)" by (rule value_at_eq)
  show ?thesis
  proof (cases ss)
    case Nil
    with r assms(3) show ?thesis by (simp add: string_array_def array_text_def)
  next
    case (Cons s ss')
    have "commas (map quoted ss) \<noteq> []" "hd (commas (map quoted ss) @ u) \<noteq> CHR '']''" for u
      by (simp_all add: Cons commas_Cons quoted_def)
    moreover have "manifest_items (commas (map quoted ss) @ CHR '']'' # r) [] = Inr ss"
      using manifest_items_commas [of s ss' r "[]"] assms(3) Cons by simp
    ultimately show ?thesis using r by (simp add: string_array_def array_text_def)
  qed
qed

section \<open>The text of a ledger\<close>

lemma uuid_version_iff: "uuid_version v c \<longleftrightarrow> has_version v c"
  by (simp add: uuid_version_def has_version_def uuid_with_version_canonical canonical_uuid_def)

definition binding_ok :: "IdentityBinding \<Rightarrow> bool" where
  "binding_ok b \<longleftrightarrow> has_version (bound_source_event_id b) (CHR ''4'') \<and> has_version (bound_assessment_id b) (CHR ''5'')"

definition ledger_ok :: "IdentityLedger \<Rightarrow> bool" where
  "ledger_ok l \<longleftrightarrow> ledger_generation l \<le> u64_max \<and> lowercase_sha256 (ledger_state_sha256 l) \<and>
     list_all binding_ok (ledger_entries l) \<and> length (ledger_entries l) \<le> 64"

definition ledger_fields :: "IdentityLedger \<Rightarrow> (string \<times> string) list" where
  "ledger_fields l =
     [(''bindingsSha256'', quoted (sha256_hex (identity_bindings_json (ledger_entries l)))),
      (''entries'', array_text (map binding_text (ledger_entries l))),
      (''generation'', to_string (ledger_generation l)),
      (''schemaVersion'', to_string 1),
      (''stateSha256'', quoted (ledger_state_sha256 l))]"

lemma bindings_array: "identity_bindings_json bs = array_text (map binding_text bs)"
  by (simp add: identity_bindings_json_def array_text_def quoted_def o_def)

lemma identity_ledger_json_fields: "identity_ledger_json l = object_text (ledger_fields l)"
  by (simp add: identity_ledger_json_def ledger_fields_def bindings_array needle_def quoted_def to_string_one Let_def)

lemma sha_plain: "lowercase_sha256 v \<Longrightarrow> list_all plain_char v \<and> length v = 64"
  by (auto simp: lowercase_sha256_def list_all_iff plain_char_def char_class_defs)

lemma sha_hex_plain: "list_all plain_char (sha256_hex s)" "length (sha256_hex s) = 64"
  using sha_plain [OF sha256_hex_lowercase] by simp_all

lemma no_equals:
  assumes "has_version v c"
  shows "CHR ''='' \<notin> set v"
proof -
  have "canonical_uuid v (Some c)" using assms by (simp add: has_version_def uuid_with_version_canonical)
  then have dash: "uuid_dash i \<Longrightarrow> v ! i = CHR ''-''" and hex: "i < length v \<Longrightarrow> uuid_dash i \<or> is_lower_hex (v ! i)" for i
    unfolding canonical_uuid_def by (auto simp only: uuid_dash_def set_upt atLeastLessThan_iff)
  have "\<not> is_lower_hex (CHR ''='')" "CHR ''='' \<noteq> CHR ''-''" by (simp_all add: char_class_defs)
  then show ?thesis using dash hex unfolding in_set_conv_nth by metis
qed

lemma binding_text_plain:
  assumes "binding_ok b"
  shows "list_all plain_char (binding_text b)" and "length (binding_text b) = 73" and "parse_binding (binding_text b) = Inr b"
proof -
  note v = assms [unfolded binding_ok_def]
  note p = v [THEN conjunct1, THEN has_version_plain] v [THEN conjunct2, THEN has_version_plain]
  from p show "list_all plain_char (binding_text b)" "length (binding_text b) = 73"
    by (simp_all add: binding_text_def plain_char_def code_def)
  note e = v [THEN conjunct1, THEN no_equals] v [THEN conjunct2, THEN no_equals]
  have "left_of (CHR ''='') (binding_text b) = bound_source_event_id b" "right_of (CHR ''='') (binding_text b) = bound_assessment_id b"
    using e by (simp_all add: binding_text_def left_right_of)
  moreover have "CHR ''='' \<in> set (binding_text b)" by (simp add: binding_text_def)
  ultimately show "parse_binding (binding_text b) = Inr b"
    using v e by (simp add: parse_binding_def uuid_version_iff)
qed

lemma bindings_plain: "list_all binding_ok bs \<Longrightarrow> list_all (list_all plain_char) (map binding_text bs)"
  using binding_text_plain(1) by (auto simp: list_all_iff)

lemma mapE_parse_binding: "list_all binding_ok bs \<Longrightarrow> mapE parse_binding (map binding_text bs) = Inr bs"
  by (induction bs) (auto simp: binding_text_plain)

lemma ledger_field_list:
  assumes "ledger_ok l"
  shows "field_list (ledger_fields l)"
proof -
  have keys: "distinct (map fst (ledger_fields l))" "list_all (\<lambda>(k, v). is_key k) (ledger_fields l)"
    by (simp_all add: ledger_fields_def is_key_def char_class_defs)
  note ok = assms [unfolded ledger_ok_def]
  have plain: "list_all plain_char (ledger_state_sha256 l)" using ok sha_plain by blast
  have "list_all (\<lambda>(k, v). quiet v) (ledger_fields l)"
    unfolding ledger_fields_def list.pred_inject(2) prod.case
    by (intro conjI quiet_quoted quiet_number quiet_array_text sha_hex_plain plain bindings_plain list.pred_inject(1))
      (use ok in simp)
  with keys show ?thesis by (auto simp: field_list_def list_all_iff)
qed

lemma ledger_text_short:
  assumes "ledger_ok l"
  shows "length (identity_ledger_json l) \<le> kMaximumStateBytes"
proof -
  note ok = assms [unfolded ledger_ok_def]
  have "list_all (\<lambda>t. length t \<le> 75) (map (\<lambda>b. ''\"'' @ binding_text b @ ''\"'') (ledger_entries l))"
    using ok binding_text_plain(2) by (auto simp: list_all_iff)
  from length_commas [OF this]
  have "length (identity_bindings_json (ledger_entries l)) \<le> 76 * length (ledger_entries l) + 2"
    by (simp add: identity_bindings_json_def)
  moreover have "length (to_string (ledger_generation l)) \<le> 20" using ok by (intro length_u64) blast
  moreover have "length (ledger_state_sha256 l) = 64" using ok sha_plain by blast
  ultimately show ?thesis using ok
    by (simp add: identity_ledger_json_def Let_def sha_hex_plain kMaximumStateBytes_def)
qed

lemma ledger_parse:
  assumes "ledger_ok l"
  shows "parse_identity_ledger (identity_ledger_json l) = Inr l"
proof -
  note ok = assms [unfolded ledger_ok_def]
  note fs = ledger_field_list [OF assms]
  have plain: "list_all plain_char (ledger_state_sha256 l)" using ok sha_plain by blast
  have reads: "unsigned_value (identity_ledger_json l) ''schemaVersion'' = Inr 1"
    "unsigned_value (identity_ledger_json l) ''generation'' = Inr (ledger_generation l)"
    "string_value (identity_ledger_json l) ''stateSha256'' = Inr (ledger_state_sha256 l)"
    "string_value (identity_ledger_json l) ''bindingsSha256'' = Inr (sha256_hex (identity_bindings_json (ledger_entries l)))"
    "string_array (identity_ledger_json l) ''entries'' = Inr (map binding_text (ledger_entries l))"
    unfolding identity_ledger_json_fields
    by (rule unsigned_value_field [OF fs] string_value_field [OF fs] string_array_field [OF fs];
        use ok plain in \<open>simp add: ledger_fields_def sha_hex_plain u64_max_def bindings_plain [OF ok [THEN conjunct2, THEN conjunct2, THEN conjunct1]]\<close>)+
  have "\<not> kMaximumStateBytes < length (identity_ledger_json l)" using ledger_text_short [OF assms] by simp
  then show ?thesis using ok reads
    by (cases l) (simp add: parse_identity_ledger_def mapE_parse_binding sha256_hex_lowercase Let_def)
qed

lemma parse_bindings_ok: "mapE parse_binding ts = Inr bs \<Longrightarrow> list_all binding_ok bs"
  by (induction ts arbitrary: bs)
    (auto simp: bindE_eq_Inr parse_binding_def Let_def uuid_version_iff binding_ok_def split: if_splits)

lemma parse_ledger_iff:
  "parse_identity_ledger t = Inr l \<longleftrightarrow> t = identity_ledger_json l \<and> ledger_ok l"
proof
  assume p: "parse_identity_ledger t = Inr l"
  then have "unsigned_value t ''generation'' = Inr (ledger_generation l)"
    by (auto simp: parse_identity_ledger_def bindE_eq_Inr Let_def split: if_splits)
  then have "ledger_generation l \<le> u64_max" by (auto simp: unsigned_value_iff dest: parse_unsigned_bound)
  with p show "t = identity_ledger_json l \<and> ledger_ok l"
    by (auto simp: parse_identity_ledger_def bindE_eq_Inr Let_def ledger_ok_def dest: parse_bindings_ok split: if_splits)
qed (use ledger_parse in blast)

text \<open>
  C19. The identity ledger and its text determine each other: the reader accepts exactly the texts
  of ledgers with at most 64 bindings of a version-4 to a version-5 UUID, a digest and a 64-bit
  generation, and returns the ledger the text was written from.
\<close>

theorem ledger_text_roundtrip:
  "parse_identity_ledger t = Inr l \<longleftrightarrow> t = identity_ledger_json l \<and> ledger_ok l"
  by (rule parse_ledger_iff)

section \<open>Objects inside objects\<close>

definition silent :: "string \<Rightarrow> string \<Rightarrow> bool" where
  "silent k v \<longleftrightarrow> (\<forall>r. after_value r \<longrightarrow> find_sub (needle k) (v @ r) = find_sub (needle k) r)"

lemma quiet_silent: "quiet v \<Longrightarrow> is_key k \<Longrightarrow> silent k v"
  by (simp add: quiet_def silent_def)

definition silent_fields :: "string \<Rightarrow> (string \<times> string) list \<Rightarrow> bool" where
  "silent_fields k fs \<longleftrightarrow> list_all (\<lambda>(k', v). is_key k' \<and> silent k v) fs"

lemma after_object_rest_append [simp]: "after_value (object_rest fs @ r)"
  by (cases fs rule: object_rest.cases) (auto simp: after_value_def)

lemma find_rest_silent:
  "is_key k \<Longrightarrow> silent_fields k fs \<Longrightarrow> k \<notin> fst ` set fs \<Longrightarrow> find_sub (needle k) (object_rest fs @ r) = find_sub (needle k) r"
proof (induction fs rule: object_rest.induct)
  case 1
  then show ?case using find_skip [of "''}''" k r] by simp
next
  case (2 k' v fs)
  then have "find_sub (needle k) (v @ object_rest fs @ r) = find_sub (needle k) r"
    by (simp add: silent_def silent_fields_def)
  with 2 show ?case using find_skip [of "'',''" k] by (simp add: find_field silent_fields_def)
qed

lemma object_text_find: "fs \<noteq> [] \<Longrightarrow> find_sub (needle k) (object_text fs @ r) = find_sub (needle k) (object_rest fs @ r)"
  using find_skip [of "'',''" k] find_skip [of "''{''" k] by (cases fs rule: object_text.cases) auto

lemma silent_object:
  assumes "is_key k" and "silent_fields k fs" and "k \<notin> fst ` set fs" and "fs \<noteq> []"
  shows "silent k (object_text fs)"
  using find_rest_silent [OF assms(1-3)] object_text_find [OF assms(4)] by (simp add: silent_def)

lemma find_rest_at:
  assumes "silent_fields k fs" and "distinct (map fst fs)" and "(k, v) \<in> set fs"
  shows "\<exists>r. after_value r \<and> find_sub (needle k) (object_rest fs) = Some (needle k @ v @ r) \<and> find_sub (needle k) r = None"
  using assms
proof (induction fs rule: object_rest.induct)
  case (2 k' v' fs)
  show ?case
  proof (cases "k = k'")
    case True
    with 2 have "v' = v" "k \<notin> fst ` set fs" "is_key k" "silent_fields k fs"
      by (force simp: silent_fields_def)+
    moreover from this have "find_sub (needle k) (object_rest fs) = None"
      using find_rest_silent [of k fs "[]"] by (simp add: needle_def)
    ultimately show ?thesis using True find_skip [of "'',''" k]
      by (intro exI [of _ "object_rest fs"]) (simp add: find_here)
  next
    case False
    with 2 have "is_key k" "is_key k'" "silent k v'" "silent_fields k fs" "(k, v) \<in> set fs"
      by (auto simp: silent_fields_def list_all_iff)
    with 2 False show ?thesis using find_skip [of "'',''" k] by (simp add: find_field silent_def)
  qed
qed simp

lemma object_text_at:
  assumes "silent_fields k fs" and "distinct (map fst fs)" and "(k, v) \<in> set fs"
  shows "\<exists>r. after_value r \<and> field_value_at (object_text fs) k = Inr (v @ r)"
proof -
  from find_rest_at [OF assms] obtain r where r: "after_value r"
    "find_sub (needle k) (object_rest fs) = Some (needle k @ v @ r)" "find_sub (needle k) r = None" by blast
  have "find_sub (needle k) (object_text fs) = find_sub (needle k) (object_rest fs)"
    using object_text_find [of fs k "[]"] assms(3) by (cases fs) auto
  moreover have "is_key k" "silent k v" using assms by (auto simp: silent_fields_def list_all_iff)
  ultimately show ?thesis using r
    by (auto simp: field_value_at_def find_after_here silent_def)
qed

lemma string_value_at:
  assumes "silent_fields k fs" and "distinct (map fst fs)" and "(k, quoted s) \<in> set fs" and "list_all plain_char s"
  shows "string_value (object_text fs) k = Inr s"
proof -
  obtain r where r: "field_value_at (object_text fs) k = Inr (quoted s @ r)"
    using object_text_at [OF assms(1-3)] by blast
  then show ?thesis unfolding string_value_iff using plain_chars [OF assms(4)]
    by (simp add: parse_simple_string_def quoted_def left_right_of)
qed

section \<open>The fields of a manifest\<close>

definition manifest_fields :: "string \<Rightarrow> string \<Rightarrow> string \<Rightarrow> string \<Rightarrow> DerivedMessages \<Rightarrow> bool \<Rightarrow> (string \<times> string) list" where
  "manifest_fields before_bytes after_bytes before_identities after_identities ms admit =
     (let a = derived_assessment ms
      in [(''afterSha256'', quoted (sha256_hex after_bytes)),
          (''afterIdentityLedgerSha256'', quoted (sha256_hex after_identities)),
          (''assessmentContentSha256'', quoted (derived_content_sha256 a)),
          (''assessmentId'', quoted (derived_id a)),
          (''assessmentIdempotencyKeySha256'', quoted (derived_idempotency_key_sha256 a)),
          (''assessmentMessageSha256'', quoted (message_sha a)),
          (''beforeSha256'', quoted (sha256_hex before_bytes)),
          (''beforeIdentityLedgerSha256'', quoted (sha256_hex before_identities)),
          (''disposition'', quoted (if admit then ''ADMIT'' else ''OVERFLOW_NOT_ENQUEUED'')),
          (''eventContentSha256'', event_part derived_content_sha256 ms),
          (''eventId'', event_part derived_id ms),
          (''eventIdempotencyKeySha256'', event_part derived_idempotency_key_sha256 ms),
          (''eventMessageSha256'', event_part message_sha ms)])"

lemma manifest_json_fields:
  assumes "state_json before = Inr tb" and "state_json after = Inr ta"
  shows "manifest_json before after lb la ms admit = Inr (object_text (manifest_fields tb ta lb la ms admit))"
  by (simp add: manifest_json_def manifest_fields_def assms needle_def quoted_def Let_def)

definition plain_message :: "DerivedMessage \<Rightarrow> bool" where
  "plain_message m \<longleftrightarrow> list_all plain_char (derived_id m) \<and> list_all plain_char (derived_content_sha256 m) \<and>
     list_all plain_char (derived_idempotency_key_sha256 m)"

definition plain_messages :: "DerivedMessages \<Rightarrow> bool" where
  "plain_messages ms \<longleftrightarrow> plain_message (derived_assessment ms) \<and> pred_option plain_message (derived_event ms)"

lemma event_part_optional:
  "pred_option (\<lambda>e. list_all plain_char (f e)) (derived_event ms) \<Longrightarrow>
   event_part f ms = optional_text (map_option f (derived_event ms)) \<and> quiet (event_part f ms)"
  by (cases "derived_event ms")
    (simp_all add: event_part_def optional_text_def json_string_plain quoted_def quiet_plain quiet_quoted [unfolded quoted_def])

lemma plain_event:
  assumes "plain_messages ms"
  shows "pred_option (\<lambda>e. list_all plain_char (derived_id e)) (derived_event ms)"
    "pred_option (\<lambda>e. list_all plain_char (derived_content_sha256 e)) (derived_event ms)"
    "pred_option (\<lambda>e. list_all plain_char (derived_idempotency_key_sha256 e)) (derived_event ms)"
    "pred_option (\<lambda>e. list_all plain_char (message_sha e)) (derived_event ms)"
  using assms by (cases "derived_event ms"; simp add: plain_messages_def plain_message_def message_sha_def sha_hex_plain)+

lemma manifest_field_list:
  assumes "plain_messages ms"
  shows "field_list (manifest_fields tb ta lb la ms admit)"
proof -
  let ?fs = "manifest_fields tb ta lb la ms admit"
  have keys: "distinct (map fst ?fs)" "list_all (\<lambda>(k, v). is_key k) ?fs"
    by (simp_all add: manifest_fields_def Let_def is_key_def char_class_defs)
  note pa = assms [unfolded plain_messages_def plain_message_def, THEN conjunct1]
  note ev = plain_event [OF assms, THEN event_part_optional, THEN conjunct2]
  have lit: "list_all plain_char (if admit then ''ADMIT'' else ''OVERFLOW_NOT_ENQUEUED'')"
    by (simp add: plain_char_def code_def)
  have "list_all (\<lambda>(k, v). quiet v) ?fs"
    unfolding manifest_fields_def Let_def list.pred_inject(2) prod.case message_sha_def [of "derived_assessment ms"]
    by (intro conjI quiet_quoted sha_hex_plain lit ev list.pred_inject(1)) (use pa in simp_all)
  with keys show ?thesis by (auto simp: field_list_def list_all_iff)
qed

lemma manifest_strings:
  assumes "plain_messages ms" and mf_def: "mf = object_text (manifest_fields tb ta lb la ms admit)"
  shows "string_value mf ''afterSha256'' = Inr (sha256_hex ta)"
    and "string_value mf ''afterIdentityLedgerSha256'' = Inr (sha256_hex la)"
    and "string_value mf ''assessmentContentSha256'' = Inr (derived_content_sha256 (derived_assessment ms))"
    and "string_value mf ''assessmentId'' = Inr (derived_id (derived_assessment ms))"
    and "string_value mf ''assessmentIdempotencyKeySha256'' = Inr (derived_idempotency_key_sha256 (derived_assessment ms))"
    and "string_value mf ''assessmentMessageSha256'' = Inr (message_sha (derived_assessment ms))"
    and "string_value mf ''beforeSha256'' = Inr (sha256_hex tb)"
    and "string_value mf ''beforeIdentityLedgerSha256'' = Inr (sha256_hex lb)"
    and "string_value mf ''disposition'' = Inr (if admit then ''ADMIT'' else ''OVERFLOW_NOT_ENQUEUED'')"
  unfolding mf_def
  by (rule string_value_field [OF manifest_field_list [OF assms(1)]];
      use assms(1) in \<open>simp add: manifest_fields_def Let_def plain_messages_def plain_message_def message_sha_def
        sha_hex_plain plain_char_def code_def\<close>)+

lemma manifest_optionals:
  assumes "plain_messages ms" and mf_def: "mf = object_text (manifest_fields tb ta lb la ms admit)"
  shows "optional_string_value mf ''eventId'' = Inr (map_option derived_id (derived_event ms))"
    and "optional_string_value mf ''eventContentSha256'' = Inr (map_option derived_content_sha256 (derived_event ms))"
    and "optional_string_value mf ''eventIdempotencyKeySha256'' = Inr (map_option derived_idempotency_key_sha256 (derived_event ms))"
    and "optional_string_value mf ''eventMessageSha256'' = Inr (map_option message_sha (derived_event ms))"
  unfolding mf_def
  by (rule optional_string_value_field [OF manifest_field_list [OF assms(1)]];
      use plain_event [OF assms(1)] event_part_optional [OF plain_event(1) [OF assms(1)]]
        event_part_optional [OF plain_event(2) [OF assms(1)]] event_part_optional [OF plain_event(3) [OF assms(1)]]
        event_part_optional [OF plain_event(4) [OF assms(1)]]
      in \<open>cases "derived_event ms"; simp add: manifest_fields_def Let_def\<close>)+

lemma manifest_event_fields:
  assumes "plain_messages ms"
  shows "event_fields (object_text (manifest_fields tb ta lb la ms admit)) =
    Inr \<lparr>field_id = map_option derived_id (derived_event ms),
         field_content_sha256 = map_option derived_content_sha256 (derived_event ms),
         field_idempotency_key_sha256 = map_option derived_idempotency_key_sha256 (derived_event ms),
         field_message_sha256 = map_option message_sha (derived_event ms)\<rparr>"
  using manifest_optionals [OF assms refl] by (cases "derived_event ms") (simp_all add: event_fields_def)

section \<open>The fields of a message\<close>

text \<open>The fields that the store reads in a message.\<close>

definition read_keys :: "string list" where
  "read_keys = [''unitSystemUid'', ''sourceEventId'', ''assessmentId'', ''eventId'', ''messageType'', ''contentSha256'',
     ''modelConfigSha256'']"

lemma read_keys_are_keys: "k \<in> set read_keys \<Longrightarrow> is_key k"
  by (auto simp: read_keys_def is_key_def char_class_defs)

lemma rfc3339_plain: "is_rfc3339_millisecond_utc t \<Longrightarrow> list_all plain_char t"
proof -
  assume "is_rfc3339_millisecond_utc t"
  from rfc3339_fields(2) [OF this] obtain y m d h mi se ms where t: "t = timestamp_text y m d h mi se ms"
    by (cases "timestamp_fields t") auto
  have dec: "is_dec c \<Longrightarrow> plain_char c" for c by (auto simp: plain_char_def char_class_defs)
  have "list_all plain_char (zero_pad w (to_string n))" for w n
    using zero_pad_digits [OF to_string_digits [of n], of w] dec by (auto simp: list_all_iff)
  then show ?thesis by (simp add: t timestamp_text_def) (simp add: plain_char_def code_def)
qed

lemma scaled_decimal_quiet: "scaled_decimal v n = Inr t \<Longrightarrow> quiet t"
proof -
  assume "scaled_decimal v n = Inr t"
  moreover have "CHR 0x22 \<notin> set (strip_zeros s)" if "CHR 0x22 \<notin> set s" for s
    using that by (auto simp: strip_zeros_def dest: set_dropWhileD)
  moreover have "CHR 0x22 \<notin> set (zero_pad w (to_string m))" for w m
    by (rule dec_plain [OF zero_pad_digits [OF to_string_digits]])
  ultimately have "CHR 0x22 \<notin> set t"
    using dec_plain [OF to_string_digits] by (auto simp: scaled_decimal_def Let_def split: if_splits)
  then show ?thesis by (rule quiet_plain)
qed

lemma quiet_json: "list_all plain_char s \<Longrightarrow> quiet (json_string s)"
  by (simp add: json_string_plain quiet_quoted)

text \<open>A list of fields, none of them read by the store, with values that no key is found in.\<close>

definition unread_fields :: "(string \<times> string) list \<Rightarrow> bool" where
  "unread_fields fs \<longleftrightarrow> fs \<noteq> [] \<and> list_all (\<lambda>(k, v). is_key k \<and> k \<notin> set read_keys \<and> (\<forall>r \<in> set read_keys. silent r v)) fs"

lemma unread_silent: "unread_fields fs \<Longrightarrow> r \<in> set read_keys \<Longrightarrow> silent r (object_text fs)"
  by (rule silent_object) (auto simp: unread_fields_def silent_fields_def list_all_iff read_keys_are_keys)

lemma quiet_unread: "quiet v \<Longrightarrow> \<forall>r \<in> set read_keys. silent r v"
  by (auto intro: quiet_silent read_keys_are_keys)

definition feature_fields :: "FeatureVector \<Rightarrow> string \<Rightarrow> string \<Rightarrow> string \<Rightarrow> string \<Rightarrow> string \<Rightarrow> (string \<times> string) list" where
  "feature_fields f duration brake peak reduction ratio =
     [(''activeDurationBps'', to_string (active_duration_bps f)), (''activeDurationSeconds'', duration),
      (''meanBrakeEffortBps'', to_string (mean_brake_bps f)), (''meanBrakeEffortPercent'', brake),
      (''peakDecelerationBps'', to_string (peak_deceleration_bps f)), (''peakDecelerationMps2'', peak),
      (''speedReductionBps'', to_string (speed_reduction_bps f)), (''speedReductionKph'', reduction),
      (''wheelDispersionBps'', to_string (wheel_dispersion_bps f)), (''wheelDispersionRatio'', ratio)]"

definition content_fields :: "Assessment \<Rightarrow> string \<Rightarrow> (string \<times> string) list" where
  "content_fields v feature_text =
     (let f = features v
      in [(''activeSampleCount'', to_string (active_sample_count f)), (''conditionScore'', to_string (assessed_score v)),
          (''currentBand'', json_string (condition_band_name (current_band v))),
          (''episodeLoadBps'', to_string (episode_load_bps f)), (''features'', feature_text),
          (''previousBand'', json_string (condition_band_name (previous_band v))),
          (''quality'', quoted ''VALID_DEMO_SYNTHETIC''),
          (''sourceWindowEndTimestamp'', json_string (source_window_end_timestamp v)),
          (''sourceWindowStartTimestamp'', json_string (source_window_start_timestamp v)),
          (''straightActiveSampleCount'', to_string (straight_active_sample_count f)),
          (''wearIncrement'', to_string (wear_increment v)), (''wearIndexAfter'', to_string (wear_index_after v)),
          (''wearIndexBefore'', to_string (wear_index_before v))])"

lemma keys_unread:
  "list_all (\<lambda>(k, v). is_key k \<and> k \<notin> set read_keys) (feature_fields f a b c d e)"
  "list_all (\<lambda>(k, v). is_key k \<and> k \<notin> set read_keys) (content_fields v t)"
  by (simp_all add: feature_fields_def content_fields_def Let_def is_key_def char_class_defs read_keys_def)

lemma unread_fieldsI:
  "fs \<noteq> [] \<Longrightarrow> list_all (\<lambda>(k, v). is_key k \<and> k \<notin> set read_keys) fs \<Longrightarrow>
   list_all (\<lambda>(k, v). \<forall>r \<in> set read_keys. silent r v) fs \<Longrightarrow> unread_fields fs"
  by (auto simp: unread_fields_def list_all_iff)

lemma assessment_content_silent:
  assumes "assessment_content a = Inr c" and "list_all plain_char (source_window_start_timestamp a)"
    and "list_all plain_char (source_window_end_timestamp a)" and "k \<in> set read_keys"
  shows "silent k c"
proof -
  from assms(1) obtain t1 t2 t3 t4 t5 where d:
    "scaled_decimal (int (active_duration_milliseconds (features a))) 1000 = Inr t1"
    "scaled_decimal (mean_brake_milli_percent (features a)) 1000 = Inr t2"
    "scaled_decimal (peak_deceleration_milli_mps2 (features a)) 1000 = Inr t3"
    "scaled_decimal (speed_reduction_milli_kph (features a)) 1000 = Inr t4"
    "scaled_decimal (int (wheel_dispersion_raw_bps (features a))) 10000 = Inr t5"
    unfolding assessment_content_def Let_def bindE_eq_Inr by blast
  note ts = d [THEN scaled_decimal_quiet]
  have c: "c = object_text (content_fields a (object_text (feature_fields (features a) t1 t2 t3 t4 t5)))"
    using assms(1) by (simp add: assessment_content_def Let_def d content_fields_def feature_fields_def needle_def quoted_def)
  have "unread_fields (feature_fields (features a) t1 t2 t3 t4 t5)"
    by (rule unread_fieldsI [OF _ keys_unread(1)])
      (use ts in \<open>simp_all add: feature_fields_def quiet_unread quiet_number\<close>)
  then have nested: "\<forall>r \<in> set read_keys. silent r (object_text (feature_fields (features a) t1 t2 t3 t4 t5))"
    using unread_silent by blast
  have lit: "list_all plain_char ''VALID_DEMO_SYNTHETIC''" by (simp add: plain_char_def code_def)
  have "unread_fields (content_fields a (object_text (feature_fields (features a) t1 t2 t3 t4 t5)))"
    by (rule unread_fieldsI [OF _ keys_unread(2)])
      (use nested lit assms(2,3) in \<open>simp_all add: content_fields_def Let_def quiet_unread quiet_number quiet_json band_plain
          quiet_quoted del: object_text.simps\<close>)
  then show ?thesis unfolding c using assms(4) by (rule unread_silent)
qed

lemma event_content_silent:
  assumes "list_all plain_char (source_window_end_timestamp a)" and "k \<in> set read_keys"
  shows "silent k (event_content a)"
proof -
  let ?fs = "[(''conditionScore'', to_string (assessed_score a)),
     (''currentBand'', json_string (condition_band_name (current_band a))),
     (''effectiveAt'', json_string (source_window_end_timestamp a)),
     (''eventType'', quoted ''BRAKE_CONDITION_BAND_CHANGED''),
     (''previousBand'', json_string (condition_band_name (previous_band a))),
     (''quality'', quoted ''VALID_DEMO_SYNTHETIC''),
     (''reasonCode'', quoted ''SYNTHETIC_ACCUMULATED_STRESS_THRESHOLD'')]"
  have c: "event_content a = object_text ?fs" by (simp add: event_content_def needle_def quoted_def)
  have lits: "list_all plain_char ''BRAKE_CONDITION_BAND_CHANGED''" "list_all plain_char ''VALID_DEMO_SYNTHETIC''"
    "list_all plain_char ''SYNTHETIC_ACCUMULATED_STRESS_THRESHOLD''" by (simp_all add: plain_char_def code_def)
  have keys: "list_all (\<lambda>(k, v). is_key k \<and> k \<notin> set read_keys) ?fs"
    by (simp add: is_key_def char_class_defs read_keys_def)
  have "unread_fields ?fs"
    by (rule unread_fieldsI [OF _ keys])
      (use lits assms(1) in \<open>simp_all add: quiet_unread quiet_number quiet_json band_plain quiet_quoted\<close>)
  then show ?thesis unfolding c using assms(2) by (rule unread_silent)
qed

definition provenance_field :: "DeploymentMetadata \<Rightarrow> string \<Rightarrow> string \<times> string" where
  "provenance_field md instance_text =
     (case dm_service_instance md of Some i \<Rightarrow> (''serviceInstance'', instance_text)
      | None \<Rightarrow> (''serviceArtifactSha256'', json_string (dm_service_artifact_sha256 md)))"

definition contract_field :: "DeploymentMetadata \<Rightarrow> string \<times> string" where
  "contract_field md = (''contractVersion'', quoted (if dm_service_instance md \<noteq> None then ''2.0.0'' else ''1.0.0''))"

definition schema_field :: "DeploymentMetadata \<Rightarrow> string \<times> string" where
  "schema_field md = (''schemaVersion'', if dm_service_instance md \<noteq> None then ''2'' else ''1'')"

definition model_fields :: "DeploymentMetadata \<Rightarrow> string \<Rightarrow> CompletedEpisode \<Rightarrow> (string \<times> string) list" where
  "model_fields md instance_text ep =
     [(''modelConfigSha256'', json_string (dm_model_config_sha256 md)),
      (''modelId'', quoted ''brake-condition-demo-v1''), (''modelVersion'', quoted ''1.0.0''),
      (''provenance'', quoted ''DEMO_SYNTHETIC''), schema_field md, provenance_field md instance_text,
      (''serviceVersion'', json_string (dm_service_version md)),
      (''sourceEventId'', json_string (source_event_id ep)),
      (''unitRole'', json_string (unit_role_name (dm_unit_role md))),
      (''unitSystemUid'', json_string (dm_unit_system_uid md))]"

definition assessment_fields where
  "assessment_fields md instance_text ep ident content =
     [(''assessedAt'', json_string (dm_assessed_at md)), (''assessmentId'', json_string ident), (''content'', content),
      (''contentSha256'', json_string (sha256_hex content)), contract_field md,
      (''messageType'', quoted ''BRAKE_HEALTH_ASSESSMENT'')] @
     (if dm_service_instance md \<noteq> None then [] else [(''modelArtifactSha256'', json_string (dm_model_artifact_sha256 md))]) @
     model_fields md instance_text ep @
     [(''vdpContractSha256'', json_string (dm_vdp_contract_sha256 md)),
      (''vdpContractVersion'', json_string (dm_vdp_contract_version md))]"

definition event_message_fields where
  "event_message_fields md instance_text ep ident event_ident content =
     [(''assessmentId'', json_string ident), (''content'', content), (''contentSha256'', json_string (sha256_hex content)),
      contract_field md, (''eventId'', json_string event_ident),
      (''messageType'', quoted ''BRAKE_HEALTH_EVENT'')] @ model_fields md instance_text ep"

lemmas message_field_defs = provenance_field_def contract_field_def schema_field_def model_fields_def
  assessment_fields_def event_message_fields_def

lemma message_texts:
  assumes "provenance_text md = Inr p"
  obtains it where "assessment_json md ep ident content = Inr (object_text (assessment_fields md it ep ident content))"
    and "event_json md ep ident event_ident content = Inr (object_text (event_message_fields md it ep ident event_ident content))"
    and "\<And>i. dm_service_instance md = Some i \<Longrightarrow> service_instance_json i = Inr it"
proof (cases "dm_service_instance md")
  case None
  then show thesis
    by (intro that [of "[]"]) (simp_all add: assessment_json_def event_json_def provenance_text_def message_field_defs
        needle_def quoted_def)
next
  case (Some i)
  with assms obtain t where "service_instance_json i = Inr t"
    by (auto simp: provenance_text_def bindE_eq_Inr)
  with Some show thesis
    by (intro that [of t]) (simp_all add: assessment_json_def event_json_def provenance_text_def message_field_defs
        needle_def quoted_def)
qed

lemma semantic_version_plain: "semantic_version v \<Longrightarrow> list_all plain_char v"
proof -
  have "semantic_version_loop s dots digit lz \<Longrightarrow> list_all plain_char s" for s dots digit lz
    by (induction s dots digit lz rule: semantic_version_loop.induct)
      (auto simp: plain_char_def char_class_defs split: if_splits)
  then show "semantic_version v \<Longrightarrow> list_all plain_char v" by (auto simp: semantic_version_def)
qed

lemma instance_quiet:
  assumes "service_instance_json i = Inr t"
  shows "\<forall>r \<in> set read_keys. silent r t"
proof -
  let ?fs = "[(''instanceId'', quoted (instance_id i)), (''instanceIndex'', to_string (instance_index i)),
     (''serviceId'', quoted (service_id i)), (''subjectId'', quoted (subject_id i))]"
  from assms have v: "native_instance_valid i" and t: "t = object_text ?fs"
    by (auto simp: service_instance_json_def needle_def quoted_def split: if_splits)
  have plain: "list_all plain_char (instance_id i)" "list_all plain_char (service_id i)" "list_all plain_char (subject_id i)"
    using v by (auto simp: native_instance_valid_def intro!: bounded_identifier_plain native_identifier_bounded)
  have keys: "list_all (\<lambda>(k, v). is_key k \<and> k \<notin> set read_keys) ?fs"
    by (simp add: is_key_def char_class_defs read_keys_def)
  have "unread_fields ?fs"
    by (rule unread_fieldsI [OF _ keys]) (use plain in \<open>simp_all add: quiet_unread quiet_number quiet_quoted\<close>)
  then show ?thesis unfolding t using unread_silent by blast
qed

lemma role_plain: "list_all plain_char (unit_role_name r)"
  by (cases r) (simp_all add: unit_role_name_def plain_char_def code_def)

lemma metadata_plain:
  assumes "\<not> v2_metadata_invalid md ep a"
  shows "list_all plain_char (dm_assessed_at md)" "list_all plain_char (source_window_start_timestamp a)"
    "list_all plain_char (source_window_end_timestamp a)" "list_all plain_char (dm_unit_system_uid md)"
    "list_all plain_char (dm_service_version md)" "list_all plain_char (dm_vdp_contract_version md)"
    "list_all plain_char (dm_vdp_contract_sha256 md)" "list_all plain_char (dm_model_config_sha256 md)"
    "list_all plain_char (source_event_id ep)"
    "dm_service_instance md = None \<Longrightarrow> list_all plain_char (dm_model_artifact_sha256 md)"
    "dm_service_instance md = None \<Longrightarrow> list_all plain_char (dm_service_artifact_sha256 md)"
  using assms has_version_plain config_plain [of kModelConfigSha256] sha_plain
  by (auto simp: v2_metadata_invalid_def supported_model_config_def rfc3339_plain bounded_identifier_plain semantic_version_plain
      split: if_splits)

lemma message_lits:
  "list_all plain_char ''2.0.0''" "list_all plain_char ''1.0.0''" "list_all plain_char ''BRAKE_HEALTH_ASSESSMENT''"
  "list_all plain_char ''BRAKE_HEALTH_EVENT''" "list_all plain_char ''brake-condition-demo-v1''" "list_all plain_char ''DEMO_SYNTHETIC''"
  by (simp_all add: plain_char_def code_def)

lemma silent_message_fields:
  assumes valid: "\<not> v2_metadata_invalid md ep a" and "list_all plain_char ident" and "list_all plain_char event_ident"
    and content: "\<forall>k \<in> set read_keys. silent k content" and it: "\<And>i. dm_service_instance md = Some i \<Longrightarrow> service_instance_json i = Inr it"
    and k: "k \<in> set read_keys"
  shows "silent_fields k (assessment_fields md it ep ident content)" "distinct (map fst (assessment_fields md it ep ident content))"
    and "silent_fields k (event_message_fields md it ep ident event_ident content)"
    and "distinct (map fst (event_message_fields md it ep ident event_ident content))"
proof -
  note plain = metadata_plain [OF valid] assms(2,3) role_plain message_lits
  have q: "quiet v \<Longrightarrow> silent k v" for v using quiet_silent read_keys_are_keys [OF k] by blast
  have nums: "quiet ''1''" "quiet ''2''" by (rule quiet_plain, simp)+
  have inst: "dm_service_instance md = Some i \<Longrightarrow> silent k it" for i using instance_quiet [OF it] k by blast
  note rules = q quiet_json sha_hex_plain plain nums inst content [rule_format, OF k] message_lits [THEN quiet_quoted, THEN q]
  show "silent_fields k (assessment_fields md it ep ident content)"
    "silent_fields k (event_message_fields md it ep ident event_ident content)"
    by (cases "dm_service_instance md"; simp add: message_field_defs silent_fields_def rules is_key_def char_class_defs)+
  show "distinct (map fst (assessment_fields md it ep ident content))"
    "distinct (map fst (event_message_fields md it ep ident event_ident content))"
    by (cases "dm_service_instance md"; simp add: message_field_defs)+
qed

text \<open>What the store reads in the messages of one build.\<close>

lemma assessment_reads:
  assumes valid: "\<not> v2_metadata_invalid md ep a" and "assessment_json md ep ident content = Inr t" and "list_all plain_char ident"
    and "\<forall>k \<in> set read_keys. silent k content"
  shows "string_value t ''unitSystemUid'' = Inr (dm_unit_system_uid md)" "string_value t ''sourceEventId'' = Inr (source_event_id ep)"
    "string_value t ''assessmentId'' = Inr ident" "string_value t ''messageType'' = Inr ''BRAKE_HEALTH_ASSESSMENT''"
    "string_value t ''contentSha256'' = Inr (sha256_hex content)" "string_value t ''modelConfigSha256'' = Inr (dm_model_config_sha256 md)"
proof -
  obtain p where "provenance_text md = Inr p" using assms(2) by (auto simp: assessment_json_def bindE_eq_Inr)
  from message_texts [OF this, of ep ident content ident] obtain it where
    t: "t = object_text (assessment_fields md it ep ident content)" and
    it: "\<And>i. dm_service_instance md = Some i \<Longrightarrow> service_instance_json i = Inr it" using assms(2) by auto
  have sil: "string_value (object_text (assessment_fields md it ep ident content)) k = Inr s"
    if "k \<in> set read_keys" and "(k, quoted s) \<in> set (assessment_fields md it ep ident content)" and "list_all plain_char s" for k s
    using silent_message_fields(1,2) [OF valid assms(3,3,4) it that(1)] that(2,3) by (intro string_value_at)
  note plain = metadata_plain [OF valid] assms(3) message_lits sha_hex_plain
  show "string_value t ''unitSystemUid'' = Inr (dm_unit_system_uid md)" "string_value t ''sourceEventId'' = Inr (source_event_id ep)"
    "string_value t ''assessmentId'' = Inr ident" "string_value t ''messageType'' = Inr ''BRAKE_HEALTH_ASSESSMENT''"
    "string_value t ''contentSha256'' = Inr (sha256_hex content)" "string_value t ''modelConfigSha256'' = Inr (dm_model_config_sha256 md)"
    unfolding t
    by (rule sil;
        simp add: plain read_keys_def message_field_defs json_string_plain plain_char_def code_def)+
qed

lemma event_reads:
  assumes valid: "\<not> v2_metadata_invalid md ep a" and "event_json md ep ident event_ident content = Inr t" and "list_all plain_char ident"
    and "list_all plain_char event_ident" and "\<forall>k \<in> set read_keys. silent k content"
  shows "string_value t ''unitSystemUid'' = Inr (dm_unit_system_uid md)" "string_value t ''sourceEventId'' = Inr (source_event_id ep)"
    "string_value t ''assessmentId'' = Inr ident" "string_value t ''eventId'' = Inr event_ident"
    "string_value t ''messageType'' = Inr ''BRAKE_HEALTH_EVENT''"
    "string_value t ''contentSha256'' = Inr (sha256_hex content)" "string_value t ''modelConfigSha256'' = Inr (dm_model_config_sha256 md)"
proof -
  obtain p where "provenance_text md = Inr p" using assms(2) by (auto simp: event_json_def bindE_eq_Inr)
  from message_texts [OF this, of ep ident content event_ident] obtain it where
    t: "t = object_text (event_message_fields md it ep ident event_ident content)" and
    it: "\<And>i. dm_service_instance md = Some i \<Longrightarrow> service_instance_json i = Inr it" using assms(2) by auto
  have sil: "string_value (object_text (event_message_fields md it ep ident event_ident content)) k = Inr s"
    if "k \<in> set read_keys" and "(k, quoted s) \<in> set (event_message_fields md it ep ident event_ident content)" and "list_all plain_char s" for k s
    using silent_message_fields(3,4) [OF valid assms(3,4,5) it that(1)] that(2,3) by (intro string_value_at)
  note plain = metadata_plain [OF valid] assms(3,4) message_lits sha_hex_plain
  show "string_value t ''unitSystemUid'' = Inr (dm_unit_system_uid md)" "string_value t ''sourceEventId'' = Inr (source_event_id ep)"
    "string_value t ''assessmentId'' = Inr ident" "string_value t ''eventId'' = Inr event_ident"
    "string_value t ''messageType'' = Inr ''BRAKE_HEALTH_EVENT''"
    "string_value t ''contentSha256'' = Inr (sha256_hex content)" "string_value t ''modelConfigSha256'' = Inr (dm_model_config_sha256 md)"
    unfolding t
    by (rule sil;
        simp add: plain read_keys_def message_field_defs json_string_plain plain_char_def code_def)+
qed

section \<open>Built messages pass the check of the store\<close>

lemma build_messages_parts:
  assumes "v2_build_messages md ep a = Inr ms"
  obtains content where "\<not> v2_metadata_invalid md ep a" and "assessment_content a = Inr content"
    and "assessment_id md (source_event_id ep) = Inr (derived_id (derived_assessment ms))"
    and "assessment_json md ep (derived_id (derived_assessment ms)) content = Inr (derived_json (derived_assessment ms))"
    and "derived_content_sha256 (derived_assessment ms) = sha256_hex content"
    and "message_idempotency_key_sha256 (dm_unit_system_uid md) ''BRAKE_HEALTH_ASSESSMENT'' (derived_id (derived_assessment ms)) =
        Inr (derived_idempotency_key_sha256 (derived_assessment ms))"
    and "length (derived_json (derived_assessment ms)) \<le> kMaximumMessageBytes"
    and "\<And>e. derived_event ms = Some e \<Longrightarrow> build_event md ep a (derived_id (derived_assessment ms)) = Inr e"
proof -
  from assms obtain i c t key where p: "\<not> v2_metadata_invalid md ep a" "assessment_id md (source_event_id ep) = Inr i"
    "assessment_content a = Inr c" "assessment_json md ep i c = Inr t" "length t \<le> kMaximumMessageBytes"
    "message_idempotency_key_sha256 (dm_unit_system_uid md) ''BRAKE_HEALTH_ASSESSMENT'' i = Inr key"
    and r: "(if previous_band a \<noteq> current_band a then
             bindE (build_event md ep a i) (\<lambda>ev. Inr \<lparr>derived_assessment = \<lparr>derived_id = i, derived_type = ''BRAKE_HEALTH_ASSESSMENT'',
               derived_json = t, derived_content_sha256 = sha256_hex c, derived_idempotency_key_sha256 = key\<rparr>, derived_event = Some ev\<rparr>)
           else Inr \<lparr>derived_assessment = \<lparr>derived_id = i, derived_type = ''BRAKE_HEALTH_ASSESSMENT'',
               derived_json = t, derived_content_sha256 = sha256_hex c, derived_idempotency_key_sha256 = key\<rparr>, derived_event = None\<rparr>) = Inr ms"
    unfolding v2_build_messages_def v2_validate_metadata_def v2_enforce_message_size_def Let_def bindE_eq_Inr throwIf_eq_Inr not_less
    by blast
  from r have a: "derived_assessment ms = \<lparr>derived_id = i, derived_type = ''BRAKE_HEALTH_ASSESSMENT'',
      derived_json = t, derived_content_sha256 = sha256_hex c, derived_idempotency_key_sha256 = key\<rparr>"
    and e: "\<And>e. derived_event ms = Some e \<Longrightarrow> build_event md ep a i = Inr e"
    by (auto simp: bindE_eq_Inr split: if_splits)
  show thesis by (rule that [of c]) (use p a e in simp_all)
qed

lemma build_event_parts:
  assumes "build_event md ep a ident = Inr e"
  shows "has_version (derived_id e) (CHR ''5'')" "event_json md ep ident (derived_id e) (event_content a) = Inr (derived_json e)"
    "derived_content_sha256 e = sha256_hex (event_content a)" "length (derived_json e) \<le> kMaximumMessageBytes"
    "message_idempotency_key_sha256 (dm_unit_system_uid md) ''BRAKE_HEALTH_EVENT'' (derived_id e) =
        Inr (derived_idempotency_key_sha256 e)"
  using assms uuid_v5_version
  by (auto simp: build_event_def v2_enforce_message_size_def bindE_eq_Inr)

lemma idempotency_key_plain: "message_idempotency_key_sha256 u t i = Inr k \<Longrightarrow> list_all plain_char k"
  by (auto simp: message_idempotency_key_sha256_def make_idempotency_digest_def sha_hex_plain split: if_splits)

lemma built_plain:
  assumes "v2_build_messages md ep a = Inr ms"
  shows "plain_messages ms"
proof -
  obtain content where b: "assessment_id md (source_event_id ep) = Inr (derived_id (derived_assessment ms))"
    "derived_content_sha256 (derived_assessment ms) = sha256_hex content"
    "message_idempotency_key_sha256 (dm_unit_system_uid md) ''BRAKE_HEALTH_ASSESSMENT'' (derived_id (derived_assessment ms)) =
        Inr (derived_idempotency_key_sha256 (derived_assessment ms))"
    and e: "\<And>e. derived_event ms = Some e \<Longrightarrow> build_event md ep a (derived_id (derived_assessment ms)) = Inr e"
    by (rule build_messages_parts [OF assms]) blast
  have "plain_message (derived_assessment ms)"
    using b has_version_plain [OF uuid_v5_version] idempotency_key_plain [OF b(3)]
    by (auto simp: plain_message_def assessment_id_def sha_hex_plain)
  moreover have "plain_message x" if "derived_event ms = Some x" for x
    using build_event_parts [OF e [OF that]] has_version_plain idempotency_key_plain
    by (auto simp: plain_message_def sha_hex_plain)
  ultimately show ?thesis by (cases "derived_event ms") (simp_all add: plain_messages_def)
qed

definition entry_of :: "message_kind \<Rightarrow> string \<Rightarrow> string \<Rightarrow> bool \<Rightarrow> DerivedMessage \<Rightarrow> OutboxEntry" where
  "entry_of k source_event bundle_id q m =
     \<lparr>out_id = derived_id m, out_type = kind_type k, out_json = derived_json m, out_content_sha256 = derived_content_sha256 m,
      out_idempotency_key_sha256 = derived_idempotency_key_sha256 m, out_message_sha256 = message_sha m,
      out_source_event_id = source_event, out_assessment_id = bundle_id, out_quarantined = q\<rparr>"

lemma built_assessment_verifies:
  assumes "v2_build_messages md ep a = Inr ms"
  shows "verified_outbox_message AssessmentKind (object_text (manifest_fields tb ta lb la ms admit))
      (derived_json (derived_assessment ms)) q =
    Inr (entry_of AssessmentKind (source_event_id ep) (derived_id (derived_assessment ms)) q (derived_assessment ms))"
proof -
  obtain content where b: "\<not> v2_metadata_invalid md ep a" "assessment_content a = Inr content"
    "assessment_json md ep (derived_id (derived_assessment ms)) content = Inr (derived_json (derived_assessment ms))"
    "derived_content_sha256 (derived_assessment ms) = sha256_hex content"
    "message_idempotency_key_sha256 (dm_unit_system_uid md) ''BRAKE_HEALTH_ASSESSMENT'' (derived_id (derived_assessment ms)) =
        Inr (derived_idempotency_key_sha256 (derived_assessment ms))"
    by (rule build_messages_parts [OF assms]) blast
  note pl = built_plain [OF assms]
  have ident: "list_all plain_char (derived_id (derived_assessment ms))" using pl by (simp add: plain_messages_def plain_message_def)
  have silent: "\<forall>k \<in> set read_keys. silent k content"
    using assessment_content_silent [OF b(2)] metadata_plain [OF b(1)] by blast
  have cfg: "supported_model_config (dm_model_config_sha256 md)"
    using b(1) by (auto simp: v2_metadata_invalid_def supported_model_config_def)
  show ?thesis
    using assessment_reads [OF b(1,3) ident silent] manifest_strings [OF pl refl, of tb ta lb la admit] b(4,5) cfg
    by (simp add: verified_outbox_message_def manifest_id_of_def kind_prefix_def kind_type_def kind_id_key_def
        message_conflicts_def message_sha_def entry_of_def)
qed

lemma built_event_verifies:
  assumes "v2_build_messages md ep a = Inr ms" and e: "derived_event ms = Some e"
  shows "verified_outbox_message EventKind (object_text (manifest_fields tb ta lb la ms admit)) (derived_json e) q =
    Inr (entry_of EventKind (source_event_id ep) (derived_id (derived_assessment ms)) q e)"
proof -
  obtain content where b: "\<not> v2_metadata_invalid md ep a"
    and ev: "build_event md ep a (derived_id (derived_assessment ms)) = Inr e"
    by (rule build_messages_parts [OF assms(1)]) (use e in blast)
  note parts = build_event_parts [OF ev]
  note pl = built_plain [OF assms(1)]
  have ident: "list_all plain_char (derived_id (derived_assessment ms))" "list_all plain_char (derived_id e)"
    using pl e by (simp_all add: plain_messages_def plain_message_def)
  have silent: "\<forall>k \<in> set read_keys. silent k (event_content a)"
    using event_content_silent metadata_plain [OF b] by blast
  have cfg: "supported_model_config (dm_model_config_sha256 md)"
    using b(1) by (auto simp: v2_metadata_invalid_def supported_model_config_def)
  note opt = manifest_optionals [OF pl refl, of tb ta lb la admit, unfolded e option.map optional_string_value_iff]
  have strs: "string_value (object_text (manifest_fields tb ta lb la ms admit)) ''eventContentSha256'' = Inr (derived_content_sha256 e)"
    "string_value (object_text (manifest_fields tb ta lb la ms admit)) ''eventIdempotencyKeySha256'' = Inr (derived_idempotency_key_sha256 e)"
    "string_value (object_text (manifest_fields tb ta lb la ms admit)) ''eventMessageSha256'' = Inr (message_sha e)"
    unfolding string_value_iff using opt(2-4)
    by (auto simp: parse_optional_string_def bindE_eq_Inr split: if_splits)
  show ?thesis
    using event_reads [OF b parts(2) ident silent] manifest_strings(4) [OF pl refl, of tb ta lb la admit] strs parts(3,5) cfg
      manifest_event_fields [OF pl, of tb ta lb la admit] e
    by (simp add: verified_outbox_message_def manifest_id_of_def kind_prefix_def kind_type_def kind_id_key_def
        message_conflicts_def message_sha_def entry_of_def)
qed

end
