(* ===== verification/Effects.thy ===== *)
theory Effects
  imports Prelude "HOL-Library.AList"
begin

text \<open>
  Effects of the durable components: a state that survives an exception. An operation takes the
  state and returns a result together with the state it leaves, also when it raises; files are an
  association list from names to contents.
\<close>

section \<open>Operations\<close>

type_synonym ('s, 'a) op = "'s \<Rightarrow> 'a result \<times> 's"

definition returnS :: "'a \<Rightarrow> ('s, 'a) op" where
  "returnS x s = (Inr x, s)"

definition throwS :: "exn \<Rightarrow> ('s, 'a) op" where
  "throwS e s = (Inl e, s)"

definition liftS :: "'a result \<Rightarrow> ('s, 'a) op" where
  "liftS r s = (r, s)"

definition readS :: "('s \<Rightarrow> 'a result) \<Rightarrow> ('s, 'a) op" where
  "readS f s = (f s, s)"

definition bindS :: "('s, 'a) op \<Rightarrow> ('a \<Rightarrow> ('s, 'b) op) \<Rightarrow> ('s, 'b) op" where
  "bindS m f s = (case m s of (Inl e, s') \<Rightarrow> (Inl e, s') | (Inr x, s') \<Rightarrow> f x s')"

text \<open>\<open>try { m } catch (...) { h }\<close>: the handler runs in the state the exception left.\<close>

definition catchS :: "('s, 'a) op \<Rightarrow> ('s, 'a) op \<Rightarrow> ('s, 'a) op" where
  "catchS m h s = (case m s of (Inl e, s') \<Rightarrow> h s' | (Inr x, s') \<Rightarrow> (Inr x, s'))"

fun eachS :: "('x \<Rightarrow> ('s, unit) op) \<Rightarrow> 'x list \<Rightarrow> ('s, unit) op" where
  "eachS f [] = returnS ()"
| "eachS f (x # xs) = bindS (f x) (\<lambda>_. eachS f xs)"

definition checkS :: "bool \<Rightarrow> exn \<Rightarrow> ('s, unit) op" where
  "checkS bad e = (if bad then throwS e else returnS ())"

lemma op_simps [simp]:
  "returnS x s = (Inr x, s)" "throwS e s = (Inl e, s)" "liftS r s = (r, s)" "readS f s = (f s, s)"
  by (simp_all add: returnS_def throwS_def liftS_def readS_def)

lemma bindS_Inr: "m s = (Inr x, s') \<Longrightarrow> bindS m f s = f x s'"
  by (simp add: bindS_def)

lemma bindS_Inl: "m s = (Inl e, s') \<Longrightarrow> bindS m f s = (Inl e, s')"
  by (simp add: bindS_def)

lemma bindS_simps [simp]:
  "bindS (returnS x) f = f x" "bindS (throwS e) f = throwS e" "bindS (liftS (Inr x)) f = f x" "bindS (liftS (Inl e)) f = throwS e"
  by (simp_all add: bindS_def fun_eq_iff)

lemma bindS_readS [simp]: "bindS (readS g) f s = (case g s of Inl e \<Rightarrow> (Inl e, s) | Inr x \<Rightarrow> f x s)"
  by (simp add: bindS_def split: sum.splits)

lemma checkS_simps [simp]: "checkS True e = throwS e" "checkS False e = returnS ()"
  by (simp_all add: checkS_def)

lemma bindS_eq_Inr:
  "bindS m f s = (Inr y, s') \<longleftrightarrow> (\<exists>x s1. m s = (Inr x, s1) \<and> f x s1 = (Inr y, s'))"
  by (auto simp: bindS_def split: prod.splits sum.splits)

section \<open>What an operation keeps\<close>

text \<open>
  \<open>keeps P m\<close>: started in a state with \<open>P\<close>, the operation leaves a state with \<open>P\<close>, whether it returns
  or raises.
\<close>

definition keeps :: "('s \<Rightarrow> bool) \<Rightarrow> ('s, 'a) op \<Rightarrow> bool" where
  "keeps P m \<longleftrightarrow> (\<forall>s. P s \<longrightarrow> P (snd (m s)))"

named_theorems keeps_rules \<open>invariant rules for operations\<close>

lemma keepsI: "(\<And>s. P s \<Longrightarrow> P (snd (m s))) \<Longrightarrow> keeps P m"
  by (simp add: keeps_def)

lemma keepsD: "keeps P m \<Longrightarrow> P s \<Longrightarrow> P (snd (m s))"
  by (simp add: keeps_def)

lemma keepsE: "keeps P m \<Longrightarrow> P s \<Longrightarrow> m s = (r, s') \<Longrightarrow> P s'"
  by (metis keeps_def snd_conv)

lemma keeps_pure [keeps_rules]:
  "keeps P (returnS x)" "keeps P (throwS e)" "keeps P (liftS r)" "keeps P (readS f)" "keeps P (checkS b e)"
  by (simp_all add: keeps_def checkS_def)

lemma keeps_bindS [keeps_rules]:
  assumes "keeps P m" and "\<And>x. keeps P (f x)"
  shows "keeps P (bindS m f)"
proof (rule keepsI)
  fix s
  assume "P s"
  then show "P (snd (bindS m f s))"
    using keepsD [OF assms(1)] keepsD [OF assms(2)] by (fastforce simp: bindS_def split: prod.splits sum.splits)
qed

lemma keeps_catchS [keeps_rules]: "keeps P m \<Longrightarrow> keeps P h \<Longrightarrow> keeps P (catchS m h)"
  by (fastforce simp: keeps_def catchS_def split: prod.splits sum.splits)

lemma keeps_eachS [keeps_rules]: "(\<And>x. x \<in> set xs \<Longrightarrow> keeps P (f x)) \<Longrightarrow> keeps P (eachS f xs)"
  by (induction xs) (auto intro!: keeps_rules)

lemma keeps_if [keeps_rules]: "(b \<Longrightarrow> keeps P m) \<Longrightarrow> (\<not> b \<Longrightarrow> keeps P n) \<Longrightarrow> keeps P (if b then m else n)"
  by simp

lemma keeps_case_option [keeps_rules]:
  "(x = None \<Longrightarrow> keeps P m) \<Longrightarrow> (\<And>y. x = Some y \<Longrightarrow> keeps P (n y)) \<Longrightarrow> keeps P (case x of None \<Rightarrow> m | Some y \<Rightarrow> n y)"
  by (cases x) simp_all

lemma keeps_let [keeps_rules]: "keeps P (m x) \<Longrightarrow> keeps P (let y = x in m y)"
  by simp

text \<open>
  \<open>hoare P m Q E\<close>: started in a state with \<open>P\<close>, the operation returns \<open>x\<close> in a state with \<open>Q x\<close> or raises
  in a state with \<open>E\<close>.
\<close>

definition hoare :: "('s \<Rightarrow> bool) \<Rightarrow> ('s, 'a) op \<Rightarrow> ('a \<Rightarrow> 's \<Rightarrow> bool) \<Rightarrow> ('s \<Rightarrow> bool) \<Rightarrow> bool" where
  "hoare P m Q E \<longleftrightarrow> (\<forall>s. P s \<longrightarrow> (case m s of (Inr x, s') \<Rightarrow> Q x s' | (Inl e, s') \<Rightarrow> E s'))"

lemma hoareI:
  "(\<And>s. P s \<Longrightarrow> case m s of (Inr x, s') \<Rightarrow> Q x s' | (Inl e, s') \<Rightarrow> E s') \<Longrightarrow> hoare P m Q E"
  by (simp add: hoare_def)

lemma hoareD:
  "hoare P m Q E \<Longrightarrow> P s \<Longrightarrow> m s = (Inr x, s') \<Longrightarrow> Q x s'"
  "hoare P m Q E \<Longrightarrow> P s \<Longrightarrow> m s = (Inl e, s') \<Longrightarrow> E s'"
  by (fastforce simp: hoare_def)+

lemma keeps_iff_hoare: "keeps P m \<longleftrightarrow> hoare P m (\<lambda>_. P) P"
proof -
  have "P (snd (m s)) \<longleftrightarrow> (case m s of (Inr x, s') \<Rightarrow> P s' | (Inl e, s') \<Rightarrow> P s')" for s
    by (simp split: prod.splits sum.splits)
  then show ?thesis by (simp add: keeps_def hoare_def)
qed

lemma hoare_keeps: "hoare P m (\<lambda>_. P) P \<Longrightarrow> keeps P m"
  by (simp add: keeps_iff_hoare)

lemma hoare_weaken:
  assumes "hoare P m Q E" and "\<And>s. P' s \<Longrightarrow> P s" and "\<And>x s. Q x s \<Longrightarrow> Q' x s" and "\<And>s. E s \<Longrightarrow> E' s"
  shows "hoare P' m Q' E'"
  using assms unfolding hoare_def by (fastforce split: prod.splits sum.splits)

lemma hoare_pre: "hoare P m Q E \<Longrightarrow> (\<And>s. P' s \<Longrightarrow> P s) \<Longrightarrow> hoare P' m Q E"
  by (rule hoare_weaken)

lemma hoare_bindS:
  assumes "hoare P m Q E" and "\<And>x. hoare (Q x) (f x) R E"
  shows "hoare P (bindS m f) R E"
proof (rule hoareI)
  fix s
  assume "P s"
  then show "case bindS m f s of (Inr x, s') \<Rightarrow> R x s' | (Inl e, s') \<Rightarrow> E s'"
    using assms hoareD [OF assms(1), of s] assms(2)
    by (cases "m s" rule: prod.exhaust; cases "fst (m s)") (auto simp: bindS_def hoare_def)
qed

lemma hoare_returnS: "(\<And>s. P s \<Longrightarrow> Q x s) \<Longrightarrow> hoare P (returnS x) Q E"
  by (simp add: hoare_def)

lemma hoare_throwS: "(\<And>s. P s \<Longrightarrow> E s) \<Longrightarrow> hoare P (throwS e) Q E"
  by (simp add: hoare_def)

lemmas hoare_pure = hoare_returnS hoare_throwS

lemma hoare_readS:
  "(\<And>s e. P s \<Longrightarrow> g s = Inl e \<Longrightarrow> E s) \<Longrightarrow> (\<And>s x. P s \<Longrightarrow> g s = Inr x \<Longrightarrow> Q x s) \<Longrightarrow> hoare P (readS g) Q E"
  by (auto simp: hoare_def split: sum.splits)

lemma hoare_liftS:
  "(\<And>s e. P s \<Longrightarrow> r = Inl e \<Longrightarrow> E s) \<Longrightarrow> (\<And>s x. P s \<Longrightarrow> r = Inr x \<Longrightarrow> Q x s) \<Longrightarrow> hoare P (liftS r) Q E"
  by (auto simp: hoare_def split: sum.splits)

lemma hoare_bind_readS:
  assumes "\<And>s. P s \<Longrightarrow> E s" and "\<And>x. hoare (\<lambda>s. P s \<and> g s = Inr x) (f x) R E"
  shows "hoare P (bindS (readS g) f) R E"
  by (rule hoare_bindS [OF hoare_readS assms(2)]) (auto simp: assms(1))

lemma hoare_bind_liftS:
  assumes "\<And>s. P s \<Longrightarrow> E s" and "\<And>x. r = Inr x \<Longrightarrow> hoare P (f x) R E"
  shows "hoare P (bindS (liftS r) f) R E"
  using assms by (cases r) (simp_all add: hoare_def)

lemma hoare_bind_checkS:
  assumes "\<And>s. P s \<Longrightarrow> E s" and "\<not> b \<Longrightarrow> hoare P (f ()) R E"
  shows "hoare P (bindS (checkS b e) f) R E"
  using assms by (cases b) (simp_all add: hoare_def)

lemma hoare_if:
  "(b \<Longrightarrow> hoare P m Q E) \<Longrightarrow> (\<not> b \<Longrightarrow> hoare P n Q E) \<Longrightarrow> hoare P (if b then m else n) Q E"
  by simp

lemma hoare_catchS:
  assumes "hoare P m Q F" and "hoare F h Q E"
  shows "hoare P (catchS m h) Q E"
proof (rule hoareI)
  fix s
  assume "P s"
  then show "case catchS m h s of (Inr x, s') \<Rightarrow> Q x s' | (Inl e, s') \<Rightarrow> E s'"
    using hoareD [OF assms(1), of s] assms(2)
    by (cases "m s" rule: prod.exhaust; cases "fst (m s)") (auto simp: catchS_def hoare_def)
qed

lemma hoare_eachS:
  assumes "\<And>x. x \<in> set xs \<Longrightarrow> hoare P (f x) (\<lambda>_. P) E"
  shows "hoare P (eachS f xs) (\<lambda>_. P) E"
  using assms
proof (induction xs)
  case Nil
  show ?case unfolding eachS.simps by (rule hoare_returnS)
next
  case (Cons x xs)
  then show ?case by (auto intro!: hoare_bindS)
qed

lemma hoare_snd: "hoare P m (\<lambda>_. Q) Q \<Longrightarrow> P s \<Longrightarrow> Q (snd (m s))"
  by (cases "m s" rule: prod.exhaust; cases "fst (m s)") (auto simp: hoare_def)

section \<open>Files\<close>

type_synonym dir = "(string \<times> string) list"

lemma map_of_update: "map_of (AList.update k v kvs) k' = (if k' = k then Some v else map_of kvs k')"
  by (simp add: update_conv')

lemma set_update_keys: "fst ` set (AList.update k v kvs) = insert k (fst ` set kvs)"
  by (auto simp: update_conv' simp flip: dom_map_of_conv_image_fst)

end
