(* ===== verification/Store2.thy ===== *)
theory Store2
  imports Ledger2 Effects
begin

text \<open>
  The durable store of the condition model (\<^verbatim>\<open>src/v2/state_store.cpp\<close>): the model state, the identity ledger,
  a journal of the transaction in progress and an outbox with one directory per assessment. A
  directory is an association list from file names to contents. Every effect on the disk counts one
  tick. At each tick the effect may fail, before it is done, after it is done or, for the removal of a
  directory, midway; or the process may end there. After its end (\<open>halted\<close>) nothing the code still does
  reaches the disk, until the next start. The temporary files of \<open>atomic_write\<close> are not represented: a
  write replaces the file at its \<open>rename\<close>, and a start removes what a lost write left behind. Every entry
  of the disk is a regular file or a directory of the service itself: the checks of type and mode that
  \<open>read_bounded\<close> and the scans make of others are not represented. The three directories are created in one
  effect: a start that fails at one of them leaves the store not ready, and the next start creates the rest.
\<close>

section \<open>Data\<close>

record StateStore =
  state_files :: dir
  state_dirs :: "(string \<times> dir) list"
  transactions :: "(string \<times> dir) list"
  outbox :: "(string \<times> dir) list"
  store_epoch :: string
  store_counter :: nat
  store_ready :: bool
  halted :: bool
  ticks :: nat

type_synonym 'a store_op = "(StateStore, 'a) op"

datatype moment = Before | After | Midway nat

datatype interruption = Through | Fails moment | Ends moment

type_synonym interruptions = "nat \<Rightarrow> interruption"

text \<open>A directory of the store, relative to its two roots.\<close>

datatype place = StateRoot | StateDir string | Transaction string | Bundle string

fun files_at :: "place \<Rightarrow> StateStore \<Rightarrow> dir option" where
  "files_at StateRoot s = Some (state_files s)"
| "files_at (StateDir n) s = map_of (state_dirs s) n"
| "files_at (Transaction n) s = map_of (transactions s) n"
| "files_at (Bundle n) s = map_of (outbox s) n"

fun put_files :: "place \<Rightarrow> dir \<Rightarrow> StateStore \<Rightarrow> StateStore" where
  "put_files StateRoot d s = s\<lparr>state_files := d\<rparr>"
| "put_files (StateDir n) d s = s\<lparr>state_dirs := AList.update n d (state_dirs s)\<rparr>"
| "put_files (Transaction n) d s = s\<lparr>transactions := AList.update n d (transactions s)\<rparr>"
| "put_files (Bundle n) d s = s\<lparr>outbox := AList.update n d (outbox s)\<rparr>"

fun drop_files :: "place \<Rightarrow> StateStore \<Rightarrow> StateStore" where
  "drop_files StateRoot s = s\<lparr>state_files := []\<rparr>"
| "drop_files (StateDir n) s = s\<lparr>state_dirs := AList.delete n (state_dirs s)\<rparr>"
| "drop_files (Transaction n) s = s\<lparr>transactions := AList.delete n (transactions s)\<rparr>"
| "drop_files (Bundle n) s = s\<lparr>outbox := AList.delete n (outbox s)\<rparr>"

definition file_at :: "place \<Rightarrow> string \<Rightarrow> StateStore \<Rightarrow> string option" where
  "file_at p name s = (case files_at p s of None \<Rightarrow> None | Some d \<Rightarrow> map_of d name)"

datatype ProcessStatus = Produced | Duplicate | SkippedInputQuality | DerivedOutboxFull | NotReadyState

record ProcessResult =
  process_status :: ProcessStatus
  process_skip_reason :: "SkipReason option"
  process_assessment_id :: "string option"
  event_created :: bool

section \<open>Effects on the disk\<close>

definition disk_effect :: "interruptions \<Rightarrow> string \<Rightarrow> (StateStore \<Rightarrow> StateStore) \<Rightarrow> (nat \<Rightarrow> StateStore \<Rightarrow> StateStore) \<Rightarrow> unit store_op" where
  "disk_effect flt what f part s =
     (if halted s then (Inl (Runtime_error what), s)
      else
        (let s1 = s\<lparr>ticks := ticks s + 1\<rparr>;
             left = (\<lambda>m. case m of Before \<Rightarrow> s1 | After \<Rightarrow> f s1 | Midway k \<Rightarrow> part k s1)
         in case flt (ticks s) of
              Through \<Rightarrow> (Inr (), f s1)
            | Fails m \<Rightarrow> (Inl (Runtime_error what), left m)
            | Ends m \<Rightarrow> (Inl (Runtime_error what), (left m)\<lparr>halted := True\<rparr>)))"

definition store_sync :: "interruptions \<Rightarrow> unit store_op" where
  "store_sync flt = disk_effect flt ''synchronize directory'' id (\<lambda>_. id)"

definition fail_if_requested :: "interruptions \<Rightarrow> unit store_op" where
  "fail_if_requested flt = disk_effect flt ''injected v2 persistence interruption'' id (\<lambda>_. id)"

definition ensure_files :: "place \<Rightarrow> StateStore \<Rightarrow> StateStore" where
  "ensure_files p s = (if files_at p s = None then put_files p [] s else s)"

definition make_private_directory :: "interruptions \<Rightarrow> place \<Rightarrow> unit store_op" where
  "make_private_directory flt p = disk_effect flt ''set private directory mode'' (ensure_files p) (\<lambda>_. id)"

definition write_file :: "place \<Rightarrow> string \<Rightarrow> string \<Rightarrow> StateStore \<Rightarrow> StateStore" where
  "write_file p name bytes s =
     put_files p (AList.update name bytes (case files_at p s of None \<Rightarrow> [] | Some d \<Rightarrow> d)) s"

definition next_counter :: "nat store_op" where
  "next_counter s = (Inr (store_counter s), s\<lparr>store_counter := store_counter s + 1\<rparr>)"

definition store_write :: "interruptions \<Rightarrow> place \<Rightarrow> string \<Rightarrow> string \<Rightarrow> unit store_op" where
  "store_write flt p name bytes =
     bindS (make_private_directory flt p) (\<lambda>_.
     bindS next_counter (\<lambda>_.
       disk_effect flt ''atomically replace persistent file'' (write_file p name bytes) (\<lambda>_. id)))"

text \<open>\<open>rename\<close> of a directory: the target may exist only if it is empty.\<close>

definition move_files :: "place \<Rightarrow> place \<Rightarrow> dir \<Rightarrow> StateStore \<Rightarrow> StateStore" where
  "move_files from_place to_place d s = put_files to_place d (drop_files from_place s)"

definition rename_directory :: "interruptions \<Rightarrow> string \<Rightarrow> place \<Rightarrow> place \<Rightarrow> unit store_op" where
  "rename_directory flt what from_place to_place s =
     (case files_at from_place s of
        None \<Rightarrow> (Inl (Runtime_error what), s)
      | Some d \<Rightarrow>
          if (case files_at to_place s of None \<Rightarrow> False | Some t \<Rightarrow> t \<noteq> []) then (Inl (Runtime_error what), s)
          else disk_effect flt what (move_files from_place to_place d) (\<lambda>_. id) s)"

definition remove_part :: "place \<Rightarrow> nat \<Rightarrow> StateStore \<Rightarrow> StateStore" where
  "remove_part p k s = (case files_at p s of None \<Rightarrow> s | Some d \<Rightarrow> put_files p (drop k d) s)"

definition remove_directory :: "interruptions \<Rightarrow> place \<Rightarrow> unit store_op" where
  "remove_directory flt p = disk_effect flt ''remove_all'' (drop_files p) (remove_part p)"

definition remove_file :: "interruptions \<Rightarrow> place \<Rightarrow> string \<Rightarrow> unit store_op" where
  "remove_file flt p name =
     disk_effect flt ''remove''
       (\<lambda>s. case files_at p s of None \<Rightarrow> s | Some d \<Rightarrow> put_files p (AList.delete name d) s) (\<lambda>_. id)"

definition read_bounded :: "nat \<Rightarrow> place \<Rightarrow> string \<Rightarrow> StateStore \<Rightarrow> string result" where
  "read_bounded maximum p name s =
     (case file_at p name s of
        None \<Rightarrow> Inl (Runtime_error ''required persistent file is absent'')
      | Some bytes \<Rightarrow>
          if length bytes > maximum then Inl (Runtime_error ''persistent file exceeds its bound'') else Inr bytes)"

abbreviation read_state_file where "read_state_file \<equiv> read_bounded kMaximumStateBytes"
abbreviation read_message_file where "read_message_file \<equiv> read_bounded 16384"

definition set_ready :: "bool \<Rightarrow> unit store_op" where
  "set_ready b s = (Inr (), s\<lparr>store_ready := b\<rparr>)"

text \<open>\<open>catch (...) { h; throw; }\<close> and \<open>catch (const std::invalid_argument&) { h }\<close>.\<close>

definition onErrorS :: "('s, 'a) op \<Rightarrow> ('s, unit) op \<Rightarrow> ('s, 'a) op" where
  "onErrorS m h s = (case m s of (Inl e, s') \<Rightarrow> (Inl e, snd (h s')) | (Inr x, s') \<Rightarrow> (Inr x, s'))"

definition catchArgumentS :: "('s, 'a) op \<Rightarrow> ('s, 'a) op \<Rightarrow> ('s, 'a) op" where
  "catchArgumentS m h s = (case m s of (Inl (Invalid_argument e), s') \<Rightarrow> h s' | r \<Rightarrow> r)"

definition dot_name :: "string \<Rightarrow> bool" where
  "dot_name name \<longleftrightarrow> name \<noteq> [] \<and> hd name = CHR ''.''"

definition live_names :: "(string \<times> dir) list \<Rightarrow> string list" where
  "live_names ds = filter (\<lambda>n. \<not> dot_name n) (map fst ds)"

section \<open>The current state\<close>

definition store_ledger :: "ModelState \<Rightarrow> StateStore \<Rightarrow> IdentityLedger result" where
  "store_ledger st s =
     bindE (read_state_file StateRoot ''identity-ledger.json'' s) (\<lambda>bytes.
     bindE (parse_identity_ledger bytes) (\<lambda>l.
     bindE (state_json st) (\<lambda>text.
     bindE (validate_identity_ledger l st text) (\<lambda>_. Inr l))))"

definition store_state :: "StateStore \<Rightarrow> ModelState result" where
  "store_state s =
     bindE (read_state_file StateRoot ''state.json'' s) (\<lambda>bytes.
     bindE (parse_state_json bytes) (\<lambda>st.
     bindE (store_ledger st s) (\<lambda>_. Inr st)))"

section \<open>The outbox\<close>

definition append_entry :: "message_kind \<Rightarrow> string \<Rightarrow> string \<Rightarrow> bool \<Rightarrow> OutboxEntry list \<Rightarrow> OutboxEntry list result" where
  "append_entry k manifest encoded quarantined acc =
     bindE (verified_outbox_message k manifest encoded quarantined) (\<lambda>v.
       (case find (\<lambda>e. out_id e = out_id v) acc of
          Some e \<Rightarrow>
            if out_content_sha256 e \<noteq> out_content_sha256 v \<or> out_idempotency_key_sha256 e \<noteq> out_idempotency_key_sha256 v \<or>
               out_message_sha256 e \<noteq> out_message_sha256 v
            then Inl (Runtime_error ''same outbox identity has incompatible committed digests'')
            else Inl (Runtime_error ''duplicate committed outbox identity'')
        | None \<Rightarrow>
            (let result = acc @ [v]
             in if length result > kMaximumMessages \<or> sum_list (map (length \<circ> out_json) result) > kMaximumOutboxBytes
                then Inl (Runtime_error ''persisted outbox exceeds its accepted bounds'')
                else Inr result)))"

definition append_file :: "message_kind \<Rightarrow> string \<Rightarrow> string \<Rightarrow> string \<Rightarrow> bool \<Rightarrow> StateStore \<Rightarrow> OutboxEntry list \<Rightarrow> OutboxEntry list result" where
  "append_file k name b manifest quarantined s acc =
     (if file_at (Bundle b) name s = None then Inr acc
      else bindE (read_message_file (Bundle b) name s) (\<lambda>encoded. append_entry k manifest encoded quarantined acc))"

definition bundle_file_names :: "string list" where
  "bundle_file_names = [''assessment.json'', ''event.json'', ''manifest.json'', ''assessment.ack'', ''event.ack'', ''QUARANTINED'']"

definition verify_bundle :: "string \<Rightarrow> OutboxEntry list \<Rightarrow> StateStore \<Rightarrow> OutboxEntry list result" where
  "verify_bundle b acc s =
     bindE (throwIf (\<not> list_all (\<lambda>(name, bytes). name \<in> set bundle_file_names)
                       (case files_at (Bundle b) s of None \<Rightarrow> [] | Some d \<Rightarrow> d))
              (Runtime_error ''unknown outbox bundle file'')) (\<lambda>_.
     bindE (read_state_file (Bundle b) ''manifest.json'' s) (\<lambda>manifest.
     bindE (string_value manifest ''assessmentId'') (\<lambda>i.
     bindE (throwIf (b \<noteq> i) (Runtime_error ''outbox bundle directory identity mismatch'')) (\<lambda>_.
     bindE (string_value manifest ''disposition'') (\<lambda>disposition.
     bindE (throwIf (disposition \<noteq> ''ADMIT'') (Runtime_error ''outbox bundle does not have an admitted disposition'')) (\<lambda>_.
     bindE (event_fields manifest) (\<lambda>event.
       (let quarantined = (file_at (Bundle b) ''QUARANTINED'' s \<noteq> None)
        in bindE (append_file AssessmentKind ''assessment.json'' b manifest quarantined s acc) (\<lambda>acc1.
           if field_id event \<noteq> None then append_file EventKind ''event.json'' b manifest quarantined s acc1
           else if file_at (Bundle b) ''event.json'' s \<noteq> None
           then Inl (Runtime_error ''unexpected event in assessment-only bundle'')
           else Inr acc1)))))))))"

definition quarantine_bundle :: "interruptions \<Rightarrow> string \<Rightarrow> unit store_op" where
  "quarantine_bundle flt b = catchS (store_write flt (Bundle b) ''QUARANTINED'' (''NOT_READY_STATE'' @ [byte 10])) (returnS ())"

fun inventory_loop :: "interruptions \<Rightarrow> string list \<Rightarrow> OutboxEntry list \<Rightarrow> OutboxEntry list store_op" where
  "inventory_loop flt [] acc = returnS acc"
| "inventory_loop flt (b # bs) acc =
     bindS (onErrorS (readS (verify_bundle b acc)) (quarantine_bundle flt b)) (inventory_loop flt bs)"

definition inventory_verified :: "interruptions \<Rightarrow> OutboxEntry list store_op" where
  "inventory_verified flt =
     bindS (readS (\<lambda>s. Inr (live_names (outbox s)))) (\<lambda>names.
     bindS (inventory_loop flt names []) (\<lambda>entries. returnS (sort_key out_id entries)))"

definition store_inventory :: "interruptions \<Rightarrow> OutboxEntry list store_op" where
  "store_inventory flt =
     bindS (readS (\<lambda>s. Inr (store_ready s))) (\<lambda>ready.
       if \<not> ready then returnS []
       else catchS (inventory_verified flt) (bindS (set_ready False) (\<lambda>_. returnS [])))"

section \<open>A transaction\<close>

definition committed_mark :: string where "committed_mark = ''COMMITTED'' @ [byte 10]"

definition event_text_of :: "DerivedMessages \<Rightarrow> string option" where
  "event_text_of ms = map_option derived_json (derived_event ms)"

definition persist_messages :: "interruptions \<Rightarrow> place \<Rightarrow> string \<Rightarrow> string option \<Rightarrow> unit store_op" where
  "persist_messages flt p assessment_text event_text =
     bindS (store_write flt p ''assessment.json'' assessment_text) (\<lambda>_.
       case event_text of None \<Rightarrow> returnS () | Some e \<Rightarrow> store_write flt p ''event.json'' e)"

definition write_journal ::
  "interruptions \<Rightarrow> string \<Rightarrow> string \<Rightarrow> string \<Rightarrow> string \<Rightarrow> DerivedMessages \<Rightarrow> string result \<Rightarrow> unit store_op" where
  "write_journal flt before_bytes after_bytes before_ids after_ids ms manifest =
     (let j = derived_id (derived_assessment ms)
      in bindS (readS (\<lambda>s. throwIf (files_at (Transaction j) s \<noteq> None)
                  (Runtime_error ''assessment transaction already exists''))) (\<lambda>_.
         bindS next_counter (\<lambda>n.
         (let staging = Transaction (''.staging-'' @ j @ ''-'' @ to_string n)
          in bindS (make_private_directory flt staging) (\<lambda>_.
             bindS (store_write flt staging ''before.json'' before_bytes) (\<lambda>_.
             bindS (store_write flt staging ''after.json'' after_bytes) (\<lambda>_.
             bindS (store_write flt staging ''before-identities.json'' before_ids) (\<lambda>_.
             bindS (store_write flt staging ''after-identities.json'' after_ids) (\<lambda>_.
             bindS (persist_messages flt staging (derived_json (derived_assessment ms)) (event_text_of ms)) (\<lambda>_.
             bindS (liftS manifest) (\<lambda>mf.
             bindS (store_write flt staging ''manifest.json'' mf) (\<lambda>_.
             bindS (store_sync flt) (\<lambda>_.
             bindS (fail_if_requested flt) (\<lambda>_.
             bindS (rename_directory flt ''publish immutable transaction journal'' staging (Transaction j)) (\<lambda>_.
             bindS (store_sync flt) (\<lambda>_.
               fail_if_requested flt))))))))))))))))"

text \<open>
  A bundle is written aside and published by one \<open>rename\<close>, by the transaction and by the recovery; only
  the transaction consults the fault injector.
\<close>

definition publish_bundle ::
  "interruptions \<Rightarrow> bool \<Rightarrow> string \<Rightarrow> string \<Rightarrow> string \<Rightarrow> string \<Rightarrow> string option \<Rightarrow> string \<Rightarrow> unit store_op" where
  "publish_bundle flt injector prefix what b assessment_text event_text mf =
     (let inject = (if injector then fail_if_requested flt else returnS ())
      in bindS next_counter (\<lambda>n.
         (let staging = Bundle (prefix @ b @ ''-'' @ to_string n)
          in bindS (make_private_directory flt staging) (\<lambda>_.
             bindS (persist_messages flt staging assessment_text event_text) (\<lambda>_.
             bindS (store_write flt staging ''manifest.json'' mf) (\<lambda>_.
             bindS (store_sync flt) (\<lambda>_.
             bindS inject (\<lambda>_.
             bindS (rename_directory flt what staging (Bundle b)) (\<lambda>_.
             bindS (store_sync flt) (\<lambda>_. inject)))))))))) "

text \<open>The comparison of every file before the journal is removed, in the order of the source.\<close>

definition differs :: "nat \<Rightarrow> place \<Rightarrow> string \<Rightarrow> string \<Rightarrow> StateStore \<Rightarrow> bool result" where
  "differs maximum p name bytes s = bindE (read_bounded maximum p name s) (\<lambda>b. Inr (b \<noteq> bytes))"

fun anyE :: "bool result list \<Rightarrow> bool result" where
  "anyE [] = Inr False"
| "anyE (r # rs) = bindE r (\<lambda>b. if b then Inr True else anyE rs)"

definition journal_changed :: "string \<Rightarrow> string \<Rightarrow> string \<Rightarrow> string \<Rightarrow> string \<Rightarrow> string \<Rightarrow> string \<Rightarrow> StateStore \<Rightarrow> bool result" where
  "journal_changed j before_bytes after_bytes before_ids after_ids assessment_json_text mf s =
     anyE [differs kMaximumStateBytes (Transaction j) ''before.json'' before_bytes s,
           differs kMaximumStateBytes (Transaction j) ''after.json'' after_bytes s,
           differs kMaximumStateBytes (Transaction j) ''before-identities.json'' before_ids s,
           differs kMaximumStateBytes (Transaction j) ''after-identities.json'' after_ids s,
           differs 16384 (Transaction j) ''assessment.json'' assessment_json_text s,
           differs kMaximumStateBytes (Transaction j) ''manifest.json'' mf s,
           differs kMaximumStateBytes (Transaction j) ''committed'' committed_mark s,
           differs kMaximumStateBytes StateRoot ''state.json'' after_bytes s,
           differs kMaximumStateBytes StateRoot ''identity-ledger.json'' after_ids s]"

definition bundle_changed :: "string \<Rightarrow> string \<Rightarrow> string option \<Rightarrow> string \<Rightarrow> StateStore \<Rightarrow> bool result" where
  "bundle_changed b assessment_json_text event_text mf s =
     anyE ([differs kMaximumStateBytes (Bundle b) ''manifest.json'' mf s,
            differs 16384 (Bundle b) ''assessment.json'' assessment_json_text s] @
           (case event_text of None \<Rightarrow> [] | Some e \<Rightarrow> [differs 16384 (Bundle b) ''event.json'' e s]))"

definition check_bundle :: "bool \<Rightarrow> string \<Rightarrow> string \<Rightarrow> string option \<Rightarrow> string \<Rightarrow> StateStore \<Rightarrow> unit result" where
  "check_bundle admit b assessment_json_text event_text mf s =
     (if admit
      then bindE (bundle_changed b assessment_json_text event_text mf s) (\<lambda>c.
             throwIf c (Runtime_error ''admitted bundle changed before journal removal''))
      else throwIf (files_at (Bundle b) s \<noteq> None)
             (Runtime_error ''overflow disposition unexpectedly published a bundle''))"

definition check_journal_event :: "string \<Rightarrow> string option \<Rightarrow> StateStore \<Rightarrow> unit result" where
  "check_journal_event j event_text s =
     (case event_text of
        Some e \<Rightarrow> bindE (differs 16384 (Transaction j) ''event.json'' e s) (\<lambda>c.
          throwIf c (Runtime_error ''transaction event changed before journal removal''))
      | None \<Rightarrow> throwIf (file_at (Transaction j) ''event.json'' s \<noteq> None)
          (Runtime_error ''unexpected transaction event before journal removal''))"

definition persist_transaction ::
  "interruptions \<Rightarrow> ModelState \<Rightarrow> ModelState \<Rightarrow> IdentityLedger \<Rightarrow> IdentityLedger \<Rightarrow> DerivedMessages \<Rightarrow> bool \<Rightarrow> unit store_op" where
  "persist_transaction flt before after before_identities after_identities ms admit =
     (let before_ids = identity_ledger_json before_identities; after_ids = identity_ledger_json after_identities;
          j = derived_id (derived_assessment ms);
          manifest = manifest_json before after before_ids after_ids ms admit
      in bindS (liftS (state_json before)) (\<lambda>before_bytes.
         bindS (liftS (state_json after)) (\<lambda>after_bytes.
         bindS (write_journal flt before_bytes after_bytes before_ids after_ids ms manifest) (\<lambda>_.
         bindS (store_write flt StateRoot ''state.json'' after_bytes) (\<lambda>_.
         bindS (fail_if_requested flt) (\<lambda>_.
         bindS (store_write flt StateRoot ''identity-ledger.json'' after_ids) (\<lambda>_.
         bindS (fail_if_requested flt) (\<lambda>_.
         bindS (liftS manifest) (\<lambda>mf.
         bindS (if admit then publish_bundle flt True ''.staging-'' ''publish atomic derived-message bundle'' j
                            (derived_json (derived_assessment ms)) (event_text_of ms) mf else returnS ()) (\<lambda>_.
         bindS (store_write flt (Transaction j) ''committed'' committed_mark) (\<lambda>_.
         bindS (fail_if_requested flt) (\<lambda>_.
         bindS (readS (journal_changed j before_bytes after_bytes before_ids after_ids (derived_json (derived_assessment ms)) mf)) (\<lambda>changed.
         bindS (checkS changed (Runtime_error ''transaction changed before journal removal'')) (\<lambda>_.
         bindS (readS (check_journal_event j (event_text_of ms))) (\<lambda>_.
         bindS (readS (check_bundle admit j (derived_json (derived_assessment ms)) (event_text_of ms) mf)) (\<lambda>_.
         bindS (fail_if_requested flt) (\<lambda>_.
         bindS (remove_directory flt (Transaction j)) (\<lambda>_.
           store_sync flt))))))))))))))))))"

section \<open>Processing an episode\<close>

definition process_result :: "ProcessStatus \<Rightarrow> SkipReason option \<Rightarrow> string option \<Rightarrow> bool \<Rightarrow> ProcessResult" where
  "process_result status reason ident created =
     \<lparr>process_status = status, process_skip_reason = reason, process_assessment_id = ident, event_created = created\<rparr>"

definition not_ready :: "ProcessResult store_op" where
  "not_ready = bindS (set_ready False) (\<lambda>_. returnS (process_result NotReadyState None None False))"

text \<open>The last 64 entries of a ledger after one more.\<close>

definition push_bounded :: "'a \<Rightarrow> 'a list \<Rightarrow> 'a list" where
  "push_bounded x xs = (let ys = xs @ [x] in if length ys > 64 then tl ys else ys)"

definition next_model_state :: "ModelState \<Rightarrow> string \<Rightarrow> string \<Rightarrow> ModelState" where
  "next_model_state evaluated source_event ident =
     evaluated\<lparr>model_config_sha256 := kModelConfigSha256, last_applied_source_event_id := Some source_event,
       last_assessment_id := Some ident,
       recent_source_event_ids := push_bounded source_event (recent_source_event_ids evaluated)\<rparr>"

definition next_ledger :: "IdentityLedger \<Rightarrow> ModelState \<Rightarrow> string \<Rightarrow> string \<Rightarrow> string \<Rightarrow> IdentityLedger" where
  "next_ledger l after after_bytes source_event ident =
     l\<lparr>ledger_generation := generation after,
       ledger_entries := push_bounded \<lparr>bound_source_event_id = source_event, bound_assessment_id = ident\<rparr> (ledger_entries l),
       ledger_state_sha256 := sha256_hex after_bytes\<rparr>"

definition duplicate_result :: "ModelState \<Rightarrow> IdentityLedger \<Rightarrow> OutboxEntry list \<Rightarrow> string \<Rightarrow> ProcessResult store_op" where
  "duplicate_result before ledger current source_event =
     (let index = length (takeWhile (\<lambda>i. i \<noteq> source_event) (recent_source_event_ids before))
      in if index \<ge> length (ledger_entries ledger) then throwS (Out_of_range ''vector::at'')
         else
           (let committed_id = bound_assessment_id (ledger_entries ledger ! index);
                ids = remdups (map out_assessment_id (filter (\<lambda>e. out_source_event_id e = source_event) current))
            in if length ids > 1 \<or> (ids \<noteq> [] \<and> hd ids \<noteq> committed_id) then not_ready
               else returnS (process_result Duplicate None (Some committed_id) False)))"

definition admitted :: "OutboxEntry list \<Rightarrow> nat \<Rightarrow> nat \<Rightarrow> DerivedMessages \<Rightarrow> bool" where
  "admitted current other_count other_bytes ms \<longleftrightarrow>
     other_count \<le> 64 \<and> other_bytes \<le> 1048576 \<and>
     derived_outbox_admissible (length current + other_count) (sum_list (map (length \<circ> out_json) current) + other_bytes)
       (derived_count ms) (derived_bytes ms)"

definition accept_assessment ::
  "interruptions \<Rightarrow> ModelState \<Rightarrow> IdentityLedger \<Rightarrow> OutboxEntry list \<Rightarrow> CompletedEpisode \<Rightarrow> DeploymentMetadata \<Rightarrow>
   ModelState \<Rightarrow> Assessment \<Rightarrow> nat \<Rightarrow> nat \<Rightarrow> ProcessResult store_op" where
  "accept_assessment flt before ledger current ep md evaluated a other_count other_bytes =
     bindS (liftS (v2_build_messages md ep a)) (\<lambda>ms.
       (let ident = derived_id (derived_assessment ms); after = next_model_state evaluated (source_event_id ep) ident
        in bindS (liftS (state_json after)) (\<lambda>after_bytes.
           (let after_ledger = next_ledger ledger after after_bytes (source_event_id ep) ident
            in bindS (liftS (validate_identity_ledger after_ledger after after_bytes)) (\<lambda>_.
               (let admit = admitted current other_count other_bytes ms
                in bindS (onErrorS (persist_transaction flt before after ledger after_ledger ms admit) (set_ready False)) (\<lambda>_.
                     returnS (process_result (if admit then Produced else DerivedOutboxFull) None (Some ident)
                       (admit \<and> derived_event ms \<noteq> None))))))))) "

definition process_episode ::
  "interruptions \<Rightarrow> CompletedEpisode \<Rightarrow> DeploymentMetadata \<Rightarrow> nat \<Rightarrow> nat \<Rightarrow> ProcessResult store_op" where
  "process_episode flt ep md other_count other_bytes =
     bindS (readS (\<lambda>s. Inr (store_ready s))) (\<lambda>ready.
       if \<not> ready then returnS (process_result NotReadyState None None False)
       else catchArgumentS
         (bindS (readS store_state) (\<lambda>before.
          bindS (readS (store_ledger before)) (\<lambda>ledger.
          bindS (store_inventory flt) (\<lambda>current.
          bindS (readS (\<lambda>s. Inr (store_ready s))) (\<lambda>still_ready.
            if \<not> still_ready then returnS (process_result NotReadyState None None False)
            else if source_event_id ep \<in> set (recent_source_event_ids before)
            then duplicate_result before ledger current (source_event_id ep)
            else
              bindS (liftS (evaluate ep before)) (\<lambda>ev.
                case skip_reason ev of
                  Some reason \<Rightarrow> returnS (process_result SkippedInputQuality (Some reason) None False)
                | None \<Rightarrow>
                    (case assessment ev of
                       None \<Rightarrow> not_ready
                     | Some a \<Rightarrow> accept_assessment flt before ledger current ep md (next_state ev) a other_count other_bytes)))))))
         not_ready)"

section \<open>Recovery\<close>

record Journal =
  jr_before :: string
  jr_after :: string
  jr_before_ids :: string
  jr_after_ids :: string
  jr_manifest :: string
  jr_assessment :: string
  jr_event :: "string option"
  jr_event_sha256 :: "string option"
  jr_disposition :: string

definition journal_file_names :: "string list" where
  "journal_file_names = [''before.json'', ''after.json'', ''before-identities.json'', ''after-identities.json'', ''assessment.json'',
     ''event.json'', ''manifest.json'', ''committed'', ''QUARANTINED'']"

definition digest_mismatch :: "string \<Rightarrow> string \<Rightarrow> string \<Rightarrow> bool result" where
  "digest_mismatch bytes manifest key = bindE (string_value manifest key) (\<lambda>d. Inr (sha256_hex bytes \<noteq> d))"

definition read_journal_states :: "string \<Rightarrow> StateStore \<Rightarrow> (string \<times> string \<times> string \<times> string) result" where
  "read_journal_states j s =
     bindE (read_state_file (Transaction j) ''before.json'' s) (\<lambda>before.
     bindE (read_state_file (Transaction j) ''after.json'' s) (\<lambda>after.
     bindE (parse_state_json before) (\<lambda>before_state.
     bindE (parse_state_json after) (\<lambda>after_state.
     bindE (read_state_file (Transaction j) ''before-identities.json'' s) (\<lambda>before_ids.
     bindE (read_state_file (Transaction j) ''after-identities.json'' s) (\<lambda>after_ids.
     bindE (parse_identity_ledger before_ids) (\<lambda>before_ledger.
     bindE (parse_identity_ledger after_ids) (\<lambda>after_ledger.
     bindE (validate_identity_ledger before_ledger before_state before) (\<lambda>_.
     bindE (validate_identity_ledger after_ledger after_state after) (\<lambda>_.
       Inr (before, after, before_ids, after_ids)))))))))))"

definition read_journal_event :: "string \<Rightarrow> string \<Rightarrow> OptionalEventFields \<Rightarrow> StateStore \<Rightarrow> string option result" where
  "read_journal_event j manifest event s =
     (case field_id event of
        Some _ \<Rightarrow>
          bindE (read_message_file (Transaction j) ''event.json'' s) (\<lambda>e.
          bindE (throwIf (Some (sha256_hex e) \<noteq> field_message_sha256 event) (Runtime_error ''journal event digest mismatch'')) (\<lambda>_.
          bindE (verified_outbox_message EventKind manifest e False) (\<lambda>_. Inr (Some e))))
      | None \<Rightarrow>
          if file_at (Transaction j) ''event.json'' s \<noteq> None then Inl (Runtime_error ''unexpected journal event'') else Inr None)"

definition read_journal :: "string \<Rightarrow> StateStore \<Rightarrow> Journal result" where
  "read_journal j s =
     bindE (throwIf (\<not> list_all (\<lambda>(name, bytes). name \<in> set journal_file_names)
                       (case files_at (Transaction j) s of None \<Rightarrow> [] | Some d \<Rightarrow> d))
              (Runtime_error ''unknown transaction journal file'')) (\<lambda>_.
     bindE (read_journal_states j s) (\<lambda>(before, after, before_ids, after_ids).
     bindE (read_state_file (Transaction j) ''manifest.json'' s) (\<lambda>manifest.
     bindE (anyE [digest_mismatch before manifest ''beforeSha256'', digest_mismatch after manifest ''afterSha256'',
                  digest_mismatch before_ids manifest ''beforeIdentityLedgerSha256'',
                  digest_mismatch after_ids manifest ''afterIdentityLedgerSha256'']) (\<lambda>bad.
     bindE (throwIf bad (Runtime_error ''journal state digest mismatch'')) (\<lambda>_.
     bindE (read_message_file (Transaction j) ''assessment.json'' s) (\<lambda>a.
     bindE (digest_mismatch a manifest ''assessmentMessageSha256'') (\<lambda>bad_assessment.
     bindE (throwIf bad_assessment (Runtime_error ''journal assessment digest mismatch'')) (\<lambda>_.
     bindE (verified_outbox_message AssessmentKind manifest a False) (\<lambda>_.
     bindE (event_fields manifest) (\<lambda>event.
     bindE (read_journal_event j manifest event s) (\<lambda>e.
     bindE (string_value manifest ''disposition'') (\<lambda>disposition.
     bindE (throwIf (disposition \<noteq> ''ADMIT'' \<and> disposition \<noteq> ''OVERFLOW_NOT_ENQUEUED'')
              (Runtime_error ''unknown transaction disposition'')) (\<lambda>_.
       Inr \<lparr>jr_before = before, jr_after = after, jr_before_ids = before_ids, jr_after_ids = after_ids,
            jr_manifest = manifest, jr_assessment = a, jr_event = e, jr_event_sha256 = field_message_sha256 event,
            jr_disposition = disposition\<rparr>)))))))))))))"

text \<open>One of the two current files is brought to the journal's new text.\<close>

definition advance_file :: "interruptions \<Rightarrow> string \<Rightarrow> string \<Rightarrow> string \<Rightarrow> string \<Rightarrow> string \<Rightarrow> unit store_op" where
  "advance_file flt name current old new what =
     (if current = old then store_write flt StateRoot name new
      else if current \<noteq> new then throwS (Runtime_error what) else returnS ())"

definition verify_message :: "place \<Rightarrow> string \<Rightarrow> string option \<Rightarrow> StateStore \<Rightarrow> unit result" where
  "verify_message p name expected s =
     bindE (read_message_file p name s) (\<lambda>bytes.
       throwIf (Some (sha256_hex bytes) \<noteq> expected) (Runtime_error ''outbox message digest mismatch''))"

definition verify_recovered_bundle :: "string \<Rightarrow> Journal \<Rightarrow> StateStore \<Rightarrow> unit result" where
  "verify_recovered_bundle b jr s =
     bindE (differs kMaximumStateBytes (Bundle b) ''manifest.json'' (jr_manifest jr) s) (\<lambda>c.
     bindE (throwIf c (Runtime_error ''outbox bundle manifest conflicts with journal'')) (\<lambda>_.
     bindE (string_value (jr_manifest jr) ''assessmentMessageSha256'') (\<lambda>sha.
     bindE (verify_message (Bundle b) ''assessment.json'' (Some sha) s) (\<lambda>_.
       case jr_event jr of
         Some e \<Rightarrow> verify_message (Bundle b) ''event.json'' (jr_event_sha256 jr) s
       | None \<Rightarrow> throwIf (file_at (Bundle b) ''event.json'' s \<noteq> None)
           (Runtime_error ''unexpected event in recovered assessment-only bundle'')))))"

definition recover_bundle :: "interruptions \<Rightarrow> Journal \<Rightarrow> unit store_op" where
  "recover_bundle flt jr =
     bindS (liftS (string_value (jr_manifest jr) ''assessmentId'')) (\<lambda>b.
     bindS (readS (\<lambda>s. Inr (files_at (Bundle b) s = None))) (\<lambda>absent.
     bindS (if absent
            then publish_bundle flt False ''.recovery-'' ''recover atomic derived-message bundle'' b (jr_assessment jr) (jr_event jr) (jr_manifest jr)
            else returnS ()) (\<lambda>_.
       readS (verify_recovered_bundle b jr))))"

definition apply_journal :: "interruptions \<Rightarrow> string \<Rightarrow> Journal \<Rightarrow> unit store_op" where
  "apply_journal flt j jr =
     bindS (readS (read_state_file StateRoot ''state.json'')) (\<lambda>current.
     bindS (readS (read_state_file StateRoot ''identity-ledger.json'')) (\<lambda>current_ids.
     bindS (advance_file flt ''state.json'' current (jr_before jr) (jr_after jr) ''journal generation or state conflict'') (\<lambda>_.
     bindS (advance_file flt ''identity-ledger.json'' current_ids (jr_before_ids jr) (jr_after_ids jr) ''journal identity-ledger conflict'') (\<lambda>_.
     bindS (if jr_disposition jr = ''ADMIT'' then recover_bundle flt jr else returnS ()) (\<lambda>_.
     bindS (readS (\<lambda>s. Inr (file_at (Transaction j) ''committed'' s = None))) (\<lambda>uncommitted.
     bindS (if uncommitted then store_write flt (Transaction j) ''committed'' committed_mark else returnS ()) (\<lambda>_.
     bindS (readS (journal_changed j (jr_before jr) (jr_after jr) (jr_before_ids jr) (jr_after_ids jr) (jr_assessment jr) (jr_manifest jr))) (\<lambda>changed.
     bindS (checkS changed (Runtime_error ''recovered transaction changed before journal removal'')) (\<lambda>_.
     bindS (liftS (string_value (jr_manifest jr) ''assessmentId'')) (\<lambda>b.
     bindS (readS (check_bundle (jr_disposition jr = ''ADMIT'') b (jr_assessment jr) (jr_event jr) (jr_manifest jr))) (\<lambda>_.
     bindS (remove_directory flt (Transaction j)) (\<lambda>_.
       store_sync flt))))))))))))"

text \<open>Whether the loop over the journals goes on.\<close>

definition recover_journal :: "interruptions \<Rightarrow> string \<Rightarrow> bool store_op" where
  "recover_journal flt j =
     bindS (readS (\<lambda>s. Inr (file_at (Transaction j) ''QUARANTINED'' s \<noteq> None))) (\<lambda>quarantined.
       if quarantined then bindS (set_ready False) (\<lambda>_. returnS False)
       else catchS
         (bindS (readS (read_journal j)) (\<lambda>jr. bindS (apply_journal flt j jr) (\<lambda>_. returnS True)))
         (bindS (catchS (store_write flt (Transaction j) ''QUARANTINED'' (''NOT_READY_STATE'' @ [byte 10])) (returnS ())) (\<lambda>_.
          bindS (set_ready False) (\<lambda>_. returnS False))))"

fun recover_journals :: "interruptions \<Rightarrow> string list \<Rightarrow> unit store_op" where
  "recover_journals flt [] = returnS ()"
| "recover_journals flt (j # js) =
     bindS (recover_journal flt j) (\<lambda>go. if go then recover_journals flt js else returnS ())"

definition store_recover :: "interruptions \<Rightarrow> unit store_op" where
  "store_recover flt = bindS (readS (\<lambda>s. Inr (sort (live_names (transactions s))))) (recover_journals flt)"

section \<open>Resetting the demonstration\<close>

definition demo_reset_applied :: "string \<Rightarrow> StateStore \<Rightarrow> bool result" where
  "demo_reset_applied command_id s =
     (if file_at StateRoot ''demo-reset-id'' s = None then Inr False
      else bindE (read_bounded 36 StateRoot ''demo-reset-id'' s) (\<lambda>t. Inr (t = command_id)))"

definition reset_state :: "ModelState \<Rightarrow> ModelState \<Rightarrow> ModelState" where
  "reset_state st baseline =
     st\<lparr>generation := u64 (generation st + 1), wear_index := wear_index baseline,
        condition_score := condition_score baseline, condition_band := condition_band baseline\<rparr>"

definition reset_ledger :: "IdentityLedger \<Rightarrow> ModelState \<Rightarrow> string \<Rightarrow> IdentityLedger" where
  "reset_ledger l after after_bytes = l\<lparr>ledger_generation := generation after, ledger_state_sha256 := sha256_hex after_bytes\<rparr>"

record ResetJournal =
  rj_command :: string
  rj_before :: string
  rj_after :: string
  rj_before_ids :: string
  rj_after_ids :: string

abbreviation "reset_journal \<equiv> StateDir ''reset-journal''"

definition read_reset_journal :: "StateStore \<Rightarrow> ResetJournal result" where
  "read_reset_journal s =
     bindE (read_bounded 36 reset_journal ''command-id'' s) (\<lambda>command_id.
     bindE (read_state_file reset_journal ''before.json'' s) (\<lambda>before.
     bindE (read_state_file reset_journal ''after.json'' s) (\<lambda>after.
     bindE (read_state_file reset_journal ''before-identities.json'' s) (\<lambda>before_ids.
     bindE (read_state_file reset_journal ''after-identities.json'' s) (\<lambda>after_ids.
     bindE (parse_state_json before) (\<lambda>old_state.
     bindE (parse_state_json after) (\<lambda>new_state.
     bindE (initial_state (store_epoch s)) (\<lambda>baseline.
     bindE (state_json (reset_state old_state baseline)) (\<lambda>expected.
     bindE (throwIf (expected \<noteq> after \<or> producer_epoch old_state \<noteq> store_epoch s \<or> length command_id \<noteq> 36)
              (Runtime_error ''RESET_JOURNAL_INVALID'')) (\<lambda>_.
     bindE (parse_identity_ledger before_ids) (\<lambda>old_ledger.
     bindE (parse_identity_ledger after_ids) (\<lambda>new_ledger.
     bindE (validate_identity_ledger old_ledger old_state before) (\<lambda>_.
     bindE (validate_identity_ledger new_ledger new_state after) (\<lambda>_.
     bindE (throwIf (identity_ledger_json (reset_ledger old_ledger new_state after) \<noteq> after_ids)
              (Runtime_error ''RESET_IDENTITY_CHANGED'')) (\<lambda>_.
       Inr \<lparr>rj_command = command_id, rj_before = before, rj_after = after, rj_before_ids = before_ids,
            rj_after_ids = after_ids\<rparr>)))))))))))))))"

definition recover_demo_reset :: "interruptions \<Rightarrow> unit store_op" where
  "recover_demo_reset flt =
     bindS (readS (\<lambda>s. Inr (files_at reset_journal s = None))) (\<lambda>absent.
       if absent then returnS ()
       else
         bindS (readS read_reset_journal) (\<lambda>rj.
         bindS (readS (read_state_file StateRoot ''state.json'')) (\<lambda>current.
         bindS (readS (read_state_file StateRoot ''identity-ledger.json'')) (\<lambda>current_ids.
         bindS (checkS ((current \<noteq> rj_before rj \<and> current \<noteq> rj_after rj) \<or>
                        (current_ids \<noteq> rj_before_ids rj \<and> current_ids \<noteq> rj_after_ids rj))
                  (Runtime_error ''RESET_JOURNAL_CONFLICT'')) (\<lambda>_.
         bindS (store_write flt StateRoot ''state.json'' (rj_after rj)) (\<lambda>_.
         bindS (fail_if_requested flt) (\<lambda>_.
         bindS (store_write flt StateRoot ''identity-ledger.json'' (rj_after_ids rj)) (\<lambda>_.
         bindS (fail_if_requested flt) (\<lambda>_.
         bindS (store_write flt StateRoot ''demo-reset-id'' (rj_command rj)) (\<lambda>_.
         bindS (fail_if_requested flt) (\<lambda>_.
         bindS (rename_directory flt ''rename'' reset_journal (StateDir ''.recovery-reset'')) (\<lambda>_.
         bindS (store_sync flt) (\<lambda>_.
         bindS (remove_directory flt (StateDir ''.recovery-reset'')) (\<lambda>_.
           store_sync flt))))))))))))))"

definition command_id_valid :: "string \<Rightarrow> bool" where
  "command_id_valid c \<longleftrightarrow>
     length c = 36 \<and> c ! 8 = CHR ''-'' \<and> c ! 13 = CHR ''-'' \<and> c ! 18 = CHR ''-'' \<and> c ! 23 = CHR ''-'' \<and>
     list_all (\<lambda>x. is_dec x \<or> (97 \<le> code x \<and> code x \<le> 102) \<or> x = CHR ''-'') c"

definition stage_reset :: "interruptions \<Rightarrow> string \<Rightarrow> string \<Rightarrow> string \<Rightarrow> string \<Rightarrow> string \<Rightarrow> unit store_op" where
  "stage_reset flt command_id before_bytes after_bytes before_ids after_ids =
     (let staging = StateDir ''.staging-reset''
      in bindS (make_private_directory flt staging) (\<lambda>_.
         bindS (store_write flt staging ''command-id'' command_id) (\<lambda>_.
         bindS (store_write flt staging ''before.json'' before_bytes) (\<lambda>_.
         bindS (store_write flt staging ''after.json'' after_bytes) (\<lambda>_.
         bindS (store_write flt staging ''before-identities.json'' before_ids) (\<lambda>_.
         bindS (store_write flt staging ''after-identities.json'' after_ids) (\<lambda>_.
         bindS (store_sync flt) (\<lambda>_.
         bindS (fail_if_requested flt) (\<lambda>_.
         bindS (rename_directory flt ''rename'' staging reset_journal) (\<lambda>_.
         bindS (store_sync flt) (\<lambda>_.
           fail_if_requested flt)))))))))))"

definition store_reset_demo :: "interruptions \<Rightarrow> string \<Rightarrow> unit store_op" where
  "store_reset_demo flt command_id =
     bindS (checkS (\<not> command_id_valid command_id) (Invalid_argument ''RESET_INVALID_COMMAND_ID'')) (\<lambda>_.
     bindS (readS (\<lambda>s. throwIf (\<not> store_ready s) (Runtime_error ''RESET_STATE_UNAVAILABLE''))) (\<lambda>_.
     bindS (readS (demo_reset_applied command_id)) (\<lambda>applied.
       if applied then returnS ()
       else
         bindS (readS (\<lambda>s. throwIf (transactions s \<noteq> [] \<or> files_at reset_journal s \<noteq> None)
                  (Runtime_error ''RESET_RECOVERY_REQUIRED''))) (\<lambda>_.
         bindS (readS store_state) (\<lambda>before.
         bindS (readS (\<lambda>s. initial_state (store_epoch s))) (\<lambda>baseline.
         bindS (checkS (generation before = u64_max) (Runtime_error ''RESET_GENERATION_EXHAUSTED'')) (\<lambda>_.
         bindS (readS (store_ledger before)) (\<lambda>ledger.
         (let after = reset_state before baseline
          in bindS (liftS (state_json after)) (\<lambda>after_bytes.
             bindS (liftS (state_json before)) (\<lambda>before_bytes.
             bindS (stage_reset flt command_id before_bytes after_bytes (identity_ledger_json ledger)
                      (identity_ledger_json (reset_ledger ledger after after_bytes))) (\<lambda>_.
               recover_demo_reset flt))))))))))))"

section \<open>Starting the store\<close>

definition stale_name :: "string \<Rightarrow> bool" where
  "stale_name name \<longleftrightarrow>
     take 9 name = ''.staging-'' \<or> take 10 name = ''.recovery-'' \<or>
     (dot_name name \<and> find_sub ''.tmp-'' name \<noteq> None)"

definition remove_stale_files :: "interruptions \<Rightarrow> place \<Rightarrow> unit store_op" where
  "remove_stale_files flt p =
     bindS (readS (\<lambda>s. Inr (filter stale_name (map fst (case files_at p s of None \<Rightarrow> [] | Some d \<Rightarrow> d))))) (\<lambda>names.
     bindS (eachS (remove_file flt p) names) (\<lambda>_.
       if names = [] then returnS () else store_sync flt))"

definition remove_stale_directories :: "interruptions \<Rightarrow> (string \<Rightarrow> place) \<Rightarrow> (StateStore \<Rightarrow> (string \<times> dir) list) \<Rightarrow> unit store_op" where
  "remove_stale_directories flt p entries =
     bindS (readS (\<lambda>s. Inr (filter stale_name (map fst (entries s))))) (\<lambda>names.
     bindS (eachS (\<lambda>n. remove_directory flt (p n)) names) (\<lambda>_.
       if names = [] then returnS () else store_sync flt))"

definition clean_directories :: "interruptions \<Rightarrow> (string \<Rightarrow> place) \<Rightarrow> (StateStore \<Rightarrow> (string \<times> dir) list) \<Rightarrow> unit store_op" where
  "clean_directories flt p entries =
     bindS (readS (\<lambda>s. Inr (live_names (entries s)))) (eachS (\<lambda>n. remove_stale_files flt (p n)))"

definition start_state :: "interruptions \<Rightarrow> string \<Rightarrow> unit store_op" where
  "start_state flt epoch =
     bindS (readS (\<lambda>s. Inr (file_at StateRoot ''state.json'' s = None))) (\<lambda>absent.
       if \<not> absent then returnS ()
       else
         bindS (readS (\<lambda>s. throwIf (live_names (transactions s) \<noteq> []) (Runtime_error ''state is absent while a journal exists''))) (\<lambda>_.
         bindS (liftS (bindE (initial_state epoch) state_json)) (\<lambda>bytes.
         bindS (store_write flt StateRoot ''state.json'' bytes) (\<lambda>_.
           store_write flt StateRoot ''identity-ledger.json''
             (identity_ledger_json \<lparr>ledger_generation = 0, ledger_state_sha256 = sha256_hex bytes, ledger_entries = []\<rparr>)))))"

definition start_ledger :: "interruptions \<Rightarrow> unit store_op" where
  "start_ledger flt =
     bindS (readS (\<lambda>s. Inr (file_at StateRoot ''identity-ledger.json'' s = None))) (\<lambda>absent.
       if \<not> absent then returnS ()
       else
         bindS (readS (read_state_file StateRoot ''state.json'')) (\<lambda>bytes.
         bindS (liftS (parse_state_json bytes)) (\<lambda>st.
         bindS (checkS (generation st \<noteq> 0 \<or> recent_source_event_ids st \<noteq> []) (Runtime_error ''committed identity ledger is absent'')) (\<lambda>_.
           store_write flt StateRoot ''identity-ledger.json''
             (identity_ledger_json \<lparr>ledger_generation = 0, ledger_state_sha256 = sha256_hex bytes, ledger_entries = []\<rparr>)))))"

definition start_body :: "interruptions \<Rightarrow> string \<Rightarrow> unit store_op" where
  "start_body flt epoch =
     bindS (liftS (initial_state epoch)) (\<lambda>_.
     bindS (make_private_directory flt StateRoot) (\<lambda>_.
     bindS (remove_stale_files flt StateRoot) (\<lambda>_.
     bindS (remove_stale_directories flt StateDir state_dirs) (\<lambda>_.
     bindS (remove_stale_directories flt Transaction transactions) (\<lambda>_.
     bindS (remove_stale_directories flt Bundle outbox) (\<lambda>_.
     bindS (clean_directories flt Transaction transactions) (\<lambda>_.
     bindS (clean_directories flt Bundle outbox) (\<lambda>_.
     bindS (start_state flt epoch) (\<lambda>_.
     bindS (start_ledger flt) (\<lambda>_.
     bindS (recover_demo_reset flt) (\<lambda>_.
     bindS (store_recover flt) (\<lambda>_.
     bindS (readS store_state) (\<lambda>st.
     bindS (checkS (producer_epoch st \<noteq> epoch) (Runtime_error ''persistent producer epoch does not match this instance'')) (\<lambda>_.
     bindS (store_inventory flt) (\<lambda>_. returnS ())))))))))))))))"

definition start_store :: "interruptions \<Rightarrow> string \<Rightarrow> unit store_op" where
  "start_store flt epoch s =
     catchS (start_body flt epoch) (set_ready False) (s\<lparr>store_epoch := epoch, store_counter := 0, store_ready := True, halted := False\<rparr>)"

section \<open>Delivery\<close>

definition quarantine_delivery :: "interruptions \<Rightarrow> string \<Rightarrow> bool store_op" where
  "quarantine_delivery flt i =
     bindS (readS (\<lambda>s. Inr (store_ready s))) (\<lambda>ready.
       if \<not> ready then returnS False
       else catchS
         (bindS (store_inventory flt) (\<lambda>entries.
            case find (\<lambda>e. out_id e = i) entries of
              None \<Rightarrow> returnS False
            | Some e \<Rightarrow>
                if out_quarantined e then returnS True
                else bindS (store_write flt (Bundle (out_assessment_id e)) ''QUARANTINED'' (''DELIVERY_CONFLICT'' @ [byte 10]))
                       (\<lambda>_. returnS True)))
         (bindS (set_ready False) (\<lambda>_. returnS False)))"

text \<open>The first bundle whose manifest names the identity.\<close>

fun bundle_named :: "string \<Rightarrow> string list \<Rightarrow> StateStore \<Rightarrow> string option result" where
  "bundle_named i [] s = Inr None"
| "bundle_named i (b # bs) s =
     bindE (read_state_file (Bundle b) ''manifest.json'' s) (\<lambda>manifest.
     bindE (optional_string_value manifest ''eventId'') (\<lambda>event.
     bindE (string_value manifest ''assessmentId'') (\<lambda>a.
       if a = i \<or> event = Some i then Inr (Some b) else bundle_named i bs s)))"

definition newline :: string where "newline = [byte 10]"

definition acknowledge_entry :: "interruptions \<Rightarrow> OutboxEntry \<Rightarrow> string \<Rightarrow> string \<Rightarrow> string \<Rightarrow> string \<Rightarrow> bool store_op" where
  "acknowledge_entry flt e i key_sha content_sha b =
     (if out_idempotency_key_sha256 e \<noteq> key_sha \<or> out_content_sha256 e \<noteq> content_sha
      then bindS (store_write flt (Bundle b) ''QUARANTINED'' (''ACK_DIGEST_CONFLICT'' @ [byte 10])) (\<lambda>_. returnS False)
      else
        (let is_assessment = (out_type e = ''BRAKE_HEALTH_ASSESSMENT'');
             message = (if is_assessment then ''assessment.json'' else ''event.json'')
         in bindS (store_write flt (Bundle b) (if is_assessment then ''assessment.ack'' else ''event.ack'')
                     (i @ newline @ key_sha @ newline @ content_sha @ newline)) (\<lambda>_.
            bindS (readS (\<lambda>s. throwIf (file_at (Bundle b) message s = None) (Runtime_error ''acknowledged message was not deleted''))) (\<lambda>_.
            bindS (remove_file flt (Bundle b) message) (\<lambda>_.
            bindS (store_sync flt) (\<lambda>_.
            bindS (readS (\<lambda>s. Inr (file_at (Bundle b) ''assessment.json'' s = None \<and> file_at (Bundle b) ''event.json'' s = None))) (\<lambda>empty.
            bindS (if empty then bindS (remove_directory flt (Bundle b)) (\<lambda>_. store_sync flt) else returnS ()) (\<lambda>_.
              returnS True))))))))"

definition store_acknowledge :: "interruptions \<Rightarrow> string \<Rightarrow> string \<Rightarrow> string \<Rightarrow> bool store_op" where
  "store_acknowledge flt i key_sha content_sha =
     bindS (readS (\<lambda>s. Inr (store_ready s))) (\<lambda>ready.
       if \<not> ready then returnS False
       else catchS
         (bindS (store_inventory flt) (\<lambda>entries.
            case find (\<lambda>e. out_id e = i) entries of
              None \<Rightarrow> returnS False
            | Some e \<Rightarrow>
                if out_quarantined e then returnS False
                else
                  bindS (readS (\<lambda>s. bundle_named i (live_names (outbox s)) s)) (\<lambda>found.
                    case found of
                      None \<Rightarrow> throwS (Runtime_error ''outbox bundle disappeared during acknowledgement'')
                    | Some b \<Rightarrow> acknowledge_entry flt e i key_sha content_sha b)))
         (bindS (set_ready False) (\<lambda>_. returnS False)))"

end
