(* ===== verification/Crash.thy ===== *)
theory Crash
  imports Store2
begin

text \<open>
  Crash consistency of the v2 state store: whatever effect on the disk an interruption hits, the disk
  holds either a committed state with its ledger and outbox, or a complete journal from which
  the next start finishes the transaction.
\<close>

section \<open>Interruptions\<close>

definition crash_only :: "interruptions \<Rightarrow> bool" where
  "crash_only flt \<longleftrightarrow> (\<forall>n m. flt n \<noteq> Fails m)"

definition whole :: "interruptions \<Rightarrow> bool" where
  "whole flt \<longleftrightarrow> (\<forall>n k. flt n \<noteq> Fails (Midway k) \<and> flt n \<noteq> Ends (Midway k))"

definition calm :: "interruptions \<Rightarrow> bool" where
  "calm flt \<longleftrightarrow> (\<forall>n. flt n = Through)"

lemma calm_crash_only: "calm flt \<Longrightarrow> crash_only flt" and calm_whole: "calm flt \<Longrightarrow> whole flt"
  by (auto simp: calm_def crash_only_def whole_def)

text \<open>The error states: the process has ended there, unless an effect may also fail.\<close>

definition stopped :: "interruptions \<Rightarrow> (StateStore \<Rightarrow> bool) \<Rightarrow> StateStore \<Rightarrow> bool" where
  "stopped flt I s \<longleftrightarrow> I s \<and> (crash_only flt \<longrightarrow> halted s)"

lemma stopped_mono: "stopped flt I s \<Longrightarrow> (\<And>s. I s \<Longrightarrow> J s) \<Longrightarrow> stopped flt J s"
  by (simp add: stopped_def)

lemma hoare_disk:
  assumes "\<And>s. P s \<Longrightarrow> Q () (f (s\<lparr>ticks := Suc (ticks s)\<rparr>))"
    and "\<And>s. P s \<Longrightarrow> I s" and "\<And>s n h. P s \<Longrightarrow> I (s\<lparr>ticks := n, halted := h\<rparr>)"
    and "\<And>s n h. P s \<Longrightarrow> I ((f (s\<lparr>ticks := n\<rparr>))\<lparr>halted := h\<rparr>)" and "\<And>s n. P s \<Longrightarrow> I (f (s\<lparr>ticks := n\<rparr>))"
    and "whole flt"
  shows "hoare P (disk_effect flt what f part) Q (stopped flt I)"
proof (rule hoareI)
  fix s
  assume P: "P s"
  have n: "I (s\<lparr>ticks := n\<rparr>)" for n using assms(3) [OF P, where n = n and h = "halted s"] by simp
  show "case disk_effect flt what f part s of (Inr x, s') \<Rightarrow> Q x s' | (Inl e, s') \<Rightarrow> stopped flt I s'"
    using assms(6) P
    by (cases "flt (ticks s)")
      (auto simp: disk_effect_def Let_def stopped_def assms n crash_only_def whole_def split: moment.splits)
qed

section \<open>What an effect leaves alone\<close>

lemma files_at_hidden [simp]:
  "files_at p (s\<lparr>ticks := n\<rparr>) = files_at p s" "files_at p (s\<lparr>halted := h\<rparr>) = files_at p s"
  "files_at p (s\<lparr>store_ready := r\<rparr>) = files_at p s" "files_at p (s\<lparr>store_counter := c\<rparr>) = files_at p s"
  "files_at p (s\<lparr>store_epoch := e\<rparr>) = files_at p s"
  by (cases p; simp)+

lemma file_at_hidden [simp]:
  "file_at p m (s\<lparr>ticks := n\<rparr>) = file_at p m s" "file_at p m (s\<lparr>halted := h\<rparr>) = file_at p m s"
  "file_at p m (s\<lparr>store_ready := r\<rparr>) = file_at p m s" "file_at p m (s\<lparr>store_counter := c\<rparr>) = file_at p m s"
  "file_at p m (s\<lparr>store_epoch := e\<rparr>) = file_at p m s"
  by (simp_all add: file_at_def)

lemma files_at_put [simp]: "files_at p (put_files q d s) = (if p = q then Some d else files_at p s)"
  by (cases p; cases q) (auto simp: map_of_update)

lemma files_at_drop [simp]:
  "files_at p (drop_files q s) = (if p = q then (if q = StateRoot then Some [] else None) else files_at p s)"
  by (cases p; cases q) (auto simp: delete_conv')

lemma put_hidden [simp]:
  "halted (put_files p d s) = halted s" "ticks (put_files p d s) = ticks s" "store_ready (put_files p d s) = store_ready s"
  "store_counter (put_files p d s) = store_counter s" "store_epoch (put_files p d s) = store_epoch s"
  "halted (drop_files p s) = halted s" "ticks (drop_files p s) = ticks s" "store_ready (drop_files p s) = store_ready s"
  "store_counter (drop_files p s) = store_counter s" "store_epoch (drop_files p s) = store_epoch s"
  by (cases p; simp)+

declare files_at.simps [simp del] put_files.simps [simp del] drop_files.simps [simp del]

lemma file_at_put: "file_at p m (put_files q d s) = (if p = q then map_of d m else file_at p m s)"
  by (simp add: file_at_def)

lemma file_at_write: "file_at p m (write_file q name bytes s) = (if p = q \<and> m = name then Some bytes else file_at p m s)"
  by (auto simp: write_file_def file_at_put map_of_update file_at_def split: option.splits)

lemma write_hidden [simp]:
  "halted (write_file p m b s) = halted s" "store_ready (write_file p m b s) = store_ready s"
  "store_counter (write_file p m b s) = store_counter s" "store_epoch (write_file p m b s) = store_epoch s"
  by (simp_all add: write_file_def)

lemma live_names_update:
  "live_names (AList.update n d ds) =
     (if dot_name n \<or> n \<in> fst ` set ds then live_names ds else live_names ds @ [n])"
  by (simp add: live_names_def update_keys)

lemma live_names_delete: "live_names (AList.delete n ds) = removeAll n (live_names ds)"
  by (simp add: live_names_def delete_keys removeAll_filter_not_eq conj_commute)

lemma live_names_lookup: "n \<in> set (live_names ds) \<longleftrightarrow> \<not> dot_name n \<and> map_of ds n \<noteq> None"
  by (auto simp: live_names_def map_of_eq_None_iff)

section \<open>The outbox as a whole\<close>

fun verify_all :: "string list \<Rightarrow> OutboxEntry list \<Rightarrow> StateStore \<Rightarrow> OutboxEntry list result" where
  "verify_all [] acc s = Inr acc"
| "verify_all (b # bs) acc s = bindE (verify_bundle b acc s) (\<lambda>acc'. verify_all bs acc' s)"

definition outbox_entries :: "StateStore \<Rightarrow> OutboxEntry list result" where
  "outbox_entries s = verify_all (live_names (outbox s)) [] s"

lemma verify_bundle_cong:
  assumes "files_at (Bundle b) s = files_at (Bundle b) t"
  shows "verify_bundle b acc s = verify_bundle b acc t"
proof -
  have f: "file_at (Bundle b) m s = file_at (Bundle b) m t" for m using assms by (simp add: file_at_def)
  then have r: "read_bounded mx (Bundle b) m s = read_bounded mx (Bundle b) m t" for mx m by (simp add: read_bounded_def)
  have a: "append_file k m b mf q s acc = append_file k m b mf q t acc" for k m mf q acc
    unfolding append_file_def f r ..
  show ?thesis unfolding verify_bundle_def f r a assms ..
qed

lemma verify_all_cong:
  "(\<And>b. b \<in> set bs \<Longrightarrow> files_at (Bundle b) s = files_at (Bundle b) t) \<Longrightarrow> verify_all bs acc s = verify_all bs acc t"
proof (induction bs arbitrary: acc)
  case (Cons b bs)
  then have "verify_bundle b acc s = verify_bundle b acc t" by (intro verify_bundle_cong) simp
  with Cons show ?case by (simp add: bindE_def split: sum.splits)
qed simp

lemma verify_all_append: "verify_all (as @ bs) acc s = bindE (verify_all as acc s) (\<lambda>acc'. verify_all bs acc' s)"
  by (induction as arbitrary: acc) (simp_all add: bindE_assoc)

lemma outbox_entries_cong:
  assumes "outbox s = outbox t"
  shows "outbox_entries s = outbox_entries t"
  unfolding outbox_entries_def assms by (rule verify_all_cong) (simp add: assms files_at.simps)

lemma inventory_loop_verified: "verify_all bs acc s = Inr es \<Longrightarrow> inventory_loop flt bs acc s = (Inr es, s)"
  by (induction bs arbitrary: acc) (auto simp: bindE_eq_Inr bindS_def onErrorS_def)

lemma inventory_entries:
  assumes "outbox_entries s = Inr es"
  shows "store_inventory flt s = (Inr (if store_ready s then sort_key out_id es else []), s)"
  using inventory_loop_verified [OF assms [unfolded outbox_entries_def], of flt]
  by (simp add: store_inventory_def inventory_verified_def catchS_def bindS_def)

section \<open>A state and its ledger on the disk\<close>

definition state_text :: "ModelState \<Rightarrow> string" where
  "state_text st = (case state_json st of Inr t \<Rightarrow> t | Inl e \<Rightarrow> [])"

definition bound_state :: "ModelState \<Rightarrow> IdentityLedger \<Rightarrow> bool" where
  "bound_state st l \<longleftrightarrow> okE (state_json st) \<and> state_typed st \<and> ledger_ok l \<and>
     validate_identity_ledger l st (state_text st) = Inr ()"

lemma bound_state_text: "bound_state st l \<Longrightarrow> state_json st = Inr (state_text st)"
  by (auto simp: bound_state_def okE_iff state_text_def)

lemma state_json_text: "state_json st = Inr t \<Longrightarrow> state_text st = t"
  by (simp add: state_text_def)

lemma bound_state_parses:
  assumes "bound_state st l"
  shows "parse_state_json (state_text st) = Inr st" and "parse_identity_ledger (identity_ledger_json l) = Inr l"
  using assms bound_state_text [OF assms] by (simp_all add: parse_state_iff parse_ledger_iff bound_state_def)

lemma state_text_length:
  assumes "bound_state st l"
  shows "length (state_text st) \<le> kMaximumStateBytes" and "length (identity_ledger_json l) \<le> kMaximumStateBytes"
proof -
  from bound_state_text [OF assms] have v: "validate_state st = Inr ()" by (auto simp: state_json_def bindE_eq_Inr)
  have "state_text st = object_text (state_fields st)"
    using state_json_fields [OF v] by (rule state_json_text)
  then show "length (state_text st) \<le> kMaximumStateBytes"
    using state_text_short [OF v] assms by (simp add: kMaximumStateBytes_def bound_state_def)
qed (use assms ledger_text_short in \<open>simp add: bound_state_def\<close>)

lemma read_bounded_file: "file_at p n s = Some b \<Longrightarrow> length b \<le> mx \<Longrightarrow> read_bounded mx p n s = Inr b"
  by (simp add: read_bounded_def)

definition current_is :: "string \<Rightarrow> string \<Rightarrow> StateStore \<Rightarrow> bool" where
  "current_is st_text ids_text s \<longleftrightarrow> file_at StateRoot ''state.json'' s = Some st_text \<and>
     file_at StateRoot ''identity-ledger.json'' s = Some ids_text"

lemma store_state_bound:
  assumes "bound_state st l" and "current_is (state_text st) (identity_ledger_json l) s"
  shows "store_state s = Inr st" and "store_ledger st s = Inr l"
proof -
  note f = assms(2) [unfolded current_is_def]
  note len = state_text_length [OF assms(1)]
  have r: "read_state_file StateRoot ''state.json'' s = Inr (state_text st)"
    "read_state_file StateRoot ''identity-ledger.json'' s = Inr (identity_ledger_json l)"
    using f len by (auto intro: read_bounded_file)
  show l: "store_ledger st s = Inr l"
    using r assms(1) bound_state_parses [OF assms(1)] bound_state_text [OF assms(1)]
    by (simp add: store_ledger_def bound_state_def)
  then show "store_state s = Inr st" using r bound_state_parses [OF assms(1)] by (simp add: store_state_def)
qed

lemma store_state_boundD:
  assumes "store_state s = Inr st"
  obtains l where "bound_state st l" and "current_is (state_text st) (identity_ledger_json l) s"
proof -
  from assms obtain b l where b: "read_state_file StateRoot ''state.json'' s = Inr b" "parse_state_json b = Inr st"
    "store_ledger st s = Inr l" by (auto simp: store_state_def bindE_eq_Inr)
  then have st: "state_json st = Inr b" "state_typed st" by (simp_all add: parse_state_iff)
  from b(3) obtain ib where i: "read_state_file StateRoot ''identity-ledger.json'' s = Inr ib" "parse_identity_ledger ib = Inr l"
    "validate_identity_ledger l st b = Inr ()" using st by (auto simp: store_ledger_def bindE_eq_Inr)
  show thesis
  proof (rule that)
    show "bound_state st l" using st i by (simp add: bound_state_def state_json_text parse_ledger_iff)
    show "current_is (state_text st) (identity_ledger_json l) s"
      using b(1) i st by (auto simp: current_is_def state_json_text parse_ledger_iff read_bounded_def split: option.splits if_splits)
  qed
qed

section \<open>Transactions\<close>

record txn =
  tx_before :: ModelState
  tx_after :: ModelState
  tx_before_ledger :: IdentityLedger
  tx_after_ledger :: IdentityLedger
  tx_messages :: DerivedMessages
  tx_source :: string
  tx_admit :: bool

definition tx_id :: "txn \<Rightarrow> string" where
  "tx_id T = derived_id (derived_assessment (tx_messages T))"

definition tx_manifest :: "txn \<Rightarrow> string" where
  "tx_manifest T = object_text (manifest_fields (state_text (tx_before T)) (state_text (tx_after T))
     (identity_ledger_json (tx_before_ledger T)) (identity_ledger_json (tx_after_ledger T)) (tx_messages T) (tx_admit T))"

definition txn_ok :: "txn \<Rightarrow> bool" where
  "txn_ok T \<longleftrightarrow> bound_state (tx_before T) (tx_before_ledger T) \<and> bound_state (tx_after T) (tx_after_ledger T) \<and>
     (\<exists>md ep a. v2_build_messages md ep a = Inr (tx_messages T) \<and> source_event_id ep = tx_source T)"

definition bundle_files :: "txn \<Rightarrow> (string \<times> string) list" where
  "bundle_files T =
     (''assessment.json'', derived_json (derived_assessment (tx_messages T))) #
     (case derived_event (tx_messages T) of None \<Rightarrow> [] | Some e \<Rightarrow> [(''event.json'', derived_json e)]) @
     [(''manifest.json'', tx_manifest T)]"

definition journal_files :: "txn \<Rightarrow> (string \<times> string) list" where
  "journal_files T =
     [(''before.json'', state_text (tx_before T)), (''after.json'', state_text (tx_after T)),
      (''before-identities.json'', identity_ledger_json (tx_before_ledger T)),
      (''after-identities.json'', identity_ledger_json (tx_after_ledger T))] @ bundle_files T"

definition journal_dir :: "txn \<Rightarrow> bool \<Rightarrow> dir \<Rightarrow> bool" where
  "journal_dir T committed d \<longleftrightarrow>
     map_of d = map_of (journal_files T @ (if committed then [(''committed'', committed_mark)] else []))"

definition bundle_dir :: "txn \<Rightarrow> dir \<Rightarrow> bool" where
  "bundle_dir T d \<longleftrightarrow> map_of d = map_of (bundle_files T)"

definition entries_of :: "txn \<Rightarrow> OutboxEntry list" where
  "entries_of T =
     entry_of AssessmentKind (tx_source T) (tx_id T) False (derived_assessment (tx_messages T)) #
     (case derived_event (tx_messages T) of None \<Rightarrow> [] | Some e \<Rightarrow> [entry_of EventKind (tx_source T) (tx_id T) False e])"

lemma txn_builds:
  assumes "txn_ok T"
  obtains md ep a where "v2_build_messages md ep a = Inr (tx_messages T)" and "source_event_id ep = tx_source T"
  using assms by (auto simp: txn_ok_def)

lemma txn_manifest:
  assumes "txn_ok T"
  shows "manifest_json (tx_before T) (tx_after T) (identity_ledger_json (tx_before_ledger T))
      (identity_ledger_json (tx_after_ledger T)) (tx_messages T) (tx_admit T) = Inr (tx_manifest T)"
proof -
  from assms have "state_json (tx_before T) = Inr (state_text (tx_before T))" "state_json (tx_after T) = Inr (state_text (tx_after T))"
    using bound_state_text by (auto simp: txn_ok_def)
  from manifest_json_fields [OF this] show ?thesis by (simp add: tx_manifest_def)
qed

lemma txn_plain: "txn_ok T \<Longrightarrow> plain_messages (tx_messages T)"
  by (auto simp: txn_ok_def dest: built_plain)

lemma txn_id_version: "txn_ok T \<Longrightarrow> has_version (tx_id T) (CHR ''5'')"
proof -
  assume "txn_ok T"
  then obtain md ep a where "v2_build_messages md ep a = Inr (tx_messages T)" by (rule txn_builds)
  then have "assessment_id md (source_event_id ep) = Inr (tx_id T)" unfolding tx_id_def by (rule build_messages_parts)
  then show ?thesis using uuid_v5_version by (simp add: assessment_id_def)
qed

lemma txn_id_not_dot: "txn_ok T \<Longrightarrow> \<not> dot_name (tx_id T)"
proof -
  assume "txn_ok T"
  from txn_id_version [OF this] have "canonical_uuid (tx_id T) (Some (CHR ''5''))"
    by (simp add: has_version_def uuid_with_version_canonical)
  then have l: "length (tx_id T) = 36" and h: "\<forall>i \<in> set [0..<length (tx_id T)]. uuid_dash i \<or> is_lower_hex (tx_id T ! i)"
    by (simp_all add: canonical_uuid_def del: set_upt)
  from h l have "is_lower_hex (tx_id T ! 0)" by (auto simp: uuid_dash_def dest: bspec [of _ _ 0])
  moreover have "\<not> is_lower_hex (CHR ''.'')" by (simp add: char_class_defs)
  ultimately show ?thesis using l by (cases "tx_id T") (auto simp: dot_name_def)
qed

lemma txn_message_sizes:
  assumes "txn_ok T"
  shows "length (derived_json (derived_assessment (tx_messages T))) \<le> 16384"
    and "derived_event (tx_messages T) = Some e \<Longrightarrow> length (derived_json e) \<le> 16384"
proof -
  obtain md ep a where b: "v2_build_messages md ep a = Inr (tx_messages T)" using assms by (rule txn_builds)
  show "length (derived_json (derived_assessment (tx_messages T))) \<le> 16384"
    by (rule build_messages_parts [OF b]) (simp add: kMaximumMessageBytes_def)
  assume e: "derived_event (tx_messages T) = Some e"
  have "build_event md ep a (derived_id (derived_assessment (tx_messages T))) = Inr e"
    by (rule build_messages_parts [OF b]) (use e in blast)
  from build_event_parts(4) [OF this] show "length (derived_json e) \<le> 16384" by (simp add: kMaximumMessageBytes_def)
qed

lemma digest_lengths:
  "message_idempotency_key_sha256 u t i = Inr k \<Longrightarrow> length k = 64" "length (message_sha m) = 64"
  by (auto simp: message_idempotency_key_sha256_def make_idempotency_digest_def message_sha_def sha_hex_plain split: if_splits)

lemma txn_manifest_short:
  assumes "txn_ok T"
  shows "length (tx_manifest T) \<le> kMaximumStateBytes"
proof -
  obtain md ep a where b: "v2_build_messages md ep a = Inr (tx_messages T)" using assms by (rule txn_builds)
  let ?a = "derived_assessment (tx_messages T)"
  have key: "length (derived_idempotency_key_sha256 ?a) = 64" and content: "length (derived_content_sha256 ?a) = 64"
    by (rule build_messages_parts [OF b]; simp add: digest_lengths sha_hex_plain)+
  have ident: "length (derived_id ?a) = 36" using has_version_plain [OF txn_id_version [OF assms]] by (simp add: tx_id_def)
  have event: "length (event_part f (tx_messages T)) \<le> 66"
    if "\<And>e. derived_event (tx_messages T) = Some e \<Longrightarrow> length (f e) \<le> 64" for f
    using that by (cases "derived_event (tx_messages T)") (auto simp: event_part_def)
  have parts: "length (derived_id e) = 36 \<and> length (derived_content_sha256 e) = 64 \<and> length (derived_idempotency_key_sha256 e) = 64"
    if "derived_event (tx_messages T) = Some e" for e
  proof -
    have "build_event md ep a (derived_id ?a) = Inr e" by (rule build_messages_parts [OF b]) (use that in blast)
    from build_event_parts [OF this] show ?thesis using has_version_plain digest_lengths sha_hex_plain by metis
  qed
  have "length (event_part derived_content_sha256 (tx_messages T)) \<le> 66" "length (event_part derived_id (tx_messages T)) \<le> 66"
    "length (event_part derived_idempotency_key_sha256 (tx_messages T)) \<le> 66" "length (event_part message_sha (tx_messages T)) \<le> 66"
    by (rule event; use parts in \<open>force simp: digest_lengths\<close>)+
  then show ?thesis
    by (simp add: tx_manifest_def manifest_fields_def Let_def needle_def quoted_def sha_hex_plain digest_lengths key content ident
        kMaximumStateBytes_def)
qed

definition tx_journal :: "txn \<Rightarrow> Journal" where
  "tx_journal T = \<lparr>jr_before = state_text (tx_before T), jr_after = state_text (tx_after T),
     jr_before_ids = identity_ledger_json (tx_before_ledger T), jr_after_ids = identity_ledger_json (tx_after_ledger T),
     jr_manifest = tx_manifest T, jr_assessment = derived_json (derived_assessment (tx_messages T)),
     jr_event = event_text_of (tx_messages T), jr_event_sha256 = map_option message_sha (derived_event (tx_messages T)),
     jr_disposition = (if tx_admit T then ''ADMIT'' else ''OVERFLOW_NOT_ENQUEUED'')\<rparr>"

lemma journal_file:
  assumes "files_at p s = Some d" and "journal_dir T c d"
  shows "file_at p ''before.json'' s = Some (state_text (tx_before T))"
    and "file_at p ''after.json'' s = Some (state_text (tx_after T))"
    and "file_at p ''before-identities.json'' s = Some (identity_ledger_json (tx_before_ledger T))"
    and "file_at p ''after-identities.json'' s = Some (identity_ledger_json (tx_after_ledger T))"
    and "file_at p ''assessment.json'' s = Some (derived_json (derived_assessment (tx_messages T)))"
    and "file_at p ''event.json'' s = event_text_of (tx_messages T)"
    and "file_at p ''manifest.json'' s = Some (tx_manifest T)"
    and "file_at p ''committed'' s = (if c then Some committed_mark else None)"
    and "file_at p ''QUARANTINED'' s = None"
  using assms
  by (cases "derived_event (tx_messages T)";
      simp add: file_at_def journal_dir_def journal_files_def bundle_files_def event_text_of_def)+

lemma bundle_file:
  assumes "files_at p s = Some d" and "bundle_dir T d"
  shows "file_at p ''assessment.json'' s = Some (derived_json (derived_assessment (tx_messages T)))"
    and "file_at p ''event.json'' s = event_text_of (tx_messages T)"
    and "file_at p ''manifest.json'' s = Some (tx_manifest T)" and "file_at p ''QUARANTINED'' s = None"
  using assms
  by (cases "derived_event (tx_messages T)"; simp add: file_at_def bundle_dir_def bundle_files_def event_text_of_def)+

lemma map_of_names: "map_of d = map_of e \<Longrightarrow> fst ` set d = fst ` set e"
  by (metis dom_map_of_conv_image_fst)

lemma journal_names:
  assumes "journal_dir T c d"
  shows "list_all (\<lambda>(name, bytes). name \<in> set journal_file_names) d"
proof -
  have "fst ` set (journal_files T @ (if c then [(''committed'', committed_mark)] else [])) \<subseteq> set journal_file_names"
    by (cases "derived_event (tx_messages T)"; cases c) (simp_all add: journal_files_def bundle_files_def journal_file_names_def)
  then have "fst ` set d \<subseteq> set journal_file_names"
    using map_of_names [OF assms [unfolded journal_dir_def]] by simp
  then show ?thesis by (auto simp: list_all_iff)
qed

lemma bundle_names:
  assumes "bundle_dir T d"
  shows "list_all (\<lambda>(name, bytes). name \<in> set bundle_file_names) d"
proof -
  have "fst ` set (bundle_files T) \<subseteq> set bundle_file_names"
    by (cases "derived_event (tx_messages T)") (simp_all add: bundle_files_def bundle_file_names_def)
  then have "fst ` set d \<subseteq> set bundle_file_names"
    using map_of_names [OF assms [unfolded bundle_dir_def]] by simp
  then show ?thesis by (auto simp: list_all_iff)
qed

lemmas txn_manifest_reads =
  manifest_strings [OF txn_plain refl, of T "state_text (tx_before T)" "state_text (tx_after T)"
    "identity_ledger_json (tx_before_ledger T)" "identity_ledger_json (tx_after_ledger T)" "tx_admit T" for T,
    folded tx_manifest_def]

lemma txn_event_fields:
  assumes "txn_ok T"
  shows "event_fields (tx_manifest T) =
    Inr \<lparr>field_id = map_option derived_id (derived_event (tx_messages T)),
         field_content_sha256 = map_option derived_content_sha256 (derived_event (tx_messages T)),
         field_idempotency_key_sha256 = map_option derived_idempotency_key_sha256 (derived_event (tx_messages T)),
         field_message_sha256 = map_option message_sha (derived_event (tx_messages T))\<rparr>"
  unfolding tx_manifest_def by (rule manifest_event_fields [OF txn_plain [OF assms]])

lemma txn_assessment_verifies:
  assumes "txn_ok T"
  shows "verified_outbox_message AssessmentKind (tx_manifest T) (derived_json (derived_assessment (tx_messages T))) q =
    Inr (entry_of AssessmentKind (tx_source T) (tx_id T) q (derived_assessment (tx_messages T)))"
proof -
  obtain md ep a where b: "v2_build_messages md ep a = Inr (tx_messages T)" "source_event_id ep = tx_source T"
    using assms by (rule txn_builds)
  from built_assessment_verifies [OF b(1)] show ?thesis by (simp add: tx_manifest_def tx_id_def b(2))
qed

lemma txn_event_verifies:
  assumes "txn_ok T" and "derived_event (tx_messages T) = Some e"
  shows "verified_outbox_message EventKind (tx_manifest T) (derived_json e) q =
    Inr (entry_of EventKind (tx_source T) (tx_id T) q e)"
proof -
  obtain md ep a where b: "v2_build_messages md ep a = Inr (tx_messages T)" "source_event_id ep = tx_source T"
    using assms(1) by (rule txn_builds)
  from built_event_verifies [OF b(1) assms(2)] show ?thesis by (simp add: tx_manifest_def tx_id_def b(2))
qed

lemma read_journal_txn:
  assumes ok: "txn_ok T" and f: "files_at (Transaction j) s = Some d" and d: "journal_dir T c d"
  shows "read_journal j s = Inr (tx_journal T)"
proof -
  note files = journal_file [OF f d]
  note b = ok [unfolded txn_ok_def, THEN conjunct1] and a = ok [unfolded txn_ok_def, THEN conjunct2, THEN conjunct1]
  note len = state_text_length [OF b] state_text_length [OF a] txn_manifest_short [OF ok] txn_message_sizes [OF ok]
  have states: "read_journal_states j s = Inr (state_text (tx_before T), state_text (tx_after T),
      identity_ledger_json (tx_before_ledger T), identity_ledger_json (tx_after_ledger T))"
    using bound_state_parses [OF b] bound_state_parses [OF a] a b
    by (simp add: read_journal_states_def read_bounded_file [OF files(1) len(1)] read_bounded_file [OF files(2) len(3)]
        read_bounded_file [OF files(3) len(2)] read_bounded_file [OF files(4) len(4)] bound_state_def)
  have event: "read_journal_event j (tx_manifest T)
      \<lparr>field_id = map_option derived_id (derived_event (tx_messages T)),
       field_content_sha256 = map_option derived_content_sha256 (derived_event (tx_messages T)),
       field_idempotency_key_sha256 = map_option derived_idempotency_key_sha256 (derived_event (tx_messages T)),
       field_message_sha256 = map_option message_sha (derived_event (tx_messages T))\<rparr> s = Inr (event_text_of (tx_messages T))"
    using files(6) len(7) txn_event_verifies [OF ok]
    by (cases "derived_event (tx_messages T)")
      (simp_all add: read_journal_event_def event_text_of_def read_bounded_def message_sha_def)
  show ?thesis
    using states event journal_names [OF d] txn_event_fields [OF ok] txn_assessment_verifies [OF ok]
      txn_manifest_reads [OF ok] read_bounded_file [OF files(7) len(5)] read_bounded_file [OF files(5) len(6)]
    by (simp add: read_journal_def f digest_mismatch_def message_sha_def tx_journal_def)
qed

section \<open>The bundle of a transaction in the outbox\<close>

definition total_bytes :: "OutboxEntry list \<Rightarrow> nat" where
  "total_bytes es = sum_list (map (length \<circ> out_json) es)"

definition fits :: "OutboxEntry list \<Rightarrow> OutboxEntry list \<Rightarrow> bool" where
  "fits es new \<longleftrightarrow> distinct (map out_id (es @ new)) \<and> length (es @ new) \<le> kMaximumMessages \<and>
     total_bytes (es @ new) \<le> kMaximumOutboxBytes"

lemma append_entry_fits:
  assumes "verified_outbox_message k mf t q = Inr v" and "fits es (v # vs)"
  shows "append_entry k mf t q es = Inr (es @ [v])" and "fits (es @ [v]) vs"
proof -
  have "find (\<lambda>e. out_id e = out_id v) es = None"
    using assms(2) by (auto simp: fits_def find_None_iff) (metis imageI)
  then show "append_entry k mf t q es = Inr (es @ [v])"
    using assms by (simp add: append_entry_def fits_def total_bytes_def Let_def)
  show "fits (es @ [v]) vs" using assms(2) by (simp add: fits_def)
qed

lemma verify_txn_bundle:
  assumes ok: "txn_ok T" and "tx_admit T" and f: "files_at (Bundle (tx_id T)) s = Some d" and d: "bundle_dir T d"
    and fit: "fits es (entries_of T)"
  shows "verify_bundle (tx_id T) es s = Inr (es @ entries_of T)"
proof -
  note files = bundle_file [OF f d]
  note len = txn_manifest_short [OF ok] txn_message_sizes [OF ok]
  note a = append_entry_fits [OF txn_assessment_verifies [OF ok, of False] fit [unfolded entries_of_def]]
  have assess: "append_file AssessmentKind ''assessment.json'' (tx_id T) (tx_manifest T) False s es =
      Inr (es @ [entry_of AssessmentKind (tx_source T) (tx_id T) False (derived_assessment (tx_messages T))])"
    using a(1) by (simp add: append_file_def files(1) read_bounded_file [OF files(1) len(2)])
  show ?thesis
  proof (cases "derived_event (tx_messages T)")
    case None
    with assess files bundle_names [OF d] txn_manifest_reads [OF ok] txn_event_fields [OF ok] assms(2) show ?thesis
      by (simp add: verify_bundle_def f read_bounded_file [OF files(3) len(1)] tx_id_def [symmetric] event_text_of_def
          entries_of_def Let_def)
  next
    case (Some e)
    have ev: "file_at (Bundle (tx_id T)) ''event.json'' s = Some (derived_json e)" using files(2) Some by (simp add: event_text_of_def)
    have "append_file EventKind ''event.json'' (tx_id T) (tx_manifest T) False s
        (es @ [entry_of AssessmentKind (tx_source T) (tx_id T) False (derived_assessment (tx_messages T))]) = Inr (es @ entries_of T)"
      using append_entry_fits(1) [OF txn_event_verifies [OF ok Some, of False]] a(2) Some
      by (simp add: append_file_def ev read_bounded_file [OF ev len(3) [OF Some]] entries_of_def)
    with Some assess files bundle_names [OF d] txn_manifest_reads [OF ok] txn_event_fields [OF ok] assms(2) show ?thesis
      by (simp add: verify_bundle_def f read_bounded_file [OF files(3) len(1)] tx_id_def [symmetric] Let_def)
  qed
qed

section \<open>The states of the disk\<close>

definition outbox_before :: "txn \<Rightarrow> OutboxEntry list \<Rightarrow> StateStore \<Rightarrow> bool" where
  "outbox_before T es s \<longleftrightarrow> files_at (Bundle (tx_id T)) s = None \<and> outbox_entries s = Inr es \<and>
     (tx_admit T \<longrightarrow> fits es (entries_of T))"

definition outbox_after :: "txn \<Rightarrow> OutboxEntry list \<Rightarrow> StateStore \<Rightarrow> bool" where
  "outbox_after T es s \<longleftrightarrow> tx_admit T \<and> outbox_entries s = Inr (es @ entries_of T) \<and>
     (\<exists>d. files_at (Bundle (tx_id T)) s = Some d \<and> bundle_dir T d)"

definition no_reset :: "StateStore \<Rightarrow> bool" where
  "no_reset s \<longleftrightarrow> files_at reset_journal s = None"

definition settled :: "ModelState \<Rightarrow> IdentityLedger \<Rightarrow> OutboxEntry list \<Rightarrow> StateStore \<Rightarrow> bool" where
  "settled st l es s \<longleftrightarrow> bound_state st l \<and> current_is (state_text st) (identity_ledger_json l) s \<and>
     live_names (transactions s) = [] \<and> outbox_entries s = Inr es \<and> no_reset s"

definition journal_at :: "txn \<Rightarrow> bool \<Rightarrow> StateStore \<Rightarrow> bool" where
  "journal_at T c s \<longleftrightarrow> live_names (transactions s) = [tx_id T] \<and>
     (\<exists>d. files_at (Transaction (tx_id T)) s = Some d \<and> journal_dir T c d)"

definition progress :: "txn \<Rightarrow> OutboxEntry list \<Rightarrow> string \<Rightarrow> string \<Rightarrow> bool \<Rightarrow> bool \<Rightarrow> StateStore \<Rightarrow> bool" where
  "progress T es st_text ids_text published c s \<longleftrightarrow> txn_ok T \<and> no_reset s \<and> journal_at T c s \<and> current_is st_text ids_text s \<and>
     (if published then outbox_after T es s else outbox_before T es s)"

definition pending :: "txn \<Rightarrow> OutboxEntry list \<Rightarrow> StateStore \<Rightarrow> bool" where
  "pending T es s \<longleftrightarrow> (\<exists>x y p c. x \<in> {state_text (tx_before T), state_text (tx_after T)} \<and>
     y \<in> {identity_ledger_json (tx_before_ledger T), identity_ledger_json (tx_after_ledger T)} \<and> progress T es x y p c s)"

text \<open>Predicates on the disk alone.\<close>

definition on_disk :: "(StateStore \<Rightarrow> bool) \<Rightarrow> bool" where
  "on_disk P \<longleftrightarrow> (\<forall>s n h c r. P s \<longrightarrow> P (s\<lparr>ticks := n\<rparr>) \<and> P (s\<lparr>halted := h\<rparr>) \<and> P (s\<lparr>store_counter := c\<rparr>) \<and> P (s\<lparr>store_ready := r\<rparr>))"

lemma outbox_entries_hidden [simp]:
  "outbox_entries (s\<lparr>ticks := n\<rparr>) = outbox_entries s" "outbox_entries (s\<lparr>halted := h\<rparr>) = outbox_entries s"
  "outbox_entries (s\<lparr>store_ready := r\<rparr>) = outbox_entries s" "outbox_entries (s\<lparr>store_counter := c\<rparr>) = outbox_entries s"
  "outbox_entries (s\<lparr>store_epoch := e\<rparr>) = outbox_entries s"
  by (rule outbox_entries_cong, simp)+

lemmas disk_predicates = current_is_def no_reset_def outbox_before_def outbox_after_def journal_at_def

lemma on_disk_states [simp]: "on_disk (settled st l es)" "on_disk (progress T es x y p c)" "on_disk (pending T es)"
  by (auto simp: on_disk_def settled_def progress_def pending_def disk_predicates)

lemma on_disk_conj [simp]: "on_disk P \<Longrightarrow> on_disk Q \<Longrightarrow> on_disk (\<lambda>s. P s \<and> Q s)"
  and on_disk_disj [simp]: "on_disk P \<Longrightarrow> on_disk Q \<Longrightarrow> on_disk (\<lambda>s. P s \<or> Q s)"
  by (simp_all add: on_disk_def)

lemma progress_pending:
  "progress T es x y p c s \<Longrightarrow> x \<in> {state_text (tx_before T), state_text (tx_after T)} \<Longrightarrow>
   y \<in> {identity_ledger_json (tx_before_ledger T), identity_ledger_json (tx_after_ledger T)} \<Longrightarrow> pending T es s"
  by (auto simp: pending_def)

section \<open>Rules for the effects\<close>

lemma on_diskD:
  assumes "on_disk P" and "P s"
  shows "P (s\<lparr>ticks := n\<rparr>)" "P (s\<lparr>halted := h\<rparr>)" "P (s\<lparr>store_counter := c\<rparr>)" "P (s\<lparr>store_ready := r\<rparr>)"
  using assms by (auto simp: on_disk_def)

lemma hoare_effect:
  assumes "whole flt" and "on_disk P" and "on_disk I" and "\<And>s. P s \<Longrightarrow> I s"
    and "\<And>s. P s \<Longrightarrow> Q (f s)" and "\<And>s. Q s \<Longrightarrow> I s"
  shows "hoare P (disk_effect flt what f part) (\<lambda>_. Q) (stopped flt I)"
proof (rule hoare_disk)
  fix s n h
  assume P: "P s"
  note Pn = on_diskD(1) [OF assms(2) P]
  show "Q (f (s\<lparr>ticks := Suc (ticks s)\<rparr>))" by (rule assms(5) [OF Pn])
  show "I s" by (rule assms(4) [OF P])
  show "I (s\<lparr>ticks := n, halted := h\<rparr>)" by (rule on_diskD(2) [OF assms(3) assms(4) [OF Pn]])
  show "I (f (s\<lparr>ticks := n\<rparr>))" by (rule assms(6) [OF assms(5) [OF Pn]])
  then show "I ((f (s\<lparr>ticks := n\<rparr>))\<lparr>halted := h\<rparr>)" by (rule on_diskD(2) [OF assms(3)])
qed (rule assms(1))

lemma hoare_tick:
  assumes "whole flt" and "on_disk P" and "on_disk I" and "\<And>s. P s \<Longrightarrow> I s"
  shows "hoare P (store_sync flt) (\<lambda>_. P) (stopped flt I)" and "hoare P (fail_if_requested flt) (\<lambda>_. P) (stopped flt I)"
  unfolding store_sync_def fail_if_requested_def by (rule hoare_effect [OF assms]; use assms(4) in simp)+

lemma hoare_next_counter: "on_disk P \<Longrightarrow> hoare P next_counter (\<lambda>_. P) E"
  by (simp add: hoare_def next_counter_def on_disk_def)

lemma hoare_store_write:
  assumes "whole flt" and "on_disk P" and "on_disk I" and "\<And>s. P s \<Longrightarrow> I s" and "\<And>s. P s \<Longrightarrow> files_at p s \<noteq> None"
    and "\<And>s. P s \<Longrightarrow> Q (write_file p name bytes s)" and "\<And>s. Q s \<Longrightarrow> I s"
  shows "hoare P (store_write flt p name bytes) (\<lambda>_. Q) (stopped flt I)"
  unfolding store_write_def make_private_directory_def
proof (rule hoare_bindS)
  have same: "ensure_files p s = s" if "P s" for s using assms(5) [OF that] by (auto simp: ensure_files_def)
  show "hoare P (disk_effect flt ''set private directory mode'' (ensure_files p) (\<lambda>_. id)) (\<lambda>_. P) (stopped flt I)"
    by (rule hoare_effect [OF assms(1-4)]) (simp_all add: same assms(4))
  fix x :: unit
  show "hoare P (bindS next_counter (\<lambda>_. disk_effect flt ''atomically replace persistent file'' (write_file p name bytes) (\<lambda>_. id)))
      (\<lambda>_. Q) (stopped flt I)"
    by (rule hoare_bindS [OF hoare_next_counter [OF assms(2)]], rule hoare_effect)
      (use assms in auto)
qed

lemma hoare_make_directory:
  assumes "whole flt" and "on_disk P" and "on_disk I" and "\<And>s. P s \<Longrightarrow> I s" and "\<And>s. P s \<Longrightarrow> Q (ensure_files p s)"
    and "\<And>s. Q s \<Longrightarrow> I s"
  shows "hoare P (make_private_directory flt p) (\<lambda>_. Q) (stopped flt I)"
  unfolding make_private_directory_def by (rule hoare_effect) (use assms in auto)

lemma hoare_rename:
  assumes "whole flt" and "on_disk P" and "on_disk I" and "\<And>s. P s \<Longrightarrow> I s"
    and "\<And>s. P s \<Longrightarrow> \<exists>d. files_at p s = Some d \<and> Q (move_files p q d s)" and "\<And>s. P s \<Longrightarrow> files_at q s = None"
    and "\<And>s. Q s \<Longrightarrow> I s"
  shows "hoare P (rename_directory flt what p q) (\<lambda>_. Q) (stopped flt I)"
proof (rule hoareI)
  fix s
  assume P: "P s"
  then obtain d where d: "files_at p s = Some d" using assms(5) by blast
  have moved: "Q (move_files p q d s)" if "P s \<and> files_at p s = Some d" for s
    using assms(5) [of s] that by auto
  have "on_disk (\<lambda>s. P s \<and> files_at p s = Some d)" using assms(2) by (simp add: on_disk_def)
  then have "hoare (\<lambda>s. P s \<and> files_at p s = Some d) (disk_effect flt what (move_files p q d) (\<lambda>_. id)) (\<lambda>_. Q) (stopped flt I)"
    by (rule hoare_effect [OF assms(1) _ assms(3)]) (use assms(4,7) moved in auto)
  then show "case rename_directory flt what p q s of (Inr x, s') \<Rightarrow> Q s' | (Inl e, s') \<Rightarrow> stopped flt I s'"
    using P d assms(6) [OF P] by (simp add: rename_directory_def hoare_def)
qed

section \<open>Frames\<close>

lemma parts_put [simp]:
  "transactions (put_files (Transaction n) d s) = AList.update n d (transactions s)"
  "outbox (put_files (Transaction n) d s) = outbox s" "transactions (put_files (Bundle n) d s) = transactions s"
  "outbox (put_files (Bundle n) d s) = AList.update n d (outbox s)" "transactions (put_files StateRoot d s) = transactions s"
  "outbox (put_files StateRoot d s) = outbox s"
  "transactions (drop_files (Transaction n) s) = AList.delete n (transactions s)"
  "outbox (drop_files (Transaction n) s) = outbox s" "transactions (drop_files (Bundle n) s) = transactions s"
  "outbox (drop_files (Bundle n) s) = AList.delete n (outbox s)"
  by (simp_all add: put_files.simps drop_files.simps)

lemma outbox_entries_parts [simp]:
  "outbox_entries (put_files (Transaction n) d s) = outbox_entries s" "outbox_entries (drop_files (Transaction n) s) = outbox_entries s"
  "outbox_entries (put_files StateRoot d s) = outbox_entries s"
  by (rule outbox_entries_cong, simp)+

lemma outbox_entries_dot [simp]:
  assumes "dot_name n"
  shows "outbox_entries (put_files (Bundle n) d s) = outbox_entries s" and "outbox_entries (drop_files (Bundle n) s) = outbox_entries s"
proof -
  have ne: "b \<noteq> n" if "b \<in> set (live_names ds)" for b ds using that assms by (auto simp: live_names_lookup)
  have "removeAll n (live_names (outbox s)) = live_names (outbox s)" using ne by (auto intro: removeAll_id)
  then show "outbox_entries (put_files (Bundle n) d s) = outbox_entries s" "outbox_entries (drop_files (Bundle n) s) = outbox_entries s"
    unfolding outbox_entries_def by (auto simp: live_names_update live_names_delete assms dest: ne intro!: verify_all_cong)
qed

text \<open>A directory with a dot name, where the store prepares its work.\<close>

definition aside :: "place \<Rightarrow> bool" where
  "aside p \<longleftrightarrow> (case p of Transaction n \<Rightarrow> dot_name n | Bundle n \<Rightarrow> dot_name n | StateDir n \<Rightarrow> dot_name n | StateRoot \<Rightarrow> False)"

lemma file_at_drop: "p \<noteq> q \<Longrightarrow> file_at p m (drop_files q s) = file_at p m s"
  by (simp add: file_at_def)

lemma aside_frame:
  assumes "aside p"
  shows "files_at q (put_files p d s) = (if q = p then Some d else files_at q s)"
    and "live_names (transactions (put_files p d s)) = live_names (transactions s)"
    and "live_names (transactions (drop_files p s)) = live_names (transactions s)"
    and "outbox_entries (put_files p d s) = outbox_entries s" and "outbox_entries (drop_files p s) = outbox_entries s"
proof -
  have "removeAll n (live_names ds) = live_names ds" if "dot_name n" for n ds
    using that by (auto simp: live_names_lookup intro: removeAll_id)
  then show "live_names (transactions (put_files p d s)) = live_names (transactions s)"
    "live_names (transactions (drop_files p s)) = live_names (transactions s)"
    using assms by (cases p; simp add: aside_def live_names_update live_names_delete put_files.simps drop_files.simps)+
  show "outbox_entries (put_files p d s) = outbox_entries s" "outbox_entries (drop_files p s) = outbox_entries s"
  proof (atomize (full), cases p)
    case (Bundle n)
    then show "outbox_entries (put_files p d s) = outbox_entries s \<and> outbox_entries (drop_files p s) = outbox_entries s"
      using assms by (simp add: aside_def)
  next
    case (StateDir n)
    then show "outbox_entries (put_files p d s) = outbox_entries s \<and> outbox_entries (drop_files p s) = outbox_entries s"
      by (auto intro!: outbox_entries_cong simp: put_files.simps drop_files.simps)
  qed (use assms in \<open>simp_all add: aside_def\<close>)
qed simp

lemma aside_ne: "aside p \<Longrightarrow> p \<noteq> StateRoot" "aside p \<Longrightarrow> p \<noteq> reset_journal"
  "aside p \<Longrightarrow> txn_ok T \<Longrightarrow> p \<noteq> Transaction (tx_id T)" "aside p \<Longrightarrow> txn_ok T \<Longrightarrow> p \<noteq> Bundle (tx_id T)"
  by (auto simp: aside_def dot_name_def txn_id_not_dot [unfolded dot_name_def])

lemma states_aside:
  assumes "aside p"
  shows "settled st l es (put_files p d s) = settled st l es s" "settled st l es (drop_files p s) = settled st l es s"
    and "progress T es x y b c (put_files p d s) = progress T es x y b c s"
    and "progress T es x y b c (drop_files p s) = progress T es x y b c s"
proof -
  note ne = aside_ne [OF assms]
  note fr = aside_frame [OF assms]
  have "progress T es x y b c (put_files p d s) = progress T es x y b c s" "progress T es x y b c (drop_files p s) = progress T es x y b c s"
    if "txn_ok T"
    using ne ne(3,4) [OF that]
    by (auto simp: progress_def disk_predicates file_at_put file_at_drop fr)
  then show "progress T es x y b c (put_files p d s) = progress T es x y b c s"
    "progress T es x y b c (drop_files p s) = progress T es x y b c s" by (auto simp: progress_def)
  show "settled st l es (put_files p d s) = settled st l es s" "settled st l es (drop_files p s) = settled st l es s"
    using ne by (auto simp: settled_def disk_predicates file_at_put file_at_drop fr)
qed

section \<open>Preparing a directory aside\<close>

definition staged :: "place \<Rightarrow> (string \<Rightarrow> string option) \<Rightarrow> StateStore \<Rightarrow> bool" where
  "staged p M s \<longleftrightarrow> (\<exists>d. files_at p s = Some d \<and> map_of d = M)"

text \<open>A predicate that the work aside at \<open>p\<close> leaves alone.\<close>

definition apart :: "place \<Rightarrow> (StateStore \<Rightarrow> bool) \<Rightarrow> bool" where
  "apart p R \<longleftrightarrow> on_disk R \<and> (\<forall>s d. R s \<longrightarrow> R (put_files p d s))"

definition tidy_except :: "place set \<Rightarrow> StateStore \<Rightarrow> bool" where
  "tidy_except X s \<longleftrightarrow> (\<forall>n. stale_name n \<longrightarrow>
     (n \<in> fst ` set (transactions s) \<longrightarrow> Transaction n \<in> X) \<and> (n \<in> fst ` set (outbox s) \<longrightarrow> Bundle n \<in> X))"

lemma tidy_put: "tidy_except X s \<Longrightarrow> p \<in> X \<Longrightarrow> tidy_except X (put_files p d s)"
  by (cases p) (auto simp: tidy_except_def put_files.simps set_update_keys)

lemma tidy_put_live:
  "tidy_except X s \<Longrightarrow> \<not> stale_name n \<Longrightarrow> tidy_except X (put_files (Transaction n) d s)"
  "tidy_except X s \<Longrightarrow> \<not> stale_name n \<Longrightarrow> tidy_except X (put_files (Bundle n) d s)"
  "tidy_except X s \<Longrightarrow> tidy_except X (put_files StateRoot d s)"
  by (auto simp: tidy_except_def set_update_keys)

lemma set_delete_keys: "fst ` set (AList.delete k al) = fst ` set al - {k}"
  by (auto simp: delete_conv' simp flip: dom_map_of_conv_image_fst)

lemma tidy_drop: "tidy_except X s \<Longrightarrow> tidy_except (X - {p}) (drop_files p s)"
  by (cases p) (auto simp: tidy_except_def drop_files.simps set_delete_keys)

lemma tidy_weaken: "tidy_except X s \<Longrightarrow> X \<subseteq> Y \<Longrightarrow> tidy_except Y s"
  by (auto simp: tidy_except_def)

lemma on_disk_tidy [simp]: "on_disk (tidy_except X)" and on_disk_staged [simp]: "on_disk (staged p M)"
  by (simp_all add: on_disk_def tidy_except_def staged_def)

lemma stale_dot: "stale_name n \<Longrightarrow> dot_name n"
  by (cases n) (auto simp: stale_name_def dot_name_def)

lemma tidy_absent: "tidy_except {} s \<Longrightarrow> stale_name n \<Longrightarrow> files_at (Transaction n) s = None \<and> files_at (Bundle n) s = None"
  by (auto simp: tidy_except_def files_at.simps map_of_eq_None_iff)

lemma apart_conj: "apart p R \<Longrightarrow> apart p R' \<Longrightarrow> apart p (\<lambda>s. R s \<and> R' s)"
  by (simp add: apart_def)

lemma apart_states: "aside p \<Longrightarrow> apart p (settled st l es)" "aside p \<Longrightarrow> apart p (progress T es x y b c)"
  "p \<in> X \<Longrightarrow> apart p (tidy_except X)"
  by (simp_all add: apart_def states_aside tidy_put)

lemma apart_outbox_before:
  assumes "aside p" and "txn_ok T"
  shows "apart p (outbox_before T es)"
  using aside_frame [OF assms(1)] aside_ne(4) [OF assms] by (auto simp: apart_def on_disk_def outbox_before_def)

lemma hoare_stage_write:
  assumes "whole flt" and "apart p R"
  shows "hoare (\<lambda>s. R s \<and> staged p M s) (store_write flt p name bytes) (\<lambda>_ s. R s \<and> staged p (M(name \<mapsto> bytes)) s) (stopped flt R)"
proof (rule hoare_store_write)
  fix s
  assume "R s \<and> staged p M s"
  then obtain d where d: "R s" "files_at p s = Some d" "map_of d = M" by (auto simp: staged_def)
  then have "map_of (AList.update name bytes d) = M(name \<mapsto> bytes)" by (simp add: update_conv')
  then show "R (write_file p name bytes s) \<and> staged p (M(name \<mapsto> bytes)) (write_file p name bytes s)"
    using d assms(2) by (simp add: write_file_def apart_def staged_def)
next
  show "on_disk (\<lambda>s. R s \<and> staged p M s)" using assms(2) by (simp add: apart_def)
  show "on_disk R" using assms(2) by (simp add: apart_def)
  show "files_at p s \<noteq> None" if "R s \<and> staged p M s" for s using that by (auto simp: staged_def)
qed (use assms(1) in auto)

lemma hoare_stage_messages:
  assumes "whole flt" and "apart p R"
  shows "hoare (\<lambda>s. R s \<and> staged p M s) (persist_messages flt p a e)
    (\<lambda>_ s. R s \<and> staged p (M ++ map_of ((''assessment.json'', a) # (case e of None \<Rightarrow> [] | Some t \<Rightarrow> [(''event.json'', t)]))) s) (stopped flt R)"
proof (cases e)
  case None
  have "hoare (\<lambda>s. R s \<and> staged p M s) (store_write flt p ''assessment.json'' a)
      (\<lambda>_ s. R s \<and> staged p (M(''assessment.json'' \<mapsto> a)) s) (stopped flt R)" by (rule hoare_stage_write [OF assms])
  then show ?thesis by (auto simp: persist_messages_def None intro!: hoare_bindS hoare_returnS)
next
  case (Some t)
  have "M ++ map_of [(''assessment.json'', a), (''event.json'', t)] = (M(''assessment.json'' \<mapsto> a))(''event.json'' \<mapsto> t)"
    by (auto simp: map_add_def fun_eq_iff)
  then show ?thesis unfolding persist_messages_def Some option.case
    using hoare_stage_write [OF assms, of M "''assessment.json''" a] hoare_stage_write [OF assms, of _ "''event.json''" t]
    by (auto intro!: hoare_bindS)
qed

section \<open>The steps of a transaction\<close>

lemma progress_write_state: "progress T es x y p c s \<Longrightarrow> progress T es x' y p c (write_file StateRoot ''state.json'' x' s)"
  by (auto simp: progress_def disk_predicates file_at_write) (auto simp: write_file_def)

lemma progress_write_ids: "progress T es x y p c s \<Longrightarrow> progress T es x y' p c (write_file StateRoot ''identity-ledger.json'' y' s)"
  by (auto simp: progress_def disk_predicates file_at_write) (auto simp: write_file_def)


lemma progress_commit:
  assumes "progress T es x y p False s"
  shows "progress T es x y p True (write_file (Transaction (tx_id T)) ''committed'' committed_mark s)"
proof -
  from assms obtain d where d: "files_at (Transaction (tx_id T)) s = Some d" "journal_dir T False d" and
    l: "live_names (transactions s) = [tx_id T]" and ok: "txn_ok T" by (auto simp: progress_def journal_at_def)
  have "map_of (journal_files T) ''committed'' = None"
    by (cases "derived_event (tx_messages T)") (simp_all add: journal_files_def bundle_files_def)
  then have "journal_dir T True (AList.update ''committed'' committed_mark d)"
    using d(2) by (auto simp: journal_dir_def update_conv' map_add_def fun_eq_iff split: option.splits)
  moreover have "tx_id T \<in> set (live_names (transactions s))" using l by simp
  then have "tx_id T \<in> fst ` set (transactions s)" by (auto simp: live_names_def)
  then have "live_names (AList.update (tx_id T) d' (transactions s)) = [tx_id T]" for d' using l by (simp add: live_names_update)
  ultimately show ?thesis using assms d
    by (auto simp: progress_def disk_predicates file_at_write) (auto simp: write_file_def)
qed

lemma live_names_move:
  assumes "dot_name n" and "\<not> dot_name m" and "map_of ds m = None"
  shows "live_names (AList.update m d (AList.delete n ds)) = live_names ds @ [m]"
proof -
  have "removeAll n (live_names ds) = live_names ds" using assms(1) by (auto simp: live_names_lookup intro: removeAll_id)
  moreover have "m \<notin> fst ` set (AList.delete n ds)" using assms(3) by (auto simp: set_delete_keys map_of_eq_None_iff)
  ultimately show ?thesis using assms(2) by (simp add: live_names_update live_names_delete)
qed

lemma progress_begin:
  assumes ok: "txn_ok T" and set: "settled (tx_before T) (tx_before_ledger T) es s" and out: "outbox_before T es s"
    and n: "dot_name n" and st: "files_at (Transaction n) s = Some d" "map_of d = map_of (journal_files T)"
  shows "progress T es (state_text (tx_before T)) (identity_ledger_json (tx_before_ledger T)) False False
    (move_files (Transaction n) (Transaction (tx_id T)) d s)"
proof -
  from set have l: "live_names (transactions s) = []" by (simp add: settled_def)
  then have "tx_id T \<notin> set (live_names (transactions s))" by simp
  with txn_id_not_dot [OF ok] have "map_of (transactions s) (tx_id T) = None" by (auto simp: live_names_lookup)
  from live_names_move [OF n txn_id_not_dot [OF ok] this] l
  have "live_names (transactions (move_files (Transaction n) (Transaction (tx_id T)) d s)) = [tx_id T]"
    by (simp add: move_files_def)
  then show ?thesis using ok set out st(2)
    by (auto simp: progress_def settled_def disk_predicates move_files_def file_at_put file_at_drop journal_dir_def)
qed

lemma progress_publish:
  assumes pr: "progress T es x y False c s" and adm: "tx_admit T" and n: "dot_name n"
    and st: "files_at (Bundle n) s = Some d" "map_of d = map_of (bundle_files T)"
  shows "progress T es x y True c (move_files (Bundle n) (Bundle (tx_id T)) d s)"
proof -
  let ?t = "move_files (Bundle n) (Bundle (tx_id T)) d s"
  from pr have ok: "txn_ok T" and out: "outbox_before T es s" by (simp_all add: progress_def)
  note nd = txn_id_not_dot [OF ok]
  from out have none: "map_of (outbox s) (tx_id T) = None" and es: "outbox_entries s = Inr es" and fit: "fits es (entries_of T)"
    using adm by (auto simp: outbox_before_def files_at.simps)
  have names: "live_names (outbox ?t) = live_names (outbox s) @ [tx_id T]"
    using live_names_move [OF n nd none] by (simp add: move_files_def)
  have same: "files_at (Bundle b) ?t = files_at (Bundle b) s" if "b \<in> set (live_names (outbox s))" for b
    using that n none by (auto simp: move_files_def live_names_lookup)
  have "verify_all (live_names (outbox s)) [] ?t = Inr es"
    using es verify_all_cong [OF same] by (simp add: outbox_entries_def)
  moreover have dir: "files_at (Bundle (tx_id T)) ?t = Some d" "bundle_dir T d" using st(2) by (simp_all add: move_files_def bundle_dir_def)
  from verify_txn_bundle [OF ok adm this fit] have "verify_bundle (tx_id T) es ?t = Inr (es @ entries_of T)" .
  ultimately have "outbox_entries ?t = Inr (es @ entries_of T)" by (simp add: outbox_entries_def names verify_all_append)
  then show ?thesis using pr adm dir
    by (auto simp: progress_def disk_predicates file_at_put file_at_drop move_files_def)
qed

definition outcome :: "txn \<Rightarrow> OutboxEntry list \<Rightarrow> OutboxEntry list" where
  "outcome T es = (if tx_admit T then es @ entries_of T else es)"

lemma progress_finish:
  assumes "progress T es (state_text (tx_after T)) (identity_ledger_json (tx_after_ledger T)) (tx_admit T) c s"
  shows "settled (tx_after T) (tx_after_ledger T) (outcome T es) (drop_files (Transaction (tx_id T)) s)"
  using assms
  by (auto simp: progress_def settled_def disk_predicates file_at_drop live_names_delete txn_ok_def outcome_def split: if_splits)

lemma hoare_remove:
  assumes "whole flt" and "on_disk P" and "on_disk I" and "\<And>s. P s \<Longrightarrow> I s" and "\<And>s. P s \<Longrightarrow> Q (drop_files p s)"
    and "\<And>s. Q s \<Longrightarrow> I s"
  shows "hoare P (remove_directory flt p) (\<lambda>_. Q) (stopped flt I)"
  unfolding remove_directory_def by (rule hoare_effect) (use assms in auto)


section \<open>The journal and the bundle\<close>

lemma hoare_read_ok:
  assumes "\<And>s. P s \<Longrightarrow> g s = Inr x" and "hoare P (f x) R E"
  shows "hoare P (bindS (readS g) f) R E"
  using assms by (auto simp: hoare_def)

lemma hoare_stage_directory:
  assumes "whole flt" and "apart p R"
  shows "hoare (\<lambda>s. R s \<and> files_at p s = None) (make_private_directory flt p) (\<lambda>_ s. R s \<and> staged p Map.empty s) (stopped flt R)"
proof (rule hoare_make_directory)
  show "on_disk R" "on_disk (\<lambda>s. R s \<and> files_at p s = None)" using assms(2) by (simp_all add: apart_def on_disk_def)
  show "R (ensure_files p s) \<and> staged p Map.empty (ensure_files p s)" if "R s \<and> files_at p s = None" for s
    using that assms(2) by (simp add: ensure_files_def apart_def staged_def)
qed (use assms(1) in auto)

lemma hoare_stage_tick:
  assumes "whole flt" and "apart p R"
  shows "hoare (\<lambda>s. R s \<and> staged p M s) (store_sync flt) (\<lambda>_ s. R s \<and> staged p M s) (stopped flt R)"
    and "hoare (\<lambda>s. R s \<and> staged p M s) (fail_if_requested flt) (\<lambda>_ s. R s \<and> staged p M s) (stopped flt R)"
  by (rule hoare_tick; use assms in \<open>simp add: apart_def\<close>)+

lemma tidy_move:
  assumes "tidy_except {p} s" and "\<not> stale_name m"
  shows "tidy_except {} (move_files p (Transaction m) d s)" and "tidy_except {} (move_files p (Bundle m) d s)"
  using tidy_put_live(1,2) [OF _ assms(2)] tidy_drop [OF assms(1), of p] by (simp_all add: move_files_def)

lemma txn_id_not_stale: "txn_ok T \<Longrightarrow> \<not> stale_name (tx_id T)"
  using stale_dot txn_id_not_dot by blast

lemma stopped_weaken: "hoare P m Q (stopped flt I) \<Longrightarrow> (\<And>s. I s \<Longrightarrow> J s) \<Longrightarrow> hoare P m Q (stopped flt J)"
  by (erule hoare_weaken) (auto simp: stopped_def)

definition staging_name :: "string \<Rightarrow> string \<Rightarrow> nat \<Rightarrow> string" where
  "staging_name prefix j n = prefix @ j @ ''-'' @ to_string n"

lemma staging_stale: "prefix \<in> {''.staging-'', ''.recovery-''} \<Longrightarrow> stale_name (staging_name prefix j n)"
  by (auto simp: stale_name_def staging_name_def)

lemma journal_map:
  "((((Map.empty(''before.json'' \<mapsto> state_text (tx_before T)))(''after.json'' \<mapsto> state_text (tx_after T)))
      (''before-identities.json'' \<mapsto> identity_ledger_json (tx_before_ledger T)))
      (''after-identities.json'' \<mapsto> identity_ledger_json (tx_after_ledger T)) ++
     map_of ((''assessment.json'', derived_json (derived_assessment (tx_messages T))) #
       (case event_text_of (tx_messages T) of None \<Rightarrow> [] | Some t \<Rightarrow> [(''event.json'', t)])))(''manifest.json'' \<mapsto> tx_manifest T) =
   map_of (journal_files T)"
  by (cases "derived_event (tx_messages T)") (auto simp: journal_files_def bundle_files_def event_text_of_def map_add_def fun_eq_iff)

lemma bundle_map:
  "(Map.empty ++ map_of ((''assessment.json'', derived_json (derived_assessment (tx_messages T))) #
       (case event_text_of (tx_messages T) of None \<Rightarrow> [] | Some t \<Rightarrow> [(''event.json'', t)])))(''manifest.json'' \<mapsto> tx_manifest T) =
   map_of (bundle_files T)"
  by (cases "derived_event (tx_messages T)") (auto simp: bundle_files_def event_text_of_def map_add_def fun_eq_iff)

lemma hoare_journal_move:
  assumes w: "whole flt" and n: "stale_name n" and ok: "txn_ok T"
    and R: "\<And>s. R s \<longleftrightarrow> (settled (tx_before T) (tx_before_ledger T) es s \<and> outbox_before T es s) \<and> tidy_except {Transaction n} s"
  shows "hoare (\<lambda>s. R s \<and> staged (Transaction n) (map_of (journal_files T)) s) (rename_directory flt what (Transaction n) (Transaction (tx_id T)))
    (\<lambda>_ s. progress T es (state_text (tx_before T)) (identity_ledger_json (tx_before_ledger T)) False False s \<and> tidy_except {} s)
    (stopped flt (\<lambda>s. settled (tx_before T) (tx_before_ledger T) es s \<or> pending T es s))"
proof (rule hoare_rename [OF w])
  fix s
  assume s: "R s \<and> staged (Transaction n) (map_of (journal_files T)) s"
  then obtain d where "files_at (Transaction n) s = Some d" "map_of d = map_of (journal_files T)" by (auto simp: staged_def)
  then show "\<exists>d. files_at (Transaction n) s = Some d \<and>
      progress T es (state_text (tx_before T)) (identity_ledger_json (tx_before_ledger T)) False False
        (move_files (Transaction n) (Transaction (tx_id T)) d s) \<and>
      tidy_except {} (move_files (Transaction n) (Transaction (tx_id T)) d s)"
    using s progress_begin [OF ok _ _ stale_dot [OF n]] tidy_move(1) [OF _ txn_id_not_stale [OF ok]] by (auto simp: R)
  show "settled (tx_before T) (tx_before_ledger T) es s \<or> pending T es s" using s by (simp add: R)
  show "files_at (Transaction (tx_id T)) s = None"
    using s txn_id_not_dot [OF ok] live_names_lookup [of "tx_id T" "transactions s"] by (simp add: R settled_def files_at.simps)
next
  have "on_disk (outbox_before T es)" by (auto simp: on_disk_def outbox_before_def)
  then show "on_disk (\<lambda>s. R s \<and> staged (Transaction n) (map_of (journal_files T)) s)" unfolding R by (intro on_disk_conj) simp_all
qed (auto intro: progress_pending)

lemma hoare_write_journal:
  assumes w: "whole flt" and ok: "txn_ok T"
  shows "hoare (\<lambda>s. settled (tx_before T) (tx_before_ledger T) es s \<and> outbox_before T es s \<and> tidy_except {} s)
    (write_journal flt (state_text (tx_before T)) (state_text (tx_after T)) (identity_ledger_json (tx_before_ledger T))
       (identity_ledger_json (tx_after_ledger T)) (tx_messages T) (Inr (tx_manifest T)))
    (\<lambda>_ s. progress T es (state_text (tx_before T)) (identity_ledger_json (tx_before_ledger T)) False False s \<and> tidy_except {} s)
    (stopped flt (\<lambda>s. settled (tx_before T) (tx_before_ledger T) es s \<or> pending T es s))"
    (is "hoare ?P _ ?Q (stopped flt ?I)")
proof -
  have absent: "files_at (Transaction (tx_id T)) s = None" if "?P s" for s
    using that txn_id_not_dot [OF ok] live_names_lookup [of "tx_id T" "transactions s"] by (simp add: settled_def files_at.simps)
  have P: "on_disk ?P" by (auto simp: on_disk_def settled_def disk_predicates tidy_except_def)
  have ticks: "hoare (?Q ()) (store_sync flt) ?Q (stopped flt ?I)" "hoare (?Q ()) (fail_if_requested flt) ?Q (stopped flt ?I)"
    by (rule hoare_tick [OF w]; auto intro: progress_pending)+
  have staging: "hoare ?P
     (bindS (make_private_directory flt p) (\<lambda>_.
      bindS (store_write flt p ''before.json'' (state_text (tx_before T))) (\<lambda>_.
      bindS (store_write flt p ''after.json'' (state_text (tx_after T))) (\<lambda>_.
      bindS (store_write flt p ''before-identities.json'' (identity_ledger_json (tx_before_ledger T))) (\<lambda>_.
      bindS (store_write flt p ''after-identities.json'' (identity_ledger_json (tx_after_ledger T))) (\<lambda>_.
      bindS (persist_messages flt p (derived_json (derived_assessment (tx_messages T))) (event_text_of (tx_messages T))) (\<lambda>_.
      bindS (store_write flt p ''manifest.json'' (tx_manifest T)) (\<lambda>_.
      bindS (store_sync flt) (\<lambda>_.
      bindS (fail_if_requested flt) (\<lambda>_.
      bindS (rename_directory flt what p (Transaction (tx_id T))) (\<lambda>_.
      bindS (store_sync flt) (\<lambda>_. fail_if_requested flt)))))))))))) ?Q (stopped flt ?I)"
    if p: "p = Transaction (staging_name ''.staging-'' (tx_id T) n)" for p n what
  proof -
    let ?n = "staging_name ''.staging-'' (tx_id T) n"
    define R where "R s \<longleftrightarrow> (settled (tx_before T) (tx_before_ledger T) es s \<and> outbox_before T es s) \<and> tidy_except {p} s" for s
    have st: "stale_name ?n" by (simp add: staging_stale)
    have dn: "dot_name ?n" using stale_dot [OF st] .
    then have a: "aside p" by (simp add: p aside_def)
    then have R: "apart p R" unfolding R_def [abs_def] by (intro apart_conj apart_states apart_outbox_before ok) simp_all
    note stage = hoare_stage_write [OF w R]
    have pre: "R s \<and> files_at p s = None" if "?P s" for s
      using that tidy_absent [OF _ st] by (auto simp: R_def p intro: tidy_weaken)
    have move: "hoare (\<lambda>s. R s \<and> staged p (map_of (journal_files T)) s) (rename_directory flt what p (Transaction (tx_id T))) ?Q (stopped flt ?I)"
      unfolding p by (rule hoare_journal_move [OF w st ok]) (simp add: R_def p)
    have RI: "?I s" if "R s" for s using that by (simp add: R_def)
    note weak = stopped_weaken [OF _ RI]
    show ?thesis
      by (rule hoare_pre [OF _ pre])
        (rule hoare_bindS, rule weak [OF hoare_stage_directory [OF w R]], assumption,
         (rule hoare_bindS, rule weak [OF stage], assumption)+,
         rule hoare_bindS, rule weak [OF hoare_stage_messages [OF w R]], assumption,
         rule hoare_bindS, rule weak [OF stage], assumption,
         unfold journal_map, rule hoare_bindS, rule weak [OF hoare_stage_tick(1) [OF w R]], assumption,
         rule hoare_bindS, rule weak [OF hoare_stage_tick(2) [OF w R]], assumption,
         rule hoare_bindS, rule move, rule hoare_bindS, rule ticks, rule ticks)
  qed
  show ?thesis
    unfolding write_journal_def Let_def bindS_simps
    by (rule hoare_read_ok, simp add: absent flip: tx_id_def, rule hoare_bindS [OF hoare_next_counter [OF P]],
        unfold tx_id_def [symmetric], rule staging, simp add: staging_name_def)
qed


lemma hoare_publish_move:
  assumes w: "whole flt" and n: "stale_name n" and adm: "tx_admit T" and ok: "txn_ok T"
    and R: "\<And>s. R s \<longleftrightarrow> progress T es x y False c s \<and> tidy_except {Bundle n} s" and I: "on_disk I" "\<And>s. progress T es x y False c s \<Longrightarrow> I s"
    "\<And>s. progress T es x y True c s \<Longrightarrow> I s"
  shows "hoare (\<lambda>s. R s \<and> staged (Bundle n) (map_of (bundle_files T)) s) (rename_directory flt what (Bundle n) (Bundle (tx_id T)))
    (\<lambda>_ s. progress T es x y True c s \<and> tidy_except {} s) (stopped flt I)"
proof (rule hoare_rename [OF w])
  fix s
  assume s: "R s \<and> staged (Bundle n) (map_of (bundle_files T)) s"
  then obtain d where "files_at (Bundle n) s = Some d" "map_of d = map_of (bundle_files T)" by (auto simp: staged_def)
  then show "\<exists>d. files_at (Bundle n) s = Some d \<and> progress T es x y True c (move_files (Bundle n) (Bundle (tx_id T)) d s) \<and>
      tidy_except {} (move_files (Bundle n) (Bundle (tx_id T)) d s)"
    using s progress_publish [OF _ adm stale_dot [OF n]] tidy_move(2) [OF _ txn_id_not_stale [OF ok]] by (auto simp: R)
  show "I s" using s I by (simp add: R)
  show "files_at (Bundle (tx_id T)) s = None" using s by (simp add: R progress_def outbox_before_def)
next
  show "on_disk (\<lambda>s. R s \<and> staged (Bundle n) (map_of (bundle_files T)) s)" unfolding R by simp
qed (use I in auto)

lemma hoare_publish_bundle:
  assumes w: "whole flt" and prefix: "prefix \<in> {''.staging-'', ''.recovery-''}" and adm: "tx_admit T" and ok: "txn_ok T"
    and I: "on_disk I" "\<And>s. progress T es x y False c s \<Longrightarrow> I s" "\<And>s. progress T es x y True c s \<Longrightarrow> I s"
  shows "hoare (\<lambda>s. progress T es x y False c s \<and> tidy_except {} s)
    (publish_bundle flt injector prefix what (tx_id T) (derived_json (derived_assessment (tx_messages T))) (event_text_of (tx_messages T)) (tx_manifest T))
    (\<lambda>_ s. progress T es x y True c s \<and> tidy_except {} s) (stopped flt I)" (is "hoare ?P _ ?Q _")
proof -
  define inject where "inject = (if injector then fail_if_requested flt else returnS ())"
  have ticks: "hoare (?Q ()) (store_sync flt) ?Q (stopped flt I)" "hoare (?Q ()) inject ?Q (stopped flt I)"
    using I by (auto simp: inject_def intro!: hoare_tick [OF w] hoare_returnS)
  have staging: "hoare ?P
     (bindS (make_private_directory flt p) (\<lambda>_.
      bindS (persist_messages flt p (derived_json (derived_assessment (tx_messages T))) (event_text_of (tx_messages T))) (\<lambda>_.
      bindS (store_write flt p ''manifest.json'' (tx_manifest T)) (\<lambda>_.
      bindS (store_sync flt) (\<lambda>_.
      bindS inject (\<lambda>_.
      bindS (rename_directory flt what p (Bundle (tx_id T))) (\<lambda>_.
      bindS (store_sync flt) (\<lambda>_. inject)))))))) ?Q (stopped flt I)"
    if p: "p = Bundle (staging_name prefix (tx_id T) n)" for p n
  proof -
    define R where "R s \<longleftrightarrow> progress T es x y False c s \<and> tidy_except {p} s" for s
    have st: "stale_name (staging_name prefix (tx_id T) n)" using prefix by (rule staging_stale)
    then have "aside p" by (simp add: p aside_def stale_dot)
    then have R: "apart p R" unfolding R_def [abs_def] by (intro apart_conj apart_states) simp_all
    have pre: "R s \<and> files_at p s = None" if "?P s" for s
      using that tidy_absent [OF _ st] by (auto simp: R_def p intro: tidy_weaken)
    have RI: "I s" if "R s" for s using that I by (simp add: R_def)
    note weak = stopped_weaken [OF _ RI]
    have injects: "hoare (\<lambda>s. R s \<and> staged p M s) inject (\<lambda>_ s. R s \<and> staged p M s) (stopped flt R)" for M
      unfolding inject_def by (intro hoare_if hoare_stage_tick [OF w R] hoare_returnS)
    have move: "hoare (\<lambda>s. R s \<and> staged p (map_of (bundle_files T)) s) (rename_directory flt what p (Bundle (tx_id T))) ?Q (stopped flt I)"
      unfolding p by (rule hoare_publish_move [OF w st adm ok _ I]) (simp_all add: R_def p)
    show ?thesis
      by (rule hoare_pre [OF _ pre])
        (rule hoare_bindS, rule weak [OF hoare_stage_directory [OF w R]], assumption,
         rule hoare_bindS, rule weak [OF hoare_stage_messages [OF w R]], assumption,
         rule hoare_bindS, rule weak [OF hoare_stage_write [OF w R]], assumption,
         unfold bundle_map, rule hoare_bindS, rule weak [OF hoare_stage_tick(1) [OF w R]], assumption,
         rule hoare_bindS, rule weak [OF injects], assumption,
         rule hoare_bindS, rule move, rule hoare_bindS, rule ticks, rule ticks)
  qed
  show ?thesis
    unfolding publish_bundle_def Let_def inject_def [symmetric]
    by (rule hoare_bindS [OF hoare_next_counter], simp, rule staging, simp add: staging_name_def)
qed


section \<open>A whole transaction\<close>

lemma progressD:
  assumes "progress T es x y p c s"
  obtains d where "txn_ok T" and "files_at (Transaction (tx_id T)) s = Some d" and "journal_dir T c d"
    and "file_at StateRoot ''state.json'' s = Some x" and "file_at StateRoot ''identity-ledger.json'' s = Some y"
  using assms by (auto simp: progress_def journal_at_def current_is_def)

lemma journal_unchanged:
  assumes "progress T es (state_text (tx_after T)) (identity_ledger_json (tx_after_ledger T)) p True s"
  shows "journal_changed (tx_id T) (state_text (tx_before T)) (state_text (tx_after T)) (identity_ledger_json (tx_before_ledger T))
      (identity_ledger_json (tx_after_ledger T)) (derived_json (derived_assessment (tx_messages T))) (tx_manifest T) s = Inr False"
    and "check_journal_event (tx_id T) (event_text_of (tx_messages T)) s = Inr ()"
proof -
  obtain d where ok: "txn_ok T" and d: "files_at (Transaction (tx_id T)) s = Some d" "journal_dir T True d"
    and cur: "file_at StateRoot ''state.json'' s = Some (state_text (tx_after T))"
      "file_at StateRoot ''identity-ledger.json'' s = Some (identity_ledger_json (tx_after_ledger T))"
    using assms by (rule progressD)
  note files = journal_file [OF d]
  note b = ok [unfolded txn_ok_def, THEN conjunct1] and a = ok [unfolded txn_ok_def, THEN conjunct2, THEN conjunct1]
  note len = state_text_length [OF b] state_text_length [OF a] txn_manifest_short [OF ok] txn_message_sizes [OF ok]
  have mark: "length committed_mark \<le> kMaximumStateBytes" by (simp add: committed_mark_def kMaximumStateBytes_def)
  show "journal_changed (tx_id T) (state_text (tx_before T)) (state_text (tx_after T)) (identity_ledger_json (tx_before_ledger T))
      (identity_ledger_json (tx_after_ledger T)) (derived_json (derived_assessment (tx_messages T))) (tx_manifest T) s = Inr False"
    using files cur len mark by (simp add: journal_changed_def differs_def read_bounded_def)
  show "check_journal_event (tx_id T) (event_text_of (tx_messages T)) s = Inr ()"
    using files(6) len(7) by (cases "derived_event (tx_messages T)")
      (simp_all add: check_journal_event_def event_text_of_def differs_def read_bounded_def)
qed

lemma bundle_unchanged:
  assumes "progress T es x y (tx_admit T) c s"
  shows "check_bundle (tx_admit T) (tx_id T) (derived_json (derived_assessment (tx_messages T))) (event_text_of (tx_messages T))
      (tx_manifest T) s = Inr ()"
proof (cases "tx_admit T")
  case True
  with assms obtain d where ok: "txn_ok T" and d: "files_at (Bundle (tx_id T)) s = Some d" "bundle_dir T d"
    by (auto simp: progress_def outbox_after_def)
  note files = bundle_file [OF d]
  note len = txn_manifest_short [OF ok] txn_message_sizes [OF ok]
  show ?thesis using files len True
    by (cases "derived_event (tx_messages T)")
      (simp_all add: check_bundle_def bundle_changed_def event_text_of_def differs_def read_bounded_def)
next
  case False
  with assms show ?thesis by (simp add: progress_def outbox_before_def check_bundle_def)
qed

lemma journal_present: "progress T es x y p c s \<Longrightarrow> files_at (Transaction (tx_id T)) s \<noteq> None"
  by (auto simp: progress_def journal_at_def)

lemma tidy_write:
  "tidy_except X s \<Longrightarrow> tidy_except X (write_file StateRoot m b s)"
  "tidy_except X s \<Longrightarrow> txn_ok T \<Longrightarrow> tidy_except X (write_file (Transaction (tx_id T)) m b s)"
  by (simp_all add: write_file_def tidy_put_live txn_id_not_stale)

text \<open>An open transaction, or the new state; what an interruption may leave is that or the old state.\<close>

definition finishing :: "txn \<Rightarrow> OutboxEntry list \<Rightarrow> StateStore \<Rightarrow> bool" where
  "finishing T es s \<longleftrightarrow> pending T es s \<or> settled (tx_after T) (tx_after_ledger T) (outcome T es) s"

definition consistent :: "txn \<Rightarrow> OutboxEntry list \<Rightarrow> StateStore \<Rightarrow> bool" where
  "consistent T es s \<longleftrightarrow> settled (tx_before T) (tx_before_ledger T) es s \<or> finishing T es s"

lemma on_disk_consistent [simp]: "on_disk (consistent T es)" and on_disk_finishing [simp]: "on_disk (finishing T es)"
  unfolding consistent_def [abs_def] finishing_def [abs_def] by simp_all

lemma consistentI:
  "settled (tx_before T) (tx_before_ledger T) es s \<Longrightarrow> consistent T es s"
  "pending T es s \<Longrightarrow> consistent T es s"
  "settled (tx_after T) (tx_after_ledger T) (outcome T es) s \<Longrightarrow> consistent T es s"
  by (simp_all add: consistent_def finishing_def)

lemma finishingI:
  "pending T es s \<Longrightarrow> finishing T es s" "settled (tx_after T) (tx_after_ledger T) (outcome T es) s \<Longrightarrow> finishing T es s"
  by (simp_all add: finishing_def)

lemma hoare_current_writes:
  assumes w: "whole flt" and I: "on_disk I" "\<And>x y s. x \<in> {state_text (tx_before T), state_text (tx_after T)} \<Longrightarrow>
     y \<in> {identity_ledger_json (tx_before_ledger T), identity_ledger_json (tx_after_ledger T)} \<Longrightarrow> progress T es x y p c s \<Longrightarrow> I s"
    and x: "x \<in> {state_text (tx_before T), state_text (tx_after T)}"
    and y: "y \<in> {identity_ledger_json (tx_before_ledger T), identity_ledger_json (tx_after_ledger T)}"
  shows "hoare (\<lambda>s. progress T es x y p c s \<and> tidy_except {} s) (store_write flt StateRoot ''state.json'' (state_text (tx_after T)))
      (\<lambda>_ s. progress T es (state_text (tx_after T)) y p c s \<and> tidy_except {} s) (stopped flt I)"
    and "hoare (\<lambda>s. progress T es x y p c s \<and> tidy_except {} s)
      (store_write flt StateRoot ''identity-ledger.json'' (identity_ledger_json (tx_after_ledger T)))
      (\<lambda>_ s. progress T es x (identity_ledger_json (tx_after_ledger T)) p c s \<and> tidy_except {} s) (stopped flt I)"
  by (rule hoare_store_write [OF w _ I(1)]; use I(2) x y in \<open>auto simp: files_at.simps progress_write_state progress_write_ids tidy_write\<close>)+

lemma hoare_commit_write:
  assumes "whole flt" and "on_disk I" and "\<And>c s. progress T es x y p c s \<Longrightarrow> I s" and "txn_ok T"
  shows "hoare (\<lambda>s. progress T es x y p False s \<and> tidy_except {} s) (store_write flt (Transaction (tx_id T)) ''committed'' committed_mark)
      (\<lambda>_ s. progress T es x y p True s \<and> tidy_except {} s) (stopped flt I)"
  by (rule hoare_store_write [OF assms(1) _ assms(2)])
    (use assms(3,4) in \<open>auto simp: progress_commit tidy_write dest: journal_present\<close>)

lemma hoare_finish:
  assumes "whole flt" and "on_disk I" and "\<And>c s. progress T es (state_text (tx_after T)) (identity_ledger_json (tx_after_ledger T)) (tx_admit T) c s \<Longrightarrow> I s"
    and "\<And>s. settled (tx_after T) (tx_after_ledger T) (outcome T es) s \<Longrightarrow> I s"
  shows "hoare (\<lambda>s. progress T es (state_text (tx_after T)) (identity_ledger_json (tx_after_ledger T)) (tx_admit T) c s \<and> tidy_except {} s)
      (bindS (remove_directory flt (Transaction (tx_id T))) (\<lambda>_. store_sync flt))
      (\<lambda>_ s. settled (tx_after T) (tx_after_ledger T) (outcome T es) s \<and> tidy_except {} s) (stopped flt I)"
proof (rule hoare_bindS)
  show "hoare (\<lambda>s. progress T es (state_text (tx_after T)) (identity_ledger_json (tx_after_ledger T)) (tx_admit T) c s \<and> tidy_except {} s)
      (remove_directory flt (Transaction (tx_id T)))
      (\<lambda>_ s. settled (tx_after T) (tx_after_ledger T) (outcome T es) s \<and> tidy_except {} s) (stopped flt I)"
    by (rule hoare_remove [OF assms(1) _ assms(2)])
      (use assms(3,4) in \<open>auto intro: progress_finish tidy_weaken dest: tidy_drop\<close>)
  show "hoare (\<lambda>s. settled (tx_after T) (tx_after_ledger T) (outcome T es) s \<and> tidy_except {} s) (store_sync flt)
      (\<lambda>_ s. settled (tx_after T) (tx_after_ledger T) (outcome T es) s \<and> tidy_except {} s) (stopped flt I)"
    by (rule hoare_tick [OF assms(1) _ assms(2)]) (use assms(4) in auto)
qed


lemma hoare_persist_transaction:
  assumes w: "whole flt" and ok: "txn_ok T"
  shows "hoare (\<lambda>s. settled (tx_before T) (tx_before_ledger T) es s \<and> outbox_before T es s \<and> tidy_except {} s)
    (persist_transaction flt (tx_before T) (tx_after T) (tx_before_ledger T) (tx_after_ledger T) (tx_messages T) (tx_admit T))
    (\<lambda>_ s. settled (tx_after T) (tx_after_ledger T) (outcome T es) s \<and> tidy_except {} s) (stopped flt (consistent T es))"
proof -
  let ?tb = "state_text (tx_before T)" and ?ta = "state_text (tx_after T)"
  let ?lb = "identity_ledger_json (tx_before_ledger T)" and ?la = "identity_ledger_json (tx_after_ledger T)"
  have texts: "state_json (tx_before T) = Inr ?tb" "state_json (tx_after T) = Inr ?ta"
    using ok bound_state_text by (auto simp: txn_ok_def)
  have I: "consistent T es s" if "progress T es x y p c s" "x \<in> {?tb, ?ta}" "y \<in> {?lb, ?la}" for x y p c s
    using progress_pending [OF that] by (rule consistentI)
  note cw = hoare_current_writes [OF w on_disk_consistent I, of T es]
  have tick: "hoare (\<lambda>s. progress T es x y p c s \<and> tidy_except {} s) (fail_if_requested flt)
      (\<lambda>_ s. progress T es x y p c s \<and> tidy_except {} s) (stopped flt (consistent T es))"
    if "x \<in> {?tb, ?ta}" "y \<in> {?lb, ?la}" for x y p c
    by (rule hoare_tick [OF w]) (use I that in auto)
  have journal: "hoare (\<lambda>s. settled (tx_before T) (tx_before_ledger T) es s \<and> outbox_before T es s \<and> tidy_except {} s)
      (write_journal flt ?tb ?ta ?lb ?la (tx_messages T) (Inr (tx_manifest T)))
      (\<lambda>_ s. progress T es ?tb ?lb False False s \<and> tidy_except {} s) (stopped flt (consistent T es))"
    by (rule stopped_weaken [OF hoare_write_journal [OF w ok]]) (auto intro: consistentI)
  have publish: "hoare (\<lambda>s. progress T es ?ta ?la False False s \<and> tidy_except {} s)
      (if tx_admit T then publish_bundle flt True ''.staging-'' what (tx_id T) (derived_json (derived_assessment (tx_messages T)))
         (event_text_of (tx_messages T)) (tx_manifest T) else returnS ())
      (\<lambda>_ s. progress T es ?ta ?la (tx_admit T) False s \<and> tidy_except {} s) (stopped flt (consistent T es))" for what
  proof (cases "tx_admit T")
    case True
    then show ?thesis using hoare_publish_bundle [OF w _ True ok on_disk_consistent, where prefix = "''.staging-''"] I by auto
  qed (simp add: hoare_returnS)
  have finish: "hoare (\<lambda>s. progress T es ?ta ?la (tx_admit T) True s \<and> tidy_except {} s)
      (bindS (remove_directory flt (Transaction (tx_id T))) (\<lambda>_. store_sync flt))
      (\<lambda>_ s. settled (tx_after T) (tx_after_ledger T) (outcome T es) s \<and> tidy_except {} s) (stopped flt (consistent T es))"
    by (rule hoare_finish [OF w on_disk_consistent]) (auto intro: I consistentI)
  show ?thesis
    unfolding persist_transaction_def Let_def texts bindS_simps txn_manifest [OF ok] tx_id_def [symmetric]
    by (rule hoare_bindS, rule journal, rule hoare_bindS, rule cw(1), (simp; fail)+,
        rule hoare_bindS, rule tick, (simp; fail)+, rule hoare_bindS, rule cw(2), (simp; fail)+,
        rule hoare_bindS, rule tick, (simp; fail)+, rule hoare_bindS, rule publish,
        rule hoare_bindS, rule hoare_commit_write [OF w on_disk_consistent _ ok], rule I, assumption, (simp; fail)+,
        rule hoare_bindS, rule tick, (simp; fail)+,
        rule hoare_read_ok, rule journal_unchanged, blast, simp only: checkS_simps bindS_simps,
        rule hoare_read_ok, rule journal_unchanged, blast,
        rule hoare_read_ok, rule bundle_unchanged, blast,
        rule hoare_bindS, rule tick, (simp; fail)+, rule finish)
qed

end
