(* ===== verification/Recovery.thy ===== *)
theory Recovery
  imports Crash
begin

text \<open>
  Recovery of the v2 state store: a start that finds the journal of an interrupted transaction
  finishes it, also when the start itself is interrupted and repeated.
\<close>

section \<open>Recovering a transaction\<close>

lemma hoare_advance:
  assumes w: "whole flt" and I: "on_disk I" "\<And>x y s. x \<in> {state_text (tx_before T), state_text (tx_after T)} \<Longrightarrow>
     y \<in> {identity_ledger_json (tx_before_ledger T), identity_ledger_json (tx_after_ledger T)} \<Longrightarrow> progress T es x y p c s \<Longrightarrow> I s"
    and x: "x \<in> {state_text (tx_before T), state_text (tx_after T)}"
    and y: "y \<in> {identity_ledger_json (tx_before_ledger T), identity_ledger_json (tx_after_ledger T)}"
  shows "hoare (\<lambda>s. progress T es x y p c s \<and> tidy_except {} s)
      (advance_file flt ''state.json'' x (state_text (tx_before T)) (state_text (tx_after T)) what)
      (\<lambda>_ s. progress T es (state_text (tx_after T)) y p c s \<and> tidy_except {} s) (stopped flt I)"
    and "hoare (\<lambda>s. progress T es x y p c s \<and> tidy_except {} s)
      (advance_file flt ''identity-ledger.json'' y (identity_ledger_json (tx_before_ledger T)) (identity_ledger_json (tx_after_ledger T)) what)
      (\<lambda>_ s. progress T es x (identity_ledger_json (tx_after_ledger T)) p c s \<and> tidy_except {} s) (stopped flt I)"
proof -
  show "hoare (\<lambda>s. progress T es x y p c s \<and> tidy_except {} s)
      (advance_file flt ''state.json'' x (state_text (tx_before T)) (state_text (tx_after T)) what)
      (\<lambda>_ s. progress T es (state_text (tx_after T)) y p c s \<and> tidy_except {} s) (stopped flt I)"
    unfolding advance_file_def
    by (rule hoare_if, rule hoare_current_writes(1) [OF w I x y], assumption+) (use x in \<open>simp add: hoare_returnS\<close>)
  show "hoare (\<lambda>s. progress T es x y p c s \<and> tidy_except {} s)
      (advance_file flt ''identity-ledger.json'' y (identity_ledger_json (tx_before_ledger T)) (identity_ledger_json (tx_after_ledger T)) what)
      (\<lambda>_ s. progress T es x (identity_ledger_json (tx_after_ledger T)) p c s \<and> tidy_except {} s) (stopped flt I)"
    unfolding advance_file_def
    by (rule hoare_if, rule hoare_current_writes(2) [OF w I x y], assumption+) (use y in \<open>simp add: hoare_returnS\<close>)
qed

lemma verify_recovered:
  assumes "progress T es x y True c s"
  shows "verify_recovered_bundle (tx_id T) (tx_journal T) s = Inr ()"
proof -
  from assms obtain d where ok: "txn_ok T" and d: "files_at (Bundle (tx_id T)) s = Some d" "bundle_dir T d"
    by (auto simp: progress_def outbox_after_def)
  note files = bundle_file [OF d]
  note len = txn_manifest_short [OF ok] txn_message_sizes [OF ok]
  show ?thesis using files len txn_manifest_reads [OF ok]
    by (cases "derived_event (tx_messages T)")
      (simp_all add: verify_recovered_bundle_def verify_message_def differs_def read_bounded_def tx_journal_def event_text_of_def message_sha_def)
qed

lemma hoare_recover_bundle:
  assumes w: "whole flt" and adm: "tx_admit T" and ok: "txn_ok T"
    and I: "on_disk I" "\<And>p s. progress T es x y p c s \<Longrightarrow> I s"
  shows "hoare (\<lambda>s. progress T es x y p c s \<and> tidy_except {} s) (recover_bundle flt (tx_journal T))
    (\<lambda>_ s. progress T es x y True c s \<and> tidy_except {} s) (stopped flt I)"
proof -
  have ident: "string_value (jr_manifest (tx_journal T)) ''assessmentId'' = Inr (tx_id T)"
    using txn_manifest_reads [OF ok] by (simp add: tx_journal_def tx_id_def)
  have absent: "files_at (Bundle (tx_id T)) s = None \<longleftrightarrow> \<not> p" if "progress T es x y p c s" for s
    using that by (auto simp: progress_def outbox_before_def outbox_after_def split: if_splits)
  have publish: "hoare (\<lambda>s. progress T es x y p c s \<and> tidy_except {} s)
      (if \<not> p then publish_bundle flt False ''.recovery-'' what (tx_id T) (jr_assessment (tx_journal T)) (jr_event (tx_journal T))
         (jr_manifest (tx_journal T)) else returnS ())
      (\<lambda>_ s. progress T es x y True c s \<and> tidy_except {} s) (stopped flt I)" for what
  proof (cases p)
    case False
    then show ?thesis
      using hoare_publish_bundle [OF w _ adm ok I(1), where prefix = "''.recovery-''"] I(2) by (auto simp: tx_journal_def)
  qed (simp add: hoare_returnS)
  show ?thesis unfolding recover_bundle_def ident bindS_simps
    by (rule hoare_read_ok [where x = "\<not> p"], use absent in blast, rule hoare_bindS, rule publish,
        rule hoare_readS) (auto simp: verify_recovered)
qed

lemma hoare_apply_journal:
  assumes w: "whole flt" and ok: "txn_ok T"
    and x: "x \<in> {state_text (tx_before T), state_text (tx_after T)}"
    and y: "y \<in> {identity_ledger_json (tx_before_ledger T), identity_ledger_json (tx_after_ledger T)}"
  shows "hoare (\<lambda>s. progress T es x y p c s \<and> tidy_except {} s) (apply_journal flt (tx_id T) (tx_journal T))
    (\<lambda>_ s. settled (tx_after T) (tx_after_ledger T) (outcome T es) s \<and> tidy_except {} s) (stopped flt (finishing T es))"
proof -
  let ?tb = "state_text (tx_before T)" and ?ta = "state_text (tx_after T)"
  let ?lb = "identity_ledger_json (tx_before_ledger T)" and ?la = "identity_ledger_json (tx_after_ledger T)"
  note b = ok [unfolded txn_ok_def, THEN conjunct1] and a = ok [unfolded txn_ok_def, THEN conjunct2, THEN conjunct1]
  have I: "finishing T es s" if "progress T es x y p c s" "x \<in> {?tb, ?ta}" "y \<in> {?lb, ?la}" for x y p c s
    using progress_pending [OF that] by (simp add: finishing_def)
  note adv = hoare_advance [OF w on_disk_finishing I, of T es]
  have len: "length x \<le> kMaximumStateBytes" "length y \<le> kMaximumStateBytes"
    using x y state_text_length [OF b] state_text_length [OF a] by auto
  have reads: "read_state_file StateRoot ''state.json'' s = Inr x" "read_state_file StateRoot ''identity-ledger.json'' s = Inr y"
    if "progress T es x y p c s" for s
    using that len by (auto simp: progress_def current_is_def intro: read_bounded_file)
  have published: "hoare (\<lambda>s. progress T es ?ta ?la p c s \<and> tidy_except {} s)
      (if jr_disposition (tx_journal T) = ''ADMIT'' then recover_bundle flt (tx_journal T) else returnS ())
      (\<lambda>_ s. progress T es ?ta ?la (tx_admit T) c s \<and> tidy_except {} s) (stopped flt (finishing T es))"
  proof (cases "tx_admit T")
    case True
    then show ?thesis using hoare_recover_bundle [OF w True ok on_disk_finishing I] by (simp add: tx_journal_def)
  next
    case False
    then show ?thesis by (cases p) (auto simp: tx_journal_def progress_def outbox_after_def intro!: hoare_returnS)
  qed
  have ident: "string_value (jr_manifest (tx_journal T)) ''assessmentId'' = Inr (tx_id T)"
    using txn_manifest_reads [OF ok] by (simp add: tx_journal_def tx_id_def)
  have disposition: "((if tx_admit T then ''ADMIT'' else ''OVERFLOW_NOT_ENQUEUED'') = ''ADMIT'') = tx_admit T" by simp
  have uncommitted: "file_at (Transaction (tx_id T)) ''committed'' s = None \<longleftrightarrow> \<not> c" if "progress T es x y p c s" for x y p s
    using that by (auto elim!: progressD dest: journal_file(8))
  have commit: "hoare (\<lambda>s. progress T es ?ta ?la (tx_admit T) c s \<and> tidy_except {} s)
      (if \<not> c then store_write flt (Transaction (tx_id T)) ''committed'' committed_mark else returnS ())
      (\<lambda>_ s. progress T es ?ta ?la (tx_admit T) True s \<and> tidy_except {} s) (stopped flt (finishing T es))"
    using hoare_commit_write [OF w on_disk_finishing I ok] by (cases c) (auto intro!: hoare_returnS)
  have finish: "hoare (\<lambda>s. progress T es ?ta ?la (tx_admit T) True s \<and> tidy_except {} s)
      (bindS (remove_directory flt (Transaction (tx_id T))) (\<lambda>_. store_sync flt))
      (\<lambda>_ s. settled (tx_after T) (tx_after_ledger T) (outcome T es) s \<and> tidy_except {} s) (stopped flt (finishing T es))"
    by (rule hoare_finish [OF w on_disk_finishing]) (auto intro: I finishingI)
  show ?thesis
    unfolding apply_journal_def ident bindS_simps
    by (rule hoare_read_ok, use reads in blast, rule hoare_read_ok, use reads in blast,
        simp only: tx_journal_def Journal.select_convs, rule hoare_bindS, rule adv(1), (use x y in \<open>simp; fail\<close>)+,
        rule hoare_bindS, rule adv(2), (use x y in \<open>simp; fail\<close>)+, rule hoare_bindS,
        rule published [unfolded tx_journal_def Journal.select_convs],
        rule hoare_read_ok [where x = "\<not> c"], use uncommitted in blast, rule hoare_bindS, rule commit,
        rule hoare_read_ok, rule journal_unchanged, blast, simp only: checkS_simps bindS_simps,
        rule hoare_read_ok, simp only: disposition, rule bundle_unchanged, blast, rule finish)
qed


section \<open>What the operations keep\<close>

text \<open>
  A predicate that an effect on the disk keeps whenever its change does, and that changes at the free
  places keep: then every operation on free places keeps it.
\<close>

locale kept =
  fixes flt :: interruptions and K :: "StateStore \<Rightarrow> bool" and free :: "place \<Rightarrow> bool"
  assumes effect: "\<lbrakk>\<And>s. K s \<Longrightarrow> K (f s); \<And>k s. K s \<Longrightarrow> K (part k s)\<rbrakk> \<Longrightarrow> keeps K (disk_effect flt what f part)"
    and put: "K s \<Longrightarrow> free p \<Longrightarrow> K (put_files p d s)"
    and drop: "K s \<Longrightarrow> free p \<Longrightarrow> K (drop_files p s)"
    and counter: "K s \<Longrightarrow> K (s\<lparr>store_counter := c\<rparr>)"
begin

lemma ticks: "keeps K (store_sync flt)" "keeps K (fail_if_requested flt)"
  unfolding store_sync_def fail_if_requested_def by (rule effect; simp)+

lemma next_counter: "keeps K next_counter"
  by (auto simp: keeps_def next_counter_def intro: counter)

lemma make: "free p \<Longrightarrow> keeps K (make_private_directory flt p)"
  unfolding make_private_directory_def by (rule effect) (auto simp: ensure_files_def intro: put)

lemma written: "free p \<Longrightarrow> keeps K (disk_effect flt what (write_file p name bytes) (\<lambda>_. id))"
  by (rule effect) (auto simp: write_file_def intro: put)

lemma write_at: "free p \<Longrightarrow> keeps K (store_write flt p name bytes)"
  unfolding store_write_def by (intro keeps_rules make next_counter written)

lemma rename:
  assumes "free p" and "free q"
  shows "keeps K (rename_directory flt what p q)"
proof -
  have "keeps K (disk_effect flt what (move_files p q d) (\<lambda>_. id))" for d
    by (rule effect) (auto simp: move_files_def intro: put drop assms)
  then show ?thesis by (auto simp: keeps_def rename_directory_def split: option.splits)
qed

lemma removes: "free p \<Longrightarrow> keeps K (remove_directory flt p)" "free p \<Longrightarrow> keeps K (remove_file flt p name)"
  unfolding remove_directory_def remove_file_def
  by (rule effect; auto simp: remove_part_def intro: put drop split: option.splits)+

lemma messages: "free p \<Longrightarrow> keeps K (persist_messages flt p a e)"
  unfolding persist_messages_def by (intro keeps_rules write_at)

lemma publish: "(\<And>n. free (Bundle n)) \<Longrightarrow> keeps K (publish_bundle flt i pre what b a e mf)"
  unfolding publish_bundle_def Let_def by (intro keeps_rules ticks next_counter make messages write_at rename)

end

interpretation ready: kept flt store_ready "\<lambda>_. True" for flt
  by unfold_locales (auto simp: keeps_def disk_effect_def Let_def split: interruption.splits moment.splits)

interpretation running: kept "\<lambda>_. Through" "\<lambda>s. \<not> halted s" "\<lambda>_. True"
  by unfold_locales (auto simp: keeps_def disk_effect_def Let_def)

lemmas ready_ops = ready.ticks ready.next_counter ready.make [OF TrueI] ready.write_at [OF TrueI] ready.rename [OF TrueI TrueI]
  ready.removes [OF TrueI] ready.messages [OF TrueI] ready.publish [OF TrueI]

lemmas running_ops = running.ticks running.next_counter running.make [OF TrueI] running.write_at [OF TrueI] running.rename [OF TrueI TrueI]
  running.removes [OF TrueI] running.messages [OF TrueI] running.publish [OF TrueI]

lemma calm_through: "calm flt \<Longrightarrow> flt = (\<lambda>_. Through)"
  by (auto simp: calm_def)

lemma ready_recovery: "keeps store_ready (apply_journal flt j jr)"
  and running_recovery: "keeps (\<lambda>s. \<not> halted s) (apply_journal (\<lambda>_. Through) j jr)"
  unfolding apply_journal_def advance_file_def recover_bundle_def by (intro keeps_rules ready_ops running_ops)+

lemma hoare_with: "hoare P m Q E \<Longrightarrow> keeps R m \<Longrightarrow> hoare (\<lambda>s. P s \<and> R s) m (\<lambda>x s. Q x s \<and> R s) (\<lambda>s. E s \<and> R s)"
  by (fastforce simp: hoare_def keeps_def split: prod.splits sum.splits)

section \<open>Recovery\<close>

lemma halted_write: "halted s \<Longrightarrow> store_write flt p name bytes s = (Inl (Runtime_error ''set private directory mode''), s)"
  by (simp add: store_write_def make_private_directory_def disk_effect_def bindS_def)

lemma hoare_recover_journal:
  assumes "crash_only flt" and w: "whole flt" and ok: "txn_ok T"
  shows "hoare (\<lambda>s. pending T es s \<and> tidy_except {} s \<and> store_ready s) (recover_journal flt (tx_id T))
    (\<lambda>go s. if go then settled (tx_after T) (tx_after_ledger T) (outcome T es) s \<and> tidy_except {} s \<and> store_ready s
            else halted s \<and> finishing T es s) E"
proof (rule hoareI)
  fix s
  assume s: "pending T es s \<and> tidy_except {} s \<and> store_ready s"
  then obtain x y p c where x: "x \<in> {state_text (tx_before T), state_text (tx_after T)}"
    and y: "y \<in> {identity_ledger_json (tx_before_ledger T), identity_ledger_json (tx_after_ledger T)}"
    and pr: "progress T es x y p c s" by (auto simp: pending_def)
  obtain d where d: "files_at (Transaction (tx_id T)) s = Some d" "journal_dir T c d" using pr by (rule progressD)
  have q: "file_at (Transaction (tx_id T)) ''QUARANTINED'' s = None" and r: "read_journal (tx_id T) s = Inr (tx_journal T)"
    using journal_file(9) [OF d] read_journal_txn [OF ok d] by simp_all
  have h: "hoare (\<lambda>s. (progress T es x y p c s \<and> tidy_except {} s) \<and> store_ready s) (apply_journal flt (tx_id T) (tx_journal T))
      (\<lambda>_ s. (settled (tx_after T) (tx_after_ledger T) (outcome T es) s \<and> tidy_except {} s) \<and> store_ready s)
      (\<lambda>s. stopped flt (finishing T es) s \<and> store_ready s)"
    by (rule hoare_with [OF hoare_apply_journal [OF w ok x y] ready_recovery])
  have on: "finishing T es (t\<lparr>store_ready := b\<rparr>)" if "finishing T es t" for t b
    using on_diskD(4) [OF on_disk_finishing that] .
  show "case recover_journal flt (tx_id T) s of
      (Inr go, s') \<Rightarrow> if go then settled (tx_after T) (tx_after_ledger T) (outcome T es) s' \<and> tidy_except {} s' \<and> store_ready s'
            else halted s' \<and> finishing T es s' | (Inl e, s') \<Rightarrow> E s'"
  proof (cases "apply_journal flt (tx_id T) (tx_journal T) s")
    case (Pair res t)
    show ?thesis
    proof (cases res)
      case (Inr u)
      then show ?thesis using hoareD(1) [OF h, of s u t] s pr Pair q r
        by (simp add: recover_journal_def catchS_def bindS_def)
    next
      case (Inl e)
      then have "finishing T es t \<and> halted t"
        using hoareD(2) [OF h, of s e t] s pr Pair assms(1) by (simp add: stopped_def)
      then show ?thesis using Inl Pair q r on
        by (simp add: recover_journal_def catchS_def bindS_def halted_write set_ready_def)
    qed
  qed
qed

text \<open>
  The states a start may begin from: one of the settled ones, or an open transaction whose result is
  one of them.
\<close>

definition sound :: "(ModelState \<times> IdentityLedger \<times> OutboxEntry list) set \<Rightarrow> (txn \<times> OutboxEntry list) set \<Rightarrow> StateStore \<Rightarrow> bool" where
  "sound A X s \<longleftrightarrow> (\<exists>(st, l, es) \<in> A. settled st l es s) \<or> (\<exists>(T, es) \<in> X. pending T es s)"

definition covers :: "(ModelState \<times> IdentityLedger \<times> OutboxEntry list) set \<Rightarrow> (txn \<times> OutboxEntry list) set \<Rightarrow> bool" where
  "covers A X \<longleftrightarrow> (\<forall>(T, es) \<in> X. (tx_after T, tx_after_ledger T, outcome T es) \<in> A)"

definition recovered :: "(ModelState \<times> IdentityLedger \<times> OutboxEntry list) set \<Rightarrow> StateStore \<Rightarrow> bool" where
  "recovered A s \<longleftrightarrow> (\<exists>(st, l, es) \<in> A. settled st l es s) \<and> tidy_except {} s"

lemma on_disk_sound [simp]: "on_disk (sound A X)"
  unfolding on_disk_def sound_def using on_disk_states(1,3) [unfolded on_disk_def] by blast

lemma finishing_sound: "covers A X \<Longrightarrow> (T, es) \<in> X \<Longrightarrow> finishing T es s \<Longrightarrow> sound A X s"
  by (auto simp: covers_def finishing_def sound_def)

lemma hoare_store_recover:
  assumes "crash_only flt" and "whole flt" and "covers A X"
  shows "hoare (\<lambda>s. sound A X s \<and> tidy_except {} s \<and> store_ready s) (store_recover flt)
    (\<lambda>_ s. recovered A s \<and> store_ready s \<or> halted s \<and> sound A X s) E"
proof (rule hoareI)
  fix s
  assume s: "sound A X s \<and> tidy_except {} s \<and> store_ready s"
  then consider (settled) st l es where "(st, l, es) \<in> A" "settled st l es s" | (pending) T es where "(T, es) \<in> X" "pending T es s"
    by (auto simp: sound_def)
  then show "case store_recover flt s of (Inr x, s') \<Rightarrow> recovered A s' \<and> store_ready s' \<or> halted s' \<and> sound A X s' | (Inl e, s') \<Rightarrow> E s'"
  proof cases
    case settled
    then have "live_names (transactions s) = []" by (simp add: settled_def)
    then show ?thesis using settled s by (auto simp: store_recover_def recovered_def)
  next
    case pending
    then have names: "live_names (transactions s) = [tx_id T]" and ok: "txn_ok T" by (auto simp: pending_def progress_def journal_at_def)
    have after: "(tx_after T, tx_after_ledger T, outcome T es) \<in> A" using assms(3) pending by (auto simp: covers_def)
    have fin: "recovered A t" if "settled (tx_after T) (tx_after_ledger T) (outcome T es) t" "tidy_except {} t" for t
      using that after by (auto simp: recovered_def)
    show ?thesis
      using hoare_recover_journal [OF assms(1,2) ok, of es E] s pending fin finishing_sound [OF assms(3)] names
      by (auto simp: store_recover_def hoare_def bindS_def dest!: spec [of _ s] split: sum.splits if_splits)
  qed
qed

section \<open>Starting again\<close>

lemma hoare_bind_reads:
  "(\<And>x. hoare (\<lambda>s. P s \<and> g s = x) (f x) R E) \<Longrightarrow> hoare P (bindS (readS (\<lambda>s. Inr (g s))) f) R E"
  by (auto simp: hoare_def)

lemma hoare_bind_filter:
  assumes "\<And>ns. list_all p ns \<Longrightarrow> hoare (\<lambda>s. P s \<and> filter p (g s) = ns) (f ns) R E"
  shows "hoare P (bindS (readS (\<lambda>s. Inr (filter p (g s)))) f) R E"
proof (rule hoareI)
  fix s
  assume "P s"
  moreover have "list_all p (filter p (g s))" by (simp add: list_all_iff)
  ultimately show "case bindS (readS (\<lambda>s. Inr (filter p (g s)))) f s of (Inr x, s') \<Rightarrow> R x s' | (Inl e, s') \<Rightarrow> E s'"
    using assms [of "filter p (g s)"] by (simp add: hoare_def)
qed

lemma hoare_skip: "(\<And>s. P s \<Longrightarrow> m s = (Inr x, s)) \<Longrightarrow> hoare P m (\<lambda>_. P) E"
  by (auto simp: hoare_def)

lemma sound_aside: "aside p \<Longrightarrow> sound A X (drop_files p s) = sound A X s"
  by (simp add: sound_def pending_def states_aside)

lemma stale_not_current: "\<not> stale_name ''state.json''" "\<not> stale_name ''identity-ledger.json''"
  by (simp_all add: stale_name_def dot_name_def)

lemma sound_clean_root:
  assumes "stale_name n" and "sound A X s"
  shows "sound A X (put_files StateRoot (AList.delete n (state_files s)) s)"
proof -
  have f: "file_at StateRoot m (put_files StateRoot (AList.delete n (state_files s)) s) = file_at StateRoot m s" if "m \<noteq> n" for m
    using that by (simp add: file_at_put file_at_def files_at.simps delete_conv')
  have n: "n \<noteq> ''state.json''" "n \<noteq> ''identity-ledger.json''" using assms(1) stale_not_current by auto
  have "current_is x y (put_files StateRoot (AList.delete n (state_files s)) s) = current_is x y s" for x y
    using f n by (simp add: current_is_def)
  then have "settled st l es (put_files StateRoot (AList.delete n (state_files s)) s) = settled st l es s"
    "progress T es x y p c (put_files StateRoot (AList.delete n (state_files s)) s) = progress T es x y p c s" for st l es x y p c T
    by (auto simp: settled_def progress_def no_reset_def journal_at_def outbox_before_def outbox_after_def)
  then show ?thesis using assms(2) by (simp add: sound_def pending_def)
qed

lemma hoare_clean_root:
  assumes "whole flt"
  shows "hoare (sound A X) (remove_stale_files flt StateRoot) (\<lambda>_. sound A X) (stopped flt (sound A X))"
proof -
  have "hoare (sound A X) (remove_file flt StateRoot n) (\<lambda>_. sound A X) (stopped flt (sound A X))"
    if "stale_name n" for n
    unfolding remove_file_def
    by (rule hoare_effect [OF assms]) (auto simp: sound_clean_root [OF that] files_at.simps)
  then have each: "hoare (sound A X) (eachS (remove_file flt StateRoot) ns) (\<lambda>_. sound A X) (stopped flt (sound A X))"
    if "list_all stale_name ns" for ns using that by (auto simp: list_all_iff intro: hoare_eachS)
  have sync: "hoare (sound A X) (store_sync flt) (\<lambda>_. sound A X) (stopped flt (sound A X))"
    by (rule hoare_tick [OF assms]) simp_all
  show ?thesis unfolding remove_stale_files_def
    by (rule hoare_bind_filter, rule hoare_bindS, rule hoare_pre [OF each]) (auto intro: sync simp: hoare_returnS)
qed

lemma hoare_clean_directories:
  assumes w: "whole flt" and p: "\<And>n. stale_name n \<Longrightarrow> aside (p n)"
    and entries: "\<And>s. tidy_except (Y \<union> range p) s \<Longrightarrow> tidy_except (Y \<union> p ` set (filter stale_name (map fst (entries s)))) s"
  shows "hoare (\<lambda>s. sound A X s \<and> tidy_except (Y \<union> range p) s) (remove_stale_directories flt p entries)
    (\<lambda>_ s. sound A X s \<and> tidy_except Y s) (stopped flt (sound A X))"
proof -
  have step: "hoare (\<lambda>s. sound A X s \<and> tidy_except Z s) (remove_directory flt (p n))
      (\<lambda>_ s. sound A X s \<and> tidy_except (Z - {p n}) s) (stopped flt (sound A X))" if "stale_name n" for Z n
    by (rule hoare_remove [OF w]) (auto simp: sound_aside [OF p [OF that]] dest: tidy_drop)
  have each: "hoare (\<lambda>s. sound A X s \<and> tidy_except (Y \<union> p ` set ns) s) (eachS (\<lambda>n. remove_directory flt (p n)) ns)
      (\<lambda>_ s. sound A X s \<and> tidy_except Y s) (stopped flt (sound A X))" if "list_all stale_name ns" for ns
    using that
  proof (induction ns)
    case Nil
    show ?case by (simp add: hoare_def)
  next
    case (Cons n ns)
    have "hoare (\<lambda>s. sound A X s \<and> tidy_except (Y \<union> p ` set (n # ns)) s) (remove_directory flt (p n))
        (\<lambda>_ s. sound A X s \<and> tidy_except (Y \<union> p ` set ns) s) (stopped flt (sound A X))"
      by (rule hoare_weaken [OF step [where Z = "Y \<union> p ` set (n # ns)"]]) (use Cons.prems in \<open>auto elim: tidy_weaken\<close>)
    then show ?case using Cons by (auto intro: hoare_bindS)
  qed
  have sync: "hoare (\<lambda>s. sound A X s \<and> tidy_except Y s) (store_sync flt)
      (\<lambda>_ s. sound A X s \<and> tidy_except Y s) (stopped flt (sound A X))"
    by (rule hoare_tick [OF w]) simp_all
  show ?thesis unfolding remove_stale_directories_def
    by (rule hoare_bind_filter, rule hoare_bindS, rule hoare_pre [OF each]) (use entries in \<open>auto intro: sync simp: hoare_returnS\<close>)
qed

lemma tidy_entries:
  "tidy_except (Y \<union> range Transaction) s \<Longrightarrow> tidy_except (Y \<union> Transaction ` set (filter stale_name (map fst (transactions s)))) s"
  "tidy_except (Y \<union> range Bundle) s \<Longrightarrow> tidy_except (Y \<union> Bundle ` set (filter stale_name (map fst (outbox s)))) s"
  "tidy_except (UNIV \<union> range StateDir) s \<Longrightarrow> tidy_except (UNIV \<union> StateDir ` set (filter stale_name (map fst (state_dirs s)))) s"
  by (auto simp: tidy_except_def image_iff)


lemma known_names_not_stale: "name \<in> set bundle_file_names \<union> set journal_file_names \<Longrightarrow> \<not> stale_name name"
  by (auto simp: bundle_file_names_def journal_file_names_def stale_name_def dot_name_def)

lemma verify_all_names:
  "verify_all bs acc s = Inr es \<Longrightarrow> b \<in> set bs \<Longrightarrow> files_at (Bundle b) s = Some d \<Longrightarrow> fst ` set d \<subseteq> set bundle_file_names"
proof (induction bs arbitrary: acc)
  case (Cons c bs)
  then show ?case
    by (cases "b = c") (auto simp: verify_bundle_def bindE_eq_Inr list_all_iff)
qed simp

lemma clean_nothing:
  assumes "\<And>n d. n \<in> set ns \<Longrightarrow> files_at (p n) s = Some d \<Longrightarrow> fst ` set d \<subseteq> set bundle_file_names \<union> set journal_file_names"
  shows "eachS (\<lambda>n. remove_stale_files flt (p n)) ns s = (Inr (), s)"
proof -
  have "remove_stale_files flt (p n) s = (Inr (), s)" if "n \<in> set ns" for n
  proof -
    have "\<not> stale_name m" if "m \<in> fst ` set d" "files_at (p n) s = Some d" for m d
      using known_names_not_stale assms [OF \<open>n \<in> set ns\<close> that(2)] that(1) by blast
    then have "filter stale_name (map fst (case files_at (p n) s of None \<Rightarrow> [] | Some d \<Rightarrow> d)) = []"
      by (cases "files_at (p n) s") (force simp: filter_empty_conv)+
    then show ?thesis by (simp add: remove_stale_files_def)
  qed
  then show ?thesis by (induction ns) (simp_all add: bindS_def)
qed

lemma sound_outbox: "sound A X s \<Longrightarrow> \<exists>os. outbox_entries s = Inr os"
  by (auto simp: sound_def pending_def progress_def settled_def outbox_before_def outbox_after_def split: if_splits)

lemma sound_clean:
  assumes "sound A X s"
  shows "clean_directories flt Transaction transactions s = (Inr (), s)" and "clean_directories flt Bundle outbox s = (Inr (), s)"
proof -
  have "fst ` set d \<subseteq> set journal_file_names" if "n \<in> set (live_names (transactions s))" "files_at (Transaction n) s = Some d" for n d
  proof -
    from that(1) assms obtain T es x y p c where pr: "progress T es x y p c s" by (auto simp: sound_def settled_def pending_def)
    then have "n = tx_id T" using that(1) by (simp add: progress_def journal_at_def)
    moreover obtain d' where "files_at (Transaction (tx_id T)) s = Some d'" "journal_dir T c d'" using pr by (rule progressD)
    ultimately show ?thesis using that(2) journal_names by (fastforce simp: list_all_iff)
  qed
  then show "clean_directories flt Transaction transactions s = (Inr (), s)"
    unfolding clean_directories_def by (simp, intro clean_nothing) blast
  obtain os where "verify_all (live_names (outbox s)) [] s = Inr os" using sound_outbox [OF assms] by (auto simp: outbox_entries_def)
  then show "clean_directories flt Bundle outbox s = (Inr (), s)"
    unfolding clean_directories_def by (simp, intro clean_nothing) (use verify_all_names in blast)
qed

lemma sound_files:
  assumes "sound A X s"
  shows "start_state flt epoch s = (Inr (), s)" and "start_ledger flt s = (Inr (), s)" and "recover_demo_reset flt s = (Inr (), s)"
proof -
  have "file_at StateRoot ''state.json'' s \<noteq> None" "file_at StateRoot ''identity-ledger.json'' s \<noteq> None" "files_at reset_journal s = None"
    using assms by (auto simp: sound_def settled_def pending_def progress_def current_is_def no_reset_def)
  then show "start_state flt epoch s = (Inr (), s)" and "start_ledger flt s = (Inr (), s)" and "recover_demo_reset flt s = (Inr (), s)"
    by (auto simp: start_state_def start_ledger_def recover_demo_reset_def)
qed

lemma bound_epoch: "bound_state st l \<Longrightarrow> \<exists>b. initial_state (producer_epoch st) = Inr b"
proof -
  assume "bound_state st l"
  then have "validate_state st = Inr ()" using bound_state_text by (fastforce simp: state_json_def bindE_eq_Inr)
  then have "has_version (producer_epoch st) (CHR ''4'')" by (auto simp: validate_state_def state_invalid_def bindE_eq_Inr)
  then have "valid_uuid4 (producer_epoch st)" by (simp add: has_version_def uuid_with_version_canonical valid_uuid4_canonical)
  then show ?thesis by (simp add: initial_state_def)
qed


lemma crash_step:
  assumes "crash_only flt" and "hoare P m Q (stopped flt I)" and "keeps store_ready m"
  shows "hoare (\<lambda>s. P s \<and> store_ready s) m (\<lambda>x s. Q x s \<and> store_ready s) (\<lambda>s. halted s \<and> I s)"
  by (rule hoare_weaken [OF hoare_with [OF assms(2,3)]]) (use assms(1) in \<open>auto simp: stopped_def\<close>)

lemma ready_cleaning:
  "keeps store_ready (make_private_directory flt p)" "keeps store_ready (remove_stale_files flt p)"
  "keeps store_ready (remove_stale_directories flt q entries)"
  unfolding remove_stale_files_def remove_stale_directories_def by (intro keeps_rules ready_ops)+

definition epoch_of :: "(ModelState \<times> IdentityLedger \<times> OutboxEntry list) set \<Rightarrow> string \<Rightarrow> bool" where
  "epoch_of A epoch \<longleftrightarrow> (\<forall>(st, l, es) \<in> A. producer_epoch st = epoch)"

lemma recovered_reads:
  assumes "recovered A s"
  shows "epoch_of A epoch \<Longrightarrow> \<exists>st. store_state s = Inr st \<and> producer_epoch st = epoch" and "\<exists>os. outbox_entries s = Inr os"
  using assms by (fastforce simp: recovered_def settled_def epoch_of_def dest!: store_state_bound(1))+

lemma sound_initial:
  assumes "sound A X s" and "covers A X" and "epoch_of A epoch"
  shows "\<exists>b. initial_state epoch = Inr b"
proof -
  from assms(1,2) obtain st l es where "(st, l, es) \<in> A" "bound_state st l"
    by (fastforce simp: sound_def settled_def pending_def progress_def covers_def txn_ok_def)
  then show ?thesis using bound_epoch assms(3) by (auto simp: epoch_of_def)
qed

lemma hoare_start_body:
  assumes crash: "crash_only flt" and w: "whole flt" and cov: "covers A X" and epoch: "epoch_of A epoch"
    and initial: "initial_state epoch = Inr b"
  shows "hoare (\<lambda>s. sound A X s \<and> store_ready s) (start_body flt epoch)
    (\<lambda>_ s. recovered A s \<and> store_ready s \<or> halted s \<and> sound A X s) (\<lambda>s. halted s \<and> sound A X s)"
    (is "hoare _ _ (\<lambda>_. ?end) ?E")
proof -
  note step = crash_step [OF crash, where I = "sound A X"]
  have all: "sound A X s \<Longrightarrow> tidy_except UNIV s" for s by (simp add: tidy_except_def)
  have make: "hoare (\<lambda>s. sound A X s \<and> store_ready s) (make_private_directory flt StateRoot) (\<lambda>_ s. sound A X s \<and> store_ready s) ?E"
    by (rule step [OF hoare_make_directory [OF w] ready_cleaning(1)]) (auto simp: ensure_files_def files_at.simps)
  have root: "hoare (\<lambda>s. sound A X s \<and> store_ready s) (remove_stale_files flt StateRoot) (\<lambda>_ s. sound A X s \<and> store_ready s) ?E"
    by (rule step [OF hoare_clean_root [OF w] ready_cleaning(2)])
  have dirs: "hoare (\<lambda>s. (sound A X s \<and> tidy_except (Y \<union> range p) s) \<and> store_ready s) (remove_stale_directories flt p entries)
      (\<lambda>_ s. (sound A X s \<and> tidy_except Y s) \<and> store_ready s) ?E"
    if "\<And>n. stale_name n \<Longrightarrow> aside (p n)"
      "\<And>s. tidy_except (Y \<union> range p) s \<Longrightarrow> tidy_except (Y \<union> p ` set (filter stale_name (map fst (entries s)))) s" for Y p entries
    by (rule step [OF hoare_clean_directories [OF w that] ready_cleaning(3)])
  have states: "hoare (\<lambda>s. sound A X s \<and> store_ready s) (remove_stale_directories flt StateDir state_dirs)
      (\<lambda>_ s. (sound A X s \<and> tidy_except (range Bundle \<union> range Transaction) s) \<and> store_ready s) ?E"
    by (rule hoare_weaken [OF dirs [of StateDir UNIV state_dirs]])
      (auto simp: aside_def stale_dot tidy_entries all tidy_except_def)
  have txns: "hoare (\<lambda>s. (sound A X s \<and> tidy_except (range Bundle \<union> range Transaction) s) \<and> store_ready s)
      (remove_stale_directories flt Transaction transactions)
      (\<lambda>_ s. (sound A X s \<and> tidy_except ({} \<union> range Bundle) s) \<and> store_ready s) ?E"
    unfolding Un_empty_left by (rule dirs) (simp add: aside_def stale_dot, rule tidy_entries)
  have bundles: "hoare (\<lambda>s. (sound A X s \<and> tidy_except ({} \<union> range Bundle) s) \<and> store_ready s)
      (remove_stale_directories flt Bundle outbox) (\<lambda>_ s. (sound A X s \<and> tidy_except {} s) \<and> store_ready s) ?E"
    by (rule dirs) (simp add: aside_def stale_dot, rule tidy_entries)
  have recover: "hoare (\<lambda>s. (sound A X s \<and> tidy_except {} s) \<and> store_ready s) (store_recover flt) (\<lambda>_. ?end) ?E"
    using hoare_store_recover [OF crash w cov, of ?E] by simp
  have end_cases: "?E s \<or> (\<exists>st. store_state s = Inr st \<and> producer_epoch st = epoch)" if "?end s" for s
    using that recovered_reads(1) [of A s epoch] epoch by auto
  have close: "hoare ?end (bindS (readS store_state) (\<lambda>st.
       bindS (checkS (producer_epoch st \<noteq> epoch) e) (\<lambda>_. bindS (store_inventory flt) (\<lambda>_. returnS ())))) (\<lambda>_. ?end) ?E" for e
  proof (rule hoareI)
    fix s
    assume s: "?end s"
    then obtain os where "outbox_entries s = Inr os" using recovered_reads(2) sound_outbox by blast
    then show "case bindS (readS store_state) (\<lambda>st.
       bindS (checkS (producer_epoch st \<noteq> epoch) e) (\<lambda>_. bindS (store_inventory flt) (\<lambda>_. returnS ()))) s of
        (Inr x, s') \<Rightarrow> ?end s' | (Inl e, s') \<Rightarrow> ?E s'"
      using s end_cases [OF s] by (auto simp: bindS_def checkS_def inventory_entries split: sum.splits)
  qed
  show ?thesis unfolding start_body_def initial bindS_simps
    by (rule hoare_bindS, rule make, rule hoare_bindS, rule root, rule hoare_bindS, rule states, rule hoare_bindS, rule txns,
        rule hoare_bindS, rule bundles,
        rule hoare_bindS, rule hoare_skip, rule sound_clean, blast, rule hoare_bindS, rule hoare_skip, rule sound_clean, blast,
        rule hoare_bindS, rule hoare_skip, rule sound_files, blast, rule hoare_bindS, rule hoare_skip, rule sound_files, blast,
        rule hoare_bindS, rule hoare_skip, rule sound_files, blast, rule hoare_bindS, rule recover, rule close)
qed


lemma keeps_onErrorS [keeps_rules]: "keeps P m \<Longrightarrow> keeps P h \<Longrightarrow> keeps P (onErrorS m h)"
  by (fastforce simp: keeps_def onErrorS_def split: prod.splits sum.splits)

lemma running_start: "keeps (\<lambda>s. \<not> halted s) (start_body (\<lambda>_. Through) epoch)"
proof -
  have ready: "keeps (\<lambda>s. \<not> halted s) (set_ready b)" for b by (simp add: keeps_def set_ready_def)
  have journal: "keeps (\<lambda>s. \<not> halted s) (recover_journal (\<lambda>_. Through) j)" for j
    unfolding recover_journal_def by (intro keeps_rules running_ops running_recovery ready)
  have journals: "keeps (\<lambda>s. \<not> halted s) (recover_journals (\<lambda>_. Through) js)" for js
    by (induction js; simp only: recover_journals.simps; intro keeps_rules journal)
  have loop: "keeps (\<lambda>s. \<not> halted s) (inventory_loop (\<lambda>_. Through) bs acc)" for bs acc
    by (induction bs arbitrary: acc; simp only: inventory_loop.simps quarantine_bundle_def; intro keeps_rules running_ops)
  show ?thesis
    unfolding start_body_def remove_stale_files_def remove_stale_directories_def clean_directories_def start_state_def start_ledger_def
      recover_demo_reset_def store_recover_def store_inventory_def inventory_verified_def
    by (intro keeps_rules running_ops journals loop ready)
qed

section \<open>Any number of interruptions\<close>

definition start_after :: "interruptions \<Rightarrow> string \<Rightarrow> StateStore \<Rightarrow> StateStore" where
  "start_after flt epoch s = snd (start_store flt epoch s)"

lemma sound_epoch: "sound A X (s\<lparr>store_epoch := e\<rparr>) = sound A X s"
proof -
  have "settled st l es (s\<lparr>store_epoch := e\<rparr>) = settled st l es s" for st l es by (simp add: settled_def current_is_def no_reset_def)
  moreover have "progress T es x y p c (s\<lparr>store_epoch := e\<rparr>) = progress T es x y p c s" for T es x y p c
    by (simp add: progress_def disk_predicates)
  ultimately show ?thesis by (simp add: sound_def pending_def)
qed

definition fresh_start :: "string \<Rightarrow> StateStore \<Rightarrow> StateStore" where
  "fresh_start epoch s = s\<lparr>store_epoch := epoch, store_counter := 0, store_ready := True, halted := False\<rparr>"

lemma fresh_start [simp]: "store_ready (fresh_start epoch s)" "\<not> halted (fresh_start epoch s)"
  "sound A X s \<Longrightarrow> sound A X (fresh_start epoch s)"
proof -
  assume "sound A X s"
  then have "sound A X (s\<lparr>store_epoch := epoch\<rparr>)" by (simp add: sound_epoch)
  then show "sound A X (fresh_start epoch s)"
    using on_disk_sound [of A X] unfolding fresh_start_def on_disk_def by blast
qed (simp_all add: fresh_start_def)

lemma start_after_cases:
  "start_after flt epoch s =
     (case start_body flt epoch (fresh_start epoch s) of (Inl e, t) \<Rightarrow> t\<lparr>store_ready := False\<rparr> | (Inr x, t) \<Rightarrow> t)"
  by (simp add: start_after_def start_store_def catchS_def set_ready_def fresh_start_def split: prod.splits sum.splits)

lemma start_interrupted:
  assumes "crash_only flt" and "whole flt" and "covers A X" and "epoch_of A epoch" and "sound A X s"
  shows "sound A X (start_after flt epoch s)"
proof -
  obtain b where "initial_state epoch = Inr b" using sound_initial [OF assms(5,3,4)] ..
  note h = hoareD [OF hoare_start_body [OF assms(1-4) this], of "fresh_start epoch s"]
  have rec: "sound A X t" if "recovered A t" for t using that by (auto simp: recovered_def sound_def)
  obtain r t where rt: "start_body flt epoch (fresh_start epoch s) = (r, t)" by (cases "start_body flt epoch (fresh_start epoch s)")
  show ?thesis
  proof (cases r)
    case (Inl e)
    then have "sound A X t" using h(2) [of e t] rt assms(5) by simp
    then show ?thesis using Inl rt on_diskD(4) [OF on_disk_sound] by (simp add: start_after_cases)
  next
    case (Inr u)
    then show ?thesis using h(1) [of u t] rt assms(5) rec by (auto simp: start_after_cases)
  qed
qed

lemma start_uninterrupted:
  assumes "calm flt" and "covers A X" and "epoch_of A epoch" and "sound A X s"
  shows "store_ready (start_after flt epoch s)" and "recovered A (start_after flt epoch s)"
proof -
  obtain b where "initial_state epoch = Inr b" using sound_initial [OF assms(4,2,3)] ..
  note h = hoareD [OF hoare_start_body [OF calm_crash_only [OF assms(1)] calm_whole [OF assms(1)] assms(2,3) this],
      of "fresh_start epoch s"]
  have run: "\<not> halted (snd (start_body flt epoch (fresh_start epoch s)))"
    using keepsD [OF running_start, of "fresh_start epoch s" epoch] calm_through [OF assms(1)] by simp
  obtain r t where rt: "start_body flt epoch (fresh_start epoch s) = (r, t)" by (cases "start_body flt epoch (fresh_start epoch s)")
  have "\<exists>u. r = Inr u" using h(2) [of _ t] rt run assms(4) by (cases r) auto
  then obtain u where u: "r = Inr u" ..
  then have "recovered A t \<and> store_ready t" using h(1) [of u t] rt run assms(4) by auto
  then show "store_ready (start_after flt epoch s)" "recovered A (start_after flt epoch s)"
    by (simp_all add: start_after_cases rt u)
qed

text \<open>A sequence of starts, every one interrupted somewhere, and then one that is not.\<close>

definition restarts :: "interruptions list \<Rightarrow> string \<Rightarrow> StateStore \<Rightarrow> StateStore" where
  "restarts fs epoch s = start_after (\<lambda>_. Through) epoch (fold (\<lambda>f. start_after f epoch) fs s)"

lemma restarts_recover:
  assumes "list_all (\<lambda>f. crash_only f \<and> whole f) fs" and "covers A X" and "epoch_of A epoch" and "sound A X s"
  shows "store_ready (restarts fs epoch s)" and "recovered A (restarts fs epoch s)"
proof -
  have "sound A X (fold (\<lambda>f. start_after f epoch) fs s)"
    using assms(1,4) by (induction fs arbitrary: s) (simp_all add: start_interrupted [OF _ _ assms(2,3)])
  then show "store_ready (restarts fs epoch s)" "recovered A (restarts fs epoch s)"
    using start_uninterrupted [OF _ assms(2,3)] by (simp_all add: restarts_def calm_def)
qed

end
