(* ===== verification/Atomic.thy ===== *)
theory Atomic
  imports Recovery
begin

text \<open>
  Processing an episode in the v2 state store as a whole: it is atomic under interruptions, it counts an
  episode exactly once, and it succeeds when nothing interrupts it. The last part shows what the removal
  of a journal does when it is cut off midway.
\<close>


section \<open>Processing an episode\<close>

definition fresh_messages :: "DerivedMessages \<Rightarrow> OutboxEntry list \<Rightarrow> StateStore \<Rightarrow> bool" where
  "fresh_messages ms es s \<longleftrightarrow> files_at (Bundle (derived_id (derived_assessment ms))) s = None \<and>
     distinct (map out_id es @ derived_id (derived_assessment ms) # (case derived_event ms of None \<Rightarrow> [] | Some e \<Rightarrow> [derived_id e]))"

text \<open>The transaction of an accepted assessment.\<close>

definition accepted_txn :: "ModelState \<Rightarrow> IdentityLedger \<Rightarrow> CompletedEpisode \<Rightarrow> ModelState \<Rightarrow> DerivedMessages \<Rightarrow> bool \<Rightarrow> txn" where
  "accepted_txn st l ep evaluated ms admit =
     (let ident = derived_id (derived_assessment ms); after = next_model_state evaluated (source_event_id ep) ident
      in \<lparr>tx_before = st, tx_after = after, tx_before_ledger = l,
          tx_after_ledger = next_ledger l after (state_text after) (source_event_id ep) ident,
          tx_messages = ms, tx_source = source_event_id ep, tx_admit = admit\<rparr>)"

lemma evaluate_typed:
  assumes "evaluate ep st = Inr ev" and "state_typed st" and "assessment ev = Some a"
  shows "state_typed (next_state ev)" and "producer_epoch (next_state ev) = producer_epoch st"
proof -
  have "state_eligible st" using assms(1) by (auto simp: evaluate_def split: if_splits)
  moreover have skip: "skip_of ep = None"
    using assms calculation by (auto simp: evaluate_def skipped_def split: option.splits)
  ultimately obtain b where
    "evaluate ep st = Inr \<lparr>skip_reason = None, assessment = Some b,
      next_state = st\<lparr>generation := u64 (generation st + 1), wear_index := wear_index_after b,
        condition_score := assessed_score b, condition_band := current_band b\<rparr>\<rparr>" by (rule evaluate_assessed)
  moreover have "u64 n \<le> u64_max" for n by (simp add: u64_def u64_max_def)
  ultimately show "state_typed (next_state ev)" "producer_epoch (next_state ev) = producer_epoch st"
    using assms(1,2) by (auto simp: state_typed_def)
qed

lemma push_bounded_all: "list_all P xs \<Longrightarrow> P x \<Longrightarrow> list_all P (push_bounded x xs)" "length xs \<le> 64 \<Longrightarrow> length (push_bounded x xs) \<le> 64"
  by (cases xs; simp add: push_bounded_def Let_def list_all_iff)+

lemma push_bounded_last: "push_bounded x xs \<noteq> []" "last (push_bounded x xs) = x"
  by (cases xs; simp add: push_bounded_def Let_def)+

lemma accepted_ok:
  assumes b: "bound_state st l" and ev: "evaluate ep st = Inr ev" "assessment ev = Some a" and ms: "v2_build_messages md ep a = Inr ms"
    and T: "T = accepted_txn st l ep (next_state ev) ms admit"
    and json: "state_json (tx_after T) = Inr t" and valid: "validate_identity_ledger (tx_after_ledger T) (tx_after T) t = Inr ()"
  shows "txn_ok T"
proof -
  have t: "t = state_text (tx_after T)" using state_json_text [OF json] by simp
  have typed: "state_typed (tx_after T)"
    using evaluate_typed(1) [OF ev(1) _ ev(2)] b by (simp add: T accepted_txn_def Let_def next_model_state_def bound_state_def state_typed_def)
  have "validate_state (tx_after T) = Inr ()" using json by (auto simp: state_json_def bindE_eq_Inr)
  then have "list_all (\<lambda>i. has_version i (CHR ''4'')) (recent_source_event_ids (tx_after T))"
    using check_ledger_versions by (auto simp: validate_state_def bindE_eq_Inr)
  moreover have "source_event_id ep \<in> set (recent_source_event_ids (tx_after T))"
    by (cases "recent_source_event_ids (next_state ev)")
      (auto simp: T accepted_txn_def Let_def next_model_state_def push_bounded_def)
  ultimately have src: "has_version (source_event_id ep) (CHR ''4'')" by (simp add: list_all_iff)
  have "assessment_id md (source_event_id ep) = Inr (derived_id (derived_assessment ms))" by (rule build_messages_parts [OF ms])
  then have ident: "has_version (derived_id (derived_assessment ms)) (CHR ''5'')" using uuid_v5_version by (simp add: assessment_id_def)
  have "ledger_ok (tx_after_ledger T)"
    using b src ident typed sha256_hex_lowercase
    by (auto simp: T accepted_txn_def Let_def next_ledger_def ledger_ok_def bound_state_def binding_ok_def state_typed_def
        intro!: push_bounded_all)
  then show ?thesis using b typed json valid ms t
    by (auto simp: txn_ok_def bound_state_def okE_iff) (auto simp: T accepted_txn_def Let_def)
qed

lemma sum_sort: "sum_list (map f (sort_key k xs)) = (sum_list (map f xs) :: nat)"
proof (induction xs)
  case (Cons x xs)
  have "sum_list (map f (insort_key k x ys)) = f x + sum_list (map f ys)" for ys by (induction ys) auto
  with Cons show ?case by simp
qed simp

lemma admitted_fits:
  assumes "fresh_messages (tx_messages T) es s" and "outbox_entries s = Inr es"
    and "tx_admit T \<longleftrightarrow> admitted (sort_key out_id es) n b (tx_messages T)"
  shows "outbox_before T es s"
proof -
  have "length (sort_key out_id es) = length es" "sum_list (map (length \<circ> out_json) (sort_key out_id es)) = total_bytes es"
    unfolding total_bytes_def by (simp_all add: sum_sort)
  then show ?thesis using assms
    by (cases "derived_event (tx_messages T)")
      (auto simp: outbox_before_def fresh_messages_def fits_def admitted_def derived_outbox_admissible_def derived_count_def
        derived_bytes_def tx_id_def entries_of_def entry_of_def total_bytes_def)
qed


text \<open>The transaction is one of this episode; what its processing may leave, for every result.\<close>

definition belongs :: "ModelState \<Rightarrow> IdentityLedger \<Rightarrow> CompletedEpisode \<Rightarrow> txn \<Rightarrow> bool" where
  "belongs st l ep T \<longleftrightarrow> txn_ok T \<and> tx_before T = st \<and> tx_before_ledger T = l \<and> tx_source T = source_event_id ep \<and>
     producer_epoch (tx_after T) = producer_epoch st \<and> last_assessment_id (tx_after T) = Some (tx_id T) \<and>
     recent_source_event_ids (tx_after T) \<noteq> [] \<and> last (recent_source_event_ids (tx_after T)) = source_event_id ep"

definition stored_outcome :: "ModelState \<Rightarrow> IdentityLedger \<Rightarrow> CompletedEpisode \<Rightarrow> OutboxEntry list \<Rightarrow> bool \<Rightarrow> string option \<Rightarrow> StateStore \<Rightarrow> bool" where
  "stored_outcome st l ep es admit ident t \<longleftrightarrow> (\<exists>T. belongs st l ep T \<and> tx_admit T = admit \<and> ident = Some (tx_id T) \<and>
     settled (tx_after T) (tx_after_ledger T) (outcome T es) t \<and> tidy_except {} t)"

definition left_open :: "ModelState \<Rightarrow> IdentityLedger \<Rightarrow> CompletedEpisode \<Rightarrow> OutboxEntry list \<Rightarrow> StateStore \<Rightarrow> bool" where
  "left_open st l ep es t \<longleftrightarrow> settled st l es t \<or> (\<exists>T. belongs st l ep T \<and> consistent T es t)"

definition processed :: "ModelState \<Rightarrow> IdentityLedger \<Rightarrow> CompletedEpisode \<Rightarrow> OutboxEntry list \<Rightarrow> ProcessResult result \<Rightarrow> StateStore \<Rightarrow> bool" where
  "processed st l ep es r t \<longleftrightarrow>
     (case r of
        Inl e \<Rightarrow> left_open st l ep es t
      | Inr x \<Rightarrow>
          (case process_status x of
             Produced \<Rightarrow> stored_outcome st l ep es True (process_assessment_id x) t
           | DerivedOutboxFull \<Rightarrow> stored_outcome st l ep es False (process_assessment_id x) t
           | NotReadyState \<Rightarrow> left_open st l ep es t
           | _ \<Rightarrow> settled st l es t \<and> tidy_except {} t))"

lemma processed_ready: "left_open st l ep es t \<Longrightarrow> left_open st l ep es (t\<lparr>store_ready := b\<rparr>)"
  unfolding left_open_def using on_diskD(4) [OF on_disk_states(1)] on_diskD(4) [OF on_disk_consistent] by blast

lemma accept_processed:
  assumes w: "whole flt" and b: "bound_state st l" and ev: "evaluate ep st = Inr ev" "assessment ev = Some a"
    and fresh: "\<And>ms. v2_build_messages md ep a = Inr ms \<Longrightarrow> fresh_messages ms es s"
    and s: "settled st l es s" "tidy_except {} s" and res: "accept_assessment flt st l (sort_key out_id es) ep md (next_state ev) a n k s = (r, t)"
  shows "processed st l ep es r t"
proof (cases "v2_build_messages md ep a")
  case (Inl e)
  then show ?thesis using res s by (auto simp: accept_assessment_def processed_def left_open_def)
next
  case (Inr ms)
  define T where "T = accepted_txn st l ep (next_state ev) ms (admitted (sort_key out_id es) n k ms)"
  have T: "next_model_state (next_state ev) (source_event_id ep) (derived_id (derived_assessment ms)) = tx_after T"
    "tx_before T = st" "tx_before_ledger T = l" "tx_messages T = ms" "tx_source T = source_event_id ep"
    "tx_admit T = admitted (sort_key out_id es) n k ms"
    "next_ledger l (tx_after T) (state_text (tx_after T)) (source_event_id ep) (derived_id (derived_assessment ms)) = tx_after_ledger T"
    by (simp_all add: T_def accepted_txn_def Let_def)
  show ?thesis
  proof (cases "\<exists>x. state_json (tx_after T) = Inr x \<and> validate_identity_ledger (tx_after_ledger T) (tx_after T) x = Inr ()")
    case False
    then show ?thesis using res s Inr T state_json_text
      by (auto simp: accept_assessment_def processed_def left_open_def Let_def bindS_def split: sum.splits)
  next
    case True
    then obtain x where x: "state_json (tx_after T) = Inr x" "validate_identity_ledger (tx_after_ledger T) (tx_after T) x = Inr ()" by blast
    have ok: "txn_ok T" by (rule accepted_ok [OF b ev Inr T_def x])
    have bel: "belongs st l ep T" using ok T evaluate_typed(2) [OF ev(1) _ ev(2)] b
      by (auto simp: belongs_def bound_state_def T(1) [symmetric] next_model_state_def push_bounded_last tx_id_def)
    have out: "outbox_before T es s" using admitted_fits [of T es s n k] fresh [OF Inr] s T by (simp add: settled_def)
    obtain r' t' where p: "persist_transaction flt st (tx_after T) l (tx_after_ledger T) ms (tx_admit T) s = (r', t')"
      by (cases "persist_transaction flt st (tx_after T) l (tx_after_ledger T) ms (tx_admit T) s")
    note h = hoareD [OF hoare_persist_transaction [OF w ok, of es], unfolded T, of s, simplified T(6) [symmetric]]
    have x': "x = state_text (tx_after T)" using state_json_text [OF x(1)] by simp
    have res': "accept_assessment flt st l (sort_key out_id es) ep md (next_state ev) a n k s =
        (case r' of Inl e \<Rightarrow> (Inl e, t'\<lparr>store_ready := False\<rparr>)
         | Inr u \<Rightarrow> (Inr (process_result (if tx_admit T then Produced else DerivedOutboxFull) None (Some (derived_id (derived_assessment ms)))
                     (tx_admit T \<and> derived_event ms \<noteq> None)), t'))"
      using p Inr x unfolding x'
      by (simp add: accept_assessment_def Let_def T(1) T(7) bindS_def onErrorS_def set_ready_def T(6) [symmetric] split: sum.splits)
    show ?thesis
    proof (cases r')
      case (Inl e)
      then have "consistent T es t'" using h(2) [of e t'] s out p by (simp add: stopped_def)
      then have "left_open st l ep es t'" using bel by (auto simp: left_open_def)
      then show ?thesis using res res' Inl processed_ready by (auto simp: processed_def)
    next
      case (Inr u)
      then have "settled (tx_after T) (tx_after_ledger T) (outcome T es) t' \<and> tidy_except {} t'" using h(1) [of u t'] s out p by simp
      then have "stored_outcome st l ep es (tx_admit T) (Some (tx_id T)) t'" using bel by (auto simp: stored_outcome_def)
      then show ?thesis using res res' Inr T(4) by (auto simp: processed_def process_result_def tx_id_def)
    qed
  qed
qed

lemma process_processed:
  assumes w: "whole flt" and s: "settled st l es s" "tidy_except {} s"
    and fresh: "\<And>ev a ms. evaluate ep st = Inr ev \<Longrightarrow> assessment ev = Some a \<Longrightarrow> v2_build_messages md ep a = Inr ms \<Longrightarrow> fresh_messages ms es s"
    and res: "process_episode flt ep md n k s = (r, t)"
  shows "processed st l ep es r t"
proof (cases "store_ready s")
  case False
  then show ?thesis using res s by (auto simp: process_episode_def processed_def process_result_def left_open_def)
next
  case True
  define body where "body =
    (if source_event_id ep \<in> set (recent_source_event_ids st) then duplicate_result st l (sort_key out_id es) (source_event_id ep)
     else bindS (liftS (evaluate ep st)) (\<lambda>ev.
        case skip_reason ev of
          Some reason \<Rightarrow> returnS (process_result SkippedInputQuality (Some reason) None False)
        | None \<Rightarrow> (case assessment ev of None \<Rightarrow> not_ready
             | Some a \<Rightarrow> accept_assessment flt st l (sort_key out_id es) ep md (next_state ev) a n k)))"
  from s(1) have b: "bound_state st l" and cur: "current_is (state_text st) (identity_ledger_json l) s" and es: "outbox_entries s = Inr es"
    by (simp_all add: settled_def)
  have run: "process_episode flt ep md n k s = catchArgumentS body not_ready s"
    using True store_state_bound [OF b cur] inventory_entries [OF es, of flt]
    by (simp add: process_episode_def catchArgumentS_def body_def bindS_def)
  have open_ready: "left_open st l ep es (s\<lparr>store_ready := False\<rparr>)" using s processed_ready by (auto simp: left_open_def)
  have body: "processed st l ep es r' t'" if "body s = (r', t')" for r' t'
  proof (cases "source_event_id ep \<in> set (recent_source_event_ids st)")
    case True
    then show ?thesis using that s open_ready
      by (auto simp: body_def duplicate_result_def Let_def not_ready_def bindS_def set_ready_def processed_def process_result_def left_open_def
          split: if_splits)
  next
    case False
    show ?thesis
    proof (cases "\<exists>ev a. evaluate ep st = Inr ev \<and> skip_reason ev = None \<and> assessment ev = Some a")
      case True
      then obtain ev a where ev: "evaluate ep st = Inr ev" "skip_reason ev = None" "assessment ev = Some a" by blast
      then show ?thesis using that False accept_processed [OF w b ev(1,3) fresh s] by (simp add: body_def)
    next
      case none: False
      then show ?thesis using that False s open_ready
        by (auto simp: body_def bindS_def not_ready_def set_ready_def processed_def process_result_def left_open_def
            split: sum.splits option.splits)
    qed
  qed
  obtain r' t' where rt: "body s = (r', t')" by (cases "body s")
  note body [OF rt]
  moreover have "processed st l ep es (Inr (process_result NotReadyState None None False)) (t'\<lparr>store_ready := False\<rparr>)"
    if "left_open st l ep es t'" using processed_ready [OF that] by (simp add: processed_def process_result_def)
  ultimately show ?thesis using res rt
    by (auto simp: run catchArgumentS_def not_ready_def set_ready_def bindS_def processed_def split: sum.splits exn.splits)
qed


section \<open>Atomicity\<close>




section \<open>Exactly once\<close>

lemma takeWhile_index: "distinct (xs @ [x]) \<Longrightarrow> length (takeWhile (\<lambda>i. i \<noteq> x) (xs @ [x])) = length xs"
  by (induction xs) auto

lemma check_ledger_distinct: "check_ledger ids known = Inr u \<Longrightarrow> distinct ids \<and> set ids \<inter> known = {}"
  by (induction ids known rule: check_ledger.induct) (auto split: if_splits)

lemma belongs_last:
  assumes "belongs st l ep T"
  shows "\<exists>xs. recent_source_event_ids (tx_after T) = xs @ [source_event_id ep] \<and> distinct (xs @ [source_event_id ep]) \<and>
    length (ledger_entries (tx_after_ledger T)) = Suc (length xs) \<and>
    bound_assessment_id (ledger_entries (tx_after_ledger T) ! length xs) = tx_id T"
proof -
  let ?ids = "recent_source_event_ids (tx_after T)" and ?es = "ledger_entries (tx_after_ledger T)"
  obtain xs where xs: "?ids = xs @ [source_event_id ep]" using assms by (metis append_butlast_last_id belongs_def)
  from assms have b: "bound_state (tx_after T) (tx_after_ledger T)" by (simp add: belongs_def txn_ok_def)
  then have "validate_state (tx_after T) = Inr ()" using bound_state_text by (fastforce simp: state_json_def bindE_eq_Inr)
  then have "distinct ?ids" using check_ledger_distinct by (auto simp: validate_state_def bindE_eq_Inr)
  moreover have v: "length ?es = length ?ids" "?es \<noteq> [] \<longrightarrow> Some (bound_assessment_id (last ?es)) = last_assessment_id (tx_after T)"
    using b by (auto simp: bound_state_def validate_identity_ledger_def bindE_eq_Inr throwIf_def split: if_splits)
  ultimately show ?thesis using assms xs
    by (intro exI [of _ xs]) (auto simp: belongs_def last_conv_nth)
qed

lemma process_again:
  assumes T: "belongs st l ep T" and s: "settled (tx_after T) (tx_after_ledger T) (outcome T es) s" and "store_ready s"
    and other: "list_all (\<lambda>e. out_source_event_id e \<noteq> source_event_id ep) es"
  shows "process_episode flt ep md n k s = (Inr (process_result Duplicate None (Some (tx_id T)) False), s)"
proof -
  obtain xs where xs: "recent_source_event_ids (tx_after T) = xs @ [source_event_id ep]" "distinct (xs @ [source_event_id ep])"
    "length (ledger_entries (tx_after_ledger T)) = Suc (length xs)"
    "bound_assessment_id (ledger_entries (tx_after_ledger T) ! length xs) = tx_id T" using belongs_last [OF T] by blast
  have ids: "set (map out_assessment_id (filter (\<lambda>e. out_source_event_id e = source_event_id ep) (sort_key out_id (outcome T es)))) \<subseteq> {tx_id T}"
    using other T by (auto simp: outcome_def entries_of_def entry_of_def list_all_iff belongs_def split: if_splits option.splits)
  let ?ids = "remdups (map out_assessment_id (filter (\<lambda>e. out_source_event_id e = source_event_id ep) (sort_key out_id (outcome T es))))"
  have "length ?ids \<le> 1" "?ids \<noteq> [] \<longrightarrow> hd ?ids = tx_id T"
  proof -
    have "length ?ids = card (set ?ids)" by (rule distinct_card [symmetric]) simp
    also have "\<dots> \<le> card {tx_id T}" using ids by (intro card_mono) auto
    finally show "length ?ids \<le> 1" by simp
    show "?ids \<noteq> [] \<longrightarrow> hd ?ids = tx_id T" using ids hd_in_set [of ?ids] by auto
  qed
  then have dup: "duplicate_result (tx_after T) (tx_after_ledger T) (sort_key out_id (outcome T es)) (source_event_id ep) =
      returnS (process_result Duplicate None (Some (tx_id T)) False)"
    using takeWhile_index [OF xs(2)] xs unfolding duplicate_result_def xs(1) Let_def by auto
  from s have b: "bound_state (tx_after T) (tx_after_ledger T)" and
    cur: "current_is (state_text (tx_after T)) (identity_ledger_json (tx_after_ledger T)) s" and es: "outbox_entries s = Inr (outcome T es)"
    by (simp_all add: settled_def)
  show ?thesis using store_state_bound [OF b cur] inventory_entries [OF es, of flt] assms(3) dup xs(1)
    by (simp add: process_episode_def catchArgumentS_def bindS_def)
qed


section \<open>An undisturbed transaction is stored\<close>

lemma running_persist: "keeps (\<lambda>s. \<not> halted s) (persist_transaction (\<lambda>_. Through) b a bl al ms admit)"
  unfolding persist_transaction_def write_journal_def Let_def by (intro keeps_rules running_ops)

lemma persist_undisturbed:
  assumes "calm flt" and "txn_ok T" and "settled (tx_before T) (tx_before_ledger T) es s" and "outbox_before T es s" and "tidy_except {} s"
    and "\<not> halted s"
  obtains t where "persist_transaction flt (tx_before T) (tx_after T) (tx_before_ledger T) (tx_after_ledger T) (tx_messages T) (tx_admit T) s = (Inr (), t)"
    and "settled (tx_after T) (tx_after_ledger T) (outcome T es) t" and "tidy_except {} t" and "\<not> halted t"
proof -
  let ?m = "persist_transaction flt (tx_before T) (tx_after T) (tx_before_ledger T) (tx_after_ledger T) (tx_messages T) (tx_admit T)"
  note h = hoareD [OF hoare_persist_transaction [OF calm_whole [OF assms(1)] assms(2), of es], of s]
  obtain r t where rt: "?m s = (r, t)" by (cases "?m s")
  have run: "\<not> halted t" using keepsE [OF running_persist assms(6)] rt calm_through [OF assms(1)] by blast
  have "r = Inr ()"
    using h(2) [of _ t] rt run assms(3-5) calm_crash_only [OF assms(1)] by (cases r) (auto simp: stopped_def)
  then show thesis using that [of t] h(1) [of "()" t] rt run assms(3-5) by simp
qed

lemma check_ledger_total:
  "list_all (\<lambda>i. has_version i (CHR ''4'')) ids \<Longrightarrow> distinct ids \<Longrightarrow> set ids \<inter> known = {} \<Longrightarrow> check_ledger ids known = Inr (known \<union> set ids)"
  by (induction ids arbitrary: known) auto

lemma push_bounded_map: "map f (push_bounded x xs) = push_bounded (f x) (map f xs)"
  by (simp add: push_bounded_def Let_def map_tl)

lemma push_bounded_distinct: "distinct xs \<Longrightarrow> x \<notin> set xs \<Longrightarrow> distinct (push_bounded x xs)"
  by (simp add: push_bounded_def Let_def distinct_tl)

lemma accepted_valid:
  assumes b: "bound_state st l" and ev: "evaluate ep st = Inr ev" "assessment ev = Some a"
    and ms: "v2_build_messages md ep a = Inr ms" and new: "source_event_id ep \<notin> set (recent_source_event_ids st)"
    and ident: "derived_id (derived_assessment ms) \<notin> set (map bound_assessment_id (ledger_entries l))"
    and T: "T = accepted_txn st l ep (next_state ev) ms admit"
  shows "\<exists>t. state_json (tx_after T) = Inr t \<and> validate_identity_ledger (tx_after_ledger T) (tx_after T) t = Inr ()"
proof -
  have el: "state_eligible st" using ev(1) by (auto simp: evaluate_def split: if_splits)
  have skip: "skip_of ep = None" using ev el by (auto simp: evaluate_def skipped_def split: option.splits)
  obtain c where "evaluate ep st = Inr \<lparr>skip_reason = None, assessment = Some c,
      next_state = st\<lparr>generation := u64 (generation st + 1), wear_index := wear_index_after c,
        condition_score := assessed_score c, condition_band := current_band c\<rparr>\<rparr>"
    and c: "wear_index_after c = min 100 (wear_index st + wear_increment c)" "assessed_score c = 100 - wear_index_after c"
      "current_band c = band_for_score (assessed_score c)" using el skip by (rule evaluate_assessed)
  with ev have n: "next_state ev = st\<lparr>generation := u64 (generation st + 1), wear_index := wear_index_after a,
        condition_score := assessed_score a, condition_band := current_band a\<rparr>" and [simp]: "c = a" by auto
  have vs: "validate_state st = Inr ()" using bound_state_text [OF b] by (auto simp: state_json_def bindE_eq_Inr)
  then obtain u where "check_ledger (recent_source_event_ids st) {} = Inr u" and inv: "\<not> state_invalid st"
    by (auto simp: validate_state_def bindE_eq_Inr)
  note recent = check_ledger_versions [OF this(1)] check_ledger_distinct [OF this(1)]
  have src: "has_version (source_event_id ep) (CHR ''4'')"
    using skip by (auto simp: skip_of_def Let_def has_version_def uuid_with_version_canonical valid_uuid4_canonical split: if_splits)
  have "assessment_id md (source_event_id ep) = Inr (derived_id (derived_assessment ms))" by (rule build_messages_parts [OF ms])
  then have iv: "has_version (derived_id (derived_assessment ms)) (CHR ''5'')" using uuid_v5_version by (simp add: assessment_id_def)
  let ?after = "tx_after T" and ?ids = "push_bounded (source_event_id ep) (recent_source_event_ids st)"
  have after: "?after = (next_state ev)\<lparr>model_config_sha256 := kModelConfigSha256, last_applied_source_event_id := Some (source_event_id ep),
       last_assessment_id := Some (derived_id (derived_assessment ms)), recent_source_event_ids := ?ids\<rparr>"
    by (simp add: T accepted_txn_def Let_def next_model_state_def n)
  have "check_ledger ?ids {} = Inr (set ?ids)"
    using recent new src by (subst check_ledger_total) (auto intro: push_bounded_all push_bounded_distinct)
  moreover have "\<not> state_invalid ?after"
    using inv c iv src push_bounded_all(2) [of "recent_source_event_ids st" "source_event_id ep"]
    by (auto simp: after n state_invalid_def supported_model_config_def)
  moreover have "source_event_id ep \<in> set ?ids" using push_bounded_last [of "source_event_id ep"] last_in_set by metis
  ultimately have "validate_state ?after = Inr ()" by (simp add: validate_state_def after)
  then obtain t where t: "state_json ?after = Inr t" by (simp add: state_json_def)
  let ?b = "\<lparr>bound_source_event_id = source_event_id ep, bound_assessment_id = derived_id (derived_assessment ms)\<rparr>"
  have "map bound_source_event_id (ledger_entries l) = recent_source_event_ids st" "distinct (map bound_assessment_id (ledger_entries l))"
    using b by (auto simp: bound_state_def validate_identity_ledger_def bindE_eq_Inr throwIf_def split: if_splits)
  then have "map bound_source_event_id (push_bounded ?b (ledger_entries l)) = ?ids"
    and "distinct (map bound_assessment_id (push_bounded ?b (ledger_entries l)))"
    using ident by (simp_all add: push_bounded_map push_bounded_distinct)
  moreover have "length (push_bounded ?b (ledger_entries l)) = length ?ids" using calculation(1) by (metis length_map)
  moreover have L: "tx_after_ledger T = l\<lparr>ledger_generation := generation ?after, ledger_entries := push_bounded ?b (ledger_entries l),
      ledger_state_sha256 := sha256_hex t\<rparr>" using state_json_text [OF t] by (simp add: T accepted_txn_def Let_def next_ledger_def)
  moreover have "recent_source_event_ids ?after = ?ids" "last_assessment_id ?after = Some (derived_id (derived_assessment ms))"
    by (simp_all add: after)
  ultimately have "validate_identity_ledger (tx_after_ledger T) ?after t = Inr ()"
    by (simp add: validate_identity_ledger_def push_bounded_last)
  then show ?thesis using t by blast
qed

lemma process_undisturbed:
  assumes c: "calm flt" and s: "settled st l es s" "tidy_except {} s" "store_ready s" "\<not> halted s"
    and ev: "evaluate ep st = Inr ev" "assessment ev = Some a" and ms: "v2_build_messages md ep a = Inr ms"
    and fresh: "fresh_messages ms es s" and new: "source_event_id ep \<notin> set (recent_source_event_ids st)"
    and ident: "derived_id (derived_assessment ms) \<notin> set (map bound_assessment_id (ledger_entries l))"
  shows "\<exists>x t. process_episode flt ep md n k s = (Inr x, t) \<and>
    process_status x = (if admitted (sort_key out_id es) n k ms then Produced else DerivedOutboxFull)"
proof -
  from s(1) have b: "bound_state st l" and cur: "current_is (state_text st) (identity_ledger_json l) s" and es: "outbox_entries s = Inr es"
    by (simp_all add: settled_def)
  define T where "T = accepted_txn st l ep (next_state ev) ms (admitted (sort_key out_id es) n k ms)"
  obtain j where j: "state_json (tx_after T) = Inr j" "validate_identity_ledger (tx_after_ledger T) (tx_after T) j = Inr ()"
    using accepted_valid [OF b ev ms new ident T_def] by blast
  have ok: "txn_ok T" by (rule accepted_ok [OF b ev ms T_def j])
  have T: "next_model_state (next_state ev) (source_event_id ep) (derived_id (derived_assessment ms)) = tx_after T"
    "tx_before T = st" "tx_before_ledger T = l" "tx_messages T = ms" "tx_admit T = admitted (sort_key out_id es) n k ms"
    "next_ledger l (tx_after T) j (source_event_id ep) (derived_id (derived_assessment ms)) = tx_after_ledger T"
    using state_json_text [OF j(1)] by (simp_all add: T_def accepted_txn_def Let_def)
  have out: "outbox_before T es s" using admitted_fits [of T es s n k] fresh es T by simp
  obtain t where p: "persist_transaction flt st (tx_after T) l (tx_after_ledger T) ms (tx_admit T) s = (Inr (), t)"
    using persist_undisturbed [OF c ok, of es s] s out T by auto
  have "skip_reason ev = None"
    using ev by (auto simp: evaluate_def skipped_def bindE_eq_Inr Let_def split: if_splits option.splits)
  then have "process_episode flt ep md n k s = (Inr (process_result (if tx_admit T then Produced else DerivedOutboxFull) None
      (Some (derived_id (derived_assessment ms))) (tx_admit T \<and> derived_event ms \<noteq> None)), t)"
    using s(3) store_state_bound [OF b cur] inventory_entries [OF es, of flt] new ev ms j p
    by (simp add: process_episode_def catchArgumentS_def accept_assessment_def Let_def T(1,6) bindS_def onErrorS_def T(5) [symmetric])
  then show ?thesis using T(5) by (simp add: process_result_def)
qed

text \<open>
  C4. A ready store takes every new episode: when nothing interrupts it, an episode that the model
  assesses and whose metadata is in order, from a source event that is not among the recent ones, is
  reported as produced if the outbox has room for all its messages and as an overflow otherwise,
  never as an error. The messages must carry identities that are new to the ledger and the outbox.
\<close>

theorem process_accepts:
  assumes "calm flt" and "settled st l es s" and "tidy_except {} s" and "store_ready s" and "\<not> halted s"
    and "evaluate ep st = Inr ev" and "assessment ev = Some a" and "v2_build_messages md ep a = Inr ms"
    and "fresh_messages ms es s" and "source_event_id ep \<notin> set (recent_source_event_ids st)"
    and "derived_id (derived_assessment ms) \<notin> set (map bound_assessment_id (ledger_entries l))"
  shows "\<exists>x t. process_episode flt ep md n k s = (Inr x, t) \<and>
    process_status x = (if admitted (sort_key out_id es) n k ms then Produced else DerivedOutboxFull)"
  by (rule process_undisturbed [OF assms])

text \<open>
  C3. An episode is counted exactly once. When processing reports an assessment, stored in the outbox
  or not because it was full, then after any number of interrupted restarts and one that completes the
  store holds exactly the outcome of that transaction, under the reported identity, and offering the
  same episode again changes nothing and reports a duplicate of the same assessment. The outbox must
  not hold messages of this source event beforehand.
\<close>

theorem process_exactly_once:
  assumes "whole flt" and "list_all (\<lambda>f. crash_only f \<and> whole f) fs" and "settled st l es s" and "tidy_except {} s"
    and "\<And>ev a ms. evaluate ep st = Inr ev \<Longrightarrow> assessment ev = Some a \<Longrightarrow> v2_build_messages md ep a = Inr ms \<Longrightarrow> fresh_messages ms es s"
    and "list_all (\<lambda>e. out_source_event_id e \<noteq> source_event_id ep) es"
    and "process_episode flt ep md n k s = (Inr x, t)" and "process_status x \<in> {Produced, DerivedOutboxFull}"
  shows "let t' = restarts fs (producer_epoch st) t
    in (\<exists>T. belongs st l ep T \<and> process_assessment_id x = Some (tx_id T) \<and> (tx_admit T \<longleftrightarrow> process_status x = Produced) \<and>
          settled (tx_after T) (tx_after_ledger T) (outcome T es) t') \<and>
       process_episode flt' ep md' n' k' t' = (Inr (process_result Duplicate None (process_assessment_id x) False), t')"
proof -
  have "processed st l ep es (Inr x) t" by (rule process_processed [OF assms(1,3,4,5,7)])
  then have "stored_outcome st l ep es (process_status x = Produced) (process_assessment_id x) t"
    using assms(8) by (auto simp: processed_def)
  then obtain T where T: "belongs st l ep T" "tx_admit T = (process_status x = Produced)" "process_assessment_id x = Some (tx_id T)"
    "settled (tx_after T) (tx_after_ledger T) (outcome T es) t" by (auto simp: stored_outcome_def)
  let ?A = "{(tx_after T, tx_after_ledger T, outcome T es)}"
  have "sound ?A {} t" "covers ?A {}" "epoch_of ?A (producer_epoch st)"
    using T by (auto simp: sound_def covers_def epoch_of_def belongs_def)
  note r = restarts_recover [OF assms(2) this(2,3,1)]
  then have "settled (tx_after T) (tx_after_ledger T) (outcome T es) (restarts fs (producer_epoch st) t)" by (simp add: recovered_def)
  with process_again [OF T(1) this r(1) assms(6), of flt' md' n' k'] T show ?thesis by (auto simp: Let_def)
qed


section \<open>A journal removed in part\<close>

text \<open>The journal of a transaction that has lost its first file.\<close>

definition broken :: "string \<Rightarrow> StateStore \<Rightarrow> bool" where
  "broken j s \<longleftrightarrow> live_names (transactions s) = [j] \<and> \<not> stale_name j \<and> file_at (Transaction j) ''before.json'' s = None"

text \<open>Places that are not the directory of a live journal.\<close>

definition beside :: "place \<Rightarrow> bool" where
  "beside p \<longleftrightarrow> (case p of Transaction n \<Rightarrow> dot_name n | _ \<Rightarrow> True)"

lemma broken_live: "broken j s \<Longrightarrow> \<not> dot_name j \<and> j \<in> fst ` set (transactions s)"
  using live_names_lookup [of j "transactions s"] by (auto simp: broken_def map_of_eq_None_iff)

lemma broken_hidden [simp]:
  "broken j (s\<lparr>ticks := n\<rparr>) = broken j s" "broken j (s\<lparr>halted := h\<rparr>) = broken j s" "broken j (s\<lparr>store_ready := r\<rparr>) = broken j s"
  "broken j (s\<lparr>store_counter := c\<rparr>) = broken j s" "broken j (s\<lparr>store_epoch := e\<rparr>) = broken j s"
  by (simp_all add: broken_def)

lemma broken_beside:
  assumes "broken j s" and "beside p"
  shows "broken j (put_files p d s)" and "broken j (drop_files p s)"
proof -
  have ne: "p \<noteq> Transaction j" using assms broken_live by (auto simp: beside_def)
  have "live_names (transactions (put_files p d s)) = live_names (transactions s)" "live_names (transactions (drop_files p s)) = live_names (transactions s)"
    using assms(2) aside_frame(2,3) [of p]
    by (cases p; auto simp: beside_def aside_def put_files.simps drop_files.simps)+
  then show "broken j (put_files p d s)" "broken j (drop_files p s)"
    using assms(1) ne by (simp_all add: broken_def file_at_put file_at_drop)
qed

lemma broken_journal:
  assumes "broken j s" and "map_of d ''before.json'' = None"
  shows "broken j (put_files (Transaction j) d s)"
  using assms broken_live [OF assms(1)] by (simp add: broken_def file_at_put live_names_update)

lemma keeps_broken_effect:
  assumes "\<And>s. broken j s \<Longrightarrow> broken j (f s)" and "\<And>k s. broken j s \<Longrightarrow> broken j (part k s)"
  shows "keeps (broken j) (disk_effect flt what f part)"
  using assms by (auto simp: keeps_def disk_effect_def Let_def split: interruption.splits moment.splits)

interpretation loose: kept flt "broken j" beside for flt j
  by unfold_locales (simp_all add: keeps_broken_effect broken_beside)

lemma broken_write_mark:
  assumes "name \<noteq> ''before.json''"
  shows "keeps (broken j) (store_write flt (Transaction j) name bytes)" and "keeps (broken j) (remove_file flt (Transaction j) name)"
proof -
  have none: "map_of d ''before.json'' = None" if "broken j s" "files_at (Transaction j) s = Some d" for s d
    using that by (simp add: broken_def file_at_def)
  have there: "files_at (Transaction j) s \<noteq> None" if "broken j s" for s
    using broken_live [OF that] by (simp add: files_at.simps map_of_eq_None_iff)
  have mk: "keeps (broken j) (make_private_directory flt (Transaction j))"
    unfolding make_private_directory_def by (rule keeps_broken_effect) (auto simp: ensure_files_def dest: there)
  have wr: "keeps (broken j) (disk_effect flt what (write_file (Transaction j) name bytes) (\<lambda>_. id))" for what
    by (rule keeps_broken_effect) (use assms none in \<open>auto simp: write_file_def map_of_update intro!: broken_journal split: option.splits dest: there\<close>)
  show "keeps (broken j) (store_write flt (Transaction j) name bytes)"
    unfolding store_write_def by (rule keeps_bindS [OF mk], rule keeps_bindS [OF loose.next_counter], rule wr)
  show "keeps (broken j) (remove_file flt (Transaction j) name)"
    unfolding remove_file_def
    by (rule keeps_broken_effect) (use none in \<open>auto intro!: broken_journal simp: delete_conv' split: option.splits\<close>)
qed


lemma hoare_recover_broken:
  "hoare (broken j) (store_recover flt) (\<lambda>_ s. broken j s \<and> \<not> store_ready s) (broken j)"
proof (rule hoareI)
  fix s
  assume s: "broken j s"
  then have fails: "\<exists>e. read_journal j s = Inl e"
    by (cases "read_journal j s") (auto simp: read_journal_def read_journal_states_def read_bounded_def broken_def bindE_eq_Inr)
  obtain r t where rt: "store_write flt (Transaction j) ''QUARANTINED'' (''NOT_READY_STATE'' @ [byte 10]) s = (r, t)"
    by (cases "store_write flt (Transaction j) ''QUARANTINED'' (''NOT_READY_STATE'' @ [byte 10]) s")
  have "broken j t" by (rule keepsE [OF broken_write_mark(1) s rt]) simp
  moreover have "live_names (transactions s) = [j]" using s by (simp add: broken_def)
  ultimately show "case store_recover flt s of (Inr x, s') \<Rightarrow> broken j s' \<and> \<not> store_ready s' | (Inl e, s') \<Rightarrow> broken j s'"
    using fails s rt
    by (cases r) (auto simp: store_recover_def recover_journal_def catchS_def bindS_def set_ready_def)
qed

lemma keeps_bind_filter:
  assumes "\<And>ns. list_all p ns \<Longrightarrow> keeps P (f ns)"
  shows "keeps P (bindS (readS (\<lambda>s. Inr (filter p (g s)))) f)"
proof (rule keepsI)
  fix s
  assume "P s"
  moreover have "list_all p (filter p (g s))" by (simp add: list_all_iff)
  ultimately show "P (snd (bindS (readS (\<lambda>s. Inr (filter p (g s)))) f s))" using keepsD [OF assms] by simp
qed

lemma broken_cleaning:
  "keeps (broken j) (remove_stale_files flt StateRoot)" "keeps (broken j) (remove_stale_files flt (Bundle b))"
  "keeps (broken j) (remove_stale_files flt (Transaction j))"
  "p \<in> {StateDir, Transaction, Bundle} \<Longrightarrow> keeps (broken j) (remove_stale_directories flt p entries)"
proof -
  have stale: "n \<noteq> ''before.json''" if "stale_name n" for n using that by (auto simp: stale_name_def dot_name_def)
  show "keeps (broken j) (remove_stale_files flt StateRoot)" "keeps (broken j) (remove_stale_files flt (Bundle b))"
    "keeps (broken j) (remove_stale_files flt (Transaction j))"
    unfolding remove_stale_files_def
    by (rule keeps_bind_filter, intro keeps_rules loose.ticks loose.removes broken_write_mark(2);
        simp add: beside_def list_all_iff stale)+
  show "keeps (broken j) (remove_stale_directories flt p entries)" if "p \<in> {StateDir, Transaction, Bundle}"
    unfolding remove_stale_directories_def
    by (rule keeps_bind_filter, intro keeps_rules loose.ticks loose.removes) (use that in \<open>auto simp: beside_def list_all_iff stale_dot\<close>)
qed

lemma broken_clean_journals: "keeps (broken j) (clean_directories flt Transaction transactions)"
proof (rule keepsI)
  fix s
  assume s: "broken j s"
  then have "clean_directories flt Transaction transactions s = bindS (remove_stale_files flt (Transaction j)) (\<lambda>_. returnS ()) s"
    by (simp add: clean_directories_def broken_def)
  then show "broken j (snd (clean_directories flt Transaction transactions s))"
    using keepsD [OF keeps_bindS [OF broken_cleaning(3) keeps_pure(1) [of _ "()"]], OF s, of flt] by simp
qed

lemma hoare_start_broken:
  "hoare (broken j) (start_body flt epoch) (\<lambda>_ s. broken j s \<and> \<not> store_ready s) (broken j)"
proof -
  have places: "beside StateRoot" "beside (StateDir n)" "beside (Bundle n)" for n by (simp_all add: beside_def)
  note ops = loose.ticks loose.make [OF places(1)] loose.write_at [OF places(1)] loose.rename [OF places(2) places(2)]
    loose.removes(1) [OF places(2)] broken_cleaning(1)
  have steps: "keeps (broken j) (remove_stale_directories flt StateDir state_dirs)" "keeps (broken j) (remove_stale_directories flt Transaction transactions)"
    "keeps (broken j) (remove_stale_directories flt Bundle outbox)" by (simp_all add: broken_cleaning)
  have bundles: "keeps (broken j) (clean_directories flt Bundle outbox)"
    unfolding clean_directories_def by (intro keeps_rules broken_cleaning)
  have files: "keeps (broken j) (start_state flt epoch)" "keeps (broken j) (start_ledger flt)" "keeps (broken j) (recover_demo_reset flt)"
    unfolding start_state_def start_ledger_def recover_demo_reset_def by (intro keeps_rules ops)+
  have close: "hoare (\<lambda>s. broken j s \<and> \<not> store_ready s) (bindS (readS store_state) (\<lambda>st.
       bindS (checkS (producer_epoch st \<noteq> epoch) e) (\<lambda>_. bindS (store_inventory flt) (\<lambda>_. returnS ()))))
       (\<lambda>_ s. broken j s \<and> \<not> store_ready s) (broken j)" for e
    by (auto simp: hoare_def bindS_def checkS_def store_inventory_def split: sum.splits)
  note k = keeps_iff_hoare [THEN iffD1]
  have make: "keeps (broken j) (make_private_directory flt StateRoot)" by (rule ops)
  show ?thesis unfolding start_body_def
    by (rule hoare_bindS [OF k [OF keeps_pure(3)]], rule hoare_bindS [OF k [OF make]], rule hoare_bindS [OF k [OF broken_cleaning(1)]],
        rule hoare_bindS [OF k [OF steps(1)]], rule hoare_bindS [OF k [OF steps(2)]], rule hoare_bindS [OF k [OF steps(3)]],
        rule hoare_bindS [OF k [OF broken_clean_journals]], rule hoare_bindS [OF k [OF bundles]],
        rule hoare_bindS [OF k [OF files(1)]], rule hoare_bindS [OF k [OF files(2)]], rule hoare_bindS [OF k [OF files(3)]],
        rule hoare_bindS [OF hoare_recover_broken], rule close)
qed

lemma start_broken:
  assumes "broken j s"
  shows "\<not> store_ready (start_after flt epoch s)" and "broken j (start_after flt epoch s)"
proof -
  note h = hoareD [OF hoare_start_broken, of j "fresh_start epoch s" flt epoch]
  have b: "broken j (fresh_start epoch s)" using assms by (simp add: fresh_start_def)
  obtain r t where rt: "start_body flt epoch (fresh_start epoch s) = (r, t)" by (cases "start_body flt epoch (fresh_start epoch s)")
  then show "\<not> store_ready (start_after flt epoch s)" "broken j (start_after flt epoch s)"
    using h(1) [OF b, of _ t] h(2) [OF b, of _ t] by (cases r; simp add: start_after_cases)+
qed

text \<open>C20. The removal of a finished journal is not safe against an interruption. If \<open>remove_all\<close> is cut off
  after it has deleted \<open>before.json\<close>, although the transaction is complete and only its clean-up was under way,
  the store is not ready after the next start, nor after any later one, however the starts go: the rest
  of the journal is quarantined and never removed. (The reset of the demonstration renames its journal
  first for this reason; the transaction and the recovery do not.)
\<close>

theorem partial_journal_removal_disables:
  assumes "progress T es x y p c s" and "files_at (Transaction (tx_id T)) s = Some d" and "map_of (drop k d) ''before.json'' = None"
  shows "\<not> store_ready (start_after f epoch (fold (\<lambda>f. start_after f epoch) fs (remove_part (Transaction (tx_id T)) k s)))"
proof -
  have ok: "txn_ok T" and l: "live_names (transactions s) = [tx_id T]" using assms(1) by (simp_all add: progress_def journal_at_def)
  then have "tx_id T \<in> fst ` set (transactions s)" by (metis journal_present [OF assms(1)] files_at.simps(3) map_of_eq_None_iff)
  then have "broken (tx_id T) (remove_part (Transaction (tx_id T)) k s)"
    using assms(2,3) l txn_id_not_stale [OF ok] by (simp add: broken_def remove_part_def file_at_put live_names_update)
  then have "broken (tx_id T) (fold (\<lambda>f. start_after f epoch) fs (remove_part (Transaction (tx_id T)) k s))"
    by (induction fs arbitrary: s rule: rev_induct) (simp_all add: start_broken)
  then show ?thesis by (rule start_broken)
qed


section \<open>A concrete store\<close>

definition good_state :: ModelState where
  "good_state = demo_state\<lparr>wear_index := 0, condition_score := 100, condition_band := Good\<rparr>"

definition good_ledger :: IdentityLedger where
  "good_ledger = \<lparr>ledger_generation = 0, ledger_state_sha256 = sha256_hex (state_text good_state), ledger_entries = []\<rparr>"

definition good_store :: StateStore where
  "good_store = \<lparr>state_files = [(''state.json'', state_text good_state), (''identity-ledger.json'', identity_ledger_json good_ledger)],
     state_dirs = [], transactions = [], outbox = [], store_epoch = demo_id, store_counter = 0, store_ready = True, halted = False, ticks = 0\<rparr>"

lemma good_bound: "bound_state good_state good_ledger"
proof -
  have "okE (validate_state good_state)" by code_simp
  then have "okE (state_json good_state)" by (auto simp: state_json_def okE_iff)
  moreover have "state_typed good_state" by code_simp
  moreover have "recent_source_event_ids good_state = []" "generation good_state = 0" by code_simp+
  ultimately show ?thesis
    by (simp add: bound_state_def good_ledger_def ledger_ok_def sha256_hex_lowercase validate_identity_ledger_def)
qed

lemma good_settled: "settled good_state good_ledger [] good_store" "tidy_except {} good_store"
  by (simp_all add: settled_def good_bound current_is_def file_at_def files_at.simps good_store_def live_names_def outbox_entries_def
      no_reset_def tidy_except_def)

lemma good_evaluation:
  obtains ev a ms where "evaluate demo_episode good_state = Inr ev" and "assessment ev = Some a"
    and "v2_build_messages demo_metadata demo_episode a = Inr ms" and "derived_event ms = None"
proof -
  have "case evaluate demo_episode good_state of Inl _ \<Rightarrow> False | Inr ev \<Rightarrow>
      (case assessment ev of None \<Rightarrow> False | Some a \<Rightarrow> assessment_typed a \<and> \<not> v2_metadata_invalid demo_metadata demo_episode a \<and>
         previous_band a = current_band a)"
    by code_simp
  then obtain ev a where ev: "evaluate demo_episode good_state = Inr ev" "assessment ev = Some a"
    and a: "assessment_typed a" "\<not> v2_metadata_invalid demo_metadata demo_episode a" "previous_band a = current_band a"
    by (auto split: sum.splits option.splits)
  from build_messages_produced [OF a(1), of demo_metadata demo_episode] a(2,3)
  obtain ms where "v2_build_messages demo_metadata demo_episode a = Inr ms" "derived_event ms = None"
    by (auto simp: v2_build_messages_def v2_validate_metadata_def)
  with ev show thesis by (rule that)
qed

lemma good_fresh:
  assumes "evaluate demo_episode good_state = Inr ev" and "assessment ev = Some a" and "v2_build_messages demo_metadata demo_episode a = Inr ms"
  shows "fresh_messages ms [] good_store"
proof -
  have "derived_event ms = None" using assms good_evaluation by fastforce
  then show ?thesis by (simp add: fresh_messages_def good_store_def files_at.simps)
qed

text \<open>The process ends at its effect \<open>n\<close>.\<close>

definition ends_at :: "nat \<Rightarrow> moment \<Rightarrow> interruptions" where
  "ends_at n m = (\<lambda>k. if k = n then Ends m else Through)"

lemma ends_at_simps [simp]: "crash_only (ends_at n m)" "whole (ends_at n Before)" "whole (ends_at n After)"
  by (auto simp: crash_only_def whole_def ends_at_def)


lemma good_conditions:
  "calm (\<lambda>_. Through)" "store_ready good_store" "\<not> halted good_store" "source_event_id demo_episode \<notin> set (recent_source_event_ids good_state)"
  "i \<notin> set (map bound_assessment_id (ledger_entries good_ledger))"
  by (simp_all add: calm_def good_store_def good_state_def demo_state_def good_ledger_def)

lemma good_processed:
  "\<exists>x t. process_episode (\<lambda>_. Through) demo_episode demo_metadata 0 0 good_store = (Inr x, t) \<and> process_status x \<in> {Produced, DerivedOutboxFull}"
proof -
  obtain ev a ms where ev: "evaluate demo_episode good_state = Inr ev" "assessment ev = Some a"
    and ms: "v2_build_messages demo_metadata demo_episode a = Inr ms" by (rule good_evaluation)
  from process_undisturbed [OF good_conditions(1) good_settled good_conditions(2,3) ev ms good_fresh [OF ev ms] good_conditions(4,5), of 0 0]
  show ?thesis by auto
qed

theorem process_accepts_witness:
  "\<exists>ev a ms x t. evaluate demo_episode good_state = Inr ev \<and> assessment ev = Some a \<and>
     v2_build_messages demo_metadata demo_episode a = Inr ms \<and>
     process_episode (\<lambda>_. Through) demo_episode demo_metadata 0 0 good_store = (Inr x, t) \<and>
     process_status x = (if admitted [] 0 0 ms then Produced else DerivedOutboxFull)"
proof -
  obtain ev a ms where ev: "evaluate demo_episode good_state = Inr ev" "assessment ev = Some a"
    and ms: "v2_build_messages demo_metadata demo_episode a = Inr ms" by (rule good_evaluation)
  from process_accepts [OF good_conditions(1) good_settled good_conditions(2,3) ev ms good_fresh [OF ev ms] good_conditions(4,5), of 0 0]
  obtain x t where "process_episode (\<lambda>_. Through) demo_episode demo_metadata 0 0 good_store = (Inr x, t)"
    "process_status x = (if admitted [] 0 0 ms then Produced else DerivedOutboxFull)" by auto
  with ev ms show ?thesis by blast
qed

theorem process_exactly_once_witness:
  "\<exists>x t. process_episode (\<lambda>_. Through) demo_episode demo_metadata 0 0 good_store = (Inr x, t) \<and>
     (let t' = restarts [ends_at 5 Before] demo_id t
      in process_episode (\<lambda>_. Through) demo_episode demo_metadata 0 0 t' =
           (Inr (process_result Duplicate None (process_assessment_id x) False), t'))"
proof -
  obtain x t where x: "process_episode (\<lambda>_. Through) demo_episode demo_metadata 0 0 good_store = (Inr x, t)"
    "process_status x \<in> {Produced, DerivedOutboxFull}" using good_processed by blast
  have e: "producer_epoch good_state = demo_id" by (simp add: good_state_def demo_state_def)
  have "whole (\<lambda>_. Through)" by (simp add: whole_def)
  from process_exactly_once [OF this _ good_settled good_fresh _ x, of "[ends_at 5 Before]"] x(1)
  show ?thesis unfolding e by (auto simp: Let_def)
qed

theorem partial_journal_removal_disables_witness:
  "\<exists>T s. progress T [] (state_text (tx_after T)) (identity_ledger_json (tx_after_ledger T)) False False s \<and>
     \<not> store_ready (start_after (\<lambda>_. Through) demo_id (fold (\<lambda>f. start_after f demo_id) [\<lambda>_. Through] (remove_part (Transaction (tx_id T)) 1 s)))"
proof -
  obtain ev a ms where ev: "evaluate demo_episode good_state = Inr ev" "assessment ev = Some a"
    and ms: "v2_build_messages demo_metadata demo_episode a = Inr ms" by (rule good_evaluation)
  define T where "T = accepted_txn good_state good_ledger demo_episode (next_state ev) ms False"
  from accepted_valid [OF good_bound ev ms good_conditions(4,5) T_def] have ok: "txn_ok T" using accepted_ok [OF good_bound ev ms T_def] by blast
  define s where "s = good_store\<lparr>state_files := [(''state.json'', state_text (tx_after T)), (''identity-ledger.json'', identity_ledger_json (tx_after_ledger T))],
      transactions := [(tx_id T, journal_files T)]\<rparr>"
  have files: "files_at (Transaction (tx_id T)) s = Some (journal_files T)" by (simp add: s_def files_at.simps)
  have pr: "progress T [] (state_text (tx_after T)) (identity_ledger_json (tx_after_ledger T)) False False s"
    using ok txn_id_not_dot [OF ok]
    by (simp add: progress_def disk_predicates file_at_def files_at.simps s_def good_store_def live_names_def journal_dir_def outbox_entries_def
        T_def accepted_txn_def Let_def)
  have "map_of (drop 1 (journal_files T)) ''before.json'' = None"
    by (cases "derived_event (tx_messages T)") (simp_all add: journal_files_def bundle_files_def)
  with partial_journal_removal_disables [OF pr files] pr show ?thesis by blast
qed

end
