(* ===== verification/Spool.thy ===== *)
theory Spool
  imports Effects Messages1
begin

text \<open>
  The durable queue of v1 events (\<^verbatim>\<open>src/v1/spool.cpp\<close>): one directory per event with a state file, the
  chunk and completion messages with their digests, and acknowledgement marks. The root directory
  is an association list from event ids to directories; every entry is a regular file. A write can
  fail at each stage the source distinguishes: \<open>faults\<close> says at which write, by the number of the
  temporary file, and it stands for the fault injector as well as for an error of the operating
  system or the end of the process at that point. A rename or creation of a directory and the removal
  of one are single effects that do not fail: an end of the process inside a removal, or between the
  two renames that publish a completed event, is not among the executions.
\<close>

section \<open>Data\<close>

datatype SpoolState = Capturing | ReadyToSend | WaitingAck | Acknowledged | Quarantined

datatype WriteStage = TemporaryOpen | TemporaryWrite | FileSync | Rename | DirectorySync

datatype AdmissionResult = Stored | WindowDroppedQueueFull

record SpoolEntry =
  entry_event_id :: string
  entry_state :: SpoolState
  entry_encoded_bytes :: nat
  chunk_count :: nat
  completion_present :: bool

record EventSpool =
  spool_root :: "(string \<times> dir) list"
  temporary_counter :: nat
  dropped_queue_full :: nat

type_synonym faults = "nat \<Rightarrow> WriteStage \<Rightarrow> string \<Rightarrow> bool"
type_synonym 'a spool_op = "(EventSpool, 'a) op"

definition maximum_windows :: nat where "maximum_windows = 8"
definition maximum_encoded_bytes :: nat where "maximum_encoded_bytes = 4 * 1024 * 1024"

definition spool_state_name :: "SpoolState \<Rightarrow> string" where
  "spool_state_name s =
     (case s of Capturing \<Rightarrow> ''CAPTURING'' | ReadyToSend \<Rightarrow> ''READY_TO_SEND'' | WaitingAck \<Rightarrow> ''WAITING_ACK''
      | Acknowledged \<Rightarrow> ''ACKNOWLEDGED'' | Quarantined \<Rightarrow> ''QUARANTINED'')"

definition parse_state :: "string \<Rightarrow> SpoolState result" where
  "parse_state v =
     (if v = ''CAPTURING'' then Inr Capturing
      else if v = ''READY_TO_SEND'' then Inr ReadyToSend
      else if v = ''WAITING_ACK'' then Inr WaitingAck
      else if v = ''ACKNOWLEDGED'' then Inr Acknowledged
      else if v = ''QUARANTINED'' then Inr Quarantined
      else Inl (Runtime_error ''invalid spool state''))"

definition is_chunk_filename :: "string \<Rightarrow> bool" where
  "is_chunk_filename name \<longleftrightarrow>
     length name = 14 \<and> take 6 name = ''chunk-'' \<and> drop 9 name = ''.json'' \<and>
     list_all is_dec (take 3 (drop 6 name))"

section \<open>Files\<close>

definition file_of :: "EventSpool \<Rightarrow> string \<Rightarrow> string \<Rightarrow> string option" where
  "file_of s ev name = (case map_of (spool_root s) ev of None \<Rightarrow> None | Some d \<Rightarrow> map_of d name)"

definition set_dir :: "string \<Rightarrow> dir \<Rightarrow> EventSpool \<Rightarrow> EventSpool" where
  "set_dir ev d s = s\<lparr>spool_root := AList.update ev d (spool_root s)\<rparr>"

definition posix_error :: "string \<Rightarrow> exn" where
  "posix_error action = Runtime_error action"

definition sync_directory :: "faults \<Rightarrow> string \<Rightarrow> unit spool_op" where
  "sync_directory flt path s =
     (if flt (temporary_counter s) DirectorySync path then (Inl (Runtime_error ''injected directory fsync failure''), s)
      else (Inr (), s))"

text \<open>
  The file is replaced by the \<open>rename\<close> alone: a failure before it leaves the directory as it was (the
  temporary file is unlinked), a failure of the directory sync comes after it.
\<close>

definition atomic_write :: "faults \<Rightarrow> string \<Rightarrow> string \<Rightarrow> string \<Rightarrow> unit spool_op" where
  "atomic_write flt ev name bytes s =
     (let n = temporary_counter s; target = ev @ ''/'' @ name; s1 = s\<lparr>temporary_counter := n + 1\<rparr>
      in if flt n TemporaryOpen target then (Inl (Runtime_error ''injected temporary open failure''), s1)
         else (case map_of (spool_root s) ev of
             None \<Rightarrow> (Inl (posix_error ''open temporary spool file''), s1)
           | Some d \<Rightarrow>
               if flt n TemporaryWrite target then (Inl (Runtime_error ''injected temporary write failure''), s1)
               else if flt n FileSync target then (Inl (Runtime_error ''injected file fsync failure''), s1)
               else if flt n Rename target then (Inl (Runtime_error ''injected rename failure''), s1)
               else sync_directory flt ev (set_dir ev (AList.update name bytes d) s1)))"

definition rename_file :: "string \<Rightarrow> string \<Rightarrow> string \<Rightarrow> string \<Rightarrow> unit spool_op" where
  "rename_file action ev old new s =
     (case map_of (spool_root s) ev of None \<Rightarrow> (Inl (posix_error action), s)
      | Some d \<Rightarrow> (case map_of d old of None \<Rightarrow> (Inl (posix_error action), s)
          | Some bytes \<Rightarrow> (Inr (), set_dir ev (AList.update new bytes (AList.delete old d)) s)))"

definition write_state :: "faults \<Rightarrow> string \<Rightarrow> SpoolState \<Rightarrow> unit spool_op" where
  "write_state flt ev st = atomic_write flt ev ''manifest'' (spool_state_name st)"

definition event_directory :: "string \<Rightarrow> string spool_op" where
  "event_directory ev =
     (if \<not> uuid4 ev then throwS (Invalid_argument ''event ID must be a lowercase UUIDv4'') else returnS ev)"

section \<open>Inspection\<close>

definition dir_bytes :: "dir \<Rightarrow> nat" where
  "dir_bytes d =
     sum_list (map (\<lambda>(name, bytes). length bytes)
       (filter (\<lambda>(name, bytes). is_chunk_filename name \<or> name = ''completion.json'' \<or> name = ''restart-completion.json'') d))"

definition inspect_dir :: "string \<Rightarrow> dir \<Rightarrow> SpoolEntry result" where
  "inspect_dir ev d =
     (case map_of d ''manifest'' of None \<Rightarrow> Inl (Runtime_error ''cannot read spool state'')
      | Some value \<Rightarrow> bindE (parse_state value) (\<lambda>st.
          Inr \<lparr>entry_event_id = ev, entry_state = st, entry_encoded_bytes = dir_bytes d,
               chunk_count = length (filter (\<lambda>(name, bytes). is_chunk_filename name) d),
               completion_present = (map_of d ''completion.json'' \<noteq> None)\<rparr>))"

definition inspect_event :: "string \<Rightarrow> SpoolEntry spool_op" where
  "inspect_event ev = readS (\<lambda>s. case map_of (spool_root s) ev of
     None \<Rightarrow> Inl (Runtime_error ''cannot read spool state'') | Some d \<Rightarrow> inspect_dir ev d)"

definition inventory_of :: "(string \<times> dir) list \<Rightarrow> SpoolEntry list result" where
  "inventory_of rt =
     bindE (mapE (\<lambda>(ev, d). inspect_dir ev d) (filter (\<lambda>(ev, d). uuid4 ev) rt)) (\<lambda>es.
       Inr (sort_key entry_event_id es))"

definition inventory :: "SpoolEntry list spool_op" where
  "inventory = readS (\<lambda>s. inventory_of (spool_root s))"

text \<open>
  The scan for the end of the content object: the depth it ends with and the number of characters
  it read.
\<close>

fun scan_content :: "int \<Rightarrow> bool \<Rightarrow> bool \<Rightarrow> string \<Rightarrow> int \<times> nat" where
  "scan_content depth in_string escaped [] = (depth, 0)"
| "scan_content depth in_string escaped (c # cs) =
     (let go = (\<lambda>d i e. case scan_content d i e cs of (d', n) \<Rightarrow> (d', Suc n))
      in if in_string then
           (if escaped then go depth True False
            else if c = CHR 0x5C then go depth True True
            else if c = CHR 0x22 then go depth False escaped
            else go depth True escaped)
         else if c = CHR 0x22 then go depth True escaped
         else if c = CHR ''{'' then go (depth + 1) False escaped
         else if c = CHR ''}'' then
           (if depth - 1 = 0 then (0, 1) else go (depth - 1) False escaped)
         else go depth False escaped)"

definition content_prefix :: string where "content_prefix = ''{\"content\":''"
definition content_marker :: string where "content_marker = '',\"contentSha256\":\"''"

definition embedded_digest_valid :: "string \<Rightarrow> bool" where
  "embedded_digest_valid bytes \<longleftrightarrow>
     take (length content_prefix) bytes = content_prefix \<and>
     length bytes > length content_prefix \<and> bytes ! length content_prefix = CHR ''{'' \<and>
     (let body = drop (length content_prefix) bytes;
          (depth, n) = scan_content 0 False False body;
          rest = drop n body;
          expected = take 64 (drop (length content_marker) rest)
      in depth = 0 \<and> length content_marker + 65 \<le> length rest \<and>
         take (length content_marker) rest = content_marker \<and>
         rest ! (length content_marker + 64) = CHR 0x22 \<and>
         sha256_hex (take n body) = expected \<and> list_all is_lower_hex expected)"

definition valid_message_file :: "dir \<Rightarrow> string \<Rightarrow> bool" where
  "valid_message_file d name =
     (case map_of d name of None \<Rightarrow> False
      | Some bytes \<Rightarrow>
          bytes \<noteq> [] \<and> length bytes \<le> maximum_message_bytes \<and> hd bytes = CHR ''{'' \<and> last bytes = CHR ''}'' \<and>
          (case map_of d (name @ ''.sha256'') of None \<Rightarrow> False
           | Some integrity \<Rightarrow> length integrity = 64 \<and> sha256_hex bytes = integrity) \<and>
          embedded_digest_valid bytes)"

section \<open>Admission\<close>

definition write_message :: "faults \<Rightarrow> string \<Rightarrow> string \<Rightarrow> string \<Rightarrow> unit spool_op" where
  "write_message flt ev name bytes =
     bindS (atomic_write flt ev name bytes) (\<lambda>_. atomic_write flt ev (name @ ''.sha256'') (sha256_hex bytes))"

definition create_directory :: "string \<Rightarrow> unit spool_op" where
  "create_directory ev s =
     (if map_of (spool_root s) ev \<noteq> None then (Inl (Runtime_error ''failed to create event directory''), s)
      else (Inr (), set_dir ev [] s))"

definition drop_window :: "AdmissionResult spool_op" where
  "drop_window s = (Inr WindowDroppedQueueFull, s\<lparr>dropped_queue_full := dropped_queue_full s + 1\<rparr>)"

definition queue_full :: "nat \<Rightarrow> MessageSet \<Rightarrow> bool" where
  "queue_full bytes ms \<longleftrightarrow> encoded_bytes ms > maximum_encoded_bytes - min bytes maximum_encoded_bytes"

definition store :: "faults \<Rightarrow> string \<Rightarrow> MessageSet \<Rightarrow> bool \<Rightarrow> AdmissionResult spool_op" where
  "store flt ev0 ms capture =
     bindS (event_directory ev0) (\<lambda>ev.
     bindS (readS (\<lambda>s. throwIf (map_of (spool_root s) ev \<noteq> None) (Invalid_argument ''event already exists in spool''))) (\<lambda>_.
     bindS (checkS (chunks ms = [] \<or> length (chunks ms) > 15 \<or> canonical_json (completion ms) = [])
              (Invalid_argument ''message set is incomplete'')) (\<lambda>_.
     bindS (liftS (mapE (\<lambda>c. enforce_message_size (canonical_json c)) (chunks ms))) (\<lambda>_.
     bindS (liftS (enforce_message_size (canonical_json (completion ms)))) (\<lambda>_.
     bindS inventory (\<lambda>current.
       if length current \<ge> maximum_windows \<or> queue_full (sum_list (map entry_encoded_bytes current)) ms then drop_window
       else
         bindS (create_directory ev) (\<lambda>_.
         bindS (sync_directory flt []) (\<lambda>_.
         bindS (write_state flt ev Capturing) (\<lambda>_.
         bindS (eachS (\<lambda>c.
             bindS (checkS (\<not> is_chunk_filename (filename c)) (Invalid_argument ''chunk filename is outside the closed layout'')) (\<lambda>_.
               write_message flt ev (filename c) (canonical_json c))) (chunks ms)) (\<lambda>_.
         bindS (write_message flt ev (if capture then ''restart-completion.json'' else ''completion.json'')
             (canonical_json (completion ms))) (\<lambda>_.
         bindS (if capture then returnS () else write_state flt ev ReadyToSend) (\<lambda>_.
           returnS Stored))))))))))))"

definition store_completed :: "faults \<Rightarrow> string \<Rightarrow> MessageSet \<Rightarrow> AdmissionResult spool_op" where
  "store_completed flt ev ms = store flt ev ms False"

definition store_capturing_for_recovery :: "faults \<Rightarrow> string \<Rightarrow> MessageSet \<Rightarrow> AdmissionResult spool_op" where
  "store_capturing_for_recovery flt ev ms = store flt ev ms True"

definition checkpoint_chunk :: "faults \<Rightarrow> string \<Rightarrow> CanonicalMessage \<Rightarrow> unit spool_op" where
  "checkpoint_chunk flt ev c =
     bindS (checkS (\<not> is_chunk_filename (filename c)) (Invalid_argument ''chunk filename is outside the closed layout'')) (\<lambda>_.
     bindS (liftS (enforce_message_size (canonical_json c))) (\<lambda>_.
     bindS (readS (\<lambda>s. Inr (file_of s ev (filename c), file_of s ev (filename c @ ''.ack'')))) (\<lambda>(previous, ack).
       if previous = Some (canonical_json c) then returnS ()
       else if previous \<noteq> None \<and> ack \<noteq> None then throwS (Logic_error ''acknowledged chunk is immutable'')
       else write_message flt ev (filename c) (canonical_json c))))"

definition checkpoint_capturing :: "faults \<Rightarrow> string \<Rightarrow> MessageSet \<Rightarrow> AdmissionResult spool_op" where
  "checkpoint_capturing flt ev0 ms =
     bindS (event_directory ev0) (\<lambda>ev.
     bindS (inspect_event ev) (\<lambda>existing.
     bindS (checkS (entry_state existing \<noteq> Capturing \<or> chunks ms = [] \<or> length (chunks ms) > 15)
              (Logic_error ''only a capturing event may be checkpointed'')) (\<lambda>_.
     bindS inventory (\<lambda>current.
       if queue_full (sum_list (map entry_encoded_bytes (filter (\<lambda>e. entry_event_id e \<noteq> ev) current))) ms then drop_window
       else
         bindS (eachS (checkpoint_chunk flt ev) (chunks ms)) (\<lambda>_.
         bindS (liftS (enforce_message_size (canonical_json (completion ms)))) (\<lambda>_.
         bindS (write_message flt ev ''restart-completion.json'' (canonical_json (completion ms))) (\<lambda>_.
           returnS Stored)))))))"

definition complete_capturing :: "faults \<Rightarrow> string \<Rightarrow> MessageSet \<Rightarrow> AdmissionResult spool_op" where
  "complete_capturing flt ev0 ms =
     bindS (checkpoint_capturing flt ev0 ms) (\<lambda>r.
       if r \<noteq> Stored then returnS r
       else
         bindS (event_directory ev0) (\<lambda>ev.
         bindS (rename_file ''publish captured completion'' ev ''restart-completion.json'' ''completion.json'') (\<lambda>_.
         bindS (rename_file ''publish captured completion'' ev ''restart-completion.json.sha256'' ''completion.json.sha256'') (\<lambda>_.
         bindS (sync_directory flt ev) (\<lambda>_.
         bindS (write_state flt ev ReadyToSend) (\<lambda>_. returnS r))))))"

definition quarantine :: "faults \<Rightarrow> string \<Rightarrow> unit spool_op" where
  "quarantine flt ev0 =
     bindS (event_directory ev0) (\<lambda>ev. bindS (inspect_event ev) (\<lambda>_. write_state flt ev Quarantined))"

section \<open>Recovery and acknowledgement\<close>

definition chunks_valid :: "dir \<Rightarrow> bool" where
  "chunks_valid d \<longleftrightarrow>
     filter (\<lambda>(name, bytes). is_chunk_filename name) d \<noteq> [] \<and>
     list_all (\<lambda>(name, bytes). \<not> is_chunk_filename name \<or> valid_message_file d name) d"

definition read_dir :: "string \<Rightarrow> dir spool_op" where
  "read_dir ev = readS (\<lambda>s. case map_of (spool_root s) ev of
     None \<Rightarrow> Inl (Runtime_error ''directory_iterator'') | Some d \<Rightarrow> Inr d)"

definition recover_event :: "faults \<Rightarrow> string \<Rightarrow> unit spool_op" where
  "recover_event flt ev =
     catchS
       (bindS (inspect_event ev) (\<lambda>entry.
        bindS (read_dir ev) (\<lambda>d.
          if entry_state entry = Capturing then
            (if \<not> chunks_valid d \<or> \<not> valid_message_file d ''restart-completion.json''
             then write_state flt ev Quarantined
             else
               bindS (rename_file ''publish restart completion'' ev ''restart-completion.json'' ''completion.json'') (\<lambda>_.
               bindS (rename_file ''publish restart completion integrity'' ev
                        ''restart-completion.json.sha256'' ''completion.json.sha256'') (\<lambda>_.
               bindS (sync_directory flt ev) (\<lambda>_.
                 write_state flt ev ReadyToSend))))
          else if entry_state entry \<noteq> Quarantined \<and>
              (\<not> chunks_valid d \<or> \<not> completion_present entry \<or> \<not> valid_message_file d ''completion.json'')
          then write_state flt ev Quarantined
          else returnS ())))
       (write_state flt ev Quarantined)"

definition recover :: "faults \<Rightarrow> SpoolEntry list spool_op" where
  "recover flt =
     bindS (readS (\<lambda>s. Inr (map fst (filter (\<lambda>(ev, d). uuid4 ev) (spool_root s))))) (\<lambda>evs.
     bindS (eachS (recover_event flt) evs) (\<lambda>_. inventory))"

definition mark_waiting_ack :: "faults \<Rightarrow> string \<Rightarrow> unit spool_op" where
  "mark_waiting_ack flt ev0 =
     bindS (event_directory ev0) (\<lambda>ev.
     bindS (inspect_event ev) (\<lambda>entry.
     bindS (checkS (entry_state entry \<noteq> ReadyToSend) (Logic_error ''only a ready event may wait for acknowledgement'')) (\<lambda>_.
       write_state flt ev WaitingAck)))"

definition acknowledge_chunk :: "faults \<Rightarrow> string \<Rightarrow> nat \<Rightarrow> unit spool_op" where
  "acknowledge_chunk flt ev0 chunk_index =
     bindS (checkS (chunk_index > 14) (Invalid_argument ''chunk index exceeds contract bound'')) (\<lambda>_.
     bindS (event_directory ev0) (\<lambda>ev.
     bindS (readS (\<lambda>s. throwIf (file_of s ev (chunk_filename chunk_index) = None)
              (Invalid_argument ''acknowledged chunk does not exist''))) (\<lambda>_.
       atomic_write flt ev (chunk_filename chunk_index @ ''.ack'') ''DURABLE_ACK'')))"

definition acknowledge_completion :: "faults \<Rightarrow> string \<Rightarrow> unit spool_op" where
  "acknowledge_completion flt ev0 =
     bindS (event_directory ev0) (\<lambda>ev.
     bindS (readS (\<lambda>s. throwIf (file_of s ev ''completion.json'' = None)
              (Invalid_argument ''completion does not exist''))) (\<lambda>_.
       atomic_write flt ev ''completion.json.ack'' ''DURABLE_ACK''))"

definition fully_acknowledged :: "dir \<Rightarrow> bool" where
  "fully_acknowledged d \<longleftrightarrow>
     list_all (\<lambda>(name, bytes). \<not> is_chunk_filename name \<or> map_of d (name @ ''.ack'') \<noteq> None) d \<and>
     map_of d ''completion.json.ack'' \<noteq> None"

definition remove_all :: "string \<Rightarrow> unit spool_op" where
  "remove_all ev s = (Inr (), s\<lparr>spool_root := AList.delete ev (spool_root s)\<rparr>)"

definition delete_if_fully_acknowledged :: "faults \<Rightarrow> string \<Rightarrow> bool spool_op" where
  "delete_if_fully_acknowledged flt ev0 =
     bindS (event_directory ev0) (\<lambda>ev.
     bindS (inspect_event ev) (\<lambda>entry.
       if entry_state entry \<noteq> WaitingAck then returnS False
       else bindS (read_dir ev) (\<lambda>d.
         if \<not> fully_acknowledged d then returnS False
         else
           bindS (write_state flt ev Acknowledged) (\<lambda>_.
           bindS (remove_all ev) (\<lambda>_.
           bindS (sync_directory flt []) (\<lambda>_. returnS True))))))"

section \<open>Published events are complete\<close>

type_synonym root = "(string \<times> dir) list"

definition signed :: "dir \<Rightarrow> string \<Rightarrow> bool" where
  "signed d name \<longleftrightarrow> (\<exists>b. map_of d name = Some b \<and> map_of d (name @ ''.sha256'') = Some (sha256_hex b))"

definition chunks_signed :: "dir \<Rightarrow> bool" where
  "chunks_signed d \<longleftrightarrow> (\<forall>n. is_chunk_filename n \<and> map_of d n \<noteq> None \<longrightarrow> signed d n)"

definition dir_state :: "dir \<Rightarrow> SpoolState option" where
  "dir_state d = (case map_of d ''manifest'' of None \<Rightarrow> None
     | Some v \<Rightarrow> (case parse_state v of Inl _ \<Rightarrow> None | Inr st \<Rightarrow> Some st))"

definition published :: "dir \<Rightarrow> bool" where
  "published d \<longleftrightarrow> dir_state d = Some ReadyToSend \<or> dir_state d = Some WaitingAck"

text \<open>
  The invariant of the queue: names are unique, and an event that may be sent has a completion and
  every chunk with the digest of exactly the bytes stored.
\<close>

definition dir_ok :: "dir \<Rightarrow> bool" where
  "dir_ok d \<longleftrightarrow> distinct (map fst d) \<and> (published d \<longrightarrow> signed d ''completion.json'' \<and> chunks_signed d)"

definition root_ok :: "root \<Rightarrow> bool" where
  "root_ok r \<longleftrightarrow> distinct (map fst r) \<and> (\<forall>ev d. map_of r ev = Some d \<longrightarrow> dir_ok d)"

definition on_root :: "(root \<Rightarrow> bool) \<Rightarrow> EventSpool \<Rightarrow> bool" where
  "on_root p s = p (spool_root s)"

definition dir_at :: "string \<Rightarrow> (dir \<Rightarrow> bool) \<Rightarrow> root \<Rightarrow> bool" where
  "dir_at ev p r \<longleftrightarrow> root_ok r \<and> (\<exists>d. map_of r ev = Some d \<and> p d)"

lemma parse_state_name [simp]: "parse_state (spool_state_name st) = Inr st"
  by (cases st) (simp_all add: parse_state_def spool_state_name_def)

lemma chunk_filename_length: "is_chunk_filename n \<Longrightarrow> length n = 14"
  by (simp add: is_chunk_filename_def)

lemma chunk_filename_prefix: "is_chunk_filename n \<Longrightarrow> n = ''chunk-'' @ drop 6 n"
  by (metis append_take_drop_id is_chunk_filename_def)

lemma chunk_filename_other:
  assumes "is_chunk_filename n"
  shows "n \<noteq> ''manifest''" "n \<noteq> ''completion.json''" "n \<noteq> ''restart-completion.json''" "n \<noteq> m @ ''.sha256''"
    "n @ ''.sha256'' \<noteq> ''manifest''" "n @ ''.sha256'' \<noteq> ''completion.json''" "n @ ''.sha256'' \<noteq> ''restart-completion.json''"
    "n \<noteq> m @ ''.ack''" "n @ ''.sha256'' \<noteq> m @ ''.ack''"
    "n @ ''.sha256'' \<noteq> ''completion.json.sha256''" "n @ ''.sha256'' \<noteq> ''restart-completion.json.sha256''"
proof -
  from chunk_filename_prefix [OF assms] obtain t where n: "n = ''chunk-'' @ t" by blast
  have "drop 9 n = ''.json''" using assms by (simp add: is_chunk_filename_def)
  then have l: "last n = CHR ''n''" "n \<noteq> []" by (metis last.simps last_drop list.distinct(1)  drop_eq_Nil linorder_not_le) (auto simp: n)
  show "n \<noteq> m @ ''.sha256''" "n \<noteq> m @ ''.ack''" using l by auto
  have "last (n @ ''.sha256'') \<noteq> last (m @ ''.ack'')" by simp
  then show "n @ ''.sha256'' \<noteq> m @ ''.ack''" by metis
  show "n \<noteq> ''manifest''" "n \<noteq> ''completion.json''" "n \<noteq> ''restart-completion.json''"
    "n @ ''.sha256'' \<noteq> ''manifest''" "n @ ''.sha256'' \<noteq> ''completion.json''" "n @ ''.sha256'' \<noteq> ''restart-completion.json''"
    "n @ ''.sha256'' \<noteq> ''completion.json.sha256''" "n @ ''.sha256'' \<noteq> ''restart-completion.json.sha256''"
    unfolding n by simp_all
qed

lemma hoare_atomic_write:
  assumes "\<And>r. p r \<Longrightarrow> e r"
    and "\<And>r d. p r \<Longrightarrow> map_of r ev = Some d \<Longrightarrow>
      q (AList.update ev (AList.update name bytes d) r) \<and> e (AList.update ev (AList.update name bytes d) r)"
  shows "hoare (on_root p) (atomic_write flt ev name bytes) (\<lambda>_. on_root q) (on_root e)"
  using assms
  by (auto simp: hoare_def on_root_def atomic_write_def Let_def sync_directory_def set_dir_def split: option.splits)

lemma hoare_rename_file:
  assumes "\<And>r. p r \<Longrightarrow> e r"
    and "\<And>r d b. p r \<Longrightarrow> map_of r ev = Some d \<Longrightarrow> map_of d old = Some b \<Longrightarrow>
      q (AList.update ev (AList.update new b (AList.delete old d)) r)"
  shows "hoare (on_root p) (rename_file action ev old new) (\<lambda>_. on_root q) (on_root e)"
  using assms by (auto simp: hoare_def on_root_def rename_file_def set_dir_def split: option.splits)

lemma hoare_sync: "(\<And>r. p r \<Longrightarrow> e r) \<Longrightarrow> hoare (on_root p) (sync_directory flt path) (\<lambda>_. on_root p) (on_root e)"
  by (auto simp: hoare_def on_root_def sync_directory_def)

lemma root_ok_update: "root_ok r \<Longrightarrow> dir_ok d \<Longrightarrow> root_ok (AList.update ev d r)"
  by (auto simp: root_ok_def distinct_update map_of_update)

lemma dir_at_update: "root_ok r \<Longrightarrow> dir_ok d \<Longrightarrow> p d \<Longrightarrow> dir_at ev p (AList.update ev d r)"
  by (simp add: dir_at_def root_ok_update map_of_update)

lemma dir_at_root_ok: "dir_at ev p r \<Longrightarrow> root_ok r"
  by (simp add: dir_at_def)

lemma root_ok_dir: "root_ok r \<Longrightarrow> map_of r ev = Some d \<Longrightarrow> dir_ok d"
  by (auto simp: root_ok_def)

lemma dir_state_update:
  "dir_state (AList.update name b d) = (if name = ''manifest'' then (case parse_state b of Inl _ \<Rightarrow> None | Inr st \<Rightarrow> Some st) else dir_state d)"
  by (simp add: dir_state_def map_of_update)

lemma unpublished_dir_ok: "distinct (map fst d) \<Longrightarrow> \<not> published d \<Longrightarrow> dir_ok d"
  by (simp add: dir_ok_def)

lemma dir_ok_distinct: "dir_ok d \<Longrightarrow> distinct (map fst d)"
  by (simp add: dir_ok_def)

definition capture_dir :: "dir \<Rightarrow> bool" where
  "capture_dir d \<longleftrightarrow> \<not> published d \<and> chunks_signed d"

definition is_completion_name :: "string \<Rightarrow> bool" where
  "is_completion_name c \<longleftrightarrow> c = ''completion.json'' \<or> c = ''restart-completion.json''"

lemma published_update [simp]: "name \<noteq> ''manifest'' \<Longrightarrow> published (AList.update name b d) = published d"
  by (simp add: published_def dir_state_update)

lemma not_chunk_names:
  "\<not> is_chunk_filename ''manifest''" "\<not> is_chunk_filename ''completion.json''" "\<not> is_chunk_filename ''restart-completion.json''"
  "\<not> is_chunk_filename (m @ ''.sha256'')" "\<not> is_chunk_filename (m @ ''.ack'')"
  using chunk_filename_other by blast+

lemma hoare_write_dir:
  assumes "name \<noteq> ''manifest''" and "\<And>d. p d \<Longrightarrow> \<not> published d"
    and "\<And>d. p d \<Longrightarrow> q (AList.update name b d)"
  shows "hoare (on_root (dir_at ev p)) (atomic_write flt ev name b) (\<lambda>_. on_root (dir_at ev q)) (on_root root_ok)"
proof (rule hoare_atomic_write)
  fix r d
  assume r: "dir_at ev p r" "map_of r ev = Some d"
  then have d: "p d" "root_ok r" "dir_ok d" by (auto simp: dir_at_def dest: root_ok_dir)
  then have "dir_ok (AList.update name b d)"
    using assms(1,2) by (intro unpublished_dir_ok) (auto intro: distinct_update dir_ok_distinct)
  with d assms(3) show "dir_at ev q (AList.update ev (AList.update name b d) r) \<and>
      root_ok (AList.update ev (AList.update name b d) r)"
    by (auto intro: dir_at_update root_ok_update)
qed (rule dir_at_root_ok)

lemma hoare_write_chunk:
  assumes n: "is_chunk_filename n"
  shows "hoare (on_root (dir_at ev capture_dir)) (write_message flt ev n b) (\<lambda>_. on_root (dir_at ev capture_dir)) (on_root root_ok)"
proof -
  let ?mid = "\<lambda>d. \<not> published d \<and> map_of d n = Some b \<and>
    (\<forall>m. is_chunk_filename m \<and> m \<noteq> n \<and> map_of d m \<noteq> None \<longrightarrow> signed d m)"
  have "n \<noteq> ''manifest''" "n @ ''.sha256'' \<noteq> ''manifest''" using chunk_filename_other [OF n] by auto
  moreover have "?mid (AList.update n b d)" if "capture_dir d" for d
    using that n chunk_filename_other [OF n]
    by (auto simp: capture_dir_def chunks_signed_def signed_def map_of_update)
  moreover have "capture_dir (AList.update (n @ ''.sha256'') (sha256_hex b) d)" if "?mid d" for d
    using that n chunk_filename_other not_chunk_names(4)
    by (auto simp: capture_dir_def chunks_signed_def signed_def map_of_update)
  ultimately show ?thesis unfolding write_message_def
    by (intro hoare_bindS [where Q = "\<lambda>_. on_root (dir_at ev ?mid)"] hoare_write_dir) (auto simp: capture_dir_def)
qed

lemma hoare_write_completion:
  assumes c: "is_completion_name c"
  shows "hoare (on_root (dir_at ev capture_dir)) (write_message flt ev c b)
    (\<lambda>_. on_root (dir_at ev (\<lambda>d. capture_dir d \<and> signed d c))) (on_root root_ok)"
proof -
  let ?mid = "\<lambda>d. capture_dir d \<and> map_of d c = Some b"
  have c': "c \<noteq> ''manifest''" "c @ ''.sha256'' \<noteq> ''manifest''" "\<not> is_chunk_filename c"
    "\<And>n. is_chunk_filename n \<Longrightarrow> n \<noteq> c \<and> n @ ''.sha256'' \<noteq> c \<and> n @ ''.sha256'' \<noteq> c @ ''.sha256''"
    using c not_chunk_names chunk_filename_other by (auto simp: is_completion_name_def)
  have "?mid (AList.update c b d)" if "capture_dir d" for d
    using that c' by (auto simp: capture_dir_def chunks_signed_def signed_def map_of_update)
  moreover have "capture_dir (AList.update (c @ ''.sha256'') (sha256_hex b) d) \<and>
      signed (AList.update (c @ ''.sha256'') (sha256_hex b) d) c" if "?mid d" for d
    using that c' not_chunk_names by (auto simp: capture_dir_def chunks_signed_def signed_def map_of_update)
  ultimately show ?thesis using c' unfolding write_message_def
    by (intro hoare_bindS [where Q = "\<lambda>_. on_root (dir_at ev ?mid)"] hoare_write_dir) (auto simp: capture_dir_def)
qed

text \<open>Writing a state: the invariant asks for the files only when the new state is a published one.\<close>

lemma state_write_dir:
  "dir_state (AList.update ''manifest'' (spool_state_name st) d) = Some st"
  "is_completion_name c \<Longrightarrow> signed (AList.update ''manifest'' b d) c \<longleftrightarrow> signed d c"
  "chunks_signed (AList.update ''manifest'' b d) \<longleftrightarrow> chunks_signed d"
proof -
  show "dir_state (AList.update ''manifest'' (spool_state_name st) d) = Some st" by (simp add: dir_state_update)
  show "is_completion_name c \<Longrightarrow> signed (AList.update ''manifest'' b d) c \<longleftrightarrow> signed d c"
    by (auto simp: is_completion_name_def signed_def map_of_update)
  show "chunks_signed (AList.update ''manifest'' b d) \<longleftrightarrow> chunks_signed d"
    using chunk_filename_other(1,5) not_chunk_names(1) by (auto simp: chunks_signed_def signed_def map_of_update)
qed

lemma state_write_ok:
  assumes "dir_ok d" and "st = ReadyToSend \<or> st = WaitingAck \<Longrightarrow> signed d ''completion.json'' \<and> chunks_signed d"
  shows "dir_ok (AList.update ''manifest'' (spool_state_name st) d)"
  using assms
  by (auto simp: dir_ok_def published_def state_write_dir is_completion_name_def distinct_update)

lemma hoare_write_state:
  assumes "\<And>d. p d \<Longrightarrow> dir_ok d \<Longrightarrow> st = ReadyToSend \<or> st = WaitingAck \<Longrightarrow> signed d ''completion.json'' \<and> chunks_signed d"
    and "\<And>d. p d \<Longrightarrow> q (AList.update ''manifest'' (spool_state_name st) d)"
  shows "hoare (on_root (dir_at ev p)) (write_state flt ev st) (\<lambda>_. on_root (dir_at ev q)) (on_root root_ok)"
  unfolding write_state_def
proof (rule hoare_atomic_write)
  fix r d
  assume r: "dir_at ev p r" "map_of r ev = Some d"
  then have d: "p d" "root_ok r" "dir_ok d" by (auto simp: dir_at_def dest: root_ok_dir)
  then have "dir_ok (AList.update ''manifest'' (spool_state_name st) d)" using assms(1) by (intro state_write_ok)
  with d assms(2) show "dir_at ev q (AList.update ev (AList.update ''manifest'' (spool_state_name st) d) r) \<and>
      root_ok (AList.update ev (AList.update ''manifest'' (spool_state_name st) d) r)"
    by (auto intro: dir_at_update root_ok_update)
qed (rule dir_at_root_ok)

lemma keeps_write_state:
  assumes "st \<noteq> ReadyToSend" and "st \<noteq> WaitingAck"
  shows "hoare (on_root root_ok) (write_state flt ev st) (\<lambda>_. on_root root_ok) (on_root root_ok)"
  unfolding write_state_def
proof (rule hoare_atomic_write)
  fix r d
  assume "root_ok r" "map_of r ev = Some d"
  with assms show "root_ok (AList.update ev (AList.update ''manifest'' (spool_state_name st) d) r) \<and>
      root_ok (AList.update ev (AList.update ''manifest'' (spool_state_name st) d) r)"
    by (auto intro!: root_ok_update state_write_ok dest: root_ok_dir)
qed

text \<open>Acknowledgement marks do not touch the messages.\<close>

lemma ack_write_ok:
  assumes "dir_ok d"
  shows "dir_ok (AList.update (n @ ''.ack'') b d)"
proof -
  have last: "last (n @ ''.ack'') = CHR ''k''" by simp
  have "n @ ''.ack'' \<noteq> ''manifest''" "n @ ''.ack'' \<noteq> ''completion.json''" "n @ ''.ack'' \<noteq> ''completion.json.sha256''"
    using arg_cong [of _ _ last] last by fastforce+
  moreover have "m \<noteq> n @ ''.ack''" "m @ ''.sha256'' \<noteq> n @ ''.ack''" if "is_chunk_filename m" for m
    using chunk_filename_other [OF that] by auto
  ultimately have "signed (AList.update (n @ ''.ack'') b d) ''completion.json'' = signed d ''completion.json''"
    and "is_chunk_filename m \<Longrightarrow> signed (AList.update (n @ ''.ack'') b d) m = signed d m" for m
    by (simp_all add: signed_def map_of_update)
  moreover from this(2) have "chunks_signed (AList.update (n @ ''.ack'') b d) = chunks_signed d"
    unfolding chunks_signed_def by (metis map_of_update not_chunk_names(5))
  moreover have "published (AList.update (n @ ''.ack'') b d) = published d"
    using \<open>n @ ''.ack'' \<noteq> ''manifest''\<close> by simp
  ultimately show ?thesis using assms by (simp add: dir_ok_def distinct_update)
qed

lemma keeps_write_ack: "hoare (on_root root_ok) (atomic_write flt ev (n @ ''.ack'') b) (\<lambda>_. on_root root_ok) (on_root root_ok)"
  by (rule hoare_atomic_write) (auto intro!: root_ok_update ack_write_ok dest: root_ok_dir)

text \<open>Publishing a restart completion: the two renames move a signed completion.\<close>

lemma hoare_publish:
  "hoare (on_root (dir_at ev (\<lambda>d. capture_dir d \<and> signed d ''restart-completion.json'')))
     (bindS (rename_file a ev ''restart-completion.json'' ''completion.json'') (\<lambda>_.
       rename_file a' ev ''restart-completion.json.sha256'' ''completion.json.sha256''))
     (\<lambda>_. on_root (dir_at ev (\<lambda>d. capture_dir d \<and> signed d ''completion.json''))) (on_root root_ok)"
proof -
  let ?mid = "\<lambda>d. capture_dir d \<and> (\<exists>b. map_of d ''completion.json'' = Some b \<and>
    map_of d ''restart-completion.json.sha256'' = Some (sha256_hex b))"
  have keep: "capture_dir (AList.update new b (AList.delete old d))"
    if "capture_dir d" "new \<noteq> ''manifest''" "old \<noteq> ''manifest''"
      "\<And>n. is_chunk_filename n \<Longrightarrow> n \<noteq> new \<and> n \<noteq> old \<and> n @ ''.sha256'' \<noteq> new \<and> n @ ''.sha256'' \<noteq> old" for new old b d
    using that
    by (auto simp: capture_dir_def chunks_signed_def signed_def map_of_update delete_conv' published_def dir_state_def)
  have distinct: "distinct (map fst d) \<Longrightarrow> distinct (map fst (AList.update new b (AList.delete old d)))" for new b old and d :: dir
    by (simp add: distinct_update distinct_delete)
  have 1: "dir_at ev ?mid (AList.update ev (AList.update ''completion.json'' b (AList.delete ''restart-completion.json'' d)) r)"
    if r: "dir_at ev (\<lambda>d. capture_dir d \<and> signed d ''restart-completion.json'') r" "map_of r ev = Some d"
      "map_of d ''restart-completion.json'' = Some b" for r d b
  proof -
    let ?d = "AList.update ''completion.json'' b (AList.delete ''restart-completion.json'' d)"
    from r have d: "capture_dir d" "signed d ''restart-completion.json''" "root_ok r" "dir_ok d"
      by (auto simp: dir_at_def dest: root_ok_dir)
    with r have "?mid ?d"
      using chunk_filename_other by (auto intro!: keep simp: signed_def map_of_update delete_conv')
    moreover from this d have "dir_ok ?d"
      by (intro unpublished_dir_ok distinct) (auto simp: capture_dir_def dir_ok_distinct)
    ultimately show ?thesis using d by (intro dir_at_update) auto
  qed
  have 2: "dir_at ev (\<lambda>d. capture_dir d \<and> signed d ''completion.json'')
      (AList.update ev (AList.update ''completion.json.sha256'' b (AList.delete ''restart-completion.json.sha256'' d)) r)"
    if r: "dir_at ev ?mid r" "map_of r ev = Some d" "map_of d ''restart-completion.json.sha256'' = Some b" for r d b
  proof -
    let ?d = "AList.update ''completion.json.sha256'' b (AList.delete ''restart-completion.json.sha256'' d)"
    from r have d: "?mid d" "root_ok r" "dir_ok d" by (auto simp: dir_at_def dest: root_ok_dir)
    with r have "capture_dir ?d \<and> signed ?d ''completion.json''"
      using chunk_filename_other not_chunk_names(4) [of "''completion.json''"] not_chunk_names(4) [of "''restart-completion.json''"]
      by (auto intro!: keep simp: signed_def map_of_update delete_conv')
    moreover from this d have "dir_ok ?d"
      by (intro unpublished_dir_ok distinct) (auto simp: capture_dir_def dir_ok_distinct)
    ultimately show ?thesis using d by (intro dir_at_update) auto
  qed
  show ?thesis
    by (rule hoare_bindS [where Q = "\<lambda>_. on_root (dir_at ev ?mid)"]; rule hoare_rename_file)
      (use 1 2 dir_at_root_ok in blast)+
qed

subsection \<open>The operations keep the invariant\<close>

abbreviation ok :: "EventSpool \<Rightarrow> bool" where
  "ok \<equiv> on_root root_ok"

lemma hoare_event_directory:
  assumes "\<And>s. P s \<Longrightarrow> E s" and "uuid4 ev \<Longrightarrow> hoare P (f ev) Q E"
  shows "hoare P (bindS (event_directory ev) f) Q E"
  using assms by (simp add: event_directory_def hoare_def)

lemma inspect_dir_state: "inspect_dir ev d = Inr entry \<Longrightarrow> dir_state d = Some (entry_state entry)"
  by (auto simp: inspect_dir_def dir_state_def bindE_eq_Inr split: option.splits)

lemma valid_file_signed: "valid_message_file d n \<Longrightarrow> signed d n"
  by (auto simp: valid_message_file_def signed_def split: option.splits)

lemma chunks_valid_signed: "chunks_valid d \<Longrightarrow> chunks_signed d"
  by (fastforce simp: chunks_valid_def chunks_signed_def list_all_iff dest: map_of_SomeD valid_file_signed)

lemma hoare_drop_window: "(\<And>r. p r \<Longrightarrow> q r) \<Longrightarrow> hoare (on_root p) drop_window (\<lambda>x s. x = WindowDroppedQueueFull \<and> on_root q s) E"
  by (auto simp: hoare_def drop_window_def on_root_def)

lemma hoare_inspect_event:
  assumes "\<And>r. p r \<Longrightarrow> e r"
    and "\<And>entry. hoare (on_root (\<lambda>r. p r \<and> (\<exists>d. map_of r ev = Some d \<and> inspect_dir ev d = Inr entry))) (f entry) Q (on_root e)"
  shows "hoare (on_root p) (bindS (inspect_event ev) f) Q (on_root e)"
  unfolding inspect_event_def
proof (rule hoare_bind_readS)
  fix entry
  show "hoare (\<lambda>s. on_root p s \<and> (case map_of (spool_root s) ev of None \<Rightarrow> Inl (Runtime_error ''cannot read spool state'')
      | Some d \<Rightarrow> inspect_dir ev d) = Inr entry) (f entry) Q (on_root e)"
    by (rule hoare_pre [OF assms(2)]) (auto simp: on_root_def split: option.splits)
qed (use assms(1) in \<open>auto simp: on_root_def\<close>)

lemma hoare_read_dir:
  assumes "\<And>r. p r \<Longrightarrow> e r"
    and "\<And>d. hoare (on_root (\<lambda>r. p r \<and> map_of r ev = Some d)) (f d) Q (on_root e)"
  shows "hoare (on_root p) (bindS (read_dir ev) f) Q (on_root e)"
  unfolding read_dir_def
proof (rule hoare_bind_readS)
  fix d
  show "hoare (\<lambda>s. on_root p s \<and> (case map_of (spool_root s) ev of None \<Rightarrow> Inl (Runtime_error ''directory_iterator'')
      | Some d \<Rightarrow> Inr d) = Inr d) (f d) Q (on_root e)"
    by (rule hoare_pre [OF assms(2)]) (auto simp: on_root_def split: option.splits)
qed (use assms(1) in \<open>auto simp: on_root_def\<close>)

lemma hoare_inventory:
  assumes "\<And>s. P s \<Longrightarrow> E s" and "\<And>es. hoare (\<lambda>s. P s \<and> inventory_of (spool_root s) = Inr es) (f es) Q E"
  shows "hoare P (bindS inventory f) Q E"
  unfolding inventory_def by (rule hoare_bind_readS [OF assms])

lemma hoare_write_chunks:
  "hoare (on_root (dir_at ev capture_dir))
     (eachS (\<lambda>c. bindS (checkS (\<not> is_chunk_filename (filename c)) (Invalid_argument ''chunk filename is outside the closed layout'')) (\<lambda>_.
        write_message flt ev (filename c) (canonical_json c))) cs)
     (\<lambda>_. on_root (dir_at ev capture_dir)) ok"
  by (intro hoare_eachS hoare_bind_checkS hoare_write_chunk) (auto simp: on_root_def dest: dir_at_root_ok)

lemma store_keeps_ok: "keeps ok (store flt ev ms capture)"
proof (rule hoare_keeps)
  let ?cap = "on_root (dir_at ev capture_dir)"
  let ?c = "if capture then ''restart-completion.json'' else ''completion.json''"
  have new: "hoare ok (create_directory ev) (\<lambda>_. ?cap) ok"
    by (auto simp: hoare_def create_directory_def on_root_def set_dir_def capture_dir_def published_def
      dir_state_def chunks_signed_def intro!: dir_at_update unpublished_dir_ok)
  have fin: "hoare (on_root (dir_at ev (\<lambda>d. capture_dir d \<and> signed d ?c)))
      (bindS (if capture then returnS () else write_state flt ev ReadyToSend) (\<lambda>_. returnS Stored)) (\<lambda>_. ok) ok"
  proof (cases capture)
    case True
    then show ?thesis by (simp add: hoare_def on_root_def dir_at_def)
  next
    case False
    have "hoare (on_root (dir_at ev (\<lambda>d. capture_dir d \<and> signed d ''completion.json''))) (write_state flt ev ReadyToSend)
        (\<lambda>_. on_root (dir_at ev (\<lambda>_. True))) ok"
      by (rule hoare_write_state) (auto simp: capture_dir_def)
    with False show ?thesis
      by (simp, elim hoare_bindS) (simp add: hoare_def on_root_def dir_at_def)
  qed
  have cap_state: "hoare ?cap (write_state flt ev Capturing) (\<lambda>_. ?cap) ok"
    by (rule hoare_write_state) (auto simp: capture_dir_def published_def state_write_dir)
  have compl: "hoare ?cap (write_message flt ev ?c b) (\<lambda>_. on_root (dir_at ev (\<lambda>d. capture_dir d \<and> signed d ?c))) ok" for b
    by (rule hoare_write_completion) (simp add: is_completion_name_def)
  have body: "hoare ok
     (bindS (create_directory ev) (\<lambda>_.
      bindS (sync_directory flt []) (\<lambda>_.
      bindS (write_state flt ev Capturing) (\<lambda>_.
      bindS (eachS (\<lambda>c. bindS (checkS (\<not> is_chunk_filename (filename c)) (Invalid_argument ''chunk filename is outside the closed layout'')) (\<lambda>_.
               write_message flt ev (filename c) (canonical_json c))) (chunks ms)) (\<lambda>_.
      bindS (write_message flt ev ?c (canonical_json (completion ms))) (\<lambda>_.
      bindS (if capture then returnS () else write_state flt ev ReadyToSend) (\<lambda>_. returnS Stored)))))))
     (\<lambda>_. ok) ok"
    by (rule hoare_bindS [OF new], rule hoare_bindS [OF hoare_sync], erule dir_at_root_ok,
        rule hoare_bindS [OF cap_state], rule hoare_bindS [OF hoare_write_chunks], rule hoare_bindS [OF compl], rule fin)
  show "hoare ok (store flt ev ms capture) (\<lambda>_. ok) ok"
    unfolding store_def
    by (intro hoare_event_directory hoare_bind_readS hoare_bind_checkS hoare_bind_liftS hoare_inventory hoare_if;
        (rule hoare_pre [OF body] hoare_weaken [OF hoare_drop_window [of root_ok root_ok ok]])?) auto
qed

text \<open>
  A checkpoint relies on the chunks already stored having their digests: it does not write a chunk
  again whose bytes are unchanged.
\<close>

definition signed_at :: "string \<Rightarrow> root \<Rightarrow> bool" where
  "signed_at ev r \<longleftrightarrow> root_ok r \<and> (\<forall>d. map_of r ev = Some d \<longrightarrow> chunks_signed d)"

lemma hoare_checkpoint_chunk:
  "hoare (on_root (dir_at ev capture_dir)) (checkpoint_chunk flt ev c) (\<lambda>_. on_root (dir_at ev capture_dir)) ok"
  unfolding checkpoint_chunk_def
proof (intro hoare_bind_checkS hoare_bind_liftS hoare_bind_readS)
  fix x
  assume n: "\<not> \<not> is_chunk_filename (filename c)"
  have weak: "on_root (dir_at ev capture_dir) s \<Longrightarrow> ok s" for s by (auto simp: on_root_def dest: dir_at_root_ok)
  show "hoare (\<lambda>s. on_root (dir_at ev capture_dir) s \<and>
        Inr (file_of s ev (filename c), file_of s ev (filename c @ ''.ack'')) = (Inr x :: (string option \<times> string option) result))
      (case x of (previous, ack) \<Rightarrow> if previous = Some (canonical_json c) then returnS ()
         else if previous \<noteq> None \<and> ack \<noteq> None then throwS (Logic_error ''acknowledged chunk is immutable'')
         else write_message flt ev (filename c) (canonical_json c))
      (\<lambda>_. on_root (dir_at ev capture_dir)) ok"
    using n by (cases x) (auto intro!: hoare_if hoare_pure hoare_pre [OF hoare_write_chunk] simp: weak)
qed (auto simp: on_root_def dest: dir_at_root_ok)

lemma hoare_checkpoint:
  "hoare (on_root (signed_at ev)) (checkpoint_capturing flt ev ms)
     (\<lambda>x. on_root (\<lambda>r. root_ok r \<and> (x = Stored \<longrightarrow> dir_at ev (\<lambda>d. capture_dir d \<and> signed d ''restart-completion.json'') r))) ok"
proof -
  have weak: "on_root (dir_at ev capture_dir) s \<Longrightarrow> ok s" for s by (auto simp: on_root_def dest: dir_at_root_ok)
  have compl: "hoare (on_root (dir_at ev capture_dir)) (write_message flt ev ''restart-completion.json'' b)
      (\<lambda>_. on_root (dir_at ev (\<lambda>d. capture_dir d \<and> signed d ''restart-completion.json''))) ok" for b
    by (rule hoare_write_completion) (simp add: is_completion_name_def)
  have body: "hoare (on_root (dir_at ev capture_dir))
      (bindS (eachS (checkpoint_chunk flt ev) (chunks ms)) (\<lambda>_.
       bindS (liftS (enforce_message_size (canonical_json (completion ms)))) (\<lambda>_.
       bindS (write_message flt ev ''restart-completion.json'' (canonical_json (completion ms))) (\<lambda>_. returnS Stored))))
      (\<lambda>x. on_root (\<lambda>r. root_ok r \<and> (x = Stored \<longrightarrow> dir_at ev (\<lambda>d. capture_dir d \<and> signed d ''restart-completion.json'') r))) ok"
    by (rule hoare_bindS [OF hoare_eachS [OF hoare_checkpoint_chunk]], rule hoare_bind_liftS, erule weak,
        rule hoare_bindS [OF compl], rule hoare_returnS) (simp add: on_root_def dir_at_def)
  show ?thesis
    unfolding checkpoint_capturing_def
  proof (intro hoare_event_directory hoare_inspect_event hoare_bind_checkS hoare_inventory hoare_if)
    fix entry :: SpoolEntry and es
    assume chk: "\<not> (entry_state entry \<noteq> Capturing \<or> chunks ms = [] \<or> length (chunks ms) > 15)"
    show "hoare (\<lambda>s. on_root (\<lambda>r. signed_at ev r \<and> (\<exists>d. map_of r ev = Some d \<and> inspect_dir ev d = Inr entry)) s \<and>
        inventory_of (spool_root s) = Inr es)
      (bindS (eachS (checkpoint_chunk flt ev) (chunks ms)) (\<lambda>_.
       bindS (liftS (enforce_message_size (canonical_json (completion ms)))) (\<lambda>_.
       bindS (write_message flt ev ''restart-completion.json'' (canonical_json (completion ms))) (\<lambda>_. returnS Stored))))
      (\<lambda>x. on_root (\<lambda>r. root_ok r \<and> (x = Stored \<longrightarrow> dir_at ev (\<lambda>d. capture_dir d \<and> signed d ''restart-completion.json'') r))) ok"
      using chk by (intro hoare_pre [OF body])
        (auto simp: on_root_def signed_at_def dir_at_def capture_dir_def published_def dest: inspect_dir_state)
    show "hoare (\<lambda>s. on_root (\<lambda>r. signed_at ev r \<and> (\<exists>d. map_of r ev = Some d \<and> inspect_dir ev d = Inr entry)) s \<and>
        inventory_of (spool_root s) = Inr es) drop_window
      (\<lambda>x. on_root (\<lambda>r. root_ok r \<and> (x = Stored \<longrightarrow> dir_at ev (\<lambda>d. capture_dir d \<and> signed d ''restart-completion.json'') r))) ok"
      by (rule hoare_weaken [OF hoare_drop_window [of root_ok root_ok ok]]) (auto simp: on_root_def signed_at_def)
  qed (auto simp: on_root_def signed_at_def)
qed

lemma hoare_complete:
  "hoare (on_root (signed_at ev)) (complete_capturing flt ev ms) (\<lambda>_. ok) ok"
proof -
  let ?done = "on_root (dir_at ev (\<lambda>d. capture_dir d \<and> signed d ''completion.json''))"
  have ready: "hoare ?done (write_state flt ev ReadyToSend) (\<lambda>_. on_root (dir_at ev (\<lambda>_. True))) ok"
    by (rule hoare_write_state) (auto simp: capture_dir_def)
  have tail: "hoare (on_root (dir_at ev (\<lambda>d. capture_dir d \<and> signed d ''restart-completion.json'')))
      (bindS (bindS (rename_file a ev ''restart-completion.json'' ''completion.json'') (\<lambda>_.
         rename_file a' ev ''restart-completion.json.sha256'' ''completion.json.sha256'')) (\<lambda>_.
       bindS (sync_directory flt ev) (\<lambda>_. bindS (write_state flt ev ReadyToSend) (\<lambda>_. returnS x)))) (\<lambda>_. ok) ok" for a a' and x :: AdmissionResult
    by (rule hoare_bindS [OF hoare_publish], rule hoare_bindS [OF hoare_sync], erule dir_at_root_ok,
        rule hoare_bindS [OF ready], rule hoare_pure) (simp add: on_root_def dir_at_def)
  have assoc: "bindS (bindS m f) g = bindS m (\<lambda>x. bindS (f x) g)" for m :: "(EventSpool, unit) op" and f :: "unit \<Rightarrow> unit spool_op"
      and g :: "unit \<Rightarrow> AdmissionResult spool_op"
    by (auto simp: bindS_def fun_eq_iff split: prod.splits sum.splits)
  show ?thesis unfolding complete_capturing_def
    by (rule hoare_bindS [OF hoare_checkpoint], intro hoare_if hoare_pure hoare_event_directory
        hoare_pre [OF tail [unfolded assoc]]) (auto simp: on_root_def)
qed

lemma quarantine_keeps_ok: "keeps ok (quarantine flt ev)"
  unfolding quarantine_def
  by (intro hoare_keeps hoare_event_directory hoare_inspect_event hoare_pre [OF keeps_write_state])
    (auto simp: on_root_def)

lemma mark_waiting_keeps_ok: "keeps ok (mark_waiting_ack flt ev)"
proof (rule hoare_keeps)
  have st: "hoare (on_root (dir_at ev (\<lambda>d. dir_state d = Some ReadyToSend))) (write_state flt ev WaitingAck) (\<lambda>_. ok) ok"
    by (rule hoare_weaken [OF hoare_write_state [where q = "\<lambda>_. True" and p = "\<lambda>d. dir_state d = Some ReadyToSend"]])
      (auto simp: dir_ok_def published_def on_root_def dir_at_def)
  show "hoare ok (mark_waiting_ack flt ev) (\<lambda>_. ok) ok"
    unfolding mark_waiting_ack_def
    by (intro hoare_event_directory hoare_inspect_event hoare_bind_checkS hoare_pre [OF st])
      (auto simp: on_root_def dir_at_def dest: inspect_dir_state)
qed

lemma acknowledge_keeps_ok: "keeps ok (acknowledge_chunk flt ev i)" "keeps ok (acknowledge_completion flt ev)"
proof -
  have "hoare ok (atomic_write flt ev ''completion.json.ack'' b) (\<lambda>_. ok) ok" for b
    using keeps_write_ack [of flt ev "''completion.json''"] by simp
  then show "keeps ok (acknowledge_chunk flt ev i)" "keeps ok (acknowledge_completion flt ev)"
    unfolding acknowledge_chunk_def acknowledge_completion_def
    by (auto intro!: hoare_keeps hoare_event_directory hoare_bind_checkS hoare_bind_readS
        hoare_pre [OF keeps_write_ack] intro: hoare_pre)
qed

lemma root_ok_delete: "root_ok r \<Longrightarrow> root_ok (AList.delete ev r)"
  by (auto simp: root_ok_def distinct_delete delete_conv')

lemma delete_keeps_ok: "keeps ok (delete_if_fully_acknowledged flt ev)"
proof -
  have rm: "hoare ok (remove_all ev) (\<lambda>_. ok) ok"
    by (simp add: hoare_def remove_all_def on_root_def root_ok_delete)
  have st: "hoare ok (write_state flt ev Acknowledged) (\<lambda>_. ok) ok" by (rule keeps_write_state) simp_all
  have body: "hoare ok (bindS (write_state flt ev Acknowledged) (\<lambda>_. bindS (remove_all ev) (\<lambda>_.
      bindS (sync_directory flt []) (\<lambda>_. returnS True)))) (\<lambda>_. ok) ok"
    by (intro hoare_bindS [OF st] hoare_bindS [OF rm] hoare_bindS [OF hoare_sync] hoare_pure)
  show ?thesis unfolding delete_if_fully_acknowledged_def
    by (intro hoare_keeps hoare_event_directory hoare_inspect_event hoare_if hoare_pure hoare_read_dir hoare_pre [OF body])
      (auto simp: on_root_def)
qed

lemma recover_event_keeps_ok: "keeps ok (recover_event flt ev)"
proof (rule hoare_keeps)
  have q: "hoare ok (write_state flt ev Quarantined) (\<lambda>_. ok) ok" by (rule keeps_write_state) simp_all
  let ?done = "on_root (dir_at ev (\<lambda>d. capture_dir d \<and> signed d ''completion.json''))"
  have ready: "hoare ?done (write_state flt ev ReadyToSend) (\<lambda>_. ok) ok"
    by (rule hoare_weaken [OF hoare_write_state [where q = "\<lambda>_. True"]])
      (auto simp: capture_dir_def on_root_def dir_at_def)
  have assoc: "bindS (bindS m f) g = bindS m (\<lambda>x. bindS (f x) g)" for m :: "(EventSpool, unit) op" and f :: "unit \<Rightarrow> unit spool_op"
      and g :: "unit \<Rightarrow> unit spool_op"
    by (auto simp: bindS_def fun_eq_iff split: prod.splits sum.splits)
  have "hoare (on_root (dir_at ev (\<lambda>d. capture_dir d \<and> signed d ''restart-completion.json'')))
      (bindS (bindS (rename_file a ev ''restart-completion.json'' ''completion.json'') (\<lambda>_.
         rename_file a' ev ''restart-completion.json.sha256'' ''completion.json.sha256'')) (\<lambda>_.
       bindS (sync_directory flt ev) (\<lambda>_. write_state flt ev ReadyToSend))) (\<lambda>_. ok) ok" for a a'
    by (rule hoare_bindS [OF hoare_publish], rule hoare_bindS [OF hoare_sync], erule dir_at_root_ok, rule ready)
  note publish = this [unfolded assoc]
  show "hoare ok (recover_event flt ev) (\<lambda>_. ok) ok"
    unfolding recover_event_def
    by (intro hoare_catchS [where F = ok] hoare_inspect_event hoare_read_dir hoare_if hoare_pure
        hoare_pre [OF q] hoare_pre [OF publish])
      (auto simp: on_root_def dir_at_def capture_dir_def published_def
        dest: inspect_dir_state chunks_valid_signed valid_file_signed)
qed

lemma recover_keeps_ok: "keeps ok (recover flt)"
  unfolding recover_def inventory_def by (intro keeps_rules recover_event_keeps_ok)

end
