(* ===== verification/Runtime.thy ===== *)
theory Runtime
  imports Spool
begin

text \<open>
  The acquisition and delivery runtime (\<^verbatim>\<open>src/runtime/runtime.cpp\<close>): it feeds the window engine, stores
  the messages of every window in the spool while the event is still captured, hands messages to
  the transport and records their acknowledgements. The state is the record of the class; an
  operation keeps the state changes made before an exception. The mutex makes the operations of the
  two threads atomic, so an execution is a sequence of operations.
\<close>

section \<open>Reading stored messages\<close>

definition json_array :: "Json \<Rightarrow> Json list result" where
  "json_array j = (case j of JArray vs \<Rightarrow> Inr vs | _ \<Rightarrow> Inl (Logic_error ''bad_variant_access''))"

definition str_at :: "string \<Rightarrow> Json \<Rightarrow> string result" where
  "str_at key j = bindE (json_at key j) json_str"

definition int_at :: "string \<Rightarrow> Json \<Rightarrow> int result" where
  "int_at key j = bindE (json_at key j) json_integer"

definition message_filename :: "nat option \<Rightarrow> string result" where
  "message_filename index =
     (case index of None \<Rightarrow> Inr ''completion.json''
      | Some i \<Rightarrow> if i > 14 then Inl (Invalid_argument ''CHUNK_INDEX_INVALID'') else Inr (chunk_filename i))"

definition read_file :: "EventSpool \<Rightarrow> string \<Rightarrow> string \<Rightarrow> nat \<Rightarrow> string result" where
  "read_file s ev name limit =
     (case file_of s ev name of None \<Rightarrow> Inl (Runtime_error ''INPUT_FILE_UNAVAILABLE'')
      | Some b \<Rightarrow> if b = [] \<or> length b > limit then Inl (Runtime_error ''INPUT_FILE_UNAVAILABLE'') else Inr b)"

definition durable_message :: "EventSpool \<Rightarrow> string \<Rightarrow> string \<Rightarrow> string result" where
  "durable_message s ev name =
     bindE (read_file s ev name 65536) (\<lambda>bytes.
     bindE (read_file s ev (name @ ''.sha256'') 64) (\<lambda>digest.
       if sha256_hex bytes \<noteq> digest then Inl (Runtime_error ''SPOOL_INTEGRITY_INVALID'') else Inr bytes))"

fun all_pre :: "Json list \<Rightarrow> bool result" where
  "all_pre [] = Inr True"
| "all_pre (v # vs) = bindE (str_at ''phase'' v) (\<lambda>p. if p = ''PRE'' then all_pre vs else Inr False)"

definition sealed_capture_chunk :: "(string \<Rightarrow> dbl option) \<Rightarrow> string \<Rightarrow> bool result" where
  "sealed_capture_chunk fc bytes =
     bindE (parse_json fc bytes 65536) (\<lambda>json.
     bindE (json_at ''content'' json) (\<lambda>content.
     bindE (int_at ''sampleCount'' content) (\<lambda>count.
     bindE (bindE (json_at ''samples'' content) json_array) (\<lambda>samples.
       if count < 1 \<or> count > 10 \<or> nat count \<noteq> length samples
       then Inl (Runtime_error ''SPOOL_CHUNK_INVALID'')
       else if count = 10 then Inr True else all_pre samples))))"

definition parse_service_instance :: "Json \<Rightarrow> ServiceInstance result" where
  "parse_service_instance v =
     bindE (json_object v) (\<lambda>kvs.
       if length kvs \<noteq> 4 then Inl (Invalid_argument ''NATIVE_IDENTITY_INVALID'')
       else bindE (int_at ''instanceIndex'' v) (\<lambda>index.
         if index < 0 then Inl (Invalid_argument ''NATIVE_IDENTITY_INVALID'')
         else bindE (str_at ''serviceId'' v) (\<lambda>svc. bindE (str_at ''subjectId'' v) (\<lambda>subj.
           bindE (str_at ''instanceId'' v) (\<lambda>inst.
             (let instance = \<lparr>service_id = svc, subject_id = subj, instance_index = nat index, instance_id = inst\<rparr>
              in if \<not> native_instance_valid instance then Inl (Invalid_argument ''NATIVE_IDENTITY_INVALID'')
                 else Inr instance))))))"

definition set_invalid :: exn where
  "set_invalid = Runtime_error ''SPOOL_SET_INVALID''"

definition object_count :: "string \<Rightarrow> Json \<Rightarrow> nat result" where
  "object_count key j = bindE (json_object j) (\<lambda>kvs. Inr (if map_of kvs key = None then 0 else 1))"

fun same_strings :: "string list \<Rightarrow> Json \<Rightarrow> Json \<Rightarrow> unit result" where
  "same_strings [] a b = Inr ()"
| "same_strings (k # ks) a b =
     bindE (str_at k a) (\<lambda>x. bindE (str_at k b) (\<lambda>y. if x \<noteq> y then Inl set_invalid else same_strings ks a b))"

definition verify_provenance :: "Json \<Rightarrow> Json \<Rightarrow> unit result" where
  "verify_provenance chunk compl_json =
     bindE (int_at ''schemaVersion'' compl_json) (\<lambda>revision.
       if revision \<noteq> 1 \<and> revision \<noteq> 2 then Inl set_invalid
       else bindE (int_at ''schemaVersion'' chunk) (\<lambda>cr.
         if cr \<noteq> revision then Inl set_invalid
         else bindE (str_at ''contractVersion'' compl_json) (\<lambda>cv.
           if cv \<noteq> (if revision = 2 then ''2.0.0'' else ''1.0.0'') then Inl set_invalid
           else bindE (str_at ''contractVersion'' chunk) (\<lambda>ccv.
             if ccv \<noteq> cv then Inl set_invalid
             else
               (let provenance = (if revision = 2 then ''serviceInstance'' else ''serviceArtifactSha256'');
                    forbidden = (if revision = 2 then ''serviceArtifactSha256'' else ''serviceInstance'')
                in bindE (object_count forbidden chunk) (\<lambda>n1. if n1 \<noteq> 0 then Inl set_invalid
                   else bindE (object_count forbidden compl_json) (\<lambda>n2. if n2 \<noteq> 0 then Inl set_invalid
                   else bindE (bindE (json_at provenance chunk) encode_json) (\<lambda>a.
                        bindE (bindE (json_at provenance compl_json) encode_json) (\<lambda>b.
                          if a \<noteq> b then Inl set_invalid
                          else if revision = 2 then
                            bindE (bindE (json_at ''serviceInstance'' chunk) parse_service_instance) (\<lambda>_.
                            bindE (str_at ''serviceVersion'' chunk) (\<lambda>v.
                              if \<not> package_version v then Inl set_invalid else Inr ()))
                          else Inr ())))))))))"

definition verify_chunk ::
    "(string \<Rightarrow> dbl option) \<Rightarrow> EventSpool \<Rightarrow> SpoolEntry \<Rightarrow> Json \<Rightarrow> Json list \<Rightarrow> nat \<Rightarrow> int \<Rightarrow> (int \<times> string) result" where
  "verify_chunk fc s entry compl_json expected_hashes i expected_sample =
     bindE (message_filename (Some i)) (\<lambda>name.
     bindE (durable_message s (entry_event_id entry) name) (\<lambda>bytes.
     bindE (parse_json fc bytes 65536) (\<lambda>chunk.
     bindE (json_at ''content'' chunk) (\<lambda>values.
     bindE (str_at ''eventId'' chunk) (\<lambda>ev. if ev \<noteq> entry_event_id entry then Inl set_invalid else
     bindE (int_at ''chunkIndex'' values) (\<lambda>ci. if ci \<noteq> int i then Inl set_invalid else
     bindE (int_at ''firstSampleIndex'' values) (\<lambda>fi. if fi \<noteq> expected_sample then Inl set_invalid else
     bindE (json_str (expected_hashes ! i)) (\<lambda>eh.
     bindE (str_at ''contentSha256'' chunk) (\<lambda>ch. if eh \<noteq> ch then Inl set_invalid else
     bindE (same_strings [''eventId'', ''unitSystemUid'', ''unitRole'', ''serviceVersion'', ''vdpContractVersion'',
              ''vdpContractSha256''] chunk compl_json) (\<lambda>_.
     bindE (verify_provenance chunk compl_json) (\<lambda>_.
     bindE (int_at ''sampleCount'' values) (\<lambda>n. Inr (expected_sample + n, ch)))))))))))))"

fun verify_chunks ::
    "(string \<Rightarrow> dbl option) \<Rightarrow> EventSpool \<Rightarrow> SpoolEntry \<Rightarrow> Json \<Rightarrow> Json list \<Rightarrow> nat list \<Rightarrow> int \<Rightarrow> string list \<Rightarrow>
      (int \<times> string list) result" where
  "verify_chunks fc s entry compl_json hs [] n acc = Inr (n, acc)"
| "verify_chunks fc s entry compl_json hs (i # is) n acc =
     bindE (verify_chunk fc s entry compl_json hs i n) (\<lambda>(n', h). verify_chunks fc s entry compl_json hs is n' (acc @ [h]))"

definition verify_completed_set :: "(string \<Rightarrow> dbl option) \<Rightarrow> EventSpool \<Rightarrow> SpoolEntry \<Rightarrow> unit result" where
  "verify_completed_set fc s entry =
     bindE (durable_message s (entry_event_id entry) ''completion.json'') (\<lambda>bytes.
     bindE (parse_json fc bytes 65536) (\<lambda>compl_json.
     bindE (json_at ''content'' compl_json) (\<lambda>content.
     bindE (bindE (json_at ''chunkContentSha256'' content) json_array) (\<lambda>hs.
     bindE (int_at ''totalChunks'' content) (\<lambda>total.
       if total \<noteq> int (chunk_count entry) \<or> length hs \<noteq> chunk_count entry then Inl set_invalid
       else bindE (verify_chunks fc s entry compl_json hs [0..<chunk_count entry] 0 []) (\<lambda>(n, hashes).
         bindE (int_at ''totalSamples'' content) (\<lambda>ts. if ts \<noteq> n then Inl set_invalid else
         bindE (str_at ''windowSha256'' content) (\<lambda>ws.
         bindE (window_sha256 hashes) (\<lambda>wh. if ws \<noteq> wh then Inl set_invalid else Inr ())))))))))"

section \<open>Acknowledgements\<close>

definition number_at :: "string \<Rightarrow> nat \<Rightarrow> nat \<Rightarrow> int" where
  "number_at s start len =
     (let ds = take len (drop start s) in if list_all is_dec ds then int (dec_value ds) else - 1)"

definition month_days :: "int list" where
  "month_days = [0, 31, 28, 31, 30, 31, 30, 31, 31, 30, 31, 30, 31]"

definition zone_valid :: "string \<Rightarrow> nat \<Rightarrow> bool" where
  "zone_valid s p =
     (if s ! p = CHR ''Z'' \<or> s ! p = CHR ''z'' then p + 1 = length s
      else if (s ! p \<noteq> CHR ''+'' \<and> s ! p \<noteq> CHR ''-'') \<or> p + 6 \<noteq> length s \<or> s ! (p + 3) \<noteq> CHR '':'' then False
      else (let zh = number_at s (p + 1) 2; zm = number_at s (p + 4) 2 in 0 \<le> zh \<and> zh \<le> 23 \<and> 0 \<le> zm \<and> zm \<le> 59))"

definition date_time :: "string \<Rightarrow> bool" where
  "date_time s =
     (if length s < 20 \<or> length s > 128 \<or> s ! 4 \<noteq> CHR ''-'' \<or> s ! 7 \<noteq> CHR ''-'' \<or>
         (s ! 10 \<noteq> CHR ''T'' \<and> s ! 10 \<noteq> CHR ''t'') \<or> s ! 13 \<noteq> CHR '':'' \<or> s ! 16 \<noteq> CHR '':'' then False
      else
        (let year = number_at s 0 4; month = number_at s 5 2; day = number_at s 8 2;
             hour = number_at s 11 2; minute = number_at s 14 2; second = number_at s 17 2
         in if year < 0 \<or> month < 1 \<or> month > 12 \<or> day < 1 \<or> hour < 0 \<or> hour > 23 \<or> minute < 0 \<or> minute > 59 \<or>
               second < 0 \<or> second > 60 then False
            else
              (let leap = (year mod 4 = 0 \<and> (year mod 100 \<noteq> 0 \<or> year mod 400 = 0))
               in if day > month_days ! nat month + (if month = 2 \<and> leap then 1 else 0) then False
                  else if s ! 19 = CHR ''.'' then
                    (let n = length (takeWhile is_dec (drop 20 s))
                     in if n = 0 \<or> 20 + n = length s then False else zone_valid s (20 + n))
                  else zone_valid s 19)))"

record HttpResponse =
  status :: int
  body :: string
  retry_after :: int

definition message_kinds :: "string list" where
  "message_kinds = [''WINDOW_CHUNK'', ''WINDOW_COMPLETION'', ''BRAKE_HEALTH_ASSESSMENT'', ''BRAKE_HEALTH_EVENT'', ''BRAKE_ADVISORY_FACT'']"

definition gateway_states :: "string list" where
  "gateway_states = [''RECEIVED'', ''APPLIED'', ''CLEARED'', ''REJECTED'', ''EXPIRED'', ''FAILED'']"

text \<open>The idempotency key of a message: \<open>None\<close> where the source returns false.\<close>

definition message_key :: "Json \<Rightarrow> string option result" where
  "message_key msg =
     bindE (str_at ''messageType'' msg) (\<lambda>kind.
       if kind \<notin> set message_kinds then Inr None
       else
         (let identity = (if kind = ''BRAKE_HEALTH_ASSESSMENT'' then ''assessmentId''
                          else if kind = ''BRAKE_ADVISORY_FACT'' then ''requestId'' else ''eventId'')
          in bindE (bindE (str_at ''unitSystemUid'' msg) quote_json) (\<lambda>uid.
             bindE (quote_json kind) (\<lambda>k.
             bindE (bindE (str_at identity msg) quote_json) (\<lambda>idn.
               (let key = ''['' @ uid @ '','' @ k @ '','' @ idn
                in if kind = ''WINDOW_CHUNK'' then
                     bindE (bindE (json_at ''content'' msg) (int_at ''chunkIndex'')) (\<lambda>index.
                       if index < 0 \<or> index > 14 then Inr None else Inr (Some (key @ '','' @ int_to_string index @ '']'')))
                   else if kind = ''BRAKE_ADVISORY_FACT'' then
                     bindE (str_at ''gatewayState'' msg) (\<lambda>st.
                       if st \<notin> set gateway_states then Inr None
                       else bindE (quote_json st) (\<lambda>q. Inr (Some (key @ '','' @ q @ '']''))))
                   else Inr (Some (key @ '']''))))))))"

definition ack_matches :: "Json \<Rightarrow> Json \<Rightarrow> string \<Rightarrow> bool result" where
  "ack_matches msg ack key =
     bindE (str_at ''contentSha256'' msg) (\<lambda>digest.
       if \<not> is_sha256 digest then Inr False
       else
         bindE (json_object ack) (\<lambda>kvs. if length kvs \<noteq> 7 then Inr False else
         bindE (int_at ''schemaVersion'' ack) (\<lambda>sv. if sv \<noteq> 1 then Inr False else
         bindE (str_at ''contractVersion'' ack) (\<lambda>cv. if cv \<noteq> ''1.0.0'' then Inr False else
         bindE (str_at ''receiptId'' ack) (\<lambda>rid. if \<not> is_uuid rid then Inr False else
         bindE (str_at ''receivedAt'' ack) (\<lambda>ra. if \<not> date_time ra then Inr False else
         bindE (str_at ''state'' ack) (\<lambda>st. if st \<noteq> ''DURABLE_ACCEPTED'' \<and> st \<noteq> ''DUPLICATE_ACCEPTED'' then Inr False else
         bindE (str_at ''contentSha256'' ack) (\<lambda>ad. if ad \<noteq> digest then Inr False else
         bindE (str_at ''messageKeySha256'' ack) (\<lambda>mk. Inr (mk = sha256_hex key))))))))))"

text \<open>\<open>catch (...) { return false; }\<close>\<close>

definition matches_ack :: "(string \<Rightarrow> dbl option) \<Rightarrow> string \<Rightarrow> HttpResponse \<Rightarrow> bool" where
  "matches_ack fc message response =
     (if status response \<noteq> 200 \<and> status response \<noteq> 201 then False
      else
        (case bindE (parse_json fc message 65536) (\<lambda>msg.
              bindE (parse_json fc (body response) 8192) (\<lambda>ack.
              bindE (message_key msg) (\<lambda>key.
                case key of None \<Rightarrow> Inr False | Some k \<Rightarrow> ack_matches msg ack k))) of
           Inl _ \<Rightarrow> False | Inr b \<Rightarrow> b))"

definition retryable_http :: "int \<Rightarrow> bool" where
  "retryable_http st \<longleftrightarrow> st \<in> set [0, 408, 425, 429, 500, 502, 503, 504]"

text \<open>\<open>rnd\<close> is the rounding of the two floating-point operations.\<close>

definition retry_delay :: "(rat \<Rightarrow> rat) \<Rightarrow> nat \<Rightarrow> dbl \<Rightarrow> int \<Rightarrow> int result" where
  "retry_delay rnd attempt jitter after =
     (case jitter of
        Fin j \<Rightarrow>
          if j < - 3602879701896397 / 18014398509481984 \<or> j > 3602879701896397 / 18014398509481984 \<or> after < 0
          then Inl (Invalid_argument ''RETRY_INVALID'')
          else
            (let base = min 30 (2 ^ min attempt 5) :: int
             in Inr (max after (max 1 (min 30 \<lceil>rnd (of_int base * rnd (1 + j))\<rceil>))))
      | _ \<Rightarrow> Inl (Invalid_argument ''RETRY_INVALID''))"

section \<open>The runtime\<close>

record PendingMessage =
  pm_event_id :: string
  pm_chunk_index :: "nat option"
  pm_bytes :: string

record Runtime =
  rt_metadata :: MessageMetadata
  rt_engine :: WindowEngine
  rt_spool :: EventSpool
  dropped_event_id :: "string option"

type_synonym 'a runtime_op = "(Runtime, 'a) op"

text \<open>What the environment provides: faults of writes, \<open>std::to_chars\<close> and \<open>std::from_chars\<close>.\<close>

record Environment =
  env_faults :: faults
  env_to_chars :: "dbl \<Rightarrow> string option"
  env_from_chars :: "string \<Rightarrow> dbl option"

definition on_spool :: "'a spool_op \<Rightarrow> 'a runtime_op" where
  "on_spool m rt = (case m (rt_spool rt) of (r, s') \<Rightarrow> (r, rt\<lparr>rt_spool := s'\<rparr>))"

definition read_spool :: "(EventSpool \<Rightarrow> 'a result) \<Rightarrow> 'a runtime_op" where
  "read_spool f = readS (\<lambda>rt. f (rt_spool rt))"

definition recover_entry :: "Environment \<Rightarrow> SpoolEntry \<Rightarrow> unit runtime_op" where
  "recover_entry env entry =
     (if entry_state entry = Quarantined then returnS ()
      else catchS (read_spool (\<lambda>s. verify_completed_set (env_from_chars env) s entry))
             (on_spool (quarantine (env_faults env) (entry_event_id entry))))"

definition Runtime_init :: "Environment \<Rightarrow> unit runtime_op" where
  "Runtime_init env =
     bindS (on_spool (recover (env_faults env))) (\<lambda>entries. eachS (recover_entry env) entries)"

text \<open>One stored chunk against the new messages; the source raises \<open>SEALED_CHUNK_CHANGED\<close>.\<close>

definition chunk_unchanged :: "Environment \<Rightarrow> EventSpool \<Rightarrow> string \<Rightarrow> MessageSet \<Rightarrow> nat \<Rightarrow> unit result" where
  "chunk_unchanged env s ev ms i =
     bindE (message_filename (Some i)) (\<lambda>name.
     bindE (durable_message s ev name) (\<lambda>previous.
       if i \<ge> length (chunks ms) then Inl (Runtime_error ''SEALED_CHUNK_CHANGED'')
       else bindE (sealed_capture_chunk (env_from_chars env) previous) (\<lambda>sealed.
         if (sealed \<or> file_of s ev (name @ ''.ack'') \<noteq> None) \<and> previous \<noteq> canonical_json (chunks ms ! i)
         then Inl (Runtime_error ''SEALED_CHUNK_CHANGED'') else Inr ())))"

definition find_entry :: "string \<Rightarrow> SpoolEntry list \<Rightarrow> SpoolEntry option" where
  "find_entry ev es = find (\<lambda>e. entry_event_id e = ev) es"

definition finish_store :: "Environment \<Rightarrow> string \<Rightarrow> bool \<Rightarrow> AdmissionResult \<Rightarrow> unit runtime_op" where
  "finish_store env ev existed r =
     (if r = WindowDroppedQueueFull then
        bindS (\<lambda>rt. (Inr (), rt\<lparr>dropped_event_id := Some ev\<rparr>)) (\<lambda>_.
          if existed then on_spool (quarantine (env_faults env) ev) else returnS ())
      else returnS ())"

text \<open>The checks of an event that is already stored: whether it may be written again.\<close>

definition may_rewrite :: "Environment \<Rightarrow> string \<Rightarrow> MessageSet \<Rightarrow> SpoolEntry \<Rightarrow> bool runtime_op" where
  "may_rewrite env ev ms existing =
     catchS
       (bindS (read_spool (\<lambda>s. mapE (chunk_unchanged env s ev ms) [0..<chunk_count existing])) (\<lambda>_. returnS True))
       (bindS (on_spool (quarantine (env_faults env) ev)) (\<lambda>_. returnS False))"

definition store_window :: "Environment \<Rightarrow> EventWindow \<Rightarrow> bool \<Rightarrow> unit runtime_op" where
  "store_window env w capture rt =
     (if dropped_event_id rt = Some (event_id w) then (Inr (), rt)
      else
        bindS (liftS (build_growing_messages (env_to_chars env) (rt_metadata rt) w)) (\<lambda>ms.
        bindS (on_spool inventory) (\<lambda>entries.
          case find_entry (event_id w) entries of
            Some existing \<Rightarrow>
              if entry_state existing = Quarantined then returnS ()
              else
                bindS (may_rewrite env (event_id w) ms existing) (\<lambda>go.
                  if \<not> go then returnS ()
                  else
                    bindS (on_spool (if capture then checkpoint_capturing (env_faults env) (event_id w) ms
                                     else complete_capturing (env_faults env) (event_id w) ms)) (\<lambda>r.
                      finish_store env (event_id w) True r))
          | None \<Rightarrow>
              bindS (on_spool (if capture then store_capturing_for_recovery (env_faults env) (event_id w) ms
                               else store_completed (env_faults env) (event_id w) ms)) (\<lambda>r.
                finish_store env (event_id w) False r))) rt)"

definition feed_engine :: "string result \<Rightarrow> SourceFrame \<Rightarrow> IngestResult runtime_op" where
  "feed_engine uuid f rt = (case ingest uuid f (rt_engine rt) of (e', out) \<Rightarrow> (out, rt\<lparr>rt_engine := e'\<rparr>))"

text \<open>A copy of the engine is interrupted; the engine itself goes on capturing.\<close>

definition snapshot :: "Runtime \<Rightarrow> EventWindow option" where
  "snapshot rt = snd (abort_restart (rt_engine rt))"

definition Runtime_ingest :: "Environment \<Rightarrow> string result \<Rightarrow> SourceFrame \<Rightarrow> IngestResult runtime_op" where
  "Runtime_ingest env uuid f =
     bindS (feed_engine uuid f) (\<lambda>result.
     bindS (case completed result of
         Some w \<Rightarrow> store_window env w False
       | None \<Rightarrow>
           if event_active result \<and> (retained result \<or> event_started result) then
             (\<lambda>rt. (case snapshot rt of Some w \<Rightarrow> store_window env w True rt | None \<Rightarrow> (Inr (), rt)))
           else returnS ()) (\<lambda>_. returnS result))"

definition missing_frame :: SourceFrame where
  "missing_frame =
     \<lparr>speed_kph = Fin 0, longitudinal_acceleration_mps2 = Fin 0, lateral_acceleration_mps2 = Fin 0,
      vertical_acceleration_mps2 = Fin 0, accelerator_pedal_percent = 0, brake_pedal_percent = 0,
      source_timestamp = [], source_epoch_ms = 0, monotonic_ms = 0, max_source_age_ms = 0,
      quality = QualityIncomplete\<rparr>"

definition disconnect :: "Environment \<Rightarrow> string result \<Rightarrow> unit runtime_op" where
  "disconnect env uuid = bindS (Runtime_ingest env uuid missing_frame) (\<lambda>_. returnS ())"

definition stop :: "Environment \<Rightarrow> unit runtime_op" where
  "stop env rt =
     (case abort_service_stop (rt_engine rt) of (e', w) \<Rightarrow>
        (case w of Some v \<Rightarrow> store_window env v False (rt\<lparr>rt_engine := e'\<rparr>) | None \<Rightarrow> (Inr (), rt\<lparr>rt_engine := e'\<rparr>)))"

definition update_vdp_metadata :: "Environment \<Rightarrow> string result \<Rightarrow> MessageMetadata \<Rightarrow> unit runtime_op" where
  "update_vdp_metadata env uuid md rt =
     (let old = rt_metadata rt
      in if unit_system_uid md \<noteq> unit_system_uid old \<or> unit_role md \<noteq> unit_role old \<or>
            service_version md \<noteq> service_version old \<or> service_artifact_sha256 md \<noteq> service_artifact_sha256 old \<or>
            service_instance md \<noteq> service_instance old
         then (Inl (Invalid_argument ''IMMUTABLE_IDENTITY_CHANGED''), rt)
         else if vdp_contract_version md \<noteq> vdp_contract_version old \<or> vdp_contract_sha256 md \<noteq> vdp_contract_sha256 old
         then
           bindS (feed_engine uuid missing_frame) (\<lambda>result.
           bindS (case completed result of Some w \<Rightarrow> store_window env w False | None \<Rightarrow> returnS ()) (\<lambda>_.
             (\<lambda>rt'. (Inr (), rt'\<lparr>rt_metadata := md\<rparr>)))) rt
         else (Inr (), rt))"

definition activity :: "Runtime \<Rightarrow> string \<times> string option" where
  "activity rt = (activity_state (rt_engine rt), activity_id (rt_engine rt))"

fun pending_files :: "EventSpool \<Rightarrow> SpoolEntry \<Rightarrow> nat list \<Rightarrow> nat result" where
  "pending_files s entry [] = Inr 0"
| "pending_files s entry (i # is) =
     bindE (message_filename (if i < chunk_count entry then Some i else None)) (\<lambda>name.
     bindE (pending_files s entry is) (\<lambda>n.
       Inr (if file_of s (entry_event_id entry) (name @ ''.ack'') = None then n + 1 else n)))"

definition delivery_usage :: "(nat \<times> bool) runtime_op" where
  "delivery_usage =
     bindS (on_spool inventory) (\<lambda>entries. read_spool (\<lambda>s.
       bindE (mapE (\<lambda>e. pending_files s e [0..<chunk_count e + (if completion_present e then 1 else 0)]) entries) (\<lambda>ns.
         Inr (sum_list ns, list_ex (\<lambda>e. entry_state e = Quarantined) entries))))"

subsection \<open>Delivery\<close>

text \<open>The inner loop over the files of one event: the first message to send, if any.\<close>

fun next_file :: "Environment \<Rightarrow> SpoolEntry \<Rightarrow> bool \<Rightarrow> nat list \<Rightarrow> PendingMessage option runtime_op" where
  "next_file env entry capture [] = returnS None"
| "next_file env entry capture (i # is) =
     (let ev = entry_event_id entry; index = (if i < chunk_count entry then Some i else None)
      in bindS (liftS (message_filename index)) (\<lambda>name.
         bindS (read_spool (\<lambda>s. Inr (file_of s ev (name @ ''.ack'')))) (\<lambda>ack.
           if ack \<noteq> None then next_file env entry capture is
           else
             catchS
               (bindS (read_spool (\<lambda>s. durable_message s ev name)) (\<lambda>bytes.
                bindS (liftS (if capture then sealed_capture_chunk (env_from_chars env) bytes else Inr True)) (\<lambda>sealed.
                  returnS (if sealed then Some \<lparr>pm_event_id = ev, pm_chunk_index = index, pm_bytes = bytes\<rparr> else None))))
               (bindS (on_spool (quarantine (env_faults env) ev)) (\<lambda>_. returnS None)))))"

fun next_event :: "Environment \<Rightarrow> SpoolEntry list \<Rightarrow> PendingMessage option runtime_op" where
  "next_event env [] = returnS None"
| "next_event env (entry # rest) =
     (let capture = (entry_state entry = Capturing)
      in if \<not> capture \<and> entry_state entry \<noteq> ReadyToSend \<and> entry_state entry \<noteq> WaitingAck then next_event env rest
         else
           bindS (if entry_state entry = ReadyToSend then on_spool (mark_waiting_ack (env_faults env) (entry_event_id entry))
                  else returnS ()) (\<lambda>_.
           bindS (next_file env entry capture [0..<chunk_count entry + (if capture then 0 else 1)]) (\<lambda>m.
             case m of Some pm \<Rightarrow> returnS (Some pm)
             | None \<Rightarrow>
                 bindS (on_spool (delete_if_fully_acknowledged (env_faults env) (entry_event_id entry))) (\<lambda>_.
                   next_event env rest))))"

definition next_message :: "Environment \<Rightarrow> PendingMessage option runtime_op" where
  "next_message env = bindS (on_spool inventory) (\<lambda>entries. next_event env entries)"

text \<open>Whether the message in flight is still the stored one; any doubt quarantines the event.\<close>

definition in_flight_unchanged :: "Environment \<Rightarrow> PendingMessage \<Rightarrow> bool runtime_op" where
  "in_flight_unchanged env m =
     catchS
       (bindS (liftS (message_filename (pm_chunk_index m))) (\<lambda>name.
        bindS (read_spool (\<lambda>s. durable_message s (pm_event_id m) name)) (\<lambda>bytes.
          if bytes \<noteq> pm_bytes m then throwS (Runtime_error ''IN_FLIGHT_MESSAGE_CHANGED'') else returnS True)))
       (bindS (on_spool (quarantine (env_faults env) (pm_event_id m))) (\<lambda>_. returnS False))"

definition record_ack :: "Environment \<Rightarrow> PendingMessage \<Rightarrow> unit spool_op" where
  "record_ack env m =
     (case pm_chunk_index m of Some i \<Rightarrow> acknowledge_chunk (env_faults env) (pm_event_id m) i
      | None \<Rightarrow> acknowledge_completion (env_faults env) (pm_event_id m))"

definition accept :: "Environment \<Rightarrow> PendingMessage \<Rightarrow> HttpResponse \<Rightarrow> bool runtime_op" where
  "accept env m response =
     bindS (on_spool inventory) (\<lambda>entries.
       case find_entry (pm_event_id m) entries of
         None \<Rightarrow> returnS False
       | Some entry \<Rightarrow>
           if entry_state entry = Quarantined then returnS False
           else
             bindS (in_flight_unchanged env m) (\<lambda>same.
               if \<not> same then returnS False
               else if \<not> matches_ack (env_from_chars env) (pm_bytes m) response then
                 bindS (if status response \<noteq> 0 \<and> \<not> retryable_http (status response)
                        then on_spool (quarantine (env_faults env) (pm_event_id m)) else returnS ()) (\<lambda>_. returnS False)
               else
                 bindS (on_spool (record_ack env m)) (\<lambda>_.
                 bindS (on_spool (delete_if_fully_acknowledged (env_faults env) (pm_event_id m))) (\<lambda>_. returnS True))))"

section \<open>Stored events stay consistent\<close>

definition stored_ok :: "Runtime \<Rightarrow> bool" where
  "stored_ok rt \<longleftrightarrow> root_ok (spool_root (rt_spool rt))"

lemma keeps_on_spool:
  assumes "keeps ok m"
  shows "keeps stored_ok (on_spool m)"
  using keepsD [OF assms]
  by (auto simp: keeps_def stored_ok_def on_spool_def on_root_def split: prod.splits) (metis snd_conv)

lemma keeps_inventory: "keeps ok inventory"
  by (simp add: inventory_def keeps_pure)

lemmas spool_keeps = store_keeps_ok quarantine_keeps_ok mark_waiting_keeps_ok acknowledge_keeps_ok
  delete_keeps_ok recover_keeps_ok keeps_inventory

lemma chunk_filename_is: "i \<le> 14 \<Longrightarrow> is_chunk_filename (chunk_filename i)"
proof -
  assume "i \<le> 14"
  then have l: "length (to_string i) \<le> 3" by (intro to_string_length_le) simp_all
  then have "length (zero_pad 3 (to_string i)) = 3" by (rule length_zero_pad)
  moreover have "list_all is_dec (zero_pad 3 (to_string i))" by (rule zero_pad_digits [OF to_string_digits])
  ultimately show ?thesis by (simp add: is_chunk_filename_def chunk_filename_def)
qed

lemma chunk_filename_inject: "chunk_filename i = chunk_filename j \<Longrightarrow> i = j"
  by (metis append_same_eq chunk_filename_def dec_value_to_string dec_value_zero_pad same_append_eq)

lemma durable_message_signed:
  assumes "durable_message s ev name = Inr bytes" and "map_of (spool_root s) ev = Some d"
  shows "signed d name" and "map_of d name = Some bytes"
  using assms
  by (auto simp: durable_message_def read_file_def file_of_def signed_def bindE_eq_Inr split: option.splits if_splits)

lemma inventory_entry:
  assumes "inventory_of r = Inr es" and "find_entry ev es = Some entry" and "distinct (map fst r)"
  shows "\<exists>d. map_of r ev = Some d \<and> inspect_dir ev d = Inr entry"
proof -
  obtain es' where es: "mapE (\<lambda>(ev, d). inspect_dir ev d) (filter (\<lambda>(ev, d). uuid4 ev) r) = Inr es'" "es = sort_key entry_event_id es'"
    using assms(1) by (auto simp: inventory_of_def bindE_eq_Inr)
  from assms(2) have e: "entry \<in> set es" "entry_event_id entry = ev"
    by (auto simp: find_entry_def find_Some_iff)
  with es obtain i where i: "i < length es'" "es' ! i = entry" by (auto simp: in_set_conv_nth)
  let ?f = "filter (\<lambda>(ev, d). uuid4 ev) r"
  obtain ev' d where "?f ! i = (ev', d)" by force
  moreover from i mapE_length [OF es(1)] have "i < length ?f" by simp
  ultimately have "inspect_dir ev' d = Inr entry" "(ev', d) \<in> set r"
    using mapE_nth [OF es(1), of i] i by (auto dest: nth_mem)
  moreover from this(1) have "ev' = ev" using e(2) by (auto simp: inspect_dir_def bindE_eq_Inr split: option.splits)
  ultimately show ?thesis using assms(3) by auto
qed

lemma unchanged_chunks_signed:
  assumes d: "map_of (spool_root s) ev = Some d" "inspect_dir ev d = Inr existing" "distinct (map fst d)"
    and all: "mapE (chunk_unchanged env s ev ms) [0..<chunk_count existing] = Inr us"
  shows "chunks_signed d"
proof -
  let ?names = "map fst (filter (\<lambda>(name, bytes). is_chunk_filename name) d)"
  let ?n = "chunk_count existing"
  have n: "length ?names = ?n" using d(2) by (auto simp: inspect_dir_def bindE_eq_Inr split: option.splits)
  have "distinct ?names" using d(3) by (rule distinct_map_filter)
  have each: "i \<le> 14 \<and> signed d (chunk_filename i)" if "i < ?n" for i
  proof -
    have "chunk_unchanged env s ev ms i = Inr (us ! i)" using mapE_nth [OF all, of i] that by simp
    then obtain bytes where "i \<le> 14" "durable_message s ev (chunk_filename i) = Inr bytes"
      by (auto simp: chunk_unchanged_def message_filename_def bindE_eq_Inr split: if_splits)
    with durable_message_signed(1) [OF _ d(1)] show ?thesis by blast
  qed
  have "chunk_filename ` {..<?n} \<subseteq> set ?names"
  proof
    fix x
    assume "x \<in> chunk_filename ` {..<?n}"
    then obtain i where i: "x = chunk_filename i" "i < ?n" by auto
    with each [OF i(2)] show "x \<in> set ?names"
      using chunk_filename_is [of i] by (force simp: signed_def dest: map_of_SomeD)
  qed
  moreover have "card (chunk_filename ` {..<?n}) = ?n"
    by (subst card_image) (auto simp: inj_on_def dest: chunk_filename_inject)
  moreover have "card (set ?names) = ?n" using \<open>distinct ?names\<close> n distinct_card by fastforce
  ultimately have "set ?names = chunk_filename ` {..<?n}" by (metis card_subset_eq finite_set)
  moreover have "m \<in> set ?names" if "is_chunk_filename m" "map_of d m \<noteq> None" for m
    using that by (force dest: map_of_SomeD)
  ultimately have ex: "m \<in> chunk_filename ` {..<?n}" if "is_chunk_filename m" "map_of d m \<noteq> None" for m
    using that by simp
  show ?thesis unfolding chunks_signed_def
  proof (intro allI impI)
    fix m
    assume "is_chunk_filename m \<and> map_of d m \<noteq> None"
    then obtain i where "m = chunk_filename i" "i < ?n" using ex [of m] by auto
    with each [of i] show "signed d m" by simp
  qed
qed

lemma bind_inventory:
  "inventory_of (spool_root (rt_spool rt)) = Inr es \<Longrightarrow> bindS (on_spool inventory) f rt = f es rt"
  "inventory_of (spool_root (rt_spool rt)) = Inl e \<Longrightarrow> bindS (on_spool inventory) f rt = (Inl e, rt)"
  by (simp_all add: bindS_def on_spool_def inventory_def)

lemma may_rewrite_signed:
  assumes "inspect_dir ev d = Inr existing"
  shows "hoare (\<lambda>rt. stored_ok rt \<and> map_of (spool_root (rt_spool rt)) ev = Some d) (may_rewrite env ev ms existing)
    (\<lambda>go rt. stored_ok rt \<and> (go \<longrightarrow> signed_at ev (spool_root (rt_spool rt)))) stored_ok"
  unfolding may_rewrite_def
proof (rule hoare_catchS [where F = stored_ok])
  show "hoare (\<lambda>rt. stored_ok rt \<and> map_of (spool_root (rt_spool rt)) ev = Some d)
     (bindS (read_spool (\<lambda>s. mapE (chunk_unchanged env s ev ms) [0..<chunk_count existing])) (\<lambda>_. returnS True))
     (\<lambda>go rt. stored_ok rt \<and> (go \<longrightarrow> signed_at ev (spool_root (rt_spool rt)))) stored_ok"
    unfolding read_spool_def
    by (intro hoare_bind_readS hoare_returnS)
      (auto simp: stored_ok_def signed_at_def intro!: unchanged_chunks_signed [OF _ assms]
        dest: root_ok_dir dir_ok_distinct)
  have "hoare stored_ok (on_spool (quarantine (env_faults env) ev)) (\<lambda>_. stored_ok) stored_ok"
    using keeps_on_spool [OF quarantine_keeps_ok] by (simp add: keeps_iff_hoare)
  then show "hoare stored_ok (bindS (on_spool (quarantine (env_faults env) ev)) (\<lambda>_. returnS False))
     (\<lambda>go rt. stored_ok rt \<and> (go \<longrightarrow> signed_at ev (spool_root (rt_spool rt)))) stored_ok"
    by (elim hoare_bindS) (simp add: hoare_def)
qed

lemma hoare_on_spool:
  assumes "hoare (on_root p) m (\<lambda>_. ok) ok"
  shows "hoare (\<lambda>rt. p (spool_root (rt_spool rt))) (on_spool m) (\<lambda>_. stored_ok) stored_ok"
  using assms by (auto simp: hoare_def on_spool_def on_root_def stored_ok_def split: prod.splits sum.splits)

lemma finish_store_keeps: "keeps stored_ok (finish_store env ev existed r)"
proof -
  have "keeps stored_ok (\<lambda>rt. (Inr (), rt\<lparr>dropped_event_id := x\<rparr>))" for x
    by (simp add: keeps_def stored_ok_def)
  then show ?thesis unfolding finish_store_def
    by (intro keeps_rules keeps_on_spool quarantine_keeps_ok) simp_all
qed

lemma store_existing_keeps:
  assumes "inspect_dir ev d = Inr existing"
  shows "hoare (\<lambda>rt. stored_ok rt \<and> map_of (spool_root (rt_spool rt)) ev = Some d)
    (bindS (may_rewrite env ev ms existing) (\<lambda>go.
       if \<not> go then returnS ()
       else bindS (on_spool (if capture then checkpoint_capturing (env_faults env) ev ms
                             else complete_capturing (env_faults env) ev ms)) (\<lambda>r. finish_store env ev True r)))
    (\<lambda>_. stored_ok) stored_ok"
proof (rule hoare_bindS [OF may_rewrite_signed [OF assms]])
  have "hoare (on_root (signed_at ev)) (checkpoint_capturing (env_faults env) ev ms) (\<lambda>_. ok) ok"
    by (rule hoare_weaken [OF hoare_checkpoint]) (auto simp: on_root_def)
  then have w: "hoare (on_root (signed_at ev)) (if capture then checkpoint_capturing (env_faults env) ev ms
      else complete_capturing (env_faults env) ev ms) (\<lambda>_. ok) ok"
    using hoare_complete by auto
  have fin: "hoare stored_ok (finish_store env ev True r) (\<lambda>_. stored_ok) stored_ok" for r
    using finish_store_keeps by (simp add: keeps_iff_hoare)
  show "hoare (\<lambda>rt. stored_ok rt \<and> (go \<longrightarrow> signed_at ev (spool_root (rt_spool rt))))
     (if \<not> go then returnS () else bindS (on_spool (if capture then checkpoint_capturing (env_faults env) ev ms
         else complete_capturing (env_faults env) ev ms)) (finish_store env ev True)) (\<lambda>_. stored_ok) stored_ok" for go
    by (intro hoare_if hoare_returnS hoare_pre [OF hoare_bindS [OF hoare_on_spool [OF w] fin]]) auto
qed

lemma store_window_keeps: "keeps stored_ok (store_window env w capture)"
proof (rule keepsI)
  fix rt
  assume ok: "stored_ok rt"
  let ?ev = "event_id w"
  let ?new = "\<lambda>ms. bindS (on_spool (if capture then store_capturing_for_recovery (env_faults env) ?ev ms
     else store_completed (env_faults env) ?ev ms)) (\<lambda>r. finish_store env ?ev False r)"
  have new: "keeps stored_ok (?new ms)" for ms
    unfolding store_capturing_for_recovery_def store_completed_def
    by (intro keeps_rules keeps_on_spool store_keeps_ok finish_store_keeps)
  show "stored_ok (snd (store_window env w capture rt))"
  proof (cases "dropped_event_id rt = Some ?ev")
    case True
    with ok show ?thesis by (simp add: store_window_def)
  next
    case nodrop: False
    show ?thesis
    proof (cases "build_growing_messages (env_to_chars env) (rt_metadata rt) w")
      case (Inl e)
      with ok nodrop show ?thesis by (simp add: store_window_def)
    next
      case (Inr ms)
      show ?thesis
      proof (cases "inventory_of (spool_root (rt_spool rt))")
        case (Inl e)
        with ok nodrop Inr show ?thesis
          by (simp add: store_window_def bind_inventory)
      next
        case inv: (Inr es)
        have step: "store_window env w capture rt = (case find_entry ?ev es of
            Some existing \<Rightarrow>
              if entry_state existing = Quarantined then returnS ()
              else bindS (may_rewrite env ?ev ms existing) (\<lambda>go. if \<not> go then returnS ()
                  else bindS (on_spool (if capture then checkpoint_capturing (env_faults env) ?ev ms
                                   else complete_capturing (env_faults env) ?ev ms)) (\<lambda>r. finish_store env ?ev True r))
          | None \<Rightarrow> ?new ms) rt"
          using nodrop Inr inv
          by (simp add: store_window_def bind_inventory)
        show ?thesis
        proof (cases "find_entry ?ev es")
          case None
          with step keepsD [OF new ok] show ?thesis by simp
        next
          case (Some existing)
          from ok inventory_entry [OF inv Some] obtain d where
            d: "map_of (spool_root (rt_spool rt)) ?ev = Some d" "inspect_dir ?ev d = Inr existing"
            by (auto simp: stored_ok_def root_ok_def)
          show ?thesis
          proof (cases "entry_state existing = Quarantined")
            case True
            with step Some ok show ?thesis by simp
          next
            case False
            have "stored_ok (snd (bindS (may_rewrite env ?ev ms existing) (\<lambda>go. if \<not> go then returnS ()
                  else bindS (on_spool (if capture then checkpoint_capturing (env_faults env) ?ev ms
                    else complete_capturing (env_faults env) ?ev ms)) (\<lambda>r. finish_store env ?ev True r)) rt))"
              by (rule hoare_snd [OF store_existing_keeps [OF d(2)]]) (use ok d(1) in simp)
            with step Some False show ?thesis by (simp only: option.case if_False)
          qed
        qed
      qed
    qed
  qed
qed

lemma engine_update_keeps: "keeps stored_ok (feed_engine uuid f)"
  by (simp add: keeps_def feed_engine_def stored_ok_def split: prod.splits)

lemma Runtime_ingest_keeps: "keeps stored_ok (Runtime_ingest env uuid f)"
proof -
  have "keeps stored_ok (\<lambda>rt. case snapshot rt of Some w \<Rightarrow> store_window env w True rt | None \<Rightarrow> (Inr (), rt))"
    using keepsD [OF store_window_keeps] by (auto simp: keeps_def split: option.splits)
  then show ?thesis unfolding Runtime_ingest_def
    by (intro keeps_rules engine_update_keeps store_window_keeps) (auto intro!: keeps_rules store_window_keeps split: option.splits)
qed

lemma disconnect_keeps: "keeps stored_ok (disconnect env uuid)"
  unfolding disconnect_def by (intro keeps_rules Runtime_ingest_keeps)

lemma stop_keeps: "keeps stored_ok (stop env)"
proof (rule keepsI)
  fix rt
  assume "stored_ok rt"
  then have "stored_ok (rt\<lparr>rt_engine := e\<rparr>)" for e by (simp add: stored_ok_def)
  then show "stored_ok (snd (stop env rt))"
    using keepsD [OF store_window_keeps] by (auto simp: stop_def split: prod.splits option.splits)
qed

lemma update_vdp_metadata_keeps: "keeps stored_ok (update_vdp_metadata env uuid md)"
proof (rule keepsI)
  fix rt
  assume ok: "stored_ok rt"
  have "keeps stored_ok (\<lambda>rt'. (Inr (), rt'\<lparr>rt_metadata := md\<rparr>))" by (simp add: keeps_def stored_ok_def)
  then have "keeps stored_ok (bindS (feed_engine uuid missing_frame) (\<lambda>result.
      bindS (case completed result of Some w \<Rightarrow> store_window env w False | None \<Rightarrow> returnS ()) (\<lambda>_.
        (\<lambda>rt'. (Inr (), rt'\<lparr>rt_metadata := md\<rparr>)))))"
    by (intro keeps_rules engine_update_keeps) (auto intro!: keeps_rules store_window_keeps split: option.splits)
  from keepsD [OF this ok] ok show "stored_ok (snd (update_vdp_metadata env uuid md rt))"
    by (simp add: update_vdp_metadata_def Let_def)
qed

lemma read_spool_keeps [keeps_rules]: "keeps P (read_spool f)"
  by (simp add: read_spool_def keeps_pure)

lemma next_file_keeps: "keeps stored_ok (next_file env entry capture is)"
proof (induction "is")
  case (Cons i "is")
  then show ?case unfolding next_file.simps
    by (intro keeps_rules keeps_on_spool quarantine_keeps_ok)
qed (unfold next_file.simps, rule keeps_pure)

lemma next_event_keeps: "keeps stored_ok (next_event env es)"
proof (induction es)
  case (Cons e es)
  then show ?case unfolding next_event.simps
    by (intro keeps_rules keeps_on_spool spool_keeps next_file_keeps)
qed (unfold next_event.simps, rule keeps_pure)

lemma next_message_keeps: "keeps stored_ok (next_message env)"
  unfolding next_message_def by (intro keeps_rules keeps_on_spool keeps_inventory next_event_keeps)

lemma accept_keeps: "keeps stored_ok (accept env m response)"
proof -
  have "keeps ok (record_ack env m)" unfolding record_ack_def by (intro keeps_rules spool_keeps)
  then show ?thesis unfolding accept_def in_flight_unchanged_def
    by (intro keeps_rules keeps_on_spool spool_keeps)
qed

lemma Runtime_init_keeps: "keeps stored_ok (Runtime_init env)"
  unfolding Runtime_init_def recover_entry_def by (intro keeps_rules keeps_on_spool spool_keeps)

subsection \<open>Executions\<close>

text \<open>
  One step of the process: a (re)start on the stored files, or one operation. Every step has its own
  environment, so any write of any step may fail; an operation that is cut short by the end of the
  process is one whose remaining writes fail, followed by a restart.
\<close>

datatype RuntimeStep =
    Start MessageMetadata
  | Ingest "string result" SourceFrame
  | Disconnect "string result"
  | StopService
  | UpdateMetadata "string result" MessageMetadata
  | NextMessage
  | Accept PendingMessage HttpResponse

definition restarted :: "MessageMetadata \<Rightarrow> Runtime \<Rightarrow> Runtime" where
  "restarted md rt = \<lparr>rt_metadata = md, rt_engine = WindowEngine_new,
     rt_spool = \<lparr>spool_root = spool_root (rt_spool rt), temporary_counter = 0, dropped_queue_full = 0\<rparr>,
     dropped_event_id = None\<rparr>"

fun perform :: "Environment \<Rightarrow> RuntimeStep \<Rightarrow> Runtime \<Rightarrow> Runtime" where
  "perform env (Start md) rt = snd (Runtime_init env (restarted md rt))"
| "perform env (Ingest uuid f) rt = snd (Runtime_ingest env uuid f rt)"
| "perform env (Disconnect uuid) rt = snd (disconnect env uuid rt)"
| "perform env StopService rt = snd (stop env rt)"
| "perform env (UpdateMetadata uuid md) rt = snd (update_vdp_metadata env uuid md rt)"
| "perform env NextMessage rt = snd (next_message env rt)"
| "perform env (Accept m response) rt = snd (accept env m response rt)"

text \<open>The states after any number of steps from a consistent disk, the empty one in particular.\<close>

inductive reachable :: "Runtime \<Rightarrow> bool" where
  initial: "root_ok (spool_root (rt_spool rt)) \<Longrightarrow> reachable rt"
| step: "reachable rt \<Longrightarrow> reachable (perform env st rt)"

inductive_cases reachableE: "reachable rt"

lemmas runtime_keeps = Runtime_init_keeps Runtime_ingest_keeps disconnect_keeps stop_keeps
  update_vdp_metadata_keeps next_message_keeps accept_keeps

lemma perform_stored_ok: "stored_ok rt \<Longrightarrow> stored_ok (perform env st rt)"
proof (cases st)
  case (Start md)
  moreover assume "stored_ok rt"
  then have "stored_ok (restarted md rt)" by (simp add: stored_ok_def restarted_def)
  ultimately show ?thesis using keepsD [OF Runtime_init_keeps] by simp
qed (use runtime_keeps [THEN keepsD] in auto)

lemma reachable_stored_ok: "reachable rt \<Longrightarrow> stored_ok rt"
  by (induction rule: reachable.induct) (simp_all add: perform_stored_ok, simp add: stored_ok_def)

text \<open>
  C24. Whatever sequence of starts, frames, stop requests, deliveries and acknowledgements the
  process goes through, and whichever of its writes fail or are cut off, an event on disk that is
  marked ready to send or waiting for an acknowledgement has a completion message and every chunk
  together with the digest of exactly the bytes stored.
\<close>

theorem published_events_intact:
  assumes "reachable rt" and "map_of (spool_root (rt_spool rt)) ev = Some d"
    and "dir_state d \<in> {Some ReadyToSend, Some WaitingAck}"
  shows "signed d ''completion.json'' \<and> list_all (\<lambda>(n, b). signed d n) (filter (\<lambda>(n, b). is_chunk_filename n) d)"
proof -
  from reachable_stored_ok [OF assms(1)] assms(2,3) have "signed d ''completion.json''" "chunks_signed d"
    by (auto simp: stored_ok_def root_ok_def dir_ok_def published_def)
  moreover have "map_of d n \<noteq> None" if "(n, b) \<in> set d" for n b
    using that by (simp add: map_of_eq_None_iff) (metis fst_conv image_eqI)
  ultimately show ?thesis by (fastforce simp: list_all_iff chunks_signed_def)
qed

definition ready_dir :: dir where
  "ready_dir = [(''manifest'', ''READY_TO_SEND''), (''completion.json'', ''{}''), (''completion.json.sha256'', sha256_hex ''{}'')]"

definition idle_runtime :: Runtime where
  "idle_runtime = \<lparr>rt_metadata = legacy_metadata, rt_engine = WindowEngine_new,
     rt_spool = \<lparr>spool_root = [(''00000000-0000-4000-8000-000000000000'', ready_dir)], temporary_counter = 0,
       dropped_queue_full = 0\<rparr>, dropped_event_id = None\<rparr>"

lemma idle_runtime_reachable: "reachable (perform env StopService idle_runtime)"
proof (intro reachable.step reachable.initial)
  have "chunks_signed ready_dir"
    by (auto simp: chunks_signed_def ready_dir_def signed_def is_chunk_filename_def split: if_splits)
  then show "root_ok (spool_root (rt_spool idle_runtime))"
    by (auto simp: root_ok_def idle_runtime_def dir_ok_def signed_def ready_dir_def split: if_splits)
qed

lemma idle_runtime_stop: "perform env StopService idle_runtime = idle_runtime"
  by (simp add: stop_def idle_runtime_def abort_service_stop_def finish_def WindowEngine_new_def)

theorem published_events_intact_witness:
  "signed ready_dir ''completion.json'' \<and> list_all (\<lambda>(n, b). signed ready_dir n) (filter (\<lambda>(n, b). is_chunk_filename n) ready_dir)"
proof (rule published_events_intact [OF idle_runtime_reachable])
  show "map_of (spool_root (rt_spool (perform env StopService idle_runtime))) ''00000000-0000-4000-8000-000000000000'' = Some ready_dir" for env
    unfolding idle_runtime_stop by (simp add: idle_runtime_def)
  show "dir_state ready_dir \<in> {Some ReadyToSend, Some WaitingAck}"
    by (simp add: dir_state_def ready_dir_def parse_state_def)
qed

end
