(* ===== verification/Delivery.thy ===== *)
theory Delivery
  imports Runtime
begin

text \<open>
  What the operations of the spool leave alone, and what follows for the delivery of events: the
  queue never holds more than eight events, and a quarantined event is frozen.
\<close>

section \<open>The frame of an operation\<close>

text \<open>
  An operation on the event \<open>ev\<close> changes the directory of \<open>ev\<close> only, or removes it: it keeps every
  property \<open>p\<close> of the root that survives such changes.
\<close>

lemma keeps_event_directory: "keeps P (f ev) \<Longrightarrow> keeps P (bindS (event_directory ev) f)"
  by (auto simp: event_directory_def intro: keeps_pure)

locale root_frame =
  fixes p :: "root \<Rightarrow> bool" and ev :: string
  assumes update_dir: "p r \<Longrightarrow> map_of r ev = Some d \<Longrightarrow> p (AList.update ev d' r)"
    and delete_dir: "p r \<Longrightarrow> p (AList.delete ev r)"
begin

lemma atomic_write: "keeps (on_root p) (atomic_write flt ev name b)"
  by (rule hoare_keeps, rule hoare_atomic_write) (auto intro: update_dir)

lemma rename_file: "keeps (on_root p) (rename_file a ev old new)"
  by (rule hoare_keeps, rule hoare_rename_file) (auto intro: update_dir)

lemma sync_directory: "keeps (on_root p) (sync_directory flt path)"
  by (rule hoare_keeps, rule hoare_sync)

lemma remove_all: "keeps (on_root p) (remove_all ev)"
  by (simp add: keeps_def on_root_def remove_all_def delete_dir)

lemma event_directory_bind: "keeps (on_root p) (f ev) \<Longrightarrow> keeps (on_root p) (bindS (event_directory ev) f)"
  by (rule keeps_event_directory)

lemma write_state: "keeps (on_root p) (write_state flt ev st)"
  unfolding write_state_def by (rule atomic_write)

lemma write_message: "keeps (on_root p) (write_message flt ev n b)"
  unfolding write_message_def by (intro keeps_rules atomic_write)

lemma inspect_event: "keeps (on_root p) (inspect_event e)" "keeps (on_root p) inventory" "keeps (on_root p) (read_dir e)"
  by (simp_all add: inspect_event_def inventory_def read_dir_def keeps_pure)

lemma drop_window: "keeps (on_root p) drop_window"
  by (simp add: keeps_def drop_window_def on_root_def)

lemma case_pair: "(\<And>x y. keeps P (g x y)) \<Longrightarrow> keeps P (case z of (x, y) \<Rightarrow> g x y)"
  by (cases z) simp

lemmas basic = event_directory_bind case_pair keeps_rules atomic_write rename_file sync_directory remove_all
  write_state write_message inspect_event drop_window

lemma checkpoint_capturing: "keeps (on_root p) (checkpoint_capturing flt ev ms)"
  unfolding checkpoint_capturing_def checkpoint_chunk_def by (rule basic)+

lemma complete_capturing: "keeps (on_root p) (complete_capturing flt ev ms)"
  unfolding complete_capturing_def by (rule basic checkpoint_capturing)+

lemma quarantine: "keeps (on_root p) (quarantine flt ev)"
  unfolding quarantine_def by (rule basic)+

lemma recover_event: "keeps (on_root p) (recover_event flt ev)"
  unfolding recover_event_def by (rule basic)+

lemma mark_waiting_ack: "keeps (on_root p) (mark_waiting_ack flt ev)"
  unfolding mark_waiting_ack_def by (rule basic)+

lemma acknowledge: "keeps (on_root p) (acknowledge_chunk flt ev i)" "keeps (on_root p) (acknowledge_completion flt ev)"
  unfolding acknowledge_chunk_def acknowledge_completion_def by (rule basic)+

lemma delete_if_fully_acknowledged: "keeps (on_root p) (delete_if_fully_acknowledged flt ev)"
  unfolding delete_if_fully_acknowledged_def by (rule basic)+

lemmas operations = checkpoint_capturing complete_capturing quarantine recover_event mark_waiting_ack
  acknowledge delete_if_fully_acknowledged inspect_event(2)

end

section \<open>The queue is bounded\<close>

definition queue_bounded :: "root \<Rightarrow> bool" where
  "queue_bounded r \<longleftrightarrow> distinct (map fst r) \<and> list_all (\<lambda>(ev, d). uuid4 ev) r \<and> length r \<le> 8"

lemma queue_bounded_update: "queue_bounded r \<Longrightarrow> map_of r ev = Some d \<Longrightarrow> queue_bounded (AList.update ev d' r)"
proof -
  have "length (AList.update ev d' r) = length r" if "map_of r ev = Some d"
    using that by (induction r) auto
  moreover have "list_all (\<lambda>(e, d). uuid4 e) (AList.update ev d' r)"
    if "list_all (\<lambda>(e, d). uuid4 e) r" "map_of r ev = Some d"
    using that by (induction r) (auto split: if_splits)
  ultimately show "queue_bounded r \<Longrightarrow> map_of r ev = Some d \<Longrightarrow> queue_bounded (AList.update ev d' r)"
    by (simp add: queue_bounded_def distinct_update)
qed

lemma queue_bounded_delete: "queue_bounded r \<Longrightarrow> queue_bounded (AList.delete ev r)"
  by (auto simp: queue_bounded_def list_all_iff AList.delete_eq distinct_map_filter le_trans [OF length_filter_le])

interpretation queue: root_frame queue_bounded ev for ev
  by unfold_locales (auto intro: queue_bounded_update queue_bounded_delete)

lemma inventory_length:
  assumes "inventory_of r = Inr es" and "list_all (\<lambda>(ev, d). uuid4 ev) r"
  shows "length es = length r"
proof -
  have "filter (\<lambda>(ev, d). uuid4 ev) r = r" using assms(2) by (simp add: list_all_iff filter_id_conv)
  with assms(1) show ?thesis by (auto simp: inventory_of_def bindE_eq_Inr dest!: mapE_length)
qed

lemma queue_bounded_new:
  assumes "queue_bounded r" and "map_of r ev = None" and "uuid4 ev" and "length r < 8"
  shows "queue_bounded (AList.update ev d r)"
proof -
  have "AList.update ev d r = r @ [(ev, d)]" using assms(2) by (induction r) (auto split: if_splits)
  moreover have "ev \<notin> fst ` set r" using assms(2) by (simp add: map_of_eq_None_iff)
  ultimately show ?thesis using assms by (simp add: queue_bounded_def)
qed

lemma queue_store: "keeps (on_root queue_bounded) (store flt ev ms capture)"
proof (rule hoare_keeps)
  let ?p = "on_root queue_bounded"
  have create: "hoare (\<lambda>s. ?p s \<and> uuid4 ev \<and> length (spool_root s) < 8) (create_directory ev) (\<lambda>_. ?p) ?p"
    by (auto simp: hoare_def create_directory_def on_root_def set_dir_def intro: queue_bounded_new)
  have rest: "keeps ?p (bindS (sync_directory flt []) (\<lambda>_.
      bindS (write_state flt ev Capturing) (\<lambda>_.
      bindS (eachS (\<lambda>c. bindS (checkS (\<not> is_chunk_filename (filename c)) (Invalid_argument ''chunk filename is outside the closed layout'')) (\<lambda>_.
               write_message flt ev (filename c) (canonical_json c))) (chunks ms)) (\<lambda>_.
      bindS (write_message flt ev c (canonical_json (completion ms))) (\<lambda>_.
      bindS (if capture then returnS () else write_state flt ev ReadyToSend) (\<lambda>_. returnS Stored))))))" for c
    by (intro keeps_rules queue.sync_directory queue.write_state queue.write_message)
  have drop: "hoare ?p drop_window (\<lambda>_. ?p) ?p" using queue.drop_window by (simp add: keeps_iff_hoare)
  show "hoare ?p (store flt ev ms capture) (\<lambda>_. ?p) ?p"
    unfolding store_def
    by (intro hoare_event_directory hoare_bind_readS hoare_bind_checkS hoare_bind_liftS hoare_inventory hoare_if
        hoare_pre [OF drop] hoare_pre [OF hoare_bindS [OF create rest [unfolded keeps_iff_hoare]]])
      (auto simp: on_root_def maximum_windows_def queue_bounded_def dest: inventory_length)
qed

section \<open>Invariants of the runtime\<close>

text \<open>
  A property of the stored files that every spool operation keeps, except that acknowledgement marks
  are only written to events that are not quarantined, is kept by every step of the process.
\<close>

definition stored :: "(root \<Rightarrow> bool) \<Rightarrow> Runtime \<Rightarrow> bool" where
  "stored p rt \<longleftrightarrow> p (spool_root (rt_spool rt))"

locale spool_invariant =
  fixes p :: "root \<Rightarrow> bool"
  assumes store: "keeps (on_root p) (store flt ev ms capture)"
    and checkpoint: "keeps (on_root p) (checkpoint_capturing flt ev ms)"
    and complete: "keeps (on_root p) (complete_capturing flt ev ms)"
    and quarantine: "keeps (on_root p) (quarantine flt ev)"
    and recover_event: "keeps (on_root p) (recover_event flt ev)"
    and mark_waiting: "keeps (on_root p) (mark_waiting_ack flt ev)"
    and delete: "keeps (on_root p) (delete_if_fully_acknowledged flt ev)"
    and ack: "p r \<Longrightarrow> map_of r ev = Some d \<Longrightarrow> dir_state d \<noteq> Some Quarantined \<Longrightarrow>
      p (AList.update ev (AList.update (n @ ''.ack'') b d) r)"
    and unique: "p r \<Longrightarrow> distinct (map fst r)"
begin

lemma on_spool: "keeps (on_root p) m \<Longrightarrow> keeps (stored p) (on_spool m)"
  using keepsD by (fastforce simp: keeps_def stored_def on_spool_def on_root_def split: prod.splits)

lemma inventory: "keeps (on_root p) inventory"
  by (simp add: inventory_def keeps_pure)

lemma recover: "keeps (on_root p) (recover flt)"
  unfolding recover_def by (intro keeps_rules recover_event inventory)

lemmas spool_ops = store checkpoint complete quarantine mark_waiting delete inventory recover

lemma finish_store: "keeps (stored p) (finish_store env ev existed r)"
proof -
  have "keeps (stored p) (\<lambda>rt. (Inr (), rt\<lparr>dropped_event_id := x\<rparr>))" for x by (simp add: keeps_def stored_def)
  then show ?thesis unfolding finish_store_def by (intro keeps_rules on_spool spool_ops)
qed

lemma may_rewrite: "keeps (stored p) (may_rewrite env ev ms existing)"
  unfolding may_rewrite_def by (intro keeps_rules on_spool spool_ops)

lemma store_window: "keeps (stored p) (store_window env w capture)"
proof (rule keepsI)
  fix rt
  assume h: "stored p rt"
  have "keeps (stored p) (bindS (liftS (build_growing_messages (env_to_chars env) (rt_metadata rt) w)) (\<lambda>ms.
      bindS (on_spool inventory) (\<lambda>entries.
        case find_entry (event_id w) entries of
          Some existing \<Rightarrow>
            if entry_state existing = Quarantined then returnS ()
            else
              bindS (may_rewrite env (event_id w) ms existing) (\<lambda>go.
                if \<not> go then returnS ()
                else
                  bindS (on_spool (if capture then checkpoint_capturing (env_faults env) (event_id w) ms
                                   else complete_capturing (env_faults env) (event_id w) ms)) (\<lambda>r.
                    finish_store env (event_id w) True r))
        | None \<Rightarrow>
            bindS (on_spool (if capture then store_capturing_for_recovery (env_faults env) (event_id w) ms
                             else store_completed (env_faults env) (event_id w) ms)) (\<lambda>r.
              finish_store env (event_id w) False r))))"
    unfolding store_capturing_for_recovery_def store_completed_def
    by (intro keeps_rules on_spool spool_ops may_rewrite finish_store)
  from keepsD [OF this h] h show "stored p (snd (store_window env w capture rt))"
    by (simp add: store_window_def)
qed

lemma feed_engine: "keeps (stored p) (feed_engine uuid f)"
  by (simp add: keeps_def feed_engine_def stored_def split: prod.splits)

lemma Runtime_ingest: "keeps (stored p) (Runtime_ingest env uuid f)"
proof -
  have "keeps (stored p) (\<lambda>rt. case snapshot rt of Some w \<Rightarrow> store_window env w True rt | None \<Rightarrow> (Inr (), rt))"
    using keepsD [OF store_window] by (auto simp: keeps_def split: option.splits)
  then show ?thesis unfolding Runtime_ingest_def by (intro keeps_rules feed_engine store_window)
qed

lemma stop: "keeps (stored p) (stop env)"
proof (rule keepsI)
  fix rt
  assume "stored p rt"
  then have "stored p (rt\<lparr>rt_engine := e\<rparr>)" for e by (simp add: stored_def)
  then show "stored p (snd (stop env rt))"
    using keepsD [OF store_window] by (auto simp: stop_def split: prod.splits option.splits)
qed

lemma update_vdp_metadata: "keeps (stored p) (update_vdp_metadata env uuid md)"
proof (rule keepsI)
  fix rt
  assume h: "stored p rt"
  have "keeps (stored p) (\<lambda>rt'. (Inr (), rt'\<lparr>rt_metadata := md\<rparr>))" by (simp add: keeps_def stored_def)
  then have "keeps (stored p) (bindS (feed_engine uuid missing_frame) (\<lambda>result.
      bindS (case completed result of Some w \<Rightarrow> store_window env w False | None \<Rightarrow> returnS ()) (\<lambda>_.
        (\<lambda>rt'. (Inr (), rt'\<lparr>rt_metadata := md\<rparr>)))))"
    by (intro keeps_rules feed_engine store_window)
  from keepsD [OF this h] h show "stored p (snd (update_vdp_metadata env uuid md rt))"
    by (simp add: update_vdp_metadata_def Let_def)
qed

lemma next_file: "keeps (stored p) (next_file env entry capture is)"
proof (induction "is")
  case (Cons i "is")
  then show ?case unfolding next_file.simps by (intro keeps_rules on_spool spool_ops)
qed (unfold next_file.simps, rule keeps_pure)

lemma next_event: "keeps (stored p) (next_event env es)"
proof (induction es)
  case (Cons e es)
  then show ?case unfolding next_event.simps by (intro keeps_rules on_spool spool_ops next_file)
qed (unfold next_event.simps, rule keeps_pure)

lemma next_message: "keeps (stored p) (next_message env)"
  unfolding next_message_def by (intro keeps_rules on_spool inventory next_event)

lemma Runtime_init: "keeps (stored p) (Runtime_init env)"
  unfolding Runtime_init_def recover_entry_def by (intro keeps_rules on_spool spool_ops)

lemma record_ack:
  assumes "dir_state d \<noteq> Some Quarantined"
  shows "hoare (\<lambda>rt. stored p rt \<and> map_of (spool_root (rt_spool rt)) (pm_event_id m) = Some d)
    (on_spool (record_ack env m)) (\<lambda>_. stored p) (stored p)"
proof -
  let ?pre = "\<lambda>r. p r \<and> map_of r (pm_event_id m) = Some d"
  have aw: "hoare (on_root ?pre) (atomic_write flt (pm_event_id m) (n @ ''.ack'') b) (\<lambda>_. on_root p) (on_root p)" for flt n b
    by (rule hoare_atomic_write) (use ack assms in auto)
  have awc: "hoare (on_root ?pre) (atomic_write flt (pm_event_id m) ''completion.json.ack'' b) (\<lambda>_. on_root p) (on_root p)" for flt b
    using aw [of flt "''completion.json''"] by simp
  have "hoare (on_root ?pre) (record_ack env m) (\<lambda>_. on_root p) (on_root p)"
    unfolding record_ack_def acknowledge_chunk_def acknowledge_completion_def
    by (cases "pm_chunk_index m")
      (auto intro!: hoare_event_directory hoare_bind_checkS hoare_bind_readS hoare_pre [OF aw] hoare_pre [OF awc]
        simp: on_root_def)
  then show ?thesis
    by (auto simp: hoare_def on_spool_def on_root_def stored_def split: prod.splits sum.splits)
qed

lemma in_flight_unchanged:
  "hoare (\<lambda>rt. stored p rt \<and> map_of (spool_root (rt_spool rt)) ev = Some d) (in_flight_unchanged env m)
     (\<lambda>same rt. stored p rt \<and> (same \<longrightarrow> map_of (spool_root (rt_spool rt)) ev = Some d)) (stored p)"
  unfolding in_flight_unchanged_def
proof (rule hoare_catchS [where F = "stored p"])
  show "hoare (\<lambda>rt. stored p rt \<and> map_of (spool_root (rt_spool rt)) ev = Some d)
    (bindS (liftS (message_filename (pm_chunk_index m))) (\<lambda>name.
      bindS (read_spool (\<lambda>s. durable_message s (pm_event_id m) name)) (\<lambda>bytes.
        if bytes \<noteq> pm_bytes m then throwS (Runtime_error ''IN_FLIGHT_MESSAGE_CHANGED'') else returnS True)))
    (\<lambda>same rt. stored p rt \<and> (same \<longrightarrow> map_of (spool_root (rt_spool rt)) ev = Some d)) (stored p)"
    unfolding read_spool_def
    by (intro hoare_bind_liftS hoare_bind_readS hoare_if hoare_returnS hoare_throwS) auto
  have "hoare (stored p) (on_spool (quarantine (env_faults env) (pm_event_id m))) (\<lambda>_. stored p) (stored p)"
    using on_spool [OF quarantine] by (simp add: keeps_iff_hoare)
  then show "hoare (stored p) (bindS (on_spool (quarantine (env_faults env) (pm_event_id m))) (\<lambda>_. returnS False))
    (\<lambda>same rt. stored p rt \<and> (same \<longrightarrow> map_of (spool_root (rt_spool rt)) ev = Some d)) (stored p)"
    by (elim hoare_bindS) (simp add: hoare_def)
qed

lemma accept: "keeps (stored p) (accept env m response)"
proof (rule keepsI)
  fix rt
  assume h: "stored p rt"
  let ?ev = "pm_event_id m"
  show "stored p (snd (accept env m response rt))"
  proof (cases "inventory_of (spool_root (rt_spool rt))")
    case (Inl e)
    with h show ?thesis by (simp add: accept_def bind_inventory)
  next
    case (Inr es)
    note inv = this
    show ?thesis
    proof (cases "find_entry ?ev es")
      case None
      with h inv show ?thesis by (simp add: accept_def bind_inventory)
    next
      case (Some entry)
      show ?thesis
      proof (cases "entry_state entry = Quarantined")
        case True
        with h inv Some show ?thesis by (simp add: accept_def bind_inventory)
      next
        case False
        from h have "distinct (map fst (spool_root (rt_spool rt)))" by (simp add: stored_def unique)
        from inventory_entry [OF inv Some this] obtain d where
          d: "map_of (spool_root (rt_spool rt)) ?ev = Some d" "inspect_dir ?ev d = Inr entry" by blast
        with False have nq: "dir_state d \<noteq> Some Quarantined" by (auto dest: inspect_dir_state)
        let ?rest = "\<lambda>same. if \<not> same then returnS False
               else if \<not> matches_ack (env_from_chars env) (pm_bytes m) response then
                 bindS (if status response \<noteq> 0 \<and> \<not> retryable_http (status response)
                        then on_spool (quarantine (env_faults env) ?ev) else returnS ()) (\<lambda>_. returnS False)
               else
                 bindS (on_spool (record_ack env m)) (\<lambda>_.
                 bindS (on_spool (delete_if_fully_acknowledged (env_faults env) ?ev)) (\<lambda>_. returnS True))"
        have q: "hoare (stored p) (bindS (if b then on_spool (quarantine (env_faults env) ?ev) else returnS ()) (\<lambda>_. returnS False))
            (\<lambda>_. stored p) (stored p)" for b
          unfolding keeps_iff_hoare [symmetric] by (intro keeps_rules on_spool quarantine)
        have del: "hoare (stored p) (bindS (on_spool (delete_if_fully_acknowledged (env_faults env) ?ev)) (\<lambda>_. returnS True))
            (\<lambda>_. stored p) (stored p)"
          unfolding keeps_iff_hoare [symmetric] by (intro keeps_rules on_spool delete)
        have body: "hoare (\<lambda>rt. stored p rt \<and> map_of (spool_root (rt_spool rt)) ?ev = Some d)
            (bindS (in_flight_unchanged env m) ?rest) (\<lambda>_. stored p) (stored p)"
          by (rule hoare_bindS [OF in_flight_unchanged], intro hoare_if hoare_returnS hoare_pre [OF q]
              hoare_pre [OF hoare_bindS [OF record_ack [OF nq] del]]) auto
        have "stored p (snd (bindS (in_flight_unchanged env m) ?rest rt))"
          by (rule hoare_snd [OF body]) (use h d(1) in simp)
        with inv Some False show ?thesis
          by (simp only: accept_def bind_inventory option.case if_False)
      qed
    qed
  qed
qed

lemma perform: "stored p rt \<Longrightarrow> stored p (perform env st rt)"
proof (cases st)
  case (Start md)
  moreover assume "stored p rt"
  then have "stored p (restarted md rt)" by (simp add: stored_def restarted_def)
  ultimately show ?thesis using keepsD [OF Runtime_init] by simp
next
  case (Disconnect uuid)
  moreover have "keeps (stored p) (disconnect env uuid)" unfolding disconnect_def by (intro keeps_rules Runtime_ingest)
  ultimately show "stored p rt \<Longrightarrow> ?thesis" using keepsD by auto
qed (use Runtime_ingest stop update_vdp_metadata next_message accept in \<open>auto intro: keepsD\<close>)

end

interpretation bounded: spool_invariant queue_bounded
proof unfold_locales
  fix r ev d n b
  assume "queue_bounded r" "map_of r ev = Some d"
  then show "queue_bounded (AList.update ev (AList.update (n @ ''.ack'') b d) r)" by (rule queue_bounded_update)
next
  fix r
  assume "queue_bounded r"
  then show "distinct (map fst r)" by (simp add: queue_bounded_def)
qed (rule queue_store queue.operations)+

section \<open>Quarantine\<close>

definition frozen :: "string \<Rightarrow> (string \<Rightarrow> string option) \<Rightarrow> root \<Rightarrow> bool" where
  "frozen e0 f r \<longleftrightarrow> distinct (map fst r) \<and> f ''manifest'' = Some ''QUARANTINED'' \<and>
     (\<exists>d. map_of r e0 = Some d \<and> map_of d = f)"

lemma frozen_state: "frozen e0 f r \<Longrightarrow> map_of r e0 = Some d \<Longrightarrow> dir_state d = Some Quarantined"
  by (auto simp: frozen_def dir_state_def parse_state_def)

lemma frozen_update_other: "ev \<noteq> e0 \<Longrightarrow> frozen e0 f r \<Longrightarrow> frozen e0 f (AList.update ev d r)"
  by (simp add: frozen_def map_of_update distinct_update del: map_of_eq_Some_iff)

text \<open>Operations on another event.\<close>

interpretation other: root_frame "\<lambda>r. ev = e0 \<or> frozen e0 f r" ev for e0 f ev
  by unfold_locales (auto simp: frozen_def map_of_update distinct_update distinct_delete delete_conv')

text \<open>Operations on the quarantined event itself.\<close>

lemma hoare_impossible: "(\<And>s. \<not> P s) \<Longrightarrow> hoare P m Q E"
  by (simp add: hoare_def)

lemma frozen_write_state: "hoare (on_root (frozen e0 f)) (write_state flt e0 Quarantined) (\<lambda>_. on_root (frozen e0 f)) (on_root (frozen e0 f))"
  unfolding write_state_def
proof (rule hoare_atomic_write)
  fix r d
  assume r: "frozen e0 f r" "map_of r e0 = Some d"
  then have "map_of (AList.update ''manifest'' (spool_state_name Quarantined) d) = f"
    by (auto simp: frozen_def fun_eq_iff map_of_update spool_state_name_def)
  with r show "frozen e0 f (AList.update e0 (AList.update ''manifest'' (spool_state_name Quarantined) d) r) \<and>
      frozen e0 f (AList.update e0 (AList.update ''manifest'' (spool_state_name Quarantined) d) r)"
    by (simp add: frozen_def map_of_update distinct_update)
qed

lemma frozen_entry:
  assumes "on_root (\<lambda>r. frozen e0 f r \<and> (\<exists>d. map_of r e0 = Some d \<and> inspect_dir e0 d = Inr entry)) s"
  shows "entry_state entry = Quarantined"
  using assms by (auto simp: on_root_def dest!: inspect_dir_state dest: frozen_state)

lemma frozen_own:
  "keeps (on_root (frozen e0 f)) (store flt e0 ms capture)"
  "hoare (on_root (frozen e0 f)) (checkpoint_capturing flt e0 ms) (\<lambda>_ _. False) (on_root (frozen e0 f))"
  "keeps (on_root (frozen e0 f)) (quarantine flt e0)"
  "keeps (on_root (frozen e0 f)) (recover_event flt e0)"
  "keeps (on_root (frozen e0 f)) (mark_waiting_ack flt e0)"
  "keeps (on_root (frozen e0 f)) (delete_if_fully_acknowledged flt e0)"
proof -
  let ?p = "on_root (frozen e0 f)"
  note entry = frozen_entry [of e0 f]
  show "keeps ?p (store flt e0 ms capture)" unfolding store_def
    by (intro hoare_keeps hoare_event_directory hoare_bind_readS hoare_impossible)
      (auto simp: on_root_def frozen_def)
  show "hoare ?p (checkpoint_capturing flt e0 ms) (\<lambda>_ _. False) ?p" unfolding checkpoint_capturing_def
    by (intro hoare_event_directory hoare_inspect_event hoare_bind_checkS hoare_impossible)
      (auto simp: on_root_def dest!: inspect_dir_state dest: frozen_state)
  show "keeps ?p (quarantine flt e0)" unfolding quarantine_def
    by (intro hoare_keeps hoare_event_directory hoare_inspect_event hoare_pre [OF frozen_write_state])
      (auto simp: on_root_def)
  show "keeps ?p (mark_waiting_ack flt e0)" unfolding mark_waiting_ack_def
    by (intro hoare_keeps hoare_event_directory hoare_inspect_event hoare_bind_checkS hoare_impossible)
      (auto simp: on_root_def dest!: inspect_dir_state dest: frozen_state)
  show "keeps ?p (delete_if_fully_acknowledged flt e0)" unfolding delete_if_fully_acknowledged_def
    by (intro hoare_keeps hoare_event_directory hoare_inspect_event hoare_if hoare_returnS hoare_impossible)
      (auto simp: on_root_def dest!: inspect_dir_state dest: frozen_state)
  have body: "hoare (on_root (\<lambda>r. (frozen e0 f r \<and> (\<exists>d. map_of r e0 = Some d \<and> inspect_dir e0 d = Inr entry)) \<and> map_of r e0 = Some d))
      (if entry_state entry = Capturing then m1 else if entry_state entry \<noteq> Quarantined \<and> b then m2 else returnS ())
      (\<lambda>_. ?p) ?p" for m1 m2 b entry d
  proof (cases "entry_state entry = Quarantined")
    case True
    then show ?thesis by (simp add: hoare_def on_root_def)
  next
    case False
    then show ?thesis
      by (intro hoare_impossible) (auto simp: on_root_def dest!: inspect_dir_state dest: frozen_state)
  qed
  show "keeps ?p (recover_event flt e0)" unfolding recover_event_def
    by (intro hoare_keeps hoare_catchS [where F = ?p] frozen_write_state hoare_inspect_event hoare_read_dir body) auto
qed

lemma keeps_other:
  assumes "keeps (on_root (\<lambda>r. ev = e0 \<or> frozen e0 f r)) m" and "ev \<noteq> e0"
  shows "keeps (on_root (frozen e0 f)) m"
  using assms by simp

lemma store_other:
  assumes "ev \<noteq> e0"
  shows "keeps (on_root (frozen e0 f)) (store flt ev ms capture)"
proof -
  have "keeps (on_root (frozen e0 f)) (create_directory ev)"
    using assms by (auto simp: keeps_def create_directory_def on_root_def set_dir_def intro: frozen_update_other)
  moreover have "keeps (on_root (frozen e0 f)) (write_state flt ev st)" "keeps (on_root (frozen e0 f)) (write_message flt ev n b)"
    "keeps (on_root (frozen e0 f)) (sync_directory flt path)" for st n b path
    by (rule keeps_other [OF _ assms], rule other.write_state other.write_message other.sync_directory)+
  moreover have "keeps (on_root (frozen e0 f)) drop_window" "keeps (on_root (frozen e0 f)) inventory"
    by (simp_all add: keeps_def drop_window_def on_root_def inventory_def)
  ultimately show ?thesis unfolding store_def
    by (intro keeps_event_directory) (intro keeps_rules; assumption?)
qed

interpretation quarantined: spool_invariant "frozen e0 f" for e0 f
proof unfold_locales
  fix flt ev ms capture
  show "keeps (on_root (frozen e0 f)) (store flt ev ms capture)"
    by (cases "ev = e0") (auto intro: frozen_own(1) store_other)
  show "keeps (on_root (frozen e0 f)) (checkpoint_capturing flt ev ms)"
  proof (cases "ev = e0")
    case True
    with frozen_own(2) [of e0 f flt ms] show ?thesis by (auto intro!: hoare_keeps elim: hoare_weaken)
  next
    case False
    with other.checkpoint_capturing show ?thesis by (rule keeps_other)
  qed
  show "keeps (on_root (frozen e0 f)) (complete_capturing flt ev ms)"
  proof (cases "ev = e0")
    case True
    then show ?thesis unfolding complete_capturing_def
      by (intro hoare_keeps hoare_bindS [OF frozen_own(2) [THEN hoare_weaken]] hoare_impossible) auto
  next
    case False
    with other.complete_capturing show ?thesis by (rule keeps_other)
  qed
  show "keeps (on_root (frozen e0 f)) (quarantine flt ev)"
    by (cases "ev = e0") (auto intro: frozen_own(3) keeps_other [OF other.quarantine])
  show "keeps (on_root (frozen e0 f)) (recover_event flt ev)"
    by (cases "ev = e0") (auto intro: frozen_own(4) keeps_other [OF other.recover_event])
  show "keeps (on_root (frozen e0 f)) (mark_waiting_ack flt ev)"
    by (cases "ev = e0") (auto intro: frozen_own(5) keeps_other [OF other.mark_waiting_ack])
  show "keeps (on_root (frozen e0 f)) (delete_if_fully_acknowledged flt ev)"
    by (cases "ev = e0") (auto intro: frozen_own(6) keeps_other [OF other.delete_if_fully_acknowledged])
next
  fix r ev d n b
  assume "frozen e0 f r" "map_of r ev = Some d" "dir_state d \<noteq> Some Quarantined"
  then show "frozen e0 f (AList.update ev (AList.update (n @ ''.ack'') b d) r)"
    by (cases "ev = e0") (auto intro: frozen_update_other dest: frozen_state)
next
  fix r
  assume "frozen e0 f r"
  then show "distinct (map fst r)" by (simp add: frozen_def)
qed

section \<open>Properties\<close>

fun run_steps :: "(Environment \<times> RuntimeStep) list \<Rightarrow> Runtime \<Rightarrow> Runtime" where
  "run_steps [] rt = rt"
| "run_steps ((env, st) # rest) rt = run_steps rest (perform env st rt)"

text \<open>
  C25. A quarantined event is frozen: no sequence of restarts, frames, deliveries and acknowledgements,
  with any failures, changes, adds or removes a file of its directory, and the event is never
  deleted.
\<close>

theorem quarantine_freezes:
  assumes "distinct (map fst (spool_root (rt_spool rt)))"
    and "map_of (spool_root (rt_spool rt)) ev = Some d" and "map_of d ''manifest'' = Some ''QUARANTINED''"
  shows "\<exists>d'. map_of (spool_root (rt_spool (run_steps steps rt))) ev = Some d' \<and> map_of d' = map_of d"
proof -
  have "stored (frozen ev (map_of d)) (run_steps steps rt)"
    if "stored (frozen ev (map_of d)) rt" for rt
    using that by (induction steps rt rule: run_steps.induct) (simp_all add: quarantined.perform)
  moreover from assms have "stored (frozen ev (map_of d)) rt"
    by (simp add: stored_def frozen_def del: map_of_eq_Some_iff)
  ultimately have "stored (frozen ev (map_of d)) (run_steps steps rt)" by blast
  then show ?thesis by (simp add: stored_def frozen_def del: map_of_eq_Some_iff)
qed

definition quiet_environment :: Environment where
  "quiet_environment = \<lparr>env_faults = (\<lambda>_ _ _. False), env_to_chars = (\<lambda>_. Some ''1''), env_from_chars = (\<lambda>_. Some (Fin 1))\<rparr>"

definition quarantined_runtime :: Runtime where
  "quarantined_runtime = idle_runtime\<lparr>rt_spool := \<lparr>spool_root =
     [(''00000000-0000-4000-8000-000000000000'', [(''manifest'', ''QUARANTINED''), (''chunk-000.json'', ''{}'')])],
     temporary_counter = 0, dropped_queue_full = 0\<rparr>\<rparr>"

theorem quarantine_freezes_witness:
  "\<exists>d'. map_of (spool_root (rt_spool (run_steps [(quiet_environment, NextMessage), (quiet_environment, Start legacy_metadata)] quarantined_runtime)))
       ''00000000-0000-4000-8000-000000000000'' = Some d' \<and>
     map_of d' = map_of [(''manifest'', ''QUARANTINED''), (''chunk-000.json'', ''{}'')]"
  by (rule quarantine_freezes) (simp_all add: quarantined_runtime_def)

text \<open>
  C26. The queue never grows beyond eight events, whatever the steps and their failures: from a disk
  with at most eight event directories every execution stays there, all named by UUIDs.
\<close>

theorem queue_never_exceeds_eight:
  assumes "queue_bounded (spool_root (rt_spool rt))"
  shows "length (spool_root (rt_spool (run_steps steps rt))) \<le> 8 \<and>
    list_all (\<lambda>(ev, d). uuid4 ev) (spool_root (rt_spool (run_steps steps rt)))"
proof -
  have "stored queue_bounded (run_steps steps rt)" if "stored queue_bounded rt" for rt
    using that by (induction steps rt rule: run_steps.induct) (simp_all add: bounded.perform)
  with assms show ?thesis by (simp add: stored_def queue_bounded_def [of "spool_root (rt_spool (run_steps _ _))"])
qed

theorem queue_never_exceeds_eight_witness:
  "length (spool_root (rt_spool (run_steps [(quiet_environment, StopService)] idle_runtime))) \<le> 8 \<and>
    list_all (\<lambda>(ev, d). uuid4 ev) (spool_root (rt_spool (run_steps [(quiet_environment, StopService)] idle_runtime)))"
proof (rule queue_never_exceeds_eight)
  have "uuid4 ''00000000-0000-4000-8000-000000000000''" by code_simp
  then show "queue_bounded (spool_root (rt_spool idle_runtime))" by (simp add: queue_bounded_def idle_runtime_def)
qed

end
