(* ===== verification/Inputs.thy ===== *)
theory Inputs
  imports Runtime
begin

text \<open>
  The inputs of the service (\<^verbatim>\<open>src/runtime/application.cpp\<close>, the credential exchange of \<^verbatim>\<open>src/runtime/runtime.cpp\<close>
  and the small rules of \<^verbatim>\<open>session_reconnect.hpp\<close> and \<^verbatim>\<open>readiness_publication.hpp\<close>): command line, metadata and
  native identity, tokens and leases. What a file holds is an argument.
\<close>

section \<open>Objects\<close>

text \<open>\<open>std::map\<close>: \<open>operator[]\<close> with an assignment, and \<open>erase\<close>; the keys stay in order.\<close>

fun map_set :: "string \<Rightarrow> 'a \<Rightarrow> (string \<times> 'a) list \<Rightarrow> (string \<times> 'a) list" where
  "map_set k v [] = [(k, v)]"
| "map_set k v ((k', v') # kvs) =
     (if k = k' then (k, v) # kvs else if k < k' then (k, v) # (k', v') # kvs else (k', v') # map_set k v kvs)"

definition map_erase :: "string \<Rightarrow> (string \<times> 'a) list \<Rightarrow> (string \<times> 'a) list" where
  "map_erase k kvs = filter (\<lambda>(k', v). k' \<noteq> k) kvs"

text \<open>\<open>Json::Object{{...}}\<close>.\<close>

definition json_fields :: "(string \<times> Json) list \<Rightarrow> Json" where
  "json_fields kvs = JObject (foldl (\<lambda>m (k, v). map_set k v m) [] kvs)"

definition bool_at :: "string \<Rightarrow> Json \<Rightarrow> bool result" where
  "bool_at key j = bindE (json_at key j) json_boolean"

definition object_size :: "Json \<Rightarrow> nat result" where
  "object_size j = bindE (json_object j) (\<lambda>kvs. Inr (length kvs))"

section \<open>Credentials\<close>

record Credential =
  cred_token :: string
  cred_expires :: int
  cred_renew_after :: int
  cred_code :: string
  cred_retryable :: bool

text \<open>Three parts of a JSON web token, as both readers of a token check it.\<close>

definition token_syntax :: "string \<Rightarrow> bool" where
  "token_syntax t \<longleftrightarrow> t \<noteq> [] \<and> hd t \<noteq> CHR ''.'' \<and> last t \<noteq> CHR ''.'' \<and>
     \<not> (\<exists>i \<in> set [0..<length t]. take 2 (drop i t) = ''..'') \<and> length (filter (\<lambda>c. c = CHR ''.'') t) = 2 \<and>
     list_all (\<lambda>c. is_lower c \<or> is_upper c \<or> is_dec c \<or> c = CHR ''.'' \<or> c = CHR ''_'' \<or> c = CHR ''-'') t"

definition credential_request :: "string \<Rightarrow> string result" where
  "credential_request secret =
     (if secret = [] then Inl (Invalid_argument ''AOS_SECRET_UNAVAILABLE'')
      else bindE (quote_json secret) (\<lambda>q.
        (let request = ''{\"protocol\":\"aos-kuksa-auth-compat/v1\",\"operation\":\"issue\",\"aosSecret\":'' @ q @ ''}'' @ [byte 10]
         in if length request > 16384 then Inl (Invalid_argument ''AOS_SECRET_INVALID'') else Inr request)))"

definition kac_invalid :: exn where
  "kac_invalid = Invalid_argument ''KAC_RESPONSE_INVALID''"

definition kac_retryable :: "string list" where
  "kac_retryable = [''IAM_UNAVAILABLE'', ''SIGNER_UNAVAILABLE'', ''TIME_UNTRUSTED'', ''BUSY'']"

definition kac_terminal :: "string list" where
  "kac_terminal = [''INVALID_REQUEST'', ''DENIED'', ''POLICY_UNSUPPORTED'', ''INTERNAL_ERROR'']"

definition parse_rejection :: "Json \<Rightarrow> Credential result" where
  "parse_rejection json =
     bindE (object_size json) (\<lambda>n.
     bindE (throwIf (n \<noteq> 5) kac_invalid) (\<lambda>_.
     bindE (str_at ''code'' json) (\<lambda>c.
     bindE (bool_at ''retryable'' json) (\<lambda>r.
       (let retry = (c \<in> set kac_retryable)
        in if r \<noteq> retry \<or> (\<not> retry \<and> c \<notin> set kac_terminal) then Inl kac_invalid
           else Inr \<lparr>cred_token = [], cred_expires = 0, cred_renew_after = 0, cred_code = c, cred_retryable = r\<rparr>)))))"

definition parse_issue :: "Json \<Rightarrow> int \<Rightarrow> Credential result" where
  "parse_issue json now =
     bindE (str_at ''token'' json) (\<lambda>t.
     bindE (int_at ''expiresAtUnixSeconds'' json) (\<lambda>e.
     bindE (int_at ''renewAfterUnixSeconds'' json) (\<lambda>r.
       if \<not> token_syntax t \<or> length t > 16384 \<or> e \<le> now \<or> e > now + 300 \<or> e - r \<noteq> 120 \<or> r \<le> now then Inl kac_invalid
       else Inr \<lparr>cred_token = t, cred_expires = e, cred_renew_after = r, cred_code = [], cred_retryable = False\<rparr>)))"

definition parse_credential :: "(string \<Rightarrow> dbl option) \<Rightarrow> string \<Rightarrow> int \<Rightarrow> Credential result" where
  "parse_credential fc response now =
     (if response = [] \<or> last response \<noteq> byte 10 \<or> length response > 32768 then Inl kac_invalid
      else
        bindE (parse_json fc response 32768) (\<lambda>json.
        bindE (str_at ''protocol'' json) (\<lambda>protocol.
        bindE (throwIf (protocol \<noteq> ''aos-kuksa-auth-compat/v1'') kac_invalid) (\<lambda>_.
        bindE (str_at ''correlationId'' json) (\<lambda>correlation.
        bindE (throwIf (correlation = []) kac_invalid) (\<lambda>_.
        bindE (str_at ''status'' json) (\<lambda>status.
          if status = ''rejected'' then parse_rejection json
          else if status \<noteq> ''issued'' then Inl kac_invalid
          else bindE (object_size json) (\<lambda>n. if n \<noteq> 6 then Inl kac_invalid else parse_issue json now))))))))"

text \<open>The token file after its permissions have been checked.\<close>

definition read_private_token :: "string result \<Rightarrow> string result" where
  "read_private_token file =
     bindE file (\<lambda>t.
       if length t > 16384 \<or> \<not> token_syntax t then Inl (Runtime_error ''KUKSA_AUTH_UNAVAILABLE'') else Inr t)"

record Lease =
  expires_wall :: int
  expires_boot :: int
  renew_boot :: int

definition lease_issued :: "Credential \<Rightarrow> int \<Rightarrow> int \<Rightarrow> Lease" where
  "lease_issued c wall boot =
     \<lparr>expires_wall = cred_expires c, expires_boot = boot + (cred_expires c - wall) * 1000,
      renew_boot = boot + (cred_renew_after c - wall) * 1000\<rparr>"

definition lease_expired :: "Lease \<Rightarrow> int \<Rightarrow> int \<Rightarrow> bool" where
  "lease_expired l wall boot \<longleftrightarrow> expires_wall l = 0 \<or> wall \<ge> expires_wall l \<or> boot \<ge> expires_boot l"

section \<open>Command line and public files\<close>

record NativeServiceInputs =
  native_service_version :: string
  native_instance :: ServiceInstance

record ApplicationInputs =
  metadata_file :: string
  ca_file :: string
  native_inputs :: "NativeServiceInputs option"

definition is_absolute :: "string \<Rightarrow> bool" where
  "is_absolute p \<longleftrightarrow> p \<noteq> [] \<and> hd p = CHR ''/''"

fun parse_options :: "string list \<Rightarrow> ApplicationInputs \<Rightarrow> ApplicationInputs result" where
  "parse_options [] i = Inr i"
| "parse_options [opt] i = Inl (Invalid_argument ''CONFIG_ARGUMENTS_INVALID'')"
| "parse_options (opt # val # rest) i =
     (let metadata = (opt = ''--metadata-file'' \<and> metadata_file i = []); ca = (opt = ''--ca-file'' \<and> ca_file i = [])
      in if \<not> metadata \<and> \<not> ca then Inl (Invalid_argument ''CONFIG_ARGUMENTS_INVALID'')
         else if \<not> is_absolute val then Inl (Invalid_argument ''CONFIG_PATH_INVALID'')
         else parse_options rest (if metadata then i\<lparr>metadata_file := val\<rparr> else i\<lparr>ca_file := val\<rparr>))"

definition parse_arguments :: "string list \<Rightarrow> ApplicationInputs result" where
  "parse_arguments args =
     bindE (parse_options args \<lparr>metadata_file = [], ca_file = [], native_inputs = None\<rparr>) (\<lambda>i.
       if metadata_file i = [] \<or> ca_file i = [] then Inl (Invalid_argument ''CONFIG_INPUTS_REQUIRED'') else Inr i)"

datatype SessionInputChange = Unchanged | TokenReplaced | Unavailable

definition inspect_session_inputs ::
  "string result \<Rightarrow> string result \<Rightarrow> string result \<Rightarrow> string \<Rightarrow> string \<Rightarrow> string \<Rightarrow> SessionInputChange" where
  "inspect_session_inputs current_token current_metadata current_ca token metadata ca =
     (case bindE current_token (\<lambda>t. bindE current_metadata (\<lambda>m. bindE current_ca (\<lambda>c. Inr (t, m, c)))) of
        Inl _ \<Rightarrow> Unavailable
      | Inr (t, m, c) \<Rightarrow>
          if m \<noteq> metadata \<or> c \<noteq> ca then Unavailable else if t = token then Unchanged else TokenReplaced)"

section \<open>Metadata\<close>

text \<open>
  The regular expression of a version with an optional pre-release and build part: numbers separated by
  two dots, then \<open>-\<close> and \<open>+\<close> each followed by letters and digits in parts separated by a dot or a dash.
\<close>

definition version_parts :: "string \<Rightarrow> bool" where
  "version_parts s \<longleftrightarrow> list_all (\<lambda>p. p \<noteq> [] \<and> list_all is_alnum p) (split_on (CHR ''.'') (map (\<lambda>c. if c = CHR ''-'' then CHR ''.'' else c) s))"

definition extended_version :: "string \<Rightarrow> bool" where
  "extended_version v \<longleftrightarrow>
     (let front = takeWhile (\<lambda>c. c \<noteq> CHR ''+'') v; build = drop (length front) v;
          core = takeWhile (\<lambda>c. c \<noteq> CHR ''-'') front; release = drop (length core) front
      in length (split_on (CHR ''.'') core) = 3 \<and> list_all version_number (split_on (CHR ''.'') core) \<and>
         (release = [] \<or> version_parts (tl release)) \<and> (build = [] \<or> version_parts (tl build)))"

definition role_of :: "string \<Rightarrow> UnitRole" where
  "role_of role = (if role = ''validation'' then Validation else Production)"

definition parse_legacy_metadata :: "(string \<Rightarrow> dbl option) \<Rightarrow> string \<Rightarrow> MessageMetadata result" where
  "parse_legacy_metadata fc bytes =
     bindE (parse_json fc bytes 8192) (\<lambda>json.
     bindE (object_size json) (\<lambda>n.
     bindE (throwIf (n \<noteq> 7) (Invalid_argument ''METADATA_SCHEMA_INVALID'')) (\<lambda>_.
     bindE (int_at ''schemaVersion'' json) (\<lambda>schema.
     bindE (throwIf (schema \<noteq> 1) (Invalid_argument ''METADATA_SCHEMA_INVALID'')) (\<lambda>_.
     bindE (str_at ''unitSystemUid'' json) (\<lambda>uid.
     bindE (str_at ''unitRole'' json) (\<lambda>role.
     bindE (str_at ''serviceVersion'' json) (\<lambda>sv.
     bindE (str_at ''serviceArtifactSha256'' json) (\<lambda>sha.
     bindE (str_at ''vdpContractVersion'' json) (\<lambda>vv.
     bindE (str_at ''vdpContractSha256'' json) (\<lambda>vsha.
       if \<not> native_identifier uid \<or> (role \<noteq> ''validation'' \<and> role \<noteq> ''production'') \<or> length sv > 64 \<or> length vv > 64 \<or>
          \<not> extended_version sv \<or> \<not> extended_version vv \<or> \<not> is_sha256 sha \<or> \<not> is_sha256 vsha
       then Inl (Invalid_argument ''METADATA_FIELDS_INVALID'')
       else Inr \<lparr>unit_system_uid = uid, unit_role = role_of role, service_version = sv, service_artifact_sha256 = sha,
                 vdp_contract_version = vv, vdp_contract_sha256 = vsha, service_instance = None\<rparr>)))))))))))"

definition instance_index_valid :: "string \<Rightarrow> bool" where
  "instance_index_valid index \<longleftrightarrow>
     \<not> (index = [] \<or> length index > 16 \<or> (length index > 1 \<and> hd index = CHR ''0'') \<or> \<not> list_all is_dec index)"

definition env_at :: "string \<Rightarrow> (string \<times> string) list \<Rightarrow> string result" where
  "env_at key env = (case map_of env key of None \<Rightarrow> Inl (Out_of_range ''map::at'') | Some v \<Rightarrow> Inr v)"

definition parse_service_inputs :: "(string \<Rightarrow> dbl option) \<Rightarrow> string \<Rightarrow> (string \<times> string) list \<Rightarrow> NativeServiceInputs result" where
  "parse_service_inputs fc bytes env =
     bindE (parse_json fc bytes 1024) (\<lambda>release.
     bindE (object_size release) (\<lambda>n.
     bindE (throwIf (n \<noteq> 2) (Invalid_argument ''PACKAGE_RELEASE_INVALID'')) (\<lambda>_.
     bindE (int_at ''schemaVersion'' release) (\<lambda>schema.
     bindE (throwIf (schema \<noteq> 1) (Invalid_argument ''PACKAGE_RELEASE_INVALID'')) (\<lambda>_.
     bindE (str_at ''serviceVersion'' release) (\<lambda>version.
     bindE (throwIf (\<not> package_version version) (Invalid_argument ''PACKAGE_RELEASE_INVALID'')) (\<lambda>_.
     bindE (throwIf (length env \<noteq> 4) (Invalid_argument ''NATIVE_IDENTITY_REQUIRED'')) (\<lambda>_.
     bindE (env_at ''AOS_INSTANCE_INDEX'' env) (\<lambda>index.
     bindE (throwIf (\<not> instance_index_valid index) (Invalid_argument ''NATIVE_IDENTITY_INVALID'')) (\<lambda>_.
     bindE (env_at ''AOS_ITEM_ID'' env) (\<lambda>item.
     bindE (env_at ''AOS_SUBJECT_ID'' env) (\<lambda>subject.
     bindE (env_at ''AOS_INSTANCE_ID'' env) (\<lambda>inst.
       (let i = \<lparr>service_id = item, subject_id = subject, instance_index = dec_value index, instance_id = inst\<rparr>
        in if \<not> native_instance_valid i then Inl (Invalid_argument ''NATIVE_IDENTITY_INVALID'')
           else Inr \<lparr>native_service_version = version, native_instance = i\<rparr>))))))))))))))"

definition native_keys :: "string list" where
  "native_keys = [''AOS_ITEM_ID'', ''AOS_SUBJECT_ID'', ''AOS_INSTANCE_INDEX'', ''AOS_INSTANCE_ID'']"

fun read_environment :: "(string \<Rightarrow> string option) \<Rightarrow> string list \<Rightarrow> (string \<times> string) list \<Rightarrow> (string \<times> string) list result" where
  "read_environment getenv [] env = Inr env"
| "read_environment getenv (k # ks) env =
     (case getenv k of
        None \<Rightarrow> Inl (Invalid_argument ''NATIVE_IDENTITY_REQUIRED'')
      | Some v \<Rightarrow> if v = [] then Inl (Invalid_argument ''NATIVE_IDENTITY_REQUIRED'') else read_environment getenv ks (map_set k v env))"

definition initialize_service_inputs ::
  "(string \<Rightarrow> dbl option) \<Rightarrow> (string \<Rightarrow> string option) \<Rightarrow> string result \<Rightarrow> ApplicationInputs \<Rightarrow> ApplicationInputs result" where
  "initialize_service_inputs fc getenv release inputs =
     bindE (read_environment getenv native_keys []) (\<lambda>env.
     bindE release (\<lambda>bytes.
     bindE (parse_service_inputs fc bytes env) (\<lambda>native. Inr (inputs\<lparr>native_inputs := Some native\<rparr>))))"

definition parse_metadata :: "(string \<Rightarrow> dbl option) \<Rightarrow> string \<Rightarrow> NativeServiceInputs \<Rightarrow> MessageMetadata result" where
  "parse_metadata fc bytes native =
     bindE (parse_json fc bytes 8192) (\<lambda>json.
     bindE (object_size json) (\<lambda>n.
     bindE (throwIf (n \<noteq> 5) (Invalid_argument ''METADATA_SCHEMA_INVALID'')) (\<lambda>_.
     bindE (int_at ''schemaVersion'' json) (\<lambda>schema.
     bindE (throwIf (schema \<noteq> 2) (Invalid_argument ''METADATA_SCHEMA_INVALID'')) (\<lambda>_.
     bindE (str_at ''unitSystemUid'' json) (\<lambda>uid.
     bindE (str_at ''unitRole'' json) (\<lambda>role.
     bindE (str_at ''vdpContractVersion'' json) (\<lambda>vv.
     bindE (str_at ''vdpContractSha256'' json) (\<lambda>vsha.
       if \<not> native_identifier uid \<or> (role \<noteq> ''validation'' \<and> role \<noteq> ''production'') \<or> \<not> package_version vv \<or> \<not> is_sha256 vsha \<or>
          \<not> package_version (native_service_version native) \<or> \<not> native_instance_valid (native_instance native)
       then Inl (Invalid_argument ''METADATA_FIELDS_INVALID'')
       else Inr \<lparr>unit_system_uid = uid, unit_role = role_of role, service_version = native_service_version native,
                 service_artifact_sha256 = [], vdp_contract_version = vv, vdp_contract_sha256 = vsha,
                 service_instance = Some (native_instance native)\<rparr>)))))))))"

definition runtime_metadata :: "(string \<Rightarrow> dbl option) \<Rightarrow> ApplicationInputs \<Rightarrow> string \<Rightarrow> MessageMetadata result" where
  "runtime_metadata fc inputs bytes =
     (case native_inputs inputs of None \<Rightarrow> Inl (Invalid_argument ''NATIVE_IDENTITY_REQUIRED'') | Some n \<Rightarrow> parse_metadata fc bytes n)"

definition initial_runtime_metadata ::
  "(string \<Rightarrow> dbl option) \<Rightarrow> ApplicationInputs \<Rightarrow> string option result \<Rightarrow> string option result \<Rightarrow> MessageMetadata option result" where
  "initial_runtime_metadata fc inputs metadata_bytes ca_bytes =
     (if native_inputs inputs = None then Inl (Invalid_argument ''NATIVE_IDENTITY_REQUIRED'')
      else bindE metadata_bytes (\<lambda>bytes.
        case bytes of None \<Rightarrow> Inr None
        | Some b \<Rightarrow> bindE (runtime_metadata fc inputs b) (\<lambda>m. bindE ca_bytes (\<lambda>ca. Inr (if ca = None then None else Some m)))))"

definition parse_metadata_binding :: "(string \<Rightarrow> dbl option) \<Rightarrow> Json \<Rightarrow> MessageMetadata result" where
  "parse_metadata_binding fc v =
     bindE (int_at ''schemaVersion'' v) (\<lambda>schema.
       if schema = 1 then bindE (encode_json v) (parse_legacy_metadata fc)
       else
         bindE (object_size v) (\<lambda>n.
         bindE (throwIf (n \<noteq> 7) (Invalid_argument ''ADVISORY_PROVENANCE_INVALID'')) (\<lambda>_.
         bindE (throwIf (schema \<noteq> 2) (Invalid_argument ''ADVISORY_PROVENANCE_INVALID'')) (\<lambda>_.
         bindE (str_at ''serviceVersion'' v) (\<lambda>sv.
         bindE (bindE (json_at ''serviceInstance'' v) parse_service_instance) (\<lambda>i.
         bindE (json_object v) (\<lambda>kvs.
         bindE (encode_json (JObject (map_erase ''serviceInstance'' (map_erase ''serviceVersion'' kvs)))) (\<lambda>bytes.
           parse_metadata fc bytes \<lparr>native_service_version = sv, native_instance = i\<rparr>))))))))"

definition metadata_binding :: "(string \<Rightarrow> dbl option) \<Rightarrow> MessageMetadata \<Rightarrow> Json result" where
  "metadata_binding fc m =
     (let common = [(''schemaVersion'', JInt (if service_instance m \<noteq> None then 2 else 1)),
          (''unitSystemUid'', JString (unit_system_uid m)),
          (''unitRole'', JString (if unit_role m = Validation then ''validation'' else ''production'')),
          (''serviceVersion'', JString (service_version m)), (''vdpContractVersion'', JString (vdp_contract_version m)),
          (''vdpContractSha256'', JString (vdp_contract_sha256 m))]
      in bindE
           (case service_instance m of
              Some i \<Rightarrow>
                bindE (throwIf (\<not> native_provenance_valid (service_instance m) (service_version m) (service_artifact_sha256 m))
                        (Invalid_argument ''NATIVE_IDENTITY_INVALID'')) (\<lambda>_.
                bindE (service_instance_json i) (\<lambda>t.
                bindE (parse_json fc t 65536) (\<lambda>j. Inr (json_fields (common @ [(''serviceInstance'', j)])))))
            | None \<Rightarrow> Inr (json_fields (common @ [(''serviceArtifactSha256'', JString (service_artifact_sha256 m))])))
           (\<lambda>v. bindE (parse_metadata_binding fc v) (\<lambda>_. Inr v)))"

section \<open>Sessions and readiness\<close>

definition subscription_failure_observation :: "string \<Rightarrow> string \<times> string \<times> string" where
  "subscription_failure_observation c =
     (if c = ''KUKSA_AUTH_PENDING'' then (''STARTING'', ''WAITING'', ''AWAITING_INPUT'')
      else if c = ''KUKSA_AUTH_UNAVAILABLE'' then (''ACCESS_DENIED'', ''ACCESS_DENIED'', ''ACCESS_DENIED'')
      else if c = ''VDP_INCOMPATIBLE'' then (''DISCONNECTED'', ''INVALID'', ''INVALID_SAMPLE'')
      else (''DISCONNECTED'', ''DISCONNECTED'', ''TRANSPORT_LOST''))"

fun change_rank :: "SessionInputChange \<Rightarrow> nat" where
  "change_rank Unchanged = 0" | "change_rank TokenReplaced = 1" | "change_rank Unavailable = 2"

definition interruption_observe :: "SessionInputChange \<Rightarrow> SessionInputChange \<Rightarrow> SessionInputChange" where
  "interruption_observe change cause = (if change_rank change > change_rank cause then change else cause)"

definition interruption_cancelled :: "SessionInputChange \<Rightarrow> bool" where
  "interruption_cancelled cause \<longleftrightarrow> cause \<noteq> Unchanged"

definition token_replaced :: "SessionInputChange \<Rightarrow> bool" where
  "token_replaced cause \<longleftrightarrow> cause = TokenReplaced"

record ReadinessPublication =
  accepted_ready :: "bool option"
  next_attempt :: int
  next_heartbeat :: int

definition readiness_due :: "bool \<Rightarrow> int \<Rightarrow> ReadinessPublication \<Rightarrow> bool" where
  "readiness_due ready now p \<longleftrightarrow>
     now \<ge> next_attempt p \<and> (accepted_ready p = None \<or> accepted_ready p \<noteq> Some ready \<or> now \<ge> next_heartbeat p)"

definition readiness_completed :: "bool \<Rightarrow> int \<Rightarrow> bool \<Rightarrow> ReadinessPublication \<Rightarrow> ReadinessPublication" where
  "readiness_completed ready now accepted p =
     (let q = p\<lparr>next_attempt := now + (if accepted then 100 else 1000)\<rparr>
      in if accepted then q\<lparr>accepted_ready := Some ready, next_heartbeat := now + 5000\<rparr> else q)"


section \<open>Reading back what was written\<close>

lemmas json_read_defs = int_at_def str_at_def json_at_def json_integer_def json_str_def

lemma parse_encoded:
  assumes "json_ok j" and "json_depth j \<le> 24" and "encode_json j = Inr t" and "parse_json fc t limit = Inr x"
  shows "x = j"
  using json_read_back [OF assms(1,2), of fc] assms(3,4) by (auto split: if_splits)

lemma valid_utf8_ascii: "list_all (\<lambda>c. code c < 128) s \<Longrightarrow> valid_utf8 s"
  by (induction s) auto

lemma native_identifier_text:
  assumes "native_identifier v"
  shows "concat (map escape_char v) = v" and "valid_utf8 v"
proof -
  have "list_all (\<lambda>c. escape_char c = [c]) v"
    using assms by (auto simp: native_identifier_def list_all_iff char_class_defs escape_char_def)
  then show "concat (map escape_char v) = v" by (induction v) auto
  show "valid_utf8 v"
    using assms by (intro valid_utf8_ascii) (auto simp: native_identifier_def list_all_iff char_class_defs)
qed

definition instance_object :: "ServiceInstance \<Rightarrow> Json" where
  "instance_object i = JObject [(''instanceId'', JString (instance_id i)), (''instanceIndex'', JInt (int (instance_index i))),
     (''serviceId'', JString (service_id i)), (''subjectId'', JString (subject_id i))]"

lemma instance_object_ok: "native_instance_valid i \<Longrightarrow> json_ok (instance_object i) \<and> json_depth (instance_object i) = 1"
  by (simp add: instance_object_def native_instance_valid_def native_identifier_text i64_min_def i64_max_def code_def)

lemma instance_object_text:
  assumes "native_instance_valid i"
  shows "service_instance_json i = encode_json (instance_object i)"
  using assms
  by (simp add: service_instance_json_def instance_object_def native_instance_valid_def native_identifier_text quote_json_def
      validate_utf8_def json_string_def escape_char_def code_def join_json_def int_to_string_def)

lemma parse_instance_object: "native_instance_valid i \<Longrightarrow> parse_service_instance (instance_object i) = Inr i"
  by (cases i) (simp add: parse_service_instance_def instance_object_def json_object_def json_read_defs)


text \<open>What \<open>metadata_binding\<close> writes, and the part of it that is left for \<open>parse_metadata\<close>.\<close>

definition role_text :: "UnitRole \<Rightarrow> string" where
  "role_text r = (if r = Validation then ''validation'' else ''production'')"

lemma role_of_text [simp]: "role_of (role_text r) = r" "role_text r = ''validation'' \<or> role_text r = ''production''"
  by (cases r; simp add: role_of_def role_text_def)+

definition legacy_object :: "MessageMetadata \<Rightarrow> Json" where
  "legacy_object m = JObject [(''schemaVersion'', JInt 1), (''serviceArtifactSha256'', JString (service_artifact_sha256 m)),
     (''serviceVersion'', JString (service_version m)), (''unitRole'', JString (role_text (unit_role m))),
     (''unitSystemUid'', JString (unit_system_uid m)), (''vdpContractSha256'', JString (vdp_contract_sha256 m)),
     (''vdpContractVersion'', JString (vdp_contract_version m))]"

definition public_object :: "MessageMetadata \<Rightarrow> Json" where
  "public_object m = JObject [(''schemaVersion'', JInt 2), (''unitRole'', JString (role_text (unit_role m))),
     (''unitSystemUid'', JString (unit_system_uid m)), (''vdpContractSha256'', JString (vdp_contract_sha256 m)),
     (''vdpContractVersion'', JString (vdp_contract_version m))]"

definition native_object :: "MessageMetadata \<Rightarrow> Json \<Rightarrow> Json" where
  "native_object m j = JObject [(''schemaVersion'', JInt 2), (''serviceInstance'', j),
     (''serviceVersion'', JString (service_version m)), (''unitRole'', JString (role_text (unit_role m))),
     (''unitSystemUid'', JString (unit_system_uid m)), (''vdpContractSha256'', JString (vdp_contract_sha256 m)),
     (''vdpContractVersion'', JString (vdp_contract_version m))]"

lemma metadata_binding_legacy:
  "service_instance m = None \<Longrightarrow> metadata_binding fc m = bindE (parse_metadata_binding fc (legacy_object m)) (\<lambda>_. Inr (legacy_object m))"
  by (simp add: metadata_binding_def json_fields_def legacy_object_def role_text_def Let_def)

lemma metadata_binding_native:
  "service_instance m = Some i \<Longrightarrow> native_instance_valid i \<Longrightarrow> parse_json fc t 65536 = Inr j \<Longrightarrow> service_instance_json i = Inr t \<Longrightarrow>
    metadata_binding fc m = bindE (throwIf (\<not> native_provenance_valid (Some i) (service_version m) (service_artifact_sha256 m))
        (Invalid_argument ''NATIVE_IDENTITY_INVALID'')) (\<lambda>_.
      bindE (parse_metadata_binding fc (native_object m j)) (\<lambda>_. Inr (native_object m j)))"
  by (simp add: metadata_binding_def json_fields_def native_object_def role_text_def Let_def bindE_assoc)

lemma quote_json_Inr: "quote_json s = Inr t \<longleftrightarrow> valid_utf8 s \<and> t = json_string s"
  by (auto simp: quote_json_def validate_utf8_def)


lemma legacy_back:
  assumes "parse_metadata_binding fc (legacy_object m) = Inr m'" and "service_instance m = None"
  shows "m' = m"
proof -
  let ?j = "legacy_object m"
  have "int_at ''schemaVersion'' ?j = Inr 1" by (simp add: legacy_object_def json_read_defs json_object_def)
  with assms(1) obtain t where t: "encode_json ?j = Inr t" and p: "parse_legacy_metadata fc t = Inr m'"
    by (auto simp: parse_metadata_binding_def bindE_eq_Inr)
  then obtain x where x: "parse_json fc t 8192 = Inr x" by (auto simp: parse_legacy_metadata_def bindE_eq_Inr)
  have "json_ok ?j \<and> json_depth ?j \<le> 24"
    using t by (auto simp: legacy_object_def quote_json_Inr bindE_eq_Inr i64_min_def i64_max_def code_def)
  then have "x = ?j" using t x by (blast intro: parse_encoded)
  with p x assms(2) show ?thesis
    by (cases m) (auto simp: parse_legacy_metadata_def legacy_object_def json_read_defs json_object_def bindE_eq_Inr split: if_splits)
qed

lemma native_back:
  assumes "parse_metadata_binding fc (native_object m (instance_object i)) = Inr m'" and "service_instance m = Some i"
    and "native_provenance_valid (Some i) (service_version m) (service_artifact_sha256 m)"
  shows "m' = m"
proof -
  let ?j = "native_object m (instance_object i)" and ?n = "\<lparr>native_service_version = service_version m, native_instance = i\<rparr>"
  have i: "parse_service_instance (instance_object i) = Inr i"
    using assms(3) by (simp add: native_provenance_valid_def parse_instance_object)
  have "parse_metadata_binding fc ?j = bindE (encode_json (public_object m)) (\<lambda>t. parse_metadata fc t ?n)"
    using i unfolding native_object_def public_object_def
    by (simp add: parse_metadata_binding_def json_read_defs json_object_def object_size_def map_erase_def del: encode_json.simps)
  with assms(1) obtain t where t: "encode_json (public_object m) = Inr t" and p: "parse_metadata fc t ?n = Inr m'"
    by (auto simp only: bindE_eq_Inr)
  then obtain x where x: "parse_json fc t 8192 = Inr x" by (auto simp: parse_metadata_def bindE_eq_Inr)
  have "json_ok (public_object m) \<and> json_depth (public_object m) \<le> 24"
    using t by (auto simp: public_object_def quote_json_Inr bindE_eq_Inr i64_min_def i64_max_def code_def)
  then have "x = public_object m" using t x by (blast intro: parse_encoded)
  with p x assms(2,3) show ?thesis
    by (cases m) (auto simp: parse_metadata_def public_object_def json_read_defs json_object_def bindE_eq_Inr
        native_provenance_valid_def split: if_splits)
qed

lemma metadata_binding_back:
  assumes "metadata_binding fc m = Inr j"
  shows "parse_metadata_binding fc j = Inr m"
proof (cases "service_instance m")
  case None
  with assms show ?thesis by (auto simp: metadata_binding_legacy bindE_eq_Inr dest: legacy_back)
next
  case (Some i)
  with assms have v: "native_provenance_valid (Some i) (service_version m) (service_artifact_sha256 m)"
    by (auto simp: metadata_binding_def Let_def bindE_eq_Inr)
  then have i: "native_instance_valid i" by (simp add: native_provenance_valid_def)
  from assms Some obtain t x where t: "service_instance_json i = Inr t" and x: "parse_json fc t 65536 = Inr x"
    by (auto simp: metadata_binding_def Let_def bindE_eq_Inr)
  have "x = instance_object i"
    using parse_encoded [OF _ _ _ x] instance_object_ok [OF i] t instance_object_text [OF i] by simp
  with assms metadata_binding_native [OF Some i x t] show ?thesis
    using native_back [OF _ Some v] by (auto simp: bindE_eq_Inr)
qed


text \<open>The provenance the advisory ledger stores with a request (\<open>metadata_binding\<close>) is read back
  (\<open>parse_metadata_binding\<close>) as exactly the metadata it was made from, for both revisions: the legacy one
  with an artifact digest and the native one with a service instance.
\<close>

theorem metadata_binding_roundtrip:
  assumes "metadata_binding fc m = Inr j"
  shows "parse_metadata_binding fc j = Inr m"
  using assms by (rule metadata_binding_back)

definition sample_metadata :: MessageMetadata where
  "sample_metadata = \<lparr>unit_system_uid = ''unit-7'', unit_role = Production, service_version = ''1.2.3'', service_artifact_sha256 = [],
     vdp_contract_version = ''1.0.0'', vdp_contract_sha256 = replicate 64 (CHR ''a''),
     service_instance = Some \<lparr>service_id = ''brake'', subject_id = ''s1'', instance_index = 12, instance_id = ''i1''\<rparr>\<rparr>"

theorem metadata_binding_roundtrip_witness:
  "\<exists>j. metadata_binding (\<lambda>_. None) sample_metadata = Inr j \<and> parse_metadata_binding (\<lambda>_. None) j = Inr sample_metadata"
proof -
  have "okE (metadata_binding (\<lambda>_. None) sample_metadata)" by code_simp
  then show ?thesis using metadata_binding_roundtrip by (auto simp: okE_iff)
qed

section \<open>Leases\<close>

lemma parse_issue_ok:
  "parse_issue json now = Inr c \<Longrightarrow>
    token_syntax (cred_token c) \<and> length (cred_token c) \<le> 16384 \<and> now < cred_renew_after c \<and>
    cred_expires c = cred_renew_after c + 120 \<and> cred_expires c \<le> now + 300"
  by (auto simp: parse_issue_def bindE_eq_Inr split: if_splits)

lemma parse_rejection_ok:
  "parse_rejection json = Inr c \<Longrightarrow>
    cred_token c = [] \<and> cred_code c \<in> set (kac_retryable @ kac_terminal) \<and> (cred_retryable c \<longleftrightarrow> cred_code c \<in> set kac_retryable)"
  by (auto simp: parse_rejection_def bindE_eq_Inr Let_def split: if_splits)

lemma parse_credential_ok:
  assumes "parse_credential fc response now = Inr c"
  shows "if cred_token c = []
    then cred_code c \<in> set (kac_retryable @ kac_terminal) \<and> (cred_retryable c \<longleftrightarrow> cred_code c \<in> set kac_retryable)
    else token_syntax (cred_token c) \<and> length (cred_token c) \<le> 16384 \<and> now < cred_renew_after c \<and>
      cred_expires c = cred_renew_after c + 120 \<and> cred_expires c \<le> now + 300"
proof -
  from assms consider json where "parse_rejection json = Inr c" | json where "parse_issue json now = Inr c"
    by (auto simp: parse_credential_def bindE_eq_Inr split: if_splits)
  then show ?thesis
    by cases (auto dest!: parse_issue_ok parse_rejection_ok simp: token_syntax_def)
qed

text \<open>A token accepted from the credential service is held, counted on the boot clock, for less than 300
  seconds after it was parsed, and is due for renewal 120 seconds before that; whatever the wall clock
  does meanwhile, it can only end the lease earlier.
\<close>

theorem lease_bounded:
  assumes "parse_credential fc response now = Inr c" and "cred_token c \<noteq> []"
    and "\<not> lease_expired (lease_issued c now boot) wall boot'"
  shows "boot' < boot + 300000 \<and> wall < now + 300 \<and> token_syntax (cred_token c) \<and>
    boot < renew_boot (lease_issued c now boot) \<and>
    renew_boot (lease_issued c now boot) + 120000 = expires_boot (lease_issued c now boot)"
proof -
  from parse_credential_ok [OF assms(1)] assms(2) have c: "token_syntax (cred_token c)" "now < cred_renew_after c"
    "cred_expires c = cred_renew_after c + 120" "cred_expires c \<le> now + 300" by simp_all
  from assms(3) have "wall < cred_expires c" "boot' < boot + (cred_expires c - now) * 1000"
    by (auto simp: lease_expired_def lease_issued_def)
  with c show ?thesis by (auto simp: lease_issued_def)
qed

definition sample_response :: string where
  "sample_response = ''{\"protocol\":\"aos-kuksa-auth-compat/v1\",\"correlationId\":\"c1\",\"status\":\"issued\",\"token\":\"a.b.c\",'' @
     ''\"expiresAtUnixSeconds\":1300,\"renewAfterUnixSeconds\":1180}'' @ [byte 10]"

definition sample_credential :: Credential where
  "sample_credential = \<lparr>cred_token = ''a.b.c'', cred_expires = 1300, cred_renew_after = 1180, cred_code = [], cred_retryable = False\<rparr>"

theorem lease_bounded_witness:
  "\<not> lease_expired (lease_issued sample_credential 1000 50000) 900 349999 \<and> (349999 :: int) < 50000 + 300000"
proof -
  have c: "parse_credential (\<lambda>_. None) sample_response 1000 = Inr sample_credential" by code_simp
  have e: "\<not> lease_expired (lease_issued sample_credential 1000 50000) 900 349999" by code_simp
  have "cred_token sample_credential \<noteq> []" by code_simp
  from lease_bounded [OF c this e] e show ?thesis by simp
qed

text \<open>The command line is accepted in its two orders only.\<close>

theorem parse_arguments_iff:
  "parse_arguments args = Inr i \<longleftrightarrow>
    native_inputs i = None \<and> is_absolute (metadata_file i) \<and> is_absolute (ca_file i) \<and>
    args \<in> {[''--metadata-file'', metadata_file i, ''--ca-file'', ca_file i], [''--ca-file'', ca_file i, ''--metadata-file'', metadata_file i]}"
proof -
  consider "args = []" | a where "args = [a]" | a b where "args = [a, b]" | a b c where "args = [a, b, c]"
    | a b c d where "args = [a, b, c, d]" | a b c d e where "args = [a, b, c, d, e]" | a b c d e f rest where "args = a # b # c # d # e # f # rest"
    by (metis list.exhaust)
  then show ?thesis
    by cases (cases i; auto simp: parse_arguments_def Let_def is_absolute_def split: if_splits)+
qed

end
