(* ===== verification/Transport.thy ===== *)
theory Transport
  imports Messages2 Runtime
begin

text \<open>
  The transport (\<^verbatim>\<open>src/runtime/posix.cpp\<close>): reading files, the exchange with a peer over a socket, the HTTP responses
  of the backend, the requests sent to it and random identifiers. The answers of the kernel are a list
  of events that the loops consume; where a list ends, no further answer comes.
\<close>

section \<open>Files\<close>

definition input_unavailable :: exn where
  "input_unavailable = Runtime_error ''INPUT_FILE_UNAVAILABLE''"

text \<open>What \<open>open\<close> and \<open>fstat\<close> say about a path: absent, not readable, or a file with type and size.\<close>

datatype Opened = Absent | Refused | Opened bool int

text \<open>What \<open>read\<close> answers; at the end of the list it answers 0.\<close>

datatype ReadAnswer = Interrupted | ReadFailed | Bytes string

fun read_loop :: "nat \<Rightarrow> ReadAnswer list \<Rightarrow> string \<Rightarrow> string result" where
  "read_loop limit [] out = Inr out"
| "read_loop limit (Interrupted # as) out = read_loop limit as out"
| "read_loop limit (ReadFailed # as) out = Inl input_unavailable"
| "read_loop limit (Bytes b # as) out =
     (if b = [] then Inr out
      else if length (out @ b) > limit then Inl input_unavailable
      else read_loop limit as (out @ b))"

definition posix_read_file :: "Opened \<Rightarrow> ReadAnswer list \<Rightarrow> nat \<Rightarrow> string result" where
  "posix_read_file opened as limit =
     (case opened of
        Opened regular st_size \<Rightarrow>
          if \<not> regular \<or> st_size \<le> 0 \<or> nat st_size > limit then Inl input_unavailable else read_loop limit as []
      | _ \<Rightarrow> Inl input_unavailable)"

definition read_optional_public_file :: "Opened \<Rightarrow> ReadAnswer list \<Rightarrow> nat \<Rightarrow> string option result" where
  "read_optional_public_file opened as limit =
     (case opened of
        Absent \<Rightarrow> Inr None
      | Refused \<Rightarrow> Inl input_unavailable
      | Opened regular st_size \<Rightarrow>
          if \<not> regular \<or> st_size \<le> 0 \<or> nat st_size > limit then Inl input_unavailable
          else bindE (read_loop limit as []) (\<lambda>result. if result = [] then Inl input_unavailable else Inr (Some result)))"

section \<open>Exchange with a peer\<close>

definition transport_unavailable :: exn where
  "transport_unavailable = Runtime_error ''TRANSPORT_UNAVAILABLE''"

text \<open>
  One turn of a loop: \<open>wait\<close> gives up (the deadline, a stop request or an error of \<open>poll\<close>), or the call
  after it answers. At the end of the list \<open>wait\<close> runs into its deadline.
\<close>

datatype SendAnswer = SendGivesUp | SendRetry | Sent int

fun send_loop :: "SendAnswer list \<Rightarrow> string \<Rightarrow> nat \<Rightarrow> string \<Rightarrow> string result" where
  "send_loop [] request offset wire = (if offset < length request then Inl transport_unavailable else Inr wire)"
| "send_loop (a # as) request offset wire =
     (if offset < length request
      then (case a of
              SendGivesUp \<Rightarrow> Inl transport_unavailable
            | SendRetry \<Rightarrow> send_loop as request offset wire
            | Sent count \<Rightarrow>
                if count \<le> 0 then Inl transport_unavailable
                else send_loop as request (offset + nat count) (wire @ take (nat count) (drop offset request)))
      else Inr wire)"

datatype ReceiveAnswer = ReceiveGivesUp | ReceiveRetry | ReceiveFailed | Got string

fun receive_loop :: "ReceiveAnswer list \<Rightarrow> nat \<Rightarrow> string \<Rightarrow> string result" where
  "receive_loop [] maximum result = Inl transport_unavailable"
| "receive_loop (a # as) maximum result =
     (case a of
        ReceiveGivesUp \<Rightarrow> Inl transport_unavailable
      | ReceiveRetry \<Rightarrow> receive_loop as maximum result
      | ReceiveFailed \<Rightarrow> Inl transport_unavailable
      | Got b \<Rightarrow>
          if b = [] then Inr result
          else if length result + length b > maximum then Inl transport_unavailable
          else receive_loop as maximum (result @ b))"

record Peer =
  socket_ready :: bool
  connects :: bool
  send_answers :: "SendAnswer list"
  receive_answers :: "ReceiveAnswer list"

text \<open>The bytes given to the socket and the answer.\<close>

definition exchange :: "Peer \<Rightarrow> string \<Rightarrow> nat \<Rightarrow> (string \<times> string) result" where
  "exchange peer request maximum =
     bindE (throwIf (\<not> socket_ready peer \<or> \<not> connects peer) transport_unavailable) (\<lambda>_.
     bindE (send_loop (send_answers peer) request 0 []) (\<lambda>wire.
     bindE (receive_loop (receive_answers peer) maximum []) (\<lambda>result. Inr (wire, result))))"

definition exchange_credential :: "Peer \<Rightarrow> string \<Rightarrow> (string \<times> string) result" where
  "exchange_credential peer request = exchange peer request 32768"

section \<open>HTTP responses\<close>

definition crlf :: string where
  "crlf = [byte 13, byte 10]"

text \<open>\<open>std::from_chars\<close> of an unsigned 64-bit value, all of the text consumed.\<close>

definition digit_of :: "char \<Rightarrow> nat" where
  "digit_of c = (if is_dec c then code c - 48 else if is_lower c then code c - 87 else if is_upper c then code c - 55 else 36)"

definition number_value :: "nat \<Rightarrow> string \<Rightarrow> nat" where
  "number_value base s = foldl (\<lambda>n c. n * base + digit_of c) 0 s"

definition number :: "nat \<Rightarrow> string \<Rightarrow> nat result" where
  "number base s =
     (if s = [] \<or> \<not> list_all (\<lambda>c. digit_of c < base) s \<or> number_value base s > u64_max then Inl transport_unavailable
      else Inr (number_value base s))"

text \<open>The offset of the first occurrence.\<close>

definition find_offset :: "string \<Rightarrow> string \<Rightarrow> nat option" where
  "find_offset n s = (case find_sub n s of None \<Rightarrow> None | Some r \<Rightarrow> Some (length s - length r))"

text \<open>The lines \<open>std::getline\<close> reads from a string stream.\<close>

definition get_lines :: "string \<Rightarrow> string list" where
  "get_lines s = (let ls = split_on (byte 10) s in if last ls = [] then butlast ls else ls)"

definition to_lower :: "char \<Rightarrow> char" where
  "to_lower c = (if is_upper c then char_of (code c + 32) else c)"

fun header_fields :: "string list \<Rightarrow> (string \<times> string) list \<Rightarrow> (string \<times> string) list result" where
  "header_fields [] fs = Inr fs"
| "header_fields (l # ls) fs =
     (let line = (if l \<noteq> [] \<and> last l = byte 13 then butlast l else l)
      in if CHR '':'' \<notin> set line then Inl transport_unavailable
         else
           (let name = map to_lower (takeWhile (\<lambda>c. c \<noteq> CHR '':'') line);
                text = dropWhile (\<lambda>c. c = CHR '' '') (tl (dropWhile (\<lambda>c. c \<noteq> CHR '':'') line))
            in case emplace name text fs of
                 None \<Rightarrow> Inl transport_unavailable
               | Some fs' \<Rightarrow> header_fields ls fs'))"

lemma find_sub_split: "find_sub n s = Some r \<Longrightarrow> \<exists>p. s = p @ r \<and> take (length n) r = n"
proof (induction s)
  case (Cons c s)
  show ?case
  proof (cases "take (length n) (c # s) = n")
    case False
    with Cons obtain p where "s = p @ r" "take (length n) r = n" by (auto simp: find_sub.simps(2) simp del: take_Suc_Cons)
    then show ?thesis by (intro exI [of _ "c # p"]) simp
  qed (use Cons.prems in \<open>auto simp: find_sub.simps(2)\<close>)
qed (auto split: if_splits)

lemma find_offset_less: "find_offset n s = Some k \<Longrightarrow> n \<noteq> [] \<Longrightarrow> k < length s"
  by (auto simp: find_offset_def split: option.splits dest!: find_sub_split)

function chunked_loop :: "string \<Rightarrow> string \<Rightarrow> string result" where
  "chunked_loop text out =
     (case find_offset crlf text of
        None \<Rightarrow> Inl transport_unavailable
      | Some e \<Rightarrow>
          (case number 16 (take e text) of
             Inl x \<Rightarrow> Inl x
           | Inr n \<Rightarrow>
               (let rest = drop (e + 2) text
                in if n > 8192 \<or> n > length rest \<or> length rest - n < 2 \<or> take 2 (drop n rest) \<noteq> crlf then Inl transport_unavailable
                   else if n = 0 then (if rest \<noteq> crlf then Inl transport_unavailable else Inr out)
                   else if length (out @ take n rest) > 8192 then Inl transport_unavailable
                   else chunked_loop (drop (n + 2) rest) (out @ take n rest))))"
  by pat_completeness auto

termination
  by (relation "measure (\<lambda>(text, out). length text)") (auto dest!: find_offset_less simp: crlf_def)

declare chunked_loop.simps [simp del]

definition response_body :: "(string \<times> string) list \<Rightarrow> string \<Rightarrow> string result" where
  "response_body fs text =
     (case (map_of fs ''content-length'', map_of fs ''transfer-encoding'') of
        (Some _, Some _) \<Rightarrow> Inl transport_unavailable
      | (None, Some coding) \<Rightarrow> if coding \<noteq> ''chunked'' then Inl transport_unavailable else chunked_loop text []
      | (Some l, None) \<Rightarrow> bindE (number 10 l) (\<lambda>n. if n \<noteq> length text then Inl transport_unavailable else Inr text)
      | (None, None) \<Rightarrow> Inr text)"

definition response_retry :: "(string \<times> string) list \<Rightarrow> int result" where
  "response_retry fs =
     (case map_of fs ''retry-after'' of
        None \<Rightarrow> Inr 0
      | Some t \<Rightarrow> bindE (number 10 t) (\<lambda>n. if n > 86400 then Inl transport_unavailable else Inr (int n)))"

definition parse_http_response :: "string \<Rightarrow> HttpResponse result" where
  "parse_http_response bytes =
     (if length bytes > 24576 then Inl transport_unavailable
      else case find_offset (crlf @ crlf) bytes of
        None \<Rightarrow> Inl transport_unavailable
      | Some split \<Rightarrow>
          if split > 16384 then Inl transport_unavailable
          else
            (let ls = get_lines (take split bytes); line = (if ls = [] then [] else hd ls)
             in if length line < 13 \<or> take 9 line \<noteq> ''HTTP/1.1 '' \<or> line ! 12 \<noteq> CHR '' '' then Inl transport_unavailable
                else
                  bindE (number 10 (take 3 (drop 9 line))) (\<lambda>st.
                  bindE (header_fields (tl ls) []) (\<lambda>fs.
                  bindE (response_body fs (drop (split + 4) bytes)) (\<lambda>b.
                  bindE (throwIf (length b > 8192) transport_unavailable) (\<lambda>_.
                  bindE (response_retry fs) (\<lambda>r. Inr \<lparr>status = int st, body = b, retry_after = r\<rparr>)))))))"

section \<open>Requests\<close>

definition backend_request :: "string \<Rightarrow> bool \<Rightarrow> string" where
  "backend_request bytes demo_mock =
     ''POST '' @ (if demo_mock then ''/api/v1/brake/demo-mock/messages'' else ''/api/v1/brake/messages'') @ '' HTTP/1.1'' @ crlf @
     ''Host: 10.0.0.1:18091'' @ crlf @ ''Content-Type: application/json'' @ crlf @
     (if demo_mock then ''X-Aos-Demo-Source: MOCK'' @ crlf else []) @ ''Connection: close'' @ crlf @
     ''Content-Length: '' @ to_string (length bytes) @ crlf @ crlf @ bytes"

definition post_backend :: "Peer \<Rightarrow> string \<Rightarrow> bool \<Rightarrow> HttpResponse result" where
  "post_backend peer bytes demo_mock =
     (if bytes = [] \<or> length bytes > 65536 then Inl (Invalid_argument ''MESSAGE_SIZE_INVALID'')
      else bindE (exchange peer (backend_request bytes demo_mock) 24576) (\<lambda>(wire, answer). parse_http_response answer))"

definition demo_control_request :: "string \<Rightarrow> bool \<Rightarrow> string" where
  "demo_control_request bytes acknowledgement =
     ''POST '' @ (if acknowledgement then ''/api/v1/brake/demo-control/ack'' else ''/api/v1/brake/demo-control/poll'') @
     '' HTTP/1.1'' @ crlf @ ''Host: 10.0.0.1:18091'' @ crlf @ ''Content-Type: application/json'' @ crlf @ ''Connection: close'' @ crlf @
     ''Content-Length: '' @ to_string (length bytes) @ crlf @ crlf @ bytes"

definition post_demo_control :: "Peer \<Rightarrow> string \<Rightarrow> bool \<Rightarrow> HttpResponse result" where
  "post_demo_control peer bytes acknowledgement =
     (if bytes = [] \<or> length bytes > 4096 then Inl (Invalid_argument ''MESSAGE_SIZE_INVALID'')
      else bindE (exchange peer (demo_control_request bytes acknowledgement) 24576) (\<lambda>(wire, answer). parse_http_response answer))"

section \<open>Random identifiers\<close>

unbundle bit_operations_syntax

text \<open>Sixteen bytes from \<^verbatim>\<open>/dev/urandom\<close>; a \<open>read\<close> that answers 0 raises.\<close>

fun random_loop :: "nat \<Rightarrow> ReadAnswer list \<Rightarrow> string \<Rightarrow> string result" where
  "random_loop n [] out = (if length out < n then Inl (Runtime_error ''RANDOM_UNAVAILABLE'') else Inr out)"
| "random_loop n (a # as) out =
     (if length out < n
      then (case a of
              Interrupted \<Rightarrow> random_loop n as out
            | ReadFailed \<Rightarrow> Inl (Runtime_error ''RANDOM_UNAVAILABLE'')
            | Bytes b \<Rightarrow> if b = [] then Inl (Runtime_error ''RANDOM_UNAVAILABLE'') else random_loop n as (out @ take (n - length out) b))
      else Inr out)"

definition uuid4_text :: "nat list \<Rightarrow> string" where
  "uuid4_text bytes =
     encode_uuid (bytes [6 := (bytes ! 6 AND 15) OR 64, 8 := (bytes ! 8 AND 63) OR 128])"

definition random_uuid :: "ReadAnswer list \<Rightarrow> string result" where
  "random_uuid as = bindE (random_loop 16 as []) (\<lambda>out. Inr (uuid4_text (map code out)))"


section \<open>What an accepted response is bounded by\<close>

lemma number_Inr: "number base s = Inr n \<Longrightarrow> n = number_value base s \<and> s \<noteq> [] \<and> list_all (\<lambda>c. digit_of c < base) s \<and> n \<le> u64_max"
  by (auto simp: number_def split: if_splits)

lemma number_value_append [simp]: "number_value base (s @ [c]) = number_value base s * base + digit_of c"
  by (simp add: number_value_def)

lemma number_value_less: "list_all (\<lambda>c. digit_of c < base) s \<Longrightarrow> number_value base s < base ^ length s"
proof (induction s rule: rev_induct)
  case Nil
  then show ?case by (simp add: number_value_def)
next
  case (snoc c s)
  then have "number_value base s + 1 \<le> base ^ length s" and "digit_of c < base" by auto
  then have "number_value base s * base + digit_of c < (number_value base s + 1) * base" by simp
  also have "\<dots> \<le> base ^ length s * base" using \<open>_ + 1 \<le> _\<close> by (rule mult_right_mono) simp
  finally show ?case by (simp add: mult.commute)
qed

text \<open>Whatever bytes the backend sends, a response that is accepted has a status of at most three digits,
  a body of at most 8192 bytes and a retry delay of at most a day; every other input raises the one
  transport error.
\<close>

theorem http_response_bounds:
  "case parse_http_response bytes of
     Inl e \<Rightarrow> e = transport_unavailable
   | Inr r \<Rightarrow> 0 \<le> status r \<and> status r \<le> 999 \<and> length (body r) \<le> 8192 \<and> 0 \<le> retry_after r \<and> retry_after r \<le> 86400"
proof -
  have n: "number base s = Inl e \<Longrightarrow> e = transport_unavailable" for base s e by (auto simp: number_def split: if_splits)
  have h: "header_fields ls fs = Inl e \<Longrightarrow> e = transport_unavailable" for ls fs e
    by (induction ls arbitrary: fs) (auto simp: Let_def split: if_splits option.splits)
  have ch: "chunked_loop t out = Inl e \<Longrightarrow> e = transport_unavailable" for t out e
  proof (induction t out rule: chunked_loop.induct)
    case (1 t out)
    from "1.prems" show ?case
      by (subst (asm) chunked_loop.simps) (auto simp: Let_def n dest: "1.IH" split: option.splits sum.splits if_splits)
  qed
  have b: "response_body fs t = Inl e \<Longrightarrow> e = transport_unavailable" for fs t e
    by (auto simp: response_body_def bindE_eq_Inl n ch split: option.splits if_splits)
  have r: "response_retry fs = Inl e \<Longrightarrow> e = transport_unavailable" for fs e
    by (auto simp: response_retry_def bindE_eq_Inl n split: option.splits if_splits)
  have st: "k \<le> 999" if "number 10 (take 3 l) = Inr k" for l k
  proof -
    from number_Inr [OF that] have "k < 10 ^ length (take 3 l)" using number_value_less [of 10 "take 3 l"] by auto
    also have "\<dots> \<le> 10 ^ 3" by (intro power_increasing) auto
    finally show ?thesis by simp
  qed
  have rt: "0 \<le> k \<and> k \<le> 86400" if "response_retry fs = Inr k" for fs k
    using that by (auto simp: response_retry_def bindE_eq_Inr split: option.splits if_splits)
  show ?thesis
    by (auto simp: parse_http_response_def Let_def bindE_eq_Inl bindE_eq_Inr throwIf_def n h b r dest: rt st
        split: sum.splits option.splits if_splits)
qed

section \<open>The exchange\<close>

lemma send_loop_all:
  "send_loop as request offset wire = Inr w \<Longrightarrow> wire = take offset request \<Longrightarrow> w = request"
proof (induction as request offset wire rule: send_loop.induct)
  case (2 a as request offset wire)
  then show ?case by (auto simp: take_add split: if_splits SendAnswer.splits)
qed (auto split: if_splits)

lemma receive_loop_bound:
  "receive_loop as maximum result = Inr r \<Longrightarrow> length result \<le> maximum \<Longrightarrow> length r \<le> maximum"
  by (induction as maximum result rule: receive_loop.induct) (auto split: if_splits ReceiveAnswer.splits)

lemma receive_loop_prefix:
  "receive_loop as maximum result = Inr r \<Longrightarrow>
    r = result @ concat (map (\<lambda>a. case a of Got b \<Rightarrow> b | _ \<Rightarrow> []) (takeWhile (\<lambda>a. a \<noteq> Got []) as)) \<and> Got [] \<in> set as"
  by (induction as maximum result rule: receive_loop.induct) (auto split: if_splits ReceiveAnswer.splits)

text \<open>An exchange that returns has given the peer exactly the request, however the kernel split it, and
  returns everything received up to the end of the stream, within the limit; an answer cut by the
  deadline, by an error or by the limit is never returned in part.
\<close>

theorem exchange_whole:
  assumes "exchange peer request maximum = Inr (wire, answer)"
  shows "wire = request \<and> length answer \<le> maximum \<and> Got [] \<in> set (receive_answers peer) \<and>
    answer = concat (map (\<lambda>a. case a of Got b \<Rightarrow> b | _ \<Rightarrow> []) (takeWhile (\<lambda>a. a \<noteq> Got []) (receive_answers peer)))"
  using assms by (auto simp: exchange_def bindE_eq_Inr dest: send_loop_all receive_loop_bound receive_loop_prefix)

theorem exchange_whole_witness:
  "exchange \<lparr>socket_ready = True, connects = True, send_answers = [SendRetry, Sent 3, Sent 2],
     receive_answers = [Got ''ab'', ReceiveRetry, Got ''c'', Got []]\<rparr> ''hello'' 10 = Inr (''hello'', ''abc'')"
  proof -
  let ?p = "\<lparr>socket_ready = True, connects = True, send_answers = [SendRetry, Sent 3, Sent 2],
     receive_answers = [Got ''ab'', ReceiveRetry, Got ''c'', Got []]\<rparr>"
  obtain w a where e: "exchange ?p ''hello'' 10 = Inr (w, a)"
    by (simp add: exchange_def)
  with exchange_whole [OF e] show ?thesis by simp
qed

section \<open>Random identifiers are version 4\<close>

lemma random_loop_length:
  "random_loop n as out = Inr r \<Longrightarrow> length out \<le> n \<Longrightarrow> length r = n"
  by (induction n as out rule: random_loop.induct) (auto split: if_splits ReadAnswer.splits)

lemma uuid4_bits:
  assumes "b < 256"
  shows "((b AND 15) OR 64) div 16 = (4 :: nat) \<and> ((b AND 15) OR 64) < 256"
    and "((b AND 63) OR 128) div 16 \<in> {8, 9, 10, 11 :: nat} \<and> ((b AND 63) OR 128) < 256"
proof -
  have "\<forall>b \<in> set [0..<256]. ((b AND 15) OR 64) div 16 = (4 :: nat) \<and> ((b AND 15) OR 64) < 256 \<and>
      ((b AND 63) OR 128) div 16 \<in> set [8, 9, 10, 11 :: nat] \<and> ((b AND 63) OR 128) < 256"
    by code_simp
  with assms show "((b AND 15) OR 64) div 16 = (4 :: nat) \<and> ((b AND 15) OR 64) < 256"
    and "((b AND 63) OR 128) div 16 \<in> {8, 9, 10, 11 :: nat} \<and> ((b AND 63) OR 128) < 256"
    by (metis atLeastLessThan_iff set_upt zero_le list.set(1,2))+
qed

text \<open>Every identifier made from the random device is a canonical version 4 UUID, whatever the bytes and
  however the reads are split: both the model layer and the JSON layer accept it.
\<close>

theorem random_uuid_valid:
  assumes "random_uuid as = Inr u"
  shows "valid_uuid4 u"
proof -
  from assms obtain out where out: "random_loop 16 as [] = Inr out" and u: "u = uuid4_text (map code out)"
    by (auto simp: random_uuid_def bindE_eq_Inr)
  let ?b = "map code out"
  have len: "length ?b = 16" using random_loop_length [OF out] by simp
  then have lt: "?b ! 6 < 256" "?b ! 8 < 256" by (simp_all add: code_less_256)
  have "canonical_uuid (encode_uuid (?b [6 := (?b ! 6 AND 15) OR 64, 8 := (?b ! 8 AND 63) OR 128])) (Some (encode_hex_digit 4))"
    using len uuid4_bits [OF lt(1)] uuid4_bits [OF lt(2)] code_less_256
    by (intro encode_uuid_canonical) (auto simp: list_all_iff dest!: set_update_subset_insert [THEN subsetD])
  then show ?thesis by (simp add: u uuid4_text_def valid_uuid4_canonical encode_hex_digit_def)
qed


theorem random_uuid_valid_witness:
  "\<exists>u. random_uuid [Bytes (replicate 5 (CHR 0xFF)), Interrupted, Bytes (replicate 20 (CHR 0x00))] = Inr u \<and> valid_uuid4 u"
proof -
  have "okE (random_uuid [Bytes (replicate 5 (CHR 0xFF)), Interrupted, Bytes (replicate 20 (CHR 0x00))])" by code_simp
  then show ?thesis using random_uuid_valid by (auto simp: okE_iff)
qed

section \<open>Responses as a server writes them\<close>

fun to_hex :: "nat \<Rightarrow> string" where
  "to_hex n = (if n < 16 then [encode_hex_digit n] else to_hex (n div 16) @ [encode_hex_digit (n mod 16)])"

declare to_hex.simps [simp del]

definition chunk_text :: "string \<Rightarrow> string" where
  "chunk_text d = to_hex (length d) @ crlf @ d @ crlf"

definition chunked_text :: "string list \<Rightarrow> string" where
  "chunked_text ds = concat (map chunk_text ds) @ chunk_text []"

definition header_text :: "string \<times> string \<Rightarrow> string" where
  "header_text h = fst h @ '': '' @ snd h"

definition http_text :: "nat \<Rightarrow> string \<Rightarrow> (string \<times> string) list \<Rightarrow> string \<Rightarrow> string" where
  "http_text st reason hs text =
     ''HTTP/1.1 '' @ to_string st @ '' '' @ reason @ concat (map (\<lambda>h. crlf @ header_text h) hs) @ crlf @ crlf @ text"

definition no_break :: "string \<Rightarrow> bool" where
  "no_break s \<longleftrightarrow> byte 13 \<notin> set s \<and> byte 10 \<notin> set s"

definition header_ok :: "string \<times> string \<Rightarrow> bool" where
  "header_ok h \<longleftrightarrow> no_break (fst h) \<and> no_break (snd h) \<and> CHR '':'' \<notin> set (fst h) \<and> (snd h \<noteq> [] \<longrightarrow> hd (snd h) \<noteq> CHR '' '')"

definition lowered :: "(string \<times> string) list \<Rightarrow> (string \<times> string) list" where
  "lowered hs = map (\<lambda>(n, v). (map to_lower n, v)) hs"

text \<open>
  How the body is framed: in chunks, with its length, or up to the end of the stream. Chunk extensions
  and trailers, which HTTP/1.1 also has, are not among them; \<open>chunked_loop\<close> refuses both.
\<close>

definition framed :: "(string \<times> string) list \<Rightarrow> string \<Rightarrow> string \<Rightarrow> bool" where
  "framed fs b text \<longleftrightarrow>
     (map_of fs ''transfer-encoding'' = Some ''chunked'' \<and> map_of fs ''content-length'' = None \<and>
      (\<exists>ds. text = chunked_text ds \<and> [] \<notin> set ds \<and> concat ds = b)) \<or>
     (map_of fs ''transfer-encoding'' = None \<and> text = b \<and> map_of fs ''content-length'' \<in> {None, Some (to_string (length b))})"

lemma digit_of_hex [simp]: "d < 16 \<Longrightarrow> digit_of (encode_hex_digit d) = d"
proof -
  assume "d < 16"
  moreover have "\<forall>d \<in> set [0..<16]. digit_of (encode_hex_digit d) = d" by code_simp
  ultimately show ?thesis by simp
qed

lemma to_hex_number: "list_all (\<lambda>c. digit_of c < 16) (to_hex n) \<and> to_hex n \<noteq> [] \<and> number_value 16 (to_hex n) = n"
proof (induction n rule: to_hex.induct)
  case (1 n)
  then show ?case by (subst (1 2 3) to_hex.simps) (auto simp: number_value_def)
qed

lemma number_hex: "n \<le> u64_max \<Longrightarrow> number 16 (to_hex n) = Inr n"
  using to_hex_number [of n] by (simp add: number_def)

lemma digit_of_break [simp]: "digit_of (byte 13) = 36" "digit_of (byte 10) = 36"
  by code_simp+

lemma number_dec: 
  assumes "n \<le> u64_max"
  shows "number 10 (to_string n) = Inr n"
proof -
  have dec: "digit_of c = dec_val c \<and> digit_of c < 10" if "is_dec c" for c
    using that dec_val_less [of c] by (simp add: digit_of_def dec_val_def)
  have "number_value 10 s = dec_value s" if "list_all is_dec s" for s
    using that by (induction s rule: rev_induct) (auto simp: dec number_value_def)
  with to_string_digits [of n] assms show ?thesis
    by (auto simp: number_def dec list_all_iff)
qed

lemma find_sub_skip: "take (length n) (c # s) \<noteq> n \<Longrightarrow> find_sub n (c # s) = find_sub n s"
  by (simp add: find_sub.simps(2) del: take_Suc_Cons)

lemma find_sub_here: "n \<noteq> [] \<Longrightarrow> find_sub n (n @ s) = Some (n @ s)"
  by (cases n) (simp_all add: find_sub.simps(2))

lemma find_sub_past: "n \<noteq> [] \<Longrightarrow> hd n \<notin> set p \<Longrightarrow> find_sub n (p @ s) = find_sub n s"
proof (induction p)
  case (Cons c p)
  then have "take (length n) (c # p @ s) \<noteq> n" by (cases n) auto
  then show ?case using Cons by (simp add: find_sub_skip)
qed simp

lemma hex_no_break: "byte 13 \<notin> set (to_hex n)"
  using to_hex_number [of n] by (auto simp: list_all_iff)

lemma find_crlf_hex: "find_offset crlf (to_hex n @ crlf @ r) = Some (length (to_hex n))"
  by (simp add: find_offset_def find_sub_past hex_no_break find_sub_here [of crlf] crlf_def find_sub.simps(2))

lemma length_crlf [simp]: "length crlf = 2"
  by (simp add: crlf_def)

lemma chunk_step:
  assumes "length d \<le> 8192"
  shows "chunked_loop (chunk_text d @ r) out =
    (if d = [] then if r = [] then Inr out else Inl transport_unavailable
     else if length (out @ d) > 8192 then Inl transport_unavailable else chunked_loop r (out @ d))"
proof -
  have "length d \<le> u64_max" using assms by (simp add: u64_max_def)
  then have n: "number 16 (to_hex (length d)) = Inr (length d)" by (rule number_hex)
  have t: "chunk_text d @ r = to_hex (length d) @ crlf @ d @ crlf @ r" by (simp add: chunk_text_def)
  show ?thesis
    unfolding t by (subst chunked_loop.simps) (use assms in \<open>simp add: find_crlf_hex n Let_def\<close>)
qed

lemma chunked_loop_reads:
  assumes "length (out @ concat ds) \<le> 8192" and "[] \<notin> set ds"
  shows "chunked_loop (chunked_text ds) out = Inr (out @ concat ds)"
  using assms
proof (induction ds arbitrary: out)
  case Nil
  then show ?case using chunk_step [of "[]" "[]" out] by (simp add: chunked_text_def)
next
  case (Cons d ds)
  then show ?case using chunk_step [of d "chunked_text ds" out] by (auto simp: chunked_text_def)
qed

lemma split_on_none: "d \<notin> set s \<Longrightarrow> split_on d s = [s]"
  by (induction s) auto

lemma split_on_app: "d \<notin> set s \<Longrightarrow> split_on d (s @ d # r) = s # split_on d r"
  by (induction s) auto

text \<open>The lines of a header block: every line but the last ends with a carriage return.\<close>

definition block :: "string \<Rightarrow> string list \<Rightarrow> string" where
  "block l ls = l @ concat (map (\<lambda>h. crlf @ h) ls)"

lemma block_simps: "block l [] = l" "block l (h # ls) = l @ crlf @ block h ls"
  by (simp_all add: block_def)

lemma split_block:
  assumes "no_break l" and "list_all no_break ls"
  shows "split_on (byte 10) (block l ls) = map (\<lambda>x. x @ [byte 13]) (butlast (l # ls)) @ [last (l # ls)]"
  using assms
proof (induction ls arbitrary: l)
  case Nil
  then show ?case by (simp add: block_simps no_break_def split_on_none)
next
  case (Cons h ls)
  have "byte 10 \<notin> set (l @ [byte 13])" using Cons.prems by (simp add: no_break_def byte_def)
  from split_on_app [OF this, of "block h ls"] Cons show ?case by (simp add: block_simps crlf_def)
qed

lemma find_block:
  assumes "no_break l" and "list_all (\<lambda>h. no_break h \<and> h \<noteq> []) ls"
  shows "find_sub (crlf @ crlf) (block l ls @ crlf @ crlf @ r) = Some (crlf @ crlf @ r)"
  using assms
proof (induction ls arbitrary: l)
  case Nil
  then show ?case
    using find_sub_past [of "crlf @ crlf" l "crlf @ crlf @ r"] find_sub_here [of "crlf @ crlf" r]
    by (simp add: block_simps no_break_def crlf_def)
next
  case (Cons h ls)
  obtain c h' where h: "h = c # h'" "c \<noteq> byte 13" using Cons.prems by (cases h) (auto simp: no_break_def)
  have "byte 10 \<noteq> byte 13" by (simp add: byte_def)
  with h have "find_sub (crlf @ crlf) (crlf @ block h ls @ crlf @ crlf @ r) = find_sub (crlf @ crlf) (block h ls @ crlf @ crlf @ r)"
    by (cases ls) (simp_all add: block_simps crlf_def find_sub_skip)
  with Cons show ?case
    using find_sub_past [of "crlf @ crlf" l "crlf @ block h ls @ crlf @ crlf @ r"]
    by (simp add: block_simps no_break_def crlf_def)
qed

lemma emplace_map_of:
  "map_of fs k = None \<Longrightarrow> \<exists>fs'. emplace k v fs = Some fs' \<and> map_of fs' = (map_of fs)(k \<mapsto> v)"
proof (induction fs)
  case (Cons kv fs)
  then obtain fs' where "emplace k v fs = Some fs' \<and> map_of fs' = (map_of fs)(k \<mapsto> v)"
    by (cases kv) (fastforce split: if_splits)
  with Cons.prems show ?case by (cases kv) (auto simp: fun_eq_iff split: if_splits)
qed auto

lemma break_chars: "byte 13 \<noteq> CHR '':''" "byte 13 \<noteq> CHR '' ''" "byte 10 \<noteq> CHR '':''" "byte 10 \<noteq> CHR '' ''"
  by code_simp+

lemma header_line:
  assumes "header_ok (n, v)"
  shows "takeWhile (\<lambda>c. c \<noteq> CHR '':'') (header_text (n, v)) = n"
    "dropWhile (\<lambda>c. c = CHR '' '') (tl (dropWhile (\<lambda>c. c \<noteq> CHR '':'') (header_text (n, v)))) = v"
    "CHR '':'' \<in> set (header_text (n, v))" "no_break (header_text (n, v))" "header_text (n, v) \<noteq> []"
proof -
  have n: "\<forall>c \<in> set n. c \<noteq> CHR '':''" using assms by (auto simp: header_ok_def)
  then show "takeWhile (\<lambda>c. c \<noteq> CHR '':'') (header_text (n, v)) = n"
    by (simp add: header_text_def takeWhile_append2)
  have "dropWhile (\<lambda>c. c \<noteq> CHR '':'') (header_text (n, v)) = '': '' @ v"
    using n by (simp add: header_text_def dropWhile_append2)
  then show "dropWhile (\<lambda>c. c = CHR '' '') (tl (dropWhile (\<lambda>c. c \<noteq> CHR '':'') (header_text (n, v)))) = v"
    using assms by (cases v) (auto simp: header_ok_def)
  show "CHR '':'' \<in> set (header_text (n, v))" "header_text (n, v) \<noteq> []" by (simp_all add: header_text_def)
  show "no_break (header_text (n, v))" using assms by (auto simp: header_ok_def no_break_def header_text_def break_chars)
qed


lemma lowered_simps [simp]: "lowered [] = []" "lowered ((n, v) # hs) = (map to_lower n, v) # lowered hs"
  by (simp_all add: lowered_def)

lemma header_fields_read:
  assumes "list_all header_ok hs" and "distinct (map fst (lowered hs))" and "\<forall>k \<in> set (map fst (lowered hs)). map_of fs k = None"
    and "list_all2 (\<lambda>l h. l = header_text h \<or> l = header_text h @ [byte 13]) ls hs"
  shows "\<exists>fs'. header_fields ls fs = Inr fs' \<and> map_of fs' = map_of fs ++ map_of (lowered hs)"
  using assms
proof (induction hs arbitrary: ls fs)
  case (Cons h hs)
  obtain n v where h: "h = (n, v)" by force
  with Cons.prems obtain l ls' where ls: "ls = l # ls'" "l = header_text h \<or> l = header_text h @ [byte 13]"
    "list_all2 (\<lambda>l h. l = header_text h \<or> l = header_text h @ [byte 13]) ls' hs"
    by (auto simp: list_all2_Cons2)
  have ok: "header_ok (n, v)" using Cons.prems h by simp
  note hl = header_line [OF ok]
  have line: "(if l \<noteq> [] \<and> last l = byte 13 then butlast l else l) = header_text (n, v)"
    using ls(2) hl(4,5) h by (auto simp: no_break_def dest: last_in_set)
  from emplace_map_of [of fs "map to_lower n" v] Cons.prems h obtain fs1 where
    fs1: "emplace (map to_lower n) v fs = Some fs1" "map_of fs1 = (map_of fs)(map to_lower n \<mapsto> v)"
    by auto
  have fresh: "\<forall>k \<in> set (map fst (lowered hs)). map_of fs1 k = None"
    using Cons.prems h fs1 by (force simp: image_iff)
  from Cons.IH [OF _ _ fresh ls(3)] Cons.prems obtain fs' where
    fs': "header_fields ls' fs1 = Inr fs'" "map_of fs' = map_of fs1 ++ map_of (lowered hs)" by (auto simp: h)
  have "map to_lower n \<notin> dom (map_of (lowered hs))"
    using Cons.prems h by (auto simp: dom_map_of_conv_image_fst)
  then have "map_of fs' = map_of fs ++ map_of (lowered (h # hs))"
    using fs' fs1 h by (simp add: map_add_upd_left)
  with fs' fs1 line hl show ?case by (simp add: ls Let_def)
qed auto

lemma status_digits:
  assumes "100 \<le> st" and "st \<le> 999"
  shows "length (to_string st) = 3"
proof -
  have "length (to_string st) \<le> 3" using assms by (intro to_string_length_le) simp_all
  moreover have "dec_value (to_string st) < 10 ^ length (to_string st)" by (intro dec_value_bound to_string_digits)
  then have "(10 :: nat) ^ 2 < 10 ^ length (to_string st) \<or> 100 = (10 :: nat) ^ 2 \<and> 100 < (10 :: nat) ^ length (to_string st)"
    using assms by auto
  then have "2 < length (to_string st)" by (metis power_less_imp_less_exp one_less_numeral_iff semiring_norm(76))
  ultimately show ?thesis by simp
qed


lemma all2_butlast_last:
  "xs \<noteq> [] \<Longrightarrow> list_all2 (\<lambda>x h. x = h \<or> x = h @ [c]) (map (\<lambda>x. x @ [c]) (butlast xs) @ [last xs]) xs"
  by (induction xs) auto

lemma get_lines_block:
  assumes "no_break l" and "l \<noteq> []" and "list_all (\<lambda>h. no_break h \<and> h \<noteq> []) ls"
  shows "\<exists>k ks. get_lines (block l ls) = k # ks \<and> (k = l \<or> k = l @ [byte 13]) \<and>
    list_all2 (\<lambda>x h. x = h \<or> x = h @ [byte 13]) ks ls"
proof -
  let ?s = "map (\<lambda>x. x @ [byte 13]) (butlast (l # ls)) @ [last (l # ls)]"
  have "split_on (byte 10) (block l ls) = ?s" using assms by (intro split_block) (auto simp: list_all_iff)
  moreover have "last (l # ls) \<noteq> []" using assms by (auto simp: list_all_iff dest: last_in_set)
  ultimately have g: "get_lines (block l ls) = ?s" by (simp add: get_lines_def)
  have "list_all2 (\<lambda>x h. x = h \<or> x = h @ [byte 13]) ?s (l # ls)"
    by (rule all2_butlast_last) simp
  with g show ?thesis by (auto simp: list_all2_Cons2)
qed

lemma response_body_read:
  assumes "framed (lowered hs) b text" and "map_of fs = map_of (lowered hs)" and "length b \<le> 8192"
  shows "response_body fs text = Inr b"
proof -
  have "length b \<le> u64_max" using assms(3) by (simp add: u64_max_def)
  then show ?thesis
    using assms chunked_loop_reads [of "[]"]
    by (auto simp: framed_def response_body_def number_dec split: option.splits)
qed

text \<open>C30. A response in the form of HTTP/1.1 that the reader supports is read back: the status, the body the
  chunks were cut from and the retry delay. The form: a status line with a status of 100 to 999, header
  fields in any letter case and order but no name twice, and a body of at most 8192 bytes, in chunks of
  any sizes without extensions and trailers, with its length, or up to the end of the stream; at most
  16388 bytes before the body (16384 and the empty line) and 24576 bytes in all; a \<open>Retry-After\<close>, if there
  is one, of 1 to 86400 seconds. Legal responses with more bytes, or with a repeated header field, a chunk
  extension or a trailer, are not covered: the reader refuses them.
\<close>

theorem http_response_roundtrip:
  assumes "100 \<le> st" and "st \<le> 999" and "no_break reason" and "list_all header_ok hs" and "distinct (map fst (lowered hs))"
    and "framed (lowered hs) b text" and "length b \<le> 8192" and "length (http_text st reason hs text) \<le> 24576"
    and "length (http_text st reason hs []) \<le> 16388"
    and "map_of (lowered hs) ''retry-after'' = (if r = 0 then None else Some (to_string r))" and "r \<le> 86400"
  shows "parse_http_response (http_text st reason hs text) = Inr \<lparr>status = int st, body = b, retry_after = int r\<rparr>"
proof -
  define l where "l = ''HTTP/1.1 '' @ to_string st @ '' '' @ reason"
  let ?hs = "map header_text hs"
  have http: "http_text st reason hs t = block l ?hs @ crlf @ crlf @ t" for t
    by (simp add: l_def http_text_def block_def comp_def)
  have "byte 13 \<notin> set (to_string st)" "byte 10 \<notin> set (to_string st)"
    using to_string_digits [of st] by (auto simp: list_all_iff is_dec_def byte_def)
  moreover have "no_break ''HTTP/1.1 ''" by code_simp
  ultimately have l: "no_break l" "l \<noteq> []" using assms(3) by (simp_all add: l_def no_break_def)
  have hs: "list_all (\<lambda>h. no_break h \<and> h \<noteq> []) ?hs"
    using assms(4) by (force simp: list_all_iff dest: header_line(4,5))
  have off: "find_offset (crlf @ crlf) (http_text st reason hs text) = Some (length (block l ?hs))"
    unfolding http find_offset_def find_block [OF l(1) hs] by simp
  have cut: "take (length (block l ?hs)) (http_text st reason hs text) = block l ?hs"
    "drop (length (block l ?hs) + 4) (http_text st reason hs text) = text" unfolding http by simp_all
  from get_lines_block [OF l hs] obtain k ks where g: "get_lines (block l ?hs) = k # ks"
    and k: "k = l \<or> k = l @ [byte 13]" and ks: "list_all2 (\<lambda>x h. x = h \<or> x = h @ [byte 13]) ks ?hs" by auto
  have "list_all2 (\<lambda>l h. l = header_text h \<or> l = header_text h @ [byte 13]) ks hs"
    using ks by (simp add: list_all2_map2)
  from header_fields_read [OF assms(4,5) _ this, of "[]"] obtain fs where
    fs: "header_fields ks [] = Inr fs" "map_of fs = map_of (lowered hs)" by auto
  note dig = status_digits [OF assms(1,2)]
  from k dig have line: "13 \<le> length k" "take 9 k = ''HTTP/1.1 ''" "k ! 12 = CHR '' ''" "take 3 (drop 9 k) = to_string st"
    by (auto simp: l_def nth_append)
  have st: "number 10 (to_string st) = Inr st" using assms(2) by (intro number_dec) (simp add: u64_max_def)
  have retry: "response_retry fs = Inr (int r)"
    using assms(10,11) fs(2) by (auto simp: response_retry_def number_dec u64_max_def)
  have "length (block l ?hs) \<le> 16384" using assms(9) by (simp add: http crlf_def)
  then show ?thesis
    using assms(7,8) line fs st retry response_body_read [OF assms(6) fs(2) assms(7)]
    by (simp add: parse_http_response_def off cut g Let_def)
qed

theorem http_response_roundtrip_witness:
  "parse_http_response (http_text 201 ''Created'' [(''Retry-After'', ''7''), (''Transfer-Encoding'', ''chunked'')]
     (chunked_text [''ab'', ''cde''])) = Inr \<lparr>status = 201, body = ''abcde'', retry_after = 7\<rparr>"
proof -
  let ?hs = "[(''Retry-After'', ''7''), (''Transfer-Encoding'', ''chunked'')]" and ?t = "chunked_text [''ab'', ''cde'']"
  have "framed (lowered ?hs) ''abcde'' ?t"
  proof -
    have "map_of (lowered ?hs) ''transfer-encoding'' = Some ''chunked'' \<and> map_of (lowered ?hs) ''content-length'' = None" by code_simp
    then show ?thesis unfolding framed_def by (intro disjI1 conjI exI [of _ "[''ab'', ''cde'']"]) simp_all
  qed
  from http_response_roundtrip [OF _ _ _ _ _ this, of 201 "''Created''" 7] show ?thesis
  proof
    show "no_break ''Created''" "list_all header_ok ?hs" "distinct (map fst (lowered ?hs))" by code_simp+
    show "length (http_text 201 ''Created'' ?hs ?t) \<le> 24576" "length (http_text 201 ''Created'' ?hs []) \<le> 16388" by code_simp+
    show "map_of (lowered ?hs) ''retry-after'' = (if 7 = (0 :: nat) then None else Some (to_string 7))" by code_simp
  qed simp_all
qed

end
