(* ===== verification/Documents.thy ===== *)
theory Documents
  imports Inputs
begin

text \<open>
  Facts about JSON documents that the ledgers written as JSON rest on: what the reader returns is in
  order and within the depth it checks, what is written is read back, and how fields are updated.
\<close>

section \<open>What the reader returns\<close>

text \<open>Keys in order and integers in range, at every level.\<close>

fun json_shaped :: "Json \<Rightarrow> bool" where
  "json_shaped (JInt i) \<longleftrightarrow> i64_min \<le> i \<and> i \<le> i64_max"
| "json_shaped (JObject kvs) \<longleftrightarrow> sorted_wrt (<) (map fst kvs) \<and> list_all (\<lambda>(k, v). json_shaped v) kvs"
| "json_shaped (JArray vs) \<longleftrightarrow> list_all json_shaped vs"
| "json_shaped _ \<longleftrightarrow> True"

definition shaped_below :: "nat \<Rightarrow> Json \<Rightarrow> bool" where
  "shaped_below n j \<longleftrightarrow> json_shaped j \<and> json_depth j < n"

lemma emplace_sorted:
  "emplace k v kvs = Some kvs' \<Longrightarrow> sorted_wrt (<) (map fst kvs) \<Longrightarrow>
    sorted_wrt (<) (map fst kvs') \<and> set kvs' = insert (k, v) (set kvs)"
proof (induction kvs arbitrary: kvs')
  case (Cons kv kvs)
  obtain k' v' where kv: "kv = (k', v')" by force
  show ?case
  proof (cases "k < k'")
    case True
    with Cons.prems kv show ?thesis by (fastforce intro: less_trans split: if_splits)
  next
    case False
    with Cons.prems kv obtain r where r: "emplace k v kvs = Some r" "kvs' = (k', v') # r" and "k \<noteq> k'" by (auto split: if_splits)
    with Cons.IH [OF r(1)] Cons.prems kv False show ?thesis by (auto simp: not_less order.order_iff_strict)
  qed
qed auto

lemma shaped_object:
  "sorted_wrt (<) (map fst kvs) \<Longrightarrow> \<forall>kv \<in> set kvs. shaped_below n (snd kv) \<Longrightarrow> kvs \<noteq> [] \<Longrightarrow> shaped_below (Suc n) (JObject kvs)"
  by (cases kvs) (auto simp: shaped_below_def foldr_max_less list_all_iff comp_def split: prod.splits)

lemma shaped_array: "\<forall>v \<in> set vs. shaped_below n v \<Longrightarrow> vs \<noteq> [] \<Longrightarrow> shaped_below (Suc n) (JArray vs)"
  by (cases vs) (auto simp: shaped_below_def foldr_max_less list_all_iff)

definition shaping :: "nat \<Rightarrow> reader \<Rightarrow> bool" where
  "shaping n p \<longleftrightarrow> (\<forall>s v r. p s = Inr (v, r) \<longrightarrow> shaped_below n v)"

lemma shapingD: "shaping n p \<Longrightarrow> p s = Inr (v, r) \<Longrightarrow> shaped_below n v"
  by (auto simp: shaping_def)

lemma array_loop_shaped:
  assumes "shaping n p"
  shows "array_loop k p s acc = Inr (vs, r) \<Longrightarrow> \<forall>v \<in> set acc. shaped_below n v \<Longrightarrow> vs \<noteq> [] \<and> (\<forall>v \<in> set vs. shaped_below n v)"
proof (induction k arbitrary: s acc)
  case (Suc k)
  from Suc.prems(1) obtain v r1 where v: "p s = Inr (v, r1)"
    and rest: "(case take_char (CHR '','') r1 of (True, r2) \<Rightarrow> array_loop k p r2 (acc @ [v]) | (False, r2) \<Rightarrow> Inr (acc @ [v], r2)) = Inr (vs, r)"
    by (auto simp: bindE_eq_Inr simp del: split_paired_Ex)
  obtain b r2 where t: "take_char (CHR '','') r1 = (b, r2)" by force
  have "\<forall>v \<in> set (acc @ [v]). shaped_below n v" using Suc.prems(2) shapingD [OF assms v] by auto
  with rest t Suc.IH [of r2 "acc @ [v]"] show ?case by (cases b) auto
qed simp

lemma object_loop_shaped:
  assumes "shaping n p"
  shows "object_loop k p s acc = Inr (kvs, r) \<Longrightarrow> sorted_wrt (<) (map fst acc) \<Longrightarrow> \<forall>kv \<in> set acc. shaped_below n (snd kv) \<Longrightarrow>
    kvs \<noteq> [] \<and> sorted_wrt (<) (map fst kvs) \<and> (\<forall>kv \<in> set kvs. shaped_below n (snd kv))"
proof (induction k arbitrary: s acc)
  case (Suc k)
  from Suc.prems(1) obtain key r1 v r2 acc' where v: "p r1 = Inr (v, r2)" and e: "emplace key v acc = Some acc'"
    and rest: "(case take_char (CHR '','') r2 of (True, r3) \<Rightarrow> object_loop k p r3 acc' | (False, r3) \<Rightarrow> Inr (acc', r3)) = Inr (kvs, r)"
    by (fastforce simp: bindE_eq_Inr split: option.splits)
  obtain b r3 where t: "take_char (CHR '','') r2 = (b, r3)" by force
  have "sorted_wrt (<) (map fst acc')" "\<forall>kv \<in> set acc'. shaped_below n (snd kv)" "acc' \<noteq> []"
    using emplace_sorted [OF e Suc.prems(2)] Suc.prems(3) shapingD [OF assms v] by auto
  with rest t Suc.IH [of r3 acc'] show ?case by (cases b) auto
qed simp

lemma number_tail_shaped: "number_tail fc neg whole r0 = Inr (v, r) \<Longrightarrow> shaped_below (Suc n) v"
  by (auto simp: number_tail_def bindE_eq_Inr shaped_below_def Let_def split: if_splits option.splits)

lemma number_shaped: "parse_number fc s = Inr (v, r) \<Longrightarrow> shaped_below (Suc n) v"
  by (auto simp: parse_number_def number_digits_def dest: number_tail_shaped split: list.splits if_splits prod.splits)

lemma item_body_shaped:
  assumes "shaping n p"
  shows "shaping (Suc n) (item_body fc p)"
  unfolding shaping_def
proof (intro allI impI)
  fix s v r
  assume body: "item_body fc p s = Inr (v, r)"
  have arr: "shaped_below (Suc n) (JArray vs)" if "array_loop k p t [] = Inr (vs, r')" for k t vs r'
    using array_loop_shaped [OF assms that] shaped_array by auto
  have obj: "shaped_below (Suc n) (JObject kvs)" if "object_loop k p t [] = Inr (kvs, r')" for k t kvs r'
    using object_loop_shaped [OF assms that] shaped_object by auto
  have none: "shaped_below (Suc n) (JObject [])" "shaped_below (Suc n) (JArray [])" "shaped_below (Suc n) (JString t)"
    "shaped_below (Suc n) (JBool b)" "shaped_below (Suc n) JNull" for t b
    by (simp_all add: shaped_below_def)
  obtain c cs where s: "space s = c # cs" using body by (cases "space s") (auto simp: item_body_def)
  obtain b1 q1 b2 q2 where t: "take_char (CHR ''}'') cs = (b1, q1)" "take_char (CHR '']'') cs = (b2, q2)" by force
  show "shaped_below (Suc n) v"
    using body s t by (cases b1; cases b2) (auto simp: item_body_def Let_def bindE_eq_Inr none simp del: array_loop.simps object_loop.simps
      dest: number_shaped arr obj split: if_splits)
qed

lemma item_shaped: "shaping n (item fc n)"
proof (induction n)
  case (Suc n)
  from item_body_shaped [OF this, of fc] show ?case by (simp add: shaping_def)
qed (simp add: shaping_def)

lemma parse_json_shaped: "parse_json fc t limit = Inr j \<Longrightarrow> json_shaped j \<and> json_depth j \<le> 24"
  by (auto simp: parse_json_def bindE_eq_Inr dest!: shapingD [OF item_shaped] split: if_splits) (auto simp: shaped_below_def)

section \<open>What is written is read back\<close>

lemma encode_items_Inr: "encode_items vs = Inr ts \<longleftrightarrow> list_all2 (\<lambda>v t. encode_json v = Inr t) vs ts"
  by (induction vs arbitrary: ts) (auto simp: bindE_eq_Inr list_all2_Cons1)

lemma encode_fields_ok: "encode_fields kvs = Inr ts \<Longrightarrow> \<forall>(k, v) \<in> set kvs. valid_utf8 k \<and> (\<exists>t. encode_json v = Inr t)"
proof (induction kvs arbitrary: ts)
  case (Cons kv kvs)
  then show ?case by (cases kv) (auto simp: bindE_eq_Inr quote_json_Inr split_beta)
qed simp

lemma encoded_ok: "encode_json j = Inr t \<Longrightarrow> json_shaped j \<Longrightarrow> json_ok j"
proof (induction j arbitrary: t)
  case (JObject kvs)
  then obtain ts where "encode_fields kvs = Inr ts" by (auto simp: bindE_eq_Inr)
  with encode_fields_ok [OF this] JObject show ?case by (fastforce simp: list_all_iff)
next
  case (JArray vs)
  then obtain ts where "encode_items vs = Inr ts" by (auto simp: bindE_eq_Inr)
  then have "\<forall>v \<in> set vs. \<exists>t. encode_json v = Inr t" by (auto simp: encode_items_Inr list_all2_conv_all_nth in_set_conv_nth)
  with JArray show ?case by (fastforce simp: list_all_iff)
qed (auto simp: quote_json_Inr)

lemma ok_shaped: "json_ok j \<Longrightarrow> json_shaped j"
  by (induction j) (fastforce simp: list_all_iff)+

lemma parse_encode:
  assumes "encode_json j = Inr t" and "json_shaped j" and "json_depth j \<le> 24"
  shows "parse_json fc t limit = (if length t \<le> limit then Inr j else Inl invalid_json)"
  using json_read_back [OF encoded_ok [OF assms(1,2)] assms(3), of fc] assms(1) by (simp add: invalid_json_def)


section \<open>Documents of a bounded depth\<close>

definition doc :: "nat \<Rightarrow> Json \<Rightarrow> bool" where
  "doc n j \<longleftrightarrow> json_shaped j \<and> json_depth j \<le> n"

lemma doc_object: "doc (Suc n) (JObject kvs) \<longleftrightarrow> sorted_wrt (<) (map fst kvs) \<and> (\<forall>(k, v) \<in> set kvs. doc n v)"
  using foldr_max_less [of "\<lambda>(k, v). json_depth v" kvs "Suc n"]
  by (auto simp: doc_def list_all_iff less_Suc_eq_le split: prod.splits)

lemma doc_array: "doc (Suc n) (JArray vs) \<longleftrightarrow> (\<forall>v \<in> set vs. doc n v)"
  using foldr_max_less [of json_depth vs "Suc n"] by (auto simp: doc_def list_all_iff less_Suc_eq_le)

lemma doc_scalar [simp]:
  "doc n (JString t)" "doc n (JBool b)" "doc n JNull" "doc n (JInt i) \<longleftrightarrow> i64_min \<le> i \<and> i \<le> i64_max" "doc n (JObject [])" "doc n (JArray [])"
  by (simp_all add: doc_def)

lemma doc_mono: "doc m j \<Longrightarrow> m \<le> n \<Longrightarrow> doc n j"
  by (simp add: doc_def)

lemma parse_json_doc: "parse_json fc t limit = Inr j \<Longrightarrow> doc 24 j"
  using parse_json_shaped by (simp add: doc_def)

lemma parse_doc:
  "encode_json j = Inr t \<Longrightarrow> doc 24 j \<Longrightarrow> parse_json fc t limit = (if length t \<le> limit then Inr j else Inl invalid_json)"
  by (simp add: doc_def parse_encode)

lemma doc_at: "doc (Suc n) j \<Longrightarrow> json_at k j = Inr v \<Longrightarrow> doc n v"
  by (cases j) (auto simp: json_at_def json_object_def doc_object dest!: map_of_SomeD split: option.splits)

lemma set_map_set: "set (map_set k v kvs) \<subseteq> insert (k, v) (set kvs)"
  by (induction k v kvs rule: map_set.induct) auto

lemma map_set_sorted: "sorted_wrt (<) (map fst kvs) \<Longrightarrow> sorted_wrt (<) (map fst (map_set k v kvs))"
proof (induction k v kvs rule: map_set.induct)
  case (2 k v k' v' kvs)
  have rest: "\<forall>kv \<in> set kvs. k' < fst kv" using "2.prems" by auto
  consider "k = k'" | "k < k'" | "k' < k" by force
  then show ?case
  proof cases
    case 2
    with rest "2.prems" show ?thesis by (auto intro: less_trans)
  next
    case 3
    have "k' < fst kv" if "kv \<in> set (map_set k v kvs)" for kv
      using set_map_set [of k v kvs] that rest 3 by auto
    moreover have "sorted_wrt (<) (map fst (map_set k v kvs))" using 3 "2.prems" "2.IH" by auto
    ultimately show ?thesis using 3 by auto
  qed (use "2.prems" in auto)
qed simp

lemma map_of_map_set: "sorted_wrt (<) (map fst kvs) \<Longrightarrow> map_of (map_set k v kvs) = (map_of kvs)(k \<mapsto> v)"
proof (induction k v kvs rule: map_set.induct)
  case (2 k v k' v' kvs)
  then show ?case by (auto simp: fun_eq_iff)
qed auto

lemma map_of_map_erase: "map_of (map_erase k kvs) = (map_of kvs)(k := None)"
  by (induction kvs) (auto simp: map_erase_def fun_eq_iff)

lemma map_erase_sorted: "sorted_wrt (<) (map fst kvs) \<Longrightarrow> sorted_wrt (<) (map fst (map_erase k kvs))"
  by (induction kvs) (auto simp: map_erase_def)

lemma doc_set: "doc (Suc n) (JObject kvs) \<Longrightarrow> doc n v \<Longrightarrow> doc (Suc n) (JObject (map_set k v kvs))"
  using set_map_set [of k v kvs] by (fastforce simp: doc_object map_set_sorted)

lemma doc_erase: "doc (Suc n) (JObject kvs) \<Longrightarrow> doc (Suc n) (JObject (map_erase k kvs))"
  by (auto simp: doc_object map_erase_sorted) (auto simp: map_erase_def)

lemma doc_fields: "list_all (\<lambda>(k, v). doc n v) kvs \<Longrightarrow> doc (Suc n) (json_fields kvs)"
proof -
  have "doc (Suc n) (JObject acc) \<Longrightarrow> list_all (\<lambda>(k, v). doc n v) kvs \<Longrightarrow> doc (Suc n) (JObject (foldl (\<lambda>m (k, v). map_set k v m) acc kvs))" for acc
  proof (induction kvs arbitrary: acc)
    case (Cons kv kvs)
    then show ?case by (cases kv) (auto intro: doc_set)
  qed simp
  then show "list_all (\<lambda>(k, v). doc n v) kvs \<Longrightarrow> ?thesis" by (simp add: json_fields_def)
qed


section \<open>What is written is UTF-8\<close>

lemma valid_utf8_append: "valid_utf8 s \<Longrightarrow> valid_utf8 t \<Longrightarrow> valid_utf8 (s @ t)"
proof (induction s rule: valid_utf8.induct)
  case (2 b bs)
  let ?n = "utf8_extra (code b)"
  show ?case
  proof (cases "code b < 128")
    case True
    with 2 show ?thesis by simp
  next
    case False
    with "2.prems"(1) have n: "?n \<noteq> 9" "?n \<le> length bs" and rest: "valid_utf8 (drop ?n bs)"
      by (auto simp: Let_def split: if_splits)
    have "valid_utf8 (drop ?n bs @ t)"
      using "2.IH"(2) [OF refl False refl refl refl] "2.prems" n rest False by (auto simp: Let_def split: if_splits)
    with "2.prems"(1) n False show ?thesis by (auto simp: Let_def split: if_splits)
  qed
qed simp

lemma escape_continuation: "code c \<ge> 128 \<Longrightarrow> escape_char c = [c]"
  by (auto simp: escape_char_def code_def)

lemma escape_ascii: "code c < 128 \<Longrightarrow> valid_utf8 (escape_char c)"
proof -
  have hex: "code (encode_hex_digit d) < 128" if "d < 16" for d
    using encode_hex_digit_props [OF that] by (auto simp: char_class_defs)
  assume "code c < 128"
  then show ?thesis
    by (intro valid_utf8_ascii) (auto simp: escape_char_def code_def intro!: hex [unfolded code_def])
qed

lemma concat_single: "\<forall>x \<in> set xs. f x = [x] \<Longrightarrow> concat (map f xs) = xs"
  by (induction xs) auto

lemma escaped_utf8: "valid_utf8 s \<Longrightarrow> valid_utf8 (concat (map escape_char s))"
proof (induction s rule: valid_utf8.induct)
  case (2 b bs)
  let ?n = "utf8_extra (code b)"
  show ?case
  proof (cases "code b < 128")
    case True
    with 2 show ?thesis by (auto intro!: valid_utf8_append escape_ascii)
  next
    case False
    with "2.prems" have n: "?n \<noteq> 9" "?n \<le> length bs" "list_all (\<lambda>p. code p div 64 = 2) (take ?n bs)" and rest: "valid_utf8 (drop ?n bs)"
      by (auto simp: Let_def split: if_splits)
    have "\<forall>c \<in> set (take ?n bs). escape_char c = [c]"
      using n(3) by (auto simp: list_all_iff intro!: escape_continuation)
    then have "concat (map escape_char (take ?n bs)) = take ?n bs" by (rule concat_single)
    then have e: "concat (map escape_char (b # bs)) = b # take ?n bs @ concat (map escape_char (drop ?n bs))"
      using False escape_continuation [of b] concat_append map_append append_take_drop_id [of ?n bs]
      by (metis append_Cons append_Nil concat.simps(2) list.simps(9) not_less)
    have "valid_utf8 (concat (map escape_char (drop ?n bs)))"
      using "2.IH"(2) [OF refl False refl refl refl] "2.prems" n rest False by (auto simp: Let_def split: if_splits)
    with "2.prems" n False show ?thesis unfolding e by (auto simp: Let_def split: if_splits)
  qed
qed simp

lemma json_string_utf8: "valid_utf8 s \<Longrightarrow> valid_utf8 (json_string s)"
proof -
  have q: "valid_utf8 [CHR 0x22]" by (simp add: code_def)
  assume "valid_utf8 s"
  then have "valid_utf8 ([CHR 0x22] @ concat (map escape_char s) @ [CHR 0x22])" by (intro valid_utf8_append escaped_utf8 q)
  then show ?thesis by (simp add: json_string_def)
qed

lemma commas_utf8: "list_all valid_utf8 ts \<Longrightarrow> valid_utf8 (commas ts)"
proof (induction ts rule: commas.induct)
  case (3 t u ts)
  have "valid_utf8 ('','' @ commas (u # ts))" using 3 by (intro valid_utf8_append) (simp_all add: code_def)
  with 3 show ?case by (auto intro: valid_utf8_append)
qed auto

lemma to_string_utf8: "valid_utf8 (int_to_string i)"
proof -
  have "valid_utf8 (to_string n)" for n
    using to_string_digits [of n] by (intro valid_utf8_ascii) (auto simp: list_all_iff is_dec_def)
  then show ?thesis by (simp add: int_to_string_def code_def)
qed

lemma encode_not_Nil: "encode_json j = Inr t \<Longrightarrow> t \<noteq> []"
  by (cases j) (auto simp: bindE_eq_Inr quote_json_Inr json_string_def int_to_string_def split: if_splits)

lemma encode_fields_utf8:
  "encode_fields kvs = Inr us \<Longrightarrow> (\<And>k v t. (k, v) \<in> set kvs \<Longrightarrow> encode_json v = Inr t \<Longrightarrow> valid_utf8 t) \<Longrightarrow>
    list_all (\<lambda>u. valid_utf8 u \<and> u \<noteq> []) us"
proof (induction kvs arbitrary: us)
  case (Cons kv kvs)
  obtain k v where kv: "kv = (k, v)" by force
  with Cons.prems(1) obtain t us' where u: "encode_json v = Inr t" "encode_fields kvs = Inr us'" "valid_utf8 k"
    "us = (json_string k @ '':'' @ t) # us'" by (auto simp: bindE_eq_Inr quote_json_Inr)
  have "valid_utf8 (json_string k @ '':'' @ t)"
    using u Cons.prems(2) [of k v t] kv by (intro valid_utf8_append json_string_utf8) (simp_all add: code_def)
  with u Cons show ?case by auto
qed simp

lemma encode_utf8: "encode_json j = Inr t \<Longrightarrow> valid_utf8 t"
proof (induction j arbitrary: t)
  case (JObject kvs)
  then obtain us where us: "encode_fields kvs = Inr us" "t = join_json (CHR ''{'') us @ ''}''" by (auto simp: bindE_eq_Inr)
  have ok: "list_all (\<lambda>u. valid_utf8 u \<and> u \<noteq> []) us"
    using JObject.IH by (intro encode_fields_utf8 [OF us(1)]) auto
  then have "valid_utf8 (''{'' @ commas us @ ''}'')"
    by (intro valid_utf8_append commas_utf8) (auto simp: code_def list_all_iff)
  with us(2) ok show ?case by (simp add: join_json_commas list_all_iff)
next
  case (JArray vs)
  then obtain us where us: "encode_items vs = Inr us" "t = join_json (CHR ''['') us @ '']''" by (auto simp: bindE_eq_Inr)
  have "valid_utf8 u \<and> u \<noteq> []" if u: "u \<in> set us" for u
  proof -
    from us(1) u obtain v where "v \<in> set vs" "encode_json v = Inr u"
      by (auto simp: encode_items_Inr list_all2_conv_all_nth in_set_conv_nth) (metis nth_mem)
    then show ?thesis using JArray.IH encode_not_Nil by blast
  qed
  then have ok: "list_all (\<lambda>u. valid_utf8 u \<and> u \<noteq> []) us" by (simp add: list_all_iff)
  then have "valid_utf8 (''['' @ commas us @ '']'')"
    by (intro valid_utf8_append commas_utf8) (auto simp: code_def list_all_iff)
  with us(2) ok show ?case by (simp add: join_json_commas list_all_iff)
qed (auto simp: quote_json_Inr json_string_utf8 to_string_utf8 code_def)

section \<open>The length of what is written\<close>

definition printable :: "string \<Rightarrow> bool" where
  "printable s \<longleftrightarrow> list_all (\<lambda>c. 32 \<le> code c) s"

lemma printable_simps [simp]: "printable []" "printable (c # s) \<longleftrightarrow> 32 \<le> code c \<and> printable s" "printable (s @ t) \<longleftrightarrow> printable s \<and> printable t"
  by (simp_all add: printable_def)

lemma printable_string: "printable (json_string s)"
proof -
  have hex: "32 \<le> code (encode_hex_digit d)" if "d < 16" for d
    using encode_hex_digit_props [OF that] by (auto simp: char_class_defs)
  have "printable (escape_char c)" for c
    by (auto simp: escape_char_def code_def intro!: hex [unfolded code_def])
  then have "printable (concat (map escape_char s))" by (induction s) auto
  then show ?thesis by (simp add: json_string_def code_def)
qed

lemma printable_commas: "list_all printable ts \<Longrightarrow> printable (commas ts)"
  by (induction ts rule: commas.induct) (auto simp: code_def)

lemma printable_int: "printable (int_to_string i)"
proof -
  have "printable (to_string n)" for n
    using to_string_digits [of n] by (auto simp: printable_def list_all_iff is_dec_def)
  then show ?thesis by (simp add: int_to_string_def code_def)
qed

lemma printable_fields:
  "encode_fields kvs = Inr us \<Longrightarrow> (\<And>k v t. (k, v) \<in> set kvs \<Longrightarrow> encode_json v = Inr t \<Longrightarrow> printable t) \<Longrightarrow>
    list_all (\<lambda>u. printable u \<and> u \<noteq> []) us"
proof (induction kvs arbitrary: us)
  case (Cons kv kvs)
  obtain k v where kv: "kv = (k, v)" by force
  with Cons.prems(1) obtain t us' where u: "encode_json v = Inr t" "encode_fields kvs = Inr us'" "us = (json_string k @ '':'' @ t) # us'"
    by (auto simp: bindE_eq_Inr quote_json_Inr)
  have "printable t" using u Cons.prems(2) [of k v t] kv by simp
  with u Cons show ?case by (auto simp: printable_string code_def)
qed simp

lemma encode_printable: "encode_json j = Inr t \<Longrightarrow> printable t"
proof (induction j arbitrary: t)
  case (JObject kvs)
  then obtain us where us: "encode_fields kvs = Inr us" "t = join_json (CHR ''{'') us @ ''}''" by (auto simp: bindE_eq_Inr)
  have ok: "list_all (\<lambda>u. printable u \<and> u \<noteq> []) us" using JObject.IH by (intro printable_fields [OF us(1)]) auto
  then have "printable (commas us)" by (intro printable_commas) (auto simp: list_all_iff)
  with us(2) ok show ?case by (simp add: join_json_commas list_all_iff code_def)
next
  case (JArray vs)
  then obtain us where us: "encode_items vs = Inr us" "t = join_json (CHR ''['') us @ '']''" by (auto simp: bindE_eq_Inr)
  have "printable u \<and> u \<noteq> []" if u: "u \<in> set us" for u
  proof -
    from us(1) u obtain v where "v \<in> set vs" "encode_json v = Inr u"
      by (auto simp: encode_items_Inr list_all2_conv_all_nth in_set_conv_nth) (metis nth_mem)
    then show ?thesis using JArray.IH encode_not_Nil by blast
  qed
  then have ok: "list_all (\<lambda>u. printable u \<and> u \<noteq> []) us" by (simp add: list_all_iff)
  then have "printable (commas us)" by (intro printable_commas) (auto simp: list_all_iff)
  with us(2) ok show ?case by (simp add: join_json_commas list_all_iff code_def)
qed (auto simp: quote_json_Inr printable_string printable_int code_def)

lemma json_string_length: "printable s \<Longrightarrow> length (json_string s) \<le> 2 * length s + 2"
proof -
  assume "printable s"
  then have "length (concat (map escape_char s)) \<le> 2 * length s"
    by (induction s) (auto simp: escape_char_def)
  then show ?thesis by (simp add: json_string_def)
qed

end
