(* ===== verification/Advisory.thy ===== *)
theory Advisory
  imports Store2 Messages3 Documents Capture
begin

text \<open>
  The advisory runtime (\<^verbatim>\<open>src/runtime/advisory_runtime.cpp\<close>): a ledger of the requests sent to the gateway and of
  its answers, an outbox of facts, a journal that joins the two, and the demo reset. Its state and its
  outbox are directories of files. As in the model of the state store, an effect on the disk counts one
  tick, at which it may fail or the process may end. The temporary files of \<open>atomic_private_file\<close> are not
  represented: their names start with a dot, and every reader of the directories passes over them. All
  files are private regular files of the service, so the checks of type and mode in \<open>read\<close> pass.
\<close>

section \<open>Reading JSON\<close>

text \<open>A chain of conditions joined by \<open>||\<close> in front of a \<open>throw\<close>.\<close>

definition failIf :: "bool result list \<Rightarrow> exn \<Rightarrow> unit result" where
  "failIf cs e = bindE (anyE cs) (\<lambda>bad. throwIf bad e)"

definition str_not :: "string \<Rightarrow> string \<Rightarrow> Json \<Rightarrow> bool result" where
  "str_not k v j = bindE (str_at k j) (\<lambda>s. Inr (s \<noteq> v))"

definition int_not :: "string \<Rightarrow> int \<Rightarrow> Json \<Rightarrow> bool result" where
  "int_not k i j = bindE (int_at k j) (\<lambda>n. Inr (n \<noteq> i))"

definition size_not :: "nat \<Rightarrow> Json \<Rightarrow> bool result" where
  "size_not n j = bindE (json_object j) (\<lambda>kvs. Inr (length kvs \<noteq> n))"

definition has_key :: "string \<Rightarrow> Json \<Rightarrow> bool result" where
  "has_key k j = bindE (json_object j) (\<lambda>kvs. Inr (map_of kvs k \<noteq> None))"

definition null_at :: "string \<Rightarrow> Json \<Rightarrow> bool result" where
  "null_at k j = bindE (json_at k j) (\<lambda>v. Inr (v = JNull))"

text \<open>The texts of two values differ.\<close>

definition text_not :: "string \<Rightarrow> Json \<Rightarrow> Json \<Rightarrow> bool result" where
  "text_not k a b = bindE (bindE (json_at k a) encode_json) (\<lambda>x. bindE (bindE (json_at k b) encode_json) (\<lambda>y. Inr (x \<noteq> y)))"

definition put :: "string \<Rightarrow> Json \<Rightarrow> Json \<Rightarrow> Json result" where
  "put k v j = bindE (json_object j) (\<lambda>kvs. Inr (JObject (map_set k v kvs)))"

definition change :: "string \<Rightarrow> (Json \<Rightarrow> Json result) \<Rightarrow> Json \<Rightarrow> Json result" where
  "change k f j = bindE (json_at k j) (\<lambda>v. bindE (f v) (\<lambda>w. put k w j))"

definition requests :: "Json \<Rightarrow> Json list result" where
  "requests j = bindE (json_at ''requests'' j) json_array"

section \<open>Requests, statuses and facts\<close>

definition request_invalid :: exn where "request_invalid = Runtime_error ''ADVISORY_REQUEST_INVALID''"

definition read_request :: "Json \<Rightarrow> AdvisoryRequest result" where
  "read_request j =
     bindE (int_at ''sequence'' j) (\<lambda>sequence.
     bindE (str_at ''operation'' j) (\<lambda>operation.
       (let clear = (operation = ''CLEAR'')
        in bindE (failIf ([size_not (if clear then 11 else 12) j, int_not ''schemaVersion'' 1 j, Inr (sequence \<le> 0)] @
                   (if clear then [str_not ''reasonCode'' ''CONDITION_CLEARED'' j, has_key ''recommendation'' j]
                    else [Inr (operation \<noteq> ''SET''), str_not ''reasonCode'' ''PREDICTED_BRAKE_DEGRADATION'' j,
                          str_not ''recommendation'' ''INSPECTION_RECOMMENDED'' j]) @
                   [str_not ''modelVersion'' ''brake-condition-demo-v1'' j]) request_invalid) (\<lambda>_.
           bindE (str_at ''producerEpoch'' j) (\<lambda>epoch.
           bindE (str_at ''decisionId'' j) (\<lambda>decision.
           bindE (str_at ''issuedAt'' j) (\<lambda>issued.
           bindE (str_at ''serviceVersion'' j) (\<lambda>version.
           bindE (build_request clear epoch (nat sequence) decision issued version) (\<lambda>r.
           bindE (encode_json j) (\<lambda>t. if request_json r \<noteq> t then Inl request_invalid else Inr r))))))))))"

definition advisory_metadata :: "(string \<Rightarrow> dbl option) \<Rightarrow> Json \<Rightarrow> AdvisoryMetadata result" where
  "advisory_metadata fc j =
     bindE (parse_metadata_binding fc j) (\<lambda>m.
       Inr \<lparr>am_unit_system_uid = unit_system_uid m, am_unit_role = unit_role m, am_service_version = service_version m,
            am_service_artifact_sha256 = service_artifact_sha256 m, am_vdp_contract_version = vdp_contract_version m,
            am_vdp_contract_sha256 = vdp_contract_sha256 m, am_service_instance = service_instance m\<rparr>)"

definition gateway_states :: "GatewayState list" where
  "gateway_states = [Received, Applied, Cleared, Rejected, Expired, Failed]"

definition gateway_reasons :: "GatewayReason list" where
  "gateway_reasons = [NoReason, UnauthorizedSource, UnauthorizedPath, InvalidSchema, InvalidValue, StaleRequest, ReplayDetected,
     SequenceRollback, RateLimited, QmPolicyDenied, InternalError]"

definition fact_id :: "string \<Rightarrow> bool" where
  "fact_id name \<longleftrightarrow> length name \<ge> 38 \<and> canonical_uuid (take 36 name) (Some (CHR ''5'')) \<and> name ! 36 = CHR ''.'' \<and>
     drop 37 name \<in> set (map gateway_state_name gateway_states)"

definition status_invalid :: exn where "status_invalid = Invalid_argument ''GATEWAY_STATUS_INVALID''"

definition named :: "('a \<Rightarrow> string) \<Rightarrow> 'a list \<Rightarrow> string \<Rightarrow> 'a result" where
  "named f xs t = (case find (\<lambda>x. t = f x) xs of None \<Rightarrow> Inl status_invalid | Some x \<Rightarrow> Inr x)"

definition active_named :: "string \<Rightarrow> string \<Rightarrow> 'a \<Rightarrow> 'a \<Rightarrow> 'a result" where
  "active_named t name active none =
     (if t = name then Inr active else if t \<noteq> ''NONE'' then Inl (Invalid_argument ''GATEWAY_STATUS_WRONG_ENDPOINT'') else Inr none)"

definition parse_gateway_status :: "(string \<Rightarrow> dbl option) \<Rightarrow> string \<Rightarrow> GatewayStatus result" where
  "parse_gateway_status fc bytes =
     bindE (parse_json fc bytes 1024) (\<lambda>j.
     bindE (failIf [size_not 10 j, int_not ''schemaVersion'' 1 j, bindE (int_at ''sequence'' j) (\<lambda>n. Inr (n \<le> 0))] status_invalid) (\<lambda>_.
     bindE (str_at ''requestId'' j) (\<lambda>rid.
     bindE (str_at ''producerEpoch'' j) (\<lambda>epoch.
     bindE (int_at ''sequence'' j) (\<lambda>sequence.
     bindE (bindE (str_at ''state'' j) (named gateway_state_name gateway_states)) (\<lambda>state.
     bindE (bindE (str_at ''reason'' j) (named gateway_reason_name gateway_reasons)) (\<lambda>reason.
     bindE (str_at ''gatewayObservedAt'' j) (\<lambda>observed.
     bindE (str_at ''activeRecommendation'' j) (\<lambda>recommendation.
     bindE (str_at ''activeReasonCode'' j) (\<lambda>reason_code.
     bindE (active_named recommendation ''INSPECTION_RECOMMENDED'' InspectionAdvised NoRecommendation) (\<lambda>arec.
     bindE (active_named reason_code ''PREDICTED_BRAKE_DEGRADATION'' PredictedBrakeDegradation NoActiveReason) (\<lambda>areason.
     bindE (bindE (json_at ''activeUntil'' j) (\<lambda>u. if u = JNull then Inr None else bindE (json_str u) (\<lambda>t. Inr (Some t)))) (\<lambda>until.
       (let s = \<lparr>status_request_id = rid, status_epoch = epoch, status_sequence = nat sequence, status_state = state,
              status_reason = reason, gateway_observed_at = observed, active_recommendation = arec, active_reason = areason,
              active_until = until\<rparr>
        in bindE (validate_gateway_status s) (\<lambda>_. Inr s)))))))))))))))"

section \<open>The persisted state\<close>

definition state_invalid :: exn where "state_invalid = Runtime_error ''ADVISORY_STATE_INVALID''"
definition reset_invalid :: exn where "reset_invalid = Runtime_error ''RESET_STATE_INVALID''"

definition echoed_keys :: "string list" where
  "echoed_keys = [''schemaVersion'', ''unitSystemUid'', ''serviceVersion'', ''serviceInstance'', ''producerEpoch'']"

definition validate_reset_ack :: "Json \<Rightarrow> Json \<Rightarrow> Json \<Rightarrow> unit result" where
  "validate_reset_ack reset command ack =
     bindE (failIf [size_not 9 ack,
         bindE (str_at ''commandId'' ack) (\<lambda>a. bindE (str_at ''commandId'' command) (\<lambda>c. Inr (a \<noteq> c))),
         bindE (str_not ''result'' ''CLEARED'' ack) (\<lambda>a. if a then str_not ''result'' ''FAILED'' ack else Inr False)] reset_invalid) (\<lambda>_.
       failIf (map (\<lambda>k. text_not k ack command) echoed_keys) reset_invalid)"

definition validate_reset :: "string \<Rightarrow> Json \<Rightarrow> unit result" where
  "validate_reset epoch reset =
     bindE (json_at ''command'' reset) (\<lambda>command.
     bindE (failIf [size_not 4 reset, size_not 9 command, int_not ''schemaVersion'' 1 command,
              str_not ''operation'' ''RESET_DEMO_SCENARIO'' command,
              bindE (str_at ''commandId'' command) (\<lambda>i. Inr (\<not> canonical_uuid i None)), str_not ''producerEpoch'' epoch command,
              bindE (str_at ''unitSystemUid'' command) (\<lambda>u. Inr (\<not> native_identifier u)),
              bindE (str_at ''serviceVersion'' command) (\<lambda>v. Inr (\<not> package_version v))] reset_invalid) (\<lambda>_.
     bindE (bindE (json_at ''serviceInstance'' command) parse_service_instance) (\<lambda>_.
     bindE (bindE (str_at ''expiresAt'' command) timestamp_milliseconds) (\<lambda>expires.
     bindE (bindE (str_at ''issuedAt'' command) timestamp_milliseconds) (\<lambda>issued.
     bindE (throwIf (expires \<le> issued) reset_invalid) (\<lambda>_.
     bindE (bool_at ''modelApplied'' reset) (\<lambda>_.
     bindE (bool_at ''delivered'' reset) (\<lambda>delivered.
     bindE (json_at ''ack'' reset) (\<lambda>ack.
       if ack = JNull then throwIf delivered reset_invalid else validate_reset_ack reset command ack)))))))))"

definition validate_status :: "(string \<Rightarrow> dbl option) \<Rightarrow> string \<Rightarrow> AdvisoryRequest \<Rightarrow> string \<times> Json \<Rightarrow> unit result" where
  "validate_status fc epoch r it =
     bindE (bindE (bindE (json_at ''status'' (snd it)) encode_json) (parse_gateway_status fc)) (\<lambda>status.
     bindE (failIf [size_not 2 (snd it), Inr (\<not> fact_id (request_id r @ ''.'' @ fst it) \<or> status_request_id status \<noteq> request_id r \<or>
              status_epoch status \<noteq> epoch \<or> status_sequence status \<noteq> request_sequence r \<or>
              fst it \<noteq> gateway_state_name (status_state status))] state_invalid) (\<lambda>_.
     bindE (bool_at ''admitted'' (snd it)) (\<lambda>_. Inr ())))"

definition validate_binding :: "(string \<Rightarrow> dbl option) \<Rightarrow> string \<Rightarrow> int \<Rightarrow> nat \<Rightarrow> Json \<Rightarrow> nat result" where
  "validate_binding fc epoch next_sequence sequence binding =
     bindE (failIf [size_not 4 binding] state_invalid) (\<lambda>_.
     bindE (bindE (json_at ''request'' binding) read_request) (\<lambda>r.
     bindE (throwIf (request_epoch r \<noteq> epoch \<or> request_sequence r \<le> sequence \<or> int (request_sequence r) \<ge> next_sequence)
              (Runtime_error ''ADVISORY_SEQUENCE_INVALID'')) (\<lambda>_.
     bindE (bindE (json_at ''metadata'' binding) (advisory_metadata fc)) (\<lambda>m.
     bindE (throwIf (am_service_version m \<noteq> request_service_version r) (Runtime_error ''ADVISORY_PROVENANCE_INVALID'')) (\<lambda>_.
     bindE (bool_at ''written'' binding) (\<lambda>_.
     bindE (bindE (json_at ''statuses'' binding) json_object) (\<lambda>statuses.
     bindE (throwIf (length statuses > 6) state_invalid) (\<lambda>_.
     bindE (mapE (validate_status fc epoch r) statuses) (\<lambda>_. Inr (request_sequence r))))))))))"

fun validate_bindings :: "(string \<Rightarrow> dbl option) \<Rightarrow> string \<Rightarrow> int \<Rightarrow> nat \<Rightarrow> Json list \<Rightarrow> unit result" where
  "validate_bindings fc epoch next_sequence sequence [] = Inr ()"
| "validate_bindings fc epoch next_sequence sequence (b # bs) =
     bindE (validate_binding fc epoch next_sequence sequence b) (\<lambda>n. validate_bindings fc epoch next_sequence n bs)"

definition validate_advisory_state :: "(string \<Rightarrow> dbl option) \<Rightarrow> string \<Rightarrow> string \<Rightarrow> Json result" where
  "validate_advisory_state fc bytes epoch =
     bindE (parse_json fc bytes 65536) (\<lambda>j.
     bindE (failIf [bindE (encode_json j) (\<lambda>t. Inr (t \<noteq> bytes)),
              bindE (has_key ''demoReset'' j) (\<lambda>r. size_not (if r then 5 else 4) j), int_not ''schemaVersion'' 1 j,
              str_not ''producerEpoch'' epoch j, Inr (\<not> canonical_uuid epoch (Some (CHR ''4''))),
              bindE (int_at ''nextSequence'' j) (\<lambda>n. Inr (n \<le> 0)), bindE (requests j) (\<lambda>rs. Inr (length rs > 32))] state_invalid) (\<lambda>_.
     bindE (has_key ''demoReset'' j) (\<lambda>reset.
     bindE (if reset then bindE (json_at ''demoReset'' j) (validate_reset epoch) else Inr ()) (\<lambda>_.
     bindE (requests j) (\<lambda>rs.
     bindE (int_at ''nextSequence'' j) (\<lambda>n.
     bindE (validate_bindings fc epoch n 0 rs) (\<lambda>_. Inr j)))))))"

definition fact_invalid :: exn where "fact_invalid = Runtime_error ''ADVISORY_FACT_INVALID''"

definition fact_status_json :: "Json \<Rightarrow> Json \<Rightarrow> Json result" where
  "fact_status_json j c =
     bindE (json_at ''requestId'' j) (\<lambda>rid. bindE (json_at ''producerEpoch'' j) (\<lambda>epoch. bindE (json_at ''sequence'' j) (\<lambda>sequence.
     bindE (json_at ''gatewayState'' j) (\<lambda>state. bindE (json_at ''gatewayReason'' c) (\<lambda>reason.
     bindE (json_at ''gatewayObservedAt'' c) (\<lambda>observed. bindE (json_at ''activeRecommendation'' c) (\<lambda>recommendation.
     bindE (json_at ''activeReasonCode'' c) (\<lambda>reason_code. bindE (json_at ''activeUntil'' c) (\<lambda>until.
       Inr (json_fields [(''schemaVersion'', JInt 1), (''requestId'', rid), (''producerEpoch'', epoch), (''sequence'', sequence),
         (''state'', state), (''reason'', reason), (''gatewayObservedAt'', observed), (''activeRecommendation'', recommendation),
         (''activeReasonCode'', reason_code), (''activeUntil'', until)]))))))))))"

definition fact_provenance :: "int \<Rightarrow> Json \<Rightarrow> (ServiceInstance option \<times> string) result" where
  "fact_provenance revision j =
     (if revision = 2 then
        bindE (failIf [has_key ''serviceArtifactSha256'' j] fact_invalid) (\<lambda>_.
        bindE (bindE (json_at ''serviceInstance'' j) parse_service_instance) (\<lambda>i. Inr (Some i, [])))
      else
        bindE (failIf [has_key ''serviceInstance'' j] fact_invalid) (\<lambda>_.
        bindE (str_at ''serviceArtifactSha256'' j) (\<lambda>sha. Inr (None, sha))))"

definition verify_fact :: "(string \<Rightarrow> dbl option) \<Rightarrow> string \<Rightarrow> string \<Rightarrow> unit result" where
  "verify_fact fc bytes ident =
     bindE (parse_json fc bytes 16384) (\<lambda>j.
     bindE (int_at ''schemaVersion'' j) (\<lambda>revision.
     bindE (failIf [size_not 16 j, Inr (revision \<noteq> 1 \<and> revision \<noteq> 2), str_not ''messageType'' ''BRAKE_ADVISORY_FACT'' j,
              str_not ''contractVersion'' (if revision = 2 then ''2.0.0'' else ''1.0.0'') j,
              bindE (str_at ''requestId'' j) (\<lambda>r. bindE (str_at ''gatewayState'' j) (\<lambda>g. Inr (r @ ''.'' @ g \<noteq> ident)))] fact_invalid) (\<lambda>_.
     bindE (json_at ''content'' j) (\<lambda>c.
     bindE (failIf [size_not 11 c, str_not ''operation'' ''SET'' c, str_not ''reasonCode'' ''PREDICTED_BRAKE_DEGRADATION'' c,
              str_not ''recommendation'' ''INSPECTION_RECOMMENDED'' c, bindE (int_at ''sequence'' j) (\<lambda>n. Inr (n \<le> 0))] fact_invalid) (\<lambda>_.
     bindE (str_at ''unitSystemUid'' j) (\<lambda>uid.
     bindE (str_at ''unitRole'' j) (\<lambda>role.
     bindE (throwIf (role \<noteq> ''VALIDATION'' \<and> role \<noteq> ''PRODUCTION'') fact_invalid) (\<lambda>_.
     bindE (str_at ''serviceVersion'' j) (\<lambda>version.
     bindE (fact_provenance revision j) (\<lambda>(inst, sha).
     bindE (str_at ''vdpContractVersion'' j) (\<lambda>vv.
     bindE (str_at ''vdpContractSha256'' j) (\<lambda>vsha.
     bindE (str_at ''producerEpoch'' j) (\<lambda>epoch. bindE (int_at ''sequence'' j) (\<lambda>sequence.
     bindE (str_at ''decisionId'' c) (\<lambda>decision. bindE (str_at ''issuedAt'' c) (\<lambda>issued.
     bindE (build_set_request epoch (nat sequence) decision issued version) (\<lambda>r.
     bindE (bindE (bindE (fact_status_json j c) encode_json) (parse_gateway_status fc)) (\<lambda>status.
     bindE (str_at ''recordedAt'' j) (\<lambda>recorded.
     bindE (build_advisory_fact \<lparr>am_unit_system_uid = uid, am_unit_role = (if role = ''VALIDATION'' then Validation else Production),
              am_service_version = version, am_service_artifact_sha256 = sha, am_vdp_contract_version = vv,
              am_vdp_contract_sha256 = vsha, am_service_instance = inst\<rparr> r status recorded) (\<lambda>fact.
       throwIf (fact_json fact \<noteq> bytes) fact_invalid))))))))))))))))))))"


section \<open>State and effects\<close>

record AdvisoryRuntime =
  adv_files :: dir
  adv_outbox :: dir
  adv_epoch :: string
  validated :: "(string \<times> Json) option"
  adv_halted :: bool
  adv_ticks :: nat

type_synonym 'a adv_op = "(AdvisoryRuntime, 'a) op"

record AdvisoryDelivery =
  delivery_id :: string
  delivery_bytes :: string

definition adv_effect :: "interruptions \<Rightarrow> string \<Rightarrow> (AdvisoryRuntime \<Rightarrow> AdvisoryRuntime) \<Rightarrow> unit adv_op" where
  "adv_effect flt what f s =
     (if adv_halted s then (Inl (Runtime_error what), s)
      else
        (let s1 = s\<lparr>adv_ticks := adv_ticks s + 1\<rparr>; left = (\<lambda>m. if m = After then f s1 else s1)
         in case flt (adv_ticks s) of
              Through \<Rightarrow> (Inr (), f s1)
            | Fails m \<Rightarrow> (Inl (Runtime_error what), left m)
            | Ends m \<Rightarrow> (Inl (Runtime_error what), (left m)\<lparr>adv_halted := True\<rparr>)))"

definition sync_dir :: "interruptions \<Rightarrow> unit adv_op" where
  "sync_dir flt = adv_effect flt ''ADVISORY_STORAGE_UNAVAILABLE'' id"

definition adv_write :: "interruptions \<Rightarrow> string \<Rightarrow> string \<Rightarrow> unit adv_op" where
  "adv_write flt name bytes =
     bindS (adv_effect flt ''TOKEN_WRITE_FAILED'' (\<lambda>s. s\<lparr>adv_files := AList.update name bytes (adv_files s)\<rparr>)) (\<lambda>_. sync_dir flt)"

definition write_outbox :: "interruptions \<Rightarrow> string \<Rightarrow> string \<Rightarrow> unit adv_op" where
  "write_outbox flt name bytes =
     bindS (adv_effect flt ''TOKEN_WRITE_FAILED'' (\<lambda>s. s\<lparr>adv_outbox := AList.update name bytes (adv_outbox s)\<rparr>)) (\<lambda>_. sync_dir flt)"

definition adv_remove :: "interruptions \<Rightarrow> string \<Rightarrow> unit adv_op" where
  "adv_remove flt name =
     bindS (adv_effect flt ''remove'' (\<lambda>s. s\<lparr>adv_files := AList.delete name (adv_files s)\<rparr>)) (\<lambda>_. sync_dir flt)"

definition remove_outbox :: "interruptions \<Rightarrow> string \<Rightarrow> unit adv_op" where
  "remove_outbox flt name =
     bindS (adv_effect flt ''remove'' (\<lambda>s. s\<lparr>adv_outbox := AList.delete name (adv_outbox s)\<rparr>)) (\<lambda>_. sync_dir flt)"

definition read_private :: "dir \<Rightarrow> string \<Rightarrow> nat \<Rightarrow> string result" where
  "read_private d name limit =
     (case map_of d name of
        None \<Rightarrow> Inl (Runtime_error ''ADVISORY_STORAGE_INVALID'')
      | Some bytes \<Rightarrow> if bytes = [] \<or> length bytes > limit then Inl (Runtime_error ''INPUT_FILE_UNAVAILABLE'') else Inr bytes)"

text \<open>The validated state is kept with the bytes it was read from.\<close>

definition load :: "(string \<Rightarrow> dbl option) \<Rightarrow> Json adv_op" where
  "load fc s =
     (case read_private (adv_files s) ''state.json'' 65536 of
        Inl e \<Rightarrow> (Inl e, s)
      | Inr bytes \<Rightarrow>
          (case validated s of
             Some (b, j) \<Rightarrow>
               if b = bytes then (Inr j, s)
               else (case validate_advisory_state fc bytes (adv_epoch s) of
                       Inl e \<Rightarrow> (Inl e, s) | Inr k \<Rightarrow> (Inr k, s\<lparr>validated := Some (bytes, k)\<rparr>))
           | None \<Rightarrow>
               (case validate_advisory_state fc bytes (adv_epoch s) of
                  Inl e \<Rightarrow> (Inl e, s) | Inr k \<Rightarrow> (Inr k, s\<lparr>validated := Some (bytes, k)\<rparr>))))"

section \<open>The journal\<close>

definition journal_invalid :: exn where "journal_invalid = Runtime_error ''ADVISORY_JOURNAL_INVALID''"

definition digest_not :: "string \<Rightarrow> string \<Rightarrow> Json \<Rightarrow> bool result" where
  "digest_not t k j = bindE (str_at k j) (\<lambda>d. Inr (sha256_hex t \<noteq> d))"

text \<open>Whether the fact is the one the new state admits.\<close>

fun fact_bound :: "(string \<Rightarrow> dbl option) \<Rightarrow> string \<Rightarrow> Json \<Rightarrow> Json list \<Rightarrow> bool \<Rightarrow> bool result" where
  "fact_bound fc bytes parsed [] bound = Inr bound"
| "fact_bound fc bytes parsed (it # its) bound =
     bindE (bindE (json_at ''request'' it) read_request) (\<lambda>r.
     bindE (str_at ''gatewayState'' parsed) (\<lambda>state.
     bindE (str_at ''requestId'' parsed) (\<lambda>rid.
     bindE (if request_id r \<noteq> rid then Inr False else bindE (json_at ''statuses'' it) (has_key state)) (\<lambda>here.
       if \<not> here then fact_bound fc bytes parsed its bound
       else
         bindE (bindE (json_at ''statuses'' it) (json_at state)) (\<lambda>binding.
         bindE (bindE (bindE (json_at ''status'' binding) encode_json) (parse_gateway_status fc)) (\<lambda>status.
         bindE (bool_at ''admitted'' binding) (\<lambda>admit.
         bindE (if \<not> admit then Inr False
                else bindE (bindE (json_at ''metadata'' it) (advisory_metadata fc)) (\<lambda>m.
                     bindE (str_at ''recordedAt'' parsed) (\<lambda>recorded.
                     bindE (build_advisory_fact m r status recorded) (\<lambda>fact. Inr (fact_json fact = bytes))))) (\<lambda>b.
           fact_bound fc bytes parsed its b))))))))"

definition journal_fact :: "(string \<Rightarrow> dbl option) \<Rightarrow> Json \<Rightarrow> Json \<Rightarrow> AdvisoryDelivery option result" where
  "journal_fact fc next payload =
     (if payload = JNull then Inr None
      else
        bindE (str_at ''id'' payload) (\<lambda>ident.
        bindE (str_at ''bytes'' payload) (\<lambda>bytes.
        bindE (failIf [size_not 2 payload, Inr (\<not> fact_id ident \<or> length bytes > 16384)] journal_invalid) (\<lambda>_.
        bindE (verify_fact fc bytes ident) (\<lambda>_.
        bindE (parse_json fc bytes 16384) (\<lambda>parsed.
        bindE (requests next) (\<lambda>rs.
        bindE (fact_bound fc bytes parsed rs False) (\<lambda>bound.
          if \<not> bound then Inl (Runtime_error ''ADVISORY_JOURNAL_FACT_UNBOUND'')
          else Inr (Some \<lparr>delivery_id = ident, delivery_bytes = bytes\<rparr>)))))))))"

text \<open>Everything \<open>recover\<close> checks before it changes a file.\<close>

definition read_advisory_journal ::
  "(string \<Rightarrow> dbl option) \<Rightarrow> string \<Rightarrow> string \<Rightarrow> string result \<Rightarrow> (bool \<times> string \<times> AdvisoryDelivery option) result" where
  "read_advisory_journal fc epoch text state_file =
     bindE (parse_json fc text 327680) (\<lambda>journal.
     bindE (failIf [size_not 7 journal, int_not ''schemaVersion'' 1 journal] journal_invalid) (\<lambda>_.
     bindE state_file (\<lambda>current.
     bindE (str_at ''before'' journal) (\<lambda>before.
     bindE (str_at ''after'' journal) (\<lambda>after.
     bindE (throwIf (current \<noteq> before \<and> current \<noteq> after) (Runtime_error ''ADVISORY_JOURNAL_CONFLICT'')) (\<lambda>_.
     bindE (failIf [Inr (length before > 65536 \<or> length after > 65536), digest_not before ''beforeSha256'' journal,
              digest_not after ''afterSha256'' journal,
              bindE (bindE (json_at ''fact'' journal) encode_json) (\<lambda>t. digest_not t ''factSha256'' journal)] journal_invalid) (\<lambda>_.
     bindE (validate_advisory_state fc before epoch) (\<lambda>_.
     bindE (validate_advisory_state fc after epoch) (\<lambda>next.
     bindE (bindE (json_at ''fact'' journal) (journal_fact fc next)) (\<lambda>publish.
       Inr (current = before, after, publish)))))))))))"

definition publish_fact :: "interruptions \<Rightarrow> AdvisoryDelivery option \<Rightarrow> unit adv_op" where
  "publish_fact flt publish =
     (case publish of
        None \<Rightarrow> returnS ()
      | Some d \<Rightarrow>
          bindS (readS (\<lambda>s. Inr (map_of (adv_outbox s) (delivery_id d) \<noteq> None))) (\<lambda>present.
            if present
            then bindS (readS (\<lambda>s. read_private (adv_outbox s) (delivery_id d) 16384)) (\<lambda>b.
                   checkS (b \<noteq> delivery_bytes d) (Runtime_error ''ADVISORY_FACT_CONFLICT''))
            else write_outbox flt (delivery_id d) (delivery_bytes d)))"

definition recover_advisory :: "(string \<Rightarrow> dbl option) \<Rightarrow> interruptions \<Rightarrow> unit adv_op" where
  "recover_advisory fc flt =
     bindS (readS (\<lambda>s. Inr (map_of (adv_files s) ''journal.json'' \<noteq> None))) (\<lambda>present.
       if \<not> present then returnS ()
       else
         bindS (readS (\<lambda>s. read_private (adv_files s) ''journal.json'' 327680)) (\<lambda>text.
         bindS (readS (\<lambda>s. read_advisory_journal fc (adv_epoch s) text (read_private (adv_files s) ''state.json'' 65536)))
           (\<lambda>(stale, after, publish).
         bindS (if stale then adv_write flt ''state.json'' after else returnS ()) (\<lambda>_.
         bindS (publish_fact flt publish) (\<lambda>_. adv_remove flt ''journal.json'')))))"

definition journal_object :: "string \<Rightarrow> string \<Rightarrow> Json \<Rightarrow> string \<Rightarrow> Json" where
  "journal_object before after payload payload_text =
     json_fields [(''schemaVersion'', JInt 1), (''before'', JString before), (''after'', JString after), (''fact'', payload),
       (''beforeSha256'', JString (sha256_hex before)), (''afterSha256'', JString (sha256_hex after)),
       (''factSha256'', JString (sha256_hex payload_text))]"

definition fact_payload :: "AdvisoryDelivery option \<Rightarrow> Json" where
  "fact_payload delivery =
     (case delivery of None \<Rightarrow> JNull | Some d \<Rightarrow> json_fields [(''id'', JString (delivery_id d)), (''bytes'', JString (delivery_bytes d))])"

definition commit :: "(string \<Rightarrow> dbl option) \<Rightarrow> interruptions \<Rightarrow> Json \<Rightarrow> Json \<Rightarrow> AdvisoryDelivery option \<Rightarrow> unit adv_op" where
  "commit fc flt before after delivery =
     bindS (liftS (encode_json after)) (\<lambda>encoded.
     bindS (checkS (length encoded > 65536) (Runtime_error ''ADVISORY_STATE_BOUND'')) (\<lambda>_.
     bindS (readS (\<lambda>s. throwIf (map_of (adv_files s) ''journal.json'' \<noteq> None) (Runtime_error ''ADVISORY_RECOVERY_REQUIRED''))) (\<lambda>_.
     bindS (liftS (encode_json before)) (\<lambda>b.
     bindS (liftS (encode_json (fact_payload delivery))) (\<lambda>payload_text.
     bindS (liftS (encode_json (journal_object b encoded (fact_payload delivery) payload_text))) (\<lambda>text.
     bindS (adv_write flt ''journal.json'' text) (\<lambda>_. recover_advisory fc flt)))))))"

section \<open>The outbox\<close>

definition ends_quarantined :: "string \<Rightarrow> bool" where
  "ends_quarantined name \<longleftrightarrow> length name > 12 \<and> drop (length name - 12) name = ''.quarantined''"

fun usage_loop :: "(string \<Rightarrow> dbl option) \<Rightarrow> dir \<Rightarrow> string list \<Rightarrow> nat \<times> nat \<Rightarrow> (nat \<times> nat) result" where
  "usage_loop fc d [] acc = Inr acc"
| "usage_loop fc d (name # names) acc =
     (if name \<noteq> [] \<and> hd name = CHR ''.'' then usage_loop fc d names acc
      else if ends_quarantined name
      then bindE (throwIf (\<not> fact_id (take (length name - 12) name)) (Runtime_error ''ADVISORY_OUTBOX_INVALID'')) (\<lambda>_.
           bindE (read_private d name 32) (\<lambda>_. usage_loop fc d names acc))
      else
        bindE (throwIf (\<not> fact_id name) (Runtime_error ''ADVISORY_OUTBOX_INVALID'')) (\<lambda>_.
        bindE (read_private d name 16384) (\<lambda>encoded.
        bindE (verify_fact fc encoded name) (\<lambda>_. usage_loop fc d names (fst acc + 1, snd acc + length encoded)))))"

definition outbox_usage :: "(string \<Rightarrow> dbl option) \<Rightarrow> AdvisoryRuntime \<Rightarrow> (nat \<times> nat) result" where
  "outbox_usage fc s =
     bindE (usage_loop fc (adv_outbox s) (map fst (adv_outbox s)) (0, 0)) (\<lambda>(n, bytes).
       if n > 64 \<or> bytes > 1048576 then Inl (Runtime_error ''ADVISORY_OUTBOX_BOUND'') else Inr (n, bytes))"

definition adv_next_message :: "(string \<Rightarrow> dbl option) \<Rightarrow> AdvisoryRuntime \<Rightarrow> AdvisoryDelivery option result" where
  "adv_next_message fc s =
     bindE (outbox_usage fc s) (\<lambda>_.
       (let files = sort (filter (\<lambda>name. fact_id name \<and> map_of (adv_outbox s) (name @ ''.quarantined'') = None) (map fst (adv_outbox s)))
        in case files of
             [] \<Rightarrow> Inr None
           | f # _ \<Rightarrow> bindE (read_private (adv_outbox s) f 16384) (\<lambda>b. Inr (Some \<lparr>delivery_id = f, delivery_bytes = b\<rparr>))))"

definition adv_accept :: "(string \<Rightarrow> dbl option) \<Rightarrow> interruptions \<Rightarrow> AdvisoryDelivery \<Rightarrow> HttpResponse \<Rightarrow> bool adv_op" where
  "adv_accept fc flt d response =
     (if \<not> fact_id (delivery_id d) then returnS False
      else
        bindS (readS (\<lambda>s. if map_of (adv_outbox s) (delivery_id d) = None \<or> map_of (adv_outbox s) (delivery_id d @ ''.quarantined'') \<noteq> None
                          then Inr True
                          else bindE (read_private (adv_outbox s) (delivery_id d) 16384) (\<lambda>b. Inr (b \<noteq> delivery_bytes d)))) (\<lambda>no.
          if no then returnS False
          else if retryable_http (status response) then returnS False
          else if \<not> matches_ack fc (delivery_bytes d) response
          then bindS (write_outbox flt (delivery_id d @ ''.quarantined'') (''DELIVERY_CONFLICT'' @ [byte 10])) (\<lambda>_. returnS False)
          else bindS (remove_outbox flt (delivery_id d)) (\<lambda>_. returnS True)))"

text \<open>A start of the process: the directories are on disk, everything else is new.\<close>

definition start_advisory :: "(string \<Rightarrow> dbl option) \<Rightarrow> interruptions \<Rightarrow> ModelState \<Rightarrow> unit adv_op" where
  "start_advisory fc flt model s0 =
     bindS (liftS (state_json model)) (\<lambda>_.
     bindS (readS (\<lambda>s. Inr (map_of (adv_files s) ''state.json'' \<noteq> None))) (\<lambda>present.
     bindS (if present then returnS ()
            else
              bindS (readS (\<lambda>s. throwIf (map_of (adv_files s) ''journal.json'' \<noteq> None \<or> adv_outbox s \<noteq> []) (Runtime_error ''ADVISORY_STATE_MISSING''))) (\<lambda>_.
              bindS (liftS (encode_json (json_fields [(''schemaVersion'', JInt 1), (''producerEpoch'', JString (producer_epoch model)),
                       (''nextSequence'', JInt (if next_advisory_sequence model < 2 ^ 63 then int (next_advisory_sequence model)
                          else int (next_advisory_sequence model) - 2 ^ 64)), (''requests'', JArray [])]))) (\<lambda>text.
                adv_write flt ''state.json'' text))) (\<lambda>_.
     bindS (recover_advisory fc flt) (\<lambda>_.
     bindS (load fc) (\<lambda>_.
     bindS (readS (outbox_usage fc)) (\<lambda>_. returnS ()))))))
     (s0\<lparr>adv_epoch := producer_epoch model, validated := None, adv_halted := False, adv_ticks := 0\<rparr>)"


section \<open>Requests\<close>

text \<open>The open reset, if any, asks for a request that clears the advisory.\<close>

definition reset_open :: "Json \<Rightarrow> bool result" where
  "reset_open j =
     bindE (has_key ''demoReset'' j) (\<lambda>r. if \<not> r then Inr False else bindE (json_at ''demoReset'' j) (null_at ''ack''))"

definition reset_command :: "Json \<Rightarrow> Json result" where
  "reset_command j = bindE (json_at ''demoReset'' j) (json_at ''command'')"

definition command_time :: "string \<Rightarrow> Json \<Rightarrow> int result" where
  "command_time k command = bindE (str_at k command) timestamp_milliseconds"

text \<open>Why no request is due, or the decision it is about.\<close>

definition request_decision :: "ModelState \<Rightarrow> int \<Rightarrow> Json \<Rightarrow> bool \<Rightarrow> string option result" where
  "request_decision model now state clear =
     (if clear then
        bindE (bindE (json_at ''demoReset'' state) (bool_at ''modelApplied'')) (\<lambda>applied.
        bindE (if \<not> applied then Inr True
               else bindE (bindE (reset_command state) (command_time ''expiresAt'')) (\<lambda>e. Inr (now \<ge> e))) (\<lambda>stop_here.
          if stop_here then Inr None else bindE (bindE (reset_command state) (str_at ''commandId'')) (\<lambda>i. Inr (Some i))))
      else Inr (if condition_band model \<noteq> InspectionRecommended then None else last_assessment_id model))"

text \<open>What the last request means for the next one.\<close>

datatype request_turn = Wait | Again AdvisoryRequest | Issue string

definition after_last :: "int \<Rightarrow> bool \<Rightarrow> string \<Rightarrow> Json list \<Rightarrow> request_turn result" where
  "after_last now clear decision entries =
     (if entries = [] then Inr (Issue decision)
      else
        bindE (bindE (json_at ''request'' (last entries)) read_request) (\<lambda>old.
          (let d = (if \<not> clear \<and> \<not> is_clear old then decision_id old else decision)
           in bindE (timestamp_milliseconds (issued_at old)) (\<lambda>t.
                if now - t < 0 then Inr Wait
                else if is_clear old = clear \<and> decision_id old = d \<and> now - t < (if clear then 5000 else kRefreshMilliseconds)
                then bindE (bool_at ''written'' (last entries)) (\<lambda>w. Inr (if w then Wait else Again old))
                else Inr (Issue d)))))"

definition request_entry :: "(string \<Rightarrow> dbl option) \<Rightarrow> AdvisoryRequest \<Rightarrow> MessageMetadata \<Rightarrow> Json result" where
  "request_entry fc r md =
     bindE (parse_json fc (request_json r) 2048) (\<lambda>rj.
     bindE (metadata_binding fc md) (\<lambda>mj.
       Inr (json_fields [(''request'', rj), (''metadata'', mj), (''written'', JBool False), (''statuses'', JObject [])])))"

definition last_entries :: "nat \<Rightarrow> 'a list \<Rightarrow> 'a list" where
  "last_entries n xs = drop (length xs - n) xs"

definition next_request :: "(string \<Rightarrow> dbl option) \<Rightarrow> interruptions \<Rightarrow> ModelState \<Rightarrow> MessageMetadata \<Rightarrow> int \<Rightarrow> AdvisoryRequest option adv_op" where
  "next_request fc flt model md now =
     bindS (readS (\<lambda>s. throwIf (producer_epoch model \<noteq> adv_epoch s) (Runtime_error ''ADVISORY_EPOCH_CHANGED''))) (\<lambda>_.
     bindS (load fc) (\<lambda>before.
     bindS (liftS (requests before)) (\<lambda>entries.
     bindS (liftS (reset_open before)) (\<lambda>clear.
     bindS (liftS (request_decision model now before clear)) (\<lambda>decision.
       case decision of
         None \<Rightarrow> returnS None
       | Some d \<Rightarrow>
           bindS (liftS (after_last now clear d entries)) (\<lambda>turn.
             case turn of
               Wait \<Rightarrow> returnS None
             | Again old \<Rightarrow> returnS (Some old)
             | Issue d' \<Rightarrow>
                 bindS (liftS (int_at ''nextSequence'' before)) (\<lambda>sequence.
                 bindS (checkS (sequence = i64_max) (Runtime_error ''ADVISORY_SEQUENCE_EXHAUSTED'')) (\<lambda>_.
                 bindS (readS (\<lambda>s. bindE (utc_timestamp now) (\<lambda>issued.
                          build_request clear (adv_epoch s) (nat sequence) d' issued (service_version md)))) (\<lambda>r.
                 bindS (liftS (request_entry fc r md)) (\<lambda>entry.
                 bindS (liftS (bindE (put ''requests'' (JArray (last_entries 16 (entries @ [entry]))) before)
                          (put ''nextSequence'' (JInt (sequence + 1))))) (\<lambda>after.
                 bindS (commit fc flt before after None) (\<lambda>_. returnS (Some r)))))))))))))"

text \<open>The first entry that a test accepts, with its place.\<close>

fun find_entry :: "(Json \<Rightarrow> bool result) \<Rightarrow> Json list \<Rightarrow> nat \<Rightarrow> nat option result" where
  "find_entry t [] i = Inr None"
| "find_entry t (b # bs) i = bindE (t b) (\<lambda>y. if y then Inr (Some i) else find_entry t bs (i + 1))"

definition put_entry :: "nat \<Rightarrow> Json \<Rightarrow> Json list \<Rightarrow> Json \<Rightarrow> Json result" where
  "put_entry i e entries j = put ''requests'' (JArray (entries [i := e])) j"

definition request_written :: "(string \<Rightarrow> dbl option) \<Rightarrow> interruptions \<Rightarrow> AdvisoryRequest \<Rightarrow> unit adv_op" where
  "request_written fc flt r =
     bindS (load fc) (\<lambda>before.
     bindS (liftS (requests before)) (\<lambda>entries.
     bindS (liftS (find_entry (\<lambda>b. bindE (bindE (json_at ''request'' b) encode_json) (\<lambda>t. Inr (t = request_json r))) entries 0)) (\<lambda>found.
       case found of
         None \<Rightarrow> returnS ()
       | Some i \<Rightarrow>
           bindS (liftS (bool_at ''written'' (entries ! i))) (\<lambda>w.
             if w then returnS ()
             else bindS (liftS (bindE (put ''written'' (JBool True) (entries ! i)) (\<lambda>e. put_entry i e entries before))) (\<lambda>after.
                    commit fc flt before after None)))))"

definition status_entry :: "(string \<Rightarrow> dbl option) \<Rightarrow> string \<Rightarrow> bool \<Rightarrow> Json result" where
  "status_entry fc canonical admit =
     bindE (parse_json fc canonical 1024) (\<lambda>sj. Inr (json_fields [(''status'', sj), (''admitted'', JBool admit)]))"

definition with_status :: "string \<Rightarrow> Json \<Rightarrow> Json \<Rightarrow> Json result" where
  "with_status state e binding =
     bindE (change ''statuses'' (put state e) binding) (put ''written'' (JBool True))"

text \<open>The answer to the control service: the command without its operation and times, and what came of it.\<close>

definition reset_answer :: "Json \<Rightarrow> string \<Rightarrow> Json \<Rightarrow> Json \<Rightarrow> Json result" where
  "reset_answer command outcome clear_request gateway_status =
     bindE (json_object command) (\<lambda>kvs.
       Inr (JObject (map_set ''gatewayStatus'' gateway_status (map_set ''clearRequest'' clear_request (map_set ''result'' (JString outcome)
         (map_erase ''expiresAt'' (map_erase ''issuedAt'' (map_erase ''operation'' kvs))))))))"

definition put_answer :: "Json \<Rightarrow> Json \<Rightarrow> Json result" where
  "put_answer ack = change ''demoReset'' (put ''ack'' ack)"

definition cleared_answer :: "(string \<Rightarrow> dbl option) \<Rightarrow> AdvisoryRequest \<Rightarrow> GatewayStatus \<Rightarrow> string \<Rightarrow> Json \<Rightarrow> Json result" where
  "cleared_answer fc r st canonical after =
     bindE (has_key ''demoReset'' after) (\<lambda>present.
       if \<not> present then Inr after
       else
         bindE (reset_command after) (\<lambda>command.
         bindE (str_at ''commandId'' command) (\<lambda>i.
         bindE (if decision_id r \<noteq> i then Inr False else bindE (json_at ''demoReset'' after) (null_at ''ack'')) (\<lambda>mine.
           if mine \<and> status_state st = Cleared \<and> status_reason st = NoReason \<and> status_inactive st
           then
             bindE (parse_json fc (request_json r) 2048) (\<lambda>rj.
             bindE (parse_json fc canonical 1024) (\<lambda>sj.
             bindE (reset_answer command ''CLEARED'' rj sj) (\<lambda>ack. put_answer ack after)))
           else Inr after))))"

definition observe_entry :: "(string \<Rightarrow> dbl option) \<Rightarrow> interruptions \<Rightarrow> GatewayStatus \<Rightarrow> int \<Rightarrow> nat \<Rightarrow> nat \<Rightarrow> Json \<Rightarrow> Json list \<Rightarrow> nat \<Rightarrow> bool adv_op" where
  "observe_entry fc flt st now other_count other_bytes before entries i =
     (let binding = entries ! i; state = gateway_state_name (status_state st)
      in bindS (liftS (bindE (json_at ''request'' binding) read_request)) (\<lambda>r.
         bindS (liftS (gateway_status_json st)) (\<lambda>canonical.
         bindS (liftS (bindE (json_at ''statuses'' binding) (has_key state))) (\<lambda>known.
           if known
           then
             bindS (liftS (bindE (bindE (json_at ''statuses'' binding) (json_at state)) (\<lambda>b. bindE (json_at ''status'' b) encode_json))) (\<lambda>t.
             bindS (checkS (t \<noteq> canonical) (Runtime_error ''ADVISORY_STATUS_CONFLICT'')) (\<lambda>_. returnS True))
           else if is_clear r
           then
             bindS (liftS (bindE (status_entry fc canonical False) (\<lambda>e. bindE (with_status state e binding) (\<lambda>b.
                bindE (put_entry i b entries before) (cleared_answer fc r st canonical))))) (\<lambda>after.
             bindS (commit fc flt before after None) (\<lambda>_. returnS True))
           else
             bindS (liftS (bindE (bindE (json_at ''metadata'' binding) (advisory_metadata fc)) (\<lambda>m.
                bindE (utc_timestamp now) (build_advisory_fact m r st)))) (\<lambda>fact.
             bindS (readS (outbox_usage fc)) (\<lambda>usage.
               (let admit = (other_count \<le> 64 \<and> other_bytes \<le> 1048576 \<and>
                      derived_outbox_admissible (fst usage + other_count) (snd usage + other_bytes) 1 (length (fact_json fact)))
                in bindS (liftS (bindE (status_entry fc canonical admit) (\<lambda>e. bindE (with_status state e binding) (\<lambda>b.
                      put_entry i b entries before)))) (\<lambda>after.
                   bindS (commit fc flt before after
                       (if admit then Some \<lparr>delivery_id = request_id r @ ''.'' @ state, delivery_bytes = fact_json fact\<rparr> else None))
                     (\<lambda>_. returnS True)))))))))"

definition observe :: "(string \<Rightarrow> dbl option) \<Rightarrow> interruptions \<Rightarrow> string \<Rightarrow> int \<Rightarrow> nat \<Rightarrow> nat \<Rightarrow> bool adv_op" where
  "observe fc flt bytes now other_count other_bytes =
     bindS (liftS (parse_gateway_status fc bytes)) (\<lambda>st.
     bindS (readS (\<lambda>s. Inr (status_epoch st \<noteq> adv_epoch s))) (\<lambda>foreign.
       if foreign then returnS False
       else
         bindS (load fc) (\<lambda>before.
         bindS (liftS (requests before)) (\<lambda>entries.
         bindS (liftS (find_entry (\<lambda>b. bindE (bindE (json_at ''request'' b) read_request) (\<lambda>r.
                  Inr (request_id r = status_request_id st \<and> request_sequence r = status_sequence st))) entries 0)) (\<lambda>found.
           case found of
             None \<Rightarrow> returnS False
           | Some i \<Rightarrow> observe_entry fc flt st now other_count other_bytes before entries i)))))"

text \<open>The status observed last, by the text of its time stamp.\<close>

fun latest_status :: "(string \<times> Json) list \<Rightarrow> Json option \<Rightarrow> Json option result" where
  "latest_status [] latest = Inr latest"
| "latest_status (it # its) latest =
     bindE (json_at ''status'' (snd it)) (\<lambda>st.
       case latest of
         None \<Rightarrow> latest_status its (Some st)
       | Some l \<Rightarrow>
           bindE (str_at ''gatewayObservedAt'' st) (\<lambda>a. bindE (str_at ''gatewayObservedAt'' l) (\<lambda>b.
             latest_status its (Some (if b < a then st else l)))))"

definition current_gateway_state :: "(string \<Rightarrow> dbl option) \<Rightarrow> string option adv_op" where
  "current_gateway_state fc =
     bindS (load fc) (\<lambda>current.
     bindS (liftS (requests current)) (\<lambda>entries.
       if entries = [] then returnS None
       else
         bindS (liftS (bindE (json_at ''statuses'' (last entries)) json_object)) (\<lambda>statuses.
         bindS (liftS (latest_status statuses None)) (\<lambda>latest.
           case latest of None \<Rightarrow> returnS None | Some l \<Rightarrow> bindS (liftS (str_at ''state'' l)) (\<lambda>t. returnS (Some t))))))"

definition current_request_id :: "(string \<Rightarrow> dbl option) \<Rightarrow> string option adv_op" where
  "current_request_id fc =
     bindS (load fc) (\<lambda>current.
     bindS (liftS (requests current)) (\<lambda>entries.
       if entries = [] then returnS None
       else bindS (liftS (bindE (json_at ''request'' (last entries)) read_request)) (\<lambda>r. returnS (Some (request_id r)))))"

section \<open>The demo reset\<close>

definition demo_poll :: "(string \<Rightarrow> dbl option) \<Rightarrow> string \<Rightarrow> MessageMetadata \<Rightarrow> string result" where
  "demo_poll fc epoch m =
     (case service_instance m of
        None \<Rightarrow> Inl (Runtime_error ''RESET_NATIVE_IDENTITY_REQUIRED'')
      | Some i \<Rightarrow>
          bindE (service_instance_json i) (\<lambda>t.
          bindE (parse_json fc t 65536) (\<lambda>ij.
            encode_json (json_fields [(''schemaVersion'', JInt 1), (''unitSystemUid'', JString (unit_system_uid m)),
              (''serviceVersion'', JString (service_version m)), (''serviceInstance'', ij), (''producerEpoch'', JString epoch)]))))"

text \<open>Which fields of the binding the command does not repeat, in the order of the map.\<close>

fun binding_mismatch :: "Json \<Rightarrow> (string \<times> Json) list \<Rightarrow> bool result" where
  "binding_mismatch command [] = Inr False"
| "binding_mismatch command (kv # kvs) =
     bindE (bindE (json_at (fst kv) command) encode_json) (\<lambda>a. bindE (encode_json (snd kv)) (\<lambda>b.
     bindE (binding_mismatch command kvs) (\<lambda>rest. Inr (a \<noteq> b \<or> rest))))"

definition command_fields :: "Json \<Rightarrow> (string \<times> Json) list \<Rightarrow> unit result" where
  "command_fields command kvs =
     failIf (map (\<lambda>(k, v). bindE (bindE (json_at k command) encode_json) (\<lambda>a. bindE (encode_json v) (\<lambda>b. Inr (a \<noteq> b)))) kvs)
       (Runtime_error ''RESET_BINDING_MISMATCH'')"

definition reset_pending :: "(string \<Rightarrow> dbl option) \<Rightarrow> bool adv_op" where
  "reset_pending fc = bindS (load fc) (\<lambda>state. liftS (reset_open state))"

text \<open>A command already taken up: the same text again is ignored.\<close>

definition known_command :: "Json \<Rightarrow> Json \<Rightarrow> bool result" where
  "known_command before command =
     bindE (has_key ''demoReset'' before) (\<lambda>present.
       if \<not> present then Inr False
       else
         bindE (reset_command before) (\<lambda>old.
         bindE (str_at ''commandId'' old) (\<lambda>a.
         bindE (str_at ''commandId'' command) (\<lambda>b.
           if a \<noteq> b then Inr False
           else bindE (encode_json old) (\<lambda>x. bindE (encode_json command) (\<lambda>y.
                  if x \<noteq> y then Inl (Runtime_error ''RESET_COMMAND_CONFLICT'') else Inr True))))))"

definition begin_demo_reset :: "(string \<Rightarrow> dbl option) \<Rightarrow> interruptions \<Rightarrow> string \<Rightarrow> MessageMetadata \<Rightarrow> int \<Rightarrow> unit adv_op" where
  "begin_demo_reset fc flt bytes m now =
     bindS (liftS (bindE (parse_json fc bytes 4096) (\<lambda>response.
        bindE (failIf [size_not 2 response, int_not ''schemaVersion'' 1 response] (Runtime_error ''RESET_INVALID_RESPONSE'')) (\<lambda>_.
          json_at ''command'' response)))) (\<lambda>command.
       if command = JNull then returnS ()
       else
         bindS (liftS (failIf [size_not 9 command, str_not ''operation'' ''RESET_DEMO_SCENARIO'' command,
            bindE (str_at ''commandId'' command) (\<lambda>i. Inr (\<not> canonical_uuid i None))] (Runtime_error ''RESET_INVALID_COMMAND''))) (\<lambda>_.
         bindS (readS (\<lambda>s. bindE (demo_poll fc (adv_epoch s) m) (\<lambda>t. bindE (parse_json fc t 65536) json_object))) (\<lambda>binding.
         bindS (liftS (command_fields command binding)) (\<lambda>_.
         bindS (load fc) (\<lambda>before.
         bindS (liftS (known_command before command)) (\<lambda>known.
           if known then returnS ()
           else
             bindS (liftS (command_time ''issuedAt'' command)) (\<lambda>issued.
             bindS (liftS (command_time ''expiresAt'' command)) (\<lambda>expires.
             bindS (checkS (issued > now \<or> expires \<le> now \<or> expires - now > 60000 \<or> expires \<le> issued)
                 (Runtime_error ''RESET_COMMAND_EXPIRED'')) (\<lambda>_.
             bindS (reset_pending fc) (\<lambda>pending.
             bindS (checkS pending (Runtime_error ''RESET_ALREADY_PENDING'')) (\<lambda>_.
             bindS (liftS (put ''demoReset'' (json_fields [(''command'', command), (''modelApplied'', JBool False), (''ack'', JNull),
                 (''delivered'', JBool False)]) before)) (\<lambda>after.
               commit fc flt before after None))))))))))))"

definition reset_model_command :: "(string \<Rightarrow> dbl option) \<Rightarrow> string option adv_op" where
  "reset_model_command fc =
     bindS (load fc) (\<lambda>state.
     bindS (liftS (bindE (has_key ''demoReset'' state) (\<lambda>present.
        if \<not> present then Inr True
        else bindE (bindE (json_at ''demoReset'' state) (bool_at ''modelApplied'')) (\<lambda>applied.
               if applied then Inr True else bindE (bindE (json_at ''demoReset'' state) (null_at ''ack'')) (\<lambda>n. Inr (\<not> n)))))) (\<lambda>nothing.
       if nothing then returnS None
       else bindS (liftS (bindE (reset_command state) (str_at ''commandId''))) (\<lambda>i. returnS (Some i))))"

definition reconcile_demo_reset :: "(string \<Rightarrow> dbl option) \<Rightarrow> interruptions \<Rightarrow> MessageMetadata \<Rightarrow> unit adv_op" where
  "reconcile_demo_reset fc flt m =
     bindS (load fc) (\<lambda>before.
     bindS (reset_pending fc) (\<lambda>pending.
       if \<not> pending then returnS ()
       else
         bindS (readS (\<lambda>s. bindE (demo_poll fc (adv_epoch s) m) (\<lambda>t. bindE (parse_json fc t 65536) json_object))) (\<lambda>binding.
         bindS (liftS (reset_command before)) (\<lambda>command.
         bindS (liftS (binding_mismatch command binding)) (\<lambda>mismatch.
           if \<not> mismatch then returnS ()
           else
             bindS (liftS (bindE (reset_answer command ''REJECTED'' JNull JNull) (\<lambda>ack. put_answer ack before))) (\<lambda>after.
               commit fc flt before after None))))))"

definition reset_deadline :: "(string \<Rightarrow> dbl option) \<Rightarrow> int adv_op" where
  "reset_deadline fc =
     bindS (load fc) (\<lambda>state.
     bindS (liftS (has_key ''demoReset'' state)) (\<lambda>present.
       if \<not> present then returnS 0 else liftS (bindE (reset_command state) (command_time ''expiresAt''))))"

definition model_reset_applied :: "(string \<Rightarrow> dbl option) \<Rightarrow> interruptions \<Rightarrow> unit adv_op" where
  "model_reset_applied fc flt =
     bindS (load fc) (\<lambda>before.
     bindS (liftS (has_key ''demoReset'' before)) (\<lambda>present.
       if \<not> present then throwS (Runtime_error ''RESET_INTENT_MISSING'')
       else bindS (liftS (change ''demoReset'' (put ''modelApplied'' (JBool True)) before)) (\<lambda>after. commit fc flt before after None)))"

definition reset_ack :: "(string \<Rightarrow> dbl option) \<Rightarrow> interruptions \<Rightarrow> int \<Rightarrow> string option adv_op" where
  "reset_ack fc flt now =
     bindS (load fc) (\<lambda>before.
     bindS (liftS (has_key ''demoReset'' before)) (\<lambda>present.
       if \<not> present then returnS None
       else
         bindS (liftS (bindE (json_at ''demoReset'' before) (bool_at ''delivered''))) (\<lambda>delivered.
           if delivered then returnS None
           else
             bindS (liftS (bindE (json_at ''demoReset'' before) (json_at ''ack''))) (\<lambda>ack.
               if ack \<noteq> JNull then bindS (liftS (encode_json ack)) (\<lambda>t. returnS (Some t))
               else
                 bindS (liftS (reset_command before)) (\<lambda>command.
                 bindS (liftS (command_time ''expiresAt'' command)) (\<lambda>expires.
                   if now < expires then returnS None
                   else
                     bindS (liftS (reset_answer command ''FAILED'' JNull JNull)) (\<lambda>answer.
                     bindS (liftS (put_answer answer before)) (\<lambda>after.
                     bindS (commit fc flt before after None) (\<lambda>_.
                     bindS (liftS (encode_json answer)) (\<lambda>t. returnS (Some t)))))))))))"

definition reset_acknowledged :: "(string \<Rightarrow> dbl option) \<Rightarrow> interruptions \<Rightarrow> string \<Rightarrow> unit adv_op" where
  "reset_acknowledged fc flt bytes =
     bindS (load fc) (\<lambda>before.
     bindS (liftS (has_key ''demoReset'' before)) (\<lambda>present.
       if \<not> present then returnS ()
       else
         bindS (liftS (parse_json fc bytes 4096)) (\<lambda>response.
         bindS (liftS (json_at ''demoReset'' before)) (\<lambda>reset.
         bindS (liftS (failIf [null_at ''ack'' reset, size_not 3 response, int_not ''schemaVersion'' 1 response,
             bindE (str_at ''commandId'' response) (\<lambda>a. bindE (bindE (json_at ''command'' reset) (str_at ''commandId'')) (\<lambda>b. Inr (a \<noteq> b))),
             bindE (str_at ''state'' response) (\<lambda>a. bindE (bindE (json_at ''ack'' reset) (str_at ''result'')) (\<lambda>b. Inr (a \<noteq> b)))]
             (Runtime_error ''RESET_ACK_INVALID''))) (\<lambda>_.
         bindS (liftS (change ''demoReset'' (put ''delivered'' (JBool True)) before)) (\<lambda>after.
           commit fc flt before after None))))))"

end
