(* ===== verification/Advisory_Ledger.thy ===== *)
theory Advisory_Ledger
  imports Advisory
begin

text \<open>
  What the advisory ledger promises: its memo is transparent, a commit is atomic across failures and
  restarts, sequence numbers are never reused; and where a commit cannot be recovered.
\<close>

section \<open>The memo\<close>

definition memo_ok :: "(string \<Rightarrow> dbl option) \<Rightarrow> AdvisoryRuntime \<Rightarrow> bool" where
  "memo_ok fc s \<longleftrightarrow> (case validated s of None \<Rightarrow> True | Some (b, j) \<Rightarrow> validate_advisory_state fc b (adv_epoch s) = Inr j)"

definition same_disk :: "AdvisoryRuntime \<Rightarrow> AdvisoryRuntime \<Rightarrow> bool" where
  "same_disk s t \<longleftrightarrow> adv_files t = adv_files s \<and> adv_outbox t = adv_outbox s \<and> adv_epoch t = adv_epoch s"

lemma load_kept: "load fc s = (r, s') \<Longrightarrow> same_disk s s' \<and> adv_halted s' = adv_halted s \<and> adv_ticks s' = adv_ticks s"
  by (auto simp: load_def same_disk_def split: sum.splits option.splits if_splits prod.splits)

text \<open>
  Loading through the memo gives the result of validating the file anew.
\<close>

lemma load_eq:
  assumes "memo_ok fc s"
  shows "fst (load fc s) = bindE (read_private (adv_files s) ''state.json'' 65536) (\<lambda>b. validate_advisory_state fc b (adv_epoch s))"
    and "memo_ok fc (snd (load fc s))"
  using assms by (auto simp: load_def memo_ok_def split: sum.splits option.splits if_splits prod.splits)

lemma load_Inr:
  assumes "memo_ok fc s" and "load fc s = (Inr j, s1)"
  obtains bytes where "read_private (adv_files s) ''state.json'' 65536 = Inr bytes" "validate_advisory_state fc bytes (adv_epoch s) = Inr j"
    "same_disk s s1" "adv_halted s1 = adv_halted s" "memo_ok fc s1" "load fc s1 = (Inr j, s1)"
proof -
  have m: "memo_ok fc s1" using load_eq(2) [OF assms(1)] assms(2) by simp
  have "bindE (read_private (adv_files s) ''state.json'' 65536) (\<lambda>b. validate_advisory_state fc b (adv_epoch s)) = Inr j"
    using load_eq(1) [OF assms(1)] assms(2) by simp
  then obtain b where b: "read_private (adv_files s) ''state.json'' 65536 = Inr b"
    "validate_advisory_state fc b (adv_epoch s) = Inr j" by (auto simp: bindE_eq_Inr)
  have "load fc s1 = (Inr j, s1)"
    using assms b by (auto simp: load_def memo_ok_def split: option.splits if_splits prod.splits)
  with b m load_kept [OF assms(2)] show ?thesis using that by blast
qed

section \<open>Validated states\<close>

declare anyE.simps [simp del]

lemma failIf_Inr: "failIf cs e = Inr u \<longleftrightarrow> anyE cs = Inr False"
  by (auto simp: failIf_def bindE_eq_Inr)

lemma anyE_False: "anyE cs = Inr False \<longleftrightarrow> list_all (\<lambda>c. c = Inr False) cs"
  by (induction cs) (auto simp: anyE.simps bindE_eq_Inr split: if_splits)

lemma validated_state:
  assumes "validate_advisory_state fc bytes epoch = Inr j"
  shows "parse_json fc bytes 65536 = Inr j" "encode_json j = Inr bytes" "doc 24 j"
proof -
  show "parse_json fc bytes 65536 = Inr j" "encode_json j = Inr bytes"
    using assms by (auto simp: validate_advisory_state_def bindE_eq_Inr failIf_Inr anyE_False)
  then show "doc 24 j" by (blast dest: parse_json_doc)
qed

text \<open>Updates keep a document a document.\<close>

lemma doc_put: "doc (Suc n) j \<Longrightarrow> doc n v \<Longrightarrow> put k v j = Inr j' \<Longrightarrow> doc (Suc n) j'"
  by (cases j) (auto simp: put_def json_object_def bindE_eq_Inr doc_set)

lemma doc_change:
  assumes "change k f j = Inr j'" and "doc (Suc n) j" and "\<And>v w. doc n v \<Longrightarrow> f v = Inr w \<Longrightarrow> doc n w"
  shows "doc (Suc n) j'"
  using assms(1,2) by (auto simp: change_def bindE_eq_Inr intro: doc_put dest: doc_at assms(3))

lemma put_at:
  "put k v j = Inr j' \<Longrightarrow> doc (Suc n) j \<Longrightarrow> json_at k' j' = (if k' = k then Inr v else json_at k' j)"
  by (cases j) (auto simp: put_def json_object_def json_at_def bindE_eq_Inr doc_object map_of_map_set)

lemma change_at:
  assumes "change k f j = Inr j'" and "doc (Suc n) j"
  obtains v w where "json_at k j = Inr v" "f v = Inr w" "json_at k j' = Inr w" "\<And>k'. k' \<noteq> k \<Longrightarrow> json_at k' j' = json_at k' j"
  using assms by (auto simp: change_def bindE_eq_Inr put_at)

lemma doc_answer:
  assumes "reset_answer command outcome rj sj = Inr ack" and "doc (Suc n) command" and "doc n rj" and "doc n sj"
  shows "doc (Suc n) ack" and "json_at ''result'' ack = Inr (JString outcome)"
proof -
  obtain kvs where k: "command = JObject kvs" using assms(1) by (cases command) (auto simp: reset_answer_def json_object_def)
  have sorted: "sorted_wrt (<) (map fst kvs)" using assms(2) k by (simp add: doc_object)
  show "doc (Suc n) ack"
    using assms k by (auto simp: reset_answer_def json_object_def intro!: doc_set doc_erase)
  show "json_at ''result'' ack = Inr (JString outcome)"
    using assms(1) k sorted
    by (auto simp: reset_answer_def json_object_def json_at_def map_of_map_set map_set_sorted map_erase_sorted map_of_map_erase)
qed

section \<open>A refused reset\<close>

text \<open>A state whose reset has an answer other than \<open>CLEARED\<close> and \<open>FAILED\<close> is never accepted.\<close>

lemma answer_refused:
  assumes "validate_advisory_state fc a epoch = Inr j" and "json_at ''demoReset'' j = Inr reset" and "json_at ''ack'' reset = Inr ack"
    and "json_at ''result'' ack = Inr (JString outcome)"
  shows "outcome \<in> {''CLEARED'', ''FAILED''}"
proof -
  obtain kvs where j: "j = JObject kvs" "map_of kvs ''demoReset'' = Some reset"
    using assms(2) by (cases j) (auto simp: json_at_def json_object_def split: option.splits)
  then have "validate_reset epoch reset = Inr ()"
    using assms(1,2) by (auto simp: validate_advisory_state_def has_key_def json_object_def bindE_eq_Inr)
  moreover have "ack \<noteq> JNull" using assms(4) by (auto simp: json_at_def json_object_def)
  ultimately obtain command where "validate_reset_ack reset command ack = Inr ()"
    using assms(3) by (auto simp: validate_reset_def bindE_eq_Inr)
  then show ?thesis
    using assms(4) by (auto simp: validate_reset_ack_def bindE_eq_Inr failIf_Inr anyE_False str_not_def str_at_def json_str_def split: if_splits)
qed

text \<open>The journal as it is read back.\<close>

lemma journal_object_doc: "doc n payload \<Longrightarrow> doc (Suc n) (journal_object b a payload pt)"
  unfolding journal_object_def by (rule doc_fields) (simp add: i64_min_def i64_max_def)

lemma journal_object_fields:
  "journal_object b a payload pt = JObject [(''after'', JString a), (''afterSha256'', JString (sha256_hex a)),
     (''before'', JString b), (''beforeSha256'', JString (sha256_hex b)), (''fact'', payload),
     (''factSha256'', JString (sha256_hex pt)), (''schemaVersion'', JInt 1)]"
  by (simp add: journal_object_def json_fields_def)

lemma read_own_journal:
  assumes "encode_json (journal_object b a payload pt) = Inr text" and "doc 23 payload"
    and "read_advisory_journal fc epoch text cur = Inr (stale, after, publish)"
  shows "after = a" and "\<exists>next. validate_advisory_state fc a epoch = Inr next"
proof -
  have "doc 24 (journal_object b a payload pt)" using journal_object_doc [OF assms(2)] by simp
  from parse_doc [OF assms(1) this, of fc 327680] assms(3)
  have p: "parse_json fc text 327680 = Inr (journal_object b a payload pt)"
    by (auto simp: read_advisory_journal_def split: if_splits)
  show "after = a" "\<exists>next. validate_advisory_state fc a epoch = Inr next"
    using assms(3) unfolding read_advisory_journal_def p journal_object_fields
    by (auto simp: bindE_eq_Inr json_at_def json_object_def str_at_def json_str_def)
qed


text \<open>A journal that cannot be read stops every recovery, and with it every start.\<close>

definition unreadable :: "(string \<Rightarrow> dbl option) \<Rightarrow> string \<Rightarrow> dir \<Rightarrow> bool" where
  "unreadable fc epoch files \<longleftrightarrow>
     (\<exists>text. map_of files ''journal.json'' = Some text \<and> (\<forall>cur x. read_advisory_journal fc epoch text cur \<noteq> Inr x)) \<and>
     map_of files ''state.json'' \<noteq> None"

lemma recover_unreadable:
  assumes "unreadable fc (adv_epoch s) (adv_files s)"
  shows "\<exists>e. recover_advisory fc flt s = (Inl e, s)"
proof -
  from assms obtain jt where j: "map_of (adv_files s) ''journal.json'' = Some jt"
    and no: "\<And>cur x. read_advisory_journal fc (adv_epoch s) jt cur \<noteq> Inr x" by (auto simp: unreadable_def)
  show ?thesis
  proof (cases "read_private (adv_files s) ''journal.json'' 327680")
    case (Inl e)
    then show ?thesis by (simp add: recover_advisory_def bindS_def j)
  next
    case (Inr t)
    then have "t = jt" using j by (auto simp: read_private_def split: if_splits)
    with Inr no show ?thesis
      by (cases "read_advisory_journal fc (adv_epoch s) jt (read_private (adv_files s) ''state.json'' 65536)")
        (auto simp: recover_advisory_def bindS_def j)
  qed
qed

lemma start_unreadable:
  assumes "unreadable fc (producer_epoch model) (adv_files s)"
  shows "\<exists>e. fst (start_advisory fc flt model s) = Inl e \<and> adv_files (snd (start_advisory fc flt model s)) = adv_files s"
proof -
  let ?s = "s\<lparr>adv_epoch := producer_epoch model, validated := None, adv_halted := False, adv_ticks := 0\<rparr>"
  obtain e where "recover_advisory fc flt ?s = (Inl e, ?s)" using recover_unreadable [of fc ?s flt] assms by auto
  moreover have "map_of (adv_files ?s) ''state.json'' \<noteq> None" using assms by (auto simp: unreadable_def)
  ultimately show ?thesis
    by (cases "state_json model") (auto simp: start_advisory_def bindS_def)
qed

lemma adv_write_through:
  "\<not> adv_halted s \<Longrightarrow> \<exists>n. adv_write (\<lambda>_. Through) name bytes s =
    (Inr (), s\<lparr>adv_files := AList.update name bytes (adv_files s), adv_ticks := n\<rparr>)"
  by (auto simp: adv_write_def sync_dir_def adv_effect_def bindS_def Let_def)

lemma commit_unreadable:
  assumes "encode_json after = Inr a" and "length a \<le> 65536" and "map_of (adv_files s) ''journal.json'' = None" and "\<not> adv_halted s"
    and "map_of (adv_files s) ''state.json'' \<noteq> None"
    and "encode_json before = Inr b" and "\<And>x. validate_advisory_state fc a (adv_epoch s) \<noteq> Inr x"
  shows "\<exists>e s'. commit fc (\<lambda>_. Through) before after None s = (Inl e, s') \<and> unreadable fc (adv_epoch s) (adv_files s') \<and>
    map_of (adv_files s') ''state.json'' = map_of (adv_files s) ''state.json'' \<and> adv_outbox s' = adv_outbox s"
proof -
  have pt: "encode_json (fact_payload None) = Inr ''null''" by (simp add: fact_payload_def)
  have hex: "valid_utf8 (sha256_hex t)" for t
    using sha256_hex_lowercase [of t]
    by (intro valid_utf8_ascii) (auto simp: lowercase_sha256_def list_all_iff char_class_defs)
  obtain jt where t: "encode_json (journal_object b a JNull ''null'') = Inr jt"
    using encode_utf8 [OF assms(1)] encode_utf8 [OF assms(6)] hex by (auto simp: journal_object_fields quote_json_def validate_utf8_def code_def)
  have no: "read_advisory_journal fc (adv_epoch s) jt cur \<noteq> Inr x" for cur x
    using read_own_journal(2) [OF t doc_scalar(3)] assms(7) by (cases x) blast
  obtain n where w: "adv_write (\<lambda>_. Through) ''journal.json'' jt s =
      (Inr (), s\<lparr>adv_files := AList.update ''journal.json'' jt (adv_files s), adv_ticks := n\<rparr>)"
    using adv_write_through [OF assms(4)] by blast
  let ?s = "s\<lparr>adv_files := AList.update ''journal.json'' jt (adv_files s), adv_ticks := n\<rparr>"
  have u: "unreadable fc (adv_epoch s) (adv_files ?s)"
    using no assms(5) by (auto simp: unreadable_def map_of_update)
  then obtain e where "recover_advisory fc (\<lambda>_. Through) ?s = (Inl e, ?s)" using recover_unreadable [of fc ?s] by auto
  moreover have "commit fc (\<lambda>_. Through) before after None s = recover_advisory fc (\<lambda>_. Through) ?s"
    using assms(1-3,6) pt t w by (simp add: commit_def bindS_def fact_payload_def)
  ultimately show ?thesis using u by (auto simp: map_of_update)
qed


lemma load_stable:
  assumes "memo_ok fc s" and "load fc s = (Inr j, s1)"
  shows "load fc s1 = (Inr j, s1)" and "same_disk s s1" and "adv_halted s1 = adv_halted s"
  using assms by (blast elim: load_Inr)+

text \<open>C28. A reset that is still open when the service starts with another identity (another version, for
  instance) cannot be refused: \<open>reconcile_demo_reset\<close> writes a journal whose new state answers
  \<open>REJECTED\<close>, which the validation of states does not allow. The call raises, although no write
  failed, the state file keeps the open reset, and from then on every start raises as well and
  changes nothing, whatever happens during it.
\<close>

theorem rejected_reset_disables:
  assumes "memo_ok fc s" and "load fc s = (Inr before, s1)" and "\<not> adv_halted s" and "map_of (adv_files s) ''journal.json'' = None"
    and "reset_open before = Inr True" and "reset_command before = Inr command"
    and "bindE (demo_poll fc (adv_epoch s) m) (\<lambda>t. bindE (parse_json fc t 65536) json_object) = Inr binding"
    and "binding_mismatch command binding = Inr True"
    and "bindE (bindE (reset_answer command ''REJECTED'' JNull JNull) (\<lambda>ack. put_answer ack before)) encode_json = Inr a"
    and "length a \<le> 65536"
  shows "\<exists>e s'. reconcile_demo_reset fc (\<lambda>_. Through) m s = (Inl e, s') \<and>
    map_of (adv_files s') ''state.json'' = map_of (adv_files s) ''state.json'' \<and>
    (\<forall>t flt model. adv_files t = adv_files s' \<longrightarrow> producer_epoch model = adv_epoch s \<longrightarrow>
      (\<exists>e'. fst (start_advisory fc flt model t) = Inl e') \<and> adv_files (snd (start_advisory fc flt model t)) = adv_files s')"
proof -
  from assms(9) obtain ack after where answer: "reset_answer command ''REJECTED'' JNull JNull = Inr ack" "put_answer ack before = Inr after"
    "encode_json after = Inr a" by (auto simp: bindE_eq_Inr)
  from assms(1,2) obtain bytes where bytes: "read_private (adv_files s) ''state.json'' 65536 = Inr bytes"
    and v: "validate_advisory_state fc bytes (adv_epoch s) = Inr before" by (rule load_Inr)
  note ls = load_stable [OF assms(1,2)] and vs = validated_state [OF v]
  have disk: "adv_files s1 = adv_files s" "adv_epoch s1 = adv_epoch s" using ls(2) by (simp_all add: same_disk_def)
  have present: "map_of (adv_files s1) ''state.json'' \<noteq> None" using bytes disk by (auto simp: read_private_def split: option.splits)
  have doc: "doc (Suc 23) before" using vs(3) by simp
  from assms(6) obtain reset where reset: "json_at ''demoReset'' before = Inr reset" "json_at ''command'' reset = Inr command"
    by (auto simp: reset_command_def bindE_eq_Inr)
  have docs: "doc (Suc 22) reset" "doc (Suc 21) command" using doc_at [OF doc reset(1)] doc_at [of 22 reset] reset(2) by simp_all
  note ack = doc_answer [OF answer(1) docs(2) doc_scalar(3) doc_scalar(3)]
  obtain reset' where r': "json_at ''demoReset'' after = Inr reset'" "put ''ack'' ack reset = Inr reset'"
    using reset(1) by (auto intro: change_at [OF answer(2) [unfolded put_answer_def] doc])
  have ack': "json_at ''ack'' reset' = Inr ack" using put_at [OF r'(2) docs(1)] by simp
  have "doc (Suc 23) after"
  proof (rule doc_change [OF answer(2) [unfolded put_answer_def] doc])
    fix v w
    assume "doc 23 v" and "put ''ack'' ack v = Inr w"
    then show "doc 23 w" using doc_put [of 22 v ack] ack(1) by simp
  qed
  then have pa: "parse_json fc a 65536 = Inr after" using parse_doc [OF answer(3)] assms(10) by simp
  have refuse: "validate_advisory_state fc a (adv_epoch s1) \<noteq> Inr x" for x
  proof
    assume x: "validate_advisory_state fc a (adv_epoch s1) = Inr x"
    then have "x = after" using validated_state(1) pa by auto
    with answer_refused [OF x _ ack' ack(2)] r'(1) show False by simp
  qed
  from commit_unreadable [OF answer(3) assms(10) _ _ present vs(2) refuse] assms(3,4) disk ls(3) obtain e s' where
    c: "commit fc (\<lambda>_. Through) before after None s1 = (Inl e, s')" and u: "unreadable fc (adv_epoch s) (adv_files s')"
    and same: "map_of (adv_files s') ''state.json'' = map_of (adv_files s) ''state.json''" by auto
  have "reconcile_demo_reset fc (\<lambda>_. Through) m s = (Inl e, s')"
    using assms(2,5-8) answer ls(1) disk c by (simp add: reconcile_demo_reset_def reset_pending_def bindS_def json_object_def)
  moreover have "(\<exists>e'. fst (start_advisory fc flt model t) = Inl e') \<and> adv_files (snd (start_advisory fc flt model t)) = adv_files s'"
    if "adv_files t = adv_files s'" "producer_epoch model = adv_epoch s" for t flt model
    using start_unreadable [of fc model t flt] u that by auto
  ultimately show ?thesis using same by blast
qed


text \<open>A state with an open reset for version 1.2.3, and the service started as version 1.2.4.\<close>

definition sample_epoch :: string where "sample_epoch = ''12345678-1234-4234-8234-123456789abc''"

definition sample_command :: Json where
  "sample_command = json_fields [(''schemaVersion'', JInt 1), (''operation'', JString ''RESET_DEMO_SCENARIO''),
     (''commandId'', JString sample_epoch), (''producerEpoch'', JString sample_epoch), (''unitSystemUid'', JString ''unit-7''),
     (''serviceVersion'', JString ''1.2.3''), (''issuedAt'', JString ''2026-01-02T03:04:05.000Z''),
     (''expiresAt'', JString ''2026-01-02T03:04:35.000Z''),
     (''serviceInstance'', instance_object \<lparr>service_id = ''brake'', subject_id = ''s1'', instance_index = 12, instance_id = ''i1''\<rparr>)]"

definition sample_state :: Json where
  "sample_state = json_fields [(''schemaVersion'', JInt 1), (''producerEpoch'', JString sample_epoch), (''nextSequence'', JInt 1),
     (''requests'', JArray []), (''demoReset'', json_fields [(''command'', sample_command), (''modelApplied'', JBool False), (''ack'', JNull),
       (''delivered'', JBool False)])]"

definition sample_runtime :: AdvisoryRuntime where
  "sample_runtime = \<lparr>adv_files = [(''state.json'', case encode_json sample_state of Inr t \<Rightarrow> t | Inl _ \<Rightarrow> [])], adv_outbox = [],
     adv_epoch = sample_epoch, validated = None, adv_halted = False, adv_ticks = 0\<rparr>"

theorem rejected_reset_disables_witness:
  "\<exists>e s'. reconcile_demo_reset (\<lambda>_. None) (\<lambda>_. Through) (sample_metadata\<lparr>service_version := ''1.2.4''\<rparr>) sample_runtime = (Inl e, s')"
proof -
  let ?fc = "\<lambda>_. None" and ?m = "sample_metadata\<lparr>service_version := ''1.2.4''\<rparr>"
  have load: "fst (load ?fc sample_runtime) = Inr sample_state" by code_simp
  obtain s1 where l: "load ?fc sample_runtime = (Inr sample_state, s1)" using load by (cases "load ?fc sample_runtime") auto
  have memo: "memo_ok ?fc sample_runtime" by (simp add: memo_ok_def sample_runtime_def)
  have run: "\<not> adv_halted sample_runtime" "map_of (adv_files sample_runtime) ''journal.json'' = None"
    by (simp_all add: sample_runtime_def)
  have reset: "reset_open sample_state = Inr True" "reset_command sample_state = Inr sample_command" by code_simp+
  have "okE (bindE (demo_poll ?fc (adv_epoch sample_runtime) ?m) (\<lambda>t. bindE (parse_json ?fc t 65536) json_object))" by code_simp
  then obtain binding where binding: "bindE (demo_poll ?fc (adv_epoch sample_runtime) ?m) (\<lambda>t. bindE (parse_json ?fc t 65536) json_object) = Inr binding"
    by (auto simp: okE_iff)
  have "bindE (bindE (demo_poll ?fc (adv_epoch sample_runtime) ?m) (\<lambda>t. bindE (parse_json ?fc t 65536) json_object))
      (binding_mismatch sample_command) = Inr True" by code_simp
  then have mismatch: "binding_mismatch sample_command binding = Inr True" by (simp add: binding)
  have "(case bindE (bindE (reset_answer sample_command ''REJECTED'' JNull JNull) (\<lambda>ack. put_answer ack sample_state)) encode_json of
      Inl _ \<Rightarrow> False | Inr a \<Rightarrow> length a \<le> 65536)" by code_simp
  then obtain a where a: "bindE (bindE (reset_answer sample_command ''REJECTED'' JNull JNull) (\<lambda>ack. put_answer ack sample_state)) encode_json = Inr a"
    "length a \<le> 65536" by (auto split: sum.splits)
  from rejected_reset_disables [OF memo l run reset binding mismatch a] show ?thesis by blast
qed

section \<open>A commit is atomic\<close>

text \<open>The two files, the outbox and the epoch decide what a start does.\<close>

definition on_adv_disk :: "(dir \<Rightarrow> dir \<Rightarrow> string \<Rightarrow> bool) \<Rightarrow> AdvisoryRuntime \<Rightarrow> bool" where
  "on_adv_disk R s \<longleftrightarrow> R (adv_files s) (adv_outbox s) (adv_epoch s)"

text \<open>Without an interruption an effect raises only after the end of the process.\<close>

definition interrupted :: "interruptions \<Rightarrow> AdvisoryRuntime \<Rightarrow> bool" where
  "interrupted flt s \<longleftrightarrow> (flt = (\<lambda>_. Through) \<longrightarrow> adv_halted s)"

lemma hoare_adv_effect:
  assumes "\<And>s. on_adv_disk R s \<Longrightarrow> on_adv_disk S (f s)" and "\<And>s. adv_halted (f s) = adv_halted s"
  shows "hoare (on_adv_disk R) (adv_effect flt what f) (\<lambda>_. on_adv_disk S) (\<lambda>s. (on_adv_disk R s \<or> on_adv_disk S s) \<and> interrupted flt s)"
proof (rule hoareI)
  fix s
  assume R: "on_adv_disk R s"
  let ?s = "s\<lparr>adv_ticks := adv_ticks s + 1\<rparr>"
  have "on_adv_disk R ?s" using R by (simp add: on_adv_disk_def)
  moreover from this have "on_adv_disk S (f ?s)" by (rule assms)
  ultimately show "case adv_effect flt what f s of (Inr x, s') \<Rightarrow> on_adv_disk S s'
      | (Inl e, s') \<Rightarrow> (on_adv_disk R s' \<or> on_adv_disk S s') \<and> interrupted flt s'"
    using R assms(2) by (auto simp: adv_effect_def Let_def on_adv_disk_def interrupted_def split: interruption.splits)
qed

lemma hoare_sync_dir: "hoare (on_adv_disk R) (sync_dir flt) (\<lambda>_. on_adv_disk R) (\<lambda>s. on_adv_disk R s \<and> interrupted flt s)"
  unfolding sync_dir_def by (rule hoare_weaken [OF hoare_adv_effect [of R R]]) auto

lemma hoare_synced:
  assumes "\<And>s. on_adv_disk R s \<Longrightarrow> on_adv_disk S (f s)" and "\<And>s. adv_halted (f s) = adv_halted s"
  shows "hoare (on_adv_disk R) (bindS (adv_effect flt what f) (\<lambda>_. sync_dir flt)) (\<lambda>_. on_adv_disk S)
    (\<lambda>s. (on_adv_disk R s \<or> on_adv_disk S s) \<and> interrupted flt s)"
  by (rule hoare_bindS [OF hoare_adv_effect [OF assms]]) (auto intro: hoare_weaken [OF hoare_sync_dir])

text \<open>The stages of a commit: nothing, the journal, the new state, the fact, the end.\<close>

record change_plan =
  plan_epoch :: string
  plan_before :: string
  plan_after :: string
  plan_fact :: "AdvisoryDelivery option"
  plan_journal :: string
  plan_outbox :: "string \<Rightarrow> string option"

definition with_fact :: "change_plan \<Rightarrow> string \<Rightarrow> string option" where
  "with_fact c = (case plan_fact c of None \<Rightarrow> plan_outbox c | Some d \<Rightarrow> (plan_outbox c)(delivery_id d \<mapsto> delivery_bytes d))"

definition stage :: "change_plan \<Rightarrow> string \<Rightarrow> bool \<Rightarrow> (string \<Rightarrow> string option) \<Rightarrow> AdvisoryRuntime \<Rightarrow> bool" where
  "stage c st journal ob =
     on_adv_disk (\<lambda>files out epoch. epoch = plan_epoch c \<and> map_of files ''state.json'' = Some st \<and>
       map_of files ''journal.json'' = (if journal then Some (plan_journal c) else None) \<and> map_of out = ob)"

definition unchanged :: "change_plan \<Rightarrow> AdvisoryRuntime \<Rightarrow> bool" where
  "unchanged c = stage c (plan_before c) False (plan_outbox c)"

definition changed :: "change_plan \<Rightarrow> AdvisoryRuntime \<Rightarrow> bool" where
  "changed c = stage c (plan_after c) False (with_fact c)"

definition underway :: "change_plan \<Rightarrow> AdvisoryRuntime \<Rightarrow> bool" where
  "underway c s \<longleftrightarrow> stage c (plan_before c) True (plan_outbox c) s \<or> stage c (plan_after c) True (plan_outbox c) s \<or>
     stage c (plan_after c) True (with_fact c) s \<or> changed c s"

text \<open>A plan that recovery accepts at each stage.\<close>

definition plan_ok :: "(string \<Rightarrow> dbl option) \<Rightarrow> change_plan \<Rightarrow> bool" where
  "plan_ok fc c \<longleftrightarrow>
     plan_before c \<noteq> [] \<and> length (plan_before c) \<le> 65536 \<and> plan_after c \<noteq> [] \<and> length (plan_after c) \<le> 65536 \<and>
     plan_journal c \<noteq> [] \<and> length (plan_journal c) \<le> 327680 \<and>
     (\<forall>cur \<in> {plan_before c, plan_after c}. read_advisory_journal fc (plan_epoch c) (plan_journal c) (Inr cur) =
        Inr (cur = plan_before c, plan_after c, plan_fact c)) \<and>
     (case plan_fact c of None \<Rightarrow> True
      | Some d \<Rightarrow> plan_outbox c (delivery_id d) \<in> {None, Some (delivery_bytes d)} \<and> delivery_bytes d \<noteq> [] \<and> length (delivery_bytes d) \<le> 16384)"

lemma hoare_stage:
  assumes "\<And>s. stage c st j ob s \<Longrightarrow> stage c st' j' ob' (f s)" and "\<And>s. adv_halted (f s) = adv_halted s"
    and "\<And>s. stage c st j ob s \<Longrightarrow> E s" and "\<And>s. stage c st' j' ob' s \<Longrightarrow> E s"
  shows "hoare (stage c st j ob) (bindS (adv_effect flt what f) (\<lambda>_. sync_dir flt)) (\<lambda>_. stage c st' j' ob') (\<lambda>s. E s \<and> interrupted flt s)"
  using assms(3,4) by (intro hoare_weaken [OF hoare_synced [OF assms(1) [unfolded stage_def] assms(2)]]) (auto simp: stage_def)

lemma hoare_publish_fact:
  assumes "plan_ok fc c" and "ob \<in> {plan_outbox c, with_fact c}"
  shows "hoare (stage c (plan_after c) True ob) (publish_fact flt (plan_fact c)) (\<lambda>_. stage c (plan_after c) True (with_fact c)) (\<lambda>s. underway c s \<and> interrupted flt s)"
proof (cases "plan_fact c")
  case None
  with assms(2) show ?thesis by (auto simp: publish_fact_def with_fact_def intro!: hoare_returnS)
next
  case (Some d)
  show ?thesis
  proof (cases "ob (delivery_id d)")
    case None
    with Some assms(2) have ob: "ob = plan_outbox c" by (auto simp: with_fact_def)
    have w: "hoare (stage c (plan_after c) True ob) (write_outbox flt (delivery_id d) (delivery_bytes d))
        (\<lambda>_. stage c (plan_after c) True (with_fact c)) (\<lambda>s. underway c s \<and> interrupted flt s)"
      unfolding write_outbox_def
    proof (rule hoare_stage)
      fix s
      assume "stage c (plan_after c) True ob s"
      then show "stage c (plan_after c) True (with_fact c) (s\<lparr>adv_outbox := AList.update (delivery_id d) (delivery_bytes d) (adv_outbox s)\<rparr>)"
        by (auto simp: stage_def on_adv_disk_def ob Some with_fact_def map_of_update fun_eq_iff)
    qed (auto simp: underway_def ob)
    show ?thesis
    proof (rule hoareI)
      fix s
      assume s: "stage c (plan_after c) True ob s"
      then have "map_of (adv_outbox s) (delivery_id d) = None" using None by (simp add: stage_def on_adv_disk_def)
      then show "case publish_fact flt (plan_fact c) s of (Inr x, s') \<Rightarrow> stage c (plan_after c) True (with_fact c) s' | (Inl e, s') \<Rightarrow> underway c s' \<and> interrupted flt s'"
        using w s by (simp add: publish_fact_def Some hoare_def)
    qed
  next
    case (Some b)
    have b: "b = delivery_bytes d" "ob = with_fact c" "b \<noteq> []" "length b \<le> 16384"
      using assms Some \<open>plan_fact c = Some d\<close> by (auto simp: plan_ok_def with_fact_def fun_upd_idem)
    show ?thesis
    proof (rule hoareI)
      fix s
      assume s: "stage c (plan_after c) True ob s"
      then have "map_of (adv_outbox s) (delivery_id d) = Some b" using Some by (simp add: stage_def on_adv_disk_def)
      then show "case publish_fact flt (plan_fact c) s of (Inr x, s') \<Rightarrow> stage c (plan_after c) True (with_fact c) s' | (Inl e, s') \<Rightarrow> underway c s' \<and> interrupted flt s'"
        using s b \<open>plan_fact c = Some d\<close> by (simp add: publish_fact_def bindS_def read_private_def checkS_def)
    qed
  qed
qed


lemma hoare_recover:
  assumes "plan_ok fc c"
  shows "hoare (underway c) (recover_advisory fc flt) (\<lambda>_. changed c) (\<lambda>s. underway c s \<and> interrupted flt s)"
proof (rule hoareI)
  fix s
  assume u: "underway c s"
  have finish: "hoare (stage c (plan_after c) True ob) (bindS (publish_fact flt (plan_fact c)) (\<lambda>_. adv_remove flt ''journal.json''))
      (\<lambda>_. changed c) (\<lambda>s. underway c s \<and> interrupted flt s)" if "ob \<in> {plan_outbox c, with_fact c}" for ob
  proof (rule hoare_bindS [OF hoare_publish_fact [OF assms that]])
    show "hoare (stage c (plan_after c) True (with_fact c)) (adv_remove flt ''journal.json'') (\<lambda>_. changed c) (\<lambda>s. underway c s \<and> interrupted flt s)" for x :: unit
      unfolding adv_remove_def changed_def
    proof (rule hoare_stage)
      fix s
      assume "stage c (plan_after c) True (with_fact c) s"
      then show "stage c (plan_after c) False (with_fact c) (s\<lparr>adv_files := AList.delete ''journal.json'' (adv_files s)\<rparr>)"
        by (auto simp: stage_def on_adv_disk_def delete_conv')
    qed (auto simp: underway_def changed_def)
  qed
  show "case recover_advisory fc flt s of (Inr x, s') \<Rightarrow> changed c s' | (Inl e, s') \<Rightarrow> underway c s' \<and> interrupted flt s'"
  proof (cases "changed c s")
    case True
    then show ?thesis by (simp add: recover_advisory_def changed_def stage_def on_adv_disk_def)
  next
    case False
    with u obtain st ob where st: "stage c st True ob s" and cases: "st = plan_before c \<and> ob = plan_outbox c \<or> st = plan_after c \<and> ob \<in> {plan_outbox c, with_fact c}"
      by (auto simp: underway_def)
    let ?rest = "bindS (if st = plan_before c then adv_write flt ''state.json'' (plan_after c) else returnS ())
      (\<lambda>_. bindS (publish_fact flt (plan_fact c)) (\<lambda>_. adv_remove flt ''journal.json''))"
    have "recover_advisory fc flt s = ?rest s"
      using st cases assms by (auto simp: recover_advisory_def bindS_def plan_ok_def stage_def on_adv_disk_def read_private_def)
    moreover have advance: "hoare (stage c st True ob) (adv_write flt ''state.json'' (plan_after c)) (\<lambda>_. stage c (plan_after c) True ob) (\<lambda>s. underway c s \<and> interrupted flt s)"
      unfolding adv_write_def
    proof (rule hoare_stage)
      fix s
      assume "stage c st True ob s"
      then show "stage c (plan_after c) True ob (s\<lparr>adv_files := AList.update ''state.json'' (plan_after c) (adv_files s)\<rparr>)"
        by (auto simp: stage_def on_adv_disk_def map_of_update)
    qed (use cases in \<open>auto simp: underway_def\<close>)
    moreover have "hoare (stage c st True ob) ?rest (\<lambda>_. changed c) (\<lambda>s. underway c s \<and> interrupted flt s)"
    proof (rule hoare_bindS [OF hoare_if finish])
      show "hoare (stage c st True ob) (returnS ()) (\<lambda>_. stage c (plan_after c) True ob) (\<lambda>s. underway c s \<and> interrupted flt s)" if "st \<noteq> plan_before c"
        using that cases by (auto intro: hoare_returnS)
    qed (use advance cases in auto)
    ultimately show ?thesis using st by (simp add: hoare_def)
  qed
qed




lemma hoare_commit:
  assumes "plan_ok fc c" and "encode_json before = Inr (plan_before c)" and "encode_json after = Inr (plan_after c)"
    and "encode_json (fact_payload (plan_fact c)) = Inr pt"
    and "encode_json (journal_object (plan_before c) (plan_after c) (fact_payload (plan_fact c)) pt) = Inr (plan_journal c)"
  shows "hoare (unchanged c) (commit fc flt before after (plan_fact c)) (\<lambda>_. changed c)
    (\<lambda>s. (unchanged c s \<or> underway c s) \<and> interrupted flt s)"
proof (rule hoareI)
  fix s
  assume s: "unchanged c s"
  have w: "hoare (stage c (plan_before c) False (plan_outbox c)) (adv_write flt ''journal.json'' (plan_journal c))
      (\<lambda>_. stage c (plan_before c) True (plan_outbox c)) (\<lambda>s. (unchanged c s \<or> underway c s) \<and> interrupted flt s)"
    unfolding adv_write_def
  proof (rule hoare_stage)
    fix s
    assume "stage c (plan_before c) False (plan_outbox c) s"
    then show "stage c (plan_before c) True (plan_outbox c) (s\<lparr>adv_files := AList.update ''journal.json'' (plan_journal c) (adv_files s)\<rparr>)"
      by (auto simp: stage_def on_adv_disk_def map_of_update)
  qed (auto simp: unchanged_def underway_def)
  have "hoare (unchanged c) (bindS (adv_write flt ''journal.json'' (plan_journal c)) (\<lambda>_. recover_advisory fc flt)) (\<lambda>_. changed c)
      (\<lambda>s. (unchanged c s \<or> underway c s) \<and> interrupted flt s)"
    unfolding unchanged_def
    by (rule hoare_bindS [OF w [unfolded unchanged_def]], rule hoare_weaken [OF hoare_recover [OF assms(1)]]) (auto simp: underway_def)
  moreover have "commit fc flt before after (plan_fact c) s = bindS (adv_write flt ''journal.json'' (plan_journal c)) (\<lambda>_. recover_advisory fc flt) s"
    using assms s by (simp add: commit_def plan_ok_def unchanged_def stage_def on_adv_disk_def)
  ultimately show "case commit fc flt before after (plan_fact c) s of (Inr x, s') \<Rightarrow> changed c s'
      | (Inl e, s') \<Rightarrow> (unchanged c s' \<or> underway c s') \<and> interrupted flt s'"
    using s by (simp add: hoare_def)
qed

section \<open>Restarts\<close>

lemma keeps_running: "keeps (\<lambda>s. \<not> adv_halted s) (recover_advisory fc (\<lambda>_. Through))"
proof -
  have e: "keeps (\<lambda>s. \<not> adv_halted s) (adv_effect (\<lambda>_. Through) what f)" if "\<And>s. adv_halted (f s) = adv_halted s" for what f
    using that by (auto simp: keeps_def adv_effect_def)
  show ?thesis
    unfolding recover_advisory_def publish_fact_def adv_write_def adv_remove_def write_outbox_def sync_dir_def
    by (intro keeps_rules e) (auto simp: publish_fact_def write_outbox_def sync_dir_def intro!: keeps_rules e split: prod.splits option.splits)
qed

lemma recover_through:
  assumes "plan_ok fc c" and "underway c s" and "\<not> adv_halted s"
  shows "\<exists>s'. recover_advisory fc (\<lambda>_. Through) s = (Inr (), s') \<and> changed c s'"
proof -
  have "\<not> adv_halted (snd (recover_advisory fc (\<lambda>_. Through) s))" using keepsD [OF keeps_running assms(3)] .
  moreover obtain r s' where r: "recover_advisory fc (\<lambda>_. Through) s = (r, s')" by force
  ultimately show ?thesis
    using hoareD [OF hoare_recover [OF assms(1)] assms(2), of "\<lambda>_. Through"] by (cases r) (auto simp: interrupted_def)
qed


definition new_process :: "ModelState \<Rightarrow> AdvisoryRuntime \<Rightarrow> AdvisoryRuntime" where
  "new_process model s = s\<lparr>adv_epoch := producer_epoch model, validated := None, adv_halted := False, adv_ticks := 0\<rparr>"

lemma start_present:
  "map_of (adv_files s) ''state.json'' \<noteq> None \<Longrightarrow>
    start_advisory fc flt model s = bindS (liftS (state_json model)) (\<lambda>_. bindS (recover_advisory fc flt) (\<lambda>_.
      bindS (load fc) (\<lambda>_. bindS (readS (outbox_usage fc)) (\<lambda>_. returnS ())))) (new_process model s)"
  by (cases "state_json model") (auto simp: start_advisory_def new_process_def bindS_def)

definition advisory_restarts :: "(string \<Rightarrow> dbl option) \<Rightarrow> ModelState \<Rightarrow> interruptions list \<Rightarrow> AdvisoryRuntime \<Rightarrow> AdvisoryRuntime" where
  "advisory_restarts fc model flts s = foldl (\<lambda>s flt. snd (start_advisory fc flt model s)) s flts"

definition settling :: "change_plan \<Rightarrow> AdvisoryRuntime \<Rightarrow> bool" where
  "settling c s \<longleftrightarrow> unchanged c s \<or> underway c s"

lemmas stage_defs = settling_def unchanged_def underway_def changed_def stage_def on_adv_disk_def

lemma load_keeps: "keeps (stage c st j ob) (load fc)"
proof (rule keepsI)
  fix s
  assume "stage c st j ob s"
  moreover obtain r s' where "load fc s = (r, s')" by force
  ultimately show "stage c st j ob (snd (load fc s))" using load_kept by (fastforce simp: stage_def on_adv_disk_def same_disk_def)
qed

lemma keeps_disj: "keeps P m \<Longrightarrow> keeps Q m \<Longrightarrow> keeps (\<lambda>s. P s \<or> Q s) m"
  by (auto simp: keeps_def)

lemma recover_nothing: "map_of (adv_files s) ''journal.json'' = None \<Longrightarrow> recover_advisory fc flt s = (Inr (), s)"
  by (simp add: recover_advisory_def)

lemma recover_keeps:
  assumes "plan_ok fc c"
  shows "keeps (settling c) (recover_advisory fc flt)"
proof (rule keepsI)
  fix s
  assume s: "settling c s"
  show "settling c (snd (recover_advisory fc flt s))"
  proof (cases "underway c s")
    case True
    moreover obtain r s' where r: "recover_advisory fc flt s = (r, s')" by force
    ultimately show ?thesis
      using hoareD [OF hoare_recover [OF assms], of s flt] by (cases r) (auto simp: settling_def underway_def)
  next
    case False
    with s have "unchanged c s" by (simp add: settling_def)
    then show ?thesis using recover_nothing [of s fc flt] by (simp add: settling_def unchanged_def stage_def on_adv_disk_def)
  qed
qed


lemma new_stage: "producer_epoch model = plan_epoch c \<Longrightarrow> stage c st j ob s \<Longrightarrow> stage c st j ob (new_process model s)"
  by (simp add: stage_def on_adv_disk_def new_process_def)

lemma new_settling: "producer_epoch model = plan_epoch c \<Longrightarrow> settling c s \<Longrightarrow> settling c (new_process model s)"
  unfolding settling_def unchanged_def underway_def changed_def by (blast intro: new_stage)

lemma start_keeps:
  assumes "plan_ok fc c" and "producer_epoch model = plan_epoch c" and "settling c s"
  shows "settling c (snd (start_advisory fc flt model s))"
proof -
  have present: "map_of (adv_files s) ''state.json'' \<noteq> None" using assms(3) by (auto simp: stage_defs)
  have new: "settling c (new_process model s)" using assms(2,3) by (rule new_settling)
  have "keeps (settling c) (load fc)"
    unfolding settling_def unchanged_def underway_def changed_def by (intro keeps_disj load_keeps)
  then have "keeps (settling c) (bindS (liftS (state_json model)) (\<lambda>_. bindS (recover_advisory fc flt) (\<lambda>_.
      bindS (load fc) (\<lambda>_. bindS (readS (outbox_usage fc)) (\<lambda>_. returnS ())))))"
    by (intro keeps_rules recover_keeps [OF assms(1)])
  from keepsD [OF this new] show ?thesis by (simp add: start_present [OF present])
qed

lemma start_through:
  assumes "plan_ok fc c" and "producer_epoch model = plan_epoch c" and "state_json model = Inr mt" and "settling c s"
  shows "unchanged c (snd (start_advisory fc (\<lambda>_. Through) model s)) \<or> changed c (snd (start_advisory fc (\<lambda>_. Through) model s))"
proof -
  let ?s = "new_process model s" and ?rest = "bindS (load fc) (\<lambda>_. bindS (readS (outbox_usage fc)) (\<lambda>_. returnS ()))"
  have present: "map_of (adv_files s) ''state.json'' \<noteq> None" using assms(4) by (auto simp: stage_defs)
  have new: "settling c ?s" "\<not> adv_halted ?s" using new_settling [OF assms(2,4)] by (simp_all add: new_process_def)
  obtain s1 where r: "recover_advisory fc (\<lambda>_. Through) ?s = (Inr (), s1)" and s1: "unchanged c s1 \<or> changed c s1"
  proof (cases "underway c ?s")
    case True
    with recover_through [OF assms(1) _ new(2)] that show ?thesis by blast
  next
    case False
    then have "unchanged c ?s" using new(1) by (simp add: settling_def)
    moreover from this have "recover_advisory fc (\<lambda>_. Through) ?s = (Inr (), ?s)"
      by (intro recover_nothing) (simp add: unchanged_def stage_def on_adv_disk_def)
    ultimately show ?thesis using that by blast
  qed
  have "keeps (\<lambda>s. unchanged c s \<or> changed c s) ?rest"
    unfolding unchanged_def changed_def by (intro keeps_rules keeps_disj load_keeps)
  from keepsD [OF this s1] show ?thesis using r assms(3) by (simp add: start_present [OF present] bindS_def)
qed

lemma restarts_settle:
  assumes "plan_ok fc c" and "producer_epoch model = plan_epoch c" and "state_json model = Inr mt" and "settling c s"
  shows "unchanged c (advisory_restarts fc model (flts @ [\<lambda>_. Through]) s) \<or> changed c (advisory_restarts fc model (flts @ [\<lambda>_. Through]) s)"
proof -
  have "settling c (foldl (\<lambda>s flt. snd (start_advisory fc flt model s)) s flts)"
    using assms(4) by (induction flts arbitrary: s) (simp_all add: start_keeps [OF assms(1,2)])
  from start_through [OF assms(1-3) this] show ?thesis by (simp add: advisory_restarts_def)
qed

text \<open>A change that was made stays made.\<close>

lemma changed_start:
  assumes "changed c s" and "producer_epoch model = plan_epoch c"
  shows "changed c (snd (start_advisory fc flt model s))"
proof -
  have present: "map_of (adv_files s) ''state.json'' \<noteq> None" using assms(1) by (auto simp: stage_defs)
  have new: "changed c (new_process model s)" using assms unfolding changed_def by (blast intro: new_stage)
  have "recover_advisory fc flt (new_process model s) = (Inr (), new_process model s)"
    using new by (intro recover_nothing) (simp add: stage_defs)
  moreover have k: "keeps (changed c) (bindS (load fc) (\<lambda>_. bindS (readS (outbox_usage fc)) (\<lambda>_. returnS ())))"
    unfolding changed_def by (intro keeps_rules load_keeps)
  ultimately show ?thesis using keepsD [OF k new] new
    by (cases "state_json model") (simp_all add: start_present [OF present] bindS_def)
qed

lemma changed_restarts:
  "changed c s \<Longrightarrow> producer_epoch model = plan_epoch c \<Longrightarrow> changed c (advisory_restarts fc model flts s)"
  unfolding advisory_restarts_def by (induction flts arbitrary: s) (simp_all add: changed_start)

lemma commit_settles:
  assumes "plan_ok fc c" and "encode_json before = Inr (plan_before c)" and "encode_json after = Inr (plan_after c)"
    and "encode_json (fact_payload (plan_fact c)) = Inr pt"
    and "encode_json (journal_object (plan_before c) (plan_after c) (fact_payload (plan_fact c)) pt) = Inr (plan_journal c)"
    and "unchanged c s" and "commit fc flt before after (plan_fact c) s = (r, s')"
  shows "settling c s'" and "r = Inr u \<Longrightarrow> changed c s'"
  using hoareD [OF hoare_commit [OF assms(1-5)] assms(6), of flt] assms(7)
  by (cases r; auto simp: settling_def underway_def)+

end
