(* ===== verification/Derived.thy ===== *)
theory Derived
  imports Recovery Runtime
begin

text \<open>
  Delivery of the derived messages (\<^verbatim>\<open>src/runtime/derived_delivery.cpp\<close>): the next message of the store's outbox, and what an answer
  of the backend does to it.
\<close>

section \<open>Operations\<close>

definition next_derived_message :: "interruptions \<Rightarrow> OutboxEntry option store_op" where
  "next_derived_message flt =
     bindS (readS (\<lambda>s. Inr (store_ready s))) (\<lambda>ready.
       if \<not> ready then returnS None
       else bindS (store_inventory flt) (\<lambda>entries. returnS (find (\<lambda>e. \<not> out_quarantined e) entries)))"

definition differs_from :: "OutboxEntry \<Rightarrow> OutboxEntry \<Rightarrow> bool" where
  "differs_from msg e \<longleftrightarrow> out_json e \<noteq> out_json msg \<or> out_idempotency_key_sha256 e \<noteq> out_idempotency_key_sha256 msg \<or>
     out_content_sha256 e \<noteq> out_content_sha256 msg \<or> out_message_sha256 e \<noteq> out_message_sha256 msg"

definition accept_derived_message ::
  "(string \<Rightarrow> dbl option) \<Rightarrow> interruptions \<Rightarrow> OutboxEntry \<Rightarrow> HttpResponse \<Rightarrow> bool store_op" where
  "accept_derived_message fc flt msg response =
     bindS (readS (\<lambda>s. Inr (store_ready s))) (\<lambda>ready.
       if \<not> ready then returnS False
       else
         bindS (store_inventory flt) (\<lambda>entries.
           case find (\<lambda>e. out_id e = out_id msg) entries of
             None \<Rightarrow> returnS False
           | Some e \<Rightarrow>
               if out_quarantined e then returnS False
               else if differs_from msg e then bindS (quarantine_delivery flt (out_id msg)) (\<lambda>_. returnS False)
               else if \<not> matches_ack fc (out_json msg) response
               then (if status response \<noteq> 0 \<and> \<not> retryable_http (status response)
                     then bindS (quarantine_delivery flt (out_id msg)) (\<lambda>_. returnS False)
                     else returnS False)
               else store_acknowledge flt (out_id msg) (out_idempotency_key_sha256 msg) (out_content_sha256 msg)))"

section \<open>What delivery leaves alone\<close>

definition message_names :: "string list" where
  "message_names = [''assessment.json'', ''event.json'']"

definition undelivered :: "StateStore \<Rightarrow> StateStore \<Rightarrow> bool" where
  "undelivered s0 s \<longleftrightarrow> (\<forall>p name. (case p of Bundle b \<Rightarrow> name \<in> set message_names | _ \<Rightarrow> True) \<longrightarrow> file_at p name s = file_at p name s0)"

lemma undelivered_hidden:
  "undelivered s0 s \<Longrightarrow> undelivered s0 (s\<lparr>ticks := n\<rparr>)" "undelivered s0 s \<Longrightarrow> undelivered s0 (s\<lparr>halted := h\<rparr>)"
  "undelivered s0 s \<Longrightarrow> undelivered s0 (s\<lparr>store_ready := r\<rparr>)" "undelivered s0 s \<Longrightarrow> undelivered s0 (s\<lparr>store_counter := k\<rparr>)"
  by (simp_all add: undelivered_def)

lemma undelivered_effect:
  assumes "\<And>s. undelivered s0 s \<Longrightarrow> undelivered s0 (f s)" and "\<And>k s. undelivered s0 s \<Longrightarrow> undelivered s0 (part k s)"
  shows "keeps (undelivered s0) (disk_effect flt what f part)"
  using assms by (auto simp: keeps_def disk_effect_def Let_def undelivered_hidden split: interruption.splits moment.splits)

lemma file_at_ensure: "file_at p name (ensure_files q s) = file_at p name s"
  by (auto simp: ensure_files_def file_at_put) (simp add: file_at_def)

lemma undelivered_mark: "keeps (undelivered s0) (store_write flt (Bundle b) ''QUARANTINED'' bytes)"
  unfolding store_write_def make_private_directory_def
proof (intro keeps_rules undelivered_effect)
  show "keeps (undelivered s0) next_counter" by (auto simp: keeps_def next_counter_def undelivered_hidden)
  fix s
  assume s: "undelivered s0 s"
  show "undelivered s0 (ensure_files (Bundle b) s)"
    using s by (simp add: undelivered_def file_at_ensure)
  show "undelivered s0 (write_file (Bundle b) ''QUARANTINED'' bytes s)"
    using s by (auto simp: undelivered_def file_at_write message_names_def split: place.splits)
qed simp_all

lemma undelivered_ready: "keeps (undelivered s0) (set_ready r)"
  by (simp add: keeps_def set_ready_def undelivered_hidden)

lemma undelivered_inventory: "keeps (undelivered s0) (store_inventory flt)"
proof -
  have "keeps (undelivered s0) (inventory_loop flt bs acc)" for bs acc
    by (induction bs arbitrary: acc)
      (auto simp: quarantine_bundle_def intro!: keeps_rules undelivered_mark)
  then show ?thesis unfolding store_inventory_def inventory_verified_def by (intro keeps_rules undelivered_ready)
qed

lemma undelivered_quarantine: "keeps (undelivered s0) (quarantine_delivery flt i)"
  unfolding quarantine_delivery_def by (intro keeps_rules undelivered_inventory undelivered_mark undelivered_ready)

text \<open>
  C27. A derived message leaves the outbox for one reason only: the backend's answer is the exact
  acknowledgement of the very bytes that are stored. On every other answer (an error, a retry, a
  claimed receipt for other bytes) all messages stay as they are, as do the model state, the identity
  ledger and the journals, whatever fails meanwhile and even if the process ends.
\<close>

theorem derived_message_kept:
  assumes "\<not> (matches_ack fc (out_json msg) response \<and>
    (\<exists>entries. fst (store_inventory flt s) = Inr entries \<and>
      (\<exists>e \<in> set entries. out_id e = out_id msg \<and> \<not> out_quarantined e \<and> \<not> differs_from msg e)))"
  shows "undelivered s (snd (accept_derived_message fc flt msg response s))"
proof -
  have s: "undelivered s s" by (simp add: undelivered_def)
  obtain r s1 where inv: "store_inventory flt s = (r, s1)" by force
  have s1: "undelivered s s1" using keepsD [OF undelivered_inventory s] inv by (metis snd_conv)
  have q: "undelivered s (snd (bindS (quarantine_delivery flt i) (\<lambda>_. returnS False) s1))" for i
  proof -
    have "keeps (undelivered s) (bindS (quarantine_delivery flt i) (\<lambda>_. returnS False))"
      by (intro keeps_rules undelivered_quarantine)
    from keepsD [OF this s1] show ?thesis .
  qed
  show ?thesis
  proof (cases "store_ready s \<and> (\<exists>entries. r = Inr entries)")
    case True
    then obtain entries where e: "store_ready s" "r = Inr entries" by blast
    show ?thesis
    proof (cases "find (\<lambda>e. out_id e = out_id msg) entries")
      case None
      with e inv s1 show ?thesis by (simp add: accept_derived_message_def bindS_def)
    next
      case (Some x)
      then have "x \<in> set entries" "out_id x = out_id msg" by (auto simp: find_Some_iff)
      with assms inv e have "\<not> matches_ack fc (out_json msg) response \<or> out_quarantined x \<or> differs_from msg x" by auto
      with Some e inv s1 q [of "out_id msg"] show ?thesis by (auto simp: accept_derived_message_def bindS_def)
    qed
  qed (use inv s s1 in \<open>auto simp: accept_derived_message_def bindS_def split: sum.splits\<close>)
qed


definition sample_store :: StateStore where
  "sample_store = \<lparr>state_files = [(''state.json'', ''x'')], state_dirs = [], transactions = [],
     outbox = [(''a'', [(''assessment.json'', ''{}'')])], store_epoch = ''e'', store_counter = 0, store_ready = True, halted = False, ticks = 0\<rparr>"

definition sample_entry :: OutboxEntry where
  "sample_entry = \<lparr>out_id = ''a'', out_type = ''BRAKE_HEALTH_ASSESSMENT'', out_json = ''{}'', out_content_sha256 = [], out_idempotency_key_sha256 = [],
     out_message_sha256 = [], out_source_event_id = [], out_assessment_id = ''a'', out_quarantined = False\<rparr>"

theorem derived_message_kept_witness:
  "\<not> matches_ack (\<lambda>_. None) (out_json sample_entry) \<lparr>status = 503, body = [], retry_after = 0\<rparr> \<and>
   undelivered sample_store (snd (accept_derived_message (\<lambda>_. None) (\<lambda>_. Through) sample_entry \<lparr>status = 503, body = [], retry_after = 0\<rparr> sample_store))"
proof -
  have n: "\<not> matches_ack (\<lambda>_. None) (out_json sample_entry) \<lparr>status = 503, body = [], retry_after = 0\<rparr>" by (simp add: matches_ack_def)
  then show ?thesis using derived_message_kept [of "\<lambda>_. None" sample_entry "\<lparr>status = 503, body = [], retry_after = 0\<rparr>"] by blast
qed

end
