(* ===== verification/Observation.thy ===== *)
theory Observation
  imports Advisory
begin

text \<open>
  Function observations (\<^verbatim>\<open>include/aosedge/function_observation.hpp\<close> with the codec of
  \<^verbatim>\<open>include/brake_health/runtime/function_observation.hpp\<close>): the checks of an observation and
  the durable queue \<open>FunctionObservation\<close> that numbers the observations and keeps them
  until each is acknowledged. The checks of the directory itself (links, owner, lock) are the argument
  \<open>available\<close> of the constructor.
\<close>

section \<open>Checks\<close>

definition unavailable :: exn where
  "unavailable = Runtime_error ''FUNCTION_OBSERVATION_UNAVAILABLE''"

definition maximum_integer :: int where
  "maximum_integer = 9007199254740991"

definition keys :: "Json \<Rightarrow> string list \<Rightarrow> unit result" where
  "keys value names =
     bindE (failIf [size_not (length names) value] unavailable) (\<lambda>_. bindE (mapE (\<lambda>k. json_at k value) names) (\<lambda>_. Inr ()))"

definition pick :: "Json \<Rightarrow> string list \<Rightarrow> unit result" where
  "pick value values = bindE (json_str value) (\<lambda>s. throwIf (s \<notin> set values) unavailable)"

definition id_char :: "char \<Rightarrow> bool" where
  "id_char c \<longleftrightarrow> is_lower c \<or> is_upper c \<or> is_dec c"

definition id_text :: "string \<Rightarrow> bool" where
  "id_text s \<longleftrightarrow> s \<noteq> [] \<and> length s \<le> 128 \<and> id_char (s ! 0) \<and>
     list_all (\<lambda>c. id_char c \<or> c = CHR ''_'' \<or> c = CHR ''.'' \<or> c = CHR '':'' \<or> c = CHR ''-'') s"

definition check_id :: "Json \<Rightarrow> unit result" where
  "check_id value = bindE (json_str value) (\<lambda>s. throwIf (\<not> id_text s) unavailable)"

definition check_integer :: "bool \<Rightarrow> Json \<Rightarrow> unit result" where
  "check_integer positive value =
     bindE (json_integer value) (\<lambda>i. throwIf (i < (if positive then 1 else 0) \<or> i > maximum_integer) unavailable)"

text \<open>The three turns of the loop over the parts of a version, with the rest of the text.\<close>

fun version_loop :: "nat \<Rightarrow> string \<Rightarrow> bool" where
  "version_loop 0 s = True"
| "version_loop (Suc k) s =
     (let part = takeWhile (\<lambda>c. c \<noteq> CHR ''.'') s
      in part \<noteq> [] \<and> \<not> (length part > 1 \<and> s ! 0 = CHR ''0'') \<and> ((k = 0) = (length part = length s)) \<and>
         list_all is_dec part \<and> version_loop k (drop (length part + 1) s))"

definition check_version :: "Json \<Rightarrow> unit result" where
  "check_version value =
     bindE (json_str value) (\<lambda>s. throwIf (s = [] \<or> length s > 32 \<or> \<not> version_loop 3 s) unavailable)"

definition digits_at :: "string \<Rightarrow> nat \<Rightarrow> nat \<Rightarrow> bool" where
  "digits_at s p n \<longleftrightarrow> list_all is_dec (take n (drop p s))"

definition number_in :: "string \<Rightarrow> nat \<Rightarrow> nat \<Rightarrow> nat" where
  "number_in s p n = foldl (\<lambda>v c. v * 10 + (code c - 48)) 0 (take n (drop p s))"

definition month_length :: "nat \<Rightarrow> nat \<Rightarrow> nat" where
  "month_length y m = [0, 31, 28, 31, 30, 31, 30, 31, 31, 30, 31, 30, 31] ! m +
     (if m = 2 \<and> y mod 4 = 0 \<and> (y mod 100 \<noteq> 0 \<or> y mod 400 = 0) then 1 else 0)"

definition instant_text :: "string \<Rightarrow> bool" where
  "instant_text s \<longleftrightarrow>
     length s = 24 \<and> s ! 4 = CHR ''-'' \<and> s ! 7 = CHR ''-'' \<and> s ! 10 = CHR ''T'' \<and> s ! 13 = CHR '':'' \<and> s ! 16 = CHR '':'' \<and>
     s ! 19 = CHR ''.'' \<and> s ! 23 = CHR ''Z'' \<and> digits_at s 0 4 \<and> digits_at s 5 2 \<and> digits_at s 8 2 \<and>
     (let y = number_in s 0 4; m = number_in s 5 2; d = number_in s 8 2
      in \<not> (m < 1 \<or> m > 12 \<or> d < 1 \<or> d > month_length y m)) \<and>
     digits_at s 11 2 \<and> number_in s 11 2 \<le> 23 \<and> digits_at s 14 2 \<and> number_in s 14 2 \<le> 59 \<and>
     digits_at s 17 2 \<and> number_in s 17 2 \<le> 59 \<and> digits_at s 20 3"

definition check_instant :: "Json \<Rightarrow> unit result" where
  "check_instant value = bindE (json_str value) (\<lambda>s. throwIf (\<not> instant_text s) unavailable)"

definition check_optional :: "(Json \<Rightarrow> unit result) \<Rightarrow> Json \<Rightarrow> unit result" where
  "check_optional check value = (if value = JNull then Inr () else check value)"

text \<open>\<open>content\<close>, one definition per member.\<close>

definition check_input :: "Json \<Rightarrow> unit result" where
  "check_input input =
     bindE (keys input [''state'', ''reason'']) (\<lambda>_.
     bindE (bindE (json_at ''state'' input) (\<lambda>v. pick v [''WAITING'', ''RECEIVING'', ''STALE'', ''DISCONNECTED'', ''ACCESS_DENIED'', ''INVALID''])) (\<lambda>_.
     bindE (bindE (json_at ''reason'' input) (\<lambda>v. pick v [''NONE'', ''AWAITING_INPUT'', ''SOURCE_GAP'', ''INVALID_SAMPLE'', ''TRANSPORT_LOST'',
              ''ACCESS_DENIED'', ''REAUTHENTICATING''])) (\<lambda>_.
     bindE (str_at ''state'' input) (\<lambda>state.
     bindE (str_at ''reason'' input) (\<lambda>reason. throwIf ((state = ''RECEIVING'') \<noteq> (reason = ''NONE'')) unavailable)))))"

definition check_activity :: "Json \<Rightarrow> unit result" where
  "check_activity act =
     bindE (keys act [''state'', ''reason'', ''episodeId'']) (\<lambda>_.
     bindE (bindE (json_at ''state'' act) (\<lambda>v. pick v [''WAITING'', ''PRE'', ''ACTIVE'', ''POST'', ''COMPLETED'', ''SKIPPED''])) (\<lambda>_.
     bindE (bindE (json_at ''reason'' act) (\<lambda>v. pick v [''NONE'', ''NOT_QUALIFIED'', ''INSUFFICIENT_SAMPLES'', ''INVALID_INPUT'',
              ''SOURCE_DISCONTINUITY'', ''REAUTHENTICATING'', ''RESET'', ''STORAGE_UNAVAILABLE''])) (\<lambda>_.
     bindE (bindE (json_at ''episodeId'' act) (check_optional check_id)) (\<lambda>_.
       failIf [bindE (str_at ''state'' act) (\<lambda>s. if s \<noteq> ''SKIPPED'' then Inr False
                else bindE (str_at ''reason'' act) (\<lambda>r. Inr (r = ''NONE'')))] unavailable))))"

definition check_delivery :: "Json \<Rightarrow> unit result" where
  "check_delivery delivery =
     bindE (keys delivery [''state'', ''queuedMessages'', ''lastReceiptAt'']) (\<lambda>_.
     bindE (bindE (json_at ''state'' delivery) (\<lambda>v. pick v [''IDLE'', ''PENDING'', ''RETRYING'', ''BLOCKED''])) (\<lambda>_.
     bindE (bindE (json_at ''queuedMessages'' delivery) (check_integer False)) (\<lambda>_.
       bindE (json_at ''lastReceiptAt'' delivery) (check_optional check_instant))))"

definition check_advisory :: "string \<Rightarrow> bool \<Rightarrow> Json \<Rightarrow> unit result" where
  "check_advisory profile brake advisory =
     bindE (keys advisory [''state'', ''requestId'']) (\<lambda>_.
     bindE (bindE (json_at ''state'' advisory) (\<lambda>v. pick v [''NOT_SUPPORTED'', ''WAITING'', ''CONFIRMED'', ''UNAVAILABLE'', ''REAUTHENTICATING''])) (\<lambda>_.
     bindE (bindE (json_at ''requestId'' advisory) (check_optional check_id)) (\<lambda>_.
     bindE (str_at ''state'' advisory) (\<lambda>state.
     bindE (json_at ''requestId'' advisory) (\<lambda>rid.
     bindE (throwIf (state = ''CONFIRMED'' \<and> rid = JNull) unavailable) (\<lambda>_.
       if brake \<and> profile \<noteq> ''v3'' then throwIf (state \<noteq> ''NOT_SUPPORTED'' \<or> rid \<noteq> JNull) unavailable
       else throwIf (state = ''NOT_SUPPORTED'') unavailable))))))"

definition check_result :: "Json \<Rightarrow> unit result" where
  "check_result r =
     bindE (keys r [''kind'', ''id'', ''sourceTime'', ''serviceVersion'']) (\<lambda>_.
     bindE (bindE (json_at ''kind'' r) (\<lambda>v. pick v [''WINDOW'', ''ASSESSMENT''])) (\<lambda>_.
     bindE (bindE (json_at ''id'' r) check_id) (\<lambda>_.
     bindE (bindE (json_at ''sourceTime'' r) check_instant) (\<lambda>_.
       bindE (json_at ''serviceVersion'' r) check_version))))"

definition check_content :: "Json \<Rightarrow> string \<Rightarrow> bool \<Rightarrow> unit result" where
  "check_content c profile brake =
     bindE (keys c [''connection'', ''input'', ''activity'', ''delivery'', ''advisory'', ''lastResult'']) (\<lambda>_.
     bindE (bindE (json_at ''connection'' c) (\<lambda>v. pick v [''STARTING'', ''CONNECTED'', ''REAUTHENTICATING'', ''DISCONNECTED'', ''ACCESS_DENIED''])) (\<lambda>_.
     bindE (bindE (json_at ''input'' c) check_input) (\<lambda>_.
     bindE (bindE (json_at ''activity'' c) check_activity) (\<lambda>_.
     bindE (bindE (json_at ''delivery'' c) check_delivery) (\<lambda>_.
     bindE (bindE (json_at ''advisory'' c) (check_advisory profile brake)) (\<lambda>_.
       bindE (json_at ''lastResult'' c) (check_optional check_result)))))))"

section \<open>Messages\<close>

definition brake_type :: string where "brake_type = ''BRAKE_FUNCTION_OBSERVATION''"

definition instance_keys :: "string list" where
  "instance_keys = [''serviceId'', ''subjectId'', ''instanceIndex'', ''instanceId'']"

text \<open>\<open>validate\<close>: the checks of a message, and the digest of its identity.\<close>

definition identity_digest :: "Json \<Rightarrow> string result" where
  "identity_digest m =
     bindE (mapE (\<lambda>k. json_at k m) [''unitSystemUid'', ''messageType'', ''serviceInstance'', ''generation'', ''sequence'']) (\<lambda>vs.
     bindE (encode_json (JArray vs)) (\<lambda>t. Inr (sha256_hex t)))"

definition check_binding :: "Json \<Rightarrow> unit result" where
  "check_binding binding =
     bindE (keys binding instance_keys) (\<lambda>_.
     bindE (bindE (json_at ''serviceId'' binding) check_id) (\<lambda>_.
     bindE (bindE (json_at ''subjectId'' binding) check_id) (\<lambda>_.
     bindE (bindE (json_at ''instanceId'' binding) check_id) (\<lambda>_.
       bindE (json_at ''instanceIndex'' binding) (check_integer False)))))"

definition check_fields :: "Json \<Rightarrow> unit result" where
  "check_fields m =
     bindE (keys m [''schemaVersion'', ''contractVersion'', ''messageType'', ''unitSystemUid'', ''unitRole'', ''serviceVersion'', ''serviceProfile'',
       ''serviceInstance'', ''generation'', ''sequence'', ''observedAt'', ''content'', ''contentSha256'']) (\<lambda>_.
     bindE (failIf [int_not ''schemaVersion'' 3 m, str_not ''contractVersion'' ''3.0.0'' m] unavailable) (\<lambda>_.
     bindE (bindE (json_at ''messageType'' m) (\<lambda>v. pick v [brake_type, ''TIRE_FUNCTION_OBSERVATION''])) (\<lambda>_.
     bindE (str_at ''messageType'' m) (\<lambda>kind.
     bindE (bindE (json_at ''unitSystemUid'' m) check_id) (\<lambda>_.
     bindE (bindE (json_at ''unitRole'' m) (\<lambda>v. pick v [''VALIDATION'', ''PRODUCTION''])) (\<lambda>_.
     bindE (bindE (json_at ''serviceVersion'' m) check_version) (\<lambda>_.
     bindE (bindE (json_at ''serviceInstance'' m) check_binding) (\<lambda>_.
     bindE (str_at ''serviceProfile'' m) (\<lambda>profile.
     bindE (bindE (json_at ''serviceProfile'' m) (\<lambda>v. pick v [''v1'', ''v2'', ''v3''])) (\<lambda>_.
     bindE (throwIf (kind \<noteq> brake_type \<and> profile \<noteq> ''v1'') unavailable) (\<lambda>_.
     bindE (bindE (json_at ''generation'' m) (check_integer True)) (\<lambda>_.
     bindE (bindE (json_at ''sequence'' m) (check_integer True)) (\<lambda>_.
     bindE (bindE (json_at ''observedAt'' m) check_instant) (\<lambda>_.
       bindE (json_at ''content'' m) (\<lambda>c. check_content c profile (kind = brake_type))))))))))))))))"

definition check_message :: "Json \<Rightarrow> string result" where
  "check_message m =
     bindE (check_fields m) (\<lambda>_.
     bindE (failIf [bindE (encode_json m) (\<lambda>t. Inr (length t > 8192)),
        bindE (str_at ''contentSha256'' m) (\<lambda>d. bindE (bindE (json_at ''content'' m) encode_json) (\<lambda>t. Inr (d \<noteq> sha256_hex t)))] unavailable) (\<lambda>_.
       identity_digest m))"

definition same_allocation :: "Json \<Rightarrow> Json \<Rightarrow> bool result" where
  "same_allocation left right =
     bindE (json_array left) (\<lambda>a. bindE (json_array right) (\<lambda>b.
       if length a \<noteq> 3 \<or> length b \<noteq> 3 then Inr False
       else
         bindE (anyE [bindE (encode_json (a ! 0)) (\<lambda>x. bindE (encode_json (b ! 0)) (\<lambda>y. Inr (x \<noteq> y))),
                      bindE (encode_json (a ! 1)) (\<lambda>x. bindE (encode_json (b ! 1)) (\<lambda>y. Inr (x \<noteq> y)))]) (\<lambda>other.
           if other then Inr False
           else
             bindE (keys (a ! 2) instance_keys) (\<lambda>_. bindE (keys (b ! 2) instance_keys) (\<lambda>_.
             bindE (anyE (map (\<lambda>k. text_not k (a ! 2) (b ! 2)) [''serviceId'', ''subjectId'', ''instanceIndex''])) (\<lambda>differs. Inr (\<not> differs)))))))"

definition allocation :: "Json \<Rightarrow> Json result" where
  "allocation m = bindE (mapE (\<lambda>k. json_at k m) [''unitSystemUid'', ''messageType'', ''serviceInstance'']) (\<lambda>vs. Inr (JArray vs))"

section \<open>The durable queue\<close>

record ObservationStream =
  obs_files :: dir
  obs_base :: Json
  obs_ledger :: Json
  obs_poisoned :: bool
  obs_last_emit :: int
  obs_last_content :: string
  obs_open :: bool
  obs_halted :: bool
  obs_ticks :: nat

type_synonym 'a obs_op = "(ObservationStream, 'a) op"

text \<open>
  An effect on the directory. A call that fails has either changed nothing or, unless it is atomic
  in failing, done its work; the process may also end at it.
\<close>

definition obs_effect :: "interruptions \<Rightarrow> bool \<Rightarrow> (ObservationStream \<Rightarrow> ObservationStream) \<Rightarrow> unit obs_op" where
  "obs_effect flt atomic f s =
     (if obs_halted s then (Inl unavailable, s)
      else
        (let s1 = s\<lparr>obs_ticks := obs_ticks s + 1\<rparr>; left = (\<lambda>m. if m = After then f s1 else s1)
         in case flt (obs_ticks s) of
              Through \<Rightarrow> (Inr (), f s1)
            | Fails m \<Rightarrow> (Inl unavailable, if atomic then s1 else left m)
            | Ends m \<Rightarrow> (Inl unavailable, (left m)\<lparr>obs_halted := True\<rparr>)))"

definition ledger_next :: string where "ledger_next = ''ledger.next''"
definition ledger_file :: string where "ledger_file = ''ledger.json''"

definition create_next :: "interruptions \<Rightarrow> unit obs_op" where
  "create_next flt s =
     (if map_of (obs_files s) ledger_next \<noteq> None then (Inl unavailable, s)
      else obs_effect flt True (\<lambda>s. s\<lparr>obs_files := AList.update ledger_next [] (obs_files s)\<rparr>) s)"

definition write_next :: "interruptions \<Rightarrow> string \<Rightarrow> unit obs_op" where
  "write_next flt bytes = obs_effect flt False (\<lambda>s. s\<lparr>obs_files := AList.update ledger_next bytes (obs_files s)\<rparr>)"

definition obs_sync :: "interruptions \<Rightarrow> unit obs_op" where
  "obs_sync flt = obs_effect flt False id"

definition rename_next :: "interruptions \<Rightarrow> unit obs_op" where
  "rename_next flt =
     obs_effect flt True (\<lambda>s. case map_of (obs_files s) ledger_next of
         None \<Rightarrow> s
       | Some bytes \<Rightarrow> s\<lparr>obs_files := AList.update ledger_file bytes (AList.delete ledger_next (obs_files s))\<rparr>)"

definition unlink_next :: "interruptions \<Rightarrow> unit obs_op" where
  "unlink_next flt = obs_effect flt True (\<lambda>s. s\<lparr>obs_files := AList.delete ledger_next (obs_files s)\<rparr>)"

text \<open>\<open>catch(...)\<close> of \<open>commit\<close>: the object is poisoned, the temporary file removed if possible, the exception thrown again.\<close>

definition poison :: "interruptions \<Rightarrow> unit obs_op \<Rightarrow> unit obs_op" where
  "poison flt m s =
     (case m s of
        (Inr x, s1) \<Rightarrow> (Inr x, s1)
      | (Inl e, s1) \<Rightarrow> (Inl e, snd (unlink_next flt (s1\<lparr>obs_poisoned := True\<rparr>))))"

definition set_ledger :: "Json \<Rightarrow> unit obs_op" where
  "set_ledger next s = (Inr (), s\<lparr>obs_ledger := next\<rparr>)"

definition commit_ledger :: "interruptions \<Rightarrow> Json \<Rightarrow> unit obs_op" where
  "commit_ledger flt next =
     bindS (liftS (encode_json next)) (\<lambda>bytes.
     bindS (checkS (length bytes > 700000) unavailable) (\<lambda>_.
     bindS (create_next flt) (\<lambda>_.
       poison flt
         (bindS (write_next flt bytes) (\<lambda>_.
          bindS (obs_sync flt) (\<lambda>_.
          bindS (rename_next flt) (\<lambda>_.
          bindS (obs_sync flt) (\<lambda>_. set_ledger next))))))))"

definition read_ledger :: "dir \<Rightarrow> string option result" where
  "read_ledger d =
     (case map_of d ledger_file of
        None \<Rightarrow> Inr None
      | Some bytes \<Rightarrow> if bytes = [] \<or> length bytes > 700000 then Inl unavailable else Inr (Some bytes))"

text \<open>The loop of the constructor over the pending entries; \<open>ids\<close> is the set of identities seen.\<close>

fun check_entries :: "Json \<Rightarrow> int \<Rightarrow> int \<Rightarrow> string list \<Rightarrow> Json list \<Rightarrow> unit result" where
  "check_entries binding gen sq ids [] = Inr ()"
| "check_entries binding gen sq ids (e # es) =
     bindE (keys e [''attempted'', ''message'', ''digest'']) (\<lambda>_.
     bindE (bool_at ''attempted'' e) (\<lambda>_.
     bindE (json_at ''message'' e) (\<lambda>m.
     bindE (check_message m) (\<lambda>key.
     bindE (failIf [Inr (key \<in> set ids),
          bindE (str_at ''digest'' e) (\<lambda>d. bindE (encode_json m) (\<lambda>t. Inr (d \<noteq> sha256_hex t))),
          bindE (allocation m) (\<lambda>a. bindE (same_allocation a binding) (\<lambda>same. Inr (\<not> same))),
          bindE (int_at ''generation'' m) (\<lambda>g. Inr (g > gen)),
          bindE (int_at ''generation'' m) (\<lambda>g. if g \<noteq> gen then Inr False
            else bindE (int_at ''sequence'' m) (\<lambda>q. Inr (q > sq)))] unavailable) (\<lambda>_.
       check_entries binding gen sq (key # ids) es)))))"

definition check_ledger_file :: "Json \<Rightarrow> Json \<Rightarrow> unit result" where
  "check_ledger_file ledger binding =
     bindE (keys ledger [''schemaVersion'', ''binding'', ''generation'', ''sequence'', ''pending'']) (\<lambda>_.
     bindE (failIf [int_not ''schemaVersion'' 1 ledger,
        bindE (json_at ''binding'' ledger) (\<lambda>b. bindE (same_allocation b binding) (\<lambda>same. Inr (\<not> same)))] unavailable) (\<lambda>_.
     bindE (bindE (json_at ''generation'' ledger) (check_integer False)) (\<lambda>_.
     bindE (bindE (json_at ''sequence'' ledger) (check_integer False)) (\<lambda>_.
     bindE (bindE (json_at ''pending'' ledger) json_array) (\<lambda>pending.
     bindE (throwIf (length pending > 64) unavailable) (\<lambda>_.
     bindE (int_at ''generation'' ledger) (\<lambda>g.
     bindE (int_at ''sequence'' ledger) (\<lambda>q.
     bindE (check_entries binding g q [] pending) (\<lambda>_. throwIf (g = maximum_integer) unavailable)))))))))"

definition fresh_ledger :: "Json \<Rightarrow> Json" where
  "fresh_ledger binding =
     json_fields [(''schemaVersion'', JInt 1), (''binding'', binding), (''generation'', JInt 0), (''sequence'', JInt 0), (''pending'', JArray [])]"

definition next_generation :: "Json \<Rightarrow> Json \<Rightarrow> Json result" where
  "next_generation binding ledger =
     bindE (put ''binding'' binding ledger) (\<lambda>l.
     bindE (int_at ''generation'' ledger) (\<lambda>g.
     bindE (put ''generation'' (JInt (g + 1)) l) (\<lambda>l. put ''sequence'' (JInt 0) l)))"

definition new_stream :: "Json \<Rightarrow> ObservationStream \<Rightarrow> ObservationStream" where
  "new_stream envelope s =
     s\<lparr>obs_base := envelope, obs_ledger := JNull, obs_poisoned := False, obs_last_emit := - 1, obs_last_content := [],
       obs_open := False, obs_halted := False, obs_ticks := 0\<rparr>"

definition open_stream :: "unit obs_op" where
  "open_stream s = (Inr (), s\<lparr>obs_open := True\<rparr>)"

definition start_observation :: "(string \<Rightarrow> dbl option) \<Rightarrow> interruptions \<Rightarrow> bool \<Rightarrow> Json \<Rightarrow> unit obs_op" where
  "start_observation fc flt available envelope s0 =
     bindS (checkS (\<not> available) unavailable) (\<lambda>_.
     bindS (liftS (allocation envelope)) (\<lambda>binding.
     bindS (readS (\<lambda>s. read_ledger (obs_files s))) (\<lambda>existing.
     bindS (liftS (case existing of Some bytes \<Rightarrow> parse_json fc bytes 700000 | None \<Rightarrow> Inr (fresh_ledger binding))) (\<lambda>ledger.
     bindS (liftS (check_ledger_file ledger binding)) (\<lambda>_.
     bindS (liftS (next_generation binding ledger)) (\<lambda>next.
     bindS (unlink_next flt) (\<lambda>_.
     bindS (commit_ledger flt next) (\<lambda>_. open_stream)))))))) (new_stream envelope s0)"

text \<open>The last entry that was not sent yet is dropped from a full queue; the argument is the queue from its end.\<close>

fun erase_unsent :: "Json list \<Rightarrow> Json list option result" where
  "erase_unsent [] = Inr None"
| "erase_unsent (e # es) =
     bindE (bool_at ''attempted'' e) (\<lambda>attempted.
       if \<not> attempted then Inr (Some es) else bindE (erase_unsent es) (\<lambda>r. Inr (map_option (Cons e) r)))"

definition room :: "Json list \<Rightarrow> Json list option result" where
  "room entries =
     (if length entries = 64 then bindE (erase_unsent (rev entries)) (\<lambda>r. Inr (map_option rev r)) else Inr (Some entries))"

definition pending_entries :: "Json \<Rightarrow> Json list result" where
  "pending_entries ledger = bindE (json_at ''pending'' ledger) json_array"

definition new_message :: "Json \<Rightarrow> Json \<Rightarrow> Json \<Rightarrow> string \<Rightarrow> int \<Rightarrow> Json result" where
  "new_message base ledger c bytes wall =
     bindE (put ''schemaVersion'' (JInt 3) base) (\<lambda>m.
     bindE (put ''contractVersion'' (JString ''3.0.0'') m) (\<lambda>m.
     bindE (json_at ''generation'' ledger) (\<lambda>g.
     bindE (put ''generation'' g m) (\<lambda>m.
     bindE (int_at ''sequence'' ledger) (\<lambda>q.
     bindE (put ''sequence'' (JInt (q + 1)) m) (\<lambda>m.
     bindE (utc_timestamp wall) (\<lambda>ts.
     bindE (put ''observedAt'' (JString ts) m) (\<lambda>m.
     bindE (put ''content'' c m) (\<lambda>m. put ''contentSha256'' (JString (sha256_hex bytes)) m)))))))))"

definition new_entry :: "Json \<Rightarrow> Json result" where
  "new_entry m = bindE (encode_json m) (\<lambda>t.
     Inr (json_fields [(''attempted'', JBool False), (''message'', m), (''digest'', JString (sha256_hex t))]))"

definition too_soon :: "int \<Rightarrow> ObservationStream \<Rightarrow> string \<Rightarrow> bool" where
  "too_soon monotonic s bytes \<longleftrightarrow>
     obs_last_emit s \<ge> 0 \<and> (monotonic < obs_last_emit s \<or> monotonic - obs_last_emit s < 5000 \<or>
       (bytes = obs_last_content s \<and> monotonic - obs_last_emit s < 30000))"

definition note_emitted :: "int \<Rightarrow> string \<Rightarrow> bool obs_op" where
  "note_emitted monotonic bytes s = (Inr True, s\<lparr>obs_last_emit := monotonic, obs_last_content := bytes\<rparr>)"

definition check_poisoned :: "unit obs_op" where
  "check_poisoned = readS (\<lambda>s. throwIf (obs_poisoned s) unavailable)"

definition check_base_content :: "Json \<Rightarrow> Json \<Rightarrow> unit result" where
  "check_base_content base c =
     bindE (str_at ''serviceProfile'' base) (\<lambda>profile. bindE (str_at ''messageType'' base) (\<lambda>kind. check_content c profile (kind = brake_type)))"

definition observed_ledger :: "Json \<Rightarrow> Json \<Rightarrow> Json list \<Rightarrow> Json \<Rightarrow> string \<Rightarrow> int \<Rightarrow> Json result" where
  "observed_ledger base ledger entries c bytes wall =
     bindE (int_at ''sequence'' ledger) (\<lambda>q.
     bindE (throwIf (q = maximum_integer) unavailable) (\<lambda>_.
     bindE (new_message base ledger c bytes wall) (\<lambda>m.
     bindE (check_message m) (\<lambda>_.
     bindE (new_entry m) (\<lambda>e.
     bindE (json_at ''sequence'' m) (\<lambda>q1.
     bindE (put ''sequence'' q1 ledger) (\<lambda>l. put ''pending'' (JArray (entries @ [e])) l)))))))"

definition fn_observe :: "interruptions \<Rightarrow> Json \<Rightarrow> int \<Rightarrow> int \<Rightarrow> bool obs_op" where
  "fn_observe flt c wall monotonic =
     bindS check_poisoned (\<lambda>_.
     bindS (readS (\<lambda>s. check_base_content (obs_base s) c)) (\<lambda>_.
     bindS (liftS (encode_json c)) (\<lambda>bytes.
     bindS (readS (\<lambda>s. Inr (too_soon monotonic s bytes))) (\<lambda>soon.
       if soon then returnS False
       else
         bindS (readS (\<lambda>s. bindE (pending_entries (obs_ledger s)) room)) (\<lambda>place.
           case place of
             None \<Rightarrow> returnS False
           | Some entries \<Rightarrow>
               bindS (readS (\<lambda>s. observed_ledger (obs_base s) (obs_ledger s) entries c bytes wall)) (\<lambda>next.
               bindS (commit_ledger flt next) (\<lambda>_. note_emitted monotonic bytes)))))))"

definition attempted_ledger :: "Json \<Rightarrow> Json list \<Rightarrow> Json result" where
  "attempted_ledger ledger entries =
     bindE (put ''attempted'' (JBool True) (hd entries)) (\<lambda>e. put ''pending'' (JArray (e # tl entries)) ledger)"

definition fn_next :: "interruptions \<Rightarrow> string option obs_op" where
  "fn_next flt =
     bindS check_poisoned (\<lambda>_.
     bindS (readS (\<lambda>s. pending_entries (obs_ledger s))) (\<lambda>entries.
       if entries = [] then returnS None
       else
         bindS (liftS (bool_at ''attempted'' (hd entries))) (\<lambda>attempted.
         bindS (if attempted then returnS ()
                else bindS (readS (\<lambda>s. attempted_ledger (obs_ledger s) entries)) (commit_ledger flt)) (\<lambda>_.
         bindS (liftS (bindE (json_at ''message'' (hd entries)) encode_json)) (\<lambda>t. returnS (Some t))))))"

definition acknowledges :: "(string \<Rightarrow> dbl option) \<Rightarrow> Json \<Rightarrow> int \<Rightarrow> string \<Rightarrow> bool result" where
  "acknowledges fc m http response =
     bindE (parse_json fc response 8192) (\<lambda>ack.
     bindE (keys ack [''schemaVersion'', ''contractVersion'', ''receiptId'', ''messageKeySha256'', ''contentSha256'', ''state'', ''receivedAt'']) (\<lambda>_.
     bindE (anyE [int_not ''schemaVersion'' 1 ack, str_not ''contractVersion'' ''1.0.0'' ack,
        bindE (str_at ''receiptId'' ack) (\<lambda>r. Inr (\<not> is_uuid r)),
        bindE (str_at ''messageKeySha256'' ack) (\<lambda>k. bindE (check_message m) (\<lambda>key. Inr (k \<noteq> key))),
        bindE (str_at ''contentSha256'' ack) (\<lambda>c. bindE (str_at ''contentSha256'' m) (\<lambda>d. Inr (c \<noteq> d))),
        str_not ''state'' (if http = 201 then ''DURABLE_ACCEPTED'' else ''DUPLICATE_ACCEPTED'') ack]) (\<lambda>other.
       if other then Inr False else bindE (bindE (json_at ''receivedAt'' ack) check_instant) (\<lambda>_. Inr True))))"

definition front_matches :: "Json list \<Rightarrow> string \<Rightarrow> bool result" where
  "front_matches entries bytes =
     (if entries = [] then Inr False
      else bindE (bool_at ''attempted'' (hd entries)) (\<lambda>a.
        if \<not> a then Inr False
        else bindE (bindE (json_at ''message'' (hd entries)) encode_json) (\<lambda>t. Inr (t = bytes))))"

definition fn_accept :: "(string \<Rightarrow> dbl option) \<Rightarrow> interruptions \<Rightarrow> string \<Rightarrow> int \<Rightarrow> string \<Rightarrow> bool obs_op" where
  "fn_accept fc flt attempted http response =
     bindS check_poisoned (\<lambda>_.
       if http \<noteq> 200 \<and> http \<noteq> 201 then returnS False
       else
         bindS (readS (\<lambda>s. pending_entries (obs_ledger s))) (\<lambda>entries.
         bindS (liftS (front_matches entries attempted)) (\<lambda>front.
           if \<not> front then returnS False
           else if bindE (json_at ''message'' (hd entries)) (\<lambda>m. acknowledges fc m http response) \<noteq> Inr True then returnS False
           else
             bindS (readS (\<lambda>s. put ''pending'' (JArray (tl entries)) (obs_ledger s))) (\<lambda>next.
             bindS (commit_ledger flt next) (\<lambda>_. returnS True)))))"

end
