(* ===== verification/Observation_Queue.thy ===== *)
theory Observation_Queue
  imports Observation Advisory_Ledger
begin

text \<open>
  The durable queue of observations across failures and restarts: what was sent stays queued until it
  is acknowledged, and the generation and sequence number of an observation are never given twice.
\<close>

section \<open>Commits\<close>

text \<open>The ledger file, the temporary file and the members of the object.\<close>

definition stream_is :: "string option \<Rightarrow> string option \<Rightarrow> Json \<Rightarrow> bool \<Rightarrow> Json \<times> bool \<Rightarrow> ObservationStream \<Rightarrow> bool" where
  "stream_is file temporary ledger poisoned rest s \<longleftrightarrow>
     map_of (obs_files s) ledger_file = file \<and> map_of (obs_files s) ledger_next = temporary \<and> obs_ledger s = ledger \<and>
     obs_poisoned s = poisoned \<and> rest = (obs_base s, obs_open s)"

definition unusable :: "ObservationStream \<Rightarrow> bool" where
  "unusable s \<longleftrightarrow> obs_poisoned s \<or> obs_halted s"

lemma file_names [simp]: "ledger_file \<noteq> ledger_next" "ledger_next \<noteq> ledger_file"
  by (simp_all add: ledger_file_def ledger_next_def)

lemma stream_is_simps [simp]:
  "stream_is a b l p e (s\<lparr>obs_ticks := n\<rparr>) = stream_is a b l p e s" "stream_is a b l p e (s\<lparr>obs_halted := h\<rparr>) = stream_is a b l p e s"
  "stream_is a b l p e (s\<lparr>obs_last_emit := i\<rparr>) = stream_is a b l p e s" "stream_is a b l p e (s\<lparr>obs_last_content := c\<rparr>) = stream_is a b l p e s"
  by (simp_all add: stream_is_def)

lemma hoare_obs_effect:
  assumes "\<And>s. stream_is a b l p e s \<Longrightarrow> stream_is a' b' l p e (f s)" and "\<And>s. obs_halted (f s) = obs_halted s"
  shows "hoare (stream_is a b l p e) (obs_effect flt atomic f) (\<lambda>_ s. stream_is a' b' l p e s \<and> \<not> obs_halted s)
    (\<lambda>s. stream_is a b l p e s \<or> stream_is a' b' l p e s)"
proof (rule hoareI)
  fix s
  assume s: "stream_is a b l p e s"
  let ?s = "s\<lparr>obs_ticks := obs_ticks s + 1\<rparr>"
  have t: "stream_is a b l p e ?s" using s by simp
  then have "stream_is a' b' l p e (f ?s)" by (rule assms)
  with s t assms(2) show "case obs_effect flt atomic f s of (Inr x, s') \<Rightarrow> stream_is a' b' l p e s' \<and> \<not> obs_halted s'
      | (Inl e', s') \<Rightarrow> stream_is a b l p e s' \<or> stream_is a' b' l p e s'"
    by (auto simp: obs_effect_def Let_def split: interruption.splits)
qed

text \<open>The steps of a commit, after the temporary file exists.\<close>

definition commit_steps :: "interruptions \<Rightarrow> Json \<Rightarrow> string \<Rightarrow> unit obs_op" where
  "commit_steps flt next bytes =
     bindS (write_next flt bytes) (\<lambda>_. bindS (obs_sync flt) (\<lambda>_. bindS (rename_next flt) (\<lambda>_. bindS (obs_sync flt) (\<lambda>_. set_ledger next))))"

definition either_ledger :: "string option \<Rightarrow> string \<Rightarrow> Json \<Rightarrow> bool \<Rightarrow> Json \<times> bool \<Rightarrow> ObservationStream \<Rightarrow> bool" where
  "either_ledger a t l p e s \<longleftrightarrow> (\<exists>n. stream_is a n l p e s \<or> stream_is (Some t) n l p e s)"

lemma hoare_commit_steps:
  "hoare (stream_is a (Some []) l p e) (commit_steps flt next t) (\<lambda>_ s. stream_is (Some t) None next p e s \<and> \<not> obs_halted s)
     (either_ledger a t l p e)"
proof -
  have w: "hoare (stream_is a (Some []) l p e) (write_next flt t) (\<lambda>_. stream_is a (Some t) l p e) (either_ledger a t l p e)"
    unfolding write_next_def
    by (rule hoare_weaken [OF hoare_obs_effect [of a "Some []" l p e a "Some t"]]) (auto simp: either_ledger_def stream_is_def map_of_update)
  have y: "hoare (stream_is x y l p e) (obs_sync flt) (\<lambda>_ s. stream_is x y l p e s \<and> \<not> obs_halted s) (either_ledger a t l p e)"
    if "x \<in> {a, Some t}" for x y
    unfolding obs_sync_def using that by (intro hoare_weaken [OF hoare_obs_effect [of x y l p e x y]]) (auto simp: either_ledger_def)
  have y': "hoare (stream_is a y l p e) (obs_sync flt) (\<lambda>_. stream_is a y l p e) (either_ledger a t l p e)" for y
    by (rule hoare_weaken [OF y]) auto
  have r: "hoare (stream_is a (Some t) l p e) (rename_next flt) (\<lambda>_. stream_is (Some t) None l p e) (either_ledger a t l p e)"
    unfolding rename_next_def
    by (rule hoare_weaken [OF hoare_obs_effect [of a "Some t" l p e "Some t" None]]) (auto simp: either_ledger_def stream_is_def map_of_update delete_conv' split: option.splits)
  have s: "hoare (\<lambda>s. stream_is (Some t) None l p e s \<and> \<not> obs_halted s) (set_ledger next) (\<lambda>_ s. stream_is (Some t) None next p e s \<and> \<not> obs_halted s) E" for E
    by (auto simp: hoare_def set_ledger_def stream_is_def)
  show ?thesis
    unfolding commit_steps_def by (intro hoare_bindS [OF w] hoare_bindS [OF y'] hoare_bindS [OF r] hoare_bindS [OF y] s) auto
qed

lemma hoare_unlink:
  "hoare (stream_is a n l p e) (unlink_next flt) (\<lambda>_ s. stream_is a None l p e s \<and> \<not> obs_halted s) (\<lambda>s. stream_is a n l p e s \<or> stream_is a None l p e s)"
  unfolding unlink_next_def by (rule hoare_weaken [OF hoare_obs_effect [of a n l p e a None]]) (auto simp: stream_is_def delete_conv')

lemma hoare_create:
  "hoare (stream_is a n l p e) (create_next flt) (\<lambda>_. stream_is a (Some []) l p e) (\<lambda>s. stream_is a n l p e s \<or> stream_is a (Some []) l p e s \<and> obs_halted s)"
proof (rule hoareI)
  fix s
  assume s: "stream_is a n l p e s"
  let ?f = "\<lambda>s. s\<lparr>obs_files := AList.update ledger_next [] (obs_files s)\<rparr>"
  let ?s = "s\<lparr>obs_ticks := obs_ticks s + 1\<rparr>"
  have "stream_is a n l p e ?s" "stream_is a (Some []) l p e (?f ?s)" using s by (simp_all add: stream_is_def map_of_update)
  with s show "case create_next flt s of (Inr x, s') \<Rightarrow> stream_is a (Some []) l p e s'
      | (Inl e', s') \<Rightarrow> stream_is a n l p e s' \<or> stream_is a (Some []) l p e s' \<and> obs_halted s'"
    by (auto simp: create_next_def obs_effect_def Let_def split: interruption.splits)
qed

lemma hoare_poison:
  assumes "hoare P m Q (either_ledger a t l p e)"
  shows "hoare P (poison flt m) Q (either_ledger a t l True e)"
proof (rule hoareI)
  fix s
  assume P: "P s"
  obtain r s1 where m: "m s = (r, s1)" by force
  show "case poison flt m s of (Inr x, s') \<Rightarrow> Q x s' | (Inl e', s') \<Rightarrow> either_ledger a t l True e s'"
  proof (cases r)
    case (Inl x)
    with hoareD(2) [OF assms P] m have "either_ledger a t l p e s1" by blast
    then obtain c n where c: "c \<in> {a, Some t}" "stream_is c n l p e s1" by (auto simp: either_ledger_def)
    then have "stream_is c n l True e (s1\<lparr>obs_poisoned := True\<rparr>)" by (simp add: stream_is_def)
    then have "\<exists>n'. stream_is c n' l True e (snd (unlink_next flt (s1\<lparr>obs_poisoned := True\<rparr>)))"
      by (rule hoare_snd [OF hoare_weaken [OF hoare_unlink [of c n l True e flt]], rotated -1]) auto
    with c(1) Inl m show ?thesis by (auto simp: poison_def either_ledger_def)
  next
    case (Inr x)
    with hoareD(1) [OF assms P] m show ?thesis by (auto simp: poison_def)
  qed
qed

text \<open>
  After a commit the file holds the new ledger. A commit that raises leaves the old or the new one, and
  the object is not used again unless the file still holds what the object knows.
\<close>

lemma hoare_commit_ledger:
  assumes "encode_json next = Inr t"
  shows "hoare (stream_is a n l p e) (commit_ledger flt next) (\<lambda>_ s. stream_is (Some t) None next p e s \<and> \<not> obs_halted s)
    (\<lambda>s. (\<exists>n'. stream_is a n' l p e s \<and> (n' = n \<or> obs_halted s)) \<or> either_ledger a t l True e s)"
proof -
  have c: "hoare (stream_is a n l p e) (create_next flt) (\<lambda>_. stream_is a (Some []) l p e)
      (\<lambda>s. (\<exists>n'. stream_is a n' l p e s \<and> (n' = n \<or> obs_halted s)) \<or> either_ledger a t l True e s)"
    by (rule hoare_weaken [OF hoare_create]) auto
  have s: "hoare (stream_is a (Some []) l p e) (poison flt (commit_steps flt next t)) (\<lambda>_ s. stream_is (Some t) None next p e s \<and> \<not> obs_halted s)
      (\<lambda>s. (\<exists>n'. stream_is a n' l p e s \<and> (n' = n \<or> obs_halted s)) \<or> either_ledger a t l True e s)"
    by (rule hoare_weaken [OF hoare_poison [OF hoare_commit_steps]]) auto
  show ?thesis
    unfolding commit_ledger_def assms bindS_simps commit_steps_def [symmetric]
    by (intro hoare_bind_checkS hoare_bindS [OF c] s) auto
qed

section \<open>Ledgers\<close>

definition num :: "string \<Rightarrow> Json \<Rightarrow> int" where
  "num k j = (case int_at k j of Inr i \<Rightarrow> i | Inl _ \<Rightarrow> 0)"

text \<open>The generation and the sequence number, of a message or of the last message a ledger gave out.\<close>

definition slot :: "Json \<Rightarrow> int \<times> int" where
  "slot j = (num ''generation'' j, num ''sequence'' j)"

definition not_after :: "int \<times> int \<Rightarrow> int \<times> int \<Rightarrow> bool" where
  "not_after x y \<longleftrightarrow> fst x < fst y \<or> (fst x = fst y \<and> snd x \<le> snd y)"

definition message_of :: "Json \<Rightarrow> Json" where
  "message_of e = (case json_at ''message'' e of Inr m \<Rightarrow> m | Inl _ \<Rightarrow> JNull)"

definition sent :: "Json \<Rightarrow> bool" where
  "sent e \<longleftrightarrow> json_at ''attempted'' e = Inr (JBool True)"

definition entries :: "Json \<Rightarrow> Json list" where
  "entries l = (case pending_entries l of Inr es \<Rightarrow> es | Inl _ \<Rightarrow> [])"

definition entry_json :: "bool \<Rightarrow> string \<Rightarrow> Json \<Rightarrow> Json" where
  "entry_json a d m = JObject [(''attempted'', JBool a), (''digest'', JString d), (''message'', m)]"

definition ledger_json :: "Json \<Rightarrow> int \<Rightarrow> int \<Rightarrow> Json list \<Rightarrow> Json" where
  "ledger_json b g q es =
     JObject [(''binding'', b), (''generation'', JInt g), (''pending'', JArray es), (''schemaVersion'', JInt 1), (''sequence'', JInt q)]"

definition entry_good :: "int \<times> int \<Rightarrow> Json \<Rightarrow> bool" where
  "entry_good n e \<longleftrightarrow> (\<exists>a x m t. e = entry_json a (sha256_hex x) m \<and> encode_json m = Inr t \<and> length t \<le> 8192 \<and> not_after (slot m) n)"

definition shaped :: "Json \<Rightarrow> bool" where
  "shaped l \<longleftrightarrow> (\<exists>b g q es. l = ledger_json b g q es)"

definition ledger_good :: "Json \<Rightarrow> bool" where
  "ledger_good l \<longleftrightarrow> doc 24 l \<and> shaped l \<and> (\<exists>g q es. json_at ''generation'' l = Inr (JInt g) \<and> json_at ''sequence'' l = Inr (JInt q) \<and>
     json_at ''pending'' l = Inr (JArray es)) \<and> length (entries l) \<le> 64 \<and> list_all (entry_good (slot l)) (entries l) \<and>
     distinct (map (slot \<circ> message_of) (entries l)) \<and> 0 \<le> fst (slot l) \<and> list_all (\<lambda>e. \<not> sent e) (tl (entries l))"

text \<open>Only the front of a good queue may have been sent.\<close>

lemma sent_front:
  assumes "ledger_good l" and "e \<in> set (entries l)" and "sent e"
  shows "entries l \<noteq> []" and "e = hd (entries l)"
  using assms by (cases "entries l"; auto simp: ledger_good_def list_all_iff)+

text \<open>
  How a ledger accounts for the messages sent so far: each has a number the ledger has given out, which
  no other message of the queue has; each is still queued as sent unless it was acknowledged.
\<close>

definition read_message :: "(string \<Rightarrow> dbl option) \<Rightarrow> string \<Rightarrow> Json" where
  "read_message fc b = (case parse_json fc b 8192 of Inr m \<Rightarrow> m | Inl _ \<Rightarrow> JNull)"

definition accounted :: "(string \<Rightarrow> dbl option) \<Rightarrow> string list \<Rightarrow> string list \<Rightarrow> Json \<Rightarrow> string \<Rightarrow> bool" where
  "accounted fc hist acked l b \<longleftrightarrow>
     (\<exists>m. read_message fc b = m \<and> encode_json m = Inr b \<and> not_after (slot m) (slot l) \<and>
       (\<forall>e \<in> set (entries l). slot (message_of e) = slot m \<longrightarrow> message_of e = m) \<and>
       (b \<in> set acked \<or> (\<exists>e \<in> set (entries l). message_of e = m \<and> sent e)) \<and>
       (\<forall>b' \<in> set hist. slot (read_message fc b') = slot m \<longrightarrow> b' = b))"

definition history :: "(string \<Rightarrow> dbl option) \<Rightarrow> string list \<Rightarrow> string list \<Rightarrow> Json \<Rightarrow> bool" where
  "history fc hist acked l \<longleftrightarrow> ledger_good l \<and> list_all (accounted fc hist acked l) hist"

lemma not_after_trans: "not_after x y \<Longrightarrow> not_after y z \<Longrightarrow> not_after x z"
  by (auto simp: not_after_def)

lemma num_at: "json_at k j = Inr (JInt i) \<Longrightarrow> num k j = i"
  by (simp add: num_def int_at_def json_integer_def)

lemma num_cong: "json_at k j = json_at k j' \<Longrightarrow> num k j = num k j'"
  by (simp add: num_def int_at_def)

lemma entries_at: "json_at ''pending'' l = Inr (JArray es) \<Longrightarrow> entries l = es"
  by (simp add: entries_def pending_entries_def json_array_def)

lemma pending_good: "ledger_good l \<Longrightarrow> pending_entries l = Inr (entries l)"
  by (auto simp: ledger_good_def entries_at pending_entries_def json_array_def)

lemma message_at: "json_at ''message'' e = Inr m \<Longrightarrow> message_of e = m"
  by (simp add: message_of_def)

lemma entry_json_simps [simp]:
  "json_at ''message'' (entry_json a d m) = Inr m" "json_at ''attempted'' (entry_json a d m) = Inr (JBool a)"
  "message_of (entry_json a d m) = m" "sent (entry_json a d m) = a" "put ''attempted'' (JBool c) (entry_json a d m) = Inr (entry_json c d m)"
  by (auto simp: entry_json_def json_at_def json_object_def message_of_def sent_def put_def)

lemma put_ledger [simp]:
  "put ''binding'' b' (ledger_json b g q es) = Inr (ledger_json b' g q es)"
  "put ''generation'' (JInt g') (ledger_json b g q es) = Inr (ledger_json b g' q es)"
  "put ''sequence'' (JInt q') (ledger_json b g q es) = Inr (ledger_json b g q' es)"
  "put ''pending'' (JArray es') (ledger_json b g q es) = Inr (ledger_json b g q es')"
  by (auto simp: ledger_json_def put_def json_object_def less_list_code less_char_def)

lemma ledger_json_at [simp]:
  "json_at ''binding'' (ledger_json b g q es) = Inr b" "json_at ''generation'' (ledger_json b g q es) = Inr (JInt g)"
  "json_at ''sequence'' (ledger_json b g q es) = Inr (JInt q)" "json_at ''pending'' (ledger_json b g q es) = Inr (JArray es)"
  by (simp_all add: ledger_json_def json_at_def json_object_def)

lemma shapedI [simp]: "shaped (ledger_json b g q es)"
  unfolding shaped_def by blast

lemma shapedE: "shaped l \<Longrightarrow> (\<And>b g q es. l = ledger_json b g q es \<Longrightarrow> thesis) \<Longrightarrow> thesis"
  unfolding shaped_def by blast

lemma shaped_put:
  "put ''binding'' b l = Inr l' \<Longrightarrow> shaped l \<Longrightarrow> shaped l'" "put ''generation'' (JInt g) l = Inr l' \<Longrightarrow> shaped l \<Longrightarrow> shaped l'"
  "put ''sequence'' (JInt q) l = Inr l' \<Longrightarrow> shaped l \<Longrightarrow> shaped l'" "put ''pending'' (JArray es) l = Inr l' \<Longrightarrow> shaped l \<Longrightarrow> shaped l'"
  by (auto elim!: shapedE)

lemma entry_good_mono: "entry_good x e \<Longrightarrow> not_after x y \<Longrightarrow> entry_good y e"
  unfolding entry_good_def using not_after_trans by blast

text \<open>A queue with other entries and another last number.\<close>

lemma history_change:
  assumes "history fc hist acked l" and "doc 24 l'" and "json_at ''generation'' l' = Inr (JInt g)" and "json_at ''sequence'' l' = Inr (JInt q)"
    and "json_at ''pending'' l' = Inr (JArray es)" and "not_after (slot l) (g, q)" and "length es \<le> 64"
    and "list_all (entry_good (g, q)) es" and "distinct (map (slot \<circ> message_of) es)"
    and old: "\<And>e. e \<in> set es \<Longrightarrow> \<not> not_after (slot (message_of e)) (slot l) \<or> (\<exists>e' \<in> set (entries l). message_of e' = message_of e)"
    and keep: "\<And>e. e \<in> set (entries l) \<Longrightarrow> sent e \<Longrightarrow> (\<exists>e' \<in> set es. message_of e' = message_of e \<and> sent e') \<or>
        (\<exists>b \<in> set acked'. encode_json (message_of e) = Inr b)"
    and "set acked \<subseteq> set acked'" and "shaped l'" and "list_all (\<lambda>e. \<not> sent e) (tl es)"
  shows "history fc hist acked' l'"
proof -
  have s: "slot l' = (g, q)" "entries l' = es" using assms(3-5) by (simp_all add: slot_def num_at entries_at)
  have "accounted fc hist acked' l' b" if b: "b \<in> set hist" for b
  proof -
    from assms(1) b have a: "accounted fc hist acked l b" by (simp add: history_def list_all_iff)
    let ?m = "read_message fc b"
    from a have m: "encode_json ?m = Inr b" "not_after (slot ?m) (slot l)" "\<forall>e \<in> set (entries l). slot (message_of e) = slot ?m \<longrightarrow> message_of e = ?m"
      "b \<in> set acked \<or> (\<exists>e \<in> set (entries l). message_of e = ?m \<and> sent e)" "\<forall>b' \<in> set hist. slot (read_message fc b') = slot ?m \<longrightarrow> b' = b"
      by (auto simp: accounted_def)
    have "message_of e = ?m" if e: "e \<in> set es" "slot (message_of e) = slot ?m" for e
    proof (cases "\<exists>e' \<in> set (entries l). message_of e' = message_of e")
      case True
      then obtain e' where "e' \<in> set (entries l)" "message_of e' = message_of e" by blast
      with m(3) e(2) show ?thesis by force
    next
      case False
      with old [OF e(1)] have "\<not> not_after (slot (message_of e)) (slot l)" by blast
      with m(2) e(2) show ?thesis by simp
    qed
    moreover have "b \<in> set acked' \<or> (\<exists>e \<in> set es. message_of e = ?m \<and> sent e)"
    proof (cases "b \<in> set acked")
      case False
      with m(4) obtain e where e: "e \<in> set (entries l)" "message_of e = ?m" "sent e" by blast
      from keep [OF e(1,3)] show ?thesis
      proof
        assume "\<exists>b \<in> set acked'. encode_json (message_of e) = Inr b"
        then show ?thesis using e(2) m(1) by (metis sum.inject(2))
      qed (use e(2) in metis)
    qed (use assms(12) in blast)
    moreover have "not_after (slot ?m) (g, q)" using m(2) assms(6) by (rule not_after_trans)
    ultimately show ?thesis using m(1,5) unfolding accounted_def s by simp
  qed
  moreover have "0 \<le> fst (slot l)" using assms(1) by (simp add: history_def ledger_good_def)
  then have "0 \<le> g" using assms(6) by (auto simp: not_after_def)
  ultimately show ?thesis
    using assms(2-9,13,14) s unfolding history_def ledger_good_def by (auto simp: list_all_iff)
qed

lemma check_integer_Inr: "check_integer p v = Inr () \<longleftrightarrow> (\<exists>i. v = JInt i \<and> (if p then 1 else 0) \<le> i \<and> i \<le> maximum_integer)"
  by (cases v) (auto simp: check_integer_def json_integer_def bindE_eq_Inr throwIf_def)

lemma allocation_doc:
  assumes "allocation m = Inr a" and "doc (Suc n) m"
  shows "doc (Suc n) a"
proof -
  from assms(1) obtain x y z where a: "json_at ''unitSystemUid'' m = Inr x" "json_at ''messageType'' m = Inr y"
    "json_at ''serviceInstance'' m = Inr z" "a = JArray [x, y, z]" by (auto simp: allocation_def bindE_eq_Inr)
  have "doc n x" "doc n y" "doc n z" using doc_at [OF assms(2)] a by blast+
  then show ?thesis by (simp add: a(4) doc_array)
qed

lemma check_ledger_bounds:
  assumes "check_ledger_file l b = Inr ()"
  obtains g q where "json_at ''generation'' l = Inr (JInt g)" "json_at ''sequence'' l = Inr (JInt q)" "0 \<le> g" "g < maximum_integer" "0 \<le> q"
    "q \<le> maximum_integer"
proof -
  from assms obtain v w g where "json_at ''generation'' l = Inr v" "check_integer False v = Inr ()" "json_at ''sequence'' l = Inr w" "check_integer False w = Inr ()"
    "int_at ''generation'' l = Inr g" "g \<noteq> maximum_integer"
    unfolding check_ledger_file_def bindE_eq_Inr throwIf_eq_Inr by auto
  then show ?thesis using that by (auto simp: check_integer_Inr int_at_def json_integer_def)
qed

text \<open>A new generation.\<close>

lemma next_generation_at:
  assumes "next_generation b l = Inr l'" and "doc 24 l" and "doc 23 b" and "check_ledger_file l c = Inr ()"
  obtains g where "json_at ''generation'' l = Inr (JInt g)" "json_at ''generation'' l' = Inr (JInt (g + 1))" "json_at ''sequence'' l' = Inr (JInt 0)"
    "json_at ''pending'' l' = json_at ''pending'' l" "doc 24 l'" "shaped l \<longrightarrow> shaped l'"
proof -
  from assms(4) obtain g where g: "json_at ''generation'' l = Inr (JInt g)" "0 \<le> g" "g < maximum_integer"
    using check_ledger_bounds by blast
  from assms(1) g obtain l1 l2 where l: "put ''binding'' b l = Inr l1" "put ''generation'' (JInt (g + 1)) l1 = Inr l2" "put ''sequence'' (JInt 0) l2 = Inr l'"
    by (auto simp: next_generation_def bindE_eq_Inr int_at_def json_integer_def)
  have n: "(24 :: nat) = Suc 23" by simp
  have "doc 23 (JInt (g + 1))" "doc 23 (JInt 0)" using g by (auto simp: maximum_integer_def i64_min_def i64_max_def)
  then have d: "doc 24 l1" "doc 24 l2" "doc 24 l'" unfolding n using doc_put l assms(2,3) n by metis+
  show ?thesis
    using put_at [OF l(1) assms(2) [unfolded n]] put_at [OF l(2) d(1) [unfolded n]] put_at [OF l(3) d(2) [unfolded n]] g d(3)
      shaped_put(1) [OF l(1)] shaped_put(2) [OF l(2)] shaped_put(3) [OF l(3)]
    by (intro that [of g]) simp_all
qed

lemma history_generation:
  assumes "next_generation b l = Inr l'" and "doc 23 b" and "check_ledger_file l c = Inr ()" and h: "history fc hist acked l"
  shows "history fc hist acked l'"
proof -
  from h have good: "ledger_good l" by (simp add: history_def)
  then have d: "doc 24 l" and p: "json_at ''pending'' l = Inr (JArray (entries l))" by (auto simp: ledger_good_def entries_at)
  obtain g where g: "json_at ''generation'' l = Inr (JInt g)"
    "json_at ''generation'' l' = Inr (JInt (g + 1))" "json_at ''sequence'' l' = Inr (JInt 0)"
    "json_at ''pending'' l' = json_at ''pending'' l" "doc 24 l'" "shaped l \<longrightarrow> shaped l'"
    using next_generation_at [OF assms(1) d assms(2,3)] by metis
  have n: "not_after (slot l) (g + 1, 0)" using g(1) by (simp add: not_after_def slot_def num_at)
  show ?thesis
  proof (rule history_change [OF h g(5,2,3) _ n])
    show "json_at ''pending'' l' = Inr (JArray (entries l))" using g(4) p by simp
    show "list_all (entry_good (g + 1, 0)) (entries l)"
      using good entry_good_mono [OF _ n] by (auto simp: ledger_good_def list_all_iff)
    show "shaped l'" "length (entries l) \<le> 64" "distinct (map (slot \<circ> message_of) (entries l))" "list_all (\<lambda>e. \<not> sent e) (tl (entries l))"
      using good g(6) by (simp_all add: ledger_good_def)
  qed auto
qed

lemma fresh_history: "doc 22 b \<Longrightarrow> history fc [] [] (fresh_ledger b)"
proof -
  assume b: "doc 22 b"
  have f: "fresh_ledger b = ledger_json b 0 0 []"
    unfolding fresh_ledger_def json_fields_def ledger_json_def by (simp add: less_list_code less_char_def)
  have "doc 24 (fresh_ledger b)" unfolding fresh_ledger_def
    using b doc_fields [of 23] by (simp add: doc_array i64_min_def i64_max_def doc_def)
  then show ?thesis by (auto simp: f history_def ledger_good_def ledger_json_at json_object_def entries_def pending_entries_def json_array_def slot_def num_at)
qed

text \<open>A full queue gives up one entry that was not sent.\<close>

lemma erase_unsent_Some:
  "erase_unsent es = Inr (Some r) \<Longrightarrow> \<exists>as e bs. es = as @ e # bs \<and> r = as @ bs \<and> json_at ''attempted'' e = Inr (JBool False)"
proof (induction es arbitrary: r)
  case (Cons e es)
  from Cons.prems obtain v a where a: "json_at ''attempted'' e = Inr v" "json_boolean v = Inr a"
    and r: "if \<not> a then r = es else \<exists>r'. erase_unsent es = Inr (Some r') \<and> r = e # r'"
    by (auto simp: bindE_eq_Inr bool_at_def split: if_splits)
  show ?case
  proof (cases a)
    case True
    with r obtain r' where r': "erase_unsent es = Inr (Some r')" "r = e # r'" by auto
    from Cons.IH [OF r'(1)] obtain as x bs where "es = as @ x # bs" "r' = as @ bs" "json_at ''attempted'' x = Inr (JBool False)" by blast
    with r'(2) show ?thesis by (metis append_Cons)
  next
    case False
    with a have "json_at ''attempted'' e = Inr (JBool False)" by (cases v) (auto simp: json_boolean_def)
    with r False show ?thesis by (metis append_Nil)
  qed
qed simp

lemma room_Some:
  assumes "room es = Inr (Some r)" and "length es \<le> 64"
  shows "length r < 64" and "set r \<subseteq> set es" and "distinct (map f es) \<Longrightarrow> distinct (map f r)" and "\<And>e. e \<in> set es \<Longrightarrow> sent e \<Longrightarrow> e \<in> set r"
    and "list_all P es \<Longrightarrow> list_all P r" and "set (tl r) \<subseteq> set (tl es)"
proof -
  have *: "length r < 64 \<and> set r \<subseteq> set es \<and> (distinct (map f es) \<longrightarrow> distinct (map f r)) \<and> (\<forall>e \<in> set es. sent e \<longrightarrow> e \<in> set r) \<and>
      (list_all P es \<longrightarrow> list_all P r) \<and> set (tl r) \<subseteq> set (tl es)"
  proof (cases "length es = 64")
    case True
    with assms(1) obtain r' where r': "erase_unsent (rev es) = Inr (Some r')" "r = rev r'" by (auto simp: room_def bindE_eq_Inr)
    from erase_unsent_Some [OF r'(1)] obtain as e bs where s: "rev es = as @ e # bs" "r' = as @ bs" "json_at ''attempted'' e = Inr (JBool False)"
      by blast
    from s(1) have "es = rev bs @ e # rev as" by (metis append.assoc append_Cons append_Nil rev.simps(2) rev_append rev_rev_ident)
    moreover have "set (tl (xs @ ys)) \<subseteq> set (tl (xs @ x # ys))" for xs ys :: "Json list" and x
      by (cases xs; cases ys) auto
    ultimately show ?thesis using s r'(2) True by (auto simp: sent_def)
  qed (use assms in \<open>auto simp: room_def\<close>)
  then show "length r < 64" "set r \<subseteq> set es" "distinct (map f es) \<Longrightarrow> distinct (map f r)" "\<And>e. e \<in> set es \<Longrightarrow> sent e \<Longrightarrow> e \<in> set r"
    "list_all P es \<Longrightarrow> list_all P r" "set (tl r) \<subseteq> set (tl es)" by blast+
qed

lemma check_message_size:
  assumes "check_message m = Inr k"
  obtains t where "encode_json m = Inr t" "length t \<le> 8192"
proof -
  from assms obtain u where "failIf [bindE (encode_json m) (\<lambda>t. Inr (length t > 8192)),
        bindE (str_at ''contentSha256'' m) (\<lambda>d. bindE (bindE (json_at ''content'' m) encode_json) (\<lambda>t. Inr (d \<noteq> sha256_hex t)))] unavailable = Inr u"
    unfolding check_message_def bindE_eq_Inr by blast
  then have "bindE (encode_json m) (\<lambda>t. Inr (length t > 8192)) = Inr False" unfolding failIf_Inr anyE_False by simp
  then show ?thesis using that by (auto simp: bindE_eq_Inr)
qed

lemma check_message_numbers:
  assumes "check_message m = Inr k"
  obtains g q where "json_at ''generation'' m = Inr (JInt g)" "json_at ''sequence'' m = Inr (JInt q)" "g \<le> maximum_integer" "q \<le> maximum_integer" "1 \<le> q"
proof -
  from assms obtain v w where "json_at ''generation'' m = Inr v" "check_integer True v = Inr ()" "json_at ''sequence'' m = Inr w" "check_integer True w = Inr ()"
    unfolding check_message_def check_fields_def bindE_eq_Inr by auto
  then show ?thesis using that by (auto simp: check_integer_Inr)
qed

text \<open>The message of an observation and its entry.\<close>

definition keyed :: "Json \<Rightarrow> bool" where
  "keyed j \<longleftrightarrow> (\<exists>kvs. j = JObject kvs \<and> sorted_wrt (<) (map fst kvs))"

lemma put_keyed: "put k v j = Inr j' \<Longrightarrow> keyed j \<Longrightarrow> keyed j' \<and> json_at k' j' = (if k' = k then Inr v else json_at k' j)"
  by (cases j) (auto simp: put_def keyed_def json_object_def json_at_def bindE_eq_Inr map_set_sorted map_of_map_set)

lemma doc_keyed: "put k v j = Inr j' \<Longrightarrow> doc (Suc n) j \<Longrightarrow> keyed j"
  by (cases j) (auto simp: put_def json_object_def keyed_def doc_object)

lemma new_message_at:
  assumes "new_message base l c bytes wall = Inr m" and "doc 21 base" and "doc 20 c" and "json_at ''generation'' l = Inr (JInt g)"
    and "json_at ''sequence'' l = Inr (JInt q)" and "check_message m = Inr k" and "0 \<le> g"
  shows "doc 21 m" and "json_at ''generation'' m = Inr (JInt g)" and "json_at ''sequence'' m = Inr (JInt (q + 1))"
proof -
  from assms(1,4,5) obtain m1 m2 m3 m4 ts m5 m6 where p: "put ''schemaVersion'' (JInt 3) base = Inr m1" "put ''contractVersion'' (JString ''3.0.0'') m1 = Inr m2"
    "put ''generation'' (JInt g) m2 = Inr m3" "put ''sequence'' (JInt (q + 1)) m3 = Inr m4" "put ''observedAt'' (JString ts) m4 = Inr m5"
    "put ''content'' c m5 = Inr m6" "put ''contentSha256'' (JString (sha256_hex bytes)) m6 = Inr m"
    by (auto simp: new_message_def bindE_eq_Inr int_at_def json_integer_def)
  have k: "keyed base" using doc_keyed [OF p(1), of 20] assms(2) by simp
  note s = put_keyed [OF p(1) k]
  note s2 = put_keyed [OF p(2) s [THEN conjunct1]]
  note s3 = put_keyed [OF p(3) s2 [THEN conjunct1]]
  note s4 = put_keyed [OF p(4) s3 [THEN conjunct1]]
  note s5 = put_keyed [OF p(5) s4 [THEN conjunct1]]
  note s6 = put_keyed [OF p(6) s5 [THEN conjunct1]]
  note s7 = put_keyed [OF p(7) s6 [THEN conjunct1]]
  show g: "json_at ''generation'' m = Inr (JInt g)" and q: "json_at ''sequence'' m = Inr (JInt (q + 1))"
    using s3 [of "''generation''"] s4 [of "''generation''"] s4 [of "''sequence''"] s5 [of "''generation''"] s5 [of "''sequence''"]
      s6 [of "''generation''"] s6 [of "''sequence''"] s7 [of "''generation''"] s7 [of "''sequence''"] by simp_all
  obtain g' q' where "json_at ''generation'' m = Inr (JInt g')" "json_at ''sequence'' m = Inr (JInt q')" "g' \<le> maximum_integer"
    "q' \<le> maximum_integer" "1 \<le> q'" using assms(6) by (rule check_message_numbers)
  with g q have v: "doc 20 (JInt g)" "doc 20 (JInt (q + 1))" "doc 20 (JInt 3)"
    using assms(7) by (auto simp: i64_min_def i64_max_def maximum_integer_def)
  have "doc (Suc 20) base" using assms(2) by simp
  from doc_put [OF doc_put [OF doc_put [OF doc_put [OF this v(3) p(1)] _ p(2)] v(1) p(3)] v(2) p(4)]
  have "doc (Suc 20) m4" by simp
  from doc_put [OF doc_put [OF doc_put [OF this _ p(5)] assms(3) p(6)] _ p(7)] show "doc 21 m" by simp
qed

lemma entry_at:
  assumes "new_entry m = Inr e" and "doc 21 m"
  shows "doc 22 e" and "\<exists>t. e = entry_json False (sha256_hex t) m"
proof -
  from assms(1) obtain t where e: "e = json_fields [(''attempted'', JBool False), (''message'', m), (''digest'', JString (sha256_hex t))]"
    by (auto simp: new_entry_def bindE_eq_Inr)
  have "doc (Suc 21) e" unfolding e using assms(2) by (intro doc_fields) simp
  then show "doc 22 e" by simp
  show "\<exists>t. e = entry_json False (sha256_hex t) m"
    using e by (auto simp: json_fields_def entry_json_def less_list_code less_char_def)
qed

lemma ledger_puts:
  assumes "put ''sequence'' (JInt q) l = Inr l1" and "put ''pending'' (JArray es) l1 = Inr l'" and "doc 24 l"
    and "doc 23 (JInt q)" and "doc 23 (JArray es)"
  shows "doc 24 l'" and "json_at ''generation'' l' = json_at ''generation'' l" and "json_at ''sequence'' l' = Inr (JInt q)"
    and "json_at ''pending'' l' = Inr (JArray es)" and "shaped l \<Longrightarrow> shaped l'"
proof -
  have l: "doc (Suc 23) l" using assms(3) by simp
  note l1 = doc_put [OF l assms(4,1)]
  show "doc 24 l'" using doc_put [OF l1 assms(5,2)] by simp
  show "json_at ''generation'' l' = json_at ''generation'' l" "json_at ''sequence'' l' = Inr (JInt q)" "json_at ''pending'' l' = Inr (JArray es)"
    using put_at [OF assms(1) l] put_at [OF assms(2) l1] by simp_all
  show "shaped l \<Longrightarrow> shaped l'" using shaped_put(3) [OF assms(1)] shaped_put(4) [OF assms(2)] by simp
qed

lemma good_ledger:
  assumes "ledger_good l"
  obtains g q where "json_at ''generation'' l = Inr (JInt g)" "json_at ''sequence'' l = Inr (JInt q)" "json_at ''pending'' l = Inr (JArray (entries l))"
    "slot l = (g, q)" "doc 24 l" "\<forall>e \<in> set (entries l). doc 22 e"
proof -
  from assms obtain g q where a: "json_at ''generation'' l = Inr (JInt g)" "json_at ''sequence'' l = Inr (JInt q)" "json_at ''pending'' l = Inr (JArray (entries l))"
    "doc 24 l" by (auto simp: ledger_good_def entries_at)
  have "doc 23 (JArray (entries l))" using doc_at [of 23 l] a(3,4) by simp
  then have "\<forall>e \<in> set (entries l). doc 22 e" using doc_array [of 22] by simp
  with a that show ?thesis by (simp add: slot_def num_at)
qed

text \<open>An observation is queued.\<close>

lemma history_observed:
  assumes "observed_ledger base l es c bytes wall = Inr l'" and "room (entries l) = Inr (Some es)" and "history fc hist acked l"
    and "doc 21 base" and "doc 20 c"
  shows "history fc hist acked l'"
proof -
  from assms(3) have good: "ledger_good l" by (simp add: history_def)
  then obtain g q where l: "json_at ''generation'' l = Inr (JInt g)" "json_at ''sequence'' l = Inr (JInt q)" "slot l = (g, q)" "doc 24 l"
    "\<forall>e \<in> set (entries l). doc 22 e" by (rule good_ledger)
  from assms(1) l(2) obtain m k e q1 l1 where m: "new_message base l c bytes wall = Inr m" "check_message m = Inr k" and e: "new_entry m = Inr e"
    and q1: "json_at ''sequence'' m = Inr q1" and l1: "put ''sequence'' q1 l = Inr l1" "put ''pending'' (JArray (es @ [e])) l1 = Inr l'"
    by (auto simp: observed_ledger_def bindE_eq_Inr)
  have "0 \<le> g" using good l(3) by (simp add: ledger_good_def)
  note n = new_message_at [OF m(1) assms(4,5) l(1,2) m(2) this]
  note en = entry_at [OF e n(1)]
  have q1: "q1 = JInt (q + 1)" using q1 n(3) by simp
  have r: "length es < 64" "set es \<subseteq> set (entries l)" "distinct (map (slot \<circ> message_of) es)" "list_all (entry_good (slot l)) es"
    "\<And>e. e \<in> set (entries l) \<Longrightarrow> sent e \<Longrightarrow> e \<in> set es" "set (tl es) \<subseteq> set (tl (entries l))"
    using room_Some [OF assms(2)] good unfolding ledger_good_def by blast+
  have d: "doc 23 (JArray (es @ [e]))" using l(5) r(2) en(1) doc_array [of 22 "es @ [e]"] by auto
  have "doc 20 (JInt (q + 1))" using doc_at [OF _ n(3), of 20] n(1) by simp
  note ls = ledger_puts [OF l1(1) [unfolded q1] l1(2) l(4) _ d]
  have j: "doc 23 (JInt (q + 1))" using \<open>doc 20 (JInt (q + 1))\<close> by simp
  have na: "not_after (slot l) (g, q + 1)" using l(3) by (simp add: not_after_def)
  have m_slot: "slot m = (g, q + 1)" "message_of e = m" using n en(2) by (auto simp: slot_def num_at)
  obtain t where t: "encode_json m = Inr t" "length t \<le> 8192" using m(2) by (rule check_message_size)
  have old: "not_after (slot (message_of e')) (g, q)" if "e' \<in> set es" for e'
    using r(4) that l(3) by (auto simp: list_all_iff entry_good_def message_at)
  have later: "\<not> not_after (slot m) (slot l)" using m_slot l(3) by (simp add: not_after_def)
  have new: "slot (message_of e') \<noteq> (g, q + 1)" if "e' \<in> set es" for e'
    using old [OF that] by (cases "slot (message_of e')") (auto simp: not_after_def)
  show ?thesis
  proof (rule history_change [OF assms(3) ls(1) [OF j] ls(2) [OF j, unfolded l(1)] ls(3) [OF j] ls(4) [OF j] na])
    show "length (es @ [e]) \<le> 64" using r(1) by simp
    have "entry_good (g, q + 1) e" using en(2) t m_slot(1) unfolding entry_good_def by (fastforce simp: not_after_def)
    then show "list_all (entry_good (g, q + 1)) (es @ [e])"
      using r(4) entry_good_mono [OF _ na] by (auto simp: list_all_iff)
    show "distinct (map (slot \<circ> message_of) (es @ [e]))" using r(3) m_slot by (auto dest: new)
    show "shaped l'" using ls(5) [OF j] good by (simp add: ledger_good_def)
    have "\<not> sent e" using en(2) by auto
    moreover have "set (tl (es @ [e])) \<subseteq> insert e (set (tl es))" by (cases es) auto
    ultimately show "list_all (\<lambda>e. \<not> sent e) (tl (es @ [e]))"
      using good r(6) unfolding ledger_good_def list_all_iff by blast
  qed (use r(2,5) m_slot(2) later in auto)
qed

text \<open>A queue whose entries change but not its numbers.\<close>

lemma history_entries:
  assumes "put ''pending'' (JArray es) l = Inr l'" and h: "history fc hist acked l" and "\<forall>e \<in> set es. doc 22 e" and "length es \<le> 64"
    and "list_all (entry_good (slot l)) es" and "distinct (map (slot \<circ> message_of) es)"
    and "message_of ` set es \<subseteq> message_of ` set (entries l)"
    and "\<And>e. e \<in> set (entries l) \<Longrightarrow> sent e \<Longrightarrow> (\<exists>e' \<in> set es. message_of e' = message_of e \<and> sent e') \<or>
        (\<exists>b \<in> set acked'. encode_json (message_of e) = Inr b)"
    and "set acked \<subseteq> set acked'" and "list_all (\<lambda>e. \<not> sent e) (tl es)"
  shows "history fc hist acked' l'" and "entries l' = es" and "slot l' = slot l"
proof -
  from h have "ledger_good l" by (simp add: history_def)
  then obtain g q where l: "json_at ''generation'' l = Inr (JInt g)" "json_at ''sequence'' l = Inr (JInt q)" "slot l = (g, q)" "doc (Suc 23) l"
    by (rule good_ledger) simp
  have d: "doc 24 l'" using doc_put [OF l(4) _ assms(1)] assms(3) doc_array [of 22 es] by simp
  note a = put_at [OF assms(1) l(4)]
  have p: "json_at ''pending'' l' = Inr (JArray es)" using a by simp
  then show "entries l' = es" by (rule entries_at)
  have n: "json_at ''generation'' l' = Inr (JInt g)" "json_at ''sequence'' l' = Inr (JInt q)" using a l(1,2) by simp_all
  then show "slot l' = slot l" using l(3) by (simp add: slot_def num_at)
  show "history fc hist acked' l'"
  proof (rule history_change [OF h d n p])
    show "not_after (slot l) (g, q)" using l(3) by (simp add: not_after_def)
    show "\<not> not_after (slot (message_of e)) (slot l) \<or> (\<exists>e' \<in> set (entries l). message_of e' = message_of e)" if "e \<in> set es" for e
      using assms(7) that by force
    show "shaped l'" using shaped_put(4) [OF assms(1)] h by (simp add: history_def ledger_good_def)
  qed (use assms(4-6,8-10) l(3) in auto)
qed

text \<open>The first entry is marked as sent before its message is handed out.\<close>

lemma history_attempted:
  assumes "attempted_ledger l (entries l) = Inr l'" and "entries l = e # es" and h: "history fc hist acked l"
  shows "history fc hist acked l'" and "\<exists>e'. entries l' = e' # es \<and> message_of e' = message_of e \<and> sent e'" and "slot l' = slot l"
proof -
  from h have good: "ledger_good l" by (simp add: history_def)
  then have docs: "\<forall>e \<in> set (entries l). doc 22 e" by (rule good_ledger)
  from assms(1,2) obtain e' where e': "put ''attempted'' (JBool True) e = Inr e'" and l': "put ''pending'' (JArray (e' # es)) l = Inr l'"
    by (auto simp: attempted_ledger_def bindE_eq_Inr)
  have e: "doc (Suc 21) e" using docs assms(2) by simp
  note a = put_at [OF e' e]
  have m: "message_of e' = message_of e" "sent e'" using a by (simp_all add: message_of_def sent_def)
  have g: "entry_good (slot l) e" "list_all (entry_good (slot l)) es" "distinct (map (slot \<circ> message_of) (e # es))" "length (e # es) \<le> 64"
    using good assms(2) by (auto simp: ledger_good_def)
  have d: "\<forall>x \<in> set (e' # es). doc 22 x" using docs assms(2) doc_put [OF e _ e'] by simp
  have "entry_good (slot l) e'" using g(1) e' unfolding entry_good_def by fastforce
  then have n: "list_all (entry_good (slot l)) (e' # es)" "distinct (map (slot \<circ> message_of) (e' # es))" "length (e' # es) \<le> 64"
    using g m by auto
  have sub: "message_of ` set (e' # es) \<subseteq> message_of ` set (entries l)" using m assms(2) by auto
  have keep: "(\<exists>y \<in> set (e' # es). message_of y = message_of x \<and> sent y) \<or> (\<exists>b \<in> set acked. encode_json (message_of x) = Inr b)"
    if "x \<in> set (entries l)" "sent x" for x
    using that m assms(2) by auto
  have "list_all (\<lambda>e. \<not> sent e) (tl (e' # es))" using good assms(2) by (simp add: ledger_good_def)
  note r = history_entries [OF l' h d n(3,1,2) sub keep subset_refl this]
  show "history fc hist acked l'" "slot l' = slot l" using r by simp_all
  show "\<exists>e'. entries l' = e' # es \<and> message_of e' = message_of e \<and> sent e'" using r(2) m by simp
qed

lemma read_message_encoded: "encode_json m = Inr b \<Longrightarrow> length b \<le> 8192 \<Longrightarrow> doc 24 m \<Longrightarrow> read_message fc b = m"
  by (simp add: read_message_def parse_doc)

lemma entry_message:
  assumes "history fc hist acked l" and "e \<in> set (entries l)"
  obtains b where "encode_json (message_of e) = Inr b" "read_message fc b = message_of e" "not_after (slot (message_of e)) (slot l)"
    "length b \<le> 8192" "json_at ''message'' e = Inr (message_of e)"
proof -
  from assms(1) have good: "ledger_good l" by (simp add: history_def)
  then have "doc 22 e" using assms(2) by (meson good_ledger)
  from good assms(2) have "entry_good (slot l) e" by (auto simp: ledger_good_def list_all_iff)
  then obtain m b where m: "json_at ''message'' e = Inr m" "encode_json m = Inr b" "length b \<le> 8192" "not_after (slot m) (slot l)"
    by (auto simp: entry_good_def)
  have "doc 21 m" using doc_at [of 21 e] \<open>doc 22 e\<close> m(1) by simp
  then have "doc 24 m" by (rule doc_mono) simp
  with m that show ?thesis by (simp add: message_at read_message_encoded)
qed

lemma history_sent:
  assumes h: "history fc hist acked l" and e: "e \<in> set (entries l)" "sent e" and b: "encode_json (message_of e) = Inr b"
  shows "history fc (b # hist) acked l"
proof -
  obtain b0 where b0: "encode_json (message_of e) = Inr b0" "read_message fc b0 = message_of e" "not_after (slot (message_of e)) (slot l)"
    using h e(1) by (rule entry_message)
  then have r: "read_message fc b = message_of e" using b by simp
  have old: "accounted fc hist acked l b'" if "b' \<in> set hist" for b' using h that by (simp add: history_def list_all_iff)
  have same: "b' = b" if "b' \<in> set hist" "slot (read_message fc b') = slot (message_of e)" for b'
  proof -
    from old [OF that(1)] e(1) that(2) have "message_of e = read_message fc b'" "encode_json (read_message fc b') = Inr b'"
      by (auto simp: accounted_def)
    with b show ?thesis by simp
  qed
  have dist: "distinct (map (slot \<circ> message_of) (entries l))" using h by (simp add: history_def ledger_good_def)
  have u: "message_of x = message_of e" if "x \<in> set (entries l)" "slot (message_of x) = slot (message_of e)" for x
    using dist that e(1) by (metis comp_apply distinct_map inj_onD)
  have "accounted fc (b # hist) acked l b"
    unfolding accounted_def r using b b0(3) u e same by auto
  moreover have "accounted fc (b # hist) acked l b'" if "b' \<in> set hist" for b'
    using old [OF that] same [OF that] unfolding accounted_def by (auto simp: r)
  ultimately show ?thesis using h by (simp add: history_def list_all_iff)
qed

text \<open>The acknowledged message leaves the queue.\<close>

lemma history_accepted:
  assumes "put ''pending'' (JArray es) l = Inr l'" and "entries l = e # es" and h: "history fc hist acked l"
    and b: "encode_json (message_of e) = Inr b"
  shows "history fc hist (b # acked) l'" and "slot l' = slot l"
proof -
  from h have good: "ledger_good l" by (simp add: history_def)
  then have docs: "\<forall>e \<in> set (entries l). doc 22 e" by (rule good_ledger)
  have g: "list_all (entry_good (slot l)) es" "distinct (map (slot \<circ> message_of) es)" "length es \<le> 64" "\<forall>e \<in> set es. doc 22 e"
    "list_all (\<lambda>e. \<not> sent e) (tl es)"
    using good assms(2) docs by (cases es; auto simp: ledger_good_def)+
  have keep: "(\<exists>y \<in> set es. message_of y = message_of x \<and> sent y) \<or> (\<exists>c \<in> set (b # acked). encode_json (message_of x) = Inr c)"
    if "x \<in> set (entries l)" "sent x" for x
    using that assms(2) b by auto
  have sub: "message_of ` set es \<subseteq> message_of ` set (entries l)" using assms(2) by auto
  note r = history_entries [OF assms(1) h g(4,3,1,2) sub keep _ g(5)]
  show "history fc hist (b # acked) l'" "slot l' = slot l" by (rule r; auto)+
qed

lemma history_acked: "history fc hist acked l \<Longrightarrow> set acked \<subseteq> set acked' \<Longrightarrow> history fc hist acked' l"
  by (auto simp: history_def list_all_iff accounted_def)

section \<open>Executions\<close>

text \<open>The backend's answer is the exact acknowledgement of these bytes.\<close>

definition confirmed :: "(string \<Rightarrow> dbl option) \<Rightarrow> string \<Rightarrow> int \<Rightarrow> string \<Rightarrow> bool" where
  "confirmed fc b http response \<longleftrightarrow> http \<in> {200, 201} \<and> acknowledges fc (read_message fc b) http response = Inr True"

definition handed :: "string option result \<Rightarrow> string list" where
  "handed r = (case r of Inr (Some b) \<Rightarrow> [b] | _ \<Rightarrow> [])"

text \<open>
  Every execution of the delivery worker over any number of processes, with the messages handed to the
  transport and those acknowledged so far. A start may follow at any point; an operation runs in a
  process that has opened the queue and has not ended, with any failures.
\<close>

inductive observing :: "(string \<Rightarrow> dbl option) \<Rightarrow> string list \<Rightarrow> string list \<Rightarrow> ObservationStream \<Rightarrow> bool" for fc where
  empty: "obs_files s = [] \<Longrightarrow> \<not> obs_open s \<Longrightarrow> observing fc [] [] s"
| starts: "observing fc hist acked s \<Longrightarrow> doc 21 envelope \<Longrightarrow> observing fc hist acked (snd (start_observation fc flt available envelope s))"
| observes: "observing fc hist acked s \<Longrightarrow> obs_open s \<Longrightarrow> \<not> obs_halted s \<Longrightarrow> doc 20 c \<Longrightarrow>
    observing fc hist acked (snd (fn_observe flt c wall monotonic s))"
| hands: "observing fc hist acked s \<Longrightarrow> obs_open s \<Longrightarrow> \<not> obs_halted s \<Longrightarrow> fn_next flt s = (r, s') \<Longrightarrow>
    observing fc (handed r @ hist) acked s'"
| accepts: "observing fc hist acked s \<Longrightarrow> obs_open s \<Longrightarrow> \<not> obs_halted s \<Longrightarrow>
    observing fc hist (if confirmed fc b http response then b # acked else acked) (snd (fn_accept fc flt b http response s))"

definition disk_ok :: "(string \<Rightarrow> dbl option) \<Rightarrow> string list \<Rightarrow> string list \<Rightarrow> string option \<Rightarrow> bool" where
  "disk_ok fc hist acked file \<longleftrightarrow>
     (case file of None \<Rightarrow> hist = [] \<and> acked = []
      | Some t \<Rightarrow> length t \<le> 700000 \<and> (\<exists>l. encode_json l = Inr t \<and> history fc hist acked l))"

definition stream_ok :: "(string \<Rightarrow> dbl option) \<Rightarrow> string list \<Rightarrow> string list \<Rightarrow> ObservationStream \<Rightarrow> bool" where
  "stream_ok fc hist acked s \<longleftrightarrow> disk_ok fc hist acked (map_of (obs_files s) ledger_file) \<and>
     (obs_open s \<longrightarrow> map_of (obs_files s) ledger_file \<noteq> None) \<and>
     (obs_open s \<and> \<not> unusable s \<longrightarrow> doc 21 (obs_base s) \<and> history fc hist acked (obs_ledger s) \<and>
        (\<exists>t. encode_json (obs_ledger s) = Inr t \<and> map_of (obs_files s) ledger_file = Some t) \<and>
        map_of (obs_files s) ledger_next = None \<and> json_at ''binding'' (obs_ledger s) = allocation (obs_base s))"

lemma commit_cases:
  assumes "stream_is a n l p e s" and "commit_ledger flt next s = (r, s')"
  obtains (refused) n' x where "r = Inl x" "stream_is a n' l p e s'" "n' = n \<or> obs_halted s'"
  | (committed) t where "r = Inr ()" "encode_json next = Inr t" "length t \<le> 700000" "stream_is (Some t) None next p e s'" "\<not> obs_halted s'"
  | (broken) t x c n' where "r = Inl x" "encode_json next = Inr t" "length t \<le> 700000" "c \<in> {a, Some t}" "stream_is c n' l True e s'"
proof (cases "\<exists>t. encode_json next = Inr t \<and> length t \<le> 700000")
  case True
  then obtain t where t: "encode_json next = Inr t" "length t \<le> 700000" by blast
  note h = hoare_commit_ledger [OF t(1), of a n l p e flt]
  show ?thesis
  proof (cases r)
    case (Inl x)
    with hoareD(2) [OF h assms(1)] assms(2) have "(\<exists>n'. stream_is a n' l p e s' \<and> (n' = n \<or> obs_halted s')) \<or> either_ledger a t l True e s'" by blast
    then show ?thesis using Inl t refused broken unfolding either_ledger_def by blast
  next
    case (Inr u)
    then show ?thesis using hoareD(1) [OF h assms(1)] assms(2) committed t by simp
  qed
next
  case False
  then have "\<exists>x. commit_ledger flt next s = (Inl x, s)"
    by (cases "encode_json next") (auto simp: commit_ledger_def)
  then show ?thesis using assms refused by auto
qed

lemma disk_acked: "disk_ok fc hist acked (Some t) \<Longrightarrow> set acked \<subseteq> set acked' \<Longrightarrow> disk_ok fc hist acked' (Some t)"
  using history_acked by (fastforce simp: disk_ok_def)

lemma disk_new: "encode_json l = Inr t \<Longrightarrow> length t \<le> 700000 \<Longrightarrow> history fc hist acked l \<Longrightarrow> disk_ok fc hist acked (Some t)"
  by (auto simp: disk_ok_def)

text \<open>A commit, in a running process, of a ledger that accounts for the same messages.\<close>

lemma commit_step:
  assumes ok: "stream_ok fc hist acked s" "obs_open s" "\<not> unusable s" and "set acked \<subseteq> set acked'"
    and h: "history fc hist acked' next" and c: "commit_ledger flt next s = (r, s')"
    and b: "json_at ''binding'' next = json_at ''binding'' (obs_ledger s)"
  shows "stream_ok fc hist acked' s'" and "r = Inr () \<Longrightarrow> obs_ledger s' = next \<and> obs_open s' \<and> \<not> unusable s'"
proof -
  from ok obtain t where t: "encode_json (obs_ledger s) = Inr t" "map_of (obs_files s) ledger_file = Some t" "disk_ok fc hist acked (Some t)"
    and base: "doc 21 (obs_base s)" and old: "history fc hist acked (obs_ledger s)" and n: "map_of (obs_files s) ledger_next = None"
    and bind: "json_at ''binding'' (obs_ledger s) = allocation (obs_base s)"
    by (auto simp: stream_ok_def)
  let ?e = "(obs_base s, True)"
  have i: "stream_is (Some t) None (obs_ledger s) False ?e s" using t ok n by (simp add: stream_is_def unusable_def)
  note keep = disk_acked [OF t(3) assms(4)] history_acked [OF old assms(4)]
  from i c have "stream_ok fc hist acked' s' \<and> (r = Inr () \<longrightarrow> obs_ledger s' = next \<and> obs_open s' \<and> \<not> unusable s')"
  proof (cases rule: commit_cases)
    case (refused n' x)
    then show ?thesis using keep t base bind by (auto simp: stream_ok_def stream_is_def unusable_def)
  next
    case (committed t')
    with disk_new [OF committed(2,3) h] h base b bind show ?thesis by (auto simp: stream_ok_def stream_is_def unusable_def)
  next
    case (broken t' x c' n')
    then have "disk_ok fc hist acked' c'" using keep(1) disk_new [OF broken(2,3) h] by auto
    with broken show ?thesis by (auto simp: stream_ok_def stream_is_def unusable_def)
  qed
  then show "stream_ok fc hist acked' s'" "r = Inr () \<Longrightarrow> obs_ledger s' = next \<and> obs_open s' \<and> \<not> unusable s'" by blast+
qed

lemma stream_history: "stream_ok fc hist acked s \<Longrightarrow> obs_open s \<Longrightarrow> \<not> unusable s \<Longrightarrow> history fc hist acked (obs_ledger s) \<and> doc 21 (obs_base s) \<and>
    pending_entries (obs_ledger s) = Inr (entries (obs_ledger s))"
  using pending_good by (auto simp: stream_ok_def history_def)

lemma stream_emitted: "stream_ok fc hist acked (s\<lparr>obs_last_emit := i, obs_last_content := b\<rparr>) = stream_ok fc hist acked s"
  by (simp add: stream_ok_def unusable_def)

text \<open>Rules for an operation that starts in a known state.\<close>

lemma at_readS:
  "E s \<Longrightarrow> (\<And>x. g s = Inr x \<Longrightarrow> hoare (\<lambda>t. t = s) (f x) R E) \<Longrightarrow> hoare (\<lambda>t. t = s) (bindS (readS g) f) R E"
  by (auto simp: hoare_def split: sum.splits)

lemma at_liftS:
  "E s \<Longrightarrow> (\<And>x. r = Inr x \<Longrightarrow> hoare (\<lambda>t. t = s) (f x) R E) \<Longrightarrow> hoare (\<lambda>t. t = s) (bindS (liftS r) f) R E"
  by (cases r) (auto simp: hoare_def)

lemma at_returnS: "Q x s \<Longrightarrow> hoare (\<lambda>t. t = s) (returnS x) Q E"
  by (simp add: hoare_def)

lemma at_option:
  "(x = None \<Longrightarrow> hoare P m Q E) \<Longrightarrow> (\<And>y. x = Some y \<Longrightarrow> hoare P (n y) Q E) \<Longrightarrow> hoare P (case x of None \<Rightarrow> m | Some y \<Rightarrow> n y) Q E"
  by (cases x) simp_all

lemmas at_rules = at_readS at_liftS at_returnS at_option hoare_if

definition running :: "(string \<Rightarrow> dbl option) \<Rightarrow> string list \<Rightarrow> string list \<Rightarrow> Json \<Rightarrow> ObservationStream \<Rightarrow> bool" where
  "running fc hist acked l s \<longleftrightarrow> stream_ok fc hist acked s \<and> obs_ledger s = l \<and> obs_open s \<and> \<not> unusable s"

lemma at_commit:
  assumes "running fc hist acked l s" and "set acked \<subseteq> set acked'" and "history fc hist acked' l'"
    and "json_at ''binding'' l' = json_at ''binding'' l"
  shows "hoare (\<lambda>t. t = s) (commit_ledger flt l') (\<lambda>_. running fc hist acked' l') (stream_ok fc hist acked')"
proof (rule hoareI)
  fix t
  assume t: "t = s"
  obtain r s' where c: "commit_ledger flt l' s = (r, s')" by force
  from assms(1) have "stream_ok fc hist acked s" "obs_open s" "\<not> unusable s" by (simp_all add: running_def)
  from commit_step [OF this assms(2,3) c] assms(1,4) c t show "case commit_ledger flt l' t of (Inr x, s') \<Rightarrow> running fc hist acked' l' s' | (Inl e, s') \<Rightarrow> stream_ok fc hist acked' s'"
    by (cases r) (auto simp: running_def)
qed

lemma running_facts:
  assumes "running fc hist acked l s"
  shows "stream_ok fc hist acked s" "history fc hist acked l" "doc 21 (obs_base s)" "pending_entries l = Inr (entries l)" "obs_ledger s = l"
  using assms stream_history unfolding running_def by blast+

lemma shaped_keyed: "shaped l \<Longrightarrow> keyed l"
  by (erule shapedE) (simp add: keyed_def ledger_json_def less_list_code less_char_def)

lemma same_binding:
  assumes "running fc hist acked l s"
  shows "put ''pending'' v l = Inr l' \<Longrightarrow> json_at ''binding'' l' = json_at ''binding'' l"
    and "attempted_ledger l es = Inr l' \<Longrightarrow> json_at ''binding'' l' = json_at ''binding'' l"
    and "observed_ledger base l es c bytes wall = Inr l' \<Longrightarrow> json_at ''binding'' l' = json_at ''binding'' l"
proof -
  have "keyed l" using running_facts(2) [OF assms] shaped_keyed by (simp add: history_def ledger_good_def)
  then have p: "put k v l = Inr l1 \<Longrightarrow> keyed l1 \<and> (k \<noteq> ''binding'' \<longrightarrow> json_at ''binding'' l1 = json_at ''binding'' l)" for k v l1
    using put_keyed [of k v l l1 "''binding''"] by auto
  have q: "json_at ''binding'' l' = json_at ''binding'' l" if "put ''pending'' w l = Inr l'" for w using p [OF that] by simp
  then show "put ''pending'' v l = Inr l' \<Longrightarrow> json_at ''binding'' l' = json_at ''binding'' l" .
  show "attempted_ledger l es = Inr l' \<Longrightarrow> json_at ''binding'' l' = json_at ''binding'' l"
    using q unfolding attempted_ledger_def bindE_eq_Inr by blast
  show "json_at ''binding'' l' = json_at ''binding'' l" if o: "observed_ledger base l es c bytes wall = Inr l'"
  proof -
    from o obtain q1 l1 w where l1: "put ''sequence'' q1 l = Inr l1" "put ''pending'' w l1 = Inr l'"
      by (auto simp: observed_ledger_def bindE_eq_Inr)
    with p [OF l1(1)] put_keyed [OF l1(2), of "''binding''"] show ?thesis by simp
  qed
qed

text \<open>Observing, handing out and accepting.\<close>

lemma observe_ok:
  assumes r: "running fc hist acked l s" and "doc 20 c"
  shows "hoare (\<lambda>t. t = s) (fn_observe flt c wall monotonic) (\<lambda>_. stream_ok fc hist acked) (stream_ok fc hist acked)"
proof -
  note f = running_facts [OF r]
  have e: "hoare (running fc hist acked l') (note_emitted monotonic bytes) (\<lambda>_. stream_ok fc hist acked) E" for l' bytes E
    by (auto simp: hoare_def note_emitted_def stream_emitted running_def)
  show ?thesis
    unfolding fn_observe_def check_poisoned_def
  proof (intro at_rules f(1))
    fix place es bytes l'
    assume "bindE (pending_entries (obs_ledger s)) room = Inr place" "place = Some es"
      "observed_ledger (obs_base s) (obs_ledger s) es c bytes wall = Inr l'"
    then have "history fc hist acked l'" "json_at ''binding'' l' = json_at ''binding'' l"
      using history_observed f assms(2) same_binding(3) [OF r] by simp_all
    then show "hoare (\<lambda>t. t = s) (bindS (commit_ledger flt l') (\<lambda>_. note_emitted monotonic bytes)) (\<lambda>_. stream_ok fc hist acked) (stream_ok fc hist acked)"
      by (intro hoare_bindS [OF at_commit [OF r subset_refl]] e)
  qed
qed

lemma bool_at_True: "bool_at k j = Inr True \<longleftrightarrow> json_at k j = Inr (JBool True)"
proof -
  have "json_boolean v = Inr b \<longleftrightarrow> v = JBool b" for v b by (cases v) (simp_all add: json_boolean_def)
  then show ?thesis by (auto simp: bool_at_def bindE_eq_Inr)
qed

lemma next_ok:
  assumes r: "running fc hist acked l s"
  shows "hoare (\<lambda>t. t = s) (fn_next flt) (\<lambda>b. stream_ok fc (handed (Inr b) @ hist) acked) (stream_ok fc hist acked)"
proof -
  note f = running_facts [OF r]
  have hand: "hoare (running fc hist acked l') (bindS (liftS (bindE (json_at ''message'' e) encode_json)) (\<lambda>t. returnS (Some t)))
      (\<lambda>b. stream_ok fc (handed (Inr b) @ hist) acked) (stream_ok fc hist acked)"
    if e': "entries l' = e' # es" "message_of e' = message_of e" "sent e'" for l' e' e es
  proof (rule hoare_bind_liftS)
    fix b
    assume b: "bindE (json_at ''message'' e) encode_json = Inr b"
    have "stream_ok fc (b # hist) acked t" if t: "running fc hist acked l' t" for t
    proof -
      have "encode_json (message_of e') = Inr b" using b e'(2) by (auto simp: bindE_eq_Inr message_at)
      then have "history fc (b # hist) acked l'" using history_sent [of fc hist acked l' e'] running_facts(2) [OF t] e' by simp
      then show ?thesis using t by (auto simp: running_def stream_ok_def disk_ok_def)
    qed
    then show "hoare (running fc hist acked l') (returnS (Some b)) (\<lambda>b. stream_ok fc (handed (Inr b) @ hist) acked) (stream_ok fc hist acked)"
      by (intro hoare_returnS) (simp add: handed_def)
  qed (simp add: running_def)
  show ?thesis
    unfolding fn_next_def check_poisoned_def
  proof (intro at_readS at_liftS at_returnS hoare_if f(1))
    show "stream_ok fc (handed (Inr None) @ hist) acked s" using f(1) by (simp add: handed_def)
    fix es a
    assume es: "pending_entries (obs_ledger s) = Inr es" "es \<noteq> []" and a: "bool_at ''attempted'' (hd es) = Inr a"
    then have l: "entries l = hd es # tl es" "es = entries l" using f(4,5) by simp_all
    let ?rest = "\<lambda>_ :: unit. bindS (liftS (bindE (json_at ''message'' (hd es)) encode_json)) (\<lambda>t. returnS (Some t))"
    show "hoare (\<lambda>t. t = s) (bindS (if a then returnS () else bindS (readS (\<lambda>s. attempted_ledger (obs_ledger s) es)) (commit_ledger flt)) ?rest)
        (\<lambda>b. stream_ok fc (handed (Inr b) @ hist) acked) (stream_ok fc hist acked)"
    proof (cases a)
      case True
      then have "sent (hd es)" using a by (simp add: sent_def bool_at_True)
      then have "hoare (running fc hist acked l) (?rest ()) (\<lambda>b. stream_ok fc (handed (Inr b) @ hist) acked) (stream_ok fc hist acked)"
        by (intro hand [OF l(1)]) simp_all
      then show ?thesis using True r by (auto elim: hoare_pre)
    next
      case False
      have "hoare (\<lambda>t. t = s) (bindS (commit_ledger flt l') ?rest) (\<lambda>b. stream_ok fc (handed (Inr b) @ hist) acked) (stream_ok fc hist acked)"
        if "attempted_ledger (obs_ledger s) es = Inr l'" for l'
      proof -
        have h: "history fc hist acked l'" "\<exists>e'. entries l' = e' # tl es \<and> message_of e' = message_of (hd es) \<and> sent e'"
          using history_attempted [OF _ l(1) f(2)] that l(2) f(5) by blast+
        have "json_at ''binding'' l' = json_at ''binding'' l" using same_binding(2) [OF r] that f(5) by simp
        with h(2) show ?thesis using hand by (auto intro!: hoare_bindS [OF at_commit [OF r subset_refl h(1)]])
      qed
      then show ?thesis using False f(1) at_readS by (fastforce simp: hoare_def bindS_def split: sum.splits prod.splits)
    qed
  qed
qed

lemma stream_acked:
  "stream_ok fc hist acked s \<Longrightarrow> obs_open s \<Longrightarrow> set acked \<subseteq> set acked' \<Longrightarrow> stream_ok fc hist acked' s"
  using disk_acked history_acked unfolding stream_ok_def by fastforce

lemma accept_ok:
  assumes r: "running fc hist acked l s" and acked'_def: "acked' = (if confirmed fc b http response then b # acked else acked)"
  shows "hoare (\<lambda>t. t = s) (fn_accept fc flt b http response) (\<lambda>_. stream_ok fc hist acked') (stream_ok fc hist acked')"
proof -
  note f = running_facts [OF r]
  have sub: "set acked \<subseteq> set acked'" by (auto simp: acked'_def)
  have s: "stream_ok fc hist acked' s" using stream_acked [OF f(1) _ sub] r by (simp add: running_def)
  show ?thesis
    unfolding fn_accept_def check_poisoned_def
  proof (intro at_readS at_liftS at_returnS hoare_if s)
    fix es front l'
    assume http: "\<not> (http \<noteq> 200 \<and> http \<noteq> 201)" and es: "pending_entries (obs_ledger s) = Inr es"
      and front: "front_matches es b = Inr front" "\<not> \<not> front"
      and ack: "\<not> bindE (json_at ''message'' (hd es)) (\<lambda>m. acknowledges fc m http response) \<noteq> Inr True"
      and l': "put ''pending'' (JArray (tl es)) (obs_ledger s) = Inr l'"
    have l: "es = entries l" "obs_ledger s = l" using es f(4,5) by simp_all
    have ne: "es \<noteq> []" using front by (auto simp: front_matches_def)
    then have cons: "entries l = hd es # tl es" and e: "hd es \<in> set (entries l)" using l by simp_all
    obtain c where c: "encode_json (message_of (hd es)) = Inr c" "read_message fc c = message_of (hd es)" "json_at ''message'' (hd es) = Inr (message_of (hd es))"
      using f(2) e by (rule entry_message)
    have "c = b" using front ne c by (auto simp: front_matches_def bindE_eq_Inr split: if_splits)
    then have "confirmed fc b http response" using http ack c by (auto simp: confirmed_def)
    then have "acked' = b # acked" by (simp add: acked'_def)
    then have h: "history fc hist acked' l'" using history_accepted(1) [OF _ cons f(2)] l' l(2) c(1) \<open>c = b\<close> by simp
    show "hoare (\<lambda>t. t = s) (bindS (commit_ledger flt l') (\<lambda>_. returnS True)) (\<lambda>_. stream_ok fc hist acked') (stream_ok fc hist acked')"
      using same_binding(1) [OF r] l' l(2) by (intro hoare_bindS [OF at_commit [OF r sub h]]) (auto intro!: hoare_returnS simp: running_def)
  qed
qed

text \<open>Starting.\<close>

lemma closed_ok: "stream_is a n l p (e, False) s \<Longrightarrow> disk_ok fc hist acked a \<Longrightarrow> stream_ok fc hist acked s"
  by (auto simp: stream_is_def stream_ok_def)

lemma open_ok:
  assumes "disk_ok fc hist acked a" and h: "history fc hist acked l'" and "doc 21 envelope" and "json_at ''binding'' l' = allocation envelope"
  shows "hoare (stream_is a n l False (envelope, False)) (bindS (commit_ledger flt l') (\<lambda>_. open_stream)) (\<lambda>_. stream_ok fc hist acked) (stream_ok fc hist acked)"
proof (rule hoareI)
  fix s
  assume s: "stream_is a n l False (envelope, False) s"
  obtain r s' where c: "commit_ledger flt l' s = (r, s')" by force
  from s c show "case bindS (commit_ledger flt l') (\<lambda>_. open_stream) s of (Inr x, s') \<Rightarrow> stream_ok fc hist acked s' | (Inl e, s') \<Rightarrow> stream_ok fc hist acked s'"
  proof (cases rule: commit_cases)
    case (refused n' x)
    then show ?thesis using closed_ok [OF refused(2) assms(1)] c by (simp add: bindS_def)
  next
    case (committed t)
    with disk_new [OF committed(2,3) h] h assms(3,4) c show ?thesis
      by (auto simp: bindS_def open_stream_def stream_ok_def stream_is_def)
  next
    case (broken t x c' n')
    have "disk_ok fc hist acked c'" using broken(4) assms(1) disk_new [OF broken(2,3) h] by auto
    with closed_ok [OF broken(5)] broken(1) c show ?thesis by (simp add: bindS_def)
  qed
qed

lemma ledger_read:
  assumes "disk_ok fc hist acked a" and "a = map_of d ledger_file" and "read_ledger d = Inr existing" and "allocation envelope = Inr binding" and "doc 21 envelope"
    and "(case existing of Some bytes \<Rightarrow> parse_json fc bytes 700000 | None \<Rightarrow> Inr (fresh_ledger binding)) = Inr l"
  shows "history fc hist acked l"
proof (cases a)
  case None
  then have "hist = []" "acked = []" "l = fresh_ledger binding" using assms by (auto simp: disk_ok_def read_ledger_def)
  moreover have "doc 22 binding" using allocation_doc [OF assms(4), of 20] assms(5) doc_mono [of 21 binding 22] by simp
  ultimately show ?thesis using fresh_history by simp
next
  case (Some t)
  then obtain l0 where l0: "encode_json l0 = Inr t" "history fc hist acked l0" "length t \<le> 700000" using assms(1) by (auto simp: disk_ok_def)
  then have "parse_json fc t 700000 = Inr l0" using parse_doc [OF l0(1)] by (simp add: history_def ledger_good_def)
  moreover have "existing = Some t" using Some assms(2,3) by (auto simp: read_ledger_def split: if_splits)
  ultimately show ?thesis using assms(6) l0(2) by simp
qed

lemma start_ok:
  assumes "stream_ok fc hist acked s0" and "doc 21 envelope"
  shows "stream_ok fc hist acked (snd (start_observation fc flt available envelope s0))"
proof -
  define s where "s = new_stream envelope s0"
  define a where "a = map_of (obs_files s) ledger_file"
  define n where "n = map_of (obs_files s) ledger_next"
  have d: "disk_ok fc hist acked a" using assms(1) by (simp add: a_def s_def new_stream_def stream_ok_def)
  have i: "stream_is a n JNull False (envelope, False) s" by (simp add: stream_is_def a_def n_def s_def new_stream_def)
  have ok: "stream_ok fc hist acked s" using closed_ok [OF i d] .
  have "hoare (\<lambda>t. t = s) (bindS (checkS (\<not> available) unavailable) (\<lambda>_.
     bindS (liftS (allocation envelope)) (\<lambda>binding.
     bindS (readS (\<lambda>s. read_ledger (obs_files s))) (\<lambda>existing.
     bindS (liftS (case existing of Some bytes \<Rightarrow> parse_json fc bytes 700000 | None \<Rightarrow> Inr (fresh_ledger binding))) (\<lambda>ledger.
     bindS (liftS (check_ledger_file ledger binding)) (\<lambda>_.
     bindS (liftS (next_generation binding ledger)) (\<lambda>next.
     bindS (unlink_next flt) (\<lambda>_.
     bindS (commit_ledger flt next) (\<lambda>_. open_stream)))))))))
     (\<lambda>_. stream_ok fc hist acked) (stream_ok fc hist acked)"
  proof (rule hoare_bind_checkS; (intro at_readS at_liftS ok)?)
    fix binding existing l l' and u :: unit
    assume l: "allocation envelope = Inr binding" "read_ledger (obs_files s) = Inr existing"
      "(case existing of Some bytes \<Rightarrow> parse_json fc bytes 700000 | None \<Rightarrow> Inr (fresh_ledger binding)) = Inr l"
      "check_ledger_file l binding = Inr u" "next_generation binding l = Inr l'"
    have "doc 23 binding" using allocation_doc [OF l(1), of 20] assms(2) doc_mono [of 21 binding 23] by simp
    moreover have "check_ledger_file l binding = Inr ()" using l(4) by simp
    ultimately have h: "history fc hist acked l'"
      using history_generation [OF l(5)] ledger_read [OF d a_def l(2,1) assms(2) l(3)] by simp
    have b: "json_at ''binding'' l' = allocation envelope"
      using ledger_read [OF d a_def l(2,1) assms(2) l(3)] l(1,5)
      by (auto simp: history_def ledger_good_def next_generation_def int_at_def json_integer_def elim!: shapedE)
    have u: "hoare (stream_is a n JNull False (envelope, False)) (unlink_next flt) (\<lambda>_. stream_is a None JNull False (envelope, False)) (stream_ok fc hist acked)"
      by (rule hoare_weaken [OF hoare_unlink]) (auto intro: closed_ok [OF _ d])
    show "hoare (\<lambda>t. t = s) (bindS (unlink_next flt) (\<lambda>_. bindS (commit_ledger flt l') (\<lambda>_. open_stream))) (\<lambda>_. stream_ok fc hist acked) (stream_ok fc hist acked)"
      by (rule hoare_pre [OF hoare_bindS [OF u open_ok [OF d h assms(2) b]]]) (simp add: i)
  qed (use ok in simp)
  from hoare_snd [OF this] show ?thesis by (simp add: start_observation_def s_def)
qed

lemma observing_ok: "observing fc hist acked s \<Longrightarrow> stream_ok fc hist acked s"
proof (induction rule: observing.induct)
  case (empty s)
  then show ?case by (simp add: stream_ok_def disk_ok_def)
next
  case (starts hist acked s envelope flt available)
  then show ?case by (intro start_ok)
next
  case (observes hist acked s c flt wall monotonic)
  show ?case
  proof (cases "obs_poisoned s")
    case False
    then have "running fc hist acked (obs_ledger s) s" using observes by (simp add: running_def unusable_def)
    from hoare_snd [OF observe_ok [OF this observes(4)]] show ?thesis by simp
  qed (use observes in \<open>simp add: fn_observe_def check_poisoned_def\<close>)
next
  case (hands hist acked s flt r s')
  show ?case
  proof (cases "obs_poisoned s")
    case False
    then have "running fc hist acked (obs_ledger s) s" using hands by (simp add: running_def unusable_def)
    from hoareD [OF next_ok [OF this]] hands(4) show ?thesis by (cases r) (auto simp: handed_def)
  next
    case True
    then have "r = Inl unavailable" "s' = s" using hands(4) by (simp_all add: fn_next_def check_poisoned_def)
    then show ?thesis using hands by (simp add: handed_def)
  qed
next
  case (accepts hist acked s b http response flt)
  show ?case
  proof (cases "obs_poisoned s")
    case False
    then have "running fc hist acked (obs_ledger s) s" using accepts by (simp add: running_def unusable_def)
    from hoare_snd [OF accept_ok [OF this refl]] show ?thesis by simp
  next
    case True
    then have "snd (fn_accept fc flt b http response s) = s" by (simp add: fn_accept_def check_poisoned_def)
    then show ?thesis using accepts stream_acked [of fc hist acked s "b # acked"] by auto
  qed
qed

section \<open>The size of a ledger\<close>

lemma join_length: "list_all (\<lambda>u. u \<noteq> []) us \<Longrightarrow> length (join_json c us) \<le> 1 + sum_list (map (\<lambda>u. length u + 1) us)"
proof -
  have "length (commas us) \<le> sum_list (map (\<lambda>u. length u + 1) us)" for us :: "string list"
    by (induction us rule: commas.induct) auto
  then show "list_all (\<lambda>u. u \<noteq> []) us \<Longrightarrow> ?thesis" by (simp add: join_json_commas)
qed

lemma array_text:
  assumes "\<And>v. v \<in> set vs \<Longrightarrow> \<exists>u. encode_json v = Inr u \<and> length u \<le> k"
  shows "\<exists>t. encode_json (JArray vs) = Inr t \<and> length t \<le> 2 + (k + 1) * length vs"
proof -
  have "\<exists>us. encode_items vs = Inr us \<and> length us = length vs \<and> list_all (\<lambda>u. u \<noteq> [] \<and> length u \<le> k) us"
    using assms by (induction vs) (fastforce simp: bindE_eq_Inr encode_not_Nil)+
  then obtain us where us: "encode_items vs = Inr us" "length us = length vs" "list_all (\<lambda>u. u \<noteq> [] \<and> length u \<le> k) us" by blast
  have "sum_list (map (\<lambda>u. length u + 1) us) \<le> (k + 1) * length us"
    using us(3) by (induction us) auto
  with us join_length [of us "CHR ''[''"] show ?thesis by (auto simp: list_all_iff)
qed

lemma object_text:
  assumes "encode_fields kvs = Inr us"
  shows "\<exists>t. encode_json (JObject kvs) = Inr t \<and> length t \<le> 2 + sum_list (map (\<lambda>u. length u + 1) us)"
proof -
  have "list_all (\<lambda>u. u \<noteq> []) us" using assms
    by (induction kvs arbitrary: us) (auto simp: bindE_eq_Inr quote_json_Inr json_string_def)
  with join_length [of us "CHR ''{''"] assms show ?thesis by simp
qed

lemma sha_text: "quote_json (sha256_hex x) = Inr (json_string (sha256_hex x)) \<and> length (json_string (sha256_hex x)) \<le> 130"
proof -
  have l: "lowercase_sha256 (sha256_hex x)" by (rule sha256_hex_lowercase)
  then have c: "\<forall>c \<in> set (sha256_hex x). code c < 128 \<and> 32 \<le> code c" "length (sha256_hex x) = 64"
    by (auto simp: lowercase_sha256_def list_all_iff is_lower_hex_def char_class_defs)
  then have "valid_utf8 (sha256_hex x)" "printable (sha256_hex x)"
    by (auto intro!: valid_utf8_ascii simp: list_all_iff printable_def)
  with json_string_length c(2) show ?thesis by (fastforce simp: quote_json_Inr)
qed

lemma key_texts:
  "quote_json ''attempted'' = Inr ''\"attempted\"''" "quote_json ''digest'' = Inr ''\"digest\"''" "quote_json ''message'' = Inr ''\"message\"''"
  "quote_json ''binding'' = Inr ''\"binding\"''" "quote_json ''generation'' = Inr ''\"generation\"''" "quote_json ''pending'' = Inr ''\"pending\"''"
  "quote_json ''schemaVersion'' = Inr ''\"schemaVersion\"''" "quote_json ''sequence'' = Inr ''\"sequence\"''" "int_to_string 1 = ''1''"
  by code_simp+

lemma entry_text:
  assumes "entry_good n e"
  shows "\<exists>u. encode_json e = Inr u \<and> length u \<le> 8400"
proof -
  from assms obtain a x m t where e: "e = entry_json a (sha256_hex x) m" "encode_json m = Inr t" "length t \<le> 8192" by (auto simp: entry_good_def)
  then have "encode_fields [(''attempted'', JBool a), (''digest'', JString (sha256_hex x)), (''message'', m)] =
      Inr [''\"attempted\":'' @ (if a then ''true'' else ''false''), ''\"digest\":'' @ json_string (sha256_hex x), ''\"message\":'' @ t]"
    using sha_text [of x] by (simp add: key_texts)
  from object_text [OF this] sha_text [of x] e(3) show ?thesis unfolding e(1) entry_json_def by (auto split: if_splits)
qed

lemma ledger_text:
  assumes "encode_json b = Inr tb" and "length tb \<le> 30000" and "list_all (entry_good n) es" and "length es \<le> 64"
    and "0 \<le> g" "g \<le> maximum_integer" "0 \<le> q" "q \<le> maximum_integer"
  shows "\<exists>t. encode_json (ledger_json b g q es) = Inr t \<and> length t \<le> 700000"
proof -
  have "\<exists>u. encode_json e = Inr u \<and> length u \<le> 8400" if "e \<in> set es" for e
    using assms(3) that by (intro entry_text [of n]) (simp add: list_all_iff)
  from array_text [OF this] obtain te where te: "encode_json (JArray es) = Inr te" "length te \<le> 2 + 8401 * length es" by auto
  have n: "length (int_to_string g) \<le> 16" "length (int_to_string q) \<le> 16"
    using assms(5-8) by (auto intro!: length_int_to_string simp: maximum_integer_def)
  have "encode_fields [(''binding'', b), (''generation'', JInt g), (''pending'', JArray es), (''schemaVersion'', JInt 1), (''sequence'', JInt q)] =
      Inr [''\"binding\":'' @ tb, ''\"generation\":'' @ int_to_string g, ''\"pending\":'' @ te, ''\"schemaVersion\":1'', ''\"sequence\":'' @ int_to_string q]"
    using te(1) assms(1) by (simp add: key_texts del: encode_json.simps(5))
  from object_text [OF this] obtain t where t: "encode_json (ledger_json b g q es) = Inr t"
    "length t \<le> 2 + (length tb + length (int_to_string g) + length te + length (int_to_string q) + 100)"
    unfolding ledger_json_def by auto
  have "length te \<le> 2 + 8401 * 64" using te(2) assms(4) by linarith
  with t n assms(2) show ?thesis by auto
qed

text \<open>A field is no longer than the object it is in.\<close>

lemma commas_member: "u \<in> set us \<Longrightarrow> length u \<le> length (commas us)"
  by (induction us rule: commas.induct) auto

lemma field_shorter:
  assumes "encode_json j = Inr t" and "json_at k j = Inr v"
  shows "\<exists>u. encode_json v = Inr u \<and> length u \<le> length t"
proof -
  from assms(2) obtain kvs where j: "j = JObject kvs" "map_of kvs k = Some v" by (cases j) (auto simp: json_at_def json_object_def split: option.splits)
  with assms(1) obtain us where us: "encode_fields kvs = Inr us" "t = join_json (CHR ''{'') us @ ''}''" by (auto simp: bindE_eq_Inr)
  have ne: "list_all (\<lambda>u. u \<noteq> []) us" using us(1) by (induction kvs arbitrary: us) (auto simp: bindE_eq_Inr quote_json_Inr json_string_def)
  have "\<exists>u u'. encode_json v = Inr u \<and> u' \<in> set us \<and> length u \<le> length u'"
    using us(1) j(2) by (induction kvs arbitrary: us) (auto simp: bindE_eq_Inr split: if_splits, fastforce+)
  then show ?thesis using commas_member [of _ us] ne us(2) by (fastforce simp: join_json_commas intro: order_trans)
qed

lemma allocation_text:
  assumes "encode_json m = Inr t" and "length t \<le> 8192" and "allocation m = Inr a"
  shows "\<exists>u. encode_json a = Inr u \<and> length u \<le> 30000"
proof -
  from assms(3) obtain x y z where a: "json_at ''unitSystemUid'' m = Inr x" "json_at ''messageType'' m = Inr y"
    "json_at ''serviceInstance'' m = Inr z" "a = JArray [x, y, z]" by (auto simp: allocation_def bindE_eq_Inr)
  have "\<exists>u. encode_json v = Inr u \<and> length u \<le> 8192" if "v \<in> set [x, y, z]" for v
    using field_shorter [OF assms(1)] a(1-3) that assms(2) by fastforce
  from array_text [of "[x, y, z]", OF this] obtain u where "encode_json (JArray [x, y, z]) = Inr u" "length u \<le> 2 + 8193 * 3" by auto
  then show ?thesis using a(4) by (intro exI [of _ u]) simp
qed

text \<open>Without failures a commit of such a ledger goes through.\<close>

lemma commit_through:
  assumes "encode_json next = Inr t" and "length t \<le> 700000" and "\<not> obs_halted s" and "map_of (obs_files s) ledger_next = None"
  shows "\<exists>s'. commit_ledger (\<lambda>_. Through) next s = (Inr (), s')"
  using assms by (simp add: commit_ledger_def create_next_def write_next_def obs_sync_def rename_next_def poison_def set_ledger_def bindS_def
      obs_effect_def Let_def checkS_def map_of_update)

lemma new_message_allocation:
  assumes "new_message base l c bytes wall = Inr m" and "doc 21 base"
  shows "allocation m = allocation base"
proof -
  from assms(1) obtain m1 m2 g m3 q m4 ts m5 m6 where p: "put ''schemaVersion'' (JInt 3) base = Inr m1" "put ''contractVersion'' (JString ''3.0.0'') m1 = Inr m2"
    "put ''generation'' g m2 = Inr m3" "put ''sequence'' (JInt (q + 1)) m3 = Inr m4" "put ''observedAt'' (JString ts) m4 = Inr m5"
    "put ''content'' c m5 = Inr m6" "put ''contentSha256'' (JString (sha256_hex bytes)) m6 = Inr m"
    by (auto simp: new_message_def bindE_eq_Inr)
  have k: "keyed base" using doc_keyed [OF p(1), of 20] assms(2) by simp
  have "json_at k' m = json_at k' base" if "k' \<in> {''unitSystemUid'', ''messageType'', ''serviceInstance''}" for k'
    using put_keyed [OF p(1) k] put_keyed [OF p(2)] put_keyed [OF p(3)] put_keyed [OF p(4)] put_keyed [OF p(5)] put_keyed [OF p(6)]
      put_keyed [OF p(7), of k'] that by auto
  then show ?thesis by (simp add: allocation_def)
qed

text \<open>A valid observation that is due is taken in.\<close>

lemma observe_through:
  assumes "observing fc hist acked s" and "obs_open s" and "\<not> obs_poisoned s" and "\<not> obs_halted s" and "doc 20 c"
    and "check_base_content (obs_base s) c = Inr ()" and "encode_json c = Inr bytes" and "\<not> too_soon monotonic s bytes"
    and "room (entries (obs_ledger s)) = Inr (Some es)" and "num ''sequence'' (obs_ledger s) < maximum_integer"
    and "new_message (obs_base s) (obs_ledger s) c bytes wall = Inr m" and "check_message m = Inr k"
  shows "\<exists>s' e b g tb. fn_observe (\<lambda>_. Through) c wall monotonic s = (Inr True, s') \<and>
    running fc hist acked (ledger_json b g (num ''sequence'' (obs_ledger s) + 1) (es @ [e])) s' \<and> message_of e = m \<and> \<not> sent e \<and>
    num ''sequence'' m = num ''sequence'' (obs_ledger s) + 1 \<and> encode_json b = Inr tb \<and> length tb \<le> 30000 \<and> g \<le> maximum_integer \<and>
    0 \<le> num ''sequence'' m \<and> num ''sequence'' m \<le> maximum_integer"
proof -
  define l where "l = obs_ledger s"
  have r: "running fc hist acked l s" using observing_ok [OF assms(1)] assms(2-4) by (simp add: running_def unusable_def l_def)
  note f = running_facts [OF r]
  have good: "ledger_good l" using f(2) by (simp add: history_def)
  then obtain b g q es0 where l: "l = ledger_json b g q es0" by (auto simp: ledger_good_def elim!: shapedE)
  have q: "num ''sequence'' l = q" "0 \<le> g" using good by (simp_all add: l num_at ledger_good_def slot_def)
  note n = new_message_at [OF assms(11) f(3) assms(5), of g q, folded l_def, unfolded l, simplified, OF assms(12) q(2)]
  obtain t where t: "encode_json m = Inr t" "length t \<le> 8192" using assms(12) by (rule check_message_size)
  obtain e where e: "new_entry m = Inr e" using t(1) by (simp add: new_entry_def)
  note en = entry_at [OF e n(1)]
  let ?l = "ledger_json b g (q + 1) (es @ [e])"
  have obs: "observed_ledger (obs_base s) (obs_ledger s) es c bytes wall = Inr ?l"
    using assms(10-12) e n(3) q by (auto simp: observed_ledger_def l_def [symmetric] l int_at_def json_integer_def)
  have "history fc hist acked ?l"
    using history_observed [OF obs _ _ f(3) assms(5)] assms(9) f(2,5) by simp
  then have h: "ledger_good ?l" by (simp add: history_def)
  have "allocation m = Inr b" using new_message_allocation [OF assms(11) f(3)] observing_ok [OF assms(1)] assms(2-4)
    by (auto simp: stream_ok_def unusable_def l_def [symmetric] l)
  from allocation_text [OF t this] obtain tb where tb: "encode_json b = Inr tb" "length tb \<le> 30000" by blast
  obtain g' q' where "json_at ''generation'' m = Inr (JInt g')" "json_at ''sequence'' m = Inr (JInt q')" "g' \<le> maximum_integer"
    "q' \<le> maximum_integer" "1 \<le> q'" using assms(12) by (rule check_message_numbers)
  with n have bounds: "g \<le> maximum_integer" "q + 1 \<le> maximum_integer" "0 \<le> q + 1" by auto
  have "list_all (entry_good (slot ?l)) (es @ [e])" "length (es @ [e]) \<le> 64" using h by (simp_all add: ledger_good_def entries_at)
  from ledger_text [OF tb this q(2) bounds(1,3,2)] obtain tl where tl: "encode_json ?l = Inr tl" "length tl \<le> 700000" by blast
  from commit_through [OF tl assms(4)] observing_ok [OF assms(1)] assms(2-4) obtain s1 where s1: "commit_ledger (\<lambda>_. Through) ?l s = (Inr (), s1)"
    by (auto simp: stream_ok_def unusable_def)
  have "json_at ''binding'' ?l = json_at ''binding'' l" by (simp add: l)
  from hoareD(1) [OF at_commit [OF r subset_refl \<open>history fc hist acked ?l\<close> this] refl s1]
  have s1': "running fc hist acked ?l s1" .
  have "fn_observe (\<lambda>_. Through) c wall monotonic s = bindS (commit_ledger (\<lambda>_. Through) ?l) (\<lambda>_. note_emitted monotonic bytes) s"
    using assms(3,6-9) obs pending_good [OF good] f(5) by (simp add: fn_observe_def check_poisoned_def)
  with s1 have "fn_observe (\<lambda>_. Through) c wall monotonic s = (Inr True, s1\<lparr>obs_last_emit := monotonic, obs_last_content := bytes\<rparr>)"
    by (simp add: bindS_def note_emitted_def)
  moreover have "running fc hist acked ?l (s1\<lparr>obs_last_emit := monotonic, obs_last_content := bytes\<rparr>)"
    using s1' by (simp add: running_def stream_emitted unusable_def)
  moreover have "num ''sequence'' m = q + 1" using n(3) by (simp add: num_at)
  ultimately show ?thesis using en(2) q(1) tb bounds by (fastforce simp: l_def)
qed

text \<open>
  C33. In a process that has opened the queue, a valid observation that is due is taken in whenever no
  write fails: the queue has a place for it (less than 64 entries, or one that was not sent), the
  temporary file is never in the way, and the ledger never reaches its limit of 700000 bytes. It is
  queued last, with the next sequence number.
\<close>

theorem observation_accepted:
  assumes "observing fc hist acked s" and "obs_open s" and "\<not> obs_poisoned s" and "\<not> obs_halted s" and "doc 20 c"
    and "check_base_content (obs_base s) c = Inr ()" and "encode_json c = Inr bytes" and "\<not> too_soon monotonic s bytes"
    and "room (entries (obs_ledger s)) = Inr (Some es)" and "num ''sequence'' (obs_ledger s) < maximum_integer"
    and "new_message (obs_base s) (obs_ledger s) c bytes wall = Inr m" and "check_message m = Inr k"
  shows "\<exists>s' e. fn_observe (\<lambda>_. Through) c wall monotonic s = (Inr True, s') \<and> entries (obs_ledger s') = es @ [e] \<and> message_of e = m \<and>
    \<not> sent e \<and> num ''sequence'' m = num ''sequence'' (obs_ledger s) + 1 \<and>
    encode_json (obs_ledger s') = Inr (the (map_of (obs_files s') ledger_file))"
  using observe_through [OF assms] by (fastforce simp: running_def entries_at stream_ok_def)

section \<open>A sample execution\<close>

definition sample_base :: Json where
  "sample_base = json_fields [(''messageType'', JString brake_type), (''unitSystemUid'', JString ''unit-7''), (''unitRole'', JString ''PRODUCTION''),
     (''serviceVersion'', JString ''1.2.3''), (''serviceProfile'', JString ''v3''),
     (''serviceInstance'', json_fields [(''serviceId'', JString ''brake''), (''subjectId'', JString ''s1''), (''instanceIndex'', JInt 0),
        (''instanceId'', JString ''i1'')])]"

definition sample_content :: Json where
  "sample_content = json_fields [(''connection'', JString ''STARTING''),
     (''input'', json_fields [(''state'', JString ''WAITING''), (''reason'', JString ''AWAITING_INPUT'')]),
     (''activity'', json_fields [(''state'', JString ''WAITING''), (''reason'', JString ''NOT_QUALIFIED''), (''episodeId'', JNull)]),
     (''delivery'', json_fields [(''state'', JString ''IDLE''), (''queuedMessages'', JInt 0), (''lastReceiptAt'', JNull)]),
     (''advisory'', json_fields [(''state'', JString ''WAITING''), (''requestId'', JNull)]), (''lastResult'', JNull)]"

definition sample_none :: ObservationStream where
  "sample_none = \<lparr>obs_files = [], obs_base = JNull, obs_ledger = JNull, obs_poisoned = False, obs_last_emit = 0, obs_last_content = [],
     obs_open = False, obs_halted = False, obs_ticks = 0\<rparr>"

definition sample_opened :: ObservationStream where
  "sample_opened = snd (start_observation (\<lambda>_. None) (\<lambda>_. Through) True sample_base sample_none)"

definition sample_binding :: Json where
  "sample_binding = (case allocation sample_base of Inr b \<Rightarrow> b | Inl _ \<Rightarrow> JNull)"

definition sample_message :: "string \<Rightarrow> Json" where
  "sample_message d = JObject ([(''content'', sample_content)] @ (''contentSha256'', JString d) #
     [(''contractVersion'', JString ''3.0.0''), (''generation'', JInt 1), (''messageType'', JString brake_type),
      (''observedAt'', JString ''2023-11-14T22:13:20.000Z''), (''schemaVersion'', JInt 3), (''sequence'', JInt 1),
      (''serviceInstance'', case json_at ''serviceInstance'' sample_base of Inr v \<Rightarrow> v | Inl _ \<Rightarrow> JNull), (''serviceProfile'', JString ''v3''),
      (''serviceVersion'', JString ''1.2.3''), (''unitRole'', JString ''PRODUCTION''), (''unitSystemUid'', JString ''unit-7'')])"

lemma sample_opened:
  "obs_open sample_opened" "\<not> obs_poisoned sample_opened" "\<not> obs_halted sample_opened" "obs_base sample_opened = sample_base"
  "obs_ledger sample_opened = ledger_json sample_binding 1 0 []" "obs_last_emit sample_opened = - 1"
  by code_simp+

lemma sample_observing: "observing (\<lambda>_. None) [] [] sample_opened"
proof -
  have "doc 21 sample_base" by code_simp
  then show ?thesis unfolding sample_opened_def
    by (intro observing.starts observing.empty) (simp_all add: sample_none_def)
qed

lemma sample_checks:
  "check_base_content sample_base sample_content = Inr ()" "doc 20 sample_content" "room [] = Inr (Some [])"
  by code_simp+

lemma sample_new_message:
  "new_message sample_base (ledger_json sample_binding 1 0 []) sample_content bytes 1700000000000 = Inr (sample_message (sha256_hex bytes))"
proof -
  define d where "d = sha256_hex bytes"
  have "bindE (put ''schemaVersion'' (JInt 3) sample_base) (\<lambda>m.
     bindE (put ''contractVersion'' (JString ''3.0.0'') m) (\<lambda>m.
     bindE (put ''generation'' (JInt 1) m) (\<lambda>m.
     bindE (put ''sequence'' (JInt 1) m) (\<lambda>m.
     bindE (utc_timestamp 1700000000000) (\<lambda>ts.
     bindE (put ''observedAt'' (JString ts) m) (\<lambda>m.
     bindE (put ''content'' sample_content m) (\<lambda>m. put ''contentSha256'' (JString d) m))))))) = Inr (sample_message d)"
    by code_simp
  then show ?thesis unfolding d_def by (simp add: new_message_def int_at_def json_integer_def)
qed

lemma sample_message_text:
  assumes "quote_json d = Inr q" and "length q \<le> 130"
  shows "\<exists>t. encode_json (sample_message d) = Inr t \<and> length t \<le> 8192"
proof -
  have app: "encode_fields (as @ bs) = bindE (encode_fields as) (\<lambda>us. bindE (encode_fields bs) (\<lambda>vs. Inr (us @ vs)))" for as bs
    by (induction as) (auto simp: bindE_assoc)
  let ?as = "[(''content'', sample_content)]" and ?bs = "case sample_message [] of JObject kvs \<Rightarrow> drop 2 kvs | _ \<Rightarrow> []"
  have "(case (encode_fields ?as, encode_fields ?bs) of (Inr us, Inr vs) \<Rightarrow> sum_list (map (\<lambda>u. length u + 1) (us @ vs)) \<le> 4000 | _ \<Rightarrow> False)"
    by code_simp
  then obtain us vs where e: "encode_fields ?as = Inr us" "encode_fields ?bs = Inr vs" "sum_list (map (\<lambda>u. length u + 1) (us @ vs)) \<le> 4000"
    by (auto split: sum.splits)
  have k: "quote_json ''contentSha256'' = Inr ''\"contentSha256\"''" by code_simp
  have "encode_fields (?as @ (''contentSha256'', JString d) # ?bs) = Inr (us @ (''\"contentSha256\":'' @ q) # vs)"
    using e(1,2) assms(1) k by (simp add: app del: append_Cons)
  from object_text [OF this] e(3) assms(2) obtain t where "encode_json (JObject (?as @ (''contentSha256'', JString d) # ?bs)) = Inr t" "length t \<le> 8192" by auto
  moreover have "sample_message d = JObject (?as @ (''contentSha256'', JString d) # ?bs)" by (simp add: sample_message_def)
  ultimately show ?thesis by metis
qed

lemma sample_check_message:
  assumes "encode_json sample_content = Inr bytes"
  shows "\<exists>k. check_message (sample_message (sha256_hex bytes)) = Inr k"
proof -
  define d where "d = sha256_hex bytes"
  let ?m = "sample_message d"
  have c: "json_at ''content'' ?m = Inr sample_content" "str_at ''contentSha256'' ?m = Inr d" by code_simp+
  obtain t where t: "encode_json ?m = Inr t" "length t \<le> 8192" using sample_message_text sha_text d_def by blast
  have digest: "failIf [bindE (encode_json ?m) (\<lambda>t. Inr (length t > 8192)),
        bindE (str_at ''contentSha256'' ?m) (\<lambda>d. bindE (bindE (json_at ''content'' ?m) encode_json) (\<lambda>t. Inr (d \<noteq> sha256_hex t)))] unavailable = Inr ()"
    using t assms c by (simp add: failIf_Inr anyE_False d_def)
  have "okE (bindE (mapE (\<lambda>k. json_at k ?m) [''unitSystemUid'', ''messageType'', ''serviceInstance'', ''generation'', ''sequence'']) (\<lambda>vs. encode_json (JArray vs)))"
    by code_simp
  then obtain k where id: "identity_digest ?m = Inr k" by (auto simp: okE_iff bindE_eq_Inr identity_digest_def)
  have "check_fields ?m = Inr ()"
    by code_simp
  then show ?thesis using digest id unfolding check_message_def d_def by (auto simp: bindE_eq_Inr)
qed

theorem observation_accepted_witness:
  "\<exists>s' e bytes. fn_observe (\<lambda>_. Through) sample_content 1700000000000 50 sample_opened = (Inr True, s') \<and> entries (obs_ledger s') = [e] \<and>
    message_of e = sample_message (sha256_hex bytes)"
proof -
  have "okE (encode_json sample_content)" by code_simp
  then obtain bytes where c: "encode_json sample_content = Inr bytes" by (auto simp: okE_iff)
  obtain k where k: "check_message (sample_message (sha256_hex bytes)) = Inr k" using sample_check_message [OF c] by blast
  from observation_accepted [OF sample_observing, of sample_content bytes 50 "[]" 1700000000000 "sample_message (sha256_hex bytes)" k]
  show ?thesis
    using k c by (auto simp: sample_opened sample_checks sample_new_message too_soon_def entries_at num_at maximum_integer_def)
qed

text \<open>The first entry is handed out, when no write fails.\<close>

lemma next_through:
  assumes r: "running fc hist acked (ledger_json b g q (e # es)) s" and b: "encode_json b = Inr tb" "length tb \<le> 30000"
    and "g \<le> maximum_integer" "0 \<le> q" "q \<le> maximum_integer"
  shows "\<exists>t s'. fn_next (\<lambda>_. Through) s = (Inr (Some t), s') \<and> encode_json (message_of e) = Inr t"
proof -
  note f = running_facts [OF r]
  let ?l = "ledger_json b g q (e # es)"
  have good: "ledger_good ?l" using f(2) by (simp add: history_def)
  have en: "entries ?l = e # es" by (simp add: entries_at)
  have p: "pending_entries ?l = Inr (e # es)" using f(4) by (simp add: en)
  obtain a x m t where e: "e = entry_json a (sha256_hex x) m" "encode_json m = Inr t"
    using good en by (auto simp: ledger_good_def entry_good_def)
  have "0 \<le> g" using good by (simp add: ledger_good_def slot_def num_at)
  show ?thesis
  proof (cases a)
    case True
    then show ?thesis using r f(5) p e by (simp add: fn_next_def check_poisoned_def running_def unusable_def bool_at_def json_boolean_def)
  next
    case False
    let ?l' = "ledger_json b g q (entry_json True (sha256_hex x) m # es)"
    have al: "attempted_ledger ?l (e # es) = Inr ?l'" by (simp add: attempted_ledger_def e(1))
    have h: "ledger_good ?l'" using history_attempted(1) [OF _ en f(2)] al en by (simp add: history_def)
    then have "list_all (entry_good (slot ?l')) (entry_json True (sha256_hex x) m # es)" "length (entry_json True (sha256_hex x) m # es) \<le> 64"
      by (simp_all add: ledger_good_def entries_at)
    from ledger_text [OF b this \<open>0 \<le> g\<close> assms(4-6)] obtain tl where "encode_json ?l' = Inr tl" "length tl \<le> 700000" by blast
    from commit_through [OF this, of s] r obtain s' where "commit_ledger (\<lambda>_. Through) ?l' s = (Inr (), s')"
      by (auto simp: running_def unusable_def stream_ok_def)
    then show ?thesis using r f(5) p e False al
      by (simp add: fn_next_def check_poisoned_def running_def unusable_def bool_at_def json_boolean_def bindS_def)
  qed
qed

lemma sample_handed: "\<exists>b s. observing (\<lambda>_. None) [b] [] s"
proof -
  have "okE (encode_json sample_content)" by code_simp
  then obtain bytes where c: "encode_json sample_content = Inr bytes" by (auto simp: okE_iff)
  let ?m = "sample_message (sha256_hex bytes)"
  obtain k where k: "check_message ?m = Inr k" using sample_check_message [OF c] by blast
  from observe_through [OF sample_observing, of sample_content bytes 50 "[]" 1700000000000 ?m k]
  obtain s1 e b g tb where s1: "fn_observe (\<lambda>_. Through) sample_content 1700000000000 50 sample_opened = (Inr True, s1)"
      "running (\<lambda>_. None) [] [] (ledger_json b g (num ''sequence'' ?m) [e]) s1"
      "encode_json b = Inr tb" "length tb \<le> 30000" "g \<le> maximum_integer" "0 \<le> num ''sequence'' ?m" "num ''sequence'' ?m \<le> maximum_integer"
    using k c by (auto simp: sample_opened sample_checks sample_new_message too_soon_def entries_at num_at maximum_integer_def)
  from observing.observes [OF sample_observing _ _ sample_checks(2), of "\<lambda>_. Through" 1700000000000 50] s1(1)
  have o: "observing (\<lambda>_. None) [] [] s1" by (simp add: sample_opened)
  from next_through [OF s1(2-7)] obtain t s2 where "fn_next (\<lambda>_. Through) s1 = (Inr (Some t), s2)" by blast
  from observing.hands [OF o _ _ this] s1(2) show ?thesis by (auto simp: running_def unusable_def handed_def)
qed

text \<open>
  C31. An observation that was handed to the transport is never lost and never changed: whatever fails,
  however often the process ends and starts again, its exact bytes stay at the front of the queue on
  the disk, as sent, until the backend has acknowledged exactly them; no other entry of the queue is
  marked as sent. The queue never holds more than 64 observations.
\<close>

theorem observation_kept:
  assumes "observing fc hist acked s" and "b \<in> set hist" and "b \<notin> set acked"
  shows "\<exists>t l e es. map_of (obs_files s) ledger_file = Some t \<and> parse_json fc t 700000 = Inr l \<and> length (entries l) \<le> 64 \<and>
    entries l = e # es \<and> sent e \<and> encode_json (message_of e) = Inr b \<and> list_all (\<lambda>e'. \<not> sent e') es"
proof -
  from observing_ok [OF assms(1)] have d: "disk_ok fc hist acked (map_of (obs_files s) ledger_file)" by (simp add: stream_ok_def)
  with assms(2) obtain t l where t: "map_of (obs_files s) ledger_file = Some t" "length t \<le> 700000" "encode_json l = Inr t" "history fc hist acked l"
    by (auto simp: disk_ok_def split: option.splits)
  from t(4) have l: "ledger_good l" "accounted fc hist acked l b" using assms(2) by (simp_all add: history_def list_all_iff)
  then obtain e where e: "e \<in> set (entries l)" "message_of e = read_message fc b" "sent e" "encode_json (read_message fc b) = Inr b"
    using assms(3) by (auto simp: accounted_def)
  from sent_front [OF l(1) e(1,3)] have "entries l = e # tl (entries l)" by simp
  moreover have "length (entries l) \<le> 64" "list_all (\<lambda>e'. \<not> sent e') (tl (entries l))" using l(1) by (simp_all add: ledger_good_def)
  moreover have "parse_json fc t 700000 = Inr l" using parse_doc [OF t(3)] t(2) l(1) by (simp add: ledger_good_def)
  ultimately show ?thesis using t(1) e by metis
qed

theorem observation_kept_witness:
  "\<exists>b s t l e es. observing (\<lambda>_. None) [b] [] s \<and> map_of (obs_files s) ledger_file = Some t \<and> parse_json (\<lambda>_. None) t 700000 = Inr l \<and>
    entries l = e # es \<and> sent e \<and> encode_json (message_of e) = Inr b"
proof -
  obtain b s where o: "observing (\<lambda>_. None) [b] [] s" using sample_handed by blast
  obtain t l e es where "map_of (obs_files s) ledger_file = Some t" "parse_json (\<lambda>_. None) t 700000 = Inr l" "entries l = e # es" "sent e"
      "encode_json (message_of e) = Inr b"
    using observation_kept [OF o, of b] by auto
  with o show ?thesis by blast
qed

text \<open>
  C32. The generation and the sequence number of an observation are given once: two observations handed
  to the transport with the same numbers, in the same or in different processes, are the same bytes.
  Reading the bytes gives the message they were written from.
\<close>

theorem observation_numbered_once:
  assumes "observing fc hist acked s"
  shows "inj_on (\<lambda>b. slot (read_message fc b)) (set hist) \<and> (\<forall>b \<in> set hist. encode_json (read_message fc b) = Inr b)"
proof (cases "hist = []")
  case False
  from observing_ok [OF assms] have "disk_ok fc hist acked (map_of (obs_files s) ledger_file)" by (simp add: stream_ok_def)
  with False obtain l where "history fc hist acked l" by (auto simp: disk_ok_def split: option.splits)
  then have "\<forall>b \<in> set hist. accounted fc hist acked l b" by (simp add: history_def list_all_iff)
  then show ?thesis unfolding accounted_def inj_on_def by metis
qed simp

theorem observation_numbered_once_witness:
  "\<exists>b s. observing (\<lambda>_. None) [b] [] s \<and> encode_json (read_message (\<lambda>_. None) b) = Inr b"
proof -
  obtain b s where o: "observing (\<lambda>_. None) [b] [] s" using sample_handed by blast
  with observation_numbered_once [OF o] show ?thesis by auto
qed

end
