(* ===== verification/Facts.thy ===== *)
theory Facts
  imports Observation
begin

text \<open>
  The facts the product collects for its observations: the class \<open>FunctionFacts\<close> of
  \<^verbatim>\<open>include/aosedge/function_observation.hpp\<close>. Every setter keeps the document within the check that
  \<open>FunctionObservation::observe\<close> applies to it.
\<close>

section \<open>The document\<close>

record FunctionFacts =
  facts_value :: Json
  supports :: bool

type_synonym facts_op = "FunctionFacts \<Rightarrow> unit result \<times> FunctionFacts"

text \<open>An optional string, null when absent.\<close>

definition opt_text :: "string option \<Rightarrow> Json" where
  "opt_text v = (case v of None \<Rightarrow> JNull | Some s \<Rightarrow> JString s)"

definition FunctionFacts_new :: "bool \<Rightarrow> FunctionFacts" where
  "FunctionFacts_new advisory =
     \<lparr>facts_value = json_fields
        [(''connection'', JString ''STARTING''),
         (''input'', json_fields [(''state'', JString ''WAITING''), (''reason'', JString ''AWAITING_INPUT'')]),
         (''activity'', json_fields [(''state'', JString ''WAITING''), (''reason'', JString ''NOT_QUALIFIED''), (''episodeId'', JNull)]),
         (''delivery'', json_fields [(''state'', JString ''IDLE''), (''queuedMessages'', JInt 0), (''lastReceiptAt'', JNull)]),
         (''advisory'', json_fields [(''state'', JString (if advisory then ''WAITING'' else ''NOT_SUPPORTED'')), (''requestId'', JNull)]),
         (''lastResult'', JNull)],
      supports = advisory\<rparr>"

definition set_facts :: "(Json \<Rightarrow> Json result) \<Rightarrow> facts_op" where
  "set_facts f s = (case f (facts_value s) of Inl e \<Rightarrow> (Inl e, s) | Inr v \<Rightarrow> (Inr (), s\<lparr>facts_value := v\<rparr>))"

definition facts_input :: "string \<Rightarrow> string \<Rightarrow> string \<Rightarrow> facts_op" where
  "facts_input connection state reason = set_facts (\<lambda>v.
     bindE (put ''connection'' (JString connection) v) (\<lambda>v.
       put ''input'' (json_fields [(''state'', JString state), (''reason'', JString reason)]) v))"

definition facts_activity :: "string \<Rightarrow> string \<Rightarrow> string option \<Rightarrow> facts_op" where
  "facts_activity state reason ident = set_facts (\<lambda>v.
     put ''activity'' (json_fields [(''state'', JString state), (''reason'', JString reason), (''episodeId'', opt_text ident)]) v)"

definition episode_of :: "Json \<Rightarrow> string option result" where
  "episode_of v = (if v = JNull then Inr None else bindE (json_str v) (\<lambda>s. Inr (Some s)))"

definition facts_interruption :: "string \<Rightarrow> facts_op" where
  "facts_interruption reason =
     bindS (readS (\<lambda>s. json_at ''activity'' (facts_value s))) (\<lambda>act.
     bindS (liftS (str_at ''state'' act)) (\<lambda>phase.
       if phase = ''ACTIVE'' \<or> phase = ''POST'' \<or> phase = ''PRE'' then
         bindS (liftS (bindE (json_at ''episodeId'' act) episode_of)) (\<lambda>ident.
           facts_activity ''SKIPPED'' reason ident)
       else returnS ()))"

definition facts_advisory :: "string \<Rightarrow> string option \<Rightarrow> facts_op" where
  "facts_advisory state request s =
     (if \<not> supports s then (Inr (), s)
      else set_facts (\<lambda>v. put ''advisory'' (json_fields [(''state'', JString state), (''requestId'', opt_text request)]) v) s)"

definition facts_result :: "string \<Rightarrow> string \<Rightarrow> string \<Rightarrow> string \<Rightarrow> facts_op" where
  "facts_result kind ident source version = set_facts (\<lambda>v.
     put ''lastResult'' (json_fields [(''kind'', JString kind), (''id'', JString ident), (''sourceTime'', JString source),
       (''serviceVersion'', JString version)]) v)"

text \<open>The state of the delivery after an answer, and the receipt time it carries.\<close>

definition delivery_state :: "bool \<Rightarrow> int \<Rightarrow> string" where
  "delivery_state accepted http =
     (if accepted then ''PENDING''
      else if http = 0 \<or> http = 408 \<or> http = 429 \<or> http \<ge> 500 then ''RETRYING'' else ''BLOCKED'')"

definition receipt_time :: "(string \<Rightarrow> dbl option) \<Rightarrow> string \<Rightarrow> Json result" where
  "receipt_time fc receipt =
     bindE (parse_json fc receipt 8192) (\<lambda>a.
     bindE (bindE (json_at ''receivedAt'' a) check_instant) (\<lambda>_. json_at ''receivedAt'' a))"

definition facts_delivery :: "(string \<Rightarrow> dbl option) \<Rightarrow> bool \<Rightarrow> int \<Rightarrow> string \<Rightarrow> facts_op" where
  "facts_delivery fc accepted http receipt = set_facts (\<lambda>v.
     bindE (json_at ''delivery'' v) (\<lambda>d.
     bindE (put ''state'' (JString (delivery_state accepted http)) d) (\<lambda>d.
     bindE (if \<not> accepted then Inr d
            else (case receipt_time fc receipt of Inl e \<Rightarrow> Inr d | Inr r \<Rightarrow> put ''lastReceiptAt'' r d)) (\<lambda>d.
       put ''delivery'' d v))))"

definition facts_snapshot :: "nat \<Rightarrow> bool \<Rightarrow> FunctionFacts \<Rightarrow> Json result" where
  "facts_snapshot queued blocked s =
     bindE (json_at ''delivery'' (facts_value s)) (\<lambda>d.
     bindE (put ''queuedMessages'' (JInt (int queued)) d) (\<lambda>d.
     bindE (if blocked then put ''state'' (JString ''BLOCKED'') d
            else if queued = 0 then put ''state'' (JString ''IDLE'') d
            else bindE (str_at ''state'' d) (\<lambda>st. if st = ''IDLE'' then put ''state'' (JString ''PENDING'') d else Inr d)) (\<lambda>d.
       put ''delivery'' d (facts_value s))))"

section \<open>Every setter stays within the check\<close>

text \<open>The document with its members in the order of the keys.\<close>

definition document :: "Json \<Rightarrow> Json \<Rightarrow> string \<Rightarrow> Json \<Rightarrow> Json \<Rightarrow> Json \<Rightarrow> Json" where
  "document act adv conn dlv inp res = JObject [(''activity'', act), (''advisory'', adv), (''connection'', JString conn),
     (''delivery'', dlv), (''input'', inp), (''lastResult'', res)]"

definition delivery_doc :: "Json \<Rightarrow> Json \<Rightarrow> string \<Rightarrow> Json" where
  "delivery_doc receipt queued st = JObject [(''lastReceiptAt'', receipt), (''queuedMessages'', queued), (''state'', JString st)]"

definition activity_doc :: "Json \<Rightarrow> string \<Rightarrow> string \<Rightarrow> Json" where
  "activity_doc ident reason st = JObject [(''episodeId'', ident), (''reason'', JString reason), (''state'', JString st)]"

definition connections :: "string list" where
  "connections = [''STARTING'', ''CONNECTED'', ''REAUTHENTICATING'', ''DISCONNECTED'', ''ACCESS_DENIED'']"

definition delivery_states :: "string list" where
  "delivery_states = [''IDLE'', ''PENDING'', ''RETRYING'', ''BLOCKED'']"

text \<open>The facts are a document whose members pass the checks of \<open>content\<close>.\<close>

definition facts_ok :: "string \<Rightarrow> FunctionFacts \<Rightarrow> bool" where
  "facts_ok profile f \<longleftrightarrow> (supports f \<longleftrightarrow> profile = ''v3'') \<and>
     (\<exists>ident reason st adv conn receipt queued dst inp res.
        facts_value f = document (activity_doc ident reason st) adv conn (delivery_doc receipt (JInt queued) dst) inp res \<and>
        check_activity (activity_doc ident reason st) = Inr () \<and> check_advisory profile True adv = Inr () \<and> conn \<in> set connections \<and>
        check_input inp = Inr () \<and> check_optional check_result res = Inr () \<and> check_optional check_instant receipt = Inr () \<and>
        dst \<in> set delivery_states)"

lemmas json_order = less_list_code less_char_def
lemmas document_defs = document_def delivery_doc_def activity_doc_def

lemma document_at [simp]:
  "json_at ''activity'' (document act adv conn dlv inp res) = Inr act"
  "json_at ''delivery'' (document act adv conn dlv inp res) = Inr dlv"
  by (simp_all add: document_def json_at_def json_object_def)

lemma document_put [simp]:
  "put ''activity'' x (document act adv conn dlv inp res) = Inr (document x adv conn dlv inp res)"
  "put ''advisory'' x (document act adv conn dlv inp res) = Inr (document act x conn dlv inp res)"
  "put ''connection'' (JString c) (document act adv conn dlv inp res) = Inr (document act adv c dlv inp res)"
  "put ''delivery'' x (document act adv conn dlv inp res) = Inr (document act adv conn x inp res)"
  "put ''input'' x (document act adv conn dlv inp res) = Inr (document act adv conn dlv x res)"
  "put ''lastResult'' x (document act adv conn dlv inp res) = Inr (document act adv conn dlv inp x)"
  by (simp_all add: document_def put_def json_object_def json_order)

lemma delivery_doc_put [simp]:
  "put ''state'' (JString x) (delivery_doc receipt queued st) = Inr (delivery_doc receipt queued x)"
  "put ''queuedMessages'' q (delivery_doc receipt queued st) = Inr (delivery_doc receipt q st)"
  "put ''lastReceiptAt'' r (delivery_doc receipt queued st) = Inr (delivery_doc r queued st)"
  "str_at ''state'' (delivery_doc receipt queued st) = Inr st"
  by (simp_all add: delivery_doc_def put_def json_object_def json_order str_at_def json_at_def json_str_def)

lemma activity_doc_fields: "json_fields [(''state'', JString st), (''reason'', JString reason), (''episodeId'', ident)] = activity_doc ident reason st"
  by (simp add: json_fields_def activity_doc_def json_order)

lemma delivery_doc_fields: "json_fields [(''state'', JString st), (''queuedMessages'', q), (''lastReceiptAt'', r)] = delivery_doc r q st"
  by (simp add: json_fields_def delivery_doc_def json_order)

lemma document_fields:
  "json_fields [(''connection'', JString conn), (''input'', inp), (''activity'', act), (''delivery'', dlv), (''advisory'', adv), (''lastResult'', res)] =
     document act adv conn dlv inp res"
  by (simp add: json_fields_def document_def json_order)

lemmas fields_doc = activity_doc_fields delivery_doc_fields document_fields

text \<open>The checks of the members.\<close>

lemmas check_evals = keys_def size_not_def json_at_def json_object_def pick_def json_str_def str_at_def throwIf_def failIf_def anyE.simps

lemma check_delivery_doc:
  assumes "check_optional check_instant receipt = Inr ()" and "st \<in> set delivery_states" and "0 \<le> q" and "q \<le> maximum_integer"
  shows "check_delivery (delivery_doc receipt (JInt q) st) = Inr ()"
  using assms by (auto simp: check_delivery_def delivery_doc_def check_evals delivery_states_def check_integer_def json_integer_def)

lemma check_activity_doc:
  assumes "st \<in> {''WAITING'', ''PRE'', ''ACTIVE'', ''POST'', ''COMPLETED'', ''SKIPPED''}"
    and "reason \<in> {''NONE'', ''NOT_QUALIFIED'', ''INSUFFICIENT_SAMPLES'', ''INVALID_INPUT'',
              ''SOURCE_DISCONTINUITY'', ''REAUTHENTICATING'', ''RESET'', ''STORAGE_UNAVAILABLE''}"
    and "st = ''SKIPPED'' \<longrightarrow> reason \<noteq> ''NONE''" and "check_optional check_id ident = Inr ()"
  shows "check_activity (activity_doc ident reason st) = Inr ()"
  using assms(1,2,3)
  by (auto simp: check_activity_def activity_doc_def check_evals assms(4))

lemma check_activity_docD:
  assumes "check_activity (activity_doc ident reason st) = Inr ()"
  shows "check_optional check_id ident = Inr ()"
  using assms by (auto simp: check_activity_def bindE_eq_Inr activity_doc_def check_evals)

lemma check_document:
  assumes "check_activity act = Inr ()" "check_advisory profile True adv = Inr ()" "conn \<in> set connections" "check_delivery dlv = Inr ()"
    "check_input inp = Inr ()" "check_optional check_result res = Inr ()"
  shows "check_content (document act adv conn dlv inp res) profile True = Inr ()"
proof -
  have "pick (JString conn) connections = Inr ()" using assms(3) by (simp add: pick_def json_str_def throwIf_def)
  then show ?thesis
    using assms by (simp add: check_content_def document_def keys_def size_not_def json_at_def json_object_def failIf_def anyE.simps throwIf_def
        flip: connections_def)
qed

text \<open>The document is read and written without an exception.\<close>

lemma set_facts_doc: "f (facts_value s) = Inr v \<Longrightarrow> set_facts f s = (Inr (), s\<lparr>facts_value := v\<rparr>)"
  by (simp add: set_facts_def)

lemma facts_okE:
  assumes "facts_ok profile f"
  obtains ident reason st adv conn receipt queued dst inp res where
    "facts_value f = document (activity_doc ident reason st) adv conn (delivery_doc receipt (JInt queued) dst) inp res"
    "check_activity (activity_doc ident reason st) = Inr ()" "check_advisory profile True adv = Inr ()" "conn \<in> set connections"
    "check_input inp = Inr ()" "check_optional check_result res = Inr ()" "check_optional check_instant receipt = Inr ()"
    "dst \<in> set delivery_states" "supports f \<longleftrightarrow> profile = ''v3''"
  using assms unfolding facts_ok_def by blast

lemma facts_okI:
  assumes "facts_value f = document (activity_doc ident reason st) adv conn (delivery_doc receipt (JInt queued) dst) inp res"
    "check_activity (activity_doc ident reason st) = Inr ()" "check_advisory profile True adv = Inr ()" "conn \<in> set connections"
    "check_input inp = Inr ()" "check_optional check_result res = Inr ()" "check_optional check_instant receipt = Inr ()"
    "dst \<in> set delivery_states" "supports f \<longleftrightarrow> profile = ''v3''"
  shows "facts_ok profile f"
  using assms unfolding facts_ok_def by blast

text \<open>\<open>facts_op_ok\<close>: from facts within the check the setter returns and leaves facts within the check.\<close>

definition facts_op_ok :: "string \<Rightarrow> facts_op \<Rightarrow> bool" where
  "facts_op_ok profile m \<longleftrightarrow> (\<forall>s. facts_ok profile s \<longrightarrow> fst (m s) = Inr () \<and> facts_ok profile (snd (m s)))"

lemma facts_op_okD: "facts_op_ok profile m \<Longrightarrow> facts_ok profile s \<Longrightarrow> m s = (r, s') \<Longrightarrow> r = Inr () \<and> facts_ok profile s'"
  by (metis facts_op_ok_def fst_conv snd_conv)

definition activity_allowed :: "string \<Rightarrow> string \<Rightarrow> string option \<Rightarrow> bool" where
  "activity_allowed st reason ident \<longleftrightarrow>
     st \<in> {''WAITING'', ''PRE'', ''ACTIVE'', ''POST'', ''COMPLETED'', ''SKIPPED''} \<and>
     reason \<in> {''NONE'', ''NOT_QUALIFIED'', ''INSUFFICIENT_SAMPLES'', ''INVALID_INPUT'',
              ''SOURCE_DISCONTINUITY'', ''REAUTHENTICATING'', ''RESET'', ''STORAGE_UNAVAILABLE''} \<and>
     (st = ''SKIPPED'' \<longrightarrow> reason \<noteq> ''NONE'') \<and> (case ident of None \<Rightarrow> True | Some s \<Rightarrow> id_text s)"

lemma check_opt_text: "check_optional check_id (opt_text ident) = Inr () \<longleftrightarrow> (case ident of None \<Rightarrow> True | Some s \<Rightarrow> id_text s)"
  by (auto simp: check_optional_def opt_text_def check_id_def json_str_def throwIf_def split: option.splits)

lemma facts_new_ok: "(advisory \<longleftrightarrow> profile = ''v3'') \<Longrightarrow> facts_ok profile (FunctionFacts_new advisory)"
  unfolding FunctionFacts_new_def fields_doc
  by (rule facts_okI) (auto simp: connections_def delivery_states_def check_optional_def check_input_def check_advisory_def
      json_fields_def json_order check_evals intro!: check_activity_doc)

lemma facts_activity_ok:
  assumes "activity_allowed st reason ident"
  shows "facts_op_ok profile (facts_activity st reason ident)"
proof -
  have "check_activity (activity_doc (opt_text ident) reason st) = Inr ()"
    using assms by (intro check_activity_doc) (simp_all add: activity_allowed_def check_opt_text)
  then show ?thesis
    unfolding facts_op_ok_def facts_activity_def fields_doc by (auto simp: set_facts_def elim!: facts_okE intro: facts_okI)
qed

lemma facts_input_ok:
  assumes "conn \<in> set connections" and "check_input (json_fields [(''state'', JString st), (''reason'', JString reason)]) = Inr ()"
  shows "facts_op_ok profile (facts_input conn st reason)"
  using assms unfolding facts_op_ok_def facts_input_def
  by (auto simp: set_facts_def elim!: facts_okE intro!: facts_okI)

lemma facts_result_ok:
  assumes "kind \<in> {''WINDOW'', ''ASSESSMENT''}" and "id_text ident" and "instant_text source" and "check_version (JString version) = Inr ()"
  shows "facts_op_ok profile (facts_result kind ident source version)"
proof -
  have "check_result (json_fields [(''kind'', JString kind), (''id'', JString ident), (''sourceTime'', JString source),
      (''serviceVersion'', JString version)]) = Inr ()"
    using assms by (auto simp: check_result_def json_fields_def json_order check_evals check_id_def check_instant_def)
  then show ?thesis
    unfolding facts_op_ok_def facts_result_def
    by (auto simp: set_facts_def check_optional_def elim!: facts_okE intro!: facts_okI)
qed

lemma facts_advisory_ok:
  assumes "st \<in> {''WAITING'', ''CONFIRMED'', ''UNAVAILABLE'', ''REAUTHENTICATING''}" and "st = ''CONFIRMED'' \<longrightarrow> request \<noteq> None"
    and "case request of None \<Rightarrow> True | Some s \<Rightarrow> id_text s"
  shows "facts_op_ok profile (facts_advisory st request)"
proof -
  have "check_optional check_id (opt_text request) = Inr ()" using assms(3) by (simp add: check_opt_text)
  moreover have "opt_text request = JNull \<longleftrightarrow> request = None" by (simp add: opt_text_def split: option.splits)
  ultimately have "check_advisory ''v3'' True (json_fields [(''state'', JString st), (''requestId'', opt_text request)]) = Inr ()"
    using assms(1,2) by (auto simp: check_advisory_def json_fields_def json_order check_evals)
  then show ?thesis
    unfolding facts_op_ok_def facts_advisory_def
    by (auto simp: set_facts_def elim!: facts_okE intro: facts_okI)
qed

lemma episode_of_text: "check_optional check_id ident = Inr () \<Longrightarrow> \<exists>e. episode_of ident = Inr e \<and> (case e of None \<Rightarrow> True | Some t \<Rightarrow> id_text t)"
  by (cases ident) (auto simp: check_optional_def episode_of_def check_id_def json_str_def throwIf_def split: if_splits)

lemma activity_doc_at:
  "str_at ''state'' (activity_doc ident reason st) = Inr st" "json_at ''episodeId'' (activity_doc ident reason st) = Inr ident"
  by (simp_all add: activity_doc_def str_at_def json_at_def json_object_def json_str_def)

lemma facts_interruption_ok:
  assumes "reason \<in> {''SOURCE_DISCONTINUITY'', ''REAUTHENTICATING''}"
  shows "facts_op_ok profile (facts_interruption reason)"
  unfolding facts_op_ok_def
proof (intro allI impI)
  fix s
  assume ok: "facts_ok profile s"
  then obtain ident old st adv conn dlv inp res where
    v: "facts_value s = document (activity_doc ident old st) adv conn dlv inp res" and
    a: "check_activity (activity_doc ident old st) = Inr ()"
    by (elim facts_okE) blast
  obtain e where e: "episode_of ident = Inr e" "case e of None \<Rightarrow> True | Some t \<Rightarrow> id_text t"
    using episode_of_text [OF check_activity_docD [OF a]] by blast
  have "facts_op_ok profile (facts_activity ''SKIPPED'' reason e)"
    using assms e(2) by (intro facts_activity_ok) (auto simp: activity_allowed_def)
  with ok have "fst (facts_activity ''SKIPPED'' reason e s) = Inr () \<and> facts_ok profile (snd (facts_activity ''SKIPPED'' reason e s))"
    by (simp add: facts_op_ok_def)
  with ok show "fst (facts_interruption reason s) = Inr () \<and> facts_ok profile (snd (facts_interruption reason s))"
    by (simp add: facts_interruption_def v activity_doc_at e(1))
qed

lemma receipt_time_ok: "receipt_time fc receipt = Inr r \<Longrightarrow> check_optional check_instant r = Inr ()"
  by (auto simp: receipt_time_def bindE_eq_Inr check_optional_def)

lemma facts_delivery_ok: "facts_op_ok profile (facts_delivery fc accepted http receipt)"
  unfolding facts_op_ok_def
proof (intro allI impI)
  fix s
  assume "facts_ok profile s"
  then show "fst (facts_delivery fc accepted http receipt s) = Inr () \<and> facts_ok profile (snd (facts_delivery fc accepted http receipt s))"
  proof (rule facts_okE)
    fix ident reason st adv conn old queued dst inp res
    assume v: "facts_value s = document (activity_doc ident reason st) adv conn (delivery_doc old (JInt queued) dst) inp res"
      and rest: "check_activity (activity_doc ident reason st) = Inr ()" "check_advisory profile True adv = Inr ()" "conn \<in> set connections"
        "check_input inp = Inr ()" "check_optional check_result res = Inr ()"
      and old: "check_optional check_instant old = Inr ()" and s: "supports s \<longleftrightarrow> profile = ''v3''"
    define receipt' where "receipt' = (if accepted then case receipt_time fc receipt of Inl e \<Rightarrow> old | Inr r \<Rightarrow> r else old)"
    have "check_optional check_instant receipt' = Inr ()"
      using old receipt_time_ok [of fc receipt] by (simp add: receipt'_def split: sum.splits)
    moreover have "delivery_state accepted http \<in> set delivery_states" by (simp add: delivery_state_def delivery_states_def)
    moreover have "facts_delivery fc accepted http receipt s =
        (Inr (), s\<lparr>facts_value := document (activity_doc ident reason st) adv conn
           (delivery_doc receipt' (JInt queued) (delivery_state accepted http)) inp res\<rparr>)"
      by (simp add: facts_delivery_def set_facts_def v receipt'_def split: sum.splits)
    ultimately show ?thesis using rest s by (auto intro: facts_okI)
  qed
qed

text \<open>A snapshot of facts within the check passes it.\<close>

lemma snapshot_checked:
  assumes "facts_ok profile f" and "int queued \<le> maximum_integer"
  shows "\<exists>c. facts_snapshot queued blocked f = Inr c \<and> check_content c profile True = Inr ()"
  using assms(1)
proof (rule facts_okE)
  fix ident reason st adv conn receipt q dst inp res
  assume v: "facts_value f = document (activity_doc ident reason st) adv conn (delivery_doc receipt (JInt q) dst) inp res"
    and ok: "check_activity (activity_doc ident reason st) = Inr ()" "check_advisory profile True adv = Inr ()" "conn \<in> set connections"
      "check_input inp = Inr ()" "check_optional check_result res = Inr ()"
    and d: "check_optional check_instant receipt = Inr ()" "dst \<in> set delivery_states"
  define st' where "st' = (if blocked then ''BLOCKED'' else if queued = 0 then ''IDLE'' else if dst = ''IDLE'' then ''PENDING'' else dst)"
  have st': "st' \<in> set delivery_states" using d(2) by (auto simp: st'_def delivery_states_def)
  have "facts_snapshot queued blocked f =
      Inr (document (activity_doc ident reason st) adv conn (delivery_doc receipt (JInt (int queued)) st') inp res)"
    by (simp add: facts_snapshot_def v st'_def)
  moreover have "check_delivery (delivery_doc receipt (JInt (int queued)) st') = Inr ()"
    using check_delivery_doc [OF d(1) st' _ assms(2)] by simp
  ultimately show ?thesis using check_document [OF ok(1,2,3) _ ok(4,5)] by blast
qed

end
