(* ===== verification/Product.thy ===== *)
theory Product
  imports Facts Derived
begin

text \<open>
  The product runtime (\<^verbatim>\<open>runtime/product.cpp\<close>): the event runtime, the model capture, the state store and
  the advisory runtime behind one mutex, with the facts for the observations. The pointers \<open>model_\<close> and
  \<open>advisory_\<close> are null exactly in the profiles without the component; the records \<open>pr_model\<close> and
  \<open>pr_advisory\<close> are always there, since their directories outlive a process of any profile.
\<close>

section \<open>State\<close>

datatype FunctionalProfile = ProfileV1 | ProfileV2 | ProfileV3

definition functional_profile :: "string \<Rightarrow> FunctionalProfile result" where
  "functional_profile value =
     (if value = ''v1'' then Inr ProfileV1 else if value = ''v2'' then Inr ProfileV2 else if value = ''v3'' then Inr ProfileV3
      else Inl (Invalid_argument ''FUNCTIONAL_PROFILE_INVALID''))"

definition profile_text :: "FunctionalProfile \<Rightarrow> string" where
  "profile_text profile = (case profile of ProfileV1 \<Rightarrow> ''v1'' | ProfileV2 \<Rightarrow> ''v2'' | ProfileV3 \<Rightarrow> ''v3'')"

record ProductObservation =
  po_valid :: bool
  po_event_started :: bool
  po_event_completed :: bool
  po_analysis :: "ProcessResult option"

datatype DeliveryKind = KindWindow | KindDerived | KindAdvisory

record ProductDelivery =
  pd_kind :: DeliveryKind
  pd_window :: PendingMessage
  pd_derived :: OutboxEntry
  pd_advisory :: AdvisoryDelivery

record Product =
  pr_metadata :: MessageMetadata
  pr_profile :: FunctionalProfile
  pr_legacy :: Runtime
  pr_capture :: ModelCapture
  pr_model :: StateStore
  pr_advisory :: AdvisoryRuntime
  pr_previous_epoch :: int
  pr_telemetry_at :: int
  pr_input_mono :: int
  pr_ready :: bool
  pr_cursor :: "32 word"
  pr_function :: FunctionFacts

type_synonym 'a product_op = "(Product, 'a) op"

text \<open>Besides the environment of the event runtime: the interruptions of the two other stores.\<close>

record Surroundings = Environment +
  env_store :: interruptions
  env_advisory :: interruptions

definition has_model :: "Product \<Rightarrow> bool" where
  "has_model p \<longleftrightarrow> pr_profile p \<noteq> ProfileV1"

definition has_advisory :: "Product \<Rightarrow> bool" where
  "has_advisory p \<longleftrightarrow> pr_profile p = ProfileV3"

definition environment :: "Surroundings \<Rightarrow> Environment" where
  "environment env = \<lparr>env_faults = env_faults env, env_to_chars = env_to_chars env, env_from_chars = env_from_chars env\<rparr>"

text \<open>Operations of the members.\<close>

definition on_legacy :: "'a runtime_op \<Rightarrow> 'a product_op" where
  "on_legacy m p = (case m (pr_legacy p) of (r, x) \<Rightarrow> (r, p\<lparr>pr_legacy := x\<rparr>))"

definition on_model :: "'a store_op \<Rightarrow> 'a product_op" where
  "on_model m p = (case m (pr_model p) of (r, x) \<Rightarrow> (r, p\<lparr>pr_model := x\<rparr>))"

definition on_advisory :: "'a adv_op \<Rightarrow> 'a product_op" where
  "on_advisory m p = (case m (pr_advisory p) of (r, x) \<Rightarrow> (r, p\<lparr>pr_advisory := x\<rparr>))"

definition on_function :: "facts_op \<Rightarrow> unit product_op" where
  "on_function m p = (case m (pr_function p) of (r, x) \<Rightarrow> (r, p\<lparr>pr_function := x\<rparr>))"

definition on_capture :: "(ModelCapture \<Rightarrow> ModelCapture \<times> 'a result) \<Rightarrow> 'a product_op" where
  "on_capture m p = (case m (pr_capture p) of (x, r) \<Rightarrow> (r, p\<lparr>pr_capture := x\<rparr>))"

definition abort_capture :: "TerminalState \<Rightarrow> CompletedEpisode option product_op" where
  "abort_capture terminal = on_capture (\<lambda>c. ok_outcome (abort terminal c))"

definition setP :: "(Product \<Rightarrow> Product) \<Rightarrow> unit product_op" where
  "setP f p = (Inr (), f p)"

definition askP :: "(Product \<Rightarrow> 'a) \<Rightarrow> 'a product_op" where
  "askP f = readS (\<lambda>p. Inr (f p))"

definition set_product_ready :: "bool \<Rightarrow> unit product_op" where
  "set_product_ready b = setP (\<lambda>p. p\<lparr>pr_ready := b\<rparr>)"

text \<open>The accessors of the capture (\<^verbatim>\<open>model_capture.hpp\<close>).\<close>

definition mc_capturing :: "ModelCapture \<Rightarrow> bool" where
  "mc_capturing c \<longleftrightarrow> mc_state c \<noteq> StateIdle"

definition mc_activity_state :: "ModelCapture \<Rightarrow> string" where
  "mc_activity_state c = (if mc_state c = StateActive then ''ACTIVE'' else if mc_state c = StatePost then ''POST'' else ''WAITING'')"

definition mc_activity_id :: "ModelCapture \<Rightarrow> string option" where
  "mc_activity_id c = (if mc_capturing c then Some (source_event_id (episode c)) else None)"

section \<open>Demonstration reset\<close>

definition complete_demo_reset :: "Surroundings \<Rightarrow> int \<Rightarrow> unit product_op" where
  "complete_demo_reset env now =
     bindS (askP has_advisory) (\<lambda>adv. if \<not> adv then returnS () else
     bindS (askP pr_metadata) (\<lambda>md.
     bindS (on_advisory (reconcile_demo_reset (env_from_chars env) (env_advisory env) md)) (\<lambda>_.
     bindS (on_advisory (reset_model_command (env_from_chars env))) (\<lambda>command.
       case command of
         None \<Rightarrow> returnS ()
       | Some ident \<Rightarrow>
           bindS (on_advisory (reset_deadline (env_from_chars env))) (\<lambda>deadline.
           bindS (if now \<ge> deadline then readS (\<lambda>p. bindE (demo_reset_applied ident (pr_model p)) (\<lambda>b. Inr (\<not> b))) else returnS False) (\<lambda>late.
             if late then bindS (on_advisory (reset_ack (env_from_chars env) (env_advisory env) now)) (\<lambda>_. returnS ())
             else
               bindS (on_model (store_reset_demo (env_store env) ident)) (\<lambda>_.
               bindS (on_advisory (model_reset_applied (env_from_chars env) (env_advisory env))) (\<lambda>_.
               bindS (setP (\<lambda>p. p\<lparr>pr_capture := reset_demo (pr_capture p), pr_previous_epoch := -1, pr_ready := False\<rparr>)) (\<lambda>_.
                 on_function (facts_activity ''WAITING'' ''RESET'' None))))))))))"

section \<open>Start\<close>

text \<open>The producer epoch: that of the stored state, a new identifier when there is none.\<close>

definition stored_epoch :: "string \<Rightarrow> StateStore \<Rightarrow> string result" where
  "stored_epoch fresh s =
     (case file_at StateRoot ''state.json'' s of
        None \<Rightarrow> Inr fresh
      | Some bytes \<Rightarrow>
          if bytes = [] \<or> length bytes > 65536 then Inl (Runtime_error ''INPUT_FILE_UNAVAILABLE'')
          else bindE (parse_state_json bytes) (\<lambda>st. Inr (producer_epoch st)))"

definition new_product :: "MessageMetadata \<Rightarrow> FunctionalProfile \<Rightarrow> Product \<Rightarrow> Product" where
  "new_product md profile p =
     \<lparr>pr_metadata = md, pr_profile = profile, pr_legacy = restarted md (pr_legacy p), pr_capture = ModelCapture_new,
      pr_model = pr_model p, pr_advisory = pr_advisory p, pr_previous_epoch = -1, pr_telemetry_at = -1, pr_input_mono = -1,
      pr_ready = False, pr_cursor = 0, pr_function = FunctionFacts_new (profile = ProfileV3)\<rparr>"

definition Product_init_body :: "Surroundings \<Rightarrow> string \<Rightarrow> int \<Rightarrow> unit product_op" where
  "Product_init_body env fresh now =
     bindS (on_legacy (Runtime_init (environment env))) (\<lambda>_.
     bindS (askP has_model) (\<lambda>model. if \<not> model then returnS () else
     bindS (readS (\<lambda>p. stored_epoch fresh (pr_model p))) (\<lambda>epoch.
     bindS (on_model (start_store (env_store env) epoch)) (\<lambda>_.
     bindS (readS (\<lambda>p. throwIf (\<not> store_ready (pr_model p)) (Runtime_error ''STATE_INVALID''))) (\<lambda>_.
     bindS (askP has_advisory) (\<lambda>adv.
     bindS (if adv then bindS (readS (\<lambda>p. store_state (pr_model p))) (\<lambda>st.
                          on_advisory (start_advisory (env_from_chars env) (env_advisory env) st))
            else returnS ()) (\<lambda>_.
       complete_demo_reset env now)))))))"

definition Product_init :: "Surroundings \<Rightarrow> MessageMetadata \<Rightarrow> FunctionalProfile \<Rightarrow> string \<Rightarrow> int \<Rightarrow> unit product_op" where
  "Product_init env md profile fresh now p = Product_init_body env fresh now (new_product md profile p)"

section \<open>Frames\<close>

definition no_observation :: ProductObservation where
  "no_observation = \<lparr>po_valid = False, po_event_started = False, po_event_completed = False, po_analysis = None\<rparr>"

definition source_gap :: "Surroundings \<Rightarrow> string result \<Rightarrow> ProductObservation product_op" where
  "source_gap env uuid =
     bindS (on_function (facts_interruption ''SOURCE_DISCONTINUITY'')) (\<lambda>_.
     bindS (on_function (facts_input ''CONNECTED'' ''INVALID'' ''INVALID_SAMPLE'')) (\<lambda>_.
     bindS (on_legacy (disconnect (environment env) uuid)) (\<lambda>_.
     bindS (abort_capture IncompleteSourceGap) (\<lambda>ep.
     bindS (set_product_ready False) (\<lambda>_.
       returnS (no_observation\<lparr>po_event_completed := ep \<noteq> None\<rparr>))))))"

definition frame_limit :: "FunctionalProfile \<Rightarrow> int" where
  "frame_limit profile = (if profile = ProfileV1 then kMaximumSourceAgeMs else 5000)"

definition coherent :: "Signal list \<Rightarrow> Product \<Rightarrow> bool" where
  "coherent values p \<longleftrightarrow> max_of (map sig_epoch_ms values) - min_of (map sig_epoch_ms values) \<le>
     (if pr_profile p = ProfileV1 then 0 else kMaximumSignalSkewMs)"

definition bad_frame :: "Signal list \<Rightarrow> int \<Rightarrow> Product \<Rightarrow> bool" where
  "bad_frame values wall p \<longleftrightarrow>
     (let oldest = min_of (map sig_epoch_ms values); source = max_of (map sig_epoch_ms values)
      in list_ex (\<lambda>v. \<not> sig_valid v) values \<or>
         (coherent values p \<and>
          (source < pr_previous_epoch p \<or> source > wall \<or> oldest < 0 \<or> wall - oldest > frame_limit (pr_profile p))))"

definition newer :: "Signal list \<Rightarrow> Product \<Rightarrow> bool" where
  "newer values p \<longleftrightarrow> coherent values p \<and> max_of (map sig_epoch_ms values) > pr_previous_epoch p"

definition no_frame :: "Surroundings \<Rightarrow> string result \<Rightarrow> Signal list \<Rightarrow> ProductObservation product_op" where
  "no_frame env uuid values =
     bindS (askP (newer values)) (\<lambda>gap. if gap then source_gap env uuid else returnS no_observation)"

definition waiting_reason :: "string \<Rightarrow> string" where
  "waiting_reason state = (if state = ''WAITING'' then ''NOT_QUALIFIED'' else ''NONE'')"

definition note_window :: "EventWindow \<Rightarrow> unit product_op" where
  "note_window w =
     (let whole = (terminal_state w = Complete \<or> terminal_state w = TruncatedMaxDuration)
      in bindS (on_function (facts_activity (if whole then ''COMPLETED'' else ''SKIPPED'') (if whole then ''NONE'' else ''SOURCE_DISCONTINUITY'')
                  (Some (event_id w)))) (\<lambda>_.
         bindS (on_legacy (on_spool inventory)) (\<lambda>entries.
         bindS (askP (\<lambda>p. service_version (pr_metadata p))) (\<lambda>version.
           if whole \<and> list_ex (\<lambda>e. entry_event_id e = event_id w) entries
           then on_function (facts_result ''WINDOW'' (event_id w) (trigger_timestamp w) version)
           else returnS ()))))"

definition ingest_v1 :: "Surroundings \<Rightarrow> string result \<Rightarrow> Signal list \<Rightarrow> int \<Rightarrow> int \<Rightarrow> ProductObservation product_op" where
  "ingest_v1 env uuid values wall mono_ms =
     bindS (readS (\<lambda>p. complete_frame values wall mono_ms (pr_previous_epoch p))) (\<lambda>frame.
       case frame of
         None \<Rightarrow> no_frame env uuid values
       | Some f \<Rightarrow>
           bindS (setP (\<lambda>p. p\<lparr>pr_previous_epoch := source_epoch_ms f\<rparr>)) (\<lambda>_.
           bindS (on_legacy (Runtime_ingest (environment env) uuid f)) (\<lambda>o1.
           bindS (set_product_ready (valid (validation o1))) (\<lambda>_.
           bindS (case completed o1 of
                Some w \<Rightarrow> note_window w
              | None \<Rightarrow>
                  if valid (validation o1)
                  then bindS (askP (\<lambda>p. activity (pr_legacy p))) (\<lambda>(state, ident).
                         on_function (facts_activity state (waiting_reason state) ident))
                  else returnS ()) (\<lambda>_.
             returnS \<lparr>po_valid = valid (validation o1), po_event_started = event_started o1,
                      po_event_completed = completed o1 \<noteq> None, po_analysis = None\<rparr>)))))"

definition deployment_metadata :: "MessageMetadata \<Rightarrow> int \<Rightarrow> DeploymentMetadata result" where
  "deployment_metadata md wall =
     bindE (utc_timestamp wall) (\<lambda>ts.
       Inr \<lparr>dm_unit_system_uid = unit_system_uid md, dm_unit_role = unit_role md, dm_service_version = service_version md,
            dm_service_artifact_sha256 = service_artifact_sha256 md, dm_vdp_contract_version = vdp_contract_version md,
            dm_vdp_contract_sha256 = vdp_contract_sha256 md, dm_model_artifact_sha256 = service_artifact_sha256 md,
            dm_model_config_sha256 = kModelConfigSha256, dm_assessed_at = ts, dm_service_instance = service_instance md\<rparr>)"

definition skip_text :: "ProcessResult \<Rightarrow> string" where
  "skip_text a =
     (if process_status a = DerivedOutboxFull \<or> process_status a = NotReadyState then ''STORAGE_UNAVAILABLE''
      else if process_skip_reason a = Some InsufficientActiveSamples then ''INSUFFICIENT_SAMPLES''
      else if process_skip_reason a \<noteq> None \<and> process_skip_reason a \<noteq> Some InsufficientQualifiedWheelSamples then ''INVALID_INPUT''
      else ''NOT_QUALIFIED'')"

definition advisory_usage :: "Surroundings \<Rightarrow> (nat \<times> nat) product_op" where
  "advisory_usage env = readS (\<lambda>p. if has_advisory p then outbox_usage (env_from_chars env) (pr_advisory p) else Inr (0, 0))"

definition note_analysis :: "CompletedEpisode \<Rightarrow> ProcessResult \<Rightarrow> unit product_op" where
  "note_analysis ep a =
     (let produced = (process_status a = Produced)
      in bindS (on_function (facts_activity (if produced then ''COMPLETED'' else ''SKIPPED'') (if produced then ''NONE'' else skip_text a)
                  (Some (source_event_id ep)))) (\<lambda>_.
         bindS (askP (\<lambda>p. service_version (pr_metadata p))) (\<lambda>version.
           case process_assessment_id a of
             Some ident \<Rightarrow>
               if produced \<and> episode_samples ep \<noteq> []
               then on_function (facts_result ''ASSESSMENT'' ident (sample_timestamp (last (episode_samples ep))) version)
               else returnS ()
           | None \<Rightarrow> returnS ())))"

definition analyse :: "Surroundings \<Rightarrow> int \<Rightarrow> CompletedEpisode \<Rightarrow> (ProcessResult \<times> bool) product_op" where
  "analyse env wall ep =
     bindS (readS (\<lambda>p. deployment_metadata (pr_metadata p) wall)) (\<lambda>md.
     bindS (advisory_usage env) (\<lambda>(other_count, other_bytes).
     bindS (on_model (process_episode (env_store env) ep md other_count other_bytes)) (\<lambda>a.
     bindS (askP (\<lambda>p. store_ready (pr_model p))) (\<lambda>ok.
     bindS (if ok then returnS () else set_product_ready False) (\<lambda>_.
     bindS (note_analysis ep a) (\<lambda>_. returnS (a, ok)))))))"

definition follow_episode :: "Surroundings \<Rightarrow> int \<Rightarrow> bool \<Rightarrow> CompletedEpisode option \<Rightarrow> ProductObservation product_op" where
  "follow_episode env wall started ep =
     (case ep of
        Some e \<Rightarrow>
          bindS (analyse env wall e) (\<lambda>(a, ok).
            returnS \<lparr>po_valid = ok, po_event_started = started, po_event_completed = True, po_analysis = Some a\<rparr>)
      | None \<Rightarrow>
          bindS (askP (\<lambda>p. (mc_activity_state (pr_capture p), mc_activity_id (pr_capture p)))) (\<lambda>(state, ident).
          bindS (on_function (facts_activity state (waiting_reason state) ident)) (\<lambda>_.
            returnS \<lparr>po_valid = True, po_event_started = started, po_event_completed = False, po_analysis = None\<rparr>)))"

definition ingest_model :: "Surroundings \<Rightarrow> string result \<Rightarrow> Signal list \<Rightarrow> int \<Rightarrow> int \<Rightarrow> ProductObservation product_op" where
  "ingest_model env uuid values wall mono_ms =
     bindS (readS (\<lambda>p. bindE (complete_model_frame values wall mono_ms (pr_previous_epoch p)) (\<lambda>f.
        Inr (if store_ready (pr_model p) then f else None)))) (\<lambda>frame.
       case frame of
         None \<Rightarrow> no_frame env uuid values
       | Some f \<Rightarrow>
           bindS (setP (\<lambda>p. p\<lparr>pr_previous_epoch := mf_source_epoch_ms f\<rparr>)) (\<lambda>_.
           bindS (askP (\<lambda>p. mc_capturing (pr_capture p))) (\<lambda>was.
           bindS (on_capture (capture_ingest uuid f)) (\<lambda>ep.
           bindS (setP (\<lambda>p. p\<lparr>pr_ready := True, pr_telemetry_at := wall\<rparr>)) (\<lambda>_.
           bindS (askP (\<lambda>p. \<not> was \<and> mc_capturing (pr_capture p))) (\<lambda>started.
             follow_episode env wall started ep))))))"

definition note_input :: "int \<Rightarrow> ProductObservation \<Rightarrow> ProductObservation product_op" where
  "note_input mono_ms result =
     (if po_valid result
      then bindS (setP (\<lambda>p. p\<lparr>pr_input_mono := mono_ms\<rparr>)) (\<lambda>_.
           bindS (on_function (facts_input ''CONNECTED'' ''RECEIVING'' ''NONE'')) (\<lambda>_. returnS result))
      else returnS result)"

definition product_reset_pending :: "Surroundings \<Rightarrow> bool product_op" where
  "product_reset_pending env =
     bindS (askP has_advisory) (\<lambda>adv. if adv then on_advisory (reset_pending (env_from_chars env)) else returnS False)"

definition product_ingest :: "Surroundings \<Rightarrow> string result \<Rightarrow> Signal list \<Rightarrow> int \<Rightarrow> int \<Rightarrow> ProductObservation product_op" where
  "product_ingest env uuid values wall mono_ms =
     bindS (product_reset_pending env) (\<lambda>pending. if pending then returnS no_observation else
     bindS (askP pr_profile) (\<lambda>profile.
     bindS (checkS (length values \<noteq> (if profile = ProfileV1 then 6 else 12)) (Invalid_argument ''SIGNAL_COUNT_INVALID'')) (\<lambda>_.
     bindS (askP (bad_frame values wall)) (\<lambda>bad. if bad then source_gap env uuid else
     bindS (if profile = ProfileV1 then ingest_v1 env uuid values wall mono_ms else ingest_model env uuid values wall mono_ms)
       (note_input mono_ms)))))"

section \<open>The session\<close>

definition clear_input_time :: "unit product_op" where
  "clear_input_time = setP (\<lambda>p. p\<lparr>pr_input_mono := -1\<rparr>)"

definition product_update_metadata :: "Surroundings \<Rightarrow> string result \<Rightarrow> MessageMetadata \<Rightarrow> unit product_op" where
  "product_update_metadata env uuid md =
     bindS (on_legacy (update_vdp_metadata (environment env) uuid md)) (\<lambda>_.
     bindS (askP (\<lambda>p. vdp_contract_sha256 (pr_metadata p) \<noteq> vdp_contract_sha256 md \<or>
                       vdp_contract_version (pr_metadata p) \<noteq> vdp_contract_version md)) (\<lambda>changed.
     bindS (if changed
            then bindS (abort_capture IncompleteSourceGap) (\<lambda>_. setP (\<lambda>p. p\<lparr>pr_previous_epoch := -1, pr_ready := False\<rparr>))
            else returnS ()) (\<lambda>_.
       setP (\<lambda>p. p\<lparr>pr_metadata := md\<rparr>))))"

definition product_disconnect :: "Surroundings \<Rightarrow> string result \<Rightarrow> unit product_op" where
  "product_disconnect env uuid =
     bindS (on_legacy (disconnect (environment env) uuid)) (\<lambda>_.
     bindS clear_input_time (\<lambda>_.
     bindS (on_function (facts_interruption ''SOURCE_DISCONTINUITY'')) (\<lambda>_.
     bindS (on_function (facts_input ''DISCONNECTED'' ''DISCONNECTED'' ''TRANSPORT_LOST'')) (\<lambda>_.
     bindS (abort_capture IncompleteSourceGap) (\<lambda>_. set_product_ready False)))))"

definition input_observation :: "string \<Rightarrow> string \<Rightarrow> string \<Rightarrow> unit product_op" where
  "input_observation connection state reason =
     bindS (if state \<noteq> ''RECEIVING''
            then on_function (facts_interruption (if reason = ''REAUTHENTICATING'' then ''REAUTHENTICATING'' else ''SOURCE_DISCONTINUITY''))
            else returnS ()) (\<lambda>_. on_function (facts_input connection state reason))"

definition reauthenticate :: "unit product_op" where
  "reauthenticate = input_observation ''REAUTHENTICATING'' ''WAITING'' ''REAUTHENTICATING''"

definition advisory_observation :: "string \<Rightarrow> unit product_op" where
  "advisory_observation state = on_function (facts_advisory state None)"

definition expire_input :: "Surroundings \<Rightarrow> string result \<Rightarrow> int \<Rightarrow> bool product_op" where
  "expire_input env uuid observed =
     bindS (askP (\<lambda>p. pr_input_mono p < 0 \<or> observed - pr_input_mono p \<le> frame_limit (pr_profile p))) (\<lambda>fresh.
       if fresh then returnS False
       else
         bindS clear_input_time (\<lambda>_.
         bindS (on_legacy (disconnect (environment env) uuid)) (\<lambda>_.
         bindS (abort_capture IncompleteSourceGap) (\<lambda>_.
         bindS (set_product_ready False) (\<lambda>_.
         bindS (on_function (facts_interruption ''SOURCE_DISCONTINUITY'')) (\<lambda>_.
         bindS (on_function (facts_input ''CONNECTED'' ''STALE'' ''SOURCE_GAP'')) (\<lambda>_. returnS True)))))))"

definition product_stop :: "Surroundings \<Rightarrow> unit product_op" where
  "product_stop env =
     bindS (on_legacy (stop (environment env))) (\<lambda>_.
     bindS clear_input_time (\<lambda>_.
     bindS (abort_capture AbortedServiceStop) (\<lambda>_. set_product_ready False)))"

definition analytics_ready :: "Product \<Rightarrow> bool" where
  "analytics_ready p \<longleftrightarrow> pr_ready p \<and> (has_model p \<longrightarrow> store_ready (pr_model p))"

section \<open>Delivery\<close>

definition no_window :: PendingMessage where
  "no_window = \<lparr>pm_event_id = [], pm_chunk_index = None, pm_bytes = []\<rparr>"

definition no_derived :: OutboxEntry where
  "no_derived = \<lparr>out_id = [], out_type = [], out_json = [], out_content_sha256 = [], out_idempotency_key_sha256 = [],
     out_message_sha256 = [], out_source_event_id = [], out_assessment_id = [], out_quarantined = False\<rparr>"

definition no_advisory :: AdvisoryDelivery where
  "no_advisory = \<lparr>delivery_id = [], delivery_bytes = []\<rparr>"

definition product_bytes :: "ProductDelivery \<Rightarrow> string" where
  "product_bytes d = (case pd_kind d of KindWindow \<Rightarrow> pm_bytes (pd_window d) | KindDerived \<Rightarrow> out_json (pd_derived d)
     | KindAdvisory \<Rightarrow> delivery_bytes (pd_advisory d))"

text \<open>One turn of the loop: the queue the cursor points at, when it is there.\<close>

definition serve :: "Surroundings \<Rightarrow> nat \<Rightarrow> ProductDelivery option product_op" where
  "serve env choice =
     (if choice = 0 then
        bindS (on_legacy (next_message (environment env))) (\<lambda>m. returnS (map_option (\<lambda>w.
          \<lparr>pd_kind = KindWindow, pd_window = w, pd_derived = no_derived, pd_advisory = no_advisory\<rparr>) m))
      else if choice = 1 then
        bindS (askP has_model) (\<lambda>model. if \<not> model then returnS None
          else bindS (on_model (next_derived_message (env_store env))) (\<lambda>m. returnS (map_option (\<lambda>e.
            \<lparr>pd_kind = KindDerived, pd_window = no_window, pd_derived = e, pd_advisory = no_advisory\<rparr>) m)))
      else
        bindS (askP has_advisory) (\<lambda>adv. if \<not> adv then returnS None
          else bindS (readS (\<lambda>p. adv_next_message (env_from_chars env) (pr_advisory p))) (\<lambda>m. returnS (map_option (\<lambda>a.
            \<lparr>pd_kind = KindAdvisory, pd_window = no_window, pd_derived = no_derived, pd_advisory = a\<rparr>) m))))"

text \<open>The cursor is an \<open>unsigned\<close> and wraps.\<close>

definition take_turn :: "nat product_op" where
  "take_turn p = (Inr (unat (pr_cursor p) mod 3), p\<lparr>pr_cursor := pr_cursor p + 1\<rparr>)"

fun next_loop :: "Surroundings \<Rightarrow> nat \<Rightarrow> ProductDelivery option product_op" where
  "next_loop env 0 = returnS None"
| "next_loop env (Suc k) =
     bindS take_turn (\<lambda>choice.
     bindS (serve env choice) (\<lambda>m. case m of Some d \<Rightarrow> returnS (Some d) | None \<Rightarrow> next_loop env k))"

definition product_next_message :: "Surroundings \<Rightarrow> ProductDelivery option product_op" where
  "product_next_message env = next_loop env 3"

definition product_accept :: "Surroundings \<Rightarrow> ProductDelivery \<Rightarrow> HttpResponse \<Rightarrow> bool product_op" where
  "product_accept env d response =
     bindS (askP has_model) (\<lambda>model. bindS (askP has_advisory) (\<lambda>adv.
     bindS (if pd_kind d = KindWindow then on_legacy (accept (environment env) (pd_window d) response)
            else if pd_kind d = KindDerived \<and> model
            then on_model (accept_derived_message (env_from_chars env) (env_store env) (pd_derived d) response)
            else if adv \<and> pd_kind d = KindAdvisory
            then on_advisory (adv_accept (env_from_chars env) (env_advisory env) (pd_advisory d) response)
            else returnS False) (\<lambda>accepted.
     bindS (on_function (facts_delivery (env_from_chars env) accepted (status response) (body response))) (\<lambda>_.
       returnS accepted))))"

section \<open>The gateway\<close>

definition derived_usage :: "Surroundings \<Rightarrow> (nat \<times> nat) product_op" where
  "derived_usage env =
     bindS (askP has_model) (\<lambda>model. if \<not> model then returnS (0, 0)
       else bindS (on_model (store_inventory (env_store env))) (\<lambda>es.
         returnS (length es, sum_list (map (\<lambda>e. length (out_json e)) es))))"

definition product_next_request :: "Surroundings \<Rightarrow> int \<Rightarrow> AdvisoryRequest option product_op" where
  "product_next_request env now =
     bindS (askP (\<lambda>p. has_advisory p \<and> store_ready (pr_model p))) (\<lambda>go. if \<not> go then returnS None else
     bindS (readS (\<lambda>p. store_state (pr_model p))) (\<lambda>st.
     bindS (askP pr_metadata) (\<lambda>md.
     bindS (on_advisory (next_request (env_from_chars env) (env_advisory env) st md now)) (\<lambda>r.
     bindS (case r of Some q \<Rightarrow> on_function (facts_advisory ''WAITING'' (Some (request_id q))) | None \<Rightarrow> returnS ()) (\<lambda>_.
       returnS r)))))"

definition product_request_written :: "Surroundings \<Rightarrow> AdvisoryRequest \<Rightarrow> unit product_op" where
  "product_request_written env r =
     bindS (askP has_advisory) (\<lambda>adv.
       if adv then on_advisory (request_written (env_from_chars env) (env_advisory env) r) else returnS ())"

definition gateway_fact :: "string \<Rightarrow> string" where
  "gateway_fact state = (if state = ''APPLIED'' \<or> state = ''CLEARED'' then ''CONFIRMED'' else if state = ''RECEIVED'' then ''WAITING'' else ''UNAVAILABLE'')"

definition note_gateway :: "Surroundings \<Rightarrow> string \<Rightarrow> unit product_op" where
  "note_gateway env bytes =
     bindS (liftS (parse_json (env_from_chars env) bytes 65536)) (\<lambda>st.
     bindS (on_advisory (current_request_id (env_from_chars env))) (\<lambda>current.
     bindS (liftS (str_at ''requestId'' st)) (\<lambda>ident.
       if current = Some ident
       then bindS (liftS (str_at ''state'' st)) (\<lambda>state. on_function (facts_advisory (gateway_fact state) (Some ident)))
       else returnS ())))"

definition observe_gateway :: "Surroundings \<Rightarrow> string \<Rightarrow> int \<Rightarrow> bool product_op" where
  "observe_gateway env bytes now =
     bindS (askP has_advisory) (\<lambda>adv. if \<not> adv then returnS False else
     bindS (derived_usage env) (\<lambda>(n, total).
     bindS (on_advisory (observe (env_from_chars env) (env_advisory env) bytes now n total)) (\<lambda>accepted.
     bindS (if accepted then note_gateway env bytes else returnS ()) (\<lambda>_. returnS accepted))))"

definition gateway_state :: "Surroundings \<Rightarrow> string option product_op" where
  "gateway_state env =
     bindS (askP has_advisory) (\<lambda>adv. if adv then on_advisory (current_gateway_state (env_from_chars env)) else returnS None)"

definition product_model_state :: "ModelState option product_op" where
  "product_model_state = readS (\<lambda>p. if has_model p then bindE (store_state (pr_model p)) (\<lambda>st. Inr (Some st)) else Inr None)"

definition demo_control_poll :: "Surroundings \<Rightarrow> string option product_op" where
  "demo_control_poll env = readS (\<lambda>p.
     if has_advisory p \<and> service_instance (pr_metadata p) \<noteq> None
     then bindE (demo_poll (env_from_chars env) (adv_epoch (pr_advisory p)) (pr_metadata p)) (\<lambda>t. Inr (Some t)) else Inr None)"

definition demo_control_command :: "Surroundings \<Rightarrow> string \<Rightarrow> int \<Rightarrow> unit product_op" where
  "demo_control_command env bytes now =
     bindS (readS (\<lambda>p. throwIf (\<not> has_advisory p) (Runtime_error ''RESET_PROFILE_UNSUPPORTED''))) (\<lambda>_.
     bindS (askP pr_metadata) (\<lambda>md.
     bindS (on_advisory (begin_demo_reset (env_from_chars env) (env_advisory env) bytes md now)) (\<lambda>_.
       complete_demo_reset env now)))"

definition demo_control_ack :: "Surroundings \<Rightarrow> int \<Rightarrow> string option product_op" where
  "demo_control_ack env now =
     bindS (askP has_advisory) (\<lambda>adv.
       if adv then on_advisory (reset_ack (env_from_chars env) (env_advisory env) now) else returnS None)"

definition demo_control_accepted :: "Surroundings \<Rightarrow> string \<Rightarrow> unit product_op" where
  "demo_control_accepted env bytes =
     bindS (askP has_advisory) (\<lambda>adv.
       if adv then on_advisory (reset_acknowledged (env_from_chars env) (env_advisory env) bytes) else returnS ())"

section \<open>Reports\<close>

definition fresh_telemetry :: "int \<Rightarrow> Product \<Rightarrow> bool" where
  "fresh_telemetry now p \<longleftrightarrow> has_advisory p \<and> pr_ready p \<and> store_ready (pr_model p) \<and> pr_telemetry_at p \<ge> 0 \<and>
     now \<ge> pr_telemetry_at p \<and> now - pr_telemetry_at p \<le> 5000"

definition advisory_readiness :: "int \<Rightarrow> Product \<Rightarrow> string result" where
  "advisory_readiness now p =
     bindE (utc_timestamp now) (\<lambda>ts. encode_json (json_fields
       [(''schemaVersion'', JInt 1), (''ready'', JBool (fresh_telemetry now p)), (''observedAt'', JString ts)]))"

definition observation_binding :: "(string \<Rightarrow> dbl option) \<Rightarrow> Product \<Rightarrow> Json option result" where
  "observation_binding fc p =
     (let md = pr_metadata p
      in case service_instance md of
           None \<Rightarrow> Inr None
         | Some i \<Rightarrow>
             bindE (service_instance_json i) (\<lambda>t.
             bindE (parse_json fc t 65536) (\<lambda>ij.
               Inr (Some (json_fields [(''messageType'', JString brake_type), (''unitSystemUid'', JString (unit_system_uid md)),
                 (''unitRole'', JString (if unit_role md = Validation then ''VALIDATION'' else ''PRODUCTION'')),
                 (''serviceVersion'', JString (service_version md)), (''serviceProfile'', JString (profile_text (pr_profile p))),
                 (''serviceInstance'', ij)])))))"

definition function_observation :: "Surroundings \<Rightarrow> Json product_op" where
  "function_observation env =
     bindS (on_legacy delivery_usage) (\<lambda>(n0, blocked0).
     bindS (askP has_model) (\<lambda>model.
     bindS (if model then on_model (store_inventory (env_store env)) else returnS []) (\<lambda>es.
     bindS (advisory_usage env) (\<lambda>(n2, _).
     readS (\<lambda>p. facts_snapshot (n0 + length es + n2)
       (blocked0 \<or> list_ex out_quarantined es \<or> (has_model p \<and> \<not> store_ready (pr_model p))) (pr_function p))))))"

section \<open>Fair selection\<close>

text \<open>Queue \<open>k\<close> has a message to hand out.\<close>

definition offers :: "Surroundings \<Rightarrow> nat \<Rightarrow> Product \<Rightarrow> bool" where
  "offers env k p \<longleftrightarrow> (\<exists>d. fst (serve env k p) = Inr (Some d))"

definition kind_at :: "nat \<Rightarrow> DeliveryKind" where
  "kind_at k = (if k = 0 then KindWindow else if k = 1 then KindDerived else KindAdvisory)"

definition turn :: "32 word \<Rightarrow> nat \<Rightarrow> nat" where
  "turn c j = unat (c + of_nat j) mod 3"

lemmas member_ops = on_legacy_def on_model_def on_advisory_def on_function_def on_capture_def setP_def askP_def

lemma serve_kind: "serve env k p = (Inr (Some d), p') \<Longrightarrow> pd_kind d = kind_at k"
  by (auto simp: serve_def bindS_def kind_at_def split: prod.splits sum.splits if_splits)

lemma serve_frame:
  assumes "serve env j p = (r, p')"
  shows "pr_cursor p' = pr_cursor p" "pr_profile p' = pr_profile p" "pr_advisory p' = pr_advisory p"
    "j \<noteq> 0 \<Longrightarrow> pr_legacy p' = pr_legacy p" "j \<noteq> 1 \<Longrightarrow> pr_model p' = pr_model p"
  using assms by (auto simp: serve_def bindS_def member_ops split: prod.splits sum.splits if_splits)

lemma offers_cong:
  assumes "pr_profile p' = pr_profile p" and "k = 0 \<longrightarrow> pr_legacy p' = pr_legacy p" and "k = 1 \<longrightarrow> pr_model p' = pr_model p"
    and "pr_advisory p' = pr_advisory p"
  shows "offers env k p' = offers env k p"
  using assms by (auto simp: offers_def serve_def bindS_def member_ops has_model_def has_advisory_def split: prod.splits sum.splits)

lemma offers_turn: "offers env k (p\<lparr>pr_cursor := c\<rparr>) = offers env k p"
  by (rule offers_cong) simp_all

lemma next_loop_asks:
  assumes "next_loop env n p = (Inr r, q)" and "offers env k p" and "0 < n"
    and "\<And>d. r = Some d \<Longrightarrow> pd_kind d \<noteq> kind_at k"
  shows "\<exists>m. 0 < m \<and> pr_cursor q = pr_cursor p + of_nat m \<and> (\<forall>j < m. turn (pr_cursor p) j \<noteq> k)"
  using assms
proof (induction n arbitrary: p)
  case 0
  then show ?case by simp
next
  case (Suc n)
  let ?p = "p\<lparr>pr_cursor := pr_cursor p + 1\<rparr>" and ?j = "turn (pr_cursor p) 0"
  from Suc.prems(1) obtain m p' where s: "serve env ?j ?p = (Inr m, p')"
      and rest: "(case m of Some d \<Rightarrow> returnS (Some d) | None \<Rightarrow> next_loop env n) p' = (Inr r, q)"
    by (auto simp: bindS_eq_Inr take_turn_def turn_def)
  have off: "offers env k ?p" using Suc.prems(2) by (simp add: offers_turn)
  have j: "?j \<noteq> k"
  proof
    assume "?j = k"
    with off s obtain d where "m = Some d" by (auto simp: offers_def)
    moreover from this rest have "r = Some d" by simp
    ultimately show False using serve_kind s Suc.prems(4) \<open>?j = k\<close> by blast
  qed
  show ?case
  proof (cases "m = None \<and> 0 < n")
    case False
    then have "q = p'" using rest by (cases m; cases n) auto
    then have "pr_cursor q = pr_cursor p + of_nat 1" using serve_frame(1) [OF s] by simp
    then show ?thesis using j by (intro exI [of _ 1]) simp
  next
    case True
    have "offers env k p'"
      using off offers_cong [of p' ?p k env] serve_frame [OF s] j by auto
    then obtain i where i: "0 < i" "pr_cursor q = pr_cursor p' + of_nat i" "\<forall>l < i. turn (pr_cursor p') l \<noteq> k"
      using Suc.IH [of p'] rest True Suc.prems(4) by auto
    have "turn (pr_cursor p) l \<noteq> k" if "l < Suc i" for l
      using that i(3) j serve_frame(1) [OF s] by (cases l) (auto simp: turn_def add.assoc)
    then show ?thesis
      using i(2) serve_frame(1) [OF s] by (intro exI [of _ "Suc i"]) (simp add: add.assoc)
  qed
qed

text \<open>Among any four consecutive turns every queue has one, also where the cursor wraps.\<close>

lemma turns_cover:
  assumes "k < 3"
  shows "\<exists>j < 4. turn c j = k"
proof -
  define n where "n = unat c"
  have n: "n < 4294967296" using unsigned_less [of c] by (simp add: n_def)
  have t: "turn c j = (n + j) mod 4294967296 mod 3" if "j < 4" for j
    using that by (simp add: turn_def n_def unat_word_ariths unat_of_nat)
  have "n mod 4294967296 mod 3 = k \<or> (n + 1) mod 4294967296 mod 3 = k \<or> (n + 2) mod 4294967296 mod 3 = k \<or>
      (n + 3) mod 4294967296 mod 3 = k"
  proof (cases "n < 4294967293")
    case True
    then have "n mod 3 = k \<or> (n + 1) mod 3 = k \<or> (n + 2) mod 3 = k" using assms by presburger
    with True show ?thesis by auto
  next
    case False
    then have "n \<in> {4294967293, 4294967294, 4294967295}" using n by auto
    moreover have "k \<in> {0, 1, 2}" using assms by auto
    ultimately show ?thesis by (elim insertE emptyE) simp_all
  qed
  then have "turn c 0 = k \<or> turn c 1 = k \<or> turn c 2 = k \<or> turn c 3 = k" by (simp add: t)
  then show ?thesis by (auto intro: exI [of _ "0::nat"] exI [of _ "1::nat"] exI [of _ "2::nat"] exI [of _ "3::nat"])
qed

text \<open>
  Four successive calls, with any other operations between them that leave the cursor alone; the
  queue has a message whenever a call starts.
\<close>

definition successive :: "(nat \<Rightarrow> Surroundings) \<Rightarrow> (nat \<Rightarrow> Product) \<Rightarrow> (nat \<Rightarrow> ProductDelivery option) \<Rightarrow> (nat \<Rightarrow> Product) \<Rightarrow> nat \<Rightarrow> bool" where
  "successive env p r q n \<longleftrightarrow>
     list_all (\<lambda>i. product_next_message (env i) (p i) = (Inr (r i), q i) \<and> (0 < i \<longrightarrow> pr_cursor (p i) = pr_cursor (q (i - 1)))) [0..<n]"

lemma successive_asks:
  assumes "successive env p r q n" and "list_all (\<lambda>i. offers (env i) k (p i)) [0..<n]" and "0 < n"
    and "\<not> list_ex (\<lambda>i. \<exists>d. r i = Some d \<and> pd_kind d = kind_at k) [0..<n]"
  shows "\<exists>m \<ge> n. pr_cursor (q (n - 1)) = pr_cursor (p 0) + of_nat m \<and> (\<forall>j < m. turn (pr_cursor (p 0)) j \<noteq> k)"
  using assms
proof (induction n)
  case 0
  then show ?case by simp
next
  case (Suc n)
  have call: "product_next_message (env n) (p n) = (Inr (r n), q n)" "offers (env n) k (p n)"
      "0 < n \<longrightarrow> pr_cursor (p n) = pr_cursor (q (n - 1))" "\<And>d. r n = Some d \<Longrightarrow> pd_kind d \<noteq> kind_at k"
    using Suc.prems by (auto simp: successive_def list_ex_iff)
  obtain m where m: "0 < m" "pr_cursor (q n) = pr_cursor (p n) + of_nat m" "\<forall>j < m. turn (pr_cursor (p n)) j \<noteq> k"
    using next_loop_asks [OF call(1) [unfolded product_next_message_def] call(2) _ call(4)] by auto
  show ?case
  proof (cases "n = 0")
    case True
    then show ?thesis using m by (intro exI [of _ m]) auto
  next
    case False
    then obtain i where i: "n \<le> i" "pr_cursor (q (n - 1)) = pr_cursor (p 0) + of_nat i" "\<forall>j < i. turn (pr_cursor (p 0)) j \<noteq> k"
      using Suc by (auto simp: successive_def list_ex_iff)
    have c: "pr_cursor (p n) = pr_cursor (p 0) + of_nat i" using i(2) call(3) False by simp
    have "turn (pr_cursor (p 0)) j \<noteq> k" if "j < i + m" for j
    proof (cases "j < i")
      case False
      then have "turn (pr_cursor (p n)) (j - i) = turn (pr_cursor (p 0)) j" by (simp add: turn_def c add.assoc flip: of_nat_add)
      with m(3) False that show ?thesis by (metis add.commute less_diff_conv2 not_less)
    qed (use i(3) in simp)
    then show ?thesis using i(1) m(1,2) c by (intro exI [of _ "i + m"]) (auto simp: add.assoc)
  qed
qed

lemma fair:
  assumes "successive env p r q 4" and "list_all (\<lambda>i. offers (env i) k (p i)) [0..<4]" and "k < 3"
  shows "list_ex (\<lambda>i. \<exists>d. r i = Some d \<and> pd_kind d = kind_at k) [0..<4]"
proof (rule ccontr)
  assume "\<not> ?thesis"
  from successive_asks [OF assms(1,2) _ this] obtain m where "4 \<le> m" "\<forall>j < m. turn (pr_cursor (p 0)) j \<noteq> k" by auto
  moreover obtain j where "j < 4" "turn (pr_cursor (p 0)) j = k" using turns_cover [OF assms(3)] by blast
  moreover from this have "j < m" using \<open>4 \<le> m\<close> by linarith
  ultimately show False by blast
qed

text \<open>C34. Selection is fair: of any four successive calls of \<open>next_message\<close> that return, at least one hands out
  a message of a queue that has one whenever a call starts, whatever operations run between the
  calls and also where the 32-bit cursor wraps.
\<close>

theorem next_message_fair:
  assumes "successive env p r q 4" and "list_all (\<lambda>i. offers (env i) k (p i)) [0..<4]" and "k < 3"
  shows "list_ex (\<lambda>i. \<exists>d. r i = Some d \<and> pd_kind d = kind_at k) [0..<4]"
  using assms by (rule fair)

text \<open>A product of the first profile with one event that waits for its acknowledgement.\<close>

definition waiting_runtime :: Runtime where
  "waiting_runtime = idle_runtime\<lparr>rt_spool := \<lparr>spool_root = [(''00000000-0000-4000-8000-000000000000'',
     [(''manifest'', ''WAITING_ACK''), (''completion.json'', ''{}''), (''completion.json.sha256'', sha256_hex ''{}'')])],
     temporary_counter = 0, dropped_queue_full = 0\<rparr>\<rparr>"

definition calm_world :: Surroundings where
  "calm_world = \<lparr>env_faults = (\<lambda>_ _ _. False), env_to_chars = (\<lambda>_. None), env_from_chars = (\<lambda>_. None),
     env_store = (\<lambda>_. Through), env_advisory = (\<lambda>_. Through)\<rparr>"

definition empty_product :: Product where
  "empty_product = \<lparr>pr_metadata = legacy_metadata, pr_profile = ProfileV1,
     pr_legacy = \<lparr>rt_metadata = legacy_metadata, rt_engine = WindowEngine_new,
       rt_spool = \<lparr>spool_root = [], temporary_counter = 0, dropped_queue_full = 0\<rparr>, dropped_event_id = None\<rparr>, pr_capture = ModelCapture_new,
     pr_model = sample_store, pr_advisory = \<lparr>adv_files = [], adv_outbox = [], adv_epoch = [], validated = None, adv_halted = False, adv_ticks = 0\<rparr>,
     pr_previous_epoch = -1, pr_telemetry_at = -1, pr_input_mono = -1, pr_ready = False, pr_cursor = 0,
     pr_function = FunctionFacts_new False\<rparr>"

definition waiting_product :: Product where
  "waiting_product = empty_product\<lparr>pr_legacy := waiting_runtime\<rparr>"

definition waiting_message :: PendingMessage where
  "waiting_message = \<lparr>pm_event_id = ''00000000-0000-4000-8000-000000000000'', pm_chunk_index = None, pm_bytes = ''{}''\<rparr>"

definition waiting_delivery :: ProductDelivery where
  "waiting_delivery = \<lparr>pd_kind = KindWindow, pd_window = waiting_message, pd_derived = no_derived, pd_advisory = no_advisory\<rparr>"

lemma waiting_next: "next_message (environment calm_world) waiting_runtime = (Inr (Some waiting_message), waiting_runtime)"
proof -
  let ?ev = "''00000000-0000-4000-8000-000000000000''"
  define rt where "rt = waiting_runtime"
  have inv: "inventory_of (spool_root (rt_spool rt)) = Inr [\<lparr>entry_event_id = ?ev, entry_state = WaitingAck, entry_encoded_bytes =
      dir_bytes [(''manifest'', ''WAITING_ACK''), (''completion.json'', ''{}''), (''completion.json.sha256'', sha256_hex ''{}'')],
      chunk_count = 0, completion_present = True\<rparr>]"
    by (simp add: rt_def waiting_runtime_def inventory_of_def inspect_dir_def parse_state_def is_chunk_filename_def) code_simp
  have "durable_message (rt_spool rt) ?ev ''completion.json'' = Inr ''{}''"
    by (simp add: rt_def waiting_runtime_def durable_message_def read_file_def file_of_def sha_hex_plain
        flip: length_greater_0_conv)
  moreover have "file_of (rt_spool rt) ?ev ''completion.json.ack'' = None" by (simp add: rt_def waiting_runtime_def file_of_def)
  ultimately have "next_message (environment calm_world) rt = (Inr (Some waiting_message), rt)"
    unfolding next_message_def bind_inventory(1) [OF inv]
    by (simp add: read_spool_def message_filename_def bindS_def catchS_def waiting_message_def Let_def)
  then show ?thesis by (simp add: rt_def)
qed

lemma waiting_members:
  "pr_legacy (waiting_product\<lparr>pr_cursor := c\<rparr>) = waiting_runtime" "pr_profile (waiting_product\<lparr>pr_cursor := c\<rparr>) = ProfileV1"
  "waiting_product\<lparr>pr_cursor := c, pr_legacy := waiting_runtime\<rparr> = waiting_product\<lparr>pr_cursor := c\<rparr>"
  by (simp_all add: waiting_product_def empty_product_def)

lemma waiting_serve:
  "serve calm_world 0 (waiting_product\<lparr>pr_cursor := c\<rparr>) = (Inr (Some waiting_delivery), waiting_product\<lparr>pr_cursor := c\<rparr>)"
  "k \<noteq> 0 \<Longrightarrow> serve calm_world k (waiting_product\<lparr>pr_cursor := c\<rparr>) = (Inr None, waiting_product\<lparr>pr_cursor := c\<rparr>)"
  unfolding serve_def
  by (simp_all add: bindS_def on_legacy_def waiting_next waiting_delivery_def askP_def has_model_def has_advisory_def waiting_members
      del: Product.update_convs)

lemma waiting_turn:
  assumes "unat c mod 3 = 0"
  shows "next_loop calm_world (Suc n) (waiting_product\<lparr>pr_cursor := c\<rparr>) = (Inr (Some waiting_delivery), waiting_product\<lparr>pr_cursor := c + 1\<rparr>)"
  using assms by (simp add: bindS_def take_turn_def waiting_serve)

lemma waiting_pass:
  assumes "unat c mod 3 \<noteq> 0"
  shows "next_loop calm_world (Suc n) (waiting_product\<lparr>pr_cursor := c\<rparr>) = next_loop calm_world n (waiting_product\<lparr>pr_cursor := c + 1\<rparr>)"
  using assms by (simp add: bindS_def take_turn_def waiting_serve)

lemma waiting_call:
  "product_next_message calm_world (waiting_product\<lparr>pr_cursor := 0\<rparr>) = (Inr (Some waiting_delivery), waiting_product\<lparr>pr_cursor := 1\<rparr>)"
  "product_next_message calm_world (waiting_product\<lparr>pr_cursor := 1\<rparr>) = (Inr (Some waiting_delivery), waiting_product\<lparr>pr_cursor := 4\<rparr>)"
  "product_next_message calm_world (waiting_product\<lparr>pr_cursor := 4\<rparr>) = (Inr (Some waiting_delivery), waiting_product\<lparr>pr_cursor := 7\<rparr>)"
  "product_next_message calm_world (waiting_product\<lparr>pr_cursor := 7\<rparr>) = (Inr (Some waiting_delivery), waiting_product\<lparr>pr_cursor := 10\<rparr>)"
  unfolding product_next_message_def numeral_3_eq_3 by (simp_all add: waiting_turn waiting_pass del: next_loop.simps)

theorem next_message_fair_witness:
  "list_ex (\<lambda>i. \<exists>d. (\<lambda>_. Some waiting_delivery) (i :: nat) = Some d \<and> pd_kind d = kind_at 0) [0..<4]"
proof (rule next_message_fair)
  let ?p = "\<lambda>i. waiting_product\<lparr>pr_cursor := [0, 1, 4, 7, 10] ! i\<rparr>"
  show "successive (\<lambda>_. calm_world) ?p (\<lambda>_. Some waiting_delivery) (\<lambda>i. ?p (Suc i)) 4"
    by (simp add: successive_def upt_rec numeral_eq_Suc waiting_call)
  show "list_all (\<lambda>i. offers calm_world 0 (?p i)) [0..<4]" by (simp add: offers_def waiting_serve list_all_iff)
qed simp

end
