(* ===== verification/Product_Runs.thy ===== *)
theory Product_Runs
  imports Product Advisory_Ledger Documents
begin

text \<open>
  Executions of the product, and what its readiness rests on.
\<close>

section \<open>Steps\<close>

datatype ProductStep =
    PStart MessageMetadata FunctionalProfile string int
  | PIngest "string result" "Signal list" int int
  | PMetadata "string result" MessageMetadata
  | PDisconnect "string result"
  | PReauthenticate
  | PExpire "string result" int
  | PStop
  | PNextMessage
  | PAccept ProductDelivery HttpResponse
  | PNextRequest int
  | PWritten AdvisoryRequest
  | PGateway string int
  | PGatewayState
  | PCommand string int
  | PAck int
  | PAccepted string
  | PInput string string string
  | PAdvisory string
  | PObservation

fun product_step :: "Surroundings \<Rightarrow> ProductStep \<Rightarrow> Product \<Rightarrow> Product" where
  "product_step env (PStart md profile fresh now) p = snd (Product_init env md profile fresh now p)"
| "product_step env (PIngest uuid vs wall mono_ms) p = snd (product_ingest env uuid vs wall mono_ms p)"
| "product_step env (PMetadata uuid md) p = snd (product_update_metadata env uuid md p)"
| "product_step env (PDisconnect uuid) p = snd (product_disconnect env uuid p)"
| "product_step env PReauthenticate p = snd (reauthenticate p)"
| "product_step env (PExpire uuid mono_ms) p = snd (expire_input env uuid mono_ms p)"
| "product_step env PStop p = snd (product_stop env p)"
| "product_step env PNextMessage p = snd (product_next_message env p)"
| "product_step env (PAccept d response) p = snd (product_accept env d response p)"
| "product_step env (PNextRequest now) p = snd (product_next_request env now p)"
| "product_step env (PWritten r) p = snd (product_request_written env r p)"
| "product_step env (PGateway bytes now) p = snd (observe_gateway env bytes now p)"
| "product_step env PGatewayState p = snd (gateway_state env p)"
| "product_step env (PCommand bytes now) p = snd (demo_control_command env bytes now p)"
| "product_step env (PAck now) p = snd (demo_control_ack env now p)"
| "product_step env (PAccepted bytes) p = snd (demo_control_accepted env bytes p)"
| "product_step env (PInput connection state reason) p = snd (input_observation connection state reason p)"
| "product_step env (PAdvisory state) p = snd (advisory_observation state p)"
| "product_step env PObservation p = snd (function_observation env p)"

section \<open>Readiness\<close>

text \<open>
  The members that readiness rests on. A state is steady for a mark when it still has the mark or is
  not ready.
\<close>

definition mark :: "Product \<Rightarrow> bool \<times> int \<times> FunctionalProfile" where
  "mark p = (pr_ready p, pr_telemetry_at p, pr_profile p)"

definition steady :: "bool \<times> int \<times> FunctionalProfile \<Rightarrow> Product \<Rightarrow> bool" where
  "steady m p \<longleftrightarrow> mark p = m \<or> \<not> pr_ready p"

lemma steady_members:
  "keeps (steady m) (on_legacy f)" "keeps (steady m) (on_model g)" "keeps (steady m) (on_advisory h)"
  "keeps (steady m) (on_function i)" "keeps (steady m) (on_capture j)" "keeps (steady m) (askP l)"
  "keeps (steady m) (abort_capture t)" "keeps (steady m) clear_input_time" "keeps (steady m) (set_product_ready False)"
  by (auto simp: keeps_def member_ops steady_def mark_def abort_capture_def clear_input_time_def set_product_ready_def split: prod.splits)

lemma steady_set: "(\<And>p. steady m p \<Longrightarrow> steady m (f p)) \<Longrightarrow> keeps (steady m) (setP f)"
  by (simp add: keeps_def setP_def)

lemma steady_update [simp]:
  "steady m (p\<lparr>pr_previous_epoch := e\<rparr>) = steady m p" "steady m (p\<lparr>pr_metadata := md\<rparr>) = steady m p"
  "steady m (p\<lparr>pr_input_mono := t\<rparr>) = steady m p" "steady m (p\<lparr>pr_cursor := c\<rparr>) = steady m p"
  "steady m (p\<lparr>pr_ready := False\<rparr>)" "steady m (p\<lparr>pr_capture := x\<rparr>) = steady m p"
  by (simp_all add: steady_def mark_def)

lemmas steady_rules = keeps_rules steady_members steady_set

lemma steady_take_turn: "keeps (steady m) take_turn"
  by (simp add: keeps_def take_turn_def)

lemma steady_serve: "keeps (steady m) (serve env k)"
  unfolding serve_def by (intro steady_rules)

lemma steady_next_loop: "keeps (steady m) (next_loop env n)"
proof (induction n)
  case (Suc n)
  then show ?case unfolding next_loop.simps by (intro steady_rules steady_take_turn steady_serve)
qed (simp add: keeps_def)

lemma steady_complete_demo_reset: "keeps (steady m) (complete_demo_reset env now)"
  unfolding complete_demo_reset_def by (intro steady_rules) simp

lemma steady_source_gap: "keeps (steady m) (source_gap env uuid)"
  unfolding source_gap_def by (intro steady_rules)

lemma steady_no_frame: "keeps (steady m) (no_frame env uuid vs)"
  unfolding no_frame_def by (intro steady_rules steady_source_gap)

lemma steady_analyse: "keeps (steady m) (analyse env wall ep)"
  unfolding analyse_def advisory_usage_def note_analysis_def by (intro steady_rules) (auto intro!: steady_rules)

lemma steady_follow: "keeps (steady m) (follow_episode env wall started ep)"
  unfolding follow_episode_def by (intro steady_rules steady_analyse) (auto intro!: steady_rules steady_analyse)

lemma steady_note_input: "keeps (steady m) (note_input t r)"
  unfolding note_input_def by (intro steady_rules) simp

lemma steady_input_observation: "keeps (steady m) (input_observation connection state reason)"
  unfolding input_observation_def by (intro steady_rules)

lemma steady_product_reset_pending: "keeps (steady m) (product_reset_pending env)"
  unfolding product_reset_pending_def by (intro steady_rules)

lemma steady_note_window: "keeps (steady m) (note_window w)"
  unfolding note_window_def by (intro steady_rules)

text \<open>Every operation but the start and the frames.\<close>

lemma steady_plain:
  "keeps (steady m) (product_update_metadata env uuid md)"
  "keeps (steady m) (product_disconnect env uuid)"
  "keeps (steady m) (expire_input env uuid t)"
  "keeps (steady m) (product_stop env)"
  "keeps (steady m) (product_accept env d response)"
  "keeps (steady m) (product_next_request env now)"
  "keeps (steady m) (product_request_written env r)"
  "keeps (steady m) (gateway_state env)"
  "keeps (steady m) (demo_control_ack env now)"
  "keeps (steady m) (demo_control_accepted env bytes)"
  unfolding product_update_metadata_def product_disconnect_def expire_input_def product_stop_def product_accept_def product_next_request_def product_request_written_def gateway_state_def demo_control_ack_def demo_control_accepted_def
  by (intro steady_rules; simp)+

lemma steady_observe_gateway: "keeps (steady m) (observe_gateway env bytes now)"
  unfolding observe_gateway_def derived_usage_def note_gateway_def by (intro steady_rules) (auto intro!: steady_rules)

lemma steady_command: "keeps (steady m) (demo_control_command env bytes now)"
  unfolding demo_control_command_def by (intro steady_rules steady_complete_demo_reset)

lemma steady_observation: "keeps (steady m) (function_observation env)"
  unfolding function_observation_def advisory_usage_def by (intro steady_rules) (auto intro!: steady_rules)

lemmas steady_ops = steady_plain steady_observe_gateway steady_command steady_observation steady_next_loop
  steady_input_observation steady_members(4)

lemma steady_step:
  assumes "steady m p" and "\<not> (\<exists>uuid vs wall mono_ms. st = PIngest uuid vs wall mono_ms)" and "\<not> (\<exists>a b c d. st = PStart a b c d)"
  shows "steady m (product_step env st p)"
  using assms by (cases st)
    (simp_all add: steady_ops [THEN keepsD] product_next_message_def reauthenticate_def advisory_observation_def)

lemma ingest_model_mark:
  assumes "p' = snd (ingest_model env uuid vs wall mono_ms p)"
  shows "steady (mark p) p' \<or>
    (\<exists>f. complete_model_frame vs wall mono_ms (pr_previous_epoch p) = Inr (Some f) \<and> steady (True, wall, pr_profile p) p')"
proof -
  let ?frame = "complete_model_frame vs wall mono_ms (pr_previous_epoch p)"
  have self: "steady (mark p) p" by (simp add: steady_def)
  consider (raised) e where "?frame = Inl e" | (none) "?frame = Inr None \<or> (\<exists>f. ?frame = Inr (Some f)) \<and> \<not> store_ready (pr_model p)"
    | (frame) f where "?frame = Inr (Some f)" "store_ready (pr_model p)"
    by (cases ?frame) (auto, metis not_None_eq)
  then show ?thesis
  proof cases
    case raised
    then show ?thesis using assms self by (simp add: ingest_model_def)
  next
    case none
    then have "p' = snd (no_frame env uuid vs p)" using assms by (auto simp: ingest_model_def)
    then show ?thesis using keepsD [OF steady_no_frame self] by simp
  next
    case frame
    let ?p1 = "p\<lparr>pr_previous_epoch := mf_source_epoch_ms f\<rparr>"
    obtain c r where c: "capture_ingest uuid f (pr_capture p) = (c, r)" by fastforce
    show ?thesis
    proof (cases r)
      case (Inl e)
      then have "p' = ?p1\<lparr>pr_capture := c\<rparr>"
        using assms frame c by (simp add: ingest_model_def bindS_def setP_def askP_def on_capture_def)
      then show ?thesis using self by simp
    next
      case (Inr ep)
      let ?p2 = "?p1\<lparr>pr_capture := c, pr_ready := True, pr_telemetry_at := wall\<rparr>"
      have m: "steady (True, wall, pr_profile p) ?p2" by (simp add: steady_def mark_def)
      have "p' = snd (follow_episode env wall (\<not> mc_capturing (pr_capture p) \<and> mc_capturing c) ep ?p2)"
        using assms frame c Inr by (simp add: ingest_model_def bindS_def setP_def askP_def on_capture_def)
      with keepsD [OF steady_follow m] have "steady (True, wall, pr_profile p) p'" by simp
      then show ?thesis using frame(1) by blast
    qed
  qed
qed

lemma ingest_mark:
  assumes "has_advisory p"
  shows "steady (mark p) (snd (product_ingest env uuid vs wall mono_ms p)) \<or>
    (\<exists>f. complete_model_frame vs wall mono_ms (pr_previous_epoch p) = Inr (Some f) \<and>
         steady (True, wall, ProfileV3) (snd (product_ingest env uuid vs wall mono_ms p)))"
proof -
  let ?q = "snd (product_ingest env uuid vs wall mono_ms p)"
  have self: "steady (mark p) p" by (simp add: steady_def)
  obtain r p1 where p1: "product_reset_pending env p = (r, p1)" by fastforce
  have s1: "steady (mark p) p1" using keepsE [OF steady_product_reset_pending self p1] .
  have same: "pr_profile p1 = ProfileV3" "pr_previous_epoch p1 = pr_previous_epoch p" "mark p1 = mark p"
    using p1 assms by (auto simp: product_reset_pending_def bindS_def askP_def on_advisory_def has_advisory_def mark_def split: prod.splits)
  show ?thesis
  proof (cases "r = Inr False \<and> length vs = 12 \<and> \<not> bad_frame vs wall p1")
    case True
    let ?p2 = "snd (ingest_model env uuid vs wall mono_ms p1)"
    have "?q = ?p2 \<or> (\<exists>o1. ?q = snd (note_input mono_ms o1 ?p2))"
      using True same by (auto simp: product_ingest_def bindS_def p1 askP_def split: prod.splits sum.splits)
    then have "steady m ?p2 \<Longrightarrow> steady m ?q" for m using keepsD [OF steady_note_input] by metis
    then show ?thesis using ingest_model_mark [OF refl, of p1 env uuid vs wall mono_ms] unfolding same by metis
  next
    case False
    then have "?q = p1 \<or> ?q = snd (source_gap env uuid p1)"
      using same by (cases r) (auto simp: product_ingest_def bindS_def p1 askP_def checkS_def)
    then show ?thesis using s1 keepsD [OF steady_source_gap s1] by auto
  qed
qed

text \<open>The profile is that of the start.\<close>

lemma profile_members:
  "keeps (\<lambda>p. pr_profile p = x) (on_legacy f)" "keeps (\<lambda>p. pr_profile p = x) (on_model g)" "keeps (\<lambda>p. pr_profile p = x) (on_advisory h)"
  "keeps (\<lambda>p. pr_profile p = x) (on_function i)" "keeps (\<lambda>p. pr_profile p = x) (on_capture j)" "keeps (\<lambda>p. pr_profile p = x) (askP l)"
  "keeps (\<lambda>p. pr_profile p = x) (abort_capture t)" "keeps (\<lambda>p. pr_profile p = x) (set_product_ready b)"
  "(\<And>p. pr_profile (k p) = pr_profile p) \<Longrightarrow> keeps (\<lambda>p. pr_profile p = x) (setP k)"
  by (auto simp: keeps_def member_ops abort_capture_def set_product_ready_def split: prod.splits)

lemmas profile_rules = keeps_rules profile_members

lemma profile_gap: "keeps (\<lambda>p. pr_profile p = x) (source_gap env uuid)"
  unfolding source_gap_def by (intro profile_rules)

lemma profile_follow: "keeps (\<lambda>p. pr_profile p = x) (follow_episode env wall started ep)"
  unfolding follow_episode_def analyse_def advisory_usage_def note_analysis_def
  by (intro profile_rules) (auto intro!: profile_rules)

lemma profile_v1: "keeps (\<lambda>p. pr_profile p = x) (ingest_v1 env uuid vs wall mono_ms)"
  unfolding ingest_v1_def no_frame_def note_window_def by (intro profile_rules profile_gap) (auto intro!: profile_rules)

lemma profile_model: "keeps (\<lambda>p. pr_profile p = x) (ingest_model env uuid vs wall mono_ms)"
  unfolding ingest_model_def no_frame_def by (intro profile_rules profile_gap profile_follow) simp_all

lemma profile_ingest: "keeps (\<lambda>p. pr_profile p = x) (product_ingest env uuid vs wall mono_ms)"
  unfolding product_ingest_def product_reset_pending_def note_input_def
  by (intro profile_rules profile_gap profile_v1 profile_model) simp_all

text \<open>
  The interruptions, whether or not the call returns normally: a start, a frame that is not coherent,
  a change of the contract, a disconnection, an expiry of the input and a stop.
\<close>

fun interrupts :: "Surroundings \<Rightarrow> ProductStep \<Rightarrow> Product \<Rightarrow> bool" where
  "interrupts env (PStart md profile fresh now) p = True"
| "interrupts env (PIngest uuid vs wall mono_ms) p =
     (fst (product_reset_pending env p) = Inr False \<and> length vs = (if pr_profile p = ProfileV1 then 6 else 12) \<and> bad_frame vs wall p)"
| "interrupts env (PMetadata uuid md) p =
     (vdp_contract_sha256 (pr_metadata p) \<noteq> vdp_contract_sha256 md \<or> vdp_contract_version (pr_metadata p) \<noteq> vdp_contract_version md)"
| "interrupts env (PDisconnect uuid) p = True"
| "interrupts env (PExpire uuid mono_ms) p = (0 \<le> pr_input_mono p \<and> frame_limit (pr_profile p) < mono_ms - pr_input_mono p)"
| "interrupts env PStop p = True"
| "interrupts env st p = False"

text \<open>
  Whether such a call raises. In the source \<open>ready_\<close> is cleared after the event runtime was told of the
  interruption, so a call that raises before that point leaves it as it was.
\<close>

fun raises :: "Surroundings \<Rightarrow> ProductStep \<Rightarrow> Product \<Rightarrow> bool" where
  "raises env (PIngest uuid vs wall mono_ms) p = (\<not> okE (fst (product_ingest env uuid vs wall mono_ms p)))"
| "raises env (PMetadata uuid md) p = (\<not> okE (fst (product_update_metadata env uuid md p)))"
| "raises env (PDisconnect uuid) p = (\<not> okE (fst (product_disconnect env uuid p)))"
| "raises env (PExpire uuid mono_ms) p = (\<not> okE (fst (expire_input env uuid mono_ms p)))"
| "raises env PStop p = (\<not> okE (fst (product_stop env p)))"
| "raises env st p = False"

lemma steady_False: "steady (False, t, profile) p \<longleftrightarrow> \<not> pr_ready p"
  by (auto simp: steady_def mark_def)

lemma start_not_ready: "\<not> pr_ready (snd (Product_init env md profile fresh now p))"
proof -
  have "keeps (steady (False, 0, profile)) (Product_init_body env fresh now)"
    unfolding Product_init_body_def by (intro steady_rules steady_complete_demo_reset)
  moreover have "steady (False, 0, profile) (new_product md profile p)" by (simp add: steady_False new_product_def)
  ultimately have "steady (False, 0, profile) (snd (Product_init env md profile fresh now p))"
    unfolding Product_init_def by (rule keepsD)
  then show ?thesis by (simp add: steady_False)
qed

lemma source_gap_not_ready: "okE (fst (source_gap env uuid p)) \<Longrightarrow> \<not> pr_ready (snd (source_gap env uuid p))"
  by (auto simp: source_gap_def bindS_def okE_def set_product_ready_def setP_def split: prod.splits sum.splits)

lemma interrupted_not_ready:
  assumes "interrupts env st p" and "\<not> raises env st p"
  shows "\<not> pr_ready (product_step env st p)"
proof (cases st)
  case (PStart a b c d)
  then show ?thesis using start_not_ready by simp
next
  case (PIngest uuid vs wall mono_ms)
  obtain r p1 where p1: "product_reset_pending env p = (r, p1)" by fastforce
  then have "bad_frame vs wall p1 = bad_frame vs wall p" "pr_profile p1 = pr_profile p"
    by (auto simp: product_reset_pending_def bindS_def askP_def on_advisory_def bad_frame_def coherent_def Let_def split: prod.splits if_splits)
  with assms PIngest p1 have "product_ingest env uuid vs wall mono_ms p = source_gap env uuid p1" "okE (fst (source_gap env uuid p1))"
    by (auto simp: product_ingest_def bindS_def askP_def checkS_def okE_def split: if_splits sum.splits)
  then show ?thesis using PIngest source_gap_not_ready by simp
qed (use assms in \<open>auto simp: product_update_metadata_def product_disconnect_def expire_input_def product_stop_def bindS_def okE_def
      set_product_ready_def setP_def askP_def abort_capture_def on_capture_def ok_outcome_def on_legacy_def on_function_def
      split: prod.splits sum.splits if_splits\<close>)

text \<open>When the event runtime raises at a disconnection, a stop or an expiry, the product stays as ready as it was.\<close>

lemma raised_interruption_keeps_readiness:
  shows "fst (disconnect (environment env) uuid (pr_legacy p)) = Inl x \<Longrightarrow> fst (product_disconnect env uuid p) = Inl x \<and>
      advisory_readiness now (snd (product_disconnect env uuid p)) = advisory_readiness now p"
    and "fst (stop (environment env) (pr_legacy p)) = Inl x \<Longrightarrow> fst (product_stop env p) = Inl x \<and>
      advisory_readiness now (snd (product_stop env p)) = advisory_readiness now p"
    and "fst (disconnect (environment env) uuid (pr_legacy p)) = Inl x \<Longrightarrow> interrupts env (PExpire uuid mono_ms) p \<Longrightarrow>
      fst (expire_input env uuid mono_ms p) = Inl x \<and> advisory_readiness now (snd (expire_input env uuid mono_ms p)) = advisory_readiness now p"
  by (auto simp: product_disconnect_def product_stop_def expire_input_def clear_input_time_def setP_def askP_def readS_def bindS_def on_legacy_def advisory_readiness_def fresh_telemetry_def has_advisory_def
      split: prod.splits)

section \<open>Runs\<close>

definition product_run :: "(Surroundings \<times> ProductStep) list \<Rightarrow> Product \<Rightarrow> Product" where
  "product_run steps p = foldl (\<lambda>q (env, st). product_step env st q) p steps"

text \<open>No interruption took effect: there was none but those that raised.\<close>

fun undisturbed :: "(Surroundings \<times> ProductStep) list \<Rightarrow> Product \<Rightarrow> bool" where
  "undisturbed [] p \<longleftrightarrow> True"
| "undisturbed ((env, st) # steps) p \<longleftrightarrow> (interrupts env st p \<longrightarrow> raises env st p) \<and> undisturbed steps (product_step env st p)"

lemma product_run_simps [simp]:
  "product_run [] p = p" "product_run ((env, st) # steps) p = product_run steps (product_step env st p)"
  "product_run (xs @ ys) p = product_run ys (product_run xs p)"
  by (simp_all add: product_run_def)

lemma undisturbed_append: "undisturbed (xs @ ys) p \<longleftrightarrow> undisturbed xs p \<and> undisturbed ys (product_run xs p)"
  by (induction xs arbitrary: p) auto

text \<open>The frame that made the product ready, and everything since.\<close>

definition justified :: "(Surroundings \<times> ProductStep) list \<Rightarrow> Product \<Rightarrow> int \<Rightarrow> bool" where
  "justified steps p wall \<longleftrightarrow>
     (\<exists>front env uuid vs mono_ms post f.
        steps = front @ (env, PIngest uuid vs wall mono_ms) # post \<and>
        complete_model_frame vs wall mono_ms (pr_previous_epoch (product_run front p)) = Inr (Some f) \<and>
        undisturbed post (product_run (front @ [(env, PIngest uuid vs wall mono_ms)]) p))"

lemma justified_snoc:
  assumes "justified steps p wall" and "interrupts env st (product_run steps p) \<longrightarrow> raises env st (product_run steps p)"
  shows "justified (steps @ [(env, st)]) p wall"
proof -
  from assms(1) obtain front env0 uuid vs mono_ms post f where
    "steps = front @ (env0, PIngest uuid vs wall mono_ms) # post"
    "complete_model_frame vs wall mono_ms (pr_previous_epoch (product_run front p)) = Inr (Some f)"
    "undisturbed post (product_run (front @ [(env0, PIngest uuid vs wall mono_ms)]) p)"
    unfolding justified_def by blast
  with assms(2) show ?thesis
    unfolding justified_def
    by (intro exI [of _ front] exI [of _ env0] exI [of _ uuid] exI [of _ vs] exI [of _ mono_ms] exI [of _ "post @ [(env, st)]"] exI [of _ f])
      (simp add: undisturbed_append)
qed

lemma ready_justified:
  assumes "\<not> pr_ready p" and "pr_ready (product_run steps p)" and "has_advisory (product_run steps p)"
  shows "justified steps p (pr_telemetry_at (product_run steps p))"
  using assms(2,3)
proof (induction steps rule: rev_induct)
  case Nil
  with assms(1) show ?case by simp
next
  case (snoc x steps)
  obtain env st where x: "x = (env, st)" by fastforce
  let ?q = "product_run steps p" and ?r = "product_step env st (product_run steps p)"
  have ready: "pr_ready ?r" "has_advisory ?r" using snoc.prems x by simp_all
  have quiet: "interrupts env st ?q \<longrightarrow> raises env st ?q" using interrupted_not_ready ready(1) by blast
  have kept: ?case if "steady (mark ?q) ?r"
  proof -
    from that ready have "pr_ready ?q" "has_advisory ?q" "pr_telemetry_at ?r = pr_telemetry_at ?q"
      by (auto simp: steady_def mark_def has_advisory_def)
    with snoc.IH justified_snoc quiet show ?thesis by (simp add: x)
  qed
  show ?case
  proof (cases "\<exists>uuid vs wall mono_ms. st = PIngest uuid vs wall mono_ms")
    case False
    moreover have "\<not> (\<exists>a b c d. st = PStart a b c d)" using quiet by auto
    ultimately show ?thesis using kept steady_step [of "mark ?q" ?q st env] by (auto simp: steady_def)
  next
    case True
    then obtain uuid vs wall mono_ms where st: "st = PIngest uuid vs wall mono_ms" by blast
    have adv: "has_advisory ?q"
      using keepsD [OF profile_ingest, of "product_run steps p" "pr_profile (product_run steps p)"] ready(2) st by (simp add: has_advisory_def)
    from ingest_mark [OF adv, of env uuid vs wall mono_ms]
    show ?thesis
    proof (elim disjE exE conjE)
      fix f
      assume f: "complete_model_frame vs wall mono_ms (pr_previous_epoch ?q) = Inr (Some f)"
        and s: "steady (True, wall, ProfileV3) (snd (product_ingest env uuid vs wall mono_ms ?q))"
      from s ready st have "pr_telemetry_at ?r = wall" by (auto simp: steady_def mark_def)
      moreover have "justified (steps @ [(env, st)]) p wall"
        unfolding justified_def using f st by (intro exI [of _ steps] exI conjI) auto
      ultimately show ?thesis by (simp add: x)
    qed (use kept st in simp)
  qed
qed

lemma readiness_text:
  assumes "advisory_readiness now p = Inr t" and "parse_json fc t 65536 = Inr j" and "json_at ''ready'' j = Inr (JBool True)"
  shows "fresh_telemetry now p"
proof -
  from assms(1) obtain ts where e: "encode_json (json_fields
      [(''schemaVersion'', JInt 1), (''ready'', JBool (fresh_telemetry now p)), (''observedAt'', JString ts)]) = Inr t"
    by (auto simp: advisory_readiness_def bindE_eq_Inr)
  let ?j = "json_fields [(''schemaVersion'', JInt 1), (''ready'', JBool (fresh_telemetry now p)), (''observedAt'', JString ts)]"
  have "doc 1 ?j" unfolding One_nat_def by (rule doc_fields) (simp add: i64_min_def i64_max_def)
  then have "parse_json fc t 65536 = (if length t \<le> 65536 then Inr ?j else Inl invalid_json)" using parse_doc [OF e] doc_mono by simp
  with assms(2) have "j = ?j" by (auto split: if_splits)
  with assms(3) show ?thesis by (auto simp: json_fields_def json_order json_at_def json_object_def)
qed

text \<open>C35. The readiness the product reports for advisories is justified: when a run from a state that is not
  ready reports ready at some time, then a complete model frame was accepted in the run at most 5000
  milliseconds before that time, and no start, invalid frame, disconnection, expiry, stop or change of
  the contract came after it, except one that came back with an error (the event runtime, which is
  called before \<open>ready_\<close> is cleared, raises when it cannot store the window the interruption closes).
\<close>

theorem readiness_justified:
  assumes "\<not> pr_ready p" and "advisory_readiness now (product_run steps p) = Inr t"
    and "parse_json fc t 65536 = Inr j" and "json_at ''ready'' j = Inr (JBool True)"
  shows "\<exists>wall. justified steps p wall \<and> 0 \<le> wall \<and> wall \<le> now \<and> now \<le> wall + 5000"
proof -
  from readiness_text [OF assms(2-4)] have f: "fresh_telemetry now (product_run steps p)" .
  then have "justified steps p (pr_telemetry_at (product_run steps p))"
    using ready_justified [OF assms(1)] by (simp add: fresh_telemetry_def)
  with f show ?thesis by (auto simp: fresh_telemetry_def)
qed

definition sample_advisory_product :: Product where
  "sample_advisory_product = empty_product\<lparr>pr_profile := ProfileV3, pr_function := FunctionFacts_new True,
     pr_advisory := sample_runtime\<lparr>adv_files := [(''state.json'', case encode_json (json_fields [(''schemaVersion'', JInt 1),
       (''producerEpoch'', JString Advisory_Ledger.sample_epoch), (''nextSequence'', JInt 1), (''requests'', JArray [])]) of Inr t \<Rightarrow> t | Inl _ \<Rightarrow> [])]\<rparr>\<rparr>"

definition sample_frame_step :: "Surroundings \<times> ProductStep" where
  "sample_frame_step = (calm_world, PIngest (Inr Advisory_Ledger.sample_epoch) demo_twelve 1010 5)"

theorem readiness_justified_witness:
  "\<exists>wall. justified [sample_frame_step] sample_advisory_product wall \<and> 0 \<le> wall \<and> wall \<le> 1500 \<and> 1500 \<le> wall + 5000"
proof -
  let ?r = "advisory_readiness 1500 (product_run [sample_frame_step] sample_advisory_product)"
  have "(case bindE ?r (\<lambda>t. bindE (parse_json (\<lambda>_. None) t 65536) (json_at ''ready'')) of Inr v \<Rightarrow> v = JBool True | Inl _ \<Rightarrow> False)"
    by code_simp
  then obtain t j where "?r = Inr t" "parse_json (\<lambda>_. None) t 65536 = Inr j" "json_at ''ready'' j = Inr (JBool True)"
    by (auto simp: bindE_def split: sum.splits)
  moreover have "\<not> pr_ready sample_advisory_product" by (simp add: sample_advisory_product_def empty_product_def)
  ultimately show ?thesis using readiness_justified by blast
qed

end
