(* ===== verification/Bootstrap.thy ===== *)
theory Bootstrap
  imports Runtime Inputs Transport
begin

text \<open>
  The bootstrap process: the private token directory (\<^verbatim>\<open>runtime/token_session.cpp\<close>) and the loop that keeps
  a token for the analytics process (\<^verbatim>\<open>runtime/bootstrap_main.cpp\<close>). What the kernel answers is an
  argument: which directories open, the owner and mode of a directory, its entries, whether a file is
  written or removed, and when the answer to a request for a token arrives.
\<close>

section \<open>The token directory\<close>

definition token_invalid :: exn where
  "token_invalid = Runtime_error ''TOKEN_DIRECTORY_INVALID''"

definition token_root :: string where
  "token_root = ''/run/aosedge/secrets/kuksa''"

text \<open>
  The elements of a path after its root: the parts between slashes, repeated slashes as one, and an
  empty element for a slash at the end.
\<close>

definition path_elements :: "string \<Rightarrow> string list" where
  "path_elements p =
     (let parts = filter (\<lambda>x. x \<noteq> []) (split_on (CHR ''/'') p)
      in if parts \<noteq> [] \<and> last p = CHR ''/'' then parts @ [[]] else parts)"

text \<open>\<open>opens\<close> tells whether the elements so far name a directory that is not a link.\<close>

fun walk :: "(string list \<Rightarrow> bool) \<Rightarrow> string list \<Rightarrow> string list \<Rightarrow> string list result" where
  "walk opens current [] = Inr current"
| "walk opens current (c # cs) =
     (if c = [] \<or> c = ''.'' \<or> c = ''..'' then Inl token_invalid
      else if \<not> opens (current @ [c]) then Inl token_invalid
      else walk opens (current @ [c]) cs)"

definition open_directory :: "(string list \<Rightarrow> bool) \<Rightarrow> string \<Rightarrow> string list result" where
  "open_directory opens path =
     (if path = [] \<or> hd path \<noteq> CHR ''/'' \<or> list_ex (\<lambda>c. c = ''.'' \<or> c = ''..'') (path_elements path) then Inl token_invalid
      else if \<not> opens [] then Inl token_invalid
      else walk opens [] (path_elements path))"

definition session_name :: "string \<Rightarrow> bool" where
  "session_name name \<longleftrightarrow> length name = 14 \<and> take 8 name = ''session-'' \<and>
     list_all (\<lambda>c. is_lower c \<or> is_upper c \<or> is_dec c) (drop 8 name)"

record DirectoryStat =
  st_owned :: bool
  st_group :: bool
  st_root_owned :: bool
  st_mode :: nat

record TokenKernel =
  tk_opens :: "string list \<Rightarrow> bool"
  tk_stat :: "string list \<Rightarrow> DirectoryStat option"
  tk_lock :: bool
  tk_scan :: "string list option"
  tk_mkdtemp :: "string option"

definition open_private_token_directory :: "TokenKernel \<Rightarrow> string \<Rightarrow> string list result" where
  "open_private_token_directory k directory =
     bindE (open_directory (tk_opens k) directory) (\<lambda>d.
       case tk_stat k d of
         None \<Rightarrow> Inl token_invalid
       | Some st \<Rightarrow> if \<not> st_owned st \<or> \<not> st_group st \<or> st_mode st \<noteq> 448 then Inl token_invalid else Inr d)"

text \<open>The directory of the sessions, and the one this process made.\<close>

record TokenSession =
  ts_sessions :: "string list"
  ts_name :: "string option"
  ts_token :: "string option"

definition session_count :: "string list \<Rightarrow> nat" where
  "session_count names = length (filter (\<lambda>n. take 8 n = ''session-'') names)"

definition check_root :: "TokenKernel \<Rightarrow> string \<Rightarrow> unit result" where
  "check_root k base =
     bindE (open_directory (tk_opens k) base) (\<lambda>d.
       case tk_stat k d of
         None \<Rightarrow> Inl token_invalid
       | Some st \<Rightarrow>
           if st_mode st \<noteq> 1023 \<or> \<not> (if base = token_root then st_root_owned st else st_owned st) then Inl token_invalid
           else throwIf (\<not> tk_lock k) token_invalid)"

definition TokenSession_open :: "TokenKernel \<Rightarrow> string \<Rightarrow> (TokenSession, unit) op" where
  "TokenSession_open k base =
     bindS (liftS (check_root k base)) (\<lambda>_.
     bindS (liftS (case tk_scan k of None \<Rightarrow> Inl token_invalid | Some names \<Rightarrow> Inr names)) (\<lambda>names.
     bindS (checkS (session_count names \<ge> 8) (Runtime_error ''TOKEN_SESSION_CAPACITY_EXCEEDED'')) (\<lambda>_.
     bindS (liftS (case tk_mkdtemp k of None \<Rightarrow> Inl token_invalid | Some name \<Rightarrow> Inr name)) (\<lambda>name.
     bindS (\<lambda>s. (Inr (), s\<lparr>ts_sessions := ts_sessions s @ [name]\<rparr>)) (\<lambda>_.
       (\<lambda>s. (case bindE (open_private_token_directory k (base @ ''/'' @ name)) (\<lambda>_. throwIf (\<not> session_name name) token_invalid) of
               Inl e \<Rightarrow> (Inl e, s\<lparr>ts_sessions := filter (\<lambda>n. n \<noteq> name) (ts_sessions s)\<rparr>)
             | Inr _ \<Rightarrow> (Inr (), s\<lparr>ts_name := Some name\<rparr>))))))))"

definition TokenSession_close :: "TokenSession \<Rightarrow> TokenSession" where
  "TokenSession_close s =
     (case ts_name s of
        None \<Rightarrow> s
      | Some name \<Rightarrow> s\<lparr>ts_token := None, ts_sessions := filter (\<lambda>n. n \<noteq> name) (ts_sessions s)\<rparr>)"

definition credential_environment :: exn where
  "credential_environment = Runtime_error ''CREDENTIAL_ENVIRONMENT_INVALID''"

definition token_file_from_environment :: "TokenKernel \<Rightarrow> string option \<Rightarrow> string result" where
  "token_file_from_environment k value =
     (case value of
        None \<Rightarrow> Inl credential_environment
      | Some path \<Rightarrow>
          (let cs = path_elements path
           in if length cs < 2 \<or> hd path \<noteq> CHR ''/'' \<or> last cs \<noteq> ''token.jwt'' \<or> butlast (butlast cs) \<noteq> path_elements token_root \<or>
                 \<not> session_name (last (butlast cs))
              then Inl credential_environment
              else bindE (open_private_token_directory k (token_root @ ''/'' @ last (butlast cs))) (\<lambda>_. Inr path)))"

section \<open>The token file\<close>

text \<open>What the kernel answers to \<open>write\<close>, and to the other calls that replace a private file.\<close>

datatype WriteAnswer = WroteBytes nat | WriteInterrupted | WriteFailed

record PrivateWrite =
  pw_directory :: bool
  pw_created :: bool
  pw_writes :: "WriteAnswer list"
  pw_renamed :: bool

definition token_write_failed :: exn where
  "token_write_failed = Runtime_error ''TOKEN_WRITE_FAILED''"

text \<open>The loop of writes: what the temporary file holds in the end. Answers that run out are a failure.\<close>

fun write_loop :: "WriteAnswer list \<Rightarrow> string \<Rightarrow> string \<Rightarrow> string result" where
  "write_loop as [] file = Inr file"
| "write_loop [] bytes file = Inl token_write_failed"
| "write_loop (a # as) bytes file =
     (case a of
        WriteInterrupted \<Rightarrow> write_loop as bytes file
      | WriteFailed \<Rightarrow> Inl token_write_failed
      | WroteBytes n \<Rightarrow> if n = 0 then Inl token_write_failed else write_loop as (drop n bytes) (file @ take n bytes))"

text \<open>The content of the file after the rename.\<close>

definition atomic_private_file :: "PrivateWrite \<Rightarrow> nat \<Rightarrow> string \<Rightarrow> string result" where
  "atomic_private_file k mode bytes =
     (if mode \<noteq> 256 \<and> mode \<noteq> 384 then Inl (Invalid_argument ''PRIVATE_FILE_MODE_INVALID'')
      else if \<not> pw_directory k then Inl token_invalid
      else if \<not> pw_created k then Inl token_write_failed
      else bindE (write_loop (pw_writes k) bytes []) (\<lambda>file. if pw_renamed k then Inr file else Inl token_write_failed))"

lemma write_loop_whole: "write_loop as bytes dest = Inr x \<Longrightarrow> x = dest @ bytes"
proof (induction as bytes dest rule: write_loop.induct)
  case (3 a as b bs dest)
  then show ?case by (cases a) (auto split: if_splits)
qed auto

text \<open>A private file that is replaced holds exactly the bytes it was given.\<close>

lemma atomic_private_file_whole: "atomic_private_file k mode bytes = Inr x \<Longrightarrow> x = bytes"
  by (auto simp: atomic_private_file_def bindE_eq_Inr dest: write_loop_whole split: if_splits)

section \<open>The start of the bootstrap\<close>

text \<open>The request made from the secret of the environment, which is removed from it.\<close>

definition take_secret :: "string option \<Rightarrow> bool \<Rightarrow> string result" where
  "take_secret environment_secret unset =
     (if environment_secret = None \<or> environment_secret = Some [] then Inl (Runtime_error ''AOS_SECRET_UNAVAILABLE'')
      else bindE (credential_request (the environment_secret)) (\<lambda>request.
        if unset then Inr request else Inl (Runtime_error ''CREDENTIAL_ENVIRONMENT_INVALID'')))"

definition inputs_line :: "bool \<Rightarrow> string" where
  "inputs_line available =
     ''{\"schemaVersion\":1,\"eventType\":\"SERVICE_INPUTS_CHANGED\",\"severity\":\"INFO\",\"currentState\":\"'' @
     (if available then ''AVAILABLE\",\"reasonCode\":\"NONE\"}'' else ''WAITING\",\"reasonCode\":\"INITIAL_PUBLIC_INPUTS_MISSING\"}'')"

text \<open>
  The wait for the public inputs: what \<open>initial_runtime_metadata\<close> answers round by round until the
  process is interrupted. The lines written, and whether the inputs came.
\<close>

fun wait_inputs :: "bool \<Rightarrow> MessageMetadata option result list \<Rightarrow> string list \<times> bool result" where
  "wait_inputs reported [] = ([], Inr False)"
| "wait_inputs reported (a # as) =
     (case a of
        Inl e \<Rightarrow> ([], Inl e)
      | Inr (Some md) \<Rightarrow> (if reported then [inputs_line True] else [], Inr True)
      | Inr None \<Rightarrow> (case wait_inputs True as of (ls, r) \<Rightarrow> (if reported then ls else inputs_line False # ls, r)))"

lemma wait_inputs_reported:
  "fst (wait_inputs True as) = (if snd (wait_inputs True as) = Inr True then [inputs_line True] else [])"
  by (induction as) (auto split: sum.splits option.splits prod.splits)

text \<open>The waiting is reported at most once, and its end exactly when the inputs came after it.\<close>

lemma wait_inputs_lines:
  "fst (wait_inputs False as) =
     (if as \<noteq> [] \<and> hd as = Inr None
      then inputs_line False # (if snd (wait_inputs False as) = Inr True then [inputs_line True] else []) else [])"
  using wait_inputs_reported [of "tl as"] by (cases as) (auto split: sum.splits option.splits prod.splits if_splits)

section \<open>The loop of the bootstrap\<close>

record Bootstrap =
  bs_token :: "string option"
  bs_lease :: Lease
  bs_has_token :: bool
  bs_terminal :: bool
  bs_next_attempt :: int
  bs_failures :: nat
  bs_issue :: "Credential result option option"
  bs_auth :: "bool list"

type_synonym 'a bootstrap_op = "(Bootstrap, 'a) op"

definition Bootstrap_new :: Bootstrap where
  "Bootstrap_new = \<lparr>bs_token = None, bs_lease = \<lparr>expires_wall = 0, expires_boot = 0, renew_boot = 0\<rparr>, bs_has_token = False,
     bs_terminal = False, bs_next_attempt = 0, bs_failures = 0, bs_issue = None, bs_auth = [False]\<rparr>"

datatype ChildExit = ExitStatus int | KilledBySignal

record Tick =
  tick_boot :: int
  tick_wall :: int
  tick_jitter :: dbl
  tick_round :: "rat \<Rightarrow> rat"
  tick_removes :: bool
  tick_write :: PrivateWrite
  tick_child :: "ChildExit option"

definition setB :: "(Bootstrap \<Rightarrow> Bootstrap) \<Rightarrow> unit bootstrap_op" where
  "setB f b = (Inr (), f b)"

definition auth_state :: "bool \<Rightarrow> unit bootstrap_op" where
  "auth_state ready = setB (\<lambda>b. b\<lparr>bs_auth := bs_auth b @ [ready]\<rparr>)"

definition remove_token :: "Tick \<Rightarrow> unit bootstrap_op" where
  "remove_token t b = (if tick_removes t then (Inr (), b\<lparr>bs_token := None\<rparr>) else (Inl (Runtime_error ''TOKEN_REMOVE_FAILED''), b))"

definition write_token :: "Tick \<Rightarrow> string \<Rightarrow> unit bootstrap_op" where
  "write_token t token b =
     (case atomic_private_file (tick_write t) 256 token of Inl e \<Rightarrow> (Inl e, b) | Inr file \<Rightarrow> (Inr (), b\<lparr>bs_token := Some file\<rparr>))"

definition retry_later :: "Tick \<Rightarrow> unit bootstrap_op" where
  "retry_later t =
     bindS (\<lambda>b. (Inr (bs_failures b), b\<lparr>bs_failures := (bs_failures b + 1) mod 2 ^ 32\<rparr>)) (\<lambda>n.
     bindS (liftS (retry_delay (tick_round t) n (tick_jitter t) 0)) (\<lambda>d.
       setB (\<lambda>b. b\<lparr>bs_next_attempt := tick_boot t + d * 1000\<rparr>)))"

definition drop_expired :: "Tick \<Rightarrow> unit bootstrap_op" where
  "drop_expired t =
     bindS (readS (\<lambda>b. Inr (bs_has_token b \<and> lease_expired (bs_lease b) (tick_wall t) (tick_boot t)))) (\<lambda>expired.
       if expired
       then bindS (remove_token t) (\<lambda>_. bindS (setB (\<lambda>b. b\<lparr>bs_has_token := False\<rparr>)) (\<lambda>_. auth_state False))
       else returnS ())"

definition install_token :: "Tick \<Rightarrow> Credential \<Rightarrow> unit bootstrap_op" where
  "install_token t c =
     (if cred_expires c \<le> tick_wall t \<or> cred_renew_after c \<le> tick_wall t then throwS (Runtime_error ''KAC_RESPONSE_EXPIRED'')
      else
        bindS (write_token t (cred_token c)) (\<lambda>_.
        bindS (setB (\<lambda>b. b\<lparr>bs_lease := lease_issued c (tick_wall t) (tick_boot t)\<rparr>)) (\<lambda>_.
        bindS (setB (\<lambda>b. b\<lparr>bs_next_attempt := renew_boot (bs_lease b), bs_failures := 0\<rparr>)) (\<lambda>_.
        bindS (readS (\<lambda>b. Inr (bs_has_token b))) (\<lambda>had.
        bindS (if had then returnS () else auth_state True) (\<lambda>_.
          setB (\<lambda>b. b\<lparr>bs_has_token := True\<rparr>)))))))"

definition end_access :: "Tick \<Rightarrow> unit bootstrap_op" where
  "end_access t =
     bindS (remove_token t) (\<lambda>_.
     bindS (setB (\<lambda>b. b\<lparr>bs_terminal := True\<rparr>)) (\<lambda>_.
     bindS (readS (\<lambda>b. Inr (bs_has_token b))) (\<lambda>had.
     bindS (if had then auth_state False else returnS ()) (\<lambda>_.
       setB (\<lambda>b. b\<lparr>bs_has_token := False\<rparr>)))))"

definition receive_credential :: "Tick \<Rightarrow> unit bootstrap_op" where
  "receive_credential t =
     bindS (readS (\<lambda>b. Inr (bs_issue b))) (\<lambda>issue.
       case issue of
         Some (Some r) \<Rightarrow>
           bindS (setB (\<lambda>b. b\<lparr>bs_issue := None\<rparr>)) (\<lambda>_.
             case r of
               Inl _ \<Rightarrow> retry_later t
             | Inr c \<Rightarrow> if cred_token c \<noteq> [] then install_token t c else if \<not> cred_retryable c then end_access t else retry_later t)
       | _ \<Rightarrow> returnS ())"

definition request_credential :: "Tick \<Rightarrow> unit bootstrap_op" where
  "request_credential t = setB (\<lambda>b.
     if bs_issue b = None \<and> \<not> bs_terminal b \<and> tick_boot t \<ge> bs_next_attempt b then b\<lparr>bs_issue := Some None\<rparr> else b)"

text \<open>One round of the loop: the exit code when the child has ended.\<close>

definition bootstrap_tick :: "Tick \<Rightarrow> int option bootstrap_op" where
  "bootstrap_tick t =
     (case tick_child t of
        Some e \<Rightarrow> bindS (remove_token t) (\<lambda>_. returnS (Some (case e of ExitStatus n \<Rightarrow> n | KilledBySignal \<Rightarrow> 1)))
      | None \<Rightarrow>
          bindS (drop_expired t) (\<lambda>_.
          bindS (receive_credential t) (\<lambda>_.
          bindS (request_credential t) (\<lambda>_. returnS None))))"

section \<open>The token and its lease\<close>

text \<open>
  Runs of the loop: rounds that go on, and the arrival of answers between them. The last two arguments
  are the wall clock and the boot clock of the last round.
\<close>

inductive bootstrapping :: "Bootstrap \<Rightarrow> int \<Rightarrow> int \<Rightarrow> bool" where
  begins: "bootstrapping Bootstrap_new wall boot"
| ticks: "bootstrapping b wall boot \<Longrightarrow> 0 \<le> tick_wall t \<Longrightarrow> bootstrap_tick t b = (Inr None, b') \<Longrightarrow>
    bootstrapping b' (tick_wall t) (tick_boot t)"
| arrives: "bootstrapping b wall boot \<Longrightarrow> bs_issue b = Some None \<Longrightarrow> bootstrapping (b\<lparr>bs_issue := Some (Some r)\<rparr>) wall boot"

inductive_cases bootstrappingE: "bootstrapping b wall boot"

definition token_guarded :: "int \<Rightarrow> int \<Rightarrow> Bootstrap \<Rightarrow> bool" where
  "token_guarded wall boot b \<longleftrightarrow> (bs_token b \<noteq> None \<longrightarrow> bs_has_token b \<and> \<not> lease_expired (bs_lease b) wall boot)"

definition access_ended :: "Bootstrap \<Rightarrow> bool" where
  "access_ended b \<longleftrightarrow> (bs_terminal b \<longrightarrow> bs_token b = None \<and> bs_issue b = None)"

lemma lease_issued_live:
  assumes "0 \<le> wall" and "wall < cred_expires c"
  shows "\<not> lease_expired (lease_issued c wall boot) wall boot"
  using assms by (simp add: lease_expired_def lease_issued_def)

lemma drop_expired_guards:
  assumes "bs_token b \<noteq> None \<longrightarrow> bs_has_token b" and "drop_expired t b = (Inr (), b')"
  shows "token_guarded (tick_wall t) (tick_boot t) b' \<and> bs_issue b' = bs_issue b \<and> bs_terminal b' = bs_terminal b \<and>
    (bs_token b = None \<longrightarrow> bs_token b' = None)"
  using assms by (auto simp: drop_expired_def bindS_def setB_def auth_state_def remove_token_def token_guarded_def split: if_splits)

lemma retry_later_keeps: "retry_later t b = (r, b') \<Longrightarrow> bs_token b' = bs_token b \<and> bs_has_token b' = bs_has_token b \<and>
    bs_lease b' = bs_lease b \<and> bs_terminal b' = bs_terminal b \<and> bs_issue b' = bs_issue b"
  by (auto simp: retry_later_def bindS_def setB_def split: sum.splits)

lemma retry_later_guards: "retry_later t b = (r, b') \<Longrightarrow> token_guarded wall boot b' = token_guarded wall boot b"
  by (drule retry_later_keeps) (simp add: token_guarded_def)

lemma receive_guards:
  assumes "token_guarded (tick_wall t) (tick_boot t) b" and "access_ended b" and "0 \<le> tick_wall t" and "receive_credential t b = (Inr (), b')"
  shows "token_guarded (tick_wall t) (tick_boot t) b' \<and> access_ended b'"
proof (cases "\<exists>r. bs_issue b = Some (Some r)")
  case False
  then have "b' = b" using assms(4) by (auto simp: receive_credential_def split: option.splits)
  with assms(1,2) show ?thesis by simp
next
  case True
  then obtain r where r: "bs_issue b = Some (Some r)" by blast
  let ?b = "b\<lparr>bs_issue := None\<rparr>"
  have live: "\<not> bs_terminal b" using assms(2) r by (auto simp: access_ended_def)
  have g: "token_guarded (tick_wall t) (tick_boot t) ?b" using assms(1) by (simp add: token_guarded_def)
  have step: "(case r of Inl _ \<Rightarrow> retry_later t
      | Inr c \<Rightarrow> if cred_token c \<noteq> [] then install_token t c else if \<not> cred_retryable c then end_access t else retry_later t) ?b = (Inr (), b')"
    using assms(4) r by (simp add: receive_credential_def bindS_def setB_def)
  consider (retry) "retry_later t ?b = (Inr (), b')" | (install) c where "install_token t c ?b = (Inr (), b')" | (ended) "end_access t ?b = (Inr (), b')"
    using step by (auto split: sum.splits if_splits)
  then show ?thesis
  proof cases
    case retry
    then show ?thesis using retry_later_guards [OF retry] retry_later_keeps [OF retry] g live by (simp add: access_ended_def)
  next
    case install
    then show ?thesis
      using assms(3) live lease_issued_live [of "tick_wall t" c "tick_boot t"]
      by (auto simp: install_token_def bindS_def setB_def auth_state_def write_token_def token_guarded_def access_ended_def split: if_splits sum.splits)
  next
    case ended
    then show ?thesis
      by (auto simp: end_access_def bindS_def setB_def auth_state_def remove_token_def token_guarded_def access_ended_def split: if_splits)
  qed
qed

lemma tick_guards:
  assumes "bs_token b \<noteq> None \<longrightarrow> bs_has_token b" and "access_ended b" and "0 \<le> tick_wall t" and "bootstrap_tick t b = (Inr None, b')"
  shows "token_guarded (tick_wall t) (tick_boot t) b' \<and> access_ended b'"
proof -
  from assms(4) obtain b1 b2 where d: "drop_expired t b = (Inr (), b1)" and r: "receive_credential t b1 = (Inr (), b2)"
      and q: "request_credential t b2 = (Inr (), b')"
    by (auto simp: bootstrap_tick_def bindS_eq_Inr split: option.splits)
  have b1: "token_guarded (tick_wall t) (tick_boot t) b1" "access_ended b1"
    using drop_expired_guards [OF assms(1) d] assms(2) by (auto simp: access_ended_def)
  from receive_guards [OF b1 assms(3) r] q show ?thesis
    by (auto simp: request_credential_def setB_def token_guarded_def access_ended_def split: if_splits)
qed

lemma bootstrapping_ok: "bootstrapping b wall boot \<Longrightarrow> token_guarded wall boot b \<and> access_ended b"
proof (induction rule: bootstrapping.induct)
  case (begins wall boot)
  then show ?case by (simp add: token_guarded_def access_ended_def Bootstrap_new_def)
next
  case (ticks b wall boot t b')
  then show ?case using tick_guards [of b t b'] by (simp add: token_guarded_def)
next
  case (arrives b wall boot r)
  then show ?case by (auto simp: token_guarded_def access_ended_def)
qed

text \<open>
  C37. The token file never outlives its lease in the bootstrap: after every round of the loop the file is
  absent or its lease has not expired on either clock of that round, and once access was refused for
  good there is no token file and no request under way.
\<close>

theorem token_within_lease:
  assumes "bootstrapping b wall boot"
  shows "(bs_token b = None \<or> \<not> lease_expired (bs_lease b) wall boot) \<and> (bs_terminal b \<longrightarrow> bs_token b = None \<and> bs_issue b = None)"
  using bootstrapping_ok [OF assms] by (auto simp: token_guarded_def access_ended_def)

definition sample_tick :: "int \<Rightarrow> int \<Rightarrow> Tick" where
  "sample_tick wall boot = \<lparr>tick_boot = boot, tick_wall = wall, tick_jitter = Fin 0, tick_round = id, tick_removes = True,
     tick_write = \<lparr>pw_directory = True, pw_created = True, pw_writes = [WroteBytes 2, WriteInterrupted, WroteBytes 9], pw_renamed = True\<rparr>,
     tick_child = None\<rparr>"

definition bootstrap_credential :: Credential where
  "bootstrap_credential = \<lparr>cred_token = ''a.b.c'', cred_expires = 1200, cred_renew_after = 1080, cred_code = [], cred_retryable = False\<rparr>"

definition sample_holder :: Bootstrap where
  "sample_holder = snd (bootstrap_tick (sample_tick 1001 600)
     ((snd (bootstrap_tick (sample_tick 1000 500) Bootstrap_new))\<lparr>bs_issue := Some (Some (Inr bootstrap_credential))\<rparr>))"

theorem token_within_lease_witness:
  "bs_token sample_holder = Some ''a.b.c'' \<and> \<not> lease_expired (bs_lease sample_holder) 1001 600"
proof -
  let ?b1 = "snd (bootstrap_tick (sample_tick 1000 500) Bootstrap_new)"
  have one: "fst (bootstrap_tick (sample_tick 1000 500) Bootstrap_new) = Inr None" "bs_issue ?b1 = Some None" by code_simp+
  have two: "fst (bootstrap_tick (sample_tick 1001 600) (?b1\<lparr>bs_issue := Some (Some (Inr bootstrap_credential))\<rparr>)) = Inr None" by code_simp
  have "bootstrapping ?b1 (tick_wall (sample_tick 1000 500)) (tick_boot (sample_tick 1000 500))"
    by (rule bootstrapping.ticks [OF bootstrapping.begins]) (use one(1) in \<open>auto simp: sample_tick_def prod_eq_iff\<close>)
  from bootstrapping.arrives [OF this one(2)]
  have "bootstrapping sample_holder (tick_wall (sample_tick 1001 600)) (tick_boot (sample_tick 1001 600))"
    by (rule bootstrapping.ticks) (use two in \<open>auto simp: sample_tick_def sample_holder_def prod_eq_iff\<close>)
  from token_within_lease [OF this] have "bs_token sample_holder = None \<or> \<not> lease_expired (bs_lease sample_holder) 1001 600"
    by (simp add: sample_tick_def)
  moreover have "bs_token sample_holder = Some ''a.b.c''" by code_simp
  ultimately show ?thesis by simp
qed

end
