(* ===== verification/Session.thy ===== *)
theory Session
  imports Product Transport
begin

text \<open>
  The analytics process around the product (\<^verbatim>\<open>runtime/grpc_main.cpp\<close>): the messages of the data broker, the
  log on the standard output, one turn of the subscription, of the watcher and of the delivery worker.
  What the process reads within a turn is an argument: the clocks as the successive readings, the
  answers of the backend, the jitter. A message of the broker is a record of what its accessors return.
\<close>

section \<open>Messages of the broker\<close>

definition paths :: "string list" where
  "paths = [''Vehicle.Speed'', ''Vehicle.Acceleration.Longitudinal'', ''Vehicle.Acceleration.Lateral'',
     ''Vehicle.Acceleration.Vertical'', ''Vehicle.Chassis.Accelerator.PedalPosition'', ''Vehicle.Chassis.Brake.PedalPosition'']"

definition model_paths :: "string list" where
  "model_paths = [''Vehicle.Speed'', ''Vehicle.Acceleration.Longitudinal'', ''Vehicle.Chassis.Brake.PedalPosition'',
     ''Vehicle.Chassis.Axle.Row1.SteeringAngle'',
     ''Vehicle.Chassis.Axle.Row1.Wheel.Left.AngularSpeed'', ''Vehicle.Chassis.Axle.Row1.Wheel.Right.AngularSpeed'',
     ''Vehicle.Chassis.Axle.Row2.Wheel.Left.AngularSpeed'', ''Vehicle.Chassis.Axle.Row2.Wheel.Right.AngularSpeed'',
     ''Vehicle.Chassis.Axle.Row1.Wheel.Left.Speed'', ''Vehicle.Chassis.Axle.Row1.Wheel.Right.Speed'',
     ''Vehicle.Chassis.Axle.Row2.Wheel.Left.Speed'', ''Vehicle.Chassis.Axle.Row2.Wheel.Right.Speed'']"

definition telemetry_paths :: "FunctionalProfile \<Rightarrow> string list" where
  "telemetry_paths profile = (if profile = ProfileV1 then paths else model_paths)"

definition integer_path :: "FunctionalProfile \<Rightarrow> nat \<Rightarrow> bool" where
  "integer_path profile index \<longleftrightarrow> (if profile = ProfileV1 then index \<ge> 4 else index = 2)"

datatype value_case = FloatValue dbl | Uint32Value nat | StringValue string | OtherValue

record Datapoint =
  dp_timestamp :: "(int \<times> int) option"
  dp_value :: value_case

record EntryMetadata =
  em_sensor :: bool
  em_uint8 :: bool
  em_float :: bool
  em_unit :: "string option"

record DataEntry =
  de_path :: string
  de_value :: "Datapoint option"
  de_metadata :: "EntryMetadata option"

record GetResponse =
  gr_has_error :: bool
  gr_errors :: nat
  gr_entries :: "DataEntry list"

fun index_of :: "string \<Rightarrow> string list \<Rightarrow> nat option" where
  "index_of x [] = None"
| "index_of x (y # ys) = (if x = y then Some 0 else map_option Suc (index_of x ys))"

definition path_index :: "FunctionalProfile \<Rightarrow> string \<Rightarrow> nat result" where
  "path_index profile path =
     (case index_of path (telemetry_paths profile) of None \<Rightarrow> Inl (Runtime_error ''KUKSA_UNREQUESTED_PATH'') | Some i \<Rightarrow> Inr i)"

definition expected_unit :: "FunctionalProfile \<Rightarrow> nat \<Rightarrow> string" where
  "expected_unit profile index =
     (if profile = ProfileV1 then (if index = 0 then ''km/h'' else if index < 4 then ''m/s^2'' else ''percent'')
      else if index = 0 \<or> index \<ge> 8 then ''km/h'' else if index = 1 then ''m/s^2'' else if index = 2 then ''percent''
      else if index = 3 then ''degrees'' else ''degrees/s'')"

definition vdp_incompatible :: exn where
  "vdp_incompatible = Runtime_error ''VDP_INCOMPATIBLE''"

fun verify_entries :: "FunctionalProfile \<Rightarrow> nat list \<Rightarrow> DataEntry list \<Rightarrow> unit result" where
  "verify_entries profile got [] = Inr ()"
| "verify_entries profile got (e # es) =
     bindE (path_index profile (de_path e)) (\<lambda>index.
       if index \<in> set got then Inl vdp_incompatible
       else case de_metadata e of
           None \<Rightarrow> Inl vdp_incompatible
         | Some md \<Rightarrow>
             if \<not> em_sensor md \<or> \<not> (if integer_path profile index then em_uint8 md else em_float md) \<or>
                em_unit md \<noteq> Some (expected_unit profile index)
             then Inl vdp_incompatible
             else verify_entries profile (index # got) es)"

definition verify_metadata :: "FunctionalProfile \<Rightarrow> GetResponse \<Rightarrow> unit result" where
  "verify_metadata profile response =
     (if gr_has_error response \<or> gr_errors response \<noteq> 0 \<or> length (gr_entries response) \<noteq> length (telemetry_paths profile)
      then Inl vdp_incompatible else verify_entries profile [] (gr_entries response))"

definition no_signal :: Signal where
  "no_signal = \<lparr>sig_value = Fin 0, sig_epoch_ms = 0, sig_valid = False\<rparr>"

definition signal :: "FunctionalProfile \<Rightarrow> DataEntry \<Rightarrow> nat \<Rightarrow> Signal" where
  "signal profile entry index =
     (case de_value entry of
        None \<Rightarrow> no_signal
      | Some v \<Rightarrow>
          (case dp_timestamp v of
             None \<Rightarrow> no_signal
           | Some (seconds, nanos) \<Rightarrow>
               if seconds < 0 \<or> seconds > 253402300799 \<or> nanos < 0 \<or> nanos \<ge> 1000000000 then no_signal
               else
                 (let epoch = seconds * 1000 + cdiv nanos 1000000
                  in case dp_value v of
                       FloatValue x \<Rightarrow> if integer_path profile index then no_signal
                                       else \<lparr>sig_value = x, sig_epoch_ms = epoch, sig_valid = True\<rparr>
                     | Uint32Value n \<Rightarrow> if integer_path profile index
                                       then \<lparr>sig_value = Fin (of_nat n), sig_epoch_ms = epoch, sig_valid = True\<rparr> else no_signal
                     | _ \<Rightarrow> no_signal)))"

text \<open>The loop over the entries of one update: the signals and the indexes that came.\<close>

fun apply_updates :: "FunctionalProfile \<Rightarrow> DataEntry list \<Rightarrow> nat list \<Rightarrow> Signal list \<Rightarrow> (nat list \<times> Signal list) result" where
  "apply_updates profile [] got vs = Inr (got, vs)"
| "apply_updates profile (e # es) got vs =
     bindE (path_index profile (de_path e)) (\<lambda>index.
       if index \<in> set got then Inl (Runtime_error ''KUKSA_DUPLICATE_UPDATE'')
       else apply_updates profile es (index # got) (vs[index := signal profile e index]))"

section \<open>The log\<close>

record Log =
  log_previous :: "(string \<times> string) list"
  log_minute :: int
  log_emitted :: nat
  log_occurrences :: nat
  log_suppressed :: nat
  log_timing_bucket :: int
  log_next_report :: int
  log_rejected :: nat
  log_analytics :: bool
  log_backend :: bool
  log_advisory :: bool
  log_analytics_reason :: string
  log_advisory_reason :: string
  log_lines :: "string list"

type_synonym 'a log_op = "(Log, 'a) op"

definition Log_new :: Log where
  "Log_new = \<lparr>log_previous = [], log_minute = 0, log_emitted = 0, log_occurrences = 0, log_suppressed = 0, log_timing_bucket = -1,
     log_next_report = 0, log_rejected = 0, log_analytics = False, log_backend = False, log_advisory = False,
     log_analytics_reason = ''STARTING'', log_advisory_reason = ''VISS_OR_GATEWAY_UNAVAILABLE'', log_lines = []\<rparr>"

text \<open>A reading of the boot clock and of the wall clock.\<close>

type_synonym reading = "int \<times> int"

definition occurrence :: "string \<Rightarrow> bool" where
  "occurrence event \<longleftrightarrow> event \<in> {''WINDOW_TRIGGERED'', ''WINDOW_COMPLETED'', ''ASSESSMENT_CREATED'',
     ''ASSESSMENT_SKIPPED_INPUT_QUALITY'', ''DERIVED_OUTBOX_FULL'', ''TELEMETRY_WATCHDOG_EXPIRED''}"

definition field :: "string \<Rightarrow> string \<Rightarrow> string" where
  "field name v = [CHR 0x22] @ name @ [CHR 0x22] @ '':'' @ v"

definition log_line :: "string \<Rightarrow> int \<Rightarrow> string \<Rightarrow> string \<Rightarrow> nat \<Rightarrow> string \<Rightarrow> string result" where
  "log_line event wall state reason count source =
     bindE (quote_json event) (\<lambda>e.
     bindE (utc_timestamp wall) (\<lambda>ts. bindE (quote_json ts) (\<lambda>ts.
     bindE (quote_json state) (\<lambda>s.
     bindE (quote_json reason) (\<lambda>r.
     bindE (if source = [] then Inr [] else bindE (quote_json source) (\<lambda>i. Inr ('','' @ field ''sourceEventId'' i))) (\<lambda>tail.
       Inr (''{'' @ field ''schemaVersion'' ''1'' @ '','' @ field ''eventType'' e @ '','' @ field ''severity'' ([CHR 0x22] @ ''INFO'' @ [CHR 0x22]) @ '','' @
            field ''observedAt'' ts @ '','' @ field ''currentState'' s @ '','' @ field ''reasonCode'' r @ '','' @
            field ''count'' (to_string count) @ tail @ ''}'')))))))"

definition roll_minute :: "int \<Rightarrow> Log \<Rightarrow> Log" where
  "roll_minute minute l = (if minute \<noteq> log_minute l then l\<lparr>log_minute := minute, log_emitted := 0, log_occurrences := 0\<rparr> else l)"

definition budget :: "bool \<Rightarrow> Log \<Rightarrow> nat" where
  "budget occ l = (if occ then log_occurrences l else log_emitted l)"

definition spend :: "bool \<Rightarrow> Log \<Rightarrow> Log" where
  "spend occ l = (if occ then l\<lparr>log_occurrences := log_occurrences l + 1\<rparr> else l\<lparr>log_emitted := log_emitted l + 1\<rparr>)"

text \<open>An entry that was never set reads as the empty string, as \<open>previous_[event]\<close> does.\<close>

definition previous_key :: "string \<Rightarrow> Log \<Rightarrow> string" where
  "previous_key event l = (case map_of (log_previous l) event of None \<Rightarrow> [] | Some k \<Rightarrow> k)"

text \<open>
  A line is written as a whole. (In the source a formatting error in its middle may leave the beginning
  of the line on the output; the budget is spent either way.)
\<close>

definition log_state :: "reading \<Rightarrow> string \<Rightarrow> string \<Rightarrow> string \<Rightarrow> string \<Rightarrow> unit log_op" where
  "log_state t event state reason source l =
     (let key = state @ '':'' @ reason; occ = occurrence event
      in if \<not> occ \<and> previous_key event l = key then (Inr (), l)
         else
           (let l1 = roll_minute (cdiv (fst t) 60000) l
            in if budget occ l1 \<ge> 60 then (Inr (), l1\<lparr>log_suppressed := (log_suppressed l1 + 1) mod 2 ^ 32\<rparr>)
               else
                 (let l2 = spend occ (l1\<lparr>log_previous := AList.update event key (log_previous l1)\<rparr>)
                  in case log_line event (snd t) state reason ((1 + log_suppressed l2) mod 2 ^ 32) source of
                       Inl e \<Rightarrow> (Inl e, l2)
                     | Inr line \<Rightarrow> (Inr (), l2\<lparr>log_lines := log_lines l2 @ [line], log_suppressed := 0\<rparr>))))"

definition readiness_mode :: "FunctionalProfile \<Rightarrow> Log \<Rightarrow> string \<times> string" where
  "readiness_mode profile l =
     (let advisory_needed = (profile = ProfileV3)
      in (if \<not> log_analytics l then ''NOT_READY'' else if \<not> log_backend l \<or> (advisory_needed \<and> \<not> log_advisory l) then ''DEGRADED''
          else ''OPERATIONAL'',
          if \<not> log_analytics l then log_analytics_reason l else if advisory_needed \<and> \<not> log_advisory l then log_advisory_reason l
          else ''NONE''))"

definition log_readiness :: "FunctionalProfile \<Rightarrow> reading \<Rightarrow> unit log_op" where
  "log_readiness profile t l = log_state t ''READINESS_CHANGED'' (fst (readiness_mode profile l)) (snd (readiness_mode profile l)) [] l"

definition analytics_changed :: "FunctionalProfile \<Rightarrow> reading \<Rightarrow> bool \<Rightarrow> string \<Rightarrow> unit log_op" where
  "analytics_changed profile t ready reason l =
     log_readiness profile t (l\<lparr>log_analytics := ready, log_analytics_reason := reason\<rparr>)"

definition backend_changed :: "FunctionalProfile \<Rightarrow> reading \<Rightarrow> reading \<Rightarrow> bool \<Rightarrow> unit log_op" where
  "backend_changed profile t1 t2 online l =
     bindS (log_state t1 ''BACKEND_SYNC_CHANGED'' (if online then ''CONNECTED'' else ''BACKLOG'') ''NONE'' []) (\<lambda>_. log_readiness profile t2)
       (l\<lparr>log_backend := online\<rparr>)"

definition advisory_changed :: "FunctionalProfile \<Rightarrow> reading \<Rightarrow> bool \<Rightarrow> string \<Rightarrow> unit log_op" where
  "advisory_changed profile t ready reason l =
     log_readiness profile t (l\<lparr>log_advisory := ready, log_advisory_reason := reason\<rparr>)"

definition skew_of :: "Signal list \<Rightarrow> int" where
  "skew_of vs = max_of (map sig_epoch_ms vs) - min_of (map sig_epoch_ms vs)"

definition input_timing :: "reading \<Rightarrow> Signal list \<Rightarrow> unit log_op" where
  "input_timing t vs l =
     (let skew = skew_of vs; bucket = (if skew = 0 then 0 else if skew \<le> 10 then 1 else if skew \<le> 100 then 2 else 3)
      in if bucket \<le> log_timing_bucket l then (Inr (), l)
         else log_state t ''KUKSA_INPUT_TIMING'' ''OBSERVED''
           (if skew = 0 then ''SKEW_ZERO'' else if skew \<le> 10 then ''SKEW_UP_TO_10MS'' else if skew \<le> 100 then ''SKEW_UP_TO_100MS''
            else ''SKEW_EXCEEDS_100MS'') [] (l\<lparr>log_timing_bucket := bucket\<rparr>))"

definition reject_reason :: "Signal list \<Rightarrow> int \<Rightarrow> string" where
  "reject_reason vs wall =
     (if list_ex (\<lambda>v. \<not> sig_valid v) vs then ''MISSING_VALUE''
      else if list_ex (\<lambda>v. sig_epoch_ms v > wall) vs then ''FUTURE_TIMESTAMP''
      else if list_ex (\<lambda>v. wall - sig_epoch_ms v > kMaximumSourceAgeMs) vs then ''STALE_TIMESTAMP''
      else if list_ex (\<lambda>v. sig_epoch_ms v \<noteq> sig_epoch_ms (hd vs)) vs then ''MIXED_TIMESTAMPS''
      else ''COHERENCE_OR_DOMAIN_INVALID'')"

text \<open>The missing signals as a mask, the oldest and the newest instant.\<close>

definition missing_mask :: "Signal list \<Rightarrow> nat" where
  "missing_mask vs = foldl (\<lambda>acc (i, v). if sig_valid v then acc else acc + 2 ^ i) 0 (zip [0..<length vs] vs)"

definition clamp_age :: "int \<Rightarrow> int" where
  "clamp_age x = max (- 60000) (min 60000 x)"

definition summary_line :: "Signal list \<Rightarrow> int \<Rightarrow> string \<Rightarrow> nat \<Rightarrow> string result" where
  "summary_line vs wall reason count =
     (let valid_epochs = map sig_epoch_ms (filter sig_valid vs); oldest = foldl min wall valid_epochs; newest = foldl max 0 valid_epochs
      in bindE (utc_timestamp wall) (\<lambda>ts. bindE (quote_json ts) (\<lambda>ts. bindE (quote_json reason) (\<lambda>r.
         Inr (''{'' @ field ''schemaVersion'' ''1'' @ '','' @ field ''eventType'' ([CHR 0x22] @ ''KUKSA_INPUT_SUMMARY'' @ [CHR 0x22]) @ '','' @
              field ''severity'' ([CHR 0x22] @ ''INFO'' @ [CHR 0x22]) @ '','' @ field ''observedAt'' ts @ '','' @
              field ''currentState'' ([CHR 0x22] @ ''REJECTED'' @ [CHR 0x22]) @ '','' @ field ''reasonCode'' r @ '','' @
              field ''count'' (to_string count) @ '','' @ field ''missingMask'' (to_string (missing_mask vs)) @ '','' @
              field ''oldestAgeMs'' (int_to_string (clamp_age (wall - oldest))) @ '','' @
              field ''newestAheadMs'' (int_to_string (clamp_age (newest - wall))) @ ''}'')))))"

definition input_rejected :: "reading \<Rightarrow> int \<Rightarrow> Signal list \<Rightarrow> int \<Rightarrow> unit log_op" where
  "input_rejected t now vs wall =
     bindS (log_state t ''KUKSA_INPUT_REJECTED'' ''NOT_READY'' (reject_reason vs wall) []) (\<lambda>_ l.
       (let l1 = l\<lparr>log_rejected := (log_rejected l + 1) mod 2 ^ 32\<rparr>
        in if now < log_next_report l1 then (Inr (), l1)
           else
             (let l2 = l1\<lparr>log_next_report := now + 10000\<rparr>
              in case summary_line vs wall (reject_reason vs wall) (log_rejected l2) of
                   Inl e \<Rightarrow> (Inl e, l2)
                 | Inr line \<Rightarrow> (Inr (), l2\<lparr>log_lines := log_lines l2 @ [line], log_rejected := 0\<rparr>))))"

section \<open>Turns\<close>

text \<open>
  What the threads share, and what one turn reads: the clocks and the peers in the order in which the
  turn uses them, the jitter, the rounding of doubles and the interruptions of the observation queue.
\<close>

record Analytics =
  an_product :: Product
  an_log :: Log

record Turn =
  tn_boot :: "nat \<Rightarrow> int"
  tn_wall :: "nat \<Rightarrow> int"
  tn_peer :: "nat \<Rightarrow> Peer"
  tn_jitter :: "nat \<Rightarrow> dbl"
  tn_round :: "rat \<Rightarrow> rat"
  tn_queue :: interruptions

definition reading_at :: "Turn \<Rightarrow> nat \<Rightarrow> reading" where
  "reading_at tn n = (tn_boot tn n, tn_wall tn n)"

definition on_product :: "'a product_op \<Rightarrow> ('z Analytics_scheme, 'a) op" where
  "on_product m a = (case m (an_product a) of (r, x) \<Rightarrow> (r, a\<lparr>an_product := x\<rparr>))"

definition on_log :: "'a log_op \<Rightarrow> ('z Analytics_scheme, 'a) op" where
  "on_log m a = (case m (an_log a) of (r, x) \<Rightarrow> (r, a\<lparr>an_log := x\<rparr>))"

definition updS :: "('s \<Rightarrow> 's) \<Rightarrow> ('s, unit) op" where
  "updS f s = (Inr (), f s)"

definition askS :: "('s \<Rightarrow> 'a) \<Rightarrow> ('s, 'a) op" where
  "askS f = readS (\<lambda>s. Inr (f s))"

definition whenS :: "bool \<Rightarrow> ('s, unit) op \<Rightarrow> ('s, unit) op" where
  "whenS b m = (if b then m else returnS ())"

section \<open>The subscription\<close>

record Subscriber = Analytics +
  sb_values :: "Signal list"
  sb_cause :: SessionInputChange
  sb_invalid :: bool

definition analysis_states :: "Turn \<Rightarrow> ProcessResult \<Rightarrow> ('z Analytics_scheme, unit) op" where
  "analysis_states tn a =
     bindS (whenS (process_status a = Produced) (on_log (log_state (reading_at tn 5) ''ASSESSMENT_CREATED'' ''READY'' ''NONE'' []))) (\<lambda>_.
     bindS (whenS (event_created a) (on_log (log_state (reading_at tn 6) ''CONDITION_BAND_CHANGED'' ''INSPECTION_RECOMMENDED'' ''NONE'' []))) (\<lambda>_.
     bindS (whenS (process_status a = SkippedInputQuality) (on_log (log_state (reading_at tn 7) ''ASSESSMENT_SKIPPED_INPUT_QUALITY'' ''READY''
              (case process_skip_reason a of Some r \<Rightarrow> skip_reason_name r | None \<Rightarrow> ''INPUT_QUALITY_INSUFFICIENT'') []))) (\<lambda>_.
       whenS (process_status a = DerivedOutboxFull) (on_log (log_state (reading_at tn 8) ''DERIVED_OUTBOX_FULL'' ''OVERFLOW'' ''NONE'' [])))))"

definition rejected_frame :: "FunctionalProfile \<Rightarrow> Turn \<Rightarrow> ProductObservation \<Rightarrow> (Subscriber, unit) op" where
  "rejected_frame profile tn o1 =
     bindS (askS sb_values) (\<lambda>vs.
     bindS (on_log (input_rejected (reading_at tn 2) (tn_boot tn 3) vs (tn_wall tn 1))) (\<lambda>_.
     bindS (askS (\<lambda>a. analytics_ready (an_product a))) (\<lambda>ready.
     bindS (whenS (\<not> ready) (on_log (analytics_changed profile (reading_at tn 4) False ''KUKSA_DATA_UNAVAILABLE''))) (\<lambda>_.
       whenS (po_event_completed o1) (on_log (log_state (reading_at tn 5) ''WINDOW_COMPLETED'' ''INCOMPLETE_SOURCE_GAP'' ''NONE'' []))))))"

definition accepted_frame :: "FunctionalProfile \<Rightarrow> Turn \<Rightarrow> ProductObservation \<Rightarrow> (Subscriber, unit) op" where
  "accepted_frame profile tn o1 =
     bindS (on_log (analytics_changed profile (reading_at tn 2) True ''NONE'')) (\<lambda>_.
     bindS (whenS (po_event_started o1) (on_log (log_state (reading_at tn 3) ''WINDOW_TRIGGERED'' ''CAPTURING'' ''NONE'' []))) (\<lambda>_.
     bindS (whenS (po_event_completed o1) (on_log (log_state (reading_at tn 4) ''WINDOW_COMPLETED'' ''COMPLETED'' ''NONE'' []))) (\<lambda>_.
       case po_analysis o1 of Some a \<Rightarrow> analysis_states tn a | None \<Rightarrow> returnS ())))"

text \<open>One update of the stream.\<close>

definition subscription_turn :: "Surroundings \<Rightarrow> FunctionalProfile \<Rightarrow> string result \<Rightarrow> Turn \<Rightarrow> DataEntry list \<Rightarrow> (Subscriber, unit) op" where
  "subscription_turn env profile uuid tn updates =
     bindS (readS (\<lambda>s. apply_updates profile updates [] (sb_values s))) (\<lambda>(got, vs).
     bindS (updS (\<lambda>s. s\<lparr>sb_values := vs\<rparr>)) (\<lambda>_.
     bindS (whenS (profile \<noteq> ProfileV1 \<and> length got = length vs) (on_log (input_timing (reading_at tn 1) vs))) (\<lambda>_.
     bindS (on_product (product_ingest env uuid vs (tn_wall tn 0) (tn_boot tn 0))) (\<lambda>o1.
       if po_valid o1 then accepted_frame profile tn o1 else rejected_frame profile tn o1))))"

text \<open>One round of the watcher: the inputs of the session and the age of the last frame.\<close>

definition watcher_turn :: "Surroundings \<Rightarrow> FunctionalProfile \<Rightarrow> string result \<Rightarrow> Turn \<Rightarrow> bool \<Rightarrow> SessionInputChange \<Rightarrow> (Subscriber, unit) op" where
  "watcher_turn env profile uuid tn stopping observed =
     bindS (updS (\<lambda>s. s\<lparr>sb_cause := interruption_observe observed
              (if stopping then interruption_observe Unavailable (sb_cause s) else sb_cause s)\<rparr>)) (\<lambda>_.
     bindS (updS (\<lambda>s. s\<lparr>sb_invalid := (sb_invalid s \<or> interruption_cancelled (sb_cause s))\<rparr>)) (\<lambda>_.
       catchS
         (bindS (on_product (expire_input env uuid (tn_boot tn 0))) (\<lambda>expired.
            whenS expired
              (bindS (on_log (analytics_changed profile (reading_at tn 1) False ''KUKSA_DATA_UNAVAILABLE'')) (\<lambda>_.
                 on_log (log_state (reading_at tn 2) ''TELEMETRY_WATCHDOG_EXPIRED'' ''NOT_READY'' ''NO_VALID_FRAME_WITHIN_FRESHNESS'' [])))))
         (updS (\<lambda>s. s\<lparr>sb_cause := interruption_observe Unavailable (sb_cause s), sb_invalid := True\<rparr>))))"

datatype session_outcome = Reauthenticate | Failed string | Ended

datatype rpc_code = RpcOk | RpcCancelled | RpcUnauthenticated | RpcPermissionDenied | RpcOther

text \<open>The ending of the request for the metadata, when it fails.\<close>

definition get_failed :: "rpc_code \<Rightarrow> SessionInputChange \<Rightarrow> bool \<Rightarrow> session_outcome" where
  "get_failed rpc cause stopping =
     (if rpc = RpcCancelled \<and> token_replaced cause \<and> \<not> stopping then Reauthenticate
      else Failed (if rpc = RpcUnauthenticated \<or> rpc = RpcPermissionDenied then ''KUKSA_AUTH_UNAVAILABLE'' else ''KUKSA_DATA_UNAVAILABLE''))"

definition metadata_accepted :: "Turn \<Rightarrow> (Subscriber, unit) op" where
  "metadata_accepted tn =
     bindS (on_product (input_observation ''CONNECTED'' ''WAITING'' ''AWAITING_INPUT'')) (\<lambda>_.
       on_log (log_state (reading_at tn 0) ''VDP_CONTRACT_ACCEPTED'' ''READY'' ''NONE'' []))"

definition stream_finished :: "Surroundings \<Rightarrow> FunctionalProfile \<Rightarrow> string result \<Rightarrow> Turn \<Rightarrow> rpc_code \<Rightarrow> SessionInputChange \<Rightarrow> bool \<Rightarrow> (Subscriber, session_outcome) op" where
  "stream_finished env profile uuid tn rpc observed stopping =
     bindS (updS (\<lambda>s. s\<lparr>sb_cause := interruption_observe observed (sb_cause s)\<rparr>)) (\<lambda>_.
     bindS (askS sb_cause) (\<lambda>cause.
       if (rpc = RpcOk \<or> rpc = RpcCancelled) \<and> token_replaced cause \<and> \<not> stopping then returnS Reauthenticate
       else
         bindS (on_product (product_disconnect env uuid)) (\<lambda>_.
         bindS (on_log (analytics_changed profile (reading_at tn 0) False ''KUKSA_DATA_UNAVAILABLE'')) (\<lambda>_.
         bindS (on_log (log_state (reading_at tn 1) ''KUKSA_SUBSCRIPTION_CHANGED'' ''NOT_READY'' ''KUKSA_DATA_UNAVAILABLE'' [])) (\<lambda>_.
           returnS Ended)))))"

definition failure_reason :: "string \<Rightarrow> string" where
  "failure_reason c =
     (if c = ''KUKSA_AUTH_PENDING'' then ''KUKSA_AUTH_PENDING'' else if c = ''KUKSA_AUTH_UNAVAILABLE'' then ''KUKSA_AUTH_UNAVAILABLE''
      else if c = ''VDP_INCOMPATIBLE'' then ''VDP_INCOMPATIBLE''
      else if c = ''IMMUTABLE_IDENTITY_CHANGED'' \<or> c = ''INPUT_FILE_UNAVAILABLE'' then ''STATE_INVALID'' else ''KUKSA_DATA_UNAVAILABLE'')"

text \<open>The handlers of the main loop after a session.\<close>

definition after_session :: "Surroundings \<Rightarrow> FunctionalProfile \<Rightarrow> string result \<Rightarrow> Turn \<Rightarrow> session_outcome \<Rightarrow> (Subscriber, unit) op" where
  "after_session env profile uuid tn ending =
     (case ending of
        Reauthenticate \<Rightarrow>
          bindS (on_product reauthenticate) (\<lambda>_.
          bindS (on_log (analytics_changed profile (reading_at tn 0) False ''KUKSA_REAUTHENTICATING'')) (\<lambda>_.
            on_log (log_state (reading_at tn 1) ''KUKSA_SUBSCRIPTION_CHANGED'' ''REAUTHENTICATING'' ''TOKEN_REPLACED'' [])))
      | Failed c \<Rightarrow>
          bindS (on_product (product_disconnect env uuid)) (\<lambda>_.
          (case subscription_failure_observation c of (connection, input, reason) \<Rightarrow>
             bindS (on_product (input_observation connection input reason)) (\<lambda>_.
               on_log (analytics_changed profile (reading_at tn 0) False (failure_reason c)))))
      | Ended \<Rightarrow> returnS ())"

section \<open>The delivery worker\<close>

record Worker = Analytics +
  wk_stream :: ObservationStream
  wk_observing :: bool
  wk_attempt :: nat
  wk_next_control :: int
  wk_next_delivery :: int
  wk_observation_attempt :: nat
  wk_next_observation :: int
  wk_next_observation_delivery :: int

type_synonym 'a worker_op = "(Worker, 'a) op"

definition on_stream :: "'a obs_op \<Rightarrow> 'a worker_op" where
  "on_stream m w = (case m (wk_stream w) of (r, x) \<Rightarrow> (r, w\<lparr>wk_stream := x\<rparr>))"

definition observation_lost :: "reading \<Rightarrow> unit worker_op" where
  "observation_lost t = on_log (log_state t ''FUNCTION_OBSERVATION_CHANGED'' ''UNAVAILABLE'' ''OBSERVATION_STORAGE_UNAVAILABLE'' [])"

definition start_worker :: "Surroundings \<Rightarrow> Turn \<Rightarrow> bool \<Rightarrow> unit worker_op" where
  "start_worker env tn available =
     bindS (updS (\<lambda>w. w\<lparr>wk_observing := False, wk_attempt := 0, wk_next_control := 0, wk_next_delivery := 0,
              wk_observation_attempt := 0, wk_next_observation := 0, wk_next_observation_delivery := 0\<rparr>)) (\<lambda>_.
     catchS
       (bindS (readS (\<lambda>w. observation_binding (env_from_chars env) (an_product w))) (\<lambda>binding.
          case binding of
            None \<Rightarrow> returnS ()
          | Some b \<Rightarrow> bindS (on_stream (start_observation (env_from_chars env) (tn_queue tn) available b)) (\<lambda>_.
              updS (\<lambda>w. w\<lparr>wk_observing := True\<rparr>))))
       (observation_lost (reading_at tn 0)))"

definition no_response :: HttpResponse where
  "no_response = \<lparr>status = 0, body = [], retry_after = 0\<rparr>"

definition answer :: "HttpResponse result \<Rightarrow> HttpResponse" where
  "answer r = (case r of Inr x \<Rightarrow> x | Inl _ \<Rightarrow> no_response)"

definition take_observation :: "Surroundings \<Rightarrow> Turn \<Rightarrow> unit worker_op" where
  "take_observation env tn =
     bindS (askS (\<lambda>w. tn_boot tn 0 \<ge> wk_next_observation w)) (\<lambda>due. whenS due (
       bindS (on_product (function_observation env)) (\<lambda>c.
       bindS (on_stream (fn_observe (tn_queue tn) c (tn_wall tn 1) (tn_boot tn 1))) (\<lambda>_.
         updS (\<lambda>w. w\<lparr>wk_next_observation := tn_boot tn 2 + 5000\<rparr>)))))"

definition send_observation :: "Surroundings \<Rightarrow> Turn \<Rightarrow> unit worker_op" where
  "send_observation env tn =
     bindS (askS (\<lambda>w. tn_boot tn 3 \<ge> wk_next_observation_delivery w)) (\<lambda>due. whenS due (
       bindS (on_stream (fn_next (tn_queue tn))) (\<lambda>pending.
         case pending of
           None \<Rightarrow> returnS ()
         | Some bytes \<Rightarrow>
             (let response = answer (post_backend (tn_peer tn 0) bytes False)
              in bindS (on_stream (fn_accept (env_from_chars env) (tn_queue tn) bytes (status response) (body response))) (\<lambda>accepted.
                 if accepted
                 then updS (\<lambda>w. w\<lparr>wk_observation_attempt := 0, wk_next_observation_delivery := tn_boot tn 4 + 100\<rparr>)
                 else
                   bindS (askS wk_observation_attempt) (\<lambda>n.
                   bindS (updS (\<lambda>w. w\<lparr>wk_observation_attempt := (n + 1) mod 2 ^ 32\<rparr>)) (\<lambda>_.
                   bindS (liftS (retry_delay (tn_round tn) n (tn_jitter tn 0) (retry_after response))) (\<lambda>d.
                     updS (\<lambda>w. w\<lparr>wk_next_observation_delivery := tn_boot tn 4 + d * 1000\<rparr>)))))))))"

definition observation_turn :: "Surroundings \<Rightarrow> Turn \<Rightarrow> unit worker_op" where
  "observation_turn env tn =
     bindS (askS wk_observing) (\<lambda>on. whenS on (
       catchS (bindS (take_observation env tn) (\<lambda>_. send_observation env tn))
         (bindS (updS (\<lambda>w. w\<lparr>wk_observing := False\<rparr>)) (\<lambda>_. observation_lost (reading_at tn 5)))))"

definition send_ack :: "Surroundings \<Rightarrow> Turn \<Rightarrow> unit worker_op" where
  "send_ack env tn =
     bindS (on_product (demo_control_ack env (tn_wall tn 6))) (\<lambda>ack.
       case ack of
         None \<Rightarrow> returnS ()
       | Some bytes \<Rightarrow> bindS (liftS (post_demo_control (tn_peer tn 1) bytes True)) (\<lambda>response.
           whenS (status response = 200) (on_product (demo_control_accepted env (body response)))))"

definition send_poll :: "Surroundings \<Rightarrow> Turn \<Rightarrow> unit worker_op" where
  "send_poll env tn =
     bindS (on_product (demo_control_poll env)) (\<lambda>poll.
       case poll of
         None \<Rightarrow> returnS ()
       | Some bytes \<Rightarrow> bindS (liftS (post_demo_control (tn_peer tn 2) bytes False)) (\<lambda>response.
           whenS (status response = 200) (on_product (demo_control_command env (body response) (tn_wall tn 7)))))"

definition control_turn :: "Surroundings \<Rightarrow> Turn \<Rightarrow> unit worker_op" where
  "control_turn env tn =
     bindS (askS (\<lambda>w. tn_boot tn 6 \<ge> wk_next_control w)) (\<lambda>due. whenS due (
       bindS (catchS (bindS (send_ack env tn) (\<lambda>_. send_poll env tn))
                (on_log (log_state (reading_at tn 8) ''DEMO_CONTROL_CHANGED'' ''UNAVAILABLE'' ''RESET_CONTROL_UNAVAILABLE'' []))) (\<lambda>_.
         updS (\<lambda>w. w\<lparr>wk_next_control := tn_boot tn 9 + 5000\<rparr>))))"

definition send_message :: "Surroundings \<Rightarrow> FunctionalProfile \<Rightarrow> Turn \<Rightarrow> unit worker_op" where
  "send_message env profile tn =
     bindS (on_product (product_next_message env)) (\<lambda>pending.
       case pending of
         None \<Rightarrow> updS (\<lambda>w. w\<lparr>wk_attempt := 0\<rparr>)
       | Some d \<Rightarrow>
           (let response = answer (post_backend (tn_peer tn 3) (product_bytes d) False)
            in bindS (on_product (product_accept env d response)) (\<lambda>accepted.
               if accepted
               then bindS (updS (\<lambda>w. w\<lparr>wk_attempt := 0\<rparr>)) (\<lambda>_. on_log (backend_changed profile (reading_at tn 11) (reading_at tn 12) True))
               else
                 bindS (on_log (backend_changed profile (reading_at tn 11) (reading_at tn 12) False)) (\<lambda>_.
                 bindS (askS wk_attempt) (\<lambda>n.
                 bindS (updS (\<lambda>w. w\<lparr>wk_attempt := (n + 1) mod 2 ^ 32\<rparr>)) (\<lambda>_.
                 bindS (liftS (retry_delay (tn_round tn) n (tn_jitter tn 1) (retry_after response))) (\<lambda>delay.
                   updS (\<lambda>w. w\<lparr>wk_next_delivery := tn_boot tn 13 + delay * 1000\<rparr>))))))))"

definition message_turn :: "Surroundings \<Rightarrow> FunctionalProfile \<Rightarrow> Turn \<Rightarrow> unit worker_op" where
  "message_turn env profile tn =
     bindS (askS (\<lambda>w. tn_boot tn 10 < wk_next_delivery w)) (\<lambda>early.
       if early then returnS ()
       else catchS (send_message env profile tn) (on_log (analytics_changed profile (reading_at tn 14) False ''STORAGE_UNAVAILABLE'')))"

definition worker_turn :: "Surroundings \<Rightarrow> FunctionalProfile \<Rightarrow> Turn \<Rightarrow> unit worker_op" where
  "worker_turn env profile tn =
     bindS (observation_turn env tn) (\<lambda>_. bindS (control_turn env tn) (\<lambda>_. message_turn env profile tn))"

section \<open>The advisory session\<close>

record AdvisorySession = Analytics +
  as_attempted :: string
  as_last_attempt :: int
  as_publication :: ReadinessPublication
  as_cause :: SessionInputChange

definition kStatusPath :: string where
  "kStatusPath = ''Vehicle.OEM.BrakeHealth.Advisory.GatewayStatus''"

definition publication_new :: ReadinessPublication where
  "publication_new = \<lparr>accepted_ready = None, next_attempt = 0, next_heartbeat = 0\<rparr>"

definition start_advisory_session :: "(AdvisorySession, unit) op" where
  "start_advisory_session = updS (\<lambda>s. s\<lparr>as_attempted := [], as_last_attempt := -1000, as_publication := publication_new, as_cause := Unchanged\<rparr>)"

text \<open>What the broker answers about the status leaf before anything is observed.\<close>

definition verify_status_entry :: "bool \<Rightarrow> bool \<Rightarrow> GetResponse \<Rightarrow> DataEntry result" where
  "verify_status_entry succeeded string_typed response =
     (if \<not> succeeded \<or> gr_has_error response \<or> gr_errors response \<noteq> 0 \<or> length (gr_entries response) \<noteq> 1
      then Inl (Runtime_error ''VISS_OR_GATEWAY_UNAVAILABLE'')
      else
        (let entry = hd (gr_entries response)
         in case de_metadata entry of
              None \<Rightarrow> Inl (Runtime_error ''VDP_V3_INCOMPATIBLE'')
            | Some md \<Rightarrow> if de_path entry \<noteq> kStatusPath \<or> \<not> string_typed \<or> \<not> em_sensor md
                then Inl (Runtime_error ''VDP_V3_INCOMPATIBLE'') else Inr entry))"

definition observe_status :: "Surroundings \<Rightarrow> FunctionalProfile \<Rightarrow> Turn \<Rightarrow> string \<Rightarrow> (AdvisorySession, unit) op" where
  "observe_status env profile tn bytes =
     bindS (on_product (observe_gateway env bytes (tn_wall tn 0))) (\<lambda>accepted. whenS accepted (
       bindS (liftS (parse_gateway_status (env_from_chars env) bytes)) (\<lambda>st.
       bindS (askS as_attempted) (\<lambda>attempted.
       bindS (whenS (attempted = status_request_id st) (on_log (advisory_changed profile (reading_at tn 1) True ''NONE''))) (\<lambda>_.
       bindS (on_product (gateway_state env)) (\<lambda>evidence.
         case evidence of None \<Rightarrow> returnS ()
         | Some e \<Rightarrow> on_log (log_state (reading_at tn 2) ''ADVISORY_GATEWAY_STATUS'' e ''NONE'' [])))))))"

definition status_turn :: "Surroundings \<Rightarrow> FunctionalProfile \<Rightarrow> Turn \<Rightarrow> DataEntry \<Rightarrow> (AdvisorySession, unit) op" where
  "status_turn env profile tn entry =
     (if de_path entry \<noteq> kStatusPath then throwS (Runtime_error ''GATEWAY_STATUS_WRONG_ENDPOINT'')
      else case de_value entry of
          None \<Rightarrow> returnS ()
        | Some v \<Rightarrow> (case dp_value v of StringValue bytes \<Rightarrow> whenS (bytes \<noteq> []) (observe_status env profile tn bytes) | _ \<Rightarrow> returnS ()))"

text \<open>The answer to a write: accepted, or refused with or without a lack of permission.\<close>

datatype set_answer = SetAccepted | SetDenied | SetFailed

definition request_turn_of :: "Surroundings \<Rightarrow> FunctionalProfile \<Rightarrow> Turn \<Rightarrow> set_answer \<Rightarrow> (AdvisorySession, unit) op" where
  "request_turn_of env profile tn reply =
     bindS (askS (\<lambda>s. tn_boot tn 0 - as_last_attempt s \<ge> 1000)) (\<lambda>due. whenS due (
       bindS (on_product (product_next_request env (tn_wall tn 0))) (\<lambda>request.
         case request of
           None \<Rightarrow> returnS ()
         | Some r \<Rightarrow>
             bindS (updS (\<lambda>s. s\<lparr>as_last_attempt := tn_boot tn 0, as_attempted := request_id r\<rparr>)) (\<lambda>_.
               if reply = SetAccepted
               then bindS (on_product (product_request_written env r)) (\<lambda>_.
                      on_log (log_state (reading_at tn 1) ''ADVISORY_REQUESTED'' ''REQUESTED'' ''NONE'' (decision_id r)))
               else bindS (updS (\<lambda>s. if reply = SetDenied then s\<lparr>as_cause := interruption_observe Unavailable (as_cause s)\<rparr> else s)) (\<lambda>_.
                      on_log (advisory_changed profile (reading_at tn 1) False
                        (if reply = SetDenied then ''KUKSA_WRITE_UNAUTHORIZED'' else ''VISS_OR_GATEWAY_UNAVAILABLE'')))))))"

definition readiness_turn :: "Surroundings \<Rightarrow> Turn \<Rightarrow> set_answer \<Rightarrow> (AdvisorySession, string option) op" where
  "readiness_turn env tn reply =
     bindS (readS (\<lambda>s. advisory_readiness (tn_wall tn 2) (an_product s))) (\<lambda>text.
     bindS (liftS (bindE (parse_json (env_from_chars env) text 65536) (\<lambda>j. bindE (json_at ''ready'' j) json_boolean))) (\<lambda>ready.
     bindS (askS (\<lambda>s. readiness_due ready (tn_boot tn 2) (as_publication s))) (\<lambda>due.
       if \<not> due then returnS None
       else
         (let accepted = (reply = SetAccepted)
          in bindS (updS (\<lambda>s. s\<lparr>as_publication := readiness_completed ready (tn_boot tn 3) accepted (as_publication s)\<rparr>)) (\<lambda>_.
             bindS (on_log (log_state (reading_at tn 4) ''ADVISORY_READINESS_PUBLICATION''
                      (if accepted then if ready then ''READY'' else ''NOT_READY'' else ''FAILED'')
                      (if accepted then ''NONE'' else ''KUKSA_SET_NOT_ACCEPTED'') [])) (\<lambda>_. returnS (Some text)))))))"

definition advisory_finished :: "FunctionalProfile \<Rightarrow> Turn \<Rightarrow> SessionInputChange \<Rightarrow> bool \<Rightarrow> (AdvisorySession, session_outcome) op" where
  "advisory_finished profile tn observed stopping =
     bindS (updS (\<lambda>s. s\<lparr>as_cause := interruption_observe observed (as_cause s)\<rparr>)) (\<lambda>_.
     bindS (askS as_cause) (\<lambda>cause.
       if token_replaced cause \<and> \<not> stopping then returnS Reauthenticate
       else
         bindS (on_product (advisory_observation ''UNAVAILABLE'')) (\<lambda>_.
         bindS (on_log (advisory_changed profile (reading_at tn 0) False ''VISS_OR_GATEWAY_UNAVAILABLE'')) (\<lambda>_. returnS Ended))))"

definition after_advisory_session :: "FunctionalProfile \<Rightarrow> Turn \<Rightarrow> session_outcome \<Rightarrow> (AdvisorySession, unit) op" where
  "after_advisory_session profile tn ending =
     (case ending of
        Reauthenticate \<Rightarrow>
          bindS (on_product (advisory_observation ''REAUTHENTICATING'')) (\<lambda>_.
            on_log (advisory_changed profile (reading_at tn 0) False ''KUKSA_REAUTHENTICATING''))
      | Failed c \<Rightarrow>
          bindS (on_product (advisory_observation ''UNAVAILABLE'')) (\<lambda>_.
            on_log (advisory_changed profile (reading_at tn 0) False
              (if c = ''VDP_V3_INCOMPATIBLE'' then ''VDP_V3_INCOMPATIBLE'' else ''VISS_OR_GATEWAY_UNAVAILABLE'')))
      | Ended \<Rightarrow> returnS ())"

end
