(* ===== verification/Session_Props.thy ===== *)
theory Session_Props
  imports Session
begin

text \<open>
  The analytics process: the rate of its log, and the frames that the messages of the broker give.
\<close>

section \<open>The rate of the log\<close>

record LogCall =
  lc_time :: reading
  lc_event :: string
  lc_state :: string
  lc_reason :: string
  lc_source :: string

definition log_call :: "LogCall \<Rightarrow> Log \<Rightarrow> Log" where
  "log_call c l = snd (log_state (lc_time c) (lc_event c) (lc_state c) (lc_reason c) (lc_source c) l)"

definition log_run :: "LogCall list \<Rightarrow> Log \<Rightarrow> Log" where
  "log_run cs l = foldl (\<lambda>l c. log_call c l) l cs"

definition call_minute :: "LogCall \<Rightarrow> int" where
  "call_minute c = cdiv (fst (lc_time c)) 60000"

text \<open>What was spent of the two budgets in a minute.\<close>

definition spent :: "int \<Rightarrow> Log \<Rightarrow> nat" where
  "spent m l = (if log_minute l = m then log_emitted l + log_occurrences l else 0)"

definition within_budget :: "Log \<Rightarrow> bool" where
  "within_budget l \<longleftrightarrow> log_emitted l \<le> 60 \<and> log_occurrences l \<le> 60"

lemmas log_state_defs = log_call_def log_state_def roll_minute_def spend_def budget_def Let_def

lemma log_call_budget: "within_budget l \<Longrightarrow> within_budget (log_call c l)"
  by (auto simp: within_budget_def log_state_defs split: sum.splits)

lemma log_call_spends: "call_minute c = m \<Longrightarrow> length (log_lines (log_call c l)) + spent m l \<le> length (log_lines l) + spent m (log_call c l)"
  by (auto simp: spent_def call_minute_def log_state_defs split: sum.splits)

lemma log_run_budget: "within_budget l \<Longrightarrow> within_budget (log_run cs l)"
  by (induction cs arbitrary: l) (simp_all add: log_run_def log_call_budget)

lemma log_run_spends:
  "list_all (\<lambda>c. call_minute c = m) cs \<Longrightarrow> length (log_lines (log_run cs l)) + spent m l \<le> length (log_lines l) + spent m (log_run cs l)"
proof (induction cs arbitrary: l)
  case (Cons c cs)
  have "length (log_lines (log_run cs (log_call c l))) + spent m (log_call c l) \<le> length (log_lines (log_call c l)) + spent m (log_run cs (log_call c l))"
    using Cons.IH Cons.prems by simp
  moreover have "length (log_lines (log_call c l)) + spent m l \<le> length (log_lines l) + spent m (log_call c l)"
    using log_call_spends Cons.prems by simp
  moreover have "log_run (c # cs) l = log_run cs (log_call c l)" by (simp add: log_run_def)
  ultimately show ?case by simp
qed (simp add: log_run_def)

text \<open>
  C39. The log is rate limited: whatever was logged before, any number of state changes reported within one
  minute of the boot clock writes at most 120 lines, 60 changes and 60 occurrences.
\<close>

theorem log_rate_bounded:
  assumes "list_all (\<lambda>c. call_minute c = m) cs"
  shows "length (log_lines (log_run cs (log_run before Log_new))) \<le> length (log_lines (log_run before Log_new)) + 120"
proof -
  have "within_budget (log_run cs (log_run before Log_new))"
    by (intro log_run_budget) (simp add: within_budget_def Log_new_def)
  then have "spent m (log_run cs (log_run before Log_new)) \<le> 120" by (simp add: spent_def within_budget_def)
  with log_run_spends [OF assms, of "log_run before Log_new"] show ?thesis by simp
qed

definition sample_call :: LogCall where
  "sample_call = \<lparr>lc_time = (120000, 1000), lc_event = ''SERVICE_STARTED'', lc_state = ''RUNNING'', lc_reason = ''NONE'', lc_source = []\<rparr>"

theorem log_rate_bounded_witness:
  "log_lines (log_run [sample_call, sample_call] (log_run [] Log_new)) \<noteq> [] \<and>
   length (log_lines (log_run [sample_call, sample_call] (log_run [] Log_new))) \<le> length (log_lines (log_run [] Log_new)) + 120"
proof
  show "log_lines (log_run [sample_call, sample_call] (log_run [] Log_new)) \<noteq> []" by code_simp
  have "list_all (\<lambda>c. call_minute c = 2) [sample_call, sample_call]" by code_simp
  then show "length (log_lines (log_run [sample_call, sample_call] (log_run [] Log_new))) \<le> length (log_lines (log_run [] Log_new)) + 120"
    by (rule log_rate_bounded)
qed

section \<open>Frames from the broker\<close>

fun feed_updates :: "FunctionalProfile \<Rightarrow> DataEntry list list \<Rightarrow> Signal list \<Rightarrow> Signal list result" where
  "feed_updates profile [] vs = Inr vs"
| "feed_updates profile (u # us) vs = bindE (apply_updates profile u [] vs) (\<lambda>(got, ws). feed_updates profile us ws)"

definition dated :: "Signal \<Rightarrow> bool" where
  "dated v \<longleftrightarrow> 0 \<le> sig_epoch_ms v \<and> sig_epoch_ms v < year_10000_ms"

lemma no_signal_dated: "dated no_signal"
  by (simp add: dated_def no_signal_def year_10000_ms_def)

lemma signal_dated: "dated (signal profile e i)"
proof -
  have "dated \<lparr>sig_value = x, sig_epoch_ms = s * 1000 + cdiv n 1000000, sig_valid = b\<rparr>"
    if "0 \<le> s" "s \<le> 253402300799" "0 \<le> n" "n < 1000000000" for s n x b
  proof -
    have "0 \<le> n div 1000000" "n div 1000000 < 1000" using that(3,4) by auto
    then show ?thesis using that by (auto simp: dated_def cdiv_def year_10000_ms_def sgn_if)
  qed
  then show ?thesis
    by (auto simp: signal_def no_signal_dated Let_def not_less not_le split: option.splits value_case.splits)
qed

lemma apply_updates_dated:
  "apply_updates profile u got vs = Inr (got', ws) \<Longrightarrow> list_all dated vs \<Longrightarrow> list_all dated ws \<and> length ws = length vs"
proof (induction u arbitrary: got vs)
  case (Cons e es)
  from Cons.prems(1) obtain i where "apply_updates profile es (i # got) (vs[i := signal profile e i]) = Inr (got', ws)"
    by (auto simp: bindE_eq_Inr split: if_splits)
  moreover have "list_all dated (vs[i := signal profile e i])"
    using Cons.prems(2) signal_dated set_update_subset_insert [of vs i "signal profile e i"] by (auto simp: list_all_iff)
  ultimately show ?case using Cons.IH by fastforce
qed simp

lemma feed_updates_dated: "feed_updates profile us vs = Inr ws \<Longrightarrow> list_all dated vs \<Longrightarrow> list_all dated ws \<and> length ws = length vs"
proof (induction us arbitrary: vs)
  case (Cons u us)
  then show ?case using apply_updates_dated by (fastforce simp: bindE_eq_Inr split: prod.splits)
qed simp

lemma complete_frame_returns:
  assumes "list_all dated vs" and "length vs = 6"
  shows "\<exists>r. complete_frame vs wall mono_ms previous = Inr r \<and> (\<forall>f. r = Some f \<longrightarrow> is_rfc3339_millisecond_utc (source_timestamp f))"
proof -
  have "dated (vs ! 0)" using assms by (simp add: list_all_length)
  then obtain ts where "utc_timestamp (sig_epoch_ms (vs ! 0)) = Inr ts" "is_rfc3339_millisecond_utc ts"
    unfolding dated_def by (metis utc_timestamp_ok)
  then show ?thesis by (auto simp: complete_frame_def Let_def)
qed

lemma complete_model_frame_dated:
  assumes "list_all dated vs" and "length vs = 12" and "complete_model_frame vs wall mono_ms previous = Inr (Some f)"
  shows "model_frame_ok f"
proof -
  have ne: "map sig_epoch_ms vs \<noteq> []" using assms(2) by auto
  have "max_of (map sig_epoch_ms vs) \<in> set (map sig_epoch_ms vs)" unfolding max_of_set [OF ne] using ne by (intro Max_in) auto
  then have "0 \<le> max_of (map sig_epoch_ms vs) \<and> max_of (map sig_epoch_ms vs) < year_10000_ms"
    using assms(1) by (auto simp: list_all_iff dated_def)
  then show ?thesis
    using assms(3) quantize_all_valid [of vs]
    by (auto simp: complete_model_frame_def Let_def model_frame_ok_def split: if_splits sum.splits exn.splits)
qed

text \<open>
  C38. Whatever the broker sends, the frames assembled from it are well formed: after any updates a
  six-signal frame is assembled without an exception and carries a timestamp of the format the
  validator accepts, and a twelve-signal frame is one the capture is proved for: in range and before
  the year 10000.
\<close>

theorem broker_frames_ok:
  assumes "feed_updates profile us (replicate (length (telemetry_paths profile)) no_signal) = Inr vs"
  shows "if profile = ProfileV1
    then \<exists>r. complete_frame vs wall mono_ms previous = Inr r \<and> (\<forall>f. r = Some f \<longrightarrow> is_rfc3339_millisecond_utc (source_timestamp f))
    else \<forall>f. complete_model_frame vs wall mono_ms previous = Inr (Some f) \<longrightarrow> model_frame_ok f"
proof -
  have vs: "list_all dated vs" "length vs = length (telemetry_paths profile)"
    using feed_updates_dated [OF assms] no_signal_dated by (simp_all add: list_all_length)
  show ?thesis
  proof (cases "profile = ProfileV1")
    case True
    then show ?thesis using complete_frame_returns [OF vs(1)] vs(2) by (simp add: telemetry_paths_def paths_def)
  next
    case False
    then show ?thesis using complete_model_frame_dated [OF vs(1)] vs(2) by (auto simp: telemetry_paths_def model_paths_def)
  qed
qed

definition sample_update :: "DataEntry list" where
  "sample_update = map2 (\<lambda>path v. \<lparr>de_path = path, de_value = Some \<lparr>dp_timestamp = Some (1, 0), dp_value = v\<rparr>, de_metadata = None\<rparr>) paths
     [FloatValue (Fin 50), FloatValue (Fin (- 3)), FloatValue (Fin 0), FloatValue (Fin 0), Uint32Value 0, Uint32Value 60]"

theorem broker_frames_ok_witness:
  "\<exists>vs f. feed_updates ProfileV1 [sample_update] (replicate (length (telemetry_paths ProfileV1)) no_signal) = Inr vs \<and>
     complete_frame vs 1010 5 0 = Inr (Some f) \<and> is_rfc3339_millisecond_utc (source_timestamp f)"
proof -
  let ?v = "feed_updates ProfileV1 [sample_update] (replicate (length (telemetry_paths ProfileV1)) no_signal)"
  have "case bindE ?v (\<lambda>vs. complete_frame vs 1010 5 0) of Inr r \<Rightarrow> r \<noteq> None | Inl _ \<Rightarrow> False" by code_simp
  then obtain vs f where vs: "?v = Inr vs" "complete_frame vs 1010 5 0 = Inr (Some f)"
    by (cases ?v) (auto split: sum.splits)
  then show ?thesis using broker_frames_ok [OF vs(1), of 1010 5 0] by auto
qed

end
