(* ===== verification/Demo.thy ===== *)
theory Demo
  imports Session Product_Runs
begin

text \<open>
  The demonstration switches (\<^verbatim>\<open>runtime/demo_mock.hpp\<close>, \<^verbatim>\<open>runtime/demo_no_telemetry.hpp\<close>) and how the
  bootstrap process chooses them. The rounding of the floating-point operations is an argument, and so are
  the clocks and the answer of the backend within a turn.
\<close>

section \<open>The choice of a switch\<close>

datatype Switch = NoSwitch | SwitchNoTelemetry | SwitchMock

definition demo_switch :: "string list \<Rightarrow> Switch \<times> string list" where
  "demo_switch argv =
     (if length argv > 1 \<and> last argv = ''--demo-no-telemetry'' then (SwitchNoTelemetry, butlast argv)
      else if length argv > 1 \<and> last argv = ''--demo-mocked-data'' then (SwitchMock, butlast argv)
      else (NoSwitch, argv))"

definition no_telemetry_line :: "MessageMetadata \<Rightarrow> string" where
  "no_telemetry_line md =
     ''{\"schemaVersion\":1,\"eventType\":\"DEMO_LIFECYCLE_ONLY\",\"currentState\":\"NOT_READY\",\"reasonCode\":\"TELEMETRY_DISABLED\",\"serviceVersion\":\"'' @
     service_version md @ ''\"}''"

text \<open>All that the process without telemetry writes before it waits for its end.\<close>

definition run_demo_no_telemetry :: "MessageMetadata \<Rightarrow> string list result" where
  "run_demo_no_telemetry md =
     (if unit_role md \<noteq> Validation then Inl (Runtime_error ''DEMO_NO_TELEMETRY_TEST_ONLY'') else Inr [no_telemetry_line md])"

section \<open>The fixture\<close>

definition require_test :: "MessageMetadata \<Rightarrow> unit result" where
  "require_test md = throwIf (unit_role md \<noteq> Validation \<or> service_instance md = None) (Runtime_error ''DEMO_MOCK_NATIVE_TEST_ONLY'')"

definition mock_time :: "nat \<Rightarrow> int" where
  "mock_time i = int i * 1000 div 30"

definition mock_braking :: "int \<Rightarrow> bool" where
  "mock_braking t \<longleftrightarrow> 3200 \<le> t \<and> t < 6200"

definition mock_speed :: "(rat \<Rightarrow> rat) \<Rightarrow> int \<Rightarrow> rat" where
  "mock_speed rnd t =
     (if t < 3200 then 42 else if t < 6200 then rnd (42 - rnd (rnd (of_int (t - 3200) * 32) / 3000)) else 0)"

definition wheel_angular :: "(rat \<Rightarrow> rat) \<Rightarrow> int \<Rightarrow> nat \<Rightarrow> rat" where
  "wheel_angular rnd t wheel = rnd (rnd (mock_speed rnd t * 10) + (if mock_braking t \<and> wheel = 0 then 30 else 0))"

definition wheel_linear :: "(rat \<Rightarrow> rat) \<Rightarrow> int \<Rightarrow> nat \<Rightarrow> rat" where
  "wheel_linear rnd t wheel = rnd (mock_speed rnd t + (if mock_braking t \<and> wheel = 0 then 3 else 0))"

definition mock_numbers :: "(rat \<Rightarrow> rat) \<Rightarrow> FunctionalProfile \<Rightarrow> int \<Rightarrow> rat list" where
  "mock_numbers rnd profile t =
     (let deceleration = (if mock_braking t then - 6 else 0); pedal = (if mock_braking t then 75 else 0)
      in if profile = ProfileV1 then [mock_speed rnd t, deceleration, 0, 0, 0, pedal]
         else [mock_speed rnd t, deceleration, pedal, 0] @ map (wheel_angular rnd t) [0, 1, 2, 3] @ map (wheel_linear rnd t) [0, 1, 2, 3])"

definition mock_values :: "(rat \<Rightarrow> rat) \<Rightarrow> FunctionalProfile \<Rightarrow> int \<Rightarrow> int \<Rightarrow> Signal list" where
  "mock_values rnd profile epoch t = map (\<lambda>q. \<lparr>sig_value = Fin q, sig_epoch_ms = epoch, sig_valid = True\<rparr>) (mock_numbers rnd profile t)"

definition mock_frame :: "Surroundings \<Rightarrow> string result \<Rightarrow> (rat \<Rightarrow> rat) \<Rightarrow> int \<Rightarrow> int \<Rightarrow> nat \<Rightarrow> unit product_op" where
  "mock_frame env uuid rnd now boot i =
     bindS (askP pr_profile) (\<lambda>profile.
     bindS (product_ingest env uuid (mock_values rnd profile (now - 10000 + mock_time i) (mock_time i))
              (now - 10000 + mock_time i + 20) (boot - 10000 + mock_time i)) (\<lambda>result.
       checkS (\<not> po_valid result) (Runtime_error ''DEMO_MOCK_FIXTURE_INVALID'')))"

text \<open>The fresh identifiers are taken by the frame they are for.\<close>

definition generate :: "Surroundings \<Rightarrow> (nat \<Rightarrow> string result) \<Rightarrow> (rat \<Rightarrow> rat) \<Rightarrow> int \<Rightarrow> int \<Rightarrow> unit product_op" where
  "generate env uuids rnd now boot =
     bindS (product_disconnect env (uuids 280)) (\<lambda>_. eachS (\<lambda>i. mock_frame env (uuids i) rnd now boot i) [0..<280])"

section \<open>The loop\<close>

record DemoMock =
  dm_product :: Product
  dm_next_episode :: int
  dm_next_attempt :: int
  dm_failures :: nat
  dm_lines :: "string list"

type_synonym 'a demo_op = "(DemoMock, 'a) op"

definition on_demo :: "'a product_op \<Rightarrow> 'a demo_op" where
  "on_demo m d = (case m (dm_product d) of (r, p) \<Rightarrow> (r, d\<lparr>dm_product := p\<rparr>))"

definition started_line :: "MessageMetadata \<Rightarrow> string result" where
  "started_line md = bindE (quote_json (service_version md)) (\<lambda>v.
     Inr (''{\"eventType\":\"DEMO_MOCK_STARTED\",\"source\":\"DEMO_MOCK\",\"vehicleTelemetry\":false,\"serviceVersion\":'' @ v @ ''}''))"

definition delivery_line :: "bool \<Rightarrow> int \<Rightarrow> string" where
  "delivery_line accepted st =
     ''{\"eventType\":\"DEMO_MOCK_DELIVERY\",\"source\":\"DEMO_MOCK\",\"accepted\":'' @ (if accepted then ''true'' else ''false'') @
     '',\"httpStatus\":'' @ int_to_string st @ ''}''"

definition print_line :: "string \<Rightarrow> unit demo_op" where
  "print_line l = updS (\<lambda>d. d\<lparr>dm_lines := dm_lines d @ [l]\<rparr>)"

definition start_mock :: "Surroundings \<Rightarrow> MessageMetadata \<Rightarrow> FunctionalProfile \<Rightarrow> string \<Rightarrow> int \<Rightarrow> unit demo_op" where
  "start_mock env md profile fresh now =
     bindS (liftS (require_test md)) (\<lambda>_.
     bindS (on_demo (Product_init env md profile fresh now)) (\<lambda>_.
     bindS (liftS (started_line md)) (\<lambda>l.
     bindS (print_line l) (\<lambda>_.
       updS (\<lambda>d. d\<lparr>dm_next_episode := 0, dm_next_attempt := 0, dm_failures := 0\<rparr>)))))"

definition mock_delivery :: "Surroundings \<Rightarrow> Turn \<Rightarrow> ProductDelivery \<Rightarrow> unit demo_op" where
  "mock_delivery env tn m =
     (let response = answer (post_backend (tn_peer tn 0) (product_bytes m) True)
      in bindS (on_demo (product_accept env m response)) (\<lambda>accepted.
         bindS (print_line (delivery_line accepted (status response))) (\<lambda>_.
           if accepted then updS (\<lambda>d. d\<lparr>dm_failures := 0, dm_next_attempt := 0\<rparr>)
           else
             bindS (askS dm_failures) (\<lambda>n.
             bindS (updS (\<lambda>d. d\<lparr>dm_failures := (n + 1) mod 2 ^ 32\<rparr>)) (\<lambda>_.
             bindS (liftS (retry_delay (tn_round tn) n (Fin 0) (retry_after response))) (\<lambda>delay.
               updS (\<lambda>d. d\<lparr>dm_next_attempt := tn_boot tn 1 + delay * 1000\<rparr>)))))))"

definition mock_turn :: "Surroundings \<Rightarrow> (nat \<Rightarrow> string result) \<Rightarrow> Turn \<Rightarrow> unit demo_op" where
  "mock_turn env uuids tn =
     bindS (on_demo (product_next_message env)) (\<lambda>pending.
     bindS (askS (\<lambda>d. (dm_next_attempt d, dm_next_episode d))) (\<lambda>(attempt, ep).
       case pending of
         Some m \<Rightarrow> if tn_boot tn 0 \<ge> attempt then mock_delivery env tn m else returnS ()
       | None \<Rightarrow>
           if tn_boot tn 0 \<ge> ep
           then bindS (on_demo (generate env uuids (tn_round tn) (tn_wall tn 0) (tn_boot tn 0))) (\<lambda>_.
                  updS (\<lambda>d. d\<lparr>dm_next_episode := tn_boot tn 0 + 30000\<rparr>))
           else returnS ()))"

definition stop_mock :: "Surroundings \<Rightarrow> unit demo_op" where
  "stop_mock env = on_demo (product_stop env)"

section \<open>The frames of the fixture\<close>

text \<open>What the fixture needs of the rounding: it is monotone and keeps the whole numbers of its range.\<close>

definition rounds :: "(rat \<Rightarrow> rat) \<Rightarrow> bool" where
  "rounds rnd \<longleftrightarrow> mono rnd \<and> (\<forall>n. \<bar>n\<bar> \<le> 1000000 \<longrightarrow> rnd (of_int n) = of_int n)"

lemma rounds_within: "rounds rnd \<Longrightarrow> of_int a \<le> q \<Longrightarrow> q \<le> of_int b \<Longrightarrow> \<bar>a\<bar> \<le> 1000000 \<Longrightarrow> \<bar>b\<bar> \<le> 1000000 \<Longrightarrow>
    of_int a \<le> rnd q \<and> rnd q \<le> of_int b"
  unfolding rounds_def by (metis monoD)

lemma rounds_at: "rounds rnd \<Longrightarrow> \<bar>n\<bar> \<le> 1000000 \<Longrightarrow> rnd (of_int n) = of_int n"
  by (simp add: rounds_def)

lemma mock_speed_within:
  assumes "rounds rnd"
  shows "0 \<le> mock_speed rnd t \<and> mock_speed rnd t \<le> 42"
proof (cases "3200 \<le> t \<and> t < 6200")
  case True
  let ?w = "(t - 3200) * 32"
  have w: "rnd (of_int (t - 3200) * 32) = of_int ?w" using rounds_at [OF assms, of ?w] True by simp
  have "0 \<le> ?w" and "?w \<le> 96000" using True by simp_all
  then have "(of_int 0 :: rat) \<le> of_int ?w" and "of_int ?w \<le> (of_int 96000 :: rat)"
    by (simp_all only: of_int_le_iff)
  then have "0 \<le> (of_int ?w :: rat) / 3000 \<and> of_int ?w / 3000 \<le> (32 :: rat)"
    by (simp only: of_int_0 of_int_numeral) linarith
  then have "0 \<le> rnd (of_int ?w / 3000) \<and> rnd (of_int ?w / 3000) \<le> 32"
    using rounds_within [OF assms, of 0 "of_int ?w / 3000" 32] by simp
  then have "0 \<le> rnd (42 - rnd (of_int ?w / 3000)) \<and> rnd (42 - rnd (of_int ?w / 3000)) \<le> 42"
    using rounds_within [OF assms, of 0 "42 - rnd (of_int ?w / 3000)" 42] by simp
  then show ?thesis using True w by (simp add: mock_speed_def)
qed (auto simp: mock_speed_def)

lemma wheels_within:
  assumes "rounds rnd"
  shows "0 \<le> wheel_angular rnd t k \<and> wheel_angular rnd t k \<le> 450" and "0 \<le> wheel_linear rnd t k \<and> wheel_linear rnd t k \<le> 45"
proof -
  note v = mock_speed_within [OF assms, of t]
  have "0 \<le> rnd (mock_speed rnd t * 10) \<and> rnd (mock_speed rnd t * 10) \<le> 420"
    using rounds_within [OF assms, of 0 "mock_speed rnd t * 10" 420] v by simp
  then show "0 \<le> wheel_angular rnd t k \<and> wheel_angular rnd t k \<le> 450"
    using rounds_within [OF assms, of 0 "rnd (mock_speed rnd t * 10) + (if mock_braking t \<and> k = 0 then 30 else 0)" 450]
    by (simp add: wheel_angular_def)
  show "0 \<le> wheel_linear rnd t k \<and> wheel_linear rnd t k \<le> 45"
    using rounds_within [OF assms, of 0 "mock_speed rnd t + (if mock_braking t \<and> k = 0 then 3 else 0)" 45] v
    by (simp add: wheel_linear_def)
qed

lemma quantize_milli_ok:
  assumes "lo \<le> q" and "q \<le> hi" and "- 10000 \<le> lo" and "hi \<le> 10000"
  shows "quantize_milli (Fin q) lo hi = Inr (std_round (q * 1000))"
proof -
  have "of_int (- 10000000) \<le> q * 1000" "q * 1000 \<le> of_int 10000000" using assms by simp_all
  from this [THEN std_round_mono] have "- 10000000 \<le> std_round (q * 1000)" "std_round (q * 1000) \<le> 10000000"
    by (simp_all only: std_round_of_int)
  then show ?thesis using assms by (simp add: quantize_milli_def Let_def i64_min_def i64_max_def)
qed

lemma mock_model_frame:
  assumes "rounds rnd" and "profile \<noteq> ProfileV1" and "0 \<le> epoch" and "previous < epoch" and "0 \<le> mono_ms"
  shows "\<exists>f. complete_model_frame (mock_values rnd profile epoch t) (epoch + 20) mono_ms previous = Inr (Some f)"
proof -
  let ?vs = "mock_values rnd profile epoch t"
  have e: "map sig_epoch_ms ?vs = replicate 12 epoch" "list_all sig_valid ?vs"
    using assms(2) by (simp_all add: mock_values_def mock_numbers_def Let_def numeral_eq_Suc)
  have m: "min_of (replicate 12 epoch) = epoch" "max_of (replicate 12 epoch) = epoch"
    by (simp_all add: numeral_eq_Suc min_of_def max_of_def)
  have w: "quantize_milli (Fin (wheel_angular rnd t k)) (- 10000) 10000 = Inr (std_round (wheel_angular rnd t k * 1000))"
    "quantize_milli (Fin (wheel_linear rnd t k)) 0 1000 = Inr (std_round (wheel_linear rnd t k * 1000))" for k
    using wheels_within [OF assms(1), of t k] by (auto intro!: quantize_milli_ok)
  have v: "quantize_milli (Fin (mock_speed rnd t)) 0 1000 = Inr (std_round (mock_speed rnd t * 1000))"
    using mock_speed_within [OF assms(1), of t] by (auto intro!: quantize_milli_ok)
  have "\<exists>s. quantize_all ?vs = Inr s"
    using assms(2) by (simp add: quantize_all_def mock_values_def mock_numbers_def Let_def quantize_milli_ok w v)
  then show ?thesis using assms by (auto simp: complete_model_frame_def e m Let_def kMaximumSignalSkewMs_def)
qed

lemma mock_v1_frame:
  assumes "rounds rnd" and "0 \<le> epoch" and "epoch < year_10000_ms" and "previous < epoch"
  shows "\<exists>f. complete_frame (mock_values rnd ProfileV1 epoch t) (epoch + 20) mono_ms previous = Inr (Some f) \<and>
    source_epoch_ms f = epoch \<and> monotonic_ms f = mono_ms \<and> valid (validate f None None)"
proof -
  obtain ts where ts: "utc_timestamp epoch = Inr ts" "is_rfc3339_millisecond_utc ts"
    using utc_timestamp_ok [OF assms(2,3)] by auto
  have "0 \<le> mock_speed rnd t" "mock_speed rnd t \<le> 1000" using mock_speed_within [OF assms(1), of t] by auto
  with ts assms show ?thesis
    by (simp add: complete_frame_def mock_values_def mock_numbers_def Let_def isfinite_def kMaximumSourceAgeMs_def is_integral_def
        validate_def outside_def before_previous_def)
qed

text \<open>A frame with a time before the boot is never taken in the profiles with the model.\<close>

lemma ingest_early:
  assumes "mono_ms < 0" and "pr_profile p \<noteq> ProfileV1" and "product_ingest env uuid vs wall mono_ms p = (Inr r, p')"
  shows "\<not> po_valid r"
proof -
  have none: "complete_model_frame vs wall mono_ms e = Inr None" for e
    using assms(1) by (simp add: complete_model_frame_def Let_def)
  have gap: "\<not> po_valid x" if "source_gap env uuid s = (Inr x, s')" for x s s'
    using that by (auto simp: source_gap_def bindS_eq_Inr no_observation_def)
  have model: "\<not> po_valid x" if "ingest_model env uuid vs wall mono_ms s = (Inr x, s')" for x s s'
    using that gap by (auto simp: ingest_model_def none no_frame_def bindS_eq_Inr no_observation_def split: if_splits)
  obtain pending p1 where p1: "product_reset_pending env p = (Inr pending, p1)"
    using assms(3) by (auto simp: product_ingest_def bindS_eq_Inr)
  have "keeps (\<lambda>q. pr_profile q = pr_profile p) (product_reset_pending env)"
    unfolding product_reset_pending_def by (intro profile_rules)
  from keepsD [OF this, of p] have "pr_profile p1 \<noteq> ProfileV1" using p1 assms(2) by simp
  then show ?thesis
    using assms(3) gap model
    by (cases pending) (auto simp: product_ingest_def bindS_eq_Inr p1 no_observation_def note_input_def askP_def split: if_splits)
qed

text \<open>C40. Within the first ten seconds after the boot the demonstration cannot generate its fixture in the
  profiles with the model: whatever the state of the product, the clocks and the rounding, the call
  raises, because the first frame lies before the boot.
\<close>

theorem mock_needs_uptime:
  assumes "boot < 10000" and "pr_profile p \<noteq> ProfileV1"
  shows "\<not> okE (fst (generate env uuids rnd now boot p))"
proof
  assume "okE (fst (generate env uuids rnd now boot p))"
  then obtain p2 where "generate env uuids rnd now boot p = (Inr (), p2)"
    by (cases "generate env uuids rnd now boot p") (auto simp: okE_def split: sum.splits)
  moreover have "[0..<280] = 0 # [Suc 0..<280]" by (rule upt_rec [THEN trans]) simp
  ultimately obtain p1 p3 where p1: "product_disconnect env (uuids 280) p = (Inr (), p1)"
    and frame: "mock_frame env (uuids 0) rnd now boot 0 p1 = (Inr (), p3)"
    by (auto simp: generate_def bindS_eq_Inr)
  have "keeps (\<lambda>q. pr_profile q = pr_profile p) (product_disconnect env (uuids 280))"
    unfolding product_disconnect_def clear_input_time_def by (intro profile_rules) simp_all
  from keepsD [OF this, of p] have "pr_profile p1 \<noteq> ProfileV1" using p1 assms(2) by simp
  then show False
    using frame ingest_early [of "boot - 10000 + mock_time 0" p1 env "uuids 0"] assms(1)
    by (auto simp: mock_frame_def bindS_eq_Inr askP_def checkS_def mock_time_def split: if_splits)
qed

theorem mock_needs_uptime_witness:
  "pr_profile (waiting_product\<lparr>pr_profile := ProfileV2\<rparr>) \<noteq> ProfileV1 \<and>
   \<not> okE (fst (generate calm_world (\<lambda>_. Inr []) id 1700000000000 9999 (waiting_product\<lparr>pr_profile := ProfileV2\<rparr>)))"
  using mock_needs_uptime [of 9999 "waiting_product\<lparr>pr_profile := ProfileV2\<rparr>" calm_world "\<lambda>_. Inr []" id 1700000000000] by simp

end
