(* ===== verification/Names.thy ===== *)
theory Names
  imports Session_Props Product_Runs
begin

text \<open>
  The identifiers and instants that the event runtime, the capture, the state store and the advisory
  runtime hand to the facts are of the form the check of the observation queue asks for.
\<close>

section \<open>Identifiers and instants\<close>

lemma decimal_number_in: "list_all is_dec (take n (drop p s)) \<Longrightarrow> number_in s p n = decimal s p n"
proof -
  have "foldl (\<lambda>v c. v * 10 + (code c - 48)) a xs = foldl (\<lambda>acc c. acc * 10 + dec_val c) a xs" for a xs
    by (simp add: dec_val_def)
  then show ?thesis by (simp add: number_in_def decimal_def dec_value_def)
qed

lemma month_length_maximum: "1 \<le> m \<Longrightarrow> m \<le> 12 \<Longrightarrow> d \<le> maximum_day y m \<Longrightarrow> d \<le> month_length y m"
proof -
  assume m: "1 \<le> m" "m \<le> 12" and d: "d \<le> maximum_day y m"
  from m have "m = 1 \<or> m = 2 \<or> m = 3 \<or> m = 4 \<or> m = 5 \<or> m = 6 \<or> m = 7 \<or> m = 8 \<or> m = 9 \<or> m = 10 \<or> m = 11 \<or> m = 12" by presburger
  with d show "d \<le> month_length y m"
    by (elim disjE) (auto simp: month_length_def maximum_day_def days_per_month_def leap_year_def split: if_splits)
qed

lemma rfc3339_instant: "is_rfc3339_millisecond_utc s \<Longrightarrow> instant_text s"
  unfolding is_rfc3339_millisecond_utc_def instant_text_def
  by (auto simp: digits_def digits_at_def decimal_number_in Let_def not_less month_length_maximum split: if_splits)

lemma lower_hex_id: "is_lower_hex c \<Longrightarrow> id_char c"
  by (auto simp: id_char_def is_lower_hex_def char_class_defs)

lemma canonical_uuid_id:
  assumes u: "canonical_uuid s v"
  shows "id_text s"
proof -
  have l: "length s = 36" using u by (simp add: canonical_uuid_def)
  have body: "is_lower_hex (s ! i)" if "i < 36" "\<not> uuid_dash i" for i
    using u that unfolding canonical_uuid_def by auto
  have hex: "is_lower_hex (s ! i) \<or> s ! i = CHR ''-''" if "i < 36" for i
    using body [OF that] u by (cases "uuid_dash i") (auto simp: canonical_uuid_def uuid_dash_def)
  have "is_lower_hex (s ! 0)" by (rule body) (simp_all add: uuid_dash_def)
  then have "id_char (s ! 0)" by (rule lower_hex_id)
  moreover have "id_char (s ! i) \<or> s ! i = CHR ''_'' \<or> s ! i = CHR ''.'' \<or> s ! i = CHR '':'' \<or> s ! i = CHR ''-''" if "i < 36" for i
    using hex [OF that] lower_hex_id by blast
  ultimately show ?thesis using l by (auto simp: id_text_def list_all_length)
qed

lemma has_version_id: "has_version s v \<Longrightarrow> id_text s"
  by (auto simp: has_version_def uuid_with_version_canonical intro: canonical_uuid_id)

section \<open>Names of events\<close>

text \<open>An open event of the engine has a name from the source of identifiers.\<close>

definition engine_named :: "WindowEngine \<Rightarrow> bool" where
  "engine_named e \<longleftrightarrow> (eng_state e \<noteq> StateIdle \<longrightarrow> id_text (eng_event_id e))"

definition named_outcome :: "WindowEngine \<times> IngestResult \<Rightarrow> bool" where
  "named_outcome = (\<lambda>(e, r). engine_named e \<and> (\<forall>w. completed r = Some w \<longrightarrow> id_text (event_id w)))"

lemma finish_named:
  "engine_named e \<Longrightarrow> finish ts reason e = (e', w) \<Longrightarrow> engine_named e' \<and> (\<forall>v. w = Some v \<longrightarrow> id_text (event_id v))"
  by (auto simp: finish_def engine_named_def Let_def split: if_splits)

lemma engine_named_cong: "eng_state e' = eng_state e \<Longrightarrow> eng_event_id e' = eng_event_id e \<Longrightarrow> engine_named e' = engine_named e"
  by (simp add: engine_named_def)

lemma ingest_tail_named: "engine_named e \<Longrightarrow> completed r = None \<Longrightarrow> named_outcome (ingest_tail r e)"
  using finish_named by (auto simp: ingest_tail_def named_outcome_def split: prod.splits)

lemma add_samples_named [simp]:
  "eng_event_id (add_capture_sample f p e) = eng_event_id e" "eng_state (add_capture_sample f p e) = eng_state e"
  "eng_event_id (add_pre_sample f e) = eng_event_id e" "eng_state (add_pre_sample f e) = eng_state e"
  by (auto simp: add_capture_sample_def add_pre_sample_def prune_pre_samples_def Let_def)

lemma ingest_branches_named:
  assumes "engine_named e" and "completed r = None"
  shows "named_outcome (ingest_invalid r e)" "named_outcome (ingest_suppressed f r e)"
    "eng_state e \<noteq> StateIdle \<Longrightarrow> named_outcome (ingest_active f r e)" "eng_state e \<noteq> StateIdle \<Longrightarrow> named_outcome (ingest_post f r e)"
proof -
  have cong: "engine_named (e\<lparr>trigger_hold_start := a, clear_hold_start := b, suppression_clear_hold_start := c\<rparr>)"
    "engine_named (e\<lparr>trigger_hold_start := a\<rparr>)" for a b c
    using assms(1) by (simp_all add: engine_named_def)
  show "named_outcome (ingest_invalid r e)"
    using assms(2) cong finish_named [OF cong(1)] by (auto simp: ingest_invalid_def named_outcome_def Let_def split: prod.splits if_splits)
  show "named_outcome (ingest_suppressed f r e)"
    using assms by (auto simp: ingest_suppressed_def named_outcome_def Let_def engine_named_def add_pre_sample_def prune_pre_samples_def split: prod.splits)
  assume open_state: "eng_state e \<noteq> StateIdle"
  then have "id_text (eng_event_id e)" using assms(1) by (simp add: engine_named_def)
  then show "named_outcome (ingest_active f r e)"
    using assms(2) by (auto simp: ingest_active_def Let_def engine_named_def split: prod.splits intro!: ingest_tail_named)
  obtain retrigger start where u: "update_hold (qualifying_trigger f) (monotonic_ms f) 200 (trigger_hold_start e) = (retrigger, start)"
    by fastforce
  let ?e = "e\<lparr>trigger_hold_start := start\<rparr>"
  show "named_outcome (ingest_post f r e)"
  proof (cases "\<not> retrigger \<and> (monotonic_ms f - post_start_ms ?e \<ge> 2000 \<or> phase_count PhasePost (eng_samples ?e) \<ge> maximum_post_samples)")
    case True
    then show ?thesis using finish_named [OF cong(2)] by (auto simp: ingest_post_def u named_outcome_def split: prod.splits)
  next
    case False
    then show ?thesis
      using assms(2) \<open>id_text (eng_event_id e)\<close>
      by (simp only: ingest_post_def u Let_def prod.case if_False) (auto simp: engine_named_def intro!: ingest_tail_named)
  qed
qed

lemma begin_event_named:
  assumes "begin_event uuid f e = (e', r)" and "eng_state e = StateIdle" and "\<And>u. uuid = Inr u \<Longrightarrow> id_text u"
  shows "engine_named e'"
  using assms by (auto simp: begin_event_def engine_named_def prune_pre_samples_def Let_def split: sum.splits if_splits)

lemma ingest_idle_named:
  assumes "eng_state e = StateIdle" and "completed r = None" and "\<And>u. uuid = Inr u \<Longrightarrow> id_text u" and "ingest_idle uuid f r e = (e', out)"
  shows "engine_named e' \<and> (\<forall>r w. out = Inr r \<longrightarrow> completed r = Some w \<longrightarrow> id_text (event_id w))"
proof -
  have "engine_named e2" if "begin_event uuid f (e\<lparr>trigger_hold_start := s\<rparr>) = (e2, x)" for s e2 x
    using begin_event_named [OF that] assms(1,3) by simp
  then show ?thesis
    using assms by (auto simp: ingest_idle_def Let_def engine_named_def split: prod.splits sum.splits if_splits)
qed

lemma ingest_named:
  assumes "engine_named e" and "\<And>u. uuid = Inr u \<Longrightarrow> id_text u" and "ingest uuid f e = (e', out)"
  shows "engine_named e' \<and> (\<forall>r w. out = Inr r \<longrightarrow> completed r = Some w \<longrightarrow> id_text (event_id w))"
proof -
  define v where "v = validate f (previous_source_epoch_ms e) (previous_monotonic_ms e)"
  define e2 where "e2 = (if retained_source_bucket e = None \<or> retained_source_bucket e \<noteq> Some (bucket f)
    then e\<lparr>previous_source_epoch_ms := Some (source_epoch_ms f), previous_monotonic_ms := Some (monotonic_ms f),
      retained_source_bucket := Some (bucket f)\<rparr>
    else e\<lparr>previous_source_epoch_ms := Some (source_epoch_ms f), previous_monotonic_ms := Some (monotonic_ms f)\<rparr>)"
  define r1 where "r1 = (IngestResult_new v)\<lparr>retained := (retained_source_bucket e = None \<or> retained_source_bucket e \<noteq> Some (bucket f))\<rparr>"
  have r1: "completed r1 = None" "completed (IngestResult_new v) = None" by (simp_all add: r1_def IngestResult_new_def)
  have e2: "engine_named e2" "eng_state e2 = eng_state e" using assms(1) by (simp_all add: e2_def engine_named_def)
  note br = ingest_branches_named [OF e2(1) r1(1)]
  have "ingest uuid f e = (if \<not> valid v then (let (e1, r1) = ingest_invalid (IngestResult_new v) e in (e1, Inr r1))
      else if retrigger_suppressed e2 then (let (e3, r3) = ingest_suppressed f r1 e2 in (e3, Inr r3))
      else if eng_state e2 = StateIdle then ingest_idle uuid f r1 e2
      else if over_limit f e2 then (let (e3, w) = finish TruncatedMaxDuration MaxActiveDuration e2 in (e3, Inr (r1\<lparr>completed := w\<rparr>)))
      else if eng_state e2 = StateActive then (let (e3, r3) = ingest_active f r1 e2 in (e3, Inr r3))
      else (let (e3, r3) = ingest_post f r1 e2 in (e3, Inr r3)))"
    by (simp add: ingest_def Let_def v_def r1_def e2_def)
  note eq = this
  have out: ?thesis if "ingest uuid f e = (fst x, Inr (snd x))" "named_outcome x" for x
    using that assms(3) by (cases x) (auto simp: named_outcome_def)
  show ?thesis
  proof (cases "valid v \<and> \<not> retrigger_suppressed e2")
    case False
    then show ?thesis
      using eq out [OF _ ingest_branches_named(1) [OF assms(1) r1(2)]] out [OF _ br(2) [of f]] by (simp add: case_prod_beta split: if_splits)
  next
    case v: True
    show ?thesis
    proof (cases "eng_state e2 = StateIdle")
      case True
      then have "ingest_idle uuid f r1 e2 = (e', out)" using v eq assms(3) by simp
      from ingest_idle_named [OF True r1(1) assms(2) this] show ?thesis by simp
    next
      case busy: False
      obtain e3 w where fin: "finish TruncatedMaxDuration MaxActiveDuration e2 = (e3, w)" by fastforce
      have "named_outcome (e3, r1\<lparr>completed := w\<rparr>)" using finish_named [OF e2(1) fin] by (simp add: named_outcome_def)
      from out [OF _ this] out [OF _ br(3) [OF busy]] out [OF _ br(4) [OF busy]] show ?thesis
        using v busy eq fin by (simp add: case_prod_beta split: if_splits)
    qed
  qed
qed

text \<open>The same of the capture.\<close>

definition capture_named :: "ModelCapture \<Rightarrow> bool" where
  "capture_named c \<longleftrightarrow> (mc_state c \<noteq> StateIdle \<longrightarrow> id_text (source_event_id (episode c)))"

definition named_episode :: "capture_outcome \<Rightarrow> bool" where
  "named_episode = (\<lambda>(c, out). capture_named c \<and> (\<forall>ep. out = Inr (Some ep) \<longrightarrow> id_text (source_event_id ep)))"

lemma abort_named: "capture_named c \<Longrightarrow> named_episode (ok_outcome (abort t c))"
  by (auto simp: abort_def ok_outcome_def named_episode_def capture_named_def Let_def)

lemma retain_named: "retain_if keep f p c = (c', r) \<Longrightarrow> mc_state c' = mc_state c \<and> source_event_id (episode c') = source_event_id (episode c)"
  by (auto simp: retain_if_def retain_def prune_def Let_def split: sum.splits if_splits)

lemma no_episode_named:
  assumes "capture_named c"
  shows "named_episode (no_episode (retain_if keep f p c))"
proof -
  obtain c' r where r: "retain_if keep f p c = (c', r)" by fastforce
  have "capture_named c'" using assms retain_named [OF r] by (simp add: capture_named_def)
  then show ?thesis by (cases r) (simp_all add: r no_episode_def named_episode_def)
qed

lemma capture_idle_named:
  assumes "mc_state c = StateIdle" and "\<And>u. uuid = Inr u \<Longrightarrow> id_text u"
  shows "named_episode (capture_idle uuid keep f c)"
proof -
  obtain triggered start where h: "hold (mf_trigger f) (mf_monotonic_ms f) 200 (trigger_hold c) = (triggered, start)" by fastforce
  let ?c = "c\<lparr>trigger_hold := start\<rparr>"
  obtain c2 r where b: "capture_begin uuid f ?c = (c2, r)" by fastforce
  have c2: "capture_named c2"
    using b assms by (auto simp: capture_begin_def capture_named_def prune_def Let_def split: sum.splits)
  have c: "capture_named ?c" using assms(1) by (simp add: capture_named_def)
  have raised: "named_episode (c2, Inl x)" for x using c2 by (simp add: named_episode_def)
  show ?thesis
    using no_episode_named [OF c2, of keep f PhaseActive] no_episode_named [OF c, of keep f PhasePre] raised
    by (cases r) (simp_all add: capture_idle_def Let_def h b)
qed

lemma capture_move_named: "capture_move f c = Inl c1 \<or> capture_move f c = Inr c1 \<Longrightarrow> mc_state c \<noteq> StateIdle \<Longrightarrow> episode c1 = episode c"
  by (auto simp: capture_move_def Let_def split: if_splits prod.splits)

lemma capture_capturing_named:
  assumes "mc_state c \<noteq> StateIdle" and "id_text (source_event_id (episode c))"
  shows "named_episode (capture_capturing keep f c)"
proof -
  have named: "capture_named c1" if "episode c1 = episode c" for c1 using that assms(2) by (simp add: capture_named_def)
  show ?thesis
  proof (cases "capture_over_limit f c")
    case True
    then show ?thesis using abort_named [OF named [OF refl]] by (simp add: capture_capturing_def)
  next
    case over: False
    show ?thesis
    proof (cases "capture_move f c")
      case (Inl c1)
      then show ?thesis using over abort_named [OF named] capture_move_named [of f c c1] assms(1) by (simp add: capture_capturing_def)
    next
      case (Inr c1)
      let ?r = "retain_if keep f (if mc_state c1 = StateActive then PhaseActive else PhasePost) c1"
      obtain c2 x where r: "?r = (c2, x)" by fastforce
      have "source_event_id (episode c2) = source_event_id (episode c)"
        using retain_named [OF r] capture_move_named [of f c c1] Inr assms(1) by simp
      then have "capture_named c2" using assms(2) by (simp add: capture_named_def)
      then show ?thesis
        using over Inr r abort_named by (auto simp: capture_capturing_def named_episode_def split: sum.splits)
    qed
  qed
qed

lemma capture_ingest_named:
  assumes "capture_named c" and "\<And>u. uuid = Inr u \<Longrightarrow> id_text u"
  shows "named_episode (capture_ingest uuid f c)"
proof -
  have cong: "capture_named c1" if "mc_state c1 = mc_state c" "episode c1 = episode c" for c1 using that assms(1) by (simp add: capture_named_def)
  show ?thesis
    unfolding capture_ingest_def Let_def
    using assms cong abort_named
    by (auto simp: capture_named_def capture_suppressed_def Let_def split: prod.splits
        intro!: abort_named capture_idle_named capture_capturing_named no_episode_named)
qed

section \<open>Identifiers of results and requests\<close>

text \<open>\<open>yields m Q\<close>: what the operation returns has \<open>Q\<close>, in whatever state it is called.\<close>

definition yields :: "('s, 'a) op \<Rightarrow> ('a \<Rightarrow> bool) \<Rightarrow> bool" where
  "yields m Q \<longleftrightarrow> (\<forall>s x s'. m s = (Inr x, s') \<longrightarrow> Q x)"

lemma yieldsD: "yields m Q \<Longrightarrow> m s = (Inr x, s') \<Longrightarrow> Q x"
  by (auto simp: yields_def)

lemma yields_pure: "Q x \<Longrightarrow> yields (returnS x) Q" "yields (throwS e) Q"
  by (simp_all add: yields_def)

lemma yields_bind: "(\<And>x. yields (f x) Q) \<Longrightarrow> yields (bindS m f) Q"
  by (auto simp: yields_def bindS_eq_Inr)

lemma yields_bind_lift: "(\<And>x. r = Inr x \<Longrightarrow> yields (f x) Q) \<Longrightarrow> yields (bindS (liftS r) f) Q"
  by (cases r) (simp_all add: yields_def)

lemma yields_bind_read: "(\<And>s x. g s = Inr x \<Longrightarrow> yields (f x) Q) \<Longrightarrow> yields (bindS (readS g) f) Q"
  by (auto simp: yields_def split: sum.splits)

lemma yields_if: "(b \<Longrightarrow> yields m Q) \<Longrightarrow> (\<not> b \<Longrightarrow> yields n Q) \<Longrightarrow> yields (if b then m else n) Q"
  by simp

lemma yields_option: "(x = None \<Longrightarrow> yields m Q) \<Longrightarrow> (\<And>y. x = Some y \<Longrightarrow> yields (n y) Q) \<Longrightarrow> yields (case x of None \<Rightarrow> m | Some y \<Rightarrow> n y) Q"
  by (cases x) simp_all

lemma yields_catch: "yields m Q \<Longrightarrow> yields h Q \<Longrightarrow> yields (catchArgumentS m h) Q"
  by (auto simp: yields_def catchArgumentS_def split: prod.splits sum.splits exn.splits)

definition named_result :: "ProcessResult \<Rightarrow> bool" where
  "named_result a \<longleftrightarrow> (process_status a = Produced \<longrightarrow> (\<forall>i. process_assessment_id a = Some i \<longrightarrow> id_text i))"

lemma unproduced: "st \<noteq> Produced \<Longrightarrow> named_result (process_result st reason ident created)"
  by (simp add: named_result_def process_result_def)

lemma uuid_v5_id: "uuid_v5 ns parts = Inr i \<Longrightarrow> id_text i"
  by (rule has_version_id [OF uuid_v5_version])

lemma built_id:
  assumes "v2_build_messages md ep a = Inr ms"
  shows "id_text (derived_id (derived_assessment ms))"
  by (rule build_messages_parts [OF assms]) (auto simp: assessment_id_def dest: uuid_v5_id)

lemma not_ready_yields: "yields not_ready named_result"
  unfolding not_ready_def by (intro yields_bind yields_pure unproduced) simp

lemma process_named: "yields (process_episode flt ep md n k) named_result"
proof -
  have accept: "yields (accept_assessment flt before ledger current ep md evaluated a n k) named_result" for before ledger current evaluated a
    unfolding accept_assessment_def Let_def
    by (rule yields_bind_lift) (intro yields_bind yields_pure, simp add: named_result_def process_result_def built_id)
  have duplicate: "yields (duplicate_result before ledger current i) named_result" for before ledger current i
    unfolding duplicate_result_def Let_def by (intro yields_if yields_pure not_ready_yields unproduced) simp
  show ?thesis
    unfolding process_episode_def
    by (intro yields_bind yields_if yields_option yields_catch yields_pure not_ready_yields accept duplicate unproduced) simp_all
qed

lemma request_built_id: "build_request clear epoch n d issued version = Inr r \<Longrightarrow> id_text (request_id r)"
  by (auto dest!: uuid_v5_id simp: build_request_def build_clear_request_def build_set_request_def issue_request_def Let_def bindE_eq_Inr split: if_splits)

lemma request_read_id: "read_request j = Inr r \<Longrightarrow> id_text (request_id r)"
  by (auto simp: read_request_def Let_def bindE_eq_Inr dest: request_built_id split: if_split_asm)

lemma next_request_id: "yields (next_request fc flt model md now) (\<lambda>r. case r of None \<Rightarrow> True | Some q \<Rightarrow> id_text (request_id q))"
proof -
  have again: "id_text (request_id old)" if "after_last now clear d entries = Inr (Again old)" for clear d entries old
    using that request_read_id by (auto simp: after_last_def Let_def bindE_eq_Inr split: if_splits)
  have turns: "yields (case x of Wait \<Rightarrow> a | Again old \<Rightarrow> b old | Issue d \<Rightarrow> c d) Q"
    if "x = Wait \<Longrightarrow> yields a Q" "\<And>old. x = Again old \<Longrightarrow> yields (b old) Q" "\<And>d. x = Issue d \<Longrightarrow> yields (c d) Q"
    for x a b c and Q :: "AdvisoryRequest option \<Rightarrow> bool" using that by (cases x) simp_all
  show ?thesis
    unfolding next_request_def
    by (intro yields_bind_lift yields_bind_read yields_bind yields_option turns yields_pure)
      (auto simp: bindE_eq_Inr dest: again request_built_id)
qed

lemma current_request_named: "yields (current_request_id fc) (\<lambda>r. case r of None \<Rightarrow> True | Some i \<Rightarrow> id_text i)"
  using request_read_id by (auto simp: yields_def current_request_id_def bindS_eq_Inr bindE_eq_Inr split: if_splits)

section \<open>The event runtime\<close>

definition fresh_ok :: "string result \<Rightarrow> bool" where
  "fresh_ok uuid \<longleftrightarrow> (\<forall>u. uuid = Inr u \<longrightarrow> id_text u)"

definition legacy_ok :: "string \<Rightarrow> Runtime \<Rightarrow> bool" where
  "legacy_ok v rt \<longleftrightarrow> engine_ok (rt_engine rt) \<and> engine_named (rt_engine rt) \<and> service_version (rt_metadata rt) = v"

definition named_window :: "EventWindow \<Rightarrow> bool" where
  "named_window w \<longleftrightarrow> id_text (event_id w) \<and> instant_text (trigger_timestamp w)"

definition named_ingest :: "IngestResult \<Rightarrow> bool" where
  "named_ingest r \<longleftrightarrow> (\<forall>w. completed r = Some w \<longrightarrow> named_window w)"

lemma legacy_spool: "keeps (legacy_ok v) (on_spool m)" "keeps (legacy_ok v) (read_spool f)"
  by (auto simp: keeps_def on_spool_def read_spool_def legacy_ok_def split: prod.splits)

lemmas legacy_rules = keeps_rules legacy_spool

lemma legacy_store: "keeps (legacy_ok v) (store_window env w capture)"
proof -
  have drop: "keeps (legacy_ok v) (\<lambda>rt. (Inr (), rt\<lparr>dropped_event_id := i\<rparr>))" for i
    by (simp add: keeps_def legacy_ok_def)
  have finish: "keeps (legacy_ok v) (finish_store env ev existed r)" for ev existed r
    unfolding finish_store_def by (intro legacy_rules drop)
  have rewrite: "keeps (legacy_ok v) (may_rewrite env ev ms existing)" for ev ms existing
    unfolding may_rewrite_def by (intro legacy_rules)
  show ?thesis
  proof (rule keepsI)
    fix rt
    assume ok: "legacy_ok v rt"
    show "legacy_ok v (snd (store_window env w capture rt))"
    proof (cases "dropped_event_id rt = Some (event_id w)")
      case False
      show ?thesis
        unfolding store_window_def if_not_P [OF False]
        by (rule keepsD [of "legacy_ok v", OF _ ok]) (intro legacy_rules finish rewrite)
    qed (use ok in \<open>simp add: store_window_def\<close>)
  qed
qed

lemma legacy_feed:
  assumes "fresh_ok uuid"
  shows "hoare (legacy_ok v) (feed_engine uuid f) (\<lambda>r rt. legacy_ok v rt \<and> named_ingest r) (legacy_ok v)"
proof (rule hoareI)
  fix rt
  assume ok: "legacy_ok v rt"
  obtain e' out where i: "ingest uuid f (rt_engine rt) = (e', out)" by fastforce
  have "engine_ok (rt_engine rt)" "engine_named (rt_engine rt)" using ok by (simp_all add: legacy_ok_def)
  note ingest_ok [OF this(1) i] ingest_named [OF this(2) _ i]
  then show "case feed_engine uuid f rt of (Inr r, rt') \<Rightarrow> legacy_ok v rt' \<and> named_ingest r | (Inl e, rt') \<Rightarrow> legacy_ok v rt'"
    using ok assms
    by (auto simp: feed_engine_def i legacy_ok_def fresh_ok_def named_ingest_def named_window_def window_ok_def
        intro: rfc3339_instant split: sum.splits)
qed

lemma legacy_ingest:
  assumes "fresh_ok uuid"
  shows "hoare (legacy_ok v) (Runtime_ingest env uuid f) (\<lambda>r rt. legacy_ok v rt \<and> named_ingest r) (legacy_ok v)"
proof -
  have snap: "keeps (legacy_ok v) (\<lambda>rt. case snapshot rt of Some w \<Rightarrow> store_window env w True rt | None \<Rightarrow> (Inr (), rt))"
    using keepsD [OF legacy_store] by (auto simp: keeps_def split: option.splits)
  have "hoare (\<lambda>rt. legacy_ok v rt \<and> named_ingest r) m (\<lambda>_ rt. legacy_ok v rt \<and> named_ingest r) (legacy_ok v)"
    if "keeps (legacy_ok v) m" for m :: "unit runtime_op" and r
    using that by (auto simp: keeps_iff_hoare hoare_def split: prod.splits sum.splits)
  note framed = this
  show ?thesis
    unfolding Runtime_ingest_def
    by (rule hoare_bindS [OF legacy_feed [OF assms]], rule hoare_bindS, rule framed)
      (auto intro!: legacy_rules legacy_store snap hoare_returnS)
qed

lemma legacy_disconnect: "fresh_ok uuid \<Longrightarrow> keeps (legacy_ok v) (disconnect env uuid)"
  unfolding disconnect_def
  by (rule keeps_bindS, rule hoare_keeps, rule hoare_weaken [OF legacy_ingest]) (auto intro: keeps_rules)

lemma legacy_stop: "keeps (legacy_ok v) (stop env)"
proof (rule keepsI)
  fix rt
  assume ok: "legacy_ok v rt"
  obtain e' w where a: "abort_service_stop (rt_engine rt) = (e', w)" by fastforce
  have "engine_ok e'" "engine_named e'"
    using ok a abort_ok(1) [of "rt_engine rt" AbortedServiceStop ServiceStop] finish_named [of "rt_engine rt" AbortedServiceStop ServiceStop]
    by (simp_all add: legacy_ok_def abort_service_stop_def)
  then have "legacy_ok v (rt\<lparr>rt_engine := e'\<rparr>)" using ok by (simp add: legacy_ok_def)
  then show "legacy_ok v (snd (stop env rt))" using keepsD [OF legacy_store] by (simp add: stop_def a split: option.splits)
qed

lemma legacy_update:
  assumes "fresh_ok uuid"
  shows "keeps (legacy_ok v) (update_vdp_metadata env uuid md)"
proof (rule keepsI)
  fix rt
  assume ok: "legacy_ok v rt"
  have feed: "keeps (legacy_ok v) (feed_engine uuid f)" for f
    by (rule hoare_keeps, rule hoare_weaken [OF legacy_feed [OF assms]]) auto
  show "legacy_ok v (snd (update_vdp_metadata env uuid md rt))"
  proof (cases "service_version md = service_version (rt_metadata rt)")
    case True
    then have set: "keeps (legacy_ok v) (\<lambda>rt'. (Inr (), rt'\<lparr>rt_metadata := md\<rparr>))"
      using ok by (simp add: keeps_def legacy_ok_def)
    have "keeps (legacy_ok v) (bindS (feed_engine uuid missing_frame) (\<lambda>result.
        bindS (case completed result of Some w \<Rightarrow> store_window env w False | None \<Rightarrow> returnS ()) (\<lambda>_.
          (\<lambda>rt'. (Inr (), rt'\<lparr>rt_metadata := md\<rparr>)))))"
      by (intro legacy_rules feed legacy_store set)
    from keepsD [OF this ok] show ?thesis using ok by (simp add: update_vdp_metadata_def Let_def)
  qed (use ok in \<open>simp add: update_vdp_metadata_def\<close>)
qed

lemma legacy_init: "keeps (legacy_ok v) (Runtime_init env)"
  unfolding Runtime_init_def recover_entry_def by (intro legacy_rules)

lemma legacy_next: "keeps (legacy_ok v) (next_message env)"
proof -
  have one: "keeps (legacy_ok v) (next_file env entry capture ks)" for entry capture ks
  proof (induction ks)
    case (Cons k ks)
    then show ?case unfolding next_file.simps Let_def by (intro legacy_rules)
  qed (simp add: keeps_def)
  have event: "keeps (legacy_ok v) (next_event env es)" for es
  proof (induction es)
    case (Cons e es)
    then show ?case unfolding next_event.simps Let_def by (intro legacy_rules one)
  qed (simp add: keeps_def)
  show ?thesis unfolding next_message_def by (intro legacy_rules event)
qed

lemma legacy_accept: "keeps (legacy_ok v) (accept env m response)"
  unfolding accept_def in_flight_unchanged_def by (intro legacy_rules)

lemma legacy_usage: "keeps (legacy_ok v) delivery_usage"
  unfolding delivery_usage_def by (intro legacy_rules)

lemmas legacy_ops = legacy_disconnect legacy_stop legacy_update legacy_init legacy_next legacy_accept legacy_usage legacy_spool

end
