(* ===== verification/Reports.thy ===== *)
theory Reports
  imports Names
begin

text \<open>
  What the product reports always passes the check of the observation queue: the facts stay within the
  check through every operation of the product, in every run.
\<close>

section \<open>The product\<close>

definition version_ok :: "string \<Rightarrow> bool" where
  "version_ok v \<longleftrightarrow> check_version (JString v) = Inr ()"

definition reporting :: "Product \<Rightarrow> bool" where
  "reporting p \<longleftrightarrow> facts_ok (profile_text (pr_profile p)) (pr_function p) \<and> version_ok (service_version (pr_metadata p)) \<and>
     legacy_ok (service_version (pr_metadata p)) (pr_legacy p) \<and> capture_ok_inv (pr_capture p) \<and> capture_named (pr_capture p)"

text \<open>What an operation returns, when the state it starts in has the invariant.\<close>

lemma keeps_bind_yield:
  assumes "keeps P m" and "\<And>s x s'. P s \<Longrightarrow> m s = (Inr x, s') \<Longrightarrow> Q x" and "\<And>x. Q x \<Longrightarrow> keeps P (f x)"
  shows "keeps P (bindS m f)"
proof (rule keepsI)
  fix s
  assume p: "P s"
  obtain r s' where m: "m s = (r, s')" by fastforce
  have "P s'" using keepsD [OF assms(1) p] m by simp
  then show "P (snd (bindS m f s))"
    using assms(2) [OF p] assms(3) [THEN keepsD] m by (cases r) (simp_all add: bindS_def)
qed

lemma keeps_bind_ask: "(\<And>p. reporting p \<Longrightarrow> Q (g p)) \<Longrightarrow> (\<And>x. Q x \<Longrightarrow> keeps reporting (f x)) \<Longrightarrow> keeps reporting (bindS (askP g) f)"
  by (rule keeps_bind_yield [of _ _ Q]) (auto simp: askP_def keeps_def)

lemma keeps_bind_check: "(\<not> b \<Longrightarrow> keeps P (f ())) \<Longrightarrow> keeps P (bindS (checkS b e) f)"
  by (cases b) (simp_all add: keeps_def)

lemma reporting_members:
  "keeps reporting (on_model g)" "keeps reporting (on_advisory h)" "keeps reporting (askP l)" "keeps reporting (set_product_ready b)"
  "(\<And>p. reporting p \<Longrightarrow> reporting (k p)) \<Longrightarrow> keeps reporting (setP k)"
  by (auto simp: keeps_def member_ops set_product_ready_def reporting_def split: prod.splits)

lemma reporting_legacy:
  assumes "\<And>v. keeps (legacy_ok v) m"
  shows "keeps reporting (on_legacy m)"
proof (rule keepsI)
  fix p
  assume "reporting p"
  moreover from this have "legacy_ok (service_version (pr_metadata p)) (snd (m (pr_legacy p)))"
    by (intro keepsD [OF assms]) (simp add: reporting_def)
  ultimately show "reporting (snd (on_legacy m p))" by (simp add: on_legacy_def reporting_def case_prod_beta)
qed

lemma reporting_function:
  assumes "\<And>profile. facts_op_ok profile m"
  shows "keeps reporting (on_function m)"
proof (rule keepsI)
  fix p
  assume "reporting p"
  moreover from this have "facts_ok (profile_text (pr_profile p)) (snd (m (pr_function p)))"
    using assms by (simp add: facts_op_ok_def reporting_def)
  ultimately show "reporting (snd (on_function m p))" by (simp add: on_function_def reporting_def case_prod_beta)
qed

lemma reporting_abort: "keeps reporting (abort_capture t)"
proof (rule keepsI)
  fix p
  assume p: "reporting p"
  obtain c out where a: "ok_outcome (abort t (pr_capture p)) = (c, out)" by fastforce
  have "capture_ok_inv c" "capture_named c"
    using abort_good [of "pr_capture p" t] abort_named [of "pr_capture p" t] p a
    by (simp_all add: reporting_def outcome_good_def named_episode_def)
  then show "reporting (snd (abort_capture t p))" using p by (simp add: abort_capture_def on_capture_def a reporting_def)
qed

lemmas reporting_rules = keeps_rules reporting_members reporting_abort reporting_function reporting_legacy legacy_ops

lemma input_allowed:
  "facts_op_ok profile (facts_input ''CONNECTED'' ''INVALID'' ''INVALID_SAMPLE'')"
  "facts_op_ok profile (facts_input ''CONNECTED'' ''RECEIVING'' ''NONE'')"
  "facts_op_ok profile (facts_input ''DISCONNECTED'' ''DISCONNECTED'' ''TRANSPORT_LOST'')"
  "facts_op_ok profile (facts_input ''CONNECTED'' ''STALE'' ''SOURCE_GAP'')"
  "facts_op_ok profile (facts_input ''REAUTHENTICATING'' ''WAITING'' ''REAUTHENTICATING'')"
  by (rule facts_input_ok; simp add: connections_def check_input_def json_fields_def json_order check_evals)+

lemma interruption_allowed:
  "facts_op_ok profile (facts_interruption ''SOURCE_DISCONTINUITY'')"
  "facts_op_ok profile (facts_interruption (if b then ''REAUTHENTICATING'' else ''SOURCE_DISCONTINUITY''))"
  by (rule facts_interruption_ok; simp)+

lemmas facts_allowed = input_allowed interruption_allowed facts_delivery_ok

lemma reporting_gap: "fresh_ok uuid \<Longrightarrow> keeps reporting (source_gap env uuid)"
  unfolding source_gap_def by (intro reporting_rules facts_allowed)

lemma reporting_no_frame: "fresh_ok uuid \<Longrightarrow> keeps reporting (no_frame env uuid vs)"
  unfolding no_frame_def by (intro reporting_rules reporting_gap)

lemma reporting_reset: "keeps reporting (complete_demo_reset env now)"
proof -
  have a: "facts_op_ok profile (facts_activity ''WAITING'' ''RESET'' None)" for profile
    by (rule facts_activity_ok) (simp add: activity_allowed_def)
  have s: "reporting (p\<lparr>pr_capture := reset_demo (pr_capture p), pr_previous_epoch := e, pr_ready := b\<rparr>)" if "reporting p" for p e b
    using that capture_ok_new by (simp add: reporting_def reset_demo_def capture_named_def ModelCapture_new_def)
  show ?thesis unfolding complete_demo_reset_def by (intro reporting_rules a s)
qed

lemma version_known: "keeps reporting (bindS (askP (\<lambda>p. service_version (pr_metadata p))) f)" if "\<And>v. version_ok v \<Longrightarrow> keeps reporting (f v)"
  by (rule keeps_bind_ask [of version_ok]) (auto simp: reporting_def that)

text \<open>A frame of the first profile.\<close>

lemma reporting_window:
  assumes "named_window w"
  shows "keeps reporting (note_window w)"
proof -
  have a: "facts_op_ok profile (facts_activity (if b then ''COMPLETED'' else ''SKIPPED'') (if b then ''NONE'' else ''SOURCE_DISCONTINUITY'') (Some (event_id w)))" for profile b
    using assms by (intro facts_activity_ok) (simp add: activity_allowed_def named_window_def)
  have r: "facts_op_ok profile (facts_result ''WINDOW'' (event_id w) (trigger_timestamp w) v)" if "version_ok v" for profile v
    using assms that by (intro facts_result_ok) (simp_all add: named_window_def version_ok_def)
  show ?thesis unfolding note_window_def Let_def by (intro reporting_rules version_known a r)
qed

lemma waiting_allowed:
  assumes "st \<in> {''ACTIVE'', ''POST'', ''WAITING''}" and "case ident of None \<Rightarrow> True | Some i \<Rightarrow> id_text i"
  shows "keeps reporting (on_function (facts_activity st (waiting_reason st) ident))"
  using assms by (intro reporting_function facts_activity_ok) (auto simp: activity_allowed_def waiting_reason_def)

lemma reporting_activity:
  "keeps reporting (bindS (askP (\<lambda>p. activity (pr_legacy p))) (\<lambda>(state, ident). on_function (facts_activity state (waiting_reason state) ident)))"
proof (rule keeps_bind_ask [of "\<lambda>(st, ident). st \<in> {''ACTIVE'', ''POST'', ''WAITING''} \<and> (case ident of None \<Rightarrow> True | Some i \<Rightarrow> id_text i)"])
  fix p
  assume "reporting p"
  then show "case activity (pr_legacy p) of (st, ident) \<Rightarrow> st \<in> {''ACTIVE'', ''POST'', ''WAITING''} \<and> (case ident of None \<Rightarrow> True | Some i \<Rightarrow> id_text i)"
    by (auto simp: reporting_def legacy_ok_def engine_named_def activity_def activity_state_def activity_id_def capturing_def split: State.splits)
qed (auto intro!: waiting_allowed)

lemma reporting_v1:
  assumes "fresh_ok uuid"
  shows "keeps reporting (ingest_v1 env uuid vs wall mono_ms)"
proof -
  have keep: "keeps (legacy_ok v) (Runtime_ingest e uuid f)" for v e f
    by (rule hoare_keeps, rule hoare_weaken [OF legacy_ingest [OF assms]]) auto
  have named: "named_ingest r" if "reporting p" "on_legacy (Runtime_ingest e uuid f) p = (Inr r, p')" for e f p r p'
    using that hoareD(1) [OF legacy_ingest [OF assms]] by (auto simp: on_legacy_def reporting_def split: prod.splits)
  have "keeps reporting (bindS (on_legacy (Runtime_ingest e uuid f)) g)" if "\<And>r. named_ingest r \<Longrightarrow> keeps reporting (g r)"
    for e f and g :: "IngestResult \<Rightarrow> ProductObservation product_op"
    by (rule keeps_bind_yield [where Q = named_ingest, OF reporting_legacy [OF keep] named that])
  note take = this
  show ?thesis
    unfolding ingest_v1_def
    by (intro take reporting_activity reporting_window reporting_no_frame assms reporting_rules) (simp_all add: reporting_def named_ingest_def)
qed

text \<open>A frame of the profiles with the model.\<close>

definition named_capture :: "CompletedEpisode option \<Rightarrow> bool" where
  "named_capture ep \<longleftrightarrow> (case ep of None \<Rightarrow> True | Some e \<Rightarrow> episode_ok e \<and> id_text (source_event_id e))"

lemma reporting_capture:
  assumes "fresh_ok uuid" and "model_frame_ok f" and "\<And>ep. named_capture ep \<Longrightarrow> keeps reporting (g ep)"
  shows "keeps reporting (bindS (on_capture (capture_ingest uuid f)) g)"
proof (rule keeps_bind_yield [of _ _ named_capture])
  have ok: "capture_ok_inv c \<and> capture_named c \<and> (\<forall>ep. out = Inr ep \<longrightarrow> named_capture ep)"
    if "reporting p" "capture_ingest uuid f (pr_capture p) = (c, out)" for p c out
  proof -
    have "capture_ok_inv (pr_capture p)" "capture_named (pr_capture p)" using that(1) by (simp_all add: reporting_def)
    from capture_ingest_good [OF this(1) assms(2), of uuid] capture_ingest_named [OF this(2), of uuid f] assms(1)
    have "outcome_good (c, out)" "named_episode (c, out)" unfolding that(2) fresh_ok_def by blast+
    then show ?thesis by (auto simp: outcome_good_def named_episode_def named_capture_def split: option.split)
  qed
  show "keeps reporting (on_capture (capture_ingest uuid f))"
  proof (rule keepsI)
    fix p
    assume p: "reporting p"
    obtain c out where c: "capture_ingest uuid f (pr_capture p) = (c, out)" by fastforce
    then show "reporting (snd (on_capture (capture_ingest uuid f) p))" using ok [OF p c] p by (simp add: on_capture_def reporting_def)
  qed
  show "named_capture ep" if "reporting p" "on_capture (capture_ingest uuid f) p = (Inr ep, p')" for p ep p'
    using that(2) ok [OF that(1)] by (cases "capture_ingest uuid f (pr_capture p)") (simp add: on_capture_def)
qed (rule assms(3))

lemma skip_text_allowed: "skip_text a \<in> {''STORAGE_UNAVAILABLE'', ''INSUFFICIENT_SAMPLES'', ''INVALID_INPUT'', ''NOT_QUALIFIED''}"
  by (simp add: skip_text_def)

lemma reporting_analysis:
  assumes "episode_ok ep" and "id_text (source_event_id ep)" and "named_result a"
  shows "keeps reporting (note_analysis ep a)"
proof -
  have act: "facts_op_ok profile (facts_activity (if b then ''COMPLETED'' else ''SKIPPED'') (if b then ''NONE'' else skip_text a) (Some (source_event_id ep)))"
    for profile b
    using assms(2) skip_text_allowed [of a] by (intro facts_activity_ok) (auto simp: activity_allowed_def)
  have "is_rfc3339_millisecond_utc (sample_timestamp (last (episode_samples ep)))" if "episode_samples ep \<noteq> []"
    using assms(1) that by (simp add: episode_ok_def episode_shape_def series_def sample_ok_def list_all_iff)
  then have res: "facts_op_ok profile (facts_result ''ASSESSMENT'' i (sample_timestamp (last (episode_samples ep))) v)"
    if "version_ok v" "process_status a = Produced \<and> episode_samples ep \<noteq> []" "process_assessment_id a = Some i" for profile v i
    using assms(3) that by (intro facts_result_ok) (simp_all add: version_ok_def named_result_def rfc3339_instant)
  show ?thesis unfolding note_analysis_def Let_def by (intro version_known reporting_rules act res)
qed

lemma reporting_follow:
  assumes "named_capture ep"
  shows "keeps reporting (follow_episode env wall started ep)"
proof -
  have "keeps reporting (bindS (on_model (process_episode flt e md n k)) g)" if "\<And>a. named_result a \<Longrightarrow> keeps reporting (g a)"
    for flt e md n k and g :: "ProcessResult \<Rightarrow> (ProcessResult \<times> bool) product_op"
    using that yieldsD [OF process_named]
    by (intro keeps_bind_yield [where Q = named_result]) (auto simp: on_model_def intro: reporting_members split: prod.splits)
  note process = this
  have analyse: "keeps reporting (analyse env wall e)" if "ep = Some e" for e
    using assms that unfolding analyse_def advisory_usage_def case_prod_beta
    by (intro process reporting_analysis reporting_rules) (simp_all add: named_capture_def)
  have idle: "keeps reporting (bindS (askP (\<lambda>p. (mc_activity_state (pr_capture p), mc_activity_id (pr_capture p)))) (\<lambda>(state, ident).
      bindS (on_function (facts_activity state (waiting_reason state) ident)) (\<lambda>_. returnS x)))" for x :: ProductObservation
    by (rule keeps_bind_ask [of "\<lambda>(st, ident). st \<in> {''ACTIVE'', ''POST'', ''WAITING''} \<and> (case ident of None \<Rightarrow> True | Some i \<Rightarrow> id_text i)"])
      (auto simp: reporting_def capture_named_def mc_activity_state_def mc_activity_id_def mc_capturing_def intro!: keeps_rules waiting_allowed)
  show ?thesis
    unfolding follow_episode_def
    by (rule keeps_case_option, rule idle) (auto simp: case_prod_beta intro!: keeps_rules analyse)
qed

lemma reporting_model:
  assumes "fresh_ok uuid" and "list_all dated vs" and "length vs = 12"
  shows "keeps reporting (ingest_model env uuid vs wall mono_ms)"
proof -
  let ?Q = "\<lambda>frame. case frame of None \<Rightarrow> True | Some f \<Rightarrow> model_frame_ok f"
  have frame: "?Q frame"
    if "bindE (complete_model_frame vs wall mono_ms e) (\<lambda>f. Inr (if b then f else None)) = Inr frame" for frame e b
    using that complete_model_frame_dated [OF assms(2,3)] by (auto simp: bindE_eq_Inr split: option.splits if_splits)
  show ?thesis
    unfolding ingest_model_def
  proof (rule keeps_bind_yield [where Q = ?Q])
    fix x
    assume "?Q x"
    then show "keeps reporting (case x of None \<Rightarrow> no_frame env uuid vs | Some f \<Rightarrow>
        bindS (setP (\<lambda>p. p\<lparr>pr_previous_epoch := mf_source_epoch_ms f\<rparr>)) (\<lambda>_.
        bindS (askP (\<lambda>p. mc_capturing (pr_capture p))) (\<lambda>was.
        bindS (on_capture (capture_ingest uuid f)) (\<lambda>ep.
        bindS (setP (\<lambda>p. p\<lparr>pr_ready := True, pr_telemetry_at := wall\<rparr>)) (\<lambda>_.
        bindS (askP (\<lambda>p. \<not> was \<and> mc_capturing (pr_capture p))) (\<lambda>started.
          follow_episode env wall started ep))))))"
      by (intro reporting_capture reporting_follow reporting_no_frame assms(1) reporting_rules) (auto simp: reporting_def)
  qed (auto intro: keeps_rules dest: frame)
qed

lemma reporting_input: "keeps reporting (note_input mono_ms r)"
  unfolding note_input_def by (intro reporting_rules facts_allowed) (simp add: reporting_def)

lemma reporting_ingest:
  assumes "fresh_ok uuid" and "list_all dated vs"
  shows "keeps reporting (product_ingest env uuid vs wall mono_ms)"
  unfolding product_ingest_def product_reset_pending_def
  by (intro keeps_bind_check reporting_rules reporting_gap reporting_v1 reporting_model reporting_input assms) simp

text \<open>The other operations.\<close>

lemma reporting_clear: "keeps reporting clear_input_time"
  unfolding clear_input_time_def by (intro reporting_rules) (simp add: reporting_def)

lemma reporting_disconnect: "fresh_ok uuid \<Longrightarrow> keeps reporting (product_disconnect env uuid)"
  unfolding product_disconnect_def by (intro reporting_rules facts_allowed reporting_clear)

lemma reporting_expire: "fresh_ok uuid \<Longrightarrow> keeps reporting (expire_input env uuid t)"
  unfolding expire_input_def by (intro reporting_rules facts_allowed reporting_clear)

lemma reporting_stop: "keeps reporting (product_stop env)"
  unfolding product_stop_def by (intro reporting_rules reporting_clear)

lemma reporting_accept: "keeps reporting (product_accept env d response)"
  unfolding product_accept_def by (intro reporting_rules facts_allowed)

lemma reporting_next: "keeps reporting (next_loop env n)"
proof (induction n)
  case (Suc n)
  have "keeps reporting take_turn" by (simp add: keeps_def take_turn_def reporting_def)
  with Suc show ?case unfolding next_loop.simps serve_def by (intro reporting_rules)
qed (simp add: keeps_def)

lemma reporting_gateway: "keeps reporting (observe_gateway env bytes now)"
proof -
  have a: "facts_op_ok profile (facts_advisory (gateway_fact st) (Some i))" if "id_text i" for profile st i
    using that by (intro facts_advisory_ok) (auto simp: gateway_fact_def)
  have "keeps reporting (bindS (on_advisory (current_request_id fc)) g)"
    if "\<And>r. (case r of None \<Rightarrow> True | Some i \<Rightarrow> id_text i) \<Longrightarrow> keeps reporting (g r)" for fc and g :: "string option \<Rightarrow> unit product_op"
    using that yieldsD [OF current_request_named]
    by (intro keeps_bind_yield [where Q = "\<lambda>r. case r of None \<Rightarrow> True | Some i \<Rightarrow> id_text i"])
      (auto simp: on_advisory_def intro: reporting_members split: prod.splits)
  note current = this
  have note_gw: "keeps reporting (note_gateway env bytes)"
    unfolding note_gateway_def by (intro current reporting_rules a) auto
  show ?thesis
    unfolding observe_gateway_def derived_usage_def case_prod_beta by (intro note_gw reporting_rules)
qed

lemma reporting_request: "keeps reporting (product_next_request env now)"
proof -
  have a: "facts_op_ok profile (facts_advisory ''WAITING'' (Some i))" if "id_text i" for profile i
    using that by (intro facts_advisory_ok) auto
  let ?Q = "\<lambda>r. case r of None \<Rightarrow> True | Some q \<Rightarrow> id_text (request_id q)"
  have "keeps reporting (bindS (on_advisory (next_request fc flt st md t)) g)" if "\<And>r. ?Q r \<Longrightarrow> keeps reporting (g r)"
    for fc flt st md t and g :: "AdvisoryRequest option \<Rightarrow> AdvisoryRequest option product_op"
    using that yieldsD [OF next_request_id]
    by (intro keeps_bind_yield [where Q = ?Q]) (auto simp: on_advisory_def intro: reporting_members split: prod.splits)
  note issue = this
  show ?thesis unfolding product_next_request_def by (intro issue reporting_rules a) auto
qed

lemma reporting_plain:
  "keeps reporting (product_request_written env r)" "keeps reporting (gateway_state env)" "keeps reporting (demo_control_ack env now)"
  "keeps reporting (demo_control_accepted env bytes)" "keeps reporting (demo_control_command env bytes now)"
  unfolding product_request_written_def gateway_state_def demo_control_ack_def demo_control_accepted_def demo_control_command_def
  by (intro reporting_reset reporting_rules)+

lemma reporting_observation: "keeps reporting (function_observation env)"
  unfolding function_observation_def advisory_usage_def case_prod_beta by (intro reporting_rules)

section \<open>Every report passes the check\<close>

text \<open>
  What the callers of the product pass: identifiers from the source of identifiers, signals before the
  year 10000, the states of the session handlers, and a version that the inputs accept.
\<close>

fun step_ok :: "ProductStep \<Rightarrow> bool" where
  "step_ok (PStart md profile fresh now) \<longleftrightarrow> version_ok (service_version md)"
| "step_ok (PIngest uuid vs wall mono_ms) \<longleftrightarrow> fresh_ok uuid \<and> list_all dated vs"
| "step_ok (PMetadata uuid md) \<longleftrightarrow> fresh_ok uuid"
| "step_ok (PDisconnect uuid) \<longleftrightarrow> fresh_ok uuid"
| "step_ok (PExpire uuid mono_ms) \<longleftrightarrow> fresh_ok uuid"
| "step_ok (PInput connection state reason) \<longleftrightarrow> connection \<in> set connections \<and>
     check_input (json_fields [(''state'', JString state), (''reason'', JString reason)]) = Inr ()"
| "step_ok (PAdvisory state) \<longleftrightarrow> state \<in> {''WAITING'', ''UNAVAILABLE'', ''REAUTHENTICATING''}"
| "step_ok st \<longleftrightarrow> True"

lemma reporting_start:
  assumes "version_ok (service_version md)"
  shows "reporting (snd (Product_init env md profile fresh now p))"
proof -
  have new: "reporting (new_product md profile p)"
    using assms capture_ok_new engine_ok_new
    by (auto simp: reporting_def new_product_def legacy_ok_def restarted_def engine_named_def capture_named_def ModelCapture_new_def
        WindowEngine_new_def profile_text_def intro!: facts_new_ok split: FunctionalProfile.splits)
  have "keeps reporting (Product_init_body env fresh now)"
    unfolding Product_init_body_def by (intro reporting_reset reporting_rules)
  from keepsD [OF this new] show ?thesis by (simp add: Product_init_def)
qed

lemma reporting_metadata:
  assumes "fresh_ok uuid"
  shows "keeps reporting (product_update_metadata env uuid md)"
proof (rule keepsI)
  fix p
  assume p: "reporting p"
  let ?v = "service_version (pr_metadata p)"
  let ?R = "\<lambda>q. reporting q \<and> service_version (pr_metadata q) = ?v"
  have member: "keeps ?R m" if "keeps reporting m" "\<And>q. pr_metadata (snd (m q)) = pr_metadata q" for m :: "'a product_op"
    using that by (simp add: keeps_def)
  show "reporting (snd (product_update_metadata env uuid md p))"
  proof (cases "service_version md = ?v")
    case True
    then have set: "keeps ?R (setP (\<lambda>p. p\<lparr>pr_metadata := md\<rparr>))" by (auto simp: keeps_def setP_def reporting_def)
    have "keeps ?R (product_update_metadata env uuid md)"
      unfolding product_update_metadata_def
      by (intro keeps_rules set member reporting_abort reporting_members reporting_legacy legacy_update assms)
        (auto simp: member_ops abort_capture_def reporting_def split: prod.splits)
    then show ?thesis using keepsD [of ?R, OF _ conjI [OF p refl]] by blast
  next
    case False
    then have "update_vdp_metadata (environment env) uuid md (pr_legacy p) =
        (Inl (Invalid_argument ''IMMUTABLE_IDENTITY_CHANGED''), pr_legacy p)"
      using p by (simp add: update_vdp_metadata_def reporting_def legacy_ok_def Let_def)
    then show ?thesis using p by (simp add: product_update_metadata_def bindS_def on_legacy_def)
  qed
qed

lemma reporting_observed:
  assumes "connection \<in> set connections" and "check_input (json_fields [(''state'', JString state), (''reason'', JString reason)]) = Inr ()"
  shows "keeps reporting (input_observation connection state reason)"
  unfolding input_observation_def by (intro reporting_rules facts_allowed facts_input_ok assms)

lemma reporting_advisory: "state \<in> {''WAITING'', ''UNAVAILABLE'', ''REAUTHENTICATING''} \<Longrightarrow> keeps reporting (advisory_observation state)"
  unfolding advisory_observation_def by (intro reporting_rules facts_advisory_ok) auto

lemma reporting_reauthenticate: "keeps reporting reauthenticate"
  unfolding reauthenticate_def input_observation_def by (intro reporting_rules facts_allowed)

lemmas reporting_ops = reporting_ingest reporting_metadata reporting_disconnect reporting_reauthenticate reporting_expire reporting_stop
  reporting_accept reporting_request reporting_plain reporting_gateway reporting_observed reporting_advisory reporting_observation

lemma reporting_step: "step_ok st \<Longrightarrow> reporting p \<Longrightarrow> reporting (product_step env st p)"
  by (cases st) (simp_all add: reporting_ops [THEN keepsD] reporting_start reporting_next [THEN keepsD] product_next_message_def)

lemma reporting_run: "list_all (\<lambda>(env, st). step_ok st) steps \<Longrightarrow> reporting p \<Longrightarrow> reporting (product_run steps p)"
  by (induction steps arbitrary: p) (auto simp: reporting_step)

text \<open>The session handlers only pass such states.\<close>

lemma session_states_allowed:
  "step_ok (PInput ''CONNECTED'' ''WAITING'' ''AWAITING_INPUT'')"
  "case subscription_failure_observation c of (connection, state, reason) \<Rightarrow> step_ok (PInput connection state reason)"
  by (simp_all add: subscription_failure_observation_def connections_def check_input_def json_fields_def json_order check_evals)

definition queued_messages :: "Json \<Rightarrow> int" where
  "queued_messages c = (case bindE (json_at ''delivery'' c) (int_at ''queuedMessages'') of Inr n \<Rightarrow> n | Inl _ \<Rightarrow> 0)"

lemma snapshot_queued:
  assumes "facts_ok profile f" and "facts_snapshot n blocked f = Inr c"
  shows "queued_messages c = int n"
  using assms(1)
proof (rule facts_okE)
  fix ident reason st adv conn receipt q dst inp res
  assume v: "facts_value f = document (activity_doc ident reason st) adv conn (delivery_doc receipt (JInt q) dst) inp res"
  have "int_at ''queuedMessages'' (delivery_doc receipt (JInt (int n)) x) = Inr (int n)" for x
    by (simp add: delivery_doc_def int_at_def json_at_def json_object_def json_integer_def)
  then show ?thesis using assms(2) by (auto simp: facts_snapshot_def v queued_messages_def bindE_eq_Inr split: if_splits)
qed

lemma report_checked:
  assumes "reporting p" and "function_observation env p = (Inr c, p')" and "queued_messages c \<le> maximum_integer"
  shows "check_content c (profile_text (pr_profile p)) True = Inr ()"
proof -
  have "\<exists>n b. facts_snapshot n b (pr_function p) = Inr c"
    using assms(2)
    by (cases "outbox_usage (env_from_chars env) (pr_advisory p)")
      (auto simp: function_observation_def advisory_usage_def bindS_eq_Inr member_ops split: prod.splits if_splits)
  then obtain n b where s: "facts_snapshot n b (pr_function p) = Inr c" by blast
  have f: "facts_ok (profile_text (pr_profile p)) (pr_function p)" using assms(1) by (simp add: reporting_def)
  from snapshot_checked [OF f, of n b] snapshot_queued [OF f s] assms(3) s show ?thesis by auto
qed

end
