(* ===== verification/Service.thy ===== *)
theory Service
  imports Bootstrap Reports
begin

text \<open>
  The start and the end of the analytics process and of a session (\<^verbatim>\<open>runtime/grpc_main.cpp\<close>), composed of the
  inputs, the token file and the product. The contents of the files are arguments, as what reading them
  returns.
\<close>

section \<open>The process\<close>

definition start_service ::
  "Surroundings \<Rightarrow> (string \<Rightarrow> string option) \<Rightarrow> TokenKernel \<Rightarrow> string list \<Rightarrow> string result \<Rightarrow> string result \<Rightarrow>
   FunctionalProfile \<Rightarrow> string \<Rightarrow> int \<Rightarrow> unit product_op" where
  "start_service env getenv tk argv release metadata_bytes profile fresh now =
     bindS (liftS (parse_arguments argv)) (\<lambda>arguments.
     bindS (liftS (initialize_service_inputs (env_from_chars env) getenv release arguments)) (\<lambda>inputs.
     bindS (checkS (getenv ''AOS_SECRET'' \<noteq> None) (Runtime_error ''CREDENTIAL_BOUNDARY_INVALID'')) (\<lambda>_.
     bindS (liftS (token_file_from_environment tk (getenv ''KUKSA_TOKEN_FILE''))) (\<lambda>_.
     bindS (liftS (bindE metadata_bytes (runtime_metadata (env_from_chars env) inputs))) (\<lambda>md.
       Product_init env md profile fresh now)))))"

definition stop_service :: "Surroundings \<Rightarrow> reading \<Rightarrow> (Subscriber, unit) op" where
  "stop_service env t =
     bindS (on_product (product_stop env)) (\<lambda>_. on_log (log_state t ''SERVICE_STOPPED'' ''STOPPED'' ''NONE'' []))"

text \<open>The inputs of a session: the metadata, the certificate and the token it is made with.\<close>

record SessionInputs =
  si_metadata :: string
  si_ca :: string
  si_token_file :: string
  si_token :: string

definition start_session ::
  "Surroundings \<Rightarrow> string result \<Rightarrow> ApplicationInputs \<Rightarrow> string result \<Rightarrow> string result \<Rightarrow> string result \<Rightarrow> string result \<Rightarrow> SessionInputs product_op" where
  "start_session env uuid inputs metadata_bytes ca_bytes token_path token_bytes =
     bindS (liftS metadata_bytes) (\<lambda>m.
     bindS (liftS (runtime_metadata (env_from_chars env) inputs m)) (\<lambda>md.
     bindS (product_update_metadata env uuid md) (\<lambda>_.
     bindS (liftS ca_bytes) (\<lambda>ca.
     bindS (liftS token_path) (\<lambda>file.
     bindS (liftS (read_private_token token_bytes)) (\<lambda>t.
       returnS \<lparr>si_metadata = m, si_ca = ca, si_token_file = file, si_token = t\<rparr>))))))"

section \<open>Versions\<close>

text \<open>The version grammar of the package is within the one of the observation queue.\<close>

lemma version_number_part:
  assumes "version_number x"
  shows "x \<noteq> []" "\<not> (length x > 1 \<and> x ! 0 = CHR ''0'')" "list_all is_dec x" "CHR ''.'' \<notin> set x"
  using assms by (auto simp: version_number_def hd_conv_nth list_all_iff char_class_defs)

lemma package_version_ok:
  assumes "package_version s"
  shows "version_ok s"
proof -
  obtain x y z where "split_on (CHR ''.'') s = [x, y, z]"
    using assms by (auto simp: package_version_def numeral_eq_Suc length_Suc_conv)
  moreover from this obtain t where t: "s = x @ CHR ''.'' # t" "split_on (CHR ''.'') t = [y, z]" using split_on_decomp by blast
  moreover from t(2) obtain u where u: "t = y @ CHR ''.'' # u" "split_on (CHR ''.'') u = [z]" using split_on_decomp by blast
  moreover from u(2) have "u = z" using split_on_single by blast
  ultimately have s: "s = x @ CHR ''.'' # y @ CHR ''.'' # z" and v: "version_number x" "version_number y" "version_number z"
    using assms by (auto simp: package_version_def)
  have part: "takeWhile (\<lambda>c. c \<noteq> CHR ''.'') (w @ CHR ''.'' # r) = w" if "version_number w" for w r
    using version_number_part(4) [OF that] by (auto simp: takeWhile_append)
  have last_part: "takeWhile (\<lambda>c. c \<noteq> CHR ''.'') w = w" if "version_number w" for w
    using version_number_part(4) [OF that] by (auto simp: takeWhile_eq_all_conv)
  have "version_loop 3 s"
    using version_number_part [OF v(1)] version_number_part [OF v(2)] version_number_part [OF v(3)]
    by (auto simp: s numeral_eq_Suc part [OF v(1)] part [OF v(2)] last_part [OF v(3)] nth_append Let_def)
  then show ?thesis using assms s by (simp add: version_ok_def check_version_def json_str_def throwIf_def package_version_def)
qed

lemma runtime_metadata_version: "runtime_metadata fc inputs b = Inr md \<Longrightarrow> version_ok (service_version md)"
  by (auto simp: runtime_metadata_def parse_metadata_def bindE_eq_Inr intro: package_version_ok split: option.splits if_splits)

lemma start_service_reporting:
  assumes "start_service env getenv tk argv release metadata_bytes profile fresh now p0 = (Inr (), p1)"
  shows "reporting p1"
proof -
  obtain inputs b md where "runtime_metadata (env_from_chars env) inputs b = Inr md" and init: "Product_init env md profile fresh now p0 = (Inr (), p1)"
    using assms by (auto simp: start_service_def bindS_eq_Inr bindE_eq_Inr checkS_def split: if_splits)
  from reporting_start [OF runtime_metadata_version [OF this(1)], of env profile fresh now p0] init show ?thesis by simp
qed

text \<open>
  C36. From a start of the process on, in every run of the product with the inputs its callers pass and
  whatever fails in between, an observation the product reports passes the check of the observation
  queue for the profile in force, as long as the number of queued messages it carries is one the check
  can represent.
\<close>

theorem reports_pass_check:
  assumes "start_service env0 getenv tk argv release metadata_bytes profile fresh now p0 = (Inr (), p1)"
    and "list_all (\<lambda>(env, st). step_ok st) steps" and "p = product_run steps p1"
    and "function_observation env p = (Inr c, p')" and "queued_messages c \<le> maximum_integer"
  shows "check_content c (profile_text (pr_profile p)) True = Inr ()"
  using report_checked [OF _ assms(4,5)] reporting_run [OF assms(2) start_service_reporting [OF assms(1)]] assms(3) by simp

definition reported_steps :: "(Surroundings \<times> ProductStep) list" where
  "reported_steps = [(calm_world, PIngest (Inr Advisory_Ledger.sample_epoch) demo_six 1010 5), (calm_world, PDisconnect (Inr Advisory_Ledger.sample_epoch))]"

definition sample_getenv :: "string \<Rightarrow> string option" where
  "sample_getenv = map_of [(''AOS_ITEM_ID'', ''brake-service''), (''AOS_SUBJECT_ID'', ''brake-subject''), (''AOS_INSTANCE_INDEX'', ''0''),
     (''AOS_INSTANCE_ID'', ''brake-instance''), (''KUKSA_TOKEN_FILE'', ''/run/aosedge/secrets/kuksa/session-abcDEF/token.jwt'')]"

definition sample_tk :: TokenKernel where
  "sample_tk = \<lparr>tk_opens = (\<lambda>_. True), tk_stat = (\<lambda>_. Some \<lparr>st_owned = True, st_group = True, st_root_owned = True, st_mode = 448\<rparr>),
     tk_lock = True, tk_scan = Some [], tk_mkdtemp = None\<rparr>"

definition sample_argv :: "string list" where
  "sample_argv = [''--metadata-file'', ''/m'', ''--ca-file'', ''/c'']"

definition sample_release :: string where
  "sample_release = ''{\"schemaVersion\":1,\"serviceVersion\":\"7.0.0\"}''"

definition sample_public :: string where
  "sample_public =
     ''{\"schemaVersion\":2,\"unitSystemUid\":\"mock-test-unit\",\"unitRole\":\"validation\",\"vdpContractVersion\":\"18.0.0\",\"vdpContractSha256\":\"'' @
     replicate 64 (CHR ''a'') @ ''\"}''"

definition started_metadata :: MessageMetadata where
  "started_metadata = \<lparr>unit_system_uid = ''mock-test-unit'', unit_role = Validation, service_version = ''7.0.0'', service_artifact_sha256 = [],
     vdp_contract_version = ''18.0.0'', vdp_contract_sha256 = replicate 64 (CHR ''a''),
     service_instance = Some \<lparr>service_id = ''brake-service'', subject_id = ''brake-subject'', instance_index = 0, instance_id = ''brake-instance''\<rparr>\<rparr>"

text \<open>The parts of a text in one pass, for evaluation.\<close>

lemma split_on_foldr [code]: "split_on d s = foldr (\<lambda>c r. if c = d then [] # r else (c # hd r) # tl r) s [[]]"
  by (induction s) simp_all

lemma started_service:
  "start_service calm_world sample_getenv sample_tk sample_argv (Inr sample_release) (Inr sample_public) profile fresh now =
     Product_init calm_world started_metadata profile fresh now"
proof -
  let ?fc = "env_from_chars calm_world"
  have "(case bindE (parse_arguments sample_argv) (\<lambda>arguments. bindE (initialize_service_inputs ?fc sample_getenv (Inr sample_release) arguments) (\<lambda>inputs.
      runtime_metadata ?fc inputs sample_public)) of Inr md \<Rightarrow> md = started_metadata | Inl _ \<Rightarrow> False)" by code_simp
  then obtain arguments inputs where i: "parse_arguments sample_argv = Inr arguments"
    "initialize_service_inputs ?fc sample_getenv (Inr sample_release) arguments = Inr inputs" "runtime_metadata ?fc inputs sample_public = Inr started_metadata"
    by (auto simp: bindE_def split: sum.splits)
  have "sample_getenv ''AOS_SECRET'' = None" by (simp add: sample_getenv_def)
  moreover have "okE (token_file_from_environment sample_tk (sample_getenv ''KUKSA_TOKEN_FILE''))" by code_simp
  then obtain f where "token_file_from_environment sample_tk (sample_getenv ''KUKSA_TOKEN_FILE'') = Inr f" by (auto simp: okE_def split: sum.splits)
  ultimately show ?thesis by (simp add: start_service_def i)
qed

definition started_product :: Product where
  "started_product = snd (Product_init calm_world started_metadata ProfileV1 [] 0 empty_product)"

theorem reports_pass_check_witness:
  "\<exists>c p'. function_observation calm_world (product_run reported_steps started_product) = (Inr c, p') \<and> check_content c ''v1'' True = Inr ()"
proof -
  let ?p = "product_run reported_steps started_product"
  let ?o = "function_observation calm_world ?p"
  have "case fst ?o of Inr c \<Rightarrow> queued_messages c \<le> maximum_integer | Inl _ \<Rightarrow> False" by code_simp
  then obtain c p' where o: "?o = (Inr c, p')" "queued_messages c \<le> maximum_integer"
    by (cases ?o rule: prod.exhaust; cases "fst ?o") auto
  have "fst (Product_init calm_world started_metadata ProfileV1 [] 0 empty_product) = Inr ()" by code_simp
  then have s: "start_service calm_world sample_getenv sample_tk sample_argv (Inr sample_release) (Inr sample_public) ProfileV1 [] 0 empty_product =
      (Inr (), started_product)" by (simp add: started_service started_product_def prod_eq_iff)
  have "id_text Advisory_Ledger.sample_epoch" "list_all dated demo_six" by code_simp+
  then have steps: "list_all (\<lambda>(env, st). step_ok st) reported_steps" by (simp add: reported_steps_def fresh_ok_def)
  have "profile_text (pr_profile ?p) = ''v1''" by code_simp
  with reports_pass_check [OF s steps refl o] o(1) show ?thesis by auto
qed

end
