(* ===== verification/Spec2Isabelle.thy ===== *)
theory Spec2Isabelle
  imports Identifiers Timestamp Frame Window Condition Capture Sha Json Messages1 Messages2 Messages3 Ledger2 Store2 Crash Recovery Atomic Spool Runtime Delivery
    Inputs Transport Documents Advisory Advisory_Ledger Derived Observation Observation_Queue Facts Product Product_Runs
    Bootstrap Session Session_Props Demo Names Reports Service
begin

text \<open>
  Verification of the brake health service.

  The program watches the braking signals of a vehicle, captures every hard braking event as a
  window of samples, stores the window as a set of canonical JSON messages in a durable queue,
  delivers the messages until each is acknowledged, and runs a condition model over the same
  signals. The C++ sources are under \<^verbatim>\<open>src/\<close> and \<^verbatim>\<open>include/\<close>; the paths below are relative to them.

  \<^bold>\<open>Parts and theories.\<close>

  \<^item> \<open>Prelude\<close>, \<open>Effects\<close>: exceptions as values (\<open>exn\<close>, \<open>result\<close>), C++ integer casts and division, decimal
    text, and operations on a state that survives an exception (\<open>op\<close>) with their invariant rules
    \<open>keeps\<close> and \<open>hoare\<close>.
  \<^item> \<open>Identifiers\<close>: \<^verbatim>\<open>service_identity.hpp\<close> and the identifier, version, digest and UUID grammars that v1,
    v2, v3 and the runtime each implement; the implementations of one grammar are proved equal.
  \<^item> \<open>Timestamp\<close>: \<open>is_rfc3339_millisecond_utc\<close> of \<^verbatim>\<open>v1/model.cpp\<close> and the conversions of \<^verbatim>\<open>v3/advisory.cpp\<close>;
    round trips and order.
  \<^item> \<open>Frame\<close>: the source frame and \<open>FrameValidator::validate\<close>. A \<open>double\<close> is a rational, an infinity or a NaN.
  \<^item> \<open>Engine_Contract\<close>: the locales \<open>hold_timer\<close> and \<open>episode_engine\<close>, the contract that the two capturing
    state machines share; both \<open>Window\<close> and \<open>Capture\<close> interpret them.
  \<^item> \<open>Window\<close>: \<open>WindowEngine\<close> of \<^verbatim>\<open>v1/window.cpp\<close>, one definition per branch of \<open>ingest\<close>; its invariant, what
    every emitted window satisfies, when events start, end and are suppressed.
  \<^item> \<open>Condition\<close>: \<open>SyntheticModel::evaluate\<close> of \<^verbatim>\<open>v2/model.cpp\<close>, refined to a specification over the rationals;
    the reason for which an episode is skipped against a declarative table of defects.
  \<^item> \<open>Capture\<close>: \<open>ModelCapture\<close> and the frame assembly of \<^verbatim>\<open>runtime/model_capture.cpp\<close> and \<^verbatim>\<open>runtime.cpp\<close>, composed
    with the condition model.
  \<^item> \<open>Sha\<close>: SHA-256 (\<^verbatim>\<open>v1/sha256.cpp\<close>) and SHA-1 (\<^verbatim>\<open>v2/messages.cpp\<close>) on 32-bit words, with the padding and the
    hexadecimal text. Nothing is assumed of the hash functions.
  \<^item> \<open>Json\<close>: the strict reader and canonical writer of \<^verbatim>\<open>runtime/json.cpp\<close>; the reader always returns, and
    reads back what the writer wrote.
  \<^item> \<open>Messages1\<close>: \<^verbatim>\<open>v1/messages.cpp\<close>; the chunk loop against the specification \<open>groups\<close>, the stability of
    sealed chunks, that every window of the engine within the schema can be written, and that the engine
    can hand over windows outside it.
  \<^item> \<open>Messages2\<close>: \<^verbatim>\<open>v2/messages.cpp\<close>; name-based identities, assessment and band-change messages, exact
    decimals, and the text of the model state, whose reader accepts exactly what the writer writes.
  \<^item> \<open>Ledger2\<close>, \<open>Store2\<close>: \<open>StateStore\<close> of \<^verbatim>\<open>v2/state_store.cpp\<close>; the texts of the identity ledger and of the
    transaction manifest, and every operation of the store on a disk whose effects may fail, or end
    the process, at any point.
  \<^item> \<open>Crash\<close>, \<open>Recovery\<close>, \<open>Atomic\<close>: the state store across the end of the process. \<open>Crash\<close> follows one transaction
    through its stages with the locale \<open>kept\<close> (what every effect leaves alone), \<open>Recovery\<close> the start that
    finds it, and \<open>Atomic\<close> any number of interrupted starts: an episode is processed entirely or not at
    all, and only once, as long as no effect is cut off in its middle; a removal of the journal that is
    cut off disables the store.
  \<^item> \<open>Spool\<close>: \<open>EventSpool\<close> of \<^verbatim>\<open>v1/spool.cpp\<close> on a file store whose writes may fail at every stage.
  \<^item> \<open>Runtime\<close>: the class \<open>Runtime\<close> of \<^verbatim>\<open>runtime/runtime.cpp\<close> with the acknowledgement check; executions as
    the inductive predicate \<open>reachable\<close>.
  \<^item> \<open>Delivery\<close>: the locales \<open>root_frame\<close> (what an operation on one event leaves alone) and
    \<open>spool_invariant\<close> (what every step of the process keeps), interpreted for the bound of the queue
    and for quarantined events.

  \<^item> \<open>Messages3\<close>: \<^verbatim>\<open>v3/messages.cpp\<close> and the names of \<^verbatim>\<open>v3/advisory.cpp\<close>; requests, gateway statuses and advisory
    facts.
  \<^item> \<open>Inputs\<close>: \<^verbatim>\<open>runtime/application.cpp\<close> (command line, environment, metadata, token file), the credential
    messages of \<^verbatim>\<open>runtime.cpp\<close>, leases, and the headers \<^verbatim>\<open>session_reconnect.hpp\<close> and \<^verbatim>\<open>readiness_publication.hpp\<close>.
  \<^item> \<open>Transport\<close>: the loops of \<^verbatim>\<open>runtime/posix.cpp\<close> over what the kernel answers, and the reader of HTTP
    responses against a description of the responses it supports.
  \<^item> \<open>Documents\<close>: lemmas on JSON documents and their texts, for the ledgers that are stored as JSON.
  \<^item> \<open>Advisory\<close>, \<open>Advisory_Ledger\<close>: \<open>AdvisoryRuntime\<close> of \<^verbatim>\<open>runtime/advisory_runtime.cpp\<close>, the ledger of requests and
    gateway statuses with its journal; what a commit leaves after any interruption and any restarts.
  \<^item> \<open>Derived\<close>: \<^verbatim>\<open>runtime/derived_delivery.cpp\<close>, the delivery of the messages of the state store.
  \<^item> \<open>Observation\<close>, \<open>Observation_Queue\<close>: the class template \<open>FunctionObservation\<close> of
    \<^verbatim>\<open>aosedge/function_observation.hpp\<close> with its checks and its durable queue; executions with failures, ends
    of the process and restarts as the inductive predicate \<open>observing\<close>: what was handed out stays the front of
    the queue until it is acknowledged, and no number is given twice.
  \<^item> \<open>Facts\<close>: the class template \<open>FunctionFacts\<close> of the same header; every setter stays within the check that
    the queue applies.
  \<^item> \<open>Product\<close>, \<open>Product_Runs\<close>: \<^verbatim>\<open>runtime/product.cpp\<close>, which composes the event runtime, the capture, the state
    store, the advisory runtime and the facts; fair selection of the next message, and what a reported
    readiness rests on in any run, interruptions that raise included.
  \<^item> \<open>Names\<close>, \<open>Reports\<close>, \<open>Service\<close>: the composition of the inputs, the product and the observation queue: from a
    start of the process on, what the product reports passes the check of the queue, in every run with
    the inputs its callers pass. \<open>Service\<close> also has the start and the end of the process and of a session.
  \<^item> \<open>Bootstrap\<close>: the private token directory of \<^verbatim>\<open>runtime/token_session.cpp\<close>, the private files of \<^verbatim>\<open>posix.cpp\<close> and
    the loop of \<^verbatim>\<open>runtime/bootstrap_main.cpp\<close> that keeps a token within its lease.
  \<^item> \<open>Session\<close>, \<open>Session_Props\<close>: the turns of \<^verbatim>\<open>runtime/grpc_main.cpp\<close>: the messages of the data broker, the log, the
    subscription, its watcher, the delivery worker and the advisory session; the rate of the log and
    the frames that the messages of the broker give.
  \<^item> \<open>Demo\<close>: the demonstration switches of \<^verbatim>\<open>runtime/demo_mock.hpp\<close> and \<^verbatim>\<open>runtime/demo_no_telemetry.hpp\<close>.

  \<^bold>\<open>How state and operations correspond.\<close> A class is a record of its members and each method a
  function from the record to the record and a result; exceptions are \<open>Inl\<close>. The spool is an
  association list from event ids to directories, and a directory one from file names to contents.
  Arguments stand for what is not in the sources: the UUID source, the write failures (\<open>faults\<close>),
  \<open>std::to_chars\<close> and \<open>std::from_chars\<close> for doubles (\<open>tc\<close>, \<open>fc\<close>), the rounding of doubles (\<open>rnd\<close>).

  \<^bold>\<open>Fuel and bounds.\<close> The loops of the JSON reader over items and fields take the length of the text
  plus one as fuel; \<open>parse_json_total\<close> shows that it never runs out, since every turn reads at least one
  character. All other loops are structural or have a termination proof (\<open>valid_utf8\<close>, \<open>string_loop\<close>,
  \<open>pad_zeros\<close>, \<open>chunk_loop\<close>, \<open>chunked_loop\<close>).

  \<^bold>\<open>Interleaving.\<close> The acquisition and the delivery thread share one mutex, so an execution is a
  sequence of whole operations. A failure of a write leaves the file as it was before the rename or
  as it is after it; the end of the process is a failure after which the next step is a start.

  \<^bold>\<open>Not modelled.\<close> The polling deadlines of \<^verbatim>\<open>posix.cpp\<close>; the threads, signal handlers, sleeps, the start of the
  analytics process and the set-up of channels and streams of \<^verbatim>\<open>grpc_main.cpp\<close> and \<^verbatim>\<open>bootstrap_main.cpp\<close>: they are
  system interfaces around the modelled turns. A turn takes the clocks, the answers of the broker and
  of the backend as arguments; the broker's messages are records of what their accessors return.
  Symbolic links and file permissions are not part of the file stores (the type and mode checks of the
  readers pass on the service's own files), nor are temporary files, which no reader looks at; of the
  token directory, owner, mode and entries are. In the event spool, renames and creations of directories
  do not fail and a removal is not cut off; in the state store a removal may be cut off midway, and the
  creation of its three directories is one effect. The product in \<open>quantize_milli\<close> is exact, as it is for
  promoted \<open>float\<close> values; clocks and lease times are unbounded integers; a log line is written as a whole.
\<close>

end
